(* ===== verification/Prelude.thy ===== *)
theory Prelude
  imports
    Main
    "HOL-Library.AList"
    "HOL-Library.Word"
    "HOL-Library.List_Lexorder"
    "HOL-Library.Char_ord"
    "HOL-Library.Product_Lexorder"
begin

text \<open>
  The vocabulary every component shares: Go maps as association lists with the laws of a
  finite map, sums over the values of such a map, instants and durations in nanoseconds,
  and the collections of simplification rules the component proofs draw on.

  A Go map \<open>map[K]V\<close> is a list of pairs: \<open>m[k]\<close> with its \<open>ok\<close> is \<open>map_of m k\<close>, an assignment
  is \<open>AList.update k v m\<close>, \<open>delete(m, k)\<close> is \<open>AList.delete k m\<close> and \<open>len(m)\<close> is \<open>length m\<close>.
  A Go set \<open>map[K]struct{}\<close> is a list without duplicates. The order of the pairs plays no
  role in the program: Go's iteration order is unspecified and every listing is sorted.
\<close>

named_theorems gomap "laws of Go maps and sets as association lists"
named_theorems handler_defs "definitions of handlers, to unfold a step into its branches"

type_synonym ('k, 'v) gomap = "('k \<times> 'v) list"

text \<open>The index value a read of a missing key yields: Go's zero value, given explicitly.\<close>

definition get_or :: "'v \<Rightarrow> ('k, 'v) gomap \<Rightarrow> 'k \<Rightarrow> 'v" where
  "get_or z m k = (case map_of m k of Some v \<Rightarrow> v | None \<Rightarrow> z)"

definition wf_map :: "('k, 'v) gomap \<Rightarrow> bool" where
  "wf_map m \<longleftrightarrow> distinct (map fst m)"

section \<open>The interface of a finite map\<close>

text \<open>
  What the components rely on of a Go map: reading back what was stored or deleted, and
  the effect of both on the number of keys. The lemmas of the locale are the ones the
  capacity arguments use.
\<close>

locale finite_map =
  fixes look :: "'m \<Rightarrow> 'k \<Rightarrow> 'v option"
    and put :: "'k \<Rightarrow> 'v \<Rightarrow> 'm \<Rightarrow> 'm"
    and del :: "'k \<Rightarrow> 'm \<Rightarrow> 'm"
    and len :: "'m \<Rightarrow> nat"
    and wf :: "'m \<Rightarrow> bool"
  assumes look_put: "look (put k v m) k' = (if k' = k then Some v else look m k')"
    and look_del: "look (del k m) k' = (if k' = k then None else look m k')"
    and wf_put: "wf m \<Longrightarrow> wf (put k v m)"
    and wf_del: "wf m \<Longrightarrow> wf (del k m)"
    and len_put: "len (put k v m) = (if look m k = None then Suc (len m) else len m)"
    and len_del: "wf m \<Longrightarrow> len (del k m) = (if look m k = None then len m else len m - 1)"
    and look_len: "look m k = Some v \<Longrightarrow> 0 < len m"
begin

lemma look_put_same: "look (put k v m) k = Some v"
  by (simp add: look_put)

lemma look_put_other: "k' \<noteq> k \<Longrightarrow> look (put k v m) k' = look m k'"
  by (simp add: look_put)

lemma len_put_le: "len (put k v m) \<le> Suc (len m)"
  by (simp add: len_put)

lemma len_put_mono: "len m \<le> len (put k v m)"
  by (simp add: len_put)

lemma len_del_le: "wf m \<Longrightarrow> len (del k m) \<le> len m"
  by (simp add: len_del)

text \<open>Replacing one key by another, the shape of every eviction, never grows the map.\<close>

lemma len_evict:
  assumes "wf m" and "look m k = Some v"
  shows "len (put k' v' (del k m)) \<le> len m"
  using len_put_le [of k' v' "del k m"] len_del [OF assms(1), of k] look_len [OF assms(2)] assms(2)
  by simp

lemma put_bounded: "len m < n \<Longrightarrow> len (put k v m) \<le> n"
  using len_put_le [of k v m] by simp

end

lemma length_update: "length (AList.update k v m) = (if map_of m k = None then Suc (length m) else length m)"
  by (induction m) auto

lemma length_delete_wf:
  "distinct (map fst m) \<Longrightarrow>
   length (AList.delete k m) = (if map_of m k = None then length m else length m - 1)"
proof (induction m)
  case Nil
  then show ?case by (simp add: AList.delete_eq)
next
  case (Cons p m)
  obtain a b where p: "p = (a, b)" by (cases p)
  have del: "a \<notin> fst ` set m \<Longrightarrow> AList.delete a m = m"
    by (force simp: AList.delete_eq intro: filter_True)
  have pos: "map_of m k \<noteq> None \<Longrightarrow> 0 < length m" by (cases m) auto
  show ?case
  proof (cases "a = k")
    case True
    with Cons.prems p del show ?thesis by (simp add: AList.delete_eq)
  next
    case False
    with Cons p pos show ?thesis by (auto simp: AList.delete_eq Suc_diff_Suc)
  qed
qed

interpretation gm: finite_map map_of AList.update AList.delete length wf_map
proof unfold_locales
  show "map_of (AList.update k v m) k' = (if k' = k then Some v else map_of m k')"
    for k :: 'a and v :: 'b and m k' by (simp add: update_conv')
  show "map_of (AList.delete k m) k' = (if k' = k then None else map_of m k')"
    for k :: 'a and m :: "('a \<times> 'b) list" and k' by (simp add: delete_conv')
  show "wf_map (AList.update k v m)" if "wf_map m" for k :: 'a and v :: 'b and m
    using that by (simp add: wf_map_def distinct_update)
  show "wf_map (AList.delete k m)" if "wf_map m" for k :: 'a and m :: "('a \<times> 'b) list"
    using that by (simp add: wf_map_def distinct_delete)
  show "length (AList.update k v m) = (if map_of m k = None then Suc (length m) else length m)"
    for k :: 'a and v :: 'b and m by (rule length_update)
  show "length (AList.delete k m) = (if map_of m k = None then length m else length m - 1)"
    if "wf_map m" for k :: 'a and m :: "('a \<times> 'b) list"
    using that by (simp add: wf_map_def length_delete_wf)
  show "0 < length m" if "map_of m k = Some v" for m :: "('a \<times> 'b) list" and k v
    using that by (cases m) auto
qed

lemmas [gomap, simp] = gm.look_put gm.look_del
lemmas [gomap, intro] = gm.wf_put gm.wf_del

lemma wf_map_Nil [gomap, simp]: "wf_map []"
  by (simp add: wf_map_def)

lemma get_or_put [gomap, simp]: "get_or z (AList.update k v m) k' = (if k' = k then v else get_or z m k')"
  by (simp add: get_or_def)

lemma get_or_del [gomap, simp]: "get_or z (AList.delete k m) k' = (if k' = k then z else get_or z m k')"
  by (simp add: get_or_def)

lemma map_of_in_set: "wf_map m \<Longrightarrow> (k, v) \<in> set m \<longleftrightarrow> map_of m k = Some v"
  by (simp add: wf_map_def)

lemma map_of_filter_pairs:
  "wf_map m \<Longrightarrow> map_of (filter (\<lambda>(k, v). P k v) m) k =
     (case map_of m k of Some v \<Rightarrow> if P k v then Some v else None | None \<Rightarrow> None)"
proof (induction m)
  case Nil
  then show ?case by simp
next
  case (Cons p m)
  obtain a b where p: "p = (a, b)" by (cases p)
  from Cons.prems p have wf: "wf_map m" and a: "map_of m a = None"
    by (auto simp: wf_map_def map_of_eq_None_iff)
  show ?case using Cons.IH [OF wf] p a by (auto split: option.splits)
qed

lemma wf_map_filter [gomap]: "wf_map m \<Longrightarrow> wf_map (filter P m)"
  by (simp add: wf_map_def distinct_map_filter)

section \<open>Sums over the values of a map\<close>

definition gsum :: "('v \<Rightarrow> int) \<Rightarrow> ('k, 'v) gomap \<Rightarrow> int" where
  "gsum f m = sum_list (map (f \<circ> snd) m)"

lemma gsum_Nil [simp]: "gsum f [] = 0"
  by (simp add: gsum_def)

lemma gsum_update:
  "gsum f (AList.update k v m) =
     gsum f m - (case map_of m k of Some w \<Rightarrow> f w | None \<Rightarrow> 0) + f v"
  by (induction m) (auto simp: gsum_def)

lemma gsum_delete:
  "wf_map m \<Longrightarrow> gsum f (AList.delete k m) =
     gsum f m - (case map_of m k of Some w \<Rightarrow> f w | None \<Rightarrow> 0)"
proof (induction m)
  case Nil
  then show ?case by (simp add: AList.delete_eq)
next
  case (Cons p m)
  obtain a b where p: "p = (a, b)" by (cases p)
  from Cons.prems p have wf: "wf_map m" and a: "a \<notin> fst ` set m" by (auto simp: wf_map_def)
  have del: "AList.delete a m = m" using a by (force simp: AList.delete_eq intro: filter_True)
  show ?case
    using Cons.IH [OF wf] p a del by (cases "a = k") (auto simp: gsum_def AList.delete_eq)
qed

lemma gsum_nonneg: "(\<And>k v. (k, v) \<in> set m \<Longrightarrow> 0 \<le> f v) \<Longrightarrow> 0 \<le> gsum f m"
  unfolding gsum_def by (rule sum_list_nonneg) auto

lemma gsum_cong: "(\<And>k v. (k, v) \<in> set m \<Longrightarrow> f v = g v) \<Longrightarrow> gsum f m = gsum g m"
  unfolding gsum_def by (rule arg_cong [where f = sum_list]) auto

lemma gsum_le_length: "(\<And>v. f v \<le> 1) \<Longrightarrow> gsum f m \<le> int (length m)"
proof (induction m)
  case (Cons p m)
  then have "f (snd p) \<le> 1" "gsum f m \<le> int (length m)" by blast+
  then show ?case by (simp add: gsum_def)
qed simp

lemma gsum_add: "gsum (\<lambda>v. f v + g v) m = gsum f m + gsum g m"
  by (induction m) (auto simp: gsum_def)

lemma gsum_one: "gsum (\<lambda>_. 1) m = int (length m)"
  by (induction m) (auto simp: gsum_def)

section \<open>Go sets\<close>

definition set_add :: "'a \<Rightarrow> 'a list \<Rightarrow> 'a list" where
  "set_add x xs = List.insert x xs"

definition set_del :: "'a \<Rightarrow> 'a list \<Rightarrow> 'a list" where
  "set_del x xs = removeAll x xs"

lemma set_set_add [gomap, simp]: "set (set_add x xs) = insert x (set xs)"
  by (simp add: set_add_def)

lemma set_set_del [gomap, simp]: "set (set_del x xs) = set xs - {x}"
  by (simp add: set_del_def)

lemma distinct_set_add [gomap, simp]: "distinct xs \<Longrightarrow> distinct (set_add x xs)"
  by (simp add: set_add_def)

lemma distinct_set_del [gomap, simp]: "distinct xs \<Longrightarrow> distinct (set_del x xs)"
  by (simp add: set_del_def distinct_removeAll)

lemma set_add_not_Nil [gomap, simp]: "set_add x xs \<noteq> []"
  using set_set_add [of x xs] by (metis empty_not_insert list.set(1))

section \<open>Time\<close>

text \<open>
  An instant (\<open>time.Time\<close>) is its distance from Go's zero time in nanoseconds, a duration is
  a number of nanoseconds. \<open>IsZero\<close> is equality with 0, \<open>Before\<close> and \<open>After\<close> are the order,
  \<open>Add\<close> is addition. \<open>Sub\<close> saturates at the ends of the 64-bit range, as Go's does.
\<close>

type_synonym gotime = int
type_synonym duration = int

abbreviation second :: duration where "second \<equiv> 1000000000"
abbreviation minute :: duration where "minute \<equiv> 60 * second"
abbreviation hour :: duration where "hour \<equiv> 60 * minute"

definition max_duration :: duration where "max_duration = 2 ^ 63 - 1"
definition min_duration :: duration where "min_duration = - (2 ^ 63)"

definition time_sub :: "gotime \<Rightarrow> gotime \<Rightarrow> duration" where
  "time_sub t u = max min_duration (min max_duration (t - u))"

lemma time_sub_ge_iff:
  "min_duration < d \<Longrightarrow> d \<le> max_duration \<Longrightarrow> d \<le> time_sub t u \<longleftrightarrow> d \<le> t - u"
  by (auto simp: time_sub_def)

lemma time_sub_self [simp]: "time_sub t t = 0"
  by (simp add: time_sub_def min_duration_def max_duration_def)

end
