(* ===== verification/GoStrings.thy ===== *)
theory GoStrings
  imports Prelude
begin

text \<open>
  Go strings as byte sequences (\<open>char\<close> is a byte) and the part of \<open>strings\<close>, \<open>unicode\<close>,
  \<open>unicode/utf8\<close>, \<open>encoding/hex\<close> and \<open>strconv\<close> the program uses: UTF-8 decoding with
  Go's one-byte replacement for an invalid sequence, trimming and splitting at white
  space, prefixes, joins and \<open>compositeKey\<close> of \<open>internal/gateway/process_key.go\<close>.
\<close>

section \<open>UTF-8\<close>

abbreviation byte_of :: "char \<Rightarrow> nat" where "byte_of c \<equiv> of_char c"

definition cont_byte :: "char \<Rightarrow> bool" where
  "cont_byte c \<longleftrightarrow> 128 \<le> byte_of c \<and> byte_of c \<le> 191"

text \<open>\<open>utf8.RuneStart\<close>: the byte is not a continuation byte.\<close>

definition rune_start :: "char \<Rightarrow> bool" where
  "rune_start c \<longleftrightarrow> \<not> cont_byte c"

abbreviation rune_error :: nat where "rune_error \<equiv> 65533"

text \<open>The least and greatest second byte after a given first byte of a 3 or 4 byte sequence.\<close>

definition second_lo :: "nat \<Rightarrow> nat" where
  "second_lo b = (if b = 224 then 160 else if b = 240 then 144 else 128)"

definition second_hi :: "nat \<Rightarrow> nat" where
  "second_hi b = (if b = 237 then 159 else if b = 244 then 143 else 191)"

text \<open>\<open>utf8.DecodeRuneInString\<close>: the rune and its width; an invalid sequence is U+FFFD, width 1.\<close>

fun decode_rune :: "string \<Rightarrow> nat \<times> nat" where
  "decode_rune [] = (rune_error, 0)"
| "decode_rune (c # t) =
     (let b = byte_of c; second_ok = (\<lambda>d. second_lo b \<le> byte_of d \<and> byte_of d \<le> second_hi b) in
      if b < 128 then (b, 1)
      else case t of
        [] \<Rightarrow> (rune_error, 1)
      | c1 # t1 \<Rightarrow>
          if 194 \<le> b \<and> b \<le> 223 then
            (if cont_byte c1 then ((b - 192) * 64 + (byte_of c1 - 128), 2) else (rune_error, 1))
          else if 224 \<le> b \<and> b \<le> 239 then
            (case t1 of
               c2 # _ \<Rightarrow>
                 if second_ok c1 \<and> cont_byte c2
                 then ((b - 224) * 4096 + (byte_of c1 - 128) * 64 + (byte_of c2 - 128), 3)
                 else (rune_error, 1)
             | [] \<Rightarrow> (rune_error, 1))
          else if 240 \<le> b \<and> b \<le> 244 then
            (case t1 of
               c2 # c3 # _ \<Rightarrow>
                 if second_ok c1 \<and> cont_byte c2 \<and> cont_byte c3
                 then ((b - 240) * 262144 + (byte_of c1 - 128) * 4096
                       + (byte_of c2 - 128) * 64 + (byte_of c3 - 128), 4)
                 else (rune_error, 1)
             | _ \<Rightarrow> (rune_error, 1))
          else (rune_error, 1))"

lemma decode_rune_width:
  "s \<noteq> [] \<Longrightarrow> 1 \<le> snd (decode_rune s) \<and> snd (decode_rune s) \<le> length s \<and> snd (decode_rune s) \<le> 4"
  by (cases s rule: decode_rune.cases) (auto simp: Let_def split: list.splits)

text \<open>The runes of a string with the bytes each was read from: Go's \<open>for range\<close>.\<close>

function runes :: "string \<Rightarrow> (nat \<times> string) list" where
  "runes s = (if s = [] then []
     else let (r, n) = decode_rune s in (r, take n s) # runes (drop n s))"
  by pat_completeness auto
termination
proof (relation "measure length", goal_cases)
  case 1
  show ?case by simp
next
  case (2 s p r n)
  then have "1 \<le> n" using decode_rune_width [of s] by (metis snd_conv)
  with 2 show ?case by (cases s) auto
qed

declare runes.simps [simp del]

lemma runes_Nil [simp]: "runes [] = []"
  by (simp add: runes.simps)

lemma runes_step:
  "s \<noteq> [] \<Longrightarrow> runes s = (fst (decode_rune s), take (snd (decode_rune s)) s)
                       # runes (drop (snd (decode_rune s)) s)"
  by (subst runes.simps) (simp add: Let_def split_beta)

lemma runes_not_Nil [simp]: "runes s = [] \<longleftrightarrow> s = []"
  by (cases "s = []") (simp_all add: runes_step)

text \<open>The width of the first rune, and induction rune by rune.\<close>

definition rune_width :: "string \<Rightarrow> nat" where
  "rune_width s = snd (decode_rune s)"

lemma rune_width_bounds:
  "s \<noteq> [] \<Longrightarrow> 1 \<le> rune_width s"
  "s \<noteq> [] \<Longrightarrow> rune_width s \<le> length s"
  "s \<noteq> [] \<Longrightarrow> rune_width s \<le> 4"
  using decode_rune_width [of s] by (simp_all add: rune_width_def)

lemma runes_cons:
  "s \<noteq> [] \<Longrightarrow> runes s = (fst (decode_rune s), take (rune_width s) s) # runes (drop (rune_width s) s)"
  by (simp add: runes_step rune_width_def)

lemma runes_induct [case_names Nil Rune]:
  assumes "P []" and "\<And>s. s \<noteq> [] \<Longrightarrow> P (drop (rune_width s) s) \<Longrightarrow> P s"
  shows "P s"
proof (induction s rule: length_induct)
  case (1 s)
  show ?case
  proof (cases "s = []")
    case True
    with assms(1) show ?thesis by simp
  next
    case False
    then have "length (drop (rune_width s) s) < length s"
      using rune_width_bounds [of s] by (cases s) auto
    with 1 have "P (drop (rune_width s) s)" by blast
    with False assms(2) show ?thesis by blast
  qed
qed

text \<open>Reading a string rune by rune loses no byte.\<close>

lemma concat_runes: "concat (map snd (runes s)) = s"
  by (induction s rule: runes_induct) (simp_all add: runes_cons)

lemma runes_pieces: "p \<in> set (runes s) \<Longrightarrow> 1 \<le> length (snd p) \<and> length (snd p) \<le> 4"
proof (induction s rule: runes_induct)
  case (Rune s)
  with rune_width_bounds [of s] show ?case by (auto simp: runes_cons)
qed simp

text \<open>Evaluating on ASCII text.\<close>

lemma runes_ascii: "byte_of c < 128 \<Longrightarrow> runes (c # s) = (byte_of c, [c]) # runes s"
  by (simp add: runes_cons rune_width_def Let_def)

text \<open>\<open>utf8.RuneCountInString\<close> and \<open>utf8.ValidString\<close>.\<close>

definition rune_count :: "string \<Rightarrow> nat" where
  "rune_count s = length (runes s)"

definition invalid_piece :: "nat \<times> string \<Rightarrow> bool" where
  "invalid_piece p \<longleftrightarrow> fst p = rune_error \<and> length (snd p) = 1"

definition valid_utf8 :: "string \<Rightarrow> bool" where
  "valid_utf8 s \<longleftrightarrow> (\<forall>p \<in> set (runes s). \<not> invalid_piece p)"

lemma rune_count_le_length: "rune_count s \<le> length s"
proof (induction s rule: runes_induct)
  case (Rune s)
  then have "rune_count s \<le> Suc (length s - rune_width s)"
    by (simp add: rune_count_def runes_cons)
  with rune_width_bounds [OF Rune.hyps] show ?case by linarith
qed (simp add: rune_count_def)

lemma rune_count_Nil [simp]: "rune_count s = 0 \<longleftrightarrow> s = []"
  by (simp add: rune_count_def)

section \<open>White space and case\<close>

text \<open>\<open>unicode.IsSpace\<close> and \<open>unicode.IsControl\<close>.\<close>

definition is_space :: "nat \<Rightarrow> bool" where
  "is_space r \<longleftrightarrow> (9 \<le> r \<and> r \<le> 13) \<or> r = 32 \<or> r = 133 \<or> r = 160 \<or> r = 5760
     \<or> (8192 \<le> r \<and> r \<le> 8202) \<or> r = 8232 \<or> r = 8233 \<or> r = 8239 \<or> r = 8287 \<or> r = 12288"

definition is_control :: "nat \<Rightarrow> bool" where
  "is_control r \<longleftrightarrow> r < 32 \<or> (127 \<le> r \<and> r < 160)"

definition rune_bytes :: "(nat \<times> string) list \<Rightarrow> string" where
  "rune_bytes ps = concat (map snd ps)"

definition space_piece :: "nat \<times> string \<Rightarrow> bool" where
  "space_piece p \<longleftrightarrow> is_space (fst p)"

text \<open>\<open>strings.TrimSpace\<close>, \<open>strings.TrimLeftFunc(s, unicode.IsSpace)\<close> and \<open>strings.Fields\<close>.\<close>

definition trim_left :: "string \<Rightarrow> string" where
  "trim_left s = rune_bytes (dropWhile space_piece (runes s))"

definition trim_space :: "string \<Rightarrow> string" where
  "trim_space s = rune_bytes (rev (dropWhile space_piece (rev (dropWhile space_piece (runes s)))))"

fun fields_of :: "(nat \<times> string) list \<Rightarrow> (nat \<times> string) list \<Rightarrow> string list" where
  "fields_of cur [] = (if cur = [] then [] else [rune_bytes (rev cur)])"
| "fields_of cur (p # ps) =
     (if space_piece p then (if cur = [] then fields_of [] ps else rune_bytes (rev cur) # fields_of [] ps)
      else fields_of (p # cur) ps)"

definition str_fields :: "string \<Rightarrow> string list" where
  "str_fields s = fields_of [] (runes s)"

text \<open>
  \<open>strings.ToLower\<close>, as far as a comparison with ASCII words can see it: the ASCII letters and
  the two other runes whose lower case is an ASCII letter, U+0130 and the Kelvin sign U+212A.
\<close>

definition to_lower_piece :: "nat \<times> string \<Rightarrow> string" where
  "to_lower_piece p =
     (if 65 \<le> fst p \<and> fst p \<le> 90 then [char_of (fst p + 32)]
      else if fst p = 304 then [char_of (105 :: nat)]
      else if fst p = 8490 then [char_of (107 :: nat)]
      else snd p)"

definition to_lower :: "string \<Rightarrow> string" where
  "to_lower s = concat (map to_lower_piece (runes s))"

section \<open>Prefixes, searching, joining\<close>

definition has_prefix :: "string \<Rightarrow> string \<Rightarrow> bool" where
  "has_prefix s p \<longleftrightarrow> take (length p) s = p"

definition trim_prefix :: "string \<Rightarrow> string \<Rightarrow> string" where
  "trim_prefix s p = (if has_prefix s p then drop (length p) s else s)"

text \<open>\<open>strings.Cut(s, sep)\<close> for a one-byte separator.\<close>

definition cut_at :: "char \<Rightarrow> string \<Rightarrow> string \<times> string \<times> bool" where
  "cut_at c s = (let p = takeWhile (\<lambda>d. d \<noteq> c) s in
     if length p < length s then (p, drop (Suc (length p)) s, True) else (s, [], False))"

text \<open>\<open>strings.Join(parts, sep)\<close> and the gateway's \<open>compositeKey\<close>.\<close>

fun join :: "string \<Rightarrow> string list \<Rightarrow> string" where
  "join sep [] = []"
| "join sep [x] = x"
| "join sep (x # y # xs) = x @ sep @ join sep (y # xs)"

definition compositeKey :: "string list \<Rightarrow> string" where
  "compositeKey parts = join ''|'' parts"

lemma has_prefix_append [simp]: "has_prefix (p @ s) p"
  by (simp add: has_prefix_def)

lemma has_prefix_iff: "has_prefix s p \<longleftrightarrow> (\<exists>t. s = p @ t)"
  unfolding has_prefix_def by (metis append_eq_conv_conj append_take_drop_id)

lemma trim_prefix_append [simp]: "trim_prefix (p @ s) p = s"
  by (simp add: trim_prefix_def)

text \<open>
  Composite keys identify their parts when no part but the last holds the separator. Account
  and chat identifiers come from the platforms; this is the condition under which two of them
  cannot share an index entry.
\<close>

lemma join_cons: "xs \<noteq> [] \<Longrightarrow> join sep (x # xs) = x @ sep @ join sep xs"
  by (cases xs) auto

lemma split_at_first:
  assumes "c \<notin> set a" and "c \<notin> set b" and "a @ c # s = b @ c # t"
  shows "a = b \<and> s = t"
  using assms
proof (induction a arbitrary: b)
  case Nil
  then show ?case by (cases b) auto
next
  case (Cons x a)
  then show ?case by (cases b) auto
qed

lemma compositeKey_inj:
  assumes "length xs = length ys"
    and "\<forall>x \<in> set (butlast xs) \<union> set (butlast ys). CHR ''|'' \<notin> set x"
    and "compositeKey xs = compositeKey ys"
  shows "xs = ys"
  using assms
proof (induction xs ys rule: list_induct2)
  case (Cons x xs y ys)
  show ?case
  proof (cases "xs = []")
    case True
    with Cons show ?thesis by (auto simp: compositeKey_def)
  next
    case False
    with Cons.hyps have ys: "ys \<noteq> []" by auto
    from Cons.prems(2) False ys
    have eq: "x @ CHR ''|'' # compositeKey xs = y @ CHR ''|'' # compositeKey ys"
      by (simp add: compositeKey_def join_cons)
    from Cons.prems(1) False ys have "CHR ''|'' \<notin> set x" "CHR ''|'' \<notin> set y" by auto
    from split_at_first [OF this eq] have "x = y" "compositeKey xs = compositeKey ys" by auto
    with Cons.IH Cons.prems(1) False ys show ?thesis by auto
  qed
qed simp

lemmas ascii_eval = runes_ascii valid_utf8_def invalid_piece_def rune_count_def

section \<open>Numbers in text\<close>

text \<open>\<open>strconv.Itoa\<close> and \<open>strconv.FormatUint\<close> in base 10.\<close>

definition digit_char :: "nat \<Rightarrow> char" where
  "digit_char n = char_of (48 + n)"

fun nat_digits :: "nat \<Rightarrow> string" where
  "nat_digits n = (if n < 10 then [digit_char n] else nat_digits (n div 10) @ [digit_char (n mod 10)])"

declare nat_digits.simps [simp del]

definition itoa :: "int \<Rightarrow> string" where
  "itoa i = (if i < 0 then ''-'' @ nat_digits (nat (- i)) else nat_digits (nat i))"

lemma nat_digits_not_Nil [simp]: "nat_digits n \<noteq> []"
  by (subst nat_digits.simps) simp

text \<open>\<open>hex.EncodeToString\<close>, and whether \<open>hex.DecodeString\<close> accepts a string.\<close>

definition hex_digit :: "nat \<Rightarrow> char" where
  "hex_digit n = (if n < 10 then char_of (48 + n) else char_of (87 + n))"

definition hex_encode :: "string \<Rightarrow> string" where
  "hex_encode s = concat (map (\<lambda>c. [hex_digit (byte_of c div 16), hex_digit (byte_of c mod 16)]) s)"

definition is_hex :: "char \<Rightarrow> bool" where
  "is_hex c \<longleftrightarrow> (let b = byte_of c in (48 \<le> b \<and> b \<le> 57) \<or> (97 \<le> b \<and> b \<le> 102) \<or> (65 \<le> b \<and> b \<le> 70))"

text \<open>\<open>hex.DecodeString\<close> as the number of decoded bytes; \<open>None\<close> is its error.\<close>

definition hex_decoded_length :: "string \<Rightarrow> nat option" where
  "hex_decoded_length s =
     (if even (length s) \<and> list_all is_hex s then Some (length s div 2) else None)"

lemma length_hex_encode [simp]: "length (hex_encode s) = 2 * length s"
  by (induction s) (auto simp: hex_encode_def)

end
