(* ===== verification/GoEncoding.thy ===== *)
theory GoEncoding
  imports GoStrings
begin

text \<open>
  Encodings of Go's standard library the program computes keys, digests and sizes with:
  \<open>encoding/json\<close> for strings, integers and objects with fixed keys, and \<open>crypto/sha256\<close>.
\<close>

unbundle bit_operations_syntax

section \<open>JSON\<close>

text \<open>\<open>json.Marshal\<close> of a string, with the default escaping of HTML characters.\<close>

definition quote_char :: char where "quote_char = CHR 0x22"
definition backslash_char :: char where "backslash_char = CHR 0x5C"

definition unicode_escape :: "nat \<Rightarrow> string" where
  "unicode_escape r = backslash_char # CHR ''u'' #
     map hex_digit [r div 4096 mod 16, r div 256 mod 16, r div 16 mod 16, r mod 16]"

definition json_piece :: "nat \<times> string \<Rightarrow> string" where
  "json_piece p =
     (let r = fst p in
      if r = 34 \<or> r = 92 then [backslash_char, char_of r]
      else if r = 8 then [backslash_char, CHR ''b'']
      else if r = 12 then [backslash_char, CHR ''f'']
      else if r = 10 then [backslash_char, CHR ''n'']
      else if r = 13 then [backslash_char, CHR ''r'']
      else if r = 9 then [backslash_char, CHR ''t'']
      else if r < 32 \<or> r = 60 \<or> r = 62 \<or> r = 38 then unicode_escape r
      else if invalid_piece p \<or> r = 8232 \<or> r = 8233 then unicode_escape r
      else snd p)"

definition json_string :: "string \<Rightarrow> string" where
  "json_string s = quote_char # concat (map json_piece (runes s)) @ [quote_char]"

definition json_strings :: "string list \<Rightarrow> string" where
  "json_strings xs = CHR ''['' # join '','' (map json_string xs) @ '']''"

text \<open>An object from its fields, in order; a field left out by \<open>omitempty\<close> is \<open>None\<close>.\<close>

definition json_field :: "string \<times> string \<Rightarrow> string" where
  "json_field f = quote_char # fst f @ quote_char # CHR '':'' # snd f"

definition json_object :: "(string \<times> string) option list \<Rightarrow> string" where
  "json_object fs = CHR ''{'' # join '','' (map json_field (List.map_filter id fs)) @ ''}''"

definition json_bool :: "bool \<Rightarrow> string" where
  "json_bool b = (if b then ''true'' else ''false'')"

text \<open>A string field, one with \<open>omitempty\<close>, and an unsigned field with \<open>omitempty\<close>.\<close>

definition fstr :: "string \<Rightarrow> string \<Rightarrow> (string \<times> string) option" where
  "fstr k v = Some (k, json_string v)"

definition fstr_omit :: "string \<Rightarrow> string \<Rightarrow> (string \<times> string) option" where
  "fstr_omit k v = (if v = [] then None else Some (k, json_string v))"

definition fuint :: "string \<Rightarrow> 64 word \<Rightarrow> (string \<times> string) option" where
  "fuint k v = Some (k, nat_digits (unat v))"

definition fuint_omit :: "string \<Rightarrow> 64 word \<Rightarrow> (string \<times> string) option" where
  "fuint_omit k v = (if v = 0 then None else Some (k, nat_digits (unat v)))"

lemmas json_eval = json_string_def json_strings_def json_object_def json_field_def json_piece_def json_bool_def quote_char_def
  fstr_def fstr_omit_def fuint_def fuint_omit_def List.map_filter_def join_cons nat_digits.simps ascii_eval Let_def

section \<open>SHA-256\<close>

type_synonym u32 = "32 word"

definition sha256_k :: "u32 list" where
  "sha256_k = [
     1116352408, 1899447441, 3049323471, 3921009573, 961987163, 1508970993, 2453635748, 2870763221,
     3624381080, 310598401, 607225278, 1426881987, 1925078388, 2162078206, 2614888103, 3248222580,
     3835390401, 4022224774, 264347078, 604807628, 770255983, 1249150122, 1555081692, 1996064986,
     2554220882, 2821834349, 2952996808, 3210313671, 3336571891, 3584528711, 113926993, 338241895,
     666307205, 773529912, 1294757372, 1396182291, 1695183700, 1986661051, 2177026350, 2456956037,
     2730485921, 2820302411, 3259730800, 3345764771, 3516065817, 3600352804, 4094571909, 275423344,
     430227734, 506948616, 659060556, 883997877, 958139571, 1322822218, 1537002063, 1747873779,
     1955562222, 2024104815, 2227730452, 2361852424, 2428436474, 2756734187, 3204031479, 3329325298]"

definition sha256_init :: "u32 list" where
  "sha256_init = [1779033703, 3144134277, 1013904242, 2773480762,
                  1359893119, 2600822924, 528734635, 1541459225]"

definition rotr32 :: "nat \<Rightarrow> u32 \<Rightarrow> u32" where
  "rotr32 n x = (drop_bit n x) OR (push_bit (32 - n) x)"

definition small_sigma0 :: "u32 \<Rightarrow> u32" where
  "small_sigma0 x = rotr32 7 x XOR rotr32 18 x XOR drop_bit 3 x"
definition small_sigma1 :: "u32 \<Rightarrow> u32" where
  "small_sigma1 x = rotr32 17 x XOR rotr32 19 x XOR drop_bit 10 x"
definition big_sigma0 :: "u32 \<Rightarrow> u32" where
  "big_sigma0 x = rotr32 2 x XOR rotr32 13 x XOR rotr32 22 x"
definition big_sigma1 :: "u32 \<Rightarrow> u32" where
  "big_sigma1 x = rotr32 6 x XOR rotr32 11 x XOR rotr32 25 x"

text \<open>The message schedule, newest word first: words \<open>i - 2\<close>, \<open>i - 7\<close>, \<open>i - 15\<close>, \<open>i - 16\<close> are 1, 6, 14, 15.\<close>

fun sha256_schedule :: "nat \<Rightarrow> u32 list \<Rightarrow> u32 list" where
  "sha256_schedule 0 ws = rev ws"
| "sha256_schedule (Suc n) ws =
     sha256_schedule n ((small_sigma1 (ws ! 1) + ws ! 6 + small_sigma0 (ws ! 14) + ws ! 15) # ws)"

fun sha256_round :: "u32 \<times> u32 \<Rightarrow> u32 list \<Rightarrow> u32 list" where
  "sha256_round (k, w) [a, b, c, d, e, f, g, h] =
     (let t1 = h + big_sigma1 e + ((e AND f) XOR (NOT e AND g)) + k + w;
          t2 = big_sigma0 a + ((a AND b) XOR (a AND c) XOR (b AND c))
      in [t1 + t2, a, b, c, d + t1, e, f, g])"
| "sha256_round _ st = st"

definition be_word :: "string \<Rightarrow> u32" where
  "be_word bs = word_of_nat (foldl (\<lambda>acc c. acc * 256 + byte_of c) 0 bs)"

fun chunks :: "nat \<Rightarrow> 'a list \<Rightarrow> 'a list list" where
  "chunks n xs = (if n = 0 \<or> xs = [] then [] else take n xs # chunks n (drop n xs))"

declare chunks.simps [simp del]

definition sha256_block :: "u32 list \<Rightarrow> string \<Rightarrow> u32 list" where
  "sha256_block st blk =
     (let ws = sha256_schedule 48 (rev (map be_word (chunks 4 blk)))
      in map2 (+) st (fold sha256_round (zip sha256_k ws) st))"

definition be_bytes :: "nat \<Rightarrow> nat \<Rightarrow> string" where
  "be_bytes n v = map (\<lambda>i. char_of (v div 256 ^ (n - 1 - i) mod 256)) [0..<n]"

definition sha256_pad :: "string \<Rightarrow> string" where
  "sha256_pad s = s @ [CHR 0x80] @ replicate ((119 - length s mod 64) mod 64) (CHR 0x00)
     @ be_bytes 8 (8 * length s)"

definition sha256 :: "string \<Rightarrow> string" where
  "sha256 s = concat (map (\<lambda>w. be_bytes 4 (unat w))
     (foldl sha256_block sha256_init (chunks 64 (sha256_pad s))))"

lemma length_be_bytes [simp]: "length (be_bytes n v) = n"
  by (simp add: be_bytes_def)

lemma length_sha256_round: "length (sha256_round p st) = length st"
  by (cases "(p, st)" rule: sha256_round.cases) (auto simp: Let_def)

lemma length_fold_round: "length (fold sha256_round ps st) = length st"
  by (induction ps arbitrary: st) (auto simp: length_sha256_round)

lemma length_sha256 [simp]: "length (sha256 s) = 32"
proof -
  have blk: "length (sha256_block st b) = 8" if "length st = 8" for st b
    using that by (simp add: sha256_block_def Let_def length_fold_round)
  have "length (foldl sha256_block st bs) = 8" if "length st = 8" for st bs
    using that by (induction bs arbitrary: st) (auto simp: blk)
  then have "length (foldl sha256_block sha256_init (chunks 64 (sha256_pad s))) = 8"
    by (simp add: sha256_init_def)
  then show ?thesis
    unfolding sha256_def length_concat map_map comp_def length_be_bytes sum_list_replicate map_replicate_const
    by simp
qed

end
