(* ===== verification/ChatContract.thy ===== *)
theory ChatContract
  imports GoStrings
begin

text \<open>
  \<open>internal/im/chat_contract.go\<close>: the identity of a chat, the lease under which output of one
  binding is sent, and the gate that holds a chat's current binding. Also
  \<open>compareChatIdentity\<close> of \<open>internal/gateway/im_ingress_store.go\<close>, as the order of the type.

  A lease is shared by pointer between its gate and the sends that hold it, so a gate names
  its lease by a reference into a heap of leases. Closing the \<open>drained\<close> channel twice would
  panic; the operations return \<open>None\<close> there, and the lemmas show a balanced use never does.
\<close>

section \<open>Chat identities and their order\<close>

datatype chat_identity = ChatIdentity (Platform: string) (AccountID: string) (ChatID: string)

definition strings_compare :: "string \<Rightarrow> string \<Rightarrow> int" where
  "strings_compare a b = (if a = b then 0 else if a < b then -1 else 1)"

definition compareChatIdentity :: "chat_identity \<Rightarrow> chat_identity \<Rightarrow> int" where
  "compareChatIdentity a b =
     (if Platform a \<noteq> Platform b then strings_compare (Platform a) (Platform b)
      else if AccountID a \<noteq> AccountID b then strings_compare (AccountID a) (AccountID b)
      else strings_compare (ChatID a) (ChatID b))"

instantiation chat_identity :: linorder
begin

definition less_chat_identity :: "chat_identity \<Rightarrow> chat_identity \<Rightarrow> bool" where
  "less_chat_identity a b \<longleftrightarrow> compareChatIdentity a b < 0"

definition less_eq_chat_identity :: "chat_identity \<Rightarrow> chat_identity \<Rightarrow> bool" where
  "less_eq_chat_identity a b \<longleftrightarrow> compareChatIdentity a b \<le> 0"

instance
proof
  fix x y z :: chat_identity
  show "x < y \<longleftrightarrow> x \<le> y \<and> \<not> y \<le> x"
    by (auto simp: less_chat_identity_def less_eq_chat_identity_def compareChatIdentity_def strings_compare_def
        split: if_splits)
  show "x \<le> x"
    by (simp add: less_eq_chat_identity_def compareChatIdentity_def strings_compare_def)
  show "x \<le> y \<Longrightarrow> y \<le> z \<Longrightarrow> x \<le> z"
    by (auto simp: less_eq_chat_identity_def compareChatIdentity_def strings_compare_def
        split: if_splits)
  show "x \<le> y \<Longrightarrow> y \<le> x \<Longrightarrow> x = y"
    by (cases x; cases y)
       (auto simp: less_eq_chat_identity_def compareChatIdentity_def strings_compare_def split: if_splits)
  show "x \<le> y \<or> y \<le> x"
    by (auto simp: less_eq_chat_identity_def compareChatIdentity_def strings_compare_def)
qed

end

section \<open>Binding leases\<close>

record binding_lease =
  bl_Identity :: chat_identity
  bl_WorkspaceID :: string
  bl_AccountEpoch :: "64 word"
  bl_Generation :: "64 word"
  bl_cancelled :: bool
  bl_closing :: bool
  bl_sends :: int
  bl_drained :: bool

definition NewBindingLease :: "chat_identity \<Rightarrow> string \<Rightarrow> 64 word \<Rightarrow> 64 word \<Rightarrow> binding_lease" where
  "NewBindingLease i workspace epoch generation =
     \<lparr>bl_Identity = i, bl_WorkspaceID = workspace, bl_AccountEpoch = epoch, bl_Generation = generation,
      bl_cancelled = False, bl_closing = False, bl_sends = 0, bl_drained = False\<rparr>"

definition BeginSend :: "binding_lease \<Rightarrow> binding_lease \<times> bool" where
  "BeginSend l = (if bl_closing l then (l, False) else (l\<lparr>bl_sends := bl_sends l + 1\<rparr>, True))"

text \<open>\<open>close(l.drained)\<close>: a second close of the channel is a panic.\<close>

definition close_drained :: "binding_lease \<Rightarrow> binding_lease option" where
  "close_drained l = (if bl_drained l then None else Some (l\<lparr>bl_drained := True\<rparr>))"

definition EndSend :: "binding_lease \<Rightarrow> binding_lease option" where
  "EndSend l = (let l1 = l\<lparr>bl_sends := bl_sends l - 1\<rparr> in
     if bl_closing l1 \<and> bl_sends l1 = 0 then close_drained l1 else Some l1)"

definition lease_Close :: "binding_lease \<Rightarrow> binding_lease option" where
  "lease_Close l =
     (if bl_closing l then Some l
      else let l1 = l\<lparr>bl_closing := True, bl_cancelled := True\<rparr> in
        if bl_sends l1 = 0 then close_drained l1 else Some l1)"

text \<open>
  What every use of a lease keeps, when each \<open>EndSend\<close> answers a \<open>BeginSend\<close> that succeeded:
  the lease is drained exactly when it is closing and no send is left, and closing cancels
  the sends.
\<close>

definition lease_ok :: "binding_lease \<Rightarrow> bool" where
  "lease_ok l \<longleftrightarrow> 0 \<le> bl_sends l \<and> (bl_drained l \<longleftrightarrow> bl_closing l \<and> bl_sends l = 0)
     \<and> (bl_cancelled l \<longleftrightarrow> bl_closing l)"

lemmas [handler_defs] = BeginSend_def EndSend_def lease_Close_def close_drained_def Let_def

lemma lease_ok_new: "lease_ok (NewBindingLease i w e g)"
  by (simp add: lease_ok_def NewBindingLease_def)

lemma lease_ok_begin: "lease_ok l \<Longrightarrow> lease_ok (fst (BeginSend l))"
  by (auto simp: lease_ok_def BeginSend_def)

lemma lease_ok_end: "lease_ok l \<Longrightarrow> 0 < bl_sends l \<Longrightarrow> \<exists>l'. EndSend l = Some l' \<and> lease_ok l'"
  by (auto simp: lease_ok_def handler_defs)

lemma lease_ok_close: "lease_ok l \<Longrightarrow> \<exists>l'. lease_Close l = Some l' \<and> lease_ok l' \<and> bl_closing l'"
  by (auto simp: lease_ok_def handler_defs)

text \<open>The events of one lease, and its run: \<open>None\<close> is a panic.\<close>

datatype lease_event = LBegin | LEnd | LClose

fun lease_step :: "binding_lease \<Rightarrow> lease_event \<Rightarrow> binding_lease option" where
  "lease_step l LBegin = Some (fst (BeginSend l))"
| "lease_step l LEnd = EndSend l"
| "lease_step l LClose = lease_Close l"

fun lease_run :: "binding_lease \<Rightarrow> lease_event list \<Rightarrow> binding_lease option" where
  "lease_run l [] = Some l"
| "lease_run l (e # es) = (case lease_step l e of None \<Rightarrow> None | Some l' \<Rightarrow> lease_run l' es)"

text \<open>
  \<open>deliveryContext\<close> calls \<open>EndSend\<close> once for each \<open>BeginSend\<close> that returned true, and only
  then: an event list is balanced from \<open>l\<close> when every \<open>LEnd\<close> meets an open send.
\<close>

fun lease_balanced :: "binding_lease \<Rightarrow> lease_event list \<Rightarrow> bool" where
  "lease_balanced l [] = True"
| "lease_balanced l (e # es) =
     ((e = LEnd \<longrightarrow> 0 < bl_sends l) \<and>
      (case lease_step l e of None \<Rightarrow> True | Some l' \<Rightarrow> lease_balanced l' es))"

lemma lease_step_ok:
  assumes "lease_ok l" and "e = LEnd \<longrightarrow> 0 < bl_sends l"
  shows "\<exists>l'. lease_step l e = Some l' \<and> lease_ok l' \<and> (bl_closing l \<longrightarrow> bl_closing l')"
  using assms lease_ok_begin [of l] lease_ok_end [of l] lease_ok_close [of l]
  by (cases e) (auto simp: handler_defs split: if_splits)

lemma lease_run_ok_aux:
  assumes "lease_ok l" and "lease_balanced l es"
  shows "\<exists>l'. lease_run l es = Some l' \<and> lease_ok l' \<and> (bl_closing l \<longrightarrow> bl_closing l')"
  using assms
proof (induction es arbitrary: l)
  case (Cons e es)
  obtain l1 where "lease_step l e = Some l1" "lease_ok l1" "bl_closing l \<longrightarrow> bl_closing l1"
    using lease_step_ok [of l e] Cons.prems by auto
  moreover from this Cons.prems have "lease_balanced l1 es" by simp
  ultimately show ?case using Cons.IH [of l1] by auto
qed simp

section \<open>Chat gates\<close>

datatype gate_phase = PhaseUnbound | PhaseActive | PhaseSwitching | PhaseBlocked

record chat_gate =
  cg_generation :: "64 word"
  cg_phase :: gate_phase
  cg_lease :: "nat option"

type_synonym lease_heap = "binding_lease list"

definition NewChatGate :: chat_gate where
  "NewChatGate = \<lparr>cg_generation = 1, cg_phase = PhaseUnbound, cg_lease = None\<rparr>"

definition Snapshot :: "chat_gate \<Rightarrow> nat option \<times> 64 word \<times> gate_phase" where
  "Snapshot g = (cg_lease g, cg_generation g, cg_phase g)"

definition Install :: "chat_identity \<Rightarrow> string \<Rightarrow> 64 word \<Rightarrow> lease_heap \<times> chat_gate \<Rightarrow> lease_heap \<times> chat_gate" where
  "Install i workspace epoch hg =
     (let (h, g) = hg; gen = (if cg_generation g = 0 then 1 else cg_generation g) in
      (h @ [NewBindingLease i workspace epoch gen],
       g\<lparr>cg_generation := gen, cg_lease := Some (length h), cg_phase := PhaseActive\<rparr>))"

text \<open>\<open>Switching\<close> closes the lease it returns; \<open>None\<close> is the panic of a second close.\<close>

definition Switching :: "lease_heap \<times> chat_gate \<Rightarrow> (lease_heap \<times> chat_gate \<times> nat option) option" where
  "Switching hg =
     (let (h, g) = hg; g1 = g\<lparr>cg_generation := cg_generation g + 1, cg_phase := PhaseSwitching\<rparr> in
      case cg_lease g of
        None \<Rightarrow> Some (h, g1, None)
      | Some ref \<Rightarrow> (case lease_Close (h ! ref) of
            None \<Rightarrow> None
          | Some l \<Rightarrow> Some (h[ref := l], g1, Some ref)))"

definition Block :: "chat_gate \<Rightarrow> chat_gate" where
  "Block g = g\<lparr>cg_phase := PhaseBlocked\<rparr>"

definition SetUnbound :: "chat_gate \<Rightarrow> chat_gate" where
  "SetUnbound g = g\<lparr>cg_phase := PhaseUnbound\<rparr>"

lemmas [handler_defs] = Install_def Switching_def Block_def SetUnbound_def

text \<open>The gate's lease is in the heap, and a gate that is switching has closed its lease.\<close>

definition gate_ok :: "lease_heap \<times> chat_gate \<Rightarrow> bool" where
  "gate_ok hg \<longleftrightarrow> (\<forall>l \<in> set (fst hg). lease_ok l) \<and>
     (\<forall>ref. cg_lease (snd hg) = Some ref \<longrightarrow> ref < length (fst hg) \<and>
        (cg_phase (snd hg) = PhaseSwitching \<longrightarrow> bl_closing (fst hg ! ref)))"

lemma gate_ok_install: "gate_ok hg \<Longrightarrow> gate_ok (Install i w e hg)"
  by (cases hg) (auto simp: gate_ok_def handler_defs lease_ok_new)

lemma gate_ok_switching:
  assumes "gate_ok (h, g)"
  shows "\<exists>h' g' r. Switching (h, g) = Some (h', g', r) \<and> gate_ok (h', g') \<and> r = cg_lease g
     \<and> cg_generation g' = cg_generation g + 1 \<and> cg_phase g' = PhaseSwitching
     \<and> (\<forall>ref. r = Some ref \<longrightarrow> bl_closing (h' ! ref) \<and> bl_cancelled (h' ! ref))"
proof (cases "cg_lease g")
  case None
  with assms show ?thesis by (simp add: gate_ok_def Switching_def)
next
  case (Some ref)
  with assms have ref: "ref < length h" "lease_ok (h ! ref)" by (auto simp: gate_ok_def)
  then obtain l where l: "lease_Close (h ! ref) = Some l" "lease_ok l" "bl_closing l"
    using lease_ok_close by blast
  have "\<forall>x \<in> set (h[ref := l]). lease_ok x"
    using assms l(2) set_update_subset_insert [of h ref l] by (auto simp: gate_ok_def)
  with Some ref l assms show ?thesis
    by (auto simp: Switching_def gate_ok_def lease_ok_def)
qed

lemma gate_ok_block: "gate_ok (h, g) \<Longrightarrow> gate_ok (h, Block g)"
  by (simp add: gate_ok_def Block_def)

lemma gate_ok_unbound: "gate_ok (h, g) \<Longrightarrow> gate_ok (h, SetUnbound g)"
  by (simp add: gate_ok_def SetUnbound_def)

end
