(* ===== verification/IngressMetrics.thy ===== *)
theory IngressMetrics
  imports GoStrings
begin

text \<open>
  The bounded metric vocabulary: \<open>MetricPlatform\<close> and \<open>MetricReason\<close> of
  \<open>internal/im/im_text_metrics.go\<close> and the counters of \<open>internal/gateway/im_ingress_metrics.go\<close>.
  A value given by a caller reaches a label only through these functions, so the labels
  come from finite sets whatever the transports report.
\<close>

definition metric_platforms :: "string list" where
  "metric_platforms = [''telegram'', ''discord'', ''wecom'', ''dingtalk'', ''slack'', ''wechat'', ''feishu'']"

definition MetricPlatform :: "string \<Rightarrow> string" where
  "MetricPlatform platform = (if platform \<in> set metric_platforms then platform else ''other'')"

definition metric_reasons_binding :: "string list" where
  "metric_reasons_binding =
     [''control_target_unavailable'', ''binding_unavailable'', ''binding_outcome_unknown'', ''authorization_changed'',
      ''outbound_full'', ''outbound_closed'', ''reply_expired'']"

definition metric_reasons_transport :: "string list" where
  "metric_reasons_transport =
     [''invalid_identity'', ''invalid_configuration'', ''identity_probe'', ''identity_unverified'', ''identity_probe_requires_private'',
      ''sender_identity_unsupported'', ''unsupported_conversation'', ''unsupported_message'',
      ''group_mention_required'', ''message_too_large'', ''invalid_message_id'',
      ''update_id_conflict'', ''semantic_duplicate'', ''unsupported_update'', ''unsupported_topic'', ''unsupported_sender_chat'',
      ''unsupported_chat'', ''unsupported_content'', ''other_bot_command'', ''invalid_command_entity'', ''chat_migrated'',
      ''credentials'', ''forbidden'', ''poller_conflict'', ''unknown_send'', ''platform_rejected'', ''backpressure'',
      ''connection_lost'', ''connection_unavailable'', ''auth_failed'', ''duplicate_connection'', ''identity_mismatch'',
      ''invalid_message'', ''invalid_callback'', ''local_error'', ''api_rejected'', ''invalid_request'']"

definition metric_reasons_ingress :: "string list" where
  "metric_reasons_ingress =
     [''invalid_input'', ''invalid_kind'', ''invalid_state'', ''ingress_unavailable'', ''storage_unavailable'',
      ''source_time_out_of_range'', ''capacity'', ''route_changed'', ''route_changing'', ''route_busy'', ''route_unavailable'',
      ''route_outcome_unknown'', ''route_change_unavailable'', ''stream_capacity'', ''authorization_denied'',
      ''admission_unavailable'', ''platform_unavailable'', ''chat_unbound'', ''pairing_hint_text'', ''pairing_hint_usage'',
      ''pairing_hint_code'', ''received_expired'', ''route_identity_changed'', ''execution_outcome_unknown'', ''receipt_timeout'',
      ''process_exited'', ''delivery_failed'', ''cancelled'', ''invalid_target'', ''invalid_text'', ''invalid_rate_limit'',
      ''invalid_input_digest'', ''invalid_cursor'', ''received_time_out_of_range'', ''cursor_generation_conflict'',
      ''cursor_platform_invalid'', ''invalid_interaction'', ''target_busy'', ''capture_busy'', ''rejection_not_committed'',
      ''observer_registration_failed'', ''stdin_outcome_unknown'', ''session_restore_failed'', ''session_pin_persistence_failed'',
      ''session_ready_pin_unconfirmed'', ''control_parameters_unavailable'', ''new_done_confirmation'', ''transfer_guard'']"

definition metric_reasons_normalization :: "string list" where
  "metric_reasons_normalization =
     [''normalization_cancelled'', ''normalization_failed'', ''normalization_result_unavailable'',
      ''normalization_unavailable'', ''normalization_wait_cancelled'',
      ''transport_identity_changed'', ''transport_ignored'', ''transport_stopped'']"

definition metric_reasons :: "string list" where
  "metric_reasons = metric_reasons_binding @ metric_reasons_transport @ metric_reasons_ingress @ metric_reasons_normalization"

definition MetricReason :: "string \<Rightarrow> string" where
  "MetricReason reason =
     (if reason \<in> set metric_reasons then reason
      else if reason = '''' then ''none'' else ''other'')"

section \<open>Ingress counters\<close>

definition metric_events :: "string list" where
  "metric_events =
     [''acceptance_unconfirmed'', ''callback_dropped'', ''received'', ''duplicate'', ''rejected'', ''retryable'', ''uncertain'',
      ''lost_before_accept'', ''consumed'', ''dispatching'', ''unknown'', ''quarantined'', ''expired'', ''submitted'',
      ''completed'', ''blocked'', ''slot_exhausted'', ''reply_dropped'', ''receipt_update_failed'']"

definition imMetricEventAllowed :: "string \<Rightarrow> bool" where
  "imMetricEventAllowed event \<longleftrightarrow> event \<in> set metric_events"

type_synonym metric_key = "string \<times> string \<times> string"
type_synonym metric_counters = "(metric_key, 64 word) gomap"

definition metrics_record :: "string \<Rightarrow> string \<Rightarrow> string \<Rightarrow> metric_counters \<Rightarrow> metric_counters" where
  "metrics_record platform event reason counters =
     (if \<not> imMetricEventAllowed event then counters
      else let key = (MetricPlatform platform, event, MetricReason reason) in
        AList.update key (get_or 0 counters key + 1) counters)"

definition metric_label_space :: "metric_key list" where
  "metric_label_space =
     List.product (''other'' # metric_platforms)
       (List.product metric_events (''none'' # ''other'' # metric_reasons))"

definition metrics_ok :: "metric_counters \<Rightarrow> bool" where
  "metrics_ok counters \<longleftrightarrow> wf_map counters \<and> fst ` set counters \<subseteq> set metric_label_space"

lemma metrics_ok_Nil [simp]: "metrics_ok []"
  by (simp add: metrics_ok_def)

lemma fst_set_update: "fst ` set (AList.update k v m) = insert k (fst ` set m)"
  by (simp add: dom_update)

lemma in_label_space:
  "(p, e, r) \<in> set metric_label_space \<longleftrightarrow>
     p \<in> insert ''other'' (set metric_platforms) \<and> e \<in> set metric_events
     \<and> r \<in> insert ''none'' (insert ''other'' (set metric_reasons))"
  by (simp only: metric_label_space_def set_product mem_Times_iff fst_conv snd_conv list.set)

lemma metrics_ok_record [simp, intro]: "metrics_ok c \<Longrightarrow> metrics_ok (metrics_record p e r c)"
  unfolding metrics_ok_def metrics_record_def Let_def
  by (auto simp: fst_set_update in_label_space MetricPlatform_def MetricReason_def imMetricEventAllowed_def)

text \<open>However long the gateway runs and whatever it is told, the counters stay bounded.\<close>

lemma metrics_ok_bound: "metrics_ok c \<Longrightarrow> length c \<le> length metric_label_space"
proof -
  assume ok: "metrics_ok c"
  then have "length c = card (fst ` set c)"
    by (metis distinct_card length_map metrics_ok_def set_map wf_map_def)
  also have "\<dots> \<le> card (set metric_label_space)"
    using ok by (intro card_mono) (auto simp: metrics_ok_def)
  also have "\<dots> \<le> length metric_label_space" by (rule card_length)
  finally show ?thesis .
qed

definition event_total :: "string \<Rightarrow> metric_counters \<Rightarrow> nat" where
  "event_total e c = sum_list (map (\<lambda>((p, e', r), n). if e' = e then unat n else 0) c)"

end
