(* ===== verification/IngressCursor.thy ===== *)
theory IngressCursor
  imports GoStrings
begin

text \<open>
  Polling checkpoints: \<open>CloneIngressCursor\<close> and \<open>ValidateIngressCursor\<close> of
  \<open>internal/im/ingress_cursor.go\<close>, with the types of \<open>internal/im/ingress_types.go\<close>. Values
  have no aliases here, so the deep copy is the identity; pointers to optional numbers are
  options.
\<close>

record telegram_cursor =
  tc_BotID :: string
  tc_PendingOffset :: "int option"
  tc_PendingCreatedAt :: gotime
  tc_LastObservedUpdateID :: "int option"
  tc_LastObservedAt :: gotime
  tc_LastUpdateSourceTime :: gotime
  tc_ObservedAt :: gotime
  tc_State :: string

record wechat_cursor =
  wc_AccountID :: string
  wc_Buf :: string
  wc_BatchVersion :: "64 word"

record ingress_cursor =
  ic_Kind :: string
  ic_Version :: int
  ic_Generation :: "64 word"
  ic_Telegram :: "telegram_cursor option"
  ic_Wechat :: "wechat_cursor option"

text \<open>The zero value, which reading a missing cursor yields.\<close>

definition zero_cursor :: ingress_cursor where
  "zero_cursor = \<lparr>ic_Kind = '''', ic_Version = 0, ic_Generation = 0, ic_Telegram = None, ic_Wechat = None\<rparr>"

definition CloneIngressCursor :: "ingress_cursor option \<Rightarrow> ingress_cursor option" where
  "CloneIngressCursor c =
     (case c of
        None \<Rightarrow> None
      | Some c \<Rightarrow> Some (c\<lparr>ic_Telegram := map_option (\<lambda>t.
              t\<lparr>tc_PendingOffset := map_option id (tc_PendingOffset t),
                tc_LastObservedUpdateID := map_option id (tc_LastObservedUpdateID t)\<rparr>) (ic_Telegram c),
            ic_Wechat := map_option id (ic_Wechat c)\<rparr>))"

lemma CloneIngressCursor_id [simp]: "CloneIngressCursor c = c"
proof -
  have "t\<lparr>tc_PendingOffset := map_option id (tc_PendingOffset t),
          tc_LastObservedUpdateID := map_option id (tc_LastObservedUpdateID t)\<rparr> = t" for t :: telegram_cursor
    by (simp add: option.map_id)
  then show ?thesis
    by (simp add: CloneIngressCursor_def option.map_id option.map_ident split: option.split)
qed

abbreviation MaxScopedIDBytes :: nat where "MaxScopedIDBytes \<equiv> 2048"

datatype cursor_error =
    CursorVersion | TelegramKind | TelegramState | TelegramPendingOffset | TelegramNonpendingOffset
  | WechatCheckpoint | CursorUnsupported
  | CursorAccount | CursorConflict | CursorAccountMismatch | CursorClosed | CursorContext
  | TransportChanged

definition validate_telegram :: "ingress_cursor \<Rightarrow> cursor_error option" where
  "validate_telegram c =
     (case ic_Telegram c of
        None \<Rightarrow> Some TelegramKind
      | Some t \<Rightarrow>
          if ic_Kind c \<noteq> ''telegram'' \<or> ic_Wechat c \<noteq> None then Some TelegramKind
          else if tc_State t \<noteq> ''pending'' \<and> tc_State t \<noteq> ''confirmed'' \<and> tc_State t \<noteq> ''empty''
          then Some TelegramState
          else if tc_State t = ''pending'' then
            (case tc_PendingOffset t of
               None \<Rightarrow> Some TelegramPendingOffset
             | Some o1 \<Rightarrow> if o1 < 0 \<or> tc_ObservedAt t = 0 then Some TelegramPendingOffset else None)
          else if tc_PendingOffset t \<noteq> None then Some TelegramNonpendingOffset
          else None)"

definition validate_wechat :: "ingress_cursor \<Rightarrow> cursor_error option" where
  "validate_wechat c =
     (case ic_Wechat c of
        None \<Rightarrow> Some WechatCheckpoint
      | Some w \<Rightarrow>
          if ic_Kind c \<noteq> ''wechat'' \<or> ic_Telegram c \<noteq> None \<or> wc_AccountID w = ''''
             \<or> MaxScopedIDBytes < length (wc_AccountID w) \<or> \<not> valid_utf8 (wc_AccountID w)
             \<or> wc_BatchVersion w = 0 \<or> 65536 < length (wc_Buf w) \<or> \<not> valid_utf8 (wc_Buf w)
          then Some WechatCheckpoint else None)"

text \<open>\<open>None\<close> is acceptance, as Go's nil error.\<close>

definition ValidateIngressCursor :: "string \<Rightarrow> ingress_cursor option \<Rightarrow> cursor_error option" where
  "ValidateIngressCursor platform c =
     (case c of
        None \<Rightarrow> None
      | Some c \<Rightarrow>
          if ic_Version c \<noteq> 1 \<or> ic_Generation c = 0 then Some CursorVersion
          else if platform = ''telegram'' then validate_telegram c
          else if platform = ''wechat'' then validate_wechat c
          else Some CursorUnsupported)"

type_synonym cursor_map = "(string, ingress_cursor) gomap"

definition checkCursor ::
  "cursor_map \<Rightarrow> string \<Rightarrow> string \<Rightarrow> 64 word \<Rightarrow> ingress_cursor \<Rightarrow> cursor_error option" where
  "checkCursor cursors platform account expected nxt =
     (if account = '''' \<or> MaxScopedIDBytes < length account \<or> \<not> valid_utf8 account then Some CursorAccount
      else case ValidateIngressCursor platform (Some nxt) of
        Some e \<Rightarrow> Some e
      | None \<Rightarrow>
          let old = get_or zero_cursor cursors (compositeKey [platform, account]) in
          if ic_Generation nxt \<noteq> expected + 1 \<or> ic_Generation old \<noteq> expected then Some CursorConflict
          else if (case ic_Wechat nxt of Some w \<Rightarrow> wc_AccountID w \<noteq> account | None \<Rightarrow> False)
               \<or> (case ic_Telegram nxt of Some t \<Rightarrow> tc_BotID t \<noteq> '''' \<and> tc_BotID t \<noteq> account | None \<Rightarrow> False)
          then Some CursorAccountMismatch
          else case (ic_Wechat old, ic_Wechat nxt) of
            (Some wo, Some wn) \<Rightarrow> if wc_BatchVersion wn \<le> wc_BatchVersion wo then Some CursorConflict else None
          | _ \<Rightarrow> None)"

text \<open>The stored cursor of an account is always one that validation accepted.\<close>

definition cursors_ok :: "cursor_map \<Rightarrow> bool" where
  "cursors_ok cursors \<longleftrightarrow> wf_map cursors \<and>
     (\<forall>k c. map_of cursors k = Some c \<longrightarrow> ic_Version c = 1 \<and> ic_Generation c \<noteq> 0
        \<and> (\<exists>platform. ValidateIngressCursor platform (Some c) = None))"

lemma checkCursor_valid:
  "checkCursor cs platform account e n = None \<Longrightarrow> ValidateIngressCursor platform (Some n) = None"
  by (auto simp: checkCursor_def split: if_splits option.splits)

lemma ValidateIngressCursor_generation:
  "ValidateIngressCursor platform (Some c) = None \<Longrightarrow> ic_Version c = 1 \<and> ic_Generation c \<noteq> 0"
  by (auto simp: ValidateIngressCursor_def split: if_splits)

lemma checkCursor_generation:
  assumes "checkCursor cs platform account e n = None"
  shows "ic_Generation n = e + 1"
    and "ic_Generation (get_or zero_cursor cs (compositeKey [platform, account])) = e"
  using assms by (auto simp: checkCursor_def Let_def split: if_splits option.splits)

lemma cursors_ok_put:
  assumes "cursors_ok cs" and "ValidateIngressCursor platform (Some n) = None"
  shows "cursors_ok (AList.update k n cs)"
  using assms ValidateIngressCursor_generation [OF assms(2)]
  by (auto simp: cursors_ok_def)

lemma cursors_ok_Nil [simp]: "cursors_ok []"
  by (simp add: cursors_ok_def)

lemma wechat_batch_increases:
  assumes "checkCursor cs platform account e n = None"
    and "map_of cs (compositeKey [platform, account]) = Some old"
    and "ic_Wechat old = Some wo" and "ic_Wechat n = Some wn"
  shows "wc_BatchVersion wo < wc_BatchVersion wn"
  using assms by (auto simp: checkCursor_def get_or_def Let_def split: if_splits option.splits)

end
