(* ===== verification/IngressStore.thy ===== *)
theory IngressStore
  imports GoEncoding ChatContract IngressMetrics IngressCursor
begin

text \<open>
  \<open>internal/gateway/im_ingress_store.go\<close> with the types of \<open>im_ingress.go\<close> and
  \<open>internal/im/ingress_types.go\<close>, and the cursor operations of \<open>im_ingress_progress.go\<close>:
  the process-local store of inbound messages. Each operation runs in one critical section,
  so it is one function of the store. The environment of a call is a record: the instant
  \<open>s.now()\<close> reads inside the section, the outcome of the caller's context, the random
  identifiers drawn and the rendering of instants in JSON, which depends on the host's
  time zone (\<open>None\<close> is a year JSON refuses).
\<close>

section \<open>Records, routes and the store\<close>

datatype ingress_state =
    IngressReceived | IngressDispatching | IngressUnknown | IngressConsumed | IngressRejected
  | IngressQuarantined | IngressExpired | IngressSubmitted | IngressCompleted
  | IngressStateOther string

fun state_text :: "ingress_state \<Rightarrow> string" where
  "state_text IngressReceived = ''received''"
| "state_text IngressDispatching = ''dispatching''"
| "state_text IngressUnknown = ''unknown''"
| "state_text IngressConsumed = ''consumed''"
| "state_text IngressRejected = ''rejected''"
| "state_text IngressQuarantined = ''quarantined''"
| "state_text IngressExpired = ''expired''"
| "state_text IngressSubmitted = ''submitted''"
| "state_text IngressCompleted = ''completed''"
| "state_text (IngressStateOther s) = s"

datatype ingress_kind = KindTask | KindControl | KindOther string

fun kind_text :: "ingress_kind \<Rightarrow> string" where
  "kind_text KindTask = ''task''"
| "kind_text KindControl = ''control''"
| "kind_text (KindOther s) = s"

record control_target =
  ct_BindingInstanceID :: string
  ct_SessionID :: string
  ct_QuestionLookup :: bool
  ct_TransferID :: string
  ct_RuntimeID :: string
  ct_SessionEpoch :: "64 word"
  ct_RequestID :: string
  ct_Version :: "64 word"
  ct_TurnID :: "64 word"

record ingress_record =
  ir_statusQuery :: bool
  ir_size :: "32 word"
  ir_RecordID :: string
  ir_Platform :: string
  ir_AccountID :: string
  ir_ChatID :: string
  ir_SenderID :: string
  ir_BusinessID :: string
  ir_SemanticID :: string
  ir_DeliveryID :: string
  ir_SourceTime :: gotime
  ir_ReceivedAt :: gotime
  ir_Sequence :: "64 word"
  ir_Kind :: ingress_kind
  ir_State :: ingress_state
  ir_Reason :: string
  ir_Text :: string
  ir_AuthorizationDigest :: string
  ir_RouteRevision :: string
  ir_WorkspaceID :: string
  ir_SessionID :: string
  ir_RequestID :: string
  ir_DispatchRuntimeID :: string
  ir_DispatchSessionEpoch :: "64 word"
  ir_ReceiptStatus :: string
  ir_UpdatedAt :: gotime
  ir_InputDigest :: string
  ir_ControlTarget :: "control_target option"

definition Identity :: "ingress_record \<Rightarrow> chat_identity" where
  "Identity r = ChatIdentity (ir_Platform r) (ir_AccountID r) (ir_ChatID r)"

definition Terminal :: "ingress_record \<Rightarrow> bool" where
  "Terminal r \<longleftrightarrow> (case ir_State r of
       IngressConsumed \<Rightarrow> True | IngressRejected \<Rightarrow> True | IngressCompleted \<Rightarrow> True
     | IngressSubmitted \<Rightarrow> True | IngressExpired \<Rightarrow> True | IngressQuarantined \<Rightarrow> True | _ \<Rightarrow> False)"

datatype route_phase = RouteZero | RouteUnbound | RouteActive | RouteChanging

record ingress_route =
  rt_Identity :: chat_identity
  rt_Revision :: string
  rt_AuthorizationDigest :: string
  rt_WorkspaceID :: string
  rt_SessionID :: string
  rt_Phase :: route_phase
  rt_Sequence :: "64 word"

definition zero_identity :: chat_identity where
  "zero_identity = ChatIdentity '''' '''' ''''"

definition zero_route :: ingress_route where
  "zero_route = \<lparr>rt_Identity = zero_identity, rt_Revision = '''', rt_AuthorizationDigest = '''', rt_WorkspaceID = '''',
     rt_SessionID = '''', rt_Phase = RouteZero, rt_Sequence = 0\<rparr>"

record ingress_counts =
  cn_Pending :: int
  cn_Bytes :: int
  cn_Tombstones :: int

definition zero_counts :: ingress_counts where
  "zero_counts = \<lparr>cn_Pending = 0, cn_Bytes = 0, cn_Tombstones = 0\<rparr>"

text \<open>\<open>changed\<close> is the one-slot channel that wakes the scheduler: whether its slot is taken.\<close>

record ingress_store =
  st_memoryBytes :: int
  st_closing :: bool
  st_metrics :: metric_counters
  st_changed :: bool
  st_records :: "(string, ingress_record) gomap"
  st_pending :: "string list"
  st_pendingByRoute :: "(chat_identity, string list) gomap"
  st_routes :: "(chat_identity, ingress_route) gomap"
  st_byRoute :: "(chat_identity, string list) gomap"
  st_business :: "(string, string) gomap"
  st_semantic :: "(string, string) gomap"
  st_cursors :: cursor_map
  st_history :: "(string \<times> gotime) list"
  st_historyHead :: nat
  st_counts :: "(string, ingress_counts) gomap"
  st_total :: ingress_counts

definition NewIngressStore :: ingress_store where
  "NewIngressStore = \<lparr>st_memoryBytes = 0, st_closing = False, st_metrics = [], st_changed = False, st_records = [],
     st_pending = [], st_pendingByRoute = [], st_routes = [], st_byRoute = [], st_business = [], st_semantic = [],
     st_cursors = [], st_history = [], st_historyHead = 0, st_counts = [], st_total = zero_counts\<rparr>"

definition ingressHistoryLimit :: nat where "ingressHistoryLimit = 100000"
definition ingressHistoryTTL :: duration where "ingressHistoryTTL = 24 * hour"

datatype disposition =
    ReceiveAccepted | ReceiveDuplicate | ReceiveRejected | ReceiveRetryable | ReceiveUncertain
  | ReceiveTransportIgnored

fun disposition_text :: "disposition \<Rightarrow> string" where
  "disposition_text ReceiveAccepted = ''accepted''"
| "disposition_text ReceiveDuplicate = ''duplicate''"
| "disposition_text ReceiveRejected = ''rejected''"
| "disposition_text ReceiveRetryable = ''retryable''"
| "disposition_text ReceiveUncertain = ''uncertain''"
| "disposition_text ReceiveTransportIgnored = ''transport_ignored''"

record receive_result =
  rr_Disposition :: disposition
  rr_RecordID :: string
  rr_State :: ingress_state
  rr_Reason :: string

definition zero_state :: ingress_state where
  "zero_state = IngressStateOther ''''"

definition plain_result :: "disposition \<Rightarrow> string \<Rightarrow> receive_result" where
  "plain_result d reason = \<lparr>rr_Disposition = d, rr_RecordID = '''', rr_State = zero_state, rr_Reason = reason\<rparr>"

record ingress_env =
  ie_now :: gotime
  ie_ctxErr :: bool
  ie_ctxLate :: bool
  ie_valid :: bool
  ie_recordID :: string
  ie_revision :: string
  ie_jsonTime :: "gotime \<Rightarrow> string option"

section \<open>The size of a record\<close>

definition json_target :: "control_target \<Rightarrow> string" where
  "json_target t = json_object
     [fstr_omit ''binding_instance_id'' (ct_BindingInstanceID t), fstr_omit ''session_id'' (ct_SessionID t),
      (if ct_QuestionLookup t then Some (''question_lookup'', json_bool True) else None),
      fstr_omit ''transfer_id'' (ct_TransferID t), fstr_omit ''runtime_id'' (ct_RuntimeID t),
      fuint_omit ''session_epoch'' (ct_SessionEpoch t), fstr_omit ''request_id'' (ct_RequestID t),
      fuint_omit ''version'' (ct_Version t), fuint_omit ''turn_id'' (ct_TurnID t)]"

definition json_record :: "string \<Rightarrow> string \<Rightarrow> string \<Rightarrow> ingress_record \<Rightarrow> string" where
  "json_record source_time received_at updated_at r = json_object
     [fstr ''record_id'' (ir_RecordID r), fstr ''platform'' (ir_Platform r), fstr ''account_id'' (ir_AccountID r),
      fstr ''chat_id'' (ir_ChatID r), fstr ''sender_id'' (ir_SenderID r), fstr ''business_id'' (ir_BusinessID r),
      fstr_omit ''semantic_id'' (ir_SemanticID r), fstr_omit ''delivery_id'' (ir_DeliveryID r),
      Some (''source_time'', source_time), Some (''received_at'', received_at),
      fuint ''sequence'' (ir_Sequence r), fstr ''kind'' (kind_text (ir_Kind r)), fstr ''state'' (state_text (ir_State r)),
      fstr_omit ''reason'' (ir_Reason r), fstr_omit ''text'' (ir_Text r),
      fstr ''authorization_digest'' (ir_AuthorizationDigest r), fstr ''route_revision'' (ir_RouteRevision r),
      fstr ''workspace_id'' (ir_WorkspaceID r), fstr ''session_id'' (ir_SessionID r), fstr ''request_id'' (ir_RequestID r),
      fstr ''dispatch_runtime_id'' (ir_DispatchRuntimeID r), fuint ''dispatch_session_epoch'' (ir_DispatchSessionEpoch r),
      fstr ''receipt_status'' (ir_ReceiptStatus r), Some (''updated_at'', updated_at),
      fstr_omit ''input_digest'' (ir_InputDigest r), map_option (\<lambda>t. (''control_target'', json_target t)) (ir_ControlTarget r)]"

text \<open>\<open>json.Marshal\<close> yields no bytes when an instant cannot be rendered; the code ignores the error.\<close>

definition recordSize :: "(gotime \<Rightarrow> string option) \<Rightarrow> ingress_record \<Rightarrow> int" where
  "recordSize jt r =
     (case (jt (ir_SourceTime r), jt (ir_ReceivedAt r), jt (ir_UpdatedAt r)) of
        (Some a, Some b, Some c) \<Rightarrow> int (length (json_record a b c r))
      | _ \<Rightarrow> 0)"

lemma recordSize_nonneg [simp]: "0 \<le> recordSize jt r"
  by (simp add: recordSize_def split: option.split)

definition ingressKey :: "string \<Rightarrow> string list \<Rightarrow> string" where
  "ingressKey prefix parts = prefix @ json_strings parts"

definition cloneIngressRecord :: "ingress_record \<Rightarrow> ingress_record" where
  "cloneIngressRecord r = r\<lparr>ir_ControlTarget := map_option id (ir_ControlTarget r)\<rparr>"

lemma cloneIngressRecord_id [simp]: "cloneIngressRecord r = r"
  by (simp add: cloneIngressRecord_def option.map_id)

section \<open>Retention accounting and saving\<close>

abbreviation account_key :: "ingress_record \<Rightarrow> string" where
  "account_key r \<equiv> compositeKey [ir_Platform r, ir_AccountID r]"

abbreviation business_key :: "ingress_record \<Rightarrow> string" where
  "business_key r \<equiv> compositeKey [ir_Platform r, ir_AccountID r, ir_BusinessID r]"

abbreviation semantic_key :: "ingress_record \<Rightarrow> string" where
  "semantic_key r \<equiv> compositeKey [ir_Platform r, ir_AccountID r, ir_SemanticID r]"

definition adjustCounts :: "ingress_record \<Rightarrow> int \<Rightarrow> ingress_store \<Rightarrow> ingress_store" where
  "adjustCounts r delta s =
     (let sz = uint (ir_size r);
          key = account_key r;
          c = get_or zero_counts (st_counts s) key;
          t = st_total s;
          c1 = (if Terminal r then c\<lparr>cn_Tombstones := cn_Tombstones c + delta\<rparr>
                else c\<lparr>cn_Pending := cn_Pending c + delta, cn_Bytes := cn_Bytes c + delta * sz\<rparr>);
          t1 = (if Terminal r then t\<lparr>cn_Tombstones := cn_Tombstones t + delta\<rparr>
                else t\<lparr>cn_Pending := cn_Pending t + delta, cn_Bytes := cn_Bytes t + delta * sz\<rparr>)
      in s\<lparr>st_memoryBytes := st_memoryBytes s + delta * sz,
           st_total := t1,
           st_counts := (if c1 = zero_counts then AList.delete key (st_counts s)
                         else AList.update key c1 (st_counts s))\<rparr>)"

text \<open>Dropping a key from a set held in a map; an empty set leaves the map.\<close>

definition drop_index :: "'k \<Rightarrow> string \<Rightarrow> ('k, string list) gomap \<Rightarrow> ('k, string list) gomap" where
  "drop_index k x m = (let ids = set_del x (get_or [] m k) in
     if ids = [] then AList.delete k m else AList.update k ids m)"

definition add_index :: "'k \<Rightarrow> string \<Rightarrow> ('k, string list) gomap \<Rightarrow> ('k, string list) gomap" where
  "add_index k x m = AList.update k (set_add x (get_or [] m k)) m"

definition save :: "gotime \<Rightarrow> (gotime \<Rightarrow> string option) \<Rightarrow> ingress_record \<Rightarrow> int \<Rightarrow> ingress_store \<Rightarrow> ingress_store" where
  "save now jt r sz s =
     (let old = map_of (st_records s) (ir_RecordID r);
          s1 = (case old of
                  None \<Rightarrow> s
                | Some o1 \<Rightarrow>
                    let s' = adjustCounts o1 (-1) s in
                    if \<not> Terminal o1 \<and> Terminal r
                    then s'\<lparr>st_pendingByRoute := drop_index (Identity o1) (ir_RecordID r) (st_pendingByRoute s')\<rparr>
                    else s');
          size1 = (if Terminal r \<and> ir_Text r \<noteq> '''' then -1 else sz);
          r1 = (if Terminal r then r\<lparr>ir_Text := ''''\<rparr> else r);
          s2 = (if Terminal r then
                  s1\<lparr>st_pending := set_del (ir_RecordID r) (st_pending s1),
                     st_history := (if (case old of None \<Rightarrow> True | Some o1 \<Rightarrow> \<not> Terminal o1)
                                    then st_history s1 @ [(ir_RecordID r, now + ingressHistoryTTL)]
                                    else st_history s1)\<rparr>
                else
                  s1\<lparr>st_pending := set_add (ir_RecordID r) (st_pending s1),
                     st_pendingByRoute := add_index (Identity r) (ir_RecordID r) (st_pendingByRoute s1)\<rparr>);
          size2 = (if size1 < 0 then recordSize jt r1 else size1);
          r2 = r1\<lparr>ir_size := word_of_int size2\<rparr>;
          s3 = adjustCounts r2 1 s2
      in s3\<lparr>st_records := AList.update (ir_RecordID r) (cloneIngressRecord r2) (st_records s3),
            st_byRoute := add_index (Identity r) (ir_RecordID r) (st_byRoute s3)\<rparr>)"

section \<open>Retention\<close>

text \<open>One expired entry: the record leaves every index that still names it.\<close>

definition prune_record :: "chat_identity \<Rightarrow> string \<Rightarrow> ingress_record \<Rightarrow> ingress_store \<Rightarrow> ingress_store" where
  "prune_record preserve rid r s =
     (let s1 = adjustCounts r (-1) s;
          s2 = s1\<lparr>st_records := AList.delete rid (st_records s1)\<rparr>;
          s3 = s2\<lparr>st_business := (if map_of (st_business s2) (business_key r) = Some rid
                                then AList.delete (business_key r) (st_business s2) else st_business s2)\<rparr>;
          s4 = s3\<lparr>st_semantic := (if map_of (st_semantic s3) (semantic_key r) = Some rid
                                then AList.delete (semantic_key r) (st_semantic s3) else st_semantic s3)\<rparr>;
          route = set_del rid (get_or [] (st_byRoute s4) (Identity r))
      in if route = [] then
           s4\<lparr>st_byRoute := AList.delete (Identity r) (st_byRoute s4),
              st_routes := (if Identity r \<noteq> preserve then AList.delete (Identity r) (st_routes s4) else st_routes s4)\<rparr>
         else s4\<lparr>st_byRoute := AList.update (Identity r) route (st_byRoute s4)\<rparr>)"

text \<open>The loop over the history, bounded by the number of entries left.\<close>

fun prune_loop :: "nat \<Rightarrow> gotime \<Rightarrow> chat_identity \<Rightarrow> ingress_store \<Rightarrow> ingress_store" where
  "prune_loop 0 now preserve s = s"
| "prune_loop (Suc n) now preserve s =
     (if st_historyHead s < length (st_history s) then
        let (rid, expires) = st_history s ! st_historyHead s in
        case map_of (st_records s) rid of
          Some r \<Rightarrow> if now < expires then s
                    else prune_loop n now preserve (prune_record preserve rid r (s\<lparr>st_historyHead := st_historyHead s + 1\<rparr>))
        | None \<Rightarrow> prune_loop n now preserve (s\<lparr>st_historyHead := st_historyHead s + 1\<rparr>)
      else s)"

definition compact_history :: "ingress_store \<Rightarrow> ingress_store" where
  "compact_history s =
     (if 1024 < st_historyHead s \<and> length (st_history s) \<le> st_historyHead s * 2
      then s\<lparr>st_history := drop (st_historyHead s) (st_history s), st_historyHead := 0\<rparr> else s)"

definition pruneHistory :: "gotime \<Rightarrow> chat_identity \<Rightarrow> ingress_store \<Rightarrow> ingress_store" where
  "pruneHistory now preserve s =
     compact_history (prune_loop (length (st_history s) - st_historyHead s) now preserve s)"

section \<open>What the operations change\<close>

lemma adjustCounts_frame [simp]:
  "st_closing (adjustCounts r d s) = st_closing s"
  "st_metrics (adjustCounts r d s) = st_metrics s"
  "st_changed (adjustCounts r d s) = st_changed s"
  "st_records (adjustCounts r d s) = st_records s"
  "st_pending (adjustCounts r d s) = st_pending s"
  "st_pendingByRoute (adjustCounts r d s) = st_pendingByRoute s"
  "st_routes (adjustCounts r d s) = st_routes s"
  "st_byRoute (adjustCounts r d s) = st_byRoute s"
  "st_business (adjustCounts r d s) = st_business s"
  "st_semantic (adjustCounts r d s) = st_semantic s"
  "st_cursors (adjustCounts r d s) = st_cursors s"
  "st_history (adjustCounts r d s) = st_history s"
  "st_historyHead (adjustCounts r d s) = st_historyHead s"
  by (simp_all add: adjustCounts_def Let_def)

text \<open>The record as \<open>save\<close> stores it: a terminal record without its text, with its size cached.\<close>

definition stored_form :: "(gotime \<Rightarrow> string option) \<Rightarrow> ingress_record \<Rightarrow> int \<Rightarrow> ingress_record" where
  "stored_form jt r sz =
     (let r1 = (if Terminal r then r\<lparr>ir_Text := ''''\<rparr> else r);
          sz1 = (if Terminal r \<and> ir_Text r \<noteq> '''' then -1 else sz)
      in r1\<lparr>ir_size := word_of_int (if sz1 < 0 then recordSize jt r1 else sz1)\<rparr>)"

lemma stored_form_frame [simp]:
  "ir_RecordID (stored_form jt r sz) = ir_RecordID r"
  "ir_Platform (stored_form jt r sz) = ir_Platform r"
  "ir_AccountID (stored_form jt r sz) = ir_AccountID r"
  "ir_ChatID (stored_form jt r sz) = ir_ChatID r"
  "ir_BusinessID (stored_form jt r sz) = ir_BusinessID r"
  "ir_SemanticID (stored_form jt r sz) = ir_SemanticID r"
  "ir_State (stored_form jt r sz) = ir_State r"
  "ir_Kind (stored_form jt r sz) = ir_Kind r"
  "ir_Sequence (stored_form jt r sz) = ir_Sequence r"
  "ir_Reason (stored_form jt r sz) = ir_Reason r"
  "ir_RouteRevision (stored_form jt r sz) = ir_RouteRevision r"
  "Identity (stored_form jt r sz) = Identity r"
  "Terminal (stored_form jt r sz) = Terminal r"
  by (simp_all add: stored_form_def Let_def Identity_def Terminal_def)

lemma stored_form_text: "ir_Text (stored_form jt r sz) = (if Terminal r then '''' else ir_Text r)"
  by (simp add: stored_form_def Let_def)

lemma save_frame [simp]:
  "st_closing (save now jt r sz s) = st_closing s"
  "st_metrics (save now jt r sz s) = st_metrics s"
  "st_changed (save now jt r sz s) = st_changed s"
  "st_routes (save now jt r sz s) = st_routes s"
  "st_business (save now jt r sz s) = st_business s"
  "st_semantic (save now jt r sz s) = st_semantic s"
  "st_cursors (save now jt r sz s) = st_cursors s"
  "st_historyHead (save now jt r sz s) = st_historyHead s"
  by (simp_all add: save_def Let_def split: option.split)

lemma save_records:
  "st_records (save now jt r sz s) = AList.update (ir_RecordID r) (stored_form jt r sz) (st_records s)"
  by (simp add: save_def stored_form_def Let_def split: option.split)

lemma save_pending:
  "st_pending (save now jt r sz s) =
     (if Terminal r then set_del (ir_RecordID r) (st_pending s) else set_add (ir_RecordID r) (st_pending s))"
  by (simp add: save_def Let_def split: option.split)

lemma save_pendingByRoute:
  "st_pendingByRoute (save now jt r sz s) =
     (let p = (case map_of (st_records s) (ir_RecordID r) of
                 Some o1 \<Rightarrow> if \<not> Terminal o1 \<and> Terminal r
                           then drop_index (Identity o1) (ir_RecordID r) (st_pendingByRoute s) else st_pendingByRoute s
               | None \<Rightarrow> st_pendingByRoute s)
      in if Terminal r then p else add_index (Identity r) (ir_RecordID r) p)"
  by (simp add: save_def Let_def split: option.split)

lemma save_byRoute: "st_byRoute (save now jt r sz s) = add_index (Identity r) (ir_RecordID r) (st_byRoute s)"
  by (simp add: save_def Let_def split: option.split)

lemma save_history:
  "st_history (save now jt r sz s) =
     (if Terminal r \<and> (case map_of (st_records s) (ir_RecordID r) of None \<Rightarrow> True | Some o1 \<Rightarrow> \<not> Terminal o1)
      then st_history s @ [(ir_RecordID r, now + ingressHistoryTTL)] else st_history s)"
  by (simp add: save_def Let_def split: option.split)

lemmas save_effect = save_records save_pending save_pendingByRoute save_byRoute save_history

section \<open>Indexes over the records\<close>

text \<open>
  The route indexes are both a map from a key to the set of the identifiers of the live
  records with that key. What keeps one in step with the records is proved once, over the
  laws of adding to and dropping from such a map.
\<close>

definition indexed_by ::
  "('m \<Rightarrow> 'k \<Rightarrow> string set) \<Rightarrow> ('m \<Rightarrow> bool) \<Rightarrow> ('r \<Rightarrow> bool) \<Rightarrow> ('r \<Rightarrow> 'k) \<Rightarrow> 'm \<Rightarrow> (string \<Rightarrow> 'r option) \<Rightarrow> bool"
  where
  "indexed_by look good live key_of m recs \<longleftrightarrow>
     good m \<and> (\<forall>k. look m k = {x. \<exists>r. recs x = Some r \<and> live r \<and> key_of r = k})"

locale record_index =
  fixes add :: "'k \<Rightarrow> string \<Rightarrow> 'm \<Rightarrow> 'm"
    and drp :: "'k \<Rightarrow> string \<Rightarrow> 'm \<Rightarrow> 'm"
    and look :: "'m \<Rightarrow> 'k \<Rightarrow> string set"
    and wf :: "'m \<Rightarrow> bool"
    and live :: "'r \<Rightarrow> bool"
    and key_of :: "'r \<Rightarrow> 'k"
  assumes look_add: "look (add k x m) k' = (if k' = k then insert x (look m k) else look m k')"
    and look_drp: "look (drp k x m) k' = (if k' = k then look m k - {x} else look m k')"
    and wf_add: "wf m \<Longrightarrow> wf (add k x m)"
    and wf_drp: "wf m \<Longrightarrow> wf (drp k x m)"
begin

lemma add_live:
  assumes "indexed_by look wf live key_of m recs" and "live r"
    and "\<forall>old. recs x = Some old \<longrightarrow> key_of old = key_of r"
  shows "indexed_by look wf live key_of (add (key_of r) x m) (recs(x \<mapsto> r))"
  using assms by (auto simp: indexed_by_def look_add wf_add)

lemma drop_dead:
  assumes "indexed_by look wf live key_of m recs" and "\<not> live r" and "recs x = Some old"
  shows "indexed_by look wf live key_of (drp (key_of old) x m) (recs(x \<mapsto> r))"
  using assms by (auto simp: indexed_by_def look_drp wf_drp)

lemma skip_dead:
  assumes "indexed_by look wf live key_of m recs" and "\<not> live r"
    and "\<forall>old. recs x = Some old \<longrightarrow> \<not> live old"
  shows "indexed_by look wf live key_of m (recs(x \<mapsto> r))"
  using assms by (auto simp: indexed_by_def)

lemma drop_removed:
  assumes "indexed_by look wf live key_of m recs" and "recs x = Some old"
  shows "indexed_by look wf live key_of (drp (key_of old) x m) (recs(x := None))"
  using assms by (auto simp: indexed_by_def look_drp wf_drp)

lemma skip_removed:
  assumes "indexed_by look wf live key_of m recs" and "\<forall>old. recs x = Some old \<longrightarrow> \<not> live old"
  shows "indexed_by look wf live key_of m (recs(x := None))"
  using assms by (auto simp: indexed_by_def)

end

definition index_look :: "('k, string list) gomap \<Rightarrow> 'k \<Rightarrow> string set" where
  "index_look m k = set (get_or [] m k)"

definition wf_index :: "('k, string list) gomap \<Rightarrow> bool" where
  "wf_index m \<longleftrightarrow> wf_map m \<and> (\<forall>k ids. map_of m k = Some ids \<longrightarrow> ids \<noteq> [] \<and> distinct ids)"

lemma wf_index_distinct: "wf_index m \<Longrightarrow> distinct (get_or [] m k)"
  by (auto simp: wf_index_def get_or_def split: option.split)

lemma index_look_add: "index_look (add_index k x m) k' = (if k' = k then insert x (index_look m k) else index_look m k')"
  by (simp add: index_look_def add_index_def)

lemma index_look_drop: "index_look (drop_index k x m) k' = (if k' = k then index_look m k - {x} else index_look m k')"
proof -
  have "set (get_or [] m k) - {x} = {} \<longleftrightarrow> set_del x (get_or [] m k) = []"
    by (metis set_empty set_set_del)
  then show ?thesis by (auto simp: index_look_def drop_index_def Let_def)
qed

lemma wf_index_add: "wf_index m \<Longrightarrow> wf_index (add_index k x m)"
  using wf_index_distinct [of m k] by (auto simp: wf_index_def add_index_def)

lemma wf_index_drop: "wf_index m \<Longrightarrow> wf_index (drop_index k x m)"
  using wf_index_distinct [of m k] by (auto simp: wf_index_def drop_index_def Let_def split: if_splits)

interpretation pending_ix: record_index add_index drop_index index_look wf_index "\<lambda>r. \<not> Terminal r" Identity
  by unfold_locales (auto simp: index_look_add index_look_drop wf_index_add wf_index_drop)

interpretation route_ix: record_index add_index drop_index index_look wf_index "\<lambda>r. True" Identity
  by unfold_locales (auto simp: index_look_add index_look_drop wf_index_add wf_index_drop)

end
