(* ===== verification/StoreInvariant.thy ===== *)
theory StoreInvariant
  imports IngressStore
begin

text \<open>
  The invariant of the ingress store and its preservation by the two internal mutators,
  \<open>save\<close> and the pruning of expired history: every index names exactly the records it
  should, the counters are the sums over the records, and the history holds exactly the
  terminal records.
\<close>

section \<open>Counters\<close>

definition pending_of :: "ingress_record \<Rightarrow> int" where
  "pending_of r = (if Terminal r then 0 else 1)"
definition bytes_of :: "ingress_record \<Rightarrow> int" where
  "bytes_of r = (if Terminal r then 0 else uint (ir_size r))"
definition tombstones_of :: "ingress_record \<Rightarrow> int" where
  "tombstones_of r = (if Terminal r then 1 else 0)"
definition memory_of :: "ingress_record \<Rightarrow> int" where
  "memory_of r = uint (ir_size r)"

lemmas record_weights = pending_of_def bytes_of_def tombstones_of_def memory_of_def

definition for_account :: "string \<Rightarrow> (ingress_record \<Rightarrow> int) \<Rightarrow> ingress_record \<Rightarrow> int" where
  "for_account k f r = (if account_key r = k then f r else 0)"

definition sum_counts :: "((ingress_record \<Rightarrow> int) \<Rightarrow> ingress_record \<Rightarrow> int) \<Rightarrow> (string, ingress_record) gomap \<Rightarrow> ingress_counts" where
  "sum_counts sel m = \<lparr>cn_Pending = gsum (sel pending_of) m, cn_Bytes = gsum (sel bytes_of) m,
                       cn_Tombstones = gsum (sel tombstones_of) m\<rparr>"

definition counts_inv :: "ingress_store \<Rightarrow> bool" where
  "counts_inv s \<longleftrightarrow> wf_map (st_counts s)
     \<and> (\<forall>k. get_or zero_counts (st_counts s) k = sum_counts (for_account k) (st_records s))
     \<and> st_total s = sum_counts id (st_records s)
     \<and> st_memoryBytes s = gsum memory_of (st_records s)"

definition add_counts :: "int \<Rightarrow> ingress_record \<Rightarrow> ingress_counts \<Rightarrow> ingress_counts" where
  "add_counts d r c = \<lparr>cn_Pending = cn_Pending c + d * pending_of r, cn_Bytes = cn_Bytes c + d * bytes_of r,
                       cn_Tombstones = cn_Tombstones c + d * tombstones_of r\<rparr>"

lemma adjustCounts_counts:
  "get_or zero_counts (st_counts (adjustCounts r d s)) k =
     (if k = account_key r then add_counts d r (get_or zero_counts (st_counts s) k)
      else get_or zero_counts (st_counts s) k)"
  by (cases "get_or zero_counts (st_counts s) (account_key r)")
     (auto simp: adjustCounts_def Let_def add_counts_def record_weights)

lemma adjustCounts_total: "st_total (adjustCounts r d s) = add_counts d r (st_total s)"
  by (cases "st_total s") (simp add: adjustCounts_def Let_def add_counts_def record_weights)

lemma adjustCounts_memory: "st_memoryBytes (adjustCounts r d s) = st_memoryBytes s + d * memory_of r"
  by (simp add: adjustCounts_def Let_def memory_of_def)

lemma adjustCounts_wf: "wf_map (st_counts s) \<Longrightarrow> wf_map (st_counts (adjustCounts r d s))"
  by (auto simp: adjustCounts_def Let_def)

lemmas adjustCounts_effect = adjustCounts_counts adjustCounts_total adjustCounts_memory adjustCounts_wf

lemma add_counts_twice:
  "add_counts 1 r (add_counts (-1) q c) =
     \<lparr>cn_Pending = cn_Pending c - pending_of q + pending_of r, cn_Bytes = cn_Bytes c - bytes_of q + bytes_of r,
      cn_Tombstones = cn_Tombstones c - tombstones_of q + tombstones_of r\<rparr>"
  by (simp add: add_counts_def)

lemma adjustCounts_reads:
  "st_counts (adjustCounts r d s) = (let c = add_counts d r (get_or zero_counts (st_counts s) (account_key r)) in
     if c = zero_counts then AList.delete (account_key r) (st_counts s) else AList.update (account_key r) c (st_counts s))"
  by (cases "get_or zero_counts (st_counts s) (account_key r)")
     (simp add: adjustCounts_def Let_def add_counts_def record_weights)

definition released :: "ingress_record \<Rightarrow> ingress_store \<Rightarrow> ingress_store" where
  "released r s = (case map_of (st_records s) (ir_RecordID r) of None \<Rightarrow> s | Some o1 \<Rightarrow> adjustCounts o1 (-1) s)"

lemma save_counts:
  "st_counts (save now jt r sz s) = st_counts (adjustCounts (stored_form jt r sz) 1 (released r s))"
  "st_total (save now jt r sz s) = st_total (adjustCounts (stored_form jt r sz) 1 (released r s))"
  "st_memoryBytes (save now jt r sz s) = st_memoryBytes (adjustCounts (stored_form jt r sz) 1 (released r s))"
proof -
  let ?a = "\<lambda>s2. adjustCounts (stored_form jt r sz) 1 s2"
  obtain s2 where s2: "save now jt r sz s = (?a s2)\<lparr>st_records := AList.update (ir_RecordID r) (stored_form jt r sz) (st_records (?a s2)),
      st_byRoute := add_index (Identity r) (ir_RecordID r) (st_byRoute (?a s2))\<rparr>"
    and same: "st_counts s2 = st_counts (released r s)" "st_total s2 = st_total (released r s)"
      "st_memoryBytes s2 = st_memoryBytes (released r s)"
    by (rule that, (unfold save_def stored_form_def Let_def cloneIngressRecord_id), (rule refl))
       (simp_all add: released_def split: option.split)
  show "st_counts (save now jt r sz s) = st_counts (?a (released r s))"
    by (simp add: s2 adjustCounts_reads same Let_def)
  show "st_total (save now jt r sz s) = st_total (?a (released r s))"
    by (simp add: s2 adjustCounts_total same)
  show "st_memoryBytes (save now jt r sz s) = st_memoryBytes (?a (released r s))"
    by (simp add: s2 adjustCounts_memory same)
qed

lemma counts_inv_save:
  assumes "counts_inv s"
  shows "counts_inv (save now jt r sz s)"
proof (cases "map_of (st_records s) (ir_RecordID r)")
  case None
  with assms show ?thesis
    by (auto simp: counts_inv_def save_counts released_def adjustCounts_effect save_records sum_counts_def gsum_update
        add_counts_def for_account_def)
next
  case (Some old)
  with assms show ?thesis
    by (auto simp: counts_inv_def save_counts released_def adjustCounts_effect save_records sum_counts_def gsum_update
        add_counts_def for_account_def)
qed

section \<open>Indexes and history\<close>

definition ids_where :: "(ingress_record \<Rightarrow> bool) \<Rightarrow> ingress_store \<Rightarrow> string set" where
  "ids_where P s = {x. \<exists>r. map_of (st_records s) x = Some r \<and> P r}"

definition records_inv :: "ingress_store \<Rightarrow> bool" where
  "records_inv s \<longleftrightarrow> wf_map (st_records s)
     \<and> (\<forall>x r. map_of (st_records s) x = Some r \<longrightarrow> ir_RecordID r = x)
     \<and> distinct (st_pending s) \<and> set (st_pending s) = ids_where (\<lambda>r. \<not> Terminal r) s"

definition routes_inv :: "ingress_store \<Rightarrow> bool" where
  "routes_inv s \<longleftrightarrow>
     indexed_by index_look wf_index (\<lambda>r. \<not> Terminal r) Identity (st_pendingByRoute s) (map_of (st_records s))
     \<and> indexed_by index_look wf_index (\<lambda>r. True) Identity (st_byRoute s) (map_of (st_records s))
     \<and> wf_map (st_routes s)"

text \<open>The business index is exact: one entry for each retained record, and no other.\<close>

definition keys_inv :: "ingress_store \<Rightarrow> bool" where
  "keys_inv s \<longleftrightarrow> wf_map (st_business s) \<and> wf_map (st_semantic s)
     \<and> (\<forall>k x. map_of (st_business s) k = Some x \<longleftrightarrow> (\<exists>r. map_of (st_records s) x = Some r \<and> business_key r = k))
     \<and> (\<forall>k x. map_of (st_semantic s) k = Some x \<longrightarrow> (\<exists>r. map_of (st_records s) x = Some r \<and> semantic_key r = k))
     \<and> map_of (st_records s) '''' = None"

definition live_history :: "ingress_store \<Rightarrow> string list" where
  "live_history s = map fst (drop (st_historyHead s) (st_history s))"

definition history_inv :: "ingress_store \<Rightarrow> bool" where
  "history_inv s \<longleftrightarrow> st_historyHead s \<le> length (st_history s)
     \<and> distinct (live_history s) \<and> set (live_history s) = ids_where Terminal s"

definition store_inv :: "ingress_store \<Rightarrow> bool" where
  "store_inv s \<longleftrightarrow> records_inv s \<and> routes_inv s \<and> keys_inv s \<and> history_inv s \<and> counts_inv s
     \<and> cursors_ok (st_cursors s) \<and> metrics_ok (st_metrics s)"

lemmas store_inv_parts = records_inv_def routes_inv_def keys_inv_def history_inv_def

text \<open>
  A save may replace a record by one of the same chat and only towards a terminal state;
  every save of the program does.
\<close>

definition save_ok :: "ingress_record \<Rightarrow> ingress_store \<Rightarrow> bool" where
  "save_ok r s \<longleftrightarrow> (\<forall>old. map_of (st_records s) (ir_RecordID r) = Some old \<longrightarrow>
     Identity old = Identity r \<and> (Terminal old \<longrightarrow> Terminal r))"

lemma records_inv_save: "records_inv s \<Longrightarrow> records_inv (save now jt r sz s)"
  unfolding records_inv_def save_records save_pending ids_where_def by auto

lemma routes_inv_save:
  assumes "routes_inv s" and "save_ok r s"
  shows "routes_inv (save now jt r sz s)"
proof -
  let ?R = "map_of (st_records s)" and ?r = "stored_form jt r sz" and ?x = "ir_RecordID r"
  have upd: "map_of (st_records (save now jt r sz s)) = ?R(?x \<mapsto> ?r)"
    by (simp add: save_records update_conv')
  from assms have pend: "indexed_by index_look wf_index (\<lambda>r. \<not> Terminal r) Identity (st_pendingByRoute s) ?R"
    and all: "indexed_by index_look wf_index (\<lambda>r. True) Identity (st_byRoute s) ?R"
    and same: "\<forall>old. ?R ?x = Some old \<longrightarrow> Identity old = Identity ?r"
    by (auto simp: routes_inv_def save_ok_def)
  have "indexed_by index_look wf_index (\<lambda>r. True) Identity (st_byRoute (save now jt r sz s)) (?R(?x \<mapsto> ?r))"
    using route_ix.add_live [OF all _ same] by (simp add: save_byRoute)
  moreover have "indexed_by index_look wf_index (\<lambda>r. \<not> Terminal r) Identity
      (st_pendingByRoute (save now jt r sz s)) (?R(?x \<mapsto> ?r))"
  proof (cases "Terminal r")
    case False
    moreover from this assms(2) have "\<forall>old. ?R ?x = Some old \<longrightarrow> \<not> Terminal old" by (auto simp: save_ok_def)
    ultimately show ?thesis
      using pending_ix.add_live [OF pend _ same]
      by (auto simp: save_pendingByRoute Let_def split: option.split)
  next
    case True
    then show ?thesis
      using pending_ix.drop_dead [OF pend, of ?r ?x] pending_ix.skip_dead [OF pend, of ?r ?x]
      by (auto simp: save_pendingByRoute Let_def split: option.split)
  qed
  ultimately show ?thesis using assms(1) by (simp add: routes_inv_def upd)
qed

lemma history_inv_save:
  assumes "history_inv s" and "save_ok r s"
  shows "history_inv (save now jt r sz s)"
  using assms unfolding history_inv_def live_history_def save_history save_records ids_where_def save_ok_def
  by (auto split: option.splits)

text \<open>Replacing a record without touching its keys keeps the key indexes exact.\<close>

lemma keys_inv_save:
  assumes "keys_inv s" and "map_of (st_records s) (ir_RecordID r) = Some old"
    and "business_key r = business_key old" and "semantic_key r = semantic_key old"
  shows "keys_inv (save now jt r sz s)"
  using assms unfolding keys_inv_def save_records
  by (auto simp: save_records) (metis option.inject)

lemma store_inv_save:
  assumes "store_inv s" and "map_of (st_records s) (ir_RecordID r) = Some old"
    and "Identity r = Identity old" and "ir_BusinessID r = ir_BusinessID old"
    and "ir_SemanticID r = ir_SemanticID old" and "Terminal old \<longrightarrow> Terminal r"
  shows "store_inv (save now jt r sz s)"
proof -
  have ok: "save_ok r s" using assms by (auto simp: save_ok_def)
  have keys: "business_key r = business_key old" "semantic_key r = semantic_key old"
    using assms by (auto simp: Identity_def)
  show ?thesis
    using assms(1) counts_inv_save records_inv_save routes_inv_save [OF _ ok] history_inv_save [OF _ ok]
      keys_inv_save [OF _ assms(2) keys]
    by (simp add: store_inv_def)
qed

section \<open>Pruning\<close>

lemma prune_record_frame [simp]:
  "st_closing (prune_record p x r s) = st_closing s"
  "st_metrics (prune_record p x r s) = st_metrics s"
  "st_changed (prune_record p x r s) = st_changed s"
  "st_pending (prune_record p x r s) = st_pending s"
  "st_pendingByRoute (prune_record p x r s) = st_pendingByRoute s"
  "st_cursors (prune_record p x r s) = st_cursors s"
  "st_history (prune_record p x r s) = st_history s"
  "st_historyHead (prune_record p x r s) = st_historyHead s"
  by (simp_all add: prune_record_def Let_def)

lemma prune_record_effect:
  "st_records (prune_record p x r s) = AList.delete x (st_records s)"
  "st_business (prune_record p x r s) = (if map_of (st_business s) (business_key r) = Some x
     then AList.delete (business_key r) (st_business s) else st_business s)"
  "st_semantic (prune_record p x r s) = (if map_of (st_semantic s) (semantic_key r) = Some x
     then AList.delete (semantic_key r) (st_semantic s) else st_semantic s)"
  "st_byRoute (prune_record p x r s) = drop_index (Identity r) x (st_byRoute s)"
  by (simp_all add: prune_record_def drop_index_def Let_def)

lemma prune_record_routes:
  "st_routes (prune_record p x r s) =
     (if index_look (st_byRoute s) (Identity r) - {x} = {} \<and> Identity r \<noteq> p
      then AList.delete (Identity r) (st_routes s) else st_routes s)"
proof -
  have "set_del x (get_or [] (st_byRoute s) (Identity r)) = [] \<longleftrightarrow> index_look (st_byRoute s) (Identity r) - {x} = {}"
    by (metis index_look_def set_empty set_set_del)
  then show ?thesis by (auto simp: prune_record_def Let_def)
qed

lemma map_of_delete_fun: "map_of (AList.delete k m) = (map_of m)(k := None)"
  by (rule ext) simp

lemma prune_record_counts:
  "st_counts (prune_record p x r s) = st_counts (adjustCounts r (-1) s)"
  "st_total (prune_record p x r s) = st_total (adjustCounts r (-1) s)"
  "st_memoryBytes (prune_record p x r s) = st_memoryBytes (adjustCounts r (-1) s)"
  by (simp_all add: prune_record_def Let_def)

text \<open>One turn of the loop: the head entry is consumed together with its record.\<close>

lemma history_head:
  assumes "st_historyHead s < length (st_history s)" and "st_history s ! st_historyHead s = (x, e)"
  shows "live_history s = x # live_history (s\<lparr>st_historyHead := st_historyHead s + 1\<rparr>)"
  using assms by (simp add: live_history_def Cons_nth_drop_Suc [symmetric])

lemma keys_inv_prune_record:
  assumes inv: "keys_inv s" and r: "map_of (st_records s) x = Some r"
  shows "keys_inv (prune_record p x r s)"
proof -
  let ?R = "map_of (st_records s)"
  from inv have biz: "\<And>k y. map_of (st_business s) k = Some y \<longleftrightarrow> (\<exists>q. ?R y = Some q \<and> business_key q = k)"
    and sem: "\<And>k y. map_of (st_semantic s) k = Some y \<Longrightarrow> \<exists>q. ?R y = Some q \<and> semantic_key q = k"
    unfolding keys_inv_def by blast+
  have mine: "map_of (st_business s) (business_key r) = Some x" using biz r by blast
  have "map_of (AList.delete (business_key r) (st_business s)) k = Some y \<longleftrightarrow>
      (\<exists>q. map_of (AList.delete x (st_records s)) y = Some q \<and> business_key q = k)" for k y
  proof (cases "k = business_key r")
    case True
    then show ?thesis using mine biz [of "business_key r" y] by auto
  next
    case False
    then show ?thesis using biz [of k y] r by auto
  qed
  moreover have "\<exists>q. map_of (AList.delete x (st_records s)) y = Some q \<and> semantic_key q = k"
    if "map_of (st_semantic (prune_record p x r s)) k = Some y" for k y
  proof -
    from that have y: "map_of (st_semantic s) k = Some y"
      by (auto simp: prune_record_effect split: if_splits)
    then obtain q where q: "?R y = Some q" "semantic_key q = k" using sem by blast
    have "y \<noteq> x" using that y q r by (auto simp: prune_record_effect split: if_splits)
    then show ?thesis using q by simp
  qed
  ultimately show ?thesis
    using inv mine unfolding keys_inv_def by (auto simp: prune_record_effect gm.wf_del)
qed

lemma store_inv_prune_record:
  assumes inv: "store_inv s" and head: "st_historyHead s < length (st_history s)"
    and entry: "st_history s ! st_historyHead s = (x, e)" and r: "map_of (st_records s) x = Some r"
  shows "store_inv (prune_record p x r (s\<lparr>st_historyHead := st_historyHead s + 1\<rparr>))" (is "store_inv ?t")
proof -
  let ?R = "map_of (st_records s)"
  have recs: "map_of (st_records ?t) = ?R(x := None)" by (simp add: prune_record_effect delete_conv')
  have live: "live_history s = x # live_history ?t"
    using history_head [OF head entry] by (simp add: live_history_def)
  have wf: "wf_map (st_records s)" using inv by (simp add: store_inv_def records_inv_def)
  have "x \<in> set (live_history s)" using live by simp
  then have dead: "Terminal r" using inv r by (auto simp: store_inv_def history_inv_def ids_where_def)
  have "records_inv ?t"
    using inv r dead by (auto simp: store_inv_def records_inv_def ids_where_def prune_record_effect)
  moreover have "routes_inv ?t"
  proof -
    from inv have pend: "indexed_by index_look wf_index (\<lambda>r. \<not> Terminal r) Identity (st_pendingByRoute s) ?R"
      and all: "indexed_by index_look wf_index (\<lambda>r. True) Identity (st_byRoute s) ?R"
      and wfr: "wf_map (st_routes s)"
      by (simp_all add: store_inv_def routes_inv_def)
    have "\<forall>old. ?R x = Some old \<longrightarrow> \<not> \<not> Terminal old" using r dead by simp
    from pending_ix.skip_removed [OF pend this] route_ix.drop_removed [OF all r] wfr
    show ?thesis unfolding routes_inv_def recs by (auto simp: prune_record_effect prune_record_routes)
  qed
  moreover have "keys_inv ?t"
    using inv r keys_inv_prune_record [of "s\<lparr>st_historyHead := st_historyHead s + 1\<rparr>" x r p]
    by (simp add: store_inv_def keys_inv_def)
  moreover have "history_inv ?t"
    using inv head live r by (auto simp: store_inv_def history_inv_def ids_where_def prune_record_effect)
  moreover have "counts_inv ?t"
    using inv r wf
    by (auto simp: store_inv_def counts_inv_def prune_record_counts adjustCounts_effect prune_record_effect
        sum_counts_def gsum_delete add_counts_def for_account_def)
  ultimately show ?thesis using inv by (simp add: store_inv_def)
qed

lemma store_inv_head_skip:
  assumes "store_inv s" and "st_historyHead s < length (st_history s)"
    and "st_history s ! st_historyHead s = (x, e)"
  shows "map_of (st_records s) x \<noteq> None"
proof -
  have "x \<in> set (live_history s)" using history_head [OF assms(2,3)] by simp
  then have "x \<in> ids_where Terminal s" using assms(1) by (simp add: store_inv_def history_inv_def)
  then show ?thesis by (auto simp: ids_where_def)
qed

text \<open>What one turn keeps, the loop keeps; a loop over a sound history never skips an entry.\<close>

lemma prune_loop_rule:
  assumes "P s"
    and prune: "\<And>s x e r. P s \<Longrightarrow> st_historyHead s < length (st_history s) \<Longrightarrow> st_history s ! st_historyHead s = (x, e)
      \<Longrightarrow> map_of (st_records s) x = Some r \<Longrightarrow> \<not> now < e
      \<Longrightarrow> P (prune_record p x r (s\<lparr>st_historyHead := st_historyHead s + 1\<rparr>))"
    and skip: "\<And>s x e. P s \<Longrightarrow> st_historyHead s < length (st_history s) \<Longrightarrow> st_history s ! st_historyHead s = (x, e)
      \<Longrightarrow> map_of (st_records s) x = None \<Longrightarrow> P (s\<lparr>st_historyHead := st_historyHead s + 1\<rparr>)"
  shows "P (prune_loop n now p s)"
  using assms(1)
proof (induction n arbitrary: s)
  case (Suc n)
  obtain x e where xe: "st_history s ! st_historyHead s = (x, e)" by (cases "st_history s ! st_historyHead s")
  show ?case
  proof (cases "st_historyHead s < length (st_history s)")
    case True
    show ?thesis
    proof (cases "map_of (st_records s) x")
      case None
      with True xe Suc.IH [OF skip [OF Suc.prems True xe None]] show ?thesis by simp
    next
      case (Some r)
      with True xe Suc.IH [OF prune [OF Suc.prems True xe Some]] Suc.prems show ?thesis by simp
    qed
  qed (use Suc.prems in simp)
qed simp

lemma store_inv_prune_loop:
  assumes "store_inv s"
  shows "store_inv (prune_loop n now p s)"
  using assms store_inv_prune_record
proof (rule prune_loop_rule [where P = store_inv])
  fix t x e
  assume "store_inv t" "st_historyHead t < length (st_history t)" "st_history t ! st_historyHead t = (x, e)"
    "map_of (st_records t) x = None"
  then show "store_inv (t\<lparr>st_historyHead := st_historyHead t + 1\<rparr>)" using store_inv_head_skip by blast
qed

lemma store_inv_compact: "store_inv s \<Longrightarrow> store_inv (compact_history s)"
  by (simp add: compact_history_def store_inv_def store_inv_parts live_history_def ids_where_def counts_inv_def)

lemma store_inv_prune: "store_inv s \<Longrightarrow> store_inv (pruneHistory now p s)"
  by (simp add: pruneHistory_def store_inv_compact store_inv_prune_loop)

text \<open>Pruning only removes records, and only expired ones that reached a terminal state.\<close>

lemma compact_history_frame [simp]:
  "st_records (compact_history s) = st_records s"
  "st_routes (compact_history s) = st_routes s"
  "st_business (compact_history s) = st_business s"
  "st_semantic (compact_history s) = st_semantic s"
  "st_closing (compact_history s) = st_closing s"
  "st_metrics (compact_history s) = st_metrics s"
  "st_changed (compact_history s) = st_changed s"
  "st_cursors (compact_history s) = st_cursors s"
  "st_pendingByRoute (compact_history s) = st_pendingByRoute s"
  "st_byRoute (compact_history s) = st_byRoute s"
  "st_counts (compact_history s) = st_counts s"
  "st_total (compact_history s) = st_total s"
  "st_memoryBytes (compact_history s) = st_memoryBytes s"
  by (simp_all add: compact_history_def)

lemma prune_loop_closing [simp]: "st_closing (prune_loop n now p s) = st_closing s"
  by (rule prune_loop_rule [where P = "\<lambda>t. st_closing t = st_closing s"]) simp_all

lemma prune_loop_metrics [simp]: "st_metrics (prune_loop n now p s) = st_metrics s"
  by (rule prune_loop_rule [where P = "\<lambda>t. st_metrics t = st_metrics s"]) simp_all

lemma prune_loop_changed [simp]: "st_changed (prune_loop n now p s) = st_changed s"
  by (rule prune_loop_rule [where P = "\<lambda>t. st_changed t = st_changed s"]) simp_all

lemma prune_loop_cursors [simp]: "st_cursors (prune_loop n now p s) = st_cursors s"
  by (rule prune_loop_rule [where P = "\<lambda>t. st_cursors t = st_cursors s"]) simp_all

lemma prune_loop_pendingByRoute [simp]: "st_pendingByRoute (prune_loop n now p s) = st_pendingByRoute s"
  by (rule prune_loop_rule [where P = "\<lambda>t. st_pendingByRoute t = st_pendingByRoute s"]) simp_all

lemma pruneHistory_frame [simp]:
  "st_closing (pruneHistory now p s) = st_closing s"
  "st_metrics (pruneHistory now p s) = st_metrics s"
  "st_changed (pruneHistory now p s) = st_changed s"
  "st_cursors (pruneHistory now p s) = st_cursors s"
  "st_pendingByRoute (pruneHistory now p s) = st_pendingByRoute s"
  by (simp_all add: pruneHistory_def)

lemma prune_records_subset:
  assumes "map_of (st_records (pruneHistory now p s)) x = Some r"
  shows "map_of (st_records s) x = Some r"
proof -
  have "\<forall>x r. map_of (st_records (prune_loop n now p s)) x = Some r \<longrightarrow> map_of (st_records s) x = Some r" for n
    by (rule prune_loop_rule [where P = "\<lambda>t. \<forall>x r. map_of (st_records t) x = Some r \<longrightarrow> map_of (st_records s) x = Some r"])
       (auto simp: prune_record_effect)
  with assms show ?thesis by (simp add: pruneHistory_def)
qed

lemma prune_keeps_pending:
  assumes "store_inv s" and "map_of (st_records s) x = Some r" and "\<not> Terminal r"
  shows "map_of (st_records (pruneHistory now p s)) x = Some r"
proof -
  let ?P = "\<lambda>t. store_inv t \<and> map_of (st_records t) x = Some r"
  have "?P (prune_loop n now p s)" for n
  proof (rule prune_loop_rule [where P = ?P])
    show "?P s" using assms by simp
  next
    fix t y e q
    assume t: "?P t" and head: "st_historyHead t < length (st_history t)"
      and entry: "st_history t ! st_historyHead t = (y, e)" and q: "map_of (st_records t) y = Some q"
    have "y \<in> set (live_history t)" using history_head [OF head entry] by simp
    then have "y \<noteq> x" using t assms(3) by (auto simp: store_inv_def history_inv_def ids_where_def)
    then show "?P (prune_record p y q (t\<lparr>st_historyHead := st_historyHead t + 1\<rparr>))"
      using t store_inv_prune_record [OF _ head entry q] by (simp add: prune_record_effect)
  qed (auto dest: store_inv_head_skip)
  then show ?thesis by (simp add: pruneHistory_def)
qed

lemma prune_length:
  assumes "store_inv s"
  shows "length (st_records (pruneHistory now p s)) \<le> length (st_records s)"
proof -
  let ?P = "\<lambda>t. store_inv t \<and> length (st_records t) \<le> length (st_records s)"
  have "?P (prune_loop n now p s)" for n
  proof (rule prune_loop_rule [where P = ?P])
    fix t y e q
    assume t: "?P t" and head: "st_historyHead t < length (st_history t)"
      and entry: "st_history t ! st_historyHead t = (y, e)" and q: "map_of (st_records t) y = Some q"
    have "length (AList.delete y (st_records t)) \<le> length (st_records t)"
      using t by (intro gm.len_del_le) (simp add: store_inv_def records_inv_def)
    then show "?P (prune_record p y q (t\<lparr>st_historyHead := st_historyHead t + 1\<rparr>))"
      using t store_inv_prune_record [OF _ head entry q, of p] by (simp add: prune_record_effect)
  qed (use assms in \<open>auto dest: store_inv_head_skip\<close>)
  then show ?thesis by (simp add: pruneHistory_def)
qed

lemma prune_keeps_route: "map_of (st_routes (pruneHistory now p s)) p = map_of (st_routes s) p"
proof -
  have "map_of (st_routes (prune_loop n now p s)) p = map_of (st_routes s) p" for n
    by (rule prune_loop_rule [where P = "\<lambda>t. map_of (st_routes t) p = map_of (st_routes s) p"])
       (auto simp: prune_record_routes)
  then show ?thesis by (simp add: pruneHistory_def)
qed

end
