(* ===== verification/IngressAccept.thy ===== *)
theory IngressAccept
  imports StoreInvariant
begin

text \<open>
  The public operations of \<open>internal/gateway/im_ingress_store.go\<close>: closing and locking the
  store, reading it, \<open>acceptRecord\<close> with its validations, deduplication and capacity limits,
  and \<open>UpdateRecord\<close>; and the guarded cursor commit of \<open>im_ingress_progress.go\<close>.
\<close>

section \<open>Locking and reading\<close>

datatype ingress_error =
    ErrIngressMissing | ErrIngressBlocked | ErrIngressClosed | ErrContext | ErrMutate string
  | ErrTransportChanged | ErrCursor cursor_error

text \<open>A nonblocking send on the one-slot channel \<open>changed\<close>.\<close>

definition signal :: "ingress_store \<Rightarrow> ingress_store" where
  "signal s = s\<lparr>st_changed := True\<rparr>"

definition store_Close :: "ingress_store \<Rightarrow> ingress_store" where
  "store_Close s = s\<lparr>st_closing := True, st_records := [], st_pending := [], st_pendingByRoute := [], st_routes := [],
     st_byRoute := [], st_business := [], st_semantic := [], st_cursors := [], st_counts := [], st_history := [],
     st_historyHead := 0, st_total := zero_counts, st_memoryBytes := 0\<rparr>"

text \<open>\<open>lock\<close>: taking the mutex fails on a dead context; a closed store and a context that died since give it up.\<close>

definition store_lock :: "ingress_env \<Rightarrow> ingress_store \<Rightarrow> ingress_error option" where
  "store_lock e s = (if ie_ctxErr e then Some ErrContext else if st_closing s then Some ErrIngressClosed
     else if ie_ctxLate e then Some ErrContext else None)"

definition zero_record :: ingress_record where
  "zero_record = \<lparr>ir_statusQuery = False, ir_size = 0, ir_RecordID = '''', ir_Platform = '''', ir_AccountID = '''',
     ir_ChatID = '''', ir_SenderID = '''', ir_BusinessID = '''', ir_SemanticID = '''', ir_DeliveryID = '''',
     ir_SourceTime = 0, ir_ReceivedAt = 0, ir_Sequence = 0, ir_Kind = KindOther '''', ir_State = IngressStateOther '''',
     ir_Reason = '''', ir_Text = '''', ir_AuthorizationDigest = '''', ir_RouteRevision = '''', ir_WorkspaceID = '''',
     ir_SessionID = '''', ir_RequestID = '''', ir_DispatchRuntimeID = '''', ir_DispatchSessionEpoch = 0,
     ir_ReceiptStatus = '''', ir_UpdatedAt = 0, ir_InputDigest = '''', ir_ControlTarget = None\<rparr>"

definition store_Get :: "string \<Rightarrow> ingress_store \<Rightarrow> ingress_error + ingress_record" where
  "store_Get x s = (case map_of (st_records s) x of None \<Rightarrow> Inl ErrIngressMissing | Some r \<Rightarrow> Inr (cloneIngressRecord r))"

definition GetRoute :: "chat_identity \<Rightarrow> ingress_store \<Rightarrow> ingress_error + ingress_route" where
  "GetRoute i s = (case map_of (st_routes s) i of None \<Rightarrow> Inl ErrIngressMissing | Some r \<Rightarrow> Inr r)"

definition store_list :: "chat_identity option \<Rightarrow> bool \<Rightarrow> bool \<Rightarrow> ingress_store \<Rightarrow> ingress_record list" where
  "store_list i pending metadata s =
     (let keys = (case (pending, i) of
                    (True, None) \<Rightarrow> st_pending s
                  | (True, Some i) \<Rightarrow> get_or [] (st_pendingByRoute s) i
                  | (False, Some i) \<Rightarrow> get_or [] (st_byRoute s) i
                  | (False, None) \<Rightarrow> map fst (st_records s));
          got = map (get_or zero_record (st_records s)) keys;
          kept = filter (\<lambda>r. (case i of Some i \<Rightarrow> Identity r = i | None \<Rightarrow> True) \<and> \<not> (pending \<and> Terminal r)) got;
          out = map (\<lambda>r. if metadata then (cloneIngressRecord r)\<lparr>ir_Text := ''''\<rparr> else cloneIngressRecord r) kept
      in sort_key (\<lambda>r. (Identity r, ir_Sequence r)) out)"

definition ListRouteRecords :: "chat_identity \<Rightarrow> ingress_store \<Rightarrow> ingress_record list" where
  "ListRouteRecords i s = store_list (Some i) False False s"

definition ListRoutePendingMetadata :: "chat_identity \<Rightarrow> ingress_store \<Rightarrow> ingress_record list" where
  "ListRoutePendingMetadata i s = store_list (Some i) True True s"

definition listPending :: "ingress_store \<Rightarrow> ingress_record list" where
  "listPending s = store_list None True False s"

definition PendingRoutes :: "ingress_store \<Rightarrow> chat_identity list" where
  "PendingRoutes s = sort (map fst (st_pendingByRoute s))"

definition lookupCommittedBusiness ::
  "string \<Rightarrow> string \<Rightarrow> string \<Rightarrow> ingress_store \<Rightarrow> ingress_error + receive_result" where
  "lookupCommittedBusiness platform account business s =
     (case map_of (st_business s) (compositeKey [platform, account, business]) of
        None \<Rightarrow> Inl ErrIngressMissing
      | Some x \<Rightarrow> let r = get_or zero_record (st_records s) x in
          Inr \<lparr>rr_Disposition = ReceiveDuplicate, rr_RecordID = x, rr_State = ir_State r, rr_Reason = ir_Reason r\<rparr>)"

section \<open>Cursors\<close>

text \<open>\<open>commitCursorGuarded\<close>; \<open>CommitCursor\<close> passes no transport check.\<close>

definition commitCursorGuarded ::
  "ingress_env \<Rightarrow> string \<Rightarrow> string \<Rightarrow> 64 word \<Rightarrow> ingress_cursor \<Rightarrow> bool \<Rightarrow> ingress_store \<Rightarrow> ingress_error option \<times> ingress_store" where
  "commitCursorGuarded e platform account expected nxt guarded s =
     (if guarded \<and> \<not> ie_valid e then (Some ErrTransportChanged, s)
      else case store_lock e s of
        Some err \<Rightarrow> (Some err, s)
      | None \<Rightarrow>
          (case checkCursor (st_cursors s) platform account expected nxt of
             Some err \<Rightarrow> (Some (ErrCursor err), s)
           | None \<Rightarrow> (None, s\<lparr>st_cursors :=
               AList.update (compositeKey [platform, account]) (the (CloneIngressCursor (Some nxt))) (st_cursors s)\<rparr>)))"

definition CommitCursor ::
  "ingress_env \<Rightarrow> string \<Rightarrow> string \<Rightarrow> 64 word \<Rightarrow> ingress_cursor \<Rightarrow> ingress_store \<Rightarrow> ingress_error option \<times> ingress_store" where
  "CommitCursor e platform account expected nxt s = commitCursorGuarded e platform account expected nxt False s"

definition store_Cursor :: "string \<Rightarrow> string \<Rightarrow> ingress_store \<Rightarrow> ingress_cursor" where
  "store_Cursor platform account s =
     the (CloneIngressCursor (Some (get_or zero_cursor (st_cursors s) (compositeKey [platform, account]))))"

section \<open>Metrics\<close>

definition ObserveLostBeforeAccept :: "string \<Rightarrow> string \<Rightarrow> ingress_store \<Rightarrow> ingress_store" where
  "ObserveLostBeforeAccept platform reason s =
     s\<lparr>st_metrics := metrics_record platform ''lost_before_accept'' reason (st_metrics s)\<rparr>"

definition ObserveStateTransition :: "string \<Rightarrow> string \<Rightarrow> string \<Rightarrow> string \<Rightarrow> ingress_store \<Rightarrow> ingress_store" where
  "ObserveStateTransition platform previous state reason s =
     (if previous \<noteq> state then s\<lparr>st_metrics := metrics_record platform state reason (st_metrics s)\<rparr> else s)"

definition observeAcceptance :: "string \<Rightarrow> receive_result \<Rightarrow> ingress_store \<Rightarrow> ingress_store" where
  "observeAcceptance platform res s =
     (let event = (if rr_Disposition res = ReceiveAccepted then ''received'' else disposition_text (rr_Disposition res))
      in s\<lparr>st_metrics := metrics_record platform event (rr_Reason res) (st_metrics s)\<rparr>)"

section \<open>Acceptance\<close>

text \<open>The validations before the store is locked, in their order.\<close>

definition accept_invalid :: "ingress_record \<Rightarrow> ingress_cursor option \<Rightarrow> string option" where
  "accept_invalid r cursor =
     (if ir_Platform r = '''' \<or> ir_AccountID r = '''' \<or> ir_ChatID r = ''''
         \<or> ir_SenderID r = '''' \<and> ir_State r \<noteq> IngressRejected \<or> ir_BusinessID r = ''''
         \<or> \<not> valid_utf8 (ir_Text r) \<or> 65536 < length (ir_Text r)
      then Some ''invalid_input''
      else if \<exists>v\<in>set [ir_Platform r, ir_AccountID r, ir_ChatID r, ir_SenderID r, ir_BusinessID r, ir_SemanticID r, ir_DeliveryID r].
                MaxScopedIDBytes < length v \<or> \<not> valid_utf8 v
      then Some ''invalid_identity''
      else if ir_InputDigest r \<noteq> '''' \<and> hex_decoded_length (ir_InputDigest r) \<noteq> Some 32
      then Some ''invalid_input_digest''
      else if ir_Kind r \<noteq> KindTask \<and> ir_Kind r \<noteq> KindControl then Some ''invalid_kind''
      else if ValidateIngressCursor (ir_Platform r) cursor \<noteq> None then Some ''invalid_cursor''
      else None)"

text \<open>
  What the critical section fills in before it looks at the indexes: the identifiers, the
  receipt time, the state, and what a control or a rejected record may not carry.
\<close>

definition accept_received :: "gotime \<Rightarrow> gotime \<Rightarrow> gotime option" where
  "accept_received now at =
     (if at = 0 \<or> now < at \<and> \<not> now + 5 * minute < at then Some now
      else if now + 5 * minute < at then None
      else Some at)"

definition accept_source :: "gotime \<Rightarrow> ingress_record \<Rightarrow> ingress_record" where
  "accept_source now r =
     (if ir_SourceTime r \<noteq> 0 \<and> (ir_SourceTime r < now - 24 * hour \<or> now + 5 * minute < ir_SourceTime r)
      then r\<lparr>ir_State := IngressRejected, ir_Reason := ''source_time_out_of_range''\<rparr> else r)"

definition accept_strip :: "ingress_record \<Rightarrow> ingress_record" where
  "accept_strip r =
     (let r1 = (if ir_Kind r = KindControl then r\<lparr>ir_Text := '''', ir_InputDigest := ''''\<rparr> else r)
      in if ir_State r1 = IngressRejected then r1\<lparr>ir_Text := ''''\<rparr> else r1)"

definition accept_stamp :: "ingress_env \<Rightarrow> gotime \<Rightarrow> ingress_record \<Rightarrow> ingress_record" where
  "accept_stamp e at r =
     (let r1 = r\<lparr>ir_RecordID := ie_recordID e, ir_RequestID := ''im-'' @ ie_recordID e,
                 ir_ReceivedAt := at, ir_UpdatedAt := ie_now e\<rparr>
      in if ir_State r1 = zero_state then r1\<lparr>ir_State := IngressReceived\<rparr> else r1)"

definition accept_prepare :: "ingress_env \<Rightarrow> ingress_record \<Rightarrow> string + ingress_record" where
  "accept_prepare e r =
     (case accept_received (ie_now e) (ir_ReceivedAt r) of
        None \<Rightarrow> Inl ''received_time_out_of_range''
      | Some at \<Rightarrow>
          let r1 = accept_stamp e at r
          in if ir_State r1 \<noteq> IngressReceived \<and> ir_State r1 \<noteq> IngressRejected then Inl ''invalid_state''
             else Inr (accept_strip (accept_source (ie_now e) r1)))"

text \<open>
  Telegram reuses an update identifier only for the same input: a different one is stored
  as a rejected record under a business identifier of its own.
\<close>

definition telegram_conflict :: "ingress_store \<Rightarrow> ingress_record \<Rightarrow> ingress_record" where
  "telegram_conflict s r =
     (if ir_Platform r = ''telegram'' then
        let x = get_or '''' (st_business s) (business_key r) in
        if x \<noteq> '''' then
          let old = get_or zero_record (st_records s) x in
          if ir_ChatID old \<noteq> ir_ChatID r \<or> ir_SemanticID old \<noteq> ir_SemanticID r \<or> ir_InputDigest old \<noteq> ir_InputDigest r
          then r\<lparr>ir_BusinessID := ''update-conflict:'' @ hex_encode (sha256 (ingressKey ''''
                     [ir_BusinessID r, ir_ChatID r, ir_SemanticID r, ir_InputDigest r])),
                 ir_State := IngressRejected, ir_Reason := ''update_id_conflict'', ir_Text := ''''\<rparr>
          else r
        else r
      else r)"

text \<open>
  The two deduplication indexes, business first: a hit returns the record already held,
  except a semantic one of Telegram, which stores the new record as rejected.
\<close>

datatype dedup =
    Committed ingress_record
  | Fresh ingress_record disposition

definition find_duplicate :: "ingress_store \<Rightarrow> ingress_record \<Rightarrow> dedup" where
  "find_duplicate s r =
     (let x = get_or '''' (st_business s) (business_key r) in
      if x \<noteq> '''' then Committed (get_or zero_record (st_records s) x)
      else if ir_SemanticID r = '''' \<or> ir_Reason r = ''update_id_conflict'' then Fresh r ReceiveAccepted
      else
        let y = get_or '''' (st_semantic s) (semantic_key r) in
        if y = '''' then Fresh r ReceiveAccepted
        else if ir_Platform r = ''telegram''
        then Fresh (r\<lparr>ir_State := IngressRejected, ir_Reason := ''semantic_duplicate'', ir_Text := ''''\<rparr>) ReceiveDuplicate
        else Committed (get_or zero_record (st_records s) y))"

definition commit_cursor :: "ingress_record \<Rightarrow> ingress_cursor option \<Rightarrow> ingress_store \<Rightarrow> ingress_store" where
  "commit_cursor r cursor s =
     (case cursor of
        None \<Rightarrow> s
      | Some c \<Rightarrow> s\<lparr>st_cursors := AList.update (account_key r) (the (CloneIngressCursor (Some c))) (st_cursors s)\<rparr>)"

definition accept_reserve :: "ingress_record \<Rightarrow> int" where
  "accept_reserve r = (if ir_statusQuery r \<and> ir_Kind r = KindControl \<and> ir_State r = IngressReceived then 1 else 0)"

definition over_capacity :: "ingress_store \<Rightarrow> ingress_record \<Rightarrow> int \<Rightarrow> bool" where
  "over_capacity s r sz =
     (let reserve = accept_reserve r;
          pending = int (length (get_or [] (st_pendingByRoute s) (Identity r)));
          account = get_or zero_counts (st_counts s) (account_key r)
      in int ingressHistoryLimit \<le> int (length (st_records s))
         \<or> 67108864 < st_memoryBytes s + sz
         \<or> int ingressHistoryLimit \<le> cn_Pending account + cn_Tombstones account
         \<or> \<not> Terminal r \<and>
            (64 + reserve \<le> pending \<or> 1024 + reserve \<le> cn_Pending account \<or> 16777216 < cn_Bytes account + sz
             \<or> 4096 + reserve \<le> cn_Pending (st_total s) \<or> 67108864 < cn_Bytes (st_total s) + sz))"

definition index_keys :: "ingress_record \<Rightarrow> ingress_store \<Rightarrow> ingress_store" where
  "index_keys r s =
     s\<lparr>st_business := AList.update (business_key r) (ir_RecordID r) (st_business s),
       st_semantic := (if ir_SemanticID r \<noteq> '''' \<and> ir_Reason r \<noteq> ''update_id_conflict'' \<and> ir_Reason r \<noteq> ''semantic_duplicate''
                       then AList.update (semantic_key r) (ir_RecordID r) (st_semantic s) else st_semantic s)\<rparr>"

definition accept_route :: "ingress_env \<Rightarrow> ingress_store \<Rightarrow> ingress_record \<Rightarrow> ingress_route" where
  "accept_route e s r =
     (case map_of (st_routes s) (Identity r) of
        Some rt \<Rightarrow> rt
      | None \<Rightarrow> zero_route\<lparr>rt_Identity := Identity r, rt_Revision := ie_revision e, rt_Phase := RouteUnbound\<rparr>)"

text \<open>A record no index knows: the route must still be the one it was authorized for, and there must be room.\<close>

definition accept_new ::
  "ingress_env \<Rightarrow> ingress_record \<Rightarrow> ingress_cursor option \<Rightarrow> disposition \<Rightarrow> ingress_store \<Rightarrow> receive_result \<times> ingress_store" where
  "accept_new e r cursor disp s =
     (let route = accept_route e s r in
      if ir_State r \<noteq> IngressRejected \<and> ir_Kind r = KindTask
         \<and> (rt_Phase route \<noteq> RouteActive \<or> rt_Revision route \<noteq> ir_RouteRevision r
            \<or> rt_AuthorizationDigest route \<noteq> ir_AuthorizationDigest r)
      then (plain_result ReceiveRetryable ''route_changed'', s)
      else
        let route1 = route\<lparr>rt_Sequence := rt_Sequence route + 1\<rparr>;
            r1 = r\<lparr>ir_Sequence := rt_Sequence route1\<rparr>;
            sz = recordSize (ie_jsonTime e) r1
        in if over_capacity s r1 sz then (plain_result ReceiveRetryable ''capacity'', s)
           else
             let s1 = s\<lparr>st_routes := AList.update (Identity r1) route1 (st_routes s)\<rparr>;
                 s2 = index_keys r1 (save (ie_now e) (ie_jsonTime e) r1 sz s1);
                 s3 = signal (commit_cursor r1 cursor s2);
                 disp1 = (if ir_State r1 = IngressRejected \<and> disp \<noteq> ReceiveDuplicate then ReceiveRejected else disp)
             in (\<lparr>rr_Disposition = disp1, rr_RecordID = ir_RecordID r1, rr_State = ir_State r1, rr_Reason = ir_Reason r1\<rparr>, s3))"

text \<open>The critical section, on the store as pruned.\<close>

definition accept_locked ::
  "ingress_env \<Rightarrow> ingress_record \<Rightarrow> ingress_cursor option \<Rightarrow> ingress_store \<Rightarrow> receive_result \<times> ingress_store" where
  "accept_locked e r0 cursor s =
     (case accept_prepare e r0 of
        Inl reason \<Rightarrow> (plain_result ReceiveRejected reason, s)
      | Inr r \<Rightarrow>
          if (case cursor of
                Some c \<Rightarrow> checkCursor (st_cursors s) (ir_Platform r) (ir_AccountID r) (ic_Generation c - 1) c \<noteq> None
              | None \<Rightarrow> False)
          then (plain_result ReceiveRetryable ''cursor_generation_conflict'', s)
          else case find_duplicate s (telegram_conflict s r) of
              Committed old \<Rightarrow>
                (\<lparr>rr_Disposition = ReceiveDuplicate, rr_RecordID = ir_RecordID old, rr_State = ir_State old, rr_Reason = ir_Reason old\<rparr>,
                 commit_cursor r cursor s)
            | Fresh r1 disp \<Rightarrow> accept_new e r1 cursor disp s)"

definition acceptRecord ::
  "ingress_env \<Rightarrow> ingress_record \<Rightarrow> ingress_cursor option \<Rightarrow> bool \<Rightarrow> ingress_store \<Rightarrow> receive_result \<times> ingress_store" where
  "acceptRecord e r cursor guarded s =
     (let (res, s1) =
        (case accept_invalid r cursor of
           Some reason \<Rightarrow> (plain_result ReceiveRejected reason, s)
         | None \<Rightarrow>
             if guarded \<and> \<not> ie_valid e then (plain_result ReceiveRetryable ''transport_identity_changed'', s)
             else case store_lock e s of
                 Some _ \<Rightarrow> (plain_result ReceiveRetryable ''ingress_unavailable'', s)
               | None \<Rightarrow> accept_locked e r cursor (pruneHistory (ie_now e) (Identity r) s))
      in (res, observeAcceptance (ir_Platform r) res s1))"

definition AcceptRecord ::
  "ingress_env \<Rightarrow> ingress_record \<Rightarrow> ingress_cursor option \<Rightarrow> ingress_store \<Rightarrow> receive_result \<times> ingress_store" where
  "AcceptRecord e r cursor s = acceptRecord e r cursor False s"

definition UpdateRecord ::
  "ingress_env \<Rightarrow> string \<Rightarrow> ingress_state list \<Rightarrow> (ingress_record \<Rightarrow> string + ingress_record) \<Rightarrow> ingress_store
   \<Rightarrow> ingress_error option \<times> ingress_store" where
  "UpdateRecord e x allowed mutate s =
     (case store_lock e s of
        Some err \<Rightarrow> (Some err, s)
      | None \<Rightarrow>
          (case map_of (st_records s) x of
             None \<Rightarrow> (Some ErrIngressMissing, s)
           | Some r \<Rightarrow>
               if ir_State r \<notin> set allowed then (Some ErrIngressBlocked, s)
               else case mutate (cloneIngressRecord r) of
                   Inl err \<Rightarrow> (Some (ErrMutate err), s)
                 | Inr r1 \<Rightarrow>
                     let r2 = r1\<lparr>ir_UpdatedAt := ie_now e\<rparr>;
                         s1 = save (ie_now e) (ie_jsonTime e) r2 (-1) s;
                         s2 = ObserveStateTransition (ir_Platform r2) (state_text (ir_State r)) (state_text (ir_State r2))
                                (ir_Reason r2) s1
                     in (None, signal s2)))"

section \<open>What acceptance keeps\<close>

lemma store_inv_metrics: "store_inv s \<Longrightarrow> metrics_ok m \<Longrightarrow> store_inv (s\<lparr>st_metrics := m\<rparr>)"
  by (simp add: store_inv_def store_inv_parts live_history_def ids_where_def counts_inv_def)

lemma store_inv_signal [simp]: "store_inv s \<Longrightarrow> store_inv (signal s)"
  by (simp add: signal_def store_inv_def store_inv_parts live_history_def ids_where_def counts_inv_def)

lemma store_inv_routes: "store_inv s \<Longrightarrow> wf_map m \<Longrightarrow> store_inv (s\<lparr>st_routes := m\<rparr>)"
  by (simp add: store_inv_def store_inv_parts live_history_def ids_where_def counts_inv_def)

lemma store_inv_cursors: "store_inv s \<Longrightarrow> cursors_ok c \<Longrightarrow> store_inv (s\<lparr>st_cursors := c\<rparr>)"
  by (simp add: store_inv_def store_inv_parts live_history_def ids_where_def counts_inv_def)

lemma store_inv_observe [simp]:
  assumes "store_inv s"
  shows "store_inv (observeAcceptance p res s)" and "store_inv (ObserveStateTransition p a b c s)"
    and "store_inv (ObserveLostBeforeAccept p c s)"
proof -
  have "metrics_ok (st_metrics s)" using assms by (simp add: store_inv_def)
  then show "store_inv (observeAcceptance p res s)" "store_inv (ObserveStateTransition p a b c s)"
    "store_inv (ObserveLostBeforeAccept p c s)"
    using assms
    by (simp_all add: store_inv_metrics observeAcceptance_def ObserveStateTransition_def ObserveLostBeforeAccept_def Let_def)
qed

lemma store_inv_empty: "store_inv NewIngressStore"
  by (simp add: store_inv_def store_inv_parts NewIngressStore_def indexed_by_def index_look_def wf_index_def
      get_or_def keys_inv_def live_history_def ids_where_def counts_inv_def sum_counts_def zero_counts_def)

lemma store_inv_Close: "store_inv s \<Longrightarrow> store_inv (store_Close s)"
  by (simp add: store_Close_def store_inv_def store_inv_parts indexed_by_def index_look_def wf_index_def
      get_or_def keys_inv_def live_history_def ids_where_def counts_inv_def sum_counts_def zero_counts_def)

lemma store_inv_commitCursor:
  assumes "store_inv s"
  shows "store_inv (snd (commitCursorGuarded e p a x n g s))"
proof -
  have ok: "cursors_ok (st_cursors s)" using assms by (simp add: store_inv_def)
  show ?thesis using assms cursors_ok_put [OF ok checkCursor_valid]
    by (auto simp: commitCursorGuarded_def store_inv_cursors split: option.split)
qed

text \<open>The record the section prepares keeps the keys of the submitted one and starts received or rejected.\<close>

lemma accept_source_strip [simp]:
  "ir_RecordID (accept_strip (accept_source now r)) = ir_RecordID r"
  "ir_Platform (accept_strip (accept_source now r)) = ir_Platform r"
  "ir_AccountID (accept_strip (accept_source now r)) = ir_AccountID r"
  "ir_ChatID (accept_strip (accept_source now r)) = ir_ChatID r"
  "ir_BusinessID (accept_strip (accept_source now r)) = ir_BusinessID r"
  "ir_SemanticID (accept_strip (accept_source now r)) = ir_SemanticID r"
  "ir_Kind (accept_strip (accept_source now r)) = ir_Kind r"
  "ir_statusQuery (accept_strip (accept_source now r)) = ir_statusQuery r"
  "ir_State (accept_strip (accept_source now r)) = ir_State (accept_source now r)"
  by (simp_all add: accept_strip_def accept_source_def Let_def)

lemma accept_source_state: "ir_State (accept_source now r) = ir_State r \<or> ir_State (accept_source now r) = IngressRejected"
  by (simp add: accept_source_def)

lemma accept_stamp_frame [simp]:
  "ir_RecordID (accept_stamp e at r) = ie_recordID e"
  "ir_Platform (accept_stamp e at r) = ir_Platform r"
  "ir_AccountID (accept_stamp e at r) = ir_AccountID r"
  "ir_ChatID (accept_stamp e at r) = ir_ChatID r"
  "ir_BusinessID (accept_stamp e at r) = ir_BusinessID r"
  "ir_SemanticID (accept_stamp e at r) = ir_SemanticID r"
  "ir_Kind (accept_stamp e at r) = ir_Kind r"
  "ir_statusQuery (accept_stamp e at r) = ir_statusQuery r"
  by (simp_all add: accept_stamp_def Let_def)

lemma accept_prepare_Inr:
  assumes "accept_prepare e r0 = Inr r"
  obtains at where "r = accept_strip (accept_source (ie_now e) (accept_stamp e at r0))"
    and "ir_State (accept_stamp e at r0) = IngressReceived \<or> ir_State (accept_stamp e at r0) = IngressRejected"
  using assms by (auto simp: accept_prepare_def Let_def split: option.splits if_splits)

lemma accept_prepare_frame:
  assumes "accept_prepare e r0 = Inr r"
  shows "ir_RecordID r = ie_recordID e" "ir_Platform r = ir_Platform r0" "ir_AccountID r = ir_AccountID r0"
    "ir_ChatID r = ir_ChatID r0" "ir_BusinessID r = ir_BusinessID r0" "ir_SemanticID r = ir_SemanticID r0"
    "ir_Kind r = ir_Kind r0" "ir_statusQuery r = ir_statusQuery r0"
    "ir_State r = IngressReceived \<or> ir_State r = IngressRejected"
proof -
  obtain at where r: "r = accept_strip (accept_source (ie_now e) (accept_stamp e at r0))"
    and state: "ir_State (accept_stamp e at r0) = IngressReceived \<or> ir_State (accept_stamp e at r0) = IngressRejected"
    using accept_prepare_Inr [OF assms] .
  show "ir_RecordID r = ie_recordID e" "ir_Platform r = ir_Platform r0" "ir_AccountID r = ir_AccountID r0"
    "ir_ChatID r = ir_ChatID r0" "ir_BusinessID r = ir_BusinessID r0" "ir_SemanticID r = ir_SemanticID r0"
    "ir_Kind r = ir_Kind r0" "ir_statusQuery r = ir_statusQuery r0" by (simp_all add: r)
  show "ir_State r = IngressReceived \<or> ir_State r = IngressRejected"
    using state accept_source_state [of "ie_now e" "accept_stamp e at r0"] by (auto simp: r)
qed

lemma accept_prepare_digest:
  assumes "accept_prepare e r0 = Inr r"
  shows "ir_InputDigest r = (if ir_Kind r0 = KindControl then '''' else ir_InputDigest r0)"
proof -
  obtain at where "r = accept_strip (accept_source (ie_now e) (accept_stamp e at r0))"
    by (rule accept_prepare_Inr [OF assms])
  then show ?thesis by (simp add: accept_strip_def accept_source_def accept_stamp_def Let_def)
qed

lemma telegram_conflict_frame [simp]:
  "ir_RecordID (telegram_conflict s r) = ir_RecordID r" "ir_Platform (telegram_conflict s r) = ir_Platform r"
  "ir_AccountID (telegram_conflict s r) = ir_AccountID r" "ir_ChatID (telegram_conflict s r) = ir_ChatID r"
  "ir_Kind (telegram_conflict s r) = ir_Kind r" "ir_SemanticID (telegram_conflict s r) = ir_SemanticID r"
  "Identity (telegram_conflict s r) = Identity r" "ir_statusQuery (telegram_conflict s r) = ir_statusQuery r"
  by (simp_all add: telegram_conflict_def Let_def Identity_def)

lemma telegram_conflict_state:
  "ir_State r = IngressReceived \<or> ir_State r = IngressRejected \<Longrightarrow>
   ir_State (telegram_conflict s r) = IngressReceived \<or> ir_State (telegram_conflict s r) = IngressRejected"
  by (simp add: telegram_conflict_def Let_def)

lemma find_duplicate_fresh:
  assumes "find_duplicate s r = Fresh r1 d"
  shows "get_or '''' (st_business s) (business_key r) = ''''"
    and "r1 = r \<or> r1 = r\<lparr>ir_State := IngressRejected, ir_Reason := ''semantic_duplicate'', ir_Text := ''''\<rparr>"
    and "d = ReceiveAccepted \<or> d = ReceiveDuplicate \<and> ir_State r1 = IngressRejected"
  using assms by (auto simp: find_duplicate_def Let_def split: if_splits)

lemma keys_free:
  assumes "keys_inv s" and "get_or '''' (st_business s) k = ''''"
  shows "map_of (st_business s) k = None"
proof (rule ccontr)
  assume "map_of (st_business s) k \<noteq> None"
  then obtain x where x: "map_of (st_business s) k = Some x" by blast
  with assms(2) have "x = ''''" by (simp add: get_or_def)
  with x assms(1) show False by (auto simp: keys_inv_def)
qed

lemma keys_inv_new:
  assumes inv: "keys_inv s" and new: "map_of (st_records s) (ir_RecordID r) = None" and id: "ir_RecordID r \<noteq> ''''"
    and free: "map_of (st_business s) (business_key r) = None"
  shows "keys_inv (index_keys r (save now jt r sz s))"
proof -
  let ?R = "map_of (st_records s)" and ?r = "stored_form jt r sz"
  from inv have biz: "\<And>k y. map_of (st_business s) k = Some y \<longleftrightarrow> (\<exists>q. ?R y = Some q \<and> business_key q = k)"
    and sem: "\<And>k y. map_of (st_semantic s) k = Some y \<Longrightarrow> \<exists>q. ?R y = Some q \<and> semantic_key q = k"
    and wfs: "wf_map (st_business s)" "wf_map (st_semantic s)" "?R '''' = None"
    unfolding keys_inv_def by blast+
  have other: "business_key q \<noteq> business_key r" if "?R y = Some q" for y q
    using that free biz [of "business_key q" y] by auto
  have "map_of (AList.update (business_key r) (ir_RecordID r) (st_business s)) k = Some y \<longleftrightarrow>
      (\<exists>q. map_of (AList.update (ir_RecordID r) ?r (st_records s)) y = Some q \<and> business_key q = k)" for k y
  proof (cases "y = ir_RecordID r")
    case True
    then show ?thesis using biz [of k y] new by auto
  next
    case False
    then show ?thesis using biz [of k y] other [of y] by auto
  qed
  moreover have "\<exists>q. map_of (AList.update (ir_RecordID r) ?r (st_records s)) y = Some q \<and> semantic_key q = k"
    if "map_of (st_semantic s) k = Some y" for k y
    using sem [OF that] new by auto
  ultimately show ?thesis
    using wfs id unfolding keys_inv_def by (auto simp: index_keys_def save_records)
qed

lemma records_inv_index [simp]: "records_inv (index_keys r s) = records_inv s"
  "routes_inv (index_keys r s) = routes_inv s" "history_inv (index_keys r s) = history_inv s"
  "counts_inv (index_keys r s) = counts_inv s" "st_cursors (index_keys r s) = st_cursors s"
  "st_metrics (index_keys r s) = st_metrics s" "st_records (index_keys r s) = st_records s"
  "st_routes (index_keys r s) = st_routes s"
  by (simp_all add: index_keys_def store_inv_parts live_history_def ids_where_def counts_inv_def)

lemma store_inv_new:
  assumes inv: "store_inv s" and new: "map_of (st_records s) (ir_RecordID r) = None" and id: "ir_RecordID r \<noteq> ''''"
    and free: "map_of (st_business s) (business_key r) = None"
  shows "store_inv (index_keys r (save now jt r sz s))"
proof -
  have "save_ok r s" using new by (simp add: save_ok_def)
  with inv show ?thesis
    using keys_inv_new [of s r now jt sz] new id free counts_inv_save records_inv_save routes_inv_save history_inv_save
    by (simp add: store_inv_def)
qed

lemma store_inv_commit_cursor:
  assumes "store_inv s" and "\<forall>c. cursor = Some c \<longrightarrow> ValidateIngressCursor p (Some c) = None"
  shows "store_inv (commit_cursor r cursor s)"
proof (cases cursor)
  case (Some c)
  have "cursors_ok (AList.update (account_key r) c (st_cursors s))"
    using assms Some cursors_ok_put [of "st_cursors s" p c] by (simp add: store_inv_def)
  then show ?thesis using Some assms(1) by (simp add: commit_cursor_def store_inv_cursors)
qed (use assms in \<open>simp add: commit_cursor_def\<close>)

text \<open>A new record is refused with the store untouched, or stored with the next sequence number of its route.\<close>

definition accept_stored :: "ingress_env \<Rightarrow> ingress_record \<Rightarrow> ingress_cursor option \<Rightarrow> ingress_store \<Rightarrow> ingress_store" where
  "accept_stored e r cursor s =
     (let route = accept_route e s r;
          route1 = route\<lparr>rt_Sequence := rt_Sequence route + 1\<rparr>;
          r1 = r\<lparr>ir_Sequence := rt_Sequence route1\<rparr>
      in signal (commit_cursor r1 cursor (index_keys r1
           (save (ie_now e) (ie_jsonTime e) r1 (recordSize (ie_jsonTime e) r1)
             (s\<lparr>st_routes := AList.update (Identity r1) route1 (st_routes s)\<rparr>)))))"

lemma accept_new_cases [consumes 1, case_names Refused Stored]:
  assumes "accept_new e r cursor d s = (res, s')"
  obtains "s' = s" and "rr_Disposition res = ReceiveRetryable" and "rr_RecordID res = ''''"
      and "rr_Reason res = ''route_changed'' \<or> rr_Reason res = ''capacity''"
  | r1 where "r1 = r\<lparr>ir_Sequence := rt_Sequence (accept_route e s r) + 1\<rparr>"
      and "\<not> over_capacity s r1 (recordSize (ie_jsonTime e) r1)"
      and "s' = accept_stored e r cursor s"
      and "res = \<lparr>rr_Disposition = (if ir_State r = IngressRejected \<and> d \<noteq> ReceiveDuplicate then ReceiveRejected else d),
                  rr_RecordID = ir_RecordID r, rr_State = ir_State r, rr_Reason = ir_Reason r\<rparr>"
      and "ir_State r \<noteq> IngressRejected \<and> ir_Kind r = KindTask \<Longrightarrow>
             rt_Phase (accept_route e s r) = RouteActive \<and> rt_Revision (accept_route e s r) = ir_RouteRevision r
             \<and> rt_AuthorizationDigest (accept_route e s r) = ir_AuthorizationDigest r"
proof -
  let ?r1 = "r\<lparr>ir_Sequence := rt_Sequence (accept_route e s r) + 1\<rparr>"
  let ?stale = "ir_State r \<noteq> IngressRejected \<and> ir_Kind r = KindTask
         \<and> (rt_Phase (accept_route e s r) \<noteq> RouteActive \<or> rt_Revision (accept_route e s r) \<noteq> ir_RouteRevision r
            \<or> rt_AuthorizationDigest (accept_route e s r) \<noteq> ir_AuthorizationDigest r)"
  consider (stale) ?stale
    | (full) "\<not> ?stale" "over_capacity s ?r1 (recordSize (ie_jsonTime e) ?r1)"
    | (ok) "\<not> ?stale" "\<not> over_capacity s ?r1 (recordSize (ie_jsonTime e) ?r1)" by blast
  then show thesis
  proof cases
    case stale
    then show ?thesis using assms by (intro that(1)) (auto simp: accept_new_def Let_def plain_result_def)
  next
    case full
    then show ?thesis using assms by (intro that(1)) (auto simp: accept_new_def Let_def plain_result_def)
  next
    case ok
    then show ?thesis
      using assms by (intro that(2) [of ?r1]) (auto simp: accept_new_def accept_stored_def Let_def)
  qed
qed

definition fresh_id :: "ingress_env \<Rightarrow> ingress_store \<Rightarrow> bool" where
  "fresh_id e s \<longleftrightarrow> ie_recordID e \<noteq> '''' \<and> map_of (st_records s) (ie_recordID e) = None"

lemma store_inv_accept_stored:
  assumes inv: "store_inv s" and fresh: "fresh_id e s" and id: "ir_RecordID r = ie_recordID e"
    and free: "map_of (st_business s) (business_key r) = None"
    and cursor: "\<forall>c. cursor = Some c \<longrightarrow> ValidateIngressCursor p (Some c) = None"
  shows "store_inv (accept_stored e r cursor s)"
proof -
  let ?s1 = "s\<lparr>st_routes := AList.update (Identity r) (accept_route e s r\<lparr>rt_Sequence := rt_Sequence (accept_route e s r) + 1\<rparr>)
      (st_routes s)\<rparr>"
  have s1: "store_inv ?s1" using inv by (intro store_inv_routes) (auto simp: store_inv_def routes_inv_def)
  have ident: "Identity (r\<lparr>ir_Sequence := n\<rparr>) = Identity r" for n by (simp add: Identity_def)
  show ?thesis unfolding accept_stored_def Let_def ident
    by (rule store_inv_signal, rule store_inv_commit_cursor [OF _ cursor], rule store_inv_new [OF s1])
      (use fresh id free in \<open>simp_all add: fresh_id_def\<close>)
qed

lemma store_inv_accept_new:
  assumes "store_inv s" and "fresh_id e s" and "ir_RecordID r = ie_recordID e"
    and "map_of (st_business s) (business_key r) = None"
    and "\<forall>c. cursor = Some c \<longrightarrow> ValidateIngressCursor p (Some c) = None"
  shows "store_inv (snd (accept_new e r cursor d s))"
proof -
  obtain res s' where eq: "accept_new e r cursor d s = (res, s')" by fastforce
  then have "store_inv s'" using assms(1) store_inv_accept_stored [OF assms] by (cases rule: accept_new_cases) simp_all
  with eq show ?thesis by simp
qed

lemma store_inv_accept_locked:
  assumes inv: "store_inv s" and fresh: "fresh_id e s"
  shows "store_inv (snd (accept_locked e r0 cursor s))"
proof (cases "accept_prepare e r0")
  case (Inl reason)
  then show ?thesis using inv by (simp add: accept_locked_def)
next
  case (Inr r)
  let ?conflict = "case cursor of
      Some c \<Rightarrow> checkCursor (st_cursors s) (ir_Platform r) (ir_AccountID r) (ic_Generation c - 1) c \<noteq> None | None \<Rightarrow> False"
  show ?thesis
  proof (cases ?conflict)
    case True
    then show ?thesis using inv Inr by (simp add: accept_locked_def)
  next
    case False
    then have cursor: "\<forall>c. cursor = Some c \<longrightarrow> ValidateIngressCursor (ir_Platform r) (Some c) = None"
      using checkCursor_valid by auto
    show ?thesis
    proof (cases "find_duplicate s (telegram_conflict s r)")
      case (Committed old)
      then show ?thesis using inv Inr False store_inv_commit_cursor [OF inv cursor] by (simp add: accept_locked_def)
    next
      case (Fresh r1 d)
      have keys: "keys_inv s" using inv by (simp add: store_inv_def)
      have id: "ir_RecordID r1 = ie_recordID e" and biz: "business_key r1 = business_key (telegram_conflict s r)"
        using find_duplicate_fresh(2) [OF Fresh] accept_prepare_frame [OF Inr] by auto
      have "map_of (st_business s) (business_key r1) = None"
        using keys_free [OF keys find_duplicate_fresh(1) [OF Fresh]] biz by simp
      then show ?thesis
        using store_inv_accept_new [OF inv fresh id _ cursor] Inr False Fresh by (simp add: accept_locked_def)
    qed
  qed
qed

lemma fresh_id_prune: "fresh_id e s \<Longrightarrow> fresh_id e (pruneHistory now p s)"
  by (metis fresh_id_def not_None_eq prune_records_subset)

lemma store_inv_acceptRecord:
  assumes "store_inv s" and "fresh_id e s"
  shows "store_inv (snd (acceptRecord e r cursor g s))"
proof -
  obtain res s' where eq: "accept_locked e r cursor (pruneHistory (ie_now e) (Identity r) s) = (res, s')" by fastforce
  have "store_inv s'"
    using store_inv_accept_locked [OF store_inv_prune [OF assms(1)] fresh_id_prune [OF assms(2)]] eq by (metis snd_conv)
  with assms(1) eq show ?thesis by (simp add: acceptRecord_def split: option.split)
qed

lemma store_inv_UpdateRecord:
  assumes inv: "store_inv s"
    and keeps: "\<And>r r1. map_of (st_records s) x = Some r \<Longrightarrow> mutate r = Inr r1 \<Longrightarrow>
      ir_RecordID r1 = ir_RecordID r \<and> Identity r1 = Identity r \<and> ir_BusinessID r1 = ir_BusinessID r
      \<and> ir_SemanticID r1 = ir_SemanticID r \<and> (Terminal r \<longrightarrow> Terminal r1)"
  shows "store_inv (snd (UpdateRecord e x allowed mutate s))"
proof -
  have "store_inv (save (ie_now e) (ie_jsonTime e) (r1\<lparr>ir_UpdatedAt := ie_now e\<rparr>) (-1) s)"
    if r: "map_of (st_records s) x = Some r" and m: "mutate r = Inr r1" for r r1
  proof -
    have "ir_RecordID r = x" using inv r by (simp add: store_inv_def records_inv_def)
    then show ?thesis using keeps [OF r m] r
      by (intro store_inv_save [OF inv, of _ r]) (auto simp: Identity_def Terminal_def)
  qed
  then show ?thesis using inv by (auto simp: UpdateRecord_def Let_def split: option.split sum.split)
qed

end
