(* ===== verification/IngressRoutes.thy ===== *)
theory IngressRoutes
  imports IngressAccept
begin

text \<open>
  Route changes of \<open>internal/gateway/im_ingress_store_routes.go\<close>: a chat's route gets a new
  revision when its authorization or target changes, and no input authorized for the old
  one survives the change as deliverable.
\<close>

definition routePending :: "chat_identity \<Rightarrow> ingress_store \<Rightarrow> ingress_record list" where
  "routePending i s = map (get_or zero_record (st_records s)) (get_or [] (st_pendingByRoute s) i)"

definition in_flight :: "ingress_record \<Rightarrow> bool" where
  "in_flight r \<longleftrightarrow> ir_State r = IngressDispatching \<or> ir_State r = IngressUnknown"

definition quarantine_changed :: "ingress_env \<Rightarrow> ingress_record \<Rightarrow> ingress_store \<Rightarrow> ingress_store" where
  "quarantine_changed e r s =
     (if ir_State r = IngressReceived
      then save (ie_now e) (ie_jsonTime e) (r\<lparr>ir_State := IngressQuarantined, ir_Reason := ''route_identity_changed'',
             ir_UpdatedAt := ie_now e\<rparr>) (-1) s
      else s)"

definition EnsureRoute ::
  "ingress_env \<Rightarrow> chat_identity \<Rightarrow> string \<Rightarrow> string \<Rightarrow> string \<Rightarrow> ingress_store
   \<Rightarrow> (ingress_error + ingress_route) \<times> ingress_store" where
  "EnsureRoute e i digest workspace session s0 =
     (case store_lock e s0 of
        Some err \<Rightarrow> (Inl err, s0)
      | None \<Rightarrow>
          let s = pruneHistory (ie_now e) i s0;
              route = get_or zero_route (st_routes s) i
          in if rt_Phase route = RouteActive \<and> rt_AuthorizationDigest route = digest
                \<and> rt_WorkspaceID route = workspace \<and> rt_SessionID route = session
             then (Inr route, s)
             else
               let records = routePending i s in
               if \<exists>r\<in>set records. in_flight r then (Inl ErrIngressBlocked, s)
               else
                 let s1 = fold (quarantine_changed e) records s;
                     route1 = route\<lparr>rt_Identity := i, rt_Revision := ie_revision e, rt_AuthorizationDigest := digest,
                       rt_WorkspaceID := workspace, rt_SessionID := session, rt_Phase := RouteActive\<rparr>
                 in (Inr route1, s1\<lparr>st_routes := AList.update i route1 (st_routes s1)\<rparr>))"

definition BeginRouteChange ::
  "ingress_env \<Rightarrow> chat_identity \<Rightarrow> ingress_store \<Rightarrow> (ingress_error + ingress_route) \<times> ingress_store" where
  "BeginRouteChange e i s =
     (case store_lock e s of
        Some err \<Rightarrow> (Inl err, s)
      | None \<Rightarrow>
          if \<exists>r\<in>set (routePending i s). in_flight r \<or> ir_Kind r = KindTask \<and> ir_State r = IngressReceived
          then (Inl ErrIngressBlocked, s)
          else
            let route = (get_or zero_route (st_routes s) i)\<lparr>rt_Identity := i, rt_Revision := ie_revision e,
                  rt_Phase := RouteChanging\<rparr>
            in (Inr route, s\<lparr>st_routes := AList.update i route (st_routes s)\<rparr>))"

definition FinishRouteChange ::
  "ingress_env \<Rightarrow> chat_identity \<Rightarrow> string \<Rightarrow> string \<Rightarrow> string \<Rightarrow> string \<Rightarrow> ingress_store
   \<Rightarrow> ingress_error option \<times> ingress_store" where
  "FinishRouteChange e i revision digest workspace session s =
     (case store_lock e s of
        Some err \<Rightarrow> (Some err, s)
      | None \<Rightarrow>
          (case map_of (st_routes s) i of
             None \<Rightarrow> (Some ErrIngressMissing, s)
           | Some route \<Rightarrow>
               if rt_Revision route \<noteq> revision \<or> rt_Phase route \<noteq> RouteChanging then (Some ErrIngressBlocked, s)
               else (None, s\<lparr>st_routes := AList.update i
                      (route\<lparr>rt_AuthorizationDigest := digest, rt_WorkspaceID := workspace, rt_SessionID := session,
                             rt_Phase := RouteActive\<rparr>) (st_routes s)\<rparr>)))"

definition bind_record :: "ingress_env \<Rightarrow> string \<Rightarrow> string \<Rightarrow> ingress_record \<Rightarrow> ingress_store \<Rightarrow> ingress_store" where
  "bind_record e revision session r s =
     (if ir_State r = IngressReceived \<and> ir_RouteRevision r = revision \<and> ir_SessionID r = ''''
      then save (ie_now e) (ie_jsonTime e) (r\<lparr>ir_SessionID := session, ir_UpdatedAt := ie_now e\<rparr>) (-1) s
      else s)"

definition BindRouteSession ::
  "ingress_env \<Rightarrow> chat_identity \<Rightarrow> string \<Rightarrow> string \<Rightarrow> ingress_store \<Rightarrow> ingress_error option \<times> ingress_store" where
  "BindRouteSession e i revision session s =
     (case store_lock e s of
        Some err \<Rightarrow> (Some err, s)
      | None \<Rightarrow>
          (case map_of (st_routes s) i of
             None \<Rightarrow> (Some ErrIngressMissing, s)
           | Some route \<Rightarrow>
               if session = '''' \<or> rt_Phase route \<noteq> RouteActive \<or> rt_Revision route \<noteq> revision
                  \<or> rt_SessionID route \<noteq> '''' \<and> rt_SessionID route \<noteq> session
               then (Some ErrIngressBlocked, s)
               else
                 let s1 = fold (bind_record e revision session) (routePending i s) s
                 in (None, s1\<lparr>st_routes := AList.update i (route\<lparr>rt_SessionID := session\<rparr>) (st_routes s1)\<rparr>)))"

section \<open>Saving the pending records of a route\<close>

text \<open>
  Both loops save a list of records read beforehand. A record stays as it was read until
  its own turn, because the list has no duplicates and a save touches one record.
\<close>

definition pending_read :: "chat_identity \<Rightarrow> ingress_store \<Rightarrow> ingress_record list \<Rightarrow> bool" where
  "pending_read i s rs \<longleftrightarrow> distinct (map ir_RecordID rs)
     \<and> (\<forall>r\<in>set rs. map_of (st_records s) (ir_RecordID r) = Some r \<and> \<not> Terminal r \<and> Identity r = i)"

lemma routePending_read:
  assumes "store_inv s"
  shows "pending_read i s (routePending i s)"
proof -
  let ?ids = "get_or [] (st_pendingByRoute s) i"
  from assms have ix: "wf_index (st_pendingByRoute s)"
    and look: "set ?ids = {x. \<exists>r. map_of (st_records s) x = Some r \<and> \<not> Terminal r \<and> Identity r = i}"
    by (auto simp: store_inv_def routes_inv_def indexed_by_def index_look_def)
  have ids: "\<And>x r. map_of (st_records s) x = Some r \<Longrightarrow> ir_RecordID r = x"
    using assms by (auto simp: store_inv_def records_inv_def)
  have each: "\<exists>r. get_or zero_record (st_records s) x = r \<and> map_of (st_records s) x = Some r \<and> ir_RecordID r = x
      \<and> \<not> Terminal r \<and> Identity r = i" if "x \<in> set ?ids" for x
  proof -
    from that look obtain r where "map_of (st_records s) x = Some r" "\<not> Terminal r" "Identity r = i" by blast
    with ids show ?thesis by (simp add: get_or_def [of zero_record])
  qed
  have "map ir_RecordID (routePending i s) = ?ids"
    unfolding routePending_def map_map by (rule map_idI) (use each in auto)
  then have "distinct (map ir_RecordID (routePending i s))" using wf_index_distinct [OF ix] by simp
  moreover have "\<forall>r\<in>set (routePending i s). map_of (st_records s) (ir_RecordID r) = Some r \<and> \<not> Terminal r \<and> Identity r = i"
    using each by (auto simp: routePending_def)
  ultimately show ?thesis by (simp add: pending_read_def)
qed

lemma routePending_complete:
  assumes "store_inv s" and "map_of (st_records s) x = Some r" and "\<not> Terminal r" and "Identity r = i"
  shows "r \<in> set (routePending i s)"
proof -
  have "x \<in> set (get_or [] (st_pendingByRoute s) i)"
    using assms by (auto simp: store_inv_def routes_inv_def indexed_by_def index_look_def)
  then show ?thesis using assms(2) by (force simp: routePending_def get_or_def)
qed

text \<open>What one save of such a loop keeps, the loop keeps.\<close>

lemma fold_pending_rule:
  assumes "pending_read i s rs" and "P s"
    and step: "\<And>r s. r \<in> set rs \<Longrightarrow> P s \<Longrightarrow> map_of (st_records s) (ir_RecordID r) = Some r \<Longrightarrow> \<not> Terminal r
       \<Longrightarrow> Identity r = i \<Longrightarrow> P (f r s)"
    and frame: "\<And>r s x. x \<noteq> ir_RecordID r \<Longrightarrow> map_of (st_records (f r s)) x = map_of (st_records s) x"
  shows "P (fold f rs s)"
  using assms(1-3)
proof (induction rs arbitrary: s)
  case (Cons r rs)
  have r: "map_of (st_records s) (ir_RecordID r) = Some r" "\<not> Terminal r" "Identity r = i"
    using Cons.prems(1) by (auto simp: pending_read_def)
  have rest: "pending_read i (f r s) rs"
    unfolding pending_read_def
  proof (intro conjI ballI)
    fix q assume q: "q \<in> set rs"
    have "distinct (map ir_RecordID (r # rs))" using Cons.prems(1) unfolding pending_read_def by blast
    then have "ir_RecordID r \<notin> ir_RecordID ` set rs" by simp
    with q have "ir_RecordID q \<noteq> ir_RecordID r" by (metis imageI)
    then show "map_of (st_records (f r s)) (ir_RecordID q) = Some q" "\<not> Terminal q" "Identity q = i"
      using q Cons.prems(1) by (simp_all add: frame pending_read_def)
  qed (use Cons.prems(1) in \<open>simp add: pending_read_def\<close>)
  have "P (f r s)" by (rule Cons.prems(3) [OF _ Cons.prems(2) r]) simp
  from Cons.IH [OF rest this] Cons.prems(3) have "P (fold f rs (f r s))" by (meson list.set_intros(2))
  then show ?case by simp
qed simp

lemma quarantine_changed_frame:
  "x \<noteq> ir_RecordID r \<Longrightarrow> map_of (st_records (quarantine_changed e r s)) x = map_of (st_records s) x"
  by (simp add: quarantine_changed_def save_records)

lemma bind_record_frame:
  "x \<noteq> ir_RecordID r \<Longrightarrow> map_of (st_records (bind_record e v w r s)) x = map_of (st_records s) x"
  by (simp add: bind_record_def save_records)

lemma store_inv_quarantine_changed:
  "store_inv s \<Longrightarrow> map_of (st_records s) (ir_RecordID r) = Some r \<Longrightarrow> \<not> Terminal r
   \<Longrightarrow> store_inv (quarantine_changed e r s)"
  unfolding quarantine_changed_def by (auto intro!: store_inv_save [where old = r] simp: Identity_def)

lemma store_inv_bind_record:
  "store_inv s \<Longrightarrow> map_of (st_records s) (ir_RecordID r) = Some r \<Longrightarrow> \<not> Terminal r
   \<Longrightarrow> store_inv (bind_record e v w r s)"
  unfolding bind_record_def by (auto intro!: store_inv_save [where old = r] simp: Identity_def)

lemmas quarantine_fold = fold_pending_rule [where f = "quarantine_changed e" for e, OF _ _ _ quarantine_changed_frame]
lemmas bind_fold = fold_pending_rule [where f = "bind_record e v w" for e v w, OF _ _ _ bind_record_frame]

lemma store_inv_quarantine_fold: "store_inv s \<Longrightarrow> store_inv (fold (quarantine_changed e) (routePending i s) s)"
  by (rule quarantine_fold [OF routePending_read]) (auto intro: store_inv_quarantine_changed)

lemma store_inv_bind_fold: "store_inv s \<Longrightarrow> store_inv (fold (bind_record e v w) (routePending i s) s)"
  by (rule bind_fold [OF routePending_read]) (auto intro: store_inv_bind_record)

lemma store_inv_put_route: "store_inv s \<Longrightarrow> store_inv (s\<lparr>st_routes := AList.update i rt (st_routes s)\<rparr>)"
  by (intro store_inv_routes) (auto simp: store_inv_def routes_inv_def)

lemma store_inv_EnsureRoute: "store_inv s \<Longrightarrow> store_inv (snd (EnsureRoute e i d w x s))"
  using store_inv_prune [of s "ie_now e" i] store_inv_quarantine_fold [of "pruneHistory (ie_now e) i s" e i]
  by (auto simp: EnsureRoute_def Let_def store_inv_put_route split: option.split)

lemma store_inv_BeginRouteChange: "store_inv s \<Longrightarrow> store_inv (snd (BeginRouteChange e i s))"
  by (auto simp: BeginRouteChange_def Let_def store_inv_put_route split: option.split)

lemma store_inv_FinishRouteChange: "store_inv s \<Longrightarrow> store_inv (snd (FinishRouteChange e i v d w x s))"
  by (auto simp: FinishRouteChange_def store_inv_put_route split: option.split)

lemma store_inv_BindRouteSession: "store_inv s \<Longrightarrow> store_inv (snd (BindRouteSession e i v x s))"
  by (auto simp: BindRouteSession_def Let_def store_inv_put_route store_inv_bind_fold split: option.split)

end
