(* ===== verification/StoreReach.thy ===== *)
theory StoreReach
  imports IngressRoutes
begin

text \<open>
  The ingress store as a state machine: its steps are the operations of the store, in any
  order and with any arguments, and what holds of every store they can reach. The two
  concerns beyond the structural invariant are the occupancy of the queues, bounded by the
  admission limits, and the sequence numbers, which order the records of a route.
\<close>

section \<open>Occupancy\<close>

text \<open>The pending records, each with its chat.\<close>

definition pend :: "ingress_store \<Rightarrow> string \<Rightarrow> chat_identity option" where
  "pend s x = (case map_of (st_records s) x of Some r \<Rightarrow> if Terminal r then None else Some (Identity r) | None \<Rightarrow> None)"

definition occupancy :: "(chat_identity \<Rightarrow> bool) \<Rightarrow> (string \<Rightarrow> chat_identity option) \<Rightarrow> nat" where
  "occupancy P p = card {x. \<exists>i. p x = Some i \<and> P i}"

fun account_of :: "chat_identity \<Rightarrow> string" where
  "account_of (ChatIdentity p a c) = compositeKey [p, a]"

lemma account_of_Identity [simp]: "account_of (Identity r) = account_key r"
  by (simp add: Identity_def)

lemma finite_pend: "finite {x. \<exists>i. pend s x = Some i \<and> P i}"
  by (rule finite_subset [OF _ finite_dom_map_of [of "st_records s"]]) (auto simp: pend_def split: option.splits)

lemma occupancy_mono: "p \<subseteq>\<^sub>m pend s \<Longrightarrow> occupancy P p \<le> occupancy P (pend s)"
  unfolding occupancy_def by (rule card_mono [OF finite_pend]) (auto simp: map_le_def dom_def)

lemma occupancy_add: "occupancy P ((pend s)(x \<mapsto> i)) \<le> Suc (occupancy P (pend s))"
proof -
  have "occupancy P ((pend s)(x \<mapsto> i)) \<le> card (insert x {x. \<exists>i. pend s x = Some i \<and> P i})"
    unfolding occupancy_def by (rule card_mono) (use finite_pend in \<open>auto split: if_splits\<close>)
  also have "\<dots> \<le> Suc (card {x. \<exists>i. pend s x = Some i \<and> P i})" by (rule card_insert_le_m1 [of "Suc _", simplified]) simp
  finally show ?thesis by (simp add: occupancy_def)
qed

lemma occupancy_skip: "\<not> P i \<Longrightarrow> occupancy P ((pend s)(x \<mapsto> i)) \<le> occupancy P (pend s)"
  unfolding occupancy_def by (rule card_mono [OF finite_pend]) (auto split: if_splits)

lemma gsum_card:
  assumes "wf_map m"
  shows "gsum (\<lambda>r. if Q r then 1 else 0) m = int (card {x. \<exists>r. map_of m x = Some r \<and> Q r})"
  using assms
proof (induction m)
  case (Cons p m)
  obtain a b where p: "p = (a, b)" by (cases p)
  have wf: "wf_map m" and a: "map_of m a = None"
    using Cons.prems p by (auto simp: wf_map_def map_of_eq_None_iff)
  have fin: "finite {x. \<exists>r. map_of m x = Some r \<and> Q r}"
    by (rule finite_subset [OF _ finite_dom_map_of [of m]]) auto
  have split: "{x. \<exists>r. map_of (p # m) x = Some r \<and> Q r} =
      (if Q b then insert a {x. \<exists>r. map_of m x = Some r \<and> Q r} else {x. \<exists>r. map_of m x = Some r \<and> Q r})"
    using p a by auto
  have out: "a \<notin> {x. \<exists>r. map_of m x = Some r \<and> Q r}" using a by simp
  show ?case unfolding split using Cons.IH [OF wf] p fin out by (simp add: gsum_def)
qed simp

lemma counts_occupancy:
  assumes "store_inv s"
  shows "cn_Pending (st_total s) = int (occupancy (\<lambda>_. True) (pend s))"
    and "cn_Pending (get_or zero_counts (st_counts s) k) = int (occupancy (\<lambda>i. account_of i = k) (pend s))"
proof -
  have wf: "wf_map (st_records s)" and c: "counts_inv s" using assms by (simp_all add: store_inv_def records_inv_def)
  have "gsum pending_of (st_records s) = gsum (\<lambda>r. if \<not> Terminal r then 1 else 0) (st_records s)"
    by (rule gsum_cong) (simp add: pending_of_def)
  also have "\<dots> = int (occupancy (\<lambda>_. True) (pend s))"
    unfolding gsum_card [OF wf] occupancy_def pend_def
    by (rule arg_cong [where f = "\<lambda>A. int (card A)"]) (auto split: option.splits)
  finally show "cn_Pending (st_total s) = int (occupancy (\<lambda>_. True) (pend s))"
    using c by (simp add: counts_inv_def sum_counts_def)
  have "gsum (for_account k pending_of) (st_records s) =
      gsum (\<lambda>r. if \<not> Terminal r \<and> account_key r = k then 1 else 0) (st_records s)"
    by (rule gsum_cong) (simp add: pending_of_def for_account_def)
  also have "\<dots> = int (occupancy (\<lambda>i. account_of i = k) (pend s))"
    unfolding gsum_card [OF wf] occupancy_def pend_def
    by (rule arg_cong [where f = "\<lambda>A. int (card A)"]) (auto split: option.splits if_splits)
  finally show "cn_Pending (get_or zero_counts (st_counts s) k) = int (occupancy (\<lambda>i. account_of i = k) (pend s))"
    using c by (simp add: counts_inv_def sum_counts_def)
qed

lemma route_occupancy:
  assumes "store_inv s"
  shows "length (get_or [] (st_pendingByRoute s) i) = occupancy (\<lambda>j. j = i) (pend s)"
proof -
  let ?ids = "get_or [] (st_pendingByRoute s) i"
  have ix: "wf_index (st_pendingByRoute s)"
    and look: "set ?ids = {x. \<exists>r. map_of (st_records s) x = Some r \<and> \<not> Terminal r \<and> Identity r = i}"
    using assms by (auto simp: store_inv_def routes_inv_def indexed_by_def index_look_def)
  have "length ?ids = card (set ?ids)" using wf_index_distinct [OF ix] by (simp add: distinct_card)
  also have "set ?ids = {x. \<exists>j. pend s x = Some j \<and> j = i}"
    unfolding look by (auto simp: pend_def split: option.splits if_splits)
  finally show ?thesis by (simp add: occupancy_def)
qed

lemma pending_occupancy:
  assumes "store_inv s"
  shows "length (st_pending s) = occupancy (\<lambda>_. True) (pend s)"
proof -
  have "length (st_pending s) = card (ids_where (\<lambda>r. \<not> Terminal r) s)"
    using assms by (metis distinct_card records_inv_def store_inv_def)
  also have "ids_where (\<lambda>r. \<not> Terminal r) s = {x. \<exists>j. pend s x = Some j \<and> True}"
    by (auto simp: ids_where_def pend_def split: option.splits)
  finally show ?thesis by (simp add: occupancy_def)
qed

definition limits_inv :: "ingress_store \<Rightarrow> bool" where
  "limits_inv s \<longleftrightarrow> length (st_records s) \<le> ingressHistoryLimit
     \<and> occupancy (\<lambda>_. True) (pend s) \<le> 4097
     \<and> (\<forall>k. occupancy (\<lambda>i. account_of i = k) (pend s) \<le> 1025)
     \<and> (\<forall>i. occupancy (\<lambda>j. j = i) (pend s) \<le> 65)"

text \<open>A step that adds no record and revives none keeps within the limits.\<close>

lemma limits_inv_shrink:
  assumes "limits_inv s" and "pend t \<subseteq>\<^sub>m pend s" and "length (st_records t) \<le> length (st_records s)"
  shows "limits_inv t"
  using assms(1,3) occupancy_mono [OF assms(2)] unfolding limits_inv_def by (meson order_trans)

definition shrinks :: "ingress_store \<Rightarrow> ingress_store \<Rightarrow> bool" where
  "shrinks s t \<longleftrightarrow> pend t \<subseteq>\<^sub>m pend s \<and> length (st_records t) \<le> length (st_records s)"

lemma shrinks_refl [simp]: "shrinks s s"
  by (simp add: shrinks_def)

lemma shrinks_trans: "shrinks s t \<Longrightarrow> shrinks t u \<Longrightarrow> shrinks s u"
  unfolding shrinks_def by (meson map_le_trans order_trans)

lemma shrinks_records [simp]: "st_records t = st_records s \<Longrightarrow> shrinks s t"
  by (simp add: shrinks_def pend_def [abs_def])

lemma shrinks_prune: "store_inv s \<Longrightarrow> shrinks s (pruneHistory now p s)"
  using prune_length [of s now p] prune_records_subset [of now p s]
  by (fastforce simp: shrinks_def map_le_def pend_def dom_def split: option.splits)

lemma shrinks_save:
  assumes "map_of (st_records s) (ir_RecordID r) = Some old"
    and "Identity r = Identity old" and "Terminal old \<longrightarrow> Terminal r"
  shows "shrinks s (save now jt r sz s)"
  using assms by (auto simp: shrinks_def map_le_def pend_def save_records length_update dom_def split: option.splits if_splits)

lemma shrinks_UpdateRecord:
  assumes inv: "store_inv s"
    and keeps: "\<And>r r1. mutate r = Inr r1 \<Longrightarrow> ir_RecordID r1 = ir_RecordID r \<and> Identity r1 = Identity r \<and> (Terminal r \<longrightarrow> Terminal r1)"
  shows "shrinks s (snd (UpdateRecord e x allowed mutate s))"
proof (cases "\<exists>r r1. map_of (st_records s) x = Some r \<and> ir_State r \<in> set allowed \<and> mutate r = Inr r1 \<and> store_lock e s = None")
  case True
  then obtain r r1 where r: "map_of (st_records s) x = Some r" "ir_State r \<in> set allowed" "mutate r = Inr r1" "store_lock e s = None"
    by blast
  let ?r2 = "r1\<lparr>ir_UpdatedAt := ie_now e\<rparr>"
  have "ir_RecordID r = x" using inv r(1) by (simp add: store_inv_def records_inv_def)
  then have "shrinks s (save (ie_now e) (ie_jsonTime e) ?r2 (-1) s)"
    using keeps [OF r(3)] r(1) by (intro shrinks_save [of _ _ r]) (auto simp: Identity_def Terminal_def)
  moreover have "st_records (snd (UpdateRecord e x allowed mutate s)) = st_records (save (ie_now e) (ie_jsonTime e) ?r2 (-1) s)"
    using r by (simp add: UpdateRecord_def Let_def signal_def ObserveStateTransition_def)
  ultimately show ?thesis using shrinks_records shrinks_trans by blast
next
  case False
  then have "snd (UpdateRecord e x allowed mutate s) = s"
    by (auto simp: UpdateRecord_def Let_def split: option.split sum.split)
  then show ?thesis by simp
qed

lemma shrinks_quarantine_fold:
  assumes "store_inv s"
  shows "shrinks s (fold (quarantine_changed e) (routePending i s) s)"
proof (rule quarantine_fold [OF routePending_read [OF assms], where P = "\<lambda>t. shrinks s t"])
  fix r t
  assume "shrinks s t" "map_of (st_records t) (ir_RecordID r) = Some r" "\<not> Terminal r"
  then show "shrinks s (quarantine_changed e r t)"
    unfolding quarantine_changed_def
    by (auto intro!: shrinks_trans [of s t] shrinks_save [of _ _ r] simp: Identity_def)
qed simp

lemma shrinks_bind_fold:
  assumes "store_inv s"
  shows "shrinks s (fold (bind_record e v w) (routePending i s) s)"
proof (rule bind_fold [OF routePending_read [OF assms], where P = "\<lambda>t. shrinks s t"])
  fix r t
  assume "shrinks s t" "map_of (st_records t) (ir_RecordID r) = Some r" "\<not> Terminal r"
  then show "shrinks s (bind_record e v w r t)"
    unfolding bind_record_def
    by (auto intro!: shrinks_trans [of s t] shrinks_save [of _ _ r] simp: Identity_def)
qed simp

lemma shrinks_EnsureRoute:
  assumes "store_inv s"
  shows "shrinks s (snd (EnsureRoute e i d w x s))"
proof -
  let ?p = "pruneHistory (ie_now e) i s"
  let ?f = "fold (quarantine_changed e) (routePending i ?p) ?p"
  have p: "shrinks s ?p" by (rule shrinks_prune [OF assms])
  have f: "shrinks s ?f" using shrinks_trans [OF p shrinks_quarantine_fold [OF store_inv_prune [OF assms]]] .
  have put: "shrinks s (?f\<lparr>st_routes := m\<rparr>)" for m by (rule shrinks_trans [OF f]) simp
  show ?thesis using p put by (auto simp: EnsureRoute_def Let_def split: option.split)
qed

lemma shrinks_BindRouteSession:
  assumes "store_inv s"
  shows "shrinks s (snd (BindRouteSession e i v x s))"
proof -
  let ?f = "fold (bind_record e v x) (routePending i s) s"
  have f: "shrinks s ?f" by (rule shrinks_bind_fold [OF assms])
  have "shrinks s (?f\<lparr>st_routes := m\<rparr>)" for m by (rule shrinks_trans [OF f]) simp
  then show ?thesis by (auto simp: BindRouteSession_def Let_def split: option.split)
qed

lemma records_frame:
  "st_records (snd (BeginRouteChange e i s)) = st_records s"
  "st_records (snd (FinishRouteChange e i v d w x s)) = st_records s"
  "st_records (snd (commitCursorGuarded e p a n c g s)) = st_records s"
  "st_records (ObserveLostBeforeAccept p reason s) = st_records s"
  by (auto simp: BeginRouteChange_def FinishRouteChange_def commitCursorGuarded_def ObserveLostBeforeAccept_def Let_def
      split: option.split)

section \<open>Acceptance within the limits\<close>

lemma accept_stored_records:
  "st_records (accept_stored e r cursor s) = AList.update (ir_RecordID r)
     (stored_form (ie_jsonTime e) (r\<lparr>ir_Sequence := rt_Sequence (accept_route e s r) + 1\<rparr>)
       (recordSize (ie_jsonTime e) (r\<lparr>ir_Sequence := rt_Sequence (accept_route e s r) + 1\<rparr>))) (st_records s)"
  by (simp add: accept_stored_def Let_def signal_def commit_cursor_def save_records split: option.split)

lemma accept_stored_pend:
  "pend (accept_stored e r cursor s) = (pend s)(ir_RecordID r := (if Terminal r then None else Some (Identity r)))"
  by (rule ext) (simp add: pend_def accept_stored_records Identity_def Terminal_def)

lemma limits_accept_stored:
  assumes inv: "store_inv s" and lim: "limits_inv s"
    and room: "\<not> over_capacity s (r\<lparr>ir_Sequence := n\<rparr>) sz"
  shows "limits_inv (accept_stored e r cursor s)"
proof -
  have room': "length (st_records s) < ingressHistoryLimit"
    "\<not> Terminal r \<Longrightarrow> occupancy (\<lambda>_. True) (pend s) < 4097"
    "\<not> Terminal r \<Longrightarrow> occupancy (\<lambda>i. account_of i = account_key r) (pend s) < 1025"
    "\<not> Terminal r \<Longrightarrow> occupancy (\<lambda>j. j = Identity r) (pend s) < 65"
    using room counts_occupancy(1) [OF inv] counts_occupancy(2) [OF inv, of "account_key r"] route_occupancy [OF inv, of "Identity r"]
    by (auto simp: over_capacity_def accept_reserve_def Let_def Terminal_def Identity_def not_le split: if_splits)
  have len: "length (st_records (accept_stored e r cursor s)) \<le> ingressHistoryLimit"
    using room'(1) by (simp add: accept_stored_records length_update)
  show ?thesis
  proof (cases "Terminal r")
    case True
    then have "pend (accept_stored e r cursor s) \<subseteq>\<^sub>m pend s" by (auto simp: accept_stored_pend map_le_def)
    then show ?thesis using lim len occupancy_mono unfolding limits_inv_def by (meson order_trans)
  next
    case False
    then have upd: "pend (accept_stored e r cursor s) = (pend s)(ir_RecordID r \<mapsto> Identity r)"
      by (simp add: accept_stored_pend)
    have bound: "occupancy P ((pend s)(ir_RecordID r \<mapsto> Identity r)) \<le> m"
      if "P (Identity r) \<Longrightarrow> occupancy P (pend s) < m" and "occupancy P (pend s) \<le> m" for P m
      using that occupancy_add [of P s "ir_RecordID r" "Identity r"] occupancy_skip [of P "Identity r" s "ir_RecordID r"]
      by (cases "P (Identity r)") auto
    show ?thesis
      unfolding limits_inv_def upd using len lim room' False
      by (auto simp: limits_inv_def intro!: bound)
  qed
qed

text \<open>
  The three ways through the critical section: a refusal that touches nothing, a duplicate
  that only commits the cursor, and a record stored.
\<close>

definition cursor_conflict :: "ingress_record \<Rightarrow> ingress_cursor option \<Rightarrow> ingress_store \<Rightarrow> bool" where
  "cursor_conflict r cursor s \<longleftrightarrow> (case cursor of
      Some c \<Rightarrow> checkCursor (st_cursors s) (ir_Platform r) (ir_AccountID r) (ic_Generation c - 1) c \<noteq> None
    | None \<Rightarrow> False)"

definition refused :: "receive_result \<Rightarrow> bool" where
  "refused res \<longleftrightarrow> rr_RecordID res = '''' \<and> rr_Disposition res \<in> {ReceiveRejected, ReceiveRetryable}"

definition duplicate_of :: "ingress_record \<Rightarrow> receive_result" where
  "duplicate_of old = \<lparr>rr_Disposition = ReceiveDuplicate, rr_RecordID = ir_RecordID old, rr_State = ir_State old,
     rr_Reason = ir_Reason old\<rparr>"

definition stored_as :: "ingress_record \<Rightarrow> disposition \<Rightarrow> receive_result" where
  "stored_as r d = \<lparr>rr_Disposition = (if ir_State r = IngressRejected \<and> d \<noteq> ReceiveDuplicate then ReceiveRejected else d),
     rr_RecordID = ir_RecordID r, rr_State = ir_State r, rr_Reason = ir_Reason r\<rparr>"

text \<open>What storing \<open>r1\<close> presupposes: no index knows it, its route is current and there is room.\<close>

definition admitted :: "ingress_env \<Rightarrow> ingress_store \<Rightarrow> ingress_record \<Rightarrow> bool" where
  "admitted e s r1 \<longleftrightarrow> get_or '''' (st_business s) (business_key r1) = ''''
     \<and> (ir_State r1 = IngressReceived \<or> ir_State r1 = IngressRejected)
     \<and> (ir_State r1 \<noteq> IngressRejected \<and> ir_Kind r1 = KindTask \<longrightarrow>
          rt_Phase (accept_route e s r1) = RouteActive \<and> rt_Revision (accept_route e s r1) = ir_RouteRevision r1
          \<and> rt_AuthorizationDigest (accept_route e s r1) = ir_AuthorizationDigest r1)
     \<and> \<not> over_capacity s (r1\<lparr>ir_Sequence := rt_Sequence (accept_route e s r1) + 1\<rparr>)
         (recordSize (ie_jsonTime e) (r1\<lparr>ir_Sequence := rt_Sequence (accept_route e s r1) + 1\<rparr>))"

lemma accept_locked_cases [consumes 1, case_names Refused Committed Stored]:
  assumes "accept_locked e r0 cursor s = (res, s')"
  obtains "s' = s" and "refused res"
  | r old where "accept_prepare e r0 = Inr r" and "\<not> cursor_conflict r cursor s"
      and "find_duplicate s (telegram_conflict s r) = Committed old"
      and "s' = commit_cursor r cursor s" and "res = duplicate_of old"
  | r r1 d where "accept_prepare e r0 = Inr r" and "\<not> cursor_conflict r cursor s"
      and "find_duplicate s (telegram_conflict s r) = Fresh r1 d"
      and "ir_RecordID r1 = ie_recordID e" and "Identity r1 = Identity r0" and "admitted e s r1"
      and "s' = accept_stored e r1 cursor s" and "res = stored_as r1 d"
proof (cases "accept_prepare e r0")
  case (Inl reason)
  then show ?thesis using assms by (intro that(1)) (auto simp: accept_locked_def refused_def plain_result_def)
next
  case (Inr r)
  show ?thesis
  proof (cases "cursor_conflict r cursor s")
    case True
    then show ?thesis using assms Inr
      by (intro that(1)) (auto simp: accept_locked_def cursor_conflict_def refused_def plain_result_def)
  next
    case False
    show ?thesis
    proof (cases "find_duplicate s (telegram_conflict s r)")
      case (Committed old)
      then show ?thesis using assms Inr False
        by (intro that(2) [of r old]) (auto simp: accept_locked_def cursor_conflict_def duplicate_of_def)
    next
      case (Fresh r1 d)
      then have new: "accept_new e r1 cursor d s = (res, s')"
        using assms Inr False by (simp add: accept_locked_def cursor_conflict_def)
      note f = accept_prepare_frame [OF Inr]
      have r1: "ir_RecordID r1 = ie_recordID e" "Identity r1 = Identity r0"
        "business_key r1 = business_key (telegram_conflict s r)"
        using find_duplicate_fresh(2) [OF Fresh] f by (auto simp: Identity_def)
      have state: "ir_State r1 = IngressReceived \<or> ir_State r1 = IngressRejected"
        using find_duplicate_fresh(2) [OF Fresh] telegram_conflict_state [OF f(9)] by auto
      from new show ?thesis
      proof (cases rule: accept_new_cases)
        case Refused
        then show ?thesis by (intro that(1)) (simp_all add: refused_def)
      next
        case (Stored r2)
        show ?thesis
          by (rule that(3) [OF Inr False Fresh r1(1,2) _ Stored(3)])
             (use find_duplicate_fresh(1) [OF Fresh] r1(3) state Stored in \<open>simp_all add: admitted_def stored_as_def\<close>)
      qed
    qed
  qed
qed

lemma commit_cursor_frame [simp]:
  "st_records (commit_cursor r cursor s) = st_records s" "st_routes (commit_cursor r cursor s) = st_routes s"
  "st_memoryBytes (commit_cursor r cursor s) = st_memoryBytes s" "st_changed (commit_cursor r cursor s) = st_changed s"
  by (simp_all add: commit_cursor_def split: option.split)

section \<open>Sequence numbers\<close>

text \<open>
  After at most \<open>n\<close> acceptances: a route has numbered at most \<open>n\<close> records, each retained
  record has a route and a number the route has given, and no two records of a route share one.
\<close>

definition seq_inv :: "nat \<Rightarrow> ingress_store \<Rightarrow> bool" where
  "seq_inv n s \<longleftrightarrow>
     (\<forall>i rt. map_of (st_routes s) i = Some rt \<longrightarrow> unat (rt_Sequence rt) \<le> n)
     \<and> (\<forall>x r. map_of (st_records s) x = Some r \<longrightarrow>
          (\<exists>rt. map_of (st_routes s) (Identity r) = Some rt \<and> ir_Sequence r \<le> rt_Sequence rt))
     \<and> (\<forall>x y r q. map_of (st_records s) x = Some r \<longrightarrow> map_of (st_records s) y = Some q \<longrightarrow>
          Identity r = Identity q \<longrightarrow> ir_Sequence r = ir_Sequence q \<longrightarrow> x = y)"

lemma seq_inv_route: "seq_inv n s \<Longrightarrow> map_of (st_routes s) i = Some rt \<Longrightarrow> unat (rt_Sequence rt) \<le> n"
  by (simp add: seq_inv_def)

lemma seq_inv_record:
  assumes "seq_inv n s" and "map_of (st_records s) x = Some r"
  obtains rt where "map_of (st_routes s) (Identity r) = Some rt" and "ir_Sequence r \<le> rt_Sequence rt"
  using assms unfolding seq_inv_def by blast

lemma seq_inv_distinct:
  "seq_inv n s \<Longrightarrow> map_of (st_records s) x = Some r \<Longrightarrow> map_of (st_records s) y = Some q
   \<Longrightarrow> Identity r = Identity q \<Longrightarrow> ir_Sequence r = ir_Sequence q \<Longrightarrow> x = y"
  unfolding seq_inv_def by blast

lemma seq_inv_weaken: "seq_inv n s \<Longrightarrow> n \<le> m \<Longrightarrow> seq_inv m s"
  unfolding seq_inv_def by (meson order_trans)

lemma seq_inv_cong: "seq_inv n s \<Longrightarrow> st_routes t = st_routes s \<Longrightarrow> st_records t = st_records s \<Longrightarrow> seq_inv n t"
  by (simp add: seq_inv_def)

lemma seq_inv_put_route:
  assumes "seq_inv n s" and "rt_Sequence rt = rt_Sequence (get_or zero_route (st_routes s) i)"
  shows "seq_inv n (s\<lparr>st_routes := AList.update i rt (st_routes s)\<rparr>)"
proof -
  have bound: "unat (rt_Sequence rt) \<le> n"
    using assms by (auto simp: seq_inv_def get_or_def zero_route_def split: option.split)
  have "\<exists>rt'. map_of (AList.update i rt (st_routes s)) (Identity r) = Some rt' \<and> ir_Sequence r \<le> rt_Sequence rt'"
    if rec: "map_of (st_records s) x = Some r" for x r
  proof -
    obtain rt0 where "map_of (st_routes s) (Identity r) = Some rt0" "ir_Sequence r \<le> rt_Sequence rt0"
      using seq_inv_record [OF assms(1) rec] .
    then show ?thesis using assms(2) by (cases "i = Identity r") (auto simp: get_or_def)
  qed
  then show ?thesis using assms(1) bound by (simp add: seq_inv_def)
qed

lemma seq_inv_save:
  assumes "seq_inv n s" and "map_of (st_records s) (ir_RecordID r) = Some old"
    and "Identity r = Identity old" and "ir_Sequence r = ir_Sequence old"
  shows "seq_inv n (save now jt r sz s)"
proof -
  have orig: "\<exists>q'. map_of (st_records s) x = Some q' \<and> Identity q' = Identity q \<and> ir_Sequence q' = ir_Sequence q"
    if "map_of (st_records (save now jt r sz s)) x = Some q" for x q
    using that assms by (auto simp: save_records split: if_splits)
  have "\<exists>rt. map_of (st_routes s) (Identity q) = Some rt \<and> ir_Sequence q \<le> rt_Sequence rt"
    if "map_of (st_records (save now jt r sz s)) x = Some q" for x q
    using orig [OF that] assms(1) by (metis seq_inv_def)
  moreover have "x = y"
    if "map_of (st_records (save now jt r sz s)) x = Some q" "map_of (st_records (save now jt r sz s)) y = Some p"
      "Identity q = Identity p" "ir_Sequence q = ir_Sequence p" for x y q p
    using orig [OF that(1)] orig [OF that(2)] that(3,4) assms(1) by (metis seq_inv_def)
  ultimately show ?thesis using assms(1) unfolding seq_inv_def save_frame by blast
qed

lemma seq_inv_prune_record:
  assumes inv: "routes_inv s" and seq: "seq_inv n s" and r: "map_of (st_records s) x = Some r"
  shows "seq_inv n (prune_record p x r s)"
proof -
  have recs: "map_of (st_records (prune_record p x r s)) y = Some q \<Longrightarrow> map_of (st_records s) y = Some q \<and> y \<noteq> x" for y q
    by (auto simp: prune_record_effect split: if_splits)
  have look: "index_look (st_byRoute s) i = {y. \<exists>q. map_of (st_records s) y = Some q \<and> Identity q = i}" for i
    using inv by (auto simp: routes_inv_def indexed_by_def)
  have routes: "map_of (st_routes (prune_record p x r s)) (Identity q) = map_of (st_routes s) (Identity q)"
    if "map_of (st_records s) y = Some q" "y \<noteq> x" for y q
  proof (cases "Identity q = Identity r")
    case True
    then have "y \<in> index_look (st_byRoute s) (Identity r) - {x}" using that by (auto simp: look)
    then have "\<not> index_look (st_byRoute s) (Identity r) - {x} = {}" by blast
    then show ?thesis unfolding prune_record_routes by simp
  qed (simp add: prune_record_routes)
  have sub: "map_of (st_routes (prune_record p x r s)) i = Some rt \<Longrightarrow> map_of (st_routes s) i = Some rt" for i rt
    by (auto simp: prune_record_routes split: if_splits)
  show ?thesis
    unfolding seq_inv_def
  proof (intro conjI allI impI)
    fix i rt assume "map_of (st_routes (prune_record p x r s)) i = Some rt"
    then show "unat (rt_Sequence rt) \<le> n" using sub seq by (auto simp: seq_inv_def)
  next
    fix y q assume "map_of (st_records (prune_record p x r s)) y = Some q"
    then have q: "map_of (st_records s) y = Some q" "y \<noteq> x" using recs by auto
    then show "\<exists>rt. map_of (st_routes (prune_record p x r s)) (Identity q) = Some rt \<and> ir_Sequence q \<le> rt_Sequence rt"
      using routes [OF q] seq by (auto simp: seq_inv_def)
  next
    fix y z q k
    assume "map_of (st_records (prune_record p x r s)) y = Some q" "map_of (st_records (prune_record p x r s)) z = Some k"
      "Identity q = Identity k" "ir_Sequence q = ir_Sequence k"
    then show "y = z" using recs seq unfolding seq_inv_def by blast
  qed
qed

lemma seq_inv_prune:
  assumes "store_inv s" and "seq_inv n s"
  shows "seq_inv n (pruneHistory now p s)"
proof -
  let ?P = "\<lambda>t. store_inv t \<and> seq_inv n t"
  have "?P (prune_loop m now p s)" for m
  proof (rule prune_loop_rule [where P = ?P])
    fix t y e q
    assume t: "?P t" and head: "st_historyHead t < length (st_history t)"
      and entry: "st_history t ! st_historyHead t = (y, e)" and q: "map_of (st_records t) y = Some q"
    let ?t = "t\<lparr>st_historyHead := st_historyHead t + 1\<rparr>"
    have "routes_inv ?t" "seq_inv n ?t" using t by (simp_all add: store_inv_def routes_inv_def seq_inv_def)
    then have "seq_inv n (prune_record p y q ?t)" using q by (intro seq_inv_prune_record) simp_all
    then show "?P (prune_record p y q ?t)" using t store_inv_prune_record [OF _ head entry q] by simp
  qed (use assms in \<open>auto dest: store_inv_head_skip\<close>)
  then have "seq_inv n (prune_loop (length (st_history s) - st_historyHead s) now p s)" by blast
  then show ?thesis unfolding pruneHistory_def by (rule seq_inv_cong) simp_all
qed

text \<open>A stored record takes a number above every number of its route.\<close>

lemma seq_inv_accept_stored:
  assumes seq: "seq_inv n s" and room: "Suc n < 2 ^ 64" and fresh: "map_of (st_records s) (ir_RecordID r) = None"
  shows "seq_inv (Suc n) (accept_stored e r cursor s)"
    and "\<forall>x q. map_of (st_records s) x = Some q \<longrightarrow> Identity q = Identity r \<longrightarrow>
           ir_Sequence q < rt_Sequence (accept_route e s r) + 1"
proof -
  let ?rt = "accept_route e s r" and ?t = "accept_stored e r cursor s"
  have n: "unat (rt_Sequence ?rt) \<le> n"
    using seq_inv_route [OF seq] by (simp add: accept_route_def zero_route_def split: option.split)
  then have up: "unat (rt_Sequence ?rt + 1) = unat (rt_Sequence ?rt) + 1"
    using room by (simp add: unat_word_ariths)
  have above: "ir_Sequence q < rt_Sequence ?rt + 1" if rec: "map_of (st_records s) x = Some q" and same: "Identity q = Identity r" for x q
  proof -
    obtain rt where "map_of (st_routes s) (Identity q) = Some rt" "ir_Sequence q \<le> rt_Sequence rt"
      using seq_inv_record [OF seq rec] .
    then have "ir_Sequence q \<le> rt_Sequence ?rt" using same by (simp add: accept_route_def)
    then show ?thesis using up by (simp add: word_less_nat_alt word_le_nat_alt)
  qed
  then show "\<forall>x q. map_of (st_records s) x = Some q \<longrightarrow> Identity q = Identity r \<longrightarrow> ir_Sequence q < rt_Sequence ?rt + 1" by blast
  have routes: "map_of (st_routes ?t) i = (if i = Identity r then Some (?rt\<lparr>rt_Sequence := rt_Sequence ?rt + 1\<rparr>)
      else map_of (st_routes s) i)" for i
    by (simp add: accept_stored_def Let_def signal_def commit_cursor_def Identity_def split: option.split)
  have recs: "map_of (st_records ?t) x = Some q \<Longrightarrow>
      x = ir_RecordID r \<and> Identity q = Identity r \<and> ir_Sequence q = rt_Sequence ?rt + 1
      \<or> x \<noteq> ir_RecordID r \<and> map_of (st_records s) x = Some q" for x q
    by (auto simp: accept_stored_records Identity_def split: if_splits)
  show "seq_inv (Suc n) ?t"
    unfolding seq_inv_def
  proof (intro conjI allI impI)
    fix i rt assume "map_of (st_routes ?t) i = Some rt"
    then show "unat (rt_Sequence rt) \<le> Suc n"
      using up n seq by (auto simp: routes seq_inv_def le_SucI split: if_splits)
  next
    fix x q assume "map_of (st_records ?t) x = Some q"
    from recs [OF this] show "\<exists>rt. map_of (st_routes ?t) (Identity q) = Some rt \<and> ir_Sequence q \<le> rt_Sequence rt"
    proof
      assume old: "x \<noteq> ir_RecordID r \<and> map_of (st_records s) x = Some q"
      then show ?thesis using above [of x q] seq unfolding seq_inv_def routes
        by (cases "Identity q = Identity r") (auto intro: less_imp_le)
    qed (simp add: routes)
  next
    fix x y q k
    assume x: "map_of (st_records ?t) x = Some q" and y: "map_of (st_records ?t) y = Some k"
      and same: "Identity q = Identity k" "ir_Sequence q = ir_Sequence k"
    from recs [OF x] recs [OF y] show "x = y"
    proof (elim disjE conjE)
      assume "map_of (st_records s) x = Some q" "map_of (st_records s) y = Some k"
      then show "x = y" using seq same unfolding seq_inv_def by blast
    next
      assume a: "Identity q = Identity r" "ir_Sequence q = rt_Sequence ?rt + 1" "map_of (st_records s) y = Some k"
      then show "x = y" using above [of y k] same by simp
    next
      assume a: "Identity k = Identity r" "ir_Sequence k = rt_Sequence ?rt + 1" "map_of (st_records s) x = Some q"
      then show "x = y" using above [of x q] same by simp
    qed simp
  qed
qed

section \<open>Reachable stores\<close>

text \<open>
  What the program's callers of \<open>UpdateRecord\<close> do with a record: its identifiers, its chat and
  its number stay, and a record that reached a terminal state stays terminal.
\<close>

definition mutation_ok :: "(ingress_record \<Rightarrow> string + ingress_record) \<Rightarrow> bool" where
  "mutation_ok mutate \<longleftrightarrow> (\<forall>r r1. mutate r = Inr r1 \<longrightarrow>
     ir_RecordID r1 = ir_RecordID r \<and> Identity r1 = Identity r \<and> ir_BusinessID r1 = ir_BusinessID r
     \<and> ir_SemanticID r1 = ir_SemanticID r \<and> ir_Sequence r1 = ir_Sequence r \<and> (Terminal r \<longrightarrow> Terminal r1))"

inductive ingress_step :: "ingress_store \<Rightarrow> ingress_store \<Rightarrow> bool" where
  step_Accept: "fresh_id e s \<Longrightarrow> ingress_step s (snd (acceptRecord e r cursor guarded s))"
| step_Update: "mutation_ok mutate \<Longrightarrow> ingress_step s (snd (UpdateRecord e x allowed mutate s))"
| step_EnsureRoute: "ingress_step s (snd (EnsureRoute e i digest workspace session s))"
| step_BeginRouteChange: "ingress_step s (snd (BeginRouteChange e i s))"
| step_FinishRouteChange: "ingress_step s (snd (FinishRouteChange e i revision digest workspace session s))"
| step_BindRouteSession: "ingress_step s (snd (BindRouteSession e i revision session s))"
| step_Cursor: "ingress_step s (snd (commitCursorGuarded e platform account expected nxt guarded s))"
| step_Observe: "ingress_step s (ObserveLostBeforeAccept platform reason s)"
| step_Wake: "ingress_step s (s\<lparr>st_changed := False\<rparr>)"
| step_Close: "ingress_step s (store_Close s)"

inductive ingress_reach :: "nat \<Rightarrow> ingress_store \<Rightarrow> bool" where
  reach_New: "ingress_reach 0 NewIngressStore"
| reach_Step: "ingress_reach n s \<Longrightarrow> ingress_step s t \<Longrightarrow> ingress_reach (Suc n) t"

inductive_cases ingress_stepE: "ingress_step s t"

lemma store_inv_wake: "store_inv s \<Longrightarrow> store_inv (s\<lparr>st_changed := b\<rparr>)"
  by (simp add: store_inv_def store_inv_parts live_history_def ids_where_def counts_inv_def)

lemma step_store_inv: "ingress_step s t \<Longrightarrow> store_inv s \<Longrightarrow> store_inv t"
proof (induction rule: ingress_step.induct)
  case (step_Update mutate s e x allowed)
  then show ?case by (intro store_inv_UpdateRecord) (simp_all add: mutation_ok_def)
qed (simp_all add: store_inv_acceptRecord store_inv_EnsureRoute store_inv_BeginRouteChange
      store_inv_FinishRouteChange store_inv_BindRouteSession store_inv_commitCursor store_inv_wake store_inv_Close)

lemma reach_store_inv: "ingress_reach n s \<Longrightarrow> store_inv s"
  by (induction rule: ingress_reach.induct) (simp_all add: store_inv_empty step_store_inv)

text \<open>The whole acceptance, by what it does to the store.\<close>

lemma acceptRecord_cases [consumes 1, case_names Untouched Refused Committed Stored]:
  assumes "acceptRecord e r0 cursor g s = (res, s')"
  obtains "s' = observeAcceptance (ir_Platform r0) res s" and "refused res"
  | "s' = observeAcceptance (ir_Platform r0) res (pruneHistory (ie_now e) (Identity r0) s)" and "refused res"
  | p r old where "p = pruneHistory (ie_now e) (Identity r0) s"
      and "accept_prepare e r0 = Inr r" and "\<not> cursor_conflict r cursor p"
      and "find_duplicate p (telegram_conflict p r) = Committed old"
      and "s' = observeAcceptance (ir_Platform r0) res (commit_cursor r cursor p)" and "res = duplicate_of old"
  | p r r1 d where "p = pruneHistory (ie_now e) (Identity r0) s"
      and "accept_prepare e r0 = Inr r" and "\<not> cursor_conflict r cursor p"
      and "find_duplicate p (telegram_conflict p r) = Fresh r1 d"
      and "ir_RecordID r1 = ie_recordID e" and "Identity r1 = Identity r0" and "admitted e p r1"
      and "s' = observeAcceptance (ir_Platform r0) res (accept_stored e r1 cursor p)" and "res = stored_as r1 d"
proof (cases "accept_invalid r0 cursor = None \<and> (g \<longrightarrow> ie_valid e) \<and> store_lock e s = None")
  case True
  obtain out t where locked: "accept_locked e r0 cursor (pruneHistory (ie_now e) (Identity r0) s) = (out, t)" by fastforce
  then have eq: "res = out" "s' = observeAcceptance (ir_Platform r0) out t" using True assms by (auto simp: acceptRecord_def)
  from locked show thesis
  proof (cases rule: accept_locked_cases)
    case Refused
    then show ?thesis using eq by (intro that(2)) simp_all
  next
    case (Committed r old)
    show ?thesis by (rule that(3) [OF refl Committed(1-3)]) (use eq Committed in simp_all)
  next
    case (Stored r r1 d)
    show ?thesis by (rule that(4) [OF refl Stored(1-6)]) (use eq Stored in simp_all)
  qed
next
  case False
  then show ?thesis using assms
    by (intro that(1)) (auto simp: acceptRecord_def plain_result_def refused_def split: option.splits if_splits)
qed

lemma observeAcceptance_frame [simp]:
  "st_records (observeAcceptance p res s) = st_records s" "st_routes (observeAcceptance p res s) = st_routes s"
  "st_cursors (observeAcceptance p res s) = st_cursors s" "st_memoryBytes (observeAcceptance p res s) = st_memoryBytes s"
  by (simp_all add: observeAcceptance_def Let_def)

lemma limits_inv_shrinks: "limits_inv s \<Longrightarrow> shrinks s t \<Longrightarrow> limits_inv t"
  unfolding shrinks_def using limits_inv_shrink by blast

lemma limits_inv_records: "limits_inv s \<Longrightarrow> st_records t = st_records s \<Longrightarrow> limits_inv t"
  by (rule limits_inv_shrinks [OF _ shrinks_records])

lemma limits_inv_accept:
  assumes "store_inv s" and "limits_inv s"
  shows "limits_inv (snd (acceptRecord e r cursor g s))"
proof -
  obtain res s' where eq: "acceptRecord e r cursor g s = (res, s')" by fastforce
  have p: "limits_inv (pruneHistory (ie_now e) (Identity r) s)"
    by (rule limits_inv_shrinks [OF assms(2) shrinks_prune [OF assms(1)]])
  from eq have "limits_inv s'"
  proof (cases rule: acceptRecord_cases)
    case Untouched
    then show ?thesis by (intro limits_inv_records [OF assms(2)]) simp
  next
    case Refused
    then show ?thesis by (intro limits_inv_records [OF p]) simp
  next
    case (Committed q r2 old)
    then show ?thesis by (intro limits_inv_records [OF p]) simp
  next
    case (Stored q r2 r1 d)
    have "limits_inv (accept_stored e r1 cursor q)"
      using Stored(7) unfolding Stored(1) admitted_def
      by (intro limits_accept_stored [OF store_inv_prune [OF assms(1)] p]) blast
    then show ?thesis by (rule limits_inv_records) (simp add: Stored(8))
  qed
  with eq show ?thesis by simp
qed

lemma step_limits_inv: "ingress_step s t \<Longrightarrow> store_inv s \<Longrightarrow> limits_inv s \<Longrightarrow> limits_inv t"
proof (induction rule: ingress_step.induct)
  case (step_Accept e s r cursor g)
  then show ?case by (simp add: limits_inv_accept)
next
  case (step_Update mutate s e x allowed)
  have "shrinks s (snd (UpdateRecord e x allowed mutate s))"
    by (rule shrinks_UpdateRecord [OF step_Update(2)]) (use step_Update(1) in \<open>simp add: mutation_ok_def\<close>)
  then show ?case by (rule limits_inv_shrinks [OF step_Update(3)])
next
  case (step_Close s)
  then show ?case by (simp add: limits_inv_def store_Close_def pend_def occupancy_def)
qed (auto intro: limits_inv_shrinks shrinks_EnsureRoute shrinks_BindRouteSession limits_inv_records simp: records_frame)

lemma reach_limits_inv: "ingress_reach n s \<Longrightarrow> limits_inv s"
proof (induction rule: ingress_reach.induct)
  case reach_New
  then show ?case by (simp add: limits_inv_def NewIngressStore_def pend_def occupancy_def)
next
  case (reach_Step n s t)
  then show ?case using step_limits_inv reach_store_inv by blast
qed

lemma seq_inv_UpdateRecord:
  assumes inv: "store_inv s" and seq: "seq_inv n s" and ok: "mutation_ok mutate"
  shows "seq_inv n (snd (UpdateRecord e x allowed mutate s))"
proof -
  have keep: "seq_inv n (save (ie_now e) (ie_jsonTime e) (r1\<lparr>ir_UpdatedAt := ie_now e\<rparr>) (-1) s)"
    if r: "map_of (st_records s) x = Some r" and m: "mutate r = Inr r1" for r r1
  proof -
    have "ir_RecordID r = x" using inv r by (simp add: store_inv_def records_inv_def)
    moreover have "ir_RecordID r1 = ir_RecordID r" "Identity r1 = Identity r" "ir_Sequence r1 = ir_Sequence r"
      using ok m by (simp_all add: mutation_ok_def)
    ultimately show ?thesis using r by (intro seq_inv_save [OF seq, of _ r]) (simp_all add: Identity_def)
  qed
  have "seq_inv n (signal (ObserveStateTransition p a b c (save (ie_now e) (ie_jsonTime e)
      (r1\<lparr>ir_UpdatedAt := ie_now e\<rparr>) (-1) s)))"
    if r: "map_of (st_records s) x = Some r" and m: "mutate r = Inr r1" for r r1 p a b c
    by (rule seq_inv_cong [OF keep [OF r m]]) (simp_all add: signal_def ObserveStateTransition_def)
  then show ?thesis using seq by (auto simp: UpdateRecord_def Let_def split: option.split sum.split)
qed

lemma seq_inv_quarantine_fold:
  assumes "store_inv s" and "seq_inv n s"
  shows "seq_inv n (fold (quarantine_changed e) (routePending i s) s)
    \<and> st_routes (fold (quarantine_changed e) (routePending i s) s) = st_routes s"
proof (rule quarantine_fold [OF routePending_read [OF assms(1)], where P = "\<lambda>t. seq_inv n t \<and> st_routes t = st_routes s"])
  fix r t
  assume "seq_inv n t \<and> st_routes t = st_routes s" "map_of (st_records t) (ir_RecordID r) = Some r"
  then show "seq_inv n (quarantine_changed e r t) \<and> st_routes (quarantine_changed e r t) = st_routes s"
    unfolding quarantine_changed_def by (auto intro!: seq_inv_save [of n t _ r] simp: Identity_def)
qed (use assms in simp)

lemma seq_inv_bind_fold:
  assumes "store_inv s" and "seq_inv n s"
  shows "seq_inv n (fold (bind_record e v w) (routePending i s) s)
    \<and> st_routes (fold (bind_record e v w) (routePending i s) s) = st_routes s"
proof (rule bind_fold [OF routePending_read [OF assms(1)], where P = "\<lambda>t. seq_inv n t \<and> st_routes t = st_routes s"])
  fix r t
  assume "seq_inv n t \<and> st_routes t = st_routes s" "map_of (st_records t) (ir_RecordID r) = Some r"
  then show "seq_inv n (bind_record e v w r t) \<and> st_routes (bind_record e v w r t) = st_routes s"
    unfolding bind_record_def by (auto intro!: seq_inv_save [of n t _ r] simp: Identity_def)
qed (use assms in simp)

lemma seq_inv_put_route':
  assumes "seq_inv n t \<and> st_routes t = m" and "rt_Sequence rt = rt_Sequence (get_or zero_route m i)"
  shows "seq_inv n (t\<lparr>st_routes := AList.update i rt m\<rparr>)"
  using seq_inv_put_route [of n t rt i] assms by simp

lemma seq_inv_EnsureRoute:
  assumes "store_inv s" and "seq_inv n s"
  shows "seq_inv n (snd (EnsureRoute e i d w x s))"
proof -
  let ?p = "pruneHistory (ie_now e) i s"
  have p: "seq_inv n ?p" by (rule seq_inv_prune [OF assms])
  note f = seq_inv_put_route' [OF seq_inv_quarantine_fold [OF store_inv_prune [OF assms(1)] p]]
  have fr: "st_routes (fold (quarantine_changed e) (routePending i ?p) ?p) = st_routes ?p"
    using seq_inv_quarantine_fold [OF store_inv_prune [OF assms(1)] p] by blast
  show ?thesis using assms(2) p f by (auto simp: EnsureRoute_def Let_def fr split: option.split)
qed

lemma seq_inv_BindRouteSession:
  assumes "store_inv s" and "seq_inv n s"
  shows "seq_inv n (snd (BindRouteSession e i v x s))"
proof -
  note f = seq_inv_put_route' [OF seq_inv_bind_fold [OF assms]]
  have fr: "st_routes (fold (bind_record e v x) (routePending i s) s) = st_routes s"
    using seq_inv_bind_fold [OF assms] by blast
  show ?thesis using assms(2) f by (auto simp: BindRouteSession_def Let_def fr get_or_def split: option.split)
qed

lemma seq_inv_routes_ops:
  assumes "seq_inv n s"
  shows "seq_inv n (snd (BeginRouteChange e i s))" and "seq_inv n (snd (FinishRouteChange e i v d w x s))"
    and "seq_inv n (snd (commitCursorGuarded e p a k c g s))"
  using assms by (auto simp: BeginRouteChange_def FinishRouteChange_def commitCursorGuarded_def Let_def get_or_def
      intro!: seq_inv_put_route intro: seq_inv_cong split: option.split)

lemma seq_inv_accept:
  assumes inv: "store_inv s" and fresh: "fresh_id e s" and seq: "seq_inv n s" and n: "Suc n < 2 ^ 64"
  shows "seq_inv (Suc n) (snd (acceptRecord e r cursor g s))"
proof -
  obtain res s' where eq: "acceptRecord e r cursor g s = (res, s')" by fastforce
  have p: "seq_inv n (pruneHistory (ie_now e) (Identity r) s)" by (rule seq_inv_prune [OF inv seq])
  have p': "seq_inv (Suc n) (pruneHistory (ie_now e) (Identity r) s)" by (rule seq_inv_weaken [OF p]) simp
  from eq have "seq_inv (Suc n) s'"
  proof (cases rule: acceptRecord_cases)
    case Untouched
    then show ?thesis by (intro seq_inv_cong [OF seq_inv_weaken [OF seq]]) simp_all
  next
    case Refused
    then show ?thesis by (intro seq_inv_cong [OF p']) simp_all
  next
    case (Committed q r2 old)
    then show ?thesis by (intro seq_inv_cong [OF p']) simp_all
  next
    case (Stored q r2 r1 d)
    have "map_of (st_records q) (ir_RecordID r1) = None"
      using fresh_id_prune [OF fresh] Stored(1,5) by (simp add: fresh_id_def)
    then have "seq_inv (Suc n) (accept_stored e r1 cursor q)"
      using seq_inv_accept_stored(1) [of n q r1] p n Stored(1) by simp
    then show ?thesis by (rule seq_inv_cong) (simp_all add: Stored(8))
  qed
  with eq show ?thesis by simp
qed

lemma step_seq_inv:
  assumes "ingress_step s t" and "store_inv s" and "seq_inv n s" and "Suc n < 2 ^ 64"
  shows "seq_inv (Suc n) t"
  using assms
proof (induction rule: ingress_step.induct)
  case (step_Accept e s r cursor g)
  then show ?case by (simp add: seq_inv_accept)
next
  case (step_Close s)
  then show ?case by (simp add: seq_inv_def store_Close_def)
next
  case (step_Observe s p q)
  show ?case by (rule seq_inv_cong [OF seq_inv_weaken [OF step_Observe(2)]]) (simp_all add: ObserveLostBeforeAccept_def)
next
  case (step_Wake s)
  show ?case by (rule seq_inv_cong [OF seq_inv_weaken [OF step_Wake(2)]]) simp_all
qed (rule seq_inv_weaken [of n]; simp add: seq_inv_UpdateRecord seq_inv_EnsureRoute seq_inv_BindRouteSession seq_inv_routes_ops)+

lemma reach_seq_inv: "ingress_reach n s \<Longrightarrow> n < 2 ^ 64 \<Longrightarrow> seq_inv n s"
proof (induction rule: ingress_reach.induct)
  case reach_New
  then show ?case by (simp add: seq_inv_def NewIngressStore_def)
next
  case (reach_Step n s t)
  then show ?case using step_seq_inv reach_store_inv by (meson Suc_lessD)
qed

end
