(* ===== verification/StoreProps.thy ===== *)
theory StoreProps
  imports StoreReach
begin

text \<open>
  What the ingress store promises its callers, over every store its operations can reach:
  consistency, bounds, ordering, deduplication, the fence of a route change and the
  atomicity of a polling cursor with its record. The witnesses run a small example.
\<close>

section \<open>An example run\<close>

text \<open>A clock at an instant of 2026, fresh identifiers and a fixed rendering of instants.\<close>

definition ex_env :: "string \<Rightarrow> gotime \<Rightarrow> ingress_env" where
  "ex_env x now = \<lparr>ie_now = now, ie_ctxErr = False, ie_ctxLate = False, ie_valid = True, ie_recordID = x,
     ie_revision = x @ ''-rev'', ie_jsonTime = (\<lambda>t. Some ''2026-01-01T00:00:00Z'')\<rparr>"

definition ex_time :: gotime where "ex_time = 63900000000 * second"

definition ex_chat :: chat_identity where "ex_chat = ChatIdentity ''slack'' ''T1'' ''D1''"

definition ex_record :: "string \<Rightarrow> ingress_kind \<Rightarrow> string \<Rightarrow> ingress_record" where
  "ex_record biz kind revision = zero_record\<lparr>ir_Platform := ''slack'', ir_AccountID := ''T1'', ir_ChatID := ''D1'',
     ir_SenderID := ''U1'', ir_BusinessID := biz, ir_Kind := kind, ir_Text := ''hi'', ir_AuthorizationDigest := ''auth'',
     ir_RouteRevision := revision\<rparr>"

text \<open>A route, then a task on it, then a control.\<close>

definition ex_store1 :: ingress_store where
  "ex_store1 = snd (EnsureRoute (ex_env ''r1'' ex_time) ex_chat ''auth'' ''ws'' ''sess'' NewIngressStore)"

definition ex_store2 :: ingress_store where
  "ex_store2 = snd (acceptRecord (ex_env ''A'' ex_time) (ex_record ''m1'' KindTask ''r1-rev'') None False ex_store1)"

definition ex_store3 :: ingress_store where
  "ex_store3 = snd (acceptRecord (ex_env ''B'' ex_time) (ex_record ''m2'' KindControl '''') None False ex_store2)"

text \<open>Evaluating the operations.\<close>

lemmas store_eval = ex_env_def ex_record_def ex_chat_def zero_record_def zero_state_def zero_route_def zero_counts_def zero_identity_def
  NewIngressStore_def store_lock_def pruneHistory_def compact_history_def get_or_def Identity_def Terminal_def routePending_def
  ValidateIngressCursor_def ingressHistoryLimit_def

lemmas accept_eval = acceptRecord_def accept_invalid_def accept_locked_def accept_prepare_def
  accept_received_def accept_stamp_def accept_source_def accept_strip_def telegram_conflict_def find_duplicate_def
  accept_new_def accept_route_def over_capacity_def accept_reserve_def ascii_eval Let_def compositeKey_def join_cons
  save_def adjustCounts_def add_index_def set_add_def index_keys_def commit_cursor_def signal_def observeAcceptance_def metrics_record_def
  imMetricEventAllowed_def metric_events_def

lemma ex_store1_eval: "ex_store1 = NewIngressStore\<lparr>st_routes := [(ex_chat, \<lparr>rt_Identity = ex_chat, rt_Revision = ''r1-rev'',
     rt_AuthorizationDigest = ''auth'', rt_WorkspaceID = ''ws'', rt_SessionID = ''sess'', rt_Phase = RouteActive, rt_Sequence = 0\<rparr>)]\<rparr>"
  by (simp add: ex_store1_def EnsureRoute_def store_eval Let_def)

definition ex_stored1 :: ingress_record where
  "ex_stored1 = (ex_record ''m1'' KindTask ''r1-rev'')\<lparr>ir_RecordID := ''A'', ir_RequestID := ''im-A'',
     ir_ReceivedAt := ex_time, ir_UpdatedAt := ex_time, ir_State := IngressReceived, ir_Sequence := 1\<rparr>"

lemma ex_size1: "recordSize (\<lambda>t. Some ''2026-01-01T00:00:00Z'') ex_stored1 = 449"
  by (simp add: ex_stored1_def store_eval recordSize_def json_record_def json_eval)

lemma ex_accept2_eval: "acceptRecord (ex_env ''A'' ex_time) (ex_record ''m1'' KindTask ''r1-rev'') None False ex_store1 =
  (stored_as ex_stored1 ReceiveAccepted, ex_store1\<lparr>st_memoryBytes := 449,
   st_metrics := [((MetricPlatform ''slack'', ''received'', MetricReason ''''), 1)], st_changed := True,
   st_records := [(''A'', ex_stored1\<lparr>ir_size := 449\<rparr>)], st_pending := [''A''], st_pendingByRoute := [(ex_chat, [''A''])],
   st_routes := [(ex_chat, \<lparr>rt_Identity = ex_chat, rt_Revision = ''r1-rev'', rt_AuthorizationDigest = ''auth'',
     rt_WorkspaceID = ''ws'', rt_SessionID = ''sess'', rt_Phase = RouteActive, rt_Sequence = 1\<rparr>)],
   st_byRoute := [(ex_chat, [''A''])], st_business := [(''slack|T1|m1'', ''A'')],
   st_counts := [(''slack|T1'', \<lparr>cn_Pending = 1, cn_Bytes = 449, cn_Tombstones = 0\<rparr>)],
   st_total := \<lparr>cn_Pending = 1, cn_Bytes = 449, cn_Tombstones = 0\<rparr>\<rparr>)"
  by (simp add: stored_as_def ex_store1_eval store_eval accept_eval ex_stored1_def ex_time_def
      ex_size1 [unfolded ex_stored1_def ex_record_def zero_record_def ex_time_def, simplified])

lemma ex_store2_eval: "ex_store2 = ex_store1\<lparr>st_memoryBytes := 449,
   st_metrics := [((MetricPlatform ''slack'', ''received'', MetricReason ''''), 1)], st_changed := True,
   st_records := [(''A'', ex_stored1\<lparr>ir_size := 449\<rparr>)], st_pending := [''A''], st_pendingByRoute := [(ex_chat, [''A''])],
   st_routes := [(ex_chat, \<lparr>rt_Identity = ex_chat, rt_Revision = ''r1-rev'', rt_AuthorizationDigest = ''auth'',
     rt_WorkspaceID = ''ws'', rt_SessionID = ''sess'', rt_Phase = RouteActive, rt_Sequence = 1\<rparr>)],
   st_byRoute := [(ex_chat, [''A''])], st_business := [(''slack|T1|m1'', ''A'')],
   st_counts := [(''slack|T1'', \<lparr>cn_Pending = 1, cn_Bytes = 449, cn_Tombstones = 0\<rparr>)],
   st_total := \<lparr>cn_Pending = 1, cn_Bytes = 449, cn_Tombstones = 0\<rparr>\<rparr>"
  by (simp only: ex_store2_def ex_accept2_eval snd_conv)

lemma ex_fresh: "fresh_id (ex_env ''A'' t) ex_store1" "fresh_id (ex_env ''B'' t) ex_store2"
  by (simp_all add: fresh_id_def ex_store2_eval ex_store1_eval store_eval)

lemma ex_reach: "ingress_reach 1 ex_store1" "ingress_reach 2 ex_store2"
proof -
  show r1: "ingress_reach 1 ex_store1"
    using reach_Step [OF reach_New step_EnsureRoute] by (simp add: ex_store1_def)
  show "ingress_reach 2 ex_store2"
    using reach_Step [OF r1 step_Accept [OF ex_fresh(1)]] by (simp add: ex_store2_def numeral_2_eq_2)
qed

section \<open>Consistency and bounds\<close>

text \<open>C10: In every store the operations can reach, the indexes name exactly the records they
  should, the counters are the sums over the retained records, the unexpired history lists
  exactly the terminal records, each once, and every stored cursor and metric label is valid.\<close>

theorem reachable_store_consistent: "ingress_reach n s \<Longrightarrow> store_inv s"
  by (rule reach_store_inv)

theorem reachable_store_consistent_witness: "store_inv ex_store2 \<and> st_pending ex_store2 = [''A'']"
  using reachable_store_consistent [OF ex_reach(2)] by (simp add: ex_store2_eval)

text \<open>C21: No sequence of operations overfills the store: at most 65 pending records for a chat,
  1025 for an account and 4097 in all (one above each limit, the reserve of an authorized
  status query), as the counters and the queues report them, and 100000 retained records.\<close>

theorem reachable_store_bounded:
  assumes "ingress_reach n s"
  shows "length (get_or [] (st_pendingByRoute s) i) \<le> 65
    \<and> cn_Pending (get_or zero_counts (st_counts s) k) \<le> 1025
    \<and> cn_Pending (st_total s) \<le> 4097 \<and> length (st_pending s) \<le> 4097 \<and> length (st_records s) \<le> 100000"
  using reach_limits_inv [OF assms] counts_occupancy [OF reach_store_inv [OF assms]]
    route_occupancy [OF reach_store_inv [OF assms]] pending_occupancy [OF reach_store_inv [OF assms]]
  by (simp add: limits_inv_def ingressHistoryLimit_def)

theorem reachable_store_bounded_witness:
  "length (get_or [] (st_pendingByRoute ex_store2) ex_chat) \<le> 65 \<and> cn_Pending (st_total ex_store2) = 1"
  using reachable_store_bounded [OF ex_reach(2), of ex_chat] by (simp add: ex_store2_eval)

text \<open>Two retained records never share a platform, account and business identifier: an input is
  held once, whatever the order of acceptances, updates, route changes and pruning.\<close>

theorem reachable_business_unique:
  assumes "ingress_reach n s" and "map_of (st_records s) x = Some r" and "map_of (st_records s) y = Some q"
    and "business_key r = business_key q"
  shows "x = y"
proof -
  have "keys_inv s" using reach_store_inv [OF assms(1)] by (simp add: store_inv_def)
  then have "map_of (st_business s) (business_key q) = Some x" "map_of (st_business s) (business_key q) = Some y"
    using assms(2-4) unfolding keys_inv_def by metis+
  then show ?thesis by simp
qed

theorem reachable_business_unique_witness:
  "map_of (st_records ex_store2) ''A'' = Some (ex_stored1\<lparr>ir_size := 449\<rparr>) \<and> ''A'' = ''A''"
  using reachable_business_unique [OF ex_reach(2), of "''A''" "ex_stored1\<lparr>ir_size := 449\<rparr>" "''A''" "ex_stored1\<lparr>ir_size := 449\<rparr>"]
  by (simp add: ex_store2_eval)

section \<open>Order\<close>

text \<open>The listing of a chat's pending records: the records, each once, by their numbers.\<close>

lemma store_list_pending:
  assumes "store_inv s"
  shows "store_list (Some i) True False s = sort_key (\<lambda>r. (Identity r, ir_Sequence r)) (routePending i s)"
proof -
  have "pending_read i s (routePending i s)" by (rule routePending_read [OF assms])
  then have "filter (\<lambda>r. Identity r = i \<and> \<not> Terminal r) (routePending i s) = routePending i s"
    by (intro filter_True) (auto simp: pending_read_def)
  then show ?thesis by (simp add: store_list_def routePending_def)
qed

lemma set_routePending:
  assumes "store_inv s"
  shows "set (routePending i s) = {r. \<exists>x. map_of (st_records s) x = Some r \<and> \<not> Terminal r \<and> Identity r = i}"
  using routePending_read [OF assms, of i] routePending_complete [OF assms]
  unfolding pending_read_def by blast

text \<open>The dispatcher reads a chat's pending inputs in the order they were accepted: the listing holds
  exactly the chat's pending records, in strictly increasing sequence numbers.\<close>

theorem pending_listing_fifo:
  assumes "ingress_reach n s" and "n < 2 ^ 64"
  shows "set (store_list (Some i) True False s) =
      {r. \<exists>x. map_of (st_records s) x = Some r \<and> \<not> Terminal r \<and> Identity r = i}
    \<and> sorted_wrt (\<lambda>r q. ir_Sequence r < ir_Sequence q) (store_list (Some i) True False s)"
proof -
  have inv: "store_inv s" by (rule reach_store_inv [OF assms(1)])
  have seq: "seq_inv n s" by (rule reach_seq_inv [OF assms])
  let ?out = "store_list (Some i) True False s"
  have set_out: "set ?out = {r. \<exists>x. map_of (st_records s) x = Some r \<and> \<not> Terminal r \<and> Identity r = i}"
    unfolding store_list_pending [OF inv] by (simp add: set_routePending [OF inv])
  have "distinct (map ir_RecordID (routePending i s))"
    using routePending_read [OF inv, of i] by (simp add: pending_read_def)
  then have dist: "distinct ?out" unfolding store_list_pending [OF inv] by (simp add: distinct_map)
  have sorted: "sorted_wrt (\<lambda>r q. (Identity r, ir_Sequence r) \<le> (Identity q, ir_Sequence q)) ?out"
    using sorted_sort_key [of "\<lambda>r. (Identity r, ir_Sequence r)" "routePending i s"]
    unfolding store_list_pending [OF inv] sorted_map .
  have apart: "ir_Sequence r \<noteq> ir_Sequence q" if in_out: "r \<in> set ?out" "q \<in> set ?out" and "r \<noteq> q" for r q
  proof
    assume "ir_Sequence r = ir_Sequence q"
    moreover obtain x y where "map_of (st_records s) x = Some r" "map_of (st_records s) y = Some q" "Identity r = Identity q"
      using in_out set_out by auto
    ultimately have "r = q" using seq_inv_distinct [OF seq] by force
    with \<open>r \<noteq> q\<close> show False by simp
  qed
  have "ir_Sequence (?out ! a) < ir_Sequence (?out ! b)" if "a < b" "b < length ?out" for a b
  proof -
    have mem: "?out ! a \<in> set ?out" "?out ! b \<in> set ?out" using that by simp_all
    have "?out ! a \<noteq> ?out ! b" using dist that by (simp add: nth_eq_iff_index_eq)
    moreover have "(Identity (?out ! a), ir_Sequence (?out ! a)) \<le> (Identity (?out ! b), ir_Sequence (?out ! b))"
      using sorted that by (simp add: sorted_wrt_iff_nth_less)
    moreover have "Identity (?out ! a) = i" "Identity (?out ! b) = i" using mem set_out by auto
    ultimately show ?thesis using apart [OF mem] by (simp add: less_eq_prod_def order_less_le)
  qed
  then have "sorted_wrt (\<lambda>r q. ir_Sequence r < ir_Sequence q) ?out" by (simp add: sorted_wrt_iff_nth_less)
  with set_out show ?thesis by blast
qed

theorem pending_listing_fifo_witness:
  "sorted_wrt (\<lambda>r q. ir_Sequence r < ir_Sequence q) (store_list (Some ex_chat) True False ex_store2)
   \<and> set (store_list (Some ex_chat) True False ex_store2) = {ex_stored1\<lparr>ir_size := 449\<rparr>}"
  using pending_listing_fifo [OF ex_reach(2), of ex_chat]
  by (simp add: store_list_def ex_store2_eval get_or_def ex_stored1_def Identity_def Terminal_def ex_record_def ex_chat_def zero_record_def)

text \<open>A duplicate names a retained record with the same business identifier or, off Telegram, the same semantic one.\<close>

lemma committed_retained:
  assumes "store_inv s" and "find_duplicate s r = Committed old"
  shows "map_of (st_records s) (ir_RecordID old) = Some old
    \<and> (business_key old = business_key r \<or> semantic_key old = semantic_key r \<and> ir_SemanticID r \<noteq> '''' \<and> ir_Platform r \<noteq> ''telegram'')"
proof -
  have keys: "keys_inv s" and ids: "\<And>x q. map_of (st_records s) x = Some q \<Longrightarrow> ir_RecordID q = x"
    using assms(1) by (auto simp: store_inv_def records_inv_def)
  have biz: "map_of (st_records s) x = Some (get_or zero_record (st_records s) x)
      \<and> business_key (get_or zero_record (st_records s) x) = business_key r"
    if "get_or '''' (st_business s) (business_key r) = x" "x \<noteq> ''''" for x
  proof -
    from that have "map_of (st_business s) (business_key r) = Some x" by (auto simp: get_or_def split: option.splits)
    then obtain q where "map_of (st_records s) x = Some q" "business_key q = business_key r"
      using keys unfolding keys_inv_def by blast
    then show ?thesis by (simp add: get_or_def)
  qed
  have sem: "map_of (st_records s) x = Some (get_or zero_record (st_records s) x)
      \<and> semantic_key (get_or zero_record (st_records s) x) = semantic_key r"
    if "get_or '''' (st_semantic s) (semantic_key r) = x" "x \<noteq> ''''" for x
  proof -
    from that have "map_of (st_semantic s) (semantic_key r) = Some x" by (auto simp: get_or_def split: option.splits)
    then obtain q where "map_of (st_records s) x = Some q" "semantic_key q = semantic_key r"
      using keys unfolding keys_inv_def by blast
    then show ?thesis by (simp add: get_or_def)
  qed
  let ?x = "get_or '''' (st_business s) (business_key r)" and ?y = "get_or '''' (st_semantic s) (semantic_key r)"
  consider (business) "?x \<noteq> ''''" "old = get_or zero_record (st_records s) ?x"
    | (semantic) "?y \<noteq> ''''" "old = get_or zero_record (st_records s) ?y" "ir_SemanticID r \<noteq> ''''" "ir_Platform r \<noteq> ''telegram''"
    using assms(2) by (auto simp: find_duplicate_def Let_def split: if_splits)
  then show ?thesis
  proof cases
    case business
    then show ?thesis using biz [OF refl business(1)] ids by metis
  next
    case semantic
    then show ?thesis using sem [OF refl semantic(1)] ids by metis
  qed
qed

text \<open>A newly stored input is numbered above everything retained for its chat.\<close>

theorem accepted_is_last:
  assumes "ingress_reach n s" and "n < 2 ^ 64 - 1" and "fresh_id e s"
    and "rr_RecordID (fst (acceptRecord e r cursor g s)) = ie_recordID e"
  shows "\<exists>q. map_of (st_records (snd (acceptRecord e r cursor g s))) (ie_recordID e) = Some q \<and> Identity q = Identity r
    \<and> (\<forall>y p. map_of (st_records (snd (acceptRecord e r cursor g s))) y = Some p \<longrightarrow> y \<noteq> ie_recordID e
         \<longrightarrow> Identity p = Identity r \<longrightarrow> ir_Sequence p < ir_Sequence q)"
proof -
  let ?p = "pruneHistory (ie_now e) (Identity r) s"
  have inv: "store_inv s" by (rule reach_store_inv [OF assms(1)])
  have seq: "seq_inv n ?p" using reach_seq_inv [OF assms(1)] assms(2) by (intro seq_inv_prune [OF inv]) simp
  have new: "ie_recordID e \<noteq> ''''" "map_of (st_records ?p) (ie_recordID e) = None"
    using fresh_id_prune [OF assms(3)] by (simp_all add: fresh_id_def)
  obtain res s' where eq: "acceptRecord e r cursor g s = (res, s')" by fastforce
  then have id: "rr_RecordID res = ie_recordID e" using assms(4) by simp
  from eq have "\<exists>q. map_of (st_records s') (ie_recordID e) = Some q \<and> Identity q = Identity r
    \<and> (\<forall>y p. map_of (st_records s') y = Some p \<longrightarrow> y \<noteq> ie_recordID e \<longrightarrow> Identity p = Identity r
         \<longrightarrow> ir_Sequence p < ir_Sequence q)"
  proof (cases rule: acceptRecord_cases)
    case (Committed p r2 old)
    have "ir_RecordID old = ie_recordID e" using Committed(6) id by (simp add: duplicate_of_def)
    then have "map_of (st_records p) (ie_recordID e) = Some old"
      using committed_retained [OF store_inv_prune [OF inv], of "ie_now e" "Identity r"] Committed(1,4) by metis
    then show ?thesis using new Committed(1) by simp
  next
    case (Stored p r2 r1 d)
    have n: "Suc n < 2 ^ 64" using assms(2) by simp
    have "map_of (st_records ?p) (ir_RecordID r1) = None" using new Stored(5) by simp
    from seq_inv_accept_stored(2) [OF seq n this] show ?thesis
      using Stored(1,5,6) by (simp add: Stored(8) accept_stored_records Identity_def)
  qed (use id new in \<open>simp_all add: refused_def\<close>)
  with eq show ?thesis by simp
qed

lemma ex_shape: "ie_recordID (ex_env x now) = x" "Identity (ex_record b k v) = ex_chat"
  by (simp_all add: ex_env_def ex_record_def ex_chat_def Identity_def)

theorem accepted_is_last_witness: "\<exists>q. map_of (st_records ex_store2) ''A'' = Some q \<and> Identity q = ex_chat"
proof -
  have "(1::nat) < 2 ^ 64 - 1" by simp
  from accepted_is_last [OF ex_reach(1) this ex_fresh(1) [where t = ex_time], where r = "ex_record ''m1'' KindTask ''r1-rev''"
      and cursor = None and g = False]
  have "\<exists>q. map_of (st_records (snd (acceptRecord (ex_env ''A'' ex_time) (ex_record ''m1'' KindTask ''r1-rev'') None False ex_store1))) ''A''
      = Some q \<and> Identity q = ex_chat"
    unfolding ex_shape by (auto simp: ex_accept2_eval stored_as_def ex_stored1_def)
  then show ?thesis unfolding ex_store2_def .
qed

section \<open>Deduplication, authority and atomicity of acceptance\<close>

text \<open>C2: While a record is retained, an input with its platform, account and business identifier is never accepted
  again and adds no record; off Telegram, and on Telegram when chat, semantic identifier and digest
  agree, a valid one is answered with that record.\<close>

theorem accept_deduplicates:
  assumes "ingress_reach n s"
    and "map_of (st_records (pruneHistory (ie_now e) (Identity r) s)) x = Some old"
    and "business_key old = business_key r"
    and "ir_Platform r \<noteq> ''telegram'' \<or> ir_ChatID old = ir_ChatID r \<and> ir_SemanticID old = ir_SemanticID r
           \<and> (ir_Kind r \<noteq> KindControl \<and> ir_InputDigest old = ir_InputDigest r \<or> ir_Kind r = KindControl \<and> ir_InputDigest old = '''')"
  shows "rr_Disposition (fst (acceptRecord e r cursor g s)) \<noteq> ReceiveAccepted
    \<and> st_records (snd (acceptRecord e r cursor g s))
        \<in> {st_records s, st_records (pruneHistory (ie_now e) (Identity r) s)}
    \<and> (rr_RecordID (fst (acceptRecord e r cursor g s)) \<noteq> '''' \<longrightarrow>
         fst (acceptRecord e r cursor g s) = duplicate_of old \<and> ir_RecordID old = x)"
proof -
  let ?p = "pruneHistory (ie_now e) (Identity r) s"
  have inv: "store_inv ?p" by (rule store_inv_prune [OF reach_store_inv [OF assms(1)]])
  then have keys: "keys_inv ?p" and id: "ir_RecordID old = x"
    using assms(2) by (auto simp: store_inv_def records_inv_def)
  from keys have exact: "\<And>k y. map_of (st_business ?p) k = Some y \<longleftrightarrow> (\<exists>q. map_of (st_records ?p) y = Some q \<and> business_key q = k)"
    and none: "map_of (st_records ?p) '''' = None" unfolding keys_inv_def by blast+
  have biz: "map_of (st_business ?p) (business_key r) = Some x" using assms(2,3) by (auto simp: exact)
  have x: "x \<noteq> ''''" using none assms(2) by auto
  obtain res s' where eq: "acceptRecord e r cursor g s = (res, s')" by fastforce
  have dup: "find_duplicate ?p (telegram_conflict ?p r2) = Committed old" if "accept_prepare e r = Inr r2" for r2
  proof -
    note f = accept_prepare_frame(2-7) [OF that]
    have get: "get_or '''' (st_business ?p) (business_key r2) = x" "get_or zero_record (st_records ?p) x = old"
      using biz assms(2) by (simp_all add: get_or_def f)
    have "ir_InputDigest r2 = (if ir_Kind r = KindControl then '''' else ir_InputDigest r)"
      by (rule accept_prepare_digest [OF that])
    then have same: "ir_Platform r2 \<noteq> ''telegram'' \<or> ir_ChatID old = ir_ChatID r2 \<and> ir_SemanticID old = ir_SemanticID r2
        \<and> ir_InputDigest old = ir_InputDigest r2"
      using assms(4) f(1,3,5) by (cases "ir_Kind r = KindControl") simp_all
    have "telegram_conflict ?p r2 = r2"
    proof (cases "ir_Platform r2 = ''telegram''")
      case True
      with same show ?thesis unfolding telegram_conflict_def get Let_def by simp
    qed (simp add: telegram_conflict_def)
    then show ?thesis using x by (simp add: find_duplicate_def get)
  qed
  from eq have "rr_Disposition res \<noteq> ReceiveAccepted \<and> st_records s' \<in> {st_records s, st_records ?p}
    \<and> (rr_RecordID res \<noteq> '''' \<longrightarrow> res = duplicate_of old \<and> ir_RecordID old = x)"
  proof (cases rule: acceptRecord_cases)
    case (Committed p r2 old')
    then show ?thesis using dup [of r2] id by (simp add: duplicate_of_def)
  next
    case (Stored p r2 r1 d)
    then show ?thesis using dup [of r2] by simp
  qed (auto simp: refused_def)
  with eq show ?thesis by simp
qed

theorem accept_deduplicates_witness:
  "fst (acceptRecord (ex_env ''B'' ex_time) (ex_record ''m1'' KindTask '''') None False ex_store2) =
     duplicate_of (ex_stored1\<lparr>ir_size := 449\<rparr>)
   \<and> st_records (snd (acceptRecord (ex_env ''B'' ex_time) (ex_record ''m1'' KindTask '''') None False ex_store2)) = st_records ex_store2"
proof -
  have prune: "pruneHistory t p ex_store2 = ex_store2" for t p
    by (simp add: pruneHistory_def compact_history_def ex_store2_eval ex_store1_eval NewIngressStore_def)
  have "fst (acceptRecord (ex_env ''B'' ex_time) (ex_record ''m1'' KindTask '''') None False ex_store2) \<noteq> plain_result ReceiveRetryable ''''
    \<and> rr_RecordID (fst (acceptRecord (ex_env ''B'' ex_time) (ex_record ''m1'' KindTask '''') None False ex_store2)) = ''A''"
    by (simp add: pruneHistory_def compact_history_def acceptRecord_def accept_invalid_def accept_locked_def accept_prepare_def accept_received_def accept_stamp_def
        accept_source_def accept_strip_def telegram_conflict_def find_duplicate_def ascii_eval Let_def compositeKey_def join_cons
        ex_env_def ex_record_def zero_record_def ValidateIngressCursor_def store_lock_def zero_state_def
        ex_store2_eval ex_store1_eval NewIngressStore_def get_or_def Identity_def ex_time_def ex_stored1_def plain_result_def)
  moreover have "business_key (ex_stored1\<lparr>ir_size := 449\<rparr>) = business_key (ex_record ''m1'' KindTask '''')"
    "map_of (st_records ex_store2) ''A'' = Some (ex_stored1\<lparr>ir_size := 449\<rparr>)"
    by (simp_all add: ex_stored1_def ex_record_def ex_store2_eval)
  ultimately show ?thesis
    using accept_deduplicates [OF ex_reach(2), where e = "ex_env ''B'' ex_time" and r = "ex_record ''m1'' KindTask ''''" and x = "''A''"
        and old = "ex_stored1\<lparr>ir_size := 449\<rparr>" and cursor = None and g = False]
    by (simp add: prune ex_record_def)
qed

text \<open>What an acceptance never changes of its input: who sent it, where, and on what authority.\<close>

definition same_delivery :: "ingress_record \<Rightarrow> ingress_record \<Rightarrow> bool" where
  "same_delivery r q \<longleftrightarrow> Identity q = Identity r \<and> ir_SenderID q = ir_SenderID r \<and> ir_Kind q = ir_Kind r
     \<and> ir_ControlTarget q = ir_ControlTarget r \<and> ir_RouteRevision q = ir_RouteRevision r
     \<and> ir_AuthorizationDigest q = ir_AuthorizationDigest r \<and> ir_WorkspaceID q = ir_WorkspaceID r \<and> ir_SessionID q = ir_SessionID r"

lemma same_delivery_trans: "same_delivery r q \<Longrightarrow> same_delivery q p \<Longrightarrow> same_delivery r p"
  by (simp add: same_delivery_def)

lemma prepared_delivery: "accept_prepare e r = Inr q \<Longrightarrow> same_delivery r q"
  by (auto simp: accept_prepare_def accept_strip_def accept_source_def accept_stamp_def same_delivery_def Identity_def Let_def
      split: option.splits if_splits)

lemma fresh_delivery: "find_duplicate s (telegram_conflict s r) = Fresh q d \<Longrightarrow> same_delivery r q"
  by (auto simp: find_duplicate_def telegram_conflict_def same_delivery_def Identity_def Let_def split: if_splits)

lemma stored_delivery: "same_delivery r (stored_form jt (r\<lparr>ir_Sequence := n\<rparr>) sz)"
  by (simp add: same_delivery_def stored_form_def Identity_def Let_def)

text \<open>A record accepted as new: what is stored of the input and, for a task, the route it was compared with.\<close>

lemma accepted_record:
  assumes "acceptRecord e r cursor g s = (res, s')" and "rr_Disposition res = ReceiveAccepted"
  shows "\<exists>q. map_of (st_records s') (rr_RecordID res) = Some q \<and> ir_State q = IngressReceived \<and> same_delivery r q
    \<and> (ir_Kind r = KindTask \<longrightarrow> (\<exists>rt. map_of (st_routes s) (Identity r) = Some rt \<and> rt_Phase rt = RouteActive
        \<and> rt_Revision rt = ir_RouteRevision r \<and> rt_AuthorizationDigest rt = ir_AuthorizationDigest r
        \<and> ir_Sequence q = rt_Sequence rt + 1
        \<and> map_of (st_routes s') (Identity r) = Some (rt\<lparr>rt_Sequence := rt_Sequence rt + 1\<rparr>)))"
  using assms(1)
proof (cases rule: acceptRecord_cases)
  case (Stored p r2 r1 d)
  have same: "same_delivery r r1" using same_delivery_trans [OF prepared_delivery [OF Stored(2)] fresh_delivery [OF Stored(4)]] .
  have "ir_State r1 \<noteq> IngressRejected" using assms(2) find_duplicate_fresh(3) [OF Stored(4)]
    by (auto simp: Stored(9) stored_as_def split: if_splits)
  then have recv: "ir_State r1 = IngressReceived" using Stored(7) by (simp add: admitted_def)
  let ?rt = "accept_route e p r1"
  have id: "Identity r1 = Identity r" using same by (simp add: same_delivery_def)
  have route: "map_of (st_routes s') (Identity r) = Some (?rt\<lparr>rt_Sequence := rt_Sequence ?rt + 1\<rparr>)"
    using Stored(6) unfolding Stored(8) by (simp add: accept_stored_def Let_def signal_def Identity_def index_keys_def)
  have auth: "rt_Phase ?rt = RouteActive \<and> rt_Revision ?rt = ir_RouteRevision r \<and> rt_AuthorizationDigest ?rt = ir_AuthorizationDigest r"
    if "ir_Kind r = KindTask" using Stored(7) recv that same by (simp add: admitted_def same_delivery_def)
  have known: "map_of (st_routes s) (Identity r) = Some ?rt" if "rt_Phase ?rt = RouteActive"
    using that prune_keeps_route [of "ie_now e" "Identity r" s] Stored(1) id
    by (auto simp: accept_route_def split: option.splits)
  let ?q = "stored_form (ie_jsonTime e) (r1\<lparr>ir_Sequence := rt_Sequence ?rt + 1\<rparr>)
      (recordSize (ie_jsonTime e) (r1\<lparr>ir_Sequence := rt_Sequence ?rt + 1\<rparr>))"
  have "map_of (st_records s') (rr_RecordID res) = Some ?q"
    by (simp add: Stored(8,9) accept_stored_records stored_as_def)
  moreover have "same_delivery r ?q" by (rule same_delivery_trans [OF same stored_delivery])
  moreover have "ir_State ?q = IngressReceived" "ir_Sequence ?q = rt_Sequence ?rt + 1" using recv by simp_all
  ultimately show ?thesis using route auth known by (intro exI [of _ ?q]) simp
qed (use assms(2) in \<open>auto simp: refused_def duplicate_of_def\<close>)

text \<open>C8: A task is only accepted on the authority it was checked against: the chat has an active route whose
  revision and authorization digest are those the input names, and the record is stored for that route under the
  input's own revision, digest, sender, workspace and session, with the route's next number.\<close>

theorem accepted_task_authorized:
  assumes "acceptRecord e r cursor g s = (res, s')" and "rr_Disposition res = ReceiveAccepted" and "ir_Kind r = KindTask"
  shows "\<exists>rt q. map_of (st_routes s) (Identity r) = Some rt \<and> rt_Phase rt = RouteActive
    \<and> rt_Revision rt = ir_RouteRevision r \<and> rt_AuthorizationDigest rt = ir_AuthorizationDigest r
    \<and> map_of (st_routes s') (Identity r) = Some (rt\<lparr>rt_Sequence := rt_Sequence rt + 1\<rparr>)
    \<and> map_of (st_records s') (rr_RecordID res) = Some q \<and> ir_State q = IngressReceived \<and> ir_Kind q = KindTask
    \<and> Identity q = Identity r \<and> ir_SenderID q = ir_SenderID r \<and> ir_Sequence q = rt_Sequence rt + 1
    \<and> ir_RouteRevision q = ir_RouteRevision r \<and> ir_AuthorizationDigest q = ir_AuthorizationDigest r
    \<and> ir_WorkspaceID q = ir_WorkspaceID r \<and> ir_SessionID q = ir_SessionID r"
  using accepted_record [OF assms(1,2)] assms(3) by (auto simp: same_delivery_def)

theorem accepted_task_authorized_witness:
  "(\<exists>rt. map_of (st_routes ex_store1) ex_chat = Some rt \<and> rt_Revision rt = ''r1-rev'' \<and> rt_AuthorizationDigest rt = ''auth'')
    \<and> (\<exists>q. map_of (st_records ex_store2) ''A'' = Some q \<and> ir_RouteRevision q = ''r1-rev'')"
proof -
  have r: "ir_Kind (ex_record ''m1'' KindTask ''r1-rev'') = KindTask" "ir_RouteRevision (ex_record ''m1'' KindTask ''r1-rev'') = ''r1-rev''"
    "ir_AuthorizationDigest (ex_record ''m1'' KindTask ''r1-rev'') = ''auth''" by (simp_all add: ex_record_def zero_record_def)
  have "rr_Disposition (stored_as ex_stored1 ReceiveAccepted) = ReceiveAccepted" "rr_RecordID (stored_as ex_stored1 ReceiveAccepted) = ''A''"
    by (simp_all add: stored_as_def ex_stored1_def)
  with accepted_task_authorized [OF ex_accept2_eval _ r(1)] show ?thesis unfolding r ex_shape ex_store2_eval by auto
qed

text \<open>Progress and record commit together: a polling cursor moves only in a call that also names a retained
  record for its input, only to the submitted value, one generation up, and never on a retryable outcome.\<close>

theorem accept_cursor_atomic:
  assumes "store_inv s" and "acceptRecord e r cursor g s = (res, s')"
  shows "st_cursors s' = st_cursors s
    \<or> (\<exists>c. cursor = Some c \<and> st_cursors s' = AList.update (account_key r) c (st_cursors s)
        \<and> ic_Generation c = ic_Generation (get_or zero_cursor (st_cursors s) (account_key r)) + 1
        \<and> map_of (st_records s') (rr_RecordID res) \<noteq> None
        \<and> rr_Disposition res \<in> {ReceiveAccepted, ReceiveDuplicate, ReceiveRejected})"
proof -
  have moved: "ic_Generation c = ic_Generation (get_or zero_cursor (st_cursors s) (account_key r)) + 1"
    if "cursor = Some c" "\<not> cursor_conflict r2 cursor p" "accept_prepare e r = Inr r2" "st_cursors p = st_cursors s" for c p r2
  proof -
    note f = accept_prepare_frame(2,3) [OF that(3)]
    have "checkCursor (st_cursors s) (ir_Platform r) (ir_AccountID r) (ic_Generation c - 1) c = None"
      using that f by (simp add: cursor_conflict_def)
    from checkCursor_generation(2) [OF this] show ?thesis by simp
  qed
  from assms(2) show ?thesis
  proof (cases rule: acceptRecord_cases)
    case (Committed p r2 old)
    note f = accept_prepare_frame(2,3) [OF Committed(2)]
    have cur: "st_cursors p = st_cursors s" using Committed(1) by simp
    have "map_of (st_records p) (ir_RecordID old) = Some old"
      using committed_retained [OF _ Committed(4)] store_inv_prune [OF assms(1)] Committed(1) by blast
    then show ?thesis
      using moved [OF _ Committed(3,2) cur] f cur
      by (cases cursor) (simp_all add: Committed(5,6) commit_cursor_def duplicate_of_def)
  next
    case (Stored p r2 r1 d)
    have cur: "st_cursors p = st_cursors s" using Stored(1) by simp
    have key: "account_key r1 = account_key r" using Stored(6) by (simp add: Identity_def)
    have disp: "rr_Disposition res \<in> {ReceiveAccepted, ReceiveDuplicate, ReceiveRejected}"
      using find_duplicate_fresh(3) [OF Stored(4)] by (auto simp: Stored(9) stored_as_def)
    have "map_of (st_records s') (rr_RecordID res) \<noteq> None"
      by (simp add: Stored(8,9) accept_stored_records stored_as_def)
    then show ?thesis
      using moved [OF _ Stored(3,2) cur] key cur disp
      by (cases cursor) (simp_all add: Stored(8) accept_stored_def commit_cursor_def signal_def Let_def)
  qed simp_all
qed

definition ex_wechat_cursor :: ingress_cursor where
  "ex_wechat_cursor = \<lparr>ic_Kind = ''wechat'', ic_Version = 1, ic_Generation = 1, ic_Telegram = None,
     ic_Wechat = Some \<lparr>wc_AccountID = ''W1'', wc_Buf = '''', wc_BatchVersion = 1\<rparr>\<rparr>"

definition ex_wechat_record :: ingress_record where
  "ex_wechat_record = (ex_record ''m9'' KindControl '''')\<lparr>ir_Platform := ''wechat'', ir_AccountID := ''W1''\<rparr>"

lemma ex_wechat_cursor_moves:
  "map_of (st_cursors (snd (acceptRecord ((ex_env ''C'' ex_time)\<lparr>ie_jsonTime := (\<lambda>_. None)\<rparr>) ex_wechat_record (Some ex_wechat_cursor) False
     NewIngressStore))) ''wechat|W1'' = Some ex_wechat_cursor"
  by (simp add: ex_wechat_record_def ex_wechat_cursor_def store_eval accept_eval ex_time_def recordSize_def validate_wechat_def
      checkCursor_def zero_cursor_def CloneIngressCursor_def)

theorem accept_cursor_atomic_witness:
  "\<exists>c. st_cursors (snd (acceptRecord ((ex_env ''C'' ex_time)\<lparr>ie_jsonTime := (\<lambda>_. None)\<rparr>) ex_wechat_record (Some ex_wechat_cursor) False
     NewIngressStore)) = [(''wechat|W1'', c)]"
proof -
  obtain res s' where eq: "acceptRecord ((ex_env ''C'' ex_time)\<lparr>ie_jsonTime := (\<lambda>_. None)\<rparr>) ex_wechat_record (Some ex_wechat_cursor) False
     NewIngressStore = (res, s')" by fastforce
  have "st_cursors s' \<noteq> []" using ex_wechat_cursor_moves by (auto simp: eq)
  moreover have "account_key ex_wechat_record = ''wechat|W1''" "st_cursors NewIngressStore = []"
    by (simp_all add: NewIngressStore_def ex_wechat_record_def compositeKey_def join_cons)
  ultimately show ?thesis using accept_cursor_atomic [OF store_inv_empty eq] unfolding eq by auto
qed

text \<open>A refused or retryable acceptance leaves no trace but the expiry of old history and the metric: every
  record, route, key and cursor is that of the store, pruned or not.\<close>

theorem refusal_commits_nothing:
  assumes "acceptRecord e r cursor g s = (res, s')" and "rr_RecordID res = ''''" and "store_inv s" and "fresh_id e s"
  shows "s' = observeAcceptance (ir_Platform r) res s
    \<or> s' = observeAcceptance (ir_Platform r) res (pruneHistory (ie_now e) (Identity r) s)"
  using assms(1)
proof (cases rule: acceptRecord_cases)
  case (Committed p r2 old)
  have inv: "store_inv p" using store_inv_prune [OF assms(3)] Committed(1) by simp
  have "map_of (st_records p) '''' = Some old"
    using committed_retained [OF inv Committed(4)] assms(2) Committed(6) by (simp add: duplicate_of_def)
  then show ?thesis using inv by (simp add: store_inv_def keys_inv_def)
next
  case (Stored p r2 r1 d)
  then show ?thesis using assms(2,4) by (simp add: stored_as_def fresh_id_def)
qed simp_all

theorem refusal_commits_nothing_witness:
  "snd (acceptRecord (ex_env ''B'' ex_time) (ex_record ''m2'' KindTask ''stale'') None True (store_Close ex_store2)) \<noteq> ex_store2"
proof -
  have closed: "acceptRecord (ex_env ''B'' ex_time) (ex_record ''m2'' KindTask ''stale'') None True (store_Close ex_store2)
      = (plain_result ReceiveRetryable ''ingress_unavailable'',
         observeAcceptance ''slack'' (plain_result ReceiveRetryable ''ingress_unavailable'') (store_Close ex_store2))"
    by (simp add: acceptRecord_def accept_invalid_def ascii_eval ex_env_def ex_record_def zero_record_def ValidateIngressCursor_def
        store_lock_def store_Close_def)
  have "fresh_id (ex_env ''B'' ex_time) (store_Close ex_store2)" by (simp add: fresh_id_def store_Close_def ex_env_def)
  from refusal_commits_nothing [OF closed _ store_inv_Close [OF reach_store_inv [OF ex_reach(2)]] this] show ?thesis
    unfolding closed by (auto simp: plain_result_def observeAcceptance_def store_Close_def ex_store2_eval ex_store1_eval NewIngressStore_def
        pruneHistory_def compact_history_def Let_def)
qed

section \<open>Route changes, retention and memory\<close>

lemma quarantine_fold_record:
  assumes "map_of (st_records (fold (quarantine_changed e) rs s)) x = Some q" and "distinct (map ir_RecordID rs)"
    and "\<forall>r\<in>set rs. map_of (st_records s) (ir_RecordID r) = Some r"
  shows "if \<exists>r\<in>set rs. ir_RecordID r = x then ir_State q \<noteq> IngressReceived \<and> (\<exists>r\<in>set rs. ir_RecordID r = x \<and> (ir_State q = ir_State r \<or> ir_State q = IngressQuarantined))
     else map_of (st_records s) x = Some q"
  using assms
proof (induction rs arbitrary: s)
  case (Cons r rs)
  let ?s = "quarantine_changed e r s"
  have apart: "ir_RecordID r \<notin> ir_RecordID ` set rs" using Cons.prems(2) by simp
  have kept: "\<forall>r'\<in>set rs. map_of (st_records ?s) (ir_RecordID r') = Some r'"
  proof
    fix r' assume r': "r' \<in> set rs"
    then have "ir_RecordID r' \<noteq> ir_RecordID r" using apart by (metis imageI)
    then show "map_of (st_records ?s) (ir_RecordID r') = Some r'"
      using Cons.prems(3) r' by (simp add: quarantine_changed_frame)
  qed
  have IH: "if \<exists>r\<in>set rs. ir_RecordID r = x then ir_State q \<noteq> IngressReceived \<and> (\<exists>r\<in>set rs. ir_RecordID r = x \<and> (ir_State q = ir_State r \<or> ir_State q = IngressQuarantined))
     else map_of (st_records ?s) x = Some q"
    by (rule Cons.IH) (use Cons.prems kept in simp_all)
  show ?case
  proof (cases "\<exists>r\<in>set rs. ir_RecordID r = x")
    case True
    then show ?thesis using IH by auto
  next
    case False
    then have q: "map_of (st_records ?s) x = Some q" using IH by simp
    show ?thesis
    proof (cases "ir_RecordID r = x")
      case True
      have "map_of (st_records s) x = Some r" using Cons.prems(3) True by simp
      then have "ir_State q \<noteq> IngressReceived \<and> (ir_State q = ir_State r \<or> ir_State q = IngressQuarantined)"
        using q True by (auto simp: quarantine_changed_def save_records split: if_splits)
      then show ?thesis using True by auto
    next
      case False
      then show ?thesis using q \<open>\<not> (\<exists>r\<in>set rs. ir_RecordID r = x)\<close> by (simp add: quarantine_changed_frame)
    qed
  qed
qed simp

text \<open>C9: A route that changes leaves nothing deliverable behind: when \<open>EnsureRoute\<close> installs another route for a chat,
  no retained record of the chat is received, dispatching or of unknown outcome; when one is in flight it
  refuses instead and keeps every record and the route.\<close>

theorem EnsureRoute_fences:
  assumes "store_inv s"
  shows "case EnsureRoute e i digest workspace session s of
      (Inr rt, s') \<Rightarrow> map_of (st_routes s') i = Some rt \<and> rt_Phase rt = RouteActive \<and> rt_AuthorizationDigest rt = digest
        \<and> rt_WorkspaceID rt = workspace \<and> rt_SessionID rt = session
        \<and> (map_of (st_routes s) i \<noteq> Some rt \<longrightarrow>
             (\<forall>x q. map_of (st_records s') x = Some q \<longrightarrow> Identity q = i \<longrightarrow>
                ir_State q \<notin> {IngressReceived, IngressDispatching, IngressUnknown}))
    | (Inl err, s') \<Rightarrow> map_of (st_routes s') i = map_of (st_routes s) i
        \<and> (\<forall>x q. map_of (st_records s) x = Some q \<longrightarrow> \<not> Terminal q \<longrightarrow> map_of (st_records s') x = Some q)
        \<and> (err = ErrIngressBlocked \<longrightarrow> (\<exists>x q. map_of (st_records s) x = Some q \<and> Identity q = i \<and> in_flight q))"
proof -
  let ?p = "pruneHistory (ie_now e) i s"
  let ?old = "get_or zero_route (st_routes ?p) i"
  let ?f = "fold (quarantine_changed e) (routePending i ?p) ?p"
  let ?rt = "?old\<lparr>rt_Identity := i, rt_Revision := ie_revision e, rt_AuthorizationDigest := digest, rt_WorkspaceID := workspace,
      rt_SessionID := session, rt_Phase := RouteActive\<rparr>"
  let ?same = "rt_Phase ?old = RouteActive \<and> rt_AuthorizationDigest ?old = digest \<and> rt_WorkspaceID ?old = workspace \<and> rt_SessionID ?old = session"
  have p: "store_inv ?p" by (rule store_inv_prune [OF assms])
  have keep: "map_of (st_routes ?p) i = map_of (st_routes s) i" by (rule prune_keeps_route)
  have pending: "map_of (st_records ?p) x = Some q" if "map_of (st_records s) x = Some q" "\<not> Terminal q" for x q
    by (rule prune_keeps_pending [OF assms that])
  consider (locked) err where "store_lock e s = Some err" "err \<noteq> ErrIngressBlocked"
    | (same) "store_lock e s = None" ?same
    | (blocked) "store_lock e s = None" "\<not> ?same" "\<exists>r\<in>set (routePending i ?p). in_flight r"
    | (changed) "store_lock e s = None" "\<not> ?same" "\<forall>r\<in>set (routePending i ?p). \<not> in_flight r"
    by (cases "store_lock e s") (auto simp: store_lock_def split: if_splits)
  then show ?thesis
  proof cases
    case locked
    then show ?thesis by (simp add: EnsureRoute_def)
  next
    case same
    have "map_of (st_routes s) i = Some ?old"
      using same(2) unfolding keep [symmetric] by (auto simp: get_or_def zero_route_def split: option.splits)
    then show ?thesis using same keep by (simp add: EnsureRoute_def Let_def)
  next
    case blocked
    then obtain q where q: "q \<in> set (routePending i ?p)" "in_flight q" by blast
    then have "map_of (st_records s) (ir_RecordID q) = Some q" "Identity q = i"
      using routePending_read [OF p, of i] prune_records_subset unfolding pending_read_def by blast+
    moreover have "EnsureRoute e i digest workspace session s = (Inl ErrIngressBlocked, ?p)"
      using blocked by (auto simp: EnsureRoute_def Let_def)
    ultimately show ?thesis using q keep pending by auto
  next
    case changed
    have eq: "EnsureRoute e i digest workspace session s = (Inr ?rt, ?f\<lparr>st_routes := AList.update i ?rt (st_routes ?f)\<rparr>)"
      using changed by (auto simp: EnsureRoute_def Let_def)
    have settled: "ir_State q \<notin> {IngressReceived, IngressDispatching, IngressUnknown}"
      if "map_of (st_records ?f) x = Some q" "Identity q = i" for x q
    proof (cases "\<exists>r\<in>set (routePending i ?p). ir_RecordID r = x")
      case True
      then show ?thesis
        using quarantine_fold_record [OF that(1)] routePending_read [OF p, of i] changed(3)
        by (auto simp: pending_read_def in_flight_def)
    next
      case False
      then have "map_of (st_records ?p) x = Some q"
        using quarantine_fold_record [OF that(1)] routePending_read [OF p, of i] by (auto simp: pending_read_def)
      moreover have "q \<notin> set (routePending i ?p)"
        using False \<open>map_of (st_records ?p) x = Some q\<close> p by (auto simp: store_inv_def records_inv_def)
      ultimately have "Terminal q" using routePending_complete [OF p] that(2) by blast
      then show ?thesis by (auto simp: Terminal_def)
    qed
    show ?thesis unfolding eq using settled by simp
  qed
qed

theorem EnsureRoute_fences_witness:
  "fst (EnsureRoute (ex_env ''r2'' ex_time) ex_chat ''auth2'' ''ws'' ''sess'' ex_store2) \<noteq> Inl ErrIngressBlocked"
proof
  assume blocked: "fst (EnsureRoute (ex_env ''r2'' ex_time) ex_chat ''auth2'' ''ws'' ''sess'' ex_store2) = Inl ErrIngressBlocked"
  then obtain t where "EnsureRoute (ex_env ''r2'' ex_time) ex_chat ''auth2'' ''ws'' ''sess'' ex_store2 = (Inl ErrIngressBlocked, t)"
    by (metis prod.collapse)
  then show False
    using EnsureRoute_fences [OF reach_store_inv [OF ex_reach(2)], where e = "ex_env ''r2'' ex_time" and i = ex_chat
        and digest = "''auth2''" and workspace = "''ws''" and session = "''sess''"]
    by (auto simp: ex_store2_eval in_flight_def ex_stored1_def split: if_splits)
qed

text \<open>Deduplication is never forgotten early and never kept late: pruning keeps every pending record and every
  terminal one whose history entry has not expired, and stops only at an unexpired entry or an empty history.\<close>

theorem pruning_window:
  assumes "store_inv s" and "map_of (st_records s) x = Some r"
    and "\<not> Terminal r \<or> (\<exists>expires. (x, expires) \<in> set (drop (st_historyHead s) (st_history s)) \<and> now < expires)"
  shows "map_of (st_records (pruneHistory now p s)) x = Some r"
proof (cases "Terminal r")
  case False
  then show ?thesis using prune_keeps_pending [OF assms(1,2)] by blast
next
  case True
  then obtain ex where ex: "(x, ex) \<in> set (drop (st_historyHead s) (st_history s))" "now < ex" using assms(3) by blast
  let ?P = "\<lambda>t. store_inv t \<and> map_of (st_records t) x = Some r \<and> (x, ex) \<in> set (drop (st_historyHead t) (st_history t))"
  have "?P (prune_loop n now p s)" for n
  proof (rule prune_loop_rule [where P = ?P])
    show "?P s" using assms(1,2) ex(1) by blast
  next
    fix t y e q
    assume t: "?P t" and head: "st_historyHead t < length (st_history t)"
      and entry: "st_history t ! st_historyHead t = (y, e)" and q: "map_of (st_records t) y = Some q" and due: "\<not> now < e"
    have drop: "drop (st_historyHead t) (st_history t) = (y, e) # drop (st_historyHead t + 1) (st_history t)"
      using head entry by (simp add: Cons_nth_drop_Suc [symmetric])
    have "x \<in> set (map fst (drop (st_historyHead t + 1) (st_history t)))" using t due ex(2) unfolding drop by force
    moreover have "distinct (map fst ((y, e) # drop (st_historyHead t + 1) (st_history t)))"
      using t unfolding drop [symmetric] by (simp add: store_inv_def history_inv_def live_history_def)
    ultimately have "y \<noteq> x" by auto
    then show "?P (prune_record p y q (t\<lparr>st_historyHead := st_historyHead t + 1\<rparr>))"
      using t store_inv_prune_record [OF _ head entry q, of p] due ex(2) unfolding drop by (auto simp: prune_record_effect)
  qed (auto dest: store_inv_head_skip)
  then show ?thesis by (simp add: pruneHistory_def)
qed

theorem pruning_window_witness: "map_of (st_records (pruneHistory (ex_time + 48 * hour) ex_chat ex_store2)) ''A'' \<noteq> None"
  using pruning_window [OF reach_store_inv [OF ex_reach(2)], of "''A''" "ex_stored1\<lparr>ir_size := 449\<rparr>" "ex_time + 48 * hour" ex_chat]
  by (simp add: ex_store2_eval ex_stored1_def Terminal_def)

text \<open>Pruning ends with nothing expired left: no retained terminal record precedes the first live history entry, and
  that entry is unexpired.\<close>

theorem pruning_complete:
  assumes "store_inv s"
  shows "live_history (pruneHistory now p s) = []
    \<or> now < snd (st_history (pruneHistory now p s) ! st_historyHead (pruneHistory now p s))"
proof -
  have loop: "store_inv s \<Longrightarrow> length (st_history s) - st_historyHead s \<le> n \<Longrightarrow>
      st_historyHead (prune_loop n now p s) < length (st_history (prune_loop n now p s)) \<Longrightarrow>
      now < snd (st_history (prune_loop n now p s) ! st_historyHead (prune_loop n now p s))" for n
  proof (induction n arbitrary: s)
    case (Suc n)
    obtain x e where entry: "st_history s ! st_historyHead s = (x, e)" by fastforce
    show ?case
    proof (cases "st_historyHead s < length (st_history s)")
      case True
      then obtain q where q: "map_of (st_records s) x = Some q"
        using store_inv_head_skip [OF Suc.prems(1) True entry] by blast
      show ?thesis
      proof (cases "now < e")
        case True
        then show ?thesis using Suc.prems(3) q entry by (simp split: if_splits)
      next
        case False
        then show ?thesis
          using Suc.IH [OF store_inv_prune_record [OF Suc.prems(1) \<open>st_historyHead s < _\<close> entry q]] Suc.prems True q entry
          by simp
      qed
    qed (use Suc.prems in simp)
  qed simp
  let ?t = "prune_loop (length (st_history s) - st_historyHead s) now p s"
  have t: "st_historyHead ?t < length (st_history ?t) \<Longrightarrow> now < snd (st_history ?t ! st_historyHead ?t)"
    by (rule loop [OF assms order_refl])
  show ?thesis
    unfolding pruneHistory_def using t
    by (cases "st_historyHead ?t < length (st_history ?t)")
       (auto simp: compact_history_def live_history_def)
qed

theorem pruning_complete_witness: "live_history (pruneHistory ex_time ex_chat ex_store2) = []
    \<or> ex_time < snd (st_history (pruneHistory ex_time ex_chat ex_store2) ! st_historyHead (pruneHistory ex_time ex_chat ex_store2))"
  by (rule pruning_complete [OF reach_store_inv [OF ex_reach(2)]])

lemma rejected_without_text:
  assumes "accept_prepare e r0 = Inr r" and "find_duplicate s (telegram_conflict s r) = Fresh r1 d"
    and "ir_State r1 = IngressRejected"
  shows "ir_Text r1 = ''''"
proof -
  obtain at where r: "r = accept_strip (accept_source (ie_now e) (accept_stamp e at r0))"
    by (rule accept_prepare_Inr [OF assms(1)])
  have "ir_State r = IngressRejected \<longrightarrow> ir_Text r = ''''" unfolding r by (simp add: accept_strip_def Let_def)
  then have "ir_State (telegram_conflict s r) = IngressRejected \<longrightarrow> ir_Text (telegram_conflict s r) = ''''"
    by (simp add: telegram_conflict_def Let_def)
  then show ?thesis using find_duplicate_fresh(2) [OF assms(2)] assms(3) by auto
qed

lemma uint_size: "0 \<le> z \<Longrightarrow> uint (word_of_int z :: 32 word) \<le> z"
  by (simp add: uint_word_of_int zmod_le_nonneg_dividend)

text \<open>What an acceptance stores is within the byte budget: after it the encoded records take at most 64 MiB, and
  when the record is pending the account's pending records at most 16 MiB.\<close>

theorem stored_within_budget:
  assumes "store_inv s" and "fresh_id e s" and "acceptRecord e r cursor g s = (res, s')" and "rr_RecordID res = ie_recordID e"
  shows "st_memoryBytes s' \<le> 64 * 1024 * 1024
    \<and> (rr_State res = IngressReceived \<longrightarrow> cn_Bytes (get_or zero_counts (st_counts s') (account_key r)) \<le> 16 * 1024 * 1024)"
proof -
  have new: "ie_recordID e \<noteq> ''''" "map_of (st_records (pruneHistory (ie_now e) (Identity r) s)) (ie_recordID e) = None"
    using fresh_id_prune [OF assms(2)] by (simp_all add: fresh_id_def)
  have inv': "store_inv s'" using store_inv_acceptRecord [OF assms(1,2), of r cursor g] assms(3) by simp
  from assms(3) show ?thesis
  proof (cases rule: acceptRecord_cases)
    case (Committed p r2 old)
    have "ir_RecordID old = ie_recordID e" using Committed(6) assms(4) by (simp add: duplicate_of_def)
    then show ?thesis
      using committed_retained [OF store_inv_prune [OF assms(1)], of "ie_now e" "Identity r"] Committed(1,4) new by fastforce
  next
    case (Stored p r2 r1 d)
    let ?r = "r1\<lparr>ir_Sequence := rt_Sequence (accept_route e p r1) + 1\<rparr>"
    let ?sz = "recordSize (ie_jsonTime e) ?r"
    have p: "store_inv p" using store_inv_prune [OF assms(1)] Stored(1) by simp
    have acct: "account_key r1 = account_key r" using Stored(6) by (simp add: Identity_def)
    have recs: "st_records s' = AList.update (ie_recordID e) (stored_form (ie_jsonTime e) ?r ?sz) (st_records p)"
      by (simp add: Stored(8) accept_stored_records Stored(5))
    have "Terminal r1 \<longrightarrow> ir_Text r1 = ''''"
      using rejected_without_text [OF Stored(2,4)] Stored(7) by (auto simp: admitted_def Terminal_def)
    moreover have tr: "Terminal ?r = Terminal r1" by (simp add: Terminal_def)
    moreover have "\<not> ?sz < 0" using recordSize_nonneg by (simp add: not_less)
    ultimately have "ir_size (stored_form (ie_jsonTime e) ?r ?sz) = word_of_int ?sz"
      by (auto simp: stored_form_def Let_def)
    then have size: "uint (ir_size (stored_form (ie_jsonTime e) ?r ?sz)) \<le> ?sz"
      by (simp add: uint_size)
    have room: "st_memoryBytes p + ?sz \<le> 67108864"
      "\<not> Terminal r1 \<Longrightarrow> cn_Bytes (get_or zero_counts (st_counts p) (account_key r)) + ?sz \<le> 16777216"
      using Stored(7) acct by (auto simp: admitted_def over_capacity_def Let_def Terminal_def not_less)
    have fresh: "map_of (st_records p) (ie_recordID e) = None" using new Stored(1) by simp
    have "st_memoryBytes s' = st_memoryBytes p + uint (ir_size (stored_form (ie_jsonTime e) ?r ?sz))"
      using p inv' fresh by (simp add: store_inv_def counts_inv_def recs gsum_update memory_of_def)
    moreover have "cn_Bytes (get_or zero_counts (st_counts s') (account_key r)) =
        cn_Bytes (get_or zero_counts (st_counts p) (account_key r)) + bytes_of (stored_form (ie_jsonTime e) ?r ?sz)"
      using p inv' fresh acct by (simp add: store_inv_def counts_inv_def recs gsum_update sum_counts_def for_account_def)
    moreover have "rr_State res = IngressReceived \<longrightarrow> \<not> Terminal r1"
      by (simp add: Stored(9) stored_as_def Terminal_def)
    ultimately show ?thesis using room size tr by (auto simp: bytes_of_def)
  qed (use assms(4) new in \<open>simp_all add: refused_def\<close>)
qed

theorem stored_within_budget_witness: "st_memoryBytes ex_store2 \<le> 64 * 1024 * 1024"
  using stored_within_budget [OF reach_store_inv [OF ex_reach(1)] ex_fresh(1) ex_accept2_eval]
  by (simp add: stored_as_def ex_stored1_def ex_shape ex_store2_eval)

end
