(* ===== verification/Utf8.thy ===== *)
theory Utf8
  imports GoStrings
begin

text \<open>
  What cutting a valid UTF-8 string at a rune boundary gives: two valid strings whose runes
  are those of the whole. The byte before which a cut may go is one for which
  \<open>utf8.RuneStart\<close> holds, which is how the text splitter finds it.
\<close>

section \<open>The shape of a valid rune\<close>

definition second_ok :: "char \<Rightarrow> char \<Rightarrow> bool" where
  "second_ok c d \<longleftrightarrow> second_lo (byte_of c) \<le> byte_of d \<and> byte_of d \<le> second_hi (byte_of c)"

definition rune_shape :: "string \<Rightarrow> nat \<Rightarrow> bool" where
  "rune_shape s n \<longleftrightarrow>
     (n = 1 \<and> s \<noteq> [] \<and> byte_of (s ! 0) < 128)
     \<or> (n = 2 \<and> 2 \<le> length s \<and> 194 \<le> byte_of (s ! 0) \<and> byte_of (s ! 0) \<le> 223 \<and> cont_byte (s ! 1))
     \<or> (n = 3 \<and> 3 \<le> length s \<and> 224 \<le> byte_of (s ! 0) \<and> byte_of (s ! 0) \<le> 239 \<and> second_ok (s ! 0) (s ! 1) \<and> cont_byte (s ! 2))
     \<or> (n = 4 \<and> 4 \<le> length s \<and> 240 \<le> byte_of (s ! 0) \<and> byte_of (s ! 0) \<le> 244 \<and> second_ok (s ! 0) (s ! 1) \<and> cont_byte (s ! 2)
          \<and> cont_byte (s ! 3))"

lemma shape_of_decode:
  assumes "s \<noteq> []" and "\<not> (fst (decode_rune s) = rune_error \<and> rune_width s = 1)"
  shows "rune_shape s (rune_width s)"
proof -
  obtain c u where s: "s = c # u" using assms(1) by (cases s) auto
  show ?thesis
  proof (cases "byte_of c < 128")
    case True
    then show ?thesis by (simp add: s rune_width_def rune_shape_def Let_def)
  next
    case False
    then obtain c1 u1 where u: "u = c1 # u1" using assms(2) by (cases u) (auto simp: s rune_width_def Let_def)
    show ?thesis
    proof (cases "194 \<le> byte_of c \<and> byte_of c \<le> 223")
      case True
      then show ?thesis using assms(2) False
        by (auto simp: s u rune_width_def rune_shape_def Let_def split: if_splits)
    next
      case no2: False
      then obtain c2 u2 where u1: "u1 = c2 # u2"
        using assms(2) False by (cases u1) (auto simp: s u rune_width_def Let_def split: if_splits)
      show ?thesis
      proof (cases "224 \<le> byte_of c \<and> byte_of c \<le> 239")
        case True
        then show ?thesis using assms(2) False no2
          by (auto simp: s u u1 rune_width_def rune_shape_def second_ok_def Let_def split: if_splits)
      next
        case no3: False
        then obtain c3 u3 where u2: "u2 = c3 # u3"
          using assms(2) False no2 by (cases u2) (auto simp: s u u1 rune_width_def Let_def split: if_splits)
        show ?thesis using assms(2) False no2 no3
          by (auto simp: s u u1 u2 rune_width_def rune_shape_def second_ok_def Let_def split: if_splits)
      qed
    qed
  qed
qed

lemma list_cut4: "4 \<le> length s \<Longrightarrow> s = s ! 0 # s ! 1 # s ! 2 # s ! 3 # drop 4 s"
  by (cases s; cases "tl s"; cases "tl (tl s)"; cases "tl (tl (tl s))") auto

lemma list_cut3: "3 \<le> length s \<Longrightarrow> s = s ! 0 # s ! 1 # s ! 2 # drop 3 s"
  by (cases s; cases "tl s"; cases "tl (tl s)") auto

lemma list_cut2: "2 \<le> length s \<Longrightarrow> s = s ! 0 # s ! 1 # drop 2 s"
  by (cases s; cases "tl s") auto

definition rune_of :: "string \<Rightarrow> nat \<Rightarrow> nat" where
  "rune_of s n =
     (if n = 1 then byte_of (s ! 0)
      else if n = 2 then (byte_of (s ! 0) - 192) * 64 + (byte_of (s ! 1) - 128)
      else if n = 3 then (byte_of (s ! 0) - 224) * 4096 + (byte_of (s ! 1) - 128) * 64 + (byte_of (s ! 2) - 128)
      else (byte_of (s ! 0) - 240) * 262144 + (byte_of (s ! 1) - 128) * 4096 + (byte_of (s ! 2) - 128) * 64 + (byte_of (s ! 3) - 128))"

lemma decode_of_shape:
  assumes "rune_shape s n"
  shows "decode_rune s = (rune_of s n, n)"
proof -
  from assms consider (one) "n = 1" "s \<noteq> []" "byte_of (s ! 0) < 128"
    | (two) "n = 2" "2 \<le> length s" "194 \<le> byte_of (s ! 0)" "byte_of (s ! 0) \<le> 223" "cont_byte (s ! 1)"
    | (three) "n = 3" "3 \<le> length s" "224 \<le> byte_of (s ! 0)" "byte_of (s ! 0) \<le> 239" "second_ok (s ! 0) (s ! 1)" "cont_byte (s ! 2)"
    | (four) "n = 4" "4 \<le> length s" "240 \<le> byte_of (s ! 0)" "byte_of (s ! 0) \<le> 244" "second_ok (s ! 0) (s ! 1)" "cont_byte (s ! 2)"
        "cont_byte (s ! 3)"
    unfolding rune_shape_def by blast
  then show ?thesis
  proof cases
    case one
    then show ?thesis by (cases s) (auto simp: Let_def rune_of_def)
  next
    case two
    then show ?thesis by (subst list_cut2 [of s]) (simp_all add: Let_def rune_of_def)
  next
    case three
    then show ?thesis by (subst list_cut3 [of s]) (simp_all add: Let_def rune_of_def second_ok_def)
  next
    case four
    then show ?thesis by (subst list_cut4 [of s]) (simp_all add: Let_def rune_of_def second_ok_def)
  qed
qed

lemma shape_length: "rune_shape s n \<Longrightarrow> n \<le> length s \<and> 1 \<le> n"
  by (cases s) (auto simp: rune_shape_def)

lemma shape_cong:
  assumes "rune_shape s n" and "n \<le> length t" and "\<And>j. j < n \<Longrightarrow> t ! j = s ! j"
  shows "rune_shape t n \<and> rune_of t n = rune_of s n"
  using assms by (auto simp: rune_shape_def rune_of_def)

lemma shape_error_width: "rune_shape s n \<Longrightarrow> rune_of s n = rune_error \<Longrightarrow> n \<noteq> 1"
  by (auto simp: rune_shape_def rune_of_def)

lemma shape_start: "rune_shape s n \<Longrightarrow> rune_start (s ! 0)"
  by (auto simp: rune_shape_def rune_start_def cont_byte_def)

lemma shape_cont: "rune_shape s n \<Longrightarrow> 0 < j \<Longrightarrow> j < n \<Longrightarrow> \<not> rune_start (s ! j)"
  by (auto simp: rune_shape_def rune_start_def cont_byte_def second_ok_def second_lo_def second_hi_def less_Suc_eq numeral_eq_Suc
      split: if_splits)

section \<open>Cutting and joining\<close>

lemma runes_shape:
  assumes "rune_shape s n"
  shows "runes s = (rune_of s n, take n s) # runes (drop n s)"
proof -
  have "s \<noteq> []" using shape_length [OF assms] by auto
  then show ?thesis by (simp add: runes_cons rune_width_def decode_of_shape [OF assms])
qed

lemma valid_shape:
  assumes "rune_shape s n"
  shows "valid_utf8 s \<longleftrightarrow> valid_utf8 (drop n s)"
  using shape_error_width [OF assms] shape_length [OF assms]
  by (auto simp: valid_utf8_def runes_shape [OF assms] invalid_piece_def min_def)

lemma valid_utf8_Nil [simp]: "valid_utf8 []"
  by (simp add: valid_utf8_def)

lemma valid_cases:
  assumes "valid_utf8 s" and "s \<noteq> []"
  obtains n where "rune_shape s n" and "valid_utf8 (drop n s)" and "rune_width s = n"
proof -
  have "\<not> invalid_piece (fst (decode_rune s), take (rune_width s) s)"
    using assms by (simp add: valid_utf8_def runes_cons)
  then have "rune_shape s (rune_width s)"
    using shape_of_decode [OF assms(2)] rune_width_bounds [OF assms(2)]
    by (auto simp: invalid_piece_def min_def split: if_splits)
  then show thesis using that valid_shape assms by blast
qed

lemma valid_induct [consumes 1, case_names Nil Rune]:
  assumes "valid_utf8 s" and "P []"
    and "\<And>s n. rune_shape s n \<Longrightarrow> valid_utf8 s \<Longrightarrow> valid_utf8 (drop n s) \<Longrightarrow> P (drop n s) \<Longrightarrow> P s"
  shows "P s"
  using assms(1)
proof (induction s rule: runes_induct)
  case (Rune s)
  from valid_cases [OF Rune.prems Rune.hyps(1)] obtain n where n: "rune_shape s n" "valid_utf8 (drop n s)" "rune_width s = n" .
  then show ?case using assms(3) [OF n(1) Rune.prems n(2)] Rune.IH by simp
qed (rule assms(2))

lemma shape_append: "rune_shape s n \<Longrightarrow> rune_shape (s @ t) n \<and> rune_of (s @ t) n = rune_of s n"
  using shape_length [of s n] by (intro shape_cong) (auto simp: nth_append)

lemma runes_append: "valid_utf8 a \<Longrightarrow> runes (a @ b) = runes a @ runes b"
proof (induction a rule: valid_induct)
  case (Rune s n)
  have "n \<le> length s" using shape_length [OF Rune.hyps(1)] by simp
  then show ?case
    using Rune.IH runes_shape [OF Rune.hyps(1)] runes_shape [of "s @ b" n] shape_append [OF Rune.hyps(1), of b] by simp
qed simp

lemma valid_append: "valid_utf8 a \<Longrightarrow> valid_utf8 (a @ b) \<longleftrightarrow> valid_utf8 b"
  by (auto simp: valid_utf8_def runes_append)

lemma rune_count_append: "valid_utf8 a \<Longrightarrow> rune_count (a @ b) = rune_count a + rune_count b"
  by (simp add: rune_count_def runes_append)

definition boundary :: "string \<Rightarrow> nat \<Rightarrow> bool" where
  "boundary s k \<longleftrightarrow> k \<le> length s \<and> (k < length s \<longrightarrow> rune_start (s ! k))"

lemma boundary_length [simp]: "boundary s (length s)"
  by (simp add: boundary_def)

lemma boundary_zero: "valid_utf8 s \<Longrightarrow> boundary s 0"
  using shape_start by (cases "s = []") (auto simp: boundary_def elim: valid_cases)

lemma valid_take:
  assumes "valid_utf8 s" and "boundary s k"
  shows "valid_utf8 (take k s)"
  using assms
proof (induction s arbitrary: k rule: valid_induct)
  case (Rune s n)
  have n: "n \<le> length s" "1 \<le> n" using shape_length [OF Rune.hyps(1)] by simp_all
  consider (zero) "k = 0" | (inside) "0 < k" "k < n" | (later) "n \<le> k" by linarith
  then show ?case
  proof cases
    case inside
    then show ?thesis using shape_cont [OF Rune.hyps(1)] Rune.prems n by (auto simp: boundary_def)
  next
    case later
    have shape: "rune_shape (take k s) n"
      using shape_cong [OF Rune.hyps(1), of "take k s"] later n by simp
    have "boundary (drop n s) (k - n)" using Rune.prems later n by (auto simp: boundary_def)
    then have "valid_utf8 (take (k - n) (drop n s))" by (rule Rune.IH)
    then show ?thesis using valid_shape [OF shape] later by (simp add: drop_take)
  qed simp
qed simp

lemma valid_drop:
  assumes "valid_utf8 s" and "boundary s k"
  shows "valid_utf8 (drop k s)"
  using valid_append [OF valid_take [OF assms], of "drop k s"] assms(1) by simp

text \<open>\<open>UTF16Units\<close> of \<open>internal/im/im_text_send.go\<close>.\<close>

definition UTF16Units :: "string \<Rightarrow> int" where
  "UTF16Units s = sum_list (map (\<lambda>p. if 65535 < fst p then 2 else 1) (runes s))"

lemma UTF16Units_append: "valid_utf8 a \<Longrightarrow> UTF16Units (a @ b) = UTF16Units a + UTF16Units b"
  by (simp add: UTF16Units_def runes_append)

lemma UTF16Units_nonneg: "0 \<le> UTF16Units s"
  unfolding UTF16Units_def by (rule sum_list_nonneg) auto

end
