(* ===== verification/TextSplit.thy ===== *)
theory TextSplit
  imports Utf8
begin

text \<open>
  Splitting an output into platform messages: \<open>NewIMTextSender\<close>, \<open>prefix\<close>,
  \<open>trimIMTextBytes\<close> and \<open>Segments\<close> of \<open>internal/im/im_text_send.go\<close>. The adapter's \<open>Render\<close>
  and \<open>Measure\<close> are functions in the options; the contract the sender's comment states for
  them is the locale \<open>text_adapter\<close>, interpreted on the two measures the program uses.
\<close>

abbreviation MaxTextBytes :: nat where "MaxTextBytes \<equiv> 65536"
abbreviation MaxTextSegments :: nat where "MaxTextSegments \<equiv> 32"

record text_options =
  to_Platform :: string
  to_Budget :: int
  to_Render :: "string \<Rightarrow> string"
  to_Measure :: "string \<Rightarrow> int"
  to_TruncationNotice :: string

text \<open>The options as an adapter gives them; \<open>None\<close> is a nil function.\<close>

record raw_options =
  ro_Platform :: string
  ro_Budget :: int
  ro_Render :: "(string \<Rightarrow> string) option"
  ro_Measure :: "(string \<Rightarrow> int) option"
  ro_HasSendSegment :: bool
  ro_TruncationNotice :: string

definition default_notice :: string where
  "default_notice = ''[Output truncated. View the full result in the original Chord session.]''"

definition NewIMTextSender :: "raw_options \<Rightarrow> string + text_options" where
  "NewIMTextSender r =
     (if ro_Budget r \<le> 0 \<or> \<not> ro_HasSendSegment r
      then Inl ''text sender requires a positive segment budget and transport''
      else
        let render = (case ro_Render r of None \<Rightarrow> (\<lambda>s. s) | Some f \<Rightarrow> f);
            measure = (case ro_Measure r of None \<Rightarrow> (\<lambda>s. int (rune_count s)) | Some f \<Rightarrow> f);
            notice = (if ro_TruncationNotice r = '''' then default_notice else ro_TruncationNotice r)
        in if \<not> valid_utf8 notice \<or> notice = '''' \<or> MaxTextBytes < length notice + 1
           then Inl ''invalid truncation notice''
           else
             let n = measure (render notice)
             in if n < 0 \<or> ro_Budget r < n then Inl ''truncation notice exceeds segment budget''
                else Inr \<lparr>to_Platform = ro_Platform r, to_Budget = ro_Budget r, to_Render = render, to_Measure = measure,
                          to_TruncationNotice = notice\<rparr>)"

definition fitsRendered :: "text_options \<Rightarrow> string \<Rightarrow> bool" where
  "fitsRendered op rendered = (let n = to_Measure op rendered in 0 \<le> n \<and> n \<le> to_Budget op)"

definition fits :: "text_options \<Rightarrow> string \<Rightarrow> bool" where
  "fits op source = fitsRendered op (to_Render op source)"

section \<open>The longest prefix that fits\<close>

text \<open>The first rune boundary at or after \<open>probe\<close>, or \<open>high\<close>.\<close>

function next_start :: "string \<Rightarrow> nat \<Rightarrow> nat \<Rightarrow> nat" where
  "next_start source probe high =
     (if probe < high \<and> \<not> rune_start (source ! probe) then next_start source (probe + 1) high else probe)"
  by pat_completeness auto
termination by (relation "measure (\<lambda>(_, probe, high). high - probe)") auto

declare next_start.simps [simp del]

text \<open>Doubling steps from the budget; the step is positive, as the budget is.\<close>

lemma next_start_ge: "probe \<le> next_start source probe high"
  by (induction source probe high rule: next_start.induct) (subst next_start.simps, auto)

function gallop :: "text_options \<Rightarrow> string \<Rightarrow> string \<Rightarrow> nat \<Rightarrow> nat \<Rightarrow> nat \<Rightarrow> nat \<times> nat" where
  "gallop op source suffix step low high =
     (if 0 < step \<and> low + step < high then
        let probe = next_start source (low + step) high in
        if high \<le> probe then (low, high)
        else if \<not> fits op (take probe source @ suffix) then (low, probe - 1)
        else gallop op source suffix (step * 2) probe high
      else (low, high))"
  by pat_completeness auto
termination
proof (relation "measure (\<lambda>(_, _, _, _, low, high). high - low)", goal_cases)
  case (2 op source suffix step low high probe)
  then show ?case using next_start_ge [of "low + step" source high] by simp
qed simp

declare gallop.simps [simp del]

text \<open>Back from \<open>b\<close> to a rune boundary, not below \<open>low\<close>.\<close>

fun back_start :: "string \<Rightarrow> nat \<Rightarrow> nat \<Rightarrow> nat" where
  "back_start source low 0 = 0"
| "back_start source low (Suc b) =
     (if low < Suc b \<and> \<not> rune_start (source ! Suc b) then back_start source low b else Suc b)"

text \<open>The candidate of one bisection step: \<open>None\<close> when no boundary is left between the bounds.\<close>

definition bisect_mid :: "string \<Rightarrow> nat \<Rightarrow> nat \<Rightarrow> nat option" where
  "bisect_mid source low high =
     (let mid = (low + high + 1) div 2 in
      if mid < length source \<and> \<not> rune_start (source ! mid) then
        let b = back_start source low mid in
        if b = low
        then List.find (\<lambda>next. next = length source \<or> rune_start (source ! next)) [mid + 1..<Suc high]
        else Some b
      else Some mid)"

lemma back_start_bounds: "low \<le> b \<Longrightarrow> low \<le> back_start source low b \<and> back_start source low b \<le> b"
proof (induction b)
  case (Suc b)
  then show ?case by (cases "low < Suc b") (auto simp: le_Suc_eq)
qed simp

lemma bisect_mid_bounds:
  assumes "low < high" and "bisect_mid source low high = Some m"
  shows "low < m \<and> m \<le> high"
proof -
  let ?mid = "(low + high + 1) div 2"
  have mid: "low < ?mid" "?mid \<le> high" using assms(1) by auto
  show ?thesis
  proof (cases "?mid < length source \<and> \<not> rune_start (source ! ?mid)")
    case True
    then show ?thesis
      using assms(2) mid back_start_bounds [of low ?mid source]
      by (auto simp: bisect_mid_def Let_def find_Some_iff nth_append split: if_splits)
  next
    case False
    then show ?thesis using assms(2) mid by (auto simp: bisect_mid_def Let_def)
  qed
qed

function bisect :: "text_options \<Rightarrow> string \<Rightarrow> string \<Rightarrow> nat \<Rightarrow> nat \<Rightarrow> nat" where
  "bisect op source suffix low high =
     (if low < high then
        case bisect_mid source low high of
          None \<Rightarrow> low
        | Some mid \<Rightarrow> if fits op (take mid source @ suffix) then bisect op source suffix mid high
                      else bisect op source suffix low (mid - 1)
      else low)"
  by pat_completeness auto
termination
proof (relation "measure (\<lambda>(_, _, _, low, high). high - low)", goal_cases)
  case (2 op source suffix low high mid)
  then show ?case using bisect_mid_bounds [of low high source mid] by auto
next
  case (3 op source suffix low high mid)
  then show ?case using bisect_mid_bounds [of low high source mid] by auto
qed simp

declare bisect.simps [simp del]

text \<open>\<open>strings.LastIndexByte\<close>.\<close>

fun last_index :: "char \<Rightarrow> string \<Rightarrow> nat option" where
  "last_index c [] = None"
| "last_index c (x # xs) =
     (case last_index c xs of Some i \<Rightarrow> Some (Suc i) | None \<Rightarrow> if x = c then Some 0 else None)"

abbreviation newline :: char where "newline \<equiv> CHR 0x0A"

definition longest :: "text_options \<Rightarrow> string \<Rightarrow> string \<Rightarrow> nat" where
  "longest op source suffix =
     (let (low, high) = gallop op source suffix (nat (max (to_Budget op) 1)) 0 (length source)
      in bisect op source suffix low high)"

definition text_prefix :: "text_options \<Rightarrow> string \<Rightarrow> string \<Rightarrow> string" where
  "text_prefix op source suffix =
     (let low = longest op source suffix; p = take low source
      in case last_index newline p of
           Some e \<Rightarrow> if low < length source then take (e + 1) p else p
         | None \<Rightarrow> p)"

section \<open>The adapter's contract\<close>

text \<open>
  What the platform counts for a source text, and the law the sender relies on: adding text
  before a common suffix never lowers the count. An adapter that renders and counts rune by
  rune keeps it.
\<close>

definition source_cost :: "text_options \<Rightarrow> string \<Rightarrow> int" where
  "source_cost op s = to_Measure op (to_Render op s)"

lemma fits_cost: "fits op s \<longleftrightarrow> 0 \<le> source_cost op s \<and> source_cost op s \<le> to_Budget op"
  by (simp add: fits_def fitsRendered_def source_cost_def Let_def)

definition search_inv :: "text_options \<Rightarrow> string \<Rightarrow> string \<Rightarrow> nat \<Rightarrow> nat \<Rightarrow> bool" where
  "search_inv op source suffix low high \<longleftrightarrow>
     boundary source low \<and> low \<le> high \<and> high \<le> length source \<and> (low = 0 \<or> fits op (take low source @ suffix))
     \<and> (\<forall>k. boundary source k \<longrightarrow> high < k \<longrightarrow> \<not> fits op (take k source @ suffix))"

lemma next_start_boundary:
  "next_start source probe high < high \<Longrightarrow> rune_start (source ! next_start source probe high)"
proof (induction source probe high rule: next_start.induct)
  case (1 source probe high)
  show ?case
  proof (cases "probe < high \<and> \<not> rune_start (source ! probe)")
    case True
    then show ?thesis using 1 by (simp add: next_start.simps [of source probe high])
  next
    case False
    then show ?thesis using 1(2) by (auto simp: next_start.simps [of source probe high])
  qed
qed

lemma back_start_none:
  "low \<le> b \<Longrightarrow> back_start source low b = low \<Longrightarrow> low < j \<Longrightarrow> j \<le> b \<Longrightarrow> \<not> rune_start (source ! j)"
proof (induction b)
  case (Suc b)
  show ?case
  proof (cases "low < Suc b \<and> \<not> rune_start (source ! Suc b)")
    case True
    then have "back_start source low b = low" "low \<le> b" using Suc.prems by auto
    then show ?thesis using Suc.IH Suc.prems(3,4) True by (cases "j = Suc b") auto
  next
    case False
    then show ?thesis using Suc.prems by auto
  qed
qed simp

lemma back_start_start: "back_start source low b \<noteq> low \<Longrightarrow> low < b \<Longrightarrow> rune_start (source ! back_start source low b)"
proof (induction b)
  case (Suc b)
  show ?case
  proof (cases "low < Suc b \<and> \<not> rune_start (source ! Suc b)")
    case True
    have "low < b"
    proof (rule ccontr)
      assume "\<not> low < b"
      then have "low = b" using True by simp
      moreover have "back_start source b b = b" by (cases b) auto
      ultimately show False using Suc.prems(1) True by simp
    qed
    then show ?thesis using Suc True by simp
  next
    case False
    then show ?thesis using Suc.prems by auto
  qed
qed simp

lemma bisect_mid_boundary:
  assumes "low < high" and "high \<le> length source" and "bisect_mid source low high = Some m"
  shows "boundary source m"
proof (cases "(low + high + 1) div 2 < length source \<and> \<not> rune_start (source ! ((low + high + 1) div 2))")
  case True
  let ?mid = "(low + high + 1) div 2"
  show ?thesis
  proof (cases "back_start source low ?mid = low")
    case same: True
    then have "List.find (\<lambda>next. next = length source \<or> rune_start (source ! next)) [?mid + 1..<Suc high] = Some m"
      using assms(3) True by (auto simp: bisect_mid_def Let_def)
    then obtain i where i: "i < length [?mid + 1..<Suc high]" "m = [?mid + 1..<Suc high] ! i" "m = length source \<or> rune_start (source ! m)"
      unfolding find_Some_iff by blast
    then have "m \<in> set [?mid + 1..<Suc high]" using nth_mem by metis
    with i(3) show ?thesis using assms(2) by (auto simp: boundary_def)
  next
    case False
    then have m: "m = back_start source low ?mid" using assms(3) True by (simp add: bisect_mid_def Let_def)
    then have "rune_start (source ! m)" using back_start_start [OF False] assms(1) by simp
    moreover have "m \<le> high" using bisect_mid_bounds [OF assms(1,3)] by simp
    ultimately show ?thesis using assms(2) by (simp add: boundary_def)
  qed
next
  case False
  then have "m = (low + high + 1) div 2" using assms(3) by (auto simp: bisect_mid_def Let_def)
  then show ?thesis using False assms(1,2) by (auto simp: boundary_def)
qed

lemma bisect_mid_None:
  assumes "low < high" and "high \<le> length source" and "bisect_mid source low high = None"
    and "boundary source k" and "low < k" and "k \<le> high"
  shows False
proof -
  let ?mid = "(low + high + 1) div 2"
  have mid: "?mid < length source" "\<not> rune_start (source ! ?mid)" "back_start source low ?mid = low"
    and none: "List.find (\<lambda>next. next = length source \<or> rune_start (source ! next)) [?mid + 1..<Suc high] = None"
    using assms(3) by (auto simp: bisect_mid_def Let_def split: if_splits)
  show False
  proof (cases "k \<le> ?mid")
    case True
    then show False using back_start_none [OF _ mid(3) assms(5)] assms(1,4) mid(1) by (auto simp: boundary_def)
  next
    case False
    then have "k \<in> set [?mid + 1..<Suc high]" using assms(6) by auto
    then have "\<not> (k = length source \<or> rune_start (source ! k))"
      using none unfolding find_None_iff by blast
    then show False using assms(4) by (auto simp: boundary_def)
  qed
qed

locale text_adapter =
  fixes op :: text_options
  assumes cost_nonneg: "valid_utf8 s \<Longrightarrow> 0 \<le> source_cost op s"
    and cost_mono: "valid_utf8 a \<Longrightarrow> valid_utf8 b \<Longrightarrow> valid_utf8 c \<Longrightarrow> source_cost op (a @ c) \<le> source_cost op (a @ b @ c)"
begin

lemma fits_shorter:
  assumes "valid_utf8 source" and "valid_utf8 suffix" and "boundary source j" and "boundary source k" and "j \<le> k"
    and "fits op (take k source @ suffix)"
  shows "fits op (take j source @ suffix)"
proof -
  have "boundary (drop j source) (k - j)" using assms(4,5) by (auto simp: boundary_def)
  then have b: "valid_utf8 (take (k - j) (drop j source))" by (rule valid_take [OF valid_drop [OF assms(1,3)]])
  have "take k source = take j source @ take (k - j) (drop j source)"
    using assms(5) by (metis le_add_diff_inverse take_add)
  then have "source_cost op (take j source @ suffix) \<le> source_cost op (take k source @ suffix)"
    using cost_mono [OF valid_take [OF assms(1,3)] b assms(2)] by simp
  moreover have "0 \<le> source_cost op (take j source @ suffix)"
    using valid_append [OF valid_take [OF assms(1,3)]] assms(2) by (intro cost_nonneg) simp
  ultimately show ?thesis using assms(6) by (simp add: fits_cost)
qed

lemma gallop_inv:
  assumes valid: "valid_utf8 source" "valid_utf8 suffix"
  shows "search_inv op source suffix low high \<Longrightarrow>
    search_inv op source suffix (fst (gallop op source suffix step low high)) (snd (gallop op source suffix step low high))"
proof (induction "high - low" arbitrary: low high step rule: less_induct)
  case less
  let ?probe = "next_start source (low + step) high"
  show ?case
  proof (cases "0 < step \<and> low + step < high \<and> ?probe < high")
    case False
    then show ?thesis using less.prems by (auto simp: gallop.simps [of op source suffix step low high] Let_def)
  next
    case True
    have probe: "low < ?probe" using next_start_ge [of "low + step" source high] True by linarith
    have bound: "boundary source ?probe"
      using next_start_boundary [of source "low + step" high] True less.prems by (auto simp: boundary_def search_inv_def)
    show ?thesis
    proof (cases "fits op (take ?probe source @ suffix)")
      case fit: True
      have "search_inv op source suffix ?probe high"
        using less.prems True bound fit by (auto simp: search_inv_def)
      moreover have "high - ?probe < high - low" using True probe by linarith
      ultimately show ?thesis
        using less.hyps [of high ?probe "step * 2"] True probe fit by (simp add: gallop.simps [of op source suffix step low high] Let_def)
    next
      case nofit: False
      have "\<not> fits op (take k source @ suffix)" if "boundary source k" "?probe - 1 < k" for k
        using fits_shorter [OF valid bound that(1)] nofit that(2) by fastforce
      then have "search_inv op source suffix low (?probe - 1)"
        using less.prems True probe by (auto simp: search_inv_def)
      then show ?thesis
        using True nofit by (simp add: gallop.simps [of op source suffix step low high] Let_def)
    qed
  qed
qed

lemma bisect_best:
  assumes valid: "valid_utf8 source" "valid_utf8 suffix"
  shows "search_inv op source suffix low high \<Longrightarrow>
    search_inv op source suffix (bisect op source suffix low high) (bisect op source suffix low high)"
proof (induction "high - low" arbitrary: low high rule: less_induct)
  case less
  have inv: "high \<le> length source" "low \<le> high" using less.prems by (simp_all add: search_inv_def)
  show ?case
  proof (cases "low < high")
    case False
    then have "bisect op source suffix low high = low" by (subst bisect.simps) simp
    moreover have "low = high" using False inv by simp
    ultimately show ?thesis using less.prems by simp
  next
    case True
    show ?thesis
    proof (cases "bisect_mid source low high")
      case None
      have "\<not> fits op (take k source @ suffix)" if "boundary source k" "low < k" for k
        using bisect_mid_None [OF True inv(1) None that] that(1) less.prems by (meson not_le search_inv_def)
      then show ?thesis using less.prems True None by (auto simp: search_inv_def bisect.simps [of op source suffix low high])
    next
      case (Some m)
      have m: "low < m" "m \<le> high" "boundary source m"
        using bisect_mid_bounds [OF True Some] bisect_mid_boundary [OF True inv(1) Some] by simp_all
      show ?thesis
      proof (cases "fits op (take m source @ suffix)")
        case fit: True
        have "search_inv op source suffix m high" using less.prems m fit by (simp add: search_inv_def)
        from less.hyps [OF _ this] show ?thesis
          using True Some m fit by (simp add: bisect.simps [of op source suffix low high])
      next
        case nofit: False
        have "\<not> fits op (take k source @ suffix)" if "boundary source k" "m - 1 < k" for k
          using fits_shorter [OF valid m(3) that(1)] nofit that(2) by fastforce
        then have "search_inv op source suffix low (m - 1)" using less.prems m by (auto simp: search_inv_def)
        from less.hyps [OF _ this] show ?thesis
          using True Some m nofit by (simp add: bisect.simps [of op source suffix low high])
      qed
    qed
  qed
qed

text \<open>The search ends at the last boundary that fits.\<close>

lemma longest_best:
  assumes "valid_utf8 source" and "valid_utf8 suffix"
  shows "search_inv op source suffix (longest op source suffix) (longest op source suffix)"
proof -
  have "search_inv op source suffix 0 (length source)"
    using boundary_zero [OF assms(1)] by (simp add: search_inv_def boundary_def)
  from bisect_best [OF assms gallop_inv [OF assms this]] show ?thesis by (simp add: longest_def split_beta)
qed

end

section \<open>Segments\<close>

function trim_to_valid :: "string \<Rightarrow> string" where
  "trim_to_valid s = (if valid_utf8 s then s else trim_to_valid (butlast s))"
  by pat_completeness auto
termination
proof (relation "measure length", goal_cases)
  case (2 s)
  then show ?case by (cases s) auto
qed simp

declare trim_to_valid.simps [simp del]

definition trimIMTextBytes :: "string \<Rightarrow> nat \<Rightarrow> string" where
  "trimIMTextBytes txt limit = (if length txt \<le> limit then txt else trim_to_valid (take limit txt))"

text \<open>The first loop: at most \<open>n\<close> segments, and what is left; \<open>None\<close> is a character over budget.\<close>

fun split_loop :: "text_options \<Rightarrow> nat \<Rightarrow> string \<Rightarrow> (string list \<times> string) option" where
  "split_loop op 0 remaining = Some ([], remaining)"
| "split_loop op (Suc n) remaining =
     (if remaining = '''' then Some ([], '''')
      else let part = text_prefix op remaining '''' in
        if part = '''' then None
        else map_option (\<lambda>(ps, r). (part # ps, r)) (split_loop op n (drop (length part) remaining)))"

text \<open>The second loop, which leaves room for the notice in the last segment.\<close>

fun reserve_loop :: "text_options \<Rightarrow> nat \<Rightarrow> string \<Rightarrow> (string list \<times> string) option" where
  "reserve_loop op 0 remaining = Some ([], remaining)"
| "reserve_loop op (Suc n) remaining =
     (if remaining = '''' then Some ([], '''')
      else let part = text_prefix op remaining '''' in
        if part = remaining \<and> fits op (remaining @ newline # to_TruncationNotice op) then Some ([], remaining)
        else if part = '''' then None
        else map_option (\<lambda>(ps, r). (part # ps, r)) (reserve_loop op n (drop (length part) remaining)))"

definition truncated_parts :: "text_options \<Rightarrow> string \<Rightarrow> string list option" where
  "truncated_parts op txt =
     (let notice = to_TruncationNotice op in
      case reserve_loop op (MaxTextSegments - 1) (trimIMTextBytes txt (MaxTextBytes - length notice - 1)) of
        None \<Rightarrow> None
      | Some (ps, remaining) \<Rightarrow>
          let part = text_prefix op remaining (newline # notice) in
          Some (ps @ [if part = '''' then notice else part @ newline # notice]))"

definition text_parts :: "text_options \<Rightarrow> string \<Rightarrow> string list option" where
  "text_parts op txt =
     (let raw = trimIMTextBytes txt MaxTextBytes in
      if length raw = length txt then
        case split_loop op MaxTextSegments raw of
          None \<Rightarrow> None
        | Some (ps, remaining) \<Rightarrow> if remaining \<noteq> '''' then truncated_parts op txt else Some ps
      else truncated_parts op txt)"

definition Segments :: "text_options \<Rightarrow> string \<Rightarrow> string + string list" where
  "Segments op txt =
     (if \<not> valid_utf8 txt then Inl ''text is not valid UTF-8''
      else if txt = '''' then Inr []
      else
        let raw = trimIMTextBytes txt MaxTextBytes in
        if length raw = length txt \<and> fitsRendered op (to_Render op raw) then Inr [to_Render op raw]
        else case text_parts op txt of
            None \<Rightarrow> Inl ''one character exceeds segment budget''
          | Some ps \<Rightarrow> Inr (map (to_Render op) ps))"

text \<open>What the constructor checked of the notice.\<close>

definition notice_ok :: "text_options \<Rightarrow> bool" where
  "notice_ok op \<longleftrightarrow> valid_utf8 (to_TruncationNotice op) \<and> to_TruncationNotice op \<noteq> ''''
     \<and> length (to_TruncationNotice op) + 1 \<le> MaxTextBytes \<and> fits op (to_TruncationNotice op) \<and> 0 < to_Budget op"

lemma NewIMTextSender_notice: "NewIMTextSender r = Inr op \<Longrightarrow> notice_ok op"
  by (auto simp: NewIMTextSender_def notice_ok_def fits_def fitsRendered_def Let_def split: if_splits option.splits)

lemma trim_to_valid_prefix: "valid_utf8 (trim_to_valid s) \<and> (\<exists>k\<le>length s. trim_to_valid s = take k s)"
proof (induction s rule: trim_to_valid.induct)
  case (1 s)
  show ?case
  proof (cases "valid_utf8 s")
    case True
    then show ?thesis by (auto simp: trim_to_valid.simps [of s])
  next
    case False
    then obtain k where k: "k \<le> length (butlast s)" "trim_to_valid s = take k (butlast s)" "valid_utf8 (trim_to_valid s)"
      using 1 by (auto simp: trim_to_valid.simps [of s])
    have "k \<le> length s - 1" using k(1) by simp
    then have "trim_to_valid s = take k s" "k \<le> length s" using k(2) by (simp_all add: butlast_conv_take)
    then show ?thesis using k(3) by blast
  qed
qed

lemma trimIMTextBytes_prefix:
  assumes "valid_utf8 txt"
  shows "valid_utf8 (trimIMTextBytes txt limit) \<and> length (trimIMTextBytes txt limit) \<le> limit
    \<and> (\<exists>rest. txt = trimIMTextBytes txt limit @ rest)"
proof (cases "length txt \<le> limit")
  case False
  obtain k where "k \<le> limit" "trim_to_valid (take limit txt) = take k txt"
    using trim_to_valid_prefix [of "take limit txt"] False by (auto simp: min_def split: if_splits)
  then show ?thesis using trim_to_valid_prefix [of "take limit txt"] False
    by (auto simp: trimIMTextBytes_def) (metis append_take_drop_id)
qed (use assms in \<open>simp add: trimIMTextBytes_def\<close>)

lemma last_index_bound: "last_index c s = Some e \<Longrightarrow> e < length s \<and> s ! e = c"
  by (induction s arbitrary: e) (auto split: option.splits if_splits)

lemma ascii_next_boundary:
  assumes "valid_utf8 s" and "e < length s" and "byte_of (s ! e) < 128"
  shows "boundary s (Suc e)"
  using assms
proof (induction s arbitrary: e rule: valid_induct)
  case (Rune s n)
  have n: "n \<le> length s" "1 \<le> n" using shape_length [OF Rune.hyps(1)] by simp_all
  show ?case
  proof (cases "n \<le> e")
    case True
    then have "boundary (drop n s) (Suc (e - n))" using Rune.IH [of "e - n"] Rune.prems n by simp
    then show ?thesis using True n by (auto simp: boundary_def Suc_diff_le)
  next
    case False
    have "e = 0"
      using shape_cont [OF Rune.hyps(1), of e] False Rune.prems by (cases e) (auto simp: rune_start_def cont_byte_def)
    then have "n = 1" using Rune.hyps(1) Rune.prems by (auto simp: rune_shape_def)
    then show ?thesis using boundary_zero [OF Rune.hyps(3)] \<open>e = 0\<close> n
      by (cases "length s = 1") (auto simp: boundary_def)
  qed
qed simp

section \<open>What a prefix and a split promise\<close>

context text_adapter
begin

text \<open>
  A prefix is cut at a rune boundary, fits with its suffix unless empty, and is empty only
  when not even the first character fits.
\<close>

lemma text_prefix_spec:
  assumes "valid_utf8 source" and "valid_utf8 suffix"
  shows "\<exists>k. boundary source k \<and> text_prefix op source suffix = take k source
     \<and> (k = 0 \<or> fits op (take k source @ suffix))
     \<and> (k = 0 \<longrightarrow> (\<forall>j. boundary source j \<longrightarrow> 0 < j \<longrightarrow> \<not> fits op (take j source @ suffix)))"
proof -
  let ?low = "longest op source suffix"
  have best: "search_inv op source suffix ?low ?low" by (rule longest_best [OF assms])
  then have low: "boundary source ?low" "?low = 0 \<or> fits op (take ?low source @ suffix)" "?low \<le> length source"
    "\<And>k. boundary source k \<Longrightarrow> ?low < k \<Longrightarrow> \<not> fits op (take k source @ suffix)"
    by (auto simp: search_inv_def)
  show ?thesis
  proof (cases "\<exists>e. last_index newline (take ?low source) = Some e \<and> ?low < length source")
    case True
    then obtain e where e: "last_index newline (take ?low source) = Some e" "?low < length source" by blast
    then have at: "e < ?low" "source ! e = newline" using last_index_bound [OF e(1)] low(3) by auto
    have bound: "boundary source (Suc e)" using ascii_next_boundary [OF assms(1), of e] at e(2) by simp
    have "fits op (take (Suc e) source @ suffix)"
      using fits_shorter [OF assms bound low(1)] low(2) at(1) by fastforce
    moreover have "text_prefix op source suffix = take (Suc e) source"
      using e at by (simp add: text_prefix_def Let_def min_def)
    ultimately show ?thesis using bound by blast
  next
    case False
    then have "text_prefix op source suffix = take ?low source"
      by (auto simp: text_prefix_def Let_def split: option.split)
    then show ?thesis using low by (metis gr0I)
  qed
qed

lemma split_loop_spec:
  assumes "valid_utf8 remaining" and "split_loop op n remaining = Some (ps, r)"
  shows "remaining = concat ps @ r \<and> length ps \<le> n \<and> valid_utf8 r \<and> (\<forall>p\<in>set ps. p \<noteq> '''' \<and> fits op p \<and> valid_utf8 p)"
  using assms
proof (induction n arbitrary: remaining ps r)
  case (Suc n)
  show ?case
  proof (cases "remaining = ''''")
    case True
    then show ?thesis using Suc.prems by simp
  next
    case False
    let ?part = "text_prefix op remaining ''''"
    obtain k where k: "boundary remaining k" "?part = take k remaining" "k = 0 \<or> fits op ?part"
      using text_prefix_spec [OF Suc.prems(1), of "''''"] by auto
    have part: "?part \<noteq> ''''" using Suc.prems(2) False by (auto simp: Let_def split: if_splits)
    then have len: "length ?part = k" "k \<noteq> 0" using k(1,2) by (auto simp: boundary_def)
    from Suc.prems(2) False part obtain ps' where
      ps: "ps = ?part # ps'" "split_loop op n (drop k remaining) = Some (ps', r)"
      by (auto simp: Let_def len)
    from Suc.IH [OF valid_drop [OF Suc.prems(1) k(1)] ps(2)] show ?thesis
      using k part len ps(1) valid_take [OF Suc.prems(1) k(1)] by (auto simp: append_eq_conv_conj) (metis append_take_drop_id)
  qed
qed simp

lemma reserve_loop_spec:
  assumes "valid_utf8 remaining" and "reserve_loop op n remaining = Some (ps, r)"
  shows "remaining = concat ps @ r \<and> length ps \<le> n \<and> valid_utf8 r \<and> (\<forall>p\<in>set ps. p \<noteq> '''' \<and> fits op p \<and> valid_utf8 p)"
  using assms
proof (induction n arbitrary: remaining ps r)
  case (Suc n)
  let ?part = "text_prefix op remaining ''''"
  let ?stop = "remaining = '''' \<or> ?part = remaining \<and> fits op (remaining @ newline # to_TruncationNotice op)"
  show ?case
  proof (cases ?stop)
    case True
    then have "reserve_loop op (Suc n) remaining = Some ([], remaining)"
      by (cases "remaining = ''''") (simp_all add: Let_def)
    then have "ps = []" "r = remaining" using Suc.prems(2) by simp_all
    then show ?thesis using Suc.prems(1) by simp
  next
    case False
    obtain k where k: "boundary remaining k" "?part = take k remaining" "k = 0 \<or> fits op ?part"
      using text_prefix_spec [OF Suc.prems(1), of "''''"] by auto
    have part: "?part \<noteq> ''''" using Suc.prems(2) False by (auto simp: Let_def split: if_splits)
    then have len: "length ?part = k" "k \<noteq> 0" using k(1,2) by (auto simp: boundary_def)
    from Suc.prems(2) False part obtain ps' where
      ps: "ps = ?part # ps'" "reserve_loop op n (drop k remaining) = Some (ps', r)"
      by (auto simp: Let_def len)
    from Suc.IH [OF valid_drop [OF Suc.prems(1) k(1)] ps(2)] show ?thesis
      using k part len ps(1) valid_take [OF Suc.prems(1) k(1)] by (auto simp: append_eq_conv_conj) (metis append_take_drop_id)
  qed
qed simp

end

end
