(* ===== verification/TextAdapters.thy ===== *)
theory TextAdapters
  imports TextSplit
begin

text \<open>
  The adapters' measures keep the sender's contract, and what a split promises for them:
  the renderers \<open>escapeSlackText\<close>, \<open>EscapeMarkdown\<close> and \<open>renderWecomText\<close> of
  \<open>internal/platform\<close>, and the properties of \<open>Segments\<close>.
\<close>

section \<open>Rune by rune adapters\<close>

text \<open>An adapter whose count is a sum over the runes of the source keeps the contract.\<close>

locale rune_adapter =
  fixes op :: text_options and w :: "nat \<times> string \<Rightarrow> int"
  assumes weight_nonneg: "0 \<le> w p"
    and cost_sum: "valid_utf8 s \<Longrightarrow> source_cost op s = sum_list (map w (runes s))"

sublocale rune_adapter \<subseteq> text_adapter op
proof unfold_locales
  show "0 \<le> source_cost op s" if "valid_utf8 s" for s
    unfolding cost_sum [OF that] by (rule sum_list_nonneg) (use weight_nonneg in auto)
  show "source_cost op (a @ c) \<le> source_cost op (a @ b @ c)" if "valid_utf8 a" "valid_utf8 b" "valid_utf8 c" for a b c
  proof -
    have "0 \<le> sum_list (map w (runes b))" by (rule sum_list_nonneg) (use weight_nonneg in auto)
    moreover have "valid_utf8 (a @ c)" "valid_utf8 (a @ b @ c)" using that by (simp_all add: valid_append)
    ultimately show ?thesis using that by (simp add: cost_sum runes_append)
  qed
qed

text \<open>A renderer that writes each rune as one of its own pieces.\<close>

definition render_pieces :: "(nat \<times> string \<Rightarrow> string) \<Rightarrow> string \<Rightarrow> string" where
  "render_pieces f s = concat (map f (runes s))"

text \<open>\<open>WriteRune\<close>: a rune read from an invalid byte is written as U+FFFD.\<close>

definition write_rune :: "nat \<times> string \<Rightarrow> string" where
  "write_rune p = (if invalid_piece p then [CHR 0xEF, CHR 0xBF, CHR 0xBD] else snd p)"

lemma piece_valid: "valid_utf8 s \<Longrightarrow> p \<in> set (runes s) \<Longrightarrow> valid_utf8 (snd p) \<and> runes (snd p) = [p]"
proof (induction s rule: valid_induct)
  case (Rune s n)
  have n: "n \<le> length s" using shape_length [OF Rune.hyps(1)] by simp
  have shape: "rune_shape (take n s) n \<and> rune_of (take n s) n = rune_of s n"
    using shape_cong [OF Rune.hyps(1), of "take n s"] n by simp
  have first: "valid_utf8 (take n s)" "runes (take n s) = [(rune_of s n, take n s)]"
    using valid_shape [of "take n s" n] runes_shape [of "take n s" n] shape n by auto
  show ?case using Rune.IH Rune.prems first unfolding runes_shape [OF Rune.hyps(1)] by auto
qed simp

lemma cost_concat:
  assumes "\<And>p. p \<in> set ps \<Longrightarrow> valid_utf8 (f p)"
  shows "UTF16Units (concat (map f ps)) = sum_list (map (\<lambda>p. UTF16Units (f p)) ps)"
  using assms
proof (induction ps)
  case (Cons p ps)
  then show ?case by (simp add: UTF16Units_append)
qed (simp add: UTF16Units_def)

lemma length_concat_int: "int (length (concat (map f ps))) = sum_list (map (\<lambda>p. int (length (f p))) ps)"
  by (induction ps) auto

text \<open>\<open>escapeSlackText\<close>: a \<open>strings.NewReplacer\<close> of three single bytes.\<close>

definition slack_byte :: "char \<Rightarrow> string" where
  "slack_byte c = (if c = CHR ''&'' then ''&amp;'' else if c = CHR ''<'' then ''&lt;'' else if c = CHR ''>'' then ''&gt;'' else [c])"

definition escapeSlackText :: "string \<Rightarrow> string" where
  "escapeSlackText s = concat (map slack_byte s)"

definition slack_piece :: "nat \<times> string \<Rightarrow> string" where
  "slack_piece p = concat (map slack_byte (snd p))"

definition markdown_specials :: "nat list" where
  "markdown_specials = map byte_of [CHR 0x5C, CHR 0x60, CHR ''*'', CHR ''_'', CHR ''{'', CHR ''}'', CHR ''['', CHR '']'', CHR ''('',
     CHR '')'', CHR ''#'', CHR ''+'', CHR ''-'', CHR ''.'', CHR ''!'', CHR ''|'', CHR ''>'', CHR ''~'']"

definition discord_piece :: "nat \<times> string \<Rightarrow> string" where
  "discord_piece p = (if fst p \<in> set markdown_specials then [CHR 0x5C] else []) @ write_rune p"

definition EscapeMarkdown :: "string \<Rightarrow> string" where
  "EscapeMarkdown s = render_pieces discord_piece s"

definition wecom_specials :: "nat list" where
  "wecom_specials = map byte_of [CHR 0x5C, CHR 0x60, CHR ''*'', CHR ''_'', CHR ''{'', CHR ''}'', CHR ''['', CHR '']'', CHR ''('',
     CHR '')'', CHR ''#'', CHR ''+'', CHR ''-'', CHR ''.'', CHR ''!'', CHR ''|'', CHR ''~'', CHR ''='']"

definition wecom_piece :: "nat \<times> string \<Rightarrow> string" where
  "wecom_piece p =
     (if fst p = 60 then [CHR 0xEF, CHR 0xBC, CHR 0x9C]
      else if fst p = 62 then [CHR 0xEF, CHR 0xBC, CHR 0x9E]
      else if fst p \<in> set wecom_specials then CHR 0x5C # write_rune p
      else write_rune p)"

definition renderWecomText :: "string \<Rightarrow> string" where
  "renderWecomText s = render_pieces wecom_piece s"

text \<open>The options each adapter gives the constructor, with its budget.\<close>

definition telegram_options :: text_options where
  "telegram_options = \<lparr>to_Platform = ''telegram'', to_Budget = 3500, to_Render = (\<lambda>s. s), to_Measure = UTF16Units,
     to_TruncationNotice = default_notice\<rparr>"

definition slack_options :: text_options where
  "slack_options = \<lparr>to_Platform = ''slack'', to_Budget = 3500, to_Render = escapeSlackText, to_Measure = UTF16Units,
     to_TruncationNotice = default_notice\<rparr>"

definition discord_options :: text_options where
  "discord_options = \<lparr>to_Platform = ''discord'', to_Budget = 1900, to_Render = EscapeMarkdown, to_Measure = UTF16Units,
     to_TruncationNotice = default_notice\<rparr>"

definition dingtalk_options :: text_options where
  "dingtalk_options = \<lparr>to_Platform = ''dingtalk'', to_Budget = 1024, to_Render = (\<lambda>s. s), to_Measure = (\<lambda>s. int (length s)),
     to_TruncationNotice = default_notice\<rparr>"

definition wecom_options :: text_options where
  "wecom_options = \<lparr>to_Platform = ''wecom'', to_Budget = 1024, to_Render = renderWecomText, to_Measure = (\<lambda>s. int (length s)),
     to_TruncationNotice = default_notice\<rparr>"

interpretation telegram_text: rune_adapter telegram_options "\<lambda>p. if 65535 < fst p then 2 else 1"
  by unfold_locales (auto simp: source_cost_def telegram_options_def UTF16Units_def)

lemma sum_pieces_length: "sum_list (map (\<lambda>p. int (length (snd p))) (runes s)) = int (length s)"
  using length_concat_int [of snd "runes s"] by (simp add: concat_runes)

interpretation dingtalk_text: rune_adapter dingtalk_options "\<lambda>p. int (length (snd p))"
  by unfold_locales (auto simp: source_cost_def dingtalk_options_def sum_pieces_length)

interpretation wecom_text: rune_adapter wecom_options "\<lambda>p. int (length (wecom_piece p))"
  by unfold_locales (auto simp: source_cost_def wecom_options_def renderWecomText_def render_pieces_def length_concat_int)

lemma discord_piece_valid:
  assumes "valid_utf8 s" and "p \<in> set (runes s)"
  shows "valid_utf8 (discord_piece p)"
proof -
  have "\<not> invalid_piece p" using assms by (auto simp: valid_utf8_def)
  moreover have "valid_utf8 [CHR 0x5C]" by (simp add: ascii_eval)
  ultimately show ?thesis using piece_valid [OF assms] by (auto simp: discord_piece_def write_rune_def valid_append [of "[CHR 0x5C]"] simp del: append_Cons)
qed

interpretation discord_text: rune_adapter discord_options "\<lambda>p. UTF16Units (discord_piece p)"
  by unfold_locales
     (auto simp: source_cost_def discord_options_def EscapeMarkdown_def render_pieces_def UTF16Units_nonneg
       cost_concat discord_piece_valid)

lemma slack_byte_high: "128 \<le> byte_of c \<Longrightarrow> slack_byte c = [c]"
  by (auto simp: slack_byte_def)

lemma slack_piece_valid:
  assumes "valid_utf8 s" and "p \<in> set (runes s)"
  shows "valid_utf8 (slack_piece p)"
proof -
  have p: "valid_utf8 (snd p)" "runes (snd p) = [p]" using piece_valid [OF assms] by simp_all
  then have "snd p \<noteq> []" by auto
  then obtain n where n: "rune_shape (snd p) n" using valid_cases [OF p(1)] by blast
  have len: "n = length (snd p)"
  proof -
    have "runes (drop n (snd p)) = []" using runes_shape [OF n] p(2) by simp
    then show ?thesis using shape_length [OF n] by simp
  qed
  show ?thesis
  proof (cases "n = 1")
    case True
    then obtain c where c: "snd p = [c]" using len by (cases "snd p") auto
    then have "byte_of c < 128" using n True by (auto simp: rune_shape_def)
    then show ?thesis by (simp add: slack_piece_def c slack_byte_def ascii_eval)
  next
    case False
    have "128 \<le> byte_of (snd p ! j)" if "j < n" for j
    proof (cases "j = 0")
      case True
      then show ?thesis using n False by (auto simp: rune_shape_def)
    next
      case False
      then have "\<not> rune_start (snd p ! j)" using shape_cont [OF n] that by simp
      then show ?thesis by (simp add: rune_start_def cont_byte_def)
    qed
    then have "\<forall>c\<in>set (snd p). slack_byte c = [c]" using len by (auto simp: in_set_conv_nth slack_byte_high)
    then have "concat (map slack_byte (snd p)) = concat (map (\<lambda>c. [c]) (snd p))"
      by (intro arg_cong [where f = concat] map_cong) simp_all
    then have "slack_piece p = snd p" by (simp add: slack_piece_def)
    then show ?thesis using p by simp
  qed
qed

lemma escapeSlackText_pieces: "escapeSlackText s = concat (map slack_piece (runes s))"
proof -
  have "concat (map slack_byte (concat qs)) = concat (map (\<lambda>q. concat (map slack_byte q)) qs)" for qs
    by (induction qs) auto
  from this [of "map snd (runes s)"] show ?thesis
    by (simp add: escapeSlackText_def concat_runes slack_piece_def [abs_def] comp_def)
qed

interpretation slack_text: rune_adapter slack_options "\<lambda>p. UTF16Units (slack_piece p)"
  by unfold_locales
     (auto simp: source_cost_def slack_options_def escapeSlackText_pieces UTF16Units_nonneg cost_concat slack_piece_valid)

definition platform_options :: "text_options list" where
  "platform_options = [telegram_options, slack_options, discord_options, dingtalk_options, wecom_options]"

lemma platform_adapters: "op \<in> set platform_options \<Longrightarrow> text_adapter op"
  using telegram_text.text_adapter_axioms slack_text.text_adapter_axioms discord_text.text_adapter_axioms
    dingtalk_text.text_adapter_axioms wecom_text.text_adapter_axioms
  by (auto simp: platform_options_def)

text \<open>The renderers write valid text for valid text.\<close>

lemma valid_concat: "(\<And>p. p \<in> set ps \<Longrightarrow> valid_utf8 (f p)) \<Longrightarrow> valid_utf8 (concat (map f ps))"
  by (induction ps) (simp_all add: valid_append)

lemma wecom_piece_valid:
  assumes "valid_utf8 s" and "p \<in> set (runes s)"
  shows "valid_utf8 (wecom_piece p)"
proof -
  have "\<not> invalid_piece p" using assms by (auto simp: valid_utf8_def)
  then have "valid_utf8 (write_rune p)" using piece_valid [OF assms] by (simp add: write_rune_def)
  moreover have "valid_utf8 [CHR 0x5C]" by (simp add: ascii_eval)
  ultimately have "valid_utf8 (CHR 0x5C # write_rune p)" using valid_append [of "[CHR 0x5C]" "write_rune p"] by simp
  moreover have "valid_utf8 [CHR 0xEF, CHR 0xBC, CHR 0x9C]" "valid_utf8 [CHR 0xEF, CHR 0xBC, CHR 0x9E]"
    by (subst valid_shape [of _ 3], simp_all add: rune_shape_def cont_byte_def second_ok_def second_lo_def second_hi_def)+
  ultimately show ?thesis using \<open>valid_utf8 (write_rune p)\<close> by (simp add: wecom_piece_def)
qed

lemma platform_render_valid:
  assumes "op \<in> set platform_options" and "valid_utf8 s"
  shows "valid_utf8 (to_Render op s)"
proof -
  have "valid_utf8 (escapeSlackText s)" "valid_utf8 (EscapeMarkdown s)" "valid_utf8 (renderWecomText s)"
    unfolding escapeSlackText_pieces EscapeMarkdown_def renderWecomText_def render_pieces_def
    using slack_piece_valid [OF assms(2)] discord_piece_valid [OF assms(2)] wecom_piece_valid [OF assms(2)]
    by (simp_all add: valid_concat)
  then show ?thesis using assms
    by (auto simp: platform_options_def telegram_options_def slack_options_def discord_options_def dingtalk_options_def wecom_options_def)
qed

section \<open>Segments\<close>

context text_adapter
begin

lemma truncated_parts_spec:
  assumes "valid_utf8 txt" and "notice_ok op" and "truncated_parts op txt = Some parts"
  shows "length parts \<le> MaxTextSegments \<and> (\<forall>p\<in>set parts. fits op p \<and> valid_utf8 p)
    \<and> (\<exists>pre rest. txt = pre @ rest \<and> length (concat parts) \<le> MaxTextBytes
         \<and> (concat parts = pre @ to_TruncationNotice op \<or> concat parts = pre @ newline # to_TruncationNotice op))"
proof -
  let ?notice = "to_TruncationNotice op" and ?raw = "trimIMTextBytes txt (MaxTextBytes - length (to_TruncationNotice op) - 1)"
  have notice: "valid_utf8 ?notice" "fits op ?notice" "length ?notice + 1 \<le> MaxTextBytes"
    using assms(2) by (simp_all add: notice_ok_def)
  have suffix: "valid_utf8 (newline # ?notice)"
    using notice(1) valid_append [of "[newline]" ?notice] by (simp add: ascii_eval)
  obtain rest where raw: "valid_utf8 ?raw" "length ?raw \<le> MaxTextBytes - length ?notice - 1" "txt = ?raw @ rest"
    using trimIMTextBytes_prefix [OF assms(1)] by metis
  from assms(3) obtain ps r where loop: "reserve_loop op (MaxTextSegments - 1) ?raw = Some (ps, r)"
    and parts: "parts = ps @ [let part = text_prefix op r (newline # ?notice) in if part = '''' then ?notice else part @ newline # ?notice]"
    by (auto simp: truncated_parts_def Let_def split: option.splits)
  note spec = reserve_loop_spec [OF raw(1) loop]
  obtain k where k: "text_prefix op r (newline # ?notice) = take k r"
    "take k r = '''' \<or> fits op (take k r @ newline # ?notice)" "boundary r k"
    using text_prefix_spec [OF _ suffix, of r] spec by (metis take0)
  have last: "fits op (let part = text_prefix op r (newline # ?notice) in if part = '''' then ?notice else part @ newline # ?notice)"
    using k notice(2) by (auto simp: Let_def)
  have "valid_utf8 r" using spec by blast
  then have "valid_utf8 (take k r)" by (rule valid_take [OF _ k(3)])
  then have last_valid: "valid_utf8 (let part = text_prefix op r (newline # ?notice) in if part = '''' then ?notice else part @ newline # ?notice)"
    using k(1) notice(1) suffix by (simp add: Let_def valid_append)
  have pre: "concat parts = (concat ps @ take k r) @ (if take k r = '''' then ?notice else newline # ?notice)"
    by (simp add: parts Let_def k(1))
  have whole: "txt = (concat ps @ take k r) @ (drop k r @ rest)"
    using raw(3) spec by (metis append.assoc append_take_drop_id)
  have "length (concat ps @ take k r) \<le> length ?raw" using spec by (metis append_take_drop_id append.assoc length_append le_add1)
  then have "length (concat parts) \<le> MaxTextBytes" using raw(2) notice(3) by (auto simp: pre)
  moreover have "concat parts = (concat ps @ take k r) @ ?notice \<or> concat parts = (concat ps @ take k r) @ newline # ?notice"
    unfolding pre by (cases "take k r = ''''") simp_all
  ultimately have "\<exists>pre rest. txt = pre @ rest \<and> length (concat parts) \<le> MaxTextBytes
      \<and> (concat parts = pre @ ?notice \<or> concat parts = pre @ newline # ?notice)" using whole by blast
  moreover have "length parts \<le> MaxTextSegments" "\<forall>p\<in>set parts. fits op p \<and> valid_utf8 p" using spec last last_valid by (auto simp: parts)
  ultimately show ?thesis by blast
qed

lemma text_parts_spec:
  assumes "valid_utf8 txt" and "notice_ok op" and "text_parts op txt = Some parts"
  shows "length parts \<le> MaxTextSegments \<and> (\<forall>p\<in>set parts. fits op p \<and> valid_utf8 p)
    \<and> (concat parts = txt
       \<or> (\<exists>pre rest. txt = pre @ rest \<and> length (concat parts) \<le> MaxTextBytes
         \<and> (concat parts = pre @ to_TruncationNotice op \<or> concat parts = pre @ newline # to_TruncationNotice op)))"
proof (cases "truncated_parts op txt = Some parts")
  case True
  then show ?thesis using truncated_parts_spec [OF assms(1,2)] by blast
next
  case False
  let ?raw = "trimIMTextBytes txt MaxTextBytes"
  have raw: "length ?raw = length txt" "split_loop op MaxTextSegments ?raw = Some (parts, '''')"
    using assms(3) False by (auto simp: text_parts_def Let_def split: if_splits option.splits)
  have "?raw = txt" using raw(1) trimIMTextBytes_prefix [OF assms(1)] by (metis append_eq_conv_conj take_all_iff order_refl)
  then have "split_loop op MaxTextSegments txt = Some (parts, '''')" using raw(2) by simp
  from split_loop_spec [OF assms(1) this] show ?thesis by auto
qed

text \<open>A character over budget is the only way a valid text is refused.\<close>

definition char_fits :: bool where
  "char_fits \<longleftrightarrow> (\<forall>s n. rune_shape s n \<longrightarrow> length s = n \<longrightarrow> fits op s)"

lemma prefix_progress:
  assumes char_fits and "valid_utf8 s" and "s \<noteq> ''''"
  shows "text_prefix op s '''' \<noteq> '''' \<and> valid_utf8 (drop (length (text_prefix op s '''')) s)"
proof -
  obtain k where k: "boundary s k" "text_prefix op s '''' = take k s"
    "k = 0 \<longrightarrow> (\<forall>j. boundary s j \<longrightarrow> 0 < j \<longrightarrow> \<not> fits op (take j s))"
    using text_prefix_spec [OF assms(2), of "''''"] by auto
  obtain n where n: "rune_shape s n" "valid_utf8 (drop n s)" using valid_cases [OF assms(2,3)] by blast
  have len: "1 \<le> n" "n \<le> length s" using shape_length [OF n(1)] by simp_all
  have "boundary s n" using boundary_zero [OF n(2)] len by (auto simp: boundary_def)
  moreover have "fits op (take n s)"
    using assms(1) shape_cong [OF n(1), of "take n s"] len by (simp add: char_fits_def)
  ultimately have "k \<noteq> 0" using k(3) len by auto
  moreover have "length (take k s) = k" using k(1) by (simp add: boundary_def)
  ultimately show ?thesis using k(2) valid_drop [OF assms(2) k(1)] assms(3) by auto
qed

lemma split_loop_total: "char_fits \<Longrightarrow> valid_utf8 s \<Longrightarrow> \<exists>ps r. split_loop op n s = Some (ps, r)"
proof (induction n arbitrary: s)
  case (Suc n)
  show ?case
  proof (cases "s = ''''")
    case False
    then show ?thesis using prefix_progress [OF Suc.prems False] Suc.IH [OF Suc.prems(1)] by (fastforce simp: Let_def)
  qed simp
qed simp

lemma reserve_loop_total: "char_fits \<Longrightarrow> valid_utf8 s \<Longrightarrow> \<exists>ps r. reserve_loop op n s = Some (ps, r)"
proof (induction n arbitrary: s)
  case (Suc n)
  show ?case
  proof (cases "s = ''''")
    case False
    then show ?thesis using prefix_progress [OF Suc.prems False] Suc.IH [OF Suc.prems(1)] by (fastforce simp: Let_def)
  qed simp
qed simp

lemma Segments_total:
  assumes char_fits and "valid_utf8 txt"
  shows "\<exists>segs. Segments op txt = Inr segs"
proof -
  let ?raw = "trimIMTextBytes txt MaxTextBytes"
  have valid: "valid_utf8 (trimIMTextBytes txt m)" for m using trimIMTextBytes_prefix [OF assms(2)] by simp
  obtain ps r where "split_loop op MaxTextSegments ?raw = Some (ps, r)" using split_loop_total [OF assms(1) valid] by blast
  moreover have "\<exists>ps. truncated_parts op txt = Some ps"
  proof -
    obtain qs q where "reserve_loop op (MaxTextSegments - 1)
        (trimIMTextBytes txt (MaxTextBytes - length (to_TruncationNotice op) - 1)) = Some (qs, q)"
      using reserve_loop_total [OF assms(1) valid] by blast
    then show ?thesis by (simp add: truncated_parts_def Let_def)
  qed
  ultimately have "\<exists>ps. text_parts op txt = Some ps" by (auto simp: text_parts_def Let_def)
  then show ?thesis using assms(2) by (auto simp: Segments_def Let_def)
qed

end

section \<open>Properties\<close>

lemma text_parts_segments:
  assumes "Segments op txt = Inr segs" and "text_adapter op" and "notice_ok op"
  shows "\<exists>parts. segs = map (to_Render op) parts \<and> length parts \<le> MaxTextSegments \<and> (\<forall>p\<in>set parts. fits op p \<and> valid_utf8 p)
    \<and> (concat parts = txt
       \<or> (\<exists>pre rest. txt = pre @ rest \<and> length (concat parts) \<le> MaxTextBytes
         \<and> (concat parts = pre @ to_TruncationNotice op \<or> concat parts = pre @ newline # to_TruncationNotice op)))"
proof -
  have valid: "valid_utf8 txt" using assms(1) by (auto simp: Segments_def split: if_splits)
  let ?raw = "trimIMTextBytes txt MaxTextBytes"
  show ?thesis
  proof (cases "txt = '''' \<or> length ?raw = length txt \<and> fitsRendered op (to_Render op ?raw)")
    case True
    have "length ?raw = length txt \<longrightarrow> ?raw = txt"
      using trimIMTextBytes_prefix [OF valid, of MaxTextBytes] by (metis append_eq_conv_conj take_all_iff order_refl)
    then show ?thesis using True assms(1) valid
      by (intro exI [of _ "if txt = '''' then [] else [txt]"]) (auto simp: Segments_def Let_def fits_def)
  next
    case False
    then obtain parts where "text_parts op txt = Some parts" "segs = map (to_Render op) parts"
      using assms(1) valid by (auto simp: Segments_def Let_def split: option.splits)
    then show ?thesis using text_adapter.text_parts_spec [OF assms(2) valid assms(3)] by blast
  qed
qed

text \<open>C36: An output is delivered as at most 32 messages, each within the platform's budget as the adapter counts it, and
  no character is ever cut: each message is the rendering of a piece of valid UTF-8, and for the five adapters the message
  itself is valid UTF-8.\<close>

theorem segments_within_budget:
  assumes "text_adapter op" and "notice_ok op" and "Segments op txt = Inr segs"
  shows "length segs \<le> 32 \<and> (\<forall>seg\<in>set segs. fitsRendered op seg)
    \<and> (\<exists>parts. segs = map (to_Render op) parts \<and> (\<forall>p\<in>set parts. valid_utf8 p))
    \<and> (op \<in> set platform_options \<longrightarrow> (\<forall>seg\<in>set segs. valid_utf8 seg))"
proof -
  from text_parts_segments [OF assms(3,1,2)] obtain parts where parts: "segs = map (to_Render op) parts"
    "length parts \<le> MaxTextSegments" "\<forall>p\<in>set parts. fits op p \<and> valid_utf8 p" by blast
  then have "\<forall>seg\<in>set segs. fitsRendered op seg" "\<forall>p\<in>set parts. valid_utf8 p" by (auto simp: fits_def)
  moreover have "op \<in> set platform_options \<longrightarrow> (\<forall>seg\<in>set segs. valid_utf8 seg)"
    using parts platform_render_valid by auto
  ultimately show ?thesis using parts(1,2) by auto
qed

lemma default_notice_ascii: "runes default_notice = map (\<lambda>c. (byte_of c, [c])) default_notice"
  by (simp add: default_notice_def ascii_eval)

lemma telegram_notice: "notice_ok telegram_options"
  by (simp add: notice_ok_def telegram_options_def fits_def fitsRendered_def UTF16Units_def default_notice_def ascii_eval Let_def)

theorem segments_within_budget_witness:
  "Segments telegram_options ''hello'' = Inr [''hello''] \<and> fitsRendered telegram_options ''hello'' \<and> valid_utf8 ''hello''"
proof -
  have "Segments telegram_options ''hello'' = Inr [''hello'']"
    by (simp add: Segments_def trimIMTextBytes_def fitsRendered_def telegram_options_def UTF16Units_def ascii_eval Let_def)
  then show ?thesis
    using segments_within_budget [OF telegram_text.text_adapter_axioms telegram_notice] by (simp add: platform_options_def)
qed

text \<open>C37: Splitting loses and reorders nothing: the messages are the renderings of consecutive pieces of the text, which
  together are the text, or a prefix of it followed by the truncation notice within 64 KiB.\<close>

theorem segments_faithful:
  assumes "text_adapter op" and "notice_ok op" and "Segments op txt = Inr segs"
  shows "\<exists>parts. segs = map (to_Render op) parts
    \<and> (concat parts = txt
       \<or> (\<exists>pre rest. txt = pre @ rest \<and> length (concat parts) \<le> 65536
         \<and> (concat parts = pre @ to_TruncationNotice op \<or> concat parts = pre @ newline # to_TruncationNotice op)))"
  using text_parts_segments [OF assms(3,1,2)] by blast

theorem segments_faithful_witness:
  "\<exists>parts. [''a&amp;b''] = map escapeSlackText parts \<and> Segments slack_options ''a&b'' = Inr [''a&amp;b'']"
proof -
  have seg: "Segments slack_options ''a&b'' = Inr [''a&amp;b'']"
    by (simp add: Segments_def trimIMTextBytes_def fitsRendered_def slack_options_def escapeSlackText_def slack_byte_def UTF16Units_def
        ascii_eval Let_def)
  have "notice_ok slack_options"
    by (simp add: notice_ok_def slack_options_def fits_def fitsRendered_def escapeSlackText_def slack_byte_def UTF16Units_def
        default_notice_def ascii_eval Let_def)
  from segments_faithful [OF slack_text.text_adapter_axioms this seg]
  have "\<exists>parts. [''a&amp;b''] = map (to_Render slack_options) parts" by (elim exE conjE) (erule exI)
  moreover have "to_Render slack_options = escapeSlackText" by (simp add: slack_options_def)
  ultimately show ?thesis using seg by simp
qed

lemma UTF16Units_le_length: "UTF16Units s \<le> 2 * int (length s)"
proof -
  have "sum_list (map (\<lambda>p. if 65535 < fst p then 2 else 1) ps) \<le> 2 * int (length ps)" for ps :: "(nat \<times> string) list"
    by (induction ps) auto
  then have "UTF16Units s \<le> 2 * int (rune_count s)" by (simp add: UTF16Units_def rune_count_def)
  then show ?thesis using rune_count_le_length [of s] by linarith
qed

lemma length_slack_piece: "length (slack_piece p) \<le> 5 * length (snd p)"
proof -
  have "length (concat (map slack_byte s)) \<le> 5 * length s" for s by (induction s) (auto simp: slack_byte_def)
  then show ?thesis by (simp add: slack_piece_def)
qed

lemma platform_char_fits: "op \<in> set platform_options \<Longrightarrow> text_adapter.char_fits op"
  unfolding text_adapter.char_fits_def [OF platform_adapters]
proof (intro allI impI)
  fix s n
  assume op: "op \<in> set platform_options" and shape: "rune_shape s n" and len: "length s = n"
  have n: "n \<le> 4" using shape by (auto simp: rune_shape_def)
  have valid: "valid_utf8 s" using valid_shape [OF shape] len by simp
  have runes: "runes s = [(rune_of s n, s)]" using runes_shape [OF shape] len by simp
  have nonneg: "0 \<le> source_cost op s" by (rule text_adapter.cost_nonneg [OF platform_adapters [OF op] valid])
  have piece: "length (write_rune (rune_of s n, s)) \<le> 4" using n len by (simp add: write_rune_def)
  have "source_cost op s \<le> 1024"
    using op telegram_text.cost_sum [OF valid] slack_text.cost_sum [OF valid] discord_text.cost_sum [OF valid]
      dingtalk_text.cost_sum [OF valid] wecom_text.cost_sum [OF valid] n len piece
      UTF16Units_le_length [of "slack_piece (rune_of s n, s)"] length_slack_piece [of "(rune_of s n, s)"]
      UTF16Units_le_length [of "discord_piece (rune_of s n, s)"]
    by (auto simp: platform_options_def runes discord_piece_def wecom_piece_def)
  moreover have "1024 \<le> to_Budget op"
    using op by (auto simp: platform_options_def telegram_options_def slack_options_def discord_options_def
        dingtalk_options_def wecom_options_def)
  ultimately show "fits op s" using nonneg by (simp add: fits_cost)
qed

text \<open>C38: No platform's sender ever refuses a valid text: splitting always ends and always gives messages.\<close>

theorem segments_always:
  assumes "op \<in> set platform_options" and "valid_utf8 txt"
  shows "\<exists>segs. Segments op txt = Inr segs"
  by (rule text_adapter.Segments_total [OF platform_adapters [OF assms(1)] platform_char_fits [OF assms(1)] assms(2)])

theorem segments_always_witness: "\<exists>segs. Segments discord_options ''*bold*'' = Inr segs"
  using segments_always [of discord_options "''*bold*''"] by (simp add: platform_options_def ascii_eval)

end
