(* ===== verification/TextSend.thy ===== *)
theory TextSend
  imports TextAdapters IngressMetrics
begin

text \<open>
  Sending the segments of an output: \<open>Send\<close> and \<open>AcquireTarget\<close> of \<open>internal/im/im_text_send.go\<close>
  and the send diagnostics of \<open>im_text_metrics.go\<close>. What the platform, the clock and the
  contexts answer is a script of attempts; a script that ends too early is \<open>None\<close>, a call
  still waiting.
\<close>

section \<open>Diagnostics\<close>

record text_target_snapshot =
  ts_LastFailureCategory :: string
  ts_LastAcceptedSegments :: nat
  ts_LastFailureAt :: gotime

record text_metrics =
  tm_RateLimitWaits :: "64 word"
  tm_Failures :: "64 word"
  tm_PartialFailures :: "64 word"
  tm_RateLimitWaitTotal :: duration
  tm_RateLimitWaitMax :: duration
  tm_targets :: "(string, text_target_snapshot) gomap"

definition zero_text_metrics :: text_metrics where
  "zero_text_metrics = \<lparr>tm_RateLimitWaits = 0, tm_Failures = 0, tm_PartialFailures = 0, tm_RateLimitWaitTotal = 0,
     tm_RateLimitWaitMax = 0, tm_targets = []\<rparr>"

text \<open>The scan for the oldest entry; among equals the first of the iteration order wins.\<close>

fun oldest_target :: "(string \<times> text_target_snapshot) list \<Rightarrow> string \<Rightarrow> gotime \<Rightarrow> string" where
  "oldest_target [] oldest before = oldest"
| "oldest_target ((k, v) # m) oldest before =
     (if oldest = '''' \<or> ts_LastFailureAt v < before then oldest_target m k (ts_LastFailureAt v)
      else oldest_target m oldest before)"

definition observeSendFailure :: "gotime \<Rightarrow> string \<Rightarrow> nat \<Rightarrow> string \<Rightarrow> text_metrics \<Rightarrow> text_metrics" where
  "observeSendFailure now target accepted category m =
     (let m1 = m\<lparr>tm_Failures := tm_Failures m + 1\<rparr> in
      if accepted = 0 then m1
      else
        let m2 = m1\<lparr>tm_PartialFailures := tm_PartialFailures m1 + 1\<rparr>;
            targets = (if map_of (tm_targets m2) target = None \<and> 128 \<le> length (tm_targets m2)
                       then AList.delete (oldest_target (tm_targets m2) '''' 0) (tm_targets m2) else tm_targets m2)
        in m2\<lparr>tm_targets := AList.update target
               \<lparr>ts_LastFailureCategory = MetricReason category, ts_LastAcceptedSegments = accepted, ts_LastFailureAt = now\<rparr> targets\<rparr>)"

definition ObserveRateWait :: "duration \<Rightarrow> text_metrics \<Rightarrow> text_metrics" where
  "ObserveRateWait wait m =
     m\<lparr>tm_RateLimitWaits := tm_RateLimitWaits m + 1, tm_RateLimitWaitTotal := tm_RateLimitWaitTotal m + wait,
       tm_RateLimitWaitMax := (if tm_RateLimitWaitMax m < wait then wait else tm_RateLimitWaitMax m)\<rparr>"

definition TextSendTargetSnapshot :: "string \<Rightarrow> text_metrics \<Rightarrow> text_target_snapshot" where
  "TextSendTargetSnapshot target m =
     get_or \<lparr>ts_LastFailureCategory = '''', ts_LastAcceptedSegments = 0, ts_LastFailureAt = 0\<rparr> (tm_targets m) target"

lemma oldest_target_in: "m \<noteq> [] \<Longrightarrow> '''' \<notin> fst ` set m \<Longrightarrow> oldest_target m o1 b \<in> fst ` set m \<or> oldest_target m o1 b = o1 \<and> o1 \<noteq> ''''"
proof (induction m arbitrary: o1 b)
  case (Cons p m)
  obtain k v where p: "p = (k, v)" by (cases p)
  show ?case
  proof (cases "o1 = '''' \<or> ts_LastFailureAt v < b")
    case True
    have "oldest_target m k c \<in> fst ` set m \<or> oldest_target m k c = k" for c
      using Cons.IH [of k c] Cons.prems by (cases "m = []") auto
    then show ?thesis using True by (auto simp: p)
  next
    case False
    have "oldest_target m o1 b \<in> fst ` set m \<or> oldest_target m o1 b = o1"
      using Cons.IH [of o1 b] Cons.prems by (cases "m = []") auto
    then show ?thesis using False by (auto simp: p)
  qed
qed simp

text \<open>The diagnostics name at most 128 targets, whatever the failures.\<close>

definition targets_ok :: "text_metrics \<Rightarrow> bool" where
  "targets_ok m \<longleftrightarrow> wf_map (tm_targets m) \<and> length (tm_targets m) \<le> 128 \<and> map_of (tm_targets m) '''' = None"

lemma targets_ok_failure:
  assumes ok: "targets_ok m" and target: "target \<noteq> ''''"
  shows "targets_ok (observeSendFailure now target accepted category m)"
proof -
  let ?t = "tm_targets m" and ?old = "oldest_target (tm_targets m) '''' 0"
  have wf: "wf_map ?t" and len: "length ?t \<le> 128" and none: "map_of ?t '''' = None"
    using ok by (simp_all add: targets_ok_def)
  have old: "map_of ?t ?old \<noteq> None" if "128 \<le> length ?t"
  proof -
    have "?t \<noteq> []" using that by auto
    then show ?thesis using oldest_target_in [of ?t "''''" 0] none by (auto simp: map_of_eq_None_iff)
  qed
  have "length (AList.update target v (AList.delete ?old ?t)) \<le> 128" if "128 \<le> length ?t" for v
    using gm.len_evict [OF wf, of ?old _ target v] old [OF that] len by (metis not_None_eq order_trans)
  moreover have "length (AList.update target v ?t) \<le> 128" if "map_of ?t target \<noteq> None \<or> length ?t < 128" for v
    using gm.len_put [of target v ?t] that len by auto
  ultimately show ?thesis
    using wf none target len by (auto simp: targets_ok_def observeSendFailure_def Let_def)
qed

section \<open>The target slots\<close>

text \<open>A target's entry: whether its one-slot channel is taken, and how many callers hold or await it.\<close>

record text_target =
  tt_slot :: bool
  tt_refs :: int

type_synonym target_map = "(string, text_target) gomap"

definition acquire_enter :: "string \<Rightarrow> target_map \<Rightarrow> target_map" where
  "acquire_enter target m =
     (let entry = get_or \<lparr>tt_slot = False, tt_refs = 0\<rparr> m target
      in AList.update target (entry\<lparr>tt_refs := tt_refs entry + 1\<rparr>) m)"

definition unref :: "string \<Rightarrow> target_map \<Rightarrow> target_map" where
  "unref target m =
     (case map_of m target of
        None \<Rightarrow> m
      | Some entry \<Rightarrow> let entry1 = entry\<lparr>tt_refs := tt_refs entry - 1\<rparr> in
          if tt_refs entry1 = 0 then AList.delete target m else AList.update target entry1 m)"

text \<open>Taking the slot blocks (\<open>None\<close>) while it is taken.\<close>

definition acquire_take :: "string \<Rightarrow> target_map \<Rightarrow> target_map option" where
  "acquire_take target m =
     (case map_of m target of
        None \<Rightarrow> None
      | Some entry \<Rightarrow> if tt_slot entry then None else Some (AList.update target (entry\<lparr>tt_slot := True\<rparr>) m))"

definition release_slot :: "string \<Rightarrow> target_map \<Rightarrow> target_map" where
  "release_slot target m =
     (case map_of m target of
        None \<Rightarrow> m
      | Some entry \<Rightarrow> unref target (AList.update target (entry\<lparr>tt_slot := False\<rparr>) m))"

text \<open>
  The callers of one sender: who waits and who holds, per target. A caller enters, then takes
  the slot or gives up, and releases what it took.
\<close>

inductive target_reach :: "target_map \<Rightarrow> (string \<Rightarrow> nat) \<Rightarrow> (string \<Rightarrow> nat) \<Rightarrow> bool" where
  target_start: "target_reach [] (\<lambda>_. 0) (\<lambda>_. 0)"
| target_enter: "target_reach m waiting holding \<Longrightarrow>
     target_reach (acquire_enter t m) (waiting(t := waiting t + 1)) holding"
| target_take: "target_reach m waiting holding \<Longrightarrow> 0 < waiting t \<Longrightarrow> acquire_take t m = Some m' \<Longrightarrow>
     target_reach m' (waiting(t := waiting t - 1)) (holding(t := holding t + 1))"
| target_give_up: "target_reach m waiting holding \<Longrightarrow> 0 < waiting t \<Longrightarrow>
     target_reach (unref t m) (waiting(t := waiting t - 1)) holding"
| target_release: "target_reach m waiting holding \<Longrightarrow> 0 < holding t \<Longrightarrow>
     target_reach (release_slot t m) waiting (holding(t := holding t - 1))"

definition target_inv :: "target_map \<Rightarrow> (string \<Rightarrow> nat) \<Rightarrow> (string \<Rightarrow> nat) \<Rightarrow> bool" where
  "target_inv m waiting holding \<longleftrightarrow> wf_map m \<and> (\<forall>t. holding t \<le> 1 \<and>
     map_of m t = (if waiting t + holding t = 0 then None
                   else Some \<lparr>tt_slot = (holding t = 1), tt_refs = int (waiting t + holding t)\<rparr>))"

lemma target_reach_inv: "target_reach m waiting holding \<Longrightarrow> target_inv m waiting holding"
proof (induction rule: target_reach.induct)
  case target_start
  then show ?case by (simp add: target_inv_def)
next
  case (target_enter m waiting holding t)
  have "map_of m t = (if waiting t + holding t = 0 then None
      else Some \<lparr>tt_slot = (holding t = 1), tt_refs = int (waiting t + holding t)\<rparr>)"
    using target_enter.IH by (simp add: target_inv_def)
  then show ?case using target_enter.IH
    by (auto simp: target_inv_def acquire_enter_def get_or_def Let_def)
next
  case (target_take m waiting holding t m')
  then show ?case
    by (auto simp: target_inv_def acquire_take_def split: option.splits if_splits) (metis less_numeral_extra(3))
next
  case (target_give_up m waiting holding t)
  then show ?case
    by (auto simp: target_inv_def unref_def Let_def)
next
  case (target_release m waiting holding t)
  then have "holding t = 1" by (metis One_nat_def le_antisym less_eq_Suc_le target_inv_def)
  with target_release show ?case
    by (auto simp: target_inv_def release_slot_def unref_def Let_def)
qed

section \<open>The delivery loop\<close>

definition imTextFailureCategories :: "string list" where
  "imTextFailureCategories =
     [''unknown_send'', ''platform_rejected'', ''backpressure'', ''connection_lost'', ''connection_unavailable'',
      ''auth_failed'', ''duplicate_connection'', ''identity_mismatch'', ''invalid_message'', ''local_error'',
      ''credentials'', ''poller_conflict'', ''chat_migrated'', ''forbidden'', ''api_rejected'', ''invalid_target'',
      ''invalid_request'']"

text \<open>What the code inspects of a transport error: an unknown outcome, a classification, an explicit rate limit.\<close>

record send_error =
  se_unknown :: bool
  se_classified :: "string option"
  se_limited :: "duration option"

text \<open>
  One turn of the inner loop: the state of the context at each of its checks, how the wait
  for a send slot ends, what \<open>SendSegment\<close> returns (\<open>None\<close> is acceptance) and how a
  rate-limit wait ends.
\<close>

record attempt =
  at_dead :: bool
  at_slotCancelled :: bool
  at_deadHoldingSlot :: bool
  at_error :: "send_error option"
  at_deadAfter :: bool
  at_waitCancelled :: bool
  at_waited :: duration

text \<open>The calls of \<open>SendSegment\<close> so far, with their results.\<close>

type_synonym send_log = "(string \<times> send_error option) list"

datatype send_verdict = Delivered | Failed nat string

fun send_loop :: "nat \<Rightarrow> string list \<Rightarrow> attempt list \<Rightarrow> text_metrics \<Rightarrow> send_log
    \<Rightarrow> (send_verdict \<times> text_metrics \<times> send_log) option" where
  "send_loop i [] as m log = Some (Delivered, m, log)"
| "send_loop i (seg # segs) [] m log = None"
| "send_loop i (seg # segs) (a # as) m log =
     (if at_dead a \<or> at_slotCancelled a \<or> at_deadHoldingSlot a then Some (Failed i ''cancelled'', m, log)
      else
        let log1 = log @ [(seg, at_error a)] in
        case at_error a of
          None \<Rightarrow> send_loop (i + 1) segs as m log1
        | Some e \<Rightarrow>
            if se_unknown e then Some (Failed i ''unknown_send'', m, log1)
            else if (case se_classified e of Some c \<Rightarrow> c \<in> set imTextFailureCategories | None \<Rightarrow> False)
            then Some (Failed i (the (se_classified e)), m, log1)
            else if at_deadAfter a then Some (Failed i ''cancelled'', m, log1)
            else (case se_limited e of
                None \<Rightarrow> Some (Failed i ''delivery_failed'', m, log1)
              | Some d \<Rightarrow>
                  if d \<le> 0 then Some (Failed i ''invalid_rate_limit'', m, log1)
                  else let m1 = ObserveRateWait (at_waited a) m in
                    if at_waitCancelled a then Some (Failed i ''cancelled'', m1, log1)
                    else send_loop i (seg # segs) as m1 log1))"

text \<open>
  \<open>Send\<close>, with the adapter's optional \<open>FailureCategory\<close>, the outcome of the wait for the
  target's slot and the instant a failure is noted.
\<close>

definition send_fail :: "(string \<Rightarrow> string) option \<Rightarrow> gotime \<Rightarrow> string \<Rightarrow> nat \<Rightarrow> string \<Rightarrow> text_metrics
    \<Rightarrow> (nat \<times> string) option \<times> text_metrics" where
  "send_fail classify now target accepted category m =
     (let category1 = (case classify of None \<Rightarrow> category | Some f \<Rightarrow> MetricReason (f category))
      in (Some (accepted, category1), observeSendFailure now target accepted category1 m))"

definition Send :: "text_options \<Rightarrow> (string \<Rightarrow> string) option \<Rightarrow> gotime \<Rightarrow> string \<Rightarrow> string \<Rightarrow> bool \<Rightarrow> bool \<Rightarrow> attempt list
    \<Rightarrow> text_metrics \<Rightarrow> ((nat \<times> string) option \<times> text_metrics \<times> send_log) option" where
  "Send op classify now target body dead acquired as m =
     (let fail = (\<lambda>accepted category m log. let (err, m1) = send_fail classify now target accepted category m in Some (err, m1, log)) in
      if target = '''' then fail 0 ''invalid_target'' m []
      else if dead then fail 0 ''cancelled'' m []
      else if \<not> acquired then fail 0 ''cancelled'' m []
      else case Segments op body of
          Inl _ \<Rightarrow> fail 0 ''invalid_text'' m []
        | Inr segs \<Rightarrow>
            (case send_loop 0 segs as m [] of
               None \<Rightarrow> None
             | Some (Delivered, m1, log) \<Rightarrow> Some (None, m1, log)
             | Some (Failed i category, m1, log) \<Rightarrow> fail i category m1 log))"

section \<open>What the loop promises\<close>

definition accepted :: "send_log \<Rightarrow> string list" where
  "accepted log = map fst (filter (\<lambda>(_, err). err = None) log)"

definition retryable :: "send_error option \<Rightarrow> bool" where
  "retryable err \<longleftrightarrow> (case err of None \<Rightarrow> True
     | Some e \<Rightarrow> \<not> se_unknown e \<and> (\<exists>d. se_limited e = Some d \<and> 0 < d))"

lemma accepted_snoc [simp]: "accepted (log @ [(seg, err)]) = accepted log @ (if err = None then [seg] else [])"
  by (simp add: accepted_def)

lemma retryable_snoc:
  "\<forall>j<length log. retryable (snd (log ! j)) \<Longrightarrow> retryable err \<Longrightarrow> \<forall>j<length (log @ [(seg, err)]). retryable (snd ((log @ [(seg, err)]) ! j))"
  by (auto simp: nth_append less_Suc_eq)

lemma send_loop_spec:
  assumes "send_loop i segs as m log = Some (v, m', log')" and "\<forall>j<length log. retryable (snd (log ! j))"
  shows "(case v of Delivered \<Rightarrow> accepted log' = accepted log @ segs
      | Failed n c \<Rightarrow> \<exists>k. n = i + k \<and> k < length segs \<and> accepted log' = accepted log @ take k segs)
    \<and> (\<forall>j. Suc j < length log' \<longrightarrow> retryable (snd (log' ! j)))"
  using assms
proof (induction i segs as m log arbitrary: v m' log' rule: send_loop.induct)
  case (1 i as m log)
  then show ?case by auto
next
  case (2 i seg segs m log)
  then show ?case by simp
next
  case (3 i seg segs a as m log)
  let ?log1 = "log @ [(seg, at_error a)]"
  have stop: "?case" if "v = Failed i c" "log' = log \<or> log' = ?log1 \<and> at_error a \<noteq> None" for c
    using that 3(4) by (auto simp: nth_append intro!: exI [of _ 0])
  consider (dead) "at_dead a \<or> at_slotCancelled a \<or> at_deadHoldingSlot a"
    | (ok) "\<not> (at_dead a \<or> at_slotCancelled a \<or> at_deadHoldingSlot a)" "at_error a = None"
    | (err) e where "\<not> (at_dead a \<or> at_slotCancelled a \<or> at_deadHoldingSlot a)" "at_error a = Some e" by blast
  then show ?case
  proof cases
    case dead
    then show ?thesis using 3(3) stop by auto
  next
    case ok
    then have rest: "send_loop (i + 1) segs as m ?log1 = Some (v, m', log')" using 3(3) by (simp add: Let_def)
    have pre: "\<forall>j<length ?log1. retryable (snd (?log1 ! j))" using retryable_snoc [OF 3(4)] ok(2) by (simp add: retryable_def)
    from 3(1) [OF ok(1) refl ok(2) rest pre] show ?thesis
      using ok(2) by (cases v) (auto intro: exI [of _ "Suc _"])
  next
    case err
    consider (final) c where "v = Failed i c" "log' = ?log1"
      | (retry) d where "\<not> se_unknown e" "se_limited e = Some d" "0 < d" "\<not> at_deadAfter a" "\<not> at_waitCancelled a"
          "\<not> (case se_classified e of Some c \<Rightarrow> c \<in> set imTextFailureCategories | None \<Rightarrow> False)"
          "send_loop i (seg # segs) as (ObserveRateWait (at_waited a) m) ?log1 = Some (v, m', log')"
      using 3(3) err by (auto simp: Let_def split: option.splits if_splits)
    then show ?thesis
    proof cases
      case final
      then show ?thesis using stop err(2) by blast
    next
      case retry
      have pre: "\<forall>j<length ?log1. retryable (snd (?log1 ! j))"
        using retryable_snoc [OF 3(4)] err(2) retry(1-3) by (simp add: retryable_def)
      from 3(2) [OF err(1) refl err(2) retry(1) retry(6,4) retry(2) _ refl retry(5) retry(7) pre] retry(3) show ?thesis
        using err(2) by (cases v) auto
    qed
  qed
qed

lemma send_loop_targets: "send_loop i segs as m log = Some (v, m', log') \<Longrightarrow> targets_ok m \<Longrightarrow> targets_ok m'"
proof (induction i segs as m log arbitrary: v m' log' rule: send_loop.induct)
  case (3 i seg segs a as m log)
  have wait: "targets_ok (ObserveRateWait w m)" for w using 3(4) by (simp add: targets_ok_def ObserveRateWait_def)
  show ?case using 3(3) wait 3(4) by (auto simp: Let_def 3(1,2) split: option.splits if_splits)
qed auto

text \<open>The send stays within the diagnostics' bound, and names its failure from the bounded vocabulary.\<close>

lemma Send_targets:
  assumes "targets_ok m" and "Send op classify now target body dead acquired as m = Some (err, m', log)" and "target \<noteq> ''''"
  shows "targets_ok m'"
proof -
  have fail: "targets_ok (snd (send_fail classify now target i c t))" if "targets_ok t" for i c t
    using targets_ok_failure [OF that assms(3)] by (simp add: send_fail_def Let_def)
  show ?thesis
    using assms(2,3) fail assms(1) send_loop_targets [of 0 _ as m "[]"]
    by (auto simp: Send_def Let_def split_beta split: if_splits sum.splits option.splits send_verdict.splits prod.splits)
qed

text \<open>C5: The transport gets each segment of an output in order, never one after a segment that was not accepted, and
  none twice after an unknown outcome: the accepted calls are the first segments, all of them on success and exactly
  as many as the error reports otherwise, and every call but the last was accepted or explicitly rate limited.\<close>

theorem send_in_order_once:
  assumes "Segments op body = Inr segs"
    and "Send op classify now target body dead acquired as m = Some (err, m', log)"
  shows "(case err of None \<Rightarrow> accepted log = segs
      | Some (n, category) \<Rightarrow> n \<le> length segs \<and> accepted log = take n segs)
    \<and> (\<forall>j. Suc j < length log \<longrightarrow> retryable (snd (log ! j)))"
proof (cases "target = '''' \<or> dead \<or> \<not> acquired")
  case True
  then show ?thesis using assms(2) by (auto simp: Send_def Let_def send_fail_def accepted_def split: if_splits)
next
  case False
  then obtain v m1 where loop: "send_loop 0 segs as m [] = Some (v, m1, log)"
    and err: "err = (case v of Delivered \<Rightarrow> None
        | Failed i c \<Rightarrow> Some (i, case classify of None \<Rightarrow> c | Some f \<Rightarrow> MetricReason (f c)))"
    using assms by (auto simp: Send_def Let_def send_fail_def split: option.splits send_verdict.splits prod.splits)
  show ?thesis using send_loop_spec [OF loop] by (cases v) (auto simp: err accepted_def)
qed

definition ex_attempt :: "send_error option \<Rightarrow> attempt" where
  "ex_attempt err = \<lparr>at_dead = False, at_slotCancelled = False, at_deadHoldingSlot = False, at_error = err, at_deadAfter = False,
     at_waitCancelled = False, at_waited = second\<rparr>"

definition ex_limited :: send_error where
  "ex_limited = \<lparr>se_unknown = False, se_classified = None, se_limited = Some second\<rparr>"

definition ex_unknown :: send_error where
  "ex_unknown = \<lparr>se_unknown = True, se_classified = None, se_limited = None\<rparr>"

text \<open>Two segments of a small budget: one accepted after a rate limit, the second of unknown outcome.\<close>

definition ex_small :: text_options where
  "ex_small = dingtalk_options\<lparr>to_Budget := 2\<rparr>"

lemma ex_small_segments: "Segments ex_small ''abc'' = Inr [''ab'', ''c'']"
proof -
  have "longest ex_small ''abc'' '''' = 2"
    by (simp add: longest_def ex_small_def dingtalk_options_def gallop.simps next_start.simps bisect.simps bisect_mid_def
        rune_start_def cont_byte_def fits_def fitsRendered_def Let_def)
  then have "text_prefix ex_small ''abc'' '''' = ''ab''" by (simp add: text_prefix_def Let_def numeral_2_eq_2)
  moreover have "longest ex_small ''c'' '''' = 1"
    by (simp add: longest_def ex_small_def dingtalk_options_def gallop.simps next_start.simps bisect.simps bisect_mid_def
        rune_start_def cont_byte_def fits_def fitsRendered_def Let_def)
  then have "text_prefix ex_small ''c'' '''' = ''c''" by (simp add: text_prefix_def Let_def)
  ultimately have "split_loop ex_small MaxTextSegments ''abc'' = Some ([''ab'', ''c''], '''')"
    by (simp add: numeral_eq_Suc Let_def)
  then show ?thesis
    by (simp add: Segments_def text_parts_def trimIMTextBytes_def ascii_eval fitsRendered_def Let_def)
       (simp add: ex_small_def dingtalk_options_def)
qed

theorem send_in_order_once_witness:
  "Send ex_small None 0 ''chat'' ''abc'' False True (map ex_attempt [Some ex_limited, None, Some ex_unknown]) zero_text_metrics
     = Some (Some (1, ''unknown_send''), observeSendFailure 0 ''chat'' 1 ''unknown_send'' (ObserveRateWait second zero_text_metrics),
         [(''ab'', Some ex_limited), (''ab'', None), (''c'', Some ex_unknown)])
   \<and> accepted [(''ab'', Some ex_limited), (''ab'', None), (''c'', Some ex_unknown)] = take 1 [''ab'', ''c'']"
proof -
  have run: "Send ex_small None 0 ''chat'' ''abc'' False True (map ex_attempt [Some ex_limited, None, Some ex_unknown]) zero_text_metrics
     = Some (Some (1, ''unknown_send''), observeSendFailure 0 ''chat'' 1 ''unknown_send'' (ObserveRateWait second zero_text_metrics),
         [(''ab'', Some ex_limited), (''ab'', None), (''c'', Some ex_unknown)])"
    by (simp add: Send_def ex_small_segments ex_attempt_def ex_limited_def ex_unknown_def send_fail_def Let_def)
  then show ?thesis using send_in_order_once [OF ex_small_segments run] by simp
qed

text \<open>One caller at a time holds a target, and a sender's table has an entry exactly for the targets somebody holds or
  awaits: it is empty when no send is under way.\<close>

theorem target_slot_exclusive:
  assumes "target_reach m waiting holding"
  shows "holding t \<le> 1 \<and> (map_of m t = None \<longleftrightarrow> waiting t + holding t = 0)
    \<and> (acquire_take t m \<noteq> None \<longrightarrow> holding t = 0) \<and> (holding t = 0 \<and> 0 < waiting t \<longrightarrow> acquire_take t m \<noteq> None)"
proof -
  have h: "holding t \<le> 1" and m: "map_of m t = (if waiting t + holding t = 0 then None
      else Some \<lparr>tt_slot = (holding t = 1), tt_refs = int (waiting t + holding t)\<rparr>)"
    using target_reach_inv [OF assms] by (simp_all only: target_inv_def)
  show ?thesis
  proof (cases "holding t = 0")
    case False
    then have "holding t = 1" using h by simp
    then show ?thesis using m by (simp add: acquire_take_def)
  qed (use m in \<open>simp add: acquire_take_def\<close>)
qed

theorem target_slot_exclusive_witness:
  "\<exists>m. target_reach m ((\<lambda>_. 0)(''c'' := 1)) (\<lambda>_. 0) \<and> acquire_take ''c'' m \<noteq> None"
proof -
  have r: "target_reach (acquire_enter ''c'' []) ((\<lambda>_. 0)(''c'' := 1)) (\<lambda>_. 0)"
    using target_enter [OF target_start, of "''c''"] by simp
  then show ?thesis using target_slot_exclusive [OF r, of "''c''"] by auto
qed

text \<open>Every transport failure category is one the metric labels keep, so none is reported as an unknown one.\<close>

theorem failure_categories_reported: "category \<in> set imTextFailureCategories \<Longrightarrow> MetricReason category = category"
  by (auto simp: imTextFailureCategories_def MetricReason_def metric_reasons_def metric_reasons_binding_def
      metric_reasons_transport_def metric_reasons_ingress_def metric_reasons_normalization_def)

theorem failure_categories_reported_witness: "MetricReason ''poller_conflict'' = ''poller_conflict''"
  by (rule failure_categories_reported) (simp add: imTextFailureCategories_def)

end
