(* ===== verification/DurableFile.thy ===== *)
theory DurableFile
  imports Prelude
begin

text \<open>
  A small file as \<open>writePrivateFileSynced\<close> of \<open>internal/gateway/transfer_persistence.go\<close> leaves it:
  a temporary file is written and synced, renamed over the old one, and the directory is
  synced. Between the rename and the directory sync a crash may show either content, so a
  file is what is visible now together with every content a restart may find. Contents are
  the values the JSON in them stands for. The interface the stores rely on is a locale.
\<close>

record 'a small_file =
  fl_visible :: "'a option"
  fl_after_crash :: "'a option list"

definition fresh_file :: "'a option \<Rightarrow> 'a small_file" where
  "fresh_file c = \<lparr>fl_visible = c, fl_after_crash = [c]\<rparr>"

definition readings :: "'a small_file \<Rightarrow> 'a option set" where
  "readings f = insert (fl_visible f) (set (fl_after_crash f))"

definition file_replace :: "'a option \<Rightarrow> 'a small_file \<Rightarrow> 'a small_file" where
  "file_replace c f = \<lparr>fl_visible = c, fl_after_crash = c # fl_after_crash f\<rparr>"

text \<open>\<open>syncTransferDirectory\<close>: the names in the directory are durable.\<close>

definition file_sync :: "'a small_file \<Rightarrow> 'a small_file" where
  "file_sync f = f\<lparr>fl_after_crash := [fl_visible f]\<rparr>"

text \<open>How one write ends: before the rename, after it but before the directory is synced, or done.\<close>

datatype write_end = FailedBefore | FailedUnsynced | Written

definition writePrivateFileSynced :: "write_end \<Rightarrow> 'a \<Rightarrow> 'a small_file \<Rightarrow> 'a small_file \<times> bool" where
  "writePrivateFileSynced e v f = (case e of
       FailedBefore \<Rightarrow> (f, False)
     | FailedUnsynced \<Rightarrow> (file_replace (Some v) f, False)
     | Written \<Rightarrow> (file_sync (file_replace (Some v) f), True))"

locale durable_write =
  fixes store :: "'e \<Rightarrow> 'v \<Rightarrow> 'd \<Rightarrow> 'd \<times> bool" and found :: "'d \<Rightarrow> 'v option set"
  assumes acknowledged: "store e v d = (d', True) \<Longrightarrow> found d' = {Some v}"
    and uncertain: "store e v d = (d', False) \<Longrightarrow> found d' \<subseteq> insert (Some v) (found d)"
begin

text \<open>Whatever all the contents before and the new value satisfy, all contents after satisfy.\<close>

lemma found_keeps:
  assumes "\<forall>c \<in> found d. P c" and "P (Some v)"
  shows "\<forall>c \<in> found (fst (store e v d)). P c"
  using assms acknowledged [of e v d "fst (store e v d)"] uncertain [of e v d "fst (store e v d)"]
  by (cases "store e v d"; cases "snd (store e v d)") auto

lemma found_acknowledged: "snd (store e v d) \<Longrightarrow> found (fst (store e v d)) = {Some v}"
  using acknowledged [of e v d "fst (store e v d)"] by (metis prod.collapse)

end

interpretation df: durable_write writePrivateFileSynced readings
  by unfold_locales
     (auto simp: writePrivateFileSynced_def readings_def file_replace_def file_sync_def split: write_end.splits)

lemma readings_fresh [simp]: "readings (fresh_file c) = {c}"
  by (simp add: readings_def fresh_file_def)

lemma readings_sync [simp]: "readings (file_sync f) = {fl_visible f}"
  by (simp add: readings_def file_sync_def)

lemma readings_replace [simp]: "readings (file_replace c f) = insert c (set (fl_after_crash f))"
  by (auto simp: readings_def file_replace_def)

lemma visible_reading [simp]: "fl_visible f \<in> readings f"
  by (simp add: readings_def)

lemma visible_sync [simp]: "fl_visible (file_sync f) = fl_visible f" "fl_visible (file_replace c f) = c"
  by (simp_all add: file_sync_def file_replace_def)

end
