(* ===== verification/GoRadix.thy ===== *)
theory GoRadix
  imports GoEncoding
begin

text \<open>
  \<open>encoding/base32\<close> and \<open>encoding/base64\<close> without padding, as one codec over the width of a
  symbol and its alphabet. The locale states what an alphabet must satisfy; it is interpreted
  on the standard base32 alphabet of the pairing code and on the URL alphabet of base64 that
  identities and process keys use, and gives the round trip of both.
\<close>

section \<open>Bits\<close>

definition bits_of :: "nat \<Rightarrow> nat \<Rightarrow> bool list" where
  "bits_of n v = map (\<lambda>i. odd (v div 2 ^ i)) (rev [0..<n])"

definition bits_value :: "bool list \<Rightarrow> nat" where
  "bits_value bs = foldl (\<lambda>a b. 2 * a + of_bool b) 0 bs"

lemma length_bits_of [simp]: "length (bits_of n v) = n"
  by (simp add: bits_of_def)

lemma bits_of_Suc: "bits_of (Suc n) v = bits_of n (v div 2) @ [odd v]"
proof -
  have "rev [0..<Suc n] = map Suc (rev [0..<n]) @ [0]"
    by (simp only: upt_conv_Cons [OF zero_less_Suc] rev.simps map_Suc_upt [symmetric] rev_map)
  then show ?thesis by (simp add: bits_of_def comp_def div_mult2_eq)
qed

lemma bits_value_snoc: "bits_value (bs @ [b]) = 2 * bits_value bs + of_bool b"
  by (simp add: bits_value_def)

lemma bits_value_of: "v < 2 ^ n \<Longrightarrow> bits_value (bits_of n v) = v"
proof (induction n arbitrary: v)
  case 0
  then show ?case by (simp add: bits_of_def bits_value_def)
next
  case (Suc n)
  then have "v div 2 < 2 ^ n" by simp
  from Suc.IH [OF this] show ?case by (simp add: bits_of_Suc bits_value_snoc)
qed

lemma bits_of_value: "bits_of (length bs) (bits_value bs) = bs"
proof (induction bs rule: rev_induct)
  case (snoc b bs)
  then show ?case by (cases b) (simp_all add: bits_of_Suc bits_value_snoc)
qed (simp add: bits_of_def)

lemma bits_value_less: "bits_value bs < 2 ^ length bs"
proof (induction bs rule: rev_induct)
  case (snoc b bs)
  then show ?case by (cases b) (simp_all add: bits_value_snoc)
qed (simp add: bits_value_def)

section \<open>Chunks\<close>

lemma chunks_Nil [simp]: "chunks n [] = []"
  by (simp add: chunks.simps)

lemma chunks_append:
  assumes "length xs = n" and "0 < n"
  shows "chunks n (xs @ ys) = xs # chunks n ys"
  using assms by (subst chunks.simps) auto

lemma chunks_concat: "0 < n \<Longrightarrow> \<forall>x \<in> set xss. length x = n \<Longrightarrow> chunks n (concat xss) = xss"
  by (induction xss) (auto simp: chunks_append)

lemma concat_chunks: "0 < n \<Longrightarrow> concat (chunks n xs) = xs"
proof (induction n xs rule: chunks.induct)
  case (1 n xs)
  then show ?case by (cases "xs = []") (simp_all add: chunks.simps [of n xs])
qed

lemma chunks_length:
  assumes "0 < n" and "n dvd length xs" and "c \<in> set (chunks n xs)"
  shows "length c = n"
  using assms
proof (induction n xs rule: chunks.induct)
  case (1 n xs)
  show ?case
  proof (cases "xs = []")
    case False
    then have ge: "n \<le> length xs" using "1.prems" by (auto dest: dvd_imp_le)
    with "1.prems" have "n dvd length (drop n xs)" by (simp add: dvd_diff_nat)
    then show ?thesis using 1 False ge by (auto simp: chunks.simps [of n xs])
  qed (use "1.prems" in simp)
qed

lemma pad_dvd: "0 < k \<Longrightarrow> k dvd n + (k - n mod k) mod k" for k n :: nat
proof (cases "n mod k = 0")
  case False
  assume "0 < k"
  then have "n mod k < k" by simp
  moreover have "n = k * (n div k) + n mod k" by simp
  moreover have "(k - n mod k) mod k = k - n mod k" using False \<open>0 < k\<close> by (intro mod_less) simp
  ultimately have "n + (k - n mod k) mod k = k * (n div k) + k" by linarith
  then show ?thesis by simp
qed auto

lemma length_chunks:
  assumes "0 < n"
  shows "length (chunks n xs) = (length xs + n - 1) div n"
  using assms
proof (induction n xs rule: chunks.induct)
  case (1 n xs)
  consider "xs = []" | "xs \<noteq> []" "length xs \<le> n" | "n < length xs" by fastforce
  then show ?case
  proof cases
    case 2
    then have "(length xs + n - 1) div n = 1"
      using "1.prems" by (intro div_nat_eqI) (cases xs; simp)+
    with 2 "1.prems" show ?thesis by (simp add: chunks.simps [of n xs])
  next
    case 3
    then have "length xs + n - 1 = n + (length xs - 1)" by simp
    then have "(length xs + n - 1) div n = Suc ((length xs - 1) div n)"
      using "1.prems" by (simp only: div_add_self1 [of n])
    moreover have "length (chunks n (drop n xs)) = (length xs - 1) div n"
      using 1 3 by (cases "xs = []") simp_all
    ultimately show ?thesis using 3 "1.prems" by (auto simp: chunks.simps [of n xs])
  qed (use "1.prems" in simp)
qed

lemma of_char_lt: "byte_of c < 256"
  by (metis of_char_of of_nat_of_char nat_of_char_less_256)

section \<open>The codec\<close>

definition byte_bits :: "string \<Rightarrow> bool list" where
  "byte_bits s = concat (map (\<lambda>c. bits_of 8 (byte_of c)) s)"

definition radix_encode :: "nat \<Rightarrow> string \<Rightarrow> string \<Rightarrow> string" where
  "radix_encode k alphabet s =
     (let bits = byte_bits s; padded = bits @ replicate ((k - length bits mod k) mod k) False in
      map (\<lambda>c. alphabet ! bits_value c) (chunks k padded))"

fun symbol_index :: "string \<Rightarrow> char \<Rightarrow> nat option" where
  "symbol_index [] c = None"
| "symbol_index (a # as) c = (if a = c then Some 0 else map_option Suc (symbol_index as c))"

text \<open>
  Decoding skips line breaks, refuses other symbols and a last group too short to hold a byte;
  \<open>strict\<close> refuses trailing bits that are not zero.
\<close>

definition radix_decode :: "nat \<Rightarrow> string \<Rightarrow> bool \<Rightarrow> string \<Rightarrow> string option" where
  "radix_decode k alphabet strict s =
     (let t = filter (\<lambda>c. c \<noteq> CHR 0x0D \<and> c \<noteq> CHR 0x0A) s; vs = map (symbol_index alphabet) t in
      if None \<in> set vs then None
      else let bits = concat (map (\<lambda>v. bits_of k (the v)) vs); rest = length bits mod 8;
               n = length bits - rest in
        if k \<le> rest \<or> strict \<and> True \<in> set (drop n bits) then None
        else Some (map (\<lambda>c. char_of (bits_value c)) (chunks 8 (take n bits))))"

locale alphabet =
  fixes k :: nat and symbols :: string
  assumes k_pos: "0 < k" and k_le: "k \<le> 8"
    and size: "length symbols = 2 ^ k"
    and distinct_symbols: "distinct symbols"
    and no_breaks: "CHR 0x0D \<notin> set symbols" "CHR 0x0A \<notin> set symbols"
begin

lemma symbol_index_nth: "distinct as \<Longrightarrow> i < length as \<Longrightarrow> symbol_index as (as ! i) = Some i"
  by (induction as arbitrary: i) (auto simp: nth_Cons split: nat.splits)

lemma symbol_roundtrip: "length c = k \<Longrightarrow> symbol_index symbols (symbols ! bits_value c) = Some (bits_value c)"
  using bits_value_less [of c] size distinct_symbols by (intro symbol_index_nth) simp_all

lemma encode_symbols: "set (radix_encode k symbols s) \<subseteq> set symbols"
proof -
  let ?p = "byte_bits s @ replicate ((k - length (byte_bits s) mod k) mod k) False"
  have "k dvd length ?p"
    using pad_dvd [OF k_pos] by simp
  then have "length c = k" if "c \<in> set (chunks k ?p)" for c by (rule chunks_length [OF k_pos _ that])
  then have "symbols ! bits_value c \<in> set symbols" if "c \<in> set (chunks k ?p)" for c
    using bits_value_less [of c] size that by (metis nth_mem)
  then show ?thesis by (auto simp: radix_encode_def Let_def)
qed

lemma decode_encode: "radix_decode k symbols strict (radix_encode k symbols s) = Some s"
proof -
  define bits where "bits = byte_bits s"
  define pad where "pad = (k - length bits mod k) mod k"
  define padded where "padded = bits @ replicate pad False"
  have len: "length bits = 8 * length s" by (simp add: bits_def byte_bits_def length_concat comp_def sum_list_triv)
  have pad: "pad < k" using k_pos by (simp add: pad_def)
  have dvd: "k dvd length padded"
    using pad_dvd [OF k_pos] by (simp add: padded_def pad_def)
  have ck: "length c = k" if "c \<in> set (chunks k padded)" for c
    by (rule chunks_length [OF k_pos dvd that])
  have enc: "radix_encode k symbols s = map (\<lambda>c. symbols ! bits_value c) (chunks k padded)"
    by (simp add: radix_encode_def Let_def padded_def pad_def bits_def)
  have keep: "filter (\<lambda>c. c \<noteq> CHR 0x0D \<and> c \<noteq> CHR 0x0A) (radix_encode k symbols s) = radix_encode k symbols s"
    using encode_symbols [of s] no_breaks by (auto simp: filter_id_conv)
  have vs: "map (symbol_index symbols) (radix_encode k symbols s) = map (\<lambda>c. Some (bits_value c)) (chunks k padded)"
    using ck symbol_roundtrip by (simp add: enc)
  have again: "concat (map (\<lambda>v. bits_of k (the v)) (map (\<lambda>c. Some (bits_value c)) (chunks k padded))) = padded"
  proof -
    have "map (\<lambda>c. bits_of k (bits_value c)) (chunks k padded) = chunks k padded"
      using ck bits_of_value by (intro map_idI) metis
    then show ?thesis using concat_chunks [OF k_pos, of padded] by (simp add: comp_def)
  qed
  have rest: "length padded mod 8 = pad" using len pad k_le by (simp add: padded_def)
  have bytes: "map (\<lambda>c. char_of (bits_value c)) (chunks 8 bits) = s"
  proof -
    have "chunks 8 bits = map (\<lambda>c. bits_of 8 (byte_of c)) s"
      unfolding bits_def byte_bits_def by (rule chunks_concat) auto
    moreover have "bits_value (bits_of 8 (byte_of c)) = byte_of c" for c :: char
      using of_char_lt [of c] by (intro bits_value_of) simp
    ultimately show ?thesis by (simp add: comp_def)
  qed
  have none: "None \<notin> set (map (\<lambda>c. Some (bits_value c)) (chunks k padded))" by auto
  have n: "length padded - pad = length bits" by (simp add: padded_def)
  have halves: "take (length bits) padded = bits" "True \<notin> set (drop (length bits) padded)"
    by (simp_all add: padded_def)
  show ?thesis
    unfolding radix_decode_def Let_def keep vs again rest n
    using none pad bytes halves by simp
qed

lemma encode_inj: "radix_encode k symbols s = radix_encode k symbols t \<Longrightarrow> s = t"
  using decode_encode [of False s] decode_encode [of False t] by (metis option.inject)

end

definition base32_symbols :: string where
  "base32_symbols = map char_of ([65..<91] @ [50..<56])"

definition base64_symbols :: string where
  "base64_symbols = map char_of ([65..<91] @ [97..<123] @ [48..<58] @ [45, 95])"

text \<open>An alphabet given by ranges of byte values.\<close>

lemma byte_alphabet:
  fixes ns :: "nat list"
  assumes "distinct ns" and "\<forall>n \<in> set ns. 13 < n \<and> n < 256"
  shows "distinct (map char_of ns :: string) \<and> CHR 0x0D \<notin> set (map char_of ns) \<and> CHR 0x0A \<notin> set (map char_of ns)"
proof -
  have b: "byte_of (char_of n) = n" if "n \<in> set ns" for n using assms(2) that by simp
  then have "inj_on (char_of :: nat \<Rightarrow> char) (set ns)" by (metis inj_on_inverseI)
  moreover have "char_of n \<noteq> CHR 0x0D \<and> char_of n \<noteq> CHR 0x0A" if "n \<in> set ns" for n
  proof -
    have "n = byte_of c" if "char_of n = c" for c using b [OF \<open>n \<in> set ns\<close>] that by metis
    moreover have "13 < n" using assms(2) that by simp
    ultimately show ?thesis by fastforce
  qed
  then have "CHR 0x0D \<notin> set (map char_of ns)" "CHR 0x0A \<notin> set (map char_of ns)" by (metis ex_map_conv imageE image_set)+
  ultimately show ?thesis using assms(1) by (simp add: distinct_map)
qed

lemma alphabet_ranges:
  fixes ns :: "nat list"
  assumes "0 < k" and "k \<le> 8" and "distinct ns" and "\<forall>n \<in> set ns. 13 < n \<and> n < 256" and "length ns = 2 ^ k"
  shows "alphabet k (map char_of ns)"
  using byte_alphabet [OF assms(3,4)] assms by unfold_locales simp_all

interpretation b32: alphabet 5 base32_symbols
  unfolding base32_symbols_def by (rule alphabet_ranges) (auto simp del: upt_rec_numeral)

interpretation b64: alphabet 6 base64_symbols
  unfolding base64_symbols_def by (rule alphabet_ranges) (auto simp del: upt_rec_numeral)

text \<open>\<open>base32.StdEncoding.WithPadding(base32.NoPadding)\<close> and \<open>base64.RawURLEncoding\<close>.\<close>

abbreviation base32_encode :: "string \<Rightarrow> string" where "base32_encode \<equiv> radix_encode 5 base32_symbols"
abbreviation base32_decode :: "string \<Rightarrow> string option" where "base32_decode \<equiv> radix_decode 5 base32_symbols False"
abbreviation base64_encode :: "string \<Rightarrow> string" where "base64_encode \<equiv> radix_encode 6 base64_symbols"
abbreviation base64_decode :: "bool \<Rightarrow> string \<Rightarrow> string option" where
  "base64_decode strict \<equiv> radix_decode 6 base64_symbols strict"

end
