(* ===== verification/GoText.thy ===== *)
theory GoText
  imports Utf8
begin

text \<open>
  The rest of \<open>strings\<close> and \<open>strconv\<close> the command parsers and the formatting helpers use:
  case folding against ASCII words, splitting at a byte, \<open>strings.Index\<close>, \<open>strconv.Atoi\<close>,
  replacement of a byte and the conversion of runes back to text; and what the parsers rely
  on: how trimming, splitting and lower-casing act on text with an ASCII space in it.
\<close>

section \<open>Case folding\<close>

text \<open>
  \<open>strings.EqualFold\<close>, as far as a comparison with an ASCII word can see it: the runes other
  than ASCII letters that fold to one are the Kelvin sign and the long s.
\<close>

definition fold_rune :: "nat \<Rightarrow> nat" where
  "fold_rune r = (if 65 \<le> r \<and> r \<le> 90 then r + 32 else if r = 8490 then 107 else if r = 383 then 115 else r)"

definition equal_fold :: "string \<Rightarrow> string \<Rightarrow> bool" where
  "equal_fold a b \<longleftrightarrow> map (fold_rune \<circ> fst) (runes a) = map (fold_rune \<circ> fst) (runes b)"

section \<open>Splitting and searching\<close>

abbreviation space :: char where "space \<equiv> CHR 0x20"

text \<open>\<open>strings.IndexFunc(s, unicode.IsSpace)\<close>, with \<open>len(s)\<close> where Go gives -1, and the text before it.\<close>

definition first_word :: "string \<Rightarrow> string" where
  "first_word s = rune_bytes (takeWhile (\<lambda>p. \<not> space_piece p) (runes s))"

definition has_space :: "string \<Rightarrow> bool" where
  "has_space s \<longleftrightarrow> (\<exists>p \<in> set (runes s). space_piece p)"

text \<open>\<open>strings.Split\<close> and \<open>strings.SplitN\<close> at a one-byte separator.\<close>

fun split_on :: "char \<Rightarrow> string \<Rightarrow> string list" where
  "split_on c [] = [[]]"
| "split_on c (d # s) =
     (if d = c then [] # split_on c s
      else case split_on c s of p # ps \<Rightarrow> (d # p) # ps | [] \<Rightarrow> [[d]])"

fun split_n :: "nat \<Rightarrow> char \<Rightarrow> string \<Rightarrow> string list" where
  "split_n 0 c s = []"
| "split_n (Suc 0) c s = [s]"
| "split_n (Suc (Suc n)) c s =
     (let (p, r, found) = cut_at c s in if found then p # split_n (Suc n) c r else [s])"

text \<open>\<open>strings.Index\<close>.\<close>

fun str_index :: "string \<Rightarrow> string \<Rightarrow> nat option" where
  "str_index [] sub = (if sub = [] then Some 0 else None)"
| "str_index (c # t) sub = (if has_prefix (c # t) sub then Some 0 else map_option Suc (str_index t sub))"

text \<open>\<open>strings.ReplaceAll\<close> of a one-byte text, and \<open>strings.ContainsAny\<close> of ASCII bytes.\<close>

definition replace_byte :: "char \<Rightarrow> string \<Rightarrow> string \<Rightarrow> string" where
  "replace_byte c r s = concat (map (\<lambda>d. if d = c then r else [d]) s)"

definition contains_any :: "string \<Rightarrow> string \<Rightarrow> bool" where
  "contains_any s cs \<longleftrightarrow> (\<exists>c \<in> set s. c \<in> set cs)"

text \<open>\<open>strconv.Atoi\<close>; \<open>None\<close> is its error.\<close>

definition is_digit :: "char \<Rightarrow> bool" where
  "is_digit c \<longleftrightarrow> 48 \<le> byte_of c \<and> byte_of c \<le> 57"

definition digits_value :: "string \<Rightarrow> nat" where
  "digits_value s = foldl (\<lambda>a c. a * 10 + (byte_of c - 48)) 0 s"

definition Atoi :: "string \<Rightarrow> int option" where
  "Atoi s =
     (let neg = (s \<noteq> [] \<and> hd s = CHR ''-'');
          ds = (if s \<noteq> [] \<and> (hd s = CHR ''-'' \<or> hd s = CHR ''+'') then tl s else s);
          v = (if neg then - int (digits_value ds) else int (digits_value ds)) in
      if ds \<noteq> [] \<and> list_all is_digit ds \<and> - (2 ^ 63) \<le> v \<and> v < 2 ^ 63 then Some v else None)"

text \<open>
  \<open>string(runes)\<close> for runes \<open>[]rune(s)\<close> gave: an invalid byte, read as U+FFFD, is written back
  as that rune.
\<close>

definition replacement :: string where
  "replacement = map char_of [239, 191, 189 :: nat]"

definition piece_text :: "nat \<times> string \<Rightarrow> string" where
  "piece_text p = (if invalid_piece p then replacement else snd p)"

definition rune_text :: "(nat \<times> string) list \<Rightarrow> string" where
  "rune_text ps = concat (map piece_text ps)"

section \<open>Trimming\<close>

lemma rune_bytes_simps [simp]:
  "rune_bytes [] = []" "rune_bytes (p # ps) = snd p @ rune_bytes ps"
  "rune_bytes (ps @ qs) = rune_bytes ps @ rune_bytes qs" "rune_bytes (runes s) = s"
  by (simp_all add: rune_bytes_def concat_runes)

lemma rune_bytes_cut_length: "length (rune_bytes (dropWhile P ps)) \<le> length (rune_bytes ps)"
  by (induction ps) auto

lemma rune_bytes_rev_cut: "length (rune_bytes (rev (dropWhile P (rev ps)))) \<le> length (rune_bytes ps)"
proof -
  have "length (rune_bytes (rev qs)) = length (rune_bytes qs)" for qs
    by (induction qs) auto
  with rune_bytes_cut_length [of P "rev ps"] show ?thesis by (metis rev_rev_ident)
qed

lemma trim_space_length: "length (trim_space s) \<le> length s"
  unfolding trim_space_def
  using rune_bytes_rev_cut [of space_piece "dropWhile space_piece (runes s)"]
    rune_bytes_cut_length [of space_piece "runes s"] by simp

lemma trim_space_Nil [simp]: "trim_space [] = []"
  by (simp add: trim_space_def)

text \<open>A trimmed valid text: no white space at either end.\<close>

definition trimmed :: "string \<Rightarrow> bool" where
  "trimmed s \<longleftrightarrow> s = [] \<or> \<not> space_piece (hd (runes s)) \<and> \<not> space_piece (last (runes s))"

lemma trim_space_trimmed: "trimmed s \<Longrightarrow> trim_space s = s"
proof (cases "s = []")
  case False
  assume "trimmed s"
  with False have h: "\<not> space_piece (hd (runes s))" "\<not> space_piece (last (runes s))" "runes s \<noteq> []"
    by (simp_all add: trimmed_def)
  have a: "dropWhile space_piece (runes s) = runes s"
    using h by (cases "runes s") auto
  have "dropWhile space_piece (rev (runes s)) = rev (runes s)"
    using h by (cases "rev (runes s)") (auto simp: last_rev hd_rev dest!: arg_cong [of _ _ rev])
  with a show ?thesis by (simp add: trim_space_def)
qed simp

lemma space_piece_space [simp]: "space_piece (32, p)"
  by (simp add: space_piece_def is_space_def)

lemma runes_space [simp]: "runes (space # s) = (32, [space]) # runes s"
  by (simp add: runes_ascii)

lemma trim_space_lead [simp]: "trim_space (space # s) = trim_space s"
  by (simp add: trim_space_def)

lemma trim_space_pads [simp]: "trim_space (replicate n space @ s) = trim_space s"
  by (induction n) simp_all

lemma first_word_append:
  assumes "valid_utf8 w" and "\<not> has_space w"
  shows "first_word w = w" and "first_word (w @ space # t) = w"
proof -
  have all: "\<forall>p \<in> set (runes w). \<not> space_piece p" using assms(2) by (simp add: has_space_def)
  then have tw: "takeWhile (\<lambda>p. \<not> space_piece p) (runes w) = runes w" by simp
  then show "first_word w = w" by (simp only: first_word_def rune_bytes_simps)
  show "first_word (w @ space # t) = w"
    using all by (simp add: first_word_def runes_append [OF assms(1)])
qed

lemma has_space_append: "valid_utf8 w \<Longrightarrow> has_space (w @ t) \<longleftrightarrow> has_space w \<or> has_space t"
  by (auto simp: has_space_def runes_append)

lemma has_space_simps [simp]: "\<not> has_space []" "has_space (space # t)"
  by (simp_all add: has_space_def)

lemma trimmed_word: "\<not> has_space w \<Longrightarrow> trimmed w"
  unfolding trimmed_def has_space_def by (metis hd_in_set last_in_set runes_not_Nil)

text \<open>Text made of a trimmed front and a trimmed back is trimmed.\<close>

lemma trimmed_append:
  assumes "valid_utf8 a" and "trimmed a" and "trimmed b" and "a \<noteq> []" and "b \<noteq> []" and "valid_utf8 m"
  shows "trimmed (a @ m @ b)"
  using assms by (simp add: trimmed_def runes_append)

section \<open>Trimming twice\<close>

text \<open>A run of whole runes cut out of a text is read as the same runes.\<close>

lemma decode_prefix:
  assumes "q \<noteq> []" and "rune_width (q @ u) \<le> length q"
  shows "decode_rune q = decode_rune (q @ u)"
proof (cases "rune_shape (q @ u) (rune_width (q @ u))")
  case True
  have "rune_shape q (rune_width (q @ u)) \<and> rune_of q (rune_width (q @ u)) = rune_of (q @ u) (rune_width (q @ u))"
    by (rule shape_cong [OF True]) (use assms in \<open>simp_all add: nth_append\<close>)
  then show ?thesis using decode_of_shape [OF True] decode_of_shape [of q "rune_width (q @ u)"] by simp
next
  case False
  have ne: "q @ u \<noteq> []" using assms(1) by simp
  have inv: "fst (decode_rune (q @ u)) = rune_error" "rune_width (q @ u) = 1"
    using shape_of_decode [OF ne] False by blast+
  have "\<not> rune_shape q (rune_width q)"
  proof
    assume "rune_shape q (rune_width q)"
    then have sh: "rune_shape (q @ u) (rune_width q)" using shape_append by blast
    then have "rune_width (q @ u) = rune_width q" using decode_of_shape [OF sh] by (simp add: rune_width_def)
    with sh False show False by simp
  qed
  then have "fst (decode_rune q) = rune_error" "rune_width q = 1" using shape_of_decode [OF assms(1)] by blast+
  with inv show ?thesis by (simp add: prod_eq_iff rune_width_def)
qed

lemma runes_take: "runes (rune_bytes (take k (runes s))) = take k (runes s)"
proof (induction s arbitrary: k rule: runes_induct)
  case (Rune s)
  show ?case
  proof (cases k)
    case (Suc j)
    let ?t = "rune_bytes (take j (runes (drop (rune_width s) s)))"
    have "rune_bytes (runes (drop (rune_width s) s)) = ?t @ rune_bytes (drop j (runes (drop (rune_width s) s)))"
      by (metis append_take_drop_id rune_bytes_simps(3))
    then have s: "s = (take (rune_width s) s @ ?t) @ rune_bytes (drop j (runes (drop (rune_width s) s)))"
      by simp
    have w: "length (take (rune_width s) s) = rune_width s" using rune_width_bounds(2) [OF Rune.hyps] by simp
    have ne: "take (rune_width s) s @ ?t \<noteq> []" using rune_width_bounds(1) [OF Rune.hyps] Rune.hyps by auto
    have dec: "decode_rune (take (rune_width s) s @ ?t) = decode_rune s"
      using decode_prefix [OF ne, of "rune_bytes (drop j (runes (drop (rune_width s) s)))"] s w
      by (metis le_add1 length_append)
    have rw: "rune_width (take (rune_width s) s @ ?t) = rune_width s" using dec by (simp add: rune_width_def)
    show ?thesis
      using Rune.IH [of j] runes_cons [OF ne] dec rw w by (simp add: Suc runes_cons [OF Rune.hyps])
  qed simp
qed simp

lemma runes_drop: "runes (rune_bytes (drop k (runes s))) = drop k (runes s)"
proof (induction s arbitrary: k rule: runes_induct)
  case (Rune s)
  then show ?case by (cases k) (simp_all add: runes_cons [OF Rune.hyps])
qed simp

lemma trim_space_run:
  obtains ps where "trim_space s = rune_bytes ps" and "runes (trim_space s) = ps"
    and "ps = [] \<or> \<not> space_piece (hd ps) \<and> \<not> space_piece (last ps)"
proof -
  obtain i where i: "dropWhile space_piece (runes s) = drop i (runes s)"
    by (metis dropWhile_eq_drop)
  let ?m = "drop i (runes s)"
  obtain j where j: "dropWhile space_piece (rev ?m) = drop j (rev ?m)" by (metis dropWhile_eq_drop)
  have cut: "rev (drop j (rev m)) = take (length m - j) m" for m :: "(nat \<times> string) list"
    by (simp add: rev_drop)
  have r: "rev (dropWhile space_piece (rev ?m)) = take (length ?m - j) ?m"
    by (subst j) (rule cut)
  let ?ps = "take (length ?m - j) ?m"
  have t: "trim_space s = rune_bytes ?ps" by (simp add: trim_space_def i r)
  have m: "runes (rune_bytes ?m) = ?m" by (rule runes_drop)
  have rps: "runes (rune_bytes ?ps) = ?ps" using runes_take [of _ "rune_bytes ?m"] by (simp add: m)
  have "?ps = [] \<or> \<not> space_piece (hd ?ps) \<and> \<not> space_piece (last ?ps)"
  proof (cases "?ps = []")
    case False
    then have a: "rev ?ps \<noteq> []" "rev ?ps = dropWhile space_piece (rev ?m)" using r by (metis rev_is_Nil_conv, metis rev_rev_ident)
    then have "\<not> space_piece (hd (rev ?ps))" by (metis hd_dropWhile)
    moreover have "\<not> space_piece (hd ?m)" using False i by (metis hd_dropWhile take_eq_Nil2)
    then have "\<not> space_piece (hd ?ps)" using False by (simp add: hd_take)
    ultimately show ?thesis by (simp add: hd_rev)
  qed simp
  then show thesis using that t rps by simp
qed

lemma trimmed_trim: "trimmed (trim_space s)"
proof -
  obtain ps where "trim_space s = rune_bytes ps" "runes (trim_space s) = ps"
    "ps = [] \<or> \<not> space_piece (hd ps) \<and> \<not> space_piece (last ps)" by (rule trim_space_run)
  then show ?thesis by (auto simp: trimmed_def)
qed

lemma trim_space_idem [simp]: "trim_space (trim_space s) = trim_space s"
  by (rule trim_space_trimmed [OF trimmed_trim])

section \<open>Fields\<close>

lemma fields_of_word:
  assumes "\<forall>p \<in> set ps. \<not> space_piece p"
  shows "fields_of cur (ps @ qs) = fields_of (rev ps @ cur) qs"
  using assms by (induction ps arbitrary: cur) auto

lemma fields_cons:
  assumes "valid_utf8 w" and "\<not> has_space w" and "w \<noteq> []"
  shows "str_fields (w @ space # t) = w # str_fields t" and "str_fields w = [w]"
  using assms fields_of_word [of "runes w" "[]" "runes (space # t)"] fields_of_word [of "runes w" "[]" "[]"]
  by (simp_all add: str_fields_def runes_append has_space_def)

lemma fields_space [simp]: "str_fields (space # t) = str_fields t"
  by (simp add: str_fields_def)

lemma fields_Nil [simp]: "str_fields [] = []"
  by (simp add: str_fields_def)

lemma fields_of_not_Nil:
  "cur \<noteq> [] \<Longrightarrow> fields_of cur ps \<noteq> []"
  by (induction ps arbitrary: cur) auto

lemma fields_of_nonempty:
  assumes "\<forall>p \<in> set cur \<union> set ps. snd p \<noteq> []"
  shows "w \<in> set (fields_of cur ps) \<Longrightarrow> w \<noteq> []"
  using assms
proof (induction cur ps rule: fields_of.induct)
  case (1 cur)
  then show ?case by (cases cur rule: rev_cases) (auto split: if_splits)
next
  case (2 cur p ps)
  show ?case
  proof (cases "space_piece p \<and> cur \<noteq> [] \<and> w = rune_bytes (rev cur)")
    case True
    then show ?thesis using "2.prems"(2) by (cases cur rule: rev_cases) auto
  next
    case False
    with 2 show ?thesis by (auto split: if_splits)
  qed
qed

lemma fields_nonempty: "w \<in> set (str_fields s) \<Longrightarrow> w \<noteq> []"
  unfolding str_fields_def by (rule fields_of_nonempty [of "[]"]) (use runes_pieces [of _ s] in force)+

section \<open>Numbers\<close>

lemma is_digit_char: "n < 10 \<Longrightarrow> is_digit (digit_char n) \<and> byte_of (digit_char n) = 48 + n"
  by (simp add: is_digit_def digit_char_def)

lemma nat_digits_value: "list_all is_digit (nat_digits n) \<and> digits_value (nat_digits n) = n"
proof (induction n rule: nat_digits.induct)
  case (1 n)
  show ?case
  proof (cases "n < 10")
    case True
    then show ?thesis
      using is_digit_char [OF True] by (subst (1 2) nat_digits.simps) (simp add: digits_value_def)
  next
    case False
    have d: "is_digit (digit_char (n mod 10))" "byte_of (digit_char (n mod 10)) = 48 + n mod 10"
      using is_digit_char [of "n mod 10"] by simp_all
    show ?thesis
      using False 1 d by (subst (1 2) nat_digits.simps) (simp add: digits_value_def)
  qed
qed

lemma digit_not_sign: "is_digit c \<Longrightarrow> c \<noteq> CHR ''-'' \<and> c \<noteq> CHR ''+''"
  by (auto simp: is_digit_def)

lemma Atoi_nat_digits: "n < 2 ^ 63 \<Longrightarrow> Atoi (nat_digits n) = Some (int n)"
proof -
  assume n: "n < 2 ^ 63"
  have d: "list_all is_digit (nat_digits n)" "digits_value (nat_digits n) = n"
    using nat_digits_value by blast+
  obtain c t where ct: "nat_digits n = c # t" by (cases "nat_digits n") auto
  have "c \<noteq> CHR ''-''" "c \<noteq> CHR ''+''" using d(1) ct digit_not_sign [of c] by auto
  moreover have "int n < 2 ^ 63" using n by (metis of_nat_less_iff of_nat_numeral of_nat_power)
  ultimately show ?thesis using d ct by (simp add: Atoi_def Let_def)
qed

lemma byte_of_less [simp]: "byte_of c < 256"
  by (metis of_char_of of_nat_of_char nat_of_char_less_256)

end
