(* ===== verification/GoJSON.thy ===== *)
theory GoJSON
  imports GoRadix GoText
begin

text \<open>
  \<open>json.Unmarshal\<close> into a \<open>[]string\<close>, the one reading of JSON identities and process keys
  do: white space, \<open>null\<close> for a missing element, every escape with surrogate pairs, and the
  replacement of invalid bytes. It inverts \<open>json.Marshal\<close> of a list of valid strings.
\<close>

section \<open>Runes back to bytes\<close>

definition is_surrogate :: "nat \<Rightarrow> bool" where
  "is_surrogate r \<longleftrightarrow> 55296 \<le> r \<and> r \<le> 57343"

text \<open>\<open>utf8.AppendRune\<close>.\<close>

definition encode_rune :: "nat \<Rightarrow> string" where
  "encode_rune r =
     (if r < 128 then [char_of r]
      else if r < 2048 then map char_of [192 + r div 64, 128 + r mod 64]
      else if is_surrogate r \<or> 1114111 < r then replacement
      else if r < 65536 then map char_of [224 + r div 4096, 128 + r div 64 mod 64, 128 + r mod 64]
      else map char_of [240 + r div 262144, 128 + r div 4096 mod 64, 128 + r div 64 mod 64, 128 + r mod 64])"

lemma digit64:
  fixes q t :: nat
  assumes "t < 64"
  shows "(q * 64 + t) div 64 = q" and "(q * 64 + t) mod 64 = t"
  using assms by simp_all

lemma div_4096: "n div 4096 = n div 64 div 64" and div_262144: "n div 262144 = n div 64 div 64 div 64" for n :: nat
  by (simp_all add: div_mult2_eq [symmetric])

lemma encode_two:
  assumes "2 \<le> x" and "x < 32" and "y < 64"
  shows "encode_rune (x * 64 + y) = map char_of [192 + x, 128 + y]"
proof -
  have "\<not> x * 64 + y < 128" "x * 64 + y < 2048" using assms by linarith+
  then show ?thesis by (simp only: encode_rune_def if_True if_False digit64 [OF assms(3)])
qed

lemma encode_three:
  assumes "x < 16" and "y < 64" and "z < 64" and "x = 0 \<longrightarrow> 32 \<le> y" and "x = 13 \<longrightarrow> y < 32"
  shows "encode_rune (x * 4096 + y * 64 + z) = map char_of [224 + x, 128 + y, 128 + z]"
proof -
  have n: "x * 4096 + y * 64 + z = (x * 64 + y) * 64 + z" by simp
  have b: "\<not> x * 4096 + y * 64 + z < 128" "\<not> x * 4096 + y * 64 + z < 2048"
    using assms(4) by (cases "x = 0"; simp)+
  have u: "x * 4096 + y * 64 + z < 65536" "\<not> 1114111 < x * 4096 + y * 64 + z" using assms(1-3) by linarith+
  consider "x < 13" | "x = 13" | "13 < x" by linarith
  then have "\<not> is_surrogate (x * 4096 + y * 64 + z)"
    using assms by cases (simp_all add: is_surrogate_def)
  with b u show ?thesis
    by (simp only: encode_rune_def if_True if_False simp_thms div_4096)
       (simp only: n digit64 [OF assms(2)] digit64 [OF assms(3)])
qed

lemma encode_four:
  assumes "x \<le> 4" and "y < 64" and "z < 64" and "w < 64" and "x = 0 \<longrightarrow> 16 \<le> y" and "x = 4 \<longrightarrow> y < 16"
  shows "encode_rune (x * 262144 + y * 4096 + z * 64 + w) = map char_of [240 + x, 128 + y, 128 + z, 128 + w]"
proof -
  have n: "x * 262144 + y * 4096 + z * 64 + w = ((x * 64 + y) * 64 + z) * 64 + w" by simp
  have b: "\<not> x * 262144 + y * 4096 + z * 64 + w < 65536" using assms(5) by (cases "x = 0") simp_all
  then have b': "\<not> x * 262144 + y * 4096 + z * 64 + w < 128" "\<not> x * 262144 + y * 4096 + z * 64 + w < 2048"
    "\<not> is_surrogate (x * 262144 + y * 4096 + z * 64 + w)"
    by (simp_all add: is_surrogate_def)
  have u: "\<not> 1114111 < x * 262144 + y * 4096 + z * 64 + w" using assms by (cases "x = 4") simp_all
  show ?thesis using b b' u
    by (simp only: encode_rune_def if_True if_False simp_thms div_4096 div_262144)
       (simp only: n digit64 [OF assms(2)] digit64 [OF assms(3)] digit64 [OF assms(4)])
qed

lemma cont_digit: "cont_byte c \<Longrightarrow> byte_of c - 128 < 64 \<and> 128 + (byte_of c - 128) = byte_of c"
  by (auto simp: cont_byte_def)

lemma second_cont: "second_ok c d \<Longrightarrow> cont_byte d"
  by (auto simp: second_ok_def cont_byte_def second_lo_def second_hi_def split: if_splits)

text \<open>A valid rune is written back as the bytes it was read from.\<close>

lemma encode_rune_of:
  assumes "rune_shape s n"
  shows "encode_rune (rune_of s n) = take n s"
proof -
  from assms consider (one) "n = 1" "s \<noteq> []" "byte_of (s ! 0) < 128"
    | (two) "n = 2" "2 \<le> length s" "194 \<le> byte_of (s ! 0)" "byte_of (s ! 0) \<le> 223" "cont_byte (s ! 1)"
    | (three) "n = 3" "3 \<le> length s" "224 \<le> byte_of (s ! 0)" "byte_of (s ! 0) \<le> 239" "second_ok (s ! 0) (s ! 1)" "cont_byte (s ! 2)"
    | (four) "n = 4" "4 \<le> length s" "240 \<le> byte_of (s ! 0)" "byte_of (s ! 0) \<le> 244" "second_ok (s ! 0) (s ! 1)" "cont_byte (s ! 2)"
        "cont_byte (s ! 3)"
    unfolding rune_shape_def by blast
  then show ?thesis
  proof cases
    case one
    then show ?thesis by (cases s) (simp_all add: encode_rune_def rune_of_def)
  next
    case two
    have "byte_of (s ! 1) - 128 < 64" "128 + (byte_of (s ! 1) - 128) = byte_of (s ! 1)"
      and "192 + (byte_of (s ! 0) - 192) = byte_of (s ! 0)"
      using cont_digit [OF two(5)] two by auto
    moreover have "rune_of s n = (byte_of (s ! 0) - 192) * 64 + (byte_of (s ! 1) - 128)" using two by (simp add: rune_of_def)
    moreover have "take n s = [s ! 0, s ! 1]" using two by (subst list_cut2 [of s]) simp_all
    ultimately show ?thesis
      using two encode_two [of "byte_of (s ! 0) - 192" "byte_of (s ! 1) - 128"]
      by (simp only: list.map char_of_char)
  next
    case three
    have "byte_of (s ! 1) - 128 < 64" "128 + (byte_of (s ! 1) - 128) = byte_of (s ! 1)"
      and "byte_of (s ! 2) - 128 < 64" "128 + (byte_of (s ! 2) - 128) = byte_of (s ! 2)"
      and "224 + (byte_of (s ! 0) - 224) = byte_of (s ! 0)"
      using cont_digit [OF second_cont [OF three(5)]] cont_digit [OF three(6)] three by auto
    moreover have "rune_of s n = (byte_of (s ! 0) - 224) * 4096 + (byte_of (s ! 1) - 128) * 64 + (byte_of (s ! 2) - 128)"
      using three by (simp add: rune_of_def)
    moreover have "byte_of (s ! 0) - 224 = 0 \<longrightarrow> 32 \<le> byte_of (s ! 1) - 128"
      and "byte_of (s ! 0) - 224 = 13 \<longrightarrow> byte_of (s ! 1) - 128 < 32"
      using three(3,5) by (auto simp: second_ok_def second_lo_def second_hi_def split: if_splits)
    moreover have "take n s = [s ! 0, s ! 1, s ! 2]" using three by (subst list_cut3 [of s]) simp_all
    ultimately show ?thesis
      using three encode_three [of "byte_of (s ! 0) - 224" "byte_of (s ! 1) - 128" "byte_of (s ! 2) - 128"]
      by (simp only: list.map char_of_char)
  next
    case four
    have "byte_of (s ! 1) - 128 < 64" "128 + (byte_of (s ! 1) - 128) = byte_of (s ! 1)"
      and "byte_of (s ! 2) - 128 < 64" "128 + (byte_of (s ! 2) - 128) = byte_of (s ! 2)"
      and "byte_of (s ! 3) - 128 < 64" "128 + (byte_of (s ! 3) - 128) = byte_of (s ! 3)"
      and "240 + (byte_of (s ! 0) - 240) = byte_of (s ! 0)"
      using cont_digit [OF second_cont [OF four(5)]] cont_digit [OF four(6)] cont_digit [OF four(7)] four by auto
    moreover have "rune_of s n = (byte_of (s ! 0) - 240) * 262144 + (byte_of (s ! 1) - 128) * 4096
        + (byte_of (s ! 2) - 128) * 64 + (byte_of (s ! 3) - 128)"
      using four by (simp add: rune_of_def)
    moreover have "byte_of (s ! 0) - 240 = 0 \<longrightarrow> 16 \<le> byte_of (s ! 1) - 128"
      and "byte_of (s ! 0) - 240 = 4 \<longrightarrow> byte_of (s ! 1) - 128 < 16"
      using four(3,5) by (auto simp: second_ok_def second_lo_def second_hi_def split: if_splits)
    moreover have "take n s = [s ! 0, s ! 1, s ! 2, s ! 3]" using four by (subst list_cut4 [of s]) simp_all
    ultimately show ?thesis
      using four encode_four [of "byte_of (s ! 0) - 240" "byte_of (s ! 1) - 128" "byte_of (s ! 2) - 128" "byte_of (s ! 3) - 128"]
      by (simp only: list.map char_of_char)
  qed
qed

section \<open>Scanning strings\<close>

definition hex_value :: "char \<Rightarrow> nat option" where
  "hex_value c = (let b = byte_of c in
     if 48 \<le> b \<and> b \<le> 57 then Some (b - 48) else if 97 \<le> b \<and> b \<le> 102 then Some (b - 87)
     else if 65 \<le> b \<and> b \<le> 70 then Some (b - 55) else None)"

fun hex4 :: "string \<Rightarrow> (nat \<times> string) option" where
  "hex4 (a # b # c # d # t) = (case (hex_value a, hex_value b, hex_value c, hex_value d) of
       (Some a, Some b, Some c, Some d) \<Rightarrow> Some (a * 4096 + b * 256 + c * 16 + d, t)
     | _ \<Rightarrow> None)"
| "hex4 _ = None"

definition simple_escape :: "char \<Rightarrow> char option" where
  "simple_escape c =
     (if c = quote_char \<or> c = backslash_char \<or> c = CHR ''/'' then Some c
      else if c = CHR ''b'' then Some (CHR 0x08) else if c = CHR ''f'' then Some (CHR 0x0C)
      else if c = CHR ''n'' then Some (CHR 0x0A) else if c = CHR ''r'' then Some (CHR 0x0D)
      else if c = CHR ''t'' then Some (CHR 0x09) else None)"

text \<open>The rune of an escape whose first half is a surrogate, and the text after it (\<open>utf16.DecodeRune\<close>).\<close>

definition surrogate_pair :: "nat \<Rightarrow> string \<Rightarrow> nat \<times> string" where
  "surrogate_pair r s = (case s of
       b # u # t \<Rightarrow>
         if b = backslash_char \<and> u = CHR ''u'' then
           (case hex4 t of
              Some (r2, t2) \<Rightarrow> if r < 56320 \<and> 56320 \<le> r2 \<and> r2 < 57344
                               then ((r - 55296) * 1024 + (r2 - 56320) + 65536, t2) else (rune_error, s)
            | None \<Rightarrow> (rune_error, s))
         else (rune_error, s)
     | _ \<Rightarrow> (rune_error, s))"

text \<open>One item of a string literal after its opening quote: \<open>Inl\<close> closes it, \<open>Inr\<close> is text read.\<close>

definition json_item :: "string \<Rightarrow> (string + string \<times> string) option" where
  "json_item s = (case s of [] \<Rightarrow> None | c # t \<Rightarrow>
     if c = quote_char then Some (Inl t)
     else if c = backslash_char then
       (case t of [] \<Rightarrow> None | e # u \<Rightarrow>
          if e = CHR ''u'' then
            (case hex4 u of
               None \<Rightarrow> None
             | Some (r, v) \<Rightarrow> if is_surrogate r then (let (r, v) = surrogate_pair r v in Some (Inr (encode_rune r, v)))
                              else Some (Inr (encode_rune r, v)))
          else (case simple_escape e of None \<Rightarrow> None | Some ch \<Rightarrow> Some (Inr ([ch], u))))
     else if byte_of c < 32 then None
     else Some (Inr (encode_rune (fst (decode_rune s)), drop (rune_width s) s)))"

lemma hex4_length: "hex4 s = Some (r, t) \<Longrightarrow> length t < length s"
  by (cases s rule: hex4.cases) (auto split: option.splits)

lemma surrogate_pair_length: "length (snd (surrogate_pair r s)) \<le> length s"
  using hex4_length by (fastforce simp: surrogate_pair_def split: list.splits option.splits)

lemma json_item_length: "json_item s = Some (Inr (p, t)) \<Longrightarrow> length t < length s"
  using rune_width_bounds(1) [of s] hex4_length surrogate_pair_length
  by (auto simp: json_item_def Let_def split_beta split: list.splits if_splits option.splits
      dest!: hex4_length intro: le_less_trans [OF surrogate_pair_length])

function scan_json :: "string \<Rightarrow> (string \<times> string) option" where
  "scan_json s = (case json_item s of
       None \<Rightarrow> None
     | Some (Inl t) \<Rightarrow> Some ([], t)
     | Some (Inr (p, t)) \<Rightarrow> (case scan_json t of None \<Rightarrow> None | Some (v, r) \<Rightarrow> Some (p @ v, r)))"
  by pat_completeness auto
termination by (relation "measure length") (auto dest: json_item_length)

declare scan_json.simps [simp del]

lemma scan_item: "json_item s = Some (Inr (p, t)) \<Longrightarrow> scan_json t = Some (v, r) \<Longrightarrow> scan_json s = Some (p @ v, r)"
  by (simp add: scan_json.simps [of s])

section \<open>Arrays of strings\<close>

definition json_space :: "char \<Rightarrow> bool" where
  "json_space c \<longleftrightarrow> c = CHR 0x20 \<or> c = CHR 0x09 \<or> c = CHR 0x0A \<or> c = CHR 0x0D"

abbreviation skip_ws :: "string \<Rightarrow> string" where "skip_ws \<equiv> dropWhile json_space"

definition json_element :: "string \<Rightarrow> (string \<times> string) option" where
  "json_element s =
     (if s \<noteq> [] \<and> hd s = quote_char then scan_json (tl s)
      else if has_prefix s ''null'' then Some ([], drop 4 s) else None)"

lemma scan_json_length: "scan_json s = Some (v, r) \<Longrightarrow> length r < length s"
proof (induction s arbitrary: v r rule: scan_json.induct)
  case (1 s)
  show ?case
  proof (cases "json_item s")
    case None
    with 1 show ?thesis by (simp add: scan_json.simps [of s])
  next
    case (Some x)
    show ?thesis
    proof (cases x)
      case (Inl t)
      with Some "1.prems" have "t = r" "json_item s = Some (Inl r)" by (simp_all add: scan_json.simps [of s])
      then show ?thesis by (auto simp: json_item_def Let_def split_beta split: list.splits if_splits option.splits)
    next
      case (Inr pt)
      obtain p t where pt: "pt = (p, t)" by (cases pt)
      from Some Inr pt "1.prems" obtain v' where "scan_json t = Some (v', r)"
        by (auto simp: scan_json.simps [of s] split: option.splits)
      with "1.IH" [OF Some Inr pt [symmetric]] json_item_length [of s p t] Some Inr pt show ?thesis by fastforce
    qed
  qed
qed

lemma json_element_length: "json_element s = Some (v, r) \<Longrightarrow> length r < length s"
  using scan_json_length [of "tl s" v r]
  by (cases s) (auto simp: json_element_def has_prefix_iff split: if_splits)

lemma skip_ws_length: "length (skip_ws s) \<le> length s"
  by (induction s) auto

function json_elements :: "string \<Rightarrow> (string list \<times> string) option" where
  "json_elements s = (case json_element (skip_ws s) of
       None \<Rightarrow> None
     | Some (v, r) \<Rightarrow> (case skip_ws r of
           [] \<Rightarrow> None
         | c # t \<Rightarrow> if c = CHR '']'' then Some ([v], t)
                    else if c = CHR '','' then (case json_elements t of None \<Rightarrow> None | Some (vs, u) \<Rightarrow> Some (v # vs, u))
                    else None))"
  by pat_completeness auto
termination
proof (relation "measure length")
  fix s x v r c t
  assume a: "json_element (skip_ws s) = Some x" "(v, r) = x" "skip_ws r = c # t"
  then have "length r < length (skip_ws s)" using json_element_length [of "skip_ws s" v r] by simp
  moreover have "length t < length r" using a(3) skip_ws_length [of r] by simp
  ultimately show "(t, s) \<in> measure length" using skip_ws_length [of s] by simp
qed simp

declare json_elements.simps [simp del]

definition unmarshal_strings :: "string \<Rightarrow> string list option" where
  "unmarshal_strings s = (case skip_ws s of
       [] \<Rightarrow> None
     | c # t \<Rightarrow>
         if c = CHR ''['' then
           (if skip_ws t \<noteq> [] \<and> hd (skip_ws t) = CHR '']'' then
              (if skip_ws (tl (skip_ws t)) = [] then Some [] else None)
            else case json_elements t of
              None \<Rightarrow> None
            | Some (vs, r) \<Rightarrow> if skip_ws r = [] then Some vs else None)
         else if has_prefix (c # t) ''null'' \<and> skip_ws (drop 4 (c # t)) = [] then Some []
         else None)"

section \<open>Reading back what was written\<close>

lemma hex_value_digit: "n < 16 \<Longrightarrow> hex_value (hex_digit n) = Some n"
  by (auto simp: hex_value_def hex_digit_def Let_def)

lemma hex4_escape: "r < 65536 \<Longrightarrow> hex4 (map hex_digit [r div 4096 mod 16, r div 256 mod 16, r div 16 mod 16, r mod 16] @ t) = Some (r, t)"
proof -
  assume r: "r < 65536"
  have a: "r = r div 16 * 16 + r mod 16" by simp
  have b: "r div 16 = r div 256 * 16 + r div 16 mod 16" by (simp add: div_mult2_eq [of r 16 16, simplified])
  have c: "r div 256 = r div 4096 * 16 + r div 256 mod 16" by (simp add: div_mult2_eq [of r 256 16, simplified])
  have d: "r div 4096 mod 16 = r div 4096" using r by simp
  have "r div 4096 * 4096 + r div 256 mod 16 * 256 + r div 16 mod 16 * 16 + r mod 16 = r"
    using a b c by linarith
  moreover have "hex_value (hex_digit (r div 4096)) = Some (r div 4096)" using r by (intro hex_value_digit) simp
  ultimately show ?thesis using d by (simp add: hex_value_digit)
qed

lemma unicode_item:
  assumes "r < 65536" and "\<not> is_surrogate r"
  shows "json_item (unicode_escape r @ t) = Some (Inr (encode_rune r, t))"
  using hex4_escape [OF assms(1), of t] assms(2)
  by (simp add: json_item_def unicode_escape_def quote_char_def backslash_char_def)

text \<open>Each escape \<open>json.Marshal\<close> writes for a valid rune is read as the bytes of the rune.\<close>

lemma char_of_byte: "byte_of c = n \<Longrightarrow> char_of n = c"
  by (metis char_of_char)

lemma piece_item:
  assumes "rune_shape s n"
  shows "json_item (json_piece (rune_of s n, take n s) @ t) = Some (Inr (take n s, t))"
proof -
  let ?r = "rune_of s n"
  have enc: "encode_rune ?r = take n s" by (rule encode_rune_of [OF assms])
  have inv: "\<not> invalid_piece (?r, take n s)"
    using shape_error_width [OF assms] shape_length [OF assms] by (auto simp: invalid_piece_def min_def)
  have ascii: "take n s = [char_of ?r]" if "?r < 128" using enc that by (simp add: encode_rune_def)
  consider (esc) "?r \<in> {34, 92, 8, 12, 10, 13, 9}"
    | (uni) "?r \<notin> {34, 92, 8, 12, 10, 13, 9}" "?r < 32 \<or> ?r \<in> {60, 62, 38, 8232, 8233}"
    | (plain) "?r \<notin> {34, 92, 60, 62, 38, 8232, 8233}" "32 \<le> ?r" by fastforce
  then show ?thesis
  proof cases
    case esc
    have e: "char_of (34 :: nat) = CHR 0x22" "char_of (92 :: nat) = CHR 0x5C" "char_of (8 :: nat) = CHR 0x08"
      "char_of (12 :: nat) = CHR 0x0C" "char_of (10 :: nat) = CHR 0x0A" "char_of (13 :: nat) = CHR 0x0D"
      "char_of (9 :: nat) = CHR 0x09"
      by (rule char_of_byte; simp)+
    from esc show ?thesis
      by (auto simp: ascii json_piece_def json_item_def simple_escape_def quote_char_def backslash_char_def Let_def e)
  next
    case uni
    then have "?r < 65536" "\<not> is_surrogate ?r" by (auto simp: is_surrogate_def)
    from unicode_item [OF this, of t] uni show ?thesis by (auto simp: json_piece_def Let_def enc)
  next
    case plain
    have sh: "rune_shape (take n s @ t) n \<and> rune_of (take n s @ t) n = ?r"
      using shape_length [OF assms] by (intro shape_cong [OF assms]) (auto simp: nth_append)
    have ne: "take n s \<noteq> []" using shape_length [OF assms] by auto
    have w: "rune_width (take n s @ t) = n" "fst (decode_rune (take n s @ t)) = ?r"
      using decode_of_shape [OF conjunct1 [OF sh]] sh by (simp_all add: rune_width_def)
    have piece: "json_piece (?r, take n s) = take n s"
      using plain inv by (auto simp: json_piece_def Let_def)
    obtain c u where cu: "take n s = c # u" using ne by (cases "take n s") auto
    have c: "c \<noteq> quote_char" "c \<noteq> backslash_char" "\<not> byte_of c < 32"
    proof -
      have "byte_of c = ?r" if "byte_of c < 128"
      proof -
        have "n = 1" using assms cu that by (cases s) (auto simp: rune_shape_def)
        then show ?thesis using cu by (cases s) (simp_all add: rune_of_def)
      qed
      then show "c \<noteq> quote_char" "c \<noteq> backslash_char" "\<not> byte_of c < 32"
        using plain by (auto simp: quote_char_def backslash_char_def)
    qed
    have len: "length (take n s) = n" using shape_length [OF assms] by simp
    have "json_item (take n s @ t) = Some (Inr (encode_rune (fst (decode_rune (take n s @ t))), drop (rune_width (take n s @ t)) (take n s @ t)))"
      using c by (simp add: json_item_def cu)
    then show ?thesis unfolding piece w enc using len by simp
  qed
qed

lemma scan_json_string:
  "valid_utf8 s \<Longrightarrow> scan_json (concat (map json_piece (runes s)) @ quote_char # t) = Some (s, t)"
proof (induction s rule: valid_induct)
  case (Rune s n)
  have "runes s = (rune_of s n, take n s) # runes (drop n s)" by (rule runes_shape [OF Rune.hyps(1)])
  then have "concat (map json_piece (runes s)) @ quote_char # t
      = json_piece (rune_of s n, take n s) @ (concat (map json_piece (runes (drop n s))) @ quote_char # t)" by simp
  then show ?case
    using scan_item [OF piece_item [OF Rune.hyps(1)] Rune.IH] by simp
qed (simp add: scan_json.simps json_item_def)

lemma element_string: "valid_utf8 s \<Longrightarrow> json_element (skip_ws (json_string s @ t)) = Some (s, t)"
  using scan_json_string [of s t]
  by (simp add: json_string_def json_element_def json_space_def quote_char_def)

lemma elements_strings:
  assumes "\<forall>x \<in> set xs. valid_utf8 x" and "xs \<noteq> []"
  shows "json_elements (join '','' (map json_string xs) @ CHR '']'' # t) = Some (xs, t)"
  using assms
proof (induction xs)
  case (Cons x xs)
  show ?case
  proof (cases "xs = []")
    case True
    then show ?thesis
      using element_string [of x "CHR '']'' # t"] Cons.prems
      by (subst json_elements.simps) (simp add: json_space_def)
  next
    case False
    then show ?thesis
      using element_string [of x "CHR '','' # join '','' (map json_string xs) @ CHR '']'' # t"] Cons
      by (subst json_elements.simps) (simp add: json_space_def join_cons)
  qed
qed simp

theorem unmarshal_strings_json:
  assumes "\<forall>x \<in> set xs. valid_utf8 x"
  shows "unmarshal_strings (json_strings xs) = Some xs"
proof (cases "xs = []")
  case True
  then show ?thesis by (simp add: unmarshal_strings_def json_strings_def json_space_def)
next
  case False
  then obtain y ys where "xs = y # ys" by (cases xs) auto
  then have "\<exists>u. join '','' (map json_string xs) @ '']'' = quote_char # u"
    by (cases ys) (simp_all add: json_string_def)
  then obtain u where u: "join '','' (map json_string xs) @ '']'' = quote_char # u" by blast
  have "json_elements (quote_char # u) = Some (xs, [])"
    using elements_strings [OF assms False, of "[]"] by (simp add: u)
  then show ?thesis
    by (simp add: unmarshal_strings_def json_strings_def u json_space_def quote_char_def)
qed

end
