(* ===== verification/Identities.thy ===== *)
theory Identities
  imports GoJSON
begin

text \<open>
  Identities as text: \<open>EncodeScopedID\<close> and \<open>DecodeScopedID\<close> of \<open>internal/im/im_identity.go\<close>, the
  process keys of \<open>internal/gateway/process_key.go\<close> and the platform a session pin belongs to
  (\<open>session_pin_key.go\<close>). Both encodings are base64 of a JSON array; what is decoded is
  exactly what was encoded, so an identity can be compared and stored as its text.
\<close>

section \<open>Scoped identities\<close>

definition MaxScopedIDBytes :: nat where "MaxScopedIDBytes = 2048"
definition maxScopedJSONBytes :: nat where "maxScopedJSONBytes = 1536"

definition validIDPrefix :: "string \<Rightarrow> bool" where
  "validIDPrefix prefix \<longleftrightarrow>
     \<not> (length prefix < 2 \<or> 64 < length prefix \<or> prefix ! (length prefix - 1) \<noteq> CHR '':'') \<and>
     list_all (\<lambda>p. (97 \<le> fst p \<and> fst p \<le> 122) \<or> (48 \<le> fst p \<and> fst p \<le> 57) \<or> fst p = 45)
       (runes (take (length prefix - 1) prefix))"

definition EncodeScopedID :: "string \<Rightarrow> string list \<Rightarrow> string option" where
  "EncodeScopedID prefix parts =
     (if \<not> validIDPrefix prefix \<or> length parts = 0 then None
      else if list_ex (\<lambda>p. p = '''' \<or> \<not> valid_utf8 p) parts then None
      else let b = json_strings parts; v = prefix @ base64_encode b in
        if maxScopedJSONBytes < length b \<or> MaxScopedIDBytes < length v then None else Some v)"

definition DecodeScopedID :: "string \<Rightarrow> string \<Rightarrow> int \<Rightarrow> string list option" where
  "DecodeScopedID v prefix count =
     (if count < 1 \<or> \<not> validIDPrefix prefix \<or> \<not> has_prefix v prefix \<or> MaxScopedIDBytes < length v then None
      else case base64_decode True (trim_prefix v prefix) of
        None \<Rightarrow> None
      | Some b \<Rightarrow>
          if maxScopedJSONBytes < length b then None
          else case unmarshal_strings b of
            None \<Rightarrow> None
          | Some parts \<Rightarrow>
              if int (length parts) \<noteq> count then None
              else if EncodeScopedID prefix parts \<noteq> Some v then None else Some parts)"

text \<open>Decoding is the inverse of encoding, in both directions and with no conditions: a text
  decodes to some parts exactly when it is the encoding of them. No identity has two texts
  and no text two readings.\<close>

theorem scoped_id_iff:
  "DecodeScopedID v prefix count = Some parts \<longleftrightarrow> EncodeScopedID prefix parts = Some v \<and> int (length parts) = count"
proof
  assume "DecodeScopedID v prefix count = Some parts"
  then show "EncodeScopedID prefix parts = Some v \<and> int (length parts) = count"
    by (auto simp: DecodeScopedID_def split: if_splits option.splits)
next
  assume e: "EncodeScopedID prefix parts = Some v \<and> int (length parts) = count"
  then have c: "validIDPrefix prefix" "parts \<noteq> []" "\<forall>p \<in> set parts. valid_utf8 p"
    and v: "v = prefix @ base64_encode (json_strings parts)" "length (json_strings parts) \<le> maxScopedJSONBytes"
      "length v \<le> MaxScopedIDBytes"
    by (auto simp: EncodeScopedID_def Let_def list_ex_iff split: if_splits)
  have count: "\<not> count < 1" using e c(2) by (cases parts) auto
  have "base64_decode True (trim_prefix v prefix) = Some (json_strings parts)"
    using b64.decode_encode [of True "json_strings parts"] by (simp add: v(1))
  moreover have "unmarshal_strings (json_strings parts) = Some parts" by (rule unmarshal_strings_json [OF c(3)])
  moreover have "has_prefix v prefix" by (simp add: v(1))
  ultimately show "DecodeScopedID v prefix count = Some parts"
    using count c v e by (simp add: DecodeScopedID_def)
qed

definition SupportedIMPlatform :: "string \<Rightarrow> bool" where
  "SupportedIMPlatform platform \<longleftrightarrow>
     platform \<in> {''wechat'', ''feishu'', ''telegram'', ''discord'', ''wecom'', ''dingtalk'', ''slack''}"

section \<open>Process keys\<close>

record process_key =
  pk_workspaceID :: string
  pk_imType :: string
  pk_chatID :: string

definition key_prefix :: string where
  "key_prefix = ''v2:''"

definition key_String :: "process_key \<Rightarrow> string" where
  "key_String k = key_prefix @ base64_encode (json_strings [pk_workspaceID k, pk_imType k, pk_chatID k])"

definition parseProcessKey :: "string \<Rightarrow> process_key" where
  "parseProcessKey s =
     (let none = \<lparr>pk_workspaceID = '''', pk_imType = '''', pk_chatID = ''''\<rparr> in
      if has_prefix s key_prefix then
        (case base64_decode False (trim_prefix s key_prefix) of
           None \<Rightarrow> none
         | Some payload \<Rightarrow>
             (case unmarshal_strings payload of
                None \<Rightarrow> none
              | Some parts \<Rightarrow>
                  if length parts \<noteq> 3 then none
                  else \<lparr>pk_workspaceID = parts ! 0, pk_imType = parts ! 1, pk_chatID = parts ! 2\<rparr>))
      else none)"

definition key_valid :: "process_key \<Rightarrow> bool" where
  "key_valid k \<longleftrightarrow> valid_utf8 (pk_workspaceID k) \<and> valid_utf8 (pk_imType k) \<and> valid_utf8 (pk_chatID k)"

text \<open>A process key gives back the binding it was made from, so two bindings never share a
  process, a pinned session or a transfer guard. Identifiers are valid UTF-8: they come from
  JSON documents or were checked on the way in.\<close>

theorem process_key_roundtrip:
  assumes "key_valid k"
  shows "parseProcessKey (key_String k) = k"
proof -
  let ?parts = "[pk_workspaceID k, pk_imType k, pk_chatID k]"
  have "base64_decode False (trim_prefix (key_String k) key_prefix) = Some (json_strings ?parts)"
    using b64.decode_encode [of False "json_strings ?parts"] by (simp add: key_String_def)
  moreover have "unmarshal_strings (json_strings ?parts) = Some ?parts"
    using assms by (intro unmarshal_strings_json) (simp add: key_valid_def)
  moreover have "has_prefix (key_String k) key_prefix" by (simp add: key_String_def)
  ultimately show ?thesis by (simp add: parseProcessKey_def)
qed

lemma process_key_roundtrip_witness:
  "parseProcessKey (key_String \<lparr>pk_workspaceID = ''ws'', pk_imType = ''slack'', pk_chatID = ''C1''\<rparr>)
   = \<lparr>pk_workspaceID = ''ws'', pk_imType = ''slack'', pk_chatID = ''C1''\<rparr>"
  by (rule process_key_roundtrip) (simp add: key_valid_def ascii_eval)

lemma key_String_inj: "key_valid k \<Longrightarrow> key_valid k' \<Longrightarrow> key_String k = key_String k' \<Longrightarrow> k = k'"
proof -
  assume v: "key_valid k" "key_valid k'" and eq: "key_String k = key_String k'"
  let ?p = "\<lambda>k. [pk_workspaceID k, pk_imType k, pk_chatID k]"
  have u: "unmarshal_strings (json_strings (?p k)) = Some (?p k)" if "key_valid k" for k
    using that by (intro unmarshal_strings_json) (simp add: key_valid_def)
  have "json_strings (?p k) = json_strings (?p k')" using eq b64.encode_inj by (simp add: key_String_def)
  then have "?p k = ?p k'" using u [OF v(1)] u [OF v(2)] by (metis option.inject)
  then show ?thesis by simp
qed

text \<open>A key holds no separator of the retired layouts, so none is dropped on load.\<close>

lemma key_chars: "c \<in> set (key_String k) \<Longrightarrow> c \<in> set key_prefix \<or> c \<in> set base64_symbols"
  using b64.encode_symbols by (auto simp: key_String_def)

lemma base64_bytes: "c \<in> set base64_symbols \<Longrightarrow> byte_of c < 123"
  by (auto simp: base64_symbols_def simp del: upt_rec_numeral)

definition pinPlatform :: "string \<Rightarrow> string option" where
  "pinPlatform key =
     (let k = parseProcessKey key in
      if pk_workspaceID k = '''' \<or> pk_chatID k = ''''
         \<or> (\<not> SupportedIMPlatform (pk_imType k) \<and> pk_imType k \<noteq> ''console'')
      then None else Some (pk_imType k))"

text \<open>\<open>formatProcessLogContext\<close>, for the part of a log line that names a binding.\<close>

definition formatProcessLogContext :: "string \<Rightarrow> process_key \<Rightarrow> string \<Rightarrow> string" where
  "formatProcessLogContext key k sid =
     (if pk_workspaceID k = '''' \<and> pk_imType k = '''' \<and> pk_chatID k = '''' then ''key='' @ key @ '' sid='' @ sid
      else ''wid='' @ pk_workspaceID k @ '' im='' @ pk_imType k @ '' chat_id='' @ pk_chatID k @ '' sid='' @ sid)"

end
