(* ===== verification/SessionPins.thy ===== *)
theory SessionPins
  imports DurableFile Identities
begin

text \<open>
  \<open>internal/gateway/session_pins.go\<close> and \<open>session_pin_key.go\<close>: which agent session each binding
  resumes. Memory is published only after the file was written, so what the gateway acts on
  is what a restart will find. The mutexes make each operation one step.
\<close>

type_synonym pins = "(string, string) gomap"

record pin_store =
  pn_pins :: pins
  pn_disk :: "pins small_file"

text \<open>What reading the file gives: no file, an error, text that is not JSON, \<open>null\<close> or a map.\<close>

datatype 'a file_text = NoFile | ReadError | BadJSON | NullJSON | Content 'a

definition retiredPinKeyPrefix :: string where
  "retiredPinKeyPrefix = ''paired:''"

definition retired_key :: "string \<Rightarrow> bool" where
  "retired_key key \<longleftrightarrow> has_prefix key retiredPinKeyPrefix \<or> CHR ''|'' \<in> set key"

definition savePins :: "write_end \<Rightarrow> pins \<Rightarrow> pin_store \<Rightarrow> pin_store \<times> bool" where
  "savePins e pins s =
     (let (d, ok) = writePrivateFileSynced e pins (pn_disk s) in (s\<lparr>pn_disk := d\<rparr>, ok))"

text \<open>\<open>Load\<close>: the result is False on an error. A cleaned map is written back, with a failure only logged.\<close>

definition pins_Load :: "write_end \<Rightarrow> pins file_text \<Rightarrow> pin_store \<Rightarrow> pin_store \<times> bool" where
  "pins_Load e content s = (case content of
       NoFile \<Rightarrow> (s, True)
     | ReadError \<Rightarrow> (s, False)
     | BadJSON \<Rightarrow> (s, False)
     | NullJSON \<Rightarrow> (s\<lparr>pn_pins := []\<rparr>, True)
     | Content pins \<Rightarrow>
         (let kept = filter (\<lambda>(k, v). \<not> retired_key k) pins; s1 = s\<lparr>pn_pins := kept\<rparr> in
          if 0 < length pins - length kept then (fst (savePins e kept s1), True) else (s1, True)))"

definition pins_Save :: "write_end \<Rightarrow> pin_store \<Rightarrow> pin_store \<times> bool" where
  "pins_Save e s = savePins e (pn_pins s) s"

definition pins_Get :: "string \<Rightarrow> pin_store \<Rightarrow> string" where
  "pins_Get key s = get_or '''' (pn_pins s) key"

text \<open>The common end of the writers: publish \<open>next\<close> once it is on disk.\<close>

definition publish_pins :: "write_end \<Rightarrow> pins \<Rightarrow> pin_store \<Rightarrow> pin_store \<times> bool" where
  "publish_pins e new s =
     (let (s1, ok) = savePins e new s in if ok then (s1\<lparr>pn_pins := new\<rparr>, True) else (s1, False))"

definition pins_Set :: "write_end \<Rightarrow> string \<Rightarrow> string \<Rightarrow> pin_store \<Rightarrow> pin_store \<times> bool" where
  "pins_Set e key sessionID s =
     (let current = map_of (pn_pins s) key; remove = (trim_space sessionID = '''') in
      if (remove \<and> current = None) \<or> (\<not> remove \<and> current = Some sessionID) then (s, True)
      else publish_pins e (if remove then AList.delete key (pn_pins s) else AList.update key sessionID (pn_pins s)) s)"

definition pins_ClearIf :: "write_end \<Rightarrow> string \<Rightarrow> string \<Rightarrow> pin_store \<Rightarrow> pin_store \<times> bool" where
  "pins_ClearIf e key sessionID s =
     (if get_or '''' (pn_pins s) key \<noteq> sessionID then (s, True)
      else publish_pins e (AList.delete key (pn_pins s)) s)"

definition pins_ClearPlatform :: "write_end \<Rightarrow> string \<Rightarrow> pin_store \<Rightarrow> pin_store \<times> bool" where
  "pins_ClearPlatform e platform s =
     publish_pins e (filter (\<lambda>(k, v). pinPlatform k \<noteq> Some platform) (pn_pins s)) s"

lemmas [handler_defs] = savePins_def publish_pins_def pins_Set_def pins_ClearIf_def pins_ClearPlatform_def

section \<open>Memory and disk\<close>

datatype pin_op =
    PinSet write_end string string
  | PinClearIf write_end string string
  | PinClearPlatform write_end string

fun pin_step :: "pin_op \<Rightarrow> pin_store \<Rightarrow> pin_store \<times> bool" where
  "pin_step (PinSet e k v) s = pins_Set e k v s"
| "pin_step (PinClearIf e k v) s = pins_ClearIf e k v s"
| "pin_step (PinClearPlatform e p) s = pins_ClearPlatform e p s"

fun pin_run :: "pin_op list \<Rightarrow> pin_store \<Rightarrow> pin_store" where
  "pin_run [] s = s"
| "pin_run (op # ops) s = pin_run ops (fst (pin_step op s))"

text \<open>Every write but the last one acknowledged may have failed; a failed write leaves memory alone.\<close>

lemma publish_memory:
  "publish_pins e new s = (s', ok) \<Longrightarrow> (ok \<longrightarrow> pn_pins s' = new \<and> readings (pn_disk s') = {Some new})
     \<and> (\<not> ok \<longrightarrow> pn_pins s' = pn_pins s \<and> readings (pn_disk s') \<subseteq> insert (Some new) (readings (pn_disk s)))"
proof -
  assume p: "publish_pins e new s = (s', ok)"
  obtain d r where w: "writePrivateFileSynced e new (pn_disk s) = (d, r)" by fastforce
  show ?thesis
  proof (cases r)
    case True
    with w p have "s' = s\<lparr>pn_disk := d, pn_pins := new\<rparr>" "ok" by (simp_all add: publish_pins_def savePins_def)
    with df.acknowledged w True show ?thesis by simp
  next
    case False
    with w p have "s' = s\<lparr>pn_disk := d\<rparr>" "\<not> ok" by (simp_all add: publish_pins_def savePins_def)
    with df.uncertain w False show ?thesis by simp
  qed
qed

text \<open>
  A pin operation that reports an error leaves every pin the gateway uses as it was, and
  one that reports success after writing is what a restart finds, whatever was pending before.
\<close>

theorem pin_failure_keeps_memory:
  assumes "pin_step op s = (s', False)"
  shows "pn_pins s' = pn_pins s"
proof -
  have p: "publish_pins e new s = (s', False) \<Longrightarrow> pn_pins s' = pn_pins s" for e new
    using publish_memory by blast
  from assms show ?thesis
    by (cases op) (auto simp: pins_Set_def pins_ClearIf_def pins_ClearPlatform_def Let_def split: if_splits intro: p)
qed

lemma pin_failure_keeps_memory_witness:
  "pn_pins (fst (pin_step (PinSet FailedUnsynced ''k'' ''s2'') \<lparr>pn_pins = [(''k'', ''s1'')], pn_disk = fresh_file None\<rparr>)) = [(''k'', ''s1'')]"
  using pin_failure_keeps_memory
    [of "PinSet FailedUnsynced ''k'' ''s2''" "\<lparr>pn_pins = [(''k'', ''s1'')], pn_disk = fresh_file None\<rparr>"
        "fst (pin_step (PinSet FailedUnsynced ''k'' ''s2'') \<lparr>pn_pins = [(''k'', ''s1'')], pn_disk = fresh_file None\<rparr>)"]
  by (simp add: handler_defs writePrivateFileSynced_def trim_space_def ascii_eval space_piece_def is_space_def rune_bytes_def)

text \<open>
  Clearing the pin of a session that was replaced meanwhile does nothing: only the pin that
  names the given session is removed, and no other binding loses its pin.
\<close>

theorem ClearIf_only_that_session:
  assumes "pins_ClearIf e key sessionID s = (s', ok)" and "map_of (pn_pins s) k = Some v" and "k \<noteq> key \<or> v \<noteq> sessionID"
  shows "map_of (pn_pins s') k = Some v"
proof (cases "get_or '''' (pn_pins s) key \<noteq> sessionID")
  case True
  with assms show ?thesis by (simp add: pins_ClearIf_def)
next
  case False
  with assms(2,3) have "k \<noteq> key" by (auto simp: get_or_def)
  moreover have "publish_pins e (AList.delete key (pn_pins s)) s = (s', ok)" using False assms(1) by (simp add: pins_ClearIf_def)
  ultimately show ?thesis using assms(2) publish_memory by (cases ok) fastforce+
qed

lemma ClearIf_only_that_session_witness:
  "map_of (pn_pins (fst (pins_ClearIf Written ''k'' ''s1'' \<lparr>pn_pins = [(''k'', ''s2'')], pn_disk = fresh_file None\<rparr>))) ''k'' = Some ''s2''"
  by (rule ClearIf_only_that_session [OF prod.collapse [symmetric]]) simp_all

lemma ClearPlatform_pins:
  assumes "pins_ClearPlatform e platform s = (s', True)" and "wf_map (pn_pins s)"
  shows "map_of (pn_pins s') k = (if pinPlatform k = Some platform then None else map_of (pn_pins s) k)"
  using assms publish_memory [of e _ s s' True]
  by (auto simp: pins_ClearPlatform_def map_of_filter_pairs split: option.splits)

text \<open>A key of the current layout survives a restart: loading drops only keys nothing can address.\<close>

lemma current_key_kept: "\<not> retired_key (key_String k)"
proof -
  have "CHR ''|'' \<notin> set (key_String k)"
    using key_chars [of "CHR ''|''" k] base64_bytes [of "CHR ''|''"] by (auto simp: key_prefix_def)
  moreover have "\<not> has_prefix (key_String k) retiredPinKeyPrefix"
    by (simp add: has_prefix_def key_String_def key_prefix_def retiredPinKeyPrefix_def)
  ultimately show ?thesis by (simp add: retired_key_def)
qed

end
