(* ===== verification/SessionTransfers.thy ===== *)
theory SessionTransfers
  imports DurableFile Identities
begin

text \<open>
  \<open>internal/gateway/session_transfers.go\<close>: the guards that block a binding while its session is
  handed to another process. Losing a guard would let two processes drive one session, so a
  deletion is journalled: the old guards go to a second file before the primary one is
  replaced. Each operation is one step on the store and its two files; the environment says
  how each write ends.
\<close>

record transfer_blocker =
  tb_OwnerTaskID :: string
  tb_Type :: string
  tb_StartedAt :: string
  tb_Description :: string

record transfer_status =
  tr_BindingInstanceID :: string
  tr_TransferID :: string
  tr_SessionID :: string
  tr_SourceRuntimeID :: string
  tr_SourceSessionEpoch :: "64 word"
  tr_Workspace :: string
  tr_TargetKind :: string
  tr_TargetInstanceID :: string
  tr_State :: string
  tr_StartedAt :: string
  tr_WaitExpired :: bool
  tr_PendingInputs :: int
  tr_CheckpointID :: string
  tr_ErrorCode :: string
  tr_Message :: string
  tr_RecoverableAction :: string
  tr_Blockers :: "transfer_blocker list"
  tr_BlockerCount :: int

record session_transfer =
  st_Status :: transfer_status
  st_Interrupted :: bool
  st_Direction :: string
  st_BindingInstanceID :: string

type_synonym guards = "(string, session_transfer) gomap"

record transfer_store =
  ts_entries :: guards
  ts_loadErr :: "string option"
  ts_writeUncertain :: bool

record transfer_disk =
  td_primary :: "guards small_file"
  td_pending :: "guards small_file"

text \<open>\<open>readSessionTransferRecords\<close> on what the file holds; \<open>None\<close> is an error.\<close>

datatype transfer_text = TextMissing | TextUnreadable | TextBad | TextNull | TextRecords guards

definition record_readable :: "session_transfer \<Rightarrow> bool" where
  "record_readable r \<longleftrightarrow> tr_SessionID (st_Status r) \<noteq> '''' \<and> tr_TransferID (st_Status r) \<noteq> ''''"

definition readSessionTransferRecords :: "transfer_text \<Rightarrow> guards option" where
  "readSessionTransferRecords t = (case t of
       TextMissing \<Rightarrow> Some []
     | TextUnreadable \<Rightarrow> None
     | TextBad \<Rightarrow> None
     | TextNull \<Rightarrow> None
     | TextRecords rs \<Rightarrow> if list_all (\<lambda>(k, r). record_readable r) rs then Some rs else None)"

fun merge_pending :: "guards \<Rightarrow> guards \<Rightarrow> guards" where
  "merge_pending entries [] = entries"
| "merge_pending entries ((k, r) # rs) =
     merge_pending (if map_of entries k = None then AList.update k r entries else entries) rs"

definition transfers_Load :: "transfer_text \<Rightarrow> transfer_text \<Rightarrow> transfer_store \<Rightarrow> transfer_store \<times> bool" where
  "transfers_Load primary pending s =
     (let failed = (s\<lparr>ts_loadErr := Some ''load session transfers''\<rparr>, False) in
      case readSessionTransferRecords primary of
        None \<Rightarrow> failed
      | Some entries \<Rightarrow>
          (case readSessionTransferRecords pending of
             None \<Rightarrow> failed
           | Some ps \<Rightarrow>
               (\<lparr>ts_entries = merge_pending entries ps, ts_loadErr = None, ts_writeUncertain = False\<rparr>, True)))"

definition transfers_Get :: "string \<Rightarrow> transfer_store option \<Rightarrow> session_transfer option \<times> string option" where
  "transfers_Get key s = (case s of None \<Rightarrow> (None, None) | Some s \<Rightarrow> (map_of (ts_entries s) key, ts_loadErr s))"

definition Blocked :: "string \<Rightarrow> transfer_store option \<Rightarrow> bool" where
  "Blocked key s \<longleftrightarrow> (let (v, err) = transfers_Get key s in v \<noteq> None \<or> err \<noteq> None)"

section \<open>Commit\<close>

datatype transfer_error =
    LoadFailed | StaleTransfer | TransferBusy | ReplaceNeedsIdentity | JournalFailed | PersistFailed | CleanupFailed

text \<open>How the writes of one commit end: the journal, the primary file, its removal, the last sync.\<close>

record commit_env =
  ce_pending :: write_end
  ce_primary :: write_end
  ce_removed :: bool
  ce_synced :: bool

definition normalized :: "bool \<Rightarrow> session_transfer option \<Rightarrow> session_transfer \<Rightarrow> session_transfer" where
  "normalized inherit old v =
     (let v1 = (if inherit then (case old of
               None \<Rightarrow> v
             | Some o' \<Rightarrow> (let w = v\<lparr>st_Interrupted := st_Interrupted v \<or> st_Interrupted o'\<rparr> in
                 if tr_StartedAt (st_Status o') \<noteq> '''' then w\<lparr>st_Status := st_Status w\<lparr>tr_StartedAt := tr_StartedAt (st_Status o')\<rparr>\<rparr>
                 else w))
           else v) in
      v1\<lparr>st_Status := st_Status v1\<lparr>tr_WaitExpired := False\<rparr>\<rparr>)"

definition put_primary :: "write_end \<Rightarrow> guards \<Rightarrow> transfer_disk \<Rightarrow> transfer_disk \<times> bool" where
  "put_primary e g d =
     (let (f, ok) = writePrivateFileSynced e g (td_primary d) in
      (if ok then d\<lparr>td_primary := f, td_pending := file_sync (td_pending d)\<rparr> else d\<lparr>td_primary := f\<rparr>, ok))"

definition put_pending :: "write_end \<Rightarrow> guards \<Rightarrow> transfer_disk \<Rightarrow> transfer_disk \<times> bool" where
  "put_pending e g d =
     (let (f, ok) = writePrivateFileSynced e g (td_pending d) in
      (if ok then d\<lparr>td_pending := f, td_primary := file_sync (td_primary d)\<rparr> else d\<lparr>td_pending := f\<rparr>, ok))"

definition drop_pending :: "transfer_disk \<Rightarrow> transfer_disk" where
  "drop_pending d = d\<lparr>td_pending := file_replace None (td_pending d)\<rparr>"

definition sync_directory :: "transfer_disk \<Rightarrow> transfer_disk" where
  "sync_directory d = \<lparr>td_primary = file_sync (td_primary d), td_pending = file_sync (td_pending d)\<rparr>"

text \<open>
  The write half of \<open>commit\<close>, for an update (\<open>delete_journal\<close> is \<open>None\<close>) or for a deletion, with the
  disks it passes through; a crash shows one of them. The result is the last disk and the error.
\<close>

definition commit_writes :: "commit_env \<Rightarrow> guards option \<Rightarrow> guards \<Rightarrow> transfer_disk
    \<Rightarrow> transfer_disk list \<times> transfer_error option" where
  "commit_writes e journal new d = (case journal of
       None \<Rightarrow> (let (d1, ok) = put_primary (ce_primary e) new d in ([d1], if ok then None else Some PersistFailed))
     | Some previous \<Rightarrow>
         (let (d1, ok1) = put_pending (ce_pending e) previous d in
          if \<not> ok1 then ([d1], Some JournalFailed)
          else let (d2, ok2) = put_primary (ce_primary e) new d1 in
            if \<not> ok2 then ([d1, d2], Some PersistFailed)
            else if \<not> ce_removed e then ([d1, d2], Some CleanupFailed)
            else let d3 = drop_pending d2 in
              if ce_synced e then ([d1, d2, d3, sync_directory d3], None) else ([d1, d2, d3], None)))"

text \<open>The trace is the disks after each step; the first component of the result is the store.\<close>

definition transfer_commit :: "commit_env \<Rightarrow> string \<Rightarrow> session_transfer option \<Rightarrow> string \<Rightarrow> bool
    \<Rightarrow> transfer_store \<times> transfer_disk \<Rightarrow> transfer_store \<times> transfer_disk list \<times> transfer_error option" where
  "transfer_commit e key v expectedID inherit sd =
     (let (s, d) = sd in
      if ts_loadErr s \<noteq> None then (s, [], Some LoadFailed)
      else let old = map_of (ts_entries s) key in
        if expectedID \<noteq> '''' \<and> (case old of None \<Rightarrow> True | Some o' \<Rightarrow> tr_TransferID (st_Status o') \<noteq> expectedID)
        then (s, [], Some StaleTransfer)
        else if expectedID = '''' \<and> old \<noteq> None then (s, [], Some TransferBusy)
        else if v \<noteq> None \<and> old \<noteq> None \<and> \<not> ts_writeUncertain s \<and> the old = normalized inherit old (the v)
        then (s, [], None)
        else let new = (case v of None \<Rightarrow> AList.delete key (ts_entries s)
                          | Some v \<Rightarrow> AList.update key (normalized inherit old v) (ts_entries s));
                 journal = (if v = None then Some (ts_entries s) else None);
                 (trace, err) = commit_writes e journal new d in
          (if err = None then s\<lparr>ts_entries := new, ts_writeUncertain := False\<rparr> else s\<lparr>ts_writeUncertain := True\<rparr>, trace, err))"

definition transfer_update :: "commit_env \<Rightarrow> string \<Rightarrow> session_transfer option \<Rightarrow> string
    \<Rightarrow> transfer_store \<times> transfer_disk \<Rightarrow> transfer_store \<times> transfer_disk list \<times> transfer_error option" where
  "transfer_update e key v expectedID sd = transfer_commit e key v expectedID True sd"

definition transfer_replace :: "commit_env \<Rightarrow> string \<Rightarrow> session_transfer \<Rightarrow> string
    \<Rightarrow> transfer_store \<times> transfer_disk \<Rightarrow> transfer_store \<times> transfer_disk list \<times> transfer_error option" where
  "transfer_replace e key v expectedID sd =
     (if expectedID = '''' then (fst sd, [], Some ReplaceNeedsIdentity) else transfer_commit e key (Some v) expectedID False sd)"

definition failClosed :: "string \<Rightarrow> transfer_store \<Rightarrow> transfer_store" where
  "failClosed err s = s\<lparr>ts_loadErr := Some err\<rparr>"

definition last_disk :: "transfer_disk \<Rightarrow> transfer_disk list \<Rightarrow> transfer_disk" where
  "last_disk d trace = (if trace = [] then d else last trace)"

section \<open>What a restart finds\<close>

definition keys :: "guards option \<Rightarrow> string set" where
  "keys g = (case g of None \<Rightarrow> {} | Some g \<Rightarrow> fst ` set g)"

definition text_of :: "guards option \<Rightarrow> transfer_text" where
  "text_of g = (case g of None \<Rightarrow> TextMissing | Some g \<Rightarrow> TextRecords g)"

lemma keys_simps [simp]: "keys None = {}" "keys (Some g) = fst ` set g"
  by (simp_all add: keys_def)

lemma merge_pending_keys: "fst ` set (merge_pending entries ps) = fst ` set entries \<union> fst ` set ps"
proof (induction entries ps rule: merge_pending.induct)
  case (2 entries k r rs)
  have "k \<in> fst ` set entries" if "map_of entries k \<noteq> None"
    using that by (metis map_of_eq_None_iff)
  with 2 show ?case by (auto simp: dom_update)
qed simp

lemma merge_pending_current: "map_of entries k = Some r \<Longrightarrow> map_of (merge_pending entries ps) k = Some r"
proof (induction entries ps rule: merge_pending.induct)
  case (2 entries k' r' rs)
  then show ?case by (cases "k = k'") auto
qed simp

text \<open>A guard that either file shows blocks after the restart; so does a file that cannot be read.\<close>

lemma load_blocks:
  assumes "key \<in> keys p \<union> keys q"
  shows "Blocked key (Some (fst (transfers_Load (text_of p) (text_of q) s)))"
proof -
  let ?g = "\<lambda>x. case x of None \<Rightarrow> [] | Some g \<Rightarrow> g"
  show ?thesis
  proof (cases "readSessionTransferRecords (text_of p) = None \<or> readSessionTransferRecords (text_of q) = None")
    case True
    then show ?thesis by (auto simp: transfers_Load_def Blocked_def transfers_Get_def Let_def split: option.splits)
  next
    case False
    then have r: "readSessionTransferRecords (text_of p) = Some (?g p)" "readSessionTransferRecords (text_of q) = Some (?g q)"
      by (auto simp: readSessionTransferRecords_def text_of_def split: option.splits if_splits)
    have "key \<in> fst ` set (merge_pending (?g p) (?g q))"
      using assms by (cases p; cases q) (simp_all add: merge_pending_keys)
    then have "map_of (merge_pending (?g p) (?g q)) key \<noteq> None" by (simp add: map_of_eq_None_iff)
    with r show ?thesis by (simp add: transfers_Load_def Blocked_def transfers_Get_def Let_def)
  qed
qed

definition covers :: "transfer_disk \<Rightarrow> guards \<Rightarrow> bool" where
  "covers d g \<longleftrightarrow> (\<forall>p \<in> readings (td_primary d). \<forall>q \<in> readings (td_pending d). fst ` set g \<subseteq> keys p \<union> keys q)"

lemma covers_subset: "covers d g \<Longrightarrow> fst ` set h \<subseteq> fst ` set g \<Longrightarrow> covers d h"
  unfolding covers_def by blast

lemma write_readings:
  assumes "writePrivateFileSynced e v f = (f', ok)"
  shows "ok \<Longrightarrow> readings f' = {Some v}" and "readings f' \<subseteq> insert (Some v) (readings f)"
  using assms df.acknowledged [of e v f f'] df.uncertain [of e v f f'] by (cases ok; auto)+

lemma sync_readings: "readings (file_sync f) \<subseteq> readings f"
  by simp

text \<open>Writing a map that has the keys wanted, to either file, keeps them covered; done, it covers alone.\<close>

lemma put_primary_covers:
  assumes "put_primary e h d = (d', ok)"
  shows "covers d g \<Longrightarrow> fst ` set g \<subseteq> fst ` set h \<Longrightarrow> covers d' g"
    and "ok \<Longrightarrow> fst ` set g \<subseteq> fst ` set h \<Longrightarrow> covers d' g"
    and "readings (td_pending d) = {Some k} \<Longrightarrow> fst ` set g \<subseteq> fst ` set k \<Longrightarrow> covers d' g"
proof -
  obtain f r where w: "writePrivateFileSynced e h (td_primary d) = (f, r)" by fastforce
  note wr = write_readings [OF w]
  have d': "td_primary d' = f" "readings (td_pending d') \<subseteq> readings (td_pending d)" "r = ok"
    using assms w by (auto simp: put_primary_def split: if_splits)
  show "covers d g \<Longrightarrow> fst ` set g \<subseteq> fst ` set h \<Longrightarrow> covers d' g"
    using d' wr(2) unfolding covers_def by (metis (no_types, opaque_lifting) insertE keys_simps(2) le_supI1 subset_eq)
  show "ok \<Longrightarrow> fst ` set g \<subseteq> fst ` set h \<Longrightarrow> covers d' g"
    using d' wr(1) unfolding covers_def by auto
  show "readings (td_pending d) = {Some k} \<Longrightarrow> fst ` set g \<subseteq> fst ` set k \<Longrightarrow> covers d' g"
    using d'(2) unfolding covers_def by (metis Un_upper2 keys_simps(2) singletonD subset_singletonD equals0D order_trans)
qed

lemma put_pending_covers:
  assumes "put_pending e h d = (d', ok)" and "covers d g"
  shows "fst ` set g \<subseteq> fst ` set h \<Longrightarrow> covers d' g" and "ok \<Longrightarrow> readings (td_pending d') = {Some h}"
proof -
  obtain f r where w: "writePrivateFileSynced e h (td_pending d) = (f, r)" by fastforce
  note wr = write_readings [OF w]
  have d': "td_pending d' = f" "readings (td_primary d') \<subseteq> readings (td_primary d)" "r = ok"
    using assms(1) w by (auto simp: put_pending_def split: if_splits)
  show "fst ` set g \<subseteq> fst ` set h \<Longrightarrow> covers d' g"
    using d' wr(2) assms(2) unfolding covers_def
    by (metis (no_types, opaque_lifting) insertE keys_simps(2) le_supI2 subset_eq)
  show "ok \<Longrightarrow> readings (td_pending d') = {Some h}" using d' wr(1) by simp
qed

lemma put_primary_ok: "put_primary e h d = (d', True) \<Longrightarrow> readings (td_primary d') = {Some h}"
proof -
  assume p: "put_primary e h d = (d', True)"
  obtain f r where w: "writePrivateFileSynced e h (td_primary d) = (f, r)" by fastforce
  with p have "td_primary d' = f" "r" by (auto simp: put_primary_def split: if_splits)
  with write_readings(1) [OF w] show ?thesis by simp
qed

text \<open>Every disk a commit passes through covers the guards that are in force when it returns.\<close>

lemma commit_writes_covers:
  assumes "commit_writes e journal new d = (trace, err)" and "covers d old"
    and "journal = None \<Longrightarrow> fst ` set old \<subseteq> fst ` set new"
    and "\<And>j. journal = Some j \<Longrightarrow> j = old \<and> fst ` set new \<subseteq> fst ` set old"
    and "d' \<in> set trace"
  shows "covers d' (if err = None then new else old)"
proof (cases journal)
  case None
  obtain d1 ok where p: "put_primary (ce_primary e) new d = (d1, ok)" by fastforce
  with assms(1,5) None have d': "d' = d1" "err = (if ok then None else Some PersistFailed)"
    by (auto simp: commit_writes_def split: if_splits)
  then show ?thesis
    using put_primary_covers(1,2) [OF p] assms(2,3) None by (cases ok) auto
next
  case (Some j)
  have j: "j = old" "fst ` set new \<subseteq> fst ` set old" using assms(4) [OF Some] by auto
  obtain d1 ok1 where p1: "put_pending (ce_pending e) old d = (d1, ok1)" by fastforce
  have c1: "covers d1 old" using put_pending_covers(1) [OF p1 assms(2)] by simp
  show ?thesis
  proof (cases ok1)
    case False
    with assms(1,5) Some p1 j have "d' = d1" "err \<noteq> None" by (auto simp: commit_writes_def)
    with c1 show ?thesis by auto
  next
    case ok1: True
    obtain d2 ok2 where p2: "put_primary (ce_primary e) new d1 = (d2, ok2)" by fastforce
    have c2: "covers d2 old"
      using put_primary_covers(3) [OF p2 put_pending_covers(2) [OF p1 assms(2) ok1]] by simp
    have both: "covers x (if err = None then new else old)" if "covers x old" for x
      using that covers_subset [OF that j(2)] by simp
    show ?thesis
    proof (cases "ok2 \<and> ce_removed e")
      case False
      with assms(1,5) Some p1 p2 j ok1 have "d' = d1 \<or> d' = d2" by (auto simp: commit_writes_def split: if_splits)
      with c1 c2 both show ?thesis by blast
    next
      case ok2: True
      then have prim: "readings (td_primary d2) = {Some new}" using put_primary_ok p2 by auto
      have d3: "covers (drop_pending d2) new" "covers (sync_directory (drop_pending d2)) new"
      proof -
        have vis: "fl_visible (td_primary d2) = Some new" using prim visible_reading [of "td_primary d2"] by simp
        then show "covers (drop_pending d2) new" "covers (sync_directory (drop_pending d2)) new"
          using prim by (simp_all add: covers_def drop_pending_def sync_directory_def)
      qed
      have "d' \<in> {d1, d2, drop_pending d2, sync_directory (drop_pending d2)}" "err = None"
        using assms(1,5) Some p1 p2 j ok1 ok2 by (auto simp: commit_writes_def Let_def split: if_splits)
      with c1 c2 d3 both show ?thesis by auto
    qed
  qed
qed

section \<open>The properties of the guards\<close>

datatype transfer_op = TransferUpdate string "session_transfer option" string | TransferReplace string session_transfer string

fun transfer_op_run :: "commit_env \<Rightarrow> transfer_op \<Rightarrow> transfer_store \<times> transfer_disk
    \<Rightarrow> transfer_store \<times> transfer_disk list \<times> transfer_error option" where
  "transfer_op_run e (TransferUpdate k v i) sd = transfer_update e k v i sd"
| "transfer_op_run e (TransferReplace k v i) sd = transfer_replace e k v i sd"

text \<open>The states a gateway can be in: it loads the files it finds, then runs operations.\<close>

inductive transfer_reach :: "transfer_store \<Rightarrow> transfer_disk \<Rightarrow> bool" where
  start: "s0 = \<lparr>ts_entries = [], ts_loadErr = None, ts_writeUncertain = False\<rparr> \<Longrightarrow>
    transfer_reach (fst (transfers_Load (text_of p) (text_of q) s0)) \<lparr>td_primary = fresh_file p, td_pending = fresh_file q\<rparr>"
| step: "transfer_reach s d \<Longrightarrow> transfer_op_run e op (s, d) = (s', trace, err) \<Longrightarrow> transfer_reach s' (last_disk d trace)"
| closed: "transfer_reach s d \<Longrightarrow> transfer_reach (failClosed msg s) d"

lemma normalized_key: "fst ` set (AList.update k v g) = insert k (fst ` set g)"
  by (simp add: dom_update)

text \<open>The effect of a commit: nothing on an error, and otherwise one key.\<close>

lemma transfer_commit_cases [consumes 1, case_names same written]:
  assumes "transfer_commit e key v i inherit (s, d) = (s', trace, err)"
  obtains (same) "ts_entries s' = ts_entries s" "ts_loadErr s' = ts_loadErr s" "trace = []"
      "err = None \<Longrightarrow> \<exists>w. v = Some w \<and> map_of (ts_entries s) key = Some (normalized inherit (map_of (ts_entries s) key) w)"
    | (written) new journal where
      "new = (case v of None \<Rightarrow> AList.delete key (ts_entries s)
                | Some v \<Rightarrow> AList.update key (normalized inherit (map_of (ts_entries s) key) v) (ts_entries s))"
      "journal = (if v = None then Some (ts_entries s) else None)"
      "commit_writes e journal new d = (trace, err)"
      "ts_entries s' = (if err = None then new else ts_entries s)" "ts_loadErr s' = ts_loadErr s" "ts_loadErr s = None"
proof -
  let ?new = "case v of None \<Rightarrow> AList.delete key (ts_entries s)
                | Some v \<Rightarrow> AList.update key (normalized inherit (map_of (ts_entries s) key) v) (ts_entries s)"
  let ?j = "if v = None then Some (ts_entries s) else None"
  obtain t r where w: "commit_writes e ?j ?new d = (t, r)" by fastforce
  show thesis
  proof (cases "trace = [] \<and> ts_entries s' = ts_entries s \<and> ts_loadErr s' = ts_loadErr s
      \<and> (err = None \<longrightarrow> (\<exists>w. v = Some w \<and> map_of (ts_entries s) key = Some (normalized inherit (map_of (ts_entries s) key) w)))")
    case True
    then show ?thesis using same by blast
  next
    case False
    then have "commit_writes e ?j ?new d = (trace, err)" "ts_entries s' = (if err = None then ?new else ts_entries s)"
      "ts_loadErr s' = ts_loadErr s" "ts_loadErr s = None"
      using assms w by (auto simp: transfer_commit_def Let_def split: if_splits option.splits)
    then show ?thesis using written [OF refl refl] by blast
  qed
qed

lemma transfer_commit_covers:
  assumes "transfer_commit e key v i inherit (s, d) = (s', trace, err)" and "covers d (ts_entries s)"
    and "d' \<in> set (if trace = [] then [d] else trace)"
  shows "covers d' (ts_entries s')"
using assms(1)
proof (cases rule: transfer_commit_cases)
  case same
  with assms(2,3) show ?thesis by simp
next
  case (written new journal)
  have ne: "trace \<noteq> []" using written(3) by (auto simp: commit_writes_def Let_def split: option.splits prod.splits if_splits)
  have keep: "journal = None \<Longrightarrow> fst ` set (ts_entries s) \<subseteq> fst ` set new"
    using written(1,2) by (cases v) (simp_all add: normalized_key subset_insertI)
  have drop: "j = ts_entries s \<and> fst ` set new \<subseteq> fst ` set (ts_entries s)" if "journal = Some j" for j
    using written(1,2) that by (auto simp: AList.delete_eq split: if_splits)
  from commit_writes_covers [OF written(3) assms(2) keep drop] assms(3) ne written(4)
  show ?thesis by (cases "err = None") simp_all
qed

lemma transfer_op_covers:
  assumes "transfer_op_run e op (s, d) = (s', trace, err)" and "covers d (ts_entries s)"
    and "d' \<in> set (if trace = [] then [d] else trace)"
  shows "covers d' (ts_entries s')"
  using assms transfer_commit_covers
  by (cases op) (auto simp: transfer_update_def transfer_replace_def split: if_splits)

lemma reach_covers: "transfer_reach s d \<Longrightarrow> covers d (ts_entries s)"
proof (induction rule: transfer_reach.induct)
  case (start s0 p q)
  then show ?case
    by (auto simp: covers_def transfers_Load_def Let_def merge_pending_keys readSessionTransferRecords_def text_of_def
        split: option.splits if_splits)
next
  case (step s d e op s' trace err)
  show ?case using transfer_op_covers [OF step.hyps(2) step.IH, of "last_disk d trace"] by (simp add: last_disk_def)
next
  case (closed s d msg)
  then show ?case by (simp add: failClosed_def)
qed

text \<open>
  C3: No guard is lost. Whatever was written before and however each write ended, at every
  moment a crash can hit an operation, a restart that finds any of the contents the files may
  then have blocks every binding whose guard is in force when the operation returns.
\<close>

theorem guards_survive_crash:
  assumes "transfer_reach s d" and "transfer_op_run e op (s, d) = (s', trace, err)"
    and "d' \<in> set (if trace = [] then [d] else trace)" and "map_of (ts_entries s') key \<noteq> None"
    and "p \<in> readings (td_primary d')" and "q \<in> readings (td_pending d')"
  shows "Blocked key (Some (fst (transfers_Load (text_of p) (text_of q) s0)))"
proof -
  have "covers d' (ts_entries s')" by (rule transfer_op_covers [OF assms(2) reach_covers [OF assms(1)] assms(3)])
  moreover have "key \<in> fst ` set (ts_entries s')" using assms(4) by (metis map_of_eq_None_iff)
  ultimately have "key \<in> keys p \<union> keys q" using assms(5,6) unfolding covers_def by blast
  then show ?thesis by (rule load_blocks)
qed

text \<open>
  A commit changes one binding or none. When it reports an error every guard is as it was,
  so a failed write never opens a binding that was blocked.
\<close>

theorem commit_effect:
  assumes "transfer_commit e key v i inherit (s, d) = (s', trace, err)"
  shows "map_of (ts_entries s') k =
    (if err = None \<and> k = key then map_option (normalized inherit (map_of (ts_entries s) key)) v else map_of (ts_entries s) k)"
using assms
proof (cases rule: transfer_commit_cases)
  case same
  then show ?thesis by auto
next
  case (written new journal)
  then show ?thesis by (auto split: option.splits)
qed

text \<open>
  Extending a transfer keeps the evidence of the one it extends: an interruption that was
  recorded stays recorded and the start time stays the first one.
\<close>

theorem update_keeps_evidence:
  assumes "transfer_update e key (Some v) i (s, d) = (s', trace, None)" and "map_of (ts_entries s) key = Some old"
  shows "\<exists>new. map_of (ts_entries s') key = Some new \<and> (st_Interrupted old \<longrightarrow> st_Interrupted new)
     \<and> (tr_StartedAt (st_Status old) \<noteq> '''' \<longrightarrow> tr_StartedAt (st_Status new) = tr_StartedAt (st_Status old))"
  using commit_effect [OF assms(1) [unfolded transfer_update_def], of key] assms(2)
  by (auto simp: normalized_def Let_def)

definition quiet_env :: commit_env where
  "quiet_env = \<lparr>ce_pending = Written, ce_primary = Written, ce_removed = True, ce_synced = True\<rparr>"

text \<open>A deletion that meets no failure is final: no content a restart can find has the guard.\<close>

lemma clean_deletion:
  assumes "transfer_commit quiet_env key None i inherit (s, d) = (s', trace, None)" and "trace \<noteq> []"
    and "p \<in> readings (td_primary (last_disk d trace))" and "q \<in> readings (td_pending (last_disk d trace))"
  shows "p = Some (ts_entries s') \<and> q = None"
using assms(1)
proof (cases rule: transfer_commit_cases)
  case same
  with assms(2) show ?thesis by simp
next
  case (written new journal)
  then show ?thesis using assms
    by (auto simp: commit_writes_def Let_def quiet_env_def put_pending_def put_primary_def writePrivateFileSynced_def
        drop_pending_def sync_directory_def last_disk_def)
qed

section \<open>Witnesses\<close>

definition witness_status :: "string \<Rightarrow> string \<Rightarrow> transfer_status" where
  "witness_status i started = \<lparr>tr_BindingInstanceID = '''', tr_TransferID = i, tr_SessionID = ''s'', tr_SourceRuntimeID = '''',
     tr_SourceSessionEpoch = 1, tr_Workspace = ''w'', tr_TargetKind = ''tui'', tr_TargetInstanceID = '''', tr_State = ''preflight'',
     tr_StartedAt = started, tr_WaitExpired = False, tr_PendingInputs = 0, tr_CheckpointID = '''', tr_ErrorCode = '''',
     tr_Message = '''', tr_RecoverableAction = '''', tr_Blockers = [], tr_BlockerCount = 0\<rparr>"

definition witness_transfer :: "string \<Rightarrow> string \<Rightarrow> bool \<Rightarrow> session_transfer" where
  "witness_transfer i started interrupted =
     \<lparr>st_Status = witness_status i started, st_Interrupted = interrupted, st_Direction = ''incoming'', st_BindingInstanceID = ''''\<rparr>"

definition witness_guards :: guards where
  "witness_guards = [(''a'', witness_transfer ''t1'' ''10:00'' True), (''b'', witness_transfer ''t2'' '''' False)]"

definition witness_store :: transfer_store where
  "witness_store = \<lparr>ts_entries = witness_guards, ts_loadErr = None, ts_writeUncertain = False\<rparr>"

definition witness_disk :: transfer_disk where
  "witness_disk = \<lparr>td_primary = fresh_file (Some witness_guards), td_pending = fresh_file None\<rparr>"

lemma witness_reach: "transfer_reach witness_store witness_disk"
proof -
  have "transfer_reach (fst (transfers_Load (text_of (Some witness_guards)) (text_of None)
      \<lparr>ts_entries = [], ts_loadErr = None, ts_writeUncertain = False\<rparr>))
      \<lparr>td_primary = fresh_file (Some witness_guards), td_pending = fresh_file None\<rparr>"
    by (rule transfer_reach.start) simp
  then show ?thesis
    by (simp add: transfers_Load_def text_of_def readSessionTransferRecords_def witness_guards_def witness_transfer_def
        witness_status_def record_readable_def witness_store_def witness_disk_def)
qed

text \<open>The deletion of \<open>a\<close> whose primary file was replaced but not synced: \<open>a\<close> stays blocked.\<close>

definition uncertain_env :: commit_env where
  "uncertain_env = \<lparr>ce_pending = Written, ce_primary = FailedUnsynced, ce_removed = True, ce_synced = True\<rparr>"

definition witness_run :: "transfer_store \<times> transfer_disk list \<times> transfer_error option" where
  "witness_run = transfer_op_run uncertain_env (TransferUpdate ''a'' None ''t1'') (witness_store, witness_disk)"

lemmas witness_defs = witness_run_def witness_store_def witness_disk_def witness_guards_def witness_transfer_def witness_status_def
  uncertain_env_def transfer_update_def transfer_commit_def commit_writes_def put_pending_def put_primary_def
  writePrivateFileSynced_def file_sync_def file_replace_def fresh_file_def readings_def normalized_def Let_def

lemma guards_survive_crash_witness:
  "Blocked ''a'' (Some (fst (transfers_Load (text_of (Some [(''b'', witness_transfer ''t2'' '''' False)]))
     (text_of (Some witness_guards)) witness_store)))"
  by (rule guards_survive_crash [where e = uncertain_env and op = "TransferUpdate ''a'' None ''t1''" and s' = "fst witness_run"
        and trace = "fst (snd witness_run)" and err = "snd (snd witness_run)" and d' = "last (fst (snd witness_run))",
        OF witness_reach])
     (simp_all add: witness_defs)

lemma commit_effect_witness:
  "map_of (ts_entries (fst witness_run)) ''a'' = Some (witness_transfer ''t1'' ''10:00'' True)"
  using commit_effect [of uncertain_env "''a''" None "''t1''" True witness_store witness_disk "fst witness_run"
      "fst (snd witness_run)" "snd (snd witness_run)" "''a''"]
  by (simp add: witness_defs)

definition witness_extend :: "transfer_store \<times> transfer_disk list \<times> transfer_error option" where
  "witness_extend = transfer_update quiet_env ''a'' (Some (witness_transfer ''t1'' ''11:00'' False)) ''t1'' (witness_store, witness_disk)"

lemma update_keeps_evidence_witness:
  "\<exists>new. map_of (ts_entries (fst witness_extend)) ''a'' = Some new
     \<and> (st_Interrupted (witness_transfer ''t1'' ''10:00'' True) \<longrightarrow> st_Interrupted new)
     \<and> (tr_StartedAt (st_Status (witness_transfer ''t1'' ''10:00'' True)) \<noteq> '''' \<longrightarrow>
        tr_StartedAt (st_Status new) = tr_StartedAt (st_Status (witness_transfer ''t1'' ''10:00'' True)))"
  by (rule update_keeps_evidence [of quiet_env _ "witness_transfer ''t1'' ''11:00'' False" "''t1''" witness_store witness_disk _
        "fst (snd witness_extend)"])
     (simp_all add: witness_extend_def quiet_env_def witness_defs prod_eq_iff)

end
