(* ===== verification/GatewayConfig.thy ===== *)
theory GatewayConfig
  imports GoText
begin

text \<open>
  The configuration the gateway acts on: \<open>config/config.go\<close>, \<open>config/authorization.go\<close> and
  \<open>config/proxy.go\<close> without the YAML reading. An adapter has one slot per platform, as the
  struct has one pointer; \<open>Credentials\<close> lists the fields its validation requires, in order.
  \<open>net/url.Parse\<close> is the parameter \<open>pu\<close>, giving scheme and host name of what it accepts.
\<close>

section \<open>Adapters\<close>

record owner_identity =
  ow_AccountID :: string
  ow_UserID :: string

record platform_config =
  pc_Owner :: "owner_identity option"
  pc_ChatBindings :: "(string, string) gomap"
  pc_ownerField :: bool
  pc_ProxyURL :: string
  pc_Credentials :: "string list"

record im_adapter =
  ad_Wechat :: "platform_config option"
  ad_Feishu :: "platform_config option"
  ad_Telegram :: "platform_config option"
  ad_Discord :: "platform_config option"
  ad_Wecom :: "platform_config option"
  ad_Dingtalk :: "platform_config option"
  ad_Slack :: "platform_config option"

record workspace =
  ws_ID :: string
  ws_Path :: string

record gateway_config =
  cf_IMs :: "im_adapter list"
  cf_Workspaces :: "workspace list"
  cf_ProxyURL :: string

definition adapter_Type :: "im_adapter \<Rightarrow> string" where
  "adapter_Type a =
     (if ad_Telegram a \<noteq> None then ''telegram'' else if ad_Discord a \<noteq> None then ''discord''
      else if ad_Wecom a \<noteq> None then ''wecom'' else if ad_Dingtalk a \<noteq> None then ''dingtalk''
      else if ad_Slack a \<noteq> None then ''slack'' else if ad_Wechat a \<noteq> None then ''wechat''
      else if ad_Feishu a \<noteq> None then ''feishu'' else '''')"

text \<open>The slot \<open>Bindings\<close> and \<open>OwnerIdentity\<close> read: the first that is set, in their order.\<close>

fun first_slot :: "platform_config option list \<Rightarrow> platform_config option" where
  "first_slot [] = None"
| "first_slot (Some p # ps) = Some p"
| "first_slot (None # ps) = first_slot ps"

definition access_slots :: "im_adapter \<Rightarrow> platform_config option list" where
  "access_slots a = [ad_Telegram a, ad_Discord a, ad_Wecom a, ad_Dingtalk a, ad_Slack a, ad_Feishu a, ad_Wechat a]"

definition adapter_Bindings :: "im_adapter \<Rightarrow> (string, string) gomap" where
  "adapter_Bindings a = (case first_slot (access_slots a) of Some p \<Rightarrow> pc_ChatBindings p | None \<Rightarrow> [])"

definition OwnerIdentity :: "im_adapter \<Rightarrow> owner_identity option" where
  "OwnerIdentity a = (case first_slot (access_slots a) of Some p \<Rightarrow> pc_Owner p | None \<Rightarrow> None)"

definition NormalizeIMType :: "string \<Rightarrow> string" where
  "NormalizeIMType name = to_lower (trim_space name)"

definition IMConfigByType :: "gateway_config \<Rightarrow> string \<Rightarrow> im_adapter option" where
  "IMConfigByType c imType = find (\<lambda>a. adapter_Type a = NormalizeIMType imType) (cf_IMs c)"

definition WorkspaceByID :: "gateway_config \<Rightarrow> string \<Rightarrow> workspace option" where
  "WorkspaceByID c i = find (\<lambda>w. ws_ID w = i) (cf_Workspaces c)"

datatype resolve_error = ConsoleNeedsOneWorkspace | NoAdapter string | ChatUnbound | UnknownWorkspace string

definition ResolveWorkspace :: "gateway_config \<Rightarrow> string \<Rightarrow> string \<Rightarrow> resolve_error + workspace" where
  "ResolveWorkspace c imType chatID =
     (let imType = NormalizeIMType imType in
      if imType = ''console'' then
        (case cf_Workspaces c of [w] \<Rightarrow> Inr w | _ \<Rightarrow> Inl ConsoleNeedsOneWorkspace)
      else case IMConfigByType c imType of
        None \<Rightarrow> Inl (NoAdapter imType)
      | Some a \<Rightarrow> (let i = get_or '''' (adapter_Bindings a) chatID in
          if i = '''' then Inl ChatUnbound
          else case WorkspaceByID c i of None \<Rightarrow> Inl (UnknownWorkspace i) | Some w \<Rightarrow> Inr w))"

section \<open>Proxies\<close>

definition allowedProxySchemes :: "string list" where
  "allowedProxySchemes = [''http'', ''https'', ''socks5'', ''socks5h'']"

definition websocketProxyPlatforms :: "string list" where
  "websocketProxyPlatforms = [''discord'', ''slack'', ''feishu'', ''wecom'', ''dingtalk'']"

text \<open>\<open>ParseProxyURL\<close>: \<open>Inl\<close> is its error, \<open>Inr None\<close> a proxy that is disabled.\<close>

definition ParseProxyURL :: "(string \<Rightarrow> (string \<times> string) option) \<Rightarrow> string \<Rightarrow> unit + (string \<times> string) option" where
  "ParseProxyURL pu raw =
     (let t = trim_space raw in
      if t = '''' then Inr None
      else case pu t of
        None \<Rightarrow> Inl ()
      | Some (sch, hostname) \<Rightarrow>
          (let s = to_lower sch in
           if s \<notin> set allowedProxySchemes then Inl ()
           else if hostname = '''' then Inl () else Inr (Some (s, hostname))))"

definition ValidateProxyURL :: "(string \<Rightarrow> (string \<times> string) option) \<Rightarrow> string \<Rightarrow> bool" where
  "ValidateProxyURL pu raw \<longleftrightarrow> trim_space raw = '''' \<or> (case ParseProxyURL pu raw of Inl _ \<Rightarrow> False | Inr _ \<Rightarrow> True)"

definition ValidateProxyForWebsocket :: "(string \<Rightarrow> (string \<times> string) option) \<Rightarrow> string \<Rightarrow> bool" where
  "ValidateProxyForWebsocket pu raw \<longleftrightarrow> (case ParseProxyURL pu raw of
       Inl _ \<Rightarrow> False
     | Inr None \<Rightarrow> True
     | Inr (Some (s, hostname)) \<Rightarrow> s \<noteq> ''https'')"

definition proxy_slots :: "im_adapter \<Rightarrow> platform_config option list" where
  "proxy_slots a = [ad_Telegram a, ad_Discord a, ad_Wecom a, ad_Dingtalk a, ad_Slack a, ad_Wechat a, ad_Feishu a]"

definition ProxyURLValue :: "im_adapter \<Rightarrow> string" where
  "ProxyURLValue a = (case first_slot (proxy_slots a) of Some p \<Rightarrow> pc_ProxyURL p | None \<Rightarrow> '''')"

definition EffectiveProxyURL :: "gateway_config \<Rightarrow> im_adapter \<Rightarrow> string" where
  "EffectiveProxyURL c a =
     (let v = trim_space (ProxyURLValue a) in if v \<noteq> '''' then v else trim_space (cf_ProxyURL c))"

section \<open>Validation\<close>

datatype config_error =
    NoAdapters | EmptyWorkspaceID nat | EmptyWorkspacePath string | BadWorkspacePath string | DuplicateWorkspace string
  | NotOnePlatform | DuplicateAdapter string | OwnerIncomplete | InvalidBinding | MissingCredentials string
  | BadProxy string | BadWebsocketProxy string

definition drive_path :: "string \<Rightarrow> bool" where
  "drive_path p \<longleftrightarrow> 3 \<le> length p \<and> (let b = byte_of (p ! 0) in (65 \<le> b \<and> b \<le> 90) \<or> (97 \<le> b \<and> b \<le> 122))
     \<and> p ! 1 = CHR '':'' \<and> (p ! 2 = CHR 0x5C \<or> p ! 2 = CHR ''/'')"

definition IsAllowedWorkspacePath :: "string \<Rightarrow> bool" where
  "IsAllowedWorkspacePath path \<longleftrightarrow>
     (let p = trim_space path in
      has_prefix p ''/'' \<or> has_prefix p ''~'' \<or> has_prefix p [CHR 0x5C, CHR 0x5C] \<or> drive_path p)"

fun validate_workspaces :: "nat \<Rightarrow> string list \<Rightarrow> workspace list \<Rightarrow> config_error option" where
  "validate_workspaces i seen [] = None"
| "validate_workspaces i seen (w # ws) =
     (if ws_ID w = '''' then Some (EmptyWorkspaceID i)
      else if ws_Path w = '''' then Some (EmptyWorkspacePath (ws_ID w))
      else if \<not> IsAllowedWorkspacePath (ws_Path w) then Some (BadWorkspacePath (ws_ID w))
      else if ws_ID w \<in> set seen then Some (DuplicateWorkspace (ws_ID w))
      else validate_workspaces (Suc i) (ws_ID w # seen) ws)"

definition blank :: "string \<Rightarrow> bool" where
  "blank s \<longleftrightarrow> trim_space s = ''''"

text \<open>The flag \<open>fields.owner\<close> of the slot that is set last in \<open>validateAccess\<close>.\<close>

definition owner_field :: "im_adapter \<Rightarrow> bool" where
  "owner_field a = (case first_slot (rev (access_slots a)) of Some p \<Rightarrow> pc_ownerField p | None \<Rightarrow> False)"

definition missing_credentials :: "im_adapter \<Rightarrow> string option" where
  "missing_credentials a =
     (let check = (\<lambda>slot bad. (case slot of None \<Rightarrow> False | Some p \<Rightarrow> list_ex bad (pc_Credentials p))) in
      if check (ad_Feishu a) (\<lambda>s. s = '''') then Some ''feishu''
      else if check (ad_Telegram a) blank then Some ''telegram''
      else if check (ad_Discord a) blank then Some ''discord''
      else if check (ad_Wecom a) blank then Some ''wecom''
      else if check (ad_Dingtalk a) blank then Some ''dingtalk''
      else if check (ad_Slack a) blank then Some ''slack'' else None)"

definition validateAccess :: "gateway_config \<Rightarrow> im_adapter \<Rightarrow> config_error option" where
  "validateAccess c a =
     (let owner = OwnerIdentity a in
      if (owner_field a \<or> owner \<noteq> None) \<and>
         (case owner of None \<Rightarrow> True | Some o' \<Rightarrow> blank (ow_AccountID o') \<or> blank (ow_UserID o'))
      then Some OwnerIncomplete
      else if list_ex (\<lambda>(chat, i). blank chat \<or> WorkspaceByID c i = None) (adapter_Bindings a) then Some InvalidBinding
      else map_option MissingCredentials (missing_credentials a))"

definition platform_count :: "im_adapter \<Rightarrow> nat" where
  "platform_count a = length (filter (\<lambda>s. s \<noteq> None) (access_slots a))"

fun validate_adapters :: "(string \<Rightarrow> (string \<times> string) option) \<Rightarrow> gateway_config \<Rightarrow> string list \<Rightarrow> im_adapter list \<Rightarrow> config_error option" where
  "validate_adapters pu c seen [] = None"
| "validate_adapters pu c seen (a # as) =
     (let typ = adapter_Type a in
      if typ = '''' then Some NotOnePlatform
      else if platform_count a \<noteq> 1 then Some NotOnePlatform
      else if typ \<in> set seen then Some (DuplicateAdapter typ)
      else case validateAccess c a of
        Some err \<Rightarrow> Some err
      | None \<Rightarrow>
          if \<not> ValidateProxyURL pu (ProxyURLValue a) then Some (BadProxy typ)
          else if typ \<in> set websocketProxyPlatforms \<and> \<not> ValidateProxyForWebsocket pu (EffectiveProxyURL c a)
          then Some (BadWebsocketProxy typ)
          else validate_adapters pu c (typ # seen) as)"

definition config_Validate :: "(string \<Rightarrow> (string \<times> string) option) \<Rightarrow> gateway_config \<Rightarrow> config_error option" where
  "config_Validate pu c =
     (if length (cf_IMs c) = 0 then Some NoAdapters
      else case validate_workspaces 0 [] (cf_Workspaces c) of
        Some err \<Rightarrow> Some err
      | None \<Rightarrow>
          (case validate_adapters pu c [] (cf_IMs c) of
             Some err \<Rightarrow> Some err
           | None \<Rightarrow> if \<not> ValidateProxyURL pu (cf_ProxyURL c) then Some (BadProxy '''') else None))"

section \<open>What a valid configuration guarantees\<close>

lemma validate_workspaces_ok:
  "validate_workspaces i seen ws = None \<Longrightarrow>
     distinct (map ws_ID ws) \<and> set (map ws_ID ws) \<inter> set seen = {} \<and> (\<forall>w \<in> set ws. ws_ID w \<noteq> '''' \<and> IsAllowedWorkspacePath (ws_Path w))"
  by (induction i seen ws rule: validate_workspaces.induct) (auto split: if_splits)

lemma validate_adapters_ok:
  "validate_adapters pu c seen as = None \<Longrightarrow>
     distinct (map adapter_Type as) \<and> set (map adapter_Type as) \<inter> set seen = {}
     \<and> (\<forall>a \<in> set as. adapter_Type a \<noteq> '''' \<and> platform_count a = 1 \<and> validateAccess c a = None)"
  by (induction pu c seen as rule: validate_adapters.induct) (auto simp: Let_def split: if_splits option.splits)

lemma config_Validate_ok:
  assumes "config_Validate pu c = None"
  shows "validate_workspaces 0 [] (cf_Workspaces c) = None" and "validate_adapters pu c [] (cf_IMs c) = None"
  using assms by (auto simp: config_Validate_def split: if_splits option.splits)

lemma find_distinct:
  assumes "distinct (map f xs)" and "x \<in> set xs"
  shows "find (\<lambda>y. f y = f x) xs = Some x"
  using assms by (induction xs) auto

text \<open>
  In a configuration the gateway accepts, every binding leads to exactly one workspace: the
  chat of an adapter resolves, to the workspace its binding names, which no other shares.
\<close>

theorem validated_binding_resolves:
  assumes "config_Validate pu c = None" and "IMConfigByType c imType = Some a"
    and "map_of (adapter_Bindings a) chat = Some i" and "NormalizeIMType imType = imType"
    and "imType \<noteq> ''console''"
  shows "\<exists>w. ResolveWorkspace c imType chat = Inr w \<and> ws_ID w = i \<and> (\<forall>w' \<in> set (cf_Workspaces c). ws_ID w' = i \<longrightarrow> w' = w)"
proof -
  note ok = config_Validate_ok [OF assms(1)]
  have a: "a \<in> set (cf_IMs c)" using assms(2) by (auto simp: IMConfigByType_def find_Some_iff)
  have "validateAccess c a = None" using validate_adapters_ok [OF ok(2)] a by blast
  moreover have "(chat, i) \<in> set (adapter_Bindings a)" using assms(3) by (rule map_of_SomeD)
  ultimately have "WorkspaceByID c i \<noteq> None"
    by (auto simp: validateAccess_def Let_def list_ex_iff split: if_splits)
  then obtain w where w: "WorkspaceByID c i = Some w" by blast
  then have mem: "w \<in> set (cf_Workspaces c)" "ws_ID w = i" by (auto simp: WorkspaceByID_def find_Some_iff)
  have ws: "distinct (map ws_ID (cf_Workspaces c))" "i \<noteq> ''''" using validate_workspaces_ok [OF ok(1)] mem by auto
  have "ResolveWorkspace c imType chat = Inr w"
    using assms w ws(2) by (simp add: ResolveWorkspace_def get_or_def Let_def)
  moreover have "w' = w" if "w' \<in> set (cf_Workspaces c)" "ws_ID w' = i" for w'
    using ws(1) mem that by (auto simp: distinct_map inj_on_def)
  ultimately show ?thesis using mem by blast
qed

definition witness_slack :: "owner_identity option \<Rightarrow> (string, string) gomap \<Rightarrow> im_adapter" where
  "witness_slack owner bindings = \<lparr>ad_Wechat = None, ad_Feishu = None, ad_Telegram = None, ad_Discord = None, ad_Wecom = None,
     ad_Dingtalk = None, ad_Slack = Some \<lparr>pc_Owner = owner, pc_ChatBindings = bindings, pc_ownerField = False, pc_ProxyURL = '''',
       pc_Credentials = [''xapp'', ''xoxb'', ''A1'', ''T1'']\<rparr>\<rparr>"

definition witness_config :: "owner_identity option \<Rightarrow> gateway_config" where
  "witness_config owner = \<lparr>cf_IMs = [witness_slack owner [(''C1'', ''ws'')]],
     cf_Workspaces = [\<lparr>ws_ID = ''ws'', ws_Path = ''/srv''\<rparr>], cf_ProxyURL = ''''\<rparr>"

lemmas text_eval = ascii_eval trim_space_def space_piece_def is_space_def rune_bytes_def to_lower_def to_lower_piece_def
  str_fields_def equal_fold_def fold_rune_def has_prefix_def

lemmas config_eval = NormalizeIMType_def IMConfigByType_def adapter_Type_def adapter_Bindings_def OwnerIdentity_def access_slots_def
  WorkspaceByID_def witness_slack_def witness_config_def

lemma validated_binding_resolves_witness:
  "\<exists>w. ResolveWorkspace (witness_config None) ''slack'' ''C1'' = Inr w \<and> ws_ID w = ''ws''
     \<and> (\<forall>w' \<in> set (cf_Workspaces (witness_config None)). ws_ID w' = ''ws'' \<longrightarrow> w' = w)"
  by (rule validated_binding_resolves [where pu = "\<lambda>_. None" and a = "witness_slack None [(''C1'', ''ws'')]"])
     (simp_all add: config_Validate_def IsAllowedWorkspacePath_def validateAccess_def missing_credentials_def blank_def
        owner_field_def platform_count_def ValidateProxyURL_def ValidateProxyForWebsocket_def ParseProxyURL_def
        EffectiveProxyURL_def ProxyURLValue_def proxy_slots_def websocketProxyPlatforms_def config_eval text_eval)

end
