(* ===== verification/CommandHints.thy ===== *)
theory CommandHints
  imports Identities
begin

text \<open>
  \<open>internal/im/im_command_hints.go\<close>: how a command is written in the instructions the gateway
  gives, on each platform and kind of chat.
\<close>

record platform_presentation =
  pr_Platform :: string
  pr_BotMention :: string
  pr_BotUsername :: string

record command_target =
  tg_ChatID :: string
  tg_ChatKind :: string
  tg_Thread :: bool

definition telegram_canonical :: "string list" where
  "telegram_canonical = [''/handoff-deny'', ''/question-interact'', ''/question-withdraw'', ''/question-replace'']"

fun telegram_alias :: "string \<Rightarrow> bool \<Rightarrow> string list \<Rightarrow> string" where
  "telegram_alias command outbound [] = command"
| "telegram_alias command outbound (c # cs) =
     (let alias = replace_byte (CHR ''-'') ''_'' c in
      if outbound \<and> equal_fold command c then alias
      else if \<not> outbound \<and> equal_fold command alias then c
      else telegram_alias command outbound cs)"

definition TelegramCommandAlias :: "string \<Rightarrow> bool \<Rightarrow> string" where
  "TelegramCommandAlias command outbound = telegram_alias command outbound telegram_canonical"

definition mention_hint :: "platform_presentation \<Rightarrow> string \<Rightarrow> string" where
  "mention_hint p command = (if pr_BotMention p \<noteq> '''' then pr_BotMention p @ '' '' @ command else command)"

definition FormatCommandHint :: "platform_presentation \<Rightarrow> command_target \<Rightarrow> string \<Rightarrow> string" where
  "FormatCommandHint p target command =
     (if \<not> has_prefix command ''/'' then command
      else if pr_Platform p = ''slack'' then
        (if \<not> tg_Thread target then ''/chord '' @ trim_prefix command ''/''
         else let name = trim_space (pr_BotUsername p); name = (if name = '''' then ''Bot'' else name) in
           ''@'' @ name @ '' '' @ command @ '' (select the bot from Slack'' @ [CHR 0x27] @ ''s @ menu)'')
      else if pr_Platform p = ''telegram'' then
        (let (name, args, hasArgs) = cut_at space command;
             name = TelegramCommandAlias name True;
             name = (if tg_ChatKind target = ''group'' \<and> pr_BotUsername p \<noteq> ''''
                     then name @ ''@'' @ trim_prefix (pr_BotUsername p) ''@'' else name) in
         if hasArgs then name @ '' '' @ args else name)
      else if pr_Platform p \<in> {''discord'', ''wecom'', ''dingtalk''} then
        (if tg_ChatKind target \<noteq> ''group'' \<and> \<not> tg_Thread target then command else mention_hint p command)
      else command)"

definition CommandTargetForChat :: "string \<Rightarrow> string \<Rightarrow> command_target" where
  "CommandTargetForChat platform chat =
     (let t = \<lparr>tg_ChatID = chat, tg_ChatKind = ''group'', tg_Thread = False\<rparr>;
          t = (if platform = ''telegram'' \<and> \<not> has_prefix chat ''-'' then t\<lparr>tg_ChatKind := ''private''\<rparr> else t) in
      case DecodeScopedID chat ''target-v1:'' 3 of
        None \<Rightarrow> t
      | Some parts \<Rightarrow>
          (let t = (if parts ! 0 = ''slack-thread'' then t\<lparr>tg_Thread := True\<rparr> else t) in
           if platform = ''dingtalk'' \<and> parts ! 0 = ''dingtalk-dm'' then t\<lparr>tg_ChatKind := ''private''\<rparr> else t))"

end
