(* ===== verification/Messages.thy ===== *)
theory Messages
  imports GoText ChatContract
begin

text \<open>
  The inbound message model of \<open>internal/im/message_types.go\<close> and the admission types of
  \<open>internal/im/ingress_types.go\<close>, with \<open>ValidateIngressInteraction\<close> of
  \<open>internal/gateway/router_ingress_interactions.go\<close>, the shape every platform callback must
  have before it is looked at. A ticket's \<open>Gate\<close> is a reference into the admission's gates.
\<close>

record card_handle =
  ch_MessageID :: string
  ch_Token :: string

record internal_action =
  ia_BindingInstanceID :: string
  ia_Version :: "64 word"
  ia_Type :: string
  ia_Action :: string
  ia_RequestID :: string
  ia_Value :: string
  ia_Values :: "string list"
  ia_Handle :: card_handle

definition QuestionFormSubmit :: "internal_action option \<Rightarrow> bool" where
  "QuestionFormSubmit a = (case a of None \<Rightarrow> False | Some a \<Rightarrow> ia_Type a = ''question'' \<and> 0 < length (ia_Values a))"

record admission_ticket =
  at_Kind :: string
  at_Identity :: chat_identity
  at_SenderID :: string
  at_AccountEpoch :: "64 word"
  at_BindingGeneration :: "64 word"
  at_PairingNonceID :: string
  at_ReceivedAt :: gotime
  at_Gate :: "chat_identity option"

definition zero_ticket :: admission_ticket where
  "zero_ticket = \<lparr>at_Kind = '''', at_Identity = ChatIdentity '''' '''' '''', at_SenderID = '''', at_AccountEpoch = 0,
     at_BindingGeneration = 0, at_PairingNonceID = '''', at_ReceivedAt = 0, at_Gate = None\<rparr>"

definition IsPairingHint :: "admission_ticket \<Rightarrow> bool" where
  "IsPairingHint t = has_prefix (at_Kind t) ''pairing_hint''"

datatype admission_disposition = AdmissionAllowed | AdmissionRejected | AdmissionUnavailable

record admission_result =
  ar_Ticket :: admission_ticket
  ar_Disposition :: admission_disposition
  ar_Reason :: string

record incoming_message =
  im_AccountID :: string
  im_ChatKind :: string
  im_ticket :: "admission_ticket option"
  im_IMType :: string
  im_ChatID :: string
  im_SenderID :: string
  im_SenderName :: string
  im_MessageID :: string
  im_Text :: string
  im_ForceText :: bool
  im_AppID :: string
  im_InternalAction :: "internal_action option"

definition SetAdmissionTicket :: "admission_ticket \<Rightarrow> incoming_message \<Rightarrow> incoming_message" where
  "SetAdmissionTicket t m = m\<lparr>im_ticket := Some t\<rparr>"

section \<open>Callbacks\<close>

abbreviation callback_limit :: nat where "callback_limit \<equiv> 64 * 1024"

definition callback_fields :: "internal_action \<Rightarrow> string list" where
  "callback_fields a = [ia_BindingInstanceID a, ia_RequestID a, ia_Value a, ch_MessageID (ia_Handle a), ch_Token (ia_Handle a)]"

text \<open>The two loops that add up the sizes: \<open>None\<close> is the error of a field that is too large.\<close>

fun sum_sizes :: "nat \<Rightarrow> string list \<Rightarrow> nat option" where
  "sum_sizes n [] = Some n"
| "sum_sizes n (v # vs) = (if callback_limit < length v then None else sum_sizes (n + length v) vs)"

text \<open>The result is the error message; \<open>None\<close> accepts the callback.\<close>

definition ValidateIngressInteraction :: "incoming_message \<Rightarrow> string option" where
  "ValidateIngressInteraction m = (case im_InternalAction m of None \<Rightarrow> None | Some a \<Rightarrow>
     if im_IMType m = '''' \<or> ia_BindingInstanceID a = '''' \<or> ia_RequestID a = '''' then Some ''invalid interaction identity''
     else case sum_sizes 0 (callback_fields a) of None \<Rightarrow> Some ''interaction field too large'' | Some n \<Rightarrow>
     if 128 < length (ia_Values a) then Some ''too many interaction values''
     else case sum_sizes n (ia_Values a) of None \<Rightarrow> Some ''interaction value too large'' | Some n \<Rightarrow>
     if callback_limit < n then Some ''interaction payload too large''
     else if ia_Type a = ''confirm'' then
       (if (ia_Action a \<noteq> ''allow'' \<and> ia_Action a \<noteq> ''deny'') \<or> 0 < length (ia_Values a) \<or> ia_Value a \<noteq> ''''
        then Some ''invalid confirmation interaction'' else None)
     else if ia_Type a = ''question'' then
       (if ia_Action a \<noteq> ''answer'' \<or> (ia_Value a = '''' \<and> length (ia_Values a) = 0)
           \<or> (ia_Value a \<noteq> '''' \<and> length (ia_Values a) \<noteq> 0)
        then Some ''invalid question interaction'' else None)
     else if ia_Type a = ''role'' then
       (if ia_Action a \<noteq> ''switch'' \<or> trim_space (ia_Value a) = '''' \<or> 0 < length (ia_Values a)
        then Some ''invalid role interaction'' else None)
     else Some ''unsupported interaction'')"

lemma sum_sizes_eq: "sum_sizes t vs = Some n \<Longrightarrow> n = t + sum_list (map length vs)"
  by (induction vs arbitrary: t) (fastforce split: if_splits)+

definition callback_bytes :: "internal_action \<Rightarrow> nat" where
  "callback_bytes a = sum_list (map length (callback_fields a @ ia_Values a))"

text \<open>An accepted callback is one of the three shapes the router acts on and is bounded.\<close>

definition callback_shape :: "internal_action \<Rightarrow> bool" where
  "callback_shape a \<longleftrightarrow>
     (ia_Type a = ''confirm'' \<and> ia_Action a \<in> {''allow'', ''deny''} \<and> ia_Value a = '''' \<and> ia_Values a = [])
     \<or> (ia_Type a = ''question'' \<and> ia_Action a = ''answer'' \<and> (ia_Value a = '''' \<longleftrightarrow> ia_Values a \<noteq> []))
     \<or> (ia_Type a = ''role'' \<and> ia_Action a = ''switch'' \<and> ia_Value a \<noteq> '''' \<and> ia_Values a = [])"

lemma ValidateIngressInteraction_ok:
  assumes "ValidateIngressInteraction m = None" and "im_InternalAction m = Some a"
  shows "callback_shape a" and "callback_bytes a \<le> callback_limit" and "length (ia_Values a) \<le> 128"
    and "im_IMType m \<noteq> ''''" and "ia_BindingInstanceID a \<noteq> ''''" and "ia_RequestID a \<noteq> ''''"
proof -
  obtain t where t: "sum_sizes 0 (callback_fields a) = Some t"
    using assms by (auto simp: ValidateIngressInteraction_def split: if_splits option.splits)
  obtain u where u: "sum_sizes t (ia_Values a) = Some u" and n: "\<not> 128 < length (ia_Values a)"
    using assms t by (auto simp: ValidateIngressInteraction_def split: if_splits option.splits)
  have le: "u \<le> callback_limit"
    using assms t u n by (auto simp: ValidateIngressInteraction_def split: if_splits)
  show "callback_bytes a \<le> callback_limit"
    using le sum_sizes_eq [OF t] sum_sizes_eq [OF u] by (simp add: callback_bytes_def)
  show "length (ia_Values a) \<le> 128" using n by simp
  show "callback_shape a"
    using assms t u n le
    by (auto simp: ValidateIngressInteraction_def callback_shape_def split: if_splits)
  show "im_IMType m \<noteq> ''''" and "ia_BindingInstanceID a \<noteq> ''''" and "ia_RequestID a \<noteq> ''''"
    using assms by (auto simp: ValidateIngressInteraction_def split: if_splits)
qed

text \<open>\<open>isValidIngressChatKind\<close> of \<open>internal/gateway/im_ingress.go\<close>.\<close>

definition isValidIngressChatKind :: "incoming_message \<Rightarrow> bool" where
  "isValidIngressChatKind m \<longleftrightarrow>
     im_ChatKind m = ''private'' \<or> im_ChatKind m = ''group'' \<or>
     im_ChatKind m = '''' \<and> im_IMType m = ''feishu'' \<and> im_InternalAction m \<noteq> None \<and> ValidateIngressInteraction m = None"

end
