(* ===== verification/Pairing.thy ===== *)
theory Pairing
  imports GatewayConfig CommandHints Messages GoRadix
begin

text \<open>
  \<open>internal/gateway/pairing.go\<close>: the pairing code, the platforms that are ready for it and the two
  budgets that bound guessing and replies. The service runs under one mutex, so each method is
  a step; the clock, the random source and the terminal are parameters.
\<close>

definition pairingLifetime :: duration where "pairingLifetime = 10 * minute"
definition hintBucketSize :: int where "hintBucketSize = 10"
definition hintRefillInterval :: duration where "hintRefillInterval = 10 * second"
definition hintChatBucketMax :: nat where "hintChatBucketMax = 256"
definition pairingBucketSize :: int where "pairingBucketSize = 30"
definition pairingRefillInterval :: duration where "pairingRefillInterval = 2 * second"

record pairing_hint =
  ph_tokens :: int
  ph_refilled :: gotime

record pairing_platform =
  pp_cancelled :: bool
  pp_presentation :: platform_presentation
  pp_account :: string
  pp_epoch :: "64 word"
  pp_ready :: bool
  pp_changed :: bool
  pp_tokens :: int
  pp_refilled :: gotime
  pp_hints :: "(string, pairing_hint) gomap"

record pairing_service =
  ps_enabled :: bool
  ps_hasTerminal :: bool
  ps_platforms :: "(string, pairing_platform) gomap"
  ps_codeNonce :: string
  ps_codeID :: string
  ps_codeExpires :: gotime

definition zero_nonce :: string where
  "zero_nonce = replicate 16 (CHR 0x00)"

definition NewPairingService :: "bool \<Rightarrow> bool \<Rightarrow> pairing_service" where
  "NewPairingService enabled terminal = \<lparr>ps_enabled = enabled, ps_hasTerminal = terminal, ps_platforms = [],
     ps_codeNonce = zero_nonce, ps_codeID = '''', ps_codeExpires = 0\<rparr>"

datatype pairing_error = PairingDenied | NoTerminal | RandomFailed | DisplayFailed

text \<open>
  The instant; what the nonce's array holds after the first draw of the random source and
  whether it was filled; the second draw.
\<close>

record pairing_env =
  pe_now :: gotime
  pe_nonce :: "string \<times> bool"
  pe_id :: "string option"

section \<open>Token buckets\<close>

text \<open>
  The interface of a bucket: spending costs a token, and tokens come back only as fast as the
  instant up to which they were given back moves. Whatever the instants of the attempts are,
  the number granted is bounded by the capacity and the time that passed.
\<close>

locale token_bucket =
  fixes spend :: "gotime \<Rightarrow> 'b \<Rightarrow> 'b \<times> bool"
    and tokens :: "'b \<Rightarrow> int" and level :: "'b \<Rightarrow> gotime"
    and capacity :: int and interval :: duration
  assumes interval_pos: "0 < interval"
    and cost: "(tokens (fst (spend now b)) + of_bool (snd (spend now b))) * interval
        \<le> tokens b * interval + (level (fst (spend now b)) - level b)"
    and level_le: "level b \<le> m \<Longrightarrow> now \<le> m \<Longrightarrow> level (fst (spend now b)) \<le> m"
    and level_mono: "level b \<le> level (fst (spend now b))"
    and tokens_ok: "0 \<le> tokens b \<Longrightarrow> tokens b \<le> capacity \<Longrightarrow>
        0 \<le> tokens (fst (spend now b)) \<and> tokens (fst (spend now b)) \<le> capacity"
begin

fun attempts :: "gotime list \<Rightarrow> 'b \<Rightarrow> 'b" where
  "attempts [] b = b"
| "attempts (t # ts) b = attempts ts (fst (spend t b))"

fun granted :: "gotime list \<Rightarrow> 'b \<Rightarrow> int" where
  "granted [] b = 0"
| "granted (t # ts) b = of_bool (snd (spend t b)) + granted ts (fst (spend t b))"

lemma attempts_ok:
  "0 \<le> tokens b \<Longrightarrow> tokens b \<le> capacity \<Longrightarrow> 0 \<le> tokens (attempts ts b) \<and> tokens (attempts ts b) \<le> capacity"
  by (induction ts arbitrary: b) (simp_all add: tokens_ok)

lemma granted_potential:
  assumes "0 \<le> tokens b" and "tokens b \<le> capacity" and "level b \<le> m" and "\<forall>t \<in> set ts. t \<le> m"
  shows "granted ts b * interval \<le> tokens b * interval + (m - level b)"
  using assms
proof (induction ts arbitrary: b)
  case Nil
  then show ?case using interval_pos by simp
next
  case (Cons t ts)
  let ?b = "fst (spend t b)"
  have "granted ts ?b * interval \<le> tokens ?b * interval + (m - level ?b)"
    using Cons tokens_ok [of b t] level_le [of b m t] by simp
  with cost [of t b] show ?case by (simp add: algebra_simps)
qed

text \<open>Attempts granted over a span of time are at most the capacity and one per interval of it.\<close>

lemma potential_bound:
  assumes "n * interval \<le> tokens b * interval + (m - level b)" and "tokens b \<le> capacity"
  shows "n \<le> capacity + (m - level b) div interval"
proof -
  have "tokens b * interval \<le> capacity * interval"
    using assms(2) interval_pos by (intro mult_right_mono) simp_all
  then have "n * interval \<le> capacity * interval + (m - level b)" using assms(1) by linarith
  then have "n \<le> (capacity * interval + (m - level b)) div interval"
    using interval_pos by (metis div_mult_self_is_m zdiv_mono1 nonzero_mult_div_cancel_right less_numeral_extra(3) order_less_imp_le)
  then show ?thesis using interval_pos by simp
qed

lemma granted_bound:
  assumes "0 \<le> tokens b" and "tokens b \<le> capacity" and "level b \<le> m" and "\<forall>t \<in> set ts. t \<le> m"
  shows "granted ts b \<le> capacity + (m - level b) div interval"
  by (rule potential_bound [OF granted_potential [OF assms] assms(2)])

end

text \<open>
  The replenishment both buckets run: whole intervals since the last one, Go's division
  truncating towards zero.
\<close>

definition quot :: "int \<Rightarrow> int \<Rightarrow> int" where
  "quot a b = (if 0 \<le> a then a div b else - ((- a) div b))"

definition replenish :: "int \<Rightarrow> duration \<Rightarrow> gotime \<Rightarrow> int \<times> gotime \<Rightarrow> int \<times> gotime" where
  "replenish full interval now b =
     (let r = quot (time_sub now (snd b)) interval in
      if 0 < r then (min full (fst b + r), snd b + r * interval) else b)"

definition spend_token :: "int \<Rightarrow> duration \<Rightarrow> gotime \<Rightarrow> int \<times> gotime \<Rightarrow> (int \<times> gotime) \<times> bool" where
  "spend_token full interval now b =
     (let b1 = replenish full interval now b in
      if fst b1 = 0 then (b1, False) else ((fst b1 - 1, snd b1), True))"

lemma quot_pos:
  assumes "0 < b" and "0 < quot a b"
  shows "0 < a \<and> quot a b * b \<le> a"
proof -
  have "0 \<le> a" using assms pos_imp_zdiv_nonneg_iff [of b "- a"] by (auto simp: quot_def split: if_splits)
  then have q: "quot a b = a div b" by (simp add: quot_def)
  with assms have "0 < a" using \<open>0 \<le> a\<close> by (cases "a = 0") simp_all
  moreover have "a div b * b \<le> a" using assms(1) by (metis add.commute div_mult_mod_eq le_add_same_cancel1 pos_mod_sign)
  ultimately show ?thesis by (simp add: q)
qed

lemma replenish_props:
  assumes "0 < interval" and "0 < full"
  shows "fst (replenish full interval now b) * interval \<le> fst b * interval + (snd (replenish full interval now b) - snd b)"
    and "snd b \<le> m \<Longrightarrow> now \<le> m \<Longrightarrow> snd (replenish full interval now b) \<le> m"
    and "snd b \<le> snd (replenish full interval now b)"
    and "0 \<le> fst b \<Longrightarrow> fst b \<le> full \<Longrightarrow> 0 \<le> fst (replenish full interval now b) \<and> fst (replenish full interval now b) \<le> full"
proof -
  let ?r = "quot (time_sub now (snd b)) interval"
  have le: "?r * interval \<le> now - snd b" if "0 < ?r"
  proof -
    have "0 < time_sub now (snd b)" "?r * interval \<le> time_sub now (snd b)" using quot_pos [OF assms(1) that] by auto
    moreover have "time_sub now (snd b) \<le> now - snd b" if "0 < time_sub now (snd b)"
      using that by (auto simp: time_sub_def min_duration_def)
    ultimately show ?thesis by linarith
  qed
  show "fst (replenish full interval now b) * interval \<le> fst b * interval + (snd (replenish full interval now b) - snd b)"
  proof (cases "0 < ?r")
    case True
    have "min full (fst b + ?r) * interval \<le> (fst b + ?r) * interval"
      using assms(1) by (intro mult_right_mono) simp_all
    with True show ?thesis by (simp add: replenish_def Let_def algebra_simps)
  qed (simp add: replenish_def Let_def)
  show "snd b \<le> m \<Longrightarrow> now \<le> m \<Longrightarrow> snd (replenish full interval now b) \<le> m"
    using le by (auto simp: replenish_def Let_def)
  show "snd b \<le> snd (replenish full interval now b)"
    using assms(1) by (auto simp: replenish_def Let_def)
  show "0 \<le> fst b \<Longrightarrow> fst b \<le> full \<Longrightarrow> 0 \<le> fst (replenish full interval now b) \<and> fst (replenish full interval now b) \<le> full"
    using assms(2) by (auto simp: replenish_def Let_def)
qed

lemma spend_token_bucket:
  assumes "0 < interval" and "0 < full"
  shows "token_bucket (spend_token full interval) fst snd full interval"
proof
  fix now m and b :: "int \<times> gotime"
  note r = replenish_props [OF assms, where now = now and b = b]
  show "0 < interval" by (rule assms)
  show "(fst (fst (spend_token full interval now b)) + of_bool (snd (spend_token full interval now b))) * interval
      \<le> fst b * interval + (snd (fst (spend_token full interval now b)) - snd b)"
    using r(1) by (auto simp: spend_token_def Let_def)
  show "snd b \<le> m \<Longrightarrow> now \<le> m \<Longrightarrow> snd (fst (spend_token full interval now b)) \<le> m"
    using r(2) by (auto simp: spend_token_def Let_def)
  show "snd b \<le> snd (fst (spend_token full interval now b))"
    using r(3) by (auto simp: spend_token_def Let_def)
  show "0 \<le> fst b \<Longrightarrow> fst b \<le> full \<Longrightarrow>
      0 \<le> fst (fst (spend_token full interval now b)) \<and> fst (fst (spend_token full interval now b)) \<le> full"
    using r(4) by (auto simp: spend_token_def Let_def)
qed

section \<open>The two budgets\<close>

definition pairing_spend :: "gotime \<Rightarrow> pairing_platform \<Rightarrow> pairing_platform \<times> bool" where
  "pairing_spend now s =
     (let (b, ok) = spend_token pairingBucketSize pairingRefillInterval now (pp_tokens s, pp_refilled s) in
      (s\<lparr>pp_tokens := fst b, pp_refilled := snd b\<rparr>, ok))"

definition hint_spend :: "gotime \<Rightarrow> pairing_hint \<Rightarrow> pairing_hint \<times> bool" where
  "hint_spend now h =
     (let (b, ok) = spend_token hintBucketSize hintRefillInterval now (ph_tokens h, ph_refilled h) in
      (h\<lparr>ph_tokens := fst b, ph_refilled := snd b\<rparr>, ok))"

lemma pairing_bucket: "token_bucket (spend_token pairingBucketSize pairingRefillInterval) fst snd pairingBucketSize pairingRefillInterval"
  by (rule spend_token_bucket) (simp_all add: pairingBucketSize_def pairingRefillInterval_def)

lemma hint_bucket: "token_bucket (spend_token hintBucketSize hintRefillInterval) fst snd hintBucketSize hintRefillInterval"
  by (rule spend_token_bucket) (simp_all add: hintBucketSize_def hintRefillInterval_def)

text \<open>A bucket kept in the fields of a record is a bucket.\<close>

lemma token_bucket_fields:
  assumes "token_bucket sp fst snd n i"
    and "\<And>now b. (tk (fst (f now b)), lv (fst (f now b))) = fst (sp now (tk b, lv b)) \<and> snd (f now b) = snd (sp now (tk b, lv b))"
  shows "token_bucket f tk lv n i"
proof -
  have e: "tk (fst (f now b)) = fst (fst (sp now (tk b, lv b)))" "lv (fst (f now b)) = snd (fst (sp now (tk b, lv b)))"
    "snd (f now b) = snd (sp now (tk b, lv b))" for now b
    using assms(2) [of now b] by (metis fst_conv, metis snd_conv, blast)
  show ?thesis
    using token_bucket.interval_pos [OF assms(1)] token_bucket.cost [OF assms(1), of _ "(tk b, lv b)" for b]
      token_bucket.level_le [OF assms(1), of "(tk b, lv b)" for b]
      token_bucket.level_mono [OF assms(1), of "(tk b, lv b)" for b]
      token_bucket.tokens_ok [OF assms(1), of "(tk b, lv b)" for b]
    by unfold_locales (simp_all add: e)
qed

interpretation pb: token_bucket pairing_spend pp_tokens pp_refilled pairingBucketSize pairingRefillInterval
  by (rule token_bucket_fields [OF pairing_bucket]) (simp add: pairing_spend_def split_beta)

interpretation hb: token_bucket hint_spend ph_tokens ph_refilled hintBucketSize hintRefillInterval
  by (rule token_bucket_fields [OF hint_bucket]) (simp add: hint_spend_def split_beta)

text \<open>
  \<open>hintAllowed\<close>: the budget of one private chat. At the limit of buckets the ones that would
  be full again are dropped.
\<close>

definition idle_hint :: "gotime \<Rightarrow> pairing_hint \<Rightarrow> bool" where
  "idle_hint now h \<longleftrightarrow> hintBucketSize * hintRefillInterval \<le> time_sub now (ph_refilled h)"

definition hint_room :: "gotime \<Rightarrow> (string, pairing_hint) gomap \<Rightarrow> (string, pairing_hint) gomap" where
  "hint_room now hints =
     (if hintChatBucketMax \<le> length hints then filter (\<lambda>(_, h). \<not> idle_hint now h) hints else hints)"

definition hintAllowed :: "gotime \<Rightarrow> string \<Rightarrow> pairing_platform \<Rightarrow> pairing_platform \<times> bool" where
  "hintAllowed now chatID s =
     (if chatID = '''' then (s, False)
      else case map_of (pp_hints s) chatID of
        Some h \<Rightarrow> (let (h1, ok) = hint_spend now h in (s\<lparr>pp_hints := AList.update chatID h1 (pp_hints s)\<rparr>, ok))
      | None \<Rightarrow>
          (let room = hint_room now (pp_hints s) in
           if hintChatBucketMax \<le> length room then (s\<lparr>pp_hints := room\<rparr>, False)
           else let (h1, ok) = hint_spend now \<lparr>ph_tokens = hintBucketSize, ph_refilled = now\<rparr> in
             (s\<lparr>pp_hints := AList.update chatID h1 room\<rparr>, ok)))"

section \<open>The code\<close>

definition upper_piece :: "nat \<times> string \<Rightarrow> string" where
  "upper_piece p = (if 97 \<le> fst p \<and> fst p \<le> 122 then [char_of (fst p - 32)] else piece_text p)"

definition upper_code :: "string \<Rightarrow> string" where
  "upper_code code = concat (map upper_piece (runes code))"

definition codeLive :: "gotime \<Rightarrow> pairing_service \<Rightarrow> bool" where
  "codeLive now p \<longleftrightarrow> ps_enabled p \<and> ps_codeExpires p \<noteq> 0 \<and> now < ps_codeExpires p"

text \<open>
  A last group of 1, 3 or 6 symbols, which Go's decoder drops, never ends a text of 16 bytes.
\<close>

definition codeValid :: "gotime \<Rightarrow> string \<Rightarrow> pairing_service \<Rightarrow> bool" where
  "codeValid now code p \<longleftrightarrow>
     (if \<not> ps_enabled p \<or> ps_codeExpires p = 0 \<or> \<not> now < ps_codeExpires p then False
      else case base32_decode (upper_code code) of
        None \<Rightarrow> False
      | Some decoded \<Rightarrow> length decoded = 16 \<and> decoded = ps_codeNonce p)"

definition nl :: string where "nl = [CHR 0x0A]"

text \<open>The platforms of each distinct command, in the order the commands first appear.\<close>

fun group_hints :: "(string \<Rightarrow> string) \<Rightarrow> string list \<Rightarrow> (string, string list) gomap \<Rightarrow> (string, string list) gomap" where
  "group_hints f [] g = g"
| "group_hints f (plat # plats) g = group_hints f plats (AList.update (f plat) (get_or [] g (f plat) @ [plat]) g)"

definition pad_right :: "nat \<Rightarrow> string \<Rightarrow> string" where
  "pad_right w s = s @ replicate (w - rune_count s) space"

definition pairing_message :: "string list \<Rightarrow> string \<Rightarrow> string" where
  "pairing_message names code =
     (let bind = ''/bind '' @ [quote_char] @ ''<directory>'' @ [quote_char] @ '' '' @ code;
          hint = (\<lambda>plat. FormatCommandHint \<lparr>pr_Platform = plat, pr_BotMention = '''', pr_BotUsername = ''''\<rparr>
             \<lparr>tg_ChatID = '''', tg_ChatKind = ''private'', tg_Thread = False\<rparr> bind);
          grouped = group_hints hint names [];
          width = foldr max (map (\<lambda>g. length (join '', '' (snd g))) grouped) 0 in
      ''Pairing code (Valid for 10 minutes, works on all platforms): '' @ code @ nl
      @ ''In a private chat with the bot, send on the matching platform:'' @ nl
      @ concat (map (\<lambda>g. ''  '' @ pad_right width (join '', '' (snd g)) @ ''  '' @ fst g @ nl) grouped)
      @ ''Later bindings within the window do not need a new code.'' @ nl)"

text \<open>\<open>preparePairingCodeLocked\<close>: no message means that none needs to be shown.\<close>

definition preparePairingCode :: "gateway_config \<Rightarrow> pairing_env \<Rightarrow> pairing_service
    \<Rightarrow> pairing_service \<times> (pairing_error + string)" where
  "preparePairingCode cfg env p =
     (if \<not> ps_enabled p \<or> ps_codeExpires p \<noteq> 0 then (p, Inr '''')
      else if \<not> ps_hasTerminal p then (p, Inl NoTerminal)
      else let (nonce, filled) = pe_nonce env; p = p\<lparr>ps_codeNonce := nonce\<rparr> in
        if \<not> filled then (p, Inl RandomFailed)
        else case pe_id env of
          None \<Rightarrow> (p, Inl RandomFailed)
        | Some i \<Rightarrow>
            (let message = pairing_message (sort (map adapter_Type (cf_IMs cfg))) (base32_encode nonce) in
             (p\<lparr>ps_codeID := base32_encode i, ps_codeExpires := pe_now env + pairingLifetime\<rparr>, Inr message)))"

text \<open>What a failed write to the terminal takes back.\<close>

definition forgetCode :: "pairing_service \<Rightarrow> pairing_service" where
  "forgetCode p = p\<lparr>ps_codeNonce := zero_nonce, ps_codeID := '''', ps_codeExpires := 0\<rparr>"

text \<open>\<open>writePairingMessage\<close>, given how many bytes \<open>WriteString\<close> says it wrote and whether it failed.\<close>

definition writePairingMessage :: "bool \<Rightarrow> nat \<Rightarrow> bool \<Rightarrow> string \<Rightarrow> pairing_error option" where
  "writePairingMessage hasTerminal n failed message =
     (if \<not> hasTerminal then Some NoTerminal
      else if failed \<or> n \<noteq> length message then Some DisplayFailed else None)"

definition displayCode :: "nat \<Rightarrow> bool \<Rightarrow> pairing_service \<times> (pairing_error + string) \<Rightarrow> pairing_service \<times> pairing_error option" where
  "displayCode n failed r = (case r of
     (p, Inl err) \<Rightarrow> (p, Some err)
   | (p, Inr message) \<Rightarrow>
       if message = '''' then (p, None)
       else case writePairingMessage (ps_hasTerminal p) n failed message of
         Some err \<Rightarrow> (forgetCode p, Some err)
       | None \<Rightarrow> (p, None))"

definition BeginPairing :: "gateway_config \<Rightarrow> pairing_env \<Rightarrow> nat \<Rightarrow> bool \<Rightarrow> pairing_service \<Rightarrow> pairing_service \<times> pairing_error option" where
  "BeginPairing cfg env n failed p = displayCode n failed (preparePairingCode cfg env p)"

section \<open>Platforms\<close>

definition new_platform :: "gotime \<Rightarrow> string \<Rightarrow> pairing_platform" where
  "new_platform now account = \<lparr>pp_cancelled = False, pp_presentation = \<lparr>pr_Platform = '''', pr_BotMention = '''', pr_BotUsername = ''''\<rparr>,
     pp_account = account, pp_epoch = 1, pp_ready = False, pp_changed = False, pp_tokens = pairingBucketSize,
     pp_refilled = now, pp_hints = []\<rparr>"

definition account_changed :: "string \<Rightarrow> pairing_platform \<Rightarrow> pairing_platform" where
  "account_changed account s = s\<lparr>pp_cancelled := True, pp_epoch := pp_epoch s + 1, pp_ready := False, pp_changed := True,
     pp_account := account\<rparr>"

definition put_platform :: "string \<Rightarrow> pairing_platform \<Rightarrow> pairing_service \<Rightarrow> pairing_service" where
  "put_platform platform s p = p\<lparr>ps_platforms := AList.update platform s (ps_platforms p)\<rparr>"

text \<open>\<open>PlatformReadyWithPresentation\<close> under the lock, up to the terminal: \<open>Inr ''''\<close> is success.\<close>

definition ready_locked :: "gateway_config \<Rightarrow> pairing_env \<Rightarrow> string \<Rightarrow> string \<Rightarrow> platform_presentation \<Rightarrow> pairing_service
    \<Rightarrow> pairing_service \<times> (pairing_error + string)" where
  "ready_locked cfg env platform account presentation p =
     (if account = '''' then (p, Inl PairingDenied)
      else let known = map_of (ps_platforms p) platform;
               s = (case known of None \<Rightarrow> new_platform (pe_now env) account | Some s \<Rightarrow> s) in
        if pp_account s \<noteq> account then (put_platform platform (account_changed account s) p, Inl PairingDenied)
        else let s = s\<lparr>pp_presentation := presentation\<lparr>pr_Platform := platform\<rparr>\<rparr> in
          if pp_changed s then (put_platform platform s p, Inl PairingDenied)
          else case IMConfigByType cfg platform of
            None \<Rightarrow> (put_platform platform s p, Inl PairingDenied)
          | Some a \<Rightarrow>
              (case OwnerIdentity a of
                 Some ow \<Rightarrow>
                   if ow_AccountID ow \<noteq> account then (put_platform platform s p, Inl PairingDenied)
                   else (put_platform platform (s\<lparr>pp_ready := True\<rparr>) p, Inr '''')
               | None \<Rightarrow> preparePairingCode cfg env (put_platform platform (s\<lparr>pp_ready := True\<rparr>) p)))"

definition PlatformReadyWithPresentation :: "gateway_config \<Rightarrow> pairing_env \<Rightarrow> nat \<Rightarrow> bool \<Rightarrow> string \<Rightarrow> string \<Rightarrow> platform_presentation
    \<Rightarrow> pairing_service \<Rightarrow> pairing_service \<times> pairing_error option" where
  "PlatformReadyWithPresentation cfg env n failed platform account presentation p =
     displayCode n failed (ready_locked cfg env platform account presentation p)"

definition PlatformReady :: "gateway_config \<Rightarrow> pairing_env \<Rightarrow> nat \<Rightarrow> bool \<Rightarrow> string \<Rightarrow> string \<Rightarrow> pairing_service
    \<Rightarrow> pairing_service \<times> pairing_error option" where
  "PlatformReady cfg env n failed platform account =
     PlatformReadyWithPresentation cfg env n failed platform account
       \<lparr>pr_Platform = platform, pr_BotMention = '''', pr_BotUsername = ''''\<rparr>"

definition PlatformUnavailable :: "string \<Rightarrow> pairing_service \<Rightarrow> pairing_service" where
  "PlatformUnavailable platform p = (case map_of (ps_platforms p) platform of
     None \<Rightarrow> p | Some s \<Rightarrow> put_platform platform (s\<lparr>pp_ready := False\<rparr>) p)"

end
