(* ===== verification/Payloads.thy ===== *)
theory Payloads
  imports Prelude GoStrings
begin

text \<open>
  What a Chord process reports: the payloads of its envelopes, from
  \<open>internal/gateway/types.go\<close>, \<open>mcp_status.go\<close>, \<open>process_input.go\<close>, \<open>process_input_queue.go\<close> and
  \<open>process_paused_inputs.go\<close>. A pointer that may be nil is an option; a slice that is never
  compared with nil is a list.
\<close>

section \<open>Confirmations, questions and handoffs\<close>

record confirm_rule_item =
  cr_Tool :: string
  cr_Pattern :: string

record confirm_payload =
  cp_ToolName :: string
  cp_ArgsJSON :: string
  cp_RequestID :: string
  cp_NeedsApproval :: "string list"
  cp_DoneReport :: string
  cp_DoneReason :: string
  cp_TimeoutMS :: int
  cp_AlreadyAllowed :: "string list"
  cp_AgentID :: string
  cp_NeedsApprovalRules :: "string list"
  cp_AlreadyAllowedRules :: "string list"
  cp_NeedsApprovalRuleItems :: "confirm_rule_item list"
  cp_AlreadyAllowedRuleItems :: "confirm_rule_item list"

record confirm_resolution =
  cs_RequestID :: string
  cs_ToolName :: string
  cs_AgentID :: string
  cs_Outcome :: string

definition validConfirmOutcome :: "string \<Rightarrow> bool" where
  "validConfirmOutcome outcome \<longleftrightarrow> outcome \<in> {''approved'', ''denied'', ''timeout'', ''cancelled''}"

record question_revision =
  qv_QuestionID :: string
  qv_ResultID :: string
  qv_Selected :: "string list"
  qv_Outcome :: string

record question_payload =
  qp_BindingID :: string
  qp_OptionIDs :: "string list"
  qp_Version :: "64 word"
  qp_TaskID :: string
  qp_ScopeID :: string
  qp_ResponsePolicy :: string
  qp_DefaultOptionID :: string
  qp_Timer :: string
  qp_Outcome :: string
  qp_ResultID :: string
  qp_Selected :: "string list"
  qp_SelectedIDs :: "string list"
  qp_ToolName :: string
  qp_Header :: string
  qp_Question :: string
  qp_Options :: "string list"
  qp_OptionDetails :: "string list"
  qp_Multiple :: bool
  qp_RequestID :: string
  qp_Deadline :: "gotime option"
  qp_RevisionResult :: "question_revision option"

record question_receipt =
  qc_OperationID :: string
  qc_RequestID :: string
  qc_Accepted :: bool
  qc_Status :: string
  qc_Version :: "64 word"
  qc_Error :: string

record handoff_agent_option =
  ho_Name :: string
  ho_Default :: bool
  ho_ModelPools :: "string list"
  ho_CurrentModelPool :: string

record handoff_payload =
  hp_RequestID :: string
  hp_PlanPath :: string
  hp_PlanText :: string
  hp_PlanError :: string
  hp_Agents :: "handoff_agent_option list"

section \<open>Agents, notices and results\<close>

record notification_payload =
  np_Message :: string
  np_Reason :: string
  np_AgentID :: string

record done_completion_payload =
  dc_CallID :: string
  dc_Report :: string
  dc_Reason :: string
  dc_Status :: string
  dc_AgentID :: string
  dc_Mode :: string

record agent_started_payload =
  as_AgentID :: string
  as_TaskID :: string
  as_AgentType :: string
  as_Description :: string
  as_ParentAgentID :: string
  as_ParentTaskID :: string

record agent_notify_payload =
  an_AgentID :: string
  an_TaskID :: string
  an_AgentType :: string
  an_ParentAgentID :: string
  an_ParentTaskID :: string
  an_TargetAgentID :: string
  an_TargetTaskID :: string
  an_Kind :: string
  an_Subtype :: string
  an_Message :: string

record agent_done_payload =
  ap_AgentID :: string
  ap_TaskID :: string
  ap_AgentType :: string
  ap_ParentAgentID :: string
  ap_ParentTaskID :: string
  ap_Summary :: string
  ap_Message :: string

record local_shell_payload =
  ls_Command :: string
  ls_Output :: string
  ls_Failed :: bool
  ls_Error :: string

record background_result_payload =
  br_SessionID :: string
  br_MessageIndex :: int
  br_TargetAgentID :: string
  br_Content :: string

record context_notice_payload =
  cn_SessionID :: string
  cn_MessageIndex :: int
  cn_TargetAgentID :: string
  cn_Level :: string
  cn_Message :: string

record compaction_status =
  co_Status :: string
  co_Trigger :: string
  co_Reason :: string
  co_PlanID :: string
  co_Synthetic :: bool

record workdir_snapshot =
  wd_Path :: string
  wd_WorktreeID :: string
  wd_Generation :: int

record models_response =
  mo_RequestID :: string
  mo_OK :: bool
  mo_Message :: string
  mo_Status :: string

record role_info =
  ri_Name :: string
  ri_Current :: bool

record role_response =
  rr_OK :: bool
  rr_Message :: string
  rr_Role :: string
  rr_Roles :: "role_info list"

record todo_item =
  td_ID :: string
  td_Content :: string
  td_Status :: string
  td_ActiveForm :: string

section \<open>MCP servers\<close>

record mcp_server_ref =
  mr_WorkspaceID :: string
  mr_Owner :: string
  mr_ServerName :: string

record mcp_diagnostic =
  md_ErrorClass :: string
  md_SuggestedAction :: string

record mcp_operation =
  mp_OperationID :: string
  mp_Kind :: string
  mp_State :: string
  mp_StartedAt :: string

record mcp_scope_requirement =
  mq_RemoteTool :: string
  mq_Stage :: string
  mq_Scopes :: "string list"
  mq_ErrorClass :: string

record mcp_server_status =
  ms_Ref :: mcp_server_ref
  ms_DesiredEnabled :: bool
  ms_Auth :: string
  ms_Operations :: "mcp_operation list"
  ms_Connection :: string
  ms_Catalog :: string
  ms_ScopeRequirements :: "mcp_scope_requirement list"
  ms_Diagnostic :: mcp_diagnostic

record mcp_status_snapshot =
  mc_SchemaVersion :: int
  mc_BindingID :: string
  mc_Version :: "64 word"
  mc_Servers :: "mcp_server_status list"

section \<open>Inputs\<close>

record input_queue_target =
  iq_RuntimeID :: string
  iq_SessionID :: string
  iq_SessionEpoch :: "64 word"
  iq_OwnerTaskID :: string
  iq_WorkDirGeneration :: "64 word"

record input_queue_work =
  iw_WorkID :: string
  iw_Origin :: string
  iw_Outcome :: string

record input_queue_item =
  ii_InputID :: string
  ii_Revision :: "64 word"
  ii_Sequence :: int
  ii_Policy :: string
  ii_Stage :: string
  ii_WorkID :: string
  ii_WaitWorkID :: string
  ii_WorkDir :: string
  ii_WorktreeID :: string
  ii_Preview :: string
  ii_Attachments :: int
  ii_EditHeld :: bool

record input_queue =
  iq_Target :: input_queue_target
  iq_ViewVersion :: "64 word"
  iq_ViewVersionCAS :: bool
  iq_QueueRevision :: "64 word"
  iq_Works :: "input_queue_work list"
  iq_Inputs :: "input_queue_item list"
  iq_Blocked :: string
  iq_RestoredHeld :: bool

record input_queue_result =
  ir_OperationID :: string
  ir_Target :: "input_queue_target option"
  ir_Result :: string
  ir_Reason :: string
  ir_InputID :: string
  ir_ItemRevision :: "64 word"
  ir_QueueRevision :: "64 word"
  ir_Content :: string
  ir_Attachments :: int

record input_result_payload =
  ip_Target :: "input_queue_target option"
  ip_InputID :: string
  ip_Revision :: "64 word"
  ip_QueueRevision :: "64 word"
  ip_RequestID :: string
  ip_Status :: string
  ip_TurnID :: "64 word"
  ip_Message :: string

record paused_input_summary =
  ps_InputID :: string
  ps_OwnerTaskID :: string
  ps_Preview :: string
  ps_AttachmentCount :: int

record paused_inputs =
  pi_Paused :: bool
  pi_PendingInputCount :: int
  pi_Inputs :: "paused_input_summary list"

record confirm_rule_persistence_result =
  cq_Tool :: string
  cq_Pattern :: string
  cq_Error :: string

record confirm_rule_intent_result =
  ci_RequestID :: string
  ci_Results :: "confirm_rule_persistence_result list"

record transport_error_payload =
  te_Message :: string
  te_Fatal :: bool

section \<open>Remembered rules\<close>

text \<open>\<open>RuleCandidates\<close>: the items of a request, or its patterns that are not blank.\<close>

definition RuleCandidates :: "confirm_payload option \<Rightarrow> confirm_rule_item list" where
  "RuleCandidates p = (case p of None \<Rightarrow> [] | Some p \<Rightarrow>
     if 0 < length (cp_NeedsApprovalRuleItems p) then cp_NeedsApprovalRuleItems p
     else map (\<lambda>pattern. \<lparr>cr_Tool = '''', cr_Pattern = pattern\<rparr>)
       (filter (\<lambda>pattern. trim_space pattern \<noteq> '''') (cp_NeedsApprovalRules p)))"

end
