(* ===== verification/Commands.thy ===== *)
theory Commands
  imports Messages GoEncoding Payloads
begin

text \<open>
  From message text to commands: \<open>internal/gateway/router_parse.go\<close>, \<open>parseTakeoverCommand\<close> of
  \<open>router_takeover.go\<close>, \<open>isBindCommand\<close> and \<open>parsePairedBindArgs\<close> of \<open>chat_binding_parse.go\<close>,
  \<open>local_only_slash.go\<close>, \<open>remoteMCPCommand\<close> of \<open>mcp_status.go\<close>, \<open>parseQueueRequest\<close> of
  \<open>router_queue.go\<close>, \<open>parseQuestionAnswer\<close> of \<open>router_question_answers.go\<close> and
  \<open>selectRoleName\<close> of \<open>router_roles.go\<close>. \<open>time.ParseDuration\<close>, which scales fractions in
  floating point, is the parameter \<open>pd\<close> of the parsers that reach it.
\<close>

record im_command =
  ic_Timeout :: "duration option"
  ic_Type :: string
  ic_Content :: string
  ic_RequestID :: string
  ic_Action :: string
  ic_Reason :: string
  ic_Agent :: string
  ic_Pool :: string
  ic_Answers :: "string list"
  ic_SessionID :: string
  ic_Invalid :: bool
  ic_RuleScope :: string

definition command :: "string \<Rightarrow> im_command" where
  "command ty = \<lparr>ic_Timeout = None, ic_Type = ty, ic_Content = '''', ic_RequestID = '''', ic_Action = '''', ic_Reason = '''',
     ic_Agent = '''', ic_Pool = '''', ic_Answers = [], ic_SessionID = '''', ic_Invalid = False, ic_RuleScope = ''''\<rparr>"

lemma command_simps [simp]:
  "ic_Timeout (command t) = None" "ic_Type (command t) = t" "ic_Content (command t) = ''''" "ic_RequestID (command t) = ''''"
  "ic_Action (command t) = ''''" "ic_Reason (command t) = ''''" "ic_Agent (command t) = ''''" "ic_Pool (command t) = ''''"
  "ic_Answers (command t) = []" "ic_SessionID (command t) = ''''" "ic_Invalid (command t) = False" "ic_RuleScope (command t) = ''''"
  by (simp_all add: command_def)

section \<open>Arguments of single commands\<close>

definition parseTakeoverCommand :: "(string \<Rightarrow> duration option) \<Rightarrow> string \<Rightarrow> im_command" where
  "parseTakeoverCommand pd rest =
     (let c = command ''takeover''; fs = str_fields rest in
      if length fs = 1 \<and> fs ! 0 = ''status'' then c\<lparr>ic_Action := ''status''\<rparr>
      else if length fs \<noteq> 1 \<and> length fs \<noteq> 3 then c\<lparr>ic_Invalid := True\<rparr>
      else if length fs = 0 \<or> has_prefix (fs ! 0) ''-'' \<or> fs ! 0 = ''status'' then c\<lparr>ic_Invalid := True\<rparr>
      else let c1 = c\<lparr>ic_SessionID := fs ! 0, ic_Action := ''start''\<rparr> in
        if length fs = 3 then
          (case pd (fs ! 2) of
             None \<Rightarrow> c1\<lparr>ic_Invalid := True\<rparr>
           | Some d \<Rightarrow> if fs ! 1 \<noteq> ''--timeout'' \<or> d < 0 then c1\<lparr>ic_Invalid := True\<rparr> else c1\<lparr>ic_Timeout := Some d\<rparr>)
        else c1)"

definition confirmRuleScopes :: "(string, string) gomap" where
  "confirmRuleScopes =
     [(''--session'', ''session''), (''--project'', ''project''), (''--user'', ''user_global''),
      (''-s'', ''session''), (''-p'', ''project''), (''-u'', ''user_global'')]"

abbreviation rule_scope :: "string \<Rightarrow> string" where
  "rule_scope w \<equiv> get_or '''' confirmRuleScopes w"

text \<open>The result is scope, request and the invalid flag.\<close>

fun allow_loop :: "string \<Rightarrow> string \<Rightarrow> bool \<Rightarrow> string list \<Rightarrow> string \<times> string \<times> bool" where
  "allow_loop scope rid once [] = (scope, trim_prefix rid ''@'', False)"
| "allow_loop scope rid once (w # ws) =
     (if w = ''once'' then
        (if scope \<noteq> '''' then ('''', '''', True) else allow_loop scope rid True ws)
      else if rule_scope w \<noteq> '''' then
        (if scope \<noteq> '''' \<or> once then ('''', '''', True) else allow_loop (rule_scope w) rid once ws)
      else if has_prefix w ''-'' then ('''', '''', True)
      else if rid \<noteq> '''' then ('''', '''', True)
      else allow_loop scope w once ws)"

definition parseAllowArgs :: "string \<Rightarrow> string \<times> string \<times> bool" where
  "parseAllowArgs rest = allow_loop '''' '''' False (str_fields rest)"

text \<open>
  \<open>nextCommandArg\<close>: the quoted scan runs byte by byte with Go's \<open>escaped\<close> flag; the argument
  built so far is the first parameter, in reverse.
\<close>

fun quoted_arg :: "string \<Rightarrow> bool \<Rightarrow> string \<Rightarrow> (string \<times> string) option" where
  "quoted_arg acc escaped [] = None"
| "quoted_arg acc escaped (ch # s) =
     (if escaped then
        (if ch = quote_char \<or> ch = backslash_char then quoted_arg (ch # acc) False s
         else quoted_arg (ch # backslash_char # acc) False s)
      else if ch = backslash_char then quoted_arg acc True s
      else if ch = quote_char then Some (rev acc, trim_space s)
      else quoted_arg (ch # acc) False s)"

definition nextCommandArg :: "string \<Rightarrow> (string \<times> string) option" where
  "nextCommandArg s =
     (let s = trim_space s in
      if s = '''' then None
      else if hd s \<noteq> quote_char then
        (let fs = str_fields s in
         if fs = [] then None
         else case str_index s (hd fs) of
           None \<Rightarrow> Some (hd fs, trim_space (drop (length (hd fs) - 1) s))
         | Some i \<Rightarrow> Some (hd fs, trim_space (drop (i + length (hd fs)) s)))
      else quoted_arg [] False (tl s))"

definition parseHandoffArgs :: "string \<Rightarrow> string \<times> string \<times> bool" where
  "parseHandoffArgs rest =
     (let rest = trim_space rest in
      if rest = '''' then ('''', '''', True)
      else case nextCommandArg rest of
        None \<Rightarrow> ('''', '''', False)
      | Some (agent, remaining) \<Rightarrow>
          if trim_space remaining = '''' then (agent, '''', True)
          else case nextCommandArg remaining of
            None \<Rightarrow> ('''', '''', False)
          | Some (pool, remaining) \<Rightarrow>
              if trim_space remaining \<noteq> '''' then ('''', '''', False) else (agent, pool, True))"

section \<open>Commands\<close>

definition fullwidth_bang :: string where
  "fullwidth_bang = [CHR 0xEF, CHR 0xBC, CHR 0x81]"

definition parse_slash :: "(string \<Rightarrow> duration option) \<Rightarrow> string \<Rightarrow> im_command" where
  "parse_slash pd s =
     (let parts = split_n 3 space s;
          cmd = to_lower (parts ! 0);
          rest = trim_space (drop (length (parts ! 0)) s);
          second = (if 1 < length parts then trim_space (parts ! 1) else '''') in
      if cmd = ''/takeover'' then parseTakeoverCommand pd rest
      else if cmd = ''/status'' then command ''status''
      else if cmd = ''/summary'' then (command ''send'')\<lparr>ic_Content := ''/summary''\<rparr>
      else if cmd = ''/cancel'' then command ''cancel''
      else if cmd = ''/allow'' then
        (let (scope, rid, invalid) = parseAllowArgs rest in
         (command ''confirm'')\<lparr>ic_Action := ''allow'', ic_RequestID := rid, ic_RuleScope := scope, ic_Invalid := invalid\<rparr>)
      else if cmd = ''/deny'' then
        (command ''confirm'')\<lparr>ic_Action := ''deny'', ic_Reason := (if 1 < length parts then rest else '''')\<rparr>
      else if cmd = ''/answer'' then
        (let (rid, text) = (if has_prefix rest ''@'' then
              (let (i, r, found) = cut_at space rest in (trim_prefix i ''@'', r)) else ('''', rest)) in
         (command ''question'')\<lparr>ic_RequestID := rid, ic_Answers := [text]\<rparr>)
      else if cmd = ''/question-interact'' \<or> cmd = ''/question-withdraw'' then
        (let action = (if cmd = ''/question-interact'' then ''interact'' else ''withdraw_requirement'');
             (rid, text, found) = cut_at space rest;
             text = (if text = '''' \<and> action = ''withdraw_requirement''
                     then ''Withdraw the requirement for question '' @ rid else text) in
         (command ''question'')\<lparr>ic_RequestID := trim_prefix rid ''@'', ic_Action := action, ic_Content := text\<rparr>)
      else if cmd = ''/question-replace'' then
        (let pieces = str_fields rest in
         if length pieces < 2 then (command ''question'')\<lparr>ic_Invalid := True\<rparr>
         else (command ''question'')\<lparr>ic_RequestID := trim_prefix (pieces ! 0) ''@'', ic_Action := ''replace_requirement'',
                ic_Reason := trim_prefix (pieces ! 1) ''@'',
                ic_Content := ''Replace the requirement for question '' @ pieces ! 0 @ '' with '' @ pieces ! 1\<rparr>)
      else if cmd = ''/handoff'' then
        (let (agent, pool, ok) = parseHandoffArgs (trim_space (trim_prefix s (parts ! 0))) in
         (command ''handoff'')\<lparr>ic_Action := ''accept'', ic_Agent := agent, ic_Pool := pool, ic_Invalid := \<not> ok\<rparr>)
      else if cmd = ''/handoff-deny'' then
        (command ''handoff'')\<lparr>ic_Action := ''deny'', ic_Reason := (if 1 < length parts then rest else '''')\<rparr>
      else if cmd = ''/handoff-cancel'' \<or> cmd = ''/handoff_cancel'' then (command ''handoff'')\<lparr>ic_Action := ''cancel''\<rparr>
      else if cmd = ''/image'' then (command ''image'')\<lparr>ic_Content := trim_space rest\<rparr>
      else if cmd = ''/models'' then (command ''models'')\<lparr>ic_Content := trim_space rest\<rparr>
      else if cmd = ''/queue'' then (command ''queue'')\<lparr>ic_Content := rest\<rparr>
      else if cmd = ''/role'' then
        (command ''role'')\<lparr>ic_Content := (if 1 < length parts then trim_space (join '' '' (tl parts)) else '''')\<rparr>
      else if cmd = ''/new'' then command ''new''
      else if cmd = ''/resume'' then (command ''resume'')\<lparr>ic_SessionID := second\<rparr>
      else if cmd = ''/sessions'' then command ''sessions''
      else if cmd = ''/todos'' then command ''todos''
      else if cmd = ''/login'' then (command ''login'')\<lparr>ic_Content := second\<rparr>
      else if cmd = ''/bind'' then command ''bind''
      else (command ''send'')\<lparr>ic_Content := s\<rparr>)"

definition parseIMCommand :: "(string \<Rightarrow> duration option) \<Rightarrow> string \<Rightarrow> im_command" where
  "parseIMCommand pd s =
     (let s = trim_space s in
      if has_prefix s ''!'' then (command ''local_shell'')\<lparr>ic_Content := trim_space (trim_prefix s ''!'')\<rparr>
      else if has_prefix s fullwidth_bang then
        (command ''local_shell'')\<lparr>ic_Content := trim_space (trim_prefix s fullwidth_bang)\<rparr>
      else if \<not> has_prefix s ''/'' then (command ''send'')\<lparr>ic_Content := s\<rparr>
      else parse_slash pd s)"

definition commandFromInternalAction :: "internal_action option \<Rightarrow> im_command" where
  "commandFromInternalAction a = (case a of None \<Rightarrow> command ''send'' | Some a \<Rightarrow>
     if ia_Type a = ''confirm'' then
       (command ''confirm'')\<lparr>ic_Action := ia_Action a, ic_RequestID := ia_RequestID a\<rparr>
     else if ia_Type a = ''question'' then
       (if QuestionFormSubmit (Some a) then
          (command ''question'')\<lparr>ic_RequestID := ia_RequestID a, ic_Answers := ia_Values a\<rparr>
        else (command ''question'')\<lparr>ic_RequestID := ia_RequestID a, ic_Answers := [ia_Value a]\<rparr>)
     else if ia_Type a = ''role'' then (command ''role'')\<lparr>ic_Content := ia_Value a\<rparr>
     else command ''send'')"

definition commandForIncomingMessage :: "(string \<Rightarrow> duration option) \<Rightarrow> incoming_message \<Rightarrow> im_command" where
  "commandForIncomingMessage pd m =
     (if im_ForceText m then (command ''send'')\<lparr>ic_Content := im_Text m\<rparr>
      else if im_InternalAction m \<noteq> None then commandFromInternalAction (im_InternalAction m)
      else parseIMCommand pd (im_Text m))"

section \<open>Pairing and binding arguments\<close>

definition isBindCommand :: "string \<Rightarrow> bool" where
  "isBindCommand s \<longleftrightarrow> (let fs = str_fields s in 0 < length fs \<and> equal_fold (hd fs) ''/bind'')"

definition cons_value :: "char \<Rightarrow> (string \<times> string) option \<Rightarrow> (string \<times> string) option" where
  "cons_value c = map_option (\<lambda>(v, r). (c # v, r))"

text \<open>The text after an opening quote: its value and what follows the closing quote; \<open>None\<close> is unclosed.\<close>

fun scan_quote :: "string \<Rightarrow> (string \<times> string) option" where
  "scan_quote [] = None"
| "scan_quote (ch # s) =
     (if ch = quote_char then Some ([], s)
      else if ch = backslash_char then
        (case s of
           d # t \<Rightarrow> if d = quote_char \<or> d = backslash_char then cons_value d (scan_quote t)
                   else cons_value ch (scan_quote s)
         | [] \<Rightarrow> cons_value ch (scan_quote s))
      else cons_value ch (scan_quote s))"

definition bind_value :: "string \<Rightarrow> (string \<times> string) option" where
  "bind_value s =
     (if hd s = quote_char then
        (case scan_quote (tl s) of
           None \<Rightarrow> None
         | Some (v, r) \<Rightarrow> if r \<noteq> '''' \<and> \<not> is_space (fst (decode_rune r)) then None else Some (v, r))
      else (let w = first_word s in Some (w, drop (length w) s)))"

lemma scan_quote_length: "scan_quote s = Some (v, r) \<Longrightarrow> length r < length s"
proof (induction s arbitrary: v r rule: scan_quote.induct)
  case (2 ch s)
  then show ?case
    by (cases s) (fastforce simp: cons_value_def split: if_splits)+
qed simp

lemma bind_value_length:
  assumes "bind_value s = Some (v, r)" and "v \<noteq> []" and "s \<noteq> []"
  shows "length r < length s"
  using assms scan_quote_length [of "tl s" v r]
  by (cases s) (auto simp: bind_value_def Let_def split: if_splits option.splits)

function (domintros) bind_loop :: "string list \<Rightarrow> string \<Rightarrow> string list option" where
  "bind_loop args s =
     (if s = '''' then (if length args = 0 then None else Some args)
      else if length args = 2 then None
      else case bind_value s of
        None \<Rightarrow> None
      | Some (v, r) \<Rightarrow> if length v = 0 then None else bind_loop (args @ [v]) (trim_space r))"
  by pat_completeness auto
termination
proof (relation "measure (\<lambda>(args, s). length s)")
  fix args s v r x
  assume "s \<noteq> ''''" "bind_value s = Some x" "(v, r) = x" "length v \<noteq> 0"
  then have "length r < length s" using bind_value_length [of s v r] by auto
  then show "((args @ [v], trim_space r), args, s) \<in> measure (\<lambda>(args, s). length s)"
    using trim_space_length [of r] by simp
qed simp

declare bind_loop.simps [simp del]

definition bind_controls :: string where
  "bind_controls = [CHR 0x0D, CHR 0x0A, CHR 0x00]"

definition parsePairedBindArgs :: "string \<Rightarrow> string list option" where
  "parsePairedBindArgs s =
     (if 8192 < length s \<or> \<not> valid_utf8 s \<or> contains_any s bind_controls then None
      else let s = trim_space s; w = first_word s in
        if length w = length s \<or> \<not> equal_fold w ''/bind'' then None
        else bind_loop [] (trim_space (drop (length w) s)))"

lemma bind_loop_args:
  assumes "bind_loop args s = Some xs" and "length args \<le> 2" and "\<forall>a \<in> set args. a \<noteq> ''''"
  shows "xs \<noteq> [] \<and> length xs \<le> 2 \<and> (\<forall>a \<in> set xs. a \<noteq> '''')"
  using assms
proof (induction args s rule: bind_loop.induct)
  case (1 args s)
  show ?case
  proof (cases "s = ''''")
    case True
    with "1.prems" show ?thesis by (auto simp: bind_loop.simps [of args "[]"] split: if_splits)
  next
    case False
    with "1.prems" obtain v r where vr: "length args \<noteq> 2" "bind_value s = Some (v, r)" "length v \<noteq> 0"
        "bind_loop (args @ [v]) (trim_space r) = Some xs"
      by (auto simp: bind_loop.simps [of args s] split: if_splits option.splits)
    then show ?thesis using "1.IH" [OF False vr(1,2) refl] "1.prems" by auto
  qed
qed

section \<open>Commands that must not reach the process verbatim\<close>

definition chordLocalOnlySlash :: "(string, bool) gomap" where
  "chordLocalOnlySlash =
     [(''/export'', False), (''/tier'', False), (''/rename'', False), (''/yolo'', False), (''/compact'', True), (''/skill'', True)]"

definition gatewayOwnedSlash :: "(string, bool) gomap" where
  "gatewayOwnedSlash =
     [(''/models'', False), (''/role'', False), (''/mcp'', False), (''/queue'', False), (''/new'', False), (''/resume'', False)]"

definition matchesSlashCommand :: "string \<Rightarrow> (string, bool) gomap \<Rightarrow> bool \<Rightarrow> bool" where
  "matchesSlashCommand content commands caseInsensitive \<longleftrightarrow>
     (let t = trim_space content; t = (if caseInsensitive then to_lower t else t) in
      t \<noteq> '''' \<and> list_ex (\<lambda>(c, bareOnly). t = c \<or> \<not> bareOnly \<and> has_prefix t (c @ '' '')) commands)"

definition isChordLocalOnlySlashCommand :: "string \<Rightarrow> bool" where
  "isChordLocalOnlySlashCommand content \<longleftrightarrow> matchesSlashCommand content chordLocalOnlySlash False"

definition isGatewayOwnedSlashCommand :: "string \<Rightarrow> bool" where
  "isGatewayOwnedSlashCommand content \<longleftrightarrow> matchesSlashCommand content gatewayOwnedSlash True"

definition remoteMCPCommand :: "string \<Rightarrow> string option" where
  "remoteMCPCommand content =
     (let fs = str_fields content in
      if length fs = 0 \<or> \<not> equal_fold (fs ! 0) ''/mcp'' then None
      else if 1 < length fs then
        (let action = to_lower (fs ! 1) in
         if action \<in> {''status'', ''login'', ''logout'', ''reauth'', ''reconnect'', ''cancel''} then Some action else None)
      else Some ''status'')"

text \<open>
  The first guards of \<open>dispatchIngressSlash\<close>: a slash command is answered as an MCP command,
  refused, or goes on to the checks of its target.
\<close>

datatype slash_outcome = SlashMCP string | SlashRefused | SlashOnward

definition slash_guard :: "string \<Rightarrow> slash_outcome" where
  "slash_guard content = (case remoteMCPCommand content of
       Some action \<Rightarrow> SlashMCP action
     | None \<Rightarrow> (let content = trim_space content in
         if isChordLocalOnlySlashCommand content \<or> isGatewayOwnedSlashCommand content then SlashRefused
         else SlashOnward))"

section \<open>The tail of /queue\<close>

record queue_request =
  qr_action :: string
  qr_index :: int
  qr_text :: string

definition queue_zero :: queue_request where
  "queue_zero = \<lparr>qr_action = '''', qr_index = 0, qr_text = ''''\<rparr>"

definition parseQueueRequest :: "string \<Rightarrow> queue_request \<times> bool" where
  "parseQueueRequest rest =
     (let fs = str_fields rest in
      if length fs = 0 then (queue_zero\<lparr>qr_action := ''list''\<rparr>, True)
      else let action = to_lower (fs ! 0); tail = trim_space (drop (length (fs ! 0)) rest) in
        if action = ''list'' then (queue_zero\<lparr>qr_action := ''list''\<rparr>, tail = '''')
        else if action = ''clear'' then (queue_zero\<lparr>qr_action := action\<rparr>, tail = '''')
        else if action \<in> {''show'', ''delete'', ''drop'', ''rm'', ''edit''} then
          (let (name, arg, found) = cut_at space tail in
           case Atoi (trim_space name) of
             None \<Rightarrow> (queue_zero, False)
           | Some index \<Rightarrow>
               if index \<le> 0 then (queue_zero, False)
               else let text = trim_space arg in
                 if action = ''show'' then (queue_zero\<lparr>qr_action := ''show'', qr_index := index\<rparr>, text = '''')
                 else if action = ''edit'' then
                   (queue_zero\<lparr>qr_action := ''edit'', qr_index := index, qr_text := text\<rparr>, text \<noteq> '''')
                 else (queue_zero\<lparr>qr_action := ''delete'', qr_index := index\<rparr>, text = ''''))
        else if action = ''after'' then
          (if tail = '''' then (queue_zero, False) else (queue_zero\<lparr>qr_action := ''after'', qr_text := tail\<rparr>, True))
        else (queue_zero, False))"

section \<open>Answers to questions and choices of roles\<close>

record question_answer =
  qa_values :: "string list"
  qa_labels :: "string list"
  qa_custom :: bool

definition no_answer :: question_answer where
  "no_answer = \<lparr>qa_values = [], qa_labels = [], qa_custom = False\<rparr>"

definition custom_answer :: "string \<Rightarrow> question_answer" where
  "custom_answer s = (if s = '''' then no_answer else \<lparr>qa_values = [s], qa_labels = [s], qa_custom = True\<rparr>)"

fun clicked_option :: "question_payload \<Rightarrow> string \<Rightarrow> nat \<Rightarrow> string list \<Rightarrow> question_answer" where
  "clicked_option q v i [] = no_answer"
| "clicked_option q v i (oid # ids) =
     (if v = oid \<and> i < length (qp_Options q)
      then \<lparr>qa_values = [oid], qa_labels = [qp_Options q ! i], qa_custom = False\<rparr>
      else clicked_option q v (Suc i) ids)"

text \<open>The loop over the numbers chosen; \<open>None\<close> is a piece that names no option.\<close>

fun chosen_options :: "question_payload \<Rightarrow> question_answer \<Rightarrow> string list \<Rightarrow> question_answer option" where
  "chosen_options q a [] = Some a"
| "chosen_options q a (piece # ps) = (case Atoi (trim_space piece) of
       None \<Rightarrow> None
     | Some i \<Rightarrow>
         if i < 1 \<or> int (length (qp_OptionIDs q)) < i \<or> int (length (qp_Options q)) < i then None
         else chosen_options q
           (a\<lparr>qa_values := qa_values a @ [qp_OptionIDs q ! nat (i - 1)],
              qa_labels := qa_labels a @ [qp_Options q ! nat (i - 1)]\<rparr>) ps)"

definition parseQuestionAnswer :: "string list \<Rightarrow> question_payload option \<Rightarrow> internal_action option \<Rightarrow> question_answer" where
  "parseQuestionAnswer raw q action = (case q of None \<Rightarrow> no_answer | Some q \<Rightarrow>
     let text = trim_space (join '' '' raw) in
     if action \<noteq> None \<and> \<not> QuestionFormSubmit action then clicked_option q (ia_Value (the action)) 0 (qp_OptionIDs q)
     else if action = None \<and> length (qp_Options q) = 0 then custom_answer text
     else let parts = (case action of None \<Rightarrow> split_on (CHR '','') text | Some a \<Rightarrow> ia_Values a) in
       if \<not> qp_Multiple q \<and> 1 < length parts then (if action \<noteq> None then no_answer else custom_answer text)
       else case chosen_options q no_answer parts of
         None \<Rightarrow> (if action \<noteq> None then no_answer else custom_answer text)
       | Some a \<Rightarrow> a)"

datatype role_error = InvalidRoleSelection | RoleNotAvailable string

definition roleNameAvailable :: "string \<Rightarrow> role_info list \<Rightarrow> bool" where
  "roleNameAvailable name roles \<longleftrightarrow> list_ex (\<lambda>r. ri_Name r = name) roles"

definition selectRoleName :: "string \<Rightarrow> role_info list \<Rightarrow> bool \<Rightarrow> role_error + string" where
  "selectRoleName target roles byCard =
     (let name = trim_space target;
          picked = (case Atoi name of
              Some n \<Rightarrow> if byCard then Inr name
                else if n < 1 \<or> int (length roles) < n then Inl InvalidRoleSelection
                else Inr (trim_space (ri_Name (roles ! nat (n - 1))))
            | None \<Rightarrow> Inr name) in
      case picked of
        Inl e \<Rightarrow> Inl e
      | Inr name \<Rightarrow> if roleNameAvailable name roles then Inr name else Inl (RoleNotAvailable name))"

definition interactionRequestID :: "incoming_message \<Rightarrow> string" where
  "interactionRequestID m = (case im_InternalAction m of Some a \<Rightarrow> ia_RequestID a | None \<Rightarrow> '''')"

section \<open>Quoting\<close>

text \<open>The directory of a \<open>/bind\<close> command as the usage text asks users to write it.\<close>

definition bind_quote :: "string \<Rightarrow> string" where
  "bind_quote s = concat (map (\<lambda>c. if c = quote_char \<or> c = backslash_char then [backslash_char, c] else [c]) s)"

lemma bind_quote_simps [simp]:
  "bind_quote [] = []"
  "bind_quote (c # s) = (if c = quote_char \<or> c = backslash_char then [backslash_char, c] else [c]) @ bind_quote s"
  "bind_quote (s @ t) = bind_quote s @ bind_quote t"
  by (simp_all add: bind_quote_def)

lemma scan_bind_quote: "scan_quote (bind_quote s @ quote_char # t) = Some (s, t)"
  by (induction s) (auto simp: cons_value_def quote_char_def backslash_char_def split: list.splits)

lemma shape_high:
  assumes "rune_shape s n" and "n \<noteq> 1" and "c \<in> set (take n s)"
  shows "128 \<le> byte_of c"
proof -
  obtain i where i: "i < n" "i < length s" "c = s ! i" using assms(3) by (auto simp: in_set_conv_nth)
  show ?thesis
  proof (cases "i = 0")
    case True
    with assms(1,2) i show ?thesis by (auto simp: rune_shape_def)
  next
    case False
    then show ?thesis using shape_cont [OF assms(1) _ i(1)] i by (auto simp: rune_start_def cont_byte_def)
  qed
qed

lemma quote_ascii [simp]: "byte_of quote_char = 34" "byte_of backslash_char = 92"
  by (simp_all add: quote_char_def backslash_char_def)

lemma bind_quote_high: "\<forall>c \<in> set s. 128 \<le> byte_of c \<Longrightarrow> bind_quote s = s"
proof (induction s)
  case (Cons c s)
  then have "c \<noteq> quote_char" "c \<noteq> backslash_char" by (metis quote_ascii list.set_intros(1) numeral_le_iff semiring_norm(69,71,72,76,81))+
  with Cons show ?case by simp
qed simp

lemma ascii_shape: "byte_of c < 128 \<Longrightarrow> rune_shape (c # s) 1"
  by (simp add: rune_shape_def)

lemma valid_ascii [simp]: "byte_of c < 128 \<Longrightarrow> valid_utf8 (c # s) \<longleftrightarrow> valid_utf8 s"
  using valid_shape [OF ascii_shape] by simp

lemma bind_quote_valid: "valid_utf8 s \<Longrightarrow> valid_utf8 (bind_quote s)"
proof (induction s rule: valid_induct)
  case (Rune s n)
  have s: "s = take n s @ drop n s" by simp
  show ?case
  proof (cases "n = 1")
    case True
    then obtain c t where "s = c # t" "byte_of c < 128" using Rune.hyps(1) by (cases s) (auto simp: rune_shape_def)
    with True Rune.IH show ?thesis by (auto simp: quote_char_def backslash_char_def)
  next
    case False
    then have "bind_quote s = take n s @ bind_quote (drop n s)"
      using bind_quote_high [of "take n s"] shape_high [OF Rune.hyps(1) False] s by (metis bind_quote_simps(3))
    moreover have n: "n \<le> length s" using shape_length [OF Rune.hyps(1)] by simp
    have shape: "rune_shape (take n s @ bind_quote (drop n s)) n"
      using shape_append [of "take n s" n] shape_cong [OF Rune.hyps(1), of "take n s"] n by simp
    ultimately show ?thesis using valid_shape [OF shape] Rune.IH n by simp
  qed
qed simp

lemma bind_quote_safe: "c \<in> set (bind_quote s) \<Longrightarrow> c \<in> set s \<or> c = backslash_char"
  by (auto simp: bind_quote_def split: if_splits)

lemma bind_word: "valid_utf8 ''/bind''" "\<not> has_space ''/bind''" "equal_fold ''/bind'' ''/bind''"
  by (simp_all add: ascii_eval has_space_def space_piece_def is_space_def equal_fold_def)

definition bind_command :: "string \<Rightarrow> string \<Rightarrow> string" where
  "bind_command dir code = ''/bind '' @ quote_char # bind_quote dir @ quote_char # space # code"

definition bind_code_ok :: "string \<Rightarrow> bool" where
  "bind_code_ok code \<longleftrightarrow> code \<noteq> [] \<and> valid_utf8 code \<and> \<not> has_space code \<and> hd code \<noteq> quote_char"

lemma bind_loop_two:
  assumes code: "bind_code_ok code" and dir: "dir \<noteq> []"
  shows "bind_loop [] (quote_char # bind_quote dir @ quote_char # space # code) = Some [dir, code]"
proof -
  have w: "first_word code = code" and tr: "trim_space code = code"
    using code first_word_append(1) trim_space_trimmed trimmed_word by (auto simp: bind_code_ok_def)
  have one: "bind_value (quote_char # bind_quote dir @ quote_char # space # code) = Some (dir, space # code)"
    by (simp add: bind_value_def scan_bind_quote Let_def is_space_def)
  have two: "bind_value code = Some (code, [])"
    using code w by (simp add: bind_value_def bind_code_ok_def)
  have "bind_loop [dir] code = Some [dir, code]"
    using code two by (simp add: bind_loop.simps [of "[dir]"] bind_loop.simps [of "[dir, code]"] bind_code_ok_def)
  then show ?thesis
    using one dir tr by (simp add: bind_loop.simps [of "[]"])
qed

lemma parse_bind_words:
  assumes "valid_utf8 w" and "\<not> has_space w" and "equal_fold w ''/bind''"
    and "trim_space (w @ space # t) = w @ space # t" and "trim_space t = t"
    and "valid_utf8 t" and "length (w @ space # t) \<le> 8192" and "\<not> contains_any (w @ space # t) bind_controls"
  shows "parsePairedBindArgs (w @ space # t) = bind_loop [] t"
proof -
  have "valid_utf8 (w @ space # t)" using assms(1,6) by (simp add: valid_append)
  then show ?thesis
    using assms first_word_append(2) [OF assms(1,2), of t] by (simp add: parsePairedBindArgs_def Let_def)
qed

text \<open>C39: Round trip of the pairing command. A directory name with any characters but control
  ones, quoted as the usage text says, and a code without white space come back from
  \<open>parsePairedBindArgs\<close> exactly as they were, so the directory bound is the one written.\<close>

theorem bind_args_roundtrip:
  assumes "valid_utf8 dir" and "dir \<noteq> []" and "bind_code_ok code"
    and "\<not> contains_any (dir @ code) bind_controls"
    and "length (bind_command dir code) \<le> 8192"
  shows "parsePairedBindArgs (bind_command dir code) = Some [dir, code]"
proof -
  let ?tail = "quote_char # bind_quote dir @ quote_char # space # code"
  have code: "code \<noteq> []" "valid_utf8 code" "\<not> has_space code" using assms(3) by (simp_all add: bind_code_ok_def)
  have valid: "valid_utf8 (bind_quote dir @ quote_char # space # code)"
    using bind_quote_valid [OF assms(1)] code(2) by (simp add: valid_append)
  have mid: "valid_utf8 (bind_quote dir @ [quote_char, space])"
    using bind_quote_valid [OF assms(1)] by (simp add: valid_append)
  have q: "trimmed [quote_char]" "trimmed ''/bind''" "trimmed code"
    using trimmed_word [OF bind_word(2)] trimmed_word [OF code(3)]
    by (auto simp: trimmed_def runes_ascii space_piece_def is_space_def)
  have t1: "trim_space ?tail = ?tail"
    using trim_space_trimmed [OF trimmed_append [of "[quote_char]" code "bind_quote dir @ [quote_char, space]"]] q code mid
    by simp
  have t2: "trim_space (''/bind'' @ space # ?tail) = ''/bind'' @ space # ?tail"
    using trim_space_trimmed [OF trimmed_append [of "''/bind''" code "space # quote_char # bind_quote dir @ [quote_char, space]"]]
      q code mid bind_word by simp
  have cmd: "bind_command dir code = ''/bind'' @ space # ?tail" by (simp add: bind_command_def)
  have safe: "\<not> contains_any (''/bind'' @ space # ?tail) bind_controls"
    using assms(4) bind_quote_safe [of _ dir]
    by (auto simp: contains_any_def quote_char_def backslash_char_def bind_controls_def)
  have vt: "valid_utf8 ?tail" using valid by simp
  have len: "length (''/bind'' @ space # ?tail) \<le> 8192" using assms(5) by (simp only: cmd)
  show ?thesis
    unfolding cmd
    using parse_bind_words [OF bind_word t2 t1 vt len safe] bind_loop_two [OF assms(3,2)] by (rule trans)
qed

lemma bind_args_roundtrip_witness:
  "parsePairedBindArgs (bind_command ''/srv/a \"b'' ''ABC'') = Some [''/srv/a \"b'', ''ABC'']"
  by (rule bind_args_roundtrip)
     (simp_all add: ascii_eval bind_code_ok_def has_space_def space_piece_def is_space_def contains_any_def bind_command_def
        bind_controls_def quote_char_def backslash_char_def)

section \<open>The flags of /allow\<close>

text \<open>
  A reference for \<open>parseAllowArgs\<close> that looks at the words as a whole: which are scopes, which
  are positional, and whether any is not understood. The order of the words plays no role.
\<close>

definition scope_words :: "string list \<Rightarrow> string list" where
  "scope_words ws = map (\<lambda>w. rule_scope w) (filter (\<lambda>w. w \<noteq> ''once'' \<and> rule_scope w \<noteq> '''') ws)"

definition positional_words :: "string list \<Rightarrow> string list" where
  "positional_words ws = filter (\<lambda>w. w \<noteq> ''once'' \<and> rule_scope w = '''' \<and> \<not> has_prefix w ''-'') ws"

definition unknown_flag :: "string \<Rightarrow> bool" where
  "unknown_flag w \<longleftrightarrow> w \<noteq> ''once'' \<and> rule_scope w = '''' \<and> has_prefix w ''-''"

definition allow_reference :: "string list \<Rightarrow> string \<times> string \<times> bool" where
  "allow_reference ws =
     (if list_ex unknown_flag ws \<or> 1 < length (scope_words ws) \<or> 1 < length (positional_words ws)
         \<or> (''once'' \<in> set ws \<and> scope_words ws \<noteq> [])
      then ('''', '''', True)
      else (concat (scope_words ws), trim_prefix (concat (positional_words ws)) ''@'', False))"

definition single :: "string \<Rightarrow> string list" where
  "single w = (if w = '''' then [] else [w])"

lemma allow_loop_reference:
  assumes "\<forall>w \<in> set ws. w \<noteq> ''''" and "sc = '''' \<or> \<not> on"
  shows "allow_loop sc rid on ws =
     (if list_ex unknown_flag ws \<or> 1 < length (single sc @ scope_words ws) \<or> 1 < length (single rid @ positional_words ws)
         \<or> ((on \<or> ''once'' \<in> set ws) \<and> single sc @ scope_words ws \<noteq> [])
      then ('''', '''', True)
      else (concat (single sc @ scope_words ws), trim_prefix (concat (single rid @ positional_words ws)) ''@'', False))"
  using assms
proof (induction sc rid on ws rule: allow_loop.induct)
  case (1 scope rid once)
  then show ?case by (auto simp: single_def scope_words_def positional_words_def)
next
  case (2 scope rid once w ws)
  have ne: "w \<noteq> ''''" "\<forall>w \<in> set ws. w \<noteq> ''''" using "2.prems" by auto
  consider (once) "w = ''once''" | (flag) "w \<noteq> ''once''" "rule_scope w \<noteq> ''''"
    | (dash) "w \<noteq> ''once''" "rule_scope w = ''''" "has_prefix w ''-''"
    | (word) "w \<noteq> ''once''" "rule_scope w = ''''" "\<not> has_prefix w ''-''" by blast
  then show ?case
  proof cases
    case once
    show ?thesis
    proof (cases "scope = ''''")
      case True
      show ?thesis using "2.IH"(1) once True ne
        by (simp add: single_def scope_words_def positional_words_def unknown_flag_def)
    qed (use once in \<open>simp add: single_def\<close>)
  next
    case flag
    show ?thesis
    proof (cases "scope \<noteq> '''' \<or> once")
      case True
      with flag show ?thesis by (auto simp: single_def scope_words_def)
    next
      case False
      show ?thesis using "2.IH"(2) flag False ne
        by (simp add: single_def scope_words_def positional_words_def unknown_flag_def)
    qed
  next
    case dash
    then show ?thesis by (simp add: unknown_flag_def)
  next
    case word
    show ?thesis
    proof (cases "rid = ''''")
      case True
      show ?thesis using "2.IH"(3) word True ne "2.prems"(2)
        by (simp add: single_def scope_words_def positional_words_def unknown_flag_def)
    next
      case False
      with word show ?thesis by (simp add: single_def positional_words_def)
    qed
  qed
qed

text \<open>C40: \<open>parseAllowArgs\<close> agrees with the reference: at most one scope, at most one request, no
  unknown flag, and \<open>once\<close> never together with a scope that would be remembered.\<close>

theorem parseAllowArgs_reference: "parseAllowArgs rest = allow_reference (str_fields rest)"
  using allow_loop_reference [of "str_fields rest" "''''" False "''''"] fields_nonempty
  by (auto simp: parseAllowArgs_def allow_reference_def single_def)

section \<open>Answers name real options\<close>

text \<open>
  What an answer may be: nothing, one custom text (never from a card), or option identifiers
  with the labels at the same positions; one at most when the question is single choice.
\<close>

definition picks :: "question_payload \<Rightarrow> question_answer \<Rightarrow> nat list \<Rightarrow> bool" where
  "picks q a is \<longleftrightarrow> (\<forall>i \<in> set is. i < length (qp_OptionIDs q) \<and> i < length (qp_Options q))
     \<and> qa_values a = map (\<lambda>i. qp_OptionIDs q ! i) is \<and> qa_labels a = map (\<lambda>i. qp_Options q ! i) is"

definition answer_ok :: "question_payload \<Rightarrow> internal_action option \<Rightarrow> question_answer \<Rightarrow> bool" where
  "answer_ok q action a \<longleftrightarrow>
     (if qa_custom a then action = None \<and> length (qa_values a) = 1 \<and> qa_labels a = qa_values a \<and> qa_values a \<noteq> ['''']
      else (\<exists>is. picks q a is) \<and> (qp_Multiple q \<or> length (qa_values a) \<le> 1))"

lemma answer_ok_none: "answer_ok q action no_answer"
  by (auto simp: answer_ok_def no_answer_def picks_def intro: exI [of _ "[]"])

lemma answer_ok_custom: "action = None \<Longrightarrow> answer_ok q action (custom_answer s)"
  using answer_ok_none [of q action] by (auto simp: custom_answer_def answer_ok_def)

lemma clicked_option_ok:
  assumes "\<forall>j < length ids. i + j < length (qp_OptionIDs q) \<and> qp_OptionIDs q ! (i + j) = ids ! j"
  shows "answer_ok q action (clicked_option q v i ids)"
  using assms
proof (induction q v i ids rule: clicked_option.induct)
  case (2 q v i oid ids)
  have here: "i < length (qp_OptionIDs q)" "qp_OptionIDs q ! i = oid" using "2.prems" by force+
  have rest: "\<forall>j < length ids. Suc i + j < length (qp_OptionIDs q) \<and> qp_OptionIDs q ! (Suc i + j) = ids ! j"
    using "2.prems" by force
  show ?case
  proof (cases "v = oid \<and> i < length (qp_Options q)")
    case True
    with here show ?thesis by (auto simp: answer_ok_def picks_def intro!: exI [of _ "[i]"])
  next
    case False
    then show ?thesis using "2.IH" [OF False rest] by auto
  qed
qed (simp add: answer_ok_none)

lemma chosen_options_picks:
  assumes "chosen_options q a ps = Some a'" and "picks q a is" and "\<not> qa_custom a"
  shows "\<not> qa_custom a' \<and> length (qa_values a') = length is + length ps \<and> (\<exists>is'. picks q a' is')"
  using assms
proof (induction q a ps arbitrary: "is" rule: chosen_options.induct)
  case (1 q a)
  then show ?case by (auto simp: picks_def)
next
  case (2 q a piece ps)
  from "2.prems"(1) obtain i where i: "Atoi (trim_space piece) = Some i" "\<not> i < 1" "\<not> int (length (qp_OptionIDs q)) < i"
      "\<not> int (length (qp_Options q)) < i"
    by (auto split: option.splits if_splits)
  have ok: "nat (i - 1) < length (qp_OptionIDs q)" "nat (i - 1) < length (qp_Options q)" using i by linarith+
  let ?b = "a\<lparr>qa_values := qa_values a @ [qp_OptionIDs q ! nat (i - 1)], qa_labels := qa_labels a @ [qp_Options q ! nat (i - 1)]\<rparr>"
  have "picks q ?b (is @ [nat (i - 1)])" using "2.prems"(2) ok by (auto simp: picks_def)
  moreover have "chosen_options q ?b ps = Some a'" using "2.prems"(1) i by simp
  ultimately show ?case using "2.IH" [OF i(1), of "is @ [nat (i - 1)]"] i "2.prems"(3) by simp
qed

text \<open>An answer the gateway sends to the agent names options of the question that is
  pending, each with its own label; a card never turns into free text, and a single-choice
  question never gets two answers.\<close>

theorem question_answer_sound: "answer_ok q action (parseQuestionAnswer raw (Some q) action)"
proof -
  let ?text = "trim_space (join '' '' raw)"
  have clicked: "answer_ok q action (clicked_option q v 0 (qp_OptionIDs q))" for v
    by (rule clicked_option_ok) simp
  have fallback: "answer_ok q action (if action \<noteq> None then no_answer else custom_answer ?text)"
    using answer_ok_none answer_ok_custom by auto
  have chosen: "answer_ok q action a"
    if "chosen_options q no_answer parts = Some a" and "qp_Multiple q \<or> length parts \<le> 1" for parts a
    using chosen_options_picks [OF that(1), of "[]"] that(2) by (auto simp: answer_ok_def picks_def no_answer_def)
  show ?thesis
    using clicked fallback chosen answer_ok_custom
    by (auto simp: parseQuestionAnswer_def Let_def split: option.splits)
qed

section \<open>Commands of the gateway do not reach the process\<close>

text \<open>Lower-casing and cutting at the first space commute: a space is a rune of its own.\<close>

abbreviation head_word :: "string \<Rightarrow> string" where
  "head_word s \<equiv> takeWhile (\<lambda>d. d \<noteq> space) s"

lemma decode_head_word:
  assumes "hd s \<noteq> space"
  shows "decode_rune (head_word s) = decode_rune s"
proof (cases s)
  case (Cons c u)
  have no: "\<not> cont_byte space" "\<not> second_lo (byte_of c) \<le> 32"
    by (simp_all add: cont_byte_def second_lo_def)
  show ?thesis
  proof (cases "byte_of c < 128")
    case True
    with Cons assms show ?thesis by simp
  next
    case False
    show ?thesis
    proof (cases u)
      case Nil
      with Cons assms show ?thesis by simp
    next
      case u: (Cons c1 u1)
      show ?thesis
      proof (cases "c1 = space")
        case True
        with False Cons u assms no show ?thesis by (simp add: Let_def split: list.splits)
      next
        case c1: False
        show ?thesis
        proof (cases u1)
          case Nil
          with False Cons u assms c1 show ?thesis by (simp add: Let_def)
        next
          case u1: (Cons c2 u2)
          show ?thesis
          proof (cases "c2 = space")
            case True
            with False Cons u u1 assms c1 no show ?thesis by (simp add: Let_def split: list.splits)
          next
            case c2: False
            show ?thesis
              using False Cons u u1 assms c1 c2 no by (cases u2) (simp_all add: Let_def)
          qed
        qed
      qed
    qed
  qed
qed simp

lemma piece_no_space:
  assumes "s \<noteq> []" and "hd s \<noteq> space" and "d \<in> set (take (rune_width s) s)"
  shows "d \<noteq> space"
proof (cases "rune_width s = 1")
  case True
  with assms show ?thesis by (cases s) auto
next
  case False
  then have sh: "rune_shape s (rune_width s)" using shape_of_decode [OF assms(1)] by blast
  then have "128 \<le> byte_of d" using shape_high [OF sh False assms(3)] by simp
  then show ?thesis by auto
qed

lemma runes_head_word:
  assumes "s \<noteq> []" and "hd s \<noteq> space"
  shows "runes (head_word s) = (fst (decode_rune s), take (rune_width s) s) # runes (head_word (drop (rune_width s) s))"
proof -
  have ne: "head_word s \<noteq> []" using assms by (cases s) auto
  have dec: "decode_rune (head_word s) = decode_rune s" by (rule decode_head_word [OF assms(2)])
  then have w: "rune_width (head_word s) = rune_width s" by (simp add: rune_width_def)
  have split: "head_word s = take (rune_width s) s @ head_word (drop (rune_width s) s)"
    using piece_no_space [OF assms] takeWhile_append2 [of "take (rune_width s) s" "\<lambda>d. d \<noteq> space" "drop (rune_width s) s"]
    by simp
  have len: "length (take (rune_width s) s) = rune_width s" using rune_width_bounds(2) [OF assms(1)] by simp
  have "take (rune_width s) (head_word s) = take (rune_width s) s"
    and "drop (rune_width s) (head_word s) = head_word (drop (rune_width s) s)"
    using split len by (metis append_eq_conv_conj)+
  with dec w show ?thesis using runes_cons [OF ne] by simp
qed

lemma to_lower_Nil [simp]: "to_lower [] = []"
  by (simp add: to_lower_def)

lemma to_lower_cons:
  "s \<noteq> [] \<Longrightarrow> to_lower s = to_lower_piece (fst (decode_rune s), take (rune_width s) s) @ to_lower (drop (rune_width s) s)"
  by (simp add: to_lower_def runes_cons)

lemma to_lower_space [simp]: "to_lower (space # s) = space # to_lower s"
  by (simp add: to_lower_def to_lower_piece_def)

lemma lower_piece_no_space:
  assumes "s \<noteq> []" and "hd s \<noteq> space" and "d \<in> set (to_lower_piece (fst (decode_rune s), take (rune_width s) s))"
  shows "d \<noteq> space"
proof -
  have c: "char_of k \<noteq> space" if "33 \<le> k" "k < 256" for k :: nat
  proof
    assume "char_of k = space"
    then have "byte_of (char_of k) = 32" by simp
    with that show False by simp
  qed
  show ?thesis
    using assms(3) piece_no_space [OF assms(1,2)] c [of "fst (decode_rune s) + 32"] c [of 105] c [of 107]
    by (auto simp: to_lower_piece_def split: if_splits)
qed

lemma to_lower_head_word: "to_lower (head_word s) = head_word (to_lower s)"
proof (induction s rule: runes_induct)
  case (Rune s)
  show ?case
  proof (cases "hd s = space")
    case True
    then obtain t where "s = space # t" using Rune.hyps by (cases s) auto
    then show ?thesis by simp
  next
    case False
    have "to_lower (head_word s) = to_lower_piece (fst (decode_rune s), take (rune_width s) s) @ to_lower (head_word (drop (rune_width s) s))"
      using runes_head_word [OF Rune.hyps False] by (simp add: to_lower_def)
    also have "\<dots> = head_word (to_lower s)"
      using Rune.IH lower_piece_no_space [OF Rune.hyps False] to_lower_cons [OF Rune.hyps] by simp
    finally show ?thesis .
  qed
qed simp

lemma decode_high:
  assumes "s \<noteq> []" and "128 \<le> byte_of (hd s)"
  shows "128 \<le> fst (decode_rune s)"
proof (cases "rune_shape s (rune_width s)")
  case True
  have h: "128 \<le> byte_of (s ! 0)" using assms by (simp add: hd_conv_nth)
  have "128 \<le> rune_of s (rune_width s)"
    using True h by (auto simp: rune_shape_def rune_of_def second_ok_def second_lo_def split: if_splits)
  then show ?thesis using decode_of_shape [OF True] by simp
next
  case False
  then have "fst (decode_rune s) = rune_error" using shape_of_decode [OF assms(1)] by blast
  then show ?thesis by simp
qed

lemma lower_slash:
  assumes "s \<noteq> []" and "hd (to_lower s) = CHR ''/''"
  shows "hd s = CHR ''/''"
proof (cases "byte_of (hd s) < 128")
  case True
  then obtain c t where s: "s = c # t" "byte_of c < 128" using assms(1) by (cases s) auto
  have "to_lower s = to_lower_piece (byte_of c, [c]) @ to_lower t"
    using s by (simp add: to_lower_def runes_ascii)
  then have "hd (to_lower_piece (byte_of c, [c])) = CHR ''/''"
    using assms(2) by (auto simp: to_lower_piece_def split: if_splits)
  moreover have "char_of (byte_of c + 32) \<noteq> CHR ''/''" if "65 \<le> byte_of c"
  proof
    assume "char_of (byte_of c + 32) = CHR ''/''"
    then have "byte_of (char_of (byte_of c + 32)) = 47" by simp
    with that s(2) show False by simp
  qed
  ultimately show ?thesis using s by (auto simp: to_lower_piece_def split: if_splits)
next
  case False
  let ?p = "take (rune_width s) s"
  have ne: "?p \<noteq> []" using rune_width_bounds(1) [OF assms(1)] assms(1) by (cases s) auto
  have hp: "hd ?p = hd s" using ne by (simp add: hd_take)
  have r: "\<not> (65 \<le> fst (decode_rune s) \<and> fst (decode_rune s) \<le> 90)"
    using False decode_high [OF assms(1)] by linarith
  have "to_lower s = to_lower_piece (fst (decode_rune s), ?p) @ to_lower (drop (rune_width s) s)"
    by (rule to_lower_cons [OF assms(1)])
  then have "hd (to_lower s) \<in> {char_of (105 :: nat), char_of (107 :: nat), hd s}"
    using r ne hp by (auto simp: to_lower_piece_def)
  moreover have "char_of k \<noteq> CHR ''/''" if "48 \<le> k" "k < 256" for k :: nat
  proof
    assume "char_of k = CHR ''/''"
    then have "byte_of (char_of k) = 47" by simp
    with that show False by simp
  qed
  ultimately have "hd s = CHR ''/''" using assms(2) by fastforce
  with False show ?thesis by simp
qed

lemma split_n_head: "split_n 3 space s ! 0 = head_word s"
proof -
  have three: "3 = Suc (Suc 1)" by simp
  show ?thesis
  proof (cases "length (head_word s) < length s")
    case True
    then show ?thesis by (simp add: three cut_at_def Let_def)
  next
    case False
    then have "head_word s = s" using takeWhile_eq_take [of "\<lambda>d. d \<noteq> space" s] by simp
    with False show ?thesis by (simp add: three cut_at_def Let_def del: takeWhile_eq_all_conv)
  qed
qed

text \<open>A command word recognised by \<open>matchesSlashCommand\<close> is the text up to its first space.\<close>

lemma head_word_eq:
  assumes "s = c \<or> has_prefix s (c @ '' '')" and "space \<notin> set c"
  shows "head_word s = c"
proof -
  have "takeWhile (\<lambda>d. d \<noteq> space) (c @ u) = c @ head_word u" for u
    using assms(2) by (intro takeWhile_append2) force
  from this [of "[]"] this [of "space # u" for u] assms(1) show ?thesis
    by (elim disjE) (simp, fastforce simp: has_prefix_iff)
qed

lemma matches_head:
  assumes "matchesSlashCommand content commands ci" and "\<forall>c \<in> fst ` set commands. space \<notin> set c"
  shows "\<exists>c \<in> fst ` set commands. head_word (if ci then to_lower (trim_space content) else trim_space content) = c"
proof -
  define t where "t = (if ci then to_lower (trim_space content) else trim_space content)"
  obtain c b where cb: "(c, b) \<in> set commands" "t = c \<or> has_prefix t (c @ '' '')"
    using assms(1) by (auto simp: matchesSlashCommand_def Let_def list_ex_iff t_def)
  then have "head_word t = c" using assms(2) by (intro head_word_eq) force+
  with cb(1) show ?thesis unfolding t_def by (intro bexI [of _ c]) force+
qed

lemma owned_words:
  "\<forall>c \<in> fst ` set gatewayOwnedSlash. space \<notin> set c"
  "\<forall>c \<in> fst ` set chordLocalOnlySlash. space \<notin> set c"
  by (simp_all add: gatewayOwnedSlash_def chordLocalOnlySlash_def)

text \<open>What \<open>parse_slash\<close> does with a text whose command word it does not handle itself.\<close>

lemma parse_slash_word:
  assumes "to_lower (head_word s) = w"
  shows "w \<in> {''/export'', ''/tier'', ''/rename'', ''/yolo'', ''/compact'', ''/skill'', ''/mcp''} \<Longrightarrow>
      parse_slash pd s = (command ''send'')\<lparr>ic_Content := s\<rparr>"
    and "w = ''/models'' \<Longrightarrow> ic_Type (parse_slash pd s) = ''models''"
    and "w = ''/role'' \<Longrightarrow> ic_Type (parse_slash pd s) = ''role''"
    and "w = ''/queue'' \<Longrightarrow> ic_Type (parse_slash pd s) = ''queue''"
    and "w = ''/new'' \<Longrightarrow> ic_Type (parse_slash pd s) = ''new''"
    and "w = ''/resume'' \<Longrightarrow> ic_Type (parse_slash pd s) = ''resume''"
  unfolding parse_slash_def split_n_head assms Let_def by (elim insertE; simp; fail | simp)+

lemma parse_slash_owned:
  assumes "to_lower (head_word s) \<in> fst ` set gatewayOwnedSlash" and "ic_Type (parse_slash pd s) = ''send''"
  shows "ic_Content (parse_slash pd s) = s"
proof -
  from assms(1) consider "to_lower (head_word s) = ''/mcp''" | "to_lower (head_word s) = ''/models''"
    | "to_lower (head_word s) = ''/role''" | "to_lower (head_word s) = ''/queue''" | "to_lower (head_word s) = ''/new''"
    | "to_lower (head_word s) = ''/resume''"
    by (auto simp: gatewayOwnedSlash_def)
  then show ?thesis using assms(2) by cases (simp_all add: parse_slash_word [OF refl, of s pd])
qed

lemma parse_slash_local:
  assumes "head_word s \<in> fst ` set chordLocalOnlySlash" and "to_lower (head_word s) = head_word s"
  shows "ic_Content (parse_slash pd s) = s"
proof -
  have "head_word s \<in> {''/export'', ''/tier'', ''/rename'', ''/yolo'', ''/compact'', ''/skill'', ''/mcp''}"
    using assms(1) by (auto simp: chordLocalOnlySlash_def)
  from parse_slash_word(1) [OF assms(2) this] show ?thesis by simp
qed

lemma lower_local: "w \<in> fst ` set chordLocalOnlySlash \<Longrightarrow> to_lower w = w"
  by (auto simp: chordLocalOnlySlash_def to_lower_def ascii_eval to_lower_piece_def)

lemma matches_trim [simp]: "matchesSlashCommand (trim_space s) commands ci = matchesSlashCommand s commands ci"
  by (simp add: matchesSlashCommand_def)

lemma owned_trim [simp]:
  "isGatewayOwnedSlashCommand (trim_space s) = isGatewayOwnedSlashCommand s"
  "isChordLocalOnlySlashCommand (trim_space s) = isChordLocalOnlySlashCommand s"
  by (simp_all add: isGatewayOwnedSlashCommand_def isChordLocalOnlySlashCommand_def)

lemma slash_head:
  assumes "isChordLocalOnlySlashCommand s \<or> isGatewayOwnedSlashCommand s"
  shows "hd (trim_space s) = CHR ''/'' \<and> trim_space s \<noteq> []
     \<and> (isChordLocalOnlySlashCommand s \<longrightarrow> head_word (trim_space s) \<in> fst ` set chordLocalOnlySlash)
     \<and> (isGatewayOwnedSlashCommand s \<longrightarrow> to_lower (head_word (trim_space s)) \<in> fst ` set gatewayOwnedSlash)"
proof -
  let ?t = "trim_space s"
  have ne: "?t \<noteq> []" using assms
    by (auto simp: isChordLocalOnlySlashCommand_def isGatewayOwnedSlashCommand_def matchesSlashCommand_def)
  have l: "head_word ?t \<in> fst ` set chordLocalOnlySlash" if "isChordLocalOnlySlashCommand s"
    using matches_head [OF that [unfolded isChordLocalOnlySlashCommand_def] owned_words(2)] by auto
  have g: "head_word (to_lower ?t) \<in> fst ` set gatewayOwnedSlash" if "isGatewayOwnedSlashCommand s"
    using matches_head [OF that [unfolded isGatewayOwnedSlashCommand_def] owned_words(1)] by auto
  have hd_word: "hd t = CHR ''/''" if "head_word t \<in> fst ` set gatewayOwnedSlash \<union> fst ` set chordLocalOnlySlash" for t
    using that by (cases t) (auto simp: gatewayOwnedSlash_def chordLocalOnlySlash_def split: if_splits)
  have "hd ?t = CHR ''/''"
    using assms l g hd_word [of ?t] hd_word [of "to_lower ?t"] lower_slash [OF ne] by auto
  with ne l g show ?thesis by (simp add: to_lower_head_word)
qed

text \<open>No text, plain or forced, reaches the agent verbatim when it is a command the agent
  would run on its host session or one the gateway owns: whatever way the message is parsed,
  what is sent on past the guard is neither.\<close>

theorem forwarded_text_allowed:
  assumes "im_InternalAction m = None" and "ic_Type (commandForIncomingMessage pd m) = ''send''"
    and "slash_guard (ic_Content (commandForIncomingMessage pd m)) = SlashOnward"
  shows "\<not> isChordLocalOnlySlashCommand (im_Text m) \<and> \<not> isGatewayOwnedSlashCommand (im_Text m)"
proof (rule ccontr)
  assume "\<not> ?thesis"
  then have bad: "isChordLocalOnlySlashCommand (im_Text m) \<or> isGatewayOwnedSlashCommand (im_Text m)" by blast
  let ?t = "trim_space (im_Text m)"
  note h = slash_head [OF bad]
  have pre: "\<not> has_prefix ?t ''!''" "\<not> has_prefix ?t fullwidth_bang" "has_prefix ?t ''/''"
    using h by (cases ?t; auto simp: has_prefix_def fullwidth_bang_def dest: arg_cong [of _ _ byte_of])+
  have guard: "slash_guard c = SlashOnward \<Longrightarrow> \<not> isChordLocalOnlySlashCommand c \<and> \<not> isGatewayOwnedSlashCommand c" for c
    by (auto simp: slash_guard_def Let_def split: option.splits if_splits)
  show False
  proof (cases "im_ForceText m")
    case True
    with assms(3) bad guard show False by (simp add: commandForIncomingMessage_def)
  next
    case False
    then have cmd: "commandForIncomingMessage pd m = parse_slash pd ?t"
      using assms(1) pre by (simp add: commandForIncomingMessage_def parseIMCommand_def Let_def)
    have "ic_Content (parse_slash pd ?t) = ?t"
      using bad h assms(2) lower_local [of "head_word ?t"] parse_slash_local [of ?t pd] parse_slash_owned [of ?t pd]
      by (auto simp: cmd)
    with assms(3) bad guard [of ?t] show False by (simp add: cmd)
  qed
qed

definition witness_text :: "string \<Rightarrow> bool \<Rightarrow> incoming_message" where
  "witness_text s force = \<lparr>im_AccountID = ''a'', im_ChatKind = ''private'', im_ticket = None, im_IMType = ''slack'',
     im_ChatID = ''c'', im_SenderID = ''u'', im_SenderName = '''', im_MessageID = ''m'', im_Text = s, im_ForceText = force,
     im_AppID = '''', im_InternalAction = None\<rparr>"

lemma forwarded_text_allowed_witness:
  "\<not> isChordLocalOnlySlashCommand (im_Text (witness_text ''/review'' True))
   \<and> \<not> isGatewayOwnedSlashCommand (im_Text (witness_text ''/review'' True))"
  by (rule forwarded_text_allowed [where pd = "\<lambda>_. None"])
     (simp_all add: witness_text_def commandForIncomingMessage_def slash_guard_def remoteMCPCommand_def str_fields_def ascii_eval
        space_piece_def is_space_def rune_bytes_def equal_fold_def fold_rune_def isChordLocalOnlySlashCommand_def
        isGatewayOwnedSlashCommand_def matchesSlashCommand_def trim_space_def to_lower_def to_lower_piece_def
        chordLocalOnlySlash_def gatewayOwnedSlash_def has_prefix_def Let_def)

section \<open>Editing a queued input\<close>

lemma digits_word: "valid_utf8 (nat_digits n) \<and> \<not> has_space (nat_digits n) \<and> space \<notin> set (nat_digits n)"
proof -
  have d: "list_all is_digit (nat_digits n)" using nat_digits_value by blast
  have "valid_utf8 s \<and> \<not> has_space s \<and> space \<notin> set s" if "list_all is_digit s" for s
    using that
  proof (induction s)
    case (Cons c s)
    then have b: "48 \<le> byte_of c" "byte_of c \<le> 57" by (simp_all add: is_digit_def)
    then have "c \<noteq> space" "\<not> space_piece (byte_of c, [c])" by (auto simp: space_piece_def is_space_def)
    with Cons b show ?case by (simp add: has_space_def runes_ascii)
  qed simp
  with d show ?thesis by blast
qed

definition queue_edit :: "nat \<Rightarrow> string \<Rightarrow> string" where
  "queue_edit n s = ''edit '' @ nat_digits n @ space # s"

text \<open>Round trip of an edit: the item number and the new text an operator types after
  \<open>/queue edit\<close> are the ones that are applied, whatever white space is inside the text.\<close>

theorem queue_edit_roundtrip:
  assumes "0 < n" and "n < 2 ^ 63" and "trim_space s = s" and "s \<noteq> []"
  shows "parseQueueRequest (queue_edit n s) = (\<lparr>qr_action = ''edit'', qr_index = int n, qr_text = s\<rparr>, True)"
proof -
  note d = digits_word [of n]
  have w: "valid_utf8 ''edit''" "\<not> has_space ''edit''" "to_lower ''edit'' = ''edit''"
    by (simp_all add: ascii_eval has_space_def space_piece_def is_space_def to_lower_def to_lower_piece_def)
  have "trimmed s" using trimmed_trim [of s] assms(3) by simp
  then have "trimmed (nat_digits n @ [space] @ s)"
    using d trimmed_word assms(4) by (intro trimmed_append) simp_all
  then have tail: "trim_space (space # nat_digits n @ space # s) = nat_digits n @ space # s"
    using trim_space_trimmed by simp
  have f: "str_fields (queue_edit n s) = ''edit'' # str_fields (nat_digits n @ space # s)"
    using fields_cons(1) [OF w(1,2), of "nat_digits n @ space # s"] by (simp add: queue_edit_def)
  have cut: "cut_at space (nat_digits n @ space # s) = (nat_digits n, s, True)"
  proof -
    have "takeWhile (\<lambda>c. c \<noteq> space) (nat_digits n @ space # s) = nat_digits n"
      using d by (subst takeWhile_append2) auto
    then show ?thesis by (simp add: cut_at_def Let_def)
  qed
  have rest: "drop (length ''edit'') (queue_edit n s) = space # nat_digits n @ space # s"
    by (simp add: queue_edit_def)
  have num: "Atoi (trim_space (nat_digits n)) = Some (int n)"
    using trim_space_trimmed [OF trimmed_word] d Atoi_nat_digits [OF assms(2)] by simp
  show ?thesis
    unfolding parseQueueRequest_def f Let_def nth_Cons_0 w(3) rest tail cut
    using num assms by (simp add: queue_zero_def)
qed

lemma queue_edit_roundtrip_witness:
  "parseQueueRequest (queue_edit 2 ''a b'') = (\<lparr>qr_action = ''edit'', qr_index = int 2, qr_text = ''a b''\<rparr>, True)"
  by (rule queue_edit_roundtrip)
     (simp_all add: trim_space_def ascii_eval space_piece_def is_space_def rune_bytes_def)

text \<open>
  Two spaces after \<open>/resume\<close> lose the session: the words are cut with \<open>strings.SplitN\<close>, which
  gives an empty second word, so the command reads as one without a session.
\<close>

lemma resume_two_spaces:
  "parseIMCommand pd ''/resume  s1'' = command ''resume''"
proof -
  have "trim_space ''/resume  s1'' = ''/resume  s1''"
    by (simp add: trim_space_def ascii_eval space_piece_def is_space_def rune_bytes_def)
  moreover have "head_word ''/resume  s1'' = ''/resume''" by simp
  moreover have "to_lower ''/resume'' = ''/resume''" by (simp add: to_lower_def ascii_eval to_lower_piece_def)
  moreover have "split_n 3 space ''/resume  s1'' = [''/resume'', '''', ''s1'']"
    by (simp add: eval_nat_numeral cut_at_def Let_def)
  ultimately show ?thesis
    by (simp add: parseIMCommand_def parse_slash_def Let_def has_prefix_def fullwidth_bang_def)
qed

end
