(* ===== verification/Admission.thy ===== *)
theory Admission
  imports Pairing Commands
begin

text \<open>
  \<open>internal/gateway/inbound_admission.go\<close> and \<open>AuthorizeClassified\<close> of \<open>im_ingress.go\<close>: who may
  give the gateway work. A message gets a ticket, and the ticket is checked again before the
  work is done. The configuration and the fault flag of its store are parameters of each
  call; the gates live in a map from chat identity, which never drops or replaces one, so a
  ticket names its gate by the identity.
\<close>

record admission =
  adm_pairing :: pairing_service
  adm_gates :: "(chat_identity, chat_gate) gomap"
  adm_heap :: lease_heap
  adm_closed :: bool

definition NewAdmission :: "pairing_service \<Rightarrow> admission" where
  "NewAdmission p = \<lparr>adm_pairing = p, adm_gates = [], adm_heap = [], adm_closed = False\<rparr>"

text \<open>The store's configuration and whether it has faulted.\<close>

record config_view =
  cv_config :: gateway_config
  cv_faulted :: bool

text \<open>Closing cancels every platform and closes the lease each gate holds; \<open>None\<close> would be a panic.\<close>

definition close_lease :: "nat \<Rightarrow> lease_heap \<Rightarrow> lease_heap option" where
  "close_lease ref h = map_option (\<lambda>l. h[ref := l]) (lease_Close (h ! ref))"

fun close_gates :: "chat_gate list \<Rightarrow> lease_heap \<Rightarrow> lease_heap option" where
  "close_gates [] h = Some h"
| "close_gates (g # gs) h = (case cg_lease g of
     None \<Rightarrow> close_gates gs h
   | Some ref \<Rightarrow> Option.bind (close_lease ref h) (close_gates gs))"

definition cancel_platforms :: "pairing_service \<Rightarrow> pairing_service" where
  "cancel_platforms p = p\<lparr>ps_platforms := map (\<lambda>(k, s). (k, s\<lparr>pp_cancelled := True\<rparr>)) (ps_platforms p)\<rparr>"

definition admission_Close :: "admission \<Rightarrow> admission option" where
  "admission_Close a =
     map_option (\<lambda>h. a\<lparr>adm_closed := True, adm_pairing := cancel_platforms (adm_pairing a), adm_heap := h\<rparr>)
       (close_gates (map snd (adm_gates a)) (adm_heap a))"

definition new_gate :: "chat_identity \<Rightarrow> string \<Rightarrow> 64 word \<Rightarrow> lease_heap \<Rightarrow> lease_heap \<times> chat_gate" where
  "new_gate i workspace epoch h =
     (if workspace \<noteq> '''' then Install i workspace epoch (h, NewChatGate) else (h, NewChatGate))"

definition admission_gate :: "chat_identity \<Rightarrow> string \<Rightarrow> 64 word \<Rightarrow> admission \<Rightarrow> admission \<times> chat_gate option" where
  "admission_gate i workspace epoch a =
     (if adm_closed a then (a, None)
      else case map_of (adm_gates a) i of
        Some g \<Rightarrow> (a, Some g)
      | None \<Rightarrow> (let (h, g) = new_gate i workspace epoch (adm_heap a) in
          (a\<lparr>adm_gates := AList.update i g (adm_gates a), adm_heap := h\<rparr>, Some g)))"

section \<open>Authorization\<close>

definition sender_ticket :: "gotime \<Rightarrow> incoming_message \<Rightarrow> admission_ticket" where
  "sender_ticket now m = zero_ticket\<lparr>at_Identity := ChatIdentity (im_IMType m) (im_AccountID m) (im_ChatID m),
     at_SenderID := im_SenderID m, at_ReceivedAt := now\<rparr>"

definition identified :: "incoming_message \<Rightarrow> bool" where
  "identified m \<longleftrightarrow> im_AccountID m \<noteq> '''' \<and> im_ChatID m \<noteq> '''' \<and> im_SenderID m \<noteq> '''' \<and> im_MessageID m \<noteq> ''''
     \<and> isValidIngressChatKind m"

text \<open>The reply an unpaired private sender gets, when its budget has one left.\<close>

definition hint_reply :: "bool \<Rightarrow> gotime \<Rightarrow> string \<Rightarrow> incoming_message \<Rightarrow> pairing_platform \<Rightarrow> admission_ticket
    \<Rightarrow> pairing_platform \<times> admission_ticket" where
  "hint_reply charge now kind m s t =
     (if \<not> charge then (s, t)
      else let (s1, ok) = hintAllowed now (im_ChatID m) s in (s1, if ok then t\<lparr>at_Kind := kind\<rparr> else t))"

definition owner_kind :: "im_adapter \<Rightarrow> incoming_message \<Rightarrow> string" where
  "owner_kind ad m =
     (if \<not> im_ForceText m \<and> isBindCommand (im_Text m) then ''paired_bind''
      else if get_or '''' (adapter_Bindings ad) (im_ChatID m) = '''' then ''owner_unbound'' else ''paired_task'')"

text \<open>A bind command of an unpaired private sender, after its attempt was charged.\<close>

definition bind_attempt :: "bool \<Rightarrow> gotime \<Rightarrow> incoming_message \<Rightarrow> pairing_service \<Rightarrow> pairing_platform \<Rightarrow> admission_ticket
    \<Rightarrow> pairing_platform \<times> admission_ticket \<times> bool" where
  "bind_attempt charge now m p s t = (case parsePairedBindArgs (im_Text m) of
     Some [dir, code] \<Rightarrow>
       if codeValid now code p then (s, t\<lparr>at_Kind := ''paired_bind'', at_PairingNonceID := ps_codeID p\<rparr>, True)
       else (let (s1, t1) = hint_reply charge now ''pairing_hint_code'' m s t in (s1, t1, False))
   | _ \<Rightarrow> (let (s1, t1) = hint_reply charge now ''pairing_hint_usage'' m s t in (s1, t1, False)))"

text \<open>The part of \<open>authorize\<close> under the service's lock.\<close>

definition authorize_locked :: "bool \<Rightarrow> gotime \<Rightarrow> im_adapter \<Rightarrow> incoming_message \<Rightarrow> admission_ticket \<Rightarrow> pairing_service
    \<Rightarrow> pairing_service \<times> admission_ticket \<times> bool" where
  "authorize_locked charge now ad m t p =
     (let plat = im_IMType m;
          store = (\<lambda>(s, t, ok). (put_platform plat s p, t, ok)) in
      case map_of (ps_platforms p) plat of
        None \<Rightarrow> (p, t, False)
      | Some s \<Rightarrow>
          if \<not> pp_ready s \<or> pp_changed s \<or> pp_account s \<noteq> im_AccountID m then (p, t, False)
          else let t = t\<lparr>at_AccountEpoch := pp_epoch s\<rparr> in
          case OwnerIdentity ad of
            Some ow \<Rightarrow>
              if ow_AccountID ow \<noteq> im_AccountID m \<or> ow_UserID ow \<noteq> im_SenderID m then (p, t, False)
              else (p, t\<lparr>at_Kind := owner_kind ad m\<rparr>, True)
          | None \<Rightarrow>
              if im_ChatKind m \<noteq> ''private'' \<or> im_InternalAction m \<noteq> None \<or> im_ForceText m then (p, t, False)
              else if \<not> isBindCommand (im_Text m)
              then (let (s1, t1) = hint_reply charge now ''pairing_hint_text'' m s t in store (s1, t1, False))
              else if charge
              then (let (s1, ok) = pairing_spend now s in
                if ok then store (bind_attempt charge now m p s1 t) else store (s1, t, False))
              else store (bind_attempt charge now m p s t))"

definition authorize :: "config_view \<Rightarrow> gotime \<Rightarrow> bool \<Rightarrow> incoming_message \<Rightarrow> admission \<Rightarrow> admission \<times> admission_ticket \<times> bool" where
  "authorize cv now charge m a =
     (let t = sender_ticket now m in
      case IMConfigByType (cv_config cv) (im_IMType m) of
        None \<Rightarrow> (a, t, False)
      | Some ad \<Rightarrow>
          if cv_faulted cv \<or> \<not> identified m then (a, t, False)
          else let (p, t, ok) = authorize_locked charge now ad m t (adm_pairing a); a = a\<lparr>adm_pairing := p\<rparr> in
            if \<not> ok then (a, t, False)
            else let ws = get_or '''' (adapter_Bindings ad) (im_ChatID m);
                     (a, gate) = admission_gate (at_Identity t) ws (at_AccountEpoch t) a in
              case gate of
                None \<Rightarrow> (a, t, False)
              | Some g \<Rightarrow>
                  let (lease, generation, phase) = Snapshot g;
                      t = t\<lparr>at_Gate := Some (at_Identity t), at_BindingGeneration := generation\<rparr> in
                  if at_Kind t = ''paired_task'' \<and>
                     (phase \<noteq> PhaseActive \<or> (case lease of None \<Rightarrow> True | Some ref \<Rightarrow> bl_WorkspaceID (adm_heap a ! ref) \<noteq> ws))
                  then (a, t, False) else (a, t, True))"

text \<open>\<open>Valid\<close>, where \<open>None\<close> is the panic of a ticket without a gate.\<close>

definition Valid :: "config_view \<Rightarrow> gotime \<Rightarrow> admission_ticket \<Rightarrow> admission \<Rightarrow> bool option" where
  "Valid cv now t a =
     (if adm_closed a \<or> cv_faulted cv then Some False
      else let p = adm_pairing a; i = at_Identity t in
      case map_of (ps_platforms p) (Platform i) of
        None \<Rightarrow> Some False
      | Some s \<Rightarrow>
          if pp_changed s \<or> pp_account s \<noteq> AccountID i \<or> pp_epoch s \<noteq> at_AccountEpoch t then Some False
          else case IMConfigByType (cv_config cv) (Platform i) of
            None \<Rightarrow> Some False
          | Some ad \<Rightarrow>
              if IsPairingHint t then Some (OwnerIdentity ad = None \<and> pp_ready s)
              else case OwnerIdentity ad of
                None \<Rightarrow> Some (pp_ready s \<and> at_Kind t = ''paired_bind'' \<and> at_PairingNonceID t \<noteq> ''''
                    \<and> at_PairingNonceID t = ps_codeID p \<and> now < ps_codeExpires p)
              | Some ow \<Rightarrow>
                  if ow_UserID ow \<noteq> at_SenderID t \<or> ow_AccountID ow \<noteq> AccountID i then Some False
                  else Option.bind (at_Gate t) (\<lambda>gate. map_option (\<lambda>g.
                    at_Kind t \<noteq> ''paired_task'' \<or> (cg_generation g = at_BindingGeneration t \<and> cg_phase g = PhaseActive))
                    (map_of (adm_gates a) gate)))"

text \<open>\<open>authorizeClassified\<close>: the answer a platform gets, with the reason.\<close>

definition authorizeClassified :: "config_view \<Rightarrow> gotime \<Rightarrow> bool \<Rightarrow> incoming_message \<Rightarrow> admission \<Rightarrow> admission \<times> admission_result" where
  "authorizeClassified cv now charge m a =
     (let result = (\<lambda>t d r. \<lparr>ar_Ticket = t, ar_Disposition = d, ar_Reason = r\<rparr>) in
      if \<not> identified m then (a, result zero_ticket AdmissionRejected ''invalid_identity'')
      else let (a, t, ok) = authorize cv now charge m a in
        if ok then
          (if at_Kind t = ''owner_unbound'' then (a, result t AdmissionRejected ''chat_unbound'')
           else (a, result t AdmissionAllowed ''''))
        else if IsPairingHint t then (a, result t AdmissionRejected (at_Kind t))
        else if adm_closed a \<or> cv_faulted cv then (a, result t AdmissionUnavailable ''admission_unavailable'')
        else if (case map_of (ps_platforms (adm_pairing a)) (im_IMType m) of
            None \<Rightarrow> True
          | Some s \<Rightarrow> \<not> pp_ready s \<and> \<not> pp_changed s \<and> pp_account s = im_AccountID m)
        then (a, result t AdmissionUnavailable ''platform_unavailable'')
        else (a, result t AdmissionRejected ''authorization_denied''))"

definition AuthorizeClassified :: "config_view \<Rightarrow> gotime \<Rightarrow> incoming_message \<Rightarrow> admission \<Rightarrow> admission \<times> admission_result" where
  "AuthorizeClassified cv now m a = authorizeClassified cv now True m a"

text \<open>\<open>admittedMessage\<close>: the message with its ticket, for a router that has an admission.\<close>

definition admittedMessage :: "config_view \<Rightarrow> gotime \<Rightarrow> incoming_message \<Rightarrow> admission \<Rightarrow> admission \<times> incoming_message option" where
  "admittedMessage cv now m a =
     (let (a, t, ok) = authorize cv now True m a in
      if ok then (a, Some (SetAdmissionTicket t m)) else (a, None))"

section \<open>Who is allowed\<close>

lemma hint_reply_kind:
  assumes "hint_reply charge now kind m s t = (s1, t1)"
  shows "t1 = t \<or> t1 = t\<lparr>at_Kind := kind\<rparr>"
  using assms by (auto simp: hint_reply_def split_beta split: if_splits)

lemma bind_attempt_ok:
  assumes "bind_attempt charge now m p s t = (s1, t1, True)"
  shows "\<exists>dir code. parsePairedBindArgs (im_Text m) = Some [dir, code] \<and> codeValid now code p \<and> s1 = s
    \<and> t1 = t\<lparr>at_Kind := ''paired_bind'', at_PairingNonceID := ps_codeID p\<rparr>"
  using assms by (auto simp: bind_attempt_def split_beta split: option.splits list.splits if_splits)

text \<open>What the locked part has checked when it lets a message through.\<close>

definition locked_authority :: "gotime \<Rightarrow> im_adapter \<Rightarrow> incoming_message \<Rightarrow> pairing_service \<Rightarrow> admission_ticket \<Rightarrow> bool" where
  "locked_authority now ad m p t \<longleftrightarrow>
     (\<exists>s. map_of (ps_platforms p) (im_IMType m) = Some s \<and> pp_ready s \<and> \<not> pp_changed s
        \<and> pp_account s = im_AccountID m \<and> at_AccountEpoch t = pp_epoch s) \<and>
     (case OwnerIdentity ad of
        Some ow \<Rightarrow> ow_AccountID ow = im_AccountID m \<and> ow_UserID ow = im_SenderID m \<and> at_Kind t = owner_kind ad m
      | None \<Rightarrow> at_Kind t = ''paired_bind'' \<and> at_PairingNonceID t = ps_codeID p \<and> im_ChatKind m = ''private''
          \<and> (\<exists>dir code. parsePairedBindArgs (im_Text m) = Some [dir, code] \<and> codeValid now code p))"

lemma authorize_locked_ok:
  assumes "authorize_locked charge now ad m t p = (p1, t1, True)"
  shows "locked_authority now ad m p t1 \<and> at_Identity t1 = at_Identity t \<and> at_SenderID t1 = at_SenderID t"
proof -
  obtain s where s: "map_of (ps_platforms p) (im_IMType m) = Some s" "pp_ready s" "\<not> pp_changed s" "pp_account s = im_AccountID m"
    using assms by (auto simp: authorize_locked_def Let_def split: option.splits if_splits)
  let ?t = "t\<lparr>at_AccountEpoch := pp_epoch s\<rparr>"
  show ?thesis
  proof (cases "OwnerIdentity ad")
    case (Some ow)
    with assms s show ?thesis
      by (auto simp: authorize_locked_def locked_authority_def Let_def split: if_splits)
  next
    case None
    have b: "\<exists>s2 s3. bind_attempt charge now m p s2 ?t = (s3, t1, True) \<and> im_ChatKind m = ''private''"
      using assms s None
      by (auto simp: authorize_locked_def Let_def split_beta prod_eq_iff split: if_splits)
    then obtain s2 s3 where "bind_attempt charge now m p s2 ?t = (s3, t1, True)" and k: "im_ChatKind m = ''private''" by blast
    from bind_attempt_ok [OF this(1)] k s None show ?thesis by (auto simp: locked_authority_def)
  qed
qed

lemma admission_gate_some:
  assumes "admission_gate i ws epoch a = (a1, Some g)"
  shows "map_of (adm_gates a1) i = Some g \<and> \<not> adm_closed a \<and> adm_pairing a1 = adm_pairing a \<and> adm_closed a1 = adm_closed a"
  using assms by (auto simp: admission_gate_def split_beta Let_def update_conv' split: if_splits option.splits)

text \<open>
  What a ticket that \<open>authorize\<close> grants rests on: the sender's authority, a gate with the
  generation the ticket names, and for a task an active binding of the chat's workspace.
\<close>

definition gate_authority :: "im_adapter \<Rightarrow> incoming_message \<Rightarrow> admission \<Rightarrow> admission_ticket \<Rightarrow> bool" where
  "gate_authority ad m a t \<longleftrightarrow> \<not> adm_closed a \<and>
     (\<exists>g. at_Gate t = Some (at_Identity t) \<and> map_of (adm_gates a) (at_Identity t) = Some g
        \<and> cg_generation g = at_BindingGeneration t \<and>
        (at_Kind t = ''paired_task'' \<longrightarrow> cg_phase g = PhaseActive \<and>
           (\<exists>ref. cg_lease g = Some ref \<and> bl_WorkspaceID (adm_heap a ! ref) = get_or '''' (adapter_Bindings ad) (im_ChatID m))))"

lemma authorize_ok:
  assumes "authorize cv now charge m a = (a1, t, True)"
  shows "\<exists>ad. IMConfigByType (cv_config cv) (im_IMType m) = Some ad \<and> \<not> cv_faulted cv \<and> identified m
     \<and> locked_authority now ad m (adm_pairing a) t \<and> gate_authority ad m a1 t
     \<and> at_Identity t = ChatIdentity (im_IMType m) (im_AccountID m) (im_ChatID m) \<and> at_SenderID t = im_SenderID m"
proof -
  obtain ad where ad: "IMConfigByType (cv_config cv) (im_IMType m) = Some ad" "\<not> cv_faulted cv" "identified m"
    using assms by (auto simp: authorize_def Let_def split: option.splits if_splits)
  obtain p t0 ok where l: "authorize_locked charge now ad m (sender_ticket now m) (adm_pairing a) = (p, t0, ok)"
    by (metis prod.exhaust)
  have ok: "ok" using assms ad l by (auto simp: authorize_def Let_def split: if_splits)
  let ?ws = "get_or '''' (adapter_Bindings ad) (im_ChatID m)"
  obtain a2 g' where g': "admission_gate (at_Identity t0) ?ws (at_AccountEpoch t0) (a\<lparr>adm_pairing := p\<rparr>) = (a2, g')"
    by (metis prod.exhaust)
  obtain g where g: "g' = Some g"
    using assms ad l ok g' by (auto simp: authorize_def Let_def split: option.splits)
  have t: "t = t0\<lparr>at_Gate := Some (at_Identity t0), at_BindingGeneration := cg_generation g\<rparr>" "a1 = a2"
    and task: "at_Kind t0 = ''paired_task'' \<longrightarrow> cg_phase g = PhaseActive \<and> (\<exists>ref. cg_lease g = Some ref \<and> bl_WorkspaceID (adm_heap a2 ! ref) = ?ws)"
    using assms ad l ok g' g by (auto simp: authorize_def Snapshot_def Let_def split: option.splits if_splits)
  note gate = admission_gate_some [OF g' [unfolded g]]
  have lk: "locked_authority now ad m (adm_pairing a) t0" "at_Identity t0 = at_Identity (sender_ticket now m)"
    "at_SenderID t0 = im_SenderID m"
    using authorize_locked_ok [OF l [simplified ok]] by (simp_all add: sender_ticket_def)
  have "locked_authority now ad m (adm_pairing a) t" using lk(1) by (simp add: locked_authority_def t split: option.splits)
  moreover have "gate_authority ad m a1 t" using gate task by (simp add: gate_authority_def t)
  ultimately show ?thesis using ad lk by (simp add: t sender_ticket_def)
qed

text \<open>
  C17: Authority. The gateway accepts work only from an identified sender on a ready platform
  whose account never changed. A task needs the registered owner of that account, a binding of
  the chat and an active gate whose lease is for that workspace; without an owner nothing but
  a bind command from a private chat with the live pairing code gets through, and its ticket
  carries no task authority.
\<close>

theorem allowed_authority:
  assumes "AuthorizeClassified cv now m a = (a1, r)" and "ar_Disposition r = AdmissionAllowed"
  shows "\<exists>ad s. IMConfigByType (cv_config cv) (im_IMType m) = Some ad \<and> \<not> cv_faulted cv \<and> identified m
     \<and> map_of (ps_platforms (adm_pairing a)) (im_IMType m) = Some s \<and> pp_ready s \<and> \<not> pp_changed s \<and> pp_account s = im_AccountID m
     \<and> (case OwnerIdentity ad of
          Some ow \<Rightarrow> ow_AccountID ow = im_AccountID m \<and> ow_UserID ow = im_SenderID m
            \<and> (at_Kind (ar_Ticket r) = ''paired_bind'' \<and> isBindCommand (im_Text m)
               \<or> at_Kind (ar_Ticket r) = ''paired_task'' \<and> get_or '''' (adapter_Bindings ad) (im_ChatID m) \<noteq> ''''
                 \<and> gate_authority ad m a1 (ar_Ticket r))
        | None \<Rightarrow> at_Kind (ar_Ticket r) = ''paired_bind'' \<and> im_ChatKind m = ''private''
            \<and> (\<exists>dir code. parsePairedBindArgs (im_Text m) = Some [dir, code] \<and> codeValid now code (adm_pairing a)))"
proof -
  have idf: "identified m" using assms by (auto simp: AuthorizeClassified_def authorizeClassified_def Let_def split: if_splits)
  obtain a2 t ok where au: "authorize cv now True m a = (a2, t, ok)" by (metis prod.exhaust)
  have ok: "ok" "at_Kind t \<noteq> ''owner_unbound''" "ar_Ticket r = t" "a1 = a2"
    using assms idf au
    by (auto simp: AuthorizeClassified_def authorizeClassified_def Let_def split: if_splits option.splits)
  from authorize_ok [OF au [simplified ok(1)]] obtain ad where
    ad: "IMConfigByType (cv_config cv) (im_IMType m) = Some ad" "\<not> cv_faulted cv" "locked_authority now ad m (adm_pairing a) t"
      "gate_authority ad m a1 t" using ok by blast
  then obtain s where "map_of (ps_platforms (adm_pairing a)) (im_IMType m) = Some s" "pp_ready s" "\<not> pp_changed s" "pp_account s = im_AccountID m"
    by (auto simp: locked_authority_def)
  with ad idf ok show ?thesis
    by (intro exI [of _ ad] exI [of _ s]) (auto simp: locked_authority_def owner_kind_def split: option.splits if_splits)
qed

section \<open>Histories\<close>

text \<open>
  What happens to the service and the gates, one lock at a time: displaying a code may fail
  any time after it was made, a gate may be installed, switched, blocked or unbound by the
  binding operations. Each step has its own configuration and instant.
\<close>

datatype admission_event =
    EReady gateway_config pairing_env string string platform_presentation
  | EBegin gateway_config pairing_env
  | EForget
  | EUnavailable string
  | EAuthorize config_view gotime bool incoming_message
  | EClose
  | EInstall chat_identity string "64 word"
  | ESwitching chat_identity
  | EBlock chat_identity
  | EUnbound chat_identity

definition on_gate :: "chat_identity \<Rightarrow> (lease_heap \<times> chat_gate \<Rightarrow> (lease_heap \<times> chat_gate) option) \<Rightarrow> admission \<Rightarrow> admission option" where
  "on_gate i f a = (case map_of (adm_gates a) i of
     None \<Rightarrow> Some a
   | Some g \<Rightarrow> map_option (\<lambda>(h, g1). a\<lparr>adm_gates := AList.update i g1 (adm_gates a), adm_heap := h\<rparr>) (f (adm_heap a, g)))"

definition on_pairing :: "(pairing_service \<Rightarrow> pairing_service) \<Rightarrow> admission \<Rightarrow> admission" where
  "on_pairing f a = a\<lparr>adm_pairing := f (adm_pairing a)\<rparr>"

fun admission_event_step :: "admission_event \<Rightarrow> admission \<Rightarrow> admission option" where
  "admission_event_step (EReady cfg env platform account pres) a =
     Some (on_pairing (\<lambda>p. fst (ready_locked cfg env platform account pres p)) a)"
| "admission_event_step (EBegin cfg env) a = Some (on_pairing (\<lambda>p. fst (preparePairingCode cfg env p)) a)"
| "admission_event_step EForget a = Some (on_pairing forgetCode a)"
| "admission_event_step (EUnavailable platform) a = Some (on_pairing (PlatformUnavailable platform) a)"
| "admission_event_step (EAuthorize cv now charge m) a = Some (fst (authorize cv now charge m a))"
| "admission_event_step EClose a = admission_Close a"
| "admission_event_step (EInstall i ws epoch) a = on_gate i (\<lambda>hg. Some (Install i ws epoch hg)) a"
| "admission_event_step (ESwitching i) a = on_gate i (\<lambda>hg. map_option (\<lambda>(h, g, r). (h, g)) (Switching hg)) a"
| "admission_event_step (EBlock i) a = on_gate i (\<lambda>(h, g). Some (h, Block g)) a"
| "admission_event_step (EUnbound i) a = on_gate i (\<lambda>(h, g). Some (h, SetUnbound g)) a"

fun admission_run :: "admission_event list \<Rightarrow> admission \<Rightarrow> admission option" where
  "admission_run [] a = Some a"
| "admission_run (e # es) a = Option.bind (admission_event_step e a) (admission_run es)"

lemma hintAllowed_frame: "fst (hintAllowed now chat s) = s\<lparr>pp_hints := pp_hints (fst (hintAllowed now chat s))\<rparr>"
  by (auto simp: hintAllowed_def Let_def split_beta split: option.splits)

lemma hint_reply_frame: "fst (hint_reply charge now kind m s t) = s\<lparr>pp_hints := pp_hints (fst (hint_reply charge now kind m s t))\<rparr>"
  using hintAllowed_frame [of now "im_ChatID m" s] by (auto simp: hint_reply_def split_beta)

lemma bind_attempt_frame: "fst (bind_attempt charge now m p s t) = s\<lparr>pp_hints := pp_hints (fst (bind_attempt charge now m p s t))\<rparr>"
  using hint_reply_frame [of charge now _ m s t]
  by (auto simp: bind_attempt_def split_beta split: option.splits list.splits)

text \<open>A message that reaches the budget of bind attempts.\<close>

definition reaches_budget :: "config_view \<Rightarrow> incoming_message \<Rightarrow> pairing_platform \<Rightarrow> bool" where
  "reaches_budget cv m s \<longleftrightarrow> (\<exists>ad. IMConfigByType (cv_config cv) (im_IMType m) = Some ad \<and> OwnerIdentity ad = None)
     \<and> \<not> cv_faulted cv \<and> identified m \<and> pp_ready s \<and> \<not> pp_changed s \<and> pp_account s = im_AccountID m
     \<and> im_ChatKind m = ''private'' \<and> im_InternalAction m = None \<and> \<not> im_ForceText m \<and> isBindCommand (im_Text m)"

lemma authorize_pairing:
  "adm_pairing (fst (authorize cv now charge m a)) =
     (case IMConfigByType (cv_config cv) (im_IMType m) of
        None \<Rightarrow> adm_pairing a
      | Some ad \<Rightarrow> if cv_faulted cv \<or> \<not> identified m then adm_pairing a
          else fst (authorize_locked charge now ad m (sender_ticket now m) (adm_pairing a)))"
  by (auto simp: authorize_def admission_gate_def Snapshot_def Let_def split_beta split: option.splits)

lemma authorize_locked_unpaired:
  assumes "map_of (ps_platforms p) (im_IMType m) = Some s" and "pp_ready s" "\<not> pp_changed s" "pp_account s = im_AccountID m"
    and "OwnerIdentity ad = None" and "im_ChatKind m = ''private''" "im_InternalAction m = None" "\<not> im_ForceText m"
  shows "fst (authorize_locked charge now ad m t p) = put_platform (im_IMType m)
     (if \<not> isBindCommand (im_Text m) then fst (hint_reply charge now ''pairing_hint_text'' m s (t\<lparr>at_AccountEpoch := pp_epoch s\<rparr>))
      else if charge then (if snd (pairing_spend now s)
        then fst (bind_attempt charge now m p (fst (pairing_spend now s)) (t\<lparr>at_AccountEpoch := pp_epoch s\<rparr>)) else fst (pairing_spend now s))
      else fst (bind_attempt charge now m p s (t\<lparr>at_AccountEpoch := pp_epoch s\<rparr>))) p"
  using assms by (simp add: authorize_locked_def Let_def split_beta)

lemma authorize_locked_other:
  assumes "plat \<noteq> im_IMType m"
  shows "map_of (ps_platforms (fst (authorize_locked charge now ad m t p))) plat = map_of (ps_platforms p) plat"
  using assms by (simp add: authorize_locked_def put_platform_def Let_def split_beta update_conv' split: option.split)

lemma authorize_locked_unready:
  assumes "map_of (ps_platforms p) (im_IMType m) = Some s" and "\<not> (pp_ready s \<and> \<not> pp_changed s \<and> pp_account s = im_AccountID m)"
  shows "fst (authorize_locked charge now ad m t p) = p"
  using assms by (auto simp: authorize_locked_def Let_def)

text \<open>What a message does to the platform it comes from, and to no other.\<close>

lemma authorize_platform:
  assumes "map_of (ps_platforms (adm_pairing a)) plat = Some s"
  shows "\<exists>s1 hints. map_of (ps_platforms (adm_pairing (fst (authorize cv now charge m a)))) plat = Some s1 \<and>
     s1 = (if charge \<and> im_IMType m = plat \<and> reaches_budget cv m s then fst (pairing_spend now s) else s)\<lparr>pp_hints := hints\<rparr>"
proof (cases "im_IMType m = plat \<and> \<not> cv_faulted cv \<and> identified m \<and> IMConfigByType (cv_config cv) (im_IMType m) \<noteq> None
    \<and> pp_ready s \<and> \<not> pp_changed s \<and> pp_account s = im_AccountID m")
  case False
  then have "map_of (ps_platforms (adm_pairing (fst (authorize cv now charge m a)))) plat = Some s"
    using assms authorize_locked_other [of plat m] authorize_locked_unready [of _ m s]
    by (cases "im_IMType m = plat") (auto simp: authorize_pairing split: option.splits)
  moreover have "\<not> (im_IMType m = plat \<and> reaches_budget cv m s)" using False by (auto simp: reaches_budget_def)
  ultimately show ?thesis by (intro exI [of _ s] exI [of _ "pp_hints s"]) auto
next
  case True
  then obtain ad where ad: "IMConfigByType (cv_config cv) (im_IMType m) = Some ad" by auto
  have sp: "snd (pairing_spend now s) \<or> \<not> snd (pairing_spend now s)" by blast
  show ?thesis
  proof (cases "OwnerIdentity ad")
    case (Some ow)
    with True ad assms show ?thesis
      by (intro exI [of _ s] exI [of _ "pp_hints s"])
         (auto simp: authorize_pairing authorize_locked_def Let_def reaches_budget_def)
  next
    case None
    note pl = True
    let ?t = "(sender_ticket now m)\<lparr>at_AccountEpoch := pp_epoch s\<rparr>"
    let ?to = "\<lambda>s1. adm_pairing (fst (authorize cv now charge m a)) = put_platform plat s1 (adm_pairing a)"
    have put: ?thesis if "?to s1"
      and "s1 = (if charge \<and> im_IMType m = plat \<and> reaches_budget cv m s then fst (pairing_spend now s) else s)\<lparr>pp_hints := pp_hints s1\<rparr>" for s1
      using that by (intro exI [of _ s1] exI [of _ "pp_hints s1"]) (simp add: put_platform_def update_conv')
    have step: "adm_pairing (fst (authorize cv now charge m a)) = fst (authorize_locked charge now ad m (sender_ticket now m) (adm_pairing a))"
      using pl ad by (simp add: authorize_pairing)
    show ?thesis
    proof (cases "im_ChatKind m = ''private'' \<and> im_InternalAction m = None \<and> \<not> im_ForceText m")
      case False
      then have "adm_pairing (fst (authorize cv now charge m a)) = adm_pairing a" "\<not> reaches_budget cv m s"
        using pl ad assms None by (auto simp: authorize_pairing authorize_locked_def reaches_budget_def Let_def)
      then show ?thesis using assms by (intro exI [of _ s] exI [of _ "pp_hints s"]) simp
    next
      case True
      have "map_of (ps_platforms (adm_pairing a)) (im_IMType m) = Some s" using assms pl by simp
      note eq = authorize_locked_unpaired [OF this _ _ _ None, of charge now "sender_ticket now m"]
      have r: "reaches_budget cv m s = isBindCommand (im_Text m)" using pl True ad None by (auto simp: reaches_budget_def)
      let ?s1 = "if \<not> isBindCommand (im_Text m) then fst (hint_reply charge now ''pairing_hint_text'' m s ?t)
        else if charge then (if snd (pairing_spend now s) then fst (bind_attempt charge now m (adm_pairing a) (fst (pairing_spend now s)) ?t)
          else fst (pairing_spend now s)) else fst (bind_attempt charge now m (adm_pairing a) s ?t)"
      have "?to ?s1" using step eq pl True by simp
      moreover have "?s1 = (if charge \<and> im_IMType m = plat \<and> reaches_budget cv m s then fst (pairing_spend now s) else s)\<lparr>pp_hints := pp_hints ?s1\<rparr>"
      proof (cases "isBindCommand (im_Text m)")
        case False
        then show ?thesis using hint_reply_frame [of charge now "''pairing_hint_text''" m s ?t] r by simp
      next
        case b: True
        show ?thesis
          using bind_attempt_frame [of charge now m "adm_pairing a" "fst (pairing_spend now s)" ?t]
            bind_attempt_frame [of charge now m "adm_pairing a" s ?t] b r pl by (cases charge) simp_all
      qed
      ultimately show ?thesis by (rule put)
    qed
  qed
qed

definition charged_attempt :: "string \<Rightarrow> admission_event \<Rightarrow> admission \<Rightarrow> bool" where
  "charged_attempt plat e a = (case e of
     EAuthorize cv now charge m \<Rightarrow> charge \<and> im_IMType m = plat \<and>
       (case map_of (ps_platforms (adm_pairing a)) plat of
          None \<Rightarrow> False | Some s \<Rightarrow> reaches_budget cv m s \<and> snd (pairing_spend now s))
   | _ \<Rightarrow> False)"









fun event_instant :: "admission_event \<Rightarrow> gotime option" where
  "event_instant (EAuthorize cv now charge m) = Some now"
| "event_instant e = None"

lemma on_gate_pairing: "on_gate i f a = Some a1 \<Longrightarrow> adm_pairing a1 = adm_pairing a"
  by (auto simp: on_gate_def split: option.splits)

lemma ready_locked_platform:
  assumes "map_of (ps_platforms p) plat = Some s"
  shows "\<exists>s1. map_of (ps_platforms (fst (ready_locked cfg env platform account pres p))) plat = Some s1
     \<and> pp_tokens s1 = pp_tokens s \<and> pp_refilled s1 = pp_refilled s \<and> (pp_changed s \<longrightarrow> pp_changed s1)
     \<and> (account \<noteq> '''' \<and> platform = plat \<and> pp_account s \<noteq> account \<longrightarrow> pp_changed s1)"
proof -
  have prep: "ps_platforms (fst (preparePairingCode cfg env q)) = ps_platforms q" for q
    by (auto simp: preparePairingCode_def Let_def split_beta split: option.splits)
  show ?thesis
    using assms
    by (auto simp: ready_locked_def put_platform_def account_changed_def prep Let_def update_conv' split: option.splits)
qed

text \<open>One event of a history, as the platform sees it.\<close>

lemma event_platform:
  assumes "map_of (ps_platforms (adm_pairing a)) plat = Some s" and "admission_event_step e a = Some a1"
  shows "\<exists>s1. map_of (ps_platforms (adm_pairing a1)) plat = Some s1 \<and> (pp_changed s \<longrightarrow> pp_changed s1) \<and>
     ((pp_tokens s1, pp_refilled s1) = (pp_tokens s, pp_refilled s) \<and> \<not> charged_attempt plat e a
      \<or> (\<exists>now. event_instant e = Some now \<and>
           (pp_tokens s1, pp_refilled s1) = (pp_tokens (fst (pairing_spend now s)), pp_refilled (fst (pairing_spend now s)))
           \<and> charged_attempt plat e a = snd (pairing_spend now s)))"
proof (cases e)
  case (EReady cfg env platform account pres)
  with assms ready_locked_platform [OF assms(1), of cfg env platform account pres] show ?thesis
    by (auto simp: on_pairing_def charged_attempt_def)
next
  case (EAuthorize cv now charge m)
  from authorize_platform [OF assms(1), of cv now charge m] obtain s1 hints where
    s1: "map_of (ps_platforms (adm_pairing a1)) plat = Some s1"
      "s1 = (if charge \<and> im_IMType m = plat \<and> reaches_budget cv m s then fst (pairing_spend now s) else s)\<lparr>pp_hints := hints\<rparr>"
    using assms(2) EAuthorize by auto
  have "pp_changed (fst (pairing_spend now s)) = pp_changed s" by (simp add: pairing_spend_def split_beta)
  with s1 assms(1) EAuthorize show ?thesis
    by (cases "charge \<and> im_IMType m = plat \<and> reaches_budget cv m s") (auto simp: charged_attempt_def)
next
  case EClose
  then have "map_of (ps_platforms (adm_pairing a1)) plat = Some (s\<lparr>pp_cancelled := True\<rparr>)"
    using assms by (auto simp: admission_Close_def cancel_platforms_def map_of_map)
  with EClose show ?thesis by (auto simp: charged_attempt_def)
next
  case (EUnavailable platform)
  with assms show ?thesis
    by (auto simp: on_pairing_def charged_attempt_def PlatformUnavailable_def put_platform_def update_conv' split: option.splits)
next
  case (EBegin cfg env)
  with assms show ?thesis
    by (auto simp: on_pairing_def charged_attempt_def preparePairingCode_def Let_def split_beta split: option.splits)
qed (use assms in \<open>auto simp: on_pairing_def charged_attempt_def forgetCode_def dest!: on_gate_pairing\<close>)



definition witness_pairing :: pairing_service where
  "witness_pairing = put_platform ''slack'' ((new_platform 7 ''T1'')\<lparr>pp_ready := True\<rparr>) (NewPairingService True True)"

definition witness_message :: "string \<Rightarrow> incoming_message" where
  "witness_message body = \<lparr>im_AccountID = ''T1'', im_ChatKind = ''private'', im_ticket = None, im_IMType = ''slack'', im_ChatID = ''C1'',
     im_SenderID = ''U1'', im_SenderName = '''', im_MessageID = ''M1'', im_Text = body, im_ForceText = False, im_AppID = '''',
     im_InternalAction = None\<rparr>"


definition owner_view :: config_view where
  "owner_view = \<lparr>cv_config = witness_config (Some \<lparr>ow_AccountID = ''T1'', ow_UserID = ''U1''\<rparr>), cv_faulted = False\<rparr>"

lemma allowed_authority_witness:
  "\<exists>ad s. IMConfigByType (cv_config owner_view) ''slack'' = Some ad \<and> \<not> cv_faulted owner_view \<and> identified (witness_message ''hi'')
     \<and> map_of (ps_platforms witness_pairing) ''slack'' = Some s \<and> pp_ready s \<and> \<not> pp_changed s \<and> pp_account s = ''T1''
     \<and> (case OwnerIdentity ad of Some ow \<Rightarrow> ow_AccountID ow = ''T1'' \<and> ow_UserID ow = ''U1'' | None \<Rightarrow> False)"
proof -
  have ow: "OwnerIdentity ad \<noteq> None" if "IMConfigByType (cv_config owner_view) ''slack'' = Some ad" for ad
    using that by (auto simp: owner_view_def config_eval text_eval split: if_splits)
  have d: "ar_Disposition (snd (AuthorizeClassified owner_view 8 (witness_message ''hi'') (NewAdmission witness_pairing))) = AdmissionAllowed"
    by (simp add: AuthorizeClassified_def authorizeClassified_def authorize_def authorize_locked_def identified_def owner_view_def
      config_eval text_eval owner_kind_def isBindCommand_def witness_message_def witness_pairing_def NewAdmission_def
      put_platform_def new_platform_def NewPairingService_def admission_gate_def new_gate_def isValidIngressChatKind_def
      sender_ticket_def Install_def Snapshot_def NewChatGate_def NewBindingLease_def get_or_def Let_def zero_ticket_def IsPairingHint_def)
  show ?thesis
    using allowed_authority [OF surjective_pairing d] ow by (fastforce simp: witness_message_def NewAdmission_def split: option.splits)
qed











lemma run_changed:
  assumes "admission_run es a = Some a1" and "map_of (ps_platforms (adm_pairing a)) plat = Some s" and "pp_changed s"
  shows "\<exists>s1. map_of (ps_platforms (adm_pairing a1)) plat = Some s1 \<and> pp_changed s1"
  using assms
proof (induction es arbitrary: a s)
  case (Cons e es)
  then obtain a2 where e: "admission_event_step e a = Some a2" "admission_run es a2 = Some a1"
    by (auto simp: bind_eq_Some_conv)
  from event_platform [OF Cons.prems(2) e(1)] Cons.prems(3) obtain s2 where
    "map_of (ps_platforms (adm_pairing a2)) plat = Some s2" "pp_changed s2" by blast
  with Cons.IH [OF e(2)] show ?case by blast
qed simp

text \<open>Nothing is granted on a platform whose account changed, and no ticket of it holds.\<close>

definition shut_off :: "string \<Rightarrow> admission \<Rightarrow> bool" where
  "shut_off plat a \<longleftrightarrow>
     (\<forall>cv now charge m. im_IMType m = plat \<longrightarrow> \<not> snd (snd (authorize cv now charge m a)))
     \<and> (\<forall>cv now t. Platform (at_Identity t) = plat \<longrightarrow> Valid cv now t a = Some False)"

lemma shut_off_changed:
  assumes "map_of (ps_platforms (adm_pairing a)) plat = Some s" and "pp_changed s"
  shows "shut_off plat a"
proof -
  have "\<not> snd (snd (authorize cv now charge m a))" if "im_IMType m = plat" for cv now charge m
  proof
    assume ok: "snd (snd (authorize cv now charge m a))"
    obtain a1 t where "authorize cv now charge m a = (a1, t, True)" using ok by (metis prod.collapse)
    from authorize_ok [OF this] that assms show False by (auto simp: locked_authority_def)
  qed
  then show ?thesis using assms by (simp add: shut_off_def Valid_def Let_def)
qed

text \<open>
  An account that changes under a running gateway shuts its platform off for good. After
  a connection under another account, no message of that platform is ever authorized and no
  ticket given before holds, whatever the gateway, its configuration and its owner do next.
\<close>

theorem account_change_permanent:
  assumes "map_of (ps_platforms (adm_pairing a)) plat = Some s" and "account \<noteq> ''''" and "pp_account s \<noteq> account"
    and "admission_run (EReady cfg env plat account pres # es) a = Some a1"
  shows "shut_off plat a1"
proof -
  from ready_locked_platform [OF assms(1), of cfg env plat account pres] assms(2,3) obtain s1 where
    "map_of (ps_platforms (fst (ready_locked cfg env plat account pres (adm_pairing a)))) plat = Some s1" "pp_changed s1"
    by blast
  then obtain s2 where "map_of (ps_platforms (adm_pairing a1)) plat = Some s2" "pp_changed s2"
    using run_changed [where plat = plat and s = s1] assms(4) by (fastforce simp: on_pairing_def)
  then show ?thesis by (rule shut_off_changed)
qed

lemma account_change_permanent_witness:
  "\<exists>a1. admission_run [EReady (witness_config None) \<lparr>pe_now = 8, pe_nonce = (zero_nonce, True), pe_id = None\<rparr> ''slack'' ''T2''
      \<lparr>pr_Platform = '''', pr_BotMention = '''', pr_BotUsername = ''''\<rparr>, EUnavailable ''slack''] (NewAdmission witness_pairing) = Some a1
     \<and> shut_off ''slack'' a1"
  using account_change_permanent [where a = "NewAdmission witness_pairing" and plat = "''slack''" and account = "''T2''"
      and s = "(new_platform 7 ''T1'')\<lparr>pp_ready := True\<rparr>" and es = "[EUnavailable ''slack'']"]
  by (simp add: witness_pairing_def NewAdmission_def put_platform_def new_platform_def NewPairingService_def)

end
