(* ===== verification/ControlState.thy ===== *)
theory ControlState
  imports Payloads SessionTransfers
begin

text \<open>
  \<open>ControlState\<close> of \<open>internal/gateway/types.go\<close>: what the gateway knows about a running Chord
  process, and the operations that fold its envelopes into it. Maps and pointers are replaced,
  never mutated, so a copy of the state is the record itself.
\<close>

record control_state =
  st_InputQueue :: "input_queue option"
  st_MCP :: "mcp_status_snapshot option"
  st_BindingInstanceID :: string
  st_Transfer :: "transfer_status option"
  st_SessionID :: string
  st_Busy :: bool
  st_RunningJobs :: int
  st_Phase :: string
  st_PhaseDetail :: string
  st_CurrentRole :: string
  st_PausedInputs :: "paused_inputs option"
  st_SuppressUserNotification :: bool
  st_LastError :: string
  st_LastTransportError :: "transport_error_payload option"
  st_LastOutcome :: string
  st_UpdatedAt :: string
  st_LastEnvelopeSeq :: "64 word"
  st_LastInputResult :: "input_result_payload option"
  st_UnconfirmedInputs :: int
  st_Workdir :: workdir_snapshot
  st_QuestionBindingID :: string
  st_QuestionsNextAfterID :: string
  st_PendingConfirm :: "confirm_payload option"
  st_Questions :: "(string, question_payload) gomap"
  st_PendingHandoff :: "handoff_payload option"
  st_ExpiredConfirm :: "confirm_payload option"
  st_ExpiredHandoff :: "handoff_payload option"
  st_LastConfirmResolved :: "confirm_resolution option"
  st_LastQuestion :: "question_payload option"
  st_Todos :: "todo_item list"
  st_LastAssistantText :: string
  st_LastAssistantToolCalls :: int
  st_LastAssistantAgentID :: string
  st_LastAssistantTaskID :: string
  st_LastAssistantAgentType :: string
  st_LastAssistantParentAgentID :: string
  st_LastAgentStarted :: "agent_started_payload option"
  st_LastAgentNotify :: "agent_notify_payload option"
  st_LastAgentDone :: "agent_done_payload option"
  st_LastLocalShell :: "local_shell_payload option"
  st_LastBackgroundResult :: "background_result_payload option"
  st_LastContextNotice :: "context_notice_payload option"
  st_InternalEventsSinceLastPush :: int
  st_LastPushAt :: gotime
  st_InfoMessage :: string
  st_ToastMessage :: string
  st_ToastLevel :: string
  st_LastNotification :: "notification_payload option"
  st_LastQuestionResolved :: "question_payload option"
  st_LastCompaction :: "compaction_status option"
  st_TurnStartedAt :: gotime
  st_TurnToolCalls :: int
  st_TurnRetries :: int
  st_LastTurnDuration :: duration
  st_LastTurnToolCalls :: int
  st_LastTurnRetries :: int
  st_agentBusy :: bool
  st_PendingLocalShells :: int
  st_LocalShellStartedAt :: gotime

definition zero_state :: control_state where
  "zero_state = \<lparr>st_InputQueue = None, st_MCP = None, st_BindingInstanceID = '''', st_Transfer = None, st_SessionID = '''',
     st_Busy = False, st_RunningJobs = 0, st_Phase = '''', st_PhaseDetail = '''', st_CurrentRole = '''', st_PausedInputs = None,
     st_SuppressUserNotification = False, st_LastError = '''', st_LastTransportError = None, st_LastOutcome = '''',
     st_UpdatedAt = '''', st_LastEnvelopeSeq = 0, st_LastInputResult = None, st_UnconfirmedInputs = 0,
     st_Workdir = \<lparr>wd_Path = '''', wd_WorktreeID = '''', wd_Generation = 0\<rparr>, st_QuestionBindingID = '''',
     st_QuestionsNextAfterID = '''', st_PendingConfirm = None, st_Questions = [], st_PendingHandoff = None,
     st_ExpiredConfirm = None, st_ExpiredHandoff = None, st_LastConfirmResolved = None, st_LastQuestion = None, st_Todos = [],
     st_LastAssistantText = '''', st_LastAssistantToolCalls = 0, st_LastAssistantAgentID = '''', st_LastAssistantTaskID = '''',
     st_LastAssistantAgentType = '''', st_LastAssistantParentAgentID = '''', st_LastAgentStarted = None,
     st_LastAgentNotify = None, st_LastAgentDone = None, st_LastLocalShell = None, st_LastBackgroundResult = None,
     st_LastContextNotice = None, st_InternalEventsSinceLastPush = 0, st_LastPushAt = 0, st_InfoMessage = '''',
     st_ToastMessage = '''', st_ToastLevel = '''', st_LastNotification = None, st_LastQuestionResolved = None,
     st_LastCompaction = None, st_TurnStartedAt = 0, st_TurnToolCalls = 0, st_TurnRetries = 0, st_LastTurnDuration = 0,
     st_LastTurnToolCalls = 0, st_LastTurnRetries = 0, st_agentBusy = False, st_PendingLocalShells = 0,
     st_LocalShellStartedAt = 0\<rparr>"

section \<open>Work and its window\<close>

definition ensureTurnWindow :: "gotime \<Rightarrow> control_state \<Rightarrow> control_state" where
  "ensureTurnWindow now s =
     (if st_TurnStartedAt s = 0 then s\<lparr>st_TurnStartedAt := now, st_TurnToolCalls := 0, st_TurnRetries := 0\<rparr> else s)"

definition setAgentBusy :: "bool \<Rightarrow> control_state \<Rightarrow> control_state" where
  "setAgentBusy busy s = s\<lparr>st_agentBusy := busy, st_Busy := busy \<or> 0 < st_PendingLocalShells s\<rparr>"

definition beginLocalShell :: "gotime \<Rightarrow> control_state \<Rightarrow> control_state" where
  "beginLocalShell now s =
     (let s = (if st_PendingLocalShells s = 0 then s\<lparr>st_agentBusy := st_Busy s, st_LocalShellStartedAt := now\<rparr> else s) in
      s\<lparr>st_PendingLocalShells := st_PendingLocalShells s + 1, st_Busy := True\<rparr>)"

definition finishLocalShell :: "control_state \<Rightarrow> control_state" where
  "finishLocalShell s =
     (if st_PendingLocalShells s = 0 then s
      else let s = s\<lparr>st_PendingLocalShells := st_PendingLocalShells s - 1\<rparr>;
               s = (if st_PendingLocalShells s = 0 then s\<lparr>st_LocalShellStartedAt := 0\<rparr> else s) in
        s\<lparr>st_Busy := st_agentBusy s \<or> 0 < st_PendingLocalShells s\<rparr>)"

definition resetTurnWindow :: "control_state \<Rightarrow> control_state" where
  "resetTurnWindow s = s\<lparr>st_TurnStartedAt := 0, st_TurnToolCalls := 0, st_TurnRetries := 0, st_LastTurnDuration := 0,
     st_LastTurnToolCalls := 0, st_LastTurnRetries := 0\<rparr>"

definition finishTurnWindow :: "gotime \<Rightarrow> control_state \<Rightarrow> control_state" where
  "finishTurnWindow now s =
     (let elapsed = time_sub now (st_TurnStartedAt s);
          d = (if st_TurnStartedAt s \<noteq> 0 \<and> 0 < elapsed then elapsed else 0) in
      s\<lparr>st_LastTurnDuration := d, st_LastTurnToolCalls := st_TurnToolCalls s, st_LastTurnRetries := st_TurnRetries s,
        st_TurnStartedAt := 0, st_TurnToolCalls := 0, st_TurnRetries := 0\<rparr>)"

text \<open>\<open>transitionToIdle\<close> of \<open>process_lifecycle.go\<close>; the second argument is the current time as text.\<close>

definition transitionToIdle :: "string \<Rightarrow> string \<Rightarrow> bool \<Rightarrow> control_state \<Rightarrow> control_state" where
  "transitionToIdle updatedAt nowText expirePending s =
     (let s = (setAgentBusy False s)\<lparr>st_Phase := '''', st_PhaseDetail := ''''\<rparr>;
          s = (if expirePending
               then (resetTurnWindow s)\<lparr>st_ExpiredConfirm := st_PendingConfirm s, st_ExpiredHandoff := st_PendingHandoff s\<rparr>
               else s\<lparr>st_ExpiredConfirm := None, st_ExpiredHandoff := None\<rparr>) in
      s\<lparr>st_PendingConfirm := None, st_PendingHandoff := None, st_LastError := '''',
        st_UpdatedAt := (if trim_space updatedAt = '''' then nowText else updatedAt)\<rparr>)"

section \<open>Interactions\<close>

definition applyPendingConfirm :: "confirm_payload \<Rightarrow> control_state \<Rightarrow> control_state" where
  "applyPendingConfirm c s = s\<lparr>st_PendingConfirm := Some c, st_ExpiredConfirm := None\<rparr>"

definition newerQuestionState :: "question_payload \<Rightarrow> question_payload option \<Rightarrow> bool" where
  "newerQuestionState q old = (case old of None \<Rightarrow> True | Some old \<Rightarrow>
     qp_Version old < qp_Version q
     \<or> qp_Version old = qp_Version q \<and> qp_RevisionResult old = None \<and> qp_RevisionResult q \<noteq> None)"

definition note_question :: "question_payload \<Rightarrow> control_state \<Rightarrow> control_state" where
  "note_question q s =
     (let s = s\<lparr>st_LastQuestion := Some q\<rparr> in
      if qp_Outcome q \<noteq> '''' then s\<lparr>st_LastQuestionResolved := Some q\<rparr> else s)"

definition applyQuestionState :: "question_payload \<Rightarrow> control_state \<Rightarrow> control_state \<times> bool" where
  "applyQuestionState q s =
     (if qp_RequestID q = '''' then (s, False)
      else if \<not> newerQuestionState q (map_of (st_Questions s) (qp_RequestID q)) then (s, False)
      else (note_question q (s\<lparr>st_Questions := AList.update (qp_RequestID q) q (st_Questions s)\<rparr>), True))"

definition open_questions :: "control_state \<Rightarrow> question_payload list" where
  "open_questions s = filter (\<lambda>q. qp_Outcome q = '''') (map snd (st_Questions s))"

definition uniquePendingQuestion :: "control_state \<Rightarrow> question_payload option" where
  "uniquePendingQuestion s = (case open_questions s of [q] \<Rightarrow> Some q | _ \<Rightarrow> None)"

definition pendingQuestionCount :: "control_state \<Rightarrow> nat" where
  "pendingQuestionCount s = length (open_questions s)"

definition questionForNotification :: "control_state \<Rightarrow> question_payload option" where
  "questionForNotification s = (case st_LastQuestion s of Some q \<Rightarrow> Some q | None \<Rightarrow> uniquePendingQuestion s)"

definition applyPendingHandoff :: "handoff_payload \<Rightarrow> control_state \<Rightarrow> control_state" where
  "applyPendingHandoff h s = s\<lparr>st_PendingHandoff := Some h, st_ExpiredHandoff := None\<rparr>"

definition applyHandoffCancelled :: "string \<Rightarrow> control_state \<Rightarrow> control_state \<times> bool" where
  "applyHandoffCancelled requestID s = (case st_PendingHandoff s of
     None \<Rightarrow> (s, False)
   | Some h \<Rightarrow>
       if requestID \<noteq> '''' \<and> requestID \<noteq> hp_RequestID h then (s, False)
       else (s\<lparr>st_ExpiredHandoff := Some h, st_PendingHandoff := None\<rparr>, True))"

text \<open>\<open>applyMCPStatus\<close> of \<open>mcp_status.go\<close>: a newer view of the same binding, or a view of another.\<close>

definition applyMCPStatus :: "mcp_status_snapshot option \<Rightarrow> control_state \<Rightarrow> control_state \<times> bool" where
  "applyMCPStatus snapshot s = (case snapshot of
     None \<Rightarrow> (s, False)
   | Some v \<Rightarrow>
       if mc_SchemaVersion v \<noteq> 1 \<or> mc_BindingID v = '''' then (s, False)
       else case st_MCP s of
         Some old \<Rightarrow>
           if mc_BindingID old = mc_BindingID v \<and> mc_Version v \<le> mc_Version old then (s, False)
           else (s\<lparr>st_MCP := Some v\<rparr>, True)
       | None \<Rightarrow> (s\<lparr>st_MCP := Some v\<rparr>, True))"

section \<open>Snapshots\<close>

record status_response =
  sr_MCP :: "mcp_status_snapshot option"
  sr_InputQueue :: "input_queue option"
  sr_Workspace :: string
  sr_SessionID :: string
  sr_PausedInputs :: "paused_inputs option"
  sr_Busy :: bool
  sr_RunningJobs :: int
  sr_Phase :: string
  sr_PhaseDetail :: string
  sr_CurrentRole :: string
  sr_PendingConfirm :: "confirm_payload option"
  sr_Questions :: "question_payload option list"
  sr_PendingHandoff :: "handoff_payload option"
  sr_LastError :: string
  sr_LastOutcome :: string
  sr_UpdatedAt :: string
  sr_Workdir :: "workdir_snapshot option"
  sr_QuestionBindingID :: string
  sr_QuestionsNextAfterID :: string

text \<open>The loop over the questions of a snapshot.\<close>

definition merge_question :: "question_payload option \<Rightarrow> control_state \<Rightarrow> control_state" where
  "merge_question q s = (case q of None \<Rightarrow> s | Some q \<Rightarrow> fst (applyQuestionState q s))"

definition applyStatusResponse :: "status_response \<Rightarrow> control_state \<Rightarrow> control_state" where
  "applyStatusResponse resp s =
     (let switched = st_SessionID s \<noteq> sr_SessionID resp;
          s = (if switched then s\<lparr>st_MCP := None, st_Questions := [], st_LastQuestion := None, st_LastQuestionResolved := None\<rparr> else s);
          s = (if sr_CurrentRole resp \<noteq> '''' \<and> sr_CurrentRole resp \<noteq> st_CurrentRole s then s\<lparr>st_MCP := None\<rparr> else s);
          s = fst (applyMCPStatus (sr_MCP resp) s);
          s = (if switched \<or> sr_PausedInputs resp \<noteq> None then s\<lparr>st_PausedInputs := sr_PausedInputs resp\<rparr> else s);
          s = setAgentBusy (sr_Busy resp) (s\<lparr>st_SessionID := sr_SessionID resp\<rparr>);
          s = s\<lparr>st_RunningJobs := sr_RunningJobs resp, st_Phase := sr_Phase resp, st_PhaseDetail := sr_PhaseDetail resp\<rparr>;
          s = (if sr_CurrentRole resp \<noteq> '''' then s\<lparr>st_CurrentRole := sr_CurrentRole resp\<rparr> else s);
          s = fold merge_question (sr_Questions resp) (s\<lparr>st_PendingConfirm := sr_PendingConfirm resp\<rparr>);
          s = s\<lparr>st_PendingHandoff := sr_PendingHandoff resp\<rparr>;
          s = (if sr_PendingConfirm resp \<noteq> None \<or> 0 < pendingQuestionCount s \<or> sr_PendingHandoff resp \<noteq> None
               then s\<lparr>st_ExpiredConfirm := None, st_ExpiredHandoff := None\<rparr> else s);
          s = s\<lparr>st_LastError := sr_LastError resp, st_UpdatedAt := sr_UpdatedAt resp, st_LastOutcome := sr_LastOutcome resp\<rparr>;
          s = (case sr_Workdir resp of Some w \<Rightarrow> s\<lparr>st_Workdir := w\<rparr> | None \<Rightarrow> s);
          s = (if sr_QuestionBindingID resp \<noteq> '''' then s\<lparr>st_QuestionBindingID := sr_QuestionBindingID resp\<rparr> else s) in
      s\<lparr>st_QuestionsNextAfterID := sr_QuestionsNextAfterID resp\<rparr>)"

section \<open>Busy is the agent or a shell\<close>

text \<open>
  The two sources of work are kept apart: the process is busy exactly while the agent is, or a
  shell command has not been answered. Every operation of the state keeps this.
\<close>

definition busy_ok :: "control_state \<Rightarrow> bool" where
  "busy_ok s \<longleftrightarrow> 0 \<le> st_PendingLocalShells s \<and> (st_Busy s \<longleftrightarrow> st_agentBusy s \<or> 0 < st_PendingLocalShells s)"

lemma busy_ok_zero: "busy_ok zero_state"
  by (simp add: busy_ok_def zero_state_def)

lemma busy_ok_shell: "busy_ok s \<Longrightarrow> busy_ok (beginLocalShell now s)" "busy_ok s \<Longrightarrow> busy_ok (finishLocalShell s)"
  by (auto simp: busy_ok_def beginLocalShell_def finishLocalShell_def Let_def)

lemma busy_ok_agent: "busy_ok s \<Longrightarrow> busy_ok (setAgentBusy busy s)"
  by (auto simp: busy_ok_def setAgentBusy_def)

lemma busy_ok_window: "busy_ok (ensureTurnWindow now s) = busy_ok s" "busy_ok (resetTurnWindow s) = busy_ok s"
    "busy_ok (finishTurnWindow now s) = busy_ok s"
  by (simp_all add: busy_ok_def ensureTurnWindow_def resetTurnWindow_def finishTurnWindow_def Let_def)

lemma busy_ok_idle: "busy_ok s \<Longrightarrow> busy_ok (transitionToIdle updatedAt nowText expire s)"
  by (auto simp: busy_ok_def transitionToIdle_def setAgentBusy_def resetTurnWindow_def Let_def)

text \<open>Merging questions touches three fields.\<close>

definition questions_only :: "control_state \<Rightarrow> control_state \<Rightarrow> bool" where
  "questions_only s s1 \<longleftrightarrow> (\<exists>a b c. s1 = s\<lparr>st_Questions := a, st_LastQuestion := b, st_LastQuestionResolved := c\<rparr>)"

lemma questions_only_refl: "questions_only s s"
  unfolding questions_only_def
  by (rule exI [of _ "st_Questions s"], rule exI [of _ "st_LastQuestion s"], rule exI [of _ "st_LastQuestionResolved s"]) simp

lemma questions_only_trans:
  assumes "questions_only s s1" and "questions_only s1 s2"
  shows "questions_only s s2"
proof -
  obtain a b c where 1: "s1 = s\<lparr>st_Questions := a, st_LastQuestion := b, st_LastQuestionResolved := c\<rparr>"
    using assms(1) unfolding questions_only_def by blast
  obtain d e f where 2: "s2 = s1\<lparr>st_Questions := d, st_LastQuestion := e, st_LastQuestionResolved := f\<rparr>"
    using assms(2) unfolding questions_only_def by blast
  have "s2 = s\<lparr>st_Questions := d, st_LastQuestion := e, st_LastQuestionResolved := f\<rparr>" unfolding 2 1 by simp
  then show ?thesis unfolding questions_only_def by blast
qed

lemma questions_only_apply: "questions_only s (fst (applyQuestionState q s))"
proof (cases "qp_RequestID q = '''' \<or> \<not> newerQuestionState q (map_of (st_Questions s) (qp_RequestID q))")
  case True
  then show ?thesis by (auto simp: applyQuestionState_def questions_only_refl)
next
  case False
  let ?qs = "AList.update (qp_RequestID q) q (st_Questions s)"
  from False have "fst (applyQuestionState q s) = s\<lparr>st_Questions := ?qs, st_LastQuestion := Some q,
      st_LastQuestionResolved := (if qp_Outcome q \<noteq> '''' then Some q else st_LastQuestionResolved s)\<rparr>"
    by (simp add: applyQuestionState_def note_question_def Let_def)
  then show ?thesis unfolding questions_only_def by blast
qed

lemma questions_only_merge: "questions_only s (fold merge_question qs s)"
proof (induction qs arbitrary: s)
  case (Cons q qs)
  have "questions_only s (merge_question q s)"
    by (cases q) (simp_all add: merge_question_def questions_only_refl questions_only_apply)
  with Cons.IH [of "merge_question q s"] show ?case by (simp add: questions_only_trans)
qed (simp add: questions_only_refl)

lemma applyMCPStatus_frame: "fst (applyMCPStatus v s) = s\<lparr>st_MCP := st_MCP (fst (applyMCPStatus v s))\<rparr>"
  by (auto simp: applyMCPStatus_def split: option.splits)

section \<open>Questions never go back\<close>

text \<open>What merging keeps of a question that is known: no version is replaced by an older one.\<close>

definition question_no_older :: "string \<Rightarrow> control_state \<Rightarrow> control_state \<Rightarrow> bool" where
  "question_no_older i s s1 \<longleftrightarrow>
     (\<forall>q. map_of (st_Questions s) i = Some q \<longrightarrow>
        (\<exists>q1. map_of (st_Questions s1) i = Some q1 \<and> (q1 = q \<or> newerQuestionState q1 (Some q))))"

lemma newer_trans: "newerQuestionState c (Some b) \<Longrightarrow> newerQuestionState b (Some a) \<Longrightarrow> newerQuestionState c (Some a)"
  by (auto simp: newerQuestionState_def)

lemma newer_irrefl: "\<not> newerQuestionState q (Some q)"
  by (auto simp: newerQuestionState_def)

lemma question_no_older_refl [simp]: "question_no_older i s s"
  by (simp add: question_no_older_def)

lemma question_no_older_trans: "question_no_older i s s1 \<Longrightarrow> question_no_older i s1 s2 \<Longrightarrow> question_no_older i s s2"
  unfolding question_no_older_def using newer_trans by fast

lemma applyQuestionState_no_older: "question_no_older i s (fst (applyQuestionState q s))"
  by (auto simp: question_no_older_def applyQuestionState_def note_question_def Let_def update_conv')

lemma merge_questions_no_older: "question_no_older i s (fold merge_question qs s)"
proof (induction qs arbitrary: s)
  case (Cons q qs)
  have "question_no_older i s (merge_question q s)"
    by (cases q) (simp_all add: merge_question_def applyQuestionState_no_older)
  with Cons.IH [of "merge_question q s"] show ?case by (simp add: question_no_older_trans)
qed simp

section \<open>A snapshot as a whole\<close>

lemma merged_questions_busy: "busy_ok (fold merge_question qs s) = busy_ok s"
  using questions_only_merge [of s qs] by (auto simp: questions_only_def busy_ok_def)

lemma mcp_busy: "busy_ok (fst (applyMCPStatus v s)) = busy_ok s"
  by (subst applyMCPStatus_frame) (simp add: busy_ok_def)

lemma busy_ok_snapshot:
  assumes "busy_ok s"
  shows "busy_ok (applyStatusResponse resp s)"
proof -
  have up: "busy_ok (t\<lparr>st_MCP := v1\<rparr>) = busy_ok t" "busy_ok (t\<lparr>st_PausedInputs := v2\<rparr>) = busy_ok t"
    "busy_ok (t\<lparr>st_PendingHandoff := v3\<rparr>) = busy_ok t" "busy_ok (t\<lparr>st_Workdir := v4\<rparr>) = busy_ok t"
    "busy_ok (t\<lparr>st_QuestionBindingID := v5\<rparr>) = busy_ok t" "busy_ok (t\<lparr>st_QuestionsNextAfterID := v6\<rparr>) = busy_ok t"
    "busy_ok (t\<lparr>st_CurrentRole := v7\<rparr>) = busy_ok t" "busy_ok (t\<lparr>st_PendingConfirm := v8\<rparr>) = busy_ok t"
    "busy_ok (t\<lparr>st_ExpiredConfirm := v9, st_ExpiredHandoff := v10\<rparr>) = busy_ok t"
    "busy_ok (t\<lparr>st_LastError := w1, st_UpdatedAt := w2, st_LastOutcome := w3\<rparr>) = busy_ok t"
    "busy_ok (t\<lparr>st_RunningJobs := w4, st_Phase := w5, st_PhaseDetail := w6\<rparr>) = busy_ok t"
    "busy_ok (t\<lparr>st_SessionID := w7\<rparr>) = busy_ok t"
    "busy_ok (t\<lparr>st_MCP := v1, st_Questions := w8, st_LastQuestion := w9, st_LastQuestionResolved := x1\<rparr>) = busy_ok t"
    for t v1 v2 v3 v4 v5 v6 v7 v8 v9 v10 w1 w2 w3 w4 w5 w6 w7 w8 w9 x1
    by (simp_all add: busy_ok_def)
  have i: "busy_ok (if c then x else y) = (if c then busy_ok x else busy_ok y)" for c x y by simp
  have o': "busy_ok (case w of None \<Rightarrow> x | Some v \<Rightarrow> f v) = (case w of None \<Rightarrow> busy_ok x | Some v \<Rightarrow> busy_ok (f v))" for w :: "workdir_snapshot option" and x f
    by (cases w) simp_all
  show ?thesis
    unfolding applyStatusResponse_def Let_def up i o' merged_questions_busy
    by (cases "sr_Workdir resp") (simp_all only: up i mcp_busy merged_questions_busy option.case if_True if_False assms busy_ok_agent if_cancel)
qed

end
