(* ===== verification/ProcessInputs.thy ===== *)
theory ProcessInputs
  imports ControlState Commands TextSplit
begin

text \<open>
  A Chord process as the gateway keeps it, and the inputs it has been given:
  \<open>process_input.go\<close>, \<open>process_input_observer.go\<close>, \<open>process_input_queue.go\<close> and
  \<open>process_paused_inputs.go\<close> of \<open>internal/gateway\<close>. Everything here runs under the mutex of the
  process, so each operation is a step; the writer of the child's standard input, the clock and
  the outcome of a receipt's callback are parameters.
\<close>

section \<open>The process\<close>

record process_input_receipt =
  pr_RequestID :: string
  pr_RuntimeID :: string
  pr_SessionID :: string
  pr_SessionEpoch :: "64 word"
  pr_Status :: string
  pr_StatusMessage :: string

record input_observer =
  ob_receipt :: process_input_receipt
  ob_timerStopped :: bool
  ob_version :: "64 word"
  ob_queued :: bool
  ob_unconfirmed :: bool

text \<open>
  The worker that applies receipts has taken one when \<open>px_flight\<close> names it, with the copy of
  the receipt and the version it was taken at. A waiter is the number of its channel; a
  question waiter also notes whether its channel is full.
\<close>

record chord_process =
  px_bindingInstanceID :: string
  px_runtimeID :: string
  px_sessionEpoch :: "64 word"
  px_workspacePath :: string
  px_transfer :: "transfer_status option"
  px_restoringTransferID :: string
  px_bindingGuard :: bool
  px_expectedSessionID :: string
  px_readyPaused :: bool
  px_readyClosed :: bool
  px_stdin :: bool
  px_leaseCancelled :: bool
  px_shuttingDown :: bool
  px_exited :: bool
  px_stoppedByGateway :: bool
  px_autoRestart :: bool
  px_key :: string
  px_state :: control_state
  px_lastActivity :: gotime
  px_compactionPlanID :: string
  px_pendingInputs :: "string list"
  px_inputObservers :: "(string, input_observer) gomap"
  px_inputReceiptQueue :: "string list"
  px_inputReceiptWorker :: bool
  px_inputReceiptBlocked :: bool
  px_inputReceiptShutdown :: bool
  px_flight :: "(string \<times> process_input_receipt \<times> 64 word) option"
  px_questionEventVersions :: "(string, 64 word) gomap"
  px_lastMCPNotification :: string
  px_mcpNotified :: bool
  px_statusWaiters :: "nat list"
  px_roleWaiters :: "nat list"
  px_modelsWaiters :: "(string, nat) gomap"
  px_queueWaiters :: "(string, nat) gomap"
  px_confirmRuleWaiters :: "(string, nat) gomap"
  px_questionWaiters :: "(string, bool) gomap"

abbreviation on_state :: "(control_state \<Rightarrow> control_state) \<Rightarrow> chord_process \<Rightarrow> chord_process" where
  "on_state f p \<equiv> p\<lparr>px_state := f (px_state p)\<rparr>"

definition maxPendingInputs :: nat where "maxPendingInputs = 128"

text \<open>\<open>inputBlockedLocked\<close> and \<open>commandAllowedLocked\<close> of \<open>process_takeover.go\<close>.\<close>

definition inputBlocked :: "chord_process \<Rightarrow> bool" where
  "inputBlocked p \<longleftrightarrow> px_bindingGuard p \<or> px_transfer p \<noteq> None \<or> px_restoringTransferID p \<noteq> ''''"

definition commandAllowed :: "string \<Rightarrow> string \<Rightarrow> string \<Rightarrow> chord_process \<Rightarrow> bool" where
  "commandAllowed typ requestID action p \<longleftrightarrow>
     (if \<not> inputBlocked p then True
      else if typ \<in> {''status'', ''subscribe'', ''session_transfer_prepared'', ''cancel''} then True
      else if typ = ''question'' then
        px_restoringTransferID p = '''' \<and>
        (case map_of (st_Questions (px_state p)) requestID of None \<Rightarrow> False | Some q \<Rightarrow> qp_Outcome q = '''')
        \<and> action \<in> {''answer'', ''interact'', ''presented''}
      else False)"

text \<open>\<open>isDoneTool\<close> of \<open>router_format.go\<close>.\<close>

definition isDoneTool :: "string \<Rightarrow> bool" where
  "isDoneTool toolName \<longleftrightarrow> equal_fold (trim_space toolName) ''Done''"

section \<open>Receipts\<close>

definition InputReceiptIdentity :: "chord_process \<Rightarrow> process_input_receipt" where
  "InputReceiptIdentity p = \<lparr>pr_RequestID = '''', pr_RuntimeID = px_runtimeID p, pr_SessionID = st_SessionID (px_state p),
     pr_SessionEpoch = px_sessionEpoch p, pr_Status = '''', pr_StatusMessage = ''''\<rparr>"

definition inputObserverMatches :: "input_observer \<Rightarrow> chord_process \<Rightarrow> bool" where
  "inputObserverMatches ob p \<longleftrightarrow> pr_RuntimeID (ob_receipt ob) = px_runtimeID p
     \<and> pr_SessionID (ob_receipt ob) = st_SessionID (px_state p) \<and> pr_SessionEpoch (ob_receipt ob) = px_sessionEpoch p"

definition startInputReceiptWorker :: "chord_process \<Rightarrow> chord_process" where
  "startInputReceiptWorker p =
     (if px_inputReceiptWorker p \<or> px_inputReceiptQueue p = [] then p else p\<lparr>px_inputReceiptWorker := True\<rparr>)"

text \<open>Messages are cut at 512 bytes, at a boundary of runes.\<close>

definition receipt_message :: "string \<Rightarrow> string" where
  "receipt_message m = trimIMTextBytes m 512"

definition backpressure :: string where
  "backpressure = ''input_receipt_backpressure: receipt application unavailable''"

definition put_observer :: "string \<Rightarrow> input_observer \<Rightarrow> chord_process \<Rightarrow> chord_process" where
  "put_observer i ob p = p\<lparr>px_inputObservers := AList.update i ob (px_inputObservers p)\<rparr>"

definition queueInputReceipt :: "string \<Rightarrow> string \<Rightarrow> string \<Rightarrow> chord_process \<Rightarrow> chord_process" where
  "queueInputReceipt i status message p = (case map_of (px_inputObservers p) i of
     None \<Rightarrow> p
   | Some ob \<Rightarrow>
       if px_inputReceiptShutdown p then p
       else if pr_Status (ob_receipt ob) \<noteq> '''' \<and> pr_Status (ob_receipt ob) \<noteq> ''unknown'' then p
       else let fresh = status = ''unknown'' \<and> \<not> ob_unconfirmed ob;
                p = (if fresh then on_state (\<lambda>s. s\<lparr>st_UnconfirmedInputs := st_UnconfirmedInputs s + 1\<rparr>) p else p);
                ob = ob\<lparr>ob_unconfirmed := ob_unconfirmed ob \<or> fresh, ob_version := ob_version ob + 1,
                  ob_receipt := (ob_receipt ob)\<lparr>pr_Status := status, pr_StatusMessage := receipt_message message\<rparr>\<rparr> in
         if ob_queued ob then startInputReceiptWorker (put_observer i ob p)
         else if maxPendingInputs \<le> length (px_inputReceiptQueue p)
         then on_state (\<lambda>s. s\<lparr>st_LastError := backpressure\<rparr>) ((put_observer i ob p)\<lparr>px_inputReceiptBlocked := True\<rparr>)
         else startInputReceiptWorker
           ((put_observer i (ob\<lparr>ob_queued := True\<rparr>) p)\<lparr>px_inputReceiptQueue := px_inputReceiptQueue p @ [i]\<rparr>))"

datatype input_error =
    EmptyRequestID | ReceiptBackpressure | AlreadyPending | DonePending | IdentityChanged | ReceiptResolved
  | SessionTransferred | ClosedPipe | TooManyInputs | LeaseCancelled | WriteFailed | InvalidObserver | ShuttingDown
  | AlreadyObserved

text \<open>\<open>ObserveInputReceipt\<close>; the expected identity is the one dispatching was recorded with.\<close>

definition ObserveInputReceipt :: "string \<Rightarrow> process_input_receipt option \<Rightarrow> chord_process \<Rightarrow> chord_process \<times> input_error option" where
  "ObserveInputReceipt requestID expected p =
     (let now = InputReceiptIdentity p in
      if (case expected of None \<Rightarrow> False | Some r \<Rightarrow>
          pr_RuntimeID r \<noteq> pr_RuntimeID now \<or> pr_SessionID r \<noteq> pr_SessionID now \<or> pr_SessionEpoch r \<noteq> pr_SessionEpoch now)
      then (p, Some IdentityChanged)
      else if requestID = '''' then (p, Some InvalidObserver)
      else if px_shuttingDown p then (p, Some ShuttingDown)
      else if px_inputReceiptShutdown p \<or> px_inputReceiptBlocked p \<or> maxPendingInputs \<le> length (px_inputObservers p)
      then (p, Some ReceiptBackpressure)
      else if map_of (px_inputObservers p) requestID \<noteq> None then (p, Some AlreadyObserved)
      else (put_observer requestID \<lparr>ob_receipt = now\<lparr>pr_RequestID := requestID\<rparr>, ob_timerStopped = False, ob_version = 0,
          ob_queued = False, ob_unconfirmed = False\<rparr> p, None))"

text \<open>The timer of an observer, when it fires and has the lock.\<close>

definition receipt_timeout :: "string \<Rightarrow> chord_process \<Rightarrow> chord_process" where
  "receipt_timeout i p = queueInputReceipt i ''unknown'' ''receipt_timeout'' p"

definition observeInputResult :: "input_result_payload \<Rightarrow> chord_process \<Rightarrow> chord_process \<times> bool" where
  "observeInputResult r p = (case map_of (px_inputObservers p) (ip_RequestID r) of
     None \<Rightarrow> (p, False)
   | Some ob \<Rightarrow>
       if \<not> inputObserverMatches ob p then (p, False)
       else (queueInputReceipt (ip_RequestID r) (ip_Status r) (ip_Message r) p, True))"

text \<open>
  \<open>flushInputReceipts\<close>: the worker takes the head of the queue, applies it with the lock free,
  and settles it. \<open>worker_take\<close> is \<open>None\<close> where the code would dereference a missing observer.
\<close>

definition worker_take :: "chord_process \<Rightarrow> chord_process option" where
  "worker_take p = (case px_inputReceiptQueue p of
     [] \<Rightarrow> Some (p\<lparr>px_inputReceiptWorker := False, px_inputReceiptBlocked := False\<rparr>)
   | i # is \<Rightarrow> map_option (\<lambda>ob. p\<lparr>px_flight := Some (i, ob_receipt ob, ob_version ob)\<rparr>) (map_of (px_inputObservers p) i))"

definition settle_receipt :: "string \<Rightarrow> process_input_receipt \<Rightarrow> input_observer \<Rightarrow> chord_process \<Rightarrow> chord_process" where
  "settle_receipt i r ob p =
     (let p = p\<lparr>px_inputReceiptQueue := tl (px_inputReceiptQueue p)\<rparr> in
      if pr_Status r \<noteq> ''unknown'' then
        (let p = (if ob_unconfirmed ob \<and> 0 < st_UnconfirmedInputs (px_state p)
                  then on_state (\<lambda>s. s\<lparr>st_UnconfirmedInputs := st_UnconfirmedInputs s - 1\<rparr>) p else p) in
         p\<lparr>px_pendingInputs := set_del i (px_pendingInputs p), px_inputObservers := AList.delete i (px_inputObservers p)\<rparr>)
      else put_observer i (ob\<lparr>ob_queued := False, ob_timerStopped := True\<rparr>) p)"

definition worker_settle :: "bool \<Rightarrow> chord_process \<Rightarrow> chord_process option" where
  "worker_settle applied p = (case px_flight p of
     None \<Rightarrow> Some p
   | Some (i, r, v) \<Rightarrow>
       (let p = p\<lparr>px_flight := None\<rparr> in
        if \<not> applied
        then Some (on_state (\<lambda>s. s\<lparr>st_LastError := backpressure\<rparr>) (p\<lparr>px_inputReceiptBlocked := True, px_inputReceiptWorker := False\<rparr>))
        else case map_of (px_inputObservers p) i of
          None \<Rightarrow> None
        | Some ob \<Rightarrow> if ob_version ob \<noteq> v then Some p else Some (settle_receipt i r ob p)))"

text \<open>One process of \<open>WaitInputReceiptsShutdown\<close>.\<close>

definition stop_timer :: "string \<Rightarrow> chord_process \<Rightarrow> chord_process" where
  "stop_timer i p = (case map_of (px_inputObservers p) i of
     None \<Rightarrow> p | Some ob \<Rightarrow> put_observer i (ob\<lparr>ob_timerStopped := True\<rparr>) p)"

definition seal_receipts :: "chord_process \<Rightarrow> chord_process" where
  "seal_receipts p =
     (let p = fold (\<lambda>i p. queueInputReceipt i ''unknown'' ''gateway_shutdown'' (stop_timer i p)) (map fst (px_inputObservers p)) p in
      startInputReceiptWorker (p\<lparr>px_inputReceiptShutdown := True\<rparr>))"

section \<open>Sending\<close>

text \<open>\<open>writeCommandLocked\<close>, given whether the write of the whole line succeeded.\<close>

definition writeCommand :: "bool \<Rightarrow> chord_process \<Rightarrow> input_error option" where
  "writeCommand written p =
     (if px_leaseCancelled p then Some LeaseCancelled
      else if \<not> px_stdin p then Some ClosedPipe
      else if \<not> written then Some WriteFailed else None)"

definition SendUserMessageWithRequestID :: "bool \<Rightarrow> string \<Rightarrow> chord_process \<Rightarrow> chord_process \<times> input_error option" where
  "SendUserMessageWithRequestID written requestID p =
     (let observer = map_of (px_inputObservers p) requestID;
          refused = (case observer of None \<Rightarrow> None | Some ob \<Rightarrow>
            if (case st_PendingConfirm (px_state p) of None \<Rightarrow> False | Some c \<Rightarrow> isDoneTool (cp_ToolName c)) then Some DonePending
            else if \<not> inputObserverMatches ob p then Some IdentityChanged
            else if pr_Status (ob_receipt ob) \<noteq> '''' then Some ReceiptResolved else None) in
      if requestID = '''' then (p, Some EmptyRequestID)
      else if px_inputReceiptBlocked p then (p, Some ReceiptBackpressure)
      else if requestID \<in> set (px_pendingInputs p) then (p, Some AlreadyPending)
      else if refused \<noteq> None then (p, refused)
      else if inputBlocked p then (p, Some SessionTransferred)
      else if \<not> px_stdin p then (p, Some ClosedPipe)
      else if maxPendingInputs \<le> length (px_pendingInputs p) then (p, Some TooManyInputs)
      else let p1 = p\<lparr>px_pendingInputs := set_add requestID (px_pendingInputs p)\<rparr> in
        case writeCommand written p1 of
          None \<Rightarrow> (p1, None)
        | Some err \<Rightarrow>
            ((if observer = None then p1\<lparr>px_pendingInputs := set_del requestID (px_pendingInputs p1)\<rparr>
              else queueInputReceipt requestID ''unknown'' ''delivery_outcome_unknown'' p1), Some err))"

text \<open>
  \<open>applyInputResult\<close>, for a payload that decoded. The flag says that the state changed in a way
  the router hears of.
\<close>

definition input_statuses :: "string list" where
  "input_statuses = [''handled'', ''queued'', ''started'', ''rejected'', ''unknown'']"

definition note_started :: "gotime \<Rightarrow> control_state \<Rightarrow> control_state" where
  "note_started now s =
     ensureTurnWindow now ((setAgentBusy True s)\<lparr>st_LastPushAt := now, st_InternalEventsSinceLastPush := 0\<rparr>)"

definition foreign_target :: "input_queue_target option \<Rightarrow> chord_process \<Rightarrow> bool" where
  "foreign_target t p \<longleftrightarrow> (case t of None \<Rightarrow> False | Some t \<Rightarrow>
     iq_RuntimeID t \<noteq> px_runtimeID p \<or> iq_SessionID t \<noteq> st_SessionID (px_state p) \<or> iq_SessionEpoch t \<noteq> px_sessionEpoch p)"

definition applyInputResult :: "64 word \<Rightarrow> gotime \<Rightarrow> input_result_payload \<Rightarrow> chord_process \<Rightarrow> chord_process \<times> bool" where
  "applyInputResult seq now r p =
     (if foreign_target (ip_Target r) p then (p, False)
      else if ip_Status r \<notin> set input_statuses then (p, False)
      else if (case map_of (px_inputObservers p) (ip_RequestID r) of None \<Rightarrow> False | Some ob \<Rightarrow> \<not> inputObserverMatches ob p)
      then (p, False)
      else let (p, observed) = observeInputResult r p in
        if ip_RequestID r \<notin> set (px_pendingInputs p) \<and> \<not> observed then (p, False)
        else let p = (if observed then p else p\<lparr>px_pendingInputs := set_del (ip_RequestID r) (px_pendingInputs p)\<rparr>) in
          if ip_Status r = ''unknown'' then
            (let p = (if observed then p else on_state (\<lambda>s. s\<lparr>st_UnconfirmedInputs := st_UnconfirmedInputs s + 1\<rparr>) p) in
             (on_state (\<lambda>s. s\<lparr>st_LastInputResult := Some r\<rparr>) p, True))
          else if seq < st_LastEnvelopeSeq (px_state p) then (p, False)
          else let p = on_state (\<lambda>s. s\<lparr>st_LastInputResult := Some r\<rparr>) p in
            ((if ip_Status r = ''started'' then on_state (note_started now) p else p), True))"

text \<open>\<open>abandonPendingInputs\<close>: the child is gone.\<close>

definition abandon_input :: "string \<Rightarrow> chord_process \<Rightarrow> chord_process" where
  "abandon_input i p =
     (if map_of (px_inputObservers p) i = None
      then (on_state (\<lambda>s. s\<lparr>st_UnconfirmedInputs := st_UnconfirmedInputs s + 1\<rparr>) p)\<lparr>px_pendingInputs := set_del i (px_pendingInputs p)\<rparr>
      else queueInputReceipt i ''unknown'' ''process_exited'' p)"

definition abandonPendingInputs :: "chord_process \<Rightarrow> chord_process" where
  "abandonPendingInputs p = fold abandon_input (px_pendingInputs p) p"

section \<open>The projected queue\<close>

definition inputQueueTargetMatches :: "input_queue_target \<Rightarrow> chord_process \<Rightarrow> bool" where
  "inputQueueTargetMatches t p \<longleftrightarrow> iq_RuntimeID t = px_runtimeID p \<and> iq_SessionID t = st_SessionID (px_state p)
     \<and> iq_SessionEpoch t = px_sessionEpoch p \<and> iq_OwnerTaskID t = ''main''"

definition inputQueueTargetSnapshot :: "chord_process \<Rightarrow> input_queue_target option" where
  "inputQueueTargetSnapshot p = (case st_InputQueue (px_state p) of
     None \<Rightarrow> None
   | Some q \<Rightarrow> if inputQueueTargetMatches (iq_Target q) p then Some (iq_Target q) else None)"

definition validPausedInputID :: "string \<Rightarrow> bool" where
  "validPausedInputID i \<longleftrightarrow> i \<noteq> '''' \<and> length i \<le> 128 \<and> list_all (\<lambda>p. \<not> is_control (fst p) \<and> \<not> is_space (fst p)) (runes i)"

definition valid_queue_item :: "input_queue_item \<Rightarrow> bool" where
  "valid_queue_item i \<longleftrightarrow> validPausedInputID (ii_InputID i) \<and> ii_Revision i \<noteq> 0 \<and> 0 < ii_Sequence i \<and> 0 \<le> ii_Attachments i
     \<and> rune_count (ii_Preview i) \<le> 160 \<and> ii_Policy i \<in> {''next_request'', ''after_completion''}
     \<and> ii_Stage i \<in> {''queued'', ''claimed'', ''started''}"

fun valid_queue_items :: "string list \<Rightarrow> input_queue_item list \<Rightarrow> bool" where
  "valid_queue_items seen [] = True"
| "valid_queue_items seen (i # is) =
     (if \<not> validPausedInputID (ii_InputID i) \<or> ii_InputID i \<in> set seen \<or> \<not> valid_queue_item i then False
      else valid_queue_items (ii_InputID i # seen) is)"

definition same_session :: "input_queue_target \<Rightarrow> input_queue_target \<Rightarrow> bool" where
  "same_session a b \<longleftrightarrow> iq_RuntimeID a = iq_RuntimeID b \<and> iq_SessionID a = iq_SessionID b \<and> iq_SessionEpoch a = iq_SessionEpoch b"

definition applyInputQueue :: "input_queue option \<Rightarrow> chord_process \<Rightarrow> chord_process \<times> bool" where
  "applyInputQueue q p = (case q of None \<Rightarrow> (p, False) | Some q \<Rightarrow>
     if \<not> inputQueueTargetMatches (iq_Target q) p \<or> 128 < length (iq_Inputs q) \<or> iq_ViewVersion q = 0 then (p, False)
     else if (case st_InputQueue (px_state p) of None \<Rightarrow> False | Some old \<Rightarrow>
         same_session (iq_Target old) (iq_Target q) \<and> iq_ViewVersion q \<le> iq_ViewVersion old) then (p, False)
     else if \<not> valid_queue_items [] (iq_Inputs q) then (p, False)
     else (on_state (\<lambda>s. s\<lparr>st_InputQueue := Some q\<rparr>) p, True))"

text \<open>\<open>hasGuardedInputsLocked\<close> and \<open>guardedInputError\<close>: evidence that must not be discarded.\<close>

definition hasGuardedInputs :: "chord_process \<Rightarrow> bool" where
  "hasGuardedInputs p \<longleftrightarrow>
     (let s = px_state p in
      px_pendingInputs p \<noteq> [] \<or> st_UnconfirmedInputs s \<noteq> 0
      \<or> (case st_PausedInputs s of None \<Rightarrow> False | Some v \<Rightarrow> pi_PendingInputCount v \<noteq> 0)
      \<or> (case st_InputQueue s of None \<Rightarrow> False | Some q \<Rightarrow> iq_Inputs q \<noteq> [] \<or> iq_Blocked q \<noteq> ''''))"

text \<open>\<open>refreshPendingInputStatus\<close>: when an all-owner projection must be read first.\<close>

definition needsInputRefresh :: "chord_process \<Rightarrow> bool" where
  "needsInputRefresh p \<longleftrightarrow> \<not> st_Busy (px_state p) \<and>
     (case st_PausedInputs (px_state p) of None \<Rightarrow> False | Some v \<Rightarrow> 0 < pi_PendingInputCount v)"

end
