(* ===== verification/ProcessReceipts.thy ===== *)
theory ProcessReceipts
  imports ProcessInputs
begin

text \<open>
  Receipts of inputs as a state machine: what the process keeps between an input it wrote and
  the confirmation of what became of it, under every interleaving of the sender, the reader of
  the child's output, the timers, the worker and shutdown.
\<close>

section \<open>The invariant\<close>

abbreviation unconfirmed_observers :: "chord_process \<Rightarrow> int" where
  "unconfirmed_observers p \<equiv> gsum (\<lambda>ob. of_bool (ob_unconfirmed ob)) (px_inputObservers p)"

definition queued_ok :: "(string, input_observer) gomap \<Rightarrow> string list \<Rightarrow> bool" where
  "queued_ok obs q \<longleftrightarrow> distinct q \<and> (\<forall>i. i \<in> set q \<longleftrightarrow> (\<exists>ob. map_of obs i = Some ob \<and> ob_queued ob))"

definition receipts_ok :: "chord_process \<Rightarrow> bool" where
  "receipts_ok p \<longleftrightarrow> wf_map (px_inputObservers p) \<and> queued_ok (px_inputObservers p) (px_inputReceiptQueue p)
     \<and> length (px_inputReceiptQueue p) \<le> maxPendingInputs \<and> length (px_inputObservers p) \<le> maxPendingInputs
     \<and> distinct (px_pendingInputs p) \<and> length (px_pendingInputs p) \<le> maxPendingInputs
     \<and> (\<forall>i r v. px_flight p = Some (i, r, v) \<longrightarrow> px_inputReceiptWorker p \<and> (\<exists>q. px_inputReceiptQueue p = i # q))
     \<and> (px_inputReceiptQueue p \<noteq> [] \<longrightarrow> px_inputReceiptWorker p \<or> px_inputReceiptBlocked p)
     \<and> unconfirmed_observers p \<le> st_UnconfirmedInputs (px_state p)"

lemma receipts_okD:
  assumes "receipts_ok p"
  shows "wf_map (px_inputObservers p)" and "queued_ok (px_inputObservers p) (px_inputReceiptQueue p)"
    and "unconfirmed_observers p \<le> st_UnconfirmedInputs (px_state p)"
  using assms by (simp_all add: receipts_ok_def)

lemma unconfirmed_nonneg: "0 \<le> unconfirmed_observers p"
  by (rule gsum_nonneg) simp

lemma queued_ok_flag:
  assumes "queued_ok obs q" and "map_of obs i = Some ob" and "ob_queued ob1 = ob_queued ob"
  shows "queued_ok (AList.update i ob1 obs) q"
  using assms by (auto simp: queued_ok_def)

lemma queued_ok_enqueue:
  assumes "queued_ok obs q" and "map_of obs i = Some ob" and "\<not> ob_queued ob" and "ob_queued ob1"
  shows "queued_ok (AList.update i ob1 obs) (q @ [i])"
  using assms by (auto simp: queued_ok_def)

lemma queued_ok_drop:
  assumes "queued_ok obs (i # q)" and "\<not> ob_queued ob1"
  shows "queued_ok (AList.update i ob1 obs) q" and "queued_ok (AList.delete i obs) q"
  using assms by (auto simp: queued_ok_def)

lemma queued_ok_head: "queued_ok obs (i # q) \<Longrightarrow> \<exists>ob. map_of obs i = Some ob"
  unfolding queued_ok_def by (meson list.set_intros(1))

lemma start_worker_ok:
  assumes "wf_map (px_inputObservers p)" and "queued_ok (px_inputObservers p) (px_inputReceiptQueue p)"
    and "length (px_inputReceiptQueue p) \<le> maxPendingInputs" and "length (px_inputObservers p) \<le> maxPendingInputs"
    and "distinct (px_pendingInputs p)" and "length (px_pendingInputs p) \<le> maxPendingInputs"
    and "\<forall>i r v. px_flight p = Some (i, r, v) \<longrightarrow> px_inputReceiptWorker p \<and> (\<exists>q. px_inputReceiptQueue p = i # q)"
    and "unconfirmed_observers p \<le> st_UnconfirmedInputs (px_state p)"
  shows "receipts_ok (startInputReceiptWorker p)"
  using assms by (auto simp: receipts_ok_def startInputReceiptWorker_def)

lemma length_put_known: "map_of m i = Some v \<Longrightarrow> length (AList.update i w m) = length m"
  by (simp add: length_update)

text \<open>The heart of it: noting what became of an input.\<close>

lemma queueInputReceipt_ok:
  assumes ok: "receipts_ok p"
  shows "receipts_ok (queueInputReceipt i status message p)"
proof (cases "\<exists>ob. map_of (px_inputObservers p) i = Some ob \<and> \<not> px_inputReceiptShutdown p
    \<and> (pr_Status (ob_receipt ob) = '''' \<or> pr_Status (ob_receipt ob) = ''unknown'')")
  case False
  then have "queueInputReceipt i status message p = p" by (auto simp: queueInputReceipt_def split: option.splits)
  with ok show ?thesis by simp
next
  case True
  then obtain ob where ob: "map_of (px_inputObservers p) i = Some ob" "\<not> px_inputReceiptShutdown p"
    "pr_Status (ob_receipt ob) = '''' \<or> pr_Status (ob_receipt ob) = ''unknown''" by blast
  define fresh where "fresh = (status = ''unknown'' \<and> \<not> ob_unconfirmed ob)"
  define p1 where "p1 = (if fresh then on_state (\<lambda>s. s\<lparr>st_UnconfirmedInputs := st_UnconfirmedInputs s + 1\<rparr>) p else p)"
  define ob1 where "ob1 = ob\<lparr>ob_unconfirmed := ob_unconfirmed ob \<or> fresh, ob_version := ob_version ob + 1,
      ob_receipt := (ob_receipt ob)\<lparr>pr_Status := status, pr_StatusMessage := receipt_message message\<rparr>\<rparr>"
  have eq: "queueInputReceipt i status message p =
      (if ob_queued ob then startInputReceiptWorker (put_observer i ob1 p1)
       else if maxPendingInputs \<le> length (px_inputReceiptQueue p)
       then on_state (\<lambda>s. s\<lparr>st_LastError := backpressure\<rparr>) ((put_observer i ob1 p1)\<lparr>px_inputReceiptBlocked := True\<rparr>)
       else startInputReceiptWorker
         ((put_observer i (ob1\<lparr>ob_queued := True\<rparr>) p1)\<lparr>px_inputReceiptQueue := px_inputReceiptQueue p @ [i]\<rparr>))"
    using ob by (auto simp: queueInputReceipt_def Let_def p1_def ob1_def fresh_def)
  have same: "px_inputObservers p1 = px_inputObservers p" "px_inputReceiptQueue p1 = px_inputReceiptQueue p"
    "px_pendingInputs p1 = px_pendingInputs p" "px_flight p1 = px_flight p" "px_inputReceiptWorker p1 = px_inputReceiptWorker p"
    "px_inputReceiptBlocked p1 = px_inputReceiptBlocked p"
    "st_UnconfirmedInputs (px_state p1) = st_UnconfirmedInputs (px_state p) + of_bool fresh"
    by (simp_all add: p1_def)
  have flag: "ob_queued ob1 = ob_queued ob" by (simp add: ob1_def)
  have count: "gsum (\<lambda>ob. of_bool (ob_unconfirmed ob)) (AList.update i ob2 (px_inputObservers p))
      \<le> st_UnconfirmedInputs (px_state p) + of_bool fresh"
    if "ob_unconfirmed ob2 = ob_unconfirmed ob1" for ob2
    using receipts_okD(3) [OF ok] ob(1) that by (auto simp: gsum_update ob1_def fresh_def)
  note counts = count [of ob1, OF refl] count [of "ob1\<lparr>ob_queued := True\<rparr>", simplified]
  note len = length_put_known [OF ob(1)]
  note known = ok [unfolded receipts_ok_def]
  have keep: "\<And>q. (\<forall>i r v. px_flight p = Some (i, r, v) \<longrightarrow> px_inputReceiptWorker p \<and> (\<exists>q'. px_inputReceiptQueue p = i # q')) \<Longrightarrow>
      \<forall>i r v. px_flight p = Some (i, r, v) \<longrightarrow> px_inputReceiptWorker p \<and> (\<exists>q'. px_inputReceiptQueue p @ q = i # q')"
    by fastforce
  show ?thesis
  proof (cases "ob_queued ob")
    case True
    then have "queueInputReceipt i status message p = startInputReceiptWorker (put_observer i ob1 p1)" by (simp add: eq)
    moreover have "receipts_ok (startInputReceiptWorker (put_observer i ob1 p1))"
      using known counts(1) len queued_ok_flag [OF _ ob(1) flag]
      by (intro start_worker_ok) (simp_all add: put_observer_def same gm.wf_put)
    ultimately show ?thesis by simp
  next
    case nq: False
    show ?thesis
    proof (cases "maxPendingInputs \<le> length (px_inputReceiptQueue p)")
      case True
      then have "queueInputReceipt i status message p = on_state (\<lambda>s. s\<lparr>st_LastError := backpressure\<rparr>) ((put_observer i ob1 p1)\<lparr>px_inputReceiptBlocked := True\<rparr>)"
        using nq by (simp add: eq)
      moreover have "receipts_ok (on_state (\<lambda>s. s\<lparr>st_LastError := backpressure\<rparr>) ((put_observer i ob1 p1)\<lparr>px_inputReceiptBlocked := True\<rparr>))"
        using known counts(1) len queued_ok_flag [OF _ ob(1) flag]
        by (simp add: receipts_ok_def put_observer_def same gm.wf_put)
      ultimately show ?thesis by simp
    next
      case False
      let ?p = "(put_observer i (ob1\<lparr>ob_queued := True\<rparr>) p1)\<lparr>px_inputReceiptQueue := px_inputReceiptQueue p @ [i]\<rparr>"
      have "queueInputReceipt i status message p = startInputReceiptWorker ?p" using nq False by (simp add: eq)
      moreover have "receipts_ok (startInputReceiptWorker ?p)"
        using known counts(2) len queued_ok_enqueue [OF _ ob(1) nq, of _ "ob1\<lparr>ob_queued := True\<rparr>"] False keep [of "[i]"]
        by (intro start_worker_ok) (simp_all add: put_observer_def same gm.wf_put)
      ultimately show ?thesis by simp
    qed
  qed
qed

section \<open>Every operation keeps it\<close>

lemma receipts_ok_state:
  "st_UnconfirmedInputs (f (px_state p)) = st_UnconfirmedInputs (px_state p) \<Longrightarrow> receipts_ok (on_state f p) = receipts_ok p"
  by (simp add: receipts_ok_def)

lemma receipts_ok_more:
  "receipts_ok p \<Longrightarrow> receipts_ok (on_state (\<lambda>s. s\<lparr>st_UnconfirmedInputs := st_UnconfirmedInputs s + 1\<rparr>) p)"
  by (auto simp: receipts_ok_def)

lemma receipts_ok_del: "receipts_ok p \<Longrightarrow> receipts_ok (p\<lparr>px_pendingInputs := set_del i (px_pendingInputs p)\<rparr>)"
  by (auto simp: receipts_ok_def set_del_def distinct_removeAll intro: order_trans [OF length_removeAll_less_eq])

lemma receipts_ok_add:
  "receipts_ok p \<Longrightarrow> length (px_pendingInputs p) < maxPendingInputs \<Longrightarrow> receipts_ok (p\<lparr>px_pendingInputs := set_add i (px_pendingInputs p)\<rparr>)"
  by (auto simp: receipts_ok_def set_add_def List.insert_def)

lemma ObserveInputReceipt_ok:
  assumes "receipts_ok p"
  shows "receipts_ok (fst (ObserveInputReceipt i expected p))"
proof -
  have "receipts_ok (put_observer i ob p)"
    if "map_of (px_inputObservers p) i = None" and "length (px_inputObservers p) < maxPendingInputs"
      and "\<not> ob_queued ob" and "\<not> ob_unconfirmed ob" for ob
    using assms that by (auto simp: receipts_ok_def put_observer_def gsum_update queued_ok_def length_update gm.wf_put)
  then show ?thesis using assms by (simp add: ObserveInputReceipt_def Let_def)
qed

lemma SendUserMessage_ok:
  assumes ok: "receipts_ok p"
  shows "receipts_ok (fst (SendUserMessageWithRequestID written i p))"
proof (cases "length (px_pendingInputs p) < maxPendingInputs")
  case True
  note add = receipts_ok_add [OF ok True, of i]
  show ?thesis
    using ok add receipts_ok_del [OF add, of i] queueInputReceipt_ok [OF add, of i]
    by (auto simp: SendUserMessageWithRequestID_def Let_def split: option.split)
next
  case False
  then show ?thesis using ok by (auto simp: SendUserMessageWithRequestID_def Let_def)
qed

lemma applyInputResult_ok:
  assumes ok: "receipts_ok p"
  shows "receipts_ok (fst (applyInputResult seq now r p))"
proof -
  have obs: "receipts_ok (fst (observeInputResult r p))"
    using ok by (auto simp: observeInputResult_def queueInputReceipt_ok split: option.split)
  note del = receipts_ok_del [OF obs, of "ip_RequestID r"]
  have st: "st_UnconfirmedInputs (note_started now s) = st_UnconfirmedInputs s" for s
    by (simp add: note_started_def ensureTurnWindow_def setAgentBusy_def)
  have upd: "receipts_ok (q\<lparr>px_state := (px_state q)\<lparr>st_LastInputResult := Some r\<rparr>\<rparr>)" if "receipts_ok q" for q
    using receipts_ok_state [of "\<lambda>s. s\<lparr>st_LastInputResult := Some r\<rparr>" q] that by simp
  have upd2: "receipts_ok (q\<lparr>px_state := note_started now ((px_state q)\<lparr>st_LastInputResult := Some r\<rparr>)\<rparr>)" if "receipts_ok q" for q
    using receipts_ok_state [of "\<lambda>s. note_started now (s\<lparr>st_LastInputResult := Some r\<rparr>)" q] that by (simp add: st)
  show ?thesis
    using ok obs del upd [OF obs] upd [OF del] upd2 [OF obs] upd2 [OF del] receipts_ok_more [OF del, THEN upd]
    by (simp add: applyInputResult_def Let_def split_beta)
qed

lemma abandon_ok:
  assumes "receipts_ok p"
  shows "receipts_ok (abandonPendingInputs p)"
proof -
  have step: "receipts_ok (abandon_input i q)" if "receipts_ok q" for i q
    using receipts_ok_del [OF receipts_ok_more [OF that], of i] queueInputReceipt_ok [OF that]
    by (simp add: abandon_input_def)
  have "receipts_ok q \<Longrightarrow> receipts_ok (fold abandon_input is q)" for "is" q
    by (induction "is" arbitrary: q) (simp_all add: step)
  then show ?thesis using assms by (simp add: abandonPendingInputs_def)
qed

lemma seal_ok:
  assumes ok: "receipts_ok p"
  shows "receipts_ok (seal_receipts p)"
proof -
  have stop: "receipts_ok (stop_timer i q)" if "receipts_ok q" for i q
    using that queued_ok_flag [of "px_inputObservers q" "px_inputReceiptQueue q" i]
    by (auto simp: stop_timer_def receipts_ok_def put_observer_def gsum_update length_update gm.wf_put split: option.split)
  have step: "receipts_ok (queueInputReceipt i ''unknown'' m (stop_timer i q))" if "receipts_ok q" for i m q
    by (rule queueInputReceipt_ok [OF stop [OF that]])
  have "receipts_ok q \<Longrightarrow> receipts_ok (fold (\<lambda>i p. queueInputReceipt i ''unknown'' ''gateway_shutdown'' (stop_timer i p)) is q)" for "is" q
    by (induction "is" arbitrary: q) (simp_all add: step)
  from this [OF ok, of "map fst (px_inputObservers p)"] show ?thesis
    unfolding seal_receipts_def Let_def by (intro start_worker_ok) (simp_all add: receipts_ok_def)
qed

lemma worker_take_ok:
  assumes ok: "receipts_ok p" and "px_inputReceiptWorker p" and "px_flight p = None"
  shows "\<exists>p1. worker_take p = Some p1 \<and> receipts_ok p1"
proof (cases "px_inputReceiptQueue p")
  case Nil
  with ok show ?thesis using assms(3) by (auto simp: worker_take_def receipts_ok_def)
next
  case (Cons i q)
  then obtain ob where "map_of (px_inputObservers p) i = Some ob"
    using receipts_okD(2) [OF ok] queued_ok_head by fastforce
  with Cons ok assms(2) show ?thesis by (auto simp: worker_take_def receipts_ok_def)
qed

lemma settle_ok:
  assumes ok: "receipts_ok p" and q: "px_inputReceiptQueue p = i # q" and ob: "map_of (px_inputObservers p) i = Some ob"
    and w: "px_inputReceiptWorker p" and f: "px_flight p = None"
  shows "receipts_ok (settle_receipt i r ob p)"
proof -
  note known = ok [unfolded receipts_ok_def q]
  have qd: "queued_ok (px_inputObservers p) (i # q)" and wf: "wf_map (px_inputObservers p)" using known by auto
  have len: "length (AList.delete i (px_inputObservers p)) \<le> length (px_inputObservers p)"
    using length_delete_wf [of "px_inputObservers p" i] wf by (simp add: wf_map_def)
  show ?thesis
  proof (cases "pr_Status r = ''unknown''")
    case True
    then show ?thesis
      using known q w f len queued_ok_drop(1) [OF qd, of "ob\<lparr>ob_queued := False, ob_timerStopped := True\<rparr>"] ob
      by (auto simp: settle_receipt_def Let_def receipts_ok_def put_observer_def gsum_update length_update gm.wf_put)
  next
    case False
    have c: "gsum (\<lambda>ob. of_bool (ob_unconfirmed ob)) (AList.delete i (px_inputObservers p)) = unconfirmed_observers p - of_bool (ob_unconfirmed ob)"
      using gsum_delete [OF wf, of "\<lambda>ob. of_bool (ob_unconfirmed ob)" i] ob by simp
    have pend: "length (set_del i (px_pendingInputs p)) \<le> maxPendingInputs"
      using known by (auto simp: set_del_def intro: order_trans [OF length_removeAll_less_eq])
    have nn: "0 \<le> gsum (\<lambda>ob. of_bool (ob_unconfirmed ob)) (AList.delete i (px_inputObservers p))"
      by (rule gsum_nonneg) simp
    show ?thesis
      using False known q w f len queued_ok_drop(2) [OF qd, of "ob\<lparr>ob_queued := False\<rparr>"] pend c nn
      by (auto simp: settle_receipt_def Let_def receipts_ok_def gm.wf_del)
  qed
qed

lemma worker_settle_ok:
  assumes ok: "receipts_ok p"
  shows "\<exists>p1. worker_settle applied p = Some p1 \<and> receipts_ok p1"
proof (cases "px_flight p")
  case None
  with ok show ?thesis by (simp add: worker_settle_def)
next
  case (Some f)
  obtain i r v where f: "px_flight p = Some (i, r, v)" using Some by (cases f) auto
  let ?p = "p\<lparr>px_flight := None\<rparr>"
  obtain q where q: "px_inputReceiptQueue p = i # q" "px_inputReceiptWorker p" using ok f by (auto simp: receipts_ok_def)
  then obtain ob where ob: "map_of (px_inputObservers p) i = Some ob" using receipts_okD(2) [OF ok] queued_ok_head by fastforce
  have ok1: "receipts_ok ?p" using ok by (auto simp: receipts_ok_def)
  show ?thesis
  proof (cases applied)
    case True
    with f ob ok1 settle_ok [OF ok1, of i q ob r] q show ?thesis by (auto simp: worker_settle_def Let_def)
  next
    case False
    have "receipts_ok (on_state (\<lambda>s. s\<lparr>st_LastError := backpressure\<rparr>) (?p\<lparr>px_inputReceiptBlocked := True, px_inputReceiptWorker := False\<rparr>))"
      using ok by (simp add: receipts_ok_def)
    with False f show ?thesis by (simp add: worker_settle_def)
  qed
qed

section \<open>Histories\<close>

text \<open>
  What can happen to the inputs of a process, each under its lock. The worker takes only when
  it runs and holds nothing; a switch of session changes the identity later receipts are
  compared with.
\<close>

datatype input_event =
    IObserve string "process_input_receipt option"
  | ISend bool string
  | IResult "64 word" gotime input_result_payload
  | ITimeout string
  | ITake
  | ISettle bool
  | ISeal
  | IExit
  | IIdentity string string "64 word"
  | IQueue "input_queue option"

fun input_step :: "input_event \<Rightarrow> chord_process \<Rightarrow> chord_process option" where
  "input_step (IObserve i expected) p = Some (fst (ObserveInputReceipt i expected p))"
| "input_step (ISend written i) p = Some (fst (SendUserMessageWithRequestID written i p))"
| "input_step (IResult seq now r) p = Some (fst (applyInputResult seq now r p))"
| "input_step (ITimeout i) p = Some (receipt_timeout i p)"
| "input_step ITake p = (if px_inputReceiptWorker p \<and> px_flight p = None then worker_take p else Some p)"
| "input_step (ISettle applied) p = worker_settle applied p"
| "input_step ISeal p = Some (seal_receipts p)"
| "input_step IExit p = Some (abandonPendingInputs p)"
| "input_step (IIdentity runtime session epoch) p =
     Some (on_state (\<lambda>s. s\<lparr>st_SessionID := session\<rparr>) (p\<lparr>px_runtimeID := runtime, px_sessionEpoch := epoch\<rparr>))"
| "input_step (IQueue q) p = Some (fst (applyInputQueue q p))"

fun input_run :: "input_event list \<Rightarrow> chord_process \<Rightarrow> chord_process option" where
  "input_run [] p = Some p"
| "input_run (e # es) p = Option.bind (input_step e p) (input_run es)"

lemma applyInputQueue_frame:
  "fst (applyInputQueue q p) = on_state (\<lambda>s. s\<lparr>st_InputQueue := st_InputQueue (px_state (fst (applyInputQueue q p)))\<rparr>) p"
  by (simp add: applyInputQueue_def split: option.split)

lemma input_step_ok:
  assumes "receipts_ok p"
  shows "\<exists>p1. input_step e p = Some p1 \<and> receipts_ok p1"
proof (cases e)
  case ITake
  with assms worker_take_ok [OF assms] show ?thesis by auto
next
  case (ISettle applied)
  with worker_settle_ok [OF assms] show ?thesis by simp
next
  case (IQueue q)
  have "receipts_ok (fst (applyInputQueue q p))"
    by (subst applyInputQueue_frame) (use assms in \<open>simp add: receipts_ok_def\<close>)
  with IQueue show ?thesis by simp
next
  case (IIdentity runtime session epoch)
  with assms show ?thesis by (simp add: receipts_ok_def)
qed (use assms in \<open>simp_all add: ObserveInputReceipt_ok SendUserMessage_ok applyInputResult_ok abandon_ok seal_ok
        queueInputReceipt_ok receipt_timeout_def\<close>)

text \<open>
  No history of a process, whatever its interleaving, makes the worker dereference an
  observer that is gone, and in every state the books balance: at most 128 inputs, observers
  and receipts, each queued receipt once and with its observer, a worker running whenever
  receipts are queued unless one could not be applied, and every input whose outcome is
  unknown counted.
\<close>

theorem receipts_never_panic:
  assumes "receipts_ok p"
  shows "\<exists>p1. input_run es p = Some p1 \<and> receipts_ok p1"
  using assms
proof (induction es arbitrary: p)
  case (Cons e es)
  from input_step_ok [OF Cons.prems, of e] obtain p2 where "input_step e p = Some p2" "receipts_ok p2" by blast
  with Cons.IH show ?case by simp
qed simp

definition new_process :: chord_process where
  "new_process = \<lparr>px_bindingInstanceID = '''', px_runtimeID = ''R1'', px_sessionEpoch = 1, px_workspacePath = ''/srv'', px_transfer = None,
     px_restoringTransferID = '''', px_bindingGuard = False, px_expectedSessionID = '''', px_readyPaused = False, px_readyClosed = False,
     px_stdin = True, px_leaseCancelled = False, px_shuttingDown = False, px_exited = False, px_stoppedByGateway = False,
     px_autoRestart = False, px_key = '''',
     px_state = zero_state\<lparr>st_SessionID := ''S1''\<rparr>, px_lastActivity = 0, px_compactionPlanID = '''', px_pendingInputs = [],
     px_inputObservers = [], px_inputReceiptQueue = [], px_inputReceiptWorker = False, px_inputReceiptBlocked = False,
     px_inputReceiptShutdown = False, px_flight = None, px_questionEventVersions = [], px_lastMCPNotification = '''',
     px_mcpNotified = False, px_statusWaiters = [], px_roleWaiters = [], px_modelsWaiters = [], px_queueWaiters = [],
     px_confirmRuleWaiters = [], px_questionWaiters = []\<rparr>"

lemma new_process_ok: "receipts_ok new_process"
  by (simp add: new_process_def zero_state_def receipts_ok_def queued_ok_def maxPendingInputs_def)

theorem receipts_never_panic_witness:
  "\<exists>p1. input_run [IObserve ''a'' None, ISend True ''a'', ITimeout ''a'', ITake, IExit, ISettle True, ITake, ISettle True] new_process
     = Some p1 \<and> receipts_ok p1"
  by (rule receipts_never_panic [OF new_process_ok])

section \<open>Evidence is not lost\<close>

text \<open>
  The inputs whose unknown outcome nobody waits for any more: what is counted beyond the
  observers. No operation makes it smaller.
\<close>

definition lost_outcomes :: "chord_process \<Rightarrow> int" where
  "lost_outcomes p = st_UnconfirmedInputs (px_state p) - unconfirmed_observers p"

lemma queueInputReceipt_evidence:
  "lost_outcomes (queueInputReceipt i status message p) = lost_outcomes p"
  "px_pendingInputs (queueInputReceipt i status message p) = px_pendingInputs p"
  by (auto simp: queueInputReceipt_def startInputReceiptWorker_def put_observer_def lost_outcomes_def gsum_update Let_def
      split: option.split)

lemma stop_timer_evidence: "lost_outcomes (stop_timer i p) = lost_outcomes p" "px_pendingInputs (stop_timer i p) = px_pendingInputs p"
  by (auto simp: stop_timer_def put_observer_def lost_outcomes_def gsum_update split: option.split)

lemma seal_evidence: "lost_outcomes (seal_receipts p) = lost_outcomes p" "px_pendingInputs (seal_receipts p) = px_pendingInputs p"
proof -
  have f: "lost_outcomes (fold (\<lambda>i p. queueInputReceipt i ''unknown'' m (stop_timer i p)) is q) = lost_outcomes q
      \<and> px_pendingInputs (fold (\<lambda>i p. queueInputReceipt i ''unknown'' m (stop_timer i p)) is q) = px_pendingInputs q" for "is" m q
    by (induction "is" arbitrary: q) (simp_all add: queueInputReceipt_evidence stop_timer_evidence)
  have u: "lost_outcomes (q\<lparr>px_inputReceiptShutdown := True\<rparr>) = lost_outcomes q" "lost_outcomes (startInputReceiptWorker q) = lost_outcomes q"
    "px_pendingInputs (startInputReceiptWorker q) = px_pendingInputs q" for q
    by (simp_all add: lost_outcomes_def startInputReceiptWorker_def)
  show "lost_outcomes (seal_receipts p) = lost_outcomes p" "px_pendingInputs (seal_receipts p) = px_pendingInputs p"
    by (simp_all add: seal_receipts_def Let_def u f)
qed

lemma abandon_input_evidence:
  "lost_outcomes p \<le> lost_outcomes (abandon_input i p)"
  "j \<in> set (px_pendingInputs p) \<Longrightarrow> j \<notin> set (px_pendingInputs (abandon_input i p)) \<Longrightarrow> lost_outcomes p < lost_outcomes (abandon_input i p)"
  by (simp_all add: abandon_input_def queueInputReceipt_evidence split: if_splits) (simp_all add: lost_outcomes_def)

lemma abandon_evidence:
  "lost_outcomes p \<le> lost_outcomes (abandonPendingInputs p)
   \<and> (j \<in> set (px_pendingInputs p) \<longrightarrow> j \<in> set (px_pendingInputs (abandonPendingInputs p)) \<or> lost_outcomes p < lost_outcomes (abandonPendingInputs p))"
proof -
  have "lost_outcomes q \<le> lost_outcomes (fold abandon_input is q)
      \<and> (j \<in> set (px_pendingInputs q) \<longrightarrow> j \<in> set (px_pendingInputs (fold abandon_input is q)) \<or> lost_outcomes q < lost_outcomes (fold abandon_input is q))" for "is" q
  proof (induction "is" arbitrary: q)
    case (Cons i "is")
    show ?case
      using Cons [of "abandon_input i q"] abandon_input_evidence(1) [of q i] abandon_input_evidence(2) [of j q i] by fastforce
  qed simp
  then show ?thesis by (simp add: abandonPendingInputs_def)
qed

definition answered :: "string \<Rightarrow> input_event \<Rightarrow> chord_process \<Rightarrow> bool" where
  "answered i e p = (case e of
     ISettle applied \<Rightarrow> applied \<and> (case px_flight p of None \<Rightarrow> False | Some (j, r, v) \<Rightarrow> j = i \<and> pr_Status r \<noteq> ''unknown'')
   | IResult seq now r \<Rightarrow> ip_RequestID r = i \<and> ip_Status r \<noteq> ''unknown'' \<and> map_of (px_inputObservers p) i = None
   | _ \<Rightarrow> False)"

fun answered_in :: "string \<Rightarrow> input_event list \<Rightarrow> chord_process \<Rightarrow> bool" where
  "answered_in i [] p = False"
| "answered_in i (e # es) p = (answered i e p \<or> (case input_step e p of None \<Rightarrow> False | Some p1 \<Rightarrow> answered_in i es p1))"

definition evident :: "string \<Rightarrow> chord_process \<Rightarrow> bool" where
  "evident i p \<longleftrightarrow> i \<in> set (px_pendingInputs p) \<or> 0 < lost_outcomes p"

definition keeps_evidence :: "string \<Rightarrow> chord_process \<Rightarrow> chord_process \<Rightarrow> bool" where
  "keeps_evidence i p p1 \<longleftrightarrow> lost_outcomes p \<le> lost_outcomes p1
     \<and> (i \<in> set (px_pendingInputs p) \<longrightarrow> i \<in> set (px_pendingInputs p1) \<or> lost_outcomes p < lost_outcomes p1)"

lemma send_evidence: "keeps_evidence i p (fst (SendUserMessageWithRequestID written j p))"
  by (auto simp: keeps_evidence_def SendUserMessageWithRequestID_def Let_def queueInputReceipt_evidence split: option.split)
    (auto simp: lost_outcomes_def)

lemma result_evidence:
  assumes "\<not> answered i (IResult seq now r) p"
  shows "keeps_evidence i p (fst (applyInputResult seq now r p))"
proof -
  have st: "st_UnconfirmedInputs (note_started now s) = st_UnconfirmedInputs s" for s
    by (simp add: note_started_def ensureTurnWindow_def setAgentBusy_def)
  have lost: "lost_outcomes (q\<lparr>px_state := s\<rparr>) = lost_outcomes q + (st_UnconfirmedInputs s - st_UnconfirmedInputs (px_state q))"
    "lost_outcomes (q\<lparr>px_pendingInputs := v\<rparr>) = lost_outcomes q" for s q v by (simp_all add: lost_outcomes_def)
  have obs: "lost_outcomes (fst (observeInputResult r p)) = lost_outcomes p" "px_pendingInputs (fst (observeInputResult r p)) = px_pendingInputs p"
    by (simp_all add: observeInputResult_def queueInputReceipt_evidence split: option.split)
  have un: "map_of (px_inputObservers p) (ip_RequestID r) = None" if "\<not> snd (observeInputResult r p)"
      "\<not> (case map_of (px_inputObservers p) (ip_RequestID r) of None \<Rightarrow> False | Some ob \<Rightarrow> \<not> inputObserverMatches ob p)"
    using that by (auto simp: observeInputResult_def split: option.splits if_splits)
  show ?thesis
    using assms un
    by (auto simp: keeps_evidence_def applyInputResult_def answered_def Let_def split_beta lost obs st)
qed

lemma settle_evidence:
  assumes ok: "receipts_ok p" and "\<not> answered i (ISettle applied) p" and "worker_settle applied p = Some p1"
  shows "keeps_evidence i p p1"
proof (cases "px_flight p")
  case None
  with assms show ?thesis by (simp add: worker_settle_def keeps_evidence_def)
next
  case (Some f)
  obtain j r v where f: "px_flight p = Some (j, r, v)" using Some by (cases f) auto
  have plain: "lost_outcomes (q\<lparr>px_state := s\<rparr>) = lost_outcomes q + (st_UnconfirmedInputs s - st_UnconfirmedInputs (px_state q))"
    "lost_outcomes (q\<lparr>px_flight := w\<rparr>) = lost_outcomes q" "lost_outcomes (q\<lparr>px_inputReceiptBlocked := b\<rparr>) = lost_outcomes q"
    "lost_outcomes (q\<lparr>px_inputReceiptWorker := b\<rparr>) = lost_outcomes q" "lost_outcomes (q\<lparr>px_pendingInputs := ps\<rparr>) = lost_outcomes q"
    "lost_outcomes (q\<lparr>px_inputReceiptQueue := ps\<rparr>) = lost_outcomes q" for q s w b ps
    by (simp_all add: lost_outcomes_def)
  show ?thesis
  proof (cases applied)
    case False
    with assms(3) f show ?thesis by (auto simp: worker_settle_def Let_def keeps_evidence_def plain)
  next
    case True
    let ?p = "p\<lparr>px_flight := None\<rparr>"
    obtain ob where ob: "map_of (px_inputObservers p) j = Some ob" "p1 = ?p \<or> p1 = settle_receipt j r ob ?p"
      using assms(3) f True by (auto simp: worker_settle_def Let_def split: option.splits if_splits)
    have wf: "wf_map (px_inputObservers p)" using ok by (simp add: receipts_ok_def)
    have pos: "ob_unconfirmed ob \<Longrightarrow> 0 < st_UnconfirmedInputs (px_state p)"
      using receipts_okD(3) [OF ok] gsum_delete [OF wf, of "\<lambda>ob. of_bool (ob_unconfirmed ob)" j] ob(1)
        gsum_nonneg [of "AList.delete j (px_inputObservers p)" "\<lambda>ob. of_bool (ob_unconfirmed ob) :: int"] by simp
    have "lost_outcomes (settle_receipt j r ob ?p) = lost_outcomes p"
      using ob(1) pos wf
      by (auto simp: settle_receipt_def Let_def put_observer_def lost_outcomes_def gsum_update gsum_delete)
    moreover have "i \<in> set (px_pendingInputs p) \<Longrightarrow> i \<in> set (px_pendingInputs (settle_receipt j r ob ?p))"
      using assms(2) f True by (auto simp: settle_receipt_def Let_def put_observer_def answered_def)
    ultimately show ?thesis using ob(2) by (auto simp: keeps_evidence_def plain)
  qed
qed

lemma step_evidence:
  assumes ok: "receipts_ok p" and "\<not> answered i e p" and e: "input_step e p = Some p1"
  shows "keeps_evidence i p p1"
proof (cases e)
  case (IObserve j expected)
  have "lost_outcomes (put_observer j ob p) = lost_outcomes p" if "map_of (px_inputObservers p) j = None" "\<not> ob_unconfirmed ob" for ob
    using that by (simp add: lost_outcomes_def put_observer_def gsum_update)
  with IObserve e show ?thesis by (auto simp: keeps_evidence_def ObserveInputReceipt_def put_observer_def Let_def)
next
  case (ISend written j)
  with e send_evidence show ?thesis by auto
next
  case (IResult seq now r)
  with e assms(2) result_evidence show ?thesis by auto
next
  case ITake
  with e show ?thesis
    by (auto simp: keeps_evidence_def worker_take_def lost_outcomes_def split: if_splits list.splits)
next
  case (ISettle applied)
  with e assms settle_evidence show ?thesis by auto
next
  case (IQueue q)
  with e applyInputQueue_frame [of q p] show ?thesis by (auto simp: keeps_evidence_def lost_outcomes_def applyInputQueue_def split: option.splits)
next
  case IExit
  with e abandon_evidence show ?thesis by (auto simp: keeps_evidence_def)
qed (use e in \<open>auto simp: keeps_evidence_def receipt_timeout_def queueInputReceipt_evidence seal_evidence\<close>, (auto simp: lost_outcomes_def)?)

text \<open>
  C16: An input that was written leaves its mark until Chord says what became of it. From the
  moment an input is pending, and as long as neither its receipt was applied with a definite
  status nor a definite result arrived for it, the process reports inputs that must not be
  discarded: timeouts, failed writes, a dead child, a shutdown and other inputs' answers never
  clear it.
\<close>

theorem input_evidence_kept:
  assumes "receipts_ok p" and "i \<in> set (px_pendingInputs p)" and "\<not> answered_in i es p" and "input_run es p = Some p1"
  shows "hasGuardedInputs p1"
proof -
  have nn: "0 \<le> lost_outcomes q" if "receipts_ok q" for q using receipts_okD(3) [OF that] by (simp add: lost_outcomes_def)
  have "evident i q \<Longrightarrow> receipts_ok q \<Longrightarrow> \<not> answered_in i fs q \<Longrightarrow> input_run fs q = Some q1 \<Longrightarrow> evident i q1 \<and> receipts_ok q1" for fs q q1
  proof (induction fs arbitrary: q)
    case (Cons f fs)
    obtain q2 where q2: "input_step f q = Some q2" "receipts_ok q2" using input_step_ok [OF Cons.prems(2)] by blast
    have "keeps_evidence i q q2" using step_evidence [OF Cons.prems(2) _ q2(1)] Cons.prems(3) by auto
    then have "evident i q2" using Cons.prems(1) nn [OF Cons.prems(2)] by (auto simp: keeps_evidence_def evident_def)
    with Cons q2 show ?case by auto
  qed simp
  from this [OF _ assms(1,3,4)] assms(2) have "evident i p1" "receipts_ok p1" by (auto simp: evident_def)
  moreover have "px_pendingInputs p1 \<noteq> [] \<or> 0 < st_UnconfirmedInputs (px_state p1)"
    using calculation unconfirmed_nonneg [of p1] by (fastforce simp: evident_def lost_outcomes_def)
  ultimately show ?thesis by (auto simp: hasGuardedInputs_def Let_def)
qed

definition pending_process :: chord_process where
  "pending_process = new_process\<lparr>px_pendingInputs := [''a'']\<rparr>"

theorem input_evidence_kept_witness:
  "\<exists>p1. input_run [IExit, ITimeout ''a'', ISeal] pending_process = Some p1 \<and> hasGuardedInputs p1"
proof -
  have ok: "receipts_ok pending_process"
    using new_process_ok by (simp add: pending_process_def new_process_def receipts_ok_def maxPendingInputs_def)
  obtain p1 where p1: "input_run [IExit, ITimeout ''a'', ISeal] pending_process = Some p1" by simp
  have "\<not> answered_in ''a'' [IExit, ITimeout ''a'', ISeal] pending_process" by (simp add: answered_def)
  then have "hasGuardedInputs p1" using input_evidence_kept [OF ok _ _ p1] by (simp add: pending_process_def)
  with p1 show ?thesis by blast
qed

end
