(* ===== verification/TextTools.thy ===== *)
theory TextTools
  imports GoJSON Payloads
begin

text \<open>
  \<open>internal/gateway/text.go\<close>: cutting text to a number of runes, and what the formatted
  messages share. A rune that cannot be typed in this file is written \<open>uni\<close> of its code point.
\<close>

definition eol :: string where
  "eol = [CHR 0x0A]"

definition uni :: "nat \<Rightarrow> string" where
  "uni r = encode_rune r"

definition ellipsis :: string where
  "ellipsis = uni 0x2026"

definition maxNotificationRunes :: int where
  "maxNotificationRunes = 1000"

text \<open>\<open>string(rs[:n])\<close> and \<open>string(rs[n:])\<close> for \<open>rs := []rune(s)\<close>.\<close>

definition first_runes :: "nat \<Rightarrow> string \<Rightarrow> string" where
  "first_runes n s = rune_text (take n (runes s))"

definition last_runes :: "nat \<Rightarrow> string \<Rightarrow> string" where
  "last_runes n s = rune_text (drop (rune_count s - n) (runes s))"

definition truncateRunes :: "string \<Rightarrow> int \<Rightarrow> string \<Rightarrow> string" where
  "truncateRunes s maxRunes suffix =
     (if maxRunes \<le> 0 then ''''
      else if int (rune_count s) \<le> maxRunes then s
      else if maxRunes \<le> int (rune_count suffix) then first_runes (nat maxRunes) suffix
      else first_runes (nat maxRunes - rune_count suffix) s @ suffix)"

definition truncate_text :: "string \<Rightarrow> string" where
  "truncate_text s = truncateRunes s maxNotificationRunes ''...''"

definition truncateLine :: "string \<Rightarrow> int \<Rightarrow> string" where
  "truncateLine s maxRunes = truncateRunes (replace_byte (CHR 0x0A) ([CHR 0x5C] @ ''n'') s) maxRunes ellipsis"

definition maxFeishuButtonLabelRunes :: int where
  "maxFeishuButtonLabelRunes = 24"

definition truncateButtonLabel :: "string \<Rightarrow> string" where
  "truncateButtonLabel label = truncateRunes (trim_space label) maxFeishuButtonLabelRunes ellipsis"

definition shortID :: "string \<Rightarrow> string" where
  "shortID s =
     (let s = trim_space s in
      if rune_count s \<le> 12 then s else first_runes 8 s @ ellipsis @ last_runes 4 s)"

definition truncateStderrTail :: "string \<Rightarrow> int \<Rightarrow> string" where
  "truncateStderrTail s maxBytes =
     (let maxBytes = (if maxBytes \<le> 0 then 2000 else maxBytes) in
      if int (length s) \<le> maxBytes then s else drop (length s - nat maxBytes) s)"

text \<open>\<open>commandHint\<close> of \<open>im_command_hints.go\<close>: the chat's way of writing a command, if one was given.\<close>

definition commandHint :: "string \<Rightarrow> (string \<Rightarrow> string) option \<Rightarrow> string" where
  "commandHint command hint = (case hint of Some f \<Rightarrow> f command | None \<Rightarrow> command)"

section \<open>Counting runes\<close>

lemma uni_texts: "eol = [CHR 0x0A]" "ellipsis = map char_of [0xE2, 0x80, 0xA6 :: nat]"
  by (simp_all add: eol_def ellipsis_def uni_def encode_rune_def is_surrogate_def)

lemma rune_start_step:
  assumes "a \<noteq> []" and "b = [] \<or> rune_start (hd b)"
  shows "rune_width (a @ b) \<le> length a"
proof (rule ccontr)
  assume "\<not> ?thesis"
  then have w: "length a < rune_width (a @ b)" by simp
  have ne: "a @ b \<noteq> []" using assms(1) by simp
  have b: "b \<noteq> []" using w rune_width_bounds(2) [OF ne] by auto
  have "1 < rune_width (a @ b)" using w assms(1) by (cases a) auto
  then have "rune_shape (a @ b) (rune_width (a @ b))" using shape_of_decode [OF ne] by fastforce
  then have "\<not> rune_start ((a @ b) ! length a)" using shape_cont w assms(1) by blast
  then show False using assms(2) b by (cases b) (auto simp: nth_append)
qed

text \<open>A text that starts a rune adds its own runes.\<close>

lemma rune_count_join:
  assumes "b = [] \<or> rune_start (hd b)"
  shows "rune_count (a @ b) = rune_count a + rune_count b"
proof (induction a rule: runes_induct)
  case (Rune a)
  have w: "rune_width (a @ b) \<le> length a" using rune_start_step [OF Rune.hyps assms] .
  then have d: "decode_rune (a @ b) = decode_rune a" using decode_prefix [OF Rune.hyps] by metis
  then have "rune_width (a @ b) = rune_width a" by (simp add: rune_width_def)
  with Rune w show ?case by (simp add: rune_count_def runes_cons)
qed (simp add: rune_count_def)

lemma rune_text_valid: "valid_utf8 (rune_text (take k (runes s)))" "rune_count (rune_text (take k (runes s))) = min k (rune_count s)"
proof -
  have one: "valid_utf8 (piece_text p) \<and> rune_count (piece_text p) = 1" if "p \<in> set (runes s)" for p
  proof (cases "invalid_piece p")
    case True
    have "runes replacement = [(rune_error, replacement)]"
      by (simp add: replacement_def runes_cons rune_width_def Let_def second_lo_def second_hi_def cont_byte_def)
    then show ?thesis using True by (simp add: piece_text_def valid_utf8_def rune_count_def invalid_piece_def replacement_def)
  next
    case False
    have "runes (snd p) = [p]"
      using that
    proof (induction s rule: runes_induct)
      case (Rune s)
      have "runes (take (rune_width s) s) = [(fst (decode_rune s), take (rune_width s) s)]"
        using runes_take [of 1 s] by (simp add: runes_cons [OF Rune.hyps])
      with Rune show ?case by (auto simp: runes_cons [OF Rune.hyps])
    qed simp
    then show ?thesis using False by (simp add: piece_text_def valid_utf8_def rune_count_def)
  qed
  have all: "valid_utf8 (rune_text ps) \<and> rune_count (rune_text ps) = length ps" if "set ps \<subseteq> set (runes s)" for ps
    using that by (induction ps) (auto simp: rune_text_def valid_append rune_count_append one)
  have "set (take k (runes s)) \<subseteq> set (runes s)" by (rule set_take_subset)
  from all [OF this] show "valid_utf8 (rune_text (take k (runes s)))" "rune_count (rune_text (take k (runes s))) = min k (rune_count s)"
    by (simp_all add: rune_count_def min.commute)
qed

lemma first_runes_count: "rune_count (first_runes n s) = min n (rune_count s)" "valid_utf8 (first_runes n s)"
  by (simp_all add: first_runes_def rune_text_valid)

lemma last_runes_count: "rune_count (last_runes n s) = min n (rune_count s)" "valid_utf8 (last_runes n s)"
proof -
  let ?d = "rune_count s - n"
  have r: "last_runes n s = rune_text (take (rune_count (rune_bytes (drop ?d (runes s)))) (runes (rune_bytes (drop ?d (runes s)))))"
    by (simp add: last_runes_def runes_drop rune_count_def)
  show "rune_count (last_runes n s) = min n (rune_count s)" "valid_utf8 (last_runes n s)"
    unfolding r by (simp_all only: rune_text_valid) (simp add: rune_count_def runes_drop)
qed

lemma truncateRunes_count: "int (rune_count (truncateRunes s n suffix)) \<le> max n 0"
  by (auto simp: truncateRunes_def first_runes_count rune_count_append min_def)

lemma truncate_text_count: "rune_count (truncate_text s) \<le> 1000"
  using truncateRunes_count [of s maxNotificationRunes "''...''"] by (simp add: truncate_text_def maxNotificationRunes_def)

text \<open>A text that fits is not changed.\<close>

lemma truncateRunes_fits: "int (rune_count s) \<le> n \<Longrightarrow> truncateRunes s n suffix = s"
proof (cases "s = []")
  case False
  then have "0 < rune_count s" by (simp add: rune_count_def)
  then show "int (rune_count s) \<le> n \<Longrightarrow> truncateRunes s n suffix = s" by (simp add: truncateRunes_def)
qed (simp add: truncateRunes_def rune_count_def)

lemma trim_space_count: "rune_count (trim_space s) \<le> rune_count s"
proof -
  obtain i where i: "dropWhile space_piece (runes s) = drop i (runes s)" by (metis dropWhile_eq_drop)
  obtain j where j: "dropWhile space_piece (rev (drop i (runes s))) = drop j (rev (drop i (runes s)))" by (metis dropWhile_eq_drop)
  have cut: "rev (drop j (rev m)) = take (length m - j) m" for m :: "(nat \<times> string) list" by (simp add: rev_drop)
  have t: "trim_space s = rune_bytes (take (length (runes s) - i - j) (drop i (runes s)))"
    unfolding trim_space_def i j by (subst cut) (simp only: length_drop)
  have "runes (trim_space s) = take (length (runes s) - i - j) (drop i (runes s))"
    using runes_take [of _ "rune_bytes (drop i (runes s))"] by (simp add: t runes_drop)
  then show ?thesis by (simp add: rune_count_def)
qed

lemma ellipsis_runes: "rune_count ellipsis = 1" "valid_utf8 ellipsis"
  by (simp_all add: uni_texts rune_count_def valid_utf8_def invalid_piece_def runes_cons rune_width_def Let_def second_lo_def
      second_hi_def cont_byte_def)

lemma shortID_count: "rune_count (shortID s) \<le> 13"
  by (simp add: shortID_def Let_def rune_count_append first_runes_count last_runes_count ellipsis_runes)

text \<open>Joining texts never adds a rune: at most a broken end and beginning become one.\<close>

lemma runes_cont:
  assumes "b \<noteq> []" and "\<not> rune_start (hd b)"
  shows "rune_count b = Suc (rune_count (tl b))"
proof -
  have "\<not> rune_shape b (rune_width b)" using shape_start assms by (metis hd_conv_nth)
  then have "rune_width b = 1" using shape_of_decode [OF assms(1)] by blast
  then show ?thesis using assms(1) by (simp add: rune_count_def runes_cons drop_Suc)
qed

lemma rune_count_skip:
  assumes "k \<le> length b" and "\<And>j. j < k \<Longrightarrow> \<not> rune_start (b ! j)"
  shows "rune_count b = k + rune_count (drop k b)"
  using assms
proof (induction k arbitrary: b)
  case (Suc k)
  have b: "b \<noteq> []" using Suc.prems(1) by auto
  then have b: "b \<noteq> []" "\<not> rune_start (hd b)" using Suc.prems(2) [of 0] by (simp_all add: hd_conv_nth)
  have "rune_count (tl b) = k + rune_count (drop k (tl b))"
    using Suc.prems b by (intro Suc.IH) (auto simp: nth_tl)
  with runes_cont [OF b] b show ?case by (simp add: drop_Suc)
qed simp

lemma rune_count_append_le: "rune_count (a @ b) \<le> rune_count a + rune_count b"
proof (induction a rule: runes_induct)
  case (Rune a)
  have ne: "a @ b \<noteq> []" using Rune.hyps by simp
  show ?case
  proof (cases "rune_width (a @ b) \<le> length a")
    case True
    then have "rune_width (a @ b) = rune_width a" using decode_prefix [OF Rune.hyps] by (metis rune_width_def)
    with True Rune show ?thesis by (simp add: rune_count_def runes_cons)
  next
    case False
    let ?w = "rune_width (a @ b)"
    have "1 < ?w" using False Rune.hyps by (cases a) auto
    then have sh: "rune_shape (a @ b) ?w" using shape_of_decode [OF ne] by fastforce
    have "\<not> rune_start (b ! j)" if "j < ?w - length a" for j
      using shape_cont [OF sh, of "length a + j"] that Rune.hyps by (auto simp: nth_append)
    then have "rune_count b = ?w - length a + rune_count (drop (?w - length a) b)"
      using rune_width_bounds(2) [OF ne] by (intro rune_count_skip) auto
    moreover have "rune_count (a @ b) = Suc (rune_count (drop ?w a @ drop (?w - length a) b))"
      using runes_cons [OF ne] by (simp add: rune_count_def)
    moreover have "rune_count a \<noteq> 0" using Rune.hyps by (simp add: rune_count_def)
    ultimately show ?thesis using False by simp
  qed
qed simp

lemma rune_count_concat_le: "rune_count (concat ts) \<le> sum_list (map rune_count ts)"
proof (induction ts)
  case (Cons t ts)
  then show ?case using rune_count_append_le [of t "concat ts"] by simp
qed simp

text \<open>The digits of a bounded number.\<close>

lemma nat_digits_length: "n < 10 ^ k \<Longrightarrow> 0 < k \<Longrightarrow> length (nat_digits n) \<le> k"
proof (induction k arbitrary: n)
  case (Suc k)
  show ?case
  proof (cases "n < 10")
    case False
    then have "length (nat_digits (n div 10)) \<le> k"
      using Suc.prems by (intro Suc.IH) (auto simp: div_less_iff_less_mult ac_simps intro: Suc_leI gr0I)
    with False show ?thesis by (subst nat_digits.simps) simp
  qed (subst nat_digits.simps, simp)
qed simp

lemma itoa_count:
  assumes "0 \<le> i" and "i < 10 ^ k" and "0 < k"
  shows "rune_count (itoa i) \<le> k"
proof -
  have "nat i < 10 ^ k" using assms(1,2) by (simp add: nat_less_iff)
  then show ?thesis
    using nat_digits_length [of "nat i" k] rune_count_le_length [of "itoa i"] assms by (simp add: itoa_def)
qed

text \<open>Bounding a text piece by piece: \<open>rule\<close> with these and the facts about its parts, then \<open>simp\<close>.\<close>

lemma bound_append: "rune_count a \<le> m \<Longrightarrow> rune_count b \<le> n \<Longrightarrow> rune_count (a @ b) \<le> m + n"
  using rune_count_append_le [of a b] by linarith

lemma bound_if: "(c \<Longrightarrow> rune_count a \<le> m) \<Longrightarrow> (\<not> c \<Longrightarrow> rune_count b \<le> n) \<Longrightarrow> rune_count (if c then a else b) \<le> max m n"
  by (simp add: le_max_iff_disj)

lemma truncateLine_count: "rune_count (truncateLine s n) \<le> nat n"
  unfolding truncateLine_def using truncateRunes_count [of "replace_byte (CHR 0x0A) ([CHR 0x5C] @ ''n'') s" n ellipsis] by linarith

lemmas bound_parts = bound_append bound_if shortID_count truncateLine_count

lemma uni_length: "length (uni r) = (if r < 128 then 1 else if r < 2048 then 2
    else if is_surrogate r \<or> 1114111 < r \<or> r < 65536 then 3 else 4)"
  by (auto simp: uni_def encode_rune_def replacement_def)

end
