(* ===== verification/StatusTexts.thy ===== *)
theory StatusTexts
  imports TextTools ProcessInputs
begin

text \<open>
  The texts that report a status: paused inputs (\<open>process_paused_inputs.go\<close>), MCP servers
  (\<open>mcp_status.go\<close>), the input queue (\<open>process_input_queue.go\<close>), session transfers
  (\<open>router_takeover.go\<close>, \<open>router_transfer_notice.go\<close>) and remembered rules
  (\<open>process_confirm_rules.go\<close>), all under \<open>internal/gateway\<close>.
\<close>

section \<open>Paused inputs\<close>

definition maxPausedInputSummaries :: int where "maxPausedInputSummaries = 8"
definition maxPausedInputPreview :: int where "maxPausedInputPreview = 160"
definition maxPausedInputNotificationRunes :: int where "maxPausedInputNotificationRunes = 700"

text \<open>\<open>strings.Map\<close> of control characters to blanks; an invalid byte becomes U+FFFD.\<close>

definition blank_controls :: "string \<Rightarrow> string" where
  "blank_controls s = concat (map (\<lambda>p. if is_control (fst p) then '' '' else piece_text p) (runes s))"

definition clean_preview :: "string \<Rightarrow> string" where
  "clean_preview s = truncateRunes (join '' '' (str_fields (blank_controls s))) maxPausedInputPreview ellipsis"

fun normalize_summaries :: "string list \<Rightarrow> paused_input_summary list \<Rightarrow> paused_input_summary list option" where
  "normalize_summaries seen [] = Some []"
| "normalize_summaries seen (i # is) =
     (if \<not> validPausedInputID (ps_InputID i) \<or> \<not> validPausedInputID (ps_OwnerTaskID i) \<or> ps_InputID i \<in> set seen
         \<or> ps_AttachmentCount i < 0 then None
      else map_option ((#) (i\<lparr>ps_Preview := clean_preview (ps_Preview i)\<rparr>)) (normalize_summaries (ps_InputID i # seen) is))"

text \<open>\<open>None\<close> is the error; a missing projection stays missing.\<close>

definition normalizePausedInputs :: "paused_inputs option \<Rightarrow> paused_inputs option option" where
  "normalizePausedInputs v = (case v of None \<Rightarrow> Some None | Some v \<Rightarrow>
     if pi_PendingInputCount v < 0
        \<or> int (length (pi_Inputs v)) \<noteq> min (pi_PendingInputCount v) maxPausedInputSummaries then None
     else map_option (\<lambda>is. Some (v\<lparr>pi_Inputs := is\<rparr>)) (normalize_summaries [] (pi_Inputs v)))"

definition paused_row :: "paused_input_summary \<Rightarrow> string" where
  "paused_row i = (eol @ ''  '') @ shortID (ps_OwnerTaskID i) @ ('' '' @ uni 0xB7 @ '' '') @ shortID (ps_InputID i)
     @ (if 0 < ps_AttachmentCount i then '' ('' @ itoa (ps_AttachmentCount i) @ '' attachments)'' else '''')"

definition paused_footer :: "paused_inputs \<Rightarrow> string" where
  "paused_footer v =
     (let remaining = pi_PendingInputCount v - int (length (pi_Inputs v)) in
      if 0 < remaining then (eol @ ''  '' @ uni 0x2026 @ '' '') @ itoa remaining @ '' more queued inputs'' else '''')"

text \<open>
  What is left of the budget for each preview. A budget below zero gives no preview, so the
  rounding of the division there does not matter.
\<close>

definition preview_runes :: "paused_inputs \<Rightarrow> int" where
  "preview_runes v =
     (let rows = map paused_row (pi_Inputs v);
          fixedRunes = sum_list (map (\<lambda>r. int (rune_count r) + 2) rows) in
      if rows = [] then maxPausedInputPreview
      else max 0 (min maxPausedInputPreview
        ((maxPausedInputNotificationRunes - fixedRunes - int (rune_count (paused_footer v))) div int (length rows))))"

definition paused_line :: "int \<Rightarrow> paused_input_summary \<Rightarrow> string" where
  "paused_line n i = paused_row i
     @ (if ps_Preview i \<noteq> '''' \<and> 0 < n then '': '' @ truncateRunes (ps_Preview i) n ellipsis else '''')"

definition formatPausedInputDetails :: "paused_inputs \<Rightarrow> string" where
  "formatPausedInputDetails v = concat (map (paused_line (preview_runes v)) (pi_Inputs v)) @ paused_footer v"

definition formatPausedInputs :: "paused_inputs option \<Rightarrow> string" where
  "formatPausedInputs v = (case v of None \<Rightarrow> '''' | Some v \<Rightarrow>
     (eol @ ''Pending inputs: '') @ itoa (pi_PendingInputCount v) @ formatPausedInputDetails v)"

definition appendPausedInputProjection :: "string \<Rightarrow> string \<Rightarrow> string" where
  "appendPausedInputProjection prefix projection =
     truncateRunes prefix (maxNotificationRunes - int (rune_count projection)) ''...'' @ projection"

section \<open>MCP servers\<close>

definition safe_shell_rune :: "nat \<Rightarrow> bool" where
  "safe_shell_rune r \<longleftrightarrow> (97 \<le> r \<and> r \<le> 122) \<or> (65 \<le> r \<and> r \<le> 90) \<or> (48 \<le> r \<and> r \<le> 57) \<or> r \<in> {95, 45, 46}"

definition shellQuoteMCPName :: "string \<Rightarrow> string" where
  "shellQuoteMCPName v =
     (if v \<noteq> '''' \<and> list_all (\<lambda>p. safe_shell_rune (fst p)) (runes v) then v
      else [CHR 0x27] @ replace_byte (CHR 0x27) ([CHR 0x27] @ [CHR 0x5C] @ [CHR 0x27] @ [CHR 0x27]) v @ [CHR 0x27])"

definition mcp_available :: "mcp_server_status \<Rightarrow> bool" where
  "mcp_available s \<longleftrightarrow> ms_Auth s \<in> {''ready'', ''none'', ''static''} \<and> ms_Operations s = [] \<and> ms_Connection s = ''connected''
     \<and> ms_Catalog s = ''ready'' \<and> ms_ScopeRequirements s = []"

text \<open>\<open>strings.CutPrefix(owner, "agent:")\<close>.\<close>

definition agent_role :: "string \<Rightarrow> string option" where
  "agent_role owner = (if has_prefix owner ''agent:'' then Some (drop 6 owner) else None)"

definition mcp_advice :: "mcp_server_status \<Rightarrow> string" where
  "mcp_advice s =
     (if ms_Operations s \<noteq> [] \<and> ms_ScopeRequirements s = [] then ''''
      else if ms_Auth s \<in> {''missing'', ''reauth_required''} \<or> ms_ScopeRequirements s \<noteq> [] then
        (eol @ ''    In this session'' @ [CHR 0x27] @ ''s working directory on the host: chord mcp login '') @ shellQuoteMCPName (mr_ServerName (ms_Ref s))
        @ (case agent_role (mr_Owner (ms_Ref s)) of Some role \<Rightarrow> '' --agent '' @ shellQuoteMCPName role | None \<Rightarrow> '''')
      else if ms_Auth s = ''refresh_required'' then (eol @ ''    Saved credentials will be refreshed before the next request.'')
      else (eol @ ''    In this session'' @ [CHR 0x27] @ ''s working directory on the host, inspect with chord doctor mcp --connect; reconnect in the local TUI.''))"

definition mcp_row :: "mcp_server_status \<Rightarrow> string" where
  "mcp_row s =
     (eol @ ''  '') @ mr_Owner (ms_Ref s) @ ''/'' @ mr_ServerName (ms_Ref s) @ '': auth='' @ ms_Auth s @ ''; connection='' @ ms_Connection s
     @ ''; catalog='' @ ms_Catalog s
     @ concat (map (\<lambda>p. (eol @ ''    '') @ mp_Kind p @ '': '' @ mp_State p) (ms_Operations s)) @ mcp_advice s"

definition mcp_reported :: "mcp_server_status list \<Rightarrow> mcp_server_status list" where
  "mcp_reported servers = filter (\<lambda>s. ms_DesiredEnabled s \<and> \<not> mcp_available s) servers"

definition formatMCPStatus :: "mcp_status_snapshot option \<Rightarrow> string" where
  "formatMCPStatus snapshot = (case snapshot of None \<Rightarrow> '''' | Some v \<Rightarrow>
     if mc_Servers v = [] then ''''
     else ''MCP:'' @ concat (map mcp_row (mcp_reported (mc_Servers v)))
       @ (if mcp_reported (mc_Servers v) = [] then '' all enabled servers are available'' else ''''))"

definition mcpAllAvailableNotification :: string where
  "mcpAllAvailableNotification = ''MCP: all enabled servers are available''"

definition mcp_pending :: "mcp_server_status \<Rightarrow> bool" where
  "mcp_pending s \<longleftrightarrow> ms_DesiredEnabled s \<and> ms_Operations s \<noteq> []"

definition formatMCPNotification :: "mcp_status_snapshot option \<Rightarrow> string" where
  "formatMCPNotification snapshot = (case snapshot of None \<Rightarrow> '''' | Some v \<Rightarrow>
     let t = formatMCPStatus (Some (v\<lparr>mc_Servers := filter (\<lambda>s. \<not> mcp_pending s) (mc_Servers v)\<rparr>)) in
     if list_ex mcp_pending (mc_Servers v) \<and> t = mcpAllAvailableNotification then '''' else t)"

section \<open>The input queue\<close>

definition inputQueueListLimit :: nat where "inputQueueListLimit = 10"

definition restoredHeldInput :: "input_queue \<Rightarrow> input_queue_item \<Rightarrow> bool" where
  "restoredHeldInput q i \<longleftrightarrow> iq_RestoredHeld q \<and> ii_Stage i = ''queued''"

definition restoredHeldPending :: "input_queue \<Rightarrow> bool" where
  "restoredHeldPending q \<longleftrightarrow> list_ex (restoredHeldInput q) (iq_Inputs q)"

definition formatInputQueueStatus :: "input_queue option \<Rightarrow> string" where
  "formatInputQueueStatus q = (case q of None \<Rightarrow> '''' | Some q \<Rightarrow>
     ''Input queue: '' @ itoa (int (length (iq_Inputs q))) @ '' pending''
     @ (if iq_Blocked q \<noteq> '''' then (eol @ uni 0x26A0 @ uni 0xFE0F @ '' Queue storage is blocked. Inspect the original session and storage on the host.'') else '''')
     @ (if iq_Blocked q = '''' \<and> restoredHeldPending q
        then (eol @ ''Restored with the session. Send a message to start the queued input.'') else '''')
     @ (if iq_Blocked q = '''' \<and> iq_Inputs q \<noteq> [] then (eol @ ''Inspect or manage queued inputs with /queue.'') else ''''))"

definition afterCompletionWaitReason :: "input_queue \<Rightarrow> input_queue_item \<Rightarrow> string" where
  "afterCompletionWaitReason q i =
     (let unknownOutcome = ''last task outcome unknown; send a message to run it next'' in
      if ii_WaitWorkID i = '''' then ''''
      else case find (\<lambda>w. iw_WorkID w = ii_WaitWorkID i) (iq_Works q) of
        None \<Rightarrow> unknownOutcome
      | Some w \<Rightarrow>
          if iw_Outcome w \<in> {'''', ''completed''} then ''''
          else if iw_Outcome w = ''active'' then ''waiting for the running task''
          else if iw_Outcome w = ''failed'' then ''last task failed; send a message to run it next''
          else if iw_Outcome w = ''cancelled'' then ''last task cancelled; send a message to run it next''
          else unknownOutcome)"

definition queue_row :: "input_queue \<Rightarrow> nat \<Rightarrow> input_queue_item \<Rightarrow> string" where
  "queue_row q n i =
     eol @ itoa (int n + 1) @ ''. ['' @ ii_Policy i @ '', '' @ ii_Stage i @ ''] '' @ ii_Preview i
     @ (if 0 < ii_Attachments i then '' ('' @ itoa (ii_Attachments i) @ '' attachment(s))'' else '''')
     @ (if ii_EditHeld i then '' (locked for editing in the local TUI)'' else '''')
     @ (if restoredHeldInput q i then '' (restored; send a message to run it)''
        else let reason = afterCompletionWaitReason q i in if reason \<noteq> '''' then '' ('' @ reason @ '')'' else '''')"

definition formatInputQueue :: "input_queue option \<Rightarrow> string" where
  "formatInputQueue q = (case q of None \<Rightarrow> '''' | Some q \<Rightarrow>
     ''Input queue: '' @ itoa (int (length (iq_Inputs q))) @ '' pending''
     @ (if iq_Blocked q \<noteq> '''' then (eol @ uni 0x26A0 @ uni 0xFE0F @ '' Queue storage is blocked: '') @ replace_byte (CHR 0x0A) '' '' (iq_Blocked q) else '''')
     @ concat (map (\<lambda>(n, i). queue_row q n i) (enumerate 0 (take inputQueueListLimit (iq_Inputs q))))
     @ (if inputQueueListLimit < length (iq_Inputs q)
        then (eol @ uni 0x2026 @ '' and '') @ itoa (int (length (iq_Inputs q) - inputQueueListLimit)) @ '' more'' else '''')
     @ (if iq_Inputs q \<noteq> []
        then (eol @ ''Reply /queue show <n> to read one in full, /queue edit <n> <text> to replace it, or /queue delete <n> to drop it.'')
        else ''''))"

section \<open>Session transfers\<close>

definition blocker_row :: "transfer_blocker \<Rightarrow> string" where
  "blocker_row b = (eol @ ''Waiting: '') @ truncateLine (tb_OwnerTaskID b) 32 @ '' '' @ truncateLine (tb_Type b) 32
     @ ('' '' @ uni 0x2014 @ '' '') @ truncateLine (tb_Description b) 96"

definition transfer_footer :: "int \<Rightarrow> string" where
  "transfer_footer remaining = (if remaining = 0 then ''''
     else (eol @ uni 0x2026 @ '' '') @ itoa remaining @ '' more blockers; inspect full status on the host.'')"

text \<open>The loop over the first blockers: the rows written and how many there are.\<close>

fun transfer_rows :: "int \<Rightarrow> int \<Rightarrow> int \<Rightarrow> transfer_blocker list \<Rightarrow> string \<times> int" where
  "transfer_rows total_count used shown [] = ('''', shown)"
| "transfer_rows total_count used shown (b # bs) =
     (let row = blocker_row b; n = int (rune_count row) in
      if maxNotificationRunes < used + n + int (rune_count (transfer_footer (total_count - shown - 1))) then ('''', shown)
      else let (rest, k) = transfer_rows total_count (used + n) (shown + 1) bs in (row @ rest, k))"

definition blocker_total :: "transfer_status \<Rightarrow> int" where
  "blocker_total s = max (tr_BlockerCount s) (int (length (tr_Blockers s)))"

definition transfer_outcome :: "string \<Rightarrow> string" where
  "transfer_outcome state =
     (if state \<in> {''released'', ''saved''} then (eol @ ''Session saved. Resume explicitly if target restoration fails.'') else '''')
     @ (if state = ''ready_paused''
        then (eol @ ''Restored and paused. Send an explicit continuation or a new request to continue.'') else '''')"

definition transfer_head :: "transfer_status \<Rightarrow> string" where
  "transfer_head s =
     ''Session transfer '' @ truncateLine (tr_TransferID s) 128 @ (eol @ ''Session: '') @ truncateLine (tr_SessionID s) 128
     @ (eol @ ''State: '') @ truncateLine (tr_State s) 32
     @ (if tr_StartedAt s \<noteq> '''' then (eol @ ''Started: '') @ truncateLine (tr_StartedAt s) 32 else '''')
     @ (eol @ ''Pending inputs: '') @ itoa (tr_PendingInputs s)
     @ (if tr_ErrorCode s \<noteq> '''' then eol @ truncateLine (tr_ErrorCode s) 64 @ '': '' @ truncateLine (tr_Message s) 160 else '''')
     @ (if tr_WaitExpired s then (eol @ ''Wait budget expired. Source work is not cancelled; use /takeover status.'') else '''')
     @ transfer_outcome (tr_State s)
     @ (if tr_RecoverableAction s \<noteq> '''' then (eol @ ''Next: '') @ truncateLine (tr_RecoverableAction s) 128 else '''')"

definition formatTransferStatus :: "transfer_status \<Rightarrow> string" where
  "formatTransferStatus s =
     (let total_count = blocker_total s; head = transfer_head s in
      if total_count \<le> 0 then head
      else let head = head @ (eol @ ''Blockers: '') @ itoa total_count;
               (rows, shown) = transfer_rows total_count (int (rune_count head)) 0 (take 3 (tr_Blockers s)) in
        head @ rows @ transfer_footer (total_count - shown))"

text \<open>\<open>formatPausedTargetStatus\<close>: the restored runtime's projection instead of the source's count.\<close>

definition formatPausedTargetStatus :: "transfer_status \<Rightarrow> paused_inputs option \<Rightarrow> string" where
  "formatPausedTargetStatus s paused = (case paused of None \<Rightarrow> formatTransferStatus s | Some v \<Rightarrow>
     appendPausedInputProjection
       (formatTransferStatus (s\<lparr>tr_PendingInputs := pi_PendingInputCount v, tr_Blockers := [], tr_BlockerCount := 0,
          tr_ErrorCode := '''', tr_Message := '''', tr_RecoverableAction := '''', tr_WaitExpired := False\<rparr>))
       (formatPausedInputDetails v))"

section \<open>Transfer notices\<close>

definition transferProgressInterval :: duration where "transferProgressInterval = minute"
definition transferProgressBlockers :: int where "transferProgressBlockers = 2"

record transfer_notice =
  tn_TransferID :: string
  tn_ProgressAt :: gotime
  tn_LastText :: string

definition isTransferTerminalState :: "string \<Rightarrow> bool" where
  "isTransferTerminalState state \<longleftrightarrow> state \<in> {''saved'', ''released''}"

definition no_notice :: transfer_notice where
  "no_notice = \<lparr>tn_TransferID = '''', tn_ProgressAt = 0, tn_LastText = ''''\<rparr>"

definition transferEventVisible :: "string \<Rightarrow> transfer_status option \<Rightarrow> string \<Rightarrow> gotime \<Rightarrow> (string, transfer_notice) gomap
    \<Rightarrow> (string, transfer_notice) gomap \<times> bool" where
  "transferEventVisible key status body now notices = (case status of None \<Rightarrow> (notices, False) | Some s \<Rightarrow>
     if tr_TransferID s = '''' \<or> body = '''' then (notices, False)
     else let notice = get_or no_notice notices key;
              shown = (AList.update key \<lparr>tn_TransferID = tr_TransferID s, tn_ProgressAt = now, tn_LastText = body\<rparr> notices, True) in
       if tn_TransferID notice \<noteq> tr_TransferID s then shown
       else if body = tn_LastText notice then (notices, False)
       else if isTransferTerminalState (tr_State s) \<or> tr_ErrorCode s \<noteq> '''' then shown
       else if time_sub now (tn_ProgressAt notice) < transferProgressInterval then (notices, False)
       else shown)"

text \<open>\<open>Duration.String\<close> for a whole number of seconds, not negative.\<close>

definition seconds_text :: "int \<Rightarrow> string" where
  "seconds_text n =
     (if n < 60 then itoa n @ ''s''
      else if n < 3600 then itoa (n div 60) @ ''m'' @ itoa (n mod 60) @ ''s''
      else itoa (n div 3600) @ ''h'' @ itoa (n div 60 mod 60) @ ''m'' @ itoa (n mod 60) @ ''s'')"

text \<open>\<open>transferElapsed\<close>, where \<open>parse\<close> is \<open>time.Parse(time.RFC3339, _)\<close>.\<close>

definition transferElapsed :: "(string \<Rightarrow> gotime option) \<Rightarrow> string \<Rightarrow> gotime \<Rightarrow> string option" where
  "transferElapsed parse startedAt now = (case parse startedAt of
     None \<Rightarrow> None
   | Some start \<Rightarrow>
       if start = 0 then None
       else let elapsed = time_sub now start in
         if elapsed < 0 then None else Some (seconds_text (elapsed div second)))"

definition progress_footer :: "string \<Rightarrow> int \<Rightarrow> int \<Rightarrow> string" where
  "progress_footer statusHint shown remaining =
     (if remaining = 0 \<or> shown = transferProgressBlockers then ''''
      else (eol @ ''... '') @ itoa remaining @ '' more; use '' @ statusHint @ '' for the full list.'')"

fun progress_rows :: "string \<Rightarrow> int \<Rightarrow> int \<Rightarrow> int \<Rightarrow> transfer_blocker list \<Rightarrow> string \<times> int" where
  "progress_rows statusHint total_count used shown [] = ('''', shown)"
| "progress_rows statusHint total_count used shown (b # bs) =
     (if shown = transferProgressBlockers
      then ((eol @ uni 0x2026 @ '' '') @ itoa (total_count - shown) @ '' more; use '' @ statusHint @ '' for the full list.'', shown)
      else let row = blocker_row b; n = int (rune_count row) in
        if maxNotificationRunes < used + n + int (rune_count (progress_footer statusHint shown (total_count - shown - 1)))
        then ('''', shown)
        else let (rest, k) = progress_rows statusHint total_count (used + n) (shown + 1) bs in (row @ rest, k))"

definition formatTransferProgress :: "(string \<Rightarrow> gotime option) \<Rightarrow> transfer_status \<Rightarrow> gotime \<Rightarrow> (string \<Rightarrow> string) option \<Rightarrow> string" where
  "formatTransferProgress parse s now hint =
     (let total_count = blocker_total s;
          head = (uni 0x23F3 @ '' Session takeover in progress'')
            @ (case transferElapsed parse (tr_StartedAt s) now of Some e \<Rightarrow> ('' '' @ uni 0xB7 @ '' waiting '') @ e | None \<Rightarrow> '''');
          statusHint = commandHint ''/takeover status'' hint in
      if total_count = 0 then head @ (eol @ ''Finishing the work that is already running.'')
      else let head = head @ (eol @ ''Waiting on '') @ itoa total_count @ '':'';
               (rows, shown) = progress_rows statusHint total_count (int (rune_count head)) 0 (tr_Blockers s) in
        head @ rows @ progress_footer statusHint shown (total_count - shown))"

definition formatTransferNotice :: "(string \<Rightarrow> gotime option) \<Rightarrow> transfer_status \<Rightarrow> gotime \<Rightarrow> (string \<Rightarrow> string) option \<Rightarrow> string" where
  "formatTransferNotice parse s now hint =
     (if tr_State s \<in> {''preparing'', ''waiting_source''} then
        (uni 0x1F504 @ '' Session takeover started: '') @ truncateLine (tr_SessionID s) 128 @ (eol @ ''This chat stays blocked until the session is saved.'')
      else if tr_State s \<in> {''prepare_failed'', ''save_failed'', ''restore_failed'', ''status_unknown''} then formatTransferStatus s
      else if tr_State s \<in> {''saved'', ''released''} then
        (uni 0x2705 @ '' Session saved for takeover: '') @ truncateLine (tr_SessionID s) 128 @ '' (transfer '' @ truncateLine (tr_TransferID s) 128
        @ ('')'' @ eol @ ''This chat stays blocked; use '') @ commandHint ''/new'' hint @ '' or '' @ commandHint ''/resume'' hint @ '' to continue here.''
      else formatTransferProgress parse s now hint)"

section \<open>Remembered rules\<close>

definition confirmRuleScopeLabel :: "string \<Rightarrow> string" where
  "confirmRuleScopeLabel scope =
     (if scope = ''project'' then ''project'' else if scope = ''user_global'' then ''user-wide'' else ''session'')"

definition rule_saved :: "confirm_rule_persistence_result \<Rightarrow> bool" where
  "rule_saved r \<longleftrightarrow> trim_space (cq_Error r) = ''''"

text \<open>One failure; \<open>quote\<close> is \<open>strconv.Quote\<close>.\<close>

definition rule_failure :: "(string \<Rightarrow> string) \<Rightarrow> confirm_rule_persistence_result \<Rightarrow> string" where
  "rule_failure quote r =
     (let detail = join '' '' (str_fields (cq_Error r)) in
      (eol @ ''  '' @ uni 0x2022 @ '' '') @ cq_Tool r @ '' '' @ quote (cq_Pattern r) @ '': '' @ (if detail = '''' then ''persistence failed'' else detail))"

definition formatConfirmRuleIntentReceipt :: "(string \<Rightarrow> string) \<Rightarrow> confirm_rule_intent_result \<Rightarrow> int \<Rightarrow> string \<Rightarrow> string" where
  "formatConfirmRuleIntentReceipt quote receipt expected scope =
     (if int (length (ci_Results receipt)) \<noteq> expected then
        (uni 0x2705 @ '' allowed for this call; Chord returned an incomplete rule-persistence receipt. Check the rules on the Chord host before relying on them.'')
      else let saved = length (filter rule_saved (ci_Results receipt));
               failures = filter (\<lambda>r. \<not> rule_saved r) (ci_Results receipt) in
        if failures = [] then
          (uni 0x2705 @ '' allowed; '') @ itoa (int saved) @ '' '' @ (if saved = 1 then ''rule'' else ''rules'') @ '' remembered for the ''
          @ confirmRuleScopeLabel scope @ '' scope''
        else truncate_text
          ((if saved = 0 then (uni 0x2705 @ '' allowed for this call; no rules were remembered for the '') @ confirmRuleScopeLabel scope @ '' scope.''
            else (uni 0x2705 @ '' allowed for this call; '') @ itoa (int saved) @ '' of '' @ itoa expected @ '' rules remembered for the ''
              @ confirmRuleScopeLabel scope @ '' scope.'')
           @ concat (map (rule_failure quote) (take 3 failures))
           @ (if 3 < length failures then (eol @ ''  '' @ uni 0x2022 @ '' and '') @ itoa (int (length failures) - 3) @ '' more failure(s)'' else '''')))"

section \<open>Paused inputs fit\<close>

text \<open>A count the program can hold.\<close>

definition int64 :: "int \<Rightarrow> bool" where
  "int64 i \<longleftrightarrow> - (2 ^ 63) \<le> i \<and> i < 2 ^ 63"

lemma int64_digits: "0 \<le> i \<Longrightarrow> int64 i \<Longrightarrow> rune_count (itoa i) \<le> 19"
  by (rule itoa_count) (simp_all add: int64_def)

lemma paused_row_count:
  assumes "0 \<le> ps_AttachmentCount i" and "int64 (ps_AttachmentCount i)"
  shows "rune_count (paused_row i) \<le> 67"
  unfolding paused_row_def
  by (rule order_trans, (rule bound_parts int64_digits [OF assms] rune_count_le_length)+, simp add: eol_def uni_length)

definition paused_in_range :: "paused_inputs \<Rightarrow> bool" where
  "paused_in_range v \<longleftrightarrow> 0 \<le> pi_PendingInputCount v \<and> int64 (pi_PendingInputCount v) \<and> length (pi_Inputs v) \<le> 8
     \<and> (\<forall>i \<in> set (pi_Inputs v). 0 \<le> ps_AttachmentCount i \<and> int64 (ps_AttachmentCount i))"

lemma normalize_summaries_range:
  assumes "normalize_summaries seen is = Some js" and "\<forall>i \<in> set is. int64 (ps_AttachmentCount i)"
  shows "length js = length is \<and> (\<forall>i \<in> set js. 0 \<le> ps_AttachmentCount i \<and> int64 (ps_AttachmentCount i))"
  using assms by (induction seen "is" arbitrary: js rule: normalize_summaries.induct) (auto split: if_splits)

lemma normalized_in_range:
  assumes "normalizePausedInputs (Some v) = Some (Some w)" and "int64 (pi_PendingInputCount v)"
    and "\<forall>i \<in> set (pi_Inputs v). int64 (ps_AttachmentCount i)"
  shows "paused_in_range w"
proof -
  obtain js where js: "normalize_summaries [] (pi_Inputs v) = Some js" "w = v\<lparr>pi_Inputs := js\<rparr>"
      "0 \<le> pi_PendingInputCount v" "int (length (pi_Inputs v)) \<le> 8"
    using assms(1) by (auto simp: normalizePausedInputs_def maxPausedInputSummaries_def split: if_splits)
  with normalize_summaries_range [OF js(1) assms(3)] assms(2) show ?thesis by (simp add: paused_in_range_def)
qed

lemma paused_footer_count:
  assumes "paused_in_range v"
  shows "rune_count (paused_footer v) \<le> 45"
proof -
  have d: "rune_count (itoa (pi_PendingInputCount v - int (length (pi_Inputs v)))) \<le> 19"
    if "0 < pi_PendingInputCount v - int (length (pi_Inputs v))"
    using that assms by (intro int64_digits) (auto simp: paused_in_range_def int64_def)
  show ?thesis
    unfolding paused_footer_def Let_def
    by (rule order_trans, (rule bound_parts d rune_count_le_length | assumption)+, simp add: eol_def uni_length is_surrogate_def)
qed

lemma sum_list_le:
  fixes f :: "'a \<Rightarrow> int"
  shows "(\<And>x. x \<in> set xs \<Longrightarrow> f x \<le> c) \<Longrightarrow> sum_list (map f xs) \<le> int (length xs) * c"
proof (induction xs)
  case (Cons a xs)
  then have "f a \<le> c" "sum_list (map f xs) \<le> int (length xs) * c" by simp_all
  then show ?case by (simp add: algebra_simps)
qed simp

lemma sum_list_int_mono:
  fixes h :: "'a \<Rightarrow> int"
  shows "(\<And>x. int (g x) \<le> h x) \<Longrightarrow> int (sum_list (map g xs)) \<le> sum_list (map h xs)"
  by (induction xs) (auto simp: add_mono)

lemma sum_list_add:
  fixes f :: "'a \<Rightarrow> int"
  shows "sum_list (map (\<lambda>x. f x + c) xs) = sum_list (map f xs) + int (length xs) * c"
  by (induction xs) (auto simp: algebra_simps)

lemma paused_line_count:
  assumes "0 \<le> n"
  shows "int (rune_count (paused_line n i)) \<le> int (rune_count (paused_row i)) + (if 0 < n then 2 + n else 0)"
proof (cases "0 < n \<and> ps_Preview i \<noteq> ''''")
  case True
  have "rune_count ('': '' @ truncateRunes (ps_Preview i) n ellipsis) \<le> 2 + rune_count (truncateRunes (ps_Preview i) n ellipsis)"
    using rune_count_append_le [of "'': ''" "truncateRunes (ps_Preview i) n ellipsis"] rune_count_le_length [of "'': ''"] by simp
  moreover have "int (rune_count (truncateRunes (ps_Preview i) n ellipsis)) \<le> n"
    using truncateRunes_count [of "ps_Preview i" n ellipsis] assms by simp
  ultimately show ?thesis
    using rune_count_append_le [of "paused_row i" "'': '' @ truncateRunes (ps_Preview i) n ellipsis"] True
    by (simp add: paused_line_def)
qed (auto simp: paused_line_def)

text \<open>The rows, their previews and the omitted count stay within the budget they share.\<close>

lemma paused_details_count:
  assumes "paused_in_range v"
  shows "rune_count (formatPausedInputDetails v) \<le> 700"
proof -
  let ?is = "pi_Inputs v" and ?n = "preview_runes v" and ?f = "int (rune_count (paused_footer v))"
  let ?rows = "sum_list (map (\<lambda>i. int (rune_count (paused_row i))) ?is)"
  have f: "?f \<le> 45" using paused_footer_count [OF assms] by simp
  have len: "length ?is \<le> 8" using assms by (simp add: paused_in_range_def)
  have rows: "?rows \<le> int (length ?is) * 67"
    using assms paused_row_count by (intro sum_list_le) (force simp: paused_in_range_def)
  have n0: "0 \<le> ?n" by (simp add: preview_runes_def maxPausedInputPreview_def Let_def)
  have lines: "int (rune_count (concat (map (paused_line ?n) ?is))) \<le> ?rows + int (length ?is) * (if 0 < ?n then 2 + ?n else 0)"
  proof -
    have "int (rune_count (concat (map (paused_line ?n) ?is))) \<le> int (sum_list (map (\<lambda>i. rune_count (paused_line ?n i)) ?is))"
      using rune_count_concat_le [of "map (paused_line ?n) ?is"] by (simp add: comp_def)
    also have "\<dots> \<le> sum_list (map (\<lambda>i. int (rune_count (paused_row i)) + (if 0 < ?n then 2 + ?n else 0)) ?is)"
      by (intro sum_list_int_mono paused_line_count [OF n0])
    finally show ?thesis by (simp only: sum_list_add)
  qed
  have body: "?rows + int (length ?is) * (if 0 < ?n then 2 + ?n else 0) + ?f \<le> 700"
  proof (cases "0 < ?n \<and> ?is \<noteq> []")
    case True
    let ?k = "int (length ?is)" and ?left = "700 - (?rows + int (length ?is) * 2) - ?f"
    have "?n \<le> ?left div ?k"
      using True by (auto simp: preview_runes_def Let_def comp_def sum_list_add maxPausedInputNotificationRunes_def max_def split: if_splits)
    moreover have "?k * (?left div ?k) \<le> ?left"
      using True pos_mod_sign [of ?k ?left] by (simp add: minus_mod_eq_mult_div [symmetric])
    ultimately have "?k * ?n \<le> ?left" using mult_left_mono [of ?n "?left div ?k" ?k] by linarith
    with True show ?thesis by (simp add: algebra_simps)
  next
    case False
    then show ?thesis using rows f len n0 by (cases ?is) auto
  qed
  show ?thesis using lines body rune_count_append_le [of "concat (map (paused_line ?n) ?is)" "paused_footer v"]
    by (simp add: formatPausedInputDetails_def)
qed

lemma paused_projection_count:
  assumes "paused_in_range v"
  shows "rune_count (formatPausedInputs (Some v)) \<le> 736"
proof -
  have d: "rune_count (itoa (pi_PendingInputCount v)) \<le> 19"
    using assms by (intro int64_digits) (auto simp: paused_in_range_def)
  show ?thesis
    unfolding formatPausedInputs_def option.case
    by (rule order_trans, (rule bound_parts d paused_details_count [OF assms] rune_count_le_length)+, simp add: eol_def)
qed

lemma projection_fits:
  assumes "rune_count projection \<le> 1000"
  shows "rune_count (appendPausedInputProjection prefix projection) \<le> 1000"
proof -
  have "int (rune_count (truncateRunes prefix (maxNotificationRunes - int (rune_count projection)) ''...'')) \<le> 1000 - int (rune_count projection)"
    using truncateRunes_count [of prefix "maxNotificationRunes - int (rune_count projection)" "''...''"] assms
    by (simp add: maxNotificationRunes_def)
  then show ?thesis
    using rune_count_append_le [of "truncateRunes prefix (maxNotificationRunes - int (rune_count projection)) ''...''" projection]
    by (simp add: appendPausedInputProjection_def)
qed

section \<open>Names the shell reads back\<close>

text \<open>
  How a POSIX shell reads one word: \<open>True\<close> is inside single quotes, where nothing is special;
  outside, a backslash takes the next character and only characters without meaning stand for
  themselves. \<open>None\<close> is an open quote or a character that ends or changes the word.
\<close>

fun sh_word :: "bool \<Rightarrow> string \<Rightarrow> string option" where
  "sh_word quoted [] = (if quoted then None else Some [])"
| "sh_word True (c # s) = (if c = CHR 0x27 then sh_word False s else map_option ((#) c) (sh_word True s))"
| "sh_word False (c # s) =
     (if c = CHR 0x27 then sh_word True s
      else if c = CHR 0x5C then (case s of [] \<Rightarrow> None | d # t \<Rightarrow> if d = CHR 0x0A then None else map_option ((#) d) (sh_word False t))
      else if safe_shell_rune (byte_of c) then map_option ((#) c) (sh_word False s)
      else None)"

lemma sh_word_quoted: "sh_word True (replace_byte (CHR 0x27) ([CHR 0x27] @ [CHR 0x5C] @ [CHR 0x27] @ [CHR 0x27]) v @ [CHR 0x27]) = Some v"
  by (induction v) (simp_all add: replace_byte_def)

lemma decode_low:
  assumes "s \<noteq> []" and "fst (decode_rune s) < 128"
  shows "rune_width s = 1 \<and> byte_of (hd s) = fst (decode_rune s)"
proof -
  have sh: "rune_shape s (rune_width s)"
    using shape_of_decode [OF assms(1)] assms(2) by fastforce
  have r: "fst (decode_rune s) = rune_of s (rune_width s)" using decode_of_shape [OF sh] by simp
  with assms sh have "rune_width s = 1"
    by (auto simp: rune_shape_def rune_of_def second_ok_def second_lo_def cont_byte_def split: if_splits)
  with r assms(1) show ?thesis by (simp add: rune_of_def hd_conv_nth)
qed

lemma safe_shell_low: "safe_shell_rune r \<Longrightarrow> r < 128"
  by (auto simp: safe_shell_rune_def)

lemma sh_word_safe:
  assumes "list_all (\<lambda>p. safe_shell_rune (fst p)) (runes v)"
  shows "sh_word False v = Some v"
  using assms
proof (induction v rule: runes_induct)
  case (Rune s)
  then have safe: "safe_shell_rune (fst (decode_rune s))" by (simp add: runes_cons)
  from decode_low [OF Rune.hyps safe_shell_low [OF this]] have w: "rune_width s = 1" "byte_of (hd s) = fst (decode_rune s)" by simp_all
  obtain c t where s: "s = c # t" using Rune.hyps by (cases s) auto
  have "sh_word False t = Some t" using Rune w by (simp add: runes_cons s)
  moreover have "c \<noteq> CHR 0x27" "c \<noteq> CHR 0x5C" "safe_shell_rune (byte_of c)"
    using safe w(2) by (auto simp: s safe_shell_rune_def)
  ultimately show ?case by (simp add: s)
qed simp

text \<open>
  A server or role name printed in a command for the operator's shell is one word of it
  with exactly that name, whatever characters it holds, so a name cannot add options or a
  second command to the line.
\<close>

theorem shell_quote_roundtrip: "shellQuoteMCPName v \<noteq> [] \<and> sh_word False (shellQuoteMCPName v) = Some v"
proof (cases "v \<noteq> '''' \<and> list_all (\<lambda>p. safe_shell_rune (fst p)) (runes v)")
  case True
  then show ?thesis using sh_word_safe by (simp add: shellQuoteMCPName_def)
next
  case False
  then have "shellQuoteMCPName v = [CHR 0x27] @ replace_byte (CHR 0x27) ([CHR 0x27] @ [CHR 0x5C] @ [CHR 0x27] @ [CHR 0x27]) v @ [CHR 0x27]" by (auto simp: shellQuoteMCPName_def)
  then show ?thesis using sh_word_quoted [of v] by simp
qed

text \<open>
  The gateway announces that all servers are available exactly when there is a server and
  every enabled one is connected, authorized, complete and idle: never while an operation runs
  or a server is broken.
\<close>

theorem full_availability_truthful:
  "formatMCPNotification (Some v) = mcpAllAvailableNotification
     \<longleftrightarrow> mc_Servers v \<noteq> [] \<and> (\<forall>s \<in> set (mc_Servers v). ms_DesiredEnabled s \<longrightarrow> mcp_available s)"
proof -
  have text_iff: "formatMCPStatus (Some w) = mcpAllAvailableNotification \<longleftrightarrow> mc_Servers w \<noteq> [] \<and> mcp_reported (mc_Servers w) = []" for w
    by (cases "mcp_reported (mc_Servers w)") (auto simp: formatMCPStatus_def mcpAllAvailableNotification_def mcp_row_def eol_def)
  have none: "mcp_reported ss = [] \<longleftrightarrow> (\<forall>s \<in> set ss. ms_DesiredEnabled s \<longrightarrow> mcp_available s)" for ss
    by (auto simp: mcp_reported_def filter_empty_conv)
  have idle: "\<not> mcp_pending s" if "ms_DesiredEnabled s \<longrightarrow> mcp_available s" for s
    using that by (auto simp: mcp_pending_def mcp_available_def)
  show ?thesis
  proof (cases "list_ex mcp_pending (mc_Servers v)")
    case True
    then obtain s where "s \<in> set (mc_Servers v)" "mcp_pending s" by (auto simp: list_ex_iff)
    with True idle show ?thesis by (auto simp: formatMCPNotification_def Let_def mcpAllAvailableNotification_def)
  next
    case False
    then have "filter (\<lambda>s. \<not> mcp_pending s) (mc_Servers v) = mc_Servers v" by (auto simp: list_ex_iff filter_id_conv)
    with False show ?thesis by (simp add: formatMCPNotification_def Let_def text_iff none)
  qed
qed

definition witness_server :: "string \<Rightarrow> mcp_server_status" where
  "witness_server auth = \<lparr>ms_Ref = \<lparr>mr_WorkspaceID = ''w'', mr_Owner = ''main'', mr_ServerName = ''issues''\<rparr>,
     ms_DesiredEnabled = True, ms_Auth = auth, ms_Operations = [], ms_Connection = ''connected'', ms_Catalog = ''ready'',
     ms_ScopeRequirements = [], ms_Diagnostic = \<lparr>md_ErrorClass = '''', md_SuggestedAction = ''''\<rparr>\<rparr>"

lemma full_availability_truthful_witness:
  "formatMCPNotification (Some \<lparr>mc_SchemaVersion = 1, mc_BindingID = ''b'', mc_Version = 1,
       mc_Servers = [witness_server ''ready'']\<rparr>) = mcpAllAvailableNotification
   \<and> formatMCPNotification (Some \<lparr>mc_SchemaVersion = 1, mc_BindingID = ''b'', mc_Version = 2,
       mc_Servers = [witness_server ''ready'', witness_server ''missing'']\<rparr>) \<noteq> mcpAllAvailableNotification"
  unfolding full_availability_truthful by (simp add: witness_server_def mcp_available_def)

section \<open>A transfer's status fits\<close>

definition small_count :: "int \<Rightarrow> bool" where
  "small_count i \<longleftrightarrow> 0 \<le> i \<and> i < 10 ^ 12"

lemma small_digits: "small_count i \<Longrightarrow> rune_count (itoa i) \<le> 12"
  by (rule itoa_count) (simp_all add: small_count_def)

lemma transfer_outcome_count: "rune_count (transfer_outcome state) \<le> 81"
  by (rule order_trans [OF rune_count_le_length]) (simp add: transfer_outcome_def eol_def)

lemma transfer_head_count:
  assumes "small_count (tr_PendingInputs s)"
  shows "rune_count (transfer_head s) \<le> 910"
  unfolding transfer_head_def
  by (rule order_trans, (rule bound_parts transfer_outcome_count small_digits [OF assms] rune_count_le_length)+, simp add: eol_def)

lemma transfer_rows_count:
  assumes "transfer_rows total_count used shown bs = (rows, k)" and "0 \<le> used"
  shows "rows = '''' \<and> k = shown
    \<or> used + int (rune_count rows) + int (rune_count (transfer_footer (total_count - k))) \<le> maxNotificationRunes"
  using assms
proof (induction total_count used shown bs arbitrary: rows rule: transfer_rows.induct)
  case (2 total_count used shown b bs)
  let ?n = "int (rune_count (blocker_row b))"
  show ?case
  proof (cases "maxNotificationRunes < used + ?n + int (rune_count (transfer_footer (total_count - shown - 1)))")
    case True
    with 2 show ?thesis by simp
  next
    case False
    obtain rest j where r: "transfer_rows total_count (used + ?n) (shown + 1) bs = (rest, j)" by (metis prod.exhaust)
    with 2 False have eq: "rows = blocker_row b @ rest" "k = j" by simp_all
    have "rune_count rows \<le> rune_count (blocker_row b) + rune_count rest" unfolding eq by (rule rune_count_append_le)
    with "2.IH" [OF refl refl] r False eq "2.prems"(2) show ?thesis by (auto simp: algebra_simps)
  qed
qed simp

lemma transfer_footer_count: "small_count remaining \<Longrightarrow> rune_count (transfer_footer remaining) \<le> 65"
  unfolding transfer_footer_def
  by (rule order_trans, (rule bound_parts small_digits rune_count_le_length | assumption)+,
      simp add: eol_def uni_length is_surrogate_def)

text \<open>
  The status of a transfer always fits one chat message of 1000 runes, however long its
  identifiers, error and blockers are, so the error, the wait outcome and the next action in
  it are never cut off. Counts are below 10^12.
\<close>

theorem transfer_status_fits:
  assumes "small_count (tr_PendingInputs s)" and "tr_BlockerCount s < 10 ^ 12" and "int (length (tr_Blockers s)) < 10 ^ 12"
  shows "rune_count (formatTransferStatus s) \<le> 1000"
proof (cases "blocker_total s \<le> 0")
  case True
  then show ?thesis using transfer_head_count [OF assms(1)] by (simp add: formatTransferStatus_def Let_def)
next
  case False
  then have tot: "small_count (blocker_total s)" using assms(2,3) by (auto simp: small_count_def blocker_total_def)
  let ?head = "transfer_head s @ (eol @ ''Blockers: '') @ itoa (blocker_total s)"
  have head: "rune_count ?head \<le> 934"
    by (rule order_trans, (rule bound_parts transfer_head_count [OF assms(1)] small_digits [OF tot] rune_count_le_length)+,
        simp add: eol_def)
  obtain rows k where r: "transfer_rows (blocker_total s) (int (rune_count ?head)) 0 (take 3 (tr_Blockers s)) = (rows, k)"
    by (metis prod.exhaust)
  have eq: "formatTransferStatus s = (?head @ rows) @ transfer_footer (blocker_total s - k)"
    using False r by (simp add: formatTransferStatus_def Let_def)
  have join: "rune_count (formatTransferStatus s)
      \<le> rune_count ?head + rune_count rows + rune_count (transfer_footer (blocker_total s - k))"
    unfolding eq by (intro order_trans [OF rune_count_append_le] add_mono rune_count_append_le order_refl)
  from transfer_rows_count [OF r] show ?thesis
  proof
    assume "rows = '''' \<and> k = 0"
    then show ?thesis using join head transfer_footer_count [OF tot] by (simp add: rune_count_def)
  next
    assume "int (rune_count ?head) + int (rune_count rows) + int (rune_count (transfer_footer (blocker_total s - k))) \<le> maxNotificationRunes"
    with join show ?thesis unfolding maxNotificationRunes_def by linarith
  qed (rule of_nat_0_le_iff)
qed

definition witness_transfer :: "string \<Rightarrow> int \<Rightarrow> transfer_status" where
  "witness_transfer state blockers = \<lparr>tr_BindingInstanceID = ''b'', tr_TransferID = ''t1'', tr_SessionID = ''s1'',
     tr_SourceRuntimeID = ''r'', tr_SourceSessionEpoch = 1, tr_Workspace = ''/w'', tr_TargetKind = ''local'', tr_TargetInstanceID = '''',
     tr_State = state, tr_StartedAt = '''', tr_WaitExpired = False, tr_PendingInputs = 0, tr_CheckpointID = '''', tr_ErrorCode = '''',
     tr_Message = '''', tr_RecoverableAction = '''',
     tr_Blockers = [\<lparr>tb_OwnerTaskID = ''a'', tb_Type = ''tool'', tb_StartedAt = '''', tb_Description = ''x''\<rparr>,
       \<lparr>tb_OwnerTaskID = ''b'', tb_Type = ''tool'', tb_StartedAt = '''', tb_Description = ''y''\<rparr>],
     tr_BlockerCount = blockers\<rparr>"

lemma transfer_status_fits_witness: "rune_count (formatTransferStatus (witness_transfer ''draining'' 5)) \<le> 1000"
  by (rule transfer_status_fits) (simp_all add: witness_transfer_def small_count_def)

section \<open>Notices of one transfer are rare\<close>

text \<open>
  What the chat is told of one transfer of a binding: each event has a status, its text and
  the time. An event that is neither terminal nor a failure is progress.
\<close>

type_synonym transfer_event = "transfer_status \<times> string \<times> gotime"

definition progress_event :: "string \<Rightarrow> transfer_event \<Rightarrow> bool" where
  "progress_event i e \<longleftrightarrow> (case e of (s, body, now) \<Rightarrow>
     tr_TransferID s = i \<and> \<not> isTransferTerminalState (tr_State s) \<and> tr_ErrorCode s = '''')"

fun visible_events :: "string \<Rightarrow> transfer_event list \<Rightarrow> (string, transfer_notice) gomap \<Rightarrow> nat" where
  "visible_events key [] notices = 0"
| "visible_events key ((s, body, now) # es) notices =
     (let (notices1, shown) = transferEventVisible key (Some s) body now notices in
      (if shown then 1 else 0) + visible_events key es notices1)"

lemma progress_step:
  assumes "transferEventVisible key (Some s) body now notices = (notices1, True)" and "progress_event i (s, body, now)"
  shows "get_or no_notice notices1 key = \<lparr>tn_TransferID = i, tn_ProgressAt = now, tn_LastText = body\<rparr>
    \<and> (tn_TransferID (get_or no_notice notices key) = i \<longrightarrow> minute \<le> time_sub now (tn_ProgressAt (get_or no_notice notices key)))"
  using assms by (auto simp: transferEventVisible_def progress_event_def Let_def get_or_def transferProgressInterval_def split: if_splits)

lemma progress_hidden: "transferEventVisible key (Some s) body now notices = (notices1, False) \<Longrightarrow> notices1 = notices"
  by (auto simp: transferEventVisible_def Let_def split: if_splits)

lemma visible_after:
  assumes "list_all (progress_event i) es" and "tn_TransferID (get_or no_notice notices key) = i"
    and "tn_ProgressAt (get_or no_notice notices key) \<le> stop" and "list_all (\<lambda>(s, body, now). now \<le> stop) es"
  shows "int (visible_events key es notices) * minute \<le> stop - tn_ProgressAt (get_or no_notice notices key)"
  using assms
proof (induction es arbitrary: notices)
  case (Cons e es)
  obtain s body now where e: "e = (s, body, now)" by (metis prod.exhaust)
  obtain notices1 shown where v: "transferEventVisible key (Some s) body now notices = (notices1, shown)" by (metis prod.exhaust)
  show ?case
  proof (cases shown)
    case True
    with v Cons.prems progress_step [of key s body now notices notices1 i] have
      n: "get_or no_notice notices1 key = \<lparr>tn_TransferID = i, tn_ProgressAt = now, tn_LastText = body\<rparr>"
        "minute \<le> time_sub now (tn_ProgressAt (get_or no_notice notices key))" by (simp_all add: e)
    then have "tn_ProgressAt (get_or no_notice notices key) + minute \<le> now"
      using time_sub_ge_iff [of minute] by (simp add: min_duration_def max_duration_def)
    moreover have "int (visible_events key es notices1) * minute \<le> stop - now"
      using Cons.IH [of notices1] Cons.prems n by (simp add: e)
    ultimately show ?thesis using True v by (simp add: e algebra_simps)
  next
    case False
    with v have "notices1 = notices" using progress_hidden by simp
    with False v Cons show ?thesis by (simp add: e)
  qed
qed simp

text \<open>
  However often a source republishes its progress, the chat is told at most once and then
  once a minute: of the events of an unfinished transfer from \<open>start\<close> to \<open>stop\<close>, those that
  become visible are no more than one and the whole minutes between them.
\<close>

theorem transfer_notices_rare:
  assumes "list_all (progress_event i) es" and "list_all (\<lambda>(s, body, now). start \<le> now \<and> now \<le> stop) es"
    and "start \<le> stop" and "tn_TransferID (get_or no_notice notices key) \<noteq> i"
  shows "int (visible_events key es notices) \<le> 1 + (stop - start) div minute"
  using assms
proof (induction es arbitrary: notices)
  case Nil
  then show ?case by (simp add: pos_imp_zdiv_nonneg_iff)
next
  case (Cons e es)
  obtain s body now where e: "e = (s, body, now)" by (metis prod.exhaust)
  obtain notices1 shown where v: "transferEventVisible key (Some s) body now notices = (notices1, shown)" by (metis prod.exhaust)
  have stop: "list_all (\<lambda>(s, body, now). now \<le> stop) es" using Cons.prems(2) by (auto simp: list_all_iff)
  show ?case
  proof (cases shown)
    case True
    with v Cons.prems(1) progress_step [of key s body now notices notices1 i]
    have n: "get_or no_notice notices1 key = \<lparr>tn_TransferID = i, tn_ProgressAt = now, tn_LastText = body\<rparr>" by (simp add: e)
    have "int (visible_events key es notices1) * minute \<le> stop - now"
      using visible_after [of i es notices1 key stop] Cons.prems(1,2) stop n by (simp add: e)
    then have "int (visible_events key es notices1) * minute \<le> stop - start" using Cons.prems(2) by (simp add: e)
    then have "int (visible_events key es notices1) \<le> (stop - start) div minute"
      using zdiv_mono1 [of "int (visible_events key es notices1) * minute" "stop - start" minute] by simp
    with v True show ?thesis by (simp add: e)
  next
    case False
    with v have "notices1 = notices" using progress_hidden by simp
    with False v Cons show ?thesis by (simp add: e)
  qed
qed

lemma transfer_notices_rare_witness:
  "visible_events ''k'' [(witness_transfer ''draining'' 1, ''a'', 10), (witness_transfer ''draining'' 2, ''b'', 11),
     (witness_transfer ''draining'' 1, ''c'', 10 + minute)] [] \<le> 2"
  using transfer_notices_rare [of "''t1''" "[(witness_transfer ''draining'' 1, ''a'', 10), (witness_transfer ''draining'' 2, ''b'', 11),
      (witness_transfer ''draining'' 1, ''c'', 10 + minute)]" 10 "10 + minute" "[]" "''k''"]
  by (simp add: progress_event_def witness_transfer_def isTransferTerminalState_def no_notice_def get_or_def)

text \<open>
  A report that names two blockers and knows of more does not count the others: the line for
  them is printed only when there is a third row, and the footer is skipped once two are shown.
\<close>

lemma blocker_row_count: "rune_count (blocker_row b) \<le> 177"
  unfolding blocker_row_def
  by (rule order_trans, (rule bound_parts rune_count_le_length)+, simp add: eol_def uni_length is_surrogate_def)

lemma progress_footer_count:
  assumes "small_count remaining" and "rune_count statusHint \<le> 100"
  shows "rune_count (progress_footer statusHint shown remaining) \<le> 150"
  unfolding progress_footer_def
  by (rule order_trans, (rule bound_parts small_digits [OF assms(1)] assms(2) rune_count_le_length)+, simp add: eol_def)

lemma two_blockers_uncounted:
  assumes "small_count (total_count - 2)" and "rune_count statusHint \<le> 100" and "used \<le> 200" and "total_count < 10 ^ 11"
  shows "progress_rows statusHint total_count used 0 [b1, b2] = (blocker_row b1 @ blocker_row b2, 2)
    \<and> progress_footer statusHint 2 (total_count - 2) = ''''"
proof -
  have "rune_count (progress_footer statusHint k (total_count - 1)) \<le> 150" "rune_count (progress_footer statusHint k (total_count - 2)) \<le> 150" for k
    using assms by (intro progress_footer_count; simp add: small_count_def)+
  from this(1) [of 0] this(2) [of 1] blocker_row_count [of b1] blocker_row_count [of b2] assms(3) have
    "used + int (rune_count (blocker_row b1)) + int (rune_count (progress_footer statusHint 0 (total_count - 1))) \<le> 1000"
    "used + int (rune_count (blocker_row b1)) + int (rune_count (blocker_row b2))
       + int (rune_count (progress_footer statusHint 1 (total_count - 2))) \<le> 1000"
    by linarith+
  then show ?thesis
    by (simp add: transferProgressBlockers_def maxNotificationRunes_def Let_def progress_footer_def [of _ 2] not_less
        of_nat_diff algebra_simps)
qed

end
