(* ===== verification/Notifications.thy ===== *)
theory Notifications
  imports StatusTexts GatewayConfig
begin

text \<open>
  \<open>internal/gateway/router_format.go\<close>: what a chat is shown for each event of a process. The
  JSON arguments of a tool call are read by \<open>json.Unmarshal\<close>, a parameter that gives the object
  as a map, or \<open>None\<close> for its error; of a value the code asks only whether it is text, a list, or
  how \<open>fmt\<close> prints it with \<open>%v\<close>. Durations are whole seconds: for turns under three months the
  floating-point seconds the code truncates are the same.
\<close>

datatype json_any = JText string | JList "json_any list" | JOther string

fun show_any :: "json_any \<Rightarrow> string" where
  "show_any (JText s) = s"
| "show_any (JList vs) = ''['' @ join '' '' (map show_any vs) @ '']''"
| "show_any (JOther s) = s"

type_synonym json_args = "string \<Rightarrow> (string, json_any) gomap option"

text \<open>\<open>text, _ := args[key].(string)\<close>.\<close>

definition text_arg :: "(string, json_any) gomap \<Rightarrow> string \<Rightarrow> string" where
  "text_arg args key = (case map_of args key of Some (JText s) \<Rightarrow> s | _ \<Rightarrow> '''')"

section \<open>Small pieces\<close>

definition formatCount :: "int \<Rightarrow> string \<Rightarrow> string \<Rightarrow> string" where
  "formatCount n singular plural = (if n = 1 then ''1 '' @ singular else itoa n @ '' '' @ plural)"

definition two_digits :: "int \<Rightarrow> string" where
  "two_digits n = (if n < 10 then ''0'' @ itoa n else itoa n)"

definition formatTurnDuration :: "duration \<Rightarrow> string" where
  "formatTurnDuration d =
     (let secs = d div second; mins = d div minute in
      if d < minute then itoa secs @ ''s''
      else if d < hour then
        (if 0 < secs mod 60 then itoa mins @ ''m'' @ two_digits (secs mod 60) @ ''s'' else itoa mins @ ''m'')
      else itoa (d div hour) @ ''h'' @ two_digits (mins mod 60) @ ''m'')"

definition formatTurnSummary :: "duration \<Rightarrow> int \<Rightarrow> int \<Rightarrow> string" where
  "formatTurnSummary d toolCalls retries =
     join ('' '' @ uni 0xB7 @ '' '') ((if second \<le> d then [formatTurnDuration d] else [])
       @ (if 0 < toolCalls then [formatCount toolCalls ''tool'' ''tools''] else [])
       @ (if 0 < retries then [formatCount retries ''retry'' ''retries''] else []))"

definition isRetryPhase :: "string \<Rightarrow> bool" where
  "isRetryPhase phase \<longleftrightarrow> phase \<in> {''retrying'', ''retrying_key''}"

definition formatTurnStage :: "string \<Rightarrow> string" where
  "formatTurnStage phase =
     (if isRetryPhase phase then ''retrying''
      else if phase = ''preparing'' then ''preparing''
      else if phase = ''streaming'' then ''receiving reply''
      else if phase = ''executing'' then ''running tools''
      else if phase = ''compacting'' then ''checkpointing context''
      else if phase = ''cooling'' then ''cooling down'' else '''')"

definition agentAttribution :: "string \<Rightarrow> string" where
  "agentAttribution agentID =
     (let i = trim_space agentID in if i \<in> {'''', ''main''} then '''' else ('' '' @ uni 0xB7 @ '' '') @ i)"

definition formatAgentLabel :: "string \<Rightarrow> string \<Rightarrow> string \<Rightarrow> string" where
  "formatAgentLabel agentType agentID taskID =
     (let label = trim_space agentType;
          label = (if label = '''' then trim_space agentID else label);
          label = (if label = '''' then ''SubAgent'' else label) in
      if trim_space taskID \<noteq> '''' then label @ ('' '' @ uni 0xB7 @ '' '') @ trim_space taskID else label)"

definition has_suffix :: "string \<Rightarrow> string \<Rightarrow> bool" where
  "has_suffix s t \<longleftrightarrow> length t \<le> length s \<and> drop (length s - length t) s = t"

definition strip_reminder :: "string \<Rightarrow> string" where
  "strip_reminder m =
     (let start = ''<system-reminder>''; stop = ''</system-reminder>'' in
      if has_prefix m start \<and> has_suffix m stop
      then trim_space (take (length m - length stop - length start) (drop (length start) m)) else m)"

definition agentDoneReport :: "string \<Rightarrow> string" where
  "agentDoneReport message =
     (let m = strip_reminder (trim_space message); mark = (eol @ ''- summary:'') in
      if has_prefix m (''SubAgent mailbox update:'' @ eol) then
        (case str_index m mark of Some k \<Rightarrow> trim_space (drop (k + length mark) m) | None \<Rightarrow> m)
      else m)"

section \<open>Agents and notices\<close>

definition formatAgentStartedNotification :: "control_state \<Rightarrow> string" where
  "formatAgentStartedNotification s = (case st_LastAgentStarted s of None \<Rightarrow> '''' | Some p \<Rightarrow>
     let label = formatAgentLabel (as_AgentType p) (as_AgentID p) (as_TaskID p); description = trim_space (as_Description p) in
     truncate_text ((uni 0x1F9E9 @ '' Delegated '') @ label @ (if description = '''' then '''' else eol @ description)))"

definition formatAgentNotifyNotification :: "control_state \<Rightarrow> string" where
  "formatAgentNotifyNotification s = (case st_LastAgentNotify s of None \<Rightarrow> '''' | Some p \<Rightarrow>
     if trim_space (an_Message p) = '''' then ''''
     else let label = formatAgentLabel (an_AgentType p) (an_AgentID p) (an_TaskID p);
              kind = trim_space (an_Kind p); sub = trim_space (an_Subtype p);
              label = (if kind \<noteq> '''' \<and> sub \<noteq> '''' then label @ ('' '' @ uni 0xB7 @ '' '') @ kind @ ''/'' @ sub
                else if kind \<noteq> '''' then label @ ('' '' @ uni 0xB7 @ '' '') @ kind
                else if sub \<noteq> '''' then label @ ('' '' @ uni 0xB7 @ '' '') @ sub else label) in
       truncate_text ((uni 0x1F4E3 @ '' '') @ label @ eol @ trim_space (an_Message p)))"

definition formatAgentDoneNotification :: "control_state \<Rightarrow> string" where
  "formatAgentDoneNotification s = (case st_LastAgentDone s of None \<Rightarrow> '''' | Some p \<Rightarrow>
     let message = (uni 0x2705 @ '' '') @ formatAgentLabel (ap_AgentType p) (ap_AgentID p) (ap_TaskID p) @ '' completed'';
         report = agentDoneReport (ap_Message p);
         report = (if report = '''' then trim_space (ap_Summary p) else report) in
     truncate_text (if report \<noteq> '''' then message @ eol @ report else message))"

definition formatBackgroundResultNotification :: "control_state \<Rightarrow> string" where
  "formatBackgroundResultNotification s = (case st_LastBackgroundResult s of None \<Rightarrow> '''' | Some p \<Rightarrow>
     let content = trim_space (br_Content p) in
     if content = '''' then ''''
     else truncate_text (((uni 0x1F4E5 @ '' Background job result'') @ agentAttribution (br_TargetAgentID p)) @ eol @ content))"

definition formatContextNoticeNotification :: "control_state \<Rightarrow> string" where
  "formatContextNoticeNotification s = (case st_LastContextNotice s of None \<Rightarrow> '''' | Some p \<Rightarrow>
     let message = trim_space (cn_Message p) in
     if message = '''' then ''''
     else let message = message @ agentAttribution (cn_TargetAgentID p); level = trim_space (cn_Level p) in
       if level = ''pressure'' then truncate_text ((uni 0x1F4C8 @ '' '') @ message)
       else if level = ''imminent'' then truncate_text ((uni 0x26A0 @ uni 0xFE0F @ '' '') @ message)
       else if level = ''warning'' then truncate_text ((uni 0x23F3 @ '' '') @ message)
       else truncate_text message)"

definition formatLocalShellNotification :: "control_state \<Rightarrow> string" where
  "formatLocalShellNotification s = (case st_LastLocalShell s of None \<Rightarrow> '''' | Some p \<Rightarrow>
     let status = (if ls_Failed p then uni 0x274C else uni 0x2705);
         out = trim_space (ls_Output p);
         out = (if out = '''' then ''(no output)'' else out);
         msg = status @ '' Local shell: '' @ ls_Command p @ eol @ out in
     truncate_text (if ls_Failed p \<and> trim_space (ls_Error p) \<noteq> '''' then msg @ (eol @ ''Error: '') @ trim_space (ls_Error p) else msg))"

definition formatExpiredPendingNotification :: "control_state \<Rightarrow> string" where
  "formatExpiredPendingNotification s =
     (if st_ExpiredConfirm s \<noteq> None then
        (uni 0x231B @ '' The pending confirmation has expired. It was not approved or denied. Please retry the original request if confirmation is still needed.'')
      else if st_ExpiredHandoff s \<noteq> None then
        (uni 0x231B @ '' The pending handoff request has expired. It was not accepted or denied. Please retry the original request if handoff is still needed.'')
      else '''')"

definition formatHandoffCancelledNotification :: "control_state \<Rightarrow> string" where
  "formatHandoffCancelledNotification s =
     (if st_ExpiredHandoff s = None then ''''
      else (uni 0x231B @ '' The pending handoff request was cancelled (superseded by a new request or session switch).''))"

definition formatIdleNotification :: "control_state \<Rightarrow> string" where
  "formatIdleNotification s =
     (if formatExpiredPendingNotification s \<noteq> '''' then formatExpiredPendingNotification s
      else if st_SuppressUserNotification s then ''''
      else let summary = formatTurnSummary (st_LastTurnDuration s) (st_LastTurnToolCalls s) (st_LastTurnRetries s) in
        (if 0 < st_RunningJobs s \<or> 0 < st_PendingLocalShells s then (uni 0x23F3 @ '' Chord: Ready for input'') else (uni 0x2705 @ '' Chord: Ready for input''))
        @ (if 0 < st_RunningJobs s then ''; background jobs still running: '' @ itoa (st_RunningJobs s) else '''')
        @ (if 0 < st_PendingLocalShells s then ''; local shell commands still running: '' @ itoa (st_PendingLocalShells s) else '''')
        @ (if summary \<noteq> '''' then '' ('' @ summary @ '')'' else ''''))"

definition formatHeadlessNotification :: "control_state \<Rightarrow> string" where
  "formatHeadlessNotification s = (case st_LastNotification s of None \<Rightarrow> '''' | Some n \<Rightarrow>
     let msg = trim_space (np_Message n) in
     if msg = '''' then ''''
     else if np_Reason n \<noteq> ''user_input_required'' then truncate_text msg
     else truncate_text ((uni 0x2753 @ '' '') @ msg))"

definition formatInfoNotification :: "control_state \<Rightarrow> string" where
  "formatInfoNotification s = (if st_InfoMessage s = '''' then '''' else truncate_text ((uni 0x2139 @ uni 0xFE0F @ '' '') @ st_InfoMessage s))"

definition formatToastNotification :: "control_state \<Rightarrow> string" where
  "formatToastNotification s =
     (if st_ToastMessage s = '''' then ''''
      else if st_ToastLevel s \<in> {''warn'', ''error''} then truncate_text ((uni 0x1F514 @ '' '') @ st_ToastMessage s) else '''')"

definition formatTransportErrorNotification :: "control_state \<Rightarrow> string" where
  "formatTransportErrorNotification s = (case st_LastTransportError s of None \<Rightarrow> '''' | Some failure \<Rightarrow>
     if \<not> te_Fatal failure then (uni 0x26A0 @ uni 0xFE0F @ '' Invalid Chord message skipped; reading continues. '') @ te_Message failure
     else ((uni 0x26A0 @ uni 0xFE0F @ '' Chord connection failed and the process was stopped. '') @ te_Message failure)
       @ (if 0 < st_UnconfirmedInputs s then eol @ itoa (st_UnconfirmedInputs s) @ '' inputs have unconfirmed outcomes.'' else '''')
       @ (eol @ ''Check the session before retrying. Inputs were not replayed.''))"

definition formatExitNotification :: "control_state \<Rightarrow> string" where
  "formatExitNotification s = (if st_Busy s then (uni 0x1F50C @ '' Chord process exited unexpectedly.'') else '''')"

definition todo_line :: "todo_item \<Rightarrow> string" where
  "todo_line t =
     (if td_Status t = ''in_progress'' then uni 0x25B6 else if td_Status t = ''completed'' then uni 0x2705
      else if td_Status t = ''cancelled'' then uni 0x274C else uni 0x2B1C)
     @ '' '' @ td_Content t @ (if td_ActiveForm t \<noteq> '''' then '' ('' @ td_ActiveForm t @ '')'' else '''')"

definition formatTodoList :: "todo_item list \<Rightarrow> string" where
  "formatTodoList todos =
     (if todos = [] then (uni 0x1F4CB @ '' No todos.'') else truncate_text ((uni 0x1F4CB @ '' Todos:'' @ eol) @ join eol (map todo_line todos)))"

section \<open>Tool calls\<close>

definition parseDoneArgs :: "json_args \<Rightarrow> string \<Rightarrow> string \<times> string" where
  "parseDoneArgs parse argsJSON =
     (if trim_space argsJSON = '''' then ('''', '''')
      else case parse argsJSON of
        None \<Rightarrow> ('''', '''')
      | Some args \<Rightarrow> (trim_space (text_arg args ''report''), trim_space (text_arg args ''reason'')))"

text \<open>The tools that have a summary of their own; \<open>None\<close> goes on to the generic one.\<close>

definition tool_summary :: "json_args \<Rightarrow> string \<Rightarrow> string \<Rightarrow> (string, json_any) gomap \<Rightarrow> string option" where
  "tool_summary parse toolName argsJSON args =
     (let path = text_arg args ''path'' in
      if toolName = ''Done'' then
        (let (report, reason) = parseDoneArgs parse argsJSON in
         if report \<noteq> '''' then Some report else if reason \<noteq> '''' then Some reason else None)
      else if toolName \<in> {''Shell'', ''Spawn''} then
        (let cmd = text_arg args ''command'' in if cmd \<noteq> '''' then Some (''$ '' @ truncateLine cmd 300) else None)
      else if toolName \<in> {''Write'', ''Edit''} then
        (if path \<noteq> '''' then Some ((uni 0x1F4DD @ '' '') @ truncateLine path 160) else None)
      else if toolName = ''Delete'' then
        (case map_of args ''paths'' of Some (JList (JText s # _)) \<Rightarrow> Some ((uni 0x1F5D1 @ uni 0xFE0F @ '' '') @ truncateLine s 160) | _ \<Rightarrow> None)
      else if toolName = ''Read'' then
        (if path \<noteq> '''' then Some ((uni 0x1F4D6 @ '' '') @ truncateLine path 160) else None)
      else if toolName \<in> {''Grep'', ''Glob''} then
        (let pat = text_arg args ''pattern'' in if pat \<noteq> '''' then Some ((uni 0x1F50D @ '' '') @ truncateLine pat 160) else None)
      else if toolName = ''WebFetch'' then
        (let url = text_arg args ''url'' in if url \<noteq> '''' then Some ((uni 0x1F310 @ '' '') @ truncateLine url 160) else None)
      else if toolName = ''Lsp'' then
        (let summary = trim_space (text_arg args ''operation'' @ '' '' @ path) in
         if summary \<noteq> '''' then Some ((uni 0x1F50E @ '' '') @ truncateLine summary 180) else None)
      else None)"

definition generic_keys :: "string list" where
  "generic_keys = [''command'', ''path'', ''url'', ''pattern'', ''content'', ''description'']"

definition generic_parts :: "(string, json_any) gomap \<Rightarrow> string list" where
  "generic_parts args =
     take 3 (concat (map (\<lambda>key. case map_of args key of
         Some v \<Rightarrow> [key @ ''='' @ truncateLine (show_any v) 120] | None \<Rightarrow> []) generic_keys))"

definition summarizeToolArgs :: "json_args \<Rightarrow> string \<Rightarrow> string \<Rightarrow> string" where
  "summarizeToolArgs parse toolName argsJSON =
     (if trim_space argsJSON = '''' then ''''
      else case parse argsJSON of
        None \<Rightarrow> truncateLine argsJSON 200
      | Some args \<Rightarrow>
          (case tool_summary parse toolName argsJSON args of
             Some s \<Rightarrow> s
           | None \<Rightarrow>
               if generic_parts args \<noteq> [] then join '' '' (generic_parts args) else truncateLine argsJSON 200))"

definition doneConfirmReportReason :: "json_args \<Rightarrow> confirm_payload \<Rightarrow> string \<times> string" where
  "doneConfirmReportReason parse c =
     (let report = trim_space (cp_DoneReport c); reason = trim_space (cp_DoneReason c);
          (argReport, argReason) = parseDoneArgs parse (cp_ArgsJSON c) in
      (if report = '''' then argReport else report, if reason = '''' then argReason else reason))"

section \<open>Requests for a decision\<close>

definition formatDoneConfirmNotification :: "json_args \<Rightarrow> confirm_payload \<Rightarrow> (string \<Rightarrow> string) option \<Rightarrow> string" where
  "formatDoneConfirmNotification parse c hint =
     (let (report, reason) = doneConfirmReportReason parse c in
      truncate_text ((uni 0x2705 @ '' Done requests completion'')
        @ (if reason \<noteq> '''' then (eol @ ''Reason: '') @ reason else '''')
        @ (if report \<noteq> '''' then (eol @ eol) @ report else '''')
        @ (eol @ eol @ ''Reply '') @ commandHint ''/allow'' hint @ '' to finish, or '' @ commandHint ''/deny <reason>'' hint @ '' to continue.''))"

definition rule_line :: "confirm_payload \<Rightarrow> confirm_rule_item \<Rightarrow> string" where
  "rule_line c rule =
     (let tool = trim_space (cr_Tool rule) in
      (eol @ ''  '' @ uni 0x2022 @ '' '') @ (if tool = '''' then cp_ToolName c else tool) @ '': '' @ cr_Pattern rule)"

definition formatConfirmNotification :: "json_args \<Rightarrow> control_state \<Rightarrow> (string \<Rightarrow> string) option \<Rightarrow> string" where
  "formatConfirmNotification parse s hint = (case st_PendingConfirm s of None \<Rightarrow> '''' | Some c \<Rightarrow>
     if isDoneTool (cp_ToolName c) then formatDoneConfirmNotification parse c hint
     else let summary = summarizeToolArgs parse (cp_ToolName c) (cp_ArgsJSON c);
              rules = RuleCandidates (Some c) in
       truncate_text ((uni 0x1F527 @ '' Confirm required: '') @ cp_ToolName c
         @ (if summary \<noteq> '''' then eol @ summary else '''')
         @ (if cp_NeedsApproval c \<noteq> [] then eol @ concat (map (\<lambda>p. (''  '' @ uni 0x2022 @ '' '') @ p) (cp_NeedsApproval c)) else '''')
         @ (eol @ ''Reply '') @ commandHint ''/allow'' hint @ '' or '' @ commandHint ''/deny [reason]'' hint
         @ (if rules \<noteq> [] then (eol @ ''Rules offered by Chord:'') @ concat (map (rule_line c) rules)
              @ (eol @ ''To also remember these, reply '') @ commandHint ''/allow --session'' hint @ '' (or --project / --user).''
            else '''')))"

definition handoff_agent_line :: "handoff_agent_option \<Rightarrow> string" where
  "handoff_agent_line a =
     (if trim_space (ho_Name a) = '''' then ''''
      else (eol @ ''- '') @ ho_Name a @ (if ho_Default a then '' (default)'' else '''')
        @ (if trim_space (ho_CurrentModelPool a) \<noteq> '''' then '' current='' @ ho_CurrentModelPool a else '''')
        @ (if ho_ModelPools a \<noteq> [] then '' pools='' @ join '', '' (ho_ModelPools a) else ''''))"

definition formatHandoffNotification :: "control_state \<Rightarrow> (string \<Rightarrow> string) option \<Rightarrow> string" where
  "formatHandoffNotification s hint = (case st_PendingHandoff s of None \<Rightarrow> '''' | Some h \<Rightarrow>
     (uni 0x1F91D @ '' Handoff requested'')
     @ (if trim_space (hp_PlanPath h) \<noteq> '''' then (eol @ uni 0x1F4C4 @ '' Plan: '') @ hp_PlanPath h else '''')
     @ (if trim_space (hp_PlanError h) \<noteq> '''' then (eol @ uni 0x26A0 @ uni 0xFE0F @ '' Failed to read full plan: '') @ hp_PlanError h else '''')
     @ (if trim_space (hp_PlanText h) \<noteq> '''' then (eol @ eol) @ hp_PlanText h else '''')
     @ (if hp_Agents h \<noteq> [] then (eol @ eol @ ''Agents / model pools:'') @ concat (map handoff_agent_line (hp_Agents h)) else '''')
     @ (eol @ eol @ ''Reply '') @ commandHint ''/handoff <agent> [model_pool]'' hint @ '' to execute, '' @ commandHint ''/handoff'' hint
     @ '' to use the default, or '' @ commandHint ''/handoff-deny <reason>'' hint @ '' to reject.'')"

definition option_line :: "question_payload \<Rightarrow> nat \<Rightarrow> string \<Rightarrow> string" where
  "option_line q i opt =
     (eol @ ''  '') @ itoa (int i + 1) @ ''. '' @ opt
     @ (if i < length (qp_OptionDetails q) \<and> qp_OptionDetails q ! i \<noteq> '''' \<and> qp_OptionDetails q ! i \<noteq> opt
        then ('' '' @ uni 0x2014 @ '' '') @ (qp_OptionDetails q ! i) else '''')"

definition formatQuestionNotification :: "control_state \<Rightarrow> (string \<Rightarrow> string) option \<Rightarrow> string" where
  "formatQuestionNotification s hint = (case questionForNotification s of None \<Rightarrow> '''' | Some q \<Rightarrow>
     truncate_text ((uni 0x2753 @ '' '') @ (if qp_Header q \<noteq> '''' then qp_Header q @ '': '' else '''') @ qp_Question q
       @ concat (map (\<lambda>(i, opt). option_line q i opt) (enumerate 0 (qp_Options q)))
       @ (if qp_Multiple q then '' (multi-select)'' else '''')
       @ (eol @ ''Reply '') @ commandHint (''/answer @'' @ qp_RequestID q
           @ (if qp_Options q = [] then '' <answer>'' else if qp_Multiple q then '' 1,2'' else '' 1'')) hint))"

section \<open>Resolutions\<close>

definition questionResolvedCardStatus :: "string \<Rightarrow> string \<times> string \<times> string" where
  "questionResolvedCardStatus reason =
     (if reason = ''defaulted'' then
        (''Question defaulted'', (uni 0x231B @ '' Core adopted the default (system decision, not user consent).''), ''grey'')
      else if reason = ''answered'' then (''Question answered'', (uni 0x2705 @ '' Answer accepted by chord.''), ''green'')
      else if reason = ''no_response'' then (''Question expired'', (uni 0x231B @ '' No answer before the deadline.''), ''grey'')
      else if reason = ''superseded'' then (''Question superseded'', (uni 0x1F501 @ '' Superseded by a newer message.''), ''grey'')
      else if reason = ''cancelled'' then (''Question cancelled'', (uni 0x26A0 @ uni 0xFE0F @ '' Cancelled before an answer was recorded.''), ''grey'')
      else (''Question closed'', (uni 0x26A0 @ uni 0xFE0F @ '' Closed after an execution error.''), ''red''))"

definition formatQuestionResolvedNotification :: "control_state \<Rightarrow> (string \<Rightarrow> string) option \<Rightarrow> string" where
  "formatQuestionResolvedNotification s hint = (case st_LastQuestionResolved s of None \<Rightarrow> '''' | Some p \<Rightarrow>
     let message = (if qp_Outcome p = ''defaulted'' then
           (uni 0x231B @ '' No answer received. Core adopted: '') @ join '', '' (qp_Selected p) @ '' (system decision, not user consent).''
         else if qp_Outcome p = ''answered'' then (uni 0x2705 @ '' The answer was accepted: '') @ join '', '' (qp_Selected p)
         else if qp_Outcome p = ''no_response'' then
           (uni 0x231B @ '' No answer before the deadline. You can still revise this question by ID, for example '')
           @ commandHint (''/answer @'' @ qp_RequestID p @ '' <answer>'') hint @ ''; the original outcome stays.''
         else fst (snd (questionResolvedCardStatus (qp_Outcome p)))) in
     truncate_text (''Question: '' @ qp_RequestID p @ eol @ message))"

definition formatConfirmResolvedNotification :: "control_state \<Rightarrow> string" where
  "formatConfirmResolvedNotification s = (case st_LastConfirmResolved s of None \<Rightarrow> '''' | Some p \<Rightarrow>
     if cs_Outcome p = ''timeout'' then
       truncate_text ((uni 0x231B @ '' The pending confirmation ('') @ cs_ToolName p
         @ '') expired and was auto-denied. Reply as a normal message if you still want it.'')
     else if cs_Outcome p = ''cancelled'' then
       truncate_text ((uni 0x231B @ '' The pending confirmation ('') @ cs_ToolName p @ '') was cancelled before you answered.'')
     else '''')"

section \<open>Reminders\<close>

definition formatLongRunningNotification :: "control_state \<Rightarrow> gotime \<Rightarrow> string" where
  "formatLongRunningNotification s now =
     (let waiting = st_PendingConfirm s \<noteq> None \<or> st_Phase s = ''waiting_input'' \<and> 0 < pendingQuestionCount s in
      if st_PendingLocalShells s = 0 \<and> waiting then ''''
      else let showShell = 0 < st_PendingLocalShells s \<and> (st_TurnStartedAt s = 0 \<or> waiting);
               started = (if showShell then st_LocalShellStartedAt s else st_TurnStartedAt s);
               stage = (if showShell then ''running local shell'' else formatTurnStage (st_Phase s));
               parts = (if started \<noteq> 0 \<and> second \<le> time_sub now started then [formatTurnDuration (time_sub now started)] else [])
                 @ (if stage \<noteq> '''' then [stage] else [])
                 @ (if \<not> showShell \<and> 0 < st_TurnToolCalls s then [formatCount (st_TurnToolCalls s) ''tool'' ''tools''] else [])
                 @ (if \<not> showShell \<and> 0 < st_TurnRetries s then [formatCount (st_TurnRetries s) ''retry'' ''retries''] else [])
                 @ (if 0 < st_InternalEventsSinceLastPush s then [itoa (st_InternalEventsSinceLastPush s) @ '' internal events''] else []) in
        truncate_text ((uni 0x23F3 @ '' Still working'') @ (if parts \<noteq> [] then '' ('' @ join ('' '' @ uni 0xB7 @ '' '') parts @ '')'' else '''')))"

section \<open>The status of a binding\<close>

text \<open>\<open>filepath.Base\<close> of a path without a trailing slash, and the name a workspace goes by.\<close>

definition path_base :: "string \<Rightarrow> string" where
  "path_base p = (if p = [] then ''.'' else rev (takeWhile (\<lambda>c. c \<noteq> CHR ''/'') (rev p)))"

definition workspaceDisplayName :: "workspace option \<Rightarrow> string" where
  "workspaceDisplayName ws = (case ws of None \<Rightarrow> ''(unknown)'' | Some w \<Rightarrow>
     let base = path_base (rev (dropWhile (\<lambda>c. c = CHR ''/'') (rev (ws_Path w)))) in
     if base = ''.'' \<or> base = ''/'' \<or> base = '''' then ws_Path w else base)"

definition open_question_lines :: "control_state \<Rightarrow> string" where
  "open_question_lines s =
     concat (map (\<lambda>i. (eol @ ''  '') @ i @ '': '' @ (case map_of (st_Questions s) i of Some q \<Rightarrow> qp_Question q | None \<Rightarrow> ''''))
       (sort (map fst (filter (\<lambda>(i, q). qp_Outcome q = '''') (st_Questions s)))))"

definition compaction_line :: "compaction_status option \<Rightarrow> string" where
  "compaction_line c = (case c of None \<Rightarrow> '''' | Some c \<Rightarrow>
     if co_Status c = '''' \<or> co_Status c = ''started'' then ''''
     else (eol @ uni 0x1F9E0 @ '' Last context checkpoint: '') @ co_Status c
       @ (if co_Trigger c = ''model_driven'' then '' (model-driven)'' else '''')
       @ (if co_Reason c \<noteq> '''' then ('' '' @ uni 0x2014 @ '' '') @ co_Reason c else ''''))"

definition binding_lines :: "workspace option \<Rightarrow> string \<Rightarrow> string \<Rightarrow> control_state \<Rightarrow> string" where
  "binding_lines ws imType chatID s =
     (if (case st_PausedInputs s of None \<Rightarrow> False | Some v \<Rightarrow> pi_Paused v) then (uni 0x23F8 @ uni 0xFE0F @ '' Paused'')
      else if st_Busy s then (uni 0x1F504 @ '' Busy'') else (uni 0x23F8 @ uni 0xFE0F @ '' Idle''))
     @ (if formatMCPStatus (st_MCP s) \<noteq> '''' then eol @ formatMCPStatus (st_MCP s) else '''')
     @ (if formatInputQueueStatus (st_InputQueue s) \<noteq> '''' then eol @ formatInputQueueStatus (st_InputQueue s) else '''')
     @ (if 0 < st_UnconfirmedInputs s
        then (eol @ uni 0x26A0 @ uni 0xFE0F @ '' Unconfirmed inputs: '') @ itoa (st_UnconfirmedInputs s)
          @ ''. Check the original session on the host before resending or changing directories.'' else '''')
     @ (if 0 < st_RunningJobs s then (eol @ uni 0x23F3 @ '' Background jobs: '') @ itoa (st_RunningJobs s) else '''')
     @ (case ws of None \<Rightarrow> '''' | Some w \<Rightarrow> (eol @ uni 0x1F5C2 @ uni 0xFE0F @ '' Workspace: '') @ ws_ID w @ '' ('' @ workspaceDisplayName ws @ '')'')
     @ (if imType \<noteq> '''' \<or> chatID \<noteq> ''''
        then (eol @ uni 0x1F4AC @ '' Binding: '') @ imType @ (if chatID \<noteq> '''' then ''/'' @ chatID else '''') else '''')
     @ (if st_SessionID s \<noteq> '''' then (eol @ uni 0x1F9F5 @ '' Session: '') @ st_SessionID s else (eol @ uni 0x1F9F5 @ '' Session: (none)''))
     @ (if st_CurrentRole s \<noteq> '''' then (eol @ uni 0x1F3AD @ '' Role: '') @ st_CurrentRole s else '''')
     @ (if st_Phase s \<noteq> ''''
        then (eol @ uni 0x1F4CD @ '' Phase: '') @ st_Phase s @ (if st_PhaseDetail s \<noteq> '''' then ('' '' @ uni 0x2014 @ '' '') @ st_PhaseDetail s else '''') else '''')
     @ (case st_PendingConfirm s of None \<Rightarrow> '''' | Some c \<Rightarrow> (eol @ uni 0x1F527 @ '' Pending confirm: '') @ cp_ToolName c)
     @ (if 0 < pendingQuestionCount s
        then (eol @ uni 0x2753 @ '' Pending questions: '') @ itoa (int (pendingQuestionCount s)) @ open_question_lines s else '''')
     @ (if st_LastOutcome s \<noteq> '''' then (eol @ uni 0x1F4CB @ '' Last outcome: '') @ st_LastOutcome s else '''')
     @ compaction_line (st_LastCompaction s)
     @ (if st_LastError s \<noteq> '''' then (eol @ uni 0x274C @ '' Last error: '') @ st_LastError s else '''')
     @ (if st_Todos s \<noteq> []
        then (eol @ uni 0x1F4CB @ '' Todos: '') @ itoa (int (length (filter (\<lambda>t. td_Status t = ''completed'') (st_Todos s)))) @ ''/''
          @ itoa (int (length (st_Todos s))) @ '' completed'' else '''')"

definition formatBindingStatus :: "workspace option \<Rightarrow> string \<Rightarrow> string \<Rightarrow> control_state \<Rightarrow> string" where
  "formatBindingStatus ws imType chatID s =
     appendPausedInputProjection (binding_lines ws imType chatID s) (formatPausedInputs (st_PausedInputs s))"

section \<open>Dispatch on the event\<close>

definition inputResultText :: "control_state \<Rightarrow> string" where
  "inputResultText s = (case st_LastInputResult s of None \<Rightarrow> '''' | Some r \<Rightarrow>
     if ip_Status r = ''rejected'' then ''Input rejected: '' @ ip_Message r
     else if ip_Status r = ''unknown'' then ''Input outcome is unconfirmed. Check the original session on the host before resending; the gateway will not retry it automatically.''
     else '''')"

definition questionRevisionText :: "control_state \<Rightarrow> string" where
  "questionRevisionText s = (case questionForNotification s of None \<Rightarrow> '''' | Some q \<Rightarrow>
     (case qp_RevisionResult q of None \<Rightarrow> '''' | Some r \<Rightarrow>
        truncate_text ((uni 0x2705 @ '' Historical answer updated ('') @ qp_RequestID q @ ''): '' @ join '', '' (qv_Selected r))))"

definition assistantText :: "control_state \<Rightarrow> string" where
  "assistantText s =
     (if st_LastAssistantText s = '''' then ''''
      else if st_LastAssistantAgentID s \<noteq> '''' then
        truncate_text ((uni 0x1F916 @ '' '') @ formatAgentLabel (st_LastAssistantAgentType s) (st_LastAssistantAgentID s) (st_LastAssistantTaskID s)
          @ (eol @ eol) @ trim_space (st_LastAssistantText s))
      else st_LastAssistantText s)"

definition exitText :: "control_state \<Rightarrow> string" where
  "exitText s =
     (if (case st_LastTransportError s of None \<Rightarrow> False | Some e \<Rightarrow> te_Fatal e) then ''''
      else if 0 < st_UnconfirmedInputs s then
        ''Chord disconnected with '' @ itoa (st_UnconfirmedInputs s)
        @ '' unconfirmed inputs. Check the session before sending them again.''
      else formatExitNotification s)"

definition formatNotification :: "(string \<Rightarrow> gotime option) \<Rightarrow> json_args \<Rightarrow> gotime \<Rightarrow> string \<Rightarrow> control_state
    \<Rightarrow> (string \<Rightarrow> string) option \<Rightarrow> string" where
  "formatNotification parse_time parse now event s hint =
     (if event \<in> {''session_transfer_preparing'', ''session_transfer_status'', ''session_transfer_saved'', ''session_transfer_released''} then
        (case st_Transfer s of Some t \<Rightarrow> formatTransferNotice parse_time t now hint | None \<Rightarrow> '''')
      else if event = ''mcp_status_changed'' then formatMCPNotification (st_MCP s)
      else if event = ''input_result'' then inputResultText s
      else if event \<in> {''notification'', ''done_completion''} then formatHeadlessNotification s
      else if event = ''confirm_request'' then formatConfirmNotification parse s hint
      else if event = ''confirm_resolved'' then formatConfirmResolvedNotification s
      else if event = ''question_revision'' then questionRevisionText s
      else if event = ''question_request'' then formatQuestionNotification s hint
      else if event = ''question_resolved'' then formatQuestionResolvedNotification s hint
      else if event = ''question_presentation_error'' then (uni 0x26A0 @ uni 0xFE0F @ '' '') @ st_LastError s
      else if event = ''handoff_request'' then formatHandoffNotification s hint
      else if event = ''handoff_cancelled'' then formatHandoffCancelledNotification s
      else if event = ''idle'' then formatIdleNotification s
      else if event = ''idle_timeout'' then formatExpiredPendingNotification s
      else if event = ''error'' then ''''
      else if event = ''transport_error'' then formatTransportErrorNotification s
      else if event = ''agent_started'' then formatAgentStartedNotification s
      else if event = ''agent_notify'' then formatAgentNotifyNotification s
      else if event = ''agent_done'' then formatAgentDoneNotification s
      else if event = ''background_result'' then formatBackgroundResultNotification s
      else if event = ''context_notice'' then formatContextNoticeNotification s
      else if event = ''assistant_message'' then assistantText s
      else if event = ''local_shell_result'' then formatLocalShellNotification s
      else if event = ''info'' then formatInfoNotification s
      else if event = ''toast'' then formatToastNotification s
      else if event = ''activity'' then ''''
      else if event = ''exit'' then exitText s
      else if event = ''todos'' then formatTodoList (st_Todos s)
      else '''')"

section \<open>The status fits\<close>

text \<open>
  The status of a binding whose paused inputs were accepted from the process is one message
  of at most 1000 runes and ends with the whole projection: every paused input with its owner,
  and the count of those not shown, are never cut off by what comes before them.
\<close>

theorem binding_status_fits:
  assumes "normalizePausedInputs (Some v) = Some (Some w)" and "int64 (pi_PendingInputCount v)"
    and "\<forall>i \<in> set (pi_Inputs v). int64 (ps_AttachmentCount i)" and "st_PausedInputs s = Some w"
  shows "rune_count (formatBindingStatus ws imType chatID s) \<le> 1000
    \<and> (\<exists>head. formatBindingStatus ws imType chatID s = head @ formatPausedInputs (Some w))"
proof -
  have "rune_count (formatPausedInputs (Some w)) \<le> 736"
    by (rule paused_projection_count [OF normalized_in_range [OF assms(1-3)]])
  then have "rune_count (formatBindingStatus ws imType chatID s) \<le> 1000"
    unfolding formatBindingStatus_def assms(4) by (intro projection_fits) simp
  then show ?thesis by (auto simp: formatBindingStatus_def appendPausedInputProjection_def assms(4))
qed

lemma binding_status_fits_witness:
  "rune_count (formatBindingStatus None ''slack'' ''C1'' (zero_state\<lparr>st_PausedInputs :=
      Some \<lparr>pi_Paused = True, pi_PendingInputCount = 0, pi_Inputs = []\<rparr>\<rparr>)) \<le> 1000"
  using binding_status_fits [of "\<lparr>pi_Paused = True, pi_PendingInputCount = 0, pi_Inputs = []\<rparr>"
      "\<lparr>pi_Paused = True, pi_PendingInputCount = 0, pi_Inputs = []\<rparr>" _ None "''slack''" "''C1''"]
  by (simp add: normalizePausedInputs_def maxPausedInputSummaries_def int64_def)

text \<open>Events whose text is cut to one message.\<close>

definition cut_events :: "string list" where
  "cut_events = [''notification'', ''done_completion'', ''confirm_request'', ''confirm_resolved'', ''question_revision'',
     ''question_request'', ''question_resolved'', ''agent_started'', ''agent_notify'', ''agent_done'', ''background_result'',
     ''context_notice'', ''local_shell_result'', ''info'', ''toast'']"

end
