(* ===== verification/Envelopes.thy ===== *)
theory Envelopes
  imports ProcessReceipts Notifications
begin

text \<open>
  \<open>processEnvelope\<close> of \<open>internal/gateway/process_protocol.go\<close> with \<open>process_question_events.go\<close>:
  how one line a Chord process writes moves the state the gateway keeps of it. An envelope is
  its type with the payload \<open>json.Unmarshal\<close> made of it, \<open>None\<close> where that failed. The result is
  the new state and what is done once the lock is free: the events for the router, the session
  to pin, the receipt for the ingress and the answers handed to waiting callers. Image chunks
  and logging are left out; session transfers have their own theory.
\<close>

section \<open>Envelopes\<close>

record ready_payload =
  rp_SessionID :: string
  rp_RuntimeID :: string
  rp_SessionEpoch :: "64 word option"
  rp_Workspace :: string
  rp_TransferID :: string
  rp_BindingInstanceID :: string
  rp_State :: string
  rp_PausedInputs :: "paused_inputs option"
  rp_InputQueue :: "input_queue option"

record assistant_payload =
  am_Text :: string
  am_AgentID :: string
  am_TaskID :: string
  am_AgentType :: string
  am_ParentAgentID :: string
  am_ToolCalls :: int

record idle_payload =
  id_RunningJobs :: int
  id_LastOutcome :: string
  id_SuppressUserNotification :: bool

record switch_payload =
  sw_SessionID :: string
  sw_RuntimeID :: string
  sw_SessionEpoch :: "64 word"
  sw_InputQueue :: "input_queue option"
  sw_Workspace :: string

datatype question_kind = QuestionRequest | QuestionUpdated | QuestionResolved

definition question_kind_text :: "question_kind \<Rightarrow> string" where
  "question_kind_text k = (case k of QuestionRequest \<Rightarrow> ''question_request'' | QuestionUpdated \<Rightarrow> ''question_updated''
     | QuestionResolved \<Rightarrow> ''question_resolved'')"

datatype envelope_body =
    InputQueueChanged "input_queue option"
  | InputResult "input_result_payload option"
  | Ready bool "ready_payload option"
  | Activity "(string \<times> string) option"
  | Idle "idle_payload option"
  | ConfirmRequest "confirm_payload option"
  | ConfirmResolved "confirm_resolution option"
  | QuestionEnvelope question_kind "question_payload option"
  | QuestionReceiptEnvelope "question_receipt option"
  | HandoffRequest "handoff_payload option"
  | HandoffCancelled "string option"
  | ErrorEnvelope "string option"
  | NotificationEnvelope "notification_payload option"
  | DoneCompletion "done_completion_payload option"
  | LocalShellResult "local_shell_payload option"
  | AgentStarted "agent_started_payload option"
  | AgentNotify "agent_notify_payload option"
  | AgentDone "agent_done_payload option"
  | CompactionStatus "compaction_status option"
  | Info "string option"
  | Toast "(string \<times> string) option"
  | MCPStatusChanged "mcp_status_snapshot option"
  | StatusResponseEnvelope "status_response option"
  | RoleResponseEnvelope "role_response option"
  | WorkdirChanged "workdir_snapshot option"
  | ModelsResponseEnvelope "models_response option"
  | InputQueueResultEnvelope "input_queue_result option"
  | ConfirmRuleResult "confirm_rule_intent_result option"
  | RoleChange "string option"
  | SessionSwitched "switch_payload option"
  | BackgroundResult "background_result_payload option"
  | ContextNotice "context_notice_payload option"
  | SubscribeResponse
  | AssistantMessage "assistant_payload option"
  | Todos "todo_item list option"
  | AssistantRollback
  | UnknownEnvelope

section \<open>Effects\<close>

text \<open>An answer given to the callers that wait for it, named by the numbers of their channels.\<close>

datatype delivery =
    DeliverStatus "nat list" control_state
  | DeliverRole "nat list" role_response
  | DeliverModels nat models_response
  | DeliverQueue nat input_queue_result
  | DeliverRules nat confirm_rule_intent_result
  | DeliverQuestion string question_receipt

record effects =
  ef_event :: string
  ef_questions :: "(string \<times> control_state) list"
  ef_pin :: string
  ef_receipt :: "question_receipt option"
  ef_sent :: "delivery list"

definition no_effects :: effects where
  "no_effects = \<lparr>ef_event = '''', ef_questions = [], ef_pin = '''', ef_receipt = None, ef_sent = []\<rparr>"

abbreviation event_only :: "string \<Rightarrow> effects" where
  "event_only e \<equiv> no_effects\<lparr>ef_event := e\<rparr>"

section \<open>Question events\<close>

definition questionEvent :: "string \<Rightarrow> question_payload \<Rightarrow> chord_process \<Rightarrow> string \<times> control_state" where
  "questionEvent kind q p =
     (let s = (px_state p)\<lparr>st_LastQuestion := Some q\<rparr> in
      (kind, if qp_Outcome q \<noteq> '''' then s\<lparr>st_LastQuestionResolved := Some q\<rparr> else s))"

definition question_key :: "string \<Rightarrow> question_payload \<Rightarrow> string" where
  "question_key kind q = compositeKey [qp_RequestID q, kind]"

definition markQuestionEvent :: "string \<Rightarrow> question_payload \<Rightarrow> chord_process \<Rightarrow> chord_process \<times> bool" where
  "markQuestionEvent kind q p =
     (let key = question_key kind q in
      if (case map_of (px_questionEventVersions p) key of None \<Rightarrow> False | Some v \<Rightarrow> qp_Version q \<le> v) then (p, False)
      else (p\<lparr>px_questionEventVersions := AList.update key (qp_Version q) (px_questionEventVersions p)\<rparr>, True))"

text \<open>\<open>reconcileQuestionEvents\<close>: the questions of a snapshot that are open, or were when it came.\<close>

definition was_open :: "(string, question_payload) gomap \<Rightarrow> string \<Rightarrow> bool" where
  "was_open previous i \<longleftrightarrow> (case map_of previous i of None \<Rightarrow> False | Some old \<Rightarrow> qp_Outcome old = '''')"

definition reconcile_ids :: "(string, question_payload) gomap \<Rightarrow> control_state \<Rightarrow> string list" where
  "reconcile_ids previous s =
     sort (map fst (filter (\<lambda>(i, q). qp_Outcome q = '''' \<or> was_open previous i) (st_Questions s)))"

fun reconcile_loop :: "(string, question_payload) gomap \<Rightarrow> string list \<Rightarrow> chord_process \<Rightarrow> chord_process \<times> (string \<times> control_state) list" where
  "reconcile_loop previous [] p = (p, [])"
| "reconcile_loop previous (i # is) p = (case map_of (st_Questions (px_state p)) i of
     None \<Rightarrow> reconcile_loop previous is p
   | Some q \<Rightarrow>
       if qp_Outcome q = '''' then
         (let (p1, events) = reconcile_loop previous is p in (p1, questionEvent ''question_updated'' q p # events))
       else if was_open previous i then
         (let (p1, fresh) = markQuestionEvent ''question_resolved'' q p;
              (p2, events) = reconcile_loop previous is p1 in
          (p2, if fresh then questionEvent ''question_resolved'' q p1 # events else events))
       else reconcile_loop previous is p)"

definition reconcileQuestionEvents :: "(string, question_payload) gomap \<Rightarrow> chord_process \<Rightarrow> chord_process \<times> (string \<times> control_state) list" where
  "reconcileQuestionEvents previous p = reconcile_loop previous (reconcile_ids previous (px_state p)) p"

section \<open>Sessions\<close>

definition ready_refused :: "bool \<Rightarrow> ready_payload \<Rightarrow> paused_inputs option \<Rightarrow> chord_process \<Rightarrow> bool" where
  "ready_refused paused r inputs p \<longleftrightarrow>
     trim_space (rp_SessionID r) = ''''
     \<or> px_expectedSessionID p \<noteq> '''' \<and> rp_SessionID r \<noteq> px_expectedSessionID p
     \<or> px_restoringTransferID p \<noteq> '''' \<and> (rp_TransferID r \<noteq> px_restoringTransferID p
          \<or> rp_BindingInstanceID r \<noteq> px_bindingInstanceID p \<or> \<not> paused \<and> rp_State r \<noteq> ''ready_paused'')
     \<or> px_restoringTransferID p \<noteq> '''' \<and> (rp_RuntimeID r = '''' \<or> rp_SessionEpoch r = None
          \<or> (case inputs of None \<Rightarrow> True | Some v \<Rightarrow> \<not> pi_Paused v))"

definition ready_step :: "bool \<Rightarrow> ready_payload option \<Rightarrow> chord_process \<Rightarrow> chord_process \<times> effects" where
  "ready_step paused r p = (case r of None \<Rightarrow> (p, no_effects) | Some r \<Rightarrow>
     (case normalizePausedInputs (rp_PausedInputs r) of
        None \<Rightarrow> (p, no_effects)
      | Some inputs \<Rightarrow>
          if ready_refused paused r inputs p then (p, no_effects)
          else let p = p\<lparr>px_runtimeID := rp_RuntimeID r,
                   px_workspacePath := (if rp_Workspace r \<noteq> '''' then rp_Workspace r else px_workspacePath p),
                   px_sessionEpoch := (case rp_SessionEpoch r of Some e \<Rightarrow> e | None \<Rightarrow> 0),
                   px_readyPaused := paused \<or> rp_State r = ''ready_paused'', px_readyClosed := True\<rparr>;
                   p = on_state (\<lambda>s. s\<lparr>st_BindingInstanceID := px_bindingInstanceID p, st_PausedInputs := inputs,
                     st_SessionID := rp_SessionID r, st_InputQueue := None\<rparr>) p;
                   p = fst (applyInputQueue (rp_InputQueue r) p) in
            (p, no_effects\<lparr>ef_pin := (if px_restoringTransferID p = '''' \<and> \<not> inputBlocked p then rp_SessionID r else '''')\<rparr>)))"

definition forget_session :: "control_state \<Rightarrow> control_state" where
  "forget_session s = s\<lparr>st_Questions := [], st_LastQuestion := None, st_LastQuestionResolved := None, st_QuestionBindingID := '''',
     st_QuestionsNextAfterID := '''', st_LastCompaction := None\<rparr>"

definition switch_step :: "switch_payload option \<Rightarrow> chord_process \<Rightarrow> chord_process \<times> effects" where
  "switch_step w p = (case w of None \<Rightarrow> (p, event_only ''session_switched'') | Some w \<Rightarrow>
     let i = trim_space (sw_SessionID w) in
     if i = '''' then (p, event_only ''session_switched'')
     else if inputBlocked p then (p, no_effects)
     else let p = p\<lparr>px_expectedSessionID := '''',
              px_runtimeID := (if sw_RuntimeID w \<noteq> '''' then sw_RuntimeID w else px_runtimeID p),
              px_sessionEpoch := sw_SessionEpoch w,
              px_workspacePath := (if sw_Workspace w \<noteq> '''' then sw_Workspace w else px_workspacePath p)\<rparr>;
              p = on_state (\<lambda>s. (resetTurnWindow (s\<lparr>st_MCP := None\<rparr>))\<lparr>st_RunningJobs := 0, st_SessionID := i,
                st_PausedInputs := None, st_InputQueue := None\<rparr>) p;
              p = fst (applyInputQueue (sw_InputQueue w) p);
              p = (on_state forget_session p)\<lparr>px_questionEventVersions := [], px_compactionPlanID := ''''\<rparr> in
       (p, no_effects\<lparr>ef_event := ''session_switched'', ef_pin := i\<rparr>))"

text \<open>A snapshot that answers \<open>status\<close>. A stale one only wakes those who wait.\<close>

definition merge_status :: "gotime \<Rightarrow> status_response \<Rightarrow> chord_process \<Rightarrow> chord_process \<times> effects" where
  "merge_status now r p =
     (let switched = sr_SessionID r \<noteq> st_SessionID (px_state p);
          previous = (if switched then [] else st_Questions (px_state p));
          p = (if switched then on_state (\<lambda>s. (resetTurnWindow s)\<lparr>st_QuestionBindingID := '''', st_InputQueue := None\<rparr>)
                 (p\<lparr>px_questionEventVersions := []\<rparr>) else p);
          p = on_state (applyStatusResponse r) p;
          (p, queued) = applyInputQueue (sr_InputQueue r) p;
          p = (if sr_Workspace r \<noteq> '''' then p\<lparr>px_workspacePath := sr_Workspace r\<rparr> else p);
          p = (if sr_Busy r then on_state (ensureTurnWindow now) p else p);
          (p, events) = reconcileQuestionEvents previous p in
      (p, no_effects\<lparr>ef_event := (if queued then ''input_queue_changed'' else ''''), ef_questions := events\<rparr>))"

definition status_step :: "64 word \<Rightarrow> gotime \<Rightarrow> status_response option \<Rightarrow> chord_process \<Rightarrow> chord_process \<times> effects" where
  "status_step seq now r p = (case r of None \<Rightarrow> (p, no_effects) | Some r \<Rightarrow>
     (case normalizePausedInputs (sr_PausedInputs r) of
        None \<Rightarrow> (p, no_effects)
      | Some inputs \<Rightarrow>
          let (p, ef) = (if seq < st_LastEnvelopeSeq (px_state p) then (p, no_effects)
                         else merge_status now (r\<lparr>sr_PausedInputs := inputs\<rparr>) p) in
          (p\<lparr>px_statusWaiters := []\<rparr>,
           ef\<lparr>ef_sent := (if px_statusWaiters p = [] then [] else [DeliverStatus (px_statusWaiters p) (px_state p)])\<rparr>)))"

section \<open>Turns, decisions and questions\<close>

definition activity_step :: "64 word \<Rightarrow> gotime \<Rightarrow> (string \<times> string) option \<Rightarrow> chord_process \<Rightarrow> chord_process \<times> effects" where
  "activity_step seq now a p =
     (if seq < st_LastEnvelopeSeq (px_state p) then (p, no_effects)
      else let s = px_state p;
               s = (if st_Busy s then s else s\<lparr>st_LastPushAt := now, st_InternalEventsSinceLastPush := 0\<rparr>);
               s = setAgentBusy True (ensureTurnWindow now s);
               s = (if st_LastPushAt s = 0 then s\<lparr>st_LastPushAt := now\<rparr> else s);
               s = (case a of None \<Rightarrow> s | Some (phase, detail) \<Rightarrow>
                 s\<lparr>st_Phase := phase, st_PhaseDetail := detail,
                   st_TurnRetries := st_TurnRetries s + (if isRetryPhase phase then 1 else 0)\<rparr>) in
        (p\<lparr>px_state := s\<rparr>, event_only ''activity''))"

definition idle_step :: "gotime \<Rightarrow> string \<Rightarrow> idle_payload option \<Rightarrow> chord_process \<Rightarrow> chord_process \<times> effects" where
  "idle_step now nowText i p =
     (let s = (transitionToIdle '''' nowText False (px_state p))\<lparr>st_SuppressUserNotification := False\<rparr>;
          s = (case i of None \<Rightarrow> s | Some i \<Rightarrow>
            s\<lparr>st_RunningJobs := id_RunningJobs i, st_LastOutcome := id_LastOutcome i,
              st_SuppressUserNotification := id_SuppressUserNotification i\<rparr>) in
      (p\<lparr>px_state := finishTurnWindow now s\<rparr>, event_only ''idle''))"

definition resolve_confirm :: "confirm_resolution \<Rightarrow> control_state \<Rightarrow> control_state" where
  "resolve_confirm r s =
     (let s = (case st_PendingConfirm s of None \<Rightarrow> s | Some pc \<Rightarrow>
        if cp_RequestID pc \<noteq> cs_RequestID r then s
        else (if cs_Outcome r \<in> {''timeout'', ''cancelled''} then s\<lparr>st_ExpiredConfirm := Some pc\<rparr>
              else s\<lparr>st_ExpiredConfirm := None\<rparr>)\<lparr>st_PendingConfirm := None\<rparr>) in
      s\<lparr>st_LastConfirmResolved := Some r\<rparr>)"

definition confirm_resolved_step :: "confirm_resolution option \<Rightarrow> chord_process \<Rightarrow> chord_process \<times> effects" where
  "confirm_resolved_step r p = (case r of None \<Rightarrow> (p, no_effects) | Some r \<Rightarrow>
     if cs_RequestID r = '''' \<or> \<not> validConfirmOutcome (cs_Outcome r) then (p, no_effects)
     else (on_state (resolve_confirm r) p, event_only ''confirm_resolved''))"

text \<open>A question that is new but late, of another binding, or an older open state, is not merged.\<close>

definition question_refused :: "64 word \<Rightarrow> question_payload \<Rightarrow> control_state \<Rightarrow> bool" where
  "question_refused seq q s \<longleftrightarrow> (case map_of (st_Questions s) (qp_RequestID q) of
     None \<Rightarrow> seq < st_LastEnvelopeSeq s
   | Some old \<Rightarrow> qp_BindingID old \<noteq> qp_BindingID q
       \<or> qp_Version q < qp_Version old \<and> (qp_Outcome old = '''' \<or> qp_Outcome q = ''''))"

definition question_step :: "64 word \<Rightarrow> question_kind \<Rightarrow> question_payload option \<Rightarrow> chord_process \<Rightarrow> chord_process \<times> effects" where
  "question_step seq kind q p = (case q of None \<Rightarrow> (p, no_effects) | Some q \<Rightarrow>
     if qp_RequestID q = '''' \<or> question_refused seq q (px_state p) then (p, no_effects)
     else let p = on_state (\<lambda>s. fst (applyQuestionState q s)) p;
              (p, fresh) = markQuestionEvent (question_kind_text kind) q p in
       (p, if fresh then no_effects\<lparr>ef_questions := [questionEvent (question_kind_text kind) q p]\<rparr> else no_effects))"

definition presentation_failed :: "question_receipt \<Rightarrow> string" where
  "presentation_failed r = ''Could not open question '' @ qc_RequestID r @ '': '' @ qc_Error r @ ''. Check /status to retry.''"

definition question_receipt_step :: "question_receipt option \<Rightarrow> chord_process \<Rightarrow> chord_process \<times> effects" where
  "question_receipt_step r p = (case r of None \<Rightarrow> (p, no_effects) | Some r \<Rightarrow>
     let ef = no_effects\<lparr>ef_receipt := Some r\<rparr> in
     (case map_of (px_questionWaiters p) (qc_OperationID r) of
        Some full \<Rightarrow>
          if full then (p, ef)
          else (p\<lparr>px_questionWaiters := AList.update (qc_OperationID r) True (px_questionWaiters p)\<rparr>,
                ef\<lparr>ef_sent := [DeliverQuestion (qc_OperationID r) r]\<rparr>)
      | None \<Rightarrow>
          if \<not> qc_Accepted r \<and> has_prefix (qc_OperationID r) ''gateway:presented:''
          then (on_state (\<lambda>s. s\<lparr>st_LastError := presentation_failed r\<rparr>) p, ef\<lparr>ef_event := ''question_presentation_error''\<rparr>)
          else (p, ef)))"

section \<open>Reports\<close>

definition compaction_step :: "compaction_status option \<Rightarrow> chord_process \<Rightarrow> chord_process" where
  "compaction_step c p = (case c of None \<Rightarrow> p | Some c \<Rightarrow>
     let keep = on_state (\<lambda>s. s\<lparr>st_LastCompaction := Some c\<rparr>) in
     if co_Status c = ''started'' then
       (if co_Synthetic c then p else keep (p\<lparr>px_compactionPlanID := co_PlanID c\<rparr>))
     else if px_compactionPlanID p \<noteq> '''' \<and> co_PlanID c \<noteq> px_compactionPlanID p then p
     else keep (p\<lparr>px_compactionPlanID := ''''\<rparr>))"

definition mcp_step :: "64 word \<Rightarrow> mcp_status_snapshot option \<Rightarrow> chord_process \<Rightarrow> chord_process \<times> effects" where
  "mcp_step seq v p =
     (if seq < st_LastEnvelopeSeq (px_state p) then (p, no_effects)
      else case v of None \<Rightarrow> (p, no_effects) | Some v \<Rightarrow>
        (let (s, changed) = applyMCPStatus (Some v) (px_state p); p = p\<lparr>px_state := s\<rparr> in
         if \<not> changed then (p, no_effects)
         else let body = formatMCPNotification (st_MCP s); identity = mc_BindingID v @ eol @ body;
                  fresh = body \<noteq> '''' \<and> identity \<noteq> px_lastMCPNotification p;
                  told = fresh \<and> (body \<noteq> mcpAllAvailableNotification \<or> px_mcpNotified p);
                  p = (if fresh then p\<lparr>px_lastMCPNotification := identity\<rparr> else p);
                  p = (if told then p\<lparr>px_mcpNotified := True\<rparr> else p);
                  p = (if mc_Servers v = [] then p\<lparr>px_lastMCPNotification := ''''\<rparr> else p) in
           (p, if told then event_only ''mcp_status_changed'' else no_effects)))"

definition set_role :: "string \<Rightarrow> control_state \<Rightarrow> control_state" where
  "set_role role s = (if st_CurrentRole s \<noteq> role then s\<lparr>st_MCP := None\<rparr> else s)\<lparr>st_CurrentRole := role\<rparr>"

definition role_response_step :: "role_response option \<Rightarrow> chord_process \<Rightarrow> chord_process \<times> effects" where
  "role_response_step r p = (case r of None \<Rightarrow> (p, no_effects) | Some r \<Rightarrow>
     ((if rr_OK r \<and> trim_space (rr_Role r) \<noteq> '''' then on_state (set_role (rr_Role r)) p else p)\<lparr>px_roleWaiters := []\<rparr>,
      no_effects\<lparr>ef_sent := (if px_roleWaiters p = [] then [] else [DeliverRole (px_roleWaiters p) r])\<rparr>))"

definition models_step :: "models_response option \<Rightarrow> chord_process \<Rightarrow> chord_process \<times> effects" where
  "models_step r p = (case r of None \<Rightarrow> (p, no_effects) | Some r \<Rightarrow>
     (case map_of (px_modelsWaiters p) (mo_RequestID r) of
        None \<Rightarrow> (p, no_effects)
      | Some ch \<Rightarrow>
          if mo_RequestID r = '''' then (p, no_effects)
          else (p\<lparr>px_modelsWaiters := AList.delete (mo_RequestID r) (px_modelsWaiters p)\<rparr>,
                no_effects\<lparr>ef_sent := [DeliverModels ch r]\<rparr>)))"

definition notifyInputQueueResult :: "input_queue_result \<Rightarrow> chord_process \<Rightarrow> chord_process \<times> effects" where
  "notifyInputQueueResult r p =
     (p\<lparr>px_queueWaiters := AList.delete (ir_OperationID r) (px_queueWaiters p)\<rparr>,
      no_effects\<lparr>ef_sent := (case map_of (px_queueWaiters p) (ir_OperationID r) of Some ch \<Rightarrow> [DeliverQueue ch r] | None \<Rightarrow> [])\<rparr>)"

definition notifyConfirmRuleIntentResult :: "confirm_rule_intent_result \<Rightarrow> chord_process \<Rightarrow> chord_process \<times> effects" where
  "notifyConfirmRuleIntentResult r p =
     (p\<lparr>px_confirmRuleWaiters := AList.delete (ci_RequestID r) (px_confirmRuleWaiters p)\<rparr>,
      no_effects\<lparr>ef_sent := (case map_of (px_confirmRuleWaiters p) (ci_RequestID r) of Some ch \<Rightarrow> [DeliverRules ch r] | None \<Rightarrow> [])\<rparr>)"

definition assistant_step :: "gotime \<Rightarrow> assistant_payload option \<Rightarrow> chord_process \<Rightarrow> chord_process \<times> effects" where
  "assistant_step now a p = (case a of None \<Rightarrow> (p, no_effects) | Some a \<Rightarrow>
     let shown = trim_space (am_Text a) \<noteq> '''';
         f = (\<lambda>s. (if shown then s\<lparr>st_LastAssistantText := am_Text a\<rparr> else s)
           \<lparr>st_LastAssistantToolCalls := am_ToolCalls a, st_TurnToolCalls := st_TurnToolCalls s + am_ToolCalls a,
            st_LastAssistantAgentID := am_AgentID a, st_LastAssistantTaskID := am_TaskID a,
            st_LastAssistantAgentType := am_AgentType a, st_LastAssistantParentAgentID := am_ParentAgentID a,
            st_InternalEventsSinceLastPush := 0, st_LastPushAt := now\<rparr>) in
     (on_state f p, if shown then event_only ''assistant_message'' else no_effects))"

definition todos_step :: "todo_item list option \<Rightarrow> chord_process \<Rightarrow> chord_process \<times> effects" where
  "todos_step t p =
     (on_state (\<lambda>s. s\<lparr>st_Todos := (case t of Some ts \<Rightarrow> ts | None \<Rightarrow> []),
        st_InternalEventsSinceLastPush := st_InternalEventsSinceLastPush s + (if st_LastPushAt s \<noteq> 0 then 1 else 0)\<rparr>) p,
      event_only ''todos'')"

definition rollback_state :: "control_state \<Rightarrow> control_state" where
  "rollback_state s = s\<lparr>st_LastAssistantText := '''', st_LastAssistantAgentID := '''', st_LastAssistantTaskID := '''',
     st_LastAssistantAgentType := '''', st_LastAssistantParentAgentID := ''''\<rparr>"

text \<open>A payload stored as it is; one that did not decode leaves the state alone.\<close>

abbreviation stored :: "('a \<Rightarrow> control_state \<Rightarrow> control_state) \<Rightarrow> 'a option \<Rightarrow> chord_process \<Rightarrow> chord_process" where
  "stored f v p \<equiv> (case v of None \<Rightarrow> p | Some x \<Rightarrow> on_state (f x) p)"

section \<open>The switch\<close>

definition envelope_case :: "64 word \<Rightarrow> gotime \<Rightarrow> string \<Rightarrow> envelope_body \<Rightarrow> chord_process \<Rightarrow> chord_process \<times> effects" where
  "envelope_case seq now nowText body p = (case body of
     InputQueueChanged q \<Rightarrow>
       if seq < st_LastEnvelopeSeq (px_state p) then (p, no_effects)
       else (let (p, ok) = applyInputQueue q p in (p, if ok then event_only ''input_queue_changed'' else no_effects))
   | InputResult r \<Rightarrow> (case r of None \<Rightarrow> (p, no_effects)
       | Some r \<Rightarrow> let (p, ok) = applyInputResult seq now r p in (p, if ok then event_only ''input_result'' else no_effects))
   | Ready paused r \<Rightarrow> ready_step paused r p
   | Activity a \<Rightarrow> activity_step seq now a p
   | Idle i \<Rightarrow> idle_step now nowText i p
   | ConfirmRequest c \<Rightarrow> (stored applyPendingConfirm c p, event_only ''confirm_request'')
   | ConfirmResolved r \<Rightarrow> confirm_resolved_step r p
   | QuestionEnvelope kind q \<Rightarrow> question_step seq kind q p
   | QuestionReceiptEnvelope r \<Rightarrow> question_receipt_step r p
   | HandoffRequest h \<Rightarrow> (stored applyPendingHandoff h p, event_only ''handoff_request'')
   | HandoffCancelled i \<Rightarrow> (case i of None \<Rightarrow> (p, no_effects)
       | Some i \<Rightarrow> let (s, ok) = applyHandoffCancelled i (px_state p) in
           (p\<lparr>px_state := s\<rparr>, if ok then event_only ''handoff_cancelled'' else no_effects))
   | ErrorEnvelope m \<Rightarrow> (stored (\<lambda>m s. s\<lparr>st_LastError := m\<rparr>) m p, event_only ''error'')
   | NotificationEnvelope n \<Rightarrow> (stored (\<lambda>n s. s\<lparr>st_LastNotification := Some n\<rparr>) n p, event_only ''notification'')
   | DoneCompletion d \<Rightarrow> (stored (\<lambda>d s. s\<lparr>st_LastNotification := Some \<lparr>np_Message = dc_Report d, np_Reason = ''done_completion'',
       np_AgentID = dc_AgentID d\<rparr>\<rparr>) d p, event_only ''done_completion'')
   | LocalShellResult l \<Rightarrow> (stored (\<lambda>l s. finishLocalShell (s\<lparr>st_LastLocalShell := Some l\<rparr>)) l p, event_only ''local_shell_result'')
   | AgentStarted a \<Rightarrow> (stored (\<lambda>a s. s\<lparr>st_LastAgentStarted := Some a\<rparr>) a p, event_only ''agent_started'')
   | AgentNotify a \<Rightarrow> (stored (\<lambda>a s. s\<lparr>st_LastAgentNotify := Some a\<rparr>) a p, event_only ''agent_notify'')
   | AgentDone a \<Rightarrow> (stored (\<lambda>a s. s\<lparr>st_LastAgentDone := Some a\<rparr>) a p, event_only ''agent_done'')
   | CompactionStatus c \<Rightarrow> (compaction_step c p, no_effects)
   | Info m \<Rightarrow> (stored (\<lambda>m s. s\<lparr>st_InfoMessage := m\<rparr>) m p, event_only ''info'')
   | Toast t \<Rightarrow> (stored (\<lambda>t s. s\<lparr>st_ToastMessage := fst t, st_ToastLevel := snd t\<rparr>) t p, event_only ''toast'')
   | MCPStatusChanged v \<Rightarrow> mcp_step seq v p
   | StatusResponseEnvelope r \<Rightarrow> status_step seq now r p
   | RoleResponseEnvelope r \<Rightarrow> role_response_step r p
   | WorkdirChanged w \<Rightarrow> (stored (\<lambda>w s. if trim_space (wd_Path w) \<noteq> '''' then s\<lparr>st_Workdir := w\<rparr> else s) w p, no_effects)
   | ModelsResponseEnvelope r \<Rightarrow> models_step r p
   | InputQueueResultEnvelope r \<Rightarrow> (case r of None \<Rightarrow> (p, no_effects)
       | Some r \<Rightarrow> if ir_OperationID r = '''' then (p, no_effects) else notifyInputQueueResult r p)
   | ConfirmRuleResult r \<Rightarrow> (case r of None \<Rightarrow> (p, no_effects)
       | Some r \<Rightarrow> if ci_RequestID r = '''' then (p, no_effects) else notifyConfirmRuleIntentResult r p)
   | RoleChange role \<Rightarrow> (stored (\<lambda>role s. if trim_space role \<noteq> '''' then set_role role s else s) role p, no_effects)
   | SessionSwitched w \<Rightarrow> switch_step w p
   | BackgroundResult b \<Rightarrow> (stored (\<lambda>b s. s\<lparr>st_LastBackgroundResult := Some b\<rparr>) b p, event_only ''background_result'')
   | ContextNotice c \<Rightarrow> (stored (\<lambda>c s. s\<lparr>st_LastContextNotice := Some c\<rparr>) c p, event_only ''context_notice'')
   | SubscribeResponse \<Rightarrow> (p, no_effects)
   | AssistantMessage a \<Rightarrow> assistant_step now a p
   | Todos t \<Rightarrow> todos_step t p
   | AssistantRollback \<Rightarrow> (on_state rollback_state p, event_only ''assistant_rollback'')
   | UnknownEnvelope \<Rightarrow> (p, no_effects))"

text \<open>The whole of it under the lock: the time of the envelope before, its number after.\<close>

definition stamp_process :: "gotime \<Rightarrow> string \<Rightarrow> chord_process \<Rightarrow> chord_process" where
  "stamp_process now nowText p = on_state (\<lambda>s. s\<lparr>st_UpdatedAt := nowText\<rparr>) (p\<lparr>px_lastActivity := now\<rparr>)"

definition note_seq :: "64 word \<Rightarrow> chord_process \<Rightarrow> chord_process" where
  "note_seq seq p = (if st_LastEnvelopeSeq (px_state p) < seq then on_state (\<lambda>s. s\<lparr>st_LastEnvelopeSeq := seq\<rparr>) p else p)"

definition question_receipt_backpressure :: string where
  "question_receipt_backpressure =
     ''input_receipt_backpressure: question receipt application unavailable; check ingress and the original session''"

text \<open>\<open>processEnvelope\<close>; \<open>applied\<close> is the answer of \<open>onQuestionReceipt\<close> where there is one.\<close>

definition processEnvelope :: "64 word \<Rightarrow> gotime \<Rightarrow> string \<Rightarrow> bool \<Rightarrow> envelope_body \<Rightarrow> chord_process \<Rightarrow> chord_process \<times> effects" where
  "processEnvelope seq now nowText applied body p =
     (let (p, ef) = envelope_case seq now nowText body (stamp_process now nowText p);
          p = note_seq seq p in
      (if ef_receipt ef \<noteq> None \<and> \<not> applied
       then on_state (\<lambda>s. s\<lparr>st_LastError := question_receipt_backpressure\<rparr>) (p\<lparr>px_inputReceiptBlocked := True\<rparr>) else p, ef))"

end
