(* ===== verification/EnvelopeProps.thy ===== *)
theory EnvelopeProps
  imports Envelopes
begin

text \<open>
  What every envelope keeps: the receipts of inputs, the meaning of busy, the number of the
  newest envelope, and the questions of a session.
\<close>

section \<open>Frames\<close>

text \<open>What the receipts depend on, and the fields of the state that reports do not touch.\<close>

definition input_core :: "chord_process \<Rightarrow> (string, input_observer) gomap \<times> string list \<times> string list \<times> bool \<times> bool \<times> bool
    \<times> (string \<times> process_input_receipt \<times> 64 word) option \<times> int" where
  "input_core p = (px_inputObservers p, px_pendingInputs p, px_inputReceiptQueue p, px_inputReceiptWorker p,
     px_inputReceiptShutdown p, px_inputReceiptBlocked p, px_flight p, st_UnconfirmedInputs (px_state p))"

lemma receipts_ok_core: "input_core p1 = input_core p \<Longrightarrow> receipts_ok p1 = receipts_ok p"
  by (simp add: input_core_def receipts_ok_def)

definition state_core :: "control_state \<Rightarrow> int \<times> 64 word" where
  "state_core s = (st_UnconfirmedInputs s, st_LastEnvelopeSeq s)"

lemma state_core_questions: "state_core (fold merge_question qs s) = state_core s"
  using questions_only_merge [of s qs] by (auto simp: questions_only_def state_core_def)

lemma state_core_mcp: "state_core (fst (applyMCPStatus v s)) = state_core s"
  by (subst applyMCPStatus_frame) (simp add: state_core_def)

lemma state_core_if: "state_core (if c then x else y) = (if c then state_core x else state_core y)"
  by simp

lemma state_core_updates:
  "state_core (t\<lparr>st_MCP := v1\<rparr>) = state_core t" "state_core (t\<lparr>st_PausedInputs := v2\<rparr>) = state_core t"
  "state_core (t\<lparr>st_PendingHandoff := v3\<rparr>) = state_core t" "state_core (t\<lparr>st_Workdir := v4\<rparr>) = state_core t"
  "state_core (t\<lparr>st_QuestionBindingID := v5\<rparr>) = state_core t" "state_core (t\<lparr>st_QuestionsNextAfterID := v6\<rparr>) = state_core t"
  "state_core (t\<lparr>st_CurrentRole := v7\<rparr>) = state_core t" "state_core (t\<lparr>st_PendingConfirm := v8\<rparr>) = state_core t"
  "state_core (t\<lparr>st_ExpiredConfirm := v9, st_ExpiredHandoff := v10\<rparr>) = state_core t"
  "state_core (t\<lparr>st_LastError := w1, st_UpdatedAt := w2, st_LastOutcome := w3\<rparr>) = state_core t"
  "state_core (t\<lparr>st_RunningJobs := w4, st_Phase := w5, st_PhaseDetail := w6\<rparr>) = state_core t"
  "state_core (t\<lparr>st_SessionID := w7\<rparr>) = state_core t" "state_core (setAgentBusy b t) = state_core t"
  "state_core (t\<lparr>st_MCP := v1, st_Questions := w8, st_LastQuestion := w9, st_LastQuestionResolved := x1\<rparr>) = state_core t"
  by (simp_all add: state_core_def setAgentBusy_def)

lemma state_core_snapshot: "state_core (applyStatusResponse r s) = state_core s"
  unfolding applyStatusResponse_def Let_def state_core_updates state_core_if
  by (cases "sr_Workdir r")
    (simp_all only: state_core_updates state_core_if state_core_mcp state_core_questions option.case if_cancel)

lemma snapshot_session: "st_SessionID (applyStatusResponse r s) = sr_SessionID r"
proof -
  have q: "st_SessionID (fold merge_question qs t) = st_SessionID t" for qs t
    using questions_only_merge [of t qs] by (auto simp: questions_only_def)
  show ?thesis by (simp add: applyStatusResponse_def Let_def q setAgentBusy_def split: option.split)
qed

text \<open>A step that only moves the state and fields that have nothing to do with inputs.\<close>

definition quiet :: "chord_process \<Rightarrow> chord_process \<Rightarrow> bool" where
  "quiet p p1 \<longleftrightarrow> input_core p1 = input_core p \<and> st_LastEnvelopeSeq (px_state p1) = st_LastEnvelopeSeq (px_state p)
     \<and> (busy_ok (px_state p) \<longrightarrow> busy_ok (px_state p1))"

lemma quiet_refl [simp]: "quiet p p"
  by (simp add: quiet_def)

lemma quiet_trans [trans]: "quiet p p1 \<Longrightarrow> quiet p1 p2 \<Longrightarrow> quiet p p2"
  by (simp add: quiet_def)

lemma quiet_state:
  assumes "st_UnconfirmedInputs (f (px_state p)) = st_UnconfirmedInputs (px_state p)"
    and "st_LastEnvelopeSeq (f (px_state p)) = st_LastEnvelopeSeq (px_state p)"
    and "busy_ok (px_state p) \<Longrightarrow> busy_ok (f (px_state p))"
  shows "quiet p (on_state f p)"
  using assms by (simp add: quiet_def input_core_def)

lemma quiet_queue: "quiet p (fst (applyInputQueue q p))"
  by (subst applyInputQueue_frame) (simp add: quiet_def input_core_def busy_ok_def)

lemma quiet_mark: "quiet p (fst (markQuestionEvent k q p))"
  by (simp add: markQuestionEvent_def Let_def quiet_def input_core_def split: option.split)

lemma mark_state: "px_state (fst (markQuestionEvent k q p)) = px_state p"
  by (simp add: markQuestionEvent_def Let_def split: option.split)

lemma quiet_reconcile: "quiet p (fst (reconcile_loop previous is p))"
proof (induction "is" arbitrary: p)
  case (Cons i "is")
  show ?case
  proof (cases "map_of (st_Questions (px_state p)) i")
    case None
    with Cons show ?thesis by simp
  next
    case (Some q)
    have "quiet p (fst (reconcile_loop previous is (fst (markQuestionEvent ''question_resolved'' q p))))"
      using quiet_trans [OF quiet_mark Cons.IH] .
    with Some Cons.IH [of p] show ?thesis by (simp add: split_beta)
  qed
qed simp

lemma reconcile_state: "px_state (fst (reconcile_loop previous is p)) = px_state p"
proof (induction "is" arbitrary: p)
  case (Cons i "is")
  then show ?case by (simp add: split_beta mark_state split: option.split)
qed simp

section \<open>Every case is quiet\<close>

lemma busy_ok_cong: "st_agentBusy s1 = st_agentBusy s \<Longrightarrow> st_Busy s1 = st_Busy s \<Longrightarrow> st_PendingLocalShells s1 = st_PendingLocalShells s
    \<Longrightarrow> busy_ok s1 = busy_ok s"
  by (simp add: busy_ok_def)

lemma quiet_ready: "quiet p (fst (ready_step paused r p))"
proof (cases "\<exists>v inputs. r = Some v \<and> normalizePausedInputs (rp_PausedInputs v) = Some inputs \<and> \<not> ready_refused paused v inputs p")
  case True
  then obtain v inputs where v: "r = Some v" "normalizePausedInputs (rp_PausedInputs v) = Some inputs" "\<not> ready_refused paused v inputs p"
    by blast
  show ?thesis
    unfolding ready_step_def v(1) option.case v(2) Let_def
    by (simp only: v(3) if_False fst_conv, rule quiet_trans [OF _ quiet_queue])
      (simp add: quiet_def input_core_def busy_ok_def)
next
  case False
  then have "fst (ready_step paused r p) = p" by (auto simp: ready_step_def split: option.split)
  then show ?thesis by simp
qed

lemma quiet_switch: "quiet p (fst (switch_step w p))"
proof (cases "\<exists>v. w = Some v \<and> trim_space (sw_SessionID v) \<noteq> '''' \<and> \<not> inputBlocked p")
  case True
  then obtain v where v: "w = Some v" "trim_space (sw_SessionID v) \<noteq> ''''" "\<not> inputBlocked p" by blast
  have fg: "quiet q ((on_state forget_session q)\<lparr>px_questionEventVersions := [], px_compactionPlanID := ''''\<rparr>)" for q
    by (simp add: quiet_def input_core_def busy_ok_def forget_session_def)
  show ?thesis
    unfolding switch_step_def v(1) option.case Let_def
    by (simp only: v(2,3) if_False fst_conv, rule quiet_trans [OF quiet_trans [OF _ quiet_queue] fg])
      (simp add: quiet_def input_core_def busy_ok_def resetTurnWindow_def)
next
  case False
  then have "fst (switch_step w p) = p" by (auto simp: switch_step_def Let_def split: option.split)
  then show ?thesis by simp
qed

lemma quiet_merge: "quiet p (fst (merge_status now r p))"
proof -
  let ?p1 = "if sr_SessionID r \<noteq> st_SessionID (px_state p)
    then on_state (\<lambda>s. (resetTurnWindow s)\<lparr>st_QuestionBindingID := '''', st_InputQueue := None\<rparr>) (p\<lparr>px_questionEventVersions := []\<rparr>) else p"
  let ?p2 = "on_state (applyStatusResponse r) ?p1"
  let ?p3 = "fst (applyInputQueue (sr_InputQueue r) ?p2)"
  let ?p4 = "if sr_Workspace r \<noteq> '''' then ?p3\<lparr>px_workspacePath := sr_Workspace r\<rparr> else ?p3"
  let ?p5 = "if sr_Busy r then on_state (ensureTurnWindow now) ?p4 else ?p4"
  have 1: "quiet p ?p1" by (simp add: quiet_def input_core_def busy_ok_def resetTurnWindow_def)
  have 2: "quiet ?p1 ?p2"
    using state_core_snapshot [of r "px_state ?p1"] busy_ok_snapshot by (intro quiet_state) (simp_all add: state_core_def)
  have 4: "quiet ?p3 ?p4" by (simp add: quiet_def input_core_def)
  have 5: "quiet ?p4 ?p5" by (simp add: quiet_def input_core_def ensureTurnWindow_def busy_ok_def)
  have "quiet p ?p5" by (rule quiet_trans [OF quiet_trans [OF quiet_trans [OF quiet_trans [OF 1 2] quiet_queue] 4] 5])
  then show ?thesis
    unfolding merge_status_def reconcileQuestionEvents_def Let_def split_beta fst_conv
    by (rule quiet_trans) (rule quiet_reconcile)
qed

lemma quiet_status: "quiet p (fst (status_step seq now r p))"
proof -
  have w: "quiet q (q\<lparr>px_statusWaiters := []\<rparr>)" for q by (simp add: quiet_def input_core_def)
  show ?thesis
    unfolding status_step_def Let_def
    by (auto simp: split_beta w split: option.split intro: quiet_trans [OF quiet_merge w])
qed

lemma busy_finish: "busy_ok s \<Longrightarrow> busy_ok (finishLocalShell (s\<lparr>st_LastLocalShell := v\<rparr>))"
  using busy_ok_shell(2) [of "s\<lparr>st_LastLocalShell := v\<rparr>"] by (simp add: busy_ok_def)

lemma finish_core: "state_core (finishLocalShell (s\<lparr>st_LastLocalShell := v\<rparr>)) = state_core s"
  by (simp add: finishLocalShell_def state_core_def Let_def)

lemma quiet_activity: "quiet p (fst (activity_step seq now a p))"
  by (simp add: activity_step_def quiet_def input_core_def busy_ok_def setAgentBusy_def ensureTurnWindow_def Let_def
      split: option.split prod.split)

lemma quiet_idle: "quiet p (fst (idle_step now nowText i p))"
  by (simp add: idle_step_def quiet_def input_core_def busy_ok_def transitionToIdle_def setAgentBusy_def finishTurnWindow_def Let_def
      split: option.split)

lemma quiet_confirm: "quiet p (fst (confirm_resolved_step r p))"
  by (auto simp: confirm_resolved_step_def resolve_confirm_def quiet_def input_core_def busy_ok_def Let_def split: option.split)

lemma quiet_question: "quiet p (fst (question_step seq kind q p))"
proof -
  have a: "quiet p (on_state (\<lambda>s. fst (applyQuestionState v s)) p)" for v
    using questions_only_apply [of "px_state p" v] by (auto simp: questions_only_def quiet_def input_core_def busy_ok_def)
  show ?thesis
    unfolding question_step_def Let_def
    by (auto simp: split_beta split: option.split intro: quiet_trans [OF a quiet_mark])
qed

lemma quiet_receipt: "quiet p (fst (question_receipt_step r p))"
  by (auto simp: question_receipt_step_def quiet_def input_core_def busy_ok_def Let_def split: option.split)

lemma quiet_compaction: "quiet p (compaction_step c p)"
  by (auto simp: compaction_step_def quiet_def input_core_def busy_ok_def Let_def split: option.split)

lemma quiet_told:
  "quiet p (q\<lparr>px_lastMCPNotification := x\<rparr>) = quiet p q"
  "quiet p (q\<lparr>px_mcpNotified := y\<rparr>) = quiet p q"
  by (simp_all add: quiet_def input_core_def)

lemma quiet_mcp_state: "quiet p (p\<lparr>px_state := fst (applyMCPStatus v (px_state p))\<rparr>)"
  using state_core_mcp [of v "px_state p"] mcp_busy [of v "px_state p"] by (simp add: quiet_def input_core_def state_core_def)

lemma quiet_mcp: "quiet p (fst (mcp_step seq v p))"
proof (cases v)
  case (Some w)
  show ?thesis
    unfolding mcp_step_def Some option.case Let_def split_beta
    by (simp add: quiet_told quiet_mcp_state)
qed (simp add: mcp_step_def)

lemma quiet_waiters: "quiet p (fst (role_response_step r p))" "quiet p (fst (models_step m p))"
    "quiet p (fst (notifyInputQueueResult q p))" "quiet p (fst (notifyConfirmRuleIntentResult c p))"
  by (auto simp: role_response_step_def set_role_def models_step_def notifyInputQueueResult_def notifyConfirmRuleIntentResult_def
      quiet_def input_core_def busy_ok_def split: option.split)

lemma quiet_reports: "quiet p (fst (assistant_step now a p))" "quiet p (fst (todos_step t p))" "quiet p (on_state rollback_state p)"
  by (auto simp: assistant_step_def todos_step_def rollback_state_def quiet_def input_core_def busy_ok_def Let_def split: option.split)

text \<open>A payload that is only stored.\<close>

lemma quiet_stored:
  assumes "\<And>x. quiet p (on_state (f x) p)"
  shows "quiet p (stored f v p)"
  using assms by (cases v) simp_all

lemma quiet_stored_field:
  assumes "\<And>x s. state_core (f x s) = state_core s" and "\<And>x s. busy_ok s \<Longrightarrow> busy_ok (f x s)"
  shows "quiet p (stored f v p)"
  using assms(1) [of _ "px_state p"] assms(2)
  by (intro quiet_stored quiet_state) (simp_all add: state_core_def)

lemma quiet_cancelled: "quiet p (p\<lparr>px_state := fst (applyHandoffCancelled i (px_state p))\<rparr>)"
  by (simp add: applyHandoffCancelled_def quiet_def input_core_def busy_ok_def split: option.split)

lemmas quiet_steps = quiet_refl quiet_queue quiet_ready quiet_activity quiet_idle quiet_confirm quiet_question quiet_receipt
  quiet_compaction quiet_mcp quiet_status quiet_waiters quiet_switch quiet_reports quiet_cancelled

lemma pending_core: "state_core (applyPendingConfirm c s) = state_core s" "state_core (applyPendingHandoff h s) = state_core s"
    "busy_ok s \<Longrightarrow> busy_ok (applyPendingConfirm c s)" "busy_ok s \<Longrightarrow> busy_ok (applyPendingHandoff h s)"
  by (simp_all add: applyPendingConfirm_def applyPendingHandoff_def state_core_def busy_ok_def)

lemma role_core: "state_core (set_role role s) = state_core s" "busy_ok (set_role role s) = busy_ok s"
  by (simp_all add: set_role_def state_core_def busy_ok_def)

lemma envelope_case_quiet:
  assumes "\<And>r. body \<noteq> InputResult (Some r)"
  shows "quiet p (fst (envelope_case seq now nowText body p))"
proof (cases body)
  case (InputQueueChanged q)
  then show ?thesis by (simp add: envelope_case_def split_beta quiet_queue)
next
  case (InputResult r)
  then show ?thesis using assms by (cases r) (simp_all add: envelope_case_def)
next
  case (HandoffCancelled i)
  then show ?thesis by (cases i) (simp_all add: envelope_case_def split_beta quiet_cancelled)
next
  case (LocalShellResult l)
  have "quiet p (stored (\<lambda>l s. finishLocalShell (s\<lparr>st_LastLocalShell := Some l\<rparr>)) l p)"
    by (rule quiet_stored_field) (simp_all add: finish_core busy_finish)
  with LocalShellResult show ?thesis by (simp add: envelope_case_def)
next
  case (InputQueueResultEnvelope r)
  then show ?thesis by (cases r) (simp_all add: envelope_case_def quiet_waiters)
next
  case (ConfirmRuleResult r)
  then show ?thesis by (cases r) (simp_all add: envelope_case_def quiet_waiters)
next
  case (ConfirmRequest c)
  have "quiet p (stored applyPendingConfirm c p)" by (rule quiet_stored_field) (simp_all add: pending_core)
  with ConfirmRequest show ?thesis by (simp add: envelope_case_def)
next
  case (HandoffRequest h)
  have "quiet p (stored applyPendingHandoff h p)" by (rule quiet_stored_field) (simp_all add: pending_core)
  with HandoffRequest show ?thesis by (simp add: envelope_case_def)
next
  case (WorkdirChanged w)
  have "quiet p (stored (\<lambda>w s. if trim_space (wd_Path w) \<noteq> '''' then s\<lparr>st_Workdir := w\<rparr> else s) w p)"
    by (rule quiet_stored_field) (simp_all add: state_core_def busy_ok_def)
  with WorkdirChanged show ?thesis by (simp add: envelope_case_def)
next
  case (RoleChange r)
  have "quiet p (stored (\<lambda>role s. if trim_space role \<noteq> '''' then set_role role s else s) r p)"
    by (rule quiet_stored_field) (simp_all add: role_core)
  with RoleChange show ?thesis by (simp add: envelope_case_def)
qed (simp_all only: envelope_case_def envelope_body.case fst_conv quiet_steps,
    (rule quiet_stored_field; simp add: state_core_def busy_ok_def)+)

section \<open>Input results\<close>

definition result_core :: "chord_process \<Rightarrow> chord_process \<Rightarrow> bool" where
  "result_core p p1 \<longleftrightarrow> st_LastEnvelopeSeq (px_state p1) = st_LastEnvelopeSeq (px_state p)
     \<and> (busy_ok (px_state p) \<longrightarrow> busy_ok (px_state p1))"

lemma result_core_refl [simp]: "result_core p p"
  by (simp add: result_core_def)

lemma result_core_trans: "result_core p p1 \<Longrightarrow> result_core p1 p2 \<Longrightarrow> result_core p p2"
  by (simp add: result_core_def)

lemma note_started_core:
  "st_LastEnvelopeSeq (note_started now s) = st_LastEnvelopeSeq s" "busy_ok s \<Longrightarrow> busy_ok (note_started now s)"
proof -
  have "busy_ok ((setAgentBusy True s)\<lparr>st_LastPushAt := now, st_InternalEventsSinceLastPush := 0\<rparr>)" if "busy_ok s"
    using that by (simp add: busy_ok_def setAgentBusy_def)
  then show "busy_ok s \<Longrightarrow> busy_ok (note_started now s)" by (simp add: note_started_def busy_ok_window)
qed (simp add: note_started_def ensureTurnWindow_def setAgentBusy_def)

lemma core_queue: "result_core p (queueInputReceipt i status message p)"
  by (simp add: queueInputReceipt_def result_core_def startInputReceiptWorker_def put_observer_def busy_ok_def Let_def
      split: option.split)

lemma core_observe: "result_core p (fst (observeInputResult r p))"
  by (simp add: observeInputResult_def core_queue split: option.split)

lemma core_update:
  "result_core p q \<Longrightarrow> result_core p (q\<lparr>px_pendingInputs := ps\<rparr>)"
  "result_core p q \<Longrightarrow> result_core p (q\<lparr>px_state := (px_state q)\<lparr>st_LastInputResult := v\<rparr>\<rparr>)"
  "result_core p q \<Longrightarrow> result_core p (q\<lparr>px_state := (px_state q)\<lparr>st_UnconfirmedInputs := n\<rparr>\<rparr>)"
  "result_core p q \<Longrightarrow> result_core p (q\<lparr>px_state := note_started now (px_state q)\<rparr>)"
  by (simp_all add: result_core_def note_started_core) (simp_all add: busy_ok_def)

lemma core_cond: "result_core p x \<Longrightarrow> result_core p y \<Longrightarrow> result_core p (if c then x else y)"
  by simp

lemma result_keeps_core: "result_core p (fst (applyInputResult seq now r p))"
  unfolding applyInputResult_def Let_def split_beta
  by (simp only: if_distrib [of fst] fst_conv) (intro core_cond core_update core_observe result_core_refl)

section \<open>Runs of envelopes\<close>

type_synonym delivered = "64 word \<times> gotime \<times> string \<times> bool \<times> envelope_body"

fun envelope_run :: "delivered list \<Rightarrow> chord_process \<Rightarrow> chord_process \<times> effects list" where
  "envelope_run [] p = (p, [])"
| "envelope_run ((seq, now, nowText, applied, body) # es) p =
     (let (p1, ef) = processEnvelope seq now nowText applied body p; (p2, efs) = envelope_run es p1 in (p2, ef # efs))"

text \<open>What a run keeps of the process it starts from.\<close>

definition sound_process :: "chord_process \<Rightarrow> bool" where
  "sound_process p \<longleftrightarrow> receipts_ok p \<and> busy_ok (px_state p)"

lemma sound_quiet:
  assumes "quiet p p1"
  shows "sound_process p \<Longrightarrow> sound_process p1" and "st_LastEnvelopeSeq (px_state p1) = st_LastEnvelopeSeq (px_state p)"
  using assms receipts_ok_core [of p1 p] by (simp_all add: quiet_def sound_process_def)

lemma case_sound:
  assumes "sound_process p"
  shows "sound_process (fst (envelope_case seq now nowText body p))
    \<and> st_LastEnvelopeSeq (px_state (fst (envelope_case seq now nowText body p))) = st_LastEnvelopeSeq (px_state p)"
proof (cases "\<exists>r. body = InputResult (Some r)")
  case True
  then obtain r where b: "body = InputResult (Some r)" by blast
  have "fst (envelope_case seq now nowText body p) = fst (applyInputResult seq now r p)"
    unfolding envelope_case_def b envelope_body.case option.case Let_def split_beta fst_conv ..
  then show ?thesis
    using assms applyInputResult_ok [of p seq now r] result_keeps_core [of p seq now r]
    by (simp add: sound_process_def result_core_def)
next
  case False
  then have "quiet p (fst (envelope_case seq now nowText body p))" by (intro envelope_case_quiet) simp
  then show ?thesis using sound_quiet assms by simp
qed

lemma sound_stamp: "sound_process (stamp_process now nowText p) = sound_process p"
    "st_LastEnvelopeSeq (px_state (stamp_process now nowText p)) = st_LastEnvelopeSeq (px_state p)"
proof -
  have "receipts_ok (stamp_process now nowText p) = receipts_ok p"
    by (rule receipts_ok_core) (simp add: stamp_process_def input_core_def)
  then show "sound_process (stamp_process now nowText p) = sound_process p"
    by (simp add: stamp_process_def sound_process_def busy_ok_def)
qed (simp add: stamp_process_def)

lemma sound_seq: "sound_process (note_seq seq p) = sound_process p"
    "st_LastEnvelopeSeq (px_state (note_seq seq p)) = max (st_LastEnvelopeSeq (px_state p)) seq"
proof -
  have "receipts_ok (note_seq seq p) = receipts_ok p"
    by (rule receipts_ok_core) (simp add: note_seq_def input_core_def)
  then show "sound_process (note_seq seq p) = sound_process p"
    by (simp add: note_seq_def sound_process_def busy_ok_def)
qed (auto simp: note_seq_def max_def)

lemma sound_backpressure:
  assumes "sound_process p"
  shows "sound_process (on_state (\<lambda>s. s\<lparr>st_LastError := v\<rparr>) (p\<lparr>px_inputReceiptBlocked := True\<rparr>))"
  using assms unfolding sound_process_def receipts_ok_def busy_ok_def by simp

lemma if_cases_rule: "P x \<Longrightarrow> P y \<Longrightarrow> P (if c then y else x)"
  by simp

lemma processEnvelope_sound:
  assumes "sound_process p"
  shows "sound_process (fst (processEnvelope seq now nowText applied body p))"
    and "st_LastEnvelopeSeq (px_state (fst (processEnvelope seq now nowText applied body p))) = max (st_LastEnvelopeSeq (px_state p)) seq"
proof -
  let ?p = "note_seq seq (fst (envelope_case seq now nowText body (stamp_process now nowText p)))"
  have p: "sound_process ?p" "st_LastEnvelopeSeq (px_state ?p) = max (st_LastEnvelopeSeq (px_state p)) seq"
    using case_sound [of "stamp_process now nowText p" seq now nowText body] assms by (simp_all add: sound_stamp sound_seq)
  show "sound_process (fst (processEnvelope seq now nowText applied body p))"
    using p(1) sound_backpressure [OF p(1)] unfolding processEnvelope_def Let_def split_beta fst_conv by (rule if_cases_rule)
  show "st_LastEnvelopeSeq (px_state (fst (processEnvelope seq now nowText applied body p))) = max (st_LastEnvelopeSeq (px_state p)) seq"
    using p(2) unfolding processEnvelope_def Let_def split_beta fst_conv by simp
qed

text \<open>
  C26: Whatever a Chord process writes, in any order and with any contents, the bookkeeping of the
  inputs sent to it stays consistent and within its bounds, it is shown busy exactly when its agent
  or a local shell is, and the number of the newest envelope is the greatest one seen.
\<close>

theorem envelopes_keep_process:
  assumes "receipts_ok p" and "busy_ok (px_state p)"
  shows "receipts_ok (fst (envelope_run es p)) \<and> busy_ok (px_state (fst (envelope_run es p)))
    \<and> st_LastEnvelopeSeq (px_state (fst (envelope_run es p))) = fold max (map fst es) (st_LastEnvelopeSeq (px_state p))"
proof -
  have "sound_process (fst (envelope_run es p))
      \<and> st_LastEnvelopeSeq (px_state (fst (envelope_run es p))) = fold max (map fst es) (st_LastEnvelopeSeq (px_state p))"
    if "sound_process p" for p
    using that
  proof (induction es arbitrary: p)
    case (Cons e es)
    obtain seq now nowText applied body where e: "e = (seq, now, nowText, applied, body)" by (cases e) auto
    show ?case
      using Cons.IH [OF processEnvelope_sound(1) [OF Cons.prems, of seq now nowText applied body]]
        processEnvelope_sound(2) [OF Cons.prems, of seq now nowText applied body]
      by (simp add: e split_beta max.commute)
  qed simp
  then show ?thesis using assms by (simp add: sound_process_def)
qed

lemma new_process_busy: "busy_ok (px_state new_process)"
  by (simp add: new_process_def zero_state_def busy_ok_def)

theorem envelopes_keep_process_witness:
  "st_LastEnvelopeSeq (px_state (fst (envelope_run [(7, 5, ''t'', True, Activity (Some (''thinking'', ''''))),
     (3, 6, ''t'', True, Idle None), (4, 6, ''t'', False, QuestionReceiptEnvelope (Some \<lparr>qc_OperationID = ''o'', qc_RequestID = ''q'',
       qc_Accepted = False, qc_Status = '''', qc_Version = 1, qc_Error = ''e''\<rparr>))] new_process))) = 7"
  by (subst envelopes_keep_process [OF new_process_ok new_process_busy, THEN conjunct2, THEN conjunct2])
    (simp add: new_process_def zero_state_def)

section \<open>Late envelopes\<close>

definition status_of :: "envelope_body \<Rightarrow> bool" where
  "status_of body = (case body of StatusResponseEnvelope r \<Rightarrow> True | Activity a \<Rightarrow> True | MCPStatusChanged v \<Rightarrow> True
     | InputQueueChanged q \<Rightarrow> True | _ \<Rightarrow> False)"

definition quietly :: "nat list \<Rightarrow> chord_process \<Rightarrow> chord_process \<times> effects \<Rightarrow> bool" where
  "quietly waiters p r \<longleftrightarrow> fst r = p\<lparr>px_statusWaiters := waiters\<rparr> \<and> ef_event (snd r) = '''' \<and> ef_questions (snd r) = []
     \<and> ef_pin (snd r) = '''' \<and> ef_receipt (snd r) = None"

lemma quietly_same: "quietly (px_statusWaiters p) p (p, no_effects)"
  by (simp add: quietly_def no_effects_def)

lemma late_status:
  assumes late: "seq < st_LastEnvelopeSeq (px_state p)"
  shows "\<exists>waiters. quietly waiters p (status_step seq now r p)"
proof (cases "\<exists>v inputs. r = Some v \<and> normalizePausedInputs (sr_PausedInputs v) = Some inputs")
  case True
  then obtain v inputs where v: "r = Some v" "normalizePausedInputs (sr_PausedInputs v) = Some inputs" by blast
  have "\<exists>sent. status_step seq now r p = (p\<lparr>px_statusWaiters := []\<rparr>, no_effects\<lparr>ef_sent := sent\<rparr>)"
    unfolding status_step_def v(1) option.case v(2) Let_def eqTrueI [OF late] if_True prod.case by blast
  then show ?thesis by (auto simp: quietly_def no_effects_def)
next
  case False
  then have "status_step seq now r p = (p, no_effects)" unfolding status_step_def by (auto split: option.split)
  then show ?thesis by (metis quietly_same)
qed

lemma late_case:
  assumes "status_of body" and late: "seq < st_LastEnvelopeSeq (px_state p)"
  shows "\<exists>waiters. quietly waiters p (envelope_case seq now nowText body p)"
proof -
  from assms(1) consider r where "body = StatusResponseEnvelope r" | a where "body = Activity a"
    | v where "body = MCPStatusChanged v" | q where "body = InputQueueChanged q"
    by (cases body) (simp_all add: status_of_def)
  then show ?thesis
  proof cases
    case 1
    show ?thesis unfolding envelope_case_def 1 envelope_body.case by (rule late_status [OF late])
  next
    case 2
    have "activity_step seq now a p = (p, no_effects)" using late by (simp add: activity_step_def)
    then show ?thesis unfolding envelope_case_def 2 envelope_body.case by (metis quietly_same)
  next
    case 3
    have "mcp_step seq v p = (p, no_effects)" using late by (simp add: mcp_step_def)
    then show ?thesis unfolding envelope_case_def 3 envelope_body.case by (metis quietly_same)
  next
    case 4
    show ?thesis unfolding envelope_case_def 4 envelope_body.case using late quietly_same [of p] by auto
  qed
qed

text \<open>
  A status, an activity, a report on the servers or on the queue that is older than the newest
  envelope shows nothing and asks for nothing: beside the times of the last contact and the callers
  it wakes, the process is as it was.
\<close>

theorem late_reports_ignored:
  assumes "status_of body" and "seq < st_LastEnvelopeSeq (px_state p)"
  shows "\<exists>waiters. fst (processEnvelope seq now nowText applied body p)
      = on_state (\<lambda>s. s\<lparr>st_UpdatedAt := nowText\<rparr>) (p\<lparr>px_lastActivity := now, px_statusWaiters := waiters\<rparr>)
    \<and> ef_event (snd (processEnvelope seq now nowText applied body p)) = ''''
    \<and> ef_questions (snd (processEnvelope seq now nowText applied body p)) = []
    \<and> ef_pin (snd (processEnvelope seq now nowText applied body p)) = ''''"
proof -
  let ?p = "stamp_process now nowText p"
  have late: "seq < st_LastEnvelopeSeq (px_state ?p)" using assms(2) by (simp add: stamp_process_def)
  obtain waiters where w: "quietly waiters ?p (envelope_case seq now nowText body ?p)"
    using late_case [OF assms(1) late] by blast
  have "note_seq seq (?p\<lparr>px_statusWaiters := waiters\<rparr>) = ?p\<lparr>px_statusWaiters := waiters\<rparr>"
    using late by (simp add: note_seq_def)
  with w have p: "processEnvelope seq now nowText applied body p = (?p\<lparr>px_statusWaiters := waiters\<rparr>, snd (envelope_case seq now nowText body ?p))"
    unfolding processEnvelope_def Let_def split_beta quietly_def by simp
  show ?thesis
    using w unfolding p quietly_def by (intro exI [of _ waiters]) (simp add: stamp_process_def)
qed

theorem late_reports_ignored_witness:
  "\<exists>waiters. fst (processEnvelope 3 9 ''t'' True (Activity (Some (''retrying'', ''x''))) (on_state (\<lambda>s. s\<lparr>st_LastEnvelopeSeq := 5\<rparr>) new_process))
     = on_state (\<lambda>s. s\<lparr>st_UpdatedAt := ''t''\<rparr>) ((on_state (\<lambda>s. s\<lparr>st_LastEnvelopeSeq := 5\<rparr>) new_process)
         \<lparr>px_lastActivity := 9, px_statusWaiters := waiters\<rparr>)"
  using late_reports_ignored [of "Activity (Some (''retrying'', ''x''))" 3 "on_state (\<lambda>s. s\<lparr>st_LastEnvelopeSeq := 5\<rparr>) new_process" 9 "''t''" True]
  by (simp add: status_of_def)

section \<open>Sessions that are pinned\<close>

lemma pin_cases:
  assumes "ef_pin (snd (envelope_case seq now nowText body p)) \<noteq> ''''"
  shows "(\<exists>paused r. body = Ready paused r) \<or> (\<exists>w. body = SessionSwitched w)"
proof (rule ccontr)
  assume "\<not> ?thesis"
  then have "ef_pin (snd (envelope_case seq now nowText body p)) = ''''"
    by (cases body)
      (auto simp: envelope_case_def no_effects_def activity_step_def idle_step_def confirm_resolved_step_def question_step_def
        question_receipt_step_def mcp_step_def status_step_def merge_status_def role_response_step_def models_step_def
        notifyInputQueueResult_def notifyConfirmRuleIntentResult_def assistant_step_def todos_step_def Let_def split_beta
        split: option.split)
  with assms show False by simp
qed

lemma queue_session: "st_SessionID (px_state (fst (applyInputQueue q p))) = st_SessionID (px_state p)"
    "px_questionEventVersions (fst (applyInputQueue q p)) = px_questionEventVersions p"
  by (subst applyInputQueue_frame, simp)+

lemma ready_pin:
  assumes "ef_pin (snd (ready_step paused r p)) \<noteq> ''''"
  shows "ef_pin (snd (ready_step paused r p)) = st_SessionID (px_state (fst (ready_step paused r p))) \<and> \<not> inputBlocked p
    \<and> (px_expectedSessionID p = '''' \<or> ef_pin (snd (ready_step paused r p)) = px_expectedSessionID p)"
proof (cases "\<exists>v inputs. r = Some v \<and> normalizePausedInputs (rp_PausedInputs v) = Some inputs \<and> \<not> ready_refused paused v inputs p")
  case True
  then obtain v inputs where v: "r = Some v" "normalizePausedInputs (rp_PausedInputs v) = Some inputs" "\<not> ready_refused paused v inputs p"
    by blast
  have e: "px_expectedSessionID p = '''' \<or> rp_SessionID v = px_expectedSessionID p" using v(3) by (auto simp: ready_refused_def)
  have b: "inputBlocked (fst (applyInputQueue q p1)) = inputBlocked p1" for q p1
    by (subst applyInputQueue_frame) (simp add: inputBlocked_def)
  have c: "inputBlocked (p\<lparr>px_runtimeID := x1, px_workspacePath := x2, px_sessionEpoch := x3, px_readyPaused := x4,
      px_readyClosed := x5, px_state := x6\<rparr>) = inputBlocked p" for x1 x2 x3 x4 x5 x6 by (simp add: inputBlocked_def)
  show ?thesis
    using assms e unfolding ready_step_def v(1) option.case v(2) Let_def
    by (simp add: v(3) queue_session b c no_effects_def split: if_splits)
next
  case False
  then have "ef_pin (snd (ready_step paused r p)) = ''''"
    unfolding ready_step_def by (auto simp: no_effects_def split: option.split)
  with assms show ?thesis by simp
qed

lemma switch_pin:
  assumes "ef_pin (snd (switch_step w p)) \<noteq> ''''"
  shows "ef_pin (snd (switch_step w p)) = st_SessionID (px_state (fst (switch_step w p))) \<and> \<not> inputBlocked p"
proof (cases "\<exists>v. w = Some v \<and> trim_space (sw_SessionID v) \<noteq> '''' \<and> \<not> inputBlocked p")
  case True
  then obtain v where v: "w = Some v" "trim_space (sw_SessionID v) \<noteq> ''''" "\<not> inputBlocked p" by blast
  show ?thesis
    unfolding switch_step_def v(1) option.case Let_def
    by (simp add: v(2,3) forget_session_def queue_session no_effects_def)
next
  case False
  then have "ef_pin (snd (switch_step w p)) = ''''"
    unfolding switch_step_def by (auto simp: no_effects_def Let_def split: option.split)
  with assms show ?thesis by simp
qed

text \<open>
  C27: A session is only recorded as the one to reopen when the process is in that session after the
  envelope, while no transfer, restoration or guard holds the binding; a process that reports itself
  ready must report the session it was started for.
\<close>

theorem pinned_session_sound:
  assumes "ef_pin (snd (processEnvelope seq now nowText applied body p)) = i" and "i \<noteq> ''''"
  shows "st_SessionID (px_state (fst (processEnvelope seq now nowText applied body p))) = i \<and> \<not> inputBlocked p
    \<and> (px_expectedSessionID p = '''' \<or> px_expectedSessionID p = i \<or> (\<exists>w. body = SessionSwitched w))"
proof -
  let ?p = "stamp_process now nowText p" and ?r = "envelope_case seq now nowText body (stamp_process now nowText p)"
  have same: "inputBlocked ?p = inputBlocked p" "px_expectedSessionID ?p = px_expectedSessionID p"
    by (simp_all add: stamp_process_def inputBlocked_def)
  have out: "ef_pin (snd (processEnvelope seq now nowText applied body p)) = ef_pin (snd ?r)"
    "st_SessionID (px_state (fst (processEnvelope seq now nowText applied body p))) = st_SessionID (px_state (fst ?r))"
    unfolding processEnvelope_def Let_def split_beta by (simp_all add: note_seq_def)
  from assms out(1) have pin: "ef_pin (snd ?r) \<noteq> ''''" "ef_pin (snd ?r) = i" by simp_all
  from pin_cases [OF pin(1)] show ?thesis
  proof
    assume "\<exists>paused r. body = Ready paused r"
    then obtain paused r where b: "body = Ready paused r" by blast
    have "?r = ready_step paused r ?p" unfolding b envelope_case_def envelope_body.case ..
    with ready_pin [of paused r ?p] pin same out(2) show ?thesis by auto
  next
    assume "\<exists>w. body = SessionSwitched w"
    then obtain w where b: "body = SessionSwitched w" by blast
    have "?r = switch_step w ?p" unfolding b envelope_case_def envelope_body.case ..
    with switch_pin [of w ?p] pin same out(2) show ?thesis by (simp add: b)
  qed
qed

lemma switch_applies:
  assumes "trim_space (sw_SessionID v) = i" and "i \<noteq> ''''" and "\<not> inputBlocked p"
  shows "ef_pin (snd (processEnvelope seq now nowText applied (SessionSwitched (Some v)) p)) = i"
proof -
  have "\<not> inputBlocked (stamp_process now nowText p)" using assms(3) by (simp add: stamp_process_def inputBlocked_def)
  then have "ef_pin (snd (switch_step (Some v) (stamp_process now nowText p))) = i"
    unfolding switch_step_def option.case Let_def assms(1) by (simp add: assms(2))
  then show ?thesis unfolding processEnvelope_def Let_def split_beta envelope_case_def envelope_body.case by simp
qed

theorem pinned_session_sound_witness:
  "st_SessionID (px_state (fst (processEnvelope 3 9 ''t'' True (SessionSwitched (Some \<lparr>sw_SessionID = ''S2'', sw_RuntimeID = '''',
     sw_SessionEpoch = 2, sw_InputQueue = None, sw_Workspace = ''''\<rparr>)) new_process))) = ''S2''"
proof -
  have t: "trim_space ''S2'' = ''S2''" by code_simp
  have b: "\<not> inputBlocked new_process" by (simp add: inputBlocked_def new_process_def)
  show ?thesis by (rule pinned_session_sound [THEN conjunct1], rule switch_applies [OF _ _ b]) (simp_all add: t)
qed

section \<open>Closed questions\<close>

text \<open>The versions of a request whose closing an envelope announces, and the last one announced.\<close>

definition closing :: "string \<times> control_state \<Rightarrow> question_payload option" where
  "closing e = (if fst e = ''question_resolved'' then st_LastQuestion (snd e) else None)"

definition closures :: "string \<Rightarrow> (string \<times> control_state) list \<Rightarrow> 64 word list" where
  "closures i es = concat (map (\<lambda>e. case closing e of None \<Rightarrow> [] | Some q \<Rightarrow> if qp_RequestID q = i then [qp_Version q] else []) es)"

definition closed_at :: "string \<Rightarrow> chord_process \<Rightarrow> 64 word option" where
  "closed_at i p = map_of (px_questionEventVersions p) (compositeKey [i, ''question_resolved''])"

fun climbs :: "64 word option \<Rightarrow> 64 word list \<Rightarrow> 64 word option \<Rightarrow> bool" where
  "climbs m [] n = (n = m)"
| "climbs m (v # vs) n = ((case m of None \<Rightarrow> True | Some w \<Rightarrow> w < v) \<and> climbs (Some v) vs n)"

lemma climbs_append: "climbs l vs m \<Longrightarrow> climbs m ws n \<Longrightarrow> climbs l (vs @ ws) n"
  by (induction vs arbitrary: l) auto

lemma climbs_sorted: "climbs m vs n \<Longrightarrow> sorted_wrt (<) vs \<and> (\<forall>w. m = Some w \<longrightarrow> (\<forall>v \<in> set vs. w < v))"
  by (induction vs arbitrary: m) (fastforce split: option.splits)+

lemma closures_simps:
  "closures i [] = []" "closures i (es @ fs) = closures i es @ closures i fs"
  "closures i (questionEvent ''question_resolved'' q p # es) = (if qp_RequestID q = i then qp_Version q # closures i es else closures i es)"
  "kind \<noteq> ''question_resolved'' \<Longrightarrow> closures i (questionEvent kind q p # es) = closures i es"
  by (simp_all add: closures_def closing_def questionEvent_def Let_def)

lemma closing_key:
  "(compositeKey [j, kind] = compositeKey [i, ''question_resolved'']) = (j = i \<and> kind = ''question_resolved'')"
  if "kind \<in> {''question_request'', ''question_updated'', ''question_resolved''}"
proof
  assume eq: "compositeKey [j, kind] = compositeKey [i, ''question_resolved'']"
  then have "rev (compositeKey [j, kind]) = rev (compositeKey [i, ''question_resolved''])" by simp
  with that eq show "j = i \<and> kind = ''question_resolved''"
    by (auto simp: compositeKey_def)
qed simp

lemma mark_climbs:
  assumes "kind \<in> {''question_request'', ''question_updated'', ''question_resolved''}"
  shows "climbs (closed_at i p) (if snd (markQuestionEvent kind q p) then closures i [questionEvent kind q p1] else [])
    (closed_at i (fst (markQuestionEvent kind q p)))"
proof -
  have c: "closures i [questionEvent kind q p1] = (if kind = ''question_resolved'' \<and> qp_RequestID q = i then [qp_Version q] else [])"
    by (cases "kind = ''question_resolved''") (simp_all add: closures_simps)
  have key: "(question_key kind q = compositeKey [i, ''question_resolved'']) = (qp_RequestID q = i \<and> kind = ''question_resolved'')"
    unfolding question_key_def using closing_key [OF assms] .
  let ?k = "question_key kind q" and ?vs = "px_questionEventVersions p"
  show ?thesis
  proof (cases "case map_of ?vs ?k of None \<Rightarrow> False | Some v \<Rightarrow> qp_Version q \<le> v")
    case True
    then have "markQuestionEvent kind q p = (p, False)" unfolding markQuestionEvent_def Let_def by (simp only: if_True)
    then show ?thesis by simp
  next
    case False
    then have m: "markQuestionEvent kind q p = (p\<lparr>px_questionEventVersions := AList.update ?k (qp_Version q) ?vs\<rparr>, True)"
      unfolding markQuestionEvent_def Let_def by (simp only: if_False)
    have n: "closed_at i (fst (markQuestionEvent kind q p)) = (if ?k = compositeKey [i, ''question_resolved''] then Some (qp_Version q) else closed_at i p)"
      by (simp add: m closed_at_def update_conv')
    show ?thesis
    proof (cases "qp_RequestID q = i \<and> kind = ''question_resolved''")
      case True
      then have "?k = compositeKey [i, ''question_resolved'']" using key by simp
      with False True n m show ?thesis unfolding c by (simp add: closed_at_def split: option.splits)
    next
      case other: False
      then have "?k \<noteq> compositeKey [i, ''question_resolved'']" using key by simp
      with other n m show ?thesis unfolding c by auto
    qed
  qed
qed

lemma reconcile_climbs: "climbs (closed_at i p) (closures i (snd (reconcile_loop previous is p))) (closed_at i (fst (reconcile_loop previous is p)))"
proof (induction "is" arbitrary: p)
  case (Cons j "is")
  show ?case
  proof (cases "map_of (st_Questions (px_state p)) j")
    case None
    with Cons show ?thesis by simp
  next
    case (Some q)
    let ?m = "markQuestionEvent ''question_resolved'' q p"
    have "climbs (closed_at i p) (if snd ?m then closures i [questionEvent ''question_resolved'' q (fst ?m)] else []) (closed_at i (fst ?m))"
      by (rule mark_climbs) simp
    from climbs_append [OF this Cons.IH] have
      "climbs (closed_at i p) (closures i (if snd ?m then questionEvent ''question_resolved'' q (fst ?m) # snd (reconcile_loop previous is (fst ?m))
          else snd (reconcile_loop previous is (fst ?m)))) (closed_at i (fst (reconcile_loop previous is (fst ?m))))"
      by (cases "snd ?m") (simp_all add: closures_simps split: if_splits)
    with Some Cons.IH [of p] show ?thesis by (simp add: split_beta closures_simps)
  qed
qed (simp add: closures_simps)

definition steady :: "string \<Rightarrow> chord_process \<Rightarrow> chord_process \<times> effects \<Rightarrow> bool" where
  "steady i p r \<longleftrightarrow> climbs (closed_at i p) (closures i (ef_questions (snd r))) (closed_at i (fst r))"

lemma steady_same:
  "px_questionEventVersions (fst r) = px_questionEventVersions p \<Longrightarrow> ef_questions (snd r) = [] \<Longrightarrow> steady i p r"
  by (simp add: steady_def closed_at_def closures_simps)

text \<open>An envelope that stays within the session of the process.\<close>

definition stays :: "chord_process \<Rightarrow> envelope_body \<Rightarrow> bool" where
  "stays p body = (case body of SessionSwitched w \<Rightarrow> False
     | StatusResponseEnvelope (Some r) \<Rightarrow> sr_SessionID r = st_SessionID (px_state p) | _ \<Rightarrow> True)"

lemma steady_question: "steady i p (question_step seq kind q p)"
proof (cases "\<exists>v. q = Some v \<and> \<not> (qp_RequestID v = '''' \<or> question_refused seq v (px_state p))")
  case True
  then obtain v where v: "q = Some v" "\<not> (qp_RequestID v = '''' \<or> question_refused seq v (px_state p))" by blast
  let ?p = "on_state (\<lambda>s. fst (applyQuestionState v s)) p"
  let ?m = "markQuestionEvent (question_kind_text kind) v ?p"
  have k: "question_kind_text kind \<in> {''question_request'', ''question_updated'', ''question_resolved''}"
    by (cases kind) (simp_all add: question_kind_text_def)
  have "closed_at i p = closed_at i ?p" by (simp add: closed_at_def)
  with mark_climbs [OF k, of i ?p v "fst ?m"] show ?thesis
    unfolding steady_def question_step_def v(1) option.case Let_def split_beta
    by (cases "snd ?m") (simp_all add: v(2) [simplified] no_effects_def closures_simps(1))
next
  case False
  then have "question_step seq kind q p = (p, no_effects)" unfolding question_step_def by (auto split: option.split)
  then show ?thesis by (simp add: steady_same no_effects_def)
qed

lemma steady_merge:
  assumes "sr_SessionID r = st_SessionID (px_state p)"
  shows "steady i p (merge_status now r p)"
proof -
  let ?p2 = "fst (applyInputQueue (sr_InputQueue r) (on_state (applyStatusResponse r) p))"
  let ?p3 = "if sr_Workspace r \<noteq> '''' then ?p2\<lparr>px_workspacePath := sr_Workspace r\<rparr> else ?p2"
  let ?p4 = "if sr_Busy r then on_state (ensureTurnWindow now) ?p3 else ?p3"
  have same: "(sr_SessionID r \<noteq> st_SessionID (px_state p)) = False" using assms by simp
  have ef: "ef_questions (ef\<lparr>ef_event := a, ef_questions := es\<rparr>) = es" for ef a es by simp
  have "closed_at i ?p4 = closed_at i p" by (simp add: closed_at_def queue_session)
  with reconcile_climbs [of i ?p4 "st_Questions (px_state p)" "reconcile_ids (st_Questions (px_state p)) (px_state ?p4)"]
  show ?thesis
    unfolding steady_def merge_status_def reconcileQuestionEvents_def Let_def split_beta fst_conv snd_conv same if_False ef
    by (simp only:)
qed

lemma steady_status:
  assumes "stays p (StatusResponseEnvelope r)"
  shows "steady i p (status_step seq now r p)"
proof (cases "\<exists>v inputs. r = Some v \<and> normalizePausedInputs (sr_PausedInputs v) = Some inputs")
  case True
  then obtain v inputs where v: "r = Some v" "normalizePausedInputs (sr_PausedInputs v) = Some inputs" by blast
  have m: "steady i p (merge_status now (v\<lparr>sr_PausedInputs := inputs\<rparr>) p)"
    by (rule steady_merge) (use assms v(1) in \<open>simp add: stays_def\<close>)
  have w: "steady i p (q\<lparr>px_statusWaiters := ws\<rparr>, ef\<lparr>ef_sent := sent\<rparr>)" if "steady i p (q, ef)" for q ws ef sent
    using that by (simp add: steady_def closed_at_def)
  show ?thesis
    unfolding status_step_def v(1) option.case v(2) Let_def split_beta
    by (rule w) (use m steady_same [of "(p, no_effects)"] in \<open>simp add: no_effects_def\<close>)
next
  case False
  then have "status_step seq now r p = (p, no_effects)" unfolding status_step_def by (auto split: option.split)
  then show ?thesis by (simp add: steady_same no_effects_def)
qed

lemma result_versions: "px_questionEventVersions (fst (applyInputResult seq now r p)) = px_questionEventVersions p"
proof -
  have q: "px_questionEventVersions (fst (observeInputResult r p)) = px_questionEventVersions p"
    by (simp add: observeInputResult_def queueInputReceipt_def startInputReceiptWorker_def put_observer_def Let_def split: option.split)
  show ?thesis
    unfolding applyInputResult_def Let_def split_beta
    by (simp only: if_distrib [of fst] if_distrib [of px_questionEventVersions] fst_conv) (simp add: q)
qed

lemma ready_versions: "px_questionEventVersions (fst (ready_step paused r p)) = px_questionEventVersions p
    \<and> ef_questions (snd (ready_step paused r p)) = []"
proof (cases "\<exists>v inputs. r = Some v \<and> normalizePausedInputs (rp_PausedInputs v) = Some inputs \<and> \<not> ready_refused paused v inputs p")
  case True
  then obtain v inputs where v: "r = Some v" "normalizePausedInputs (rp_PausedInputs v) = Some inputs" "\<not> ready_refused paused v inputs p"
    by blast
  show ?thesis
    unfolding ready_step_def v(1) option.case v(2) Let_def by (simp add: v(3) queue_session no_effects_def)
next
  case False
  then have "ready_step paused r p = (p, no_effects)" unfolding ready_step_def by (auto split: option.split)
  then show ?thesis by (simp add: no_effects_def)
qed

lemma steady_case:
  assumes "stays p body"
  shows "steady i p (envelope_case seq now nowText body p)"
proof (cases "\<exists>kind q. body = QuestionEnvelope kind q")
  case True
  then obtain kind q where b: "body = QuestionEnvelope kind q" by blast
  show ?thesis unfolding b envelope_case_def envelope_body.case by (rule steady_question)
next
  case noq: False
  show ?thesis
  proof (cases "\<exists>r. body = StatusResponseEnvelope r")
    case True
    then obtain r where b: "body = StatusResponseEnvelope r" by blast
    show ?thesis unfolding b envelope_case_def envelope_body.case using assms b by (simp only: steady_status)
  next
    case False
    with noq assms show ?thesis
      by (intro steady_same)
        (cases body, auto simp: envelope_case_def stays_def no_effects_def ready_versions result_versions queue_session
          activity_step_def idle_step_def confirm_resolved_step_def question_receipt_step_def mcp_step_def role_response_step_def
          models_step_def notifyInputQueueResult_def notifyConfirmRuleIntentResult_def assistant_step_def todos_step_def
          compaction_step_def Let_def split_beta split: option.split)+
  qed
qed

fun one_session :: "delivered list \<Rightarrow> chord_process \<Rightarrow> bool" where
  "one_session [] p = True"
| "one_session ((seq, now, nowText, applied, body) # es) p =
     (stays p body \<and> one_session es (fst (processEnvelope seq now nowText applied body p)))"

text \<open>
  While a process stays in its session, the versions at which one question is announced as closed
  grow strictly, whether the question itself or a snapshot says so: no closing is announced twice.
\<close>

theorem closings_announced_once:
  assumes "one_session es p"
  shows "sorted_wrt (<) (concat (map (\<lambda>ef. closures i (ef_questions ef)) (snd (envelope_run es p))))"
proof -
  have "\<exists>n. climbs (closed_at i p) (concat (map (\<lambda>ef. closures i (ef_questions ef)) (snd (envelope_run es p)))) n"
    using assms
  proof (induction es arbitrary: p)
    case (Cons e es)
    obtain seq now nowText applied body where e: "e = (seq, now, nowText, applied, body)" by (cases e) auto
    let ?p = "stamp_process now nowText p" and ?r = "processEnvelope seq now nowText applied body p"
    have s: "stays ?p body" "closed_at i ?p = closed_at i p"
      using Cons.prems e by (auto simp: stays_def stamp_process_def closed_at_def split: envelope_body.splits option.splits)
    have out: "snd ?r = snd (envelope_case seq now nowText body ?p)"
      "closed_at i (fst ?r) = closed_at i (fst (envelope_case seq now nowText body ?p))"
      unfolding processEnvelope_def Let_def split_beta by (simp_all add: note_seq_def closed_at_def)
    have "climbs (closed_at i p) (closures i (ef_questions (snd ?r))) (closed_at i (fst ?r))"
      using steady_case [OF s(1), of i seq now nowText] s(2) unfolding out steady_def by simp
    moreover from Cons.prems e Cons.IH [of "fst ?r"] obtain n where
      "climbs (closed_at i (fst ?r)) (concat (map (\<lambda>ef. closures i (ef_questions ef)) (snd (envelope_run es (fst ?r))))) n" by auto
    ultimately show ?case using climbs_append by (fastforce simp: e split_beta)
  next
    case Nil
    show ?case by (intro exI [of _ "closed_at i p"]) simp
  qed
  then show ?thesis using climbs_sorted by blast
qed

definition sample_question :: "64 word \<Rightarrow> string \<Rightarrow> question_payload" where
  "sample_question v outcome = \<lparr>qp_BindingID = ''b1'', qp_OptionIDs = [], qp_Version = v, qp_TaskID = '''', qp_ScopeID = '''',
     qp_ResponsePolicy = '''', qp_DefaultOptionID = '''', qp_Timer = '''', qp_Outcome = outcome, qp_ResultID = '''', qp_Selected = [],
     qp_SelectedIDs = [], qp_ToolName = '''', qp_Header = '''', qp_Question = ''Go on?'', qp_Options = [], qp_OptionDetails = [],
     qp_Multiple = False, qp_RequestID = ''q1'', qp_Deadline = None, qp_RevisionResult = None\<rparr>"

theorem closings_announced_once_witness:
  "sorted_wrt (<) (concat (map (\<lambda>ef. closures ''q1'' (ef_questions ef)) (snd (envelope_run
     [(1, 1, ''t'', True, QuestionEnvelope QuestionRequest (Some (sample_question 1 ''''))),
      (2, 2, ''t'', True, QuestionEnvelope QuestionResolved (Some (sample_question 2 ''answered''))),
      (2, 3, ''t'', True, QuestionEnvelope QuestionResolved (Some (sample_question 2 ''answered'')))] new_process))))"
  by (rule closings_announced_once) (simp add: stays_def)

end
