(* ===== verification/RateLimiter.thy ===== *)
theory RateLimiter
  imports GoText
begin

text \<open>
  The limiter of requests to Discord, \<open>internal/platform/discord/discord_ratelimiter.go\<close>: one
  request of a route at a time, none before the limits the service announced have run out, and a
  bounded table of routes. A call of \<open>Wait\<close> gives the mutex away while it sleeps, so it is a
  sequence of turns; the system is the limiter and the calls that wait or have passed, and its
  steps are the turns of the calls, the answers of the service and the closing, in any order.
  What the client library relies on is kept: \<open>Unlock\<close> follows a \<open>Wait\<close> that let the request pass.
\<close>

section \<open>State\<close>

record rate_key =
  rk_method :: string
  rk_route :: string
  rk_major :: string

record rate_bucket =
  rb_busy :: bool
  rb_references :: int
  rb_remaining :: int
  rb_reset :: gotime

record rate_limiter =
  rl_cancelled :: bool
  rl_closed :: bool
  rl_global :: gotime
  rl_buckets :: "(rate_key, rate_bucket) gomap"

definition DiscordRateLimiterCapacity :: nat where
  "DiscordRateLimiterCapacity = 4096"

definition NewDiscordRateLimiter :: rate_limiter where
  "NewDiscordRateLimiter = \<lparr>rl_cancelled = False, rl_closed = False, rl_global = 0, rl_buckets = []\<rparr>"

definition discordRateLimitEndpointKey :: "string \<Rightarrow> string \<Rightarrow> string \<Rightarrow> rate_key option" where
  "discordRateLimitEndpointKey method route major =
     (if method = '''' \<or> route = '''' then None else Some \<lparr>rk_method = method, rk_route = route, rk_major = major\<rparr>)"

definition stoppedLocked :: "rate_limiter \<Rightarrow> bool" where
  "stoppedLocked l \<longleftrightarrow> rl_cancelled l \<or> rl_closed l"

definition put_bucket :: "rate_key \<Rightarrow> rate_bucket \<Rightarrow> rate_limiter \<Rightarrow> rate_limiter" where
  "put_bucket key b l = l\<lparr>rl_buckets := AList.update key b (rl_buckets l)\<rparr>"

section \<open>Waiting\<close>

text \<open>Buckets that nobody uses and whose limit has run out are forgotten when the table is full.\<close>

definition idle_bucket :: "gotime \<Rightarrow> rate_bucket \<Rightarrow> bool" where
  "idle_bucket now b \<longleftrightarrow> rb_references b = 0 \<and> \<not> rb_busy b \<and> rb_reset b \<le> now"

definition reclaim_buckets :: "gotime \<Rightarrow> rate_limiter \<Rightarrow> rate_limiter" where
  "reclaim_buckets now l =
     (if DiscordRateLimiterCapacity \<le> length (rl_buckets l)
      then l\<lparr>rl_buckets := filter (\<lambda>(k, b). \<not> idle_bucket now b) (rl_buckets l)\<rparr> else l)"

definition fresh_bucket :: rate_bucket where
  "fresh_bucket = \<lparr>rb_busy = False, rb_references = 0, rb_remaining = 1, rb_reset = 0\<rparr>"

datatype wait_error = WaitStopped | WaitCapacity

text \<open>The part of \<open>Wait\<close> before the loop: the reference to the bucket, made where there is none.\<close>

definition wait_enter :: "bool \<Rightarrow> gotime \<Rightarrow> rate_key \<Rightarrow> rate_limiter \<Rightarrow> rate_limiter \<times> wait_error option" where
  "wait_enter dead now key l =
     (if stoppedLocked l \<or> dead then (l, Some WaitStopped)
      else case map_of (rl_buckets l) key of
        Some b \<Rightarrow> (put_bucket key (b\<lparr>rb_references := rb_references b + 1\<rparr>) l, None)
      | None \<Rightarrow>
          let l = reclaim_buckets now l in
          if DiscordRateLimiterCapacity \<le> length (rl_buckets l) then (l, Some WaitCapacity)
          else (put_bucket key (fresh_bucket\<lparr>rb_references := 1\<rparr>) l, None))"

text \<open>
  One turn of the loop: give up, take the bucket when it is free, and pass when its deadline and
  the global one are over. The bucket is read through the map: an entry with a reference is never
  taken out of it, so the pointer the code keeps is the entry.
\<close>

datatype wait_turn_result = TurnStopped | TurnPassed | TurnWaits bool

definition wait_until :: "rate_limiter \<Rightarrow> rate_bucket \<Rightarrow> gotime" where
  "wait_until l b = (if rb_remaining b = 0 \<and> rl_global l < rb_reset b then rb_reset b else rl_global l)"

definition wait_turn :: "bool \<Rightarrow> gotime \<Rightarrow> rate_key \<Rightarrow> bool \<Rightarrow> rate_limiter \<Rightarrow> (rate_limiter \<times> wait_turn_result) option" where
  "wait_turn dead now key held l = (case map_of (rl_buckets l) key of None \<Rightarrow> None | Some b \<Rightarrow>
     if stoppedLocked l \<or> dead then
       Some (put_bucket key (b\<lparr>rb_references := rb_references b - 1, rb_busy := (rb_busy b \<and> \<not> held)\<rparr>) l, TurnStopped)
     else let takes = \<not> held \<and> \<not> rb_busy b;
              l = (if takes then put_bucket key (b\<lparr>rb_busy := True\<rparr>) l else l) in
       if (held \<or> takes) \<and> wait_until l b \<le> now then Some (l, TurnPassed)
       else Some (l, TurnWaits (held \<or> takes)))"

section \<open>Answers\<close>

text \<open>
  What \<open>Unlock\<close> reads of an answer: whether it is the refusal 429, and the headers that are there.
  The floating-point reading of seconds is a parameter: \<open>RateLimitSeconds\<close> gives a duration,
  \<open>unix\<close> the instant of \<open>X-RateLimit-Reset\<close>, and each \<open>None\<close> where the text is refused.
\<close>

record rate_response =
  rs_TooMany :: bool
  rs_Header :: "(string, string) gomap"

record rate_floats =
  rf_seconds :: "string \<Rightarrow> duration option"
  rf_unix :: "string \<Rightarrow> gotime option"

definition header_get :: "rate_response \<Rightarrow> string \<Rightarrow> string" where
  "header_get r name = get_or '''' (rs_Header r) name"

text \<open>The greatest of the delays named, \<open>None\<close> when one cannot be read.\<close>

fun refused_delay :: "rate_floats \<Rightarrow> rate_response \<Rightarrow> string list \<Rightarrow> duration \<Rightarrow> duration option" where
  "refused_delay e r [] delay = Some delay"
| "refused_delay e r (name # names) delay =
     (if header_get r name = '''' then refused_delay e r names delay
      else case rf_seconds e (header_get r name) of
        None \<Rightarrow> None
      | Some candidate \<Rightarrow> refused_delay e r names (if delay < candidate then candidate else delay))"

definition global_scope :: "rate_response \<Rightarrow> bool" where
  "global_scope r \<longleftrightarrow> equal_fold (header_get r ''X-RateLimit-Global'') ''true'' \<or> equal_fold (header_get r ''X-RateLimit-Scope'') ''global''"

text \<open>The change of limits by an answer; the flag says whether its headers could be read.\<close>

definition note_refusal :: "rate_floats \<Rightarrow> gotime \<Rightarrow> rate_response \<Rightarrow> rate_key \<Rightarrow> rate_bucket \<Rightarrow> rate_limiter \<Rightarrow> rate_limiter \<times> bool" where
  "note_refusal e now r key b l = (case refused_delay e r [''Retry-After'', ''X-RateLimit-Reset-After''] 0 of
     None \<Rightarrow> (l, False)
   | Some delay \<Rightarrow>
       if delay \<le> 0 then (l, False)
       else let reset = now + delay in
         if global_scope r then (if rl_global l < reset then l\<lparr>rl_global := reset\<rparr> else l, True)
         else (put_bucket key (b\<lparr>rb_remaining := 0, rb_reset := (if rb_reset b < reset then reset else rb_reset b)\<rparr>) l, True))"

definition answer_remaining :: "rate_response \<Rightarrow> rate_bucket \<Rightarrow> int option" where
  "answer_remaining r b = (let v = header_get r ''X-RateLimit-Remaining'' in
     if v = '''' then Some (rb_remaining b)
     else case Atoi v of None \<Rightarrow> None | Some n \<Rightarrow> if n < 0 then None else Some n)"

definition answer_reset :: "rate_floats \<Rightarrow> gotime \<Rightarrow> rate_response \<Rightarrow> rate_bucket \<Rightarrow> gotime option" where
  "answer_reset e now r b =
     (let after = header_get r ''X-RateLimit-Reset-After''; at = header_get r ''X-RateLimit-Reset'' in
      if after \<noteq> '''' then (case rf_seconds e after of None \<Rightarrow> None | Some delay \<Rightarrow> Some (now + delay))
      else if at \<noteq> '''' then rf_unix e at
      else Some (rb_reset b))"

definition note_answer :: "rate_floats \<Rightarrow> gotime \<Rightarrow> rate_response \<Rightarrow> rate_key \<Rightarrow> rate_bucket \<Rightarrow> rate_limiter \<Rightarrow> rate_limiter \<times> bool" where
  "note_answer e now r key b l = (case answer_remaining r b of
     None \<Rightarrow> (l, False)
   | Some remaining \<Rightarrow> (case answer_reset e now r b of
         None \<Rightarrow> (l, False)
       | Some reset \<Rightarrow> (put_bucket key (b\<lparr>rb_remaining := remaining, rb_reset := reset\<rparr>) l, True)))"

text \<open>The deferred release, whatever the answer was.\<close>

definition release_bucket :: "rate_key \<Rightarrow> rate_limiter \<Rightarrow> rate_limiter" where
  "release_bucket key l = (case map_of (rl_buckets l) key of None \<Rightarrow> l | Some b \<Rightarrow>
     put_bucket key (b\<lparr>rb_busy := False, rb_references := rb_references b - 1\<rparr>) l)"

definition Unlock :: "rate_floats \<Rightarrow> gotime \<Rightarrow> rate_response option \<Rightarrow> rate_key \<Rightarrow> rate_limiter \<Rightarrow> rate_limiter \<times> bool" where
  "Unlock e now response key l = (case map_of (rl_buckets l) key of None \<Rightarrow> (l, True) | Some b \<Rightarrow>
     if \<not> rb_busy b then (l, True)
     else let (l1, ok) = (case response of None \<Rightarrow> (l, True) | Some r \<Rightarrow>
            if rs_TooMany r then note_refusal e now r key b l else note_answer e now r key b l) in
       (release_bucket key l1, ok))"

definition limiter_Close :: "rate_limiter \<Rightarrow> rate_limiter" where
  "limiter_Close l = l\<lparr>rl_closed := True, rl_cancelled := True\<rparr>"

definition limiter_Reset :: "rate_limiter \<Rightarrow> rate_limiter" where
  "limiter_Reset l =
     (if rl_closed l then l
      else l\<lparr>rl_global := 0, rl_buckets := map (\<lambda>(k, b). (k, b\<lparr>rb_remaining := 1, rb_reset := 0\<rparr>))
        (filter (\<lambda>(k, b). \<not> (rb_references b = 0 \<and> \<not> rb_busy b)) (rl_buckets l))\<rparr>)"

section \<open>The system\<close>

datatype rate_call = Waits rate_key bool | Sends rate_key

record rate_system =
  sy_limiter :: rate_limiter
  sy_calls :: "(nat, rate_call) gomap"

datatype rate_event =
    RateEnter nat bool gotime rate_key
  | RateTurn nat bool gotime
  | RateUnlock nat gotime "rate_response option"
  | RateReset
  | RateClose
  | RateCancel

fun call_key :: "rate_call \<Rightarrow> rate_key" where
  "call_key (Waits k held) = k"
| "call_key (Sends k) = k"

fun call_holds :: "rate_call \<Rightarrow> bool" where
  "call_holds (Waits k held) = held"
| "call_holds (Sends k) = True"

text \<open>A turn of call \<open>c\<close>; the key is given out when its request passes.\<close>

definition rate_turn :: "nat \<Rightarrow> bool \<Rightarrow> gotime \<Rightarrow> rate_key \<Rightarrow> bool \<Rightarrow> rate_system \<Rightarrow> (rate_system \<times> rate_key option) option" where
  "rate_turn c dead now key held y = (case wait_turn dead now key held (sy_limiter y) of
     None \<Rightarrow> None
   | Some (l, TurnStopped) \<Rightarrow> Some (y\<lparr>sy_limiter := l, sy_calls := AList.delete c (sy_calls y)\<rparr>, None)
   | Some (l, TurnPassed) \<Rightarrow> Some (y\<lparr>sy_limiter := l, sy_calls := AList.update c (Sends key) (sy_calls y)\<rparr>, Some key)
   | Some (l, TurnWaits h) \<Rightarrow> Some (y\<lparr>sy_limiter := l, sy_calls := AList.update c (Waits key h) (sy_calls y)\<rparr>, None))"

fun rate_step :: "rate_floats \<Rightarrow> rate_event \<Rightarrow> rate_system \<Rightarrow> (rate_system \<times> rate_key option) option" where
  "rate_step e (RateEnter c dead now key) y =
     (if map_of (sy_calls y) c \<noteq> None then Some (y, None)
      else case wait_enter dead now key (sy_limiter y) of
        (l, Some err) \<Rightarrow> Some (y\<lparr>sy_limiter := l\<rparr>, None)
      | (l, None) \<Rightarrow> rate_turn c dead now key False (y\<lparr>sy_limiter := l, sy_calls := AList.update c (Waits key False) (sy_calls y)\<rparr>))"
| "rate_step e (RateTurn c dead now) y = (case map_of (sy_calls y) c of
     Some (Waits key held) \<Rightarrow> rate_turn c dead now key held y
   | _ \<Rightarrow> Some (y, None))"
| "rate_step e (RateUnlock c now response) y = (case map_of (sy_calls y) c of
     Some (Sends key) \<Rightarrow> Some (y\<lparr>sy_limiter := fst (Unlock e now response key (sy_limiter y)),
       sy_calls := AList.delete c (sy_calls y)\<rparr>, None)
   | _ \<Rightarrow> Some (y, None))"
| "rate_step e RateReset y = Some (y\<lparr>sy_limiter := limiter_Reset (sy_limiter y)\<rparr>, None)"
| "rate_step e RateClose y = Some (y\<lparr>sy_limiter := limiter_Close (sy_limiter y)\<rparr>, None)"
| "rate_step e RateCancel y = Some (y\<lparr>sy_limiter := (sy_limiter y)\<lparr>rl_cancelled := True\<rparr>\<rparr>, None)"

fun rate_run :: "rate_floats \<Rightarrow> rate_event list \<Rightarrow> rate_system \<Rightarrow> rate_system option" where
  "rate_run e [] y = Some y"
| "rate_run e (v # vs) y = (case rate_step e v y of None \<Rightarrow> None | Some (y1, passed) \<Rightarrow> rate_run e vs y1)"

definition rate_start :: rate_system where
  "rate_start = \<lparr>sy_limiter = NewDiscordRateLimiter, sy_calls = []\<rparr>"

section \<open>References and exclusion\<close>

definition users :: "rate_key \<Rightarrow> (nat, rate_call) gomap \<Rightarrow> int" where
  "users k m = gsum (\<lambda>v. if call_key v = k then 1 else 0) m"

definition holders :: "rate_key \<Rightarrow> (nat, rate_call) gomap \<Rightarrow> int" where
  "holders k m = gsum (\<lambda>v. if call_key v = k \<and> call_holds v then 1 else 0) m"

definition bucket_fits :: "rate_bucket option \<Rightarrow> int \<Rightarrow> int \<Rightarrow> bool" where
  "bucket_fits b u h = (case b of None \<Rightarrow> u = 0 \<and> h = 0
     | Some b \<Rightarrow> rb_references b = u \<and> h = (if rb_busy b then 1 else 0))"

definition table_ok :: "rate_system \<Rightarrow> bool" where
  "table_ok y \<longleftrightarrow> wf_map (sy_calls y) \<and> wf_map (rl_buckets (sy_limiter y))
     \<and> length (rl_buckets (sy_limiter y)) \<le> DiscordRateLimiterCapacity"

definition system_ok :: "rate_system \<Rightarrow> bool" where
  "system_ok y \<longleftrightarrow> table_ok y
     \<and> (\<forall>k. bucket_fits (map_of (rl_buckets (sy_limiter y)) k) (users k (sy_calls y)) (holders k (sy_calls y)))"

lemma counts_update:
  "users k (AList.update c v m) = users k m - (case map_of m c of None \<Rightarrow> 0 | Some w \<Rightarrow> if call_key w = k then 1 else 0)
     + (if call_key v = k then 1 else 0)"
  "holders k (AList.update c v m) = holders k m - (case map_of m c of None \<Rightarrow> 0 | Some w \<Rightarrow> if call_key w = k \<and> call_holds w then 1 else 0)
     + (if call_key v = k \<and> call_holds v then 1 else 0)"
  unfolding users_def holders_def gsum_update by (simp_all split: option.split)

lemma counts_delete:
  assumes "wf_map m"
  shows "users k (AList.delete c m) = users k m - (case map_of m c of None \<Rightarrow> 0 | Some w \<Rightarrow> if call_key w = k then 1 else 0)"
    and "holders k (AList.delete c m) = holders k m - (case map_of m c of None \<Rightarrow> 0 | Some w \<Rightarrow> if call_key w = k \<and> call_holds w then 1 else 0)"
  unfolding users_def holders_def gsum_delete [OF assms] by (simp_all split: option.split)

lemma users_call:
  assumes "wf_map m" and "map_of m c = Some v" and "call_key v = k"
  shows "0 < users k m" and "call_holds v \<Longrightarrow> 0 < holders k m"
proof -
  have "0 \<le> users k (AList.delete c m)" "0 \<le> holders k (AList.delete c m)"
    unfolding users_def holders_def by (simp_all add: gsum_nonneg)
  then show "0 < users k m" "call_holds v \<Longrightarrow> 0 < holders k m"
    using counts_delete [OF assms(1), of k c] assms(2,3) by simp_all
qed

lemma start_ok: "system_ok rate_start"
  by (simp add: system_ok_def table_ok_def rate_start_def NewDiscordRateLimiter_def bucket_fits_def users_def holders_def
      DiscordRateLimiterCapacity_def)

lemma put_bucket_simps [simp]:
  "rl_buckets (put_bucket key b l) = AList.update key b (rl_buckets l)"
  "rl_global (put_bucket key b l) = rl_global l" "rl_closed (put_bucket key b l) = rl_closed l"
  "rl_cancelled (put_bucket key b l) = rl_cancelled l" "stoppedLocked (put_bucket key b l) = stoppedLocked l"
  by (simp_all add: put_bucket_def stoppedLocked_def)

text \<open>A step that changes one bucket and one call of its key.\<close>

lemma system_ok_change:
  assumes ok: "system_ok y" and calls: "wf_map calls"
    and buckets: "\<forall>k. k \<noteq> key \<longrightarrow> map_of (rl_buckets l) k = map_of (rl_buckets (sy_limiter y)) k"
    and size: "wf_map (rl_buckets l)" "length (rl_buckets l) \<le> DiscordRateLimiterCapacity"
    and other: "\<forall>k. k \<noteq> key \<longrightarrow> users k calls = users k (sy_calls y) \<and> holders k calls = holders k (sy_calls y)"
    and new: "bucket_fits (map_of (rl_buckets l) key) (users key calls) (holders key calls)"
  shows "system_ok (y\<lparr>sy_limiter := l, sy_calls := calls\<rparr>)"
  unfolding system_ok_def table_ok_def
proof (simp add: calls size, rule allI)
  fix k
  show "bucket_fits (map_of (rl_buckets l) k) (users k calls) (holders k calls)"
    using new buckets other ok by (cases "k = key") (auto simp: system_ok_def)
qed

lemma system_ok_limiter:
  assumes ok: "system_ok y" and size: "wf_map (rl_buckets l)" "length (rl_buckets l) \<le> DiscordRateLimiterCapacity"
    and fits: "\<And>k u h. bucket_fits (map_of (rl_buckets (sy_limiter y)) k) u h \<Longrightarrow> bucket_fits (map_of (rl_buckets l) k) u h"
  shows "system_ok (y\<lparr>sy_limiter := l\<rparr>)"
  using ok size fits by (simp add: system_ok_def table_ok_def)

text \<open>Forgetting what nobody uses.\<close>

lemma map_of_filter_Some:
  assumes "wf_map m"
  shows "map_of (filter (\<lambda>(k, b). P b) m) k = (case map_of m k of None \<Rightarrow> None | Some b \<Rightarrow> if P b then Some b else None)"
  using map_of_filter_pairs [OF assms, of "\<lambda>k b. P b" k] by (simp split: option.splits)

lemma reclaim_fits:
  assumes "wf_map (rl_buckets l)" and "bucket_fits (map_of (rl_buckets l) k) u h"
  shows "bucket_fits (map_of (rl_buckets (reclaim_buckets now l)) k) u h"
  using assms(2)
  by (auto simp: reclaim_buckets_def map_of_filter_Some [OF assms(1)] bucket_fits_def idle_bucket_def split: option.splits)

lemma reclaim_size:
  "wf_map (rl_buckets l) \<Longrightarrow> wf_map (rl_buckets (reclaim_buckets now l))"
  "length (rl_buckets (reclaim_buckets now l)) \<le> length (rl_buckets l)"
  by (simp_all add: reclaim_buckets_def wf_map_filter)

lemma enter_ok:
  assumes ok: "system_ok y" and new: "map_of (sy_calls y) c = None" and r: "wait_enter dead now key (sy_limiter y) = (l, err)"
  shows "err \<noteq> None \<Longrightarrow> system_ok (y\<lparr>sy_limiter := l\<rparr>)"
    and "err = None \<Longrightarrow> system_ok (y\<lparr>sy_limiter := l, sy_calls := AList.update c (Waits key False) (sy_calls y)\<rparr>)"
proof -
  have t: "wf_map (sy_calls y)" "wf_map (rl_buckets (sy_limiter y))" "length (rl_buckets (sy_limiter y)) \<le> DiscordRateLimiterCapacity"
    using ok by (simp_all add: system_ok_def table_ok_def)
  have fit: "bucket_fits (map_of (rl_buckets (sy_limiter y)) k) (users k (sy_calls y)) (holders k (sy_calls y))" for k
    using ok by (simp add: system_ok_def)
  let ?l = "reclaim_buckets now (sy_limiter y)"
  have rec: "system_ok (y\<lparr>sy_limiter := ?l\<rparr>)"
    using system_ok_limiter [OF ok reclaim_size(1) [OF t(2)]] reclaim_size(2) [of now "sy_limiter y"] t(3) reclaim_fits [OF t(2)] by simp
  show "system_ok (y\<lparr>sy_limiter := l\<rparr>)" if "err \<noteq> None"
    using r that ok rec by (auto simp: wait_enter_def Let_def split: if_splits option.splits)
  show "system_ok (y\<lparr>sy_limiter := l, sy_calls := AList.update c (Waits key False) (sy_calls y)\<rparr>)" if "err = None"
  proof (cases "map_of (rl_buckets (sy_limiter y)) key")
    case (Some b)
    with r that have l: "l = put_bucket key (b\<lparr>rb_references := rb_references b + 1\<rparr>) (sy_limiter y)"
      by (auto simp: wait_enter_def split: if_splits)
    show ?thesis
      by (rule system_ok_change [OF ok, where key = key])
        (use t Some fit [of key] new in \<open>auto simp: l counts_update bucket_fits_def length_update\<close>)
  next
    case None
    with r that have l: "l = put_bucket key (fresh_bucket\<lparr>rb_references := 1\<rparr>) ?l" and c: "length (rl_buckets ?l) < DiscordRateLimiterCapacity"
      by (auto simp: wait_enter_def Let_def split: if_splits)
    have gone: "map_of (rl_buckets ?l) key = None"
      using None by (simp add: reclaim_buckets_def map_of_filter_Some [OF t(2)])
    have "system_ok ((y\<lparr>sy_limiter := ?l\<rparr>)\<lparr>sy_limiter := l, sy_calls := AList.update c (Waits key False) (sy_calls y)\<rparr>)"
      by (rule system_ok_change [OF rec, where key = key])
        (use t None fit [of key] new c gone reclaim_size in \<open>auto simp: l counts_update bucket_fits_def length_update fresh_bucket_def\<close>)
    then show ?thesis by simp
  qed
qed

lemma turn_ok:
  assumes ok: "system_ok y" and c: "map_of (sy_calls y) c = Some (Waits key held)"
  shows "\<exists>y1 passed. rate_turn c dead now key held y = Some (y1, passed) \<and> system_ok y1"
proof -
  have t: "wf_map (sy_calls y)" "wf_map (rl_buckets (sy_limiter y))" "length (rl_buckets (sy_limiter y)) \<le> DiscordRateLimiterCapacity"
    using ok by (simp_all add: system_ok_def table_ok_def)
  have fit: "bucket_fits (map_of (rl_buckets (sy_limiter y)) key) (users key (sy_calls y)) (holders key (sy_calls y))"
    using ok by (simp add: system_ok_def)
  have use: "0 < users key (sy_calls y)" "held \<Longrightarrow> 0 < holders key (sy_calls y)" using users_call [OF t(1) c] by simp_all
  with fit obtain b where b: "map_of (rl_buckets (sy_limiter y)) key = Some b" by (auto simp: bucket_fits_def split: option.splits)
  with use fit have held: "held \<Longrightarrow> rb_busy b" by (auto simp: bucket_fits_def split: if_splits)
  show ?thesis
  proof (cases "stoppedLocked (sy_limiter y) \<or> dead")
    case True
    have "system_ok (y\<lparr>sy_limiter := put_bucket key (b\<lparr>rb_references := rb_references b - 1, rb_busy := (rb_busy b \<and> \<not> held)\<rparr>) (sy_limiter y),
        sy_calls := AList.delete c (sy_calls y)\<rparr>)"
      by (rule system_ok_change [OF ok, where key = key])
        (use t c b fit held in \<open>auto simp: counts_delete [OF t(1)] bucket_fits_def length_update split: if_splits\<close>)
    with True b show ?thesis by (simp add: rate_turn_def wait_turn_def)
  next
    case False
    let ?takes = "\<not> held \<and> \<not> rb_busy b"
    let ?l = "if ?takes then put_bucket key (b\<lparr>rb_busy := True\<rparr>) (sy_limiter y) else sy_limiter y"
    have new: "system_ok (y\<lparr>sy_limiter := ?l, sy_calls := AList.update c v (sy_calls y)\<rparr>)"
      if "call_key v = key" "call_holds v = (held \<or> ?takes)" for v
      by (rule system_ok_change [OF ok, where key = key])
        (use t c b fit held that in \<open>auto simp: counts_update bucket_fits_def length_update split: if_splits\<close>)
    show ?thesis
      using b False new [of "Sends key"] new [of "Waits key (held \<or> ?takes)"]
      by (auto simp: rate_turn_def wait_turn_def Let_def)
  qed
qed

text \<open>An answer changes the limits of its own bucket, or the global one.\<close>

definition limits_only :: "rate_key \<Rightarrow> rate_bucket \<Rightarrow> rate_limiter \<Rightarrow> rate_limiter \<Rightarrow> bool" where
  "limits_only key b l l1 \<longleftrightarrow> (\<exists>r t g. rl_buckets l1 = AList.update key (b\<lparr>rb_remaining := r, rb_reset := t\<rparr>) (rl_buckets l) \<and> rl_global l1 = g)
     \<or> rl_buckets l1 = rl_buckets l"

lemma answer_limits: "limits_only key b l (fst (note_answer e now r key b l))"
  unfolding note_answer_def limits_only_def by (cases "answer_remaining r b"; cases "answer_reset e now r b") auto

lemma refusal_limits: "limits_only key b l (fst (note_refusal e now r key b l))"
proof -
  have "limits_only key b l (put_bucket key (b\<lparr>rb_remaining := 0, rb_reset := t\<rparr>) l)" "limits_only key b l (l\<lparr>rl_global := t\<rparr>)"
    "limits_only key b l l" for t by (auto simp: limits_only_def)
  then show ?thesis by (simp add: note_refusal_def Let_def split: option.split)
qed

definition answered_limiter :: "rate_floats \<Rightarrow> gotime \<Rightarrow> rate_response option \<Rightarrow> rate_key \<Rightarrow> rate_bucket \<Rightarrow> rate_limiter \<Rightarrow> rate_limiter" where
  "answered_limiter e now response key b l = (case response of None \<Rightarrow> l | Some r \<Rightarrow>
     fst (if rs_TooMany r then note_refusal e now r key b l else note_answer e now r key b l))"

lemma Unlock_busy:
  assumes "map_of (rl_buckets l) key = Some b" and "rb_busy b"
  shows "fst (Unlock e now response key l) = release_bucket key (answered_limiter e now response key b l)"
  using assms unfolding Unlock_def answered_limiter_def by (simp add: split_beta split: option.split)

lemma answered_bucket:
  assumes "map_of (rl_buckets l) key = Some b"
  shows "\<exists>r t. map_of (rl_buckets (answered_limiter e now response key b l)) = (map_of (rl_buckets l))(key \<mapsto> b\<lparr>rb_remaining := r, rb_reset := t\<rparr>)"
    and "wf_map (rl_buckets l) \<Longrightarrow> wf_map (rl_buckets (answered_limiter e now response key b l))"
    and "length (rl_buckets (answered_limiter e now response key b l)) = length (rl_buckets l)"
proof -
  have lim: "limits_only key b l (answered_limiter e now response key b l)"
    unfolding answered_limiter_def using answer_limits refusal_limits by (auto simp: limits_only_def split: option.split)
  have same: "map_of (rl_buckets l) = (map_of (rl_buckets l))(key \<mapsto> b\<lparr>rb_remaining := rb_remaining b, rb_reset := rb_reset b\<rparr>)"
    using assms by (simp add: map_upd_triv)
  show "\<exists>r t. map_of (rl_buckets (answered_limiter e now response key b l)) = (map_of (rl_buckets l))(key \<mapsto> b\<lparr>rb_remaining := r, rb_reset := t\<rparr>)"
    using lim unfolding limits_only_def
  proof (elim disjE exE conjE)
    fix r t g
    assume "rl_buckets (answered_limiter e now response key b l) = AList.update key (b\<lparr>rb_remaining := r, rb_reset := t\<rparr>) (rl_buckets l)"
    then have "map_of (rl_buckets (answered_limiter e now response key b l)) = (map_of (rl_buckets l))(key \<mapsto> b\<lparr>rb_remaining := r, rb_reset := t\<rparr>)"
      by (simp only: update_conv')
    then show ?thesis by blast
  next
    assume "rl_buckets (answered_limiter e now response key b l) = rl_buckets l"
    with same show ?thesis by metis
  qed
  show "wf_map (rl_buckets l) \<Longrightarrow> wf_map (rl_buckets (answered_limiter e now response key b l))"
    using lim by (auto simp: limits_only_def)
  show "length (rl_buckets (answered_limiter e now response key b l)) = length (rl_buckets l)"
    using lim assms by (auto simp: limits_only_def length_update)
qed

lemma unlock_ok:
  assumes ok: "system_ok y" and c: "map_of (sy_calls y) c = Some (Sends key)"
  shows "system_ok (y\<lparr>sy_limiter := fst (Unlock e now response key (sy_limiter y)), sy_calls := AList.delete c (sy_calls y)\<rparr>)"
proof -
  have t: "wf_map (sy_calls y)" "wf_map (rl_buckets (sy_limiter y))" "length (rl_buckets (sy_limiter y)) \<le> DiscordRateLimiterCapacity"
    using ok by (simp_all add: system_ok_def table_ok_def)
  have fit: "bucket_fits (map_of (rl_buckets (sy_limiter y)) key) (users key (sy_calls y)) (holders key (sy_calls y))"
    using ok by (simp add: system_ok_def)
  have use: "0 < users key (sy_calls y)" "0 < holders key (sy_calls y)" using users_call [OF t(1) c] by simp_all
  with fit obtain b where b: "map_of (rl_buckets (sy_limiter y)) key = Some b" "rb_busy b"
    by (auto simp: bucket_fits_def split: option.splits if_splits)
  let ?a = "answered_limiter e now response key b (sy_limiter y)"
  obtain r s where a: "map_of (rl_buckets ?a) = (map_of (rl_buckets (sy_limiter y)))(key \<mapsto> b\<lparr>rb_remaining := r, rb_reset := s\<rparr>)"
    using answered_bucket(1) [OF b(1)] by blast
  have l: "fst (Unlock e now response key (sy_limiter y)) =
      put_bucket key (b\<lparr>rb_remaining := r, rb_reset := s, rb_busy := False, rb_references := rb_references b - 1\<rparr>) ?a"
    unfolding Unlock_busy [OF b] release_bucket_def a by simp
  show ?thesis
    by (rule system_ok_change [OF ok, where key = key])
      (use t c b fit a answered_bucket(2,3) [OF b(1), of e now response] in
        \<open>auto simp: l counts_delete [OF t(1)] bucket_fits_def length_update split: if_splits\<close>)
qed

lemma reset_ok:
  assumes ok: "system_ok y"
  shows "system_ok (y\<lparr>sy_limiter := limiter_Reset (sy_limiter y)\<rparr>)"
proof (rule system_ok_limiter [OF ok])
  let ?m = "rl_buckets (sy_limiter y)" and ?P = "\<lambda>b. \<not> (rb_references b = 0 \<and> \<not> rb_busy b)"
  have t: "wf_map ?m" "length ?m \<le> DiscordRateLimiterCapacity" using ok by (simp_all add: system_ok_def table_ok_def)
  have keys: "fst \<circ> (\<lambda>(k, b). (k, f b)) = fst" for f :: "rate_bucket \<Rightarrow> rate_bucket" by auto
  show "wf_map (rl_buckets (limiter_Reset (sy_limiter y)))"
    using t(1) wf_map_filter [OF t(1)] by (auto simp: limiter_Reset_def wf_map_def keys)
  show "length (rl_buckets (limiter_Reset (sy_limiter y))) \<le> DiscordRateLimiterCapacity"
    using t(2) by (simp add: limiter_Reset_def order_trans [OF length_filter_le])
  fix k u h
  assume fits: "bucket_fits (map_of ?m k) u h"
  have "map_of (map (\<lambda>(k, b). (k, f b)) xs) k = map_option f (map_of xs k)"
    for f :: "rate_bucket \<Rightarrow> rate_bucket" and xs :: "(rate_key \<times> rate_bucket) list"
    by (induction xs) auto
  with fits show "bucket_fits (map_of (rl_buckets (limiter_Reset (sy_limiter y))) k) u h"
    by (auto simp: limiter_Reset_def map_of_filter_Some [OF t(1)] bucket_fits_def split: option.splits)
qed

lemma step_ok:
  assumes ok: "system_ok y"
  shows "\<exists>y1 passed. rate_step e v y = Some (y1, passed) \<and> system_ok y1"
proof (cases v)
  case (RateEnter c dead now key)
  show ?thesis
  proof (cases "map_of (sy_calls y) c")
    case None
    obtain l err where r: "wait_enter dead now key (sy_limiter y) = (l, err)" by fastforce
    show ?thesis
    proof (cases err)
      case (Some x)
      with r enter_ok(1) [OF ok None r] None RateEnter show ?thesis by simp
    next
      case None': None
      from enter_ok(2) [OF ok None r None'] have
        "\<exists>y1 passed. rate_turn c dead now key False (y\<lparr>sy_limiter := l, sy_calls := AList.update c (Waits key False) (sy_calls y)\<rparr>) = Some (y1, passed)
          \<and> system_ok y1" by (rule turn_ok) simp
      with r None' None RateEnter show ?thesis by simp
    qed
  qed (use ok RateEnter in simp)
next
  case (RateTurn c dead now)
  show ?thesis
  proof (cases "\<exists>key held. map_of (sy_calls y) c = Some (Waits key held)")
    case True
    then obtain key held where "map_of (sy_calls y) c = Some (Waits key held)" by blast
    with turn_ok [OF ok this] RateTurn show ?thesis by simp
  next
    case False
    then have "rate_step e v y = Some (y, None)" using RateTurn by (simp split: option.split rate_call.split)
    with ok show ?thesis by blast
  qed
next
  case (RateUnlock c now response)
  show ?thesis
  proof (cases "\<exists>key. map_of (sy_calls y) c = Some (Sends key)")
    case True
    then obtain key where "map_of (sy_calls y) c = Some (Sends key)" by blast
    with unlock_ok [OF ok this] RateUnlock show ?thesis by simp
  next
    case False
    then have "rate_step e v y = Some (y, None)" using RateUnlock by (simp split: option.split rate_call.split)
    with ok show ?thesis by blast
  qed
qed (use ok reset_ok [OF ok] in \<open>auto simp: system_ok_def table_ok_def limiter_Close_def\<close>)

lemma run_ok:
  assumes "system_ok y"
  shows "\<exists>y1. rate_run e vs y = Some y1 \<and> system_ok y1"
  using assms
proof (induction vs arbitrary: y)
  case (Cons v vs)
  from step_ok [OF Cons.prems, of e v] obtain y1 passed where "rate_step e v y = Some (y1, passed)" "system_ok y1" by blast
  with Cons.IH [of y1] show ?case by simp
qed simp

text \<open>
  However the calls, the answers and the closing interleave, a bucket that is waited for is in
  the table, its references are the calls that use it, at most one of them has it to itself, so at
  most one request of a route is under way, and the table never has more than 4096 routes.
\<close>

theorem rate_buckets_exclusive:
  "\<exists>y. rate_run e vs rate_start = Some y \<and> length (rl_buckets (sy_limiter y)) \<le> 4096
     \<and> holders k (sy_calls y) \<le> 1
     \<and> users k (sy_calls y) = (case map_of (rl_buckets (sy_limiter y)) k of None \<Rightarrow> 0 | Some b \<Rightarrow> rb_references b)"
proof -
  from run_ok [OF start_ok] obtain y where y: "rate_run e vs rate_start = Some y" "system_ok y" by blast
  then have "bucket_fits (map_of (rl_buckets (sy_limiter y)) k) (users k (sy_calls y)) (holders k (sy_calls y))"
    by (simp add: system_ok_def)
  then have "holders k (sy_calls y) \<le> 1"
    "users k (sy_calls y) = (case map_of (rl_buckets (sy_limiter y)) k of None \<Rightarrow> 0 | Some b \<Rightarrow> rb_references b)"
    by (auto simp: bucket_fits_def split: option.splits if_splits)
  with y show ?thesis by (auto simp: system_ok_def table_ok_def DiscordRateLimiterCapacity_def)
qed

definition sample_key :: rate_key where
  "sample_key = \<lparr>rk_method = ''POST'', rk_route = ''/channels/{channel.id}/messages'', rk_major = ''1''\<rparr>"

section \<open>No request before its time\<close>

text \<open>
  What a refusal leaves: a bucket that is not open before \<open>until\<close>. It stays closed whatever
  happens except a reset, an answer to a request of the route or its removal once the instant is past.
\<close>

definition shut_until :: "gotime \<Rightarrow> rate_key \<Rightarrow> rate_system \<Rightarrow> bool" where
  "shut_until until key y \<longleftrightarrow> (\<forall>c. map_of (sy_calls y) c \<noteq> Some (Sends key))
     \<and> (\<exists>b. map_of (rl_buckets (sy_limiter y)) key = Some b \<and> rb_remaining b = 0 \<and> until \<le> rb_reset b)"

definition event_time :: "rate_event \<Rightarrow> gotime option" where
  "event_time v = (case v of RateEnter c dead now key \<Rightarrow> Some now | RateTurn c dead now \<Rightarrow> Some now | _ \<Rightarrow> None)"

text \<open>A step at which the clock reads less than \<open>until\<close>, other than the reset of the client library.\<close>

definition early :: "gotime \<Rightarrow> rate_event \<Rightarrow> bool" where
  "early until v \<longleftrightarrow> v \<noteq> RateReset \<and> (case event_time v of None \<Rightarrow> True | Some now \<Rightarrow> now < until)"

lemma turn_shut:
  assumes "shut_until until key y" and "now < until" and "system_ok y" and c: "map_of (sy_calls y) c = Some (Waits k held)"
    and r: "rate_turn c dead now k held y = Some (y1, passed)"
  shows "shut_until until key y1 \<and> passed \<noteq> Some key"
proof -
  obtain b where b: "map_of (rl_buckets (sy_limiter y)) key = Some b" "rb_remaining b = 0" "until \<le> rb_reset b"
    using assms(1) by (auto simp: shut_until_def)
  have none: "\<forall>c. map_of (sy_calls y) c \<noteq> Some (Sends key)" using assms(1) by (simp add: shut_until_def)
  show ?thesis
  proof (cases "k = key")
    case True
    with b r none assms(2) show ?thesis
      by (auto simp: rate_turn_def wait_turn_def shut_until_def Let_def wait_until_def split: if_splits)
  next
    case False
    obtain b' where b': "map_of (rl_buckets (sy_limiter y)) k = Some b'"
      using r by (cases "map_of (rl_buckets (sy_limiter y)) k") (auto simp: rate_turn_def wait_turn_def)
    with b r none False show ?thesis
      by (auto simp: rate_turn_def wait_turn_def shut_until_def Let_def split: if_splits)
  qed
qed

lemma reclaim_keeps:
  assumes "wf_map (rl_buckets l)" and "map_of (rl_buckets l) key = Some b" and "now < rb_reset b"
  shows "map_of (rl_buckets (reclaim_buckets now l)) key = Some b"
  using assms by (simp add: reclaim_buckets_def map_of_filter_Some idle_bucket_def)

lemma enter_shut:
  assumes "shut_until until key y" and "now < until" and ok: "system_ok y" and r: "wait_enter dead now k (sy_limiter y) = (l, err)"
  shows "shut_until until key (y\<lparr>sy_limiter := l\<rparr>)"
proof -
  obtain b where b: "map_of (rl_buckets (sy_limiter y)) key = Some b" "rb_remaining b = 0" "until \<le> rb_reset b"
    using assms(1) by (auto simp: shut_until_def)
  have wf: "wf_map (rl_buckets (sy_limiter y))" using ok by (simp add: system_ok_def table_ok_def)
  have keep: "map_of (rl_buckets (reclaim_buckets now (sy_limiter y))) key = Some b"
    using reclaim_keeps [OF wf b(1)] b(3) assms(2) by simp
  have "\<exists>b. map_of (rl_buckets l) key = Some b \<and> rb_remaining b = 0 \<and> until \<le> rb_reset b"
    using r b keep by (auto simp: wait_enter_def Let_def split: if_splits option.splits)
  with assms(1) show ?thesis by (simp add: shut_until_def)
qed

lemma step_shut:
  assumes shut: "shut_until until key y" and early: "early until v" and ok: "system_ok y" and r: "rate_step e v y = Some (y1, passed)"
  shows "shut_until until key y1 \<and> passed \<noteq> Some key"
proof (cases v)
  case (RateEnter c dead now k)
  with early have now: "now < until" by (simp add: early_def event_time_def)
  show ?thesis
  proof (cases "map_of (sy_calls y) c")
    case None
    obtain l err where l: "wait_enter dead now k (sy_limiter y) = (l, err)" by fastforce
    note es = enter_shut [OF shut now ok l]
    show ?thesis
    proof (cases err)
      case (Some x)
      with l r None RateEnter es show ?thesis by auto
    next
      case None': None
      let ?y = "y\<lparr>sy_limiter := l, sy_calls := AList.update c (Waits k False) (sy_calls y)\<rparr>"
      have "shut_until until key ?y" using es by (auto simp: shut_until_def)
      from turn_shut [OF this now enter_ok(2) [OF ok None l None'], of c k False dead y1 passed] l r None None' RateEnter
      show ?thesis by simp
    qed
  next
    case (Some w)
    with r shut RateEnter show ?thesis by auto
  qed
next
  case (RateTurn c dead now)
  with early have now: "now < until" by (simp add: early_def event_time_def)
  show ?thesis
    using r RateTurn shut turn_shut [OF shut now ok, of c]
    by (auto split: option.splits rate_call.splits)
next
  case (RateUnlock c now response)
  show ?thesis
  proof (cases "\<exists>k. map_of (sy_calls y) c = Some (Sends k)")
    case True
    then obtain k where k: "map_of (sy_calls y) c = Some (Sends k)" by blast
    with shut have ne: "k \<noteq> key" by (auto simp: shut_until_def)
    have fit: "bucket_fits (map_of (rl_buckets (sy_limiter y)) k) (users k (sy_calls y)) (holders k (sy_calls y))"
      using ok by (simp add: system_ok_def)
    have wf: "wf_map (sy_calls y)" using ok by (simp add: system_ok_def table_ok_def)
    obtain b where b: "map_of (rl_buckets (sy_limiter y)) k = Some b" "rb_busy b"
      using fit users_call [OF wf k] by (auto simp: bucket_fits_def split: option.splits if_splits)
    obtain r' t where a: "map_of (rl_buckets (answered_limiter e now response k b (sy_limiter y))) =
        (map_of (rl_buckets (sy_limiter y)))(k \<mapsto> b\<lparr>rb_remaining := r', rb_reset := t\<rparr>)"
      using answered_bucket(1) [OF b(1)] by blast
    have same: "map_of (rl_buckets (fst (Unlock e now response k (sy_limiter y)))) key = map_of (rl_buckets (sy_limiter y)) key"
      unfolding Unlock_busy [OF b] release_bucket_def a using a ne by simp
    from r k RateUnlock have y1: "y1 = y\<lparr>sy_limiter := fst (Unlock e now response k (sy_limiter y)), sy_calls := AList.delete c (sy_calls y)\<rparr>"
      "passed = None" by auto
    show ?thesis using shut unfolding y1 by (simp add: shut_until_def same)
  next
    case False
    then have "rate_step e v y = Some (y, None)" using RateUnlock by (simp split: option.split rate_call.split)
    with r shut show ?thesis by simp
  qed
qed (use r shut early in \<open>auto simp: shut_until_def limiter_Close_def early_def\<close>)

lemma enter_global: "rl_global (fst (wait_enter dead now k l)) = rl_global l"
  by (auto simp: wait_enter_def Let_def reclaim_buckets_def split: option.split)

lemma turn_global:
  assumes "until \<le> rl_global (sy_limiter y)" and "now < until" and r: "rate_turn c dead now k held y = Some (y1, passed)"
  shows "until \<le> rl_global (sy_limiter y1) \<and> passed = None"
proof -
  obtain b where b: "map_of (rl_buckets (sy_limiter y)) k = Some b"
    using r by (cases "map_of (rl_buckets (sy_limiter y)) k") (auto simp: rate_turn_def wait_turn_def)
  with r assms(1,2) show ?thesis
    by (auto simp: rate_turn_def wait_turn_def Let_def wait_until_def split: if_splits)
qed

lemma unlock_global: "rl_global l \<le> rl_global (fst (Unlock e now response k l))"
proof -
  have "rl_global l \<le> rl_global (fst (note_refusal e now r k b l))" "rl_global l = rl_global (fst (note_answer e now r k b l))" for r b
    by (auto simp: note_refusal_def note_answer_def Let_def split: option.split)
  then show ?thesis by (auto simp: Unlock_def release_bucket_def split_beta split: option.split)
qed

lemma step_global:
  assumes glob: "until \<le> rl_global (sy_limiter y)" and early: "early until v" and r: "rate_step e v y = Some (y1, passed)"
  shows "until \<le> rl_global (sy_limiter y1) \<and> passed = None"
proof (cases v)
  case (RateEnter c dead now k)
  with early have now: "now < until" by (simp add: early_def event_time_def)
  obtain l err where l: "wait_enter dead now k (sy_limiter y) = (l, err)" by fastforce
  have gl: "rl_global l = rl_global (sy_limiter y)" using enter_global [of dead now k "sy_limiter y"] l by simp
  let ?y = "y\<lparr>sy_limiter := l, sy_calls := AList.update c (Waits k False) (sy_calls y)\<rparr>"
  show ?thesis
    using r l RateEnter glob gl turn_global [of until ?y now c dead k False y1 passed] now
    by (auto split: if_splits option.splits)
next
  case (RateTurn c dead now)
  with early have "now < until" by (simp add: early_def event_time_def)
  with r RateTurn glob turn_global [of until y now c dead _ _ y1 passed] show ?thesis
    by (auto split: option.splits rate_call.splits)
next
  case (RateUnlock c now response)
  with r glob unlock_global show ?thesis
    by (fastforce split: option.splits rate_call.splits intro: order_trans)
qed (use r glob early in \<open>auto simp: limiter_Close_def early_def\<close>)

text \<open>The requests a run lets pass.\<close>

fun rate_passed :: "rate_floats \<Rightarrow> rate_event list \<Rightarrow> rate_system \<Rightarrow> rate_key list" where
  "rate_passed e [] y = []"
| "rate_passed e (v # vs) y = (case rate_step e v y of None \<Rightarrow> []
     | Some (y1, passed) \<Rightarrow> (case passed of None \<Rightarrow> [] | Some k \<Rightarrow> [k]) @ rate_passed e vs y1)"

lemma run_shut:
  assumes "shut_until until key y" and "\<forall>v \<in> set vs. early until v" and "system_ok y"
  shows "key \<notin> set (rate_passed e vs y)"
  using assms
proof (induction vs arbitrary: y)
  case (Cons v vs)
  from step_ok [OF Cons.prems(3), of e v] obtain y1 passed where s: "rate_step e v y = Some (y1, passed)" "system_ok y1" by blast
  from Cons.prems(2) step_shut [OF Cons.prems(1) _ Cons.prems(3) s(1)] have "shut_until until key y1" "passed \<noteq> Some key" by simp_all
  with Cons.IH [of y1] Cons.prems(2) s show ?case by (auto split: option.split)
qed simp

lemma run_global:
  assumes "until \<le> rl_global (sy_limiter y)" and "\<forall>v \<in> set vs. early until v" and "system_ok y"
  shows "rate_passed e vs y = []"
  using assms
proof (induction vs arbitrary: y)
  case (Cons v vs)
  from step_ok [OF Cons.prems(3), of e v] obtain y1 passed where s: "rate_step e v y = Some (y1, passed)" "system_ok y1" by blast
  from Cons.prems(2) step_global [OF Cons.prems(1) _ s(1)] have "until \<le> rl_global (sy_limiter y1)" "passed = None" by simp_all
  with Cons.IH [of y1] Cons.prems(2) s show ?case by simp
qed simp

text \<open>
  C31: Once the service refused a request of a route for some time, no request of that route is let
  through before that time is over, and no request at all when the refusal was for the whole account,
  whatever is waited for, answered, given up or forgotten meanwhile. Only the reset of all limits,
  which nothing but the tests calls, ends the claim.
\<close>

theorem refused_route_waits:
  assumes run: "rate_run e vs rate_start = Some y" and call: "map_of (sy_calls y) c = Some (Sends key)"
    and refused: "rs_TooMany r" "refused_delay e r [''Retry-After'', ''X-RateLimit-Reset-After''] 0 = Some delay" "0 < delay"
    and answer: "rate_step e (RateUnlock c now (Some r)) y = Some (y1, passed)"
    and early: "\<forall>v \<in> set ws. early (now + delay) v"
  shows "if global_scope r then rate_passed e ws y1 = [] else key \<notin> set (rate_passed e ws y1)"
proof -
  from run_ok [OF start_ok, of e vs] run have ok: "system_ok y" by auto
  from step_ok [OF ok, of e "RateUnlock c now (Some r)"] answer have ok1: "system_ok y1" by auto
  have wf: "wf_map (sy_calls y)" using ok by (simp add: system_ok_def table_ok_def)
  have fit: "bucket_fits (map_of (rl_buckets (sy_limiter y)) key) (users key (sy_calls y)) (holders key (sy_calls y))"
    using ok by (simp add: system_ok_def)
  obtain b where b: "map_of (rl_buckets (sy_limiter y)) key = Some b" "rb_busy b"
    using fit users_call [OF wf call] by (auto simp: bucket_fits_def split: option.splits if_splits)
  from answer call have y1: "y1 = y\<lparr>sy_limiter := fst (Unlock e now (Some r) key (sy_limiter y)), sy_calls := AList.delete c (sy_calls y)\<rparr>"
    by auto
  have ref: "fst (note_refusal e now r key b l) = (if global_scope r then (if rl_global l < now + delay then l\<lparr>rl_global := now + delay\<rparr> else l)
      else put_bucket key (b\<lparr>rb_remaining := 0, rb_reset := (if rb_reset b < now + delay then now + delay else rb_reset b)\<rparr>) l)" for l
    unfolding note_refusal_def refused(2) option.case Let_def using refused(3) by simp
  have a: "fst (Unlock e now (Some r) key (sy_limiter y)) = release_bucket key (fst (note_refusal e now r key b (sy_limiter y)))"
    unfolding Unlock_busy [OF b] answered_limiter_def option.case using refused(1) by simp
  show ?thesis
  proof (cases "global_scope r")
    case True
    have "now + delay \<le> rl_global (sy_limiter y1)"
      unfolding y1 by (simp add: a ref release_bucket_def True split: option.split)
    from run_global [OF this early ok1] True show ?thesis by simp
  next
    case False
    have "holders key (sy_calls y1) \<le> 0"
      using fit counts_delete(2) [OF wf, of key c] call b by (simp add: y1 bucket_fits_def)
    moreover have "wf_map (sy_calls y1)" using ok1 by (simp add: system_ok_def table_ok_def)
    ultimately have none: "map_of (sy_calls y1) d \<noteq> Some (Sends key)" for d using users_call(2) [of "sy_calls y1" d "Sends key" key] by auto
    have "shut_until (now + delay) key y1"
      unfolding shut_until_def
      using none by (auto simp: y1 a ref release_bucket_def False)
    from run_shut [OF this early ok1] False show ?thesis by simp
  qed
qed

definition sample_floats :: rate_floats where
  "sample_floats = \<lparr>rf_seconds = (\<lambda>v. if v = ''1'' then Some second else None), rf_unix = (\<lambda>v. None)\<rparr>"

definition sample_refusal :: rate_response where
  "sample_refusal = \<lparr>rs_TooMany = True, rs_Header = [(''Retry-After'', ''1'')]\<rparr>"

definition sending_system :: rate_system where
  "sending_system = \<lparr>sy_limiter = NewDiscordRateLimiter\<lparr>rl_buckets := [(sample_key, fresh_bucket\<lparr>rb_references := 1, rb_busy := True\<rparr>)]\<rparr>,
     sy_calls = [(1, Sends sample_key)]\<rparr>"

lemma sample_run: "rate_run sample_floats [RateEnter 1 False 5 sample_key] rate_start = Some sending_system"
  by (simp add: rate_start_def NewDiscordRateLimiter_def wait_enter_def stoppedLocked_def reclaim_buckets_def DiscordRateLimiterCapacity_def
      rate_turn_def wait_turn_def put_bucket_def wait_until_def fresh_bucket_def sending_system_def Let_def)

theorem refused_route_waits_witness:
  "\<exists>y1. rate_step sample_floats (RateUnlock 1 7 (Some sample_refusal)) sending_system = Some (y1, None)
     \<and> sample_key \<notin> set (rate_passed sample_floats [RateEnter 2 False 8 sample_key, RateTurn 2 False (second + 6)] y1)"
proof -
  obtain y1 where y1: "rate_step sample_floats (RateUnlock 1 7 (Some sample_refusal)) sending_system = Some (y1, None)"
    by (simp add: sending_system_def)
  have glob: "\<not> global_scope sample_refusal"
    by (simp add: global_scope_def header_get_def sample_refusal_def get_or_def equal_fold_def ascii_eval)
  have "if global_scope sample_refusal then rate_passed sample_floats [RateEnter 2 False 8 sample_key, RateTurn 2 False (second + 6)] y1 = []
      else sample_key \<notin> set (rate_passed sample_floats [RateEnter 2 False 8 sample_key, RateTurn 2 False (second + 6)] y1)"
    by (rule refused_route_waits [OF sample_run _ _ _ _ y1, where delay = second])
      (simp_all add: sending_system_def sample_refusal_def header_get_def get_or_def sample_floats_def early_def event_time_def)
  with glob y1 show ?thesis by auto
qed

section \<open>Progress\<close>

text \<open>
  Waiting always comes to an end: as long as the limiter is open, when calls wait for a route
  and none of its requests is under way, there is a waiting call whose next turn after the deadline
  lets its request pass; it does not matter who of the waiting calls went away.
\<close>

theorem rate_waiter_proceeds:
  assumes run: "rate_run e vs rate_start = Some y" and open_: "\<not> stoppedLocked (sy_limiter y)"
    and waits: "map_of (sy_calls y) c = Some (Waits key held)" and idle: "\<forall>d. map_of (sy_calls y) d \<noteq> Some (Sends key)"
    and due: "\<forall>b. map_of (rl_buckets (sy_limiter y)) key = Some b \<longrightarrow> wait_until (sy_limiter y) b \<le> now"
  shows "\<exists>d y1. rate_step e (RateTurn d False now) y = Some (y1, Some key)"
proof -
  from run_ok [OF start_ok, of e vs] run have ok: "system_ok y" by auto
  have wf: "wf_map (sy_calls y)" using ok by (simp add: system_ok_def table_ok_def)
  have fit: "bucket_fits (map_of (rl_buckets (sy_limiter y)) key) (users key (sy_calls y)) (holders key (sy_calls y))"
    using ok by (simp add: system_ok_def)
  then obtain b where b: "map_of (rl_buckets (sy_limiter y)) key = Some b"
    using users_call(1) [OF wf waits] by (auto simp: bucket_fits_def split: option.splits)
  have turn: "rate_step e (RateTurn d False now) y = Some (y1, Some key)"
    if "map_of (sy_calls y) d = Some (Waits key h)" "h \<or> \<not> rb_busy b"
      "y1 = y\<lparr>sy_limiter := (if \<not> h then put_bucket key (b\<lparr>rb_busy := True\<rparr>) (sy_limiter y) else sy_limiter y),
        sy_calls := AList.update d (Sends key) (sy_calls y)\<rparr>" for d h y1
    using that b due open_ by (auto simp: rate_turn_def wait_turn_def wait_until_def Let_def)
  show ?thesis
  proof (cases "rb_busy b")
    case False
    then show ?thesis using turn [OF waits] by blast
  next
    case True
    with fit b have "holders key (sy_calls y) = 1" by (simp add: bucket_fits_def)
    moreover have "holders key (sy_calls y) = 0" if "\<forall>d v. (d, v) \<in> set (sy_calls y) \<longrightarrow> \<not> (call_key v = key \<and> call_holds v)"
    proof -
      have "holders key (sy_calls y) = gsum (\<lambda>v. 0) (sy_calls y)" unfolding holders_def by (rule gsum_cong) (use that in auto)
      then show ?thesis by (simp add: gsum_def comp_def)
    qed
    ultimately obtain d v where d: "map_of (sy_calls y) d = Some v" "call_key v = key" "call_holds v"
      using map_of_in_set [OF wf] by fastforce
    with idle have "v = Waits key True" by (cases v) auto
    with d have "map_of (sy_calls y) d = Some (Waits key True)" by simp
    from turn [OF this _ refl] show ?thesis by blast
  qed
qed

definition waiting_system :: rate_system where
  "waiting_system = \<lparr>sy_limiter = NewDiscordRateLimiter\<lparr>rl_buckets := [(sample_key, fresh_bucket\<lparr>rb_references := 1\<rparr>)]\<rparr>,
     sy_calls = [(2, Waits sample_key False)]\<rparr>"

theorem rate_waiter_proceeds_witness:
  "\<exists>d y1. rate_step sample_floats (RateTurn d False 9) waiting_system = Some (y1, Some sample_key)"
proof -
  have run: "rate_run sample_floats [RateEnter 1 False 5 sample_key, RateEnter 2 False 6 sample_key, RateUnlock 1 7 None] rate_start = Some waiting_system"
    by (simp add: rate_start_def NewDiscordRateLimiter_def wait_enter_def stoppedLocked_def reclaim_buckets_def DiscordRateLimiterCapacity_def
        rate_turn_def wait_turn_def put_bucket_def wait_until_def fresh_bucket_def waiting_system_def Let_def Unlock_def release_bucket_def)
  show ?thesis
    by (rule rate_waiter_proceeds [OF run, where c = 2 and held = False])
      (simp_all add: waiting_system_def NewDiscordRateLimiter_def stoppedLocked_def wait_until_def fresh_bucket_def)
qed

end
