(* ===== verification/OutboundDispatch.thy ===== *)
theory OutboundDispatch
  imports Prelude
begin

text \<open>
  The dispatcher of outgoing work, \<open>internal/gateway/outbound_dispatcher.go\<close> with the counters of
  \<open>queue_metrics.go\<close>: eight bounded queues, each with a consumer and a lock for its producers. A
  producer is a small automaton of the places at which the code waits, a \<open>select\<close> is a step that
  names the branch taken, refused when that branch is not ready. The array of queues is a function
  of the index; a task is the number of the closure that was handed in.
\<close>

unbundle bit_operations_syntax

section \<open>Counters\<close>

record queue_metrics =
  qm_enqueued :: "64 word"
  qm_processed :: "64 word"
  qm_full :: "64 word"
  qm_closed :: "64 word"
  qm_blocked :: "64 word"
  qm_blockedWaitNanos :: "64 word"
  qm_blockedWaitMax :: "64 word"
  qm_blockedSlow :: "64 word"

definition zero_metrics :: queue_metrics where
  "zero_metrics = \<lparr>qm_enqueued = 0, qm_processed = 0, qm_full = 0, qm_closed = 0, qm_blocked = 0, qm_blockedWaitNanos = 0,
     qm_blockedWaitMax = 0, qm_blockedSlow = 0\<rparr>"

definition blockedWaitSlowThreshold :: duration where
  "blockedWaitSlowThreshold = second"

definition recordBlockedWait :: "duration \<Rightarrow> queue_metrics \<Rightarrow> queue_metrics" where
  "recordBlockedWait wait m =
     (if wait \<le> 0 then m
      else let nanos = word_of_int wait;
               m = m\<lparr>qm_blockedWaitNanos := qm_blockedWaitNanos m + nanos\<rparr>;
               m = (if blockedWaitSlowThreshold \<le> wait then m\<lparr>qm_blockedSlow := qm_blockedSlow m + 1\<rparr> else m) in
        if nanos \<le> qm_blockedWaitMax m then m else m\<lparr>qm_blockedWaitMax := nanos\<rparr>)"

abbreviation "count_enqueued m \<equiv> m\<lparr>qm_enqueued := qm_enqueued m + 1\<rparr>"
abbreviation "count_processed m \<equiv> m\<lparr>qm_processed := qm_processed m + 1\<rparr>"
abbreviation "count_full m \<equiv> m\<lparr>qm_full := qm_full m + 1\<rparr>"
abbreviation "count_closed m \<equiv> m\<lparr>qm_closed := qm_closed m + 1\<rparr>"
abbreviation "count_blocked m \<equiv> m\<lparr>qm_blocked := qm_blocked m + 1\<rparr>"

record queue_snapshot =
  qs_counts :: queue_metrics
  qs_Depth :: int
  qs_Capacity :: int
  qs_MaxDepth :: int

definition snapshot_active :: "queue_snapshot \<Rightarrow> bool" where
  "snapshot_active s \<longleftrightarrow> (let m = qs_counts s in qm_enqueued m \<noteq> 0 \<or> qm_processed m \<noteq> 0 \<or> qm_full m \<noteq> 0 \<or> qm_closed m \<noteq> 0
     \<or> qm_blocked m \<noteq> 0 \<or> qm_blockedWaitNanos m \<noteq> 0 \<or> qm_blockedSlow m \<noteq> 0 \<or> qs_Depth s \<noteq> 0)"

definition snapshot_delta :: "queue_snapshot \<Rightarrow> queue_snapshot \<Rightarrow> queue_snapshot" where
  "snapshot_delta s previous =
     (let m = qs_counts s; n = qs_counts previous in
      \<lparr>qs_counts = \<lparr>qm_enqueued = qm_enqueued m - qm_enqueued n, qm_processed = qm_processed m - qm_processed n,
         qm_full = qm_full m - qm_full n, qm_closed = qm_closed m - qm_closed n, qm_blocked = qm_blocked m - qm_blocked n,
         qm_blockedWaitNanos = qm_blockedWaitNanos m - qm_blockedWaitNanos n, qm_blockedWaitMax = 0,
         qm_blockedSlow = qm_blockedSlow m - qm_blockedSlow n\<rparr>, qs_Depth = 0, qs_Capacity = 0, qs_MaxDepth = 0\<rparr>)"

section \<open>The dispatcher\<close>

definition outboundDispatchShards :: nat where "outboundDispatchShards = 8"
definition outboundQueueSize :: nat where "outboundQueueSize = 256"

text \<open>\<open>stableShard\<close>: FNV-1a over the bytes of the key.\<close>

definition fnv_step :: "char \<Rightarrow> 64 word \<Rightarrow> 64 word" where
  "fnv_step c h = (h XOR of_char c) * 1099511628211"

definition stableShard :: "string \<Rightarrow> nat \<Rightarrow> nat" where
  "stableShard key count = unat (fold fnv_step key 14695981039346656037 mod of_nat count)"

abbreviation shard_of :: "string \<Rightarrow> nat" where
  "shard_of key \<equiv> stableShard key outboundDispatchShards"

type_synonym outbound_task = "string \<times> nat"

record shard =
  sh_queue :: "outbound_task list"
  sh_locked :: bool
  sh_stopped :: bool

datatype enqueue_result = OutboundClosed | OutboundQueued | OutboundFull

text \<open>Where a producer is: before the lock of its shard, at the queue, or waiting for room since an instant.\<close>

datatype producer = AtLock outbound_task bool | AtQueue outbound_task bool | AtWait outbound_task gotime

record dispatcher =
  dp_closed :: bool
  dp_cancelled :: bool
  dp_shards :: "nat \<Rightarrow> shard"
  dp_metrics :: queue_metrics
  dp_producers :: "(nat, producer) gomap"

definition newOutboundDispatcher :: dispatcher where
  "newOutboundDispatcher = \<lparr>dp_closed = False, dp_cancelled = False,
     dp_shards = (\<lambda>i. \<lparr>sh_queue = [], sh_locked = False, sh_stopped = False\<rparr>), dp_metrics = zero_metrics, dp_producers = []\<rparr>"

abbreviation on_metrics :: "(queue_metrics \<Rightarrow> queue_metrics) \<Rightarrow> dispatcher \<Rightarrow> dispatcher" where
  "on_metrics f d \<equiv> d\<lparr>dp_metrics := f (dp_metrics d)\<rparr>"

abbreviation on_shard :: "nat \<Rightarrow> (shard \<Rightarrow> shard) \<Rightarrow> dispatcher \<Rightarrow> dispatcher" where
  "on_shard i f d \<equiv> d\<lparr>dp_shards := (dp_shards d)(i := f (dp_shards d i))\<rparr>"

fun producer_task :: "producer \<Rightarrow> outbound_task" where
  "producer_task (AtLock t b) = t"
| "producer_task (AtQueue t b) = t"
| "producer_task (AtWait t since) = t"

fun holds_lock :: "producer \<Rightarrow> bool" where
  "holds_lock (AtLock t b) = False"
| "holds_lock (AtQueue t b) = True"
| "holds_lock (AtWait t since) = True"

text \<open>Leaving: the deferred return of the lock, for those that have it, and of the producer.\<close>

definition leave :: "nat \<Rightarrow> dispatcher \<Rightarrow> dispatcher" where
  "leave c d = (case map_of (dp_producers d) c of None \<Rightarrow> d | Some pr \<Rightarrow>
     (if holds_lock pr then on_shard (shard_of (fst (producer_task pr))) (\<lambda>s. s\<lparr>sh_locked := False\<rparr>) d else d)
       \<lparr>dp_producers := AList.delete c (dp_producers d)\<rparr>)"

definition move_to :: "nat \<Rightarrow> producer \<Rightarrow> dispatcher \<Rightarrow> dispatcher" where
  "move_to c pr d = d\<lparr>dp_producers := AList.update c pr (dp_producers d)\<rparr>"

text \<open>The branches of the selects, and which of them are ready.\<close>

datatype branch = OnContext | OnDone | OnReady | OnDefault

definition select_ready :: "bool \<Rightarrow> bool \<Rightarrow> bool \<Rightarrow> bool \<Rightarrow> branch \<Rightarrow> bool" where
  "select_ready ctx done ready fallback b = (case b of OnContext \<Rightarrow> ctx | OnDone \<Rightarrow> done | OnReady \<Rightarrow> ready
     | OnDefault \<Rightarrow> fallback \<and> \<not> ctx \<and> \<not> done \<and> \<not> ready)"

type_synonym outcome = "dispatcher \<times> enqueue_result option"

text \<open>Coming in: refused at once when the dispatcher is closed.\<close>

definition enqueue_enter :: "nat \<Rightarrow> outbound_task \<Rightarrow> bool \<Rightarrow> dispatcher \<Rightarrow> outcome" where
  "enqueue_enter c t block d =
     (if dp_closed d then (on_metrics count_closed d, Some OutboundClosed) else (move_to c (AtLock t block) d, None))"

definition enqueue_lock :: "nat \<Rightarrow> bool \<Rightarrow> branch \<Rightarrow> outbound_task \<Rightarrow> bool \<Rightarrow> dispatcher \<Rightarrow> outcome" where
  "enqueue_lock c ctx b t block d =
     (let i = shard_of (fst t) in
      if \<not> select_ready ctx (dp_closed d) (\<not> sh_locked (dp_shards d i)) (\<not> block) b then (d, None)
      else case b of
        OnReady \<Rightarrow> (move_to c (AtQueue t block) (on_shard i (\<lambda>s. s\<lparr>sh_locked := True\<rparr>) d), None)
      | OnDefault \<Rightarrow> (leave c (on_metrics count_full d), Some OutboundFull)
      | _ \<Rightarrow> (leave c d, Some OutboundClosed))"

definition put_task :: "outbound_task \<Rightarrow> dispatcher \<Rightarrow> dispatcher" where
  "put_task t d = on_metrics count_enqueued (on_shard (shard_of (fst t)) (\<lambda>s. s\<lparr>sh_queue := sh_queue s @ [t]\<rparr>) d)"

definition has_room :: "outbound_task \<Rightarrow> dispatcher \<Rightarrow> bool" where
  "has_room t d \<longleftrightarrow> length (sh_queue (dp_shards d (shard_of (fst t)))) < outboundQueueSize"

definition enqueue_try :: "nat \<Rightarrow> bool \<Rightarrow> branch \<Rightarrow> gotime \<Rightarrow> outbound_task \<Rightarrow> bool \<Rightarrow> dispatcher \<Rightarrow> outcome" where
  "enqueue_try c ctx b now t block d =
     (if \<not> select_ready ctx (dp_closed d) (has_room t d) True b then (d, None)
      else case b of
        OnReady \<Rightarrow> (leave c (put_task t d), Some OutboundQueued)
      | OnContext \<Rightarrow> (leave c d, Some OutboundClosed)
      | OnDone \<Rightarrow> (leave c (on_metrics count_closed d), Some OutboundClosed)
      | OnDefault \<Rightarrow>
          if block then (move_to c (AtWait t now) (on_metrics count_blocked (on_metrics count_full d)), None)
          else (leave c (on_metrics count_full d), Some OutboundFull))"

definition enqueue_wait :: "nat \<Rightarrow> bool \<Rightarrow> branch \<Rightarrow> gotime \<Rightarrow> outbound_task \<Rightarrow> gotime \<Rightarrow> dispatcher \<Rightarrow> outcome" where
  "enqueue_wait c ctx b now t since d =
     (if \<not> select_ready ctx (dp_closed d) (has_room t d) False b then (d, None)
      else let waited = on_metrics (recordBlockedWait (time_sub now since)) in case b of
        OnReady \<Rightarrow> (leave c (put_task t (waited d)), Some OutboundQueued)
      | OnDone \<Rightarrow> (leave c (on_metrics count_closed (waited d)), Some OutboundClosed)
      | _ \<Rightarrow> (leave c d, Some OutboundClosed))"

text \<open>A consumer runs the task at the head of its queue, as long as there is one.\<close>

definition consume :: "nat \<Rightarrow> dispatcher \<Rightarrow> dispatcher \<times> outbound_task option" where
  "consume i d = (case sh_queue (dp_shards d i) of
     [] \<Rightarrow> (if dp_cancelled d then on_shard i (\<lambda>s. s\<lparr>sh_stopped := True\<rparr>) d else d, None)
   | t # ts \<Rightarrow>
       if sh_stopped (dp_shards d i) then (d, None)
       else (on_metrics count_processed (on_shard i (\<lambda>s. s\<lparr>sh_queue := ts\<rparr>) d), Some t))"

definition close_begin :: "dispatcher \<Rightarrow> dispatcher" where
  "close_begin d = d\<lparr>dp_closed := True\<rparr>"

text \<open>\<open>producers.Wait\<close> and then \<open>cancel\<close>.\<close>

definition close_finish :: "dispatcher \<Rightarrow> dispatcher" where
  "close_finish d = (if dp_closed d \<and> dp_producers d = [] then d\<lparr>dp_cancelled := True\<rparr> else d)"

definition metricsSnapshot :: "dispatcher \<Rightarrow> queue_snapshot" where
  "metricsSnapshot d =
     (let depths = map (\<lambda>i. int (length (sh_queue (dp_shards d i)))) [0..<outboundDispatchShards] in
      \<lparr>qs_counts = dp_metrics d, qs_Depth = sum_list depths,
       qs_Capacity = int outboundDispatchShards * int outboundQueueSize, qs_MaxDepth = fold max depths 0\<rparr>)"

section \<open>Steps\<close>

datatype dispatch_event =
    Arrive nat outbound_task bool
  | Proceed nat bool branch gotime
  | Consume nat
  | CloseBegin
  | CloseFinish

text \<open>What a step shows: a task taken into a queue or run.\<close>

datatype lane_event = Accepts outbound_task | Runs outbound_task

definition accepts :: "outbound_task \<Rightarrow> outcome \<Rightarrow> dispatcher \<times> lane_event option" where
  "accepts t r = (fst r, if snd r = Some OutboundQueued then Some (Accepts t) else None)"

fun dispatch_step :: "dispatch_event \<Rightarrow> dispatcher \<Rightarrow> dispatcher \<times> lane_event option" where
  "dispatch_step (Arrive c t block) d =
     (if map_of (dp_producers d) c \<noteq> None then (d, None) else accepts t (enqueue_enter c t block d))"
| "dispatch_step (Proceed c ctx b now) d = (case map_of (dp_producers d) c of
     None \<Rightarrow> (d, None)
   | Some (AtLock t block) \<Rightarrow> accepts t (enqueue_lock c ctx b t block d)
   | Some (AtQueue t block) \<Rightarrow> accepts t (enqueue_try c ctx b now t block d)
   | Some (AtWait t since) \<Rightarrow> accepts t (enqueue_wait c ctx b now t since d))"
| "dispatch_step (Consume i) d =
     (if i < outboundDispatchShards then (fst (consume i d), map_option Runs (snd (consume i d))) else (d, None))"
| "dispatch_step CloseBegin d = (close_begin d, None)"
| "dispatch_step CloseFinish d = (close_finish d, None)"

fun dispatch_run :: "dispatch_event list \<Rightarrow> dispatcher \<Rightarrow> dispatcher \<times> lane_event list" where
  "dispatch_run [] d = (d, [])"
| "dispatch_run (v # vs) d =
     (let (d1, out) = dispatch_step v d; (d2, outs) = dispatch_run vs d1 in
      (d2, (case out of None \<Rightarrow> [] | Some x \<Rightarrow> [x]) @ outs))"

section \<open>Lanes\<close>

text \<open>The contract: for every key a queue of its own, without bounds, shards or locks.\<close>

type_synonym lanes = "string \<Rightarrow> nat list"

inductive lane_step :: "lanes \<Rightarrow> lane_event option \<Rightarrow> lanes \<Rightarrow> bool" where
  lane_skip: "lane_step s None s"
| lane_accept: "lane_step s (Some (Accepts (k, x))) (s(k := s k @ [x]))"
| lane_run: "s k = x # xs \<Longrightarrow> lane_step s (Some (Runs (k, x))) (s(k := xs))"

definition lanes_of :: "dispatcher \<Rightarrow> lanes" where
  "lanes_of d key = map snd (filter (\<lambda>t. fst t = key) (sh_queue (dp_shards d (shard_of key))))"

definition at_queue :: "nat \<Rightarrow> producer \<Rightarrow> int" where
  "at_queue i pr = (if holds_lock pr \<and> shard_of (fst (producer_task pr)) = i then 1 else 0)"

text \<open>What holds between the steps.\<close>

definition dispatcher_ok :: "dispatcher \<Rightarrow> bool" where
  "dispatcher_ok d \<longleftrightarrow> wf_map (dp_producers d)
     \<and> (\<forall>i. \<forall>t \<in> set (sh_queue (dp_shards d i)). shard_of (fst t) = i)
     \<and> (\<forall>i. length (sh_queue (dp_shards d i)) \<le> outboundQueueSize)
     \<and> (\<forall>i. gsum (at_queue i) (dp_producers d) = of_bool (sh_locked (dp_shards d i)))
     \<and> (dp_cancelled d \<longrightarrow> dp_closed d \<and> dp_producers d = [])
     \<and> (\<forall>i. sh_stopped (dp_shards d i) \<longrightarrow> dp_cancelled d \<and> sh_queue (dp_shards d i) = [])"

lemma new_dispatcher_ok: "dispatcher_ok newOutboundDispatcher"
  by (simp add: dispatcher_ok_def newOutboundDispatcher_def)

lemma dispatcher_ok_metrics [simp]: "dispatcher_ok (d\<lparr>dp_metrics := m\<rparr>) = dispatcher_ok d"
  by (simp add: dispatcher_ok_def)

lemma lanes_metrics [simp]: "lanes_of (d\<lparr>dp_metrics := m\<rparr>) = lanes_of d"
  by (simp add: lanes_of_def fun_eq_iff)

lemma gsum_at: "gsum (at_queue i) (AList.update c pr m) = gsum (at_queue i) m - (case map_of m c of None \<Rightarrow> 0 | Some q \<Rightarrow> at_queue i q) + at_queue i pr"
  by (rule gsum_update)

lemma leave_ok:
  assumes "dispatcher_ok d"
  shows "dispatcher_ok (leave c d)"
proof (cases "map_of (dp_producers d) c")
  case None
  with assms show ?thesis by (simp add: leave_def)
next
  case (Some pr)
  have wf: "wf_map (dp_producers d)" using assms by (simp add: dispatcher_ok_def)
  have one: "gsum (at_queue i) (dp_producers d) = of_bool (sh_locked (dp_shards d i))" for i
    using assms by (simp add: dispatcher_ok_def)
  have sum: "gsum (at_queue i) (AList.delete c (dp_producers d)) = of_bool (sh_locked (dp_shards d i)) - at_queue i pr" for i
    by (simp add: gsum_delete [OF wf] Some one)
  have nn: "0 \<le> gsum (at_queue i) (AList.delete c (dp_producers d))" for i
    by (rule gsum_nonneg) (simp add: at_queue_def)
  have "at_queue i pr \<le> of_bool (sh_locked (dp_shards d i))" for i using sum nn by (metis diff_ge_0_iff_ge)
  then have "sh_locked (dp_shards d (shard_of (fst (producer_task pr))))" if "holds_lock pr"
  proof -
    have "1 \<le> (of_bool (sh_locked (dp_shards d (shard_of (fst (producer_task pr))))) :: int)"
      using \<open>\<And>i. at_queue i pr \<le> of_bool (sh_locked (dp_shards d i))\<close> [of "shard_of (fst (producer_task pr))"] that
      by (simp add: at_queue_def)
    then show ?thesis by (cases "sh_locked (dp_shards d (shard_of (fst (producer_task pr))))") simp_all
  qed
  with sum assms Some show ?thesis
    by (auto simp: dispatcher_ok_def leave_def at_queue_def)
qed

lemma lanes_leave [simp]: "lanes_of (leave c d) = lanes_of d"
  by (auto simp: leave_def lanes_of_def fun_eq_iff split: option.split)

lemma put_ok:
  assumes "dispatcher_ok d" and "has_room t d" and "dp_producers d \<noteq> []"
  shows "dispatcher_ok (put_task t d)"
  using assms by (auto simp: dispatcher_ok_def put_task_def has_room_def)

lemma lanes_put: "lanes_of (put_task (k, x) d) = (lanes_of d)(k := lanes_of d k @ [x])"
  by (auto simp: lanes_of_def put_task_def fun_eq_iff)

lemma lanes_put': "lane_step (lanes_of d) (Some (Accepts t)) (lanes_of (put_task t d))"
  using lane_accept [of "lanes_of d" "fst t" "snd t"] lanes_put [of "fst t" "snd t" d] by simp

definition steps_well :: "dispatcher \<Rightarrow> dispatcher \<times> lane_event option \<Rightarrow> bool" where
  "steps_well d r \<longleftrightarrow> dispatcher_ok (fst r) \<and> lane_step (lanes_of d) (snd r) (lanes_of (fst r))"

lemma steps_well_none: "dispatcher_ok d1 \<Longrightarrow> lanes_of d1 = lanes_of d \<Longrightarrow> steps_well d (d1, None)"
  by (simp add: steps_well_def lane_skip)

lemma enter_well:
  assumes "dispatcher_ok d" and "map_of (dp_producers d) c = None"
  shows "steps_well d (accepts t (enqueue_enter c t block d))"
proof -
  have "dispatcher_ok (move_to c (AtLock t block) d)" if "\<not> dp_closed d"
    using assms that by (auto simp: dispatcher_ok_def move_to_def gsum_at at_queue_def)
  moreover have "lanes_of (move_to c pr d) = lanes_of d" for pr by (simp add: lanes_of_def move_to_def fun_eq_iff)
  ultimately show ?thesis
    using assms by (simp add: enqueue_enter_def accepts_def steps_well_none)
qed

lemma lanes_move [simp]: "lanes_of (move_to c pr d) = lanes_of d"
  by (simp add: lanes_of_def move_to_def fun_eq_iff)

lemma lock_well:
  assumes ok: "dispatcher_ok d" and c: "map_of (dp_producers d) c = Some (AtLock t block)"
  shows "steps_well d (accepts t (enqueue_lock c ctx b t block d))"
proof -
  let ?i = "shard_of (fst t)"
  have "dispatcher_ok (move_to c (AtQueue t block) (on_shard ?i (\<lambda>s. s\<lparr>sh_locked := True\<rparr>) d))" if "\<not> sh_locked (dp_shards d ?i)"
    using ok c that by (auto simp: dispatcher_ok_def move_to_def gsum_at at_queue_def)
  moreover have "lanes_of (move_to c pr (on_shard i (\<lambda>s. s\<lparr>sh_locked := True\<rparr>) d)) = lanes_of d" for pr i
    by (auto simp: lanes_of_def move_to_def fun_eq_iff)
  ultimately show ?thesis
    using ok leave_ok [OF ok, of c] leave_ok [of "on_metrics count_full d" c]
    by (cases b) (simp_all add: enqueue_lock_def accepts_def steps_well_none select_ready_def Let_def)
qed

lemma take_well:
  assumes ok: "dispatcher_ok d" and c: "map_of (dp_producers d) c = Some pr" and room: "has_room t d"
  shows "steps_well d (leave c (put_task t (d\<lparr>dp_metrics := m\<rparr>)), Some (Accepts t))"
proof -
  have "dp_producers d \<noteq> []" using c by auto
  with ok room have "dispatcher_ok (put_task t (d\<lparr>dp_metrics := m\<rparr>))" by (intro put_ok) (simp_all add: has_room_def)
  from leave_ok [OF this] lanes_put' [of "d\<lparr>dp_metrics := m\<rparr>" t] show ?thesis by (simp add: steps_well_def)
qed

lemma leave_metrics_ok: "dispatcher_ok d \<Longrightarrow> dispatcher_ok (leave c (d\<lparr>dp_metrics := m\<rparr>))"
  by (rule leave_ok) simp

lemma try_well:
  assumes ok: "dispatcher_ok d" and c: "map_of (dp_producers d) c = Some (AtQueue t block)"
  shows "steps_well d (accepts t (enqueue_try c ctx b now t block d))"
proof -
  have wait: "dispatcher_ok (move_to c (AtWait t now) (d\<lparr>dp_metrics := m\<rparr>))" for m
    using ok c by (auto simp: dispatcher_ok_def move_to_def gsum_at at_queue_def)
  have take: "steps_well d (leave c (put_task t d), Some (Accepts t))" if "has_room t d"
    using take_well [OF ok c that, of "dp_metrics d"] by simp
  show ?thesis
    using ok leave_metrics_ok [OF ok] leave_ok [OF ok] wait take
    by (cases b) (simp_all add: enqueue_try_def accepts_def steps_well_none select_ready_def Let_def)
qed

lemma wait_well:
  assumes ok: "dispatcher_ok d" and c: "map_of (dp_producers d) c = Some (AtWait t since)"
  shows "steps_well d (accepts t (enqueue_wait c ctx b now t since d))"
  using ok leave_metrics_ok [OF ok] leave_ok [OF ok] take_well [OF ok c, of t "recordBlockedWait (time_sub now since) (dp_metrics d)"]
  by (cases b) (simp_all add: enqueue_wait_def accepts_def steps_well_none select_ready_def Let_def)

lemma consume_well:
  assumes ok: "dispatcher_ok d"
  shows "steps_well d (fst (consume i d), map_option Runs (snd (consume i d)))"
proof (cases "sh_queue (dp_shards d i)")
  case Nil
  have "dispatcher_ok (on_shard i (\<lambda>s. s\<lparr>sh_stopped := True\<rparr>) d)" if "dp_cancelled d"
    using ok that Nil by (auto simp: dispatcher_ok_def)
  moreover have "lanes_of (on_shard i (\<lambda>s. s\<lparr>sh_stopped := True\<rparr>) d) = lanes_of d" by (auto simp: lanes_of_def fun_eq_iff)
  ultimately show ?thesis using ok Nil by (simp add: consume_def steps_well_none)
next
  case (Cons t ts)
  have i: "shard_of (fst t) = i" and run: "\<not> sh_stopped (dp_shards d i)" using ok Cons by (auto simp: dispatcher_ok_def)
  let ?d = "on_metrics count_processed (on_shard i (\<lambda>s. s\<lparr>sh_queue := ts\<rparr>) d)"
  have "dispatcher_ok (on_shard i (\<lambda>s. s\<lparr>sh_queue := ts\<rparr>) d)"
    using ok Cons run by (auto simp: dispatcher_ok_def) (metis Suc_leD length_Cons)+
  moreover have "lanes_of ?d = (lanes_of d)(fst t := tl (lanes_of d (fst t)))"
    using Cons i by (auto simp: lanes_of_def fun_eq_iff)
  moreover have "lanes_of d (fst t) = snd t # tl (lanes_of d (fst t))" using Cons i by (simp add: lanes_of_def)
  ultimately show ?thesis
    using Cons run lane_run [of "lanes_of d" "fst t" "snd t" "tl (lanes_of d (fst t))"] by (simp add: consume_def steps_well_def)
qed

lemma close_well: "dispatcher_ok d \<Longrightarrow> steps_well d (close_begin d, None)" "dispatcher_ok d \<Longrightarrow> steps_well d (close_finish d, None)"
  by (rule steps_well_none; auto simp: dispatcher_ok_def close_begin_def close_finish_def lanes_of_def fun_eq_iff)+

lemma dispatch_well: "dispatcher_ok d \<Longrightarrow> steps_well d (dispatch_step v d)"
  by (cases v) (auto simp: enter_well consume_well close_well steps_well_none lock_well try_well wait_well
      split: option.split producer.split)

lemma dispatch_run_ok: "dispatcher_ok d \<Longrightarrow> dispatcher_ok (fst (dispatch_run vs d))"
proof (induction vs arbitrary: d)
  case (Cons v vs)
  then have "dispatcher_ok (fst (dispatch_step v d))" using dispatch_well [of d v] by (simp add: steps_well_def)
  with Cons.IH [of "fst (dispatch_step v d)"] show ?case by (simp add: split_beta)
qed simp

text \<open>
  C30: The dispatcher implements a queue per key: whatever happens among the eight shared, bounded
  queues, their locks, the producers that wait and the closing, every step is for the keys either
  nothing, one task added at the end of the queue of its key, or the first task of a key run.
\<close>

theorem dispatch_refines_lanes:
  "lane_step (lanes_of (fst (dispatch_run vs newOutboundDispatcher)))
     (snd (dispatch_step v (fst (dispatch_run vs newOutboundDispatcher))))
     (lanes_of (fst (dispatch_step v (fst (dispatch_run vs newOutboundDispatcher)))))"
  using dispatch_well [OF dispatch_run_ok [OF new_dispatcher_ok], of vs v] by (simp add: steps_well_def)

text \<open>The tasks of one key among those accepted and those run.\<close>

fun accepted_of :: "string \<Rightarrow> lane_event list \<Rightarrow> nat list" where
  "accepted_of key [] = []"
| "accepted_of key (Accepts t # es) = (if fst t = key then snd t # accepted_of key es else accepted_of key es)"
| "accepted_of key (Runs t # es) = accepted_of key es"

fun runs_of :: "string \<Rightarrow> lane_event list \<Rightarrow> nat list" where
  "runs_of key [] = []"
| "runs_of key (Runs t # es) = (if fst t = key then snd t # runs_of key es else runs_of key es)"
| "runs_of key (Accepts t # es) = runs_of key es"

lemma lane_history:
  assumes "dispatcher_ok d"
  shows "lanes_of d key @ accepted_of key (snd (dispatch_run vs d)) = runs_of key (snd (dispatch_run vs d)) @ lanes_of (fst (dispatch_run vs d)) key"
  using assms
proof (induction vs arbitrary: d)
  case (Cons v vs)
  let ?d1 = "fst (dispatch_step v d)"
  have w: "dispatcher_ok ?d1" "lane_step (lanes_of d) (snd (dispatch_step v d)) (lanes_of ?d1)"
    using dispatch_well [OF Cons.prems, of v] by (simp_all add: steps_well_def)
  note IH = Cons.IH [OF w(1)]
  from w(2) show ?case
  proof cases
    case lane_skip
    with IH show ?thesis by (simp add: split_beta)
  next
    case (lane_accept k x)
    with IH show ?thesis by (cases "k = key") (auto simp: split_beta)
  next
    case (lane_run k x xs)
    with IH show ?thesis by (cases "k = key") (auto simp: split_beta)
  qed
qed simp

text \<open>
  Of every key the tasks run in the order in which they were taken, none twice and none lost:
  what has not run is still queued, and once the dispatcher is closed and its consumer has stopped,
  everything that was taken has run.
\<close>

theorem dispatch_in_order:
  assumes "dispatch_run vs newOutboundDispatcher = (d, outs)"
  shows "accepted_of key outs = runs_of key outs @ lanes_of d key
    \<and> (sh_stopped (dp_shards d (shard_of key)) \<longrightarrow> runs_of key outs = accepted_of key outs)"
proof -
  have start: "lanes_of newOutboundDispatcher key = []" by (simp add: lanes_of_def newOutboundDispatcher_def)
  have all: "accepted_of key outs = runs_of key outs @ lanes_of d key"
    using lane_history [OF new_dispatcher_ok, of key vs] start assms by simp
  have "dispatcher_ok d" using dispatch_run_ok [OF new_dispatcher_ok, of vs] assms by simp
  then have "lanes_of d key = []" if "sh_stopped (dp_shards d (shard_of key))"
    using that by (simp add: dispatcher_ok_def lanes_of_def)
  with all show ?thesis by simp
qed

lemma shard_bound: "shard_of key < outboundDispatchShards"
proof -
  have "unat (h mod 8) < 8" for h :: "64 word" by (simp add: unat_mod)
  then show ?thesis by (simp add: stableShard_def outboundDispatchShards_def)
qed

definition sample_dispatch :: "dispatch_event list" where
  "sample_dispatch = [Arrive 1 (''k'', 5) False, Proceed 1 False OnReady 0, Proceed 1 False OnReady 0, CloseBegin, CloseFinish,
     Consume (shard_of ''k''), Consume (shard_of ''k'')]"

theorem dispatch_in_order_witness:
  "runs_of ''k'' (snd (dispatch_run sample_dispatch newOutboundDispatcher)) = accepted_of ''k'' (snd (dispatch_run sample_dispatch newOutboundDispatcher))"
proof (rule dispatch_in_order [THEN conjunct2, THEN mp])
  show "dispatch_run sample_dispatch newOutboundDispatcher
      = (fst (dispatch_run sample_dispatch newOutboundDispatcher), snd (dispatch_run sample_dispatch newOutboundDispatcher))" by simp
  show "sh_stopped (dp_shards (fst (dispatch_run sample_dispatch newOutboundDispatcher)) (shard_of ''k''))"
    by (simp add: sample_dispatch_def newOutboundDispatcher_def enqueue_enter_def accepts_def move_to_def enqueue_lock_def select_ready_def
        enqueue_try_def has_room_def outboundQueueSize_def leave_def put_task_def close_begin_def close_finish_def consume_def shard_bound Let_def)
qed

end
