(* ===== verification/ControlTargets.thy ===== *)
theory ControlTargets
  imports IngressAccept Admission Envelopes SessionPins SessionTransfers
begin

text \<open>
  The targets of controls, \<open>internal/gateway/router_ingress.go\<close>: what a command means is frozen when
  its message arrives (\<open>captureIngress\<close>), and it is written to the process only while that still is
  what it means (\<open>ingressTargetMatchesLocked\<close>, \<open>sendIngressControl\<close>). The view holds what capturing
  reads: the configuration, the processes, the pins and the transfer guards of the manager.
\<close>

section \<open>Capturing\<close>

record ingress_view =
  vw_config :: gateway_config
  vw_manager :: bool
  vw_procs :: "(string, chord_process) gomap"
  vw_pins :: "pin_store option"
  vw_transfers :: "transfer_store option"

text \<open>Which of the locks a capture that may not wait finds taken.\<close>

record busy_locks =
  bk_transfers :: bool
  bk_procs :: bool
  bk_pins :: bool
  bk_process :: bool

definition zero_target :: control_target where
  "zero_target = \<lparr>ct_BindingInstanceID = '''', ct_SessionID = '''', ct_QuestionLookup = False, ct_TransferID = '''', ct_RuntimeID = '''',
     ct_SessionEpoch = 0, ct_RequestID = '''', ct_Version = 0, ct_TurnID = 0\<rparr>"

text \<open>\<open>uint64(t.UnixNano())\<close>; instants count from the first of January of year 1.\<close>

definition unix_nano :: "gotime \<Rightarrow> 64 word" where
  "unix_nano t = word_of_int (t - 62135596800 * second)"

definition binding_key :: "workspace \<Rightarrow> incoming_message \<Rightarrow> string" where
  "binding_key ws m = key_String \<lparr>pk_workspaceID = ws_ID ws, pk_imType = im_IMType m, pk_chatID = im_ChatID m\<rparr>"

definition plain_text :: "incoming_message \<Rightarrow> bool" where
  "plain_text m \<longleftrightarrow> im_ForceText m \<or> \<not> has_prefix (trim_space (im_Text m)) ''/''"

definition captured_kind :: "im_command \<Rightarrow> incoming_message \<Rightarrow> string" where
  "captured_kind cmd m = (if im_InternalAction m = None \<and> ic_Type cmd = ''send'' \<and> plain_text m then ''task'' else ''control'')"

definition captured_transfer :: "im_command \<Rightarrow> string \<Rightarrow> ingress_view \<Rightarrow> string" where
  "captured_transfer cmd key v = (case vw_transfers v of None \<Rightarrow> '''' | Some s \<Rightarrow>
     if ic_Type cmd \<noteq> ''takeover'' \<or> ts_loadErr s \<noteq> None then ''''
     else case map_of (ts_entries s) key of None \<Rightarrow> '''' | Some t \<Rightarrow> tr_TransferID (st_Status t))"

text \<open>A chat without a process: what the pin, a question named by hand or a transfer say.\<close>

definition capture_without_process :: "im_command \<Rightarrow> incoming_message \<Rightarrow> string \<Rightarrow> ingress_view \<Rightarrow> control_target" where
  "capture_without_process cmd m key v =
     (let t = zero_target\<lparr>ct_SessionID := (case vw_pins v of None \<Rightarrow> '''' | Some s \<Rightarrow> pins_Get key s)\<rparr> in
      if ic_Type cmd = ''question'' \<and> ic_RequestID cmd \<noteq> '''' \<and> im_InternalAction m = None
      then t\<lparr>ct_RequestID := ic_RequestID cmd, ct_QuestionLookup := True\<rparr> else t)"

definition capture_question :: "im_command \<Rightarrow> incoming_message \<Rightarrow> control_state \<Rightarrow> control_target \<Rightarrow> control_target" where
  "capture_question cmd m s t =
     (let t = t\<lparr>ct_RequestID := ic_RequestID cmd\<rparr>;
          q = (if ic_RequestID cmd = '''' then uniquePendingQuestion s else map_of (st_Questions s) (ic_RequestID cmd));
          t = (case q of Some q \<Rightarrow> t\<lparr>ct_RequestID := qp_RequestID q, ct_Version := qp_Version q\<rparr>
               | None \<Rightarrow> if ic_RequestID cmd \<noteq> '''' \<and> im_InternalAction m = None then t\<lparr>ct_QuestionLookup := True\<rparr> else t) in
      case im_InternalAction m of None \<Rightarrow> t | Some a \<Rightarrow> if ia_Version a \<noteq> 0 then t\<lparr>ct_Version := ia_Version a\<rparr> else t)"

text \<open>With a process; no target is a command that names a confirmation which is not the pending one.\<close>

definition process_target :: "im_command \<Rightarrow> string \<Rightarrow> chord_process \<Rightarrow> control_target" where
  "process_target cmd transferID p =
     (let t = zero_target\<lparr>ct_RuntimeID := px_runtimeID p, ct_SessionEpoch := px_sessionEpoch p, ct_SessionID := st_SessionID (px_state p),
                ct_BindingInstanceID := px_bindingInstanceID p, ct_TransferID := transferID\<rparr> in
      if ic_Type cmd = ''takeover'' \<and> ct_TransferID t = ''''
      then (case st_Transfer (px_state p) of None \<Rightarrow> t | Some tr \<Rightarrow> t\<lparr>ct_TransferID := tr_TransferID tr\<rparr>) else t)"

definition capture_from_process :: "im_command \<Rightarrow> incoming_message \<Rightarrow> string \<Rightarrow> string \<Rightarrow> chord_process \<Rightarrow> string \<times> control_target option" where
  "capture_from_process cmd m kind transferID p =
     (let s = px_state p;
          t = process_target cmd transferID p;
          done = (case st_PendingConfirm s of Some c \<Rightarrow> kind = ''task'' \<and> isDoneTool (cp_ToolName c) | None \<Rightarrow> False);
          kind = (if done then ''control'' else kind);
          pending = (case st_PendingConfirm s of Some c \<Rightarrow> cp_RequestID c | None \<Rightarrow> '''');
          t = (if done then t\<lparr>ct_RequestID := pending\<rparr> else t);
          result = (\<lambda>t. (kind, if kind = ''task'' then None else Some t)) in
      if ic_Type cmd = ''confirm'' then
        (let t = (if st_PendingConfirm s \<noteq> None then t\<lparr>ct_RequestID := pending\<rparr> else t) in
         if ic_RequestID cmd \<noteq> '''' \<and> ic_RequestID cmd \<noteq> ct_RequestID t then (kind, None) else result t)
      else if ic_Type cmd = ''question'' then result (capture_question cmd m s t)
      else if ic_Type cmd = ''handoff'' then
        result (case st_PendingHandoff s of Some h \<Rightarrow> t\<lparr>ct_RequestID := hp_RequestID h\<rparr> | None \<Rightarrow> t)
      else if ic_Type cmd = ''cancel'' then
        result (if st_Busy s \<and> st_TurnStartedAt s \<noteq> 0 then t\<lparr>ct_TurnID := unix_nano (st_TurnStartedAt s)\<rparr> else t)
      else result t)"

text \<open>\<open>captureIngress\<close>; the flag is false when a lock was taken and the capture may not wait.\<close>

definition captureIngress :: "(string \<Rightarrow> duration option) \<Rightarrow> ingress_view \<Rightarrow> bool \<Rightarrow> busy_locks \<Rightarrow> incoming_message
    \<Rightarrow> string \<times> control_target option \<times> bool" where
  "captureIngress pd v nonblocking locks m =
     (let cmd = commandForIncomingMessage pd m; kind = captured_kind cmd m; taken = (''control'', None, False) in
      if \<not> vw_manager v then (kind, None, True)
      else case ResolveWorkspace (vw_config v) (im_IMType m) (im_ChatID m) of
        Inl err \<Rightarrow> (kind, None, True)
      | Inr ws \<Rightarrow>
          let key = binding_key ws m; transferID = captured_transfer cmd key v in
          if nonblocking \<and> ic_Type cmd = ''takeover'' \<and> vw_transfers v \<noteq> None \<and> bk_transfers locks then taken
          else if nonblocking \<and> bk_procs locks then taken
          else case map_of (vw_procs v) key of
            None \<Rightarrow>
              if ic_Type cmd = ''takeover'' then (kind, Some (zero_target\<lparr>ct_TransferID := transferID\<rparr>), True)
              else if nonblocking \<and> vw_pins v \<noteq> None \<and> bk_pins locks then taken
              else (kind, if kind = ''control'' then Some (capture_without_process cmd m key v) else None, True)
          | Some p \<Rightarrow>
              if nonblocking \<and> bk_process locks then taken
              else (let (kind, t) = capture_from_process cmd m kind transferID p in (kind, t, True)))"

section \<open>Delivering\<close>

definition ingressTargetMatches :: "control_target option \<Rightarrow> im_command \<Rightarrow> chord_process \<Rightarrow> bool" where
  "ingressTargetMatches target cmd p = (case target of None \<Rightarrow> False | Some t \<Rightarrow>
     let s = px_state p in
     if ct_RuntimeID t = '''' \<or> ct_RuntimeID t \<noteq> px_runtimeID p \<or> ct_SessionEpoch t \<noteq> px_sessionEpoch p
        \<or> ct_SessionID t \<noteq> '''' \<and> ct_SessionID t \<noteq> st_SessionID s
        \<or> ct_BindingInstanceID t \<noteq> '''' \<and> ct_BindingInstanceID t \<noteq> px_bindingInstanceID p
     then False
     else if ic_Type cmd = ''confirm'' then
       ct_RequestID t \<noteq> '''' \<and> (case st_PendingConfirm s of None \<Rightarrow> False | Some c \<Rightarrow> cp_RequestID c = ct_RequestID t)
     else if ic_Type cmd = ''question'' then
       (case map_of (st_Questions s) (ct_RequestID t) of None \<Rightarrow> False | Some q \<Rightarrow> qp_Version q = ct_Version t \<and> \<not> ct_QuestionLookup t)
     else if ic_Type cmd = ''handoff'' then
       ct_RequestID t \<noteq> '''' \<and> (case st_PendingHandoff s of None \<Rightarrow> False | Some h \<Rightarrow> hp_RequestID h = ct_RequestID t)
     else if ic_Type cmd = ''cancel'' then ct_TurnID t \<noteq> 0 \<and> st_Busy s \<and> unix_nano (st_TurnStartedAt s) = ct_TurnID t
     else True)"

datatype control_error = TargetExpired | ControlError input_error

text \<open>
  \<open>sendIngressControl\<close>; what the guard reads of the payload is its type, request and action.
\<close>

definition sendIngressControl :: "bool \<Rightarrow> gotime \<Rightarrow> control_target option \<Rightarrow> im_command \<Rightarrow> string \<Rightarrow> string \<Rightarrow> chord_process
    \<Rightarrow> chord_process \<times> control_error option" where
  "sendIngressControl written now target cmd requestID action p =
     (if \<not> ingressTargetMatches target cmd p then (p, Some TargetExpired)
      else if \<not> commandAllowed (ic_Type cmd) requestID action p then (p, Some (ControlError SessionTransferred))
      else case writeCommand written p of
        Some err \<Rightarrow> (p, Some (ControlError err))
      | None \<Rightarrow>
          (if ic_Type cmd \<in> {''confirm'', ''handoff''} then on_state (setAgentBusy True) p
           else if ic_Type cmd = ''local_shell'' then on_state (beginLocalShell now) p else p, None))"

text \<open>\<open>DispatchAccepted\<close> turns plain text that reached a control into the reason of a denial.\<close>

definition control_command :: "(string \<Rightarrow> duration option) \<Rightarrow> incoming_message \<Rightarrow> im_command" where
  "control_command pd m =
     (let cmd = commandForIncomingMessage pd m in
      if im_InternalAction m = None \<and> ic_Type cmd = ''send'' \<and> plain_text m
      then (command ''confirm'')\<lparr>ic_Action := ''deny'', ic_Reason := im_Text m\<rparr> else cmd)"

definition targetRequestID :: "control_target option \<Rightarrow> string" where
  "targetRequestID t = (case t of None \<Rightarrow> '''' | Some t \<Rightarrow> ct_RequestID t)"

section \<open>What is delivered is what was captured\<close>

definition named_question :: "im_command \<Rightarrow> control_state \<Rightarrow> question_payload option" where
  "named_question cmd s = (if ic_RequestID cmd = '''' then uniquePendingQuestion s else map_of (st_Questions s) (ic_RequestID cmd))"

text \<open>The decision a command is about is the same in both processes.\<close>

definition same_decision :: "im_command \<Rightarrow> chord_process \<Rightarrow> chord_process \<Rightarrow> bool" where
  "same_decision cmd p q \<longleftrightarrow>
     (ic_Type cmd = ''confirm'' \<longrightarrow> (\<exists>c d. st_PendingConfirm (px_state p) = Some c \<and> st_PendingConfirm (px_state q) = Some d
        \<and> cp_RequestID d = cp_RequestID c))
     \<and> (ic_Type cmd = ''handoff'' \<longrightarrow> (\<exists>h k. st_PendingHandoff (px_state p) = Some h \<and> st_PendingHandoff (px_state q) = Some k
        \<and> hp_RequestID k = hp_RequestID h))
     \<and> (ic_Type cmd = ''question'' \<longrightarrow> (\<exists>a b. named_question cmd (px_state p) = Some a
        \<and> map_of (st_Questions (px_state q)) (qp_RequestID a) = Some b \<and> qp_Version b = qp_Version a))
     \<and> (ic_Type cmd = ''cancel'' \<longrightarrow> st_Busy (px_state p) \<and> st_Busy (px_state q)
        \<and> unix_nano (st_TurnStartedAt (px_state q)) = unix_nano (st_TurnStartedAt (px_state p)))"

definition same_process :: "chord_process \<Rightarrow> chord_process \<Rightarrow> bool" where
  "same_process p q \<longleftrightarrow> px_runtimeID q = px_runtimeID p \<and> px_sessionEpoch q = px_sessionEpoch p
     \<and> (st_SessionID (px_state p) \<noteq> '''' \<longrightarrow> st_SessionID (px_state q) = st_SessionID (px_state p))
     \<and> (px_bindingInstanceID p \<noteq> '''' \<longrightarrow> px_bindingInstanceID q = px_bindingInstanceID p)"

lemma question_target:
  assumes "im_InternalAction m = None"
  shows "capture_question cmd m s t = (case named_question cmd s of
     Some q \<Rightarrow> t\<lparr>ct_RequestID := qp_RequestID q, ct_Version := qp_Version q\<rparr>
   | None \<Rightarrow> if ic_RequestID cmd = '''' then t\<lparr>ct_RequestID := ''''\<rparr>
       else t\<lparr>ct_RequestID := ic_RequestID cmd, ct_QuestionLookup := True\<rparr>)"
  using assms by (simp add: capture_question_def named_question_def Let_def split: option.split)

text \<open>The part of a target that every branch takes from the process.\<close>

definition target_base :: "control_target \<Rightarrow> string \<times> 64 word \<times> string \<times> string" where
  "target_base t = (ct_RuntimeID t, ct_SessionEpoch t, ct_SessionID t, ct_BindingInstanceID t)"

lemma target_base_simps [simp]:
  "target_base (t\<lparr>ct_RequestID := x\<rparr>) = target_base t" "target_base (t\<lparr>ct_Version := y\<rparr>) = target_base t"
  "target_base (t\<lparr>ct_QuestionLookup := b\<rparr>) = target_base t" "target_base (t\<lparr>ct_TurnID := y\<rparr>) = target_base t"
  "target_base (t\<lparr>ct_TransferID := x\<rparr>) = target_base t"
  "target_base (t\<lparr>ct_RequestID := x, ct_Version := y\<rparr>) = target_base t"
  by (simp_all add: target_base_def)

lemma target_base_if: "target_base (if c then a else b) = (if c then target_base a else target_base b)" by simp

lemma target_base_question: "target_base (capture_question cmd m s t) = target_base t"
  by (simp add: capture_question_def Let_def split: option.split)

lemma captured_base:
  assumes "capture_from_process cmd m kind transferID p = (k, Some t)"
  shows "target_base t = (px_runtimeID p, px_sessionEpoch p, st_SessionID (px_state p), px_bindingInstanceID p)"
proof -
  let ?t = "process_target cmd transferID p"
  have 1: "target_base ?t = (px_runtimeID p, px_sessionEpoch p, st_SessionID (px_state p), px_bindingInstanceID p)"
    by (simp add: process_target_def Let_def target_base_def split: option.split)
  consider "ic_Type cmd = ''confirm''" | "ic_Type cmd = ''question''" | "ic_Type cmd = ''handoff''" | "ic_Type cmd = ''cancel''"
    | "ic_Type cmd \<notin> {''confirm'', ''question'', ''handoff'', ''cancel''}" by blast
  then have "target_base t = target_base ?t"
  proof cases
    case 1
    with assms show ?thesis by (auto simp: capture_from_process_def Let_def split: if_splits)
  next
    case 2
    with assms show ?thesis by (auto simp: capture_from_process_def Let_def target_base_question split: if_splits)
  next
    case 3
    with assms show ?thesis by (cases "st_PendingHandoff (px_state p)") (auto simp: capture_from_process_def Let_def split: if_splits)
  next
    case 4
    with assms show ?thesis by (auto simp: capture_from_process_def Let_def split: if_splits)
  next
    case 5
    with assms show ?thesis by (auto simp: capture_from_process_def Let_def split: if_splits)
  qed
  with 1 show ?thesis by simp
qed

lemma process_target_blank [simp]:
  "ct_RequestID (process_target cmd transferID p) = ''''" "ct_TurnID (process_target cmd transferID p) = 0"
  by (simp_all add: process_target_def zero_target_def Let_def split: option.split)

lemma captured_task:
  assumes "capture_from_process cmd m ''task'' transferID p = (k, Some t)" and "ic_Type cmd = ''send''"
  shows "\<exists>c. st_PendingConfirm (px_state p) = Some c \<and> ct_RequestID t = cp_RequestID c"
  using assms by (auto simp: capture_from_process_def Let_def split: if_splits option.splits)

lemma captured_confirm:
  assumes "capture_from_process cmd m kind transferID p = (k, Some t)" and "ic_Type cmd = ''confirm''" and "ct_RequestID t \<noteq> ''''" and "kind \<noteq> ''task''"
  shows "\<exists>c. st_PendingConfirm (px_state p) = Some c \<and> ct_RequestID t = cp_RequestID c"
  using assms by (auto simp: capture_from_process_def zero_target_def Let_def split: if_splits option.splits)

lemma captured_handoff:
  assumes "capture_from_process cmd m kind transferID p = (k, Some t)" and "ic_Type cmd = ''handoff''" and "ct_RequestID t \<noteq> ''''" and "kind \<noteq> ''task''"
  shows "\<exists>h. st_PendingHandoff (px_state p) = Some h \<and> ct_RequestID t = hp_RequestID h"
  using assms by (auto simp: capture_from_process_def zero_target_def Let_def split: if_splits option.splits)

lemma captured_cancel:
  assumes "capture_from_process cmd m kind transferID p = (k, Some t)" and "ic_Type cmd = ''cancel''" and "ct_TurnID t \<noteq> 0" and "kind \<noteq> ''task''"
  shows "st_Busy (px_state p) \<and> ct_TurnID t = unix_nano (st_TurnStartedAt (px_state p))"
  using assms by (auto simp: capture_from_process_def zero_target_def Let_def split: if_splits option.splits)

lemma captured_question:
  assumes "capture_from_process cmd m kind transferID p = (k, Some t)" and "ic_Type cmd = ''question''" and "kind \<noteq> ''task''"
    and "im_InternalAction m = None" and "\<not> ct_QuestionLookup t" and "ct_RequestID t \<noteq> ''''"
  shows "\<exists>a. named_question cmd (px_state p) = Some a \<and> ct_RequestID t = qp_RequestID a \<and> ct_Version t = qp_Version a"
  using assms
  by (auto simp: capture_from_process_def question_target [OF assms(4)] zero_target_def Let_def split: if_splits option.splits)

text \<open>
  C11: A typed command never acts on something else than it was meant for: when it is written, the
  process, its session and its binding are the ones the message found, and the confirmation, the
  handoff, the question at its version or the turn it was about is still the pending one, however
  long the message waited. Text that answers a finished task denies that very confirmation.
\<close>

theorem control_hits_captured_target:
  assumes typed: "im_InternalAction m = None"
    and ws: "ResolveWorkspace (vw_config v) (im_IMType m) (im_ChatID m) = Inr ws"
    and p: "map_of (vw_procs v) (binding_key ws m) = Some p" "vw_manager v"
    and captured: "captureIngress pd v nonblocking locks m = (kind, Some t, True)"
    and nameless: "map_of (st_Questions (px_state q)) '''' = None"
    and sent: "sendIngressControl written now (Some t) (control_command pd m) requestID action q = (q1, None)"
  shows "same_process p q \<and> same_decision (control_command pd m) p q"
proof -
  let ?cmd = "commandForIncomingMessage pd m" and ?c = "control_command pd m"
  obtain transferID where cap: "capture_from_process ?cmd m (captured_kind ?cmd m) transferID p = (kind, Some t)"
    using captured p ws by (auto simp: captureIngress_def Let_def split: if_splits prod.splits)
  have match: "ingressTargetMatches (Some t) ?c q" using sent by (simp add: sendIngressControl_def split: if_splits)
  note base = captured_base [OF cap, unfolded target_base_def]
  have same: "same_process p q" using match base by (auto simp: ingressTargetMatches_def same_process_def Let_def split: if_splits)
  have "same_decision ?c p q"
  proof (cases "ic_Type ?cmd = ''send'' \<and> plain_text m")
    case True
    then have c: "ic_Type ?c = ''confirm''" and k: "captured_kind ?cmd m = ''task''"
      using typed by (simp_all add: control_command_def captured_kind_def Let_def)
    obtain pc where pc: "st_PendingConfirm (px_state p) = Some pc" "ct_RequestID t = cp_RequestID pc"
      using captured_task [OF cap [unfolded k]] True by blast
    with match c show ?thesis by (auto simp: ingressTargetMatches_def same_decision_def Let_def split: if_splits option.splits)
  next
    case False
    then have c: "?c = ?cmd" and k: "captured_kind ?cmd m \<noteq> ''task''"
      using typed by (auto simp: control_command_def captured_kind_def Let_def)
    note m = match [unfolded c ingressTargetMatches_def option.case Let_def]
    have "ic_Type ?cmd = ''confirm'' \<Longrightarrow> same_decision ?cmd p q"
      using m captured_confirm [OF cap _ _ k] by (auto simp: same_decision_def split: if_splits option.splits)
    moreover have "ic_Type ?cmd = ''handoff'' \<Longrightarrow> same_decision ?cmd p q"
      using m captured_handoff [OF cap _ _ k] by (auto simp: same_decision_def split: if_splits option.splits)
    moreover have "ic_Type ?cmd = ''cancel'' \<Longrightarrow> same_decision ?cmd p q"
      using m captured_cancel [OF cap _ _ k] by (auto simp: same_decision_def split: if_splits)
    moreover have "same_decision ?cmd p q" if qn: "ic_Type ?cmd = ''question''"
    proof -
      from m qn obtain b where b: "map_of (st_Questions (px_state q)) (ct_RequestID t) = Some b" "qp_Version b = ct_Version t" "\<not> ct_QuestionLookup t"
        by (auto split: if_splits option.splits)
      with nameless have "ct_RequestID t \<noteq> ''''" by auto
      with captured_question [OF cap qn k typed b(3)] b qn show ?thesis by (auto simp: same_decision_def)
    qed
    ultimately show ?thesis unfolding c by (auto simp: same_decision_def)
  qed
  with same show ?thesis by blast
qed

definition done_confirm :: confirm_payload where
  "done_confirm = \<lparr>cp_ToolName = ''Done'', cp_ArgsJSON = '''', cp_RequestID = ''r1'', cp_NeedsApproval = [], cp_DoneReport = ''finished'',
     cp_DoneReason = '''', cp_TimeoutMS = 0, cp_AlreadyAllowed = [], cp_AgentID = '''', cp_NeedsApprovalRules = [],
     cp_AlreadyAllowedRules = [], cp_NeedsApprovalRuleItems = [], cp_AlreadyAllowedRuleItems = []\<rparr>"

definition done_process :: chord_process where
  "done_process = on_state (\<lambda>s. s\<lparr>st_PendingConfirm := Some done_confirm\<rparr>) new_process"

definition done_workspace :: workspace where
  "done_workspace = \<lparr>ws_ID = ''ws'', ws_Path = ''/srv''\<rparr>"

definition done_view :: ingress_view where
  "done_view = \<lparr>vw_config = witness_config None, vw_manager = True,
     vw_procs = [(binding_key done_workspace (witness_message ''redo''), done_process)], vw_pins = None, vw_transfers = None\<rparr>"

definition no_locks :: busy_locks where
  "no_locks = \<lparr>bk_transfers = False, bk_procs = False, bk_pins = False, bk_process = False\<rparr>"

lemma done_command: "commandForIncomingMessage pd (witness_message ''redo'') = (command ''send'')\<lparr>ic_Content := ''redo''\<rparr>"
  by (simp add: commandForIncomingMessage_def witness_message_def parseIMCommand_def text_eval fullwidth_bang_def Let_def)

lemma done_plain: "plain_text (witness_message ''redo'')"
  by (simp add: plain_text_def witness_message_def text_eval)

lemma done_tool: "isDoneTool ''Done''"
  by (simp add: isDoneTool_def text_eval)

lemma done_captured:
  "captureIngress pd done_view True no_locks (witness_message ''redo'') = (''control'', Some ((process_target ((command ''send'')\<lparr>ic_Content := ''redo''\<rparr>) '''' done_process)
     \<lparr>ct_RequestID := ''r1''\<rparr>), True)"
proof -
  have ws: "ResolveWorkspace (witness_config None) ''slack'' ''C1'' = Inr done_workspace"
    by (simp add: ResolveWorkspace_def config_eval text_eval get_or_def done_workspace_def)
  have m: "im_IMType (witness_message ''redo'') = ''slack''" "im_ChatID (witness_message ''redo'') = ''C1''"
    "im_InternalAction (witness_message ''redo'') = None" by (simp_all add: witness_message_def)
  show ?thesis
    unfolding captureIngress_def Let_def done_command
    by (simp add: done_view_def no_locks_def ws m captured_kind_def done_plain captured_transfer_def capture_from_process_def
        done_process_def done_confirm_def done_tool Let_def)
qed

theorem control_hits_captured_target_witness:
  "same_process done_process done_process
   \<and> same_decision (control_command (\<lambda>_. None) (witness_message ''redo'')) done_process done_process"
proof -
  let ?t = "(process_target ((command ''send'')\<lparr>ic_Content := ''redo''\<rparr>) '''' done_process)\<lparr>ct_RequestID := ''r1''\<rparr>"
  have cmd: "control_command (\<lambda>_. None) (witness_message ''redo'') = (command ''confirm'')\<lparr>ic_Action := ''deny'', ic_Reason := ''redo''\<rparr>"
    unfolding control_command_def done_command Let_def by (simp add: done_plain) (simp add: witness_message_def)
  have ws: "ResolveWorkspace (vw_config done_view) (im_IMType (witness_message ''redo'')) (im_ChatID (witness_message ''redo'')) = Inr done_workspace"
    by (simp add: done_view_def witness_message_def ResolveWorkspace_def config_eval text_eval get_or_def done_workspace_def)
  have "\<exists>q1. sendIngressControl True 9 (Some ?t) (control_command (\<lambda>_. None) (witness_message ''redo'')) ''r1'' ''deny'' done_process = (q1, None)"
    unfolding cmd
    by (simp add: sendIngressControl_def ingressTargetMatches_def process_target_def zero_target_def done_process_def done_confirm_def
        new_process_def commandAllowed_def inputBlocked_def writeCommand_def Let_def)
  then obtain q1 where sent: "sendIngressControl True 9 (Some ?t) (control_command (\<lambda>_. None) (witness_message ''redo'')) ''r1'' ''deny'' done_process = (q1, None)" ..
  show ?thesis
    by (rule control_hits_captured_target [OF _ ws _ _ done_captured _ sent])
      (simp_all add: done_view_def witness_message_def done_process_def new_process_def zero_state_def)
qed

end
