(* ===== verification/IngressDispatch.thy ===== *)
theory IngressDispatch
  imports ControlTargets StoreReach
begin

text \<open>
  The service that works on what the store accepted, \<open>internal/gateway/im_ingress_dispatch.go\<close> with
  \<open>im_ingress_question_receipts.go\<close>: which record of a chat is next, when a task may be written to
  its process, how outcomes are recorded and how a chat is held. The store, the admission and the
  processes are the models of their theories. What other parts answer at one instant, or do while
  the lock of the chat is free, is a parameter: a look at the world, or a function of the service.
\<close>


section \<open>The service\<close>

record ingress_control =
  ig_message :: incoming_message
  ig_target :: "control_target option"

record ingress_service =
  sv_store :: ingress_store
  sv_prepared :: "string list"
  sv_controls :: "(string, ingress_control) gomap"
  sv_accepting :: "(chat_identity, int) gomap"
  sv_active :: "chat_identity list"
  sv_blocked :: "(chat_identity, gotime \<times> string) gomap"
  sv_slots :: nat
  sv_started :: bool
  sv_stopping :: bool
  sv_dead :: bool

definition ingressBlockedWindow :: duration where "ingressBlockedWindow = 30 * second"
definition ingressStallDeadline :: duration where "ingressStallDeadline = 5 * minute"
definition dispatchSlots :: nat where "dispatchSlots = 8"

definition Available :: "ingress_service \<Rightarrow> bool" where
  "Available v \<longleftrightarrow> sv_started v \<and> \<not> sv_dead v \<and> \<not> st_closing (sv_store v)"

definition observe_ingress :: "string \<Rightarrow> string \<Rightarrow> string \<Rightarrow> ingress_service \<Rightarrow> ingress_service" where
  "observe_ingress platform event reason v =
     v\<lparr>sv_store := (sv_store v)\<lparr>st_metrics := metrics_record platform event reason (st_metrics (sv_store v))\<rparr>\<rparr>"

definition blockRoute :: "gotime \<Rightarrow> chat_identity \<Rightarrow> string \<Rightarrow> ingress_service \<Rightarrow> ingress_service" where
  "blockRoute now i reason v =
     observe_ingress (Platform i) ''blocked'' reason (v\<lparr>sv_blocked := AList.update i (now, reason) (sv_blocked v)\<rparr>)"

text \<open>Reading the hold of a chat also ends it once its window has passed.\<close>

definition routeBlocked :: "gotime \<Rightarrow> chat_identity \<Rightarrow> ingress_service \<Rightarrow> ingress_service \<times> bool" where
  "routeBlocked now i v = (case map_of (sv_blocked v) i of
     None \<Rightarrow> (v, False)
   | Some (since, reason) \<Rightarrow>
       if ingressBlockedWindow \<le> time_sub now since then (v\<lparr>sv_blocked := AList.delete i (sv_blocked v)\<rparr>, False) else (v, True))"

text \<open>The state and the reason of a record.\<close>

definition mark_record :: "ingress_state \<Rightarrow> string \<Rightarrow> ingress_record \<Rightarrow> ingress_record" where
  "mark_record state reason r = ingress_record.ir_Reason_update (\<lambda>x. reason) (r\<lparr>ir_State := state\<rparr>)"

definition dropControl :: "string \<Rightarrow> ingress_service \<Rightarrow> ingress_service" where
  "dropControl x v = v\<lparr>sv_controls := AList.delete x (sv_controls v)\<rparr>"

text \<open>\<open>UpdateRecord\<close> of the store of the service.\<close>

definition update_record :: "ingress_env \<Rightarrow> string \<Rightarrow> ingress_state list \<Rightarrow> (ingress_record \<Rightarrow> string + ingress_record) \<Rightarrow> ingress_service
    \<Rightarrow> ingress_error option \<times> ingress_service" where
  "update_record e x allowed mutate v =
     (let (err, s) = UpdateRecord e x allowed mutate (sv_store v) in (err, v\<lparr>sv_store := s\<rparr>))"

definition settled :: "string \<Rightarrow> ingress_service \<Rightarrow> bool" where
  "settled x v \<longleftrightarrow> (case store_Get x (sv_store v) of Inl err \<Rightarrow> False | Inr r \<Rightarrow> Terminal r)"

definition finish :: "ingress_env \<Rightarrow> ingress_record \<Rightarrow> ingress_state \<Rightarrow> string \<Rightarrow> ingress_service \<Rightarrow> ingress_service" where
  "finish e r state reason v =
     (let v = dropControl (ir_RecordID r) v;
          (err, v) = update_record e (ir_RecordID r) [IngressReceived, IngressDispatching, IngressUnknown]
            (\<lambda>r. Inr (mark_record state reason r)) v in
      if err = None \<or> settled (ir_RecordID r) v then v else blockRoute (ie_now e) (Identity r) reason v)"

definition quarantineTask :: "ingress_env \<Rightarrow> ingress_record \<Rightarrow> string \<Rightarrow> ingress_service \<Rightarrow> ingress_service" where
  "quarantineTask e r reason v =
     snd (update_record e (ir_RecordID r) [IngressReceived] (\<lambda>r. Inr (mark_record IngressQuarantined reason r))
       (dropControl (ir_RecordID r) v))"

section \<open>Visiting a chat\<close>

text \<open>\<open>settleStalledRecords\<close>: a delivery without an outcome for five minutes is given up.\<close>

definition stalled :: "gotime \<Rightarrow> ingress_record \<Rightarrow> bool" where
  "stalled now r \<longleftrightarrow> (ir_State r = IngressDispatching \<or> ir_State r = IngressUnknown) \<and> \<not> time_sub now (ir_UpdatedAt r) < ingressStallDeadline"

definition settleStalledRecords :: "ingress_env \<Rightarrow> ingress_record list \<Rightarrow> ingress_service \<Rightarrow> ingress_service" where
  "settleStalledRecords e records v =
     fold (\<lambda>r v. if stalled (ie_now e) r then finish e r IngressExpired ''receipt_timeout'' v else v) records v"

definition in_flight_state :: "ingress_record \<Rightarrow> bool" where
  "in_flight_state r \<longleftrightarrow> ir_State r = IngressDispatching \<or> ir_State r = IngressUnknown"

definition quarantined_revisions :: "ingress_record list \<Rightarrow> string list" where
  "quarantined_revisions records = map ir_RouteRevision (filter (\<lambda>r. ir_State r = IngressQuarantined) records)"

definition ready_record :: "bool \<Rightarrow> ingress_record list \<Rightarrow> ingress_record \<Rightarrow> bool" where
  "ready_record held records r \<longleftrightarrow> ir_State r = IngressReceived
     \<and> \<not> (ir_Kind r = KindTask \<and> (list_ex in_flight_state records \<or> held \<or> ir_RouteRevision r \<in> set (quarantined_revisions records)))"

definition visitRoute :: "ingress_env \<Rightarrow> chat_identity \<Rightarrow> bool \<Rightarrow> ingress_service \<Rightarrow> ingress_service \<times> bool" where
  "visitRoute e i held v =
     (let records = ListRoutePendingMetadata i (sv_store v) in
      (settleStalledRecords e records v, list_ex (ready_record held records) records))"

text \<open>One chat in the loop of \<open>run\<close>: the flag says that its dispatch was started.\<close>

definition run_visit :: "ingress_env \<Rightarrow> chat_identity \<Rightarrow> ingress_service \<Rightarrow> ingress_service \<times> bool" where
  "run_visit e i v =
     (let eligible = compositeKey [Platform i, AccountID i] \<in> set (sv_prepared v) \<and> i \<notin> set (sv_active v);
          (v, held) = routeBlocked (ie_now e) i v in
      if \<not> eligible then (v, False)
      else let (v, ready) = visitRoute e i held v in
        if ready \<and> sv_slots v < dispatchSlots
        then (v\<lparr>sv_slots := sv_slots v + 1, sv_active := set_add i (sv_active v)\<rparr>, True) else (v, False))"

definition dispatch_done :: "chat_identity \<Rightarrow> ingress_service \<Rightarrow> ingress_service" where
  "dispatch_done i v = v\<lparr>sv_active := set_del i (sv_active v), sv_slots := sv_slots v - 1\<rparr>"

text \<open>Parameters of controls whose record is settled or gone are forgotten.\<close>

definition sweepControls :: "ingress_service \<Rightarrow> ingress_service" where
  "sweepControls v = fold (\<lambda>x v. case store_Get x (sv_store v) of
       Inr r \<Rightarrow> if \<not> Terminal r then v else dropControl x v
     | Inl err \<Rightarrow> dropControl x v) (map fst (sv_controls v)) v"

section \<open>Controls\<close>

definition help_text :: "incoming_message \<Rightarrow> bool" where
  "help_text m \<longleftrightarrow> \<not> im_ForceText m \<and> im_InternalAction m = None \<and> trim_space (im_Text m) = ''/help''"

definition urgent_control :: "(string \<Rightarrow> duration option) \<Rightarrow> ingress_control \<Rightarrow> bool" where
  "urgent_control pd c =
     (let cmd = commandForIncomingMessage pd (ig_message c) in
      ic_Type cmd \<in> {''status'', ''cancel'', ''confirm'', ''question'', ''handoff'', ''sessions'', ''todos''}
      \<or> help_text (ig_message c) \<or> ic_Type cmd = ''takeover'' \<and> ic_Action cmd = ''status'')"

definition urgent :: "(string \<Rightarrow> duration option) \<Rightarrow> (string, ingress_control) gomap \<Rightarrow> ingress_record \<Rightarrow> bool" where
  "urgent pd controls r = (case map_of controls (ir_RecordID r) of None \<Rightarrow> False
     | Some c \<Rightarrow> ir_State r = IngressReceived \<and> ir_Kind r = KindControl \<and> urgent_control pd c)"

text \<open>The loop of \<open>prioritizeControls\<close> with its three lists.\<close>

fun prioritize_loop :: "(ingress_record \<Rightarrow> bool) \<Rightarrow> ingress_record list \<Rightarrow> ingress_record list \<Rightarrow> ingress_record list \<Rightarrow> ingress_record list
    \<Rightarrow> ingress_record list" where
  "prioritize_loop u [] priority rest deferred = priority @ rest @ deferred"
| "prioritize_loop u (r # rs) priority rest deferred =
     (if u r then (if length priority < 4 then prioritize_loop u rs (priority @ [r]) rest deferred
                   else prioritize_loop u rs priority rest (deferred @ [r]))
      else prioritize_loop u rs priority (rest @ [r]) deferred)"

definition prioritizeControls :: "(string \<Rightarrow> duration option) \<Rightarrow> ingress_record list \<Rightarrow> ingress_service \<Rightarrow> ingress_record list" where
  "prioritizeControls pd records v = prioritize_loop (urgent pd (sv_controls v)) records [] [] []"

text \<open>A control that only asks.\<close>

definition is_query :: "(string \<Rightarrow> duration option) \<Rightarrow> ingress_control \<Rightarrow> bool" where
  "is_query pd c =
     (let cmd = commandForIncomingMessage pd (ig_message c) in
      ic_Type cmd \<in> {''status'', ''todos'', ''sessions''} \<or> ic_Type cmd = ''role'' \<and> trim_space (ic_Content cmd) = ''''
      \<or> help_text (ig_message c))"

text \<open>
  \<open>canRetryIngressQuestion\<close>: everything in flight is an earlier attempt at the same question, whose
  records the router names.
\<close>

definition canRetryIngressQuestion :: "gotime \<Rightarrow> (ingress_control \<Rightarrow> string list) \<Rightarrow> ingress_control \<Rightarrow> ingress_record list \<Rightarrow> ingress_service
    \<Rightarrow> ingress_service \<times> bool" where
  "canRetryIngressQuestion now retries c records v = (case im_ticket (ig_message c) of
     None \<Rightarrow> (v, False)
   | Some t \<Rightarrow>
       let (v, held) = routeBlocked now (at_Identity t) v; ids = retries c; flight = filter in_flight_state records in
       (v, \<not> held \<and> ids \<noteq> [] \<and> flight \<noteq> [] \<and> list_all (\<lambda>r. ir_Kind r = KindControl \<and> ir_RecordID r \<in> set ids) flight))"

definition currentIngressBlockers :: "gotime \<Rightarrow> chat_identity \<Rightarrow> ingress_service \<Rightarrow> ingress_service \<times> bool \<times> bool" where
  "currentIngressBlockers now i v =
     (let (v, held) = routeBlocked now i v; records = ListRoutePendingMetadata i (sv_store v) in
      (v, held \<or> list_ex in_flight_state records, held \<or> list_ex (\<lambda>r. ir_State r = IngressUnknown) records))"


section \<open>The loop of a chat\<close>

text \<open>
  \<open>dispatchRoute\<close>. The router carries out a control and may use the service and the store meanwhile:
  \<open>route\<close> is that call, with its outcome. The record returned is the task handed to \<open>dispatchTask\<close>.
\<close>

type_synonym control_call = "ingress_control \<Rightarrow> string \<Rightarrow> ingress_service \<Rightarrow> ingress_service \<times> ingress_state option \<times> string"

definition refused_while_unknown :: "(string \<Rightarrow> duration option) \<Rightarrow> ingress_control \<Rightarrow> bool" where
  "refused_while_unknown pd c =
     (let cmd = commandForIncomingMessage pd (ig_message c) in
      \<not> is_query pd c \<and> ic_Type cmd \<noteq> ''cancel'' \<and> ic_Type cmd \<noteq> ''bind'')"

text \<open>One control of the list; no blockers are the ones of before, no service is the early return.\<close>

definition dispatch_control :: "(string \<Rightarrow> duration option) \<Rightarrow> ingress_env \<Rightarrow> control_call \<Rightarrow> (ingress_control \<Rightarrow> string list)
    \<Rightarrow> chat_identity \<Rightarrow> ingress_record list \<Rightarrow> ingress_record \<Rightarrow> bool \<times> bool \<Rightarrow> ingress_service
    \<Rightarrow> ingress_service \<times> (bool \<times> bool) option" where
  "dispatch_control pd e route retries i records r flags v =
     (let control = map_of (sv_controls v) (ir_RecordID r);
          accepting = 0 < get_or 0 (sv_accepting v) i;
          v = dropControl (ir_RecordID r) v in
      case control of
        None \<Rightarrow> if accepting then (v, None) else (finish e r IngressExpired ''control_parameters_unavailable'' v, Some flags)
      | Some c \<Rightarrow>
          let (v, refused) = (if snd flags \<and> refused_while_unknown pd c
                then let (v, ok) = canRetryIngressQuestion (ie_now e) retries c records v in (v, \<not> ok) else (v, False)) in
          if refused then (finish e r IngressRejected ''route_outcome_unknown'' v, Some flags)
          else let (v, outcome, reason) = route c (ir_RecordID r) v;
                   v = (case outcome of None \<Rightarrow> v | Some state \<Rightarrow> finish e r state reason v);
                   (v, flags) = currentIngressBlockers (ie_now e) i v in (v, Some flags))"

fun route_loop :: "(string \<Rightarrow> duration option) \<Rightarrow> ingress_env \<Rightarrow> control_call \<Rightarrow> (ingress_control \<Rightarrow> string list)
    \<Rightarrow> chat_identity \<Rightarrow> ingress_record list \<Rightarrow> string list \<Rightarrow> ingress_record list \<Rightarrow> bool \<times> bool \<Rightarrow> ingress_service
    \<Rightarrow> ingress_service \<times> ingress_record option" where
  "route_loop pd e route retries i all quarantined [] flags v = (v, None)"
| "route_loop pd e route retries i all quarantined (r # rs) flags v =
     (if ir_State r \<noteq> IngressReceived then route_loop pd e route retries i all quarantined rs flags v
      else if ir_Kind r = KindControl then
        (case dispatch_control pd e route retries i all r flags v of
           (v, None) \<Rightarrow> (v, None)
         | (v, Some flags) \<Rightarrow> route_loop pd e route retries i all quarantined rs flags v)
      else if fst flags \<or> ir_RouteRevision r \<in> set quarantined then route_loop pd e route retries i all quarantined rs flags v
      else (v, Some r))"

definition dispatchRoute :: "(string \<Rightarrow> duration option) \<Rightarrow> ingress_env \<Rightarrow> control_call \<Rightarrow> (ingress_control \<Rightarrow> string list)
    \<Rightarrow> chat_identity \<Rightarrow> ingress_service \<Rightarrow> ingress_service \<times> ingress_record option" where
  "dispatchRoute pd e route retries i v =
     (let records = ListRoutePendingMetadata i (sv_store v);
          (v, held) = routeBlocked (ie_now e) i v;
          flags = (held \<or> list_ex in_flight_state records, held \<or> list_ex (\<lambda>r. ir_State r = IngressUnknown) records);
          quarantined = quarantined_revisions records;
          records = prioritizeControls pd records v in
      route_loop pd e route retries i records quarantined records flags v)"

text \<open>A receipt of the process: an outcome for a delivery already settled or gone adds none.\<close>

definition commitInputReceipt :: "ingress_env \<Rightarrow> string \<Rightarrow> ingress_state \<Rightarrow> string \<Rightarrow> ingress_service \<Rightarrow> ingress_service \<times> ingress_error option" where
  "commitInputReceipt e x state status v =
     (let (err, v) = update_record e x [IngressDispatching, IngressUnknown]
            (\<lambda>r. Inr (r\<lparr>ir_State := state, ir_ReceiptStatus := status\<rparr>)) v in
      if err = Some ErrIngressMissing \<or> err = Some ErrIngressBlocked then (v, None) else (v, err))"

definition receipt_outcome :: "string \<Rightarrow> ingress_state" where
  "receipt_outcome status = (if status \<in> {''handled'', ''queued'', ''started''} then IngressConsumed
     else if status = ''rejected'' then IngressRejected else IngressUnknown)"

section \<open>What the operations keep of the store\<close>

text \<open>Updates of a record that is not settled are steps of the store.\<close>

definition keeps_core :: "(ingress_record \<Rightarrow> string + ingress_record) \<Rightarrow> bool" where
  "keeps_core mutate \<longleftrightarrow> (\<forall>r r1. mutate r = Inr r1 \<longrightarrow>
     ir_RecordID r1 = ir_RecordID r \<and> Identity r1 = Identity r \<and> ir_BusinessID r1 = ir_BusinessID r
     \<and> ir_SemanticID r1 = ir_SemanticID r \<and> ir_Sequence r1 = ir_Sequence r)"

definition open_states :: "ingress_state list" where
  "open_states = [IngressReceived, IngressDispatching, IngressUnknown]"

lemma open_not_Terminal: "ir_State r \<in> set open_states \<Longrightarrow> \<not> Terminal r"
  by (auto simp: open_states_def Terminal_def)

lemma update_step:
  assumes "set allowed \<subseteq> set open_states" and "keeps_core mutate"
  shows "ingress_step s (snd (UpdateRecord e x allowed mutate s))"
proof -
  let ?m = "\<lambda>r. if Terminal r then Inr r else mutate r"
  have "mutation_ok ?m" using assms(2) by (auto simp: mutation_ok_def keeps_core_def split: if_splits)
  moreover have "UpdateRecord e x allowed mutate s = UpdateRecord e x allowed ?m s"
  proof (cases "map_of (st_records s) x")
    case (Some r)
    have "\<not> Terminal (cloneIngressRecord r)" if "ir_State r \<in> set allowed"
      using assms(1) that by (intro open_not_Terminal) (auto simp: cloneIngressRecord_def)
    with Some show ?thesis by (simp add: UpdateRecord_def split: option.split)
  qed (simp add: UpdateRecord_def split: option.split)
  ultimately show ?thesis using step_Update [of ?m s e x allowed] by simp
qed

lemma keeps_core_mark [simp]: "keeps_core (\<lambda>r. Inr (mark_record state reason r))"
  by (simp add: keeps_core_def mark_record_def Identity_def)

definition service_inv :: "ingress_service \<Rightarrow> bool" where
  "service_inv v \<longleftrightarrow> store_inv (sv_store v)"

text \<open>What an update does, and when.\<close>

lemma UpdateRecord_cases [case_names Error Updated]:
  obtains (Error) err where "UpdateRecord e x allowed mutate s = (Some err, s)"
  | (Updated) r r1 t where "map_of (st_records s) x = Some r" and "ir_State r \<in> set allowed" and "mutate r = Inr r1"
      and "UpdateRecord e x allowed mutate s = (None, t)" and "st_routes t = st_routes s" and "st_closing t = st_closing s"
      and "st_records t = AList.update (ir_RecordID r1) (stored_form (ie_jsonTime e) (r1\<lparr>ir_UpdatedAt := ie_now e\<rparr>) (-1)) (st_records s)"
proof (cases "store_lock e s")
  case None
  show ?thesis
  proof (cases "map_of (st_records s) x")
    case (Some r)
    show ?thesis
    proof (cases "ir_State r \<in> set allowed")
      case True
      show ?thesis
      proof (cases "mutate r")
        case (Inl err)
        with None Some True have "UpdateRecord e x allowed mutate s = (Some (ErrMutate err), s)" by (simp add: UpdateRecord_def)
        then show ?thesis by (rule that(1))
      next
        case (Inr r1)
        let ?t = "snd (UpdateRecord e x allowed mutate s)"
        have "UpdateRecord e x allowed mutate s = (None, ?t)" using None Some True Inr by (simp add: UpdateRecord_def Let_def)
        moreover have "st_routes ?t = st_routes s" "st_closing ?t = st_closing s"
            "st_records ?t = AList.update (ir_RecordID r1) (stored_form (ie_jsonTime e) (r1\<lparr>ir_UpdatedAt := ie_now e\<rparr>) (-1)) (st_records s)"
          using None Some True Inr by (simp_all add: UpdateRecord_def Let_def signal_def ObserveStateTransition_def save_records)
        ultimately show ?thesis using that(2) [OF Some True Inr] by blast
      qed
    qed (use None Some that(1) in \<open>simp add: UpdateRecord_def\<close>)
  qed (use None that(1) in \<open>simp add: UpdateRecord_def\<close>)
qed (use that(1) in \<open>simp add: UpdateRecord_def\<close>)

lemma update_record_store [simp]:
  "sv_store (snd (update_record e x allowed mutate v)) = snd (UpdateRecord e x allowed mutate (sv_store v))"
  "fst (update_record e x allowed mutate v) = fst (UpdateRecord e x allowed mutate (sv_store v))"
  by (simp_all add: update_record_def Let_def case_prod_beta)

lemma update_record_inv:
  assumes "service_inv v" and "set allowed \<subseteq> set open_states" and "keeps_core mutate"
  shows "service_inv (snd (update_record e x allowed mutate v))"
  using step_store_inv [OF update_step [OF assms(2,3)]] assms(1) by (simp add: service_inv_def)

lemma sv_frame [simp]:
  "sv_store (dropControl x v) = sv_store v" "sv_store (fst (routeBlocked now i v)) = sv_store v"
  "sv_store (v\<lparr>sv_blocked := b\<rparr>) = sv_store v"
  by (simp_all add: dropControl_def routeBlocked_def split: option.split prod.split)

lemma blockRoute_records [simp]: "st_records (sv_store (blockRoute now i reason v)) = st_records (sv_store v)"
  by (simp add: blockRoute_def observe_ingress_def)

lemma blockRoute_inv: "service_inv v \<Longrightarrow> service_inv (blockRoute now i reason v)"
proof -
  assume inv: "service_inv v"
  then have "metrics_ok (st_metrics (sv_store v))" by (simp add: service_inv_def store_inv_def)
  with inv show ?thesis by (simp add: service_inv_def blockRoute_def observe_ingress_def store_inv_metrics metrics_ok_record)
qed

lemma service_inv_store: "service_inv v \<Longrightarrow> sv_store u = sv_store v \<Longrightarrow> service_inv u"
  by (simp add: service_inv_def)

definition finish_update :: "ingress_env \<Rightarrow> ingress_record \<Rightarrow> ingress_state \<Rightarrow> string \<Rightarrow> ingress_service \<Rightarrow> ingress_service" where
  "finish_update e r state reason v =
     snd (update_record e (ir_RecordID r) open_states (\<lambda>r. Inr (mark_record state reason r)) (dropControl (ir_RecordID r) v))"

lemma finish_as_update:
  "finish e r state reason v = finish_update e r state reason v
   \<or> finish e r state reason v = blockRoute (ie_now e) (Identity r) reason (finish_update e r state reason v)"
  by (simp add: finish_def finish_update_def open_states_def Let_def case_prod_beta)

lemma finish_inv: "service_inv v \<Longrightarrow> service_inv (finish e r state reason v)"
proof -
  assume "service_inv v"
  then have "service_inv (finish_update e r state reason v)"
    unfolding finish_update_def by (intro update_record_inv) (simp_all add: service_inv_def)
  with finish_as_update [of e r state reason v] show ?thesis by (auto simp: blockRoute_inv)
qed

definition flight :: "chat_identity \<Rightarrow> ingress_service \<Rightarrow> bool" where
  "flight i v \<longleftrightarrow> (\<exists>x r. map_of (st_records (sv_store v)) x = Some r \<and> Identity r = i \<and> in_flight_state r)"

lemma listed:
  assumes "service_inv v"
  shows "q \<in> set (ListRoutePendingMetadata i (sv_store v)) \<longleftrightarrow>
    (\<exists>x r. map_of (st_records (sv_store v)) x = Some r \<and> \<not> Terminal r \<and> Identity r = i \<and> q = (cloneIngressRecord r)\<lparr>ir_Text := ''''\<rparr>)"
proof -
  let ?s = "sv_store v"
  have look: "set (get_or [] (st_pendingByRoute ?s) i) = {x. \<exists>r. map_of (st_records ?s) x = Some r \<and> \<not> Terminal r \<and> Identity r = i}"
    using assms by (auto simp: service_inv_def store_inv_def routes_inv_def indexed_by_def index_look_def)
  let ?got = "get_or zero_record (st_records ?s)"
  have "q \<in> set (ListRoutePendingMetadata i ?s) \<longleftrightarrow> (\<exists>x\<in>set (get_or [] (st_pendingByRoute ?s) i).
      Identity (?got x) = i \<and> \<not> Terminal (?got x) \<and> q = (?got x)\<lparr>ir_Text := ''''\<rparr>)"
    unfolding ListRoutePendingMetadata_def store_list_def Let_def prod.case bool.case option.case set_sort set_map set_filter
      cloneIngressRecord_id if_True by auto
  also have "\<dots> \<longleftrightarrow> (\<exists>x r. map_of (st_records ?s) x = Some r \<and> \<not> Terminal r \<and> Identity r = i \<and> q = r\<lparr>ir_Text := ''''\<rparr>)"
  proof
    assume "\<exists>x\<in>set (get_or [] (st_pendingByRoute ?s) i). Identity (?got x) = i \<and> \<not> Terminal (?got x) \<and> q = (?got x)\<lparr>ir_Text := ''''\<rparr>"
    then obtain x r where "map_of (st_records ?s) x = Some r" "Identity (?got x) = i" "\<not> Terminal (?got x)" "q = (?got x)\<lparr>ir_Text := ''''\<rparr>"
      unfolding look by blast
    then show "\<exists>x r. map_of (st_records ?s) x = Some r \<and> \<not> Terminal r \<and> Identity r = i \<and> q = r\<lparr>ir_Text := ''''\<rparr>"
      by (intro exI [of _ x] exI [of _ r]) (simp add: get_or_def)
  next
    assume "\<exists>x r. map_of (st_records ?s) x = Some r \<and> \<not> Terminal r \<and> Identity r = i \<and> q = r\<lparr>ir_Text := ''''\<rparr>"
    then obtain x r where r: "map_of (st_records ?s) x = Some r" "\<not> Terminal r" "Identity r = i" "q = r\<lparr>ir_Text := ''''\<rparr>" by blast
    then have "x \<in> set (get_or [] (st_pendingByRoute ?s) i)" unfolding look by blast
    with r show "\<exists>x\<in>set (get_or [] (st_pendingByRoute ?s) i). Identity (?got x) = i \<and> \<not> Terminal (?got x) \<and> q = (?got x)\<lparr>ir_Text := ''''\<rparr>"
      by (intro bexI [of _ x]) (simp_all add: get_or_def)
  qed
  finally show ?thesis by simp
qed

lemma in_flight_open: "in_flight_state r \<Longrightarrow> \<not> Terminal r"
  by (auto simp: in_flight_state_def Terminal_def)

lemma flight_listed:
  assumes "service_inv v"
  shows "list_ex in_flight_state (ListRoutePendingMetadata i (sv_store v)) \<longleftrightarrow> flight i v"
proof -
  let ?l = "ListRoutePendingMetadata i (sv_store v)"
  have same: "in_flight_state (r\<lparr>ir_Text := ''''\<rparr>) = in_flight_state r" for r by (simp add: in_flight_state_def)
  show ?thesis
  proof
    assume "list_ex in_flight_state ?l"
    then obtain q where "q \<in> set ?l" "in_flight_state q" by (auto simp: list_ex_iff)
    then show "flight i v" unfolding listed [OF assms] flight_def cloneIngressRecord_id using same by blast
  next
    assume "flight i v"
    then obtain x r where "map_of (st_records (sv_store v)) x = Some r" "Identity r = i" "in_flight_state r" by (auto simp: flight_def)
    then have "r\<lparr>ir_Text := ''''\<rparr> \<in> set ?l \<and> in_flight_state (r\<lparr>ir_Text := ''''\<rparr>)"
      unfolding listed [OF assms] cloneIngressRecord_id same using in_flight_open by blast
    then show "list_ex in_flight_state ?l" by (auto simp: list_ex_iff)
  qed
qed

lemma flight_store: "sv_store u = sv_store v \<Longrightarrow> flight i u = flight i v"
  by (simp add: flight_def)

text \<open>Recording an outcome puts nothing in flight.\<close>

lemma flight_finish:
  assumes "\<not> in_flight_state (mark_record state reason zero_record)" and "flight i (finish e r state reason v)" and "service_inv v"
  shows "flight i v"
proof -
  let ?u = "finish_update e r state reason v"
  have "st_records (sv_store (finish e r state reason v)) = st_records (sv_store ?u)"
    using finish_as_update [of e r state reason v] by auto
  with assms(2) obtain x q where q: "map_of (st_records (sv_store ?u)) x = Some q" "Identity q = i" "in_flight_state q"
    by (auto simp: flight_def)
  show ?thesis
  proof (cases rule: UpdateRecord_cases [of e "ir_RecordID r" open_states "\<lambda>r. Inr (mark_record state reason r)" "sv_store v"])
    case (Error err)
    with q show ?thesis by (auto simp: finish_update_def flight_def)
  next
    case (Updated r0 r1 t)
    then have eq: "st_records (sv_store ?u) = AList.update (ir_RecordID r1)
        (stored_form (ie_jsonTime e) (r1\<lparr>ir_UpdatedAt := ie_now e\<rparr>) (-1)) (st_records (sv_store v))"
      by (simp add: finish_update_def)
    have "\<not> in_flight_state (stored_form (ie_jsonTime e) (r1\<lparr>ir_UpdatedAt := ie_now e\<rparr>) (-1))"
      using assms(1) Updated(3) by (auto simp: in_flight_state_def mark_record_def)
    then have "x \<noteq> ir_RecordID r1" using q eq by (auto simp: update_conv')
    with q eq have "map_of (st_records (sv_store v)) x = Some q" by (simp add: update_conv')
    with q show ?thesis by (auto simp: flight_def)
  qed
qed

section \<open>A task waits until nothing of its chat is in flight\<close>

lemma canRetry_store [simp]: "sv_store (fst (canRetryIngressQuestion now retries c records v)) = sv_store v"
  by (simp add: canRetryIngressQuestion_def Let_def case_prod_beta split: option.split)

lemma blockers_store [simp]: "sv_store (fst (currentIngressBlockers now i v)) = sv_store v"
  by (simp add: currentIngressBlockers_def Let_def case_prod_beta)

lemma blockers_flight:
  assumes "service_inv v" and "\<not> fst (snd (currentIngressBlockers now i v))"
  shows "\<not> flight i v"
  using assms by (simp add: currentIngressBlockers_def Let_def case_prod_beta flight_listed)

definition route_keeps :: "control_call \<Rightarrow> bool" where
  "route_keeps route \<longleftrightarrow> (\<forall>c x v. service_inv v \<longrightarrow> service_inv (fst (route c x v)))"

definition loop_inv :: "chat_identity \<Rightarrow> bool \<times> bool \<Rightarrow> ingress_service \<Rightarrow> bool" where
  "loop_inv i flags v \<longleftrightarrow> service_inv v \<and> (\<not> fst flags \<longrightarrow> \<not> flight i v)"

lemma loop_inv_store: "loop_inv i flags v \<Longrightarrow> sv_store u = sv_store v \<Longrightarrow> loop_inv i flags u"
  by (simp add: loop_inv_def service_inv_def flight_def)

lemma loop_inv_finish:
  assumes "loop_inv i flags v" and "\<not> in_flight_state (mark_record state reason zero_record)"
  shows "loop_inv i flags (finish e r state reason v)"
  using assms flight_finish [OF assms(2)] finish_inv by (auto simp: loop_inv_def)

lemma settles: "\<not> in_flight_state (mark_record IngressExpired reason r)" "\<not> in_flight_state (mark_record IngressRejected reason r)"
  by (simp_all add: in_flight_state_def mark_record_def)

lemma dispatch_control_inv:
  assumes "loop_inv i flags v" and "route_keeps route"
    and step: "dispatch_control pd e route retries i records r flags v = (v', Some flags')"
  shows "loop_inv i flags' v'"
proof -
  let ?v = "dropControl (ir_RecordID r) v"
  have inv: "loop_inv i flags ?v" using assms(1) by (rule loop_inv_store) simp
  show ?thesis
  proof (cases "map_of (sv_controls v) (ir_RecordID r)")
    case None
    with step have "v' = finish e r IngressExpired ''control_parameters_unavailable'' ?v" "flags' = flags"
      by (auto simp: dispatch_control_def Let_def split: if_splits)
    with loop_inv_finish [OF inv settles(1)] show ?thesis by simp
  next
    case (Some c)
    define w where "w = (if snd flags \<and> refused_while_unknown pd c
      then let (v, ok) = canRetryIngressQuestion (ie_now e) retries c records ?v in (v, \<not> ok) else (?v, False))"
    have "sv_store (fst w) = sv_store ?v" by (simp add: w_def Let_def case_prod_beta)
    then have inv1: "loop_inv i flags (fst w)" by (rule loop_inv_store [OF inv])
    show ?thesis
    proof (cases "snd w")
      case True
      with Some step have "v' = finish e r IngressRejected ''route_outcome_unknown'' (fst w)" "flags' = flags"
        by (auto simp: dispatch_control_def Let_def w_def [symmetric] case_prod_beta)
      with loop_inv_finish [OF inv1 settles(2)] show ?thesis by simp
    next
      case False
      define u where "u = (case fst (snd (route c (ir_RecordID r) (fst w))) of None \<Rightarrow> fst (route c (ir_RecordID r) (fst w))
        | Some state \<Rightarrow> finish e r state (snd (snd (route c (ir_RecordID r) (fst w)))) (fst (route c (ir_RecordID r) (fst w))))"
      have "service_inv (fst (route c (ir_RecordID r) (fst w)))"
        using assms(2) inv1 by (simp add: route_keeps_def loop_inv_def)
      then have u: "service_inv u" by (simp add: u_def finish_inv split: option.split)
      from Some step False have "v' = fst (currentIngressBlockers (ie_now e) i u)" "flags' = snd (currentIngressBlockers (ie_now e) i u)"
        by (simp_all add: dispatch_control_def Let_def w_def [symmetric] case_prod_beta u_def)
      then show ?thesis
        using u blockers_flight [OF u] by (simp add: loop_inv_def service_inv_def flight_def)
    qed
  qed
qed

lemma route_loop_inv:
  assumes "route_keeps route" and "loop_inv i flags v"
    and "route_loop pd e route retries i all quarantined rs flags v = (v', Some r)"
  shows "service_inv v' \<and> \<not> flight i v' \<and> r \<in> set rs \<and> ir_State r = IngressReceived \<and> ir_Kind r \<noteq> KindControl
    \<and> ir_RouteRevision r \<notin> set quarantined"
  using assms(2,3)
proof (induction rs arbitrary: flags v)
  case (Cons q rs)
  show ?case
  proof (cases "ir_State q = IngressReceived \<and> ir_Kind q = KindControl")
    case True
    with Cons.prems(2) obtain v1 flags1 where step: "dispatch_control pd e route retries i all q flags v = (v1, Some flags1)"
      and rest: "route_loop pd e route retries i all quarantined rs flags1 v1 = (v', Some r)"
      by (auto split: prod.splits option.splits)
    from Cons.IH [OF dispatch_control_inv [OF Cons.prems(1) assms(1) step] rest] show ?thesis by simp
  next
    case False
    with Cons show ?thesis by (auto simp: loop_inv_def split: if_splits)
  qed
qed simp

lemma dispatchRoute_loop:
  assumes "dispatchRoute pd e route retries i v = z" and "service_inv v"
  obtains flags u where "loop_inv i flags u" and "sv_controls u = sv_controls v"
    and "route_loop pd e route retries i (prioritizeControls pd (ListRoutePendingMetadata i (sv_store v)) v)
      (quarantined_revisions (ListRoutePendingMetadata i (sv_store v)))
      (prioritizeControls pd (ListRoutePendingMetadata i (sv_store v)) v) flags u = z"
proof -
  let ?l = "ListRoutePendingMetadata i (sv_store v)"
  let ?u = "fst (routeBlocked (ie_now e) i v)" and ?held = "snd (routeBlocked (ie_now e) i v)"
  let ?flags = "(?held \<or> list_ex in_flight_state ?l, ?held \<or> list_ex (\<lambda>r. ir_State r = IngressUnknown) ?l)"
  have controls: "sv_controls ?u = sv_controls v" by (simp add: routeBlocked_def split: option.split prod.split)
  have "loop_inv i ?flags ?u" using assms(2) by (auto simp: loop_inv_def flight_listed service_inv_def flight_def)
  moreover have "prioritizeControls pd ?l ?u = prioritizeControls pd ?l v" by (simp add: prioritizeControls_def controls)
  ultimately show ?thesis using that [of ?flags ?u] assms(1) controls
    by (simp add: dispatchRoute_def Let_def case_prod_beta)
qed

section \<open>The order of a chat\<close>

lemma prioritize_loop_eq:
  "prioritize_loop u rs priority rest deferred = priority @ take (4 - length priority) (filter u rs)
     @ rest @ filter (Not \<circ> u) rs @ deferred @ drop (4 - length priority) (filter u rs)"
  by (induction rs arbitrary: priority rest deferred) (auto simp: Suc_diff_Suc numeral_eq_Suc Suc_diff_le take_Cons' drop_Cons')

text \<open>
  What the loop picks: a task before it that is not for a revision set aside was passed over because
  something was in flight then, and only a control that was carried out after it changes that.
\<close>

definition live_control :: "ingress_record \<Rightarrow> bool" where
  "live_control r \<longleftrightarrow> ir_State r = IngressReceived \<and> ir_Kind r = KindControl"

definition live_task :: "ingress_record \<Rightarrow> bool" where
  "live_task r \<longleftrightarrow> ir_State r = IngressReceived \<and> ir_Kind r \<noteq> KindControl"

definition passed_over :: "string list \<Rightarrow> ingress_record list \<Rightarrow> bool" where
  "passed_over quarantined pre \<longleftrightarrow> (\<forall>pre1 q mid. pre = pre1 @ q # mid \<longrightarrow> live_task q \<longrightarrow> (\<forall>c\<in>set mid. \<not> live_control c)
     \<longrightarrow> ir_RouteRevision q \<in> set quarantined)"

lemma passed_over_Cons:
  assumes "passed_over quarantined pre"
    and "live_task q \<Longrightarrow> \<forall>c\<in>set pre. \<not> live_control c \<Longrightarrow> ir_RouteRevision q \<in> set quarantined"
  shows "passed_over quarantined (q # pre)"
  using assms unfolding passed_over_def by (auto simp: Cons_eq_append_conv)

lemma route_loop_order:
  assumes "route_loop pd e route retries i all quarantined rs flags v = (v', Some r)"
  shows "\<exists>pre post. rs = pre @ r # post \<and> live_task r \<and> passed_over quarantined pre \<and> (fst flags \<longrightarrow> (\<exists>c\<in>set pre. live_control c))"
  using assms
proof (induction rs arbitrary: flags v)
  case (Cons q rs)
  show ?case
  proof (cases "live_control q")
    case True
    with Cons.prems obtain v1 flags1 where "route_loop pd e route retries i all quarantined rs flags1 v1 = (v', Some r)"
      by (auto simp: live_control_def split: prod.splits option.splits)
    from Cons.IH [OF this] obtain pre post where ih: "rs = pre @ r # post" "passed_over quarantined pre"
      and live: "live_task r" by blast
    have "\<not> live_task q" using True by (simp add: live_task_def live_control_def)
    then have "passed_over quarantined (q # pre)" using passed_over_Cons [OF ih(2), of q] by blast
    with ih(1) live True show ?thesis by (intro exI [of _ "q # pre"] exI [of _ post]) simp
  next
    case False
    show ?thesis
    proof (cases "live_task q \<and> \<not> fst flags \<and> ir_RouteRevision q \<notin> set quarantined")
      case True
      with Cons.prems have "q = r" by (simp add: live_task_def)
      with True show ?thesis by (intro exI [of _ "[]"] exI [of _ rs]) (simp add: passed_over_def)
    next
      case skip: False
      with False Cons.prems have rest: "route_loop pd e route retries i all quarantined rs flags v = (v', Some r)"
        by (auto simp: live_control_def live_task_def split: if_splits)
      from Cons.IH [OF rest] obtain pre post where ih: "rs = pre @ r # post" "passed_over quarantined pre"
        and live: "live_task r" and ex: "fst flags \<longrightarrow> (\<exists>c\<in>set pre. live_control c)" by blast
      have "passed_over quarantined (q # pre)" using passed_over_Cons [OF ih(2), of q] ex skip by blast
      with ih live ex show ?thesis by (intro exI [of _ "q # pre"] exI [of _ post]) simp
    qed
  qed
qed simp

text \<open>An element between lists of elements that it is not.\<close>

lemma middle_split:
  assumes "pre @ r # post = A @ N @ D" and "r \<notin> set A" and "r \<notin> set D"
  obtains us ws where "pre = A @ us" and "N = us @ r # ws"
proof -
  from append_eq_append_conv2 [THEN iffD1, OF assms(1)] obtain us where
    "pre = A @ us \<and> us @ r # post = N @ D \<or> pre @ us = A \<and> r # post = us @ N @ D" by blast
  then have pre: "\<exists>us. pre = A @ us \<and> us @ r # post = N @ D"
  proof (elim disjE conjE)
    assume a: "pre @ us = A" "r # post = us @ N @ D"
    then have "us = []" using assms(2) by (cases us) auto
    with a show ?thesis by (intro exI [of _ "[]"]) simp
  qed blast
  then obtain us where us: "pre = A @ us" "us @ r # post = N @ D" by blast
  from append_eq_append_conv2 [THEN iffD1, OF us(2)] obtain ws where
    "us = N @ ws \<and> ws @ r # post = D \<or> us @ ws = N \<and> r # post = ws @ D" by blast
  then show ?thesis
  proof (elim disjE conjE)
    assume "ws @ r # post = D"
    then have "r \<in> set D" by auto
    with assms(3) show ?thesis by blast
  next
    assume a: "us @ ws = N" "r # post = ws @ D"
    show ?thesis
    proof (cases ws)
      case Nil
      with a assms(3) have False by auto
      then show ?thesis ..
    next
      case (Cons w ws')
      with a have "N = us @ r # ws'" by simp
      with us(1) show ?thesis by (rule that)
    qed
  qed
qed

lemma listing_sorted:
  "sorted (map ir_Sequence (filter P (ListRoutePendingMetadata i s)))" (is "sorted (map _ (filter P ?l))")
proof -
  have sub: "set ?l \<subseteq> {r. Identity r = i}"
    unfolding ListRoutePendingMetadata_def store_list_def Let_def set_sort by (auto simp: Identity_def)
  have ord: "ir_Sequence x \<le> ir_Sequence y" if "x \<in> set ?l" "y \<in> set ?l" "(Identity x, ir_Sequence x) \<le> (Identity y, ir_Sequence y)" for x y
  proof -
    have "Identity x = Identity y" using sub that(1,2) by auto
    with that(3) show ?thesis by simp
  qed
  have "sorted (map (\<lambda>r. (Identity r, ir_Sequence r)) ?l)"
    unfolding ListRoutePendingMetadata_def store_list_def Let_def by (rule sorted_sort_key)
  then have "sorted_wrt (\<lambda>a b. (Identity a, ir_Sequence a) \<le> (Identity b, ir_Sequence b)) ?l" by (simp only: sorted_map)
  then have "sorted_wrt (\<lambda>a b. ir_Sequence a \<le> ir_Sequence b) ?l"
    by (rule sorted_wrt_mono_rel [rotated]) (rule ord)
  then show ?thesis by (simp add: sorted_map sorted_wrt_filter)
qed

end
