(* ===== verification/TaskDelivery.thy ===== *)
theory TaskDelivery
  imports IngressDispatch
begin

text \<open>
  Writing one task to its process: \<open>dispatchTask\<close> with \<open>reauthorizeRecord\<close> of
  \<open>internal/gateway/im_ingress_dispatch.go\<close>, \<open>ingressRouteIdentity\<close> of \<open>im_ingress_routes.go\<close>,
  \<open>waitIngressReadyPin\<close> of \<open>router_ingress.go\<close> and \<open>im_ingress_readiness.go\<close>. A look is what one
  step reads of the world at its instant; the steps are those between which the code lets others in.
\<close>

section \<open>A look at the world\<close>

text \<open>
  \<open>lk_ready\<close> is the answer of an adapter that knows about readiness, \<open>lk_canon\<close> the canonical form of
  a directory, \<open>lk_current\<close> the processes of the manager by their keys, as places in \<open>lk_heap\<close>, where a
  process that the manager has replaced stays.
\<close>

record look =
  lk_env :: ingress_env
  lk_view :: config_view
  lk_admission :: admission
  lk_pins :: "pin_store option"
  lk_transfers :: "transfer_store option"
  lk_ready :: "(bool \<times> string) option"
  lk_canon :: "string \<Rightarrow> string option"
  lk_current :: "(string, nat) gomap"
  lk_heap :: "chord_process list"

abbreviation lk_now :: "look \<Rightarrow> gotime" where "lk_now lk \<equiv> ie_now (lk_env lk)"

definition waiting_reasons :: "string list" where
  "waiting_reasons = [''reply_context_missing'', ''account_unavailable'', ''platform_not_ready'']"

definition checkIngressDeliveryReadiness :: "(bool \<times> string) option \<Rightarrow> bool \<times> string" where
  "checkIngressDeliveryReadiness provider = (case provider of
     None \<Rightarrow> (True, '''')
   | Some (ready, reason) \<Rightarrow>
       if ready then (True, '''') else if reason \<in> set waiting_reasons then (False, reason)
       else (False, ''delivery_condition_unavailable''))"

definition ingressDeliveryExpired :: "gotime \<Rightarrow> gotime \<Rightarrow> bool" where
  "ingressDeliveryExpired received now \<longleftrightarrow> received = 0 \<or> \<not> now < received + 24 * hour"

text \<open>The ticket is still valid; a ticket without a gate, on which \<open>Valid\<close> would panic, is not.\<close>

definition ticket_valid :: "look \<Rightarrow> admission_ticket \<Rightarrow> bool" where
  "ticket_valid lk t \<longleftrightarrow> Valid (lk_view lk) (lk_now lk) t (lk_admission lk) = Some True"

definition deliverable :: "look \<Rightarrow> admission_ticket \<Rightarrow> bool" where
  "deliverable lk t \<longleftrightarrow> ticket_valid lk t \<and> fst (checkIngressDeliveryReadiness (lk_ready lk))"

definition chat_key :: "string \<Rightarrow> chat_identity \<Rightarrow> string" where
  "chat_key workspace i = key_String \<lparr>pk_workspaceID = workspace, pk_imType = Platform i, pk_chatID = ChatID i\<rparr>"

text \<open>\<open>ingressRouteIdentity\<close>: digest, workspace and session; \<open>dg\<close> is the hash of the encoded fields.\<close>

definition ingressRouteIdentity :: "(string list \<Rightarrow> string) \<Rightarrow> look \<Rightarrow> chat_identity \<Rightarrow> (string \<times> string \<times> string) option" where
  "ingressRouteIdentity dg lk i =
     (case IMConfigByType (cv_config (lk_view lk)) (Platform i) of None \<Rightarrow> None
      | Some ad \<Rightarrow> (case OwnerIdentity ad of None \<Rightarrow> None
        | Some ow \<Rightarrow>
            if ow_AccountID ow \<noteq> AccountID i then None
            else case ResolveWorkspace (cv_config (lk_view lk)) (Platform i) (ChatID i) of Inl err \<Rightarrow> None
            | Inr ws \<Rightarrow> (case lk_canon lk (ws_Path ws) of None \<Rightarrow> None
              | Some path \<Rightarrow> Some (dg [Platform i, AccountID i, ow_UserID ow, ChatID i, ws_ID ws, path], ws_ID ws,
                  case lk_pins lk of None \<Rightarrow> '''' | Some s \<Rightarrow> pins_Get (chat_key (ws_ID ws) i) s))))"

section \<open>Authorization again\<close>

definition record_ticket :: "ingress_record \<Rightarrow> 64 word \<Rightarrow> 64 word \<Rightarrow> admission_ticket" where
  "record_ticket r epoch generation =
     zero_ticket\<lparr>at_Kind := ''paired_task'', at_Identity := Identity r, at_SenderID := ir_SenderID r, at_AccountEpoch := epoch,
       at_BindingGeneration := generation, at_ReceivedAt := ir_ReceivedAt r, at_Gate := Some (Identity r)\<rparr>"

definition reauthorizeRecord :: "config_view \<Rightarrow> gotime \<Rightarrow> ingress_record \<Rightarrow> admission \<Rightarrow> admission \<times> admission_result" where
  "reauthorizeRecord cv now r a =
     (let result = (\<lambda>d. \<lparr>ar_Ticket = zero_ticket, ar_Disposition = d, ar_Reason = ''''\<rparr>) in
      case IMConfigByType (cv_config cv) (ir_Platform r) of None \<Rightarrow> (a, result AdmissionRejected)
      | Some ad \<Rightarrow> (case OwnerIdentity ad of None \<Rightarrow> (a, result AdmissionRejected)
        | Some ow \<Rightarrow>
            if ow_AccountID ow \<noteq> ir_AccountID r \<or> ow_UserID ow \<noteq> ir_SenderID r
               \<or> get_or '''' (adapter_Bindings ad) (ir_ChatID r) \<noteq> ir_WorkspaceID r
            then (a, result AdmissionRejected)
            else case map_of (ps_platforms (adm_pairing a)) (ir_Platform r) of None \<Rightarrow> (a, result AdmissionUnavailable)
            | Some s \<Rightarrow>
                if pp_changed s \<or> pp_account s \<noteq> ir_AccountID r then (a, result AdmissionUnavailable)
                else (case admission_gate (Identity r) (ir_WorkspaceID r) (pp_epoch s) a of
                  (a, None) \<Rightarrow> (a, result AdmissionUnavailable)
                | (a, Some g) \<Rightarrow>
                    let (lease, generation, phase) = Snapshot g; t = record_ticket r (pp_epoch s) generation in
                    if Valid cv now t a \<noteq> Some True then (a, result AdmissionRejected)
                    else (a, (result AdmissionAllowed)\<lparr>ar_Ticket := t\<rparr>))))"

section \<open>The steps of a delivery\<close>

text \<open>What the steps before the wait found and the steps after it compare with.\<close>

record task_job =
  jb_record :: ingress_record
  jb_ticket :: admission_ticket
  jb_digest :: string
  jb_workspace :: string
  jb_process :: nat

abbreviation job_key :: "task_job \<Rightarrow> string" where "job_key j \<equiv> chat_key (jb_workspace j) (Identity (jb_record j))"

definition task_authorize :: "look \<Rightarrow> string \<Rightarrow> ingress_service \<Rightarrow> admission \<times> ingress_service \<times> (ingress_record \<times> admission_ticket) option" where
  "task_authorize lk x v =
     (if \<not> Available v then (lk_admission lk, v, None)
      else case store_Get x (sv_store v) of Inl err \<Rightarrow> (lk_admission lk, v, None)
      | Inr r \<Rightarrow>
          if ir_Kind r \<noteq> KindTask \<or> ir_State r \<noteq> IngressReceived then (lk_admission lk, v, None)
          else let (a, res) = reauthorizeRecord (lk_view lk) (lk_now lk) r (lk_admission lk) in
            if ar_Disposition res = AdmissionAllowed then (a, v, Some (r, ar_Ticket res))
            else if ar_Disposition res = AdmissionRejected then (a, quarantineTask (lk_env lk) r ''authorization_changed'' v, None)
            else if ingressDeliveryExpired (ir_ReceivedAt r) (lk_now lk) then (a, quarantineTask (lk_env lk) r ''received_expired'' v, None)
            else (a, v, None))"

definition route_unchanged :: "ingress_record \<Rightarrow> (string \<times> string \<times> string) option \<Rightarrow> ingress_error + ingress_route \<Rightarrow> bool" where
  "route_unchanged r ident route \<longleftrightarrow> (case (ident, route) of
     (Some (digest, workspace, session), Inr rt) \<Rightarrow>
       rt_Phase rt = RouteActive \<and> rt_Revision rt = ir_RouteRevision r \<and> digest = ir_AuthorizationDigest r
       \<and> workspace = ir_WorkspaceID r \<and> (ir_SessionID r \<noteq> '''' \<longrightarrow> session = ir_SessionID r)
   | z \<Rightarrow> False)"

text \<open>
  With the lock of the chat; no job is a return. \<open>spawned\<close> is the process that the manager finds or starts for
  the chat, which it may not be able to.
\<close>

definition task_route :: "(string list \<Rightarrow> string) \<Rightarrow> look \<Rightarrow> nat option \<Rightarrow> ingress_record \<Rightarrow> admission_ticket \<Rightarrow> ingress_service
    \<Rightarrow> ingress_service \<times> task_job option" where
  "task_route dg lk spawned r t v =
     (let ident = ingressRouteIdentity dg lk (Identity r); aside = (\<lambda>reason. (quarantineTask (lk_env lk) r reason v, None)) in
      if \<not> ticket_valid lk t then (v, None)
      else if \<not> route_unchanged r ident (GetRoute (Identity r) (sv_store v)) then aside ''route_identity_changed''
      else if ingressDeliveryExpired (ir_ReceivedAt r) (lk_now lk) then aside ''received_expired''
      else if \<not> fst (checkIngressDeliveryReadiness (lk_ready lk)) then (v, None)
      else case ident of None \<Rightarrow> (v, None) | Some (digest, workspace, session) \<Rightarrow>
        if Blocked (chat_key workspace (Identity r)) (lk_transfers lk) then aside ''transfer_guard''
        else case spawned of None \<Rightarrow> aside ''session_restore_failed''
        | Some n \<Rightarrow> (v, Some \<lparr>jb_record = r, jb_ticket = t, jb_digest = digest, jb_workspace = workspace, jb_process = n\<rparr>))"

text \<open>
  \<open>waitIngressReadyPin\<close> over what its polls see until the deadline: the process announced the session
  that is pinned to the chat, and the expected one if the record has one.
\<close>

definition ready_pin :: "string \<Rightarrow> string \<Rightarrow> nat \<Rightarrow> look \<Rightarrow> bool" where
  "ready_pin key expected n lk \<longleftrightarrow> (let identity = InputReceiptIdentity (lk_heap lk ! n) in
     pr_SessionID identity \<noteq> '''' \<and> pr_RuntimeID identity \<noteq> '''' \<and> (expected = '''' \<or> pr_SessionID identity = expected)
     \<and> (case lk_pins lk of None \<Rightarrow> False | Some pins \<Rightarrow> pins_Get key pins = pr_SessionID identity))"

fun waitIngressReadyPin :: "string \<Rightarrow> string \<Rightarrow> nat \<Rightarrow> look list \<Rightarrow> process_input_receipt option" where
  "waitIngressReadyPin key expected n [] = None"
| "waitIngressReadyPin key expected n (lk # polls) =
     (if ready_pin key expected n lk then Some (InputReceiptIdentity (lk_heap lk ! n)) else waitIngressReadyPin key expected n polls)"

text \<open>A process that has no session in time sets the task aside.\<close>

definition task_wait :: "ingress_env \<Rightarrow> task_job \<Rightarrow> look list \<Rightarrow> ingress_service
    \<Rightarrow> ingress_service \<times> process_input_receipt option" where
  "task_wait e j polls v =
     (case waitIngressReadyPin (job_key j) (ir_SessionID (jb_record j)) (jb_process j) polls of
       None \<Rightarrow> (quarantineTask e (jb_record j) ''session_ready_pin_unconfirmed'' v, None)
     | Some identity \<Rightarrow> (v, Some identity))"

definition job_current :: "(string list \<Rightarrow> string) \<Rightarrow> look \<Rightarrow> task_job \<Rightarrow> process_input_receipt \<Rightarrow> ingress_service \<Rightarrow> bool" where
  "job_current dg lk j identity v \<longleftrightarrow>
     (let r = jb_record j in
      (case store_Get (ir_RecordID r) (sv_store v) of Inl err \<Rightarrow> False | Inr q \<Rightarrow> ir_State q = IngressReceived)
      \<and> (case GetRoute (Identity r) (sv_store v) of Inl err \<Rightarrow> False
         | Inr rt \<Rightarrow> rt_Phase rt = RouteActive \<and> rt_Revision rt = ir_RouteRevision r)
      \<and> ingressRouteIdentity dg lk (Identity r) = Some (jb_digest j, jb_workspace j, pr_SessionID identity)
      \<and> map_of (lk_current lk) (job_key j) = Some (jb_process j) \<and> \<not> Blocked (job_key j) (lk_transfers lk))"

definition done_pending :: "chord_process \<Rightarrow> bool" where
  "done_pending p \<longleftrightarrow> (case st_PendingConfirm (px_state p) of None \<Rightarrow> False | Some c \<Rightarrow> isDoneTool (cp_ToolName c))"

text \<open>With the lock again: everything is compared once more, and a new session is bound to the route.\<close>

definition task_check :: "(string list \<Rightarrow> string) \<Rightarrow> look \<Rightarrow> task_job \<Rightarrow> process_input_receipt \<Rightarrow> ingress_service
    \<Rightarrow> ingress_service \<times> bool" where
  "task_check dg lk j identity v =
     (let r = jb_record j; aside = (\<lambda>reason v. (quarantineTask (lk_env lk) r reason v, False)) in
      if \<not> job_current dg lk j identity v then aside ''route_identity_changed'' v
      else if ingressDeliveryExpired (ir_ReceivedAt r) (lk_now lk) then aside ''received_expired'' v
      else if \<not> deliverable lk (jb_ticket j) then (v, False)
      else let (err, v) = (if ir_SessionID r = ''''
            then (let (err, s) = BindRouteSession (lk_env lk) (Identity r) (ir_RouteRevision r) (pr_SessionID identity) (sv_store v)
                  in (err, v\<lparr>sv_store := s\<rparr>))
            else (None, v)) in
        if err \<noteq> None then aside ''session_pin_persistence_failed'' v
        else if done_pending (lk_heap lk ! jb_process j) then aside ''new_done_confirmation'' v
        else (v, True))"

definition request_id :: "task_job \<Rightarrow> string" where
  "request_id j = ''im-'' @ ir_RecordID (jb_record j)"

definition task_mark :: "look \<Rightarrow> task_job \<Rightarrow> process_input_receipt \<Rightarrow> ingress_service \<Rightarrow> ingress_service \<times> bool" where
  "task_mark lk j identity v =
     (let (err, v) = update_record (lk_env lk) (ir_RecordID (jb_record j)) [IngressReceived] (\<lambda>r.
            if \<not> deliverable lk (jb_ticket j) then Inl ''transport_identity_changed''
            else Inr (r\<lparr>ir_State := IngressDispatching, ir_SessionID := pr_SessionID identity, ir_RequestID := request_id j,
                   ir_DispatchRuntimeID := pr_RuntimeID identity, ir_DispatchSessionEpoch := pr_SessionEpoch identity\<rparr>)) v in
      (v, err = None))"

text \<open>The write; the flag says that it returned without an error.\<close>

definition task_send :: "look \<Rightarrow> bool \<Rightarrow> task_job \<Rightarrow> process_input_receipt \<Rightarrow> ingress_service
    \<Rightarrow> ingress_service \<times> chord_process \<times> bool" where
  "task_send lk written j identity v =
     (let r = jb_record j; p = lk_heap lk ! jb_process j in
      if \<not> deliverable lk (jb_ticket j)
      then (snd (update_record (lk_env lk) (ir_RecordID r) [IngressDispatching] (\<lambda>r. Inr (r\<lparr>ir_State := IngressReceived\<rparr>)) v), p, False)
      else case ObserveInputReceipt (request_id j) (Some identity) p of
        (p, Some err) \<Rightarrow> (finish (lk_env lk) r IngressUnknown ''observer_registration_failed'' v, p, False)
      | (p, None) \<Rightarrow>
          (case SendUserMessageWithRequestID written (request_id j) p of
             (p, Some err) \<Rightarrow> (finish (lk_env lk) r IngressUnknown ''stdin_outcome_unknown'' v, p, False)
           | (p, None) \<Rightarrow> (v, p, True)))"

text \<open>
  The whole of \<open>dispatchTask\<close>. The looks are what each step reads, \<open>dw_polls\<close> what the wait for the session sees,
  and \<open>dw_others\<close> what the rest of the program does to the service before each step: the lock of the chat is
  free during the wait, and the store has a lock of its own. The result names the task that was written and its
  process after the write.
\<close>

record dispatch_world =
  dw_look :: "nat \<Rightarrow> look"
  dw_polls :: "look list"
  dw_spawned :: "nat option"
  dw_written :: bool
  dw_others :: "nat \<Rightarrow> ingress_service \<Rightarrow> ingress_service"

definition task_deliver :: "(string list \<Rightarrow> string) \<Rightarrow> dispatch_world \<Rightarrow> task_job \<Rightarrow> process_input_receipt \<Rightarrow> ingress_service
    \<Rightarrow> ingress_service \<times> (task_job \<times> process_input_receipt \<times> chord_process) option" where
  "task_deliver dg w j identity v =
     (let (v, ok) = task_check dg (dw_look w 3) j identity v in
      if \<not> ok then (v, None)
      else let (v, ok) = task_mark (dw_look w 4) j identity (dw_others w 4 v) in
        if \<not> ok then (v, None)
        else let (v, p, ok) = task_send (dw_look w 5) (dw_written w) j identity (dw_others w 5 v) in
          (v, if ok then Some (j, identity, p) else None))"

definition dispatchTask :: "(string list \<Rightarrow> string) \<Rightarrow> dispatch_world \<Rightarrow> string \<Rightarrow> ingress_service
    \<Rightarrow> ingress_service \<times> (task_job \<times> process_input_receipt \<times> chord_process) option" where
  "dispatchTask dg w x v =
     (case task_authorize (dw_look w 0) x v of
        (a, v, None) \<Rightarrow> (v, None)
      | (a, v, Some (r, t)) \<Rightarrow>
          (case task_route dg (dw_look w 1) (dw_spawned w) r t (dw_others w 1 v) of
             (v, None) \<Rightarrow> (v, None)
           | (v, Some j) \<Rightarrow>
               (case task_wait (lk_env (dw_look w 2)) j (dw_polls w) (dw_others w 2 v) of
                  (v, None) \<Rightarrow> (v, None)
                | (v, Some identity) \<Rightarrow> task_deliver dg w j identity (dw_others w 3 v))))"

section \<open>What a written task went through\<close>

definition receipt_of :: "process_input_receipt \<Rightarrow> chord_process \<Rightarrow> bool" where
  "receipt_of identity q \<longleftrightarrow> pr_RuntimeID identity = px_runtimeID q \<and> pr_SessionID identity = st_SessionID (px_state q)
     \<and> pr_SessionEpoch identity = px_sessionEpoch q"

text \<open>The record of a task that is being written.\<close>

definition dispatched_as :: "process_input_receipt \<Rightarrow> task_job \<Rightarrow> ingress_record \<Rightarrow> bool" where
  "dispatched_as identity j r \<longleftrightarrow> ir_State r = IngressDispatching \<and> ir_SessionID r = pr_SessionID identity \<and> ir_RequestID r = request_id j
     \<and> ir_DispatchRuntimeID r = pr_RuntimeID identity \<and> ir_DispatchSessionEpoch r = pr_SessionEpoch identity"

lemma task_check_ok:
  assumes "task_check dg lk j identity v = (v1, True)"
  shows "job_current dg lk j identity v \<and> \<not> ingressDeliveryExpired (ir_ReceivedAt (jb_record j)) (lk_now lk)
    \<and> deliverable lk (jb_ticket j) \<and> \<not> done_pending (lk_heap lk ! jb_process j)"
    and "v1 = v \<or> v1 = v\<lparr>sv_store := snd (BindRouteSession (lk_env lk) (Identity (jb_record j)) (ir_RouteRevision (jb_record j))
      (pr_SessionID identity) (sv_store v))\<rparr>"
  using assms by (auto simp: task_check_def Let_def case_prod_beta split: if_splits)

lemma task_check_inv:
  assumes "task_check dg lk j identity v = (v1, True)" and "service_inv v"
  shows "service_inv v1"
  using task_check_ok(2) [OF assms(1)] assms(2) by (auto simp: service_inv_def store_inv_BindRouteSession)

lemma task_mark_ok:
  assumes "task_mark lk j identity v = (v1, True)" and "service_inv v"
  shows "deliverable lk (jb_ticket j)
    \<and> (\<exists>r. map_of (st_records (sv_store v1)) (ir_RecordID (jb_record j)) = Some r \<and> dispatched_as identity j r)"
proof -
  let ?x = "ir_RecordID (jb_record j)"
  define m where "m = (\<lambda>r::ingress_record. if \<not> deliverable lk (jb_ticket j) then Inl ''transport_identity_changed''
      else Inr (r\<lparr>ir_State := IngressDispatching, ir_SessionID := pr_SessionID identity, ir_RequestID := request_id j,
             ir_DispatchRuntimeID := pr_RuntimeID identity, ir_DispatchSessionEpoch := pr_SessionEpoch identity\<rparr>))"
  have eq: "fst (UpdateRecord (lk_env lk) ?x [IngressReceived] m (sv_store v)) = None"
    "sv_store v1 = snd (UpdateRecord (lk_env lk) ?x [IngressReceived] m (sv_store v))"
    using assms(1) by (auto simp: task_mark_def Let_def case_prod_beta m_def [symmetric])
  show ?thesis
  proof (cases rule: UpdateRecord_cases [of "lk_env lk" ?x "[IngressReceived]" m "sv_store v"])
    case (Updated r r1 t)
    have id: "ir_RecordID r = ?x" using Updated(1) assms(2) by (simp add: service_inv_def store_inv_def records_inv_def)
    from Updated(3) have d: "deliverable lk (jb_ticket j)" by (simp add: m_def split: if_splits)
    with Updated(3) have r1: "r1 = r\<lparr>ir_State := IngressDispatching, ir_SessionID := pr_SessionID identity, ir_RequestID := request_id j,
             ir_DispatchRuntimeID := pr_RuntimeID identity, ir_DispatchSessionEpoch := pr_SessionEpoch identity\<rparr>" by (simp add: m_def)
    have "map_of (st_records (sv_store v1)) ?x = Some (stored_form (ie_jsonTime (lk_env lk)) (r1\<lparr>ir_UpdatedAt := lk_now lk\<rparr>) (-1))"
      using eq(2) Updated(4,7) id r1 by (simp add: update_conv')
    moreover have "dispatched_as identity j (stored_form (ie_jsonTime (lk_env lk)) (r1\<lparr>ir_UpdatedAt := lk_now lk\<rparr>) (-1))"
      by (simp add: dispatched_as_def r1 stored_form_def Let_def)
    ultimately show ?thesis using d by blast
  qed (use eq(1) in simp)
qed

lemma observed_ok:
  assumes "ObserveInputReceipt x (Some identity) q = (q1, None)"
  shows "receipt_of identity q" and "\<exists>ob. map_of (px_inputObservers q1) x = Some ob" and "px_state q1 = px_state q"
  using assms by (auto simp: ObserveInputReceipt_def InputReceiptIdentity_def receipt_of_def Let_def put_observer_def update_conv' split: if_splits)

lemma sent_ok:
  assumes "SendUserMessageWithRequestID written x q = (q1, None)"
  shows "x \<in> set (px_pendingInputs q1)" and "\<not> inputBlocked q" and "map_of (px_inputObservers q) x \<noteq> None \<Longrightarrow> \<not> done_pending q"
  using assms by (auto simp: SendUserMessageWithRequestID_def done_pending_def Let_def split: if_splits option.splits)

lemma task_send_ok:
  assumes "task_send lk written j identity v = (v1, q1, True)"
  shows "v1 = v \<and> deliverable lk (jb_ticket j) \<and> receipt_of identity (lk_heap lk ! jb_process j)
    \<and> \<not> done_pending (lk_heap lk ! jb_process j) \<and> request_id j \<in> set (px_pendingInputs q1)"
proof -
  let ?q = "lk_heap lk ! jb_process j"
  obtain q2 where obs: "ObserveInputReceipt (request_id j) (Some identity) ?q = (q2, None)"
    and send: "SendUserMessageWithRequestID written (request_id j) q2 = (q1, None)"
    and rest: "v1 = v" "deliverable lk (jb_ticket j)"
    using assms by (auto simp: task_send_def Let_def split: if_splits prod.splits option.splits)
  have "\<not> done_pending q2" using sent_ok(3) [OF send] observed_ok(2) [OF obs] by auto
  then have "\<not> done_pending ?q" using observed_ok(3) [OF obs] by (simp add: done_pending_def)
  with rest observed_ok(1) [OF obs] sent_ok(1) [OF send] show ?thesis by blast
qed

text \<open>On whose authority a task is taken up: the owner of the account sent it, and the chat is bound to its workspace.\<close>

definition owner_bound :: "look \<Rightarrow> ingress_record \<Rightarrow> bool" where
  "owner_bound lk r \<longleftrightarrow> (\<exists>ad ow. IMConfigByType (cv_config (lk_view lk)) (ir_Platform r) = Some ad \<and> OwnerIdentity ad = Some ow
     \<and> ow_AccountID ow = ir_AccountID r \<and> ow_UserID ow = ir_SenderID r
     \<and> get_or '''' (adapter_Bindings ad) (ir_ChatID r) = ir_WorkspaceID r)"

lemma task_authorize_ok:
  assumes "task_authorize lk x v = (a, v1, Some (r, t))" and "service_inv v"
  shows "v1 = v \<and> map_of (st_records (sv_store v)) x = Some r \<and> ir_RecordID r = x \<and> ir_Kind r = KindTask \<and> ir_State r = IngressReceived
    \<and> owner_bound lk r \<and> (\<exists>epoch generation. t = record_ticket r epoch generation)"
proof -
  have r: "map_of (st_records (sv_store v)) x = Some r" "v1 = v" "ir_Kind r = KindTask" "ir_State r = IngressReceived"
    and res: "ar_Disposition (snd (reauthorizeRecord (lk_view lk) (lk_now lk) r (lk_admission lk))) = AdmissionAllowed"
      "t = ar_Ticket (snd (reauthorizeRecord (lk_view lk) (lk_now lk) r (lk_admission lk)))"
    using assms(1)
    by (auto simp: task_authorize_def store_Get_def cloneIngressRecord_id case_prod_beta Let_def split: option.splits if_splits)
  have "ir_RecordID r = x" using r(1) assms(2) by (simp add: service_inv_def store_inv_def records_inv_def)
  with r res show ?thesis
    by (auto simp: reauthorizeRecord_def owner_bound_def Let_def case_prod_beta split: option.splits if_splits prod.splits)
qed

text \<open>
  What a look and the store say of a record's route: it is active at the revision the record names, the identity
  behind it is the one the record was accepted under, and neither age nor a transfer stands in the way.
\<close>

definition route_stands :: "(string list \<Rightarrow> string) \<Rightarrow> look \<Rightarrow> ingress_service \<Rightarrow> ingress_record \<Rightarrow> string \<Rightarrow> bool" where
  "route_stands dg lk v r session \<longleftrightarrow>
     (\<exists>rt. map_of (st_routes (sv_store v)) (Identity r) = Some rt \<and> rt_Phase rt = RouteActive \<and> rt_Revision rt = ir_RouteRevision r)
     \<and> ingressRouteIdentity dg lk (Identity r) = Some (ir_AuthorizationDigest r, ir_WorkspaceID r, session)
     \<and> (ir_SessionID r \<noteq> '''' \<longrightarrow> session = ir_SessionID r)
     \<and> lk_now lk < ir_ReceivedAt r + 24 * hour \<and> \<not> Blocked (chat_key (ir_WorkspaceID r) (Identity r)) (lk_transfers lk)"

lemma task_route_ok:
  assumes "task_route dg lk spawned r t v = (v1, Some j)"
  shows "v1 = v \<and> deliverable lk t \<and> (\<exists>session. route_stands dg lk v r session)
    \<and> (\<exists>n. spawned = Some n \<and> j = \<lparr>jb_record = r, jb_ticket = t, jb_digest = ir_AuthorizationDigest r, jb_workspace = ir_WorkspaceID r,
        jb_process = n\<rparr>)"
  using assms
  by (auto simp: task_route_def route_unchanged_def route_stands_def deliverable_def ingressDeliveryExpired_def GetRoute_def Let_def
      split: if_splits option.splits sum.splits)

lemma waited_pin:
  "waitIngressReadyPin key expected n polls = Some identity \<Longrightarrow>
    \<exists>lk\<in>set polls. ready_pin key expected n lk \<and> identity = InputReceiptIdentity (lk_heap lk ! n)"
  by (induction polls) (auto split: if_splits)

lemma task_wait_ok:
  assumes "task_wait e j polls v = (v1, Some identity)"
  shows "v1 = v \<and> (\<exists>lk\<in>set polls. ready_pin (job_key j) (ir_SessionID (jb_record j)) (jb_process j) lk
    \<and> identity = InputReceiptIdentity (lk_heap lk ! jb_process j))"
  using assms waited_pin by (auto simp: task_wait_def split: option.splits)

text \<open>A dispatch that wrote its task, step by step.\<close>

lemma dispatchTask_written:
  assumes "dispatchTask dg w x v = (v', Some (j, identity, q))"
  obtains a r t v2 v3 v4 v5 where "task_authorize (dw_look w 0) x v = (a, v2, Some (r, t))"
    and "task_route dg (dw_look w 1) (dw_spawned w) r t (dw_others w 1 v2) = (v3, Some j)"
    and "task_wait (lk_env (dw_look w 2)) j (dw_polls w) (dw_others w 2 v3) = (v4, Some identity)"
    and "task_check dg (dw_look w 3) j identity (dw_others w 3 v4) = (v5, True)"
    and "\<exists>v6. task_mark (dw_look w 4) j identity (dw_others w 4 v5) = (v6, True)
      \<and> task_send (dw_look w 5) (dw_written w) j identity (dw_others w 5 v6) = (v', q, True)"
  using assms by (auto simp: dispatchTask_def task_deliver_def Let_def split: prod.splits option.splits if_splits)

end
