(* ===== verification/OrderExample.thy ===== *)
theory OrderExample
  imports TaskDelivery StoreProps
begin

text \<open>
  An example of a busy chat: a task that was written to the process, a second task behind it, a control that
  waits its turn, and a third task; and the receipt of the first task that arrives while the control is
  carried out.
\<close>

section \<open>Four inputs\<close>

definition ex_stored2 :: ingress_record where
  "ex_stored2 = (ex_record ''m2'' KindTask ''r1-rev'')\<lparr>ir_RecordID := ''B'', ir_RequestID := ''im-B'',
     ir_ReceivedAt := ex_time, ir_UpdatedAt := ex_time, ir_State := IngressReceived, ir_Sequence := 2\<rparr>"

definition ex_stored3 :: ingress_record where
  "ex_stored3 = (ex_record ''m3'' KindControl '''')\<lparr>ir_RecordID := ''C'', ir_RequestID := ''im-C'',
     ir_ReceivedAt := ex_time, ir_UpdatedAt := ex_time, ir_State := IngressReceived, ir_Sequence := 3, ir_Text := ''''\<rparr>"

definition ex_stored4 :: ingress_record where
  "ex_stored4 = (ex_record ''m4'' KindTask ''r1-rev'')\<lparr>ir_RecordID := ''D'', ir_RequestID := ''im-D'',
     ir_ReceivedAt := ex_time, ir_UpdatedAt := ex_time, ir_State := IngressReceived, ir_Sequence := 4\<rparr>"

lemmas ex_stored_defs = ex_stored1_def ex_stored2_def ex_stored3_def ex_stored4_def

lemma ex_size2: "recordSize (\<lambda>t. Some ''2026-01-01T00:00:00Z'') ex_stored2 = 449"
  by (simp add: ex_stored2_def store_eval recordSize_def json_record_def json_eval)

lemma ex_size3: "recordSize (\<lambda>t. Some ''2026-01-01T00:00:00Z'') ex_stored3 = 434"
  by (simp add: ex_stored3_def store_eval recordSize_def json_record_def json_eval)

lemma ex_size4: "recordSize (\<lambda>t. Some ''2026-01-01T00:00:00Z'') ex_stored4 = 449"
  by (simp add: ex_stored4_def store_eval recordSize_def json_record_def json_eval)

definition ex_queue2 :: ingress_store where
  "ex_queue2 = snd (acceptRecord (ex_env ''B'' ex_time) (ex_record ''m2'' KindTask ''r1-rev'') None False ex_store2)"

lemma ex_queue2_eval: "ex_queue2 = ex_store1\<lparr>st_memoryBytes := 898,
   st_metrics := [((MetricPlatform ''slack'', ''received'', MetricReason ''''), 2)], st_changed := True,
   st_records := [(''A'', ex_stored1\<lparr>ir_size := 449\<rparr>), (''B'', ex_stored2\<lparr>ir_size := 449\<rparr>)],
   st_pending := [''B'', ''A''], st_pendingByRoute := [(ex_chat, [''B'', ''A''])],
   st_routes := [(ex_chat, \<lparr>rt_Identity = ex_chat, rt_Revision = ''r1-rev'', rt_AuthorizationDigest = ''auth'',
     rt_WorkspaceID = ''ws'', rt_SessionID = ''sess'', rt_Phase = RouteActive, rt_Sequence = 2\<rparr>)],
   st_byRoute := [(ex_chat, [''B'', ''A''])],
   st_business := [(''slack|T1|m1'', ''A''), (''slack|T1|m2'', ''B'')],
   st_counts := [(''slack|T1'', \<lparr>cn_Pending = 2, cn_Bytes = 898, cn_Tombstones = 0\<rparr>)],
   st_total := \<lparr>cn_Pending = 2, cn_Bytes = 898, cn_Tombstones = 0\<rparr>\<rparr>"
  by (simp add: ex_queue2_def ex_store2_eval ex_store1_eval store_eval accept_eval ex_stored_defs ex_time_def
      ex_size2 [unfolded ex_stored_defs ex_record_def zero_record_def ex_time_def, simplified])

definition ex_queue3 :: ingress_store where
  "ex_queue3 = snd (acceptRecord (ex_env ''C'' ex_time) (ex_record ''m3'' KindControl '''') None False ex_queue2)"

lemma ex_queue3_eval: "ex_queue3 = ex_store1\<lparr>st_memoryBytes := 1332,
   st_metrics := [((MetricPlatform ''slack'', ''received'', MetricReason ''''), 3)], st_changed := True,
   st_records := [(''A'', ex_stored1\<lparr>ir_size := 449\<rparr>), (''B'', ex_stored2\<lparr>ir_size := 449\<rparr>), (''C'', ex_stored3\<lparr>ir_size := 434\<rparr>)],
   st_pending := [''C'', ''B'', ''A''], st_pendingByRoute := [(ex_chat, [''C'', ''B'', ''A''])],
   st_routes := [(ex_chat, \<lparr>rt_Identity = ex_chat, rt_Revision = ''r1-rev'', rt_AuthorizationDigest = ''auth'',
     rt_WorkspaceID = ''ws'', rt_SessionID = ''sess'', rt_Phase = RouteActive, rt_Sequence = 3\<rparr>)],
   st_byRoute := [(ex_chat, [''C'', ''B'', ''A''])],
   st_business := [(''slack|T1|m1'', ''A''), (''slack|T1|m2'', ''B''), (''slack|T1|m3'', ''C'')],
   st_counts := [(''slack|T1'', \<lparr>cn_Pending = 3, cn_Bytes = 1332, cn_Tombstones = 0\<rparr>)],
   st_total := \<lparr>cn_Pending = 3, cn_Bytes = 1332, cn_Tombstones = 0\<rparr>\<rparr>"
  by (simp add: ex_queue3_def ex_queue2_eval ex_store1_eval store_eval accept_eval ex_stored_defs ex_time_def
      ex_size3 [unfolded ex_stored_defs ex_record_def zero_record_def ex_time_def, simplified])

definition ex_queue4 :: ingress_store where
  "ex_queue4 = snd (acceptRecord (ex_env ''D'' ex_time) (ex_record ''m4'' KindTask ''r1-rev'') None False ex_queue3)"

lemma ex_queue4_eval: "ex_queue4 = ex_store1\<lparr>st_memoryBytes := 1781,
   st_metrics := [((MetricPlatform ''slack'', ''received'', MetricReason ''''), 4)], st_changed := True,
   st_records := [(''A'', ex_stored1\<lparr>ir_size := 449\<rparr>), (''B'', ex_stored2\<lparr>ir_size := 449\<rparr>), (''C'', ex_stored3\<lparr>ir_size := 434\<rparr>), (''D'', ex_stored4\<lparr>ir_size := 449\<rparr>)],
   st_pending := [''D'', ''C'', ''B'', ''A''], st_pendingByRoute := [(ex_chat, [''D'', ''C'', ''B'', ''A''])],
   st_routes := [(ex_chat, \<lparr>rt_Identity = ex_chat, rt_Revision = ''r1-rev'', rt_AuthorizationDigest = ''auth'',
     rt_WorkspaceID = ''ws'', rt_SessionID = ''sess'', rt_Phase = RouteActive, rt_Sequence = 4\<rparr>)],
   st_byRoute := [(ex_chat, [''D'', ''C'', ''B'', ''A''])],
   st_business := [(''slack|T1|m1'', ''A''), (''slack|T1|m2'', ''B''), (''slack|T1|m3'', ''C''), (''slack|T1|m4'', ''D'')],
   st_counts := [(''slack|T1'', \<lparr>cn_Pending = 4, cn_Bytes = 1781, cn_Tombstones = 0\<rparr>)],
   st_total := \<lparr>cn_Pending = 4, cn_Bytes = 1781, cn_Tombstones = 0\<rparr>\<rparr>"
  by (simp add: ex_queue4_def ex_queue3_eval ex_store1_eval store_eval accept_eval ex_stored_defs ex_time_def
      ex_size4 [unfolded ex_stored_defs ex_record_def zero_record_def ex_time_def, simplified])

lemma update_open:
  assumes "service_inv v" and "store_lock e (sv_store v) = None" and "map_of (st_records (sv_store v)) x = Some r"
    and "ir_State r \<in> set allowed" and "mutate r = Inr r1" and "ir_RecordID r1 = ir_RecordID r"
  shows "fst (UpdateRecord e x allowed mutate (sv_store v)) = None
    \<and> map_of (st_records (snd (UpdateRecord e x allowed mutate (sv_store v)))) =
       (map_of (st_records (sv_store v)))(x \<mapsto> stored_form (ie_jsonTime e) (r1\<lparr>ir_UpdatedAt := ie_now e\<rparr>) (-1))"
proof (cases rule: UpdateRecord_cases [of e x allowed mutate "sv_store v"])
  case (Error err)
  with assms show ?thesis by (simp add: UpdateRecord_def Let_def)
next
  case (Updated q q1 t)
  have "ir_RecordID r = x" using assms(1,3) by (simp add: service_inv_def store_inv_def records_inv_def)
  with Updated assms show ?thesis by (simp add: update_conv')
qed

section \<open>The dispatcher at work\<close>

text \<open>The control of the example is a shell command, which is not urgent.\<close>

definition ex_shell :: ingress_control where
  "ex_shell = \<lparr>ig_message = witness_message ''!ls'', ig_target = None\<rparr>"

definition ex_waiting :: ingress_service where
  "ex_waiting = \<lparr>sv_store = ex_queue4, sv_prepared = [], sv_controls = [(''C'', ex_shell)], sv_accepting = [], sv_active = [ex_chat],
     sv_blocked = [], sv_slots = 1, sv_started = True, sv_stopping = False, sv_dead = False\<rparr>"

definition ex_busy :: ingress_service where
  "ex_busy = snd (update_record (ex_env ''x'' ex_time) ''A'' [IngressReceived] (\<lambda>r. Inr (mark_record IngressDispatching '''' r)) ex_waiting)"

text \<open>The receipt of the first task arrives while the control is carried out.\<close>

definition ex_receipt :: control_call where
  "ex_receipt c x v = (fst (commitInputReceipt (ex_env ''y'' ex_time) ''A'' IngressConsumed ''handled'' v), None, '''')"

lemma ex_queue_fresh: "fresh_id (ex_env ''B'' t) ex_store2" "fresh_id (ex_env ''C'' t) ex_queue2" "fresh_id (ex_env ''D'' t) ex_queue3"
  by (simp_all add: fresh_id_def ex_store2_eval ex_queue2_eval ex_queue3_eval ex_store1_eval store_eval)

lemma ex_queue_reach: "ingress_reach 5 ex_queue4"
proof -
  have "ingress_reach 3 ex_queue2"
    using reach_Step [OF ex_reach(2) step_Accept [OF ex_queue_fresh(1)]] by (simp add: ex_queue2_def numeral_3_eq_3 numeral_2_eq_2)
  from reach_Step [OF this step_Accept [OF ex_queue_fresh(2)]] have "ingress_reach 4 ex_queue3" by (simp add: ex_queue3_def eval_nat_numeral)
  from reach_Step [OF this step_Accept [OF ex_queue_fresh(3)]] show ?thesis by (simp add: ex_queue4_def eval_nat_numeral)
qed

lemma ex_waiting_inv: "service_inv ex_waiting"
  using reach_store_inv [OF ex_queue_reach] by (simp add: service_inv_def ex_waiting_def)

definition ex_flown :: ingress_record where
  "ex_flown = stored_form (ie_jsonTime (ex_env ''x'' ex_time))
     ((mark_record IngressDispatching '''' (ex_stored1\<lparr>ir_size := 449\<rparr>))\<lparr>ir_UpdatedAt := ex_time\<rparr>) (-1)"

lemma ex_fields:
  "Identity ex_stored1 = ex_chat" "Identity ex_stored2 = ex_chat" "Identity ex_stored3 = ex_chat" "Identity ex_stored4 = ex_chat" "Identity ex_flown = ex_chat"
  "ir_State ex_stored1 = IngressReceived" "ir_State ex_stored2 = IngressReceived" "ir_State ex_stored3 = IngressReceived" "ir_State ex_stored4 = IngressReceived"
  "ir_State ex_flown = IngressDispatching" "ir_Sequence ex_stored1 = 1" "ir_Sequence ex_stored2 = 2" "ir_Sequence ex_stored3 = 3" "ir_Sequence ex_stored4 = 4"
  "ir_Sequence ex_flown = 1" "ir_RecordID ex_stored1 = ''A''" "ir_RecordID ex_stored2 = ''B''" "ir_RecordID ex_stored3 = ''C''" "ir_RecordID ex_stored4 = ''D''"
  "ir_RecordID ex_flown = ''A''" "ir_Kind ex_stored2 = KindTask" "ir_Kind ex_stored3 = KindControl" "ir_Kind ex_stored4 = KindTask"
  by (simp_all add: ex_stored_defs ex_flown_def mark_record_def stored_form_def ex_record_def zero_record_def Identity_def ex_chat_def Terminal_def Let_def)

lemma ex_busy_store:
  "st_records (sv_store ex_busy) = [(''A'', ex_flown), (''B'', ex_stored2\<lparr>ir_size := 449\<rparr>), (''C'', ex_stored3\<lparr>ir_size := 434\<rparr>),
     (''D'', ex_stored4\<lparr>ir_size := 449\<rparr>)]"
  "st_pendingByRoute (sv_store ex_busy) = [(ex_chat, [''D'', ''C'', ''B'', ''A''])]"
  "st_closing (sv_store ex_busy) = False" "sv_controls ex_busy = [(''C'', ex_shell)]" "sv_blocked ex_busy = []"
proof -
  let ?r = "(mark_record IngressDispatching '''' (ex_stored1\<lparr>ir_size := 449\<rparr>))\<lparr>ir_UpdatedAt := ex_time\<rparr>"
  have r: "ir_RecordID ?r = ''A''" "Identity ?r = ex_chat" "\<not> Terminal ?r"
    by (simp_all add: mark_record_def Terminal_def ex_fields) (simp add: ex_fields(1) [symmetric] Identity_def)
  have old: "map_of (st_records ex_queue4) ''A'' = Some (ex_stored1\<lparr>ir_size := 449\<rparr>)" by (simp add: ex_queue4_eval)
  have closing: "\<not> st_closing ex_queue4" by (simp add: ex_queue4_eval ex_store1_eval NewIngressStore_def)
  have s: "sv_store ex_busy = signal (ObserveStateTransition (ir_Platform ?r) (state_text (ir_State (ex_stored1\<lparr>ir_size := 449\<rparr>)))
      (state_text (ir_State ?r)) (ingress_record.ir_Reason ?r) (save ex_time (ie_jsonTime (ex_env ''x'' ex_time)) ?r (-1) ex_queue4))"
    using old closing by (simp add: ex_busy_def update_record_def UpdateRecord_def ex_waiting_def store_lock_def ex_env_def Let_def ex_fields)
  show "st_records (sv_store ex_busy) = [(''A'', ex_flown), (''B'', ex_stored2\<lparr>ir_size := 449\<rparr>), (''C'', ex_stored3\<lparr>ir_size := 434\<rparr>),
     (''D'', ex_stored4\<lparr>ir_size := 449\<rparr>)]"
    unfolding s by (simp add: signal_def ObserveStateTransition_def save_records r(1) ex_flown_def [symmetric] Let_def) (simp add: ex_queue4_eval)
  show "st_pendingByRoute (sv_store ex_busy) = [(ex_chat, [''D'', ''C'', ''B'', ''A''])]"
    unfolding s by (simp add: signal_def ObserveStateTransition_def save_pendingByRoute r old Let_def)
      (simp add: ex_queue4_eval add_index_def get_or_def set_add_def)
  show "sv_controls ex_busy = [(''C'', ex_shell)]" "sv_blocked ex_busy = []"
    by (simp_all add: ex_busy_def update_record_def ex_waiting_def Let_def case_prod_beta)
  show "st_closing (sv_store ex_busy) = False"
    using closing by (cases rule: UpdateRecord_cases [of "ex_env ''x'' ex_time" "''A''" "[IngressReceived]"
        "\<lambda>r. Inr (mark_record IngressDispatching '''' r)" "sv_store ex_waiting"])
      (simp_all add: ex_busy_def update_record_def ex_waiting_def)
qed

definition ex_next :: "ingress_record \<Rightarrow> ingress_record" where
  "ex_next r = (cloneIngressRecord r)\<lparr>ir_Text := ''''\<rparr>"

lemma ex_next_simps [simp]:
  "Identity (ex_next r) = Identity r" "ir_State (ex_next r) = ir_State r" "ir_Kind (ex_next r) = ir_Kind r" "ir_Sequence (ex_next r) = ir_Sequence r"
  "ir_RecordID (ex_next r) = ir_RecordID r"
  by (simp_all add: ex_next_def cloneIngressRecord_id Identity_def)

lemma ex_busy_listing: "ListRoutePendingMetadata ex_chat (sv_store ex_busy) =
  [ex_next ex_flown, ex_next (ex_stored2\<lparr>ir_size := 449\<rparr>), ex_next (ex_stored3\<lparr>ir_size := 434\<rparr>), ex_next (ex_stored4\<lparr>ir_size := 449\<rparr>)]"
proof -
  have size: "Identity (r\<lparr>ir_size := z\<rparr>) = Identity r" "Terminal (r\<lparr>ir_size := z\<rparr>) = Terminal r" for r z by (simp_all add: Identity_def Terminal_def)
  have waiting: "\<not> Terminal ex_flown" "\<not> Terminal ex_stored2" "\<not> Terminal ex_stored3" "\<not> Terminal ex_stored4"
    by (simp_all add: Terminal_def ex_fields)
  let ?l = "[ex_flown, ex_stored2\<lparr>ir_size := 449\<rparr>, ex_stored3\<lparr>ir_size := 434\<rparr>, ex_stored4\<lparr>ir_size := 449\<rparr>]"
  have got: "map (get_or zero_record (st_records (sv_store ex_busy))) (get_or [] (st_pendingByRoute (sv_store ex_busy)) ex_chat) = rev ?l"
    by (simp add: ex_busy_store get_or_def)
  have kept: "filter (\<lambda>r. Identity r = ex_chat \<and> \<not> Terminal r) (rev ?l) = rev ?l"
    by (simp add: size waiting ex_fields)
  have "ListRoutePendingMetadata ex_chat (sv_store ex_busy) = sort_key (\<lambda>r. (Identity r, ir_Sequence r)) (map ex_next (rev ?l))"
    using kept unfolding ListRoutePendingMetadata_def store_list_def Let_def by (simp only: prod.case option.case bool.case simp_thms got if_True ex_next_def [abs_def, symmetric])
  also have "\<dots> = map ex_next ?l"
    by (simp add: size ex_fields less_eq_prod_def word_le_def)
  finally show ?thesis by simp
qed

lemma ex_shell_not_urgent: "\<not> urgent_control (\<lambda>x. None) ex_shell"
proof -
  have "commandForIncomingMessage (\<lambda>x. None) (witness_message ''!ls'') = (command ''local_shell'')\<lparr>ic_Content := ''ls''\<rparr>"
    by (simp add: commandForIncomingMessage_def witness_message_def parseIMCommand_def trim_prefix_def text_eval)
  then show ?thesis by (simp add: urgent_control_def ex_shell_def help_text_def witness_message_def text_eval)
qed

lemma ex_busy_inv: "service_inv ex_busy"
  unfolding ex_busy_def by (rule update_record_inv [OF ex_waiting_inv]) (simp_all add: open_states_def keeps_core_def mark_record_def Identity_def)

text \<open>While the control is carried out the receipt settles the first task, and nothing is in flight after it.\<close>

lemma ex_settled:
  assumes "v = fst (commitInputReceipt (ex_env ''y'' ex_time) ''A'' IngressConsumed ''handled'' (dropControl ''C'' ex_busy))"
  shows "service_inv v \<and> \<not> flight ex_chat v \<and> sv_blocked v = []"
proof -
  let ?v = "dropControl ''C'' ex_busy" and ?m = "\<lambda>r::ingress_record. Inr (r\<lparr>ir_State := IngressConsumed, ir_ReceiptStatus := ''handled''\<rparr>) :: string + ingress_record"
  have inv: "service_inv ?v" using ex_busy_inv by (simp add: service_inv_def dropControl_def)
  have v: "sv_store v = snd (UpdateRecord (ex_env ''y'' ex_time) ''A'' [IngressDispatching, IngressUnknown] ?m (sv_store ?v))" "sv_blocked v = []"
    by (simp_all add: assms commitInputReceipt_def update_record_def Let_def case_prod_beta dropControl_def ex_busy_store)
  have "store_lock (ex_env ''y'' ex_time) (sv_store ?v) = None" by (simp add: store_lock_def ex_env_def dropControl_def ex_busy_store)
  moreover have "map_of (st_records (sv_store ?v)) ''A'' = Some ex_flown" by (simp add: dropControl_def ex_busy_store)
  ultimately have recs: "map_of (st_records (sv_store v)) = (map_of (st_records (sv_store ex_busy)))(''A'' \<mapsto>
      stored_form (ie_jsonTime (ex_env ''y'' ex_time)) (ex_flown\<lparr>ir_State := IngressConsumed, ir_ReceiptStatus := ''handled'',
        ir_UpdatedAt := ex_time\<rparr>) (-1))"
    using update_open [OF inv, of "ex_env ''y'' ex_time" "''A''" ex_flown "[IngressDispatching, IngressUnknown]" ?m] unfolding v
    by (simp add: ex_fields dropControl_def ex_env_def)
  have "\<not> flight ex_chat v"
    unfolding flight_def recs by (auto simp: ex_busy_store in_flight_state_def ex_fields split: if_splits)
  moreover have "service_inv v"
    unfolding assms commitInputReceipt_def Let_def case_prod_beta
    using update_record_inv [OF inv, of "[IngressDispatching, IngressUnknown]" ?m "ex_env ''y'' ex_time" "''A''"]
    by (simp add: open_states_def keeps_core_def Identity_def)
  ultimately show ?thesis using v by simp
qed

text \<open>So the second task is passed over and the third one goes out.\<close>

lemma ex_overtaken:
  "\<exists>v. dispatchRoute (\<lambda>x. None) (ex_env ''z'' ex_time) ex_receipt (\<lambda>c. []) ex_chat ex_busy = (v, Some (ex_next (ex_stored4\<lparr>ir_size := 449\<rparr>)))"
proof -
  let ?B = "ex_next (ex_stored2\<lparr>ir_size := 449\<rparr>)" and ?C = "ex_next (ex_stored3\<lparr>ir_size := 434\<rparr>)" and ?D = "ex_next (ex_stored4\<lparr>ir_size := 449\<rparr>)"
  let ?v = "fst (commitInputReceipt (ex_env ''y'' ex_time) ''A'' IngressConsumed ''handled'' (dropControl ''C'' ex_busy))"
  note v = ex_settled [OF refl]
  have blocked: "routeBlocked t i u = (u, False)" if "sv_blocked u = []" for t i u using that by (simp add: routeBlocked_def)
  have prio: "prioritizeControls (\<lambda>x. None) [ex_next ex_flown, ?B, ?C, ?D] ex_busy = [ex_next ex_flown, ?B, ?C, ?D]"
    by (simp add: prioritizeControls_def urgent_def ex_busy_store ex_fields ex_shell_not_urgent)
  have none: "quarantined_revisions [ex_next ex_flown, ?B, ?C, ?D] = []" by (simp add: quarantined_revisions_def ex_fields)
  obtain unknown where flags: "currentIngressBlockers (ie_now (ex_env ''z'' ex_time)) ex_chat ?v = (?v, False, unknown)"
    using v flight_listed [of ?v ex_chat] by (simp add: currentIngressBlockers_def Let_def blocked)
  have control: "dispatch_control (\<lambda>x. None) (ex_env ''z'' ex_time) ex_receipt (\<lambda>c. []) ex_chat [ex_next ex_flown, ?B, ?C, ?D] ?C (True, False) ex_busy
      = (?v, Some (False, unknown))"
    by (simp add: dispatch_control_def Let_def ex_fields ex_busy_store ex_receipt_def flags)
  show ?thesis
    by (simp add: dispatchRoute_def ex_busy_listing blocked ex_busy_store prio none Let_def in_flight_state_def ex_fields control)
qed

end
