(* ===== verification/DispatchProps.thy ===== *)
theory DispatchProps
  imports OrderExample
begin

text \<open>What the service that works on the store of inputs guarantees, with examples on a store with one task.\<close>

definition ex_service :: ingress_service where
  "ex_service = \<lparr>sv_store = ex_store2, sv_prepared = [], sv_controls = [], sv_accepting = [], sv_active = [ex_chat],
     sv_blocked = [], sv_slots = 1, sv_started = True, sv_stopping = False, sv_dead = False\<rparr>"

definition ex_call :: control_call where
  "ex_call c x v = (v, None, '''')"

definition ex_listed :: ingress_record where
  "ex_listed = ex_stored1\<lparr>ir_size := 449, ir_Text := ''''\<rparr>"

lemma ex_service_inv: "service_inv ex_service"
  using reach_store_inv [OF ex_reach(2)] by (simp add: service_inv_def ex_service_def)

lemma ex_route_keeps: "route_keeps ex_call"
  by (simp add: route_keeps_def ex_call_def)

lemma ex_listing: "ListRoutePendingMetadata ex_chat ex_store2 = [ex_listed]"
  by (simp add: ListRoutePendingMetadata_def store_list_def ex_store2_eval get_or_def ex_stored1_def ex_listed_def Identity_def
      Terminal_def ex_record_def ex_chat_def zero_record_def)

lemma ex_dispatch: "dispatchRoute pd (ex_env ''x'' ex_time) ex_call retries ex_chat ex_service = (ex_service, Some ex_listed)"
proof -
  have "ListRoutePendingMetadata ex_chat (sv_store ex_service) = [ex_listed]" by (simp add: ex_service_def ex_listing)
  moreover have "routeBlocked t ex_chat ex_service = (ex_service, False)" for t by (simp add: routeBlocked_def ex_service_def)
  moreover have "ir_State ex_listed = IngressReceived" "ir_Kind ex_listed = KindTask"
    by (simp_all add: ex_listed_def ex_stored1_def ex_record_def)
  ultimately show ?thesis
    by (simp add: dispatchRoute_def Let_def in_flight_state_def quarantined_revisions_def prioritizeControls_def urgent_def
        ex_service_def)
qed

text \<open>Urgent controls go first, at most four of them; the rest of the chat keeps its order, and the other urgent ones come last.\<close>

theorem urgent_controls_first:
  "prioritizeControls pd records v =
     take 4 (filter (urgent pd (sv_controls v)) records) @ filter (Not \<circ> urgent pd (sv_controls v)) records
     @ drop 4 (filter (urgent pd (sv_controls v)) records)"
  by (simp add: prioritizeControls_def prioritize_loop_eq)

lemma no_quarantined: "quarantined_revisions (ListRoutePendingMetadata i s) = []"
proof -
  have "ir_State r \<noteq> IngressQuarantined" if "r \<in> set (ListRoutePendingMetadata i s)" for r
    using that unfolding ListRoutePendingMetadata_def store_list_def Let_def set_sort by (auto simp: Terminal_def)
  then show ?thesis by (auto simp: quarantined_revisions_def filter_empty_conv)
qed

text \<open>Setting a task aside holds nothing: a quarantined record is settled, so no listing of pending records names its revision.\<close>

theorem quarantine_never_holds: "quarantined_revisions (ListRoutePendingMetadata i s) = []"
  by (rule no_quarantined)

text \<open>C6: A chat's task goes out only when nothing of the chat is in flight, whatever the controls before it did.\<close>

theorem task_waits_for_flight:
  assumes "service_inv v" and "route_keeps route" and "dispatchRoute pd e route retries i v = (v', Some r)"
  shows "\<not> (\<exists>x q. map_of (st_records (sv_store v')) x = Some q \<and> Identity q = i \<and> in_flight_state q)
    \<and> r \<in> set (ListRoutePendingMetadata i (sv_store v)) \<and> live_task r"
proof -
  from dispatchRoute_loop [OF assms(3,1)] obtain flags u where inv: "loop_inv i flags u"
    and run: "route_loop pd e route retries i (prioritizeControls pd (ListRoutePendingMetadata i (sv_store v)) v)
      (quarantined_revisions (ListRoutePendingMetadata i (sv_store v)))
      (prioritizeControls pd (ListRoutePendingMetadata i (sv_store v)) v) flags u = (v', Some r)" by blast
  have "set (prioritizeControls pd (ListRoutePendingMetadata i (sv_store v)) v) \<subseteq> set (ListRoutePendingMetadata i (sv_store v))"
    unfolding prioritizeControls_def prioritize_loop_eq by (auto dest: in_set_takeD in_set_dropD)
  with route_loop_inv [OF assms(2) inv run] show ?thesis by (auto simp: flight_def live_task_def)
qed

theorem task_waits_for_flight_witness:
  "\<not> (\<exists>x q. map_of (st_records (sv_store ex_service)) x = Some q \<and> Identity q = ex_chat \<and> in_flight_state q) \<and> live_task ex_listed"
  using task_waits_for_flight [OF ex_service_inv ex_route_keeps ex_dispatch] by blast

lemma live_task_not_urgent: "live_task r \<Longrightarrow> \<not> urgent pd controls r"
  by (simp add: live_task_def urgent_def split: option.split)

text \<open>
  C20: Tasks of a chat go out in the order they were accepted: one is overtaken only if a control that
  waits its turn was accepted between the two.
\<close>

theorem tasks_in_order:
  assumes "service_inv v" and "dispatchRoute pd e route retries i v = (v', Some r)"
  shows "\<forall>q\<in>set (ListRoutePendingMetadata i (sv_store v)). live_task q \<and> ir_Sequence q < ir_Sequence r
    \<longrightarrow> (\<exists>c\<in>set (ListRoutePendingMetadata i (sv_store v)). live_control c \<and> \<not> urgent pd (sv_controls v) c
      \<and> ir_Sequence q \<le> ir_Sequence c \<and> ir_Sequence c \<le> ir_Sequence r)"
proof (intro ballI impI, elim conjE)
  fix q
  assume "q \<in> set (ListRoutePendingMetadata i (sv_store v))" and "live_task q" and "ir_Sequence q < ir_Sequence r"
  note q = this
  let ?l = "ListRoutePendingMetadata i (sv_store v)" and ?u = "urgent pd (sv_controls v)"
  let ?A = "take 4 (filter ?u ?l)" and ?N = "filter (Not \<circ> ?u) ?l" and ?D = "drop 4 (filter ?u ?l)"
  from dispatchRoute_loop [OF assms(2,1)] obtain flags u where
    "route_loop pd e route retries i (prioritizeControls pd ?l v) (quarantined_revisions ?l) (prioritizeControls pd ?l v) flags u = (v', Some r)"
    by blast
  from route_loop_order [OF this] obtain pre post where split: "prioritizeControls pd ?l v = pre @ r # post"
    and over: "passed_over (quarantined_revisions ?l) pre" and r: "live_task r" by blast
  have "pre @ r # post = ?A @ ?N @ ?D" using split by (simp add: prioritizeControls_def prioritize_loop_eq)
  moreover have "r \<notin> set ?A" "r \<notin> set ?D"
    using live_task_not_urgent [OF r] by (auto dest: in_set_takeD in_set_dropD)
  ultimately obtain us ws where pre: "pre = ?A @ us" and N: "?N = us @ r # ws" by (rule middle_split)
  have sorted: "sorted (map ir_Sequence (us @ r # ws))" using listing_sorted [of "Not \<circ> ?u" i "sv_store v"] N by simp
  have "q \<in> set ?N" using q(1) live_task_not_urgent [OF q(2)] by simp
  then have "q \<in> set us" unfolding N using sorted q(3) by (auto simp: sorted_append)
  then obtain u1 mid where us: "us = u1 @ q # mid" by (meson split_list)
  have "\<exists>c\<in>set mid. live_control c"
  proof (rule ccontr)
    assume "\<not> ?thesis"
    then have "ir_RouteRevision q \<in> set (quarantined_revisions ?l)"
      using over q(2) unfolding passed_over_def pre us by (metis append.assoc)
    then show False by (simp add: no_quarantined)
  qed
  then obtain c where c: "c \<in> set mid" "live_control c" by blast
  have "c \<in> set ?N" using c N us by auto
  moreover have "ir_Sequence q \<le> ir_Sequence c" "ir_Sequence c \<le> ir_Sequence r"
    using sorted c unfolding us by (auto simp: sorted_append)
  ultimately show "\<exists>c\<in>set ?l. live_control c \<and> \<not> urgent pd (sv_controls v) c
      \<and> ir_Sequence q \<le> ir_Sequence c \<and> ir_Sequence c \<le> ir_Sequence r" using c(2) by auto
qed

text \<open>In the example the third task is written before the second, and the shell command lies between them.\<close>

theorem tasks_in_order_witness:
  "\<exists>v c. dispatchRoute (\<lambda>x. None) (ex_env ''z'' ex_time) ex_receipt (\<lambda>c. []) ex_chat ex_busy = (v, Some (ex_next (ex_stored4\<lparr>ir_size := 449\<rparr>)))
    \<and> ex_next (ex_stored2\<lparr>ir_size := 449\<rparr>) \<in> set (ListRoutePendingMetadata ex_chat (sv_store ex_busy))
    \<and> live_task (ex_next (ex_stored2\<lparr>ir_size := 449\<rparr>)) \<and> ir_Sequence (ex_next (ex_stored2\<lparr>ir_size := 449\<rparr>)) = 2
    \<and> c \<in> set (ListRoutePendingMetadata ex_chat (sv_store ex_busy)) \<and> live_control c \<and> \<not> urgent (\<lambda>x. None) (sv_controls ex_busy) c
    \<and> 2 \<le> ir_Sequence c \<and> ir_Sequence c \<le> 4"
proof -
  let ?B = "ex_next (ex_stored2\<lparr>ir_size := 449\<rparr>)" and ?D = "ex_next (ex_stored4\<lparr>ir_size := 449\<rparr>)"
  obtain v where run: "dispatchRoute (\<lambda>x. None) (ex_env ''z'' ex_time) ex_receipt (\<lambda>c. []) ex_chat ex_busy = (v, Some ?D)"
    using ex_overtaken by blast
  have B: "?B \<in> set (ListRoutePendingMetadata ex_chat (sv_store ex_busy))" "live_task ?B" "ir_Sequence ?B = 2" "ir_Sequence ?D = 4"
    by (simp_all add: ex_busy_listing live_task_def ex_fields)
  then have "ir_Sequence ?B < ir_Sequence ?D" by simp
  with tasks_in_order [OF ex_busy_inv run] B obtain c where
    "c \<in> set (ListRoutePendingMetadata ex_chat (sv_store ex_busy))" "live_control c" "\<not> urgent (\<lambda>x. None) (sv_controls ex_busy) c"
    "2 \<le> ir_Sequence c" "ir_Sequence c \<le> 4" by metis
  with run B(1-3) show ?thesis by blast
qed

section \<open>Writing a task\<close>

text \<open>What the rest of the program does between the steps keeps the store consistent, as all its operations do.\<close>

definition others_keep :: "dispatch_world \<Rightarrow> bool" where
  "others_keep w \<longleftrightarrow> (\<forall>n v. service_inv v \<longrightarrow> service_inv (dw_others w n v))"

text \<open>
  C1: A task is written to its process only while everything it was accepted under holds. Whatever the rest of
  the program does between the steps: the record was waiting when it was loaded, and the owner of the account
  had sent it to a chat bound to the record's workspace; before the process is used and again after the wait for
  its session, the chat's route is active at the revision the record names, the identity behind it is the
  digest and the workspace the record was accepted under, the session is the record's own if it names one, no
  transfer stands in the way and the record is younger than a day; the record is still waiting then, the session
  is the one that the process announced and that was pinned to the chat, the process is the one the manager has
  for the chat and no Done of it is pending; the ticket and the transport are good at each of these looks and at
  the two after them; and when the input is written the record says to whom, and the process still has that
  identity.
\<close>

theorem written_task_guarded:
  assumes "service_inv v" and "others_keep w" and "dispatchTask dg w x v = (v', Some (j, identity, q))"
  shows "\<exists>r n v3 v4. map_of (st_records (sv_store v)) x = Some r \<and> ir_RecordID r = x \<and> ir_Kind r = KindTask \<and> ir_State r = IngressReceived
    \<and> jb_record j = r \<and> at_Kind (jb_ticket j) = ''paired_task'' \<and> at_Identity (jb_ticket j) = Identity r \<and> at_SenderID (jb_ticket j) = ir_SenderID r
    \<and> owner_bound (dw_look w 0) r
    \<and> (\<exists>session. route_stands dg (dw_look w 1) (dw_others w 1 v) r session)
    \<and> dw_spawned w = Some n
    \<and> (\<exists>lk\<in>set (dw_polls w). ready_pin (chat_key (ir_WorkspaceID r) (Identity r)) (ir_SessionID r) n lk
          \<and> identity = InputReceiptIdentity (lk_heap lk ! n))
    \<and> v3 = dw_others w 3 (dw_others w 2 (dw_others w 1 v))
    \<and> (\<exists>p. map_of (st_records (sv_store v3)) x = Some p \<and> ir_State p = IngressReceived)
    \<and> route_stands dg (dw_look w 3) v3 r (pr_SessionID identity)
    \<and> map_of (lk_current (dw_look w 3)) (chat_key (ir_WorkspaceID r) (Identity r)) = Some n
    \<and> \<not> done_pending (lk_heap (dw_look w 3) ! n)
    \<and> deliverable (dw_look w 1) (jb_ticket j) \<and> deliverable (dw_look w 3) (jb_ticket j)
    \<and> deliverable (dw_look w 4) (jb_ticket j) \<and> deliverable (dw_look w 5) (jb_ticket j)
    \<and> v' = dw_others w 5 v4
    \<and> (\<exists>p. map_of (st_records (sv_store v4)) x = Some p \<and> dispatched_as identity j p)
    \<and> receipt_of identity (lk_heap (dw_look w 5) ! n) \<and> \<not> done_pending (lk_heap (dw_look w 5) ! n)
    \<and> request_id j \<in> set (px_pendingInputs q)"
proof -
  obtain a r t v2 v3 v4 v5 v6 where run: "task_authorize (dw_look w 0) x v = (a, v2, Some (r, t))"
    "task_route dg (dw_look w 1) (dw_spawned w) r t (dw_others w 1 v2) = (v3, Some j)"
    "task_wait (lk_env (dw_look w 2)) j (dw_polls w) (dw_others w 2 v3) = (v4, Some identity)"
    "task_check dg (dw_look w 3) j identity (dw_others w 3 v4) = (v5, True)"
    "task_mark (dw_look w 4) j identity (dw_others w 4 v5) = (v6, True)"
    "task_send (dw_look w 5) (dw_written w) j identity (dw_others w 5 v6) = (v', q, True)"
    by (rule dispatchTask_written [OF assms(3)]) blast
  note keep = assms(2) [unfolded others_keep_def, rule_format]
  from task_authorize_ok [OF run(1) assms(1)] have v2: "v2 = v"
    and r: "map_of (st_records (sv_store v)) x = Some r" "ir_RecordID r = x" "ir_Kind r = KindTask" "ir_State r = IngressReceived"
      "owner_bound (dw_look w 0) r"
    and t: "at_Kind t = ''paired_task''" "at_Identity t = Identity r" "at_SenderID t = ir_SenderID r"
    by (auto simp: record_ticket_def)
  from task_route_ok [OF run(2)] obtain n where v3: "v3 = dw_others w 1 v" and look1: "deliverable (dw_look w 1) t"
    and route: "\<exists>session. route_stands dg (dw_look w 1) (dw_others w 1 v) r session" and n: "dw_spawned w = Some n"
    and j: "j = \<lparr>jb_record = r, jb_ticket = t, jb_digest = ir_AuthorizationDigest r, jb_workspace = ir_WorkspaceID r, jb_process = n\<rparr>"
    unfolding v2 by blast
  from task_wait_ok [OF run(3)] have v4: "v4 = dw_others w 2 v3"
    and pin: "\<exists>lk\<in>set (dw_polls w). ready_pin (chat_key (ir_WorkspaceID r) (Identity r)) (ir_SessionID r) n lk
      \<and> identity = InputReceiptIdentity (lk_heap lk ! n)" by (auto simp: j)
  then have session: "ir_SessionID r \<noteq> '''' \<longrightarrow> pr_SessionID identity = ir_SessionID r" by (auto simp: ready_pin_def Let_def)
  let ?v3 = "dw_others w 3 v4"
  have inv: "service_inv (dw_others w 4 v5)"
    using keep task_check_inv [OF run(4)] assms(1) unfolding v4 v3 by blast
  note check = task_check_ok(1) [OF run(4)]
  have "(\<exists>p. map_of (st_records (sv_store ?v3)) x = Some p \<and> ir_State p = IngressReceived) \<and> route_stands dg (dw_look w 3) ?v3 r (pr_SessionID identity)
    \<and> map_of (lk_current (dw_look w 3)) (chat_key (ir_WorkspaceID r) (Identity r)) = Some n"
    using check session r(2) unfolding j
    by (auto simp: job_current_def route_stands_def ingressDeliveryExpired_def store_Get_def GetRoute_def cloneIngressRecord_id Let_def
        split: option.splits sum.splits)
  moreover have "deliverable (dw_look w 3) t" "\<not> done_pending (lk_heap (dw_look w 3) ! n)" using check by (simp_all add: j)
  moreover have "deliverable (dw_look w 4) t" "\<exists>p. map_of (st_records (sv_store v6)) x = Some p \<and> dispatched_as identity j p"
    using task_mark_ok [OF run(5) inv] r(2) by (simp_all add: j)
  moreover have "v' = dw_others w 5 v6" "deliverable (dw_look w 5) t" "receipt_of identity (lk_heap (dw_look w 5) ! n)"
    "\<not> done_pending (lk_heap (dw_look w 5) ! n)" "request_id j \<in> set (px_pendingInputs q)"
    using task_send_ok [OF run(6)] by (simp_all add: j)
  moreover have "jb_record j = r" "jb_ticket j = t" by (simp_all add: j)
  ultimately show ?thesis using r t look1 route n pin unfolding v4 v3 by blast
qed

text \<open>An example: a task of a chat whose process is ready in the session that is pinned to the chat.\<close>

definition ex_task :: ingress_record where
  "ex_task = (ex_record ''m1'' KindTask ''r1-rev'')\<lparr>ir_WorkspaceID := ''ws'', ir_SessionID := ''S1''\<rparr>"

definition ex_task_stored :: ingress_record where
  "ex_task_stored = ex_task\<lparr>ir_RecordID := ''A'', ir_RequestID := ''im-A'', ir_ReceivedAt := ex_time, ir_UpdatedAt := ex_time,
     ir_State := IngressReceived, ir_Sequence := 1\<rparr>"

definition ex_task_service :: ingress_service where
  "ex_task_service = ex_service\<lparr>sv_store := snd (acceptRecord (ex_env ''A'' ex_time) ex_task None False ex_store1)\<rparr>"

lemma ex_task_size: "recordSize (\<lambda>t. Some ''2026-01-01T00:00:00Z'') ex_task_stored = 453"
  by (simp add: ex_task_stored_def ex_task_def store_eval recordSize_def json_record_def json_eval)

lemma ex_task_store:
  "st_records (sv_store ex_task_service) = [(''A'', ex_task_stored\<lparr>ir_size := 453\<rparr>)]"
  "map_of (st_routes (sv_store ex_task_service)) ex_chat = Some \<lparr>rt_Identity = ex_chat, rt_Revision = ''r1-rev'', rt_AuthorizationDigest = ''auth'',
     rt_WorkspaceID = ''ws'', rt_SessionID = ''sess'', rt_Phase = RouteActive, rt_Sequence = 1\<rparr>"
  "\<not> st_closing (sv_store ex_task_service)"
  by (simp_all add: ex_task_service_def ex_service_def ex_store1_eval store_eval accept_eval ex_task_stored_def ex_task_def ex_time_def
      ex_task_size [unfolded ex_task_stored_def ex_task_def ex_record_def zero_record_def ex_time_def, simplified])

lemma ex_task_inv: "service_inv ex_task_service"
proof -
  have "fresh_id (ex_env ''A'' ex_time) ex_store1" by (rule ex_fresh)
  from store_inv_acceptRecord [OF reach_store_inv [OF ex_reach(1)] this] show ?thesis
    by (simp add: service_inv_def ex_task_service_def)
qed

definition ex_admission :: admission where
  "ex_admission = \<lparr>adm_pairing = witness_pairing, adm_gates = [(ex_chat, \<lparr>cg_generation = 1, cg_phase = PhaseActive, cg_lease = None\<rparr>)],
     adm_heap = [], adm_closed = False\<rparr>"

definition ex_view :: config_view where
  "ex_view = \<lparr>cv_config = \<lparr>cf_IMs = [witness_slack (Some \<lparr>ow_AccountID = ''T1'', ow_UserID = ''U1''\<rparr>) [(''D1'', ''ws'')]],
     cf_Workspaces = [\<lparr>ws_ID = ''ws'', ws_Path = ''/srv''\<rparr>], cf_ProxyURL = ''''\<rparr>, cv_faulted = False\<rparr>"

definition ex_look :: look where
  "ex_look = \<lparr>lk_env = ex_env ''x'' ex_time, lk_view = ex_view, lk_admission = ex_admission,
     lk_pins = Some \<lparr>pn_pins = [(chat_key ''ws'' ex_chat, ''S1'')], pn_disk = undefined\<rparr>, lk_transfers = None,
     lk_ready = None, lk_canon = Some, lk_current = [(chat_key ''ws'' ex_chat, 0)], lk_heap = [new_process]\<rparr>"

definition ex_world :: dispatch_world where
  "ex_world = \<lparr>dw_look = (\<lambda>n. ex_look), dw_polls = [ex_look], dw_spawned = Some 0, dw_written = True, dw_others = (\<lambda>n v. v)\<rparr>"

definition ex_job :: task_job where
  "ex_job = \<lparr>jb_record = ex_task_stored\<lparr>ir_size := 453\<rparr>, jb_ticket = record_ticket (ex_task_stored\<lparr>ir_size := 453\<rparr>) 1 1, jb_digest = ''auth'',
     jb_workspace = ''ws'', jb_process = 0\<rparr>"

lemma ex_ticket: "deliverable ex_look (jb_ticket ex_job)"
  by (simp add: deliverable_def ticket_valid_def checkIngressDeliveryReadiness_def ex_look_def ex_view_def ex_admission_def ex_job_def
      record_ticket_def zero_ticket_def Valid_def ex_task_stored_def ex_task_def ex_record_def zero_record_def Identity_def ex_chat_def
      witness_pairing_def put_platform_def new_platform_def NewPairingService_def IsPairingHint_def config_eval text_eval Let_def)

lemma ex_identity: "ingressRouteIdentity (\<lambda>x. ''auth'') ex_look ex_chat = Some (''auth'', ''ws'', ''S1'')"
  by (simp add: ingressRouteIdentity_def ex_look_def ex_view_def ex_chat_def ResolveWorkspace_def config_eval text_eval
      pins_Get_def get_or_def)

lemma ex_job_facts:
  "Identity (jb_record ex_job) = ex_chat" "ir_RecordID (jb_record ex_job) = ''A''" "ir_SessionID (jb_record ex_job) = ''S1''"
  "ir_RouteRevision (jb_record ex_job) = ''r1-rev''" "ir_ReceivedAt (jb_record ex_job) = ex_time" "jb_digest ex_job = ''auth''"
  "jb_workspace ex_job = ''ws''" "jb_process ex_job = 0" "request_id ex_job = ''im-A''" "ir_Kind (jb_record ex_job) = KindTask"
  "ir_State (jb_record ex_job) = IngressReceived" "ir_AuthorizationDigest (jb_record ex_job) = ''auth''" "ir_WorkspaceID (jb_record ex_job) = ''ws''"
  by (simp_all add: ex_job_def ex_task_stored_def ex_task_def ex_record_def zero_record_def Identity_def ex_chat_def request_id_def)

lemma ex_look_facts:
  "lk_env ex_look = ex_env ''x'' ex_time" "ie_now (ex_env ''x'' ex_time) = ex_time" "lk_transfers ex_look = None" "lk_ready ex_look = None"
  "lk_current ex_look = [(chat_key ''ws'' ex_chat, 0)]" "lk_heap ex_look = [new_process]"
  "lk_view ex_look = ex_view" "lk_admission ex_look = ex_admission"
  by (simp_all add: ex_look_def ex_env_def)

lemma ex_store_facts:
  "store_Get ''A'' (sv_store ex_task_service) = Inr (jb_record ex_job)"
  "GetRoute ex_chat (sv_store ex_task_service) = Inr \<lparr>rt_Identity = ex_chat, rt_Revision = ''r1-rev'', rt_AuthorizationDigest = ''auth'',
     rt_WorkspaceID = ''ws'', rt_SessionID = ''sess'', rt_Phase = RouteActive, rt_Sequence = 1\<rparr>"
  by (simp_all add: store_Get_def ex_task_store cloneIngressRecord_id ex_job_def GetRoute_def)

lemma ex_authorized: "\<exists>a. task_authorize ex_look ''A'' ex_task_service = (a, ex_task_service, Some (jb_record ex_job, jb_ticket ex_job))"
proof -
  have "Valid ex_view ex_time (record_ticket (jb_record ex_job) 1 1) ex_admission = Some True"
    using ex_ticket by (simp add: deliverable_def ticket_valid_def ex_look_def ex_job_def ex_env_def)
  moreover have "Identity (jb_record ex_job) = ex_chat" by (rule ex_job_facts)
  moreover have "ir_Platform (jb_record ex_job) = ''slack''" "ir_AccountID (jb_record ex_job) = ''T1''" "ir_SenderID (jb_record ex_job) = ''U1''"
    "ir_ChatID (jb_record ex_job) = ''D1''" "ir_WorkspaceID (jb_record ex_job) = ''ws''"
    by (simp_all add: ex_job_def ex_task_stored_def ex_task_def ex_record_def zero_record_def)
  ultimately have "\<exists>a. reauthorizeRecord ex_view ex_time (jb_record ex_job) ex_admission
      = (a, \<lparr>ar_Ticket = jb_ticket ex_job, ar_Disposition = AdmissionAllowed, ar_Reason = ''''\<rparr>)"
    by (simp add: reauthorizeRecord_def ex_view_def config_eval text_eval ex_job_facts ex_admission_def witness_pairing_def put_platform_def
        new_platform_def NewPairingService_def admission_gate_def Snapshot_def get_or_def Let_def ex_job_def)
  moreover have "Available ex_task_service"
    using ex_task_store(3) by (simp add: Available_def) (simp add: ex_task_service_def ex_service_def)
  ultimately show ?thesis
    by (auto simp: task_authorize_def ex_store_facts ex_job_facts ex_look_facts)
qed


lemma ex_written: "\<exists>v' q'. dispatchTask (\<lambda>x. ''auth'') ex_world ''A'' ex_task_service = (v', Some (ex_job, InputReceiptIdentity new_process, q'))"
proof -
  let ?id = "InputReceiptIdentity new_process" and ?dg = "\<lambda>x :: string list. ''auth''"
  have id: "pr_SessionID ?id = ''S1''" by (simp add: InputReceiptIdentity_def new_process_def)
  obtain a where auth: "task_authorize ex_look ''A'' ex_task_service = (a, ex_task_service, Some (jb_record ex_job, jb_ticket ex_job))"
    using ex_authorized by blast
  have ticket: "ticket_valid ex_look (jb_ticket ex_job)" using ex_ticket by (simp add: deliverable_def)
  have young: "\<not> ingressDeliveryExpired ex_time ex_time" by (simp add: ingressDeliveryExpired_def ex_time_def)
  have job: "\<lparr>jb_record = jb_record ex_job, jb_ticket = jb_ticket ex_job, jb_digest = ''auth'', jb_workspace = ''ws'', jb_process = 0\<rparr> = ex_job"
    by (simp add: ex_job_def)
  have route: "task_route ?dg ex_look (Some 0) (jb_record ex_job) (jb_ticket ex_job) ex_task_service = (ex_task_service, Some ex_job)"
    by (simp add: task_route_def ticket ex_job_facts ex_identity ex_store_facts ex_look_facts young route_unchanged_def Blocked_def transfers_Get_def
        checkIngressDeliveryReadiness_def job)
  have "ready_pin (chat_key ''ws'' ex_chat) ''S1'' 0 ex_look"
    by (simp add: ready_pin_def ex_look_facts id) (simp add: InputReceiptIdentity_def new_process_def ex_look_def pins_Get_def get_or_def)
  then have wait: "task_wait (ex_env ''x'' ex_time) ex_job [ex_look] ex_task_service = (ex_task_service, Some ?id)"
    by (simp add: task_wait_def ex_job_facts ex_look_facts)
  have check: "task_check ?dg ex_look ex_job ?id ex_task_service = (ex_task_service, True)"
    by (simp add: task_check_def job_current_def ex_job_facts ex_identity id ex_store_facts ex_look_facts young ex_ticket Blocked_def transfers_Get_def)
      (simp add: done_pending_def new_process_def ControlState.zero_state_def)
  have mark: "snd (task_mark ex_look ex_job ?id ex_task_service)"
    by (simp add: task_mark_def update_record_def ex_job_facts ex_look_facts UpdateRecord_def store_lock_def ex_task_store ex_ticket Let_def
        cloneIngressRecord_id) (simp add: ex_env_def ex_task_stored_def)
  then obtain v2 where mark: "task_mark ex_look ex_job ?id ex_task_service = (v2, True)" by (metis prod.collapse)
  have "\<exists>q'. task_send ex_look True ex_job ?id v2 = (v2, q', True)"
    by (simp add: task_send_def ex_job_facts ex_look_facts ex_ticket) (simp add: ObserveInputReceipt_def InputReceiptIdentity_def new_process_def
        maxPendingInputs_def put_observer_def SendUserMessageWithRequestID_def inputObserverMatches_def ControlState.zero_state_def inputBlocked_def
        writeCommand_def Let_def)
  then obtain q' where "task_send ex_look True ex_job ?id v2 = (v2, q', True)" ..
  with auth route wait check mark show ?thesis by (simp add: dispatchTask_def task_deliver_def ex_world_def ex_look_facts)
qed

theorem written_task_guarded_witness:
  "\<exists>(v' :: ingress_service) (q' :: chord_process). dispatchTask (\<lambda>x. ''auth'') ex_world ''A'' ex_task_service
      = (v', Some (ex_job, InputReceiptIdentity new_process, q'))
    \<and> request_id ex_job \<in> set (px_pendingInputs q') \<and> owner_bound ex_look (jb_record ex_job)
    \<and> route_stands (\<lambda>x. ''auth'') ex_look ex_task_service (jb_record ex_job) (pr_SessionID (InputReceiptIdentity new_process))
    \<and> (\<exists>r. map_of (st_records (sv_store v')) ''A'' = Some r \<and> dispatched_as (InputReceiptIdentity new_process) ex_job r)"
proof -
  have keep: "others_keep ex_world" by (simp add: others_keep_def ex_world_def)
  have w: "dw_look ex_world n = ex_look" "dw_others ex_world n v = v" for n v by (simp_all add: ex_world_def)
  obtain v' q' where run: "dispatchTask (\<lambda>x. ''auth'') ex_world ''A'' ex_task_service = (v', Some (ex_job, InputReceiptIdentity new_process, q'))"
    using ex_written by blast
  from written_task_guarded [OF ex_task_inv keep run] run show ?thesis unfolding w by blast
qed

section \<open>Outcomes\<close>

text \<open>
  A receipt is refused only when the store is closing, so a late one never counts as backpressure: it
  settles the delivery it is for while that is in flight, and changes nothing after.
\<close>

theorem receipt_never_backs_up:
  assumes "service_inv v" and "\<not> ie_ctxErr e" and "\<not> ie_ctxLate e"
  shows "snd (commitInputReceipt e x state status v) = (if st_closing (sv_store v) then Some ErrIngressClosed else None)
    \<and> (\<forall>r. \<not> st_closing (sv_store v) \<and> map_of (st_records (sv_store v)) x = Some r \<and> in_flight_state r \<longrightarrow>
        (\<exists>q. map_of (st_records (sv_store (fst (commitInputReceipt e x state status v)))) x = Some q \<and> ir_State q = state
          \<and> ir_ReceiptStatus q = status \<and> Identity q = Identity r \<and> ir_Sequence q = ir_Sequence r))
    \<and> ((\<forall>r. map_of (st_records (sv_store v)) x = Some r \<longrightarrow> \<not> in_flight_state r) \<longrightarrow>
        sv_store (fst (commitInputReceipt e x state status v)) = sv_store v)"
proof -
  let ?m = "\<lambda>r::ingress_record. Inr (r\<lparr>ir_State := state, ir_ReceiptStatus := status\<rparr>) :: string + ingress_record"
  let ?u = "UpdateRecord e x [IngressDispatching, IngressUnknown] ?m (sv_store v)"
  have commit: "sv_store (fst (commitInputReceipt e x state status v)) = snd ?u"
    "snd (commitInputReceipt e x state status v) = (if fst ?u = Some ErrIngressMissing \<or> fst ?u = Some ErrIngressBlocked then None else fst ?u)"
    by (auto simp: commitInputReceipt_def Let_def case_prod_beta)
  have lock: "store_lock e (sv_store v) = (if st_closing (sv_store v) then Some ErrIngressClosed else None)"
    using assms(2,3) by (simp add: store_lock_def)
  have settled: "fst ?u = None \<and> (\<exists>q. map_of (st_records (snd ?u)) x = Some q \<and> ir_State q = state
      \<and> ir_ReceiptStatus q = status \<and> Identity q = Identity r \<and> ir_Sequence q = ir_Sequence r)"
    if "\<not> st_closing (sv_store v)" "map_of (st_records (sv_store v)) x = Some r" "in_flight_state r" for r
  proof -
    have "store_lock e (sv_store v) = None" using lock that(1) by simp
    moreover have "ir_State r \<in> set [IngressDispatching, IngressUnknown]" using that(3) by (simp add: in_flight_state_def)
    ultimately have "fst ?u = None \<and> map_of (st_records (snd ?u)) = (map_of (st_records (sv_store v)))(x \<mapsto>
        stored_form (ie_jsonTime e) (r\<lparr>ir_State := state, ir_ReceiptStatus := status, ir_UpdatedAt := ie_now e\<rparr>) (-1))"
      using update_open [OF assms(1) _ that(2), of e _ ?m] by simp
    then show ?thesis by (simp add: stored_form_def Let_def Identity_def)
  qed
  have untouched: "snd ?u = sv_store v \<and> (fst ?u = Some ErrIngressMissing \<or> fst ?u = Some ErrIngressBlocked \<or> st_closing (sv_store v) \<and> fst ?u = Some ErrIngressClosed)"
    if "st_closing (sv_store v) \<or> (\<forall>r. map_of (st_records (sv_store v)) x = Some r \<longrightarrow> \<not> in_flight_state r)"
    using that lock by (auto simp: UpdateRecord_def in_flight_state_def split: option.split if_splits)
  show ?thesis
  proof (cases "st_closing (sv_store v) \<or> (\<forall>r. map_of (st_records (sv_store v)) x = Some r \<longrightarrow> \<not> in_flight_state r)")
    case True
    with untouched have "snd ?u = sv_store v" by blast
    moreover have "snd (commitInputReceipt e x state status v) = (if st_closing (sv_store v) then Some ErrIngressClosed else None)"
      using untouched [OF True] lock unfolding commit(2) by (auto simp: UpdateRecord_def)
    ultimately show ?thesis using True unfolding commit by auto
  next
    case False
    then show ?thesis using settled unfolding commit by auto
  qed
qed

theorem receipt_never_backs_up_witness:
  "snd (commitInputReceipt (ex_env ''x'' ex_time) ''A'' IngressConsumed ''handled'' ex_service) = None"
  using receipt_never_backs_up [OF ex_service_inv, of "ex_env ''x'' ex_time" "''A''" IngressConsumed "''handled''"]
  by (simp add: ex_env_def ex_service_def ex_store2_eval ex_store1_eval NewIngressStore_def)

text \<open>What one settled record of a loop of \<open>finish\<close> leaves behind.\<close>

lemma finish_records:
  "st_records (sv_store (finish e r state reason v)) = st_records (snd (UpdateRecord e (ir_RecordID r) open_states
     (\<lambda>r. Inr (mark_record state reason r)) (sv_store v)))"
  using finish_as_update [of e r state reason v] by (auto simp: finish_update_def)

lemma finish_closing: "st_closing (sv_store (finish e r state reason v)) = st_closing (sv_store v)"
proof -
  have "st_closing (sv_store (finish_update e r state reason v)) = st_closing (sv_store v)"
    by (cases rule: UpdateRecord_cases [of e "ir_RecordID r" open_states "\<lambda>r. Inr (mark_record state reason r)" "sv_store v"])
      (simp_all add: finish_update_def)
  then show ?thesis using finish_as_update [of e r state reason v] by (auto simp: blockRoute_def observe_ingress_def)
qed

definition settling :: "ingress_service \<Rightarrow> ingress_record \<Rightarrow> bool" where
  "settling v r \<longleftrightarrow> (\<exists>q. map_of (st_records (sv_store v)) (ir_RecordID r) = Some q \<and> (Terminal q \<or> ir_State q \<in> set open_states))"

definition settled_in :: "ingress_service \<Rightarrow> ingress_record \<Rightarrow> bool" where
  "settled_in v r \<longleftrightarrow> (\<exists>q. map_of (st_records (sv_store v)) (ir_RecordID r) = Some q \<and> Terminal q)"

lemma finish_settles:
  assumes "service_inv v" and "store_lock e (sv_store v) = None" and "Terminal (mark_record state reason zero_record)"
  shows "settling v r \<Longrightarrow> settled_in (finish e r state reason v) r"
    and "settling v q \<Longrightarrow> settling (finish e r state reason v) q"
    and "settled_in v q \<Longrightarrow> settled_in (finish e r state reason v) q"
proof -
  let ?u = "UpdateRecord e (ir_RecordID r) open_states (\<lambda>r. Inr (mark_record state reason r)) (sv_store v)"
  have marked: "Terminal (mark_record state reason q)" for q using assms(3) by (simp add: Terminal_def mark_record_def)
  show own: "settling v r \<Longrightarrow> settled_in (finish e r state reason v) r"
  proof -
    assume "settling v r"
    then obtain q where q: "map_of (st_records (sv_store v)) (ir_RecordID r) = Some q" "Terminal q \<or> ir_State q \<in> set open_states"
      by (auto simp: settling_def)
    show ?thesis
    proof (cases "ir_State q \<in> set open_states")
      case True
      from update_open [OF assms(1,2) q(1) True, of "\<lambda>r. Inr (mark_record state reason r)" "mark_record state reason q"]
      show ?thesis using marked [of q] by (simp add: settled_in_def finish_records mark_record_def) (simp add: Terminal_def)
    next
      case False
      with q have "st_records (snd ?u) = st_records (sv_store v)"
        by (cases rule: UpdateRecord_cases [of e "ir_RecordID r" open_states "\<lambda>r. Inr (mark_record state reason r)" "sv_store v"]) auto
      with q False show ?thesis by (auto simp: settled_in_def finish_records)
    qed
  qed
  have other: "map_of (st_records (sv_store (finish e r state reason v))) x = map_of (st_records (sv_store v)) x" if "x \<noteq> ir_RecordID r" for x
  proof (cases rule: UpdateRecord_cases [of e "ir_RecordID r" open_states "\<lambda>r. Inr (mark_record state reason r)" "sv_store v"])
    case (Updated r0 r1 t)
    have "ir_RecordID r0 = ir_RecordID r" using Updated(1) assms(1) by (simp add: service_inv_def store_inv_def records_inv_def)
    then have "ir_RecordID r1 = ir_RecordID r" using Updated(3) by (auto simp: mark_record_def)
    with Updated that show ?thesis by (simp add: finish_records update_conv')
  qed (simp add: finish_records)
  show "settling (finish e r state reason v) q" if "settling v q"
  proof (cases "ir_RecordID q = ir_RecordID r")
    case True
    then show ?thesis using own that by (auto simp: settling_def settled_in_def)
  qed (use that other in \<open>simp add: settling_def\<close>)
  show "settled_in (finish e r state reason v) q" if "settled_in v q"
  proof (cases "ir_RecordID q = ir_RecordID r")
    case True
    then show ?thesis using own that by (auto simp: settling_def settled_in_def)
  qed (use that other in \<open>simp add: settled_in_def\<close>)
qed

lemma settle_fold:
  assumes "service_inv v" and "store_lock e (sv_store v) = None" and "\<forall>r\<in>set rs. settling v r"
  shows "(\<forall>r\<in>set rs. stalled (ie_now e) r \<longrightarrow> settled_in (settleStalledRecords e rs v) r)
    \<and> (\<forall>q. settled_in v q \<longrightarrow> settled_in (settleStalledRecords e rs v) q)"
  using assms
proof (induction rs arbitrary: v)
  case (Cons r rs)
  let ?v = "if stalled (ie_now e) r then finish e r IngressExpired ''receipt_timeout'' v else v"
  have T: "Terminal (mark_record IngressExpired ''receipt_timeout'' zero_record)" by (simp add: Terminal_def mark_record_def)
  have step: "settleStalledRecords e (r # rs) v = settleStalledRecords e rs ?v" by (simp add: settleStalledRecords_def)
  have inv: "service_inv ?v" using Cons.prems(1) finish_inv by simp
  have lock: "store_lock e (sv_store ?v) = None" using Cons.prems(2) by (simp add: store_lock_def finish_closing split: if_splits)
  have all: "\<forall>q\<in>set rs. settling ?v q" using Cons.prems(3) finish_settles(2) [OF Cons.prems(1,2) T] by auto
  have head: "settled_in ?v r" if "stalled (ie_now e) r"
    using that Cons.prems(3) finish_settles(1) [OF Cons.prems(1,2) T] by auto
  have keep: "settled_in ?v q" if "settled_in v q" for q using that finish_settles(3) [OF Cons.prems(1,2) T] by auto
  from Cons.IH [OF inv lock all] head keep show ?case unfolding step by (metis set_ConsD)
qed (simp add: settleStalledRecords_def)

text \<open>
  C34: A visit of a chat gives up every delivery without an outcome for five minutes: its record is settled
  afterwards, so it neither holds the chat nor its place in the store.
\<close>

theorem stalled_deliveries_settled:
  assumes "service_inv v" and "\<not> ie_ctxErr e" and "\<not> ie_ctxLate e" and "\<not> st_closing (sv_store v)"
    and "map_of (st_records (sv_store v)) x = Some r" and "Identity r = i" and "in_flight_state r"
    and "ingressStallDeadline \<le> time_sub (ie_now e) (ir_UpdatedAt r)"
  shows "\<exists>q. map_of (st_records (sv_store (fst (visitRoute e i held v)))) x = Some q \<and> Terminal q"
proof -
  let ?l = "ListRoutePendingMetadata i (sv_store v)" and ?q = "r\<lparr>ir_Text := ''''\<rparr>"
  have lock: "store_lock e (sv_store v) = None" using assms(2-4) by (simp add: store_lock_def)
  have id: "ir_RecordID q = y" if "map_of (st_records (sv_store v)) y = Some q" for y q
    using assms(1) that by (simp add: service_inv_def store_inv_def records_inv_def)
  have "settling v q" if "q \<in> set ?l \<and> stalled (ie_now e) q" for q
  proof -
    from that obtain y r0 where "map_of (st_records (sv_store v)) y = Some r0" "q = r0\<lparr>ir_Text := ''''\<rparr>"
      unfolding listed [OF assms(1)] cloneIngressRecord_id by blast
    with that id show ?thesis by (auto simp: settling_def stalled_def open_states_def)
  qed
  then have all: "\<forall>q\<in>set (filter (stalled (ie_now e)) ?l). settling v q" by simp
  have same: "settleStalledRecords e (filter (stalled (ie_now e)) l) v = settleStalledRecords e l v" for l v
    by (induction l arbitrary: v) (simp_all add: settleStalledRecords_def)
  have "?q \<in> set ?l" using assms(5-7) in_flight_open unfolding listed [OF assms(1)] cloneIngressRecord_id by blast
  moreover have "stalled (ie_now e) ?q" using assms(7,8) by (simp add: stalled_def in_flight_state_def)
  ultimately have "settled_in (settleStalledRecords e ?l v) ?q"
    using settle_fold [OF assms(1) lock all] unfolding same by simp
  then show ?thesis using id [OF assms(5)] by (simp add: visitRoute_def Let_def settled_in_def)
qed

definition ex_flying :: ingress_service where
  "ex_flying = snd (update_record (ex_env ''x'' ex_time) ''A'' open_states (\<lambda>r. Inr (mark_record IngressDispatching '''' r)) ex_service)"

theorem stalled_deliveries_settled_witness:
  "\<exists>q. map_of (st_records (sv_store (fst (visitRoute (ex_env ''y'' (ex_time + 10 * minute)) ex_chat False ex_flying)))) ''A'' = Some q \<and> Terminal q"
proof -
  let ?old = "ex_stored1\<lparr>ir_size := 449\<rparr>"
  let ?r = "stored_form (ie_jsonTime (ex_env ''x'' ex_time)) ((mark_record IngressDispatching '''' ?old)\<lparr>ir_UpdatedAt := ie_now (ex_env ''x'' ex_time)\<rparr>) (-1)"
  have fresh: "ir_State ?old \<in> set open_states" by (simp add: ex_stored1_def open_states_def)
  have lock: "store_lock (ex_env ''x'' ex_time) (sv_store ex_service) = None"
    by (simp add: store_lock_def ex_env_def ex_service_def ex_store2_eval ex_store1_eval NewIngressStore_def)
  have at: "map_of (st_records (sv_store ex_service)) ''A'' = Some ?old" by (simp add: ex_service_def ex_store2_eval)
  from update_open [OF ex_service_inv lock at fresh, of "\<lambda>r. Inr (mark_record IngressDispatching '''' r)"]
  have rec: "map_of (st_records (sv_store ex_flying)) ''A'' = Some ?r" by (simp add: ex_flying_def mark_record_def)
  have inv: "service_inv ex_flying" unfolding ex_flying_def by (rule update_record_inv [OF ex_service_inv]) simp_all
  have closing: "\<not> st_closing (sv_store ex_flying)"
    using lock by (cases rule: UpdateRecord_cases [of "ex_env ''x'' ex_time" "''A''" open_states "\<lambda>r. Inr (mark_record IngressDispatching '''' r)" "sv_store ex_service"])
      (simp_all add: ex_flying_def store_lock_def split: if_splits)
  have r: "Identity ?r = ex_chat" "in_flight_state ?r" "ir_UpdatedAt ?r = ex_time"
    by (simp_all add: mark_record_def ex_stored1_def ex_record_def zero_record_def Identity_def ex_chat_def in_flight_state_def ex_env_def
        stored_form_def Let_def)
  have late: "ingressStallDeadline \<le> time_sub (ie_now (ex_env ''y'' (ex_time + 10 * minute))) (ir_UpdatedAt ?r)"
    unfolding r(3) by (simp add: ex_env_def ex_time_def time_sub_def ingressStallDeadline_def max_duration_def min_duration_def)
  show ?thesis by (rule stalled_deliveries_settled [OF inv _ _ closing rec r(1,2) late]) (simp_all add: ex_env_def)
qed

end
