(* ===== verification/IngressNormalizer.thy ===== *)
theory IngressNormalizer
  imports IngressStore "HOL-Library.Multiset"
begin

text \<open>
  The normalizer of inbound events, \<open>internal/gateway/im_ingress_normalize.go\<close>: a pool of workers that
  looks up what a platform event is and accepts it, one event of a channel at a time and in the order in
  which the reader submitted them. Submitters and workers that have left the lock and still have a key to
  send on \<open>ready\<close> are the senders; an event names the branch a goroutine takes.
\<close>

section \<open>The pool\<close>

datatype norm_work = Protocol | Normalize

text \<open>A submitted event is a number and the function it came with. A worker with no item has only its key yet.\<close>

type_synonym norm_item = "nat \<times> norm_work"

record normalizer =
  nz_ctxDone :: bool
  nz_receiver :: bool
  nz_queues :: "(string, norm_item list) gomap"
  nz_ready :: "string list"
  nz_count :: int
  nz_closed :: bool
  nz_drained :: bool
  nz_senders :: "string list"
  nz_idle :: nat
  nz_busy :: "(string \<times> norm_item option) list"
  nz_submitted :: "(string \<times> nat) list"
  nz_answers :: "(string \<times> nat \<times> receive_result) list"

definition ingressNormalizationWorkers :: nat where "ingressNormalizationWorkers = 8"
definition ingressNormalizationCapacity :: nat where "ingressNormalizationCapacity = 128"

definition NewIngressNormalizer :: "bool \<Rightarrow> normalizer" where
  "NewIngressNormalizer receiver = \<lparr>nz_ctxDone = False, nz_receiver = receiver, nz_queues = [], nz_ready = [], nz_count = 0,
     nz_closed = False, nz_drained = False, nz_senders = [], nz_idle = ingressNormalizationWorkers, nz_busy = [],
     nz_submitted = [], nz_answers = []\<rparr>"

datatype submit_error = SubmitClosed | SubmitCancelled | SubmitInvalid | SubmitCapacity

definition submit :: "bool \<Rightarrow> string \<Rightarrow> nat \<Rightarrow> norm_work option \<Rightarrow> normalizer \<Rightarrow> submit_error option \<times> normalizer" where
  "submit cancelled key i work n =
     (if nz_closed n \<or> nz_ctxDone n then (Some SubmitClosed, n)
      else if cancelled then (Some SubmitCancelled, n)
      else case work of None \<Rightarrow> (Some SubmitInvalid, n)
      | Some w \<Rightarrow>
          if key = '''' \<or> \<not> nz_receiver n then (Some SubmitInvalid, n)
          else if int ingressNormalizationCapacity \<le> nz_count n then (Some SubmitCapacity, n)
          else let old = map_of (nz_queues n) key in
            (None, n\<lparr>nz_queues := AList.update key (get_or [] (nz_queues n) key @ [(i, w)]) (nz_queues n),
               nz_count := nz_count n + 1, nz_submitted := nz_submitted n @ [(key, i)],
               nz_senders := (if old = None then key # nz_senders n else nz_senders n)\<rparr>))"

text \<open>A send on the buffered channel; a full one makes the sender wait.\<close>

definition send_ready :: "string \<Rightarrow> normalizer \<Rightarrow> normalizer" where
  "send_ready key n =
     (if key \<in> set (nz_senders n) \<and> length (nz_ready n) < ingressNormalizationCapacity
      then n\<lparr>nz_senders := remove1 key (nz_senders n), nz_ready := nz_ready n @ [key]\<rparr> else n)"

text \<open>The steps of \<open>worker\<close>: to receive a key, to look at its queue, to finish its item, or to leave.\<close>

definition receive_key :: "normalizer \<Rightarrow> normalizer" where
  "receive_key n = (case nz_ready n of [] \<Rightarrow> n
   | key # rest \<Rightarrow> if nz_idle n = 0 then n
       else n\<lparr>nz_ready := rest, nz_idle := nz_idle n - 1, nz_busy := (key, None) # nz_busy n\<rparr>)"

definition look_queue :: "string \<Rightarrow> normalizer \<Rightarrow> normalizer" where
  "look_queue key n =
     (if (key, None) \<notin> set (nz_busy n) then n
      else let rest = remove1 (key, None) (nz_busy n) in
        case get_or [] (nz_queues n) key of
          [] \<Rightarrow> n\<lparr>nz_busy := rest, nz_idle := nz_idle n + 1\<rparr>
        | item # items \<Rightarrow> n\<lparr>nz_busy := (key, Some item) # rest\<rparr>)"

text \<open>\<open>normalize\<close>, on what its contexts and functions give; admission's own answer is never replaced.\<close>

definition normalize_item :: "bool \<Rightarrow> norm_work \<Rightarrow> receive_result \<Rightarrow> bool \<Rightarrow> bool \<Rightarrow> receive_result \<Rightarrow> receive_result" where
  "normalize_item cancelled work protocol late failed accepted =
     (if cancelled then plain_result ReceiveRetryable ''normalization_cancelled''
      else case work of Protocol \<Rightarrow> protocol
      | Normalize \<Rightarrow> if late then plain_result ReceiveRetryable ''normalization_cancelled''
          else if failed then plain_result ReceiveRetryable ''normalization_failed'' else accepted)"

text \<open>\<open>None\<close> is the panic of an index into a queue that is empty.\<close>

definition finish_item :: "string \<Rightarrow> norm_item \<Rightarrow> receive_result \<Rightarrow> normalizer \<Rightarrow> normalizer option" where
  "finish_item key item result n =
     (if (key, Some item) \<notin> set (nz_busy n) then Some n
      else case get_or [] (nz_queues n) key of
        [] \<Rightarrow> None
      | first # items \<Rightarrow>
          Some (n\<lparr>nz_answers := nz_answers n @ [(key, fst item, result)],
            nz_queues := (if items = [] then AList.delete key (nz_queues n) else AList.update key items (nz_queues n)),
            nz_count := nz_count n - 1, nz_busy := remove1 (key, Some item) (nz_busy n), nz_idle := nz_idle n + 1,
            nz_senders := (if items = [] then nz_senders n else key # nz_senders n)\<rparr>))"

definition worker_leaves :: "normalizer \<Rightarrow> normalizer" where
  "worker_leaves n = (if nz_ctxDone n \<and> nz_idle n \<noteq> 0 then n\<lparr>nz_idle := nz_idle n - 1\<rparr> else n)"

text \<open>\<open>shutdown\<close>: it closes, waits for the workers, and answers what is left, in whichever order of the keys.\<close>

definition shutdown_close :: "normalizer \<Rightarrow> normalizer" where
  "shutdown_close n = (if nz_ctxDone n then n\<lparr>nz_closed := True\<rparr> else n)"

definition left_over :: "string list \<Rightarrow> normalizer \<Rightarrow> (string \<times> nat \<times> receive_result) list" where
  "left_over keys n = concat (map (\<lambda>k. map (\<lambda>item. (k, fst item, plain_result ReceiveRetryable ''normalization_cancelled''))
     (get_or [] (nz_queues n) k)) keys)"

definition shutdown_drain :: "string list \<Rightarrow> normalizer \<Rightarrow> normalizer" where
  "shutdown_drain keys n =
     (if nz_closed n \<and> nz_idle n = 0 \<and> nz_busy n = [] \<and> \<not> nz_drained n \<and> mset keys = mset (map fst (nz_queues n))
      then n\<lparr>nz_answers := nz_answers n @ left_over keys n, nz_queues := [], nz_count := 0, nz_drained := True\<rparr> else n)"

record norm_snapshot =
  ns_Pending :: int
  ns_Keys :: nat
  ns_Closed :: bool

definition norm_Snapshot :: "normalizer \<Rightarrow> norm_snapshot" where
  "norm_Snapshot n = \<lparr>ns_Pending = nz_count n, ns_Keys = length (nz_queues n), ns_Closed = nz_closed n \<or> nz_ctxDone n\<rparr>"

section \<open>Runs\<close>

datatype norm_event =
    NSubmit bool string nat "norm_work option" | NSend string | NReceive | NLook string
  | NFinish string norm_item receive_result | NLeave | NCancel | NClose | NDrain "string list"

fun norm_step :: "norm_event \<Rightarrow> normalizer \<Rightarrow> normalizer option" where
  "norm_step (NSubmit cancelled key i work) n = Some (snd (submit cancelled key i work n))"
| "norm_step (NSend key) n = Some (send_ready key n)"
| "norm_step NReceive n = Some (receive_key n)"
| "norm_step (NLook key) n = Some (look_queue key n)"
| "norm_step (NFinish key item result) n = finish_item key item result n"
| "norm_step NLeave n = Some (worker_leaves n)"
| "norm_step NCancel n = Some (n\<lparr>nz_ctxDone := True\<rparr>)"
| "norm_step NClose n = Some (shutdown_close n)"
| "norm_step (NDrain keys) n = Some (shutdown_drain keys n)"

inductive norm_reach :: "bool \<Rightarrow> normalizer \<Rightarrow> bool" for receiver where
  norm_start: "norm_reach receiver (NewIngressNormalizer receiver)"
| norm_next: "norm_reach receiver n \<Longrightarrow> norm_step e n = Some n' \<Longrightarrow> norm_reach receiver n'"

section \<open>The tokens\<close>

text \<open>
  A key with a queue is in exactly one place: with a sender, on the channel or with a worker. Once drained the
  tokens are dead, and still fit the channel.
\<close>

definition norm_tokens :: "normalizer \<Rightarrow> string multiset" where
  "norm_tokens n = mset (nz_senders n) + mset (nz_ready n) + mset (map fst (nz_busy n))"

definition norm_ok :: "normalizer \<Rightarrow> bool" where
  "norm_ok n \<longleftrightarrow> wf_map (nz_queues n) \<and> (\<forall>k. map_of (nz_queues n) k \<noteq> Some [])
     \<and> nz_count n = gsum (\<lambda>q. int (length q)) (nz_queues n) \<and> nz_count n \<le> int ingressNormalizationCapacity
     \<and> size (norm_tokens n) \<le> ingressNormalizationCapacity
     \<and> (\<not> nz_drained n \<longrightarrow> norm_tokens n = mset (map fst (nz_queues n)))
     \<and> (nz_drained n \<longrightarrow> nz_queues n = [] \<and> nz_busy n = [] \<and> nz_idle n = 0 \<and> nz_closed n)
     \<and> (nz_closed n \<longrightarrow> nz_ctxDone n)
     \<and> (\<forall>k item. (k, Some item) \<in> set (nz_busy n) \<longrightarrow> (\<exists>items. map_of (nz_queues n) k = Some (item # items)))"

text \<open>What a key was given, what it answered, and what waits.\<close>

definition of_key :: "string \<Rightarrow> (string \<times> nat) list \<Rightarrow> nat list" where
  "of_key k xs = map snd (filter (\<lambda>p. fst p = k) xs)"

definition answered :: "normalizer \<Rightarrow> (string \<times> nat) list" where
  "answered n = map (\<lambda>(k, i, r). (k, i)) (nz_answers n)"

definition norm_history :: "normalizer \<Rightarrow> bool" where
  "norm_history n \<longleftrightarrow> (\<forall>k. of_key k (nz_submitted n) = of_key k (answered n) @ map fst (get_or [] (nz_queues n) k))"

section \<open>Every step keeps them\<close>

lemma keys_update: "mset (map fst (AList.update k v m)) = (if map_of m k = None then add_mset k (mset (map fst m)) else mset (map fst m))"
  by (auto simp: update_keys map_of_eq_None_iff)

lemma keys_delete: "wf_map m \<Longrightarrow> mset (map fst (AList.delete k m)) = mset (map fst m) - {#k#}"
  by (simp add: wf_map_def delete_keys flip: removeAll_filter_not_eq distinct_remove1_removeAll)

lemma size_keys:
  assumes "wf_map m" and "\<forall>k. map_of m k \<noteq> Some []"
  shows "int (length m) \<le> gsum (\<lambda>q. int (length q)) m"
proof -
  have "1 \<le> int (length (snd p))" if p: "p \<in> set m" for p
  proof -
    have "map_of m (fst p) = Some (snd p)" using p assms(1) by (simp add: wf_map_def)
    with assms(2) have "snd p \<noteq> []" by metis
    then show ?thesis by (cases "snd p") simp_all
  qed
  then have "sum_list (map (\<lambda>p. 1) m) \<le> sum_list (map (\<lambda>p. int (length (snd p))) m)" by (intro sum_list_mono) blast
  then show ?thesis by (simp add: gsum_def comp_def sum_list_triv)
qed

lemma tokens_fit: "norm_ok n \<Longrightarrow> length (nz_ready n) + length (nz_senders n) \<le> ingressNormalizationCapacity"
  by (simp add: norm_ok_def norm_tokens_def)

lemma busy_head: "norm_ok n \<Longrightarrow> (k, Some item) \<in> set (nz_busy n) \<Longrightarrow> \<exists>items. map_of (nz_queues n) k = Some (item # items)"
  unfolding norm_ok_def by blast

lemma submit_ok:
  assumes ok: "norm_ok n" and "norm_history n"
  shows "norm_ok (snd (submit cancelled key i work n)) \<and> norm_history (snd (submit cancelled key i work n))"
proof (cases "snd (submit cancelled key i work n) = n")
  case False
  let ?q = "get_or [] (nz_queues n) key"
  obtain w where live: "\<not> nz_closed n" "\<not> nz_ctxDone n" and room: "nz_count n < int ingressNormalizationCapacity"
    and n': "snd (submit cancelled key i work n) = n\<lparr>nz_queues := AList.update key (?q @ [(i, w)]) (nz_queues n),
       nz_count := nz_count n + 1, nz_submitted := nz_submitted n @ [(key, i)],
       nz_senders := (if map_of (nz_queues n) key = None then key # nz_senders n else nz_senders n)\<rparr>" (is "_ = ?n")
    using False by (cases work) (auto simp: submit_def Let_def split: if_splits)
  have undrained: "\<not> nz_drained n" using ok live by (auto simp: norm_ok_def)
  have tok: "norm_tokens ?n = mset (map fst (AList.update key (?q @ [(i, w)]) (nz_queues n)))"
    using ok undrained unfolding keys_update by (simp add: norm_ok_def norm_tokens_def)
  have wf: "wf_map (AList.update key (?q @ [(i, w)]) (nz_queues n))" using ok by (simp add: norm_ok_def gm.wf_put)
  have full: "\<forall>k. map_of (AList.update key (?q @ [(i, w)]) (nz_queues n)) k \<noteq> Some []"
    using ok by (simp add: norm_ok_def)
  have count: "nz_count n + 1 = gsum (\<lambda>q. int (length q)) (AList.update key (?q @ [(i, w)]) (nz_queues n))"
    using ok by (simp add: norm_ok_def gsum_update get_or_def split: option.split)
  have "size (norm_tokens ?n) \<le> ingressNormalizationCapacity"
    unfolding tok using size_keys [OF wf full] count room by simp
  moreover have "\<exists>items. map_of (AList.update key (?q @ [(i, w)]) (nz_queues n)) k = Some (item # items)"
    if busy: "(k, Some item) \<in> set (nz_busy n)" for k item
  proof -
    from busy_head [OF ok busy] obtain items where "map_of (nz_queues n) k = Some (item # items)" ..
    then show ?thesis by (auto simp: get_or_def)
  qed
  ultimately have "norm_ok ?n"
    using ok undrained live room wf full count tok unfolding norm_ok_def by simp
  moreover have "norm_history ?n"
    using assms(2) by (auto simp: norm_history_def of_key_def answered_def get_or_def)
  ultimately show ?thesis unfolding n' by blast
qed (use assms in simp)

lemma norm_ok_cong:
  assumes "norm_ok n" and "nz_queues n' = nz_queues n" "nz_count n' = nz_count n" "nz_drained n' = nz_drained n"
    and "norm_tokens n' = norm_tokens n" and "nz_drained n \<Longrightarrow> nz_busy n' = [] \<and> nz_idle n' = 0 \<and> nz_closed n'"
    and "nz_closed n' \<Longrightarrow> nz_ctxDone n'"
    and "\<And>k item. (k, Some item) \<in> set (nz_busy n') \<Longrightarrow> \<exists>items. map_of (nz_queues n) k = Some (item # items)"
  shows "norm_ok n'"
  using assms unfolding norm_ok_def by simp

lemma norm_history_cong:
  "norm_history n \<Longrightarrow> nz_queues n' = nz_queues n \<Longrightarrow> nz_submitted n' = nz_submitted n \<Longrightarrow> nz_answers n' = nz_answers n \<Longrightarrow> norm_history n'"
  by (simp add: norm_history_def answered_def)

lemma norm_ok_idle: "norm_ok n \<Longrightarrow> nz_drained n \<Longrightarrow> nz_busy n = [] \<and> nz_idle n = 0 \<and> nz_closed n"
  by (simp add: norm_ok_def)

lemma norm_ok_closed: "norm_ok n \<Longrightarrow> nz_closed n \<Longrightarrow> nz_ctxDone n"
  by (simp add: norm_ok_def)

lemma send_ok:
  assumes "norm_ok n"
  shows "norm_ok (send_ready key n)"
proof (cases "key \<in> set (nz_senders n) \<and> length (nz_ready n) < ingressNormalizationCapacity")
  case True
  then have eq: "send_ready key n = n\<lparr>nz_senders := remove1 key (nz_senders n), nz_ready := nz_ready n @ [key]\<rparr>"
    by (simp add: send_ready_def)
  have "norm_tokens (send_ready key n) = norm_tokens n" using True unfolding eq by (simp add: norm_tokens_def)
  then show ?thesis
    by (rule norm_ok_cong [OF assms, rotated 3])
      (use busy_head [OF assms] norm_ok_idle [OF assms] norm_ok_closed [OF assms] in \<open>simp_all add: eq\<close>)
qed (use assms in \<open>auto simp: send_ready_def\<close>)

lemma receive_ok:
  assumes "norm_ok n"
  shows "norm_ok (receive_key n)"
proof (cases "nz_ready n = [] \<or> nz_idle n = 0")
  case False
  then obtain key rest where r: "nz_ready n = key # rest" by (cases "nz_ready n") auto
  with False have eq: "receive_key n = n\<lparr>nz_ready := rest, nz_idle := nz_idle n - 1, nz_busy := (key, None) # nz_busy n\<rparr>"
    by (simp add: receive_key_def)
  have "norm_tokens (receive_key n) = norm_tokens n" unfolding eq by (simp add: norm_tokens_def r)
  then show ?thesis
    by (rule norm_ok_cong [OF assms, rotated 3])
      (use busy_head [OF assms] norm_ok_idle [OF assms] norm_ok_closed [OF assms] False in \<open>auto simp: eq\<close>)
qed (use assms in \<open>auto simp: receive_key_def split: list.split\<close>)

text \<open>A worker that received a key finds its queue: the early \<open>continue\<close> is never taken before the end.\<close>

lemma received_has_queue:
  assumes "norm_ok n" and "(key, w) \<in> set (nz_busy n)"
  shows "\<exists>item items. map_of (nz_queues n) key = Some (item # items)"
proof -
  have live: "\<not> nz_drained n" using assms by (auto simp: norm_ok_def)
  then have "key \<in># norm_tokens n" using assms(2) by (force simp: norm_tokens_def)
  then have "key \<in> fst ` set (nz_queues n)" using assms(1) live unfolding norm_ok_def by (metis set_map set_mset_mset)
  then obtain q where "map_of (nz_queues n) key = Some q" by (meson map_of_eq_None_iff not_None_eq)
  moreover have "q \<noteq> []" using calculation assms(1) unfolding norm_ok_def by blast
  ultimately show ?thesis by (cases q) auto
qed

lemma look_ok:
  assumes "norm_ok n"
  shows "norm_ok (look_queue key n)"
proof (cases "(key, None) \<in> set (nz_busy n)")
  case True
  from received_has_queue [OF assms True] obtain item items where q: "map_of (nz_queues n) key = Some (item # items)" by blast
  then have eq: "look_queue key n = n\<lparr>nz_busy := (key, Some item) # remove1 (key, None) (nz_busy n)\<rparr>"
    using True by (simp add: look_queue_def Let_def get_or_def)
  have "mset (map fst (remove1 (key, None) (nz_busy n))) = mset (map fst (nz_busy n)) - {#key#}"
    using True by (simp add: image_mset_Diff)
  moreover have "key \<in># mset (map fst (nz_busy n))" using True by force
  ultimately have tok: "norm_tokens (look_queue key n) = norm_tokens n" unfolding eq by (simp add: norm_tokens_def)
  have head: "\<exists>items. map_of (nz_queues n) k = Some (i # items)" if "(k, Some i) \<in> set (nz_busy (look_queue key n))" for k i
    using that q busy_head [OF assms, of k i] by (auto simp: eq dest: notin_set_remove1)
  have "nz_busy n \<noteq> []" using True by auto
  then show ?thesis
    by (intro norm_ok_cong [OF assms _ _ _ tok]) (use head norm_ok_idle [OF assms] norm_ok_closed [OF assms] in \<open>auto simp: eq\<close>)
qed (use assms in \<open>simp add: look_queue_def\<close>)

lemma keys_remove1: "(k, w) \<in> set xs \<Longrightarrow> mset (map fst xs) = add_mset k (mset (map fst (remove1 (k, w) xs)))"
  by (induction xs) auto

lemma key_once:
  assumes "norm_ok n" and "(key, w) \<in> set (nz_busy n)"
  shows "key \<notin> fst ` set (remove1 (key, w) (nz_busy n))" and "key \<notin> set (nz_ready n)" and "key \<notin> set (nz_senders n)"
proof -
  have "\<not> nz_drained n" using assms by (auto simp: norm_ok_def)
  then have tok: "norm_tokens n = mset (map fst (nz_queues n))" and wf: "wf_map (nz_queues n)" using assms(1) by (simp_all add: norm_ok_def)
  have "mset (map fst (nz_busy n)) = add_mset key (mset (map fst (remove1 (key, w) (nz_busy n))))" by (rule keys_remove1 [OF assms(2)])
  moreover have "count (norm_tokens n) key \<le> 1" unfolding tok using wf by (simp add: wf_map_def distinct_count_atmost_1)
  ultimately have "count (mset (nz_senders n) + mset (nz_ready n) + mset (map fst (remove1 (key, w) (nz_busy n)))) key = 0"
    by (simp add: norm_tokens_def)
  then have "key \<notin># mset (nz_senders n) + mset (nz_ready n) + mset (map fst (remove1 (key, w) (nz_busy n)))"
    by (simp only: not_in_iff)
  then have "key \<notin> set (map fst (remove1 (key, w) (nz_busy n)))" "key \<notin> set (nz_ready n)" "key \<notin> set (nz_senders n)"
    by (simp_all only: set_mset_mset union_iff de_Morgan_disj simp_thms)
  then show "key \<notin> fst ` set (remove1 (key, w) (nz_busy n))" "key \<notin> set (nz_ready n)" "key \<notin> set (nz_senders n)" by simp_all
qed

lemma of_key_append [simp]: "of_key k (xs @ ys) = of_key k xs @ of_key k ys"
  by (simp add: of_key_def)

lemma answered_append [simp]: "answered (n\<lparr>nz_answers := xs @ ys\<rparr>) = answered (n\<lparr>nz_answers := xs\<rparr>) @ map (\<lambda>(k, i, r). (k, i)) ys"
  by (simp add: answered_def)

text \<open>Finishing never reads an empty queue.\<close>

lemma finish_some: "norm_ok n \<Longrightarrow> finish_item key item result n \<noteq> None"
  using received_has_queue [of n key "Some item"] by (auto simp: finish_item_def get_or_def)

lemma finish_ok:
  assumes ok: "norm_ok n" and hist: "norm_history n" and fin: "finish_item key item result n = Some n'"
  shows "norm_ok n' \<and> norm_history n'"
proof (cases "(key, Some item) \<in> set (nz_busy n)")
  case True
  let ?m = "nz_queues n" and ?rest = "remove1 (key, Some item) (nz_busy n)"
  from busy_head [OF ok True] obtain items where q: "map_of ?m key = Some (item # items)" by blast
  let ?m' = "if items = [] then AList.delete key ?m else AList.update key items ?m"
  from fin True q have n': "n' = n\<lparr>nz_answers := nz_answers n @ [(key, fst item, result)], nz_queues := ?m', nz_count := nz_count n - 1,
      nz_busy := ?rest, nz_idle := nz_idle n + 1, nz_senders := (if items = [] then nz_senders n else key # nz_senders n)\<rparr>"
    by (simp add: finish_item_def get_or_def)
  have undrained: "\<not> nz_drained n" using ok True by (auto simp: norm_ok_def)
  have wf: "wf_map ?m" and full: "\<forall>k. map_of ?m k \<noteq> Some []" and tok: "norm_tokens n = mset (map fst ?m)"
    and cnt: "nz_count n = gsum (\<lambda>q. int (length q)) ?m" and cap: "nz_count n \<le> int ingressNormalizationCapacity"
    using ok undrained by (simp_all add: norm_ok_def)
  have look: "map_of ?m' k = (if k = key then (if items = [] then None else Some items) else map_of ?m k)" for k by simp
  have busy: "mset (map fst (nz_busy n)) = add_mset key (mset (map fst ?rest))" by (rule keys_remove1 [OF True])
  have tok': "norm_tokens n' = mset (map fst ?m')"
  proof (cases "items = []")
    case True
    have "norm_tokens n' = norm_tokens n - {#key#}" using True busy by (simp add: n' norm_tokens_def)
    then show ?thesis using True tok keys_delete [OF wf, of key] by simp
  next
    case False
    have "norm_tokens n' = norm_tokens n" using False busy by (simp add: n' norm_tokens_def)
    then show ?thesis using False tok keys_update [of key items ?m] q by simp
  qed
  have wf': "wf_map ?m'" using wf by (simp add: gm.wf_put gm.wf_del)
  have full': "\<forall>k. map_of ?m' k \<noteq> Some []" unfolding look using full by simp
  have cnt': "nz_count n - 1 = gsum (\<lambda>q. int (length q)) ?m'"
    using cnt q by (simp add: gsum_update gsum_delete [OF wf])
  have size': "size (norm_tokens n') \<le> ingressNormalizationCapacity"
    unfolding tok' using size_keys [OF wf' full'] cnt' cap by simp
  have heads: "\<exists>xs. map_of ?m' k = Some (i # xs)" if b: "(k, Some i) \<in> set ?rest" for k i
  proof -
    have "k \<noteq> key" using key_once(1) [OF ok True] b by force
    moreover have "(k, Some i) \<in> set (nz_busy n)" using b set_remove1_subset by fastforce
    ultimately show ?thesis unfolding look using busy_head [OF ok] by simp
  qed
  have "norm_ok n'"
    unfolding norm_ok_def using wf' full' cnt' cap size' tok' heads undrained norm_ok_closed [OF ok] by (simp add: n' del: map_map)
  moreover have "norm_history n'"
  proof -
    have "of_key k (nz_submitted n) = of_key k (answered n) @ map fst (get_or [] ?m k)" for k using hist by (simp add: norm_history_def)
    moreover have "get_or [] ?m key = item # items" "get_or [] ?m' key = items" using q by (simp_all add: get_or_def look)
    moreover have "get_or [] ?m' k = get_or [] ?m k" if "k \<noteq> key" for k using that by (simp add: get_or_def look)
    ultimately show ?thesis
      unfolding norm_history_def by (auto simp: n' answered_def of_key_def)
  qed
  ultimately show ?thesis ..
qed (use assms in \<open>simp add: finish_item_def\<close>)

lemma norm_leave_ok:
  assumes "norm_ok n"
  shows "norm_ok (worker_leaves n)"
proof (cases "nz_ctxDone n \<and> nz_idle n \<noteq> 0")
  case True
  then show ?thesis
    by (intro norm_ok_cong [OF assms])
      (use busy_head [OF assms] norm_ok_idle [OF assms] norm_ok_closed [OF assms] in \<open>auto simp: worker_leaves_def norm_tokens_def\<close>)
qed (use assms in \<open>auto simp: worker_leaves_def\<close>)

lemma cancel_ok: "norm_ok n \<Longrightarrow> norm_ok (n\<lparr>nz_ctxDone := True\<rparr>)"
  by (simp add: norm_ok_def norm_tokens_def)

lemma close_ok: "norm_ok n \<Longrightarrow> norm_ok (shutdown_close n)"
  by (cases "nz_ctxDone n") (auto simp: norm_ok_def norm_tokens_def shutdown_close_def)

text \<open>The drain answers every queue that is left, in its order.\<close>

lemma of_key_pairs: "of_key k (map (\<lambda>x. (a, f x)) xs) = (if a = k then map f xs else [])"
  by (induction xs) (auto simp: of_key_def)

lemma left_over_key:
  assumes "distinct keys"
  shows "of_key k (map (\<lambda>(k, i, r). (k, i)) (left_over keys n)) = (if k \<in> set keys then map fst (get_or [] (nz_queues n) k) else [])"
proof -
  have "of_key k (map (\<lambda>(k, i, r). (k, i)) (left_over keys n)) =
      concat (map (\<lambda>a. if a = k then map fst (get_or [] (nz_queues n) a) else []) keys)"
    by (induction keys) (simp_all add: left_over_def of_key_def comp_def filter_map)
  also have "\<dots> = (if k \<in> set keys then map fst (get_or [] (nz_queues n) k) else [])"
    using assms by (induction keys) auto
  finally show ?thesis .
qed

lemma drain_ok:
  assumes ok: "norm_ok n" and hist: "norm_history n"
  shows "norm_ok (shutdown_drain keys n) \<and> norm_history (shutdown_drain keys n)"
proof (cases "nz_closed n \<and> nz_idle n = 0 \<and> nz_busy n = [] \<and> \<not> nz_drained n \<and> mset keys = mset (map fst (nz_queues n))")
  case True
  then have eq: "shutdown_drain keys n = n\<lparr>nz_answers := nz_answers n @ left_over keys n, nz_queues := [], nz_count := 0, nz_drained := True\<rparr>"
    by (simp add: shutdown_drain_def)
  have "distinct keys" "set keys = fst ` set (nz_queues n)"
    using True ok by (metis norm_ok_def wf_map_def mset_eq_imp_distinct_iff, metis True mset_eq_setD set_map)
  then have "of_key k (map (\<lambda>(k, i, r). (k, i)) (left_over keys n)) = map fst (get_or [] (nz_queues n) k)" for k
    by (simp add: left_over_key get_or_def map_of_eq_None_iff [symmetric] split: option.split)
  then have "norm_history (shutdown_drain keys n)" using hist by (simp add: norm_history_def eq answered_def get_or_def)
  moreover have "norm_ok (shutdown_drain keys n)"
  proof -
    have "norm_tokens (shutdown_drain keys n) = norm_tokens n" by (simp add: eq norm_tokens_def)
    then have "size (norm_tokens (shutdown_drain keys n)) \<le> ingressNormalizationCapacity" using ok by (simp add: norm_ok_def)
    then show ?thesis using norm_ok_closed [OF ok] True unfolding norm_ok_def by (simp add: eq wf_map_def)
  qed
  ultimately show ?thesis by blast
qed (use assms in \<open>auto simp: shutdown_drain_def\<close>)

lemma history_others:
  "norm_history (send_ready key n) = norm_history n" "norm_history (receive_key n) = norm_history n"
  "norm_history (look_queue key n) = norm_history n" "norm_history (worker_leaves n) = norm_history n"
  "norm_history (n\<lparr>nz_ctxDone := True\<rparr>) = norm_history n" "norm_history (shutdown_close n) = norm_history n"
  by (simp_all add: norm_history_def answered_def send_ready_def receive_key_def look_queue_def worker_leaves_def shutdown_close_def
      Let_def split: list.split)

lemma norm_new_ok: "norm_ok (NewIngressNormalizer receiver) \<and> norm_history (NewIngressNormalizer receiver)"
  by (simp add: NewIngressNormalizer_def norm_ok_def norm_tokens_def norm_history_def answered_def of_key_def get_or_def wf_map_def
      ingressNormalizationCapacity_def)

lemma norm_step_ok:
  assumes "norm_step e n = Some n'" and "norm_ok n" and "norm_history n"
  shows "norm_ok n' \<and> norm_history n'"
  using assms submit_ok [OF assms(2,3)] finish_ok [OF assms(2,3)] drain_ok [OF assms(2,3)]
  by (cases e) (auto simp: history_others send_ok receive_ok look_ok norm_leave_ok cancel_ok close_ok)

lemma norm_reach_ok: "norm_reach receiver n \<Longrightarrow> norm_ok n \<and> norm_history n"
  by (induction rule: norm_reach.induct) (use norm_new_ok norm_step_ok in blast)+

text \<open>The pool keeps its eight workers until it is cancelled.\<close>

definition pool_ok :: "normalizer \<Rightarrow> bool" where
  "pool_ok n \<longleftrightarrow> nz_idle n + length (nz_busy n) \<le> ingressNormalizationWorkers
     \<and> (\<not> nz_ctxDone n \<longrightarrow> nz_idle n + length (nz_busy n) = ingressNormalizationWorkers)"

lemma busy_length: "x \<in> set (nz_busy n) \<Longrightarrow> Suc (length (remove1 x (nz_busy n))) = length (nz_busy n)"
  using length_pos_if_in_set [of x "nz_busy n"] by (simp add: length_remove1)

lemma pool_cong: "pool_ok n \<Longrightarrow> nz_idle n' + length (nz_busy n') = nz_idle n + length (nz_busy n) \<Longrightarrow> nz_ctxDone n' = nz_ctxDone n \<Longrightarrow> pool_ok n'"
  by (simp add: pool_ok_def)

lemma pool_frame:
  assumes "pool_ok n"
  shows "pool_ok (snd (submit cancelled key i work n))" and "pool_ok (send_ready key n)" and "pool_ok (receive_key n)"
    and "pool_ok (look_queue key n)" and "pool_ok (worker_leaves n)" and "pool_ok (n\<lparr>nz_ctxDone := True\<rparr>)" and "pool_ok (shutdown_close n)" and "pool_ok (shutdown_drain keys n)"
proof -
  show "pool_ok (shutdown_drain keys n)" by (rule pool_cong [OF assms]) (simp_all add: shutdown_drain_def)
  show "pool_ok (snd (submit cancelled key i work n))"
    by (rule pool_cong [OF assms]) (simp_all add: submit_def Let_def split: option.split)
  show "pool_ok (send_ready key n)" by (rule pool_cong [OF assms]) (simp_all add: send_ready_def)
  show "pool_ok (receive_key n)" by (rule pool_cong [OF assms]) (simp_all add: receive_key_def split: list.split)
  show "pool_ok (look_queue key n)"
    by (rule pool_cong [OF assms]) (use busy_length [of "(key, None)" n] in \<open>simp_all add: look_queue_def Let_def split: list.split\<close>)
  show "pool_ok (worker_leaves n)" using assms by (cases "nz_ctxDone n \<and> nz_idle n \<noteq> 0") (auto simp: pool_ok_def worker_leaves_def)
  show "pool_ok (n\<lparr>nz_ctxDone := True\<rparr>)" using assms by (simp add: pool_ok_def)
  show "pool_ok (shutdown_close n)" by (rule pool_cong [OF assms]) (simp_all add: shutdown_close_def)
qed

lemma norm_step_pool:
  assumes "norm_step e n = Some n'" and "pool_ok n"
  shows "pool_ok n'"
proof (cases e)
  case (NFinish key item result)
  with assms busy_length [of "(key, Some item)" n] show ?thesis
    by (intro pool_cong [OF assms(2)]) (auto simp: finish_item_def split: list.splits if_splits)
qed (use assms pool_frame [OF assms(2)] in auto)

lemma norm_reach_pool: "norm_reach receiver n \<Longrightarrow> pool_ok n"
proof (induction rule: norm_reach.induct)
  case norm_start
  show ?case by (simp add: pool_ok_def NewIngressNormalizer_def)
qed (rule norm_step_pool)

section \<open>What the normalizer guarantees\<close>

text \<open>
  Whatever the goroutines do, a channel has at most one event in work and stands in one place only, no
  more than 128 events wait or run, a key that is to be sent on finds room at once, and no queue is read
  when it is empty.
\<close>

theorem normalizer_exclusive:
  assumes "norm_reach receiver n"
  shows "distinct (map fst (nz_busy n))
    \<and> (\<not> nz_drained n \<longrightarrow> distinct (nz_senders n @ nz_ready n @ map fst (nz_busy n)))
    \<and> nz_count n \<le> 128 \<and> int (length (nz_queues n)) \<le> nz_count n
    \<and> (nz_senders n \<noteq> [] \<longrightarrow> length (nz_ready n) < 128) \<and> norm_step e n \<noteq> None"
proof -
  have ok: "norm_ok n" using norm_reach_ok [OF assms] by blast
  have apart: "distinct (nz_senders n @ nz_ready n @ map fst (nz_busy n))" if "\<not> nz_drained n"
  proof -
    have "mset (nz_senders n @ nz_ready n @ map fst (nz_busy n)) = mset (map fst (nz_queues n))"
      using ok that by (simp add: norm_ok_def norm_tokens_def add.assoc)
    moreover have "distinct (map fst (nz_queues n))" using ok by (simp add: norm_ok_def wf_map_def)
    ultimately show ?thesis by (metis mset_eq_imp_distinct_iff)
  qed
  have "nz_busy n = []" if "nz_drained n" using norm_ok_idle [OF ok that] by blast
  with apart have "distinct (map fst (nz_busy n))" by (cases "nz_drained n") auto
  moreover have "nz_senders n \<noteq> [] \<longrightarrow> length (nz_ready n) < 128"
    using tokens_fit [OF ok] by (cases "nz_senders n") (simp_all add: ingressNormalizationCapacity_def)
  moreover have "norm_step e n \<noteq> None" using finish_some [OF ok] by (cases e) auto
  moreover have "nz_count n \<le> 128" "int (length (nz_queues n)) \<le> nz_count n"
    using ok size_keys [of "nz_queues n"] by (simp_all add: norm_ok_def ingressNormalizationCapacity_def)
  ultimately show ?thesis using apart by blast
qed

text \<open>
  C32: The events of a channel are answered in the order in which they were submitted, each at most once, and
  all of them once the normalizer has shut down.
\<close>

theorem normalizer_in_order:
  assumes "norm_reach receiver n"
  shows "of_key k (nz_submitted n) = of_key k (answered n) @ map fst (get_or [] (nz_queues n) k)
    \<and> (nz_drained n \<longrightarrow> of_key k (nz_submitted n) = of_key k (answered n))"
  using norm_reach_ok [OF assms] by (auto simp: norm_history_def norm_ok_def get_or_def)

text \<open>
  C33: While the gateway runs no event is stranded: if one waits and no worker has one, a key can be sent or
  a worker can take one.
\<close>

theorem normalizer_progresses:
  assumes "norm_reach receiver n" and "\<not> nz_ctxDone n" and "nz_count n \<noteq> 0" and "nz_busy n = []"
  shows "\<exists>e n'. (e = NReceive \<or> (\<exists>k. e = NSend k)) \<and> norm_step e n = Some n' \<and> n' \<noteq> n"
proof -
  have ok: "norm_ok n" using norm_reach_ok [OF assms(1)] by blast
  have live: "\<not> nz_drained n" using ok assms(2) norm_ok_idle [OF ok] norm_ok_closed [OF ok] by blast
  have "nz_queues n \<noteq> []" using ok assms(3) by (auto simp: norm_ok_def)
  then have "norm_tokens n \<noteq> {#}" using ok live by (simp add: norm_ok_def)
  then consider k ks where "nz_ready n = k # ks" | k ks where "nz_senders n = k # ks"
    using assms(4) by (cases "nz_ready n"; cases "nz_senders n") (auto simp: norm_tokens_def)
  then show ?thesis
  proof cases
    case 1
    have "nz_idle n \<noteq> 0" using norm_reach_pool [OF assms(1)] assms(2,4) by (simp add: pool_ok_def ingressNormalizationWorkers_def)
    then have "nz_busy (receive_key n) \<noteq> nz_busy n" using 1 assms(4) by (simp add: receive_key_def)
    then have "receive_key n \<noteq> n" by metis
    then show ?thesis by (intro exI [of _ NReceive] exI [of _ "receive_key n"]) simp
  next
    case 2
    have "length (nz_ready n) < ingressNormalizationCapacity" using tokens_fit [OF ok] 2 by simp
    then have "length (nz_ready (send_ready k n)) \<noteq> length (nz_ready n)" using 2 by (simp add: send_ready_def)
    then have "send_ready k n \<noteq> n" by metis
    then show ?thesis by (intro exI [of _ "NSend k"] exI [of _ "send_ready k n"]) simp
  qed
qed

definition ex_norm :: normalizer where
  "ex_norm = (NewIngressNormalizer True)\<lparr>nz_queues := [(''a'', [(1, Normalize)])], nz_count := 1, nz_submitted := [(''a'', 1)],
     nz_senders := [''a'']\<rparr>"

lemma ex_norm_reach: "norm_reach True ex_norm"
proof -
  have "norm_step (NSubmit False ''a'' 1 (Some Normalize)) (NewIngressNormalizer True) = Some ex_norm"
    by (simp add: submit_def NewIngressNormalizer_def ex_norm_def ingressNormalizationCapacity_def get_or_def)
  with norm_start show ?thesis by (rule norm_next)
qed

theorem normalizer_exclusive_witness: "distinct (nz_senders ex_norm @ nz_ready ex_norm @ map fst (nz_busy ex_norm)) \<and> nz_count ex_norm \<le> 128"
  using normalizer_exclusive [OF ex_norm_reach, of NReceive] by (simp add: ex_norm_def NewIngressNormalizer_def)

theorem normalizer_in_order_witness:
  "of_key ''a'' (nz_submitted ex_norm) = of_key ''a'' (answered ex_norm) @ map fst (get_or [] (nz_queues ex_norm) ''a'')"
  using normalizer_in_order [OF ex_norm_reach] by blast

theorem normalizer_progresses_witness: "\<exists>e n'. (e = NReceive \<or> (\<exists>k. e = NSend k)) \<and> norm_step e ex_norm = Some n' \<and> n' \<noteq> ex_norm"
  by (rule normalizer_progresses [OF ex_norm_reach]) (simp_all add: ex_norm_def NewIngressNormalizer_def)

end
