(* ===== verification/Takeover.thy ===== *)
theory Takeover
  imports SessionTransfers SessionPins ProcessReceipts
begin

text \<open>
  Handing a session over and back, \<open>internal/gateway/process_takeover.go\<close>, with the places of \<open>router_takeover.go\<close>
  and \<open>router_ingress_takeover.go\<close> that write or delete a guard. Every operation here holds the
  lock of the binding's key, or only writes the guards under their own lock, so it is one step on what the manager has for that key: its process, the guards
  of transfers with their files, and the pins. A process that is no longer the manager's is the flag
  \<open>current\<close>. Where an operation waits for the new process, its state at that moment is given.
\<close>

section \<open>A binding\<close>

record binding =
  bg_process :: "chord_process option"
  bg_transfers :: transfer_store
  bg_disk :: transfer_disk
  bg_pins :: "pin_store option"
  bg_shuttingDown :: bool

text \<open>How the writes of one operation end: the guards, the pins, and the command to the process.\<close>

record takeover_env =
  te_guard :: commit_env
  te_pins :: write_end
  te_written :: bool

datatype takeover_error =
    StaleSource | InvalidProgress | UnconfirmedInputs | GuardFailed transfer_error | PinFailed | AckFailed input_error
  | ManagerShuttingDown | GuardUnreadable | StaleTransferError | NotReleased | BindingOwned | UnresolvedInputs | SpawnFailed
  | TargetDisconnected | NotReadyPaused | PinStoreUnavailable | ReadinessUnknown | NoTransfer | StillActive | ProcessBusy
  | SourceGone | SourceNotOpen | StaleSourceBinding | NoLongerOwns | NoReply

text \<open>What an envelope of a transfer makes the gateway send, report and announce.\<close>

record transfer_effects =
  tf_acks :: "(transfer_status \<times> string) list"
  tf_errors :: "takeover_error list"
  tf_notify :: bool

definition no_transfer_effects :: transfer_effects where
  "no_transfer_effects = \<lparr>tf_acks = [], tf_errors = [], tf_notify = False\<rparr>"

definition sessionTransferExitCode :: int where "sessionTransferExitCode = 20"

definition sameTransferIdentity :: "transfer_status \<Rightarrow> transfer_status \<Rightarrow> bool" where
  "sameTransferIdentity a b \<longleftrightarrow> tr_TransferID a = tr_TransferID b \<and> tr_SessionID a = tr_SessionID b
     \<and> tr_SourceRuntimeID a = tr_SourceRuntimeID b \<and> tr_SourceSessionEpoch a = tr_SourceSessionEpoch b
     \<and> tr_Workspace a = tr_Workspace b \<and> tr_TargetKind a = tr_TargetKind b \<and> tr_TargetInstanceID a = tr_TargetInstanceID b"

definition update_guard :: "takeover_env \<Rightarrow> string \<Rightarrow> session_transfer option \<Rightarrow> string \<Rightarrow> binding \<Rightarrow> binding \<times> takeover_error option" where
  "update_guard e key v expected b =
     (let (s, trace, err) = transfer_update (te_guard e) key v expected (bg_transfers b, bg_disk b) in
      (b\<lparr>bg_transfers := s, bg_disk := last_disk (bg_disk b) trace\<rparr>, map_option GuardFailed err))"

definition replace_guard :: "takeover_env \<Rightarrow> string \<Rightarrow> session_transfer \<Rightarrow> string \<Rightarrow> binding \<Rightarrow> binding \<times> takeover_error option" where
  "replace_guard e key v expected b =
     (let (s, trace, err) = transfer_replace (te_guard e) key v expected (bg_transfers b, bg_disk b) in
      (b\<lparr>bg_transfers := s, bg_disk := last_disk (bg_disk b) trace\<rparr>, map_option GuardFailed err))"

definition clear_pin :: "takeover_env \<Rightarrow> string \<Rightarrow> string \<Rightarrow> binding \<Rightarrow> binding \<times> bool" where
  "clear_pin e key session b = (case bg_pins b of None \<Rightarrow> (b, True)
     | Some s \<Rightarrow> (let (s, ok) = pins_ClearIf (te_pins e) key session s in (b\<lparr>bg_pins := Some s\<rparr>, ok)))"

definition guard_of :: "string \<Rightarrow> binding \<Rightarrow> session_transfer option" where
  "guard_of key b = map_of (ts_entries (bg_transfers b)) key"

section \<open>Envelopes\<close>

definition valid_source :: "transfer_status \<Rightarrow> chord_process \<Rightarrow> bool" where
  "valid_source t p \<longleftrightarrow> tr_TransferID t \<noteq> '''' \<and> tr_SessionID t = st_SessionID (px_state p) \<and> tr_SourceRuntimeID t \<noteq> ''''
     \<and> tr_SourceRuntimeID t = px_runtimeID p \<and> tr_SourceSessionEpoch t = px_sessionEpoch p \<and> tr_Workspace t = px_workspacePath p
     \<and> tr_TargetKind t = ''tui'' \<and> tr_TargetInstanceID t \<noteq> '''' \<and> px_bindingInstanceID p \<noteq> ''''
     \<and> tr_BindingInstanceID t = px_bindingInstanceID p"

text \<open>\<open>ackTransferPreparation\<close>; the answer is one of the commands a blocked process takes.\<close>

definition ack_preparation :: "takeover_env \<Rightarrow> transfer_status \<Rightarrow> string \<Rightarrow> chord_process \<Rightarrow> transfer_effects" where
  "ack_preparation e t code p =
     (if \<not> commandAllowed ''session_transfer_prepared'' '''' '''' p then no_transfer_effects\<lparr>tf_errors := [AckFailed SessionTransferred]\<rparr>
      else case writeCommand (te_written e) p of
        None \<Rightarrow> no_transfer_effects\<lparr>tf_acks := [(t, code)]\<rparr>
      | Some err \<Rightarrow> no_transfer_effects\<lparr>tf_errors := [AckFailed err]\<rparr>)"

definition progress_states :: "string list" where
  "progress_states = [''preparing'', ''prepare_failed'', ''draining'', ''saving'', ''save_failed'']"

text \<open>The state a later envelope of a transfer moves to; no state is an envelope that is ignored.\<close>

definition next_status :: "string \<Rightarrow> transfer_status \<Rightarrow> takeover_error + transfer_status option" where
  "next_status kind t =
     (if kind = ''session_transfer_status'' then (if tr_State t \<in> set progress_states then Inr (Some t) else Inl InvalidProgress)
      else if kind = ''session_transfer_saved'' then Inr (Some (t\<lparr>tr_State := ''saved''\<rparr>))
      else if kind = ''session_transfer_released'' then Inr (Some (t\<lparr>tr_State := ''released''\<rparr>))
      else Inr None)"

definition terminal_transfer :: "transfer_status \<Rightarrow> bool" where
  "terminal_transfer t \<longleftrightarrow> tr_State t = ''saved'' \<or> tr_State t = ''released''"

text \<open>What the locked part decides: nothing, an error, a refusal of the preparation, or the new status.\<close>

datatype transfer_decision = Ignore | Report takeover_error | Refuse transfer_status | Adopt transfer_status

definition decide_transfer :: "string \<Rightarrow> transfer_status \<Rightarrow> chord_process \<Rightarrow> transfer_decision" where
  "decide_transfer kind t p =
     (if \<not> valid_source t p then Report StaleSource
      else if kind = ''session_transfer_preparing'' then
        (if px_stoppedByGateway p \<or> px_exited p \<or> \<not> px_stdin p then Refuse t
         else if px_transfer p \<noteq> None then Ignore else Adopt (t\<lparr>tr_State := ''preparing''\<rparr>))
      else case px_transfer p of None \<Rightarrow> Ignore
      | Some old \<Rightarrow>
          if \<not> sameTransferIdentity old t then Ignore
          else case next_status kind t of Inl err \<Rightarrow> Report err | Inr None \<Rightarrow> Ignore
          | Inr (Some t) \<Rightarrow>
              if terminal_transfer t \<and> px_pendingInputs p \<noteq> [] then Report UnconfirmedInputs
              else if tr_State old = ''released'' \<or> tr_State old = ''saved'' \<and> tr_State t \<noteq> ''released'' then Ignore
              else Adopt t)"

definition adopt_transfer :: "transfer_status \<Rightarrow> chord_process \<Rightarrow> chord_process" where
  "adopt_transfer t p = on_state (control_state.st_Transfer_update (\<lambda>z. Some t)) (p\<lparr>px_transfer := Some t, px_autoRestart := False\<rparr>)"

text \<open>The guard is written before the answer; a saved or released session gives up its pin.\<close>

definition record_transfer :: "takeover_env \<Rightarrow> string \<Rightarrow> string \<Rightarrow> transfer_status \<Rightarrow> chord_process \<Rightarrow> binding
    \<Rightarrow> binding \<times> transfer_effects" where
  "record_transfer e key kind t p b =
     (let b = b\<lparr>bg_process := Some p\<rparr>;
          v = \<lparr>st_Status = t, st_Interrupted = False, st_Direction = ''outgoing'', session_transfer.st_BindingInstanceID = px_bindingInstanceID p\<rparr>;
          (old, loadErr) = transfers_Get key (Some (bg_transfers b));
          expected = (if old \<noteq> None then tr_TransferID t else '''');
          (b, err) = (if loadErr \<noteq> None then (b, Some GuardUnreadable) else update_guard e key (Some v) expected b);
          fx = (if kind = ''session_transfer_preparing'' then ack_preparation e t (if err = None then '''' else ''persistence_failed'') p
                else no_transfer_effects);
          (b, ok) = (if kind \<noteq> ''session_transfer_preparing'' \<and> terminal_transfer t \<and> err = None then clear_pin e key (tr_SessionID t) b
                     else (b, True));
          err = (if ok then err else Some PinFailed) in
      (b, fx\<lparr>tf_errors := tf_errors fx @ (case err of None \<Rightarrow> [] | Some x \<Rightarrow> [x]), tf_notify := True\<rparr>))"

definition processTransferEnvelope :: "takeover_env \<Rightarrow> string \<Rightarrow> bool \<Rightarrow> string \<Rightarrow> transfer_status \<Rightarrow> binding \<Rightarrow> binding \<times> transfer_effects" where
  "processTransferEnvelope e key current kind t b =
     (case bg_process b of None \<Rightarrow> (b, no_transfer_effects)
      | Some p \<Rightarrow>
          if \<not> current \<or> bg_shuttingDown b then (b, no_transfer_effects)
          else case decide_transfer kind t p of
            Ignore \<Rightarrow> (b, no_transfer_effects)
          | Report err \<Rightarrow> (b, no_transfer_effects\<lparr>tf_errors := [err]\<rparr>)
          | Refuse t \<Rightarrow> (b, ack_preparation e t ''target_not_ready'' p)
          | Adopt t \<Rightarrow> record_transfer e key kind t (adopt_transfer t p) b)"

section \<open>Exits and interruptions\<close>

definition zero_transfer :: transfer_status where
  "zero_transfer = \<lparr>tr_BindingInstanceID = '''', tr_TransferID = '''', tr_SessionID = '''', tr_SourceRuntimeID = '''',
     tr_SourceSessionEpoch = 0, tr_Workspace = '''', tr_TargetKind = '''', tr_TargetInstanceID = '''', tr_State = '''', tr_StartedAt = '''',
     tr_WaitExpired = False, tr_PendingInputs = 0, tr_CheckpointID = '''', tr_ErrorCode = '''', tr_Message = '''',
     tr_RecoverableAction = '''', tr_Blockers = [], tr_BlockerCount = 0\<rparr>"

definition exit_status :: "string \<Rightarrow> pin_store option \<Rightarrow> chord_process \<Rightarrow> transfer_status" where
  "exit_status key pins p = (case px_transfer p of Some t \<Rightarrow> t
     | None \<Rightarrow>
         let session = (if st_SessionID (px_state p) \<noteq> '''' then st_SessionID (px_state p)
                        else case pins of None \<Rightarrow> '''' | Some s \<Rightarrow> pins_Get key s);
             session = (if session = '''' then ''unknown'' else session) in
         zero_transfer\<lparr>tr_TransferID := ''exit-'' @ px_bindingInstanceID p, tr_SessionID := session, tr_Workspace := px_workspacePath p,
           tr_State := ''status_unknown''\<rparr>)"

text \<open>\<open>recordTransferExit\<close>; the flag says that no restart may follow.\<close>

definition recordTransferExit :: "takeover_env \<Rightarrow> string \<Rightarrow> bool \<Rightarrow> int \<Rightarrow> chord_process \<Rightarrow> binding \<Rightarrow> binding \<times> bool" where
  "recordTransferExit e key current code p b =
     (if \<not> current then (b, True)
      else if \<not> (inputBlocked p \<or> code = sessionTransferExitCode) then (b, False)
      else let t = exit_status key (bg_pins b) p; (old, loadErr) = transfers_Get key (Some (bg_transfers b)) in
        if loadErr \<noteq> None \<or> old \<noteq> None \<or> tr_SessionID t = '''' then (b, True)
        else let (b, err) = update_guard e key (Some \<lparr>st_Status = t, st_Interrupted = False, st_Direction = ''outgoing'',
                   session_transfer.st_BindingInstanceID = px_bindingInstanceID p\<rparr>) '''' b in
          if err = None then (b, True)
          else (fst (clear_pin e key (tr_SessionID t) (b\<lparr>bg_transfers := failClosed ''transfer guard persistence unavailable'' (bg_transfers b)\<rparr>)), True))"

definition markTransferInterrupted :: "takeover_env \<Rightarrow> string \<Rightarrow> chord_process \<Rightarrow> binding \<Rightarrow> binding" where
  "markTransferInterrupted e key p b =
     (case transfers_Get key (Some (bg_transfers b)) of
        (Some r, None) \<Rightarrow>
          if session_transfer.st_BindingInstanceID r \<noteq> px_bindingInstanceID p then b
          else let (b, err) = update_guard e key (Some (r\<lparr>st_Interrupted := True\<rparr>)) (tr_TransferID (st_Status r)) b in
            (if err = None then b
             else b\<lparr>bg_transfers := failClosed ''transfer guard persistence unavailable'' (bg_transfers b)\<rparr>)
      | z \<Rightarrow> b)"

section \<open>Publishing a new process\<close>

definition px_alive :: "chord_process \<Rightarrow> bool" where "px_alive p \<longleftrightarrow> \<not> px_exited p"

definition paused_as :: "session_transfer \<Rightarrow> chord_process \<Rightarrow> bool" where
  "paused_as r p \<longleftrightarrow> px_workspacePath p = tr_Workspace (st_Status r) \<and> px_readyPaused p
     \<and> (case st_PausedInputs (px_state p) of None \<Rightarrow> False | Some v \<Rightarrow> pi_Paused v)
     \<and> px_restoringTransferID p = tr_TransferID (st_Status r) \<and> px_bindingInstanceID p = tr_TargetInstanceID (st_Status r)"

text \<open>
  \<open>publishGuardedBinding\<close>: pin first, then the guard goes, then the process takes input. A shutdown may
  begin between the pin and the guard.
\<close>

definition publishGuardedBinding :: "takeover_env \<Rightarrow> string \<Rightarrow> chord_process \<Rightarrow> session_transfer \<Rightarrow> string \<Rightarrow> bool \<Rightarrow> bool \<Rightarrow> binding
    \<Rightarrow> binding \<times> takeover_error option" where
  "publishGuardedBinding e key p r session paused stopping b =
     (if bg_shuttingDown b then (b, Some ManagerShuttingDown)
      else if \<not> px_stdin p \<or> px_exited p \<or> px_stoppedByGateway p \<or> st_SessionID (px_state p) = ''''
        \<or> session \<noteq> '''' \<and> st_SessionID (px_state p) \<noteq> session then (b, Some TargetDisconnected)
      else if paused \<and> \<not> paused_as r p then (b, Some NotReadyPaused)
      else case bg_pins b of None \<Rightarrow> (b, Some PinStoreUnavailable)
      | Some s \<Rightarrow>
          let (s, ok) = pins_Set (te_pins e) key (st_SessionID (px_state p)) s; b = b\<lparr>bg_pins := Some s\<rparr> in
          if \<not> ok then (b, Some PinFailed)
          else let b = b\<lparr>bg_shuttingDown := bg_shuttingDown b \<or> stopping\<rparr> in
            if bg_shuttingDown b then (b, Some ManagerShuttingDown)
            else let (b, err) = update_guard e key None (tr_TransferID (st_Status r)) b in
              if err \<noteq> None then (b, err)
              else (b\<lparr>bg_process := Some (p\<lparr>px_restoringTransferID := '''', px_bindingGuard := False, px_autoRestart := True\<rparr>)\<rparr>, None))"

text \<open>
  What \<open>spawn\<close> gives a process that was started for a binding: its instance, the transfer it restores, the
  session it is to resume, and a guard of its own while the binding is blocked.
\<close>

fun transferRestoreArgs :: "string list \<Rightarrow> string \<times> string \<Rightarrow> string \<times> string" where
  "transferRestoreArgs (a # v # args) (i, inst) =
     transferRestoreArgs (v # args) (if a = ''--gateway-transfer-id'' then v else i, if a = ''--gateway-instance'' then v else inst)"
| "transferRestoreArgs args z = z"

fun resume_arg :: "string list \<Rightarrow> string \<Rightarrow> string" where
  "resume_arg (a # v # args) z = resume_arg (v # args) (if a = ''--resume'' then v else z)"
| "resume_arg args z = z"

text \<open>\<open>started\<close> is the time, if the operating system started one; \<open>random\<close> names its instance.\<close>

definition spawned :: "gotime \<times> string \<Rightarrow> chord_process" where
  "spawned now = new_process\<lparr>px_runtimeID := '''', px_sessionEpoch := 0, px_workspacePath := '''',
     px_state := zero_state\<lparr>st_UpdatedAt := snd now\<rparr>, px_lastActivity := fst now, px_autoRestart := True\<rparr>"

definition spawn_binding :: "string \<Rightarrow> string \<Rightarrow> string list \<Rightarrow> (gotime \<times> string) option \<Rightarrow> binding \<Rightarrow> binding \<times> bool" where
  "spawn_binding key random args started b =
     (let (transferID, inst) = transferRestoreArgs args ('''', '''');
          inst = (if inst = '''' then ''binding-'' @ random else inst); blocked = Blocked key (Some (bg_transfers b)) in
      case started of None \<Rightarrow> (b\<lparr>bg_process := None\<rparr>, False)
      | Some now \<Rightarrow> (b\<lparr>bg_process := Some (on_state (control_state.st_BindingInstanceID_update (\<lambda>z. inst))
            ((spawned now)\<lparr>px_bindingInstanceID := inst, px_restoringTransferID := transferID, px_key := key,
               px_bindingGuard := blocked, px_autoRestart := \<not> blocked,
               px_expectedSessionID := resume_arg args ''''\<rparr>))\<rparr>, True))"

section \<open>Restoring and replacing\<close>

text \<open>
  \<open>restoreTransferredSession\<close> up to the wait: the guard is marked as restoring before the process starts.
  The record returned is the one that is published.
\<close>

definition restore_begin :: "takeover_env \<Rightarrow> string \<Rightarrow> string \<Rightarrow> (gotime \<times> string) option \<Rightarrow> bool \<Rightarrow> session_transfer \<Rightarrow> binding
    \<Rightarrow> binding \<times> (takeover_error + session_transfer)" where
  "restore_begin e key random started ctxErr r b =
     (if bg_shuttingDown b then (b, Inl ManagerShuttingDown)
      else if ctxErr then (b, Inl ReadinessUnknown)
      else case transfers_Get key (Some (bg_transfers b)) of
        (z, Some err) \<Rightarrow> (b, Inl GuardUnreadable)
      | (None, None) \<Rightarrow> (b, Inl StaleTransferError)
      | (Some cur, None) \<Rightarrow>
          if tr_TransferID (st_Status cur) \<noteq> tr_TransferID (st_Status r) then (b, Inl StaleTransferError)
          else if st_Direction cur \<noteq> ''incoming'' \<or> tr_State (st_Status cur) \<noteq> ''released'' \<and> tr_State (st_Status cur) \<noteq> ''restoring''
          then (b, Inl NotReleased)
          else let t = st_Status cur;
                   fresh = (let cur = session_transfer.st_BindingInstanceID_update (\<lambda>z. tr_TargetInstanceID t) (cur\<lparr>st_Status := t\<lparr>tr_State := ''restoring''\<rparr>\<rparr>);
                                (b, err) = update_guard e key (Some cur) (tr_TransferID t) b in
                     case err of Some err \<Rightarrow> (b, Inl err)
                     | None \<Rightarrow> (let (b, ok) = spawn_binding key random [''--resume'', tr_SessionID t, ''--gateway-instance'', tr_TargetInstanceID t,
                           ''--gateway-transfer-id'', tr_TransferID t] started b in (b, if ok then Inr cur else Inl SpawnFailed))) in
            case bg_process b of None \<Rightarrow> fresh
            | Some p \<Rightarrow>
                if px_alive p then
                  (if px_restoringTransferID p = tr_TransferID t \<and> px_bindingInstanceID p = tr_TargetInstanceID t then (b, Inr cur)
                   else (b, Inl BindingOwned))
                else if px_restoringTransferID p \<noteq> tr_TransferID t \<and> hasGuardedInputs p then (b, Inl UnresolvedInputs)
                else fresh)"

text \<open>After the wait: whether the process announced itself, and whether the caller gave up meanwhile.\<close>

definition restore_end :: "takeover_env \<Rightarrow> string \<Rightarrow> bool \<Rightarrow> bool \<Rightarrow> chord_process \<Rightarrow> session_transfer \<Rightarrow> bool \<Rightarrow> binding
    \<Rightarrow> binding \<times> takeover_error option" where
  "restore_end e key ready ctxErr p r stopping b =
     (if bg_shuttingDown b \<and> \<not> ready then (b, Some ManagerShuttingDown)
      else if \<not> ready \<or> ctxErr then (b, Some ReadinessUnknown)
      else publishGuardedBinding e key p r (tr_SessionID (st_Status r)) True stopping b)"

definition replace_begin :: "string \<Rightarrow> string \<Rightarrow> (gotime \<times> string) option \<Rightarrow> string \<Rightarrow> binding \<Rightarrow> binding \<times> (takeover_error + session_transfer)" where
  "replace_begin key random started session b =
     (if bg_shuttingDown b then (b, Inl ManagerShuttingDown)
      else case transfers_Get key (Some (bg_transfers b)) of
        (z, Some err) \<Rightarrow> (b, Inl GuardUnreadable)
      | (None, None) \<Rightarrow> (b, Inl NoTransfer)
      | (Some r, None) \<Rightarrow>
          let spawned = (let (b, ok) = spawn_binding key random (if trim_space session \<noteq> '''' then [''--resume'', session] else []) started b
                in (b, if ok then Inr r else Inl SpawnFailed)) in
          case bg_process b of None \<Rightarrow> spawned
          | Some p \<Rightarrow>
              if st_Direction r = ''incoming'' \<and> px_restoringTransferID p \<noteq> tr_TransferID (st_Status r) \<and> hasGuardedInputs p
              then (b, Inl UnresolvedInputs)
              else if px_alive p then (b, Inl StillActive) else spawned)"

text \<open>A replacement that fails is taken down, and the guard stays.\<close>

definition replace_end :: "takeover_env \<Rightarrow> string \<Rightarrow> bool \<Rightarrow> string \<Rightarrow> chord_process \<Rightarrow> session_transfer \<Rightarrow> bool \<Rightarrow> binding
    \<Rightarrow> binding \<times> takeover_error option" where
  "replace_end e key ready session p r stopping b =
     (let (b, err) = (if \<not> ready then (b, Some (if bg_shuttingDown b then ManagerShuttingDown else ReadinessUnknown))
                      else publishGuardedBinding e key p r session False stopping b) in
      if err = None then (b, None) else (b\<lparr>bg_process := None\<rparr>, err))"

definition replaceOrdinarySession :: "takeover_env \<Rightarrow> string \<Rightarrow> string \<Rightarrow> (gotime \<times> string) option \<Rightarrow> string \<Rightarrow> binding \<Rightarrow> binding \<times> takeover_error option" where
  "replaceOrdinarySession e key random started session b =
     (if bg_shuttingDown b then (b, Some ManagerShuttingDown)
      else if Blocked key (Some (bg_transfers b)) then (b, Some NoTransfer)
      else let refused = (case bg_process b of None \<Rightarrow> None
              | Some p \<Rightarrow> if inputBlocked p then Some NoTransfer else if hasGuardedInputs p then Some UnresolvedInputs
                  else if st_Busy (px_state p) then Some ProcessBusy else None) in
        if refused \<noteq> None then (b, refused)
        else let (b, ok) = (case bg_pins b of None \<Rightarrow> (b, True)
               | Some s \<Rightarrow> (let (s, ok) = pins_Set (te_pins e) key session s in (b\<lparr>bg_pins := Some s\<rparr>, ok))) in
          if \<not> ok then (b, Some PinFailed)
          else let (b, ok) = spawn_binding key random (if session \<noteq> '''' then [''--resume'', session] else []) started b in
            (b, if ok then None else Some SpawnFailed))"

definition publishSessionPin :: "takeover_env \<Rightarrow> string \<Rightarrow> bool \<Rightarrow> string \<Rightarrow> binding \<Rightarrow> binding \<times> bool" where
  "publishSessionPin e key current session b = (case bg_process b of None \<Rightarrow> (b, True)
     | Some p \<Rightarrow>
         if \<not> current \<or> Blocked key (Some (bg_transfers b)) \<or> inputBlocked p then (b, True)
         else case bg_pins b of None \<Rightarrow> (b, True)
         | Some s \<Rightarrow> (let (s, ok) = pins_Set (te_pins e) key session s in (b\<lparr>bg_pins := Some s\<rparr>, ok)))"

definition discardFailedResume :: "takeover_env \<Rightarrow> string \<Rightarrow> bool \<Rightarrow> string \<Rightarrow> binding \<Rightarrow> binding" where
  "discardFailedResume e key current session b = (case bg_process b of None \<Rightarrow> b
     | Some p \<Rightarrow>
         if \<not> current \<or> Blocked key (Some (bg_transfers b)) \<or> inputBlocked p then b
         else fst (clear_pin e key session (b\<lparr>bg_process := None\<rparr>)))"

section \<open>Observers of the source\<close>

definition source_unchanged :: "transfer_status \<Rightarrow> chord_process \<Rightarrow> bool" where
  "source_unchanged t p \<longleftrightarrow> (case px_transfer p of None \<Rightarrow> False
     | Some old \<Rightarrow> sameTransferIdentity old t \<and> tr_BindingInstanceID old = px_bindingInstanceID p)
     \<and> px_runtimeID p = tr_SourceRuntimeID t \<and> px_sessionEpoch p = tr_SourceSessionEpoch t \<and> px_workspacePath p = tr_Workspace t
     \<and> st_SessionID (px_state p) = tr_SessionID t \<and> px_stdin p \<and> \<not> px_exited p \<and> \<not> px_stoppedByGateway p"

definition reopened :: "chord_process \<Rightarrow> chord_process" where
  "reopened p = on_state (control_state.st_Transfer_update (\<lambda>z. None)) (p\<lparr>px_transfer := None, px_autoRestart := True\<rparr>)"

definition reopenUnfrozenSource :: "takeover_env \<Rightarrow> string \<Rightarrow> transfer_status \<Rightarrow> binding \<Rightarrow> binding \<times> takeover_error option" where
  "reopenUnfrozenSource e key t b = (case bg_process b of None \<Rightarrow> (b, Some SourceGone)
     | Some p \<Rightarrow>
         if \<not> source_unchanged t p \<or> tr_State t \<noteq> ''prepare_failed'' then (b, Some SourceNotOpen)
         else case transfers_Get key (Some (bg_transfers b)) of
           (z, Some err) \<Rightarrow> (b, Some GuardUnreadable)
         | (old, None) \<Rightarrow>
             let (b, err) = (if old = None then (b, None) else update_guard e key None (tr_TransferID t) b) in
             if err \<noteq> None then (b, err) else (b\<lparr>bg_process := Some (reopened p)\<rparr>, None))"

definition persistObservedTransfer :: "takeover_env \<Rightarrow> string \<Rightarrow> session_transfer \<Rightarrow> bool \<Rightarrow> binding \<Rightarrow> binding \<times> takeover_error option" where
  "persistObservedTransfer e key r localPreparation b =
     (let id = tr_TransferID (st_Status r) in
      case transfers_Get key (Some (bg_transfers b)) of
        (z, Some err) \<Rightarrow> (b, Some GuardUnreadable)
      | (Some cur, None) \<Rightarrow>
          if tr_TransferID (st_Status cur) \<noteq> id then (b, Some StaleTransferError)
          else if st_Direction cur = ''incoming'' \<and> tr_State (st_Status cur) = ''restoring'' then (b, None)
          else update_guard e key (Some (cur\<lparr>st_Status := st_Status r\<rparr>)) id b
      | (None, None) \<Rightarrow>
          if \<not> localPreparation then (b, Some NoLongerOwns)
          else case bg_process b of None \<Rightarrow> (b, Some StaleSourceBinding)
          | Some p \<Rightarrow>
              if px_bindingInstanceID p = session_transfer.st_BindingInstanceID r
                 \<and> (case px_transfer p of None \<Rightarrow> False | Some t \<Rightarrow> sameTransferIdentity t (st_Status r))
              then update_guard e key (Some r) '''' b else (b, Some StaleSourceBinding))"

section \<open>Replies of a source\<close>

text \<open>
  A step of \<open>observeTakeover\<close> in \<open>router_takeover.go\<close>: the router read the record \<open>r\<close>, asked the program that
  owns the session, and got the status \<open>t\<close>, with \<open>failed\<close> when the command also ended in an error. An outgoing
  transfer that was not accepted reopens the source, an incoming one gives up its guard, and every other
  status is kept.
\<close>

definition refused_reply :: "bool \<Rightarrow> bool \<Rightarrow> transfer_status \<Rightarrow> bool" where
  "refused_reply start failed t \<longleftrightarrow> tr_State t = ''prepare_failed'' \<or> start \<and> tr_State t = ''preflight'' \<and> failed"

definition reply_matches :: "session_transfer \<Rightarrow> transfer_status \<Rightarrow> bool" where
  "reply_matches r t \<longleftrightarrow>
     (let old = st_Status r in
      tr_TransferID t = tr_TransferID old \<and> tr_SessionID t = tr_SessionID old \<and> tr_Workspace t = tr_Workspace old
      \<and> tr_TargetKind t = tr_TargetKind old \<and> tr_TargetInstanceID t = tr_TargetInstanceID old
      \<and> (tr_SourceRuntimeID old \<noteq> '''' \<longrightarrow> sameTransferIdentity old t))"

definition observe_reply :: "takeover_env \<Rightarrow> string \<Rightarrow> session_transfer \<Rightarrow> bool \<Rightarrow> bool \<Rightarrow> bool \<Rightarrow> transfer_status \<Rightarrow> binding
    \<Rightarrow> binding \<times> takeover_error option" where
  "observe_reply e key r localPreparation start failed t b =
     (if tr_TransferID t = '''' then (b, Some NoReply)
      else if \<not> reply_matches r t then (b, Some StaleSource)
      else if st_Direction r = ''outgoing'' \<and> tr_State t = ''prepare_failed'' then reopenUnfrozenSource e key t b
      else if st_Direction r = ''incoming'' \<and> refused_reply start failed t then update_guard e key None (tr_TransferID t) b
      else persistObservedTransfer e key (r\<lparr>st_Status := t\<rparr>) localPreparation b)"

text \<open>
  \<open>runIngressTakeoverStep\<close> of \<open>router_ingress_takeover.go\<close> keeps the status first, and acts on a refusal then; other
  operations may come between the two.
\<close>

definition ingress_reply :: "takeover_env \<Rightarrow> string \<Rightarrow> session_transfer \<Rightarrow> bool \<Rightarrow> transfer_status \<Rightarrow> binding
    \<Rightarrow> binding \<times> takeover_error option" where
  "ingress_reply e key r localPreparation t b =
     (if tr_TransferID t = '''' \<or> \<not> sameTransferIdentity (st_Status r) t then (b, Some StaleSource)
      else persistObservedTransfer e key (r\<lparr>st_Status := t\<rparr>) localPreparation b)"

definition ingress_settle :: "takeover_env \<Rightarrow> string \<Rightarrow> session_transfer \<Rightarrow> transfer_status \<Rightarrow> binding \<Rightarrow> binding \<times> takeover_error option" where
  "ingress_settle e key r t b =
     (if tr_TransferID t = '''' \<or> \<not> sameTransferIdentity (st_Status r) t \<or> tr_State t \<noteq> ''prepare_failed'' then (b, Some NoReply)
      else if st_Direction r = ''incoming'' then update_guard e key None (tr_TransferID t) b
      else reopenUnfrozenSource e key t b)"

section \<open>Taking a session over\<close>

text \<open>What the source answered to the question whether it would hand the session over to this binding.\<close>

record takeover_request =
  tq_TransferID :: string
  tq_SessionID :: string
  tq_TargetInstanceID :: string

definition preflight_matches :: "takeover_request \<Rightarrow> transfer_status \<Rightarrow> bool" where
  "preflight_matches q t \<longleftrightarrow> tr_State t = ''preflight'' \<and> tr_Workspace t \<noteq> '''' \<and> tr_SourceRuntimeID t \<noteq> ''''
     \<and> tr_TransferID t = tq_TransferID q \<and> tr_SessionID t = tq_SessionID q \<and> tr_TargetKind t = ''gateway''
     \<and> tr_TargetInstanceID t = tq_TargetInstanceID q"

definition incoming_record :: "transfer_status \<Rightarrow> session_transfer" where
  "incoming_record t = \<lparr>st_Status = t\<lparr>tr_State := ''waiting_source''\<rparr>, st_Interrupted = False, st_Direction = ''incoming'',
     st_BindingInstanceID = ''''\<rparr>"

text \<open>The end of \<open>prepareIncomingTakeover\<close>, before the request that starts the transfer.\<close>

definition record_incoming :: "takeover_env \<Rightarrow> string \<Rightarrow> takeover_request \<Rightarrow> transfer_status \<Rightarrow> binding \<Rightarrow> binding \<times> takeover_error option" where
  "record_incoming e key q t b =
     (if \<not> preflight_matches q t then (b, Some StaleSource)
      else if bg_shuttingDown b then (b, Some ManagerShuttingDown)
      else if Blocked key (Some (bg_transfers b)) then (b, Some (GuardFailed TransferBusy))
      else let refused = (case bg_process b of None \<Rightarrow> None
              | Some p \<Rightarrow> if hasGuardedInputs p then Some UnresolvedInputs else if px_alive p then Some BindingOwned else None) in
        if refused \<noteq> None then (b, refused)
        else update_guard e key (Some (incoming_record (t\<lparr>tr_SourceRuntimeID := '''', tr_SourceSessionEpoch := 0\<rparr>))) '''' b)"

text \<open>
  The start in \<open>dispatchIngressTakeover\<close>. A finished outgoing transfer, named by \<open>previous\<close>, is superseded; \<open>same\<close>
  says that the process is still the one it looked at.
\<close>

definition guard_blocks :: "string \<Rightarrow> string option \<Rightarrow> binding \<Rightarrow> bool" where
  "guard_blocks key previous b = (case transfers_Get key (Some (bg_transfers b)) of
     (g, Some err) \<Rightarrow> True
   | (None, None) \<Rightarrow> False
   | (Some g, None) \<Rightarrow> previous \<noteq> Some (tr_TransferID (st_Status g)))"

definition start_incoming :: "takeover_env \<Rightarrow> string \<Rightarrow> takeover_request \<Rightarrow> string option \<Rightarrow> bool \<Rightarrow> transfer_status \<Rightarrow> binding
    \<Rightarrow> binding \<times> takeover_error option" where
  "start_incoming e key q previous same t b =
     (if \<not> preflight_matches q t then (b, Some StaleSource)
      else if bg_shuttingDown b \<or> guard_blocks key previous b \<or> \<not> same then (b, Some BindingOwned)
      else case previous of None \<Rightarrow> update_guard e key (Some (incoming_record t)) '''' b
      | Some x \<Rightarrow> replace_guard e key (incoming_record t) x b)"

end
