(* ===== verification/TakeoverProps.thy ===== *)
theory TakeoverProps
  imports Takeover
begin

text \<open>
  The properties of handing sessions over: what the guard on disk is worth when the source is told that its
  input is closed, when a process may take input again, and that an exit leaves a guard behind.
\<close>

section \<open>Whole operations\<close>

text \<open>
  \<open>restoreTransferredSession\<close> and \<open>replaceBlockedBinding\<close>, which hold the key's lock throughout. Two
  writes of the guard are possible, hence two environments; \<open>p2\<close> is the process after the wait.
\<close>

definition current_process :: "chord_process \<Rightarrow> binding \<Rightarrow> binding" where
  "current_process p2 b = (if bg_process b = None then b else b\<lparr>bg_process := Some p2\<rparr>)"

definition restoreTransferredSession :: "takeover_env \<Rightarrow> takeover_env \<Rightarrow> string \<Rightarrow> string \<Rightarrow> (gotime \<times> string) option \<Rightarrow> bool
    \<Rightarrow> session_transfer \<Rightarrow> bool \<Rightarrow> bool \<Rightarrow> chord_process \<Rightarrow> bool \<Rightarrow> binding \<Rightarrow> binding \<times> takeover_error option" where
  "restoreTransferredSession e1 e2 key random started ctxErr r ready gaveUp p2 stopping b =
     (case restore_begin e1 key random started ctxErr r b of
        (b, Inl err) \<Rightarrow> (b, Some err)
      | (b, Inr r) \<Rightarrow> restore_end e2 key ready gaveUp p2 r stopping (current_process p2 b))"

definition replaceBlockedBinding :: "takeover_env \<Rightarrow> string \<Rightarrow> string \<Rightarrow> (gotime \<times> string) option \<Rightarrow> string \<Rightarrow> bool \<Rightarrow> chord_process
    \<Rightarrow> bool \<Rightarrow> binding \<Rightarrow> binding \<times> takeover_error option" where
  "replaceBlockedBinding e key random started session ready p2 stopping b =
     (case replace_begin key random started session b of
        (b, Inl err) \<Rightarrow> (b, Some err)
      | (b, Inr r) \<Rightarrow> replace_end e key ready session p2 r stopping (current_process p2 b))"

datatype takeover_op =
    Envelope takeover_env bool string transfer_status
  | ProcessExit takeover_env bool int chord_process
  | Interrupted takeover_env chord_process
  | Restore takeover_env takeover_env string "(gotime \<times> string) option" bool session_transfer bool bool chord_process bool
  | Replace takeover_env string "(gotime \<times> string) option" string bool chord_process bool
  | ReplaceOrdinary takeover_env string "(gotime \<times> string) option" string
  | PublishPin takeover_env bool string
  | DiscardResume takeover_env bool string
  | ObserveReply takeover_env session_transfer bool bool bool transfer_status
  | IngressReply takeover_env session_transfer bool transfer_status
  | IngressSettle takeover_env session_transfer transfer_status
  | RecordIncoming takeover_env takeover_request transfer_status
  | StartIncoming takeover_env takeover_request "string option" bool transfer_status
  | Shutdown

fun takeover_run :: "string \<Rightarrow> takeover_op \<Rightarrow> binding \<Rightarrow> binding \<times> takeover_error option" where
  "takeover_run key (Envelope e current kind t) b = (fst (processTransferEnvelope e key current kind t b), None)"
| "takeover_run key (ProcessExit e current code p) b = (fst (recordTransferExit e key current code p b), None)"
| "takeover_run key (Interrupted e p) b = (markTransferInterrupted e key p b, None)"
| "takeover_run key (Restore e1 e2 random started ctxErr r ready gaveUp p2 stopping) b =
     restoreTransferredSession e1 e2 key random started ctxErr r ready gaveUp p2 stopping b"
| "takeover_run key (Replace e random started session ready p2 stopping) b =
     replaceBlockedBinding e key random started session ready p2 stopping b"
| "takeover_run key (ReplaceOrdinary e random started session) b = replaceOrdinarySession e key random started session b"
| "takeover_run key (PublishPin e current session) b = (fst (publishSessionPin e key current session b), None)"
| "takeover_run key (DiscardResume e current session) b = (discardFailedResume e key current session b, None)"
| "takeover_run key (ObserveReply e r localPreparation start failed t) b = observe_reply e key r localPreparation start failed t b"
| "takeover_run key (IngressReply e r localPreparation t) b = ingress_reply e key r localPreparation t b"
| "takeover_run key (IngressSettle e r t) b = ingress_settle e key r t b"
| "takeover_run key (RecordIncoming e q t) b = record_incoming e key q t b"
| "takeover_run key (StartIncoming e q previous same t) b = start_incoming e key q previous same t b"
| "takeover_run key Shutdown b = (b\<lparr>bg_shuttingDown := True\<rparr>, None)"

fun takeover_runs :: "string \<Rightarrow> takeover_op list \<Rightarrow> binding \<Rightarrow> binding" where
  "takeover_runs key [] b = b"
| "takeover_runs key (op # ops) b = takeover_runs key ops (fst (takeover_run key op b))"

text \<open>A guard closes its binding, and so do guards that could not be read.\<close>

definition closed_binding :: "string \<Rightarrow> binding \<Rightarrow> bool" where
  "closed_binding key b \<longleftrightarrow> Blocked key (Some (bg_transfers b))"

section \<open>One guard\<close>

lemma Blocked_iff: "Blocked key (Some s) \<longleftrightarrow> map_of (ts_entries s) key \<noteq> None \<or> ts_loadErr s \<noteq> None"
  by (simp add: Blocked_def transfers_Get_def)

lemma update_guard_keeps:
  assumes "update_guard e key v x b = (b', err)"
  shows "bg_process b' = bg_process b" and "bg_pins b' = bg_pins b" and "bg_shuttingDown b' = bg_shuttingDown b"
    and "ts_loadErr (bg_transfers b') = ts_loadErr (bg_transfers b)"
    and "err \<noteq> None \<Longrightarrow> ts_entries (bg_transfers b') = ts_entries (bg_transfers b)"
proof -
  obtain s trace r where w: "transfer_commit (te_guard e) key v x True (bg_transfers b, bg_disk b) = (s, trace, r)"
    by (metis prod_cases3)
  then have b': "b' = b\<lparr>bg_transfers := s, bg_disk := last_disk (bg_disk b) trace\<rparr>" "err = map_option GuardFailed r"
    using assms by (simp_all add: update_guard_def transfer_update_def)
  then show "bg_process b' = bg_process b" "bg_pins b' = bg_pins b" "bg_shuttingDown b' = bg_shuttingDown b" by simp_all
  show "ts_loadErr (bg_transfers b') = ts_loadErr (bg_transfers b)" using w by (cases rule: transfer_commit_cases) (simp_all add: b')
  show "ts_entries (bg_transfers b') = ts_entries (bg_transfers b)" if "err \<noteq> None"
    using w that b'(2) by (cases rule: transfer_commit_cases) (auto simp: b'(1) split: if_splits)
qed

lemma update_guard_entry:
  assumes "update_guard e key v x b = (b', err)"
  shows "guard_of k b' = (if err = None \<and> k = key then map_option (normalized True (guard_of key b)) v else guard_of k b)"
  using assms commit_effect [of "te_guard e" key v x True "bg_transfers b" "bg_disk b" _ _ _ k]
  by (auto simp: update_guard_def transfer_update_def guard_of_def split: prod.splits)

lemma update_guard_disk:
  assumes "update_guard e key v x b = (b', err)" and "transfer_reach (bg_transfers b) (bg_disk b)"
  shows "transfer_reach (bg_transfers b') (bg_disk b')"
  using assms transfer_reach.step [of "bg_transfers b" "bg_disk b" "te_guard e" "TransferUpdate key v x"]
  by (auto simp: update_guard_def split: prod.splits)

lemma update_guard_blocks:
  assumes "update_guard e key v x b = (b', err)" and "v \<noteq> None \<or> err \<noteq> None" and "Blocked key (Some (bg_transfers b))"
  shows "Blocked key (Some (bg_transfers b'))"
  using assms(2,3) update_guard_keeps(4) [OF assms(1)] update_guard_entry [OF assms(1), of key]
  by (auto simp: Blocked_iff guard_of_def split: if_splits)

text \<open>A guard in force is on disk, whatever a crash leaves of it.\<close>

definition guarded_after_crash :: "string \<Rightarrow> binding \<Rightarrow> bool" where
  "guarded_after_crash key b \<longleftrightarrow> (\<forall>p \<in> readings (td_primary (bg_disk b)). \<forall>q \<in> readings (td_pending (bg_disk b)).
     Blocked key (Some (fst (transfers_Load (text_of p) (text_of q) (bg_transfers b)))))"

lemma in_force_on_disk:
  assumes "transfer_reach (bg_transfers b) (bg_disk b)" and "guard_of key b \<noteq> None"
  shows "guarded_after_crash key b"
proof -
  have "key \<in> fst ` set (ts_entries (bg_transfers b))" using assms(2) unfolding guard_of_def by (metis map_of_eq_None_iff)
  with reach_covers [OF assms(1)] show ?thesis unfolding guarded_after_crash_def covers_def by (meson load_blocks subsetD)
qed

lemma clear_pin_keeps [simp]:
  "bg_process (fst (clear_pin e key s b)) = bg_process b" "bg_transfers (fst (clear_pin e key s b)) = bg_transfers b"
  "bg_disk (fst (clear_pin e key s b)) = bg_disk b" "bg_shuttingDown (fst (clear_pin e key s b)) = bg_shuttingDown b"
  by (simp_all add: clear_pin_def split: option.splits prod.splits)

section \<open>What each operation does to a closed binding\<close>

lemma spawn_keeps [simp]:
  "bg_transfers (fst (spawn_binding key random args started b)) = bg_transfers b"
  "bg_disk (fst (spawn_binding key random args started b)) = bg_disk b"
  by (simp_all add: spawn_binding_def Let_def split: prod.splits option.splits)

lemma spawn_result: "spawn_binding key random args started b = (b', ok) \<Longrightarrow> bg_transfers b' = bg_transfers b"
  by (metis fst_conv spawn_keeps(1))

lemma closed_by_guard: "Blocked key (Some (bg_transfers b)) \<Longrightarrow> closed_binding key b"
  by (simp add: closed_binding_def)

lemma current_process_keeps [simp]:
  "bg_transfers (current_process p b) = bg_transfers b" "bg_disk (current_process p b) = bg_disk b"
  "bg_shuttingDown (current_process p b) = bg_shuttingDown b"
  by (simp_all add: current_process_def)

lemma publish_fails_cases:
  assumes "publishGuardedBinding e key p r session paused stopping b = (b', Some err)"
  obtains (unwritten) "bg_process b' = bg_process b" "bg_transfers b' = bg_transfers b"
    | (written) b1 x where "bg_process b1 = bg_process b" "bg_transfers b1 = bg_transfers b" "update_guard e key None x b1 = (b', Some err)"
proof -
  show thesis
  proof (cases "bg_process b' = bg_process b \<and> bg_transfers b' = bg_transfers b")
    case False
    then have "\<exists>s1. update_guard e key None (tr_TransferID (st_Status r))
        (b\<lparr>bg_pins := Some s1, bg_shuttingDown := bg_shuttingDown b \<or> stopping\<rparr>) = (b', Some err)"
      using assms by (auto simp: publishGuardedBinding_def Let_def split: if_splits option.splits prod.splits)
    then obtain s1 where "update_guard e key None (tr_TransferID (st_Status r))
        (b\<lparr>bg_pins := Some s1, bg_shuttingDown := bg_shuttingDown b \<or> stopping\<rparr>) = (b', Some err)" ..
    then show thesis by (rule written [rotated 2]) simp_all
  qed (use unwritten in blast)
qed

lemma publish_fails:
  assumes "publishGuardedBinding e key p r session paused stopping b = (b', Some err)"
  shows "bg_process b' = bg_process b" and "Blocked key (Some (bg_transfers b)) \<Longrightarrow> Blocked key (Some (bg_transfers b'))"
    and "guard_of k b' = guard_of k b"
proof -
  have "bg_process b' = bg_process b \<and> (Blocked key (Some (bg_transfers b)) \<longrightarrow> Blocked key (Some (bg_transfers b')))
      \<and> guard_of k b' = guard_of k b"
    using assms
  proof (cases rule: publish_fails_cases)
    case unwritten
    then show ?thesis by (simp add: guard_of_def)
  next
    case (written b1 x)
    then show ?thesis
      using update_guard_keeps(1) [OF written(3)] update_guard_entry [OF written(3), of k] update_guard_blocks [OF written(3)]
      by (simp add: guard_of_def)
  qed
  then show "bg_process b' = bg_process b" "Blocked key (Some (bg_transfers b)) \<Longrightarrow> Blocked key (Some (bg_transfers b'))"
    "guard_of k b' = guard_of k b" by blast+
qed

lemma pins_Set_get: "pins_Set e key sid s = (s', True) \<Longrightarrow> pins_Get key s' = (if trim_space sid = '''' then '''' else sid)"
  by (auto simp: pins_Set_def pins_Get_def Let_def get_or_def publish_pins_def split: if_splits prod.splits)

lemma publish_done:
  assumes "publishGuardedBinding e key p r session paused stopping b = (b', None)"
  shows "bg_process b' = Some (p\<lparr>px_restoringTransferID := '''', px_bindingGuard := False, px_autoRestart := True\<rparr>)"
    and "guard_of key b' = None" and "\<not> bg_shuttingDown b'"
    and "\<exists>s. bg_pins b' = Some s \<and> (trim_space (st_SessionID (px_state p)) \<noteq> '''' \<longrightarrow> pins_Get key s = st_SessionID (px_state p))"
    and "px_stdin p" and "\<not> px_exited p" and "\<not> px_stoppedByGateway p"
    and "session \<noteq> '''' \<longrightarrow> st_SessionID (px_state p) = session" and "paused \<Longrightarrow> paused_as r p"
proof -
  have open': "\<not> bg_shuttingDown b" using assms by (cases "bg_shuttingDown b") (simp_all add: publishGuardedBinding_def)
  let ?gone = "\<not> px_stdin p \<or> px_exited p \<or> px_stoppedByGateway p \<or> st_SessionID (px_state p) = ''''
        \<or> session \<noteq> '''' \<and> st_SessionID (px_state p) \<noteq> session"
  have there: "\<not> ?gone"
  proof
    assume "?gone"
    from assms [unfolded publishGuardedBinding_def if_not_P [OF open'] if_P [OF this]] show False by simp
  qed
  have pause: "\<not> (paused \<and> \<not> paused_as r p)"
  proof
    assume "paused \<and> \<not> paused_as r p"
    from assms [unfolded publishGuardedBinding_def if_not_P [OF open'] if_not_P [OF there] if_P [OF this]] show False by simp
  qed
  note rest1 = assms [unfolded publishGuardedBinding_def if_not_P [OF open'] if_not_P [OF there] if_not_P [OF pause]]
  obtain s where s0: "bg_pins b = Some s" using rest1 by (cases "bg_pins b") simp_all
  obtain s1 ok where set: "pins_Set (te_pins e) key (st_SessionID (px_state p)) s = (s1, ok)" by fastforce
  obtain b1 err where up: "update_guard e key None (tr_TransferID (st_Status r))
      (b\<lparr>bg_pins := Some s1, bg_shuttingDown := bg_shuttingDown b \<or> stopping\<rparr>) = (b1, err)" by fastforce
  have all: "ok" "\<not> stopping" "err = None"
    "b' = b1\<lparr>bg_process := Some (p\<lparr>px_restoringTransferID := '''', px_bindingGuard := False, px_autoRestart := True\<rparr>)\<rparr>"
    using rest1 open' up unfolding Let_def s0 option.case set
    by (cases ok; cases stopping; cases err; simp)+
  note g = open' all(2) up [unfolded all(3)] and b' = all(4) and s = s0 set [unfolded eqTrueI [OF all(1)]]
  have rest: "px_stdin p" "\<not> px_exited p" "\<not> px_stoppedByGateway p" "session \<noteq> '''' \<longrightarrow> st_SessionID (px_state p) = session"
      "paused \<longrightarrow> paused_as r p"
    using there pause by blast+
  note keeps = update_guard_keeps [OF g(3)] update_guard_entry [OF g(3), of key]
  show "bg_process b' = Some (p\<lparr>px_restoringTransferID := '''', px_bindingGuard := False, px_autoRestart := True\<rparr>)"
    "guard_of key b' = None" "\<not> bg_shuttingDown b'"
    using keeps g(1,2) by (simp_all add: b' guard_of_def)
  show "\<exists>s. bg_pins b' = Some s \<and> (trim_space (st_SessionID (px_state p)) \<noteq> '''' \<longrightarrow> pins_Get key s = st_SessionID (px_state p))"
    using keeps(2) pins_Set_get [OF s(2)] by (simp add: b')
  show "px_stdin p" "\<not> px_exited p" "\<not> px_stoppedByGateway p" "session \<noteq> '''' \<longrightarrow> st_SessionID (px_state p) = session"
    "paused \<Longrightarrow> paused_as r p" using rest by simp_all
qed

text \<open>A binding that is closed and changed neither way stays closed; so does one that keeps its guard.\<close>

lemma restore_begin_guard:
  assumes "restore_begin e key random started ctxErr r b = (b', z)"
  shows "b' = b \<and> (\<forall>v. z \<noteq> Inr v) \<or> Blocked key (Some (bg_transfers b'))"
proof (cases "bg_shuttingDown b \<or> ctxErr")
  case True
  with assms show ?thesis by (auto simp: restore_begin_def split: if_splits)
next
  case False
  then have live: "\<not> bg_shuttingDown b" "\<not> ctxErr" by auto
  obtain cur le where get: "transfers_Get key (Some (bg_transfers b)) = (cur, le)" by fastforce
  then have g: "cur = map_of (ts_entries (bg_transfers b)) key" "le = ts_loadErr (bg_transfers b)" by (simp_all add: transfers_Get_def)
  note a = assms [unfolded restore_begin_def if_not_P [OF live(1)] if_not_P [OF live(2)] get]
  show ?thesis
  proof (cases "le = None \<and> (\<exists>c. cur = Some c)")
    case False
    with a show ?thesis by (cases le; cases cur) auto
  next
    case True
    then obtain c where c: "le = None" "cur = Some c" by blast
    then have bl: "Blocked key (Some (bg_transfers b))" using g by (simp add: Blocked_iff)
    show ?thesis
    proof (cases "bg_transfers b' = bg_transfers b")
      case False
      let ?c = "session_transfer.st_BindingInstanceID_update (\<lambda>z. tr_TargetInstanceID (st_Status c))
        (c\<lparr>st_Status := st_Status c\<lparr>tr_State := ''restoring''\<rparr>\<rparr>)"
      obtain b1 err where up: "update_guard e key (Some ?c) (tr_TransferID (st_Status c)) b = (b1, err)" by fastforce
      have "bg_transfers b' = bg_transfers b1"
        using a False unfolding c Let_def prod.case option.case up
        by (auto split: if_splits option.splits prod.splits dest!: spawn_result)
      with update_guard_blocks [OF up _ bl] show ?thesis by simp
    qed (use bl in simp)
  qed
qed

lemma restore_closed:
  assumes "restoreTransferredSession e1 e2 key random started ctxErr r ready gaveUp p2 stopping b = (b', Some err)"
    and "closed_binding key b"
  shows "closed_binding key b'"
proof -
  obtain b1 z where bg: "restore_begin e1 key random started ctxErr r b = (b1, z)" by fastforce
  show ?thesis
  proof (cases z)
    case (Inl x)
    with assms bg restore_begin_guard [OF bg] show ?thesis by (auto simp: restoreTransferredSession_def closed_by_guard)
  next
    case (Inr v)
    with restore_begin_guard [OF bg] have bl: "Blocked key (Some (bg_transfers (current_process p2 b1)))" by auto
    have "restore_end e2 key ready gaveUp p2 v stopping (current_process p2 b1) = (b', Some err)"
      using assms(1) bg Inr by (simp add: restoreTransferredSession_def)
    then have "Blocked key (Some (bg_transfers b'))"
      using bl publish_fails(2) by (auto simp: restore_end_def split: if_splits)
    then show ?thesis by (rule closed_by_guard)
  qed
qed

lemma replace_begin_guard:
  assumes "replace_begin key random started session b = (b', z)"
  shows "b' = b \<and> (\<forall>v. z \<noteq> Inr v) \<or> Blocked key (Some (bg_transfers b'))"
proof (cases "bg_shuttingDown b \<or> ts_loadErr (bg_transfers b) \<noteq> None \<or> map_of (ts_entries (bg_transfers b)) key = None")
  case True
  with assms show ?thesis by (auto simp: replace_begin_def transfers_Get_def split: if_splits option.splits)
next
  case False
  have "bg_transfers b' = bg_transfers b"
    using assms False by (auto simp: replace_begin_def transfers_Get_def Let_def split: if_splits option.splits prod.splits dest!: spawn_result)
  with False show ?thesis by (simp add: Blocked_iff)
qed

lemma replace_closed:
  assumes "replaceBlockedBinding e key random started session ready p2 stopping b = (b', Some err)" and "closed_binding key b"
  shows "closed_binding key b'"
proof -
  obtain b1 z where bg: "replace_begin key random started session b = (b1, z)" by fastforce
  show ?thesis
  proof (cases z)
    case (Inl x)
    with assms bg replace_begin_guard [OF bg] show ?thesis by (auto simp: replaceBlockedBinding_def closed_by_guard)
  next
    case (Inr v)
    with replace_begin_guard [OF bg] have bl: "Blocked key (Some (bg_transfers (current_process p2 b1)))" by auto
    have e: "replace_end e key ready session p2 v stopping (current_process p2 b1) = (b', Some err)"
      using assms(1) bg Inr by (simp add: replaceBlockedBinding_def)
    have "Blocked key (Some (bg_transfers b'))"
    proof (cases "ready")
      case False
      with e bl show ?thesis by (auto simp: replace_end_def)
    next
      case True
      obtain b2 x where pub: "publishGuardedBinding e key p2 v session False stopping (current_process p2 b1) = (b2, x)" by fastforce
      with e True have "x = Some err" "b' = b2\<lparr>bg_process := None\<rparr>" by (auto simp: replace_end_def split: if_splits)
      with publish_fails(2) [OF pub [unfolded \<open>x = Some err\<close>] bl] show ?thesis by simp
    qed
    then show ?thesis by (rule closed_by_guard)
  qed
qed

lemma closed_mono:
  assumes "closed_binding key b" and "Blocked key (Some (bg_transfers b)) \<Longrightarrow> Blocked key (Some (bg_transfers b'))"
  shows "closed_binding key b'"
  using assms by (simp add: closed_binding_def)

lemma update_guard_closed:
  assumes "update_guard e key v x b = (b', err)" and "v \<noteq> None \<or> err \<noteq> None" and "closed_binding key b"
  shows "closed_binding key b'"
  by (rule closed_mono [OF assms(3)]) (rule update_guard_blocks [OF assms(1,2)])

lemma replace_guard_closed:
  assumes "replace_guard e key v x b = (b', err)" and "closed_binding key b"
  shows "closed_binding key b'"
proof -
  obtain s trace r where w: "transfer_replace (te_guard e) key v x (bg_transfers b, bg_disk b) = (s, trace, r)" by (metis prod_cases3)
  then have b': "bg_transfers b' = s" using assms(1) by (auto simp: replace_guard_def)
  show ?thesis
  proof (cases "x = ''''")
    case True
    then show ?thesis using w assms(2) b' by (simp add: transfer_replace_def closed_binding_def)
  next
    case False
    then have w: "transfer_commit (te_guard e) key (Some v) x False (bg_transfers b, bg_disk b) = (s, trace, r)"
      using w by (simp add: transfer_replace_def)
    have "ts_loadErr s = ts_loadErr (bg_transfers b)" using w by (cases rule: transfer_commit_cases) simp_all
    with commit_effect [OF w, of key] assms(2) show ?thesis by (auto simp: closed_binding_def Blocked_iff b')
  qed
qed

lemma failClosed_blocks [simp]: "Blocked key (Some (failClosed msg s))"
  by (simp add: Blocked_iff failClosed_def)

lemma record_transfer_process: "bg_process (fst (record_transfer e key kind t p b)) = Some p"
proof -
  obtain b1 err where up: "update_guard e key (Some \<lparr>st_Status = t, st_Interrupted = False, st_Direction = ''outgoing'',
      session_transfer.st_BindingInstanceID = px_bindingInstanceID p\<rparr>)
      (if map_of (ts_entries (bg_transfers b)) key \<noteq> None then tr_TransferID t else '''') (b\<lparr>bg_process := Some p\<rparr>) = (b1, err)" by fastforce
  have k: "bg_process b1 = Some p" using update_guard_keeps(1) [OF up] by simp
  have c: "bg_process (fst (clear_pin e key s b1)) = Some p" for s using k by simp
  show ?thesis
    using up k c by (auto simp: record_transfer_def transfers_Get_def Let_def split: prod.splits if_splits) (metis fst_conv clear_pin_keeps(1))+
qed

lemma envelope_closed:
  assumes "closed_binding key b"
  shows "closed_binding key (fst (processTransferEnvelope e key current kind t b))"
proof (cases "fst (processTransferEnvelope e key current kind t b) = b")
  case False
  then obtain p t' where r: "processTransferEnvelope e key current kind t b = record_transfer e key kind t' (adopt_transfer t' p) b"
    by (auto simp: processTransferEnvelope_def split: option.splits if_splits transfer_decision.splits)
  let ?q = "adopt_transfer t' p"
  obtain b1 err where up: "update_guard e key (Some \<lparr>st_Status = t', st_Interrupted = False, st_Direction = ''outgoing'',
      session_transfer.st_BindingInstanceID = px_bindingInstanceID ?q\<rparr>)
      (if map_of (ts_entries (bg_transfers b)) key \<noteq> None then tr_TransferID t' else '''') (b\<lparr>bg_process := Some ?q\<rparr>) = (b1, err)"
    by fastforce
  have "closed_binding key b1" by (rule update_guard_closed [OF up]) (use assms in \<open>simp_all add: closed_binding_def\<close>)
  moreover have "bg_transfers (fst (record_transfer e key kind t' ?q b)) \<in> {bg_transfers b, bg_transfers b1}"
    using up by (auto simp: record_transfer_def transfers_Get_def Let_def split: prod.splits if_splits) (metis fst_conv clear_pin_keeps(2))+
  ultimately show ?thesis using assms by (auto simp: closed_binding_def r)
qed (use assms in simp)

lemma exit_closed:
  assumes "closed_binding key b"
  shows "closed_binding key (fst (recordTransferExit e key current code p b))"
proof (cases "bg_transfers (fst (recordTransferExit e key current code p b)) = bg_transfers b
    \<and> bg_process (fst (recordTransferExit e key current code p b)) = bg_process b")
  case True
  then show ?thesis using assms by (simp add: closed_binding_def)
next
  case False
  let ?v = "\<lparr>st_Status = exit_status key (bg_pins b) p, st_Interrupted = False, st_Direction = ''outgoing'',
      session_transfer.st_BindingInstanceID = px_bindingInstanceID p\<rparr>"
  obtain b1 err where up: "update_guard e key (Some ?v) '''' b = (b1, err)" by fastforce
  show ?thesis
  proof (cases err)
    case None
    have "fst (recordTransferExit e key current code p b) = b1"
      using False up None by (auto simp: recordTransferExit_def transfers_Get_def Let_def split: if_splits)
    with update_guard_closed [OF up _ assms] show ?thesis by simp
  next
    case (Some x)
    with False up show ?thesis
      by (auto simp: recordTransferExit_def transfers_Get_def Let_def closed_by_guard split: if_splits)
  qed
qed

lemma interrupted_closed:
  assumes "closed_binding key b"
  shows "closed_binding key (markTransferInterrupted e key p b)"
proof (cases "markTransferInterrupted e key p b = b")
  case False
  then obtain r where r: "transfers_Get key (Some (bg_transfers b)) = (Some r, None)"
      "session_transfer.st_BindingInstanceID r = px_bindingInstanceID p"
    by (auto simp: markTransferInterrupted_def split: option.splits prod.splits if_splits)
  obtain b1 err where up: "update_guard e key (Some (r\<lparr>st_Interrupted := True\<rparr>)) (tr_TransferID (st_Status r)) b = (b1, err)" by fastforce
  show ?thesis
    using update_guard_closed [OF up _ assms] by (simp add: markTransferInterrupted_def r up closed_by_guard)
qed (use assms in simp)

lemma refused_while_closed:
  assumes "closed_binding key b"
  shows "snd (replaceOrdinarySession e key random started session b) \<noteq> None"
    and "fst (replaceOrdinarySession e key random started session b) = b"
    and "publishSessionPin e key current session b = (b, True)"
    and "discardFailedResume e key current session b = b"
  using assms
  by (auto simp: closed_binding_def replaceOrdinarySession_def publishSessionPin_def discardFailedResume_def Let_def split: option.splits)

lemma reopen_closed:
  assumes "reopenUnfrozenSource e key t b = (b', Some err)" and "closed_binding key b"
  shows "closed_binding key b'"
proof (cases "b' = b")
  case False
  then obtain p old where o: "bg_process b = Some p" "source_unchanged t p" "tr_State t = ''prepare_failed''"
      "transfers_Get key (Some (bg_transfers b)) = (Some old, None)"
    using assms(1) by (auto simp: reopenUnfrozenSource_def split: option.splits if_splits prod.splits)
  then have "update_guard e key None (tr_TransferID t) b = (b', Some err)"
    using assms(1) by (auto simp: reopenUnfrozenSource_def split: if_splits prod.splits)
  from update_guard_closed [OF this _ assms(2)] show ?thesis by simp
qed (use assms in simp)

lemma observed_closed:
  assumes "closed_binding key b"
  shows "closed_binding key (fst (persistObservedTransfer e key r localPreparation b))"
proof (cases "fst (persistObservedTransfer e key r localPreparation b) = b")
  case False
  then obtain v x where "persistObservedTransfer e key r localPreparation b = update_guard e key (Some v) x b"
    by (auto simp: persistObservedTransfer_def Let_def split: option.splits if_splits prod.splits)
  moreover obtain b1 err where up: "update_guard e key (Some v) x b = (b1, err)" by fastforce
  ultimately show ?thesis using update_guard_closed [OF up _ assms] by simp
qed (use assms in simp)

section \<open>When a binding opens\<close>

definition pinned :: "string \<Rightarrow> chord_process \<Rightarrow> binding \<Rightarrow> bool" where
  "pinned key p b \<longleftrightarrow> (\<exists>s. bg_pins b = Some s \<and>
     (trim_space (st_SessionID (px_state p)) \<noteq> '''' \<longrightarrow> pins_Get key s = st_SessionID (px_state p)))"

definition names_guard :: "string \<Rightarrow> transfer_status \<Rightarrow> binding \<Rightarrow> bool" where
  "names_guard key t b \<longleftrightarrow> (\<exists>g. guard_of key b = Some g \<and> tr_TransferID (st_Status g) = tr_TransferID t)"

definition unaccepted_source :: "transfer_status \<Rightarrow> binding \<Rightarrow> bool" where
  "unaccepted_source t b \<longleftrightarrow> tr_State t = ''prepare_failed'' \<and> (\<exists>p. bg_process b = Some p \<and> source_unchanged t p)"

text \<open>What has to hold for an operation that opens the binding \<open>b\<close> and leaves \<open>b'\<close>.\<close>

fun authority :: "string \<Rightarrow> takeover_op \<Rightarrow> binding \<Rightarrow> binding \<Rightarrow> bool" where
  "authority key (Restore e1 e2 random started ctxErr r ready gaveUp p2 stopping) b b' \<longleftrightarrow>
     ready \<and> \<not> gaveUp \<and> px_stdin p2 \<and> \<not> px_exited p2 \<and> pinned key p2 b' \<and>
     (\<exists>cur. guard_of key b = Some cur \<and> tr_TransferID (st_Status cur) = tr_TransferID (st_Status r) \<and> st_Direction cur = ''incoming''
       \<and> tr_State (st_Status cur) \<in> {''released'', ''restoring''} \<and> paused_as cur p2
       \<and> (tr_SessionID (st_Status cur) \<noteq> '''' \<longrightarrow> st_SessionID (px_state p2) = tr_SessionID (st_Status cur)))"
| "authority key (Replace e random started session ready p2 stopping) b b' \<longleftrightarrow>
     ready \<and> px_stdin p2 \<and> \<not> px_exited p2 \<and> pinned key p2 b' \<and> guard_of key b \<noteq> None
     \<and> (\<forall>p. bg_process b = Some p \<longrightarrow> px_exited p) \<and> (session \<noteq> '''' \<longrightarrow> st_SessionID (px_state p2) = session)"
| "authority key (ObserveReply e r localPreparation start failed t) b b' \<longleftrightarrow> reply_matches r t \<and> names_guard key t b
     \<and> (st_Direction r = ''incoming'' \<and> refused_reply start failed t \<or> st_Direction r = ''outgoing'' \<and> unaccepted_source t b)"
| "authority key (IngressSettle e r t) b b' \<longleftrightarrow> sameTransferIdentity (st_Status r) t \<and> names_guard key t b \<and> tr_State t = ''prepare_failed''
     \<and> (st_Direction r = ''incoming'' \<or> unaccepted_source t b)"
| "authority key z b b' \<longleftrightarrow> False"

lemma restore_begin_record:
  assumes "restore_begin e key random started ctxErr r b = (b', Inr v)"
  shows "\<exists>cur. guard_of key b = Some cur \<and> tr_TransferID (st_Status cur) = tr_TransferID (st_Status r) \<and> st_Direction cur = ''incoming''
       \<and> tr_State (st_Status cur) \<in> {''released'', ''restoring''} \<and> (paused_as v p \<longrightarrow> paused_as cur p)
       \<and> tr_SessionID (st_Status v) = tr_SessionID (st_Status cur)"
proof -
  have live: "\<not> bg_shuttingDown b" "\<not> ctxErr" using assms by (auto simp: restore_begin_def split: if_splits)
  obtain cur le where get: "transfers_Get key (Some (bg_transfers b)) = (cur, le)" by fastforce
  note a = assms [unfolded restore_begin_def if_not_P [OF live(1)] if_not_P [OF live(2)] get]
  obtain c where c: "le = None" "cur = Some c" using a by (cases le; cases cur) auto
  have g: "guard_of key b = Some c" using get c by (simp add: transfers_Get_def guard_of_def)
  have ok: "tr_TransferID (st_Status c) = tr_TransferID (st_Status r)" "st_Direction c = ''incoming''"
      "tr_State (st_Status c) \<in> {''released'', ''restoring''}"
    using a c by (auto split: if_splits)
  let ?c = "session_transfer.st_BindingInstanceID_update (\<lambda>z. tr_TargetInstanceID (st_Status c))
    (c\<lparr>st_Status := st_Status c\<lparr>tr_State := ''restoring''\<rparr>\<rparr>)"
  have "v = c \<or> v = ?c"
    using a unfolding c Let_def by (auto split: if_splits option.splits prod.splits)
  with g ok show ?thesis by (auto simp: paused_as_def)
qed

lemma restore_authority:
  assumes "restoreTransferredSession e1 e2 key random started ctxErr r ready gaveUp p2 stopping b = (b', None)"
  shows "authority key (Restore e1 e2 random started ctxErr r ready gaveUp p2 stopping) b b'"
proof -
  obtain b1 z where bg: "restore_begin e1 key random started ctxErr r b = (b1, z)" by fastforce
  then obtain v where z: "z = Inr v" using assms by (cases z) (simp_all add: restoreTransferredSession_def)
  have e: "restore_end e2 key ready gaveUp p2 v stopping (current_process p2 b1) = (b', None)"
    using assms bg z by (simp add: restoreTransferredSession_def)
  then have r: "ready" "\<not> gaveUp" by (auto simp: restore_end_def split: if_splits)
  with e have "publishGuardedBinding e2 key p2 v (tr_SessionID (st_Status v)) True stopping (current_process p2 b1) = (b', None)"
    by (simp add: restore_end_def)
  note d = publish_done [OF this]
  obtain cur where "guard_of key b = Some cur \<and> tr_TransferID (st_Status cur) = tr_TransferID (st_Status r) \<and> st_Direction cur = ''incoming''
       \<and> tr_State (st_Status cur) \<in> {''released'', ''restoring''} \<and> (paused_as v p2 \<longrightarrow> paused_as cur p2)
       \<and> tr_SessionID (st_Status v) = tr_SessionID (st_Status cur)"
    using restore_begin_record [OF bg [unfolded z], of p2] by blast
  with d r show ?thesis by (auto simp: pinned_def)
qed

lemma replace_begin_ok:
  assumes "replace_begin key random started session b = (b', Inr v)"
  shows "guard_of key b \<noteq> None" and "bg_process b = Some p \<Longrightarrow> px_exited p"
  using assms
  by (auto simp: replace_begin_def transfers_Get_def guard_of_def px_alive_def Let_def split: if_splits option.splits prod.splits)

lemma replace_authority:
  assumes "replaceBlockedBinding e key random started session ready p2 stopping b = (b', None)"
  shows "authority key (Replace e random started session ready p2 stopping) b b'"
proof -
  obtain b1 z where bg: "replace_begin key random started session b = (b1, z)" by fastforce
  then obtain v where z: "z = Inr v" using assms by (cases z) (simp_all add: replaceBlockedBinding_def)
  have e: "replace_end e key ready session p2 v stopping (current_process p2 b1) = (b', None)"
    using assms bg z by (simp add: replaceBlockedBinding_def)
  then have r: "ready" by (auto simp: replace_end_def split: if_splits)
  obtain b2 x where pub: "publishGuardedBinding e key p2 v session False stopping (current_process p2 b1) = (b2, x)" by fastforce
  with e r have "x = None" "b' = b2" by (auto simp: replace_end_def split: if_splits)
  note d = publish_done [OF pub [unfolded this(1)]] and this
  with r replace_begin_ok [OF bg [unfolded z]] show ?thesis by (auto simp: pinned_def)
qed

text \<open>A guard that an operation deletes is the one it names.\<close>

lemma deleted_guard:
  assumes "update_guard e key None x b = (b', None)" and "x \<noteq> ''''"
  shows "\<exists>g. guard_of key b = Some g \<and> tr_TransferID (st_Status g) = x"
  using assms by (auto simp: update_guard_def transfer_update_def transfer_commit_def guard_of_def Let_def split: prod.splits if_splits option.splits)

lemma reopen_opens:
  assumes "reopenUnfrozenSource e key t b = (b', err)" and "closed_binding key b" and "\<not> closed_binding key b'" and "tr_TransferID t \<noteq> ''''"
  shows "err = None \<and> names_guard key t b \<and> unaccepted_source t b"
proof -
  have none: "err = None" using reopen_closed [OF _ assms(2)] assms(1,3) by (cases err) auto
  then obtain p g b1 where p: "bg_process b = Some p" "source_unchanged t p" "tr_State t = ''prepare_failed''"
      "transfers_Get key (Some (bg_transfers b)) = (Some g, None)" "update_guard e key None (tr_TransferID t) b = (b1, None)"
    using assms(1-3) by (auto simp: reopenUnfrozenSource_def closed_binding_def Blocked_def split: option.splits if_splits prod.splits)
  with none deleted_guard [OF p(5) assms(4)] show ?thesis by (auto simp: names_guard_def unaccepted_source_def)
qed

lemma observe_opens:
  assumes "observe_reply e key r l start failed t b = (b', err)" and "closed_binding key b" and "\<not> closed_binding key b'"
  shows "err = None \<and> authority key (ObserveReply e r l start failed t) b b'"
proof -
  have m: "tr_TransferID t \<noteq> ''''" "reply_matches r t" using assms by (auto simp: observe_reply_def split: if_splits)
  show ?thesis
  proof (cases "st_Direction r = ''outgoing'' \<and> tr_State t = ''prepare_failed''")
    case True
    then have "reopenUnfrozenSource e key t b = (b', err)" using assms(1) m by (simp add: observe_reply_def)
    from reopen_opens [OF this assms(2,3) m(1)] m(2) True show ?thesis by simp
  next
    case False
    show ?thesis
    proof (cases "st_Direction r = ''incoming'' \<and> refused_reply start failed t")
      case True
      then have up: "update_guard e key None (tr_TransferID t) b = (b', err)" using assms(1) m by (auto simp: observe_reply_def)
      then have "err = None" using update_guard_closed [OF _ _ assms(2)] assms(3) by (cases err) auto
      with deleted_guard [OF up [unfolded this] m(1)] m(2) True show ?thesis by (simp add: names_guard_def)
    next
      case 2: False
      with False have "persistObservedTransfer e key (r\<lparr>st_Status := t\<rparr>) l b = (b', err)" using assms(1) m by (auto simp: observe_reply_def)
      with observed_closed [OF assms(2), of e "r\<lparr>st_Status := t\<rparr>" l] assms(3) show ?thesis by simp
    qed
  qed
qed

lemma settle_opens:
  assumes "ingress_settle e key r t b = (b', err)" and "closed_binding key b" and "\<not> closed_binding key b'"
  shows "err = None \<and> authority key (IngressSettle e r t) b b'"
proof -
  have m: "tr_TransferID t \<noteq> ''''" "sameTransferIdentity (st_Status r) t" "tr_State t = ''prepare_failed''"
    using assms by (auto simp: ingress_settle_def split: if_splits)
  show ?thesis
  proof (cases "st_Direction r = ''incoming''")
    case True
    then have up: "update_guard e key None (tr_TransferID t) b = (b', err)" using assms(1) m by (simp add: ingress_settle_def)
    then have "err = None" using update_guard_closed [OF _ _ assms(2)] assms(3) by (cases err) auto
    with deleted_guard [OF up [unfolded this] m(1)] m True show ?thesis by (simp add: names_guard_def)
  next
    case False
    then have "reopenUnfrozenSource e key t b = (b', err)" using assms(1) m by (simp add: ingress_settle_def)
    from reopen_opens [OF this assms(2,3) m(1)] m False show ?thesis by simp
  qed
qed

text \<open>The other operations only add or change guards.\<close>

lemma ingress_reply_closed:
  "closed_binding key b \<Longrightarrow> closed_binding key (fst (ingress_reply e key r l t b))"
  using observed_closed [of key b e "r\<lparr>st_Status := t\<rparr>" l] by (simp add: ingress_reply_def)

lemma record_incoming_closed: "closed_binding key b \<Longrightarrow> fst (record_incoming e key q t b) = b"
  by (simp add: record_incoming_def closed_binding_def)

lemma start_incoming_closed:
  assumes "closed_binding key b"
  shows "closed_binding key (fst (start_incoming e key q previous same t b))"
proof (cases previous)
  case None
  obtain b1 err where up: "update_guard e key (Some (incoming_record t)) '''' b = (b1, err)" by fastforce
  from update_guard_closed [OF up _ assms] assms None up show ?thesis by (simp add: start_incoming_def)
next
  case (Some x)
  obtain b1 err where up: "replace_guard e key (incoming_record t) x b = (b1, err)" by fastforce
  from replace_guard_closed [OF up assms] assms Some up show ?thesis by (simp add: start_incoming_def)
qed

lemma takeover_run_opens:
  assumes "closed_binding key b" and "takeover_run key op b = (b', err)" and "\<not> closed_binding key b'"
  shows "err = None \<and> authority key op b b'"
proof (cases op)
  case (Envelope e crr ty t)
  with assms envelope_closed [OF assms(1)] show ?thesis by auto
next
  case (ProcessExit e crr cd p)
  with assms exit_closed [OF assms(1)] show ?thesis by auto
next
  case (Interrupted e p)
  with assms interrupted_closed [OF assms(1)] show ?thesis by auto
next
  case (Restore e1 e2 n s c r y g p st)
  then have run: "restoreTransferredSession e1 e2 key n s c r y g p st b = (b', err)" using assms(2) by simp
  then have "err = None" using restore_closed [OF _ assms(1)] assms(3) by (cases err) auto
  with restore_authority [OF run [unfolded this]] Restore show ?thesis by blast
next
  case (Replace e n s ses y p st)
  then have run: "replaceBlockedBinding e key n s ses y p st b = (b', err)" using assms(2) by simp
  then have "err = None" using replace_closed [OF _ assms(1)] assms(3) by (cases err) auto
  with replace_authority [OF run [unfolded this]] Replace show ?thesis by blast
next
  case (ReplaceOrdinary e n s ses)
  with assms refused_while_closed(2) [OF assms(1), of e n s ses] show ?thesis by auto
next
  case (ObserveReply e r l st f t)
  with assms(2) observe_opens [OF _ assms(1,3)] show ?thesis by simp
next
  case (IngressReply e r l t)
  with assms ingress_reply_closed [OF assms(1), of e r l t] show ?thesis by auto
next
  case (IngressSettle e r t)
  with assms(2) settle_opens [OF _ assms(1,3)] show ?thesis by simp
next
  case (RecordIncoming e q t)
  with assms record_incoming_closed [OF assms(1), of e q t] show ?thesis by auto
next
  case (StartIncoming e q prv same t)
  with assms start_incoming_closed [OF assms(1), of e q prv same t] show ?thesis by auto
next
  case Shutdown
  with assms show ?thesis by (auto simp: closed_binding_def)
next
  case (PublishPin e crr ses)
  with assms refused_while_closed(3) [OF assms(1), of e crr ses] show ?thesis by auto
next
  case (DiscardResume e crr ses)
  with assms refused_while_closed(4) [OF assms(1), of e crr ses] show ?thesis by auto
qed

text \<open>
  C4: A guard that closes a binding stays through every sequence of operations, also those that start and observe a
  takeover, until one of four succeeds: a restoration whose process announced itself paused, in the session, the
  workspace and under the instance of the guard; a replacement whose process took the session that was asked
  for after the old one had ended; or a reply for the transfer of this guard that it was not accepted, either by
  the owner of a session the gateway wanted, or by a source that is unchanged, seen by an observer or in an
  ingress command. The first two have the session pinned.
\<close>

theorem binding_opens_with_authority:
  assumes "closed_binding key b" and "\<not> closed_binding key (takeover_runs key ops b)"
  shows "\<exists>before op rest b1 b2. ops = before @ op # rest \<and> b1 = takeover_runs key before b \<and> closed_binding key b1
    \<and> takeover_run key op b1 = (b2, None) \<and> authority key op b1 b2"
  using assms
proof (induction ops arbitrary: b)
  case (Cons op ops)
  obtain b2 err where r: "takeover_run key op b = (b2, err)" by fastforce
  show ?case
  proof (cases "closed_binding key b2")
    case False
    then have "err = None" "authority key op b b2" using takeover_run_opens [OF Cons.prems(1) r] by blast+
    with r Cons.prems(1) show ?thesis
      by (intro exI [of _ "[]"] exI [of _ op] exI [of _ ops] exI [of _ b] exI [of _ b2]) (simp del: authority.simps)
  next
    case True
    with Cons.prems(2) r obtain before op' rest b1 b3 where s: "ops = before @ op' # rest" "b1 = takeover_runs key before b2"
        "closed_binding key b1" "takeover_run key op' b1 = (b3, None)" "authority key op' b1 b3"
      using Cons.IH [OF True] by (auto simp del: authority.simps)
    then show ?thesis using r
      by (intro exI [of _ "op # before"] exI [of _ op'] exI [of _ rest] exI [of _ b1] exI [of _ b3]) (simp del: authority.simps)
  qed
qed simp

section \<open>What the source may rely on\<close>

lemma ack_preparation_acks: "(t', c) \<in> set (tf_acks (ack_preparation e t code p)) \<Longrightarrow> t' = t \<and> c = code"
  by (auto simp: ack_preparation_def no_transfer_effects_def split: if_splits option.splits)

lemma normalized_id [simp]: "tr_TransferID (st_Status (normalized inherit old v)) = tr_TransferID (st_Status v)"
  by (simp add: normalized_def Let_def split: option.splits)

lemma record_transfer_ack:
  assumes "record_transfer e key kind t p b = (b', fx)" and "(t', '''') \<in> set (tf_acks fx)"
    and "transfer_reach (bg_transfers b) (bg_disk b)"
  shows "t' = t \<and> (\<exists>r. guard_of key b' = Some r \<and> tr_TransferID (st_Status r) = tr_TransferID t)
    \<and> transfer_reach (bg_transfers b') (bg_disk b')"
proof -
  let ?v = "\<lparr>st_Status = t, st_Interrupted = False, st_Direction = ''outgoing'',
      session_transfer.st_BindingInstanceID = px_bindingInstanceID p\<rparr>"
  let ?x = "if map_of (ts_entries (bg_transfers b)) key \<noteq> None then tr_TransferID t else ''''"
  obtain b1 err where up: "update_guard e key (Some ?v) ?x (b\<lparr>bg_process := Some p\<rparr>) = (b1, err)" by fastforce
  have ty: "kind = ''session_transfer_preparing''"
    using assms(1,2) up by (auto simp: record_transfer_def transfers_Get_def Let_def no_transfer_effects_def split: prod.splits if_splits)
  have b': "ts_loadErr (bg_transfers b) = None \<and> err = None \<and> b' = b1 \<and> t' = t"
  proof (cases "ts_loadErr (bg_transfers b) = None \<and> err = None")
    case True
    with assms(1,2) up ty show ?thesis
      by (auto simp: record_transfer_def transfers_Get_def Let_def dest: ack_preparation_acks)
  next
    case False
    with assms(1,2) up ty show ?thesis
      by (auto simp: record_transfer_def transfers_Get_def Let_def split: if_splits dest: ack_preparation_acks)
  qed
  with update_guard_entry [OF up, of key] update_guard_disk [OF up] assms(3) show ?thesis by auto
qed

text \<open>
  C12: When a source is told that its input is closed for a transfer, it is: the process takes no message from
  then on, and its guard is in force and on disk, so that a restart after a crash at any later point up to the
  next operation finds the binding blocked, whatever the writes before had done.
\<close>

theorem prepared_source_guarded:
  assumes "transfer_reach (bg_transfers b) (bg_disk b)" and "processTransferEnvelope e key current kind t b = (b', fx)"
    and "(t', '''') \<in> set (tf_acks fx)"
  shows "\<exists>p r. bg_process b' = Some p \<and> px_transfer p = Some t' \<and> \<not> commandAllowed ''send'' '''' '''' p
    \<and> guard_of key b' = Some r \<and> tr_TransferID (st_Status r) = tr_TransferID t' \<and> guarded_after_crash key b'"
proof -
  from assms(2,3) obtain p t1 where r: "record_transfer e key kind t1 (adopt_transfer t1 p) b = (b', fx)"
    by (auto simp: processTransferEnvelope_def no_transfer_effects_def dest!: ack_preparation_acks
        split: option.splits if_splits transfer_decision.splits)
  from record_transfer_ack [OF r assms(3,1)] obtain g where g: "t' = t1" "guard_of key b' = Some g"
      "tr_TransferID (st_Status g) = tr_TransferID t1" "transfer_reach (bg_transfers b') (bg_disk b')" by auto
  have "bg_process b' = Some (adopt_transfer t1 p)" using record_transfer_process [of e key kind t1 "adopt_transfer t1 p" b] r by simp
  moreover have "guarded_after_crash key b'" using in_force_on_disk [OF g(4)] g(2) by simp
  ultimately show ?thesis using g by (simp add: adopt_transfer_def commandAllowed_def inputBlocked_def)
qed

text \<open>
  The progress of a transfer only moves on. A status that replaces another belongs to the same transfer;
  nothing follows \<open>released\<close>, only \<open>released\<close> follows \<open>saved\<close>, and neither is taken while the gateway
  still waits for the answer to an input it sent.
\<close>

theorem transfer_moves_on:
  assumes "processTransferEnvelope e key current kind t b = (b', fx)" and "bg_process b = Some p" and "px_transfer p = Some old"
    and "bg_process b' = Some p'" and "px_transfer p' \<noteq> Some old"
  shows "\<exists>new. px_transfer p' = Some new \<and> sameTransferIdentity old new \<and> tr_State old \<noteq> ''released''
    \<and> (tr_State old = ''saved'' \<longrightarrow> tr_State new = ''released'') \<and> (terminal_transfer new \<longrightarrow> px_pendingInputs p = [])"
proof -
  have "b' \<noteq> b" using assms(2-5) by auto
  with assms(1,2) obtain t1 where d: "decide_transfer kind t p = Adopt t1"
      and r: "record_transfer e key kind t1 (adopt_transfer t1 p) b = (b', fx)"
    by (auto simp: processTransferEnvelope_def split: if_splits transfer_decision.splits)
  have "bg_process b' = Some (adopt_transfer t1 p)" using record_transfer_process [of e key kind t1 "adopt_transfer t1 p" b] r by simp
  then have p': "px_transfer p' = Some t1" using assms(4) by (simp add: adopt_transfer_def)
  have "sameTransferIdentity old t" "next_status kind t = Inr (Some t1)"
      "tr_State old \<noteq> ''released''" "tr_State old = ''saved'' \<longrightarrow> tr_State t1 = ''released''" "terminal_transfer t1 \<longrightarrow> px_pendingInputs p = []"
    using d assms(3) by (auto simp: decide_transfer_def split: if_splits sum.splits option.splits)
  moreover from this(1,2) have "sameTransferIdentity old t1"
    by (auto simp: next_status_def sameTransferIdentity_def split: if_splits)
  ultimately show ?thesis using p' by blast
qed

text \<open>
  C28: The current process of a key that ends while its input is closed, or with the exit code of a transfer, is not
  restarted and leaves the binding blocked, even when the guard cannot be written. A transfer it holds must name its
  session.
\<close>

theorem exit_leaves_guard:
  assumes "recordTransferExit e key True code p b = (b', noRestart)" and "inputBlocked p \<or> code = sessionTransferExitCode"
    and "px_transfer p = None \<or> tr_SessionID (the (px_transfer p)) \<noteq> ''''"
  shows "noRestart \<and> Blocked key (Some (bg_transfers b'))"
proof -
  have s: "tr_SessionID (exit_status key (bg_pins b) p) \<noteq> ''''"
    using assms(3) by (cases "px_transfer p") (simp_all add: exit_status_def Let_def)
  let ?v = "\<lparr>st_Status = exit_status key (bg_pins b) p, st_Interrupted = False, st_Direction = ''outgoing'',
      session_transfer.st_BindingInstanceID = px_bindingInstanceID p\<rparr>"
  obtain b1 err where up: "update_guard e key (Some ?v) '''' b = (b1, err)" by fastforce
  show ?thesis
  proof (cases "Blocked key (Some (bg_transfers b))")
    case True
    with assms(1,2) show ?thesis by (auto simp: recordTransferExit_def transfers_Get_def Blocked_iff Let_def split: if_splits)
  next
    case False
    then have f: "transfers_Get key (Some (bg_transfers b)) = (None, None)" by (simp add: transfers_Get_def Blocked_iff)
    show ?thesis
      using assms(1,2) s up update_guard_entry [OF up, of key]
      by (auto simp: recordTransferExit_def f Let_def Blocked_iff guard_of_def failClosed_def split: if_splits)
  qed
qed

section \<open>Witnesses\<close>

definition quiet :: takeover_env where "quiet = \<lparr>te_guard = quiet_env, te_pins = Written, te_written = True\<rparr>"

definition source_process :: chord_process where "source_process = new_process\<lparr>px_bindingInstanceID := ''B1''\<rparr>"

definition source_transfer :: "string \<Rightarrow> transfer_status" where
  "source_transfer state = zero_transfer\<lparr>tr_BindingInstanceID := ''B1'', tr_TransferID := ''T1'', tr_SessionID := ''S1'',
     tr_SourceRuntimeID := ''R1'', tr_SourceSessionEpoch := 1, tr_Workspace := ''/srv'', tr_TargetKind := ''tui'',
     tr_TargetInstanceID := ''I1'', tr_State := state\<rparr>"

definition open_binding :: "chord_process option \<Rightarrow> binding" where
  "open_binding p = \<lparr>bg_process = p, bg_transfers = \<lparr>ts_entries = [], ts_loadErr = None, ts_writeUncertain = False\<rparr>,
     bg_disk = \<lparr>td_primary = fresh_file None, td_pending = fresh_file None\<rparr>,
     bg_pins = Some \<lparr>pn_pins = [], pn_disk = fresh_file None\<rparr>, bg_shuttingDown = False\<rparr>"

lemmas takeover_eval = quiet_def quiet_env_def source_process_def source_transfer_def open_binding_def new_process_def zero_state_def
  zero_transfer_def processTransferEnvelope_def decide_transfer_def record_transfer_def valid_source_def adopt_transfer_def
  update_guard_def transfers_Get_def transfer_update_def transfer_commit_def commit_writes_def put_pending_def put_primary_def
  writePrivateFileSynced_def file_sync_def file_replace_def fresh_file_def normalized_def drop_pending_def sync_directory_def
  last_disk_def ack_preparation_def commandAllowed_def writeCommand_def no_transfer_effects_def Let_def

lemma open_binding_reach: "transfer_reach (bg_transfers (open_binding p)) (bg_disk (open_binding p))"
proof -
  have "transfer_reach (fst (transfers_Load (text_of None) (text_of None) \<lparr>ts_entries = [], ts_loadErr = None, ts_writeUncertain = False\<rparr>))
      \<lparr>td_primary = fresh_file None, td_pending = fresh_file None\<rparr>"
    by (rule transfer_reach.start) simp
  then show ?thesis by (simp add: open_binding_def transfers_Load_def text_of_def readSessionTransferRecords_def)
qed

definition prepared :: "binding \<times> transfer_effects" where
  "prepared = processTransferEnvelope quiet ''k'' True ''session_transfer_preparing'' (source_transfer '''') (open_binding (Some source_process))"

lemma prepared_ack: "(source_transfer ''preparing'', '''') \<in> set (tf_acks (snd prepared))"
  by (simp add: prepared_def takeover_eval)

lemma prepared_source_guarded_witness:
  "\<exists>p r. bg_process (fst prepared) = Some p \<and> px_transfer p = Some (source_transfer ''preparing'')
    \<and> \<not> commandAllowed ''send'' '''' '''' p \<and> guard_of ''k'' (fst prepared) = Some r
    \<and> tr_TransferID (st_Status r) = tr_TransferID (source_transfer ''preparing'') \<and> guarded_after_crash ''k'' (fst prepared)"
  by (rule prepared_source_guarded [OF open_binding_reach, where e = quiet and current = True and fx = "snd prepared"
      and kind = "''session_transfer_preparing''" and t = "source_transfer ''''" and p1 = "Some source_process"])
     (use prepared_ack in \<open>simp_all add: prepared_def\<close>)

definition released :: "binding \<times> transfer_effects" where
  "released = processTransferEnvelope quiet ''k'' True ''session_transfer_released'' (source_transfer '''')
     (open_binding (Some (adopt_transfer (source_transfer ''saved'') source_process)))"

lemma released_process:
  "bg_process (fst released) = Some (adopt_transfer (source_transfer ''released'') (adopt_transfer (source_transfer ''saved'') source_process))"
proof -
  let ?p = "adopt_transfer (source_transfer ''saved'') source_process"
  have "decide_transfer ''session_transfer_released'' (source_transfer '''') ?p = Adopt (source_transfer ''released'')"
    by (simp add: decide_transfer_def valid_source_def source_transfer_def adopt_transfer_def source_process_def new_process_def
        zero_transfer_def zero_state_def sameTransferIdentity_def next_status_def terminal_transfer_def)
  then have r: "released = record_transfer quiet ''k'' ''session_transfer_released'' (source_transfer ''released'')
      (adopt_transfer (source_transfer ''released'') ?p) (open_binding (Some ?p))"
    by (simp add: released_def processTransferEnvelope_def open_binding_def)
  show ?thesis unfolding r by (rule record_transfer_process)
qed

lemma adopt_transfer_simps [simp]: "px_transfer (adopt_transfer t p) = Some t" "px_pendingInputs (adopt_transfer t p) = px_pendingInputs p"
  by (simp_all add: adopt_transfer_def)

lemma transfer_moves_on_witness:
  "\<exists>new. px_transfer (the (bg_process (fst released))) = Some new \<and> sameTransferIdentity (source_transfer ''saved'') new
    \<and> tr_State new = ''released'' \<and> px_pendingInputs source_process = []"
proof -
  let ?p = "adopt_transfer (source_transfer ''saved'') source_process"
  have e: "processTransferEnvelope quiet ''k'' True ''session_transfer_released'' (source_transfer '''') (open_binding (Some ?p))
      = (fst released, snd released)" by (simp add: released_def)
  have b: "bg_process (open_binding (Some ?p)) = Some ?p" by (simp add: open_binding_def)
  have ne: "px_transfer (adopt_transfer (source_transfer ''released'') ?p) \<noteq> Some (source_transfer ''saved'')"
    by (simp add: source_transfer_def zero_transfer_def)
  from transfer_moves_on [OF e b adopt_transfer_simps(1) released_process ne] show ?thesis
    by (simp add: released_process source_transfer_def [of "''saved''"] zero_transfer_def source_process_def new_process_def)
qed

definition broken :: takeover_env where
  "broken = \<lparr>te_guard = quiet_env\<lparr>ce_primary := FailedUnsynced\<rparr>, te_pins = Written, te_written = True\<rparr>"

lemma exit_leaves_guard_witness:
  "snd (recordTransferExit broken ''k'' True 20 source_process (open_binding (Some source_process)))
   \<and> Blocked ''k'' (Some (bg_transfers (fst (recordTransferExit broken ''k'' True 20 source_process (open_binding (Some source_process))))))"
  by (rule exit_leaves_guard [OF prod.collapse [symmetric]]) (simp_all add: sessionTransferExitCode_def source_process_def new_process_def)

text \<open>A restoration that comes back paused opens the binding whose guard it was started for.\<close>

definition incoming_guard :: session_transfer where
  "incoming_guard = \<lparr>st_Status = source_transfer ''released'', st_Interrupted = False, st_Direction = ''incoming'',
     st_BindingInstanceID = ''''\<rparr>"

definition target_process :: chord_process where
  "target_process = new_process\<lparr>px_bindingInstanceID := ''I1'', px_restoringTransferID := ''T1'', px_readyPaused := True,
     px_state := zero_state\<lparr>st_SessionID := ''S1'', st_PausedInputs := Some \<lparr>pi_Paused = True, pi_PendingInputCount = 0, pi_Inputs = []\<rparr>\<rparr>\<rparr>"

definition guarded_binding :: binding where
  "guarded_binding = (open_binding None)\<lparr>bg_transfers := \<lparr>ts_entries = [(''k'', incoming_guard)], ts_loadErr = None, ts_writeUncertain = False\<rparr>\<rparr>"

definition the_restore :: takeover_op where
  "the_restore = Restore quiet quiet ''n'' (Some (1, ''now'')) False incoming_guard True False target_process False"

lemma the_restore_opens:
  "closed_binding ''k'' guarded_binding"
  by (simp_all add: closed_binding_def guarded_binding_def Blocked_iff)

lemma the_restore_run: "\<not> closed_binding ''k'' (takeover_runs ''k'' [the_restore] guarded_binding)"
  by (simp add: the_restore_def guarded_binding_def incoming_guard_def target_process_def takeover_eval restoreTransferredSession_def
      restore_begin_def restore_end_def publishGuardedBinding_def paused_as_def spawn_binding_def closed_binding_def Blocked_iff
      current_process_def pins_Set_def publish_pins_def savePins_def inputBlocked_def trim_space_def ascii_eval space_piece_def
      is_space_def rune_bytes_def)

lemma binding_opens_with_authority_witness:
  "\<exists>before op rest b1 b2. [the_restore] = before @ op # rest \<and> b1 = takeover_runs ''k'' before guarded_binding
    \<and> closed_binding ''k'' b1 \<and> takeover_run ''k'' op b1 = (b2, None) \<and> authority ''k'' op b1 b2"
  by (rule binding_opens_with_authority [OF the_restore_opens the_restore_run])

end
