(* ===== verification/ConfigDocument.thy ===== *)
theory ConfigDocument
  imports GatewayConfig Messages
begin

text \<open>
  The document of the configuration and the edits a binding makes in it: the node functions of
  \<open>internal/gateway/config_store.go\<close> and \<open>config_yaml.go\<close>. A parsed document is a graph of nodes, in which an
  alias points at another node; it is a map from references to nodes, and a reference that is not in the map
  stands for nil. \<open>copyConfigurationNodes\<close> makes a tree of it, and every edit is made in the tree: a change
  through a pointer into the tree is a function from the old to the new subtree.
\<close>

section \<open>Graphs and trees\<close>

datatype yaml_kind = DocumentNode | SequenceNode | MappingNode | ScalarNode | AliasNode

record yaml_cell =
  yc_Kind :: yaml_kind
  yc_Tag :: string
  yc_Value :: string
  yc_Anchor :: string
  yc_Style :: nat
  yc_Alias :: nat
  yc_Content :: "nat list"

type_synonym yaml_heap = "(nat, yaml_cell) gomap"

datatype yaml_tree = YNil | YNode (yn_kind: yaml_kind) (yn_tag: string) (yn_value: string) (yn_anchor: string) (yn_style: nat)
  (yn_content: "yaml_tree list")

definition clear_anchor :: "yaml_tree \<Rightarrow> yaml_tree" where
  "clear_anchor t = (case t of YNil \<Rightarrow> YNil | YNode k tag v a st c \<Rightarrow> YNode k tag v '''' st c)"

lemma fewer_nodes:
  assumes "map_of h n = Some c" and "n \<notin> active"
  shows "card (fst ` set h - insert n active) < card (fst ` set h - active)"
proof (rule psubset_card_mono)
  have "n \<in> fst ` set h" using assms(1) by (metis map_of_eq_None_iff option.distinct(1))
  with assms(2) show "fst ` set h - insert n active \<subset> fst ` set h - active" by blast
qed simp

text \<open>\<open>active\<close> are the nodes on the path from the root; meeting one again is an error.\<close>

function copyConfigurationNodes :: "yaml_heap \<Rightarrow> nat set \<Rightarrow> nat \<Rightarrow> yaml_tree option" where
  "copyConfigurationNodes h active n =
     (case map_of h n of None \<Rightarrow> Some YNil
      | Some c \<Rightarrow>
          if n \<in> active then None
          else if yc_Kind c = AliasNode then map_option clear_anchor (copyConfigurationNodes h (insert n active) (yc_Alias c))
          else map_option (YNode (yc_Kind c) (yc_Tag c) (yc_Value c) (yc_Anchor c) (yc_Style c))
            (those (map (copyConfigurationNodes h (insert n active)) (yc_Content c))))"
  by pat_completeness auto

termination
  by (relation "measure (\<lambda>(h, active, n). card (fst ` set h - active))") (simp_all add: fewer_nodes)

section \<open>Mappings\<close>

fun pairs :: "'a list \<Rightarrow> ('a \<times> 'a) list" where
  "pairs (k # v # xs) = (k, v) # pairs xs"
| "pairs xs = []"

fun unpairs :: "('a \<times> 'a) list \<Rightarrow> 'a list" where
  "unpairs [] = []"
| "unpairs ((k, v) # xs) = k # v # unpairs xs"

fun node_value :: "yaml_tree \<Rightarrow> string" where
  "node_value YNil = ''''"
| "node_value (YNode k tag v a st c) = v"

fun node_tag :: "yaml_tree \<Rightarrow> string" where
  "node_tag YNil = ''''"
| "node_tag (YNode k tag v a st c) = tag"

definition mapping_pairs :: "yaml_tree \<Rightarrow> (yaml_tree \<times> yaml_tree) list" where
  "mapping_pairs t = (case t of YNil \<Rightarrow> [] | YNode k tag v a st c \<Rightarrow> if k = MappingNode then pairs c else [])"

fun first_entry :: "string \<Rightarrow> (yaml_tree \<times> yaml_tree) list \<Rightarrow> yaml_tree option" where
  "first_entry key [] = None"
| "first_entry key ((k, v) # ps) = (if k \<noteq> YNil \<and> node_value k = key then Some v else first_entry key ps)"

text \<open>\<open>mappingEntry\<close> and \<open>mappingValue\<close>; a nil value is like no entry.\<close>

definition mappingValue :: "yaml_tree \<Rightarrow> string \<Rightarrow> yaml_tree option" where
  "mappingValue t key = (case first_entry key (mapping_pairs t) of Some YNil \<Rightarrow> None | z \<Rightarrow> z)"

definition mappingNode :: "yaml_tree list \<Rightarrow> yaml_tree" where
  "mappingNode content = YNode MappingNode ''!!map'' '''' '''' 0 content"

definition scalarNode :: "string \<Rightarrow> nat \<Rightarrow> yaml_tree" where
  "scalarNode value style = YNode ScalarNode ''!!str'' value '''' style []"

fun set_pair :: "string \<Rightarrow> yaml_tree \<Rightarrow> yaml_tree list \<Rightarrow> yaml_tree list" where
  "set_pair key value (k # v # xs) = (if node_value k = key then k # value # xs else k # v # set_pair key value xs)"
| "set_pair key value xs = xs @ [scalarNode key 0, value]"

definition setMappingValue :: "yaml_tree \<Rightarrow> string \<Rightarrow> yaml_tree \<Rightarrow> yaml_tree" where
  "setMappingValue t key value = (case t of YNil \<Rightarrow> YNil | YNode k tag v a st c \<Rightarrow> YNode k tag v a st (set_pair key value c))"

fun remove_pair :: "string \<Rightarrow> yaml_tree list \<Rightarrow> yaml_tree list" where
  "remove_pair key (k # v # xs) = (if node_value k = key then xs else k # v # remove_pair key xs)"
| "remove_pair key xs = xs"

definition removeMappingValue :: "yaml_tree \<Rightarrow> string \<Rightarrow> yaml_tree" where
  "removeMappingValue t key = (case t of YNil \<Rightarrow> YNil | YNode k tag v a st c \<Rightarrow> YNode k tag v a st (remove_pair key c))"

section \<open>Merges\<close>

definition is_merge :: "yaml_tree \<times> yaml_tree \<Rightarrow> bool" where "is_merge p \<longleftrightarrow> node_tag (fst p) = ''!!merge''"

definition merge_parts :: "yaml_tree \<Rightarrow> yaml_tree list" where
  "merge_parts m = (case m of YNil \<Rightarrow> [m] | YNode k tag v a st c \<Rightarrow> if k = SequenceNode then c else [m])"

text \<open>The entries of a merged mapping whose keys are not there yet.\<close>

fun add_missing :: "string list \<Rightarrow> (yaml_tree \<times> yaml_tree) list \<Rightarrow> string list \<times> (yaml_tree \<times> yaml_tree) list" where
  "add_missing keys [] = (keys, [])"
| "add_missing keys ((k, v) # ps) =
     (if node_value k \<in> set keys then add_missing keys ps
      else let (ks, qs) = add_missing (node_value k # keys) ps in (ks, (k, v) # qs))"

fun add_merged :: "string list \<Rightarrow> yaml_tree list \<Rightarrow> (yaml_tree \<times> yaml_tree) list" where
  "add_merged keys [] = []"
| "add_merged keys (m # ms) = (let (ks, qs) = add_missing keys (pairs (case m of YNil \<Rightarrow> [] | YNode k tag v a st c \<Rightarrow> c)) in qs @ add_merged ks ms)"

lemma pairs_size: "(k, v) \<in> set (pairs xs) \<Longrightarrow> size v < Suc (size_list size xs)"
  by (induction xs rule: pairs.induct) auto

lemma merge_part_size:
  assumes "x \<in> set (merge_parts v)"
  shows "size x \<le> size v"
proof (cases v)
  case (YNode k tag w a st c)
  have "size x \<le> size_list size c" if "x \<in> set c" using that by (induction c) auto
  with assms YNode show ?thesis by (auto simp: merge_parts_def split: if_splits)
qed (use assms in \<open>simp add: merge_parts_def\<close>)

text \<open>In a tree no node lies below itself, so the check for a cycle has no case to meet; nil and an alias are errors.\<close>

function materializeMapping :: "yaml_tree \<Rightarrow> yaml_tree option" where
  "materializeMapping t = (case t of YNil \<Rightarrow> None
     | YNode k tag v a st c \<Rightarrow>
         if k \<noteq> MappingNode then None
         else let own = filter (\<lambda>p. \<not> is_merge p) (pairs c);
                  parts = concat (map (\<lambda>p. merge_parts (snd p)) (filter is_merge (pairs c))) in
           case those (map materializeMapping parts) of None \<Rightarrow> None
           | Some ms \<Rightarrow> Some (YNode k tag v '''' st (unpairs (own @ add_merged (map (\<lambda>p. node_value (fst p)) own) ms))))"
  by pat_completeness auto

termination
proof (relation "measure size", simp, goal_cases)
  case (1 t k tag v a st c own parts x)
  then obtain p where p: "p \<in> set (pairs c)" "x \<in> set (merge_parts (snd p))" by auto
  from pairs_size [of "fst p" "snd p" c] p(1) have "size (snd p) < Suc (size_list size c)" by simp
  with merge_part_size [OF p(2)] 1 show ?case by simp
qed

lemma materialize_nil: "materializeMapping YNil = None"
  by simp

lemma materialize_node:
  "materializeMapping (YNode k tag v a st c) =
     (if k \<noteq> MappingNode then None
      else let own = filter (\<lambda>p. \<not> is_merge p) (pairs c);
               parts = concat (map (\<lambda>p. merge_parts (snd p)) (filter is_merge (pairs c))) in
           case those (map materializeMapping parts) of None \<Rightarrow> None
           | Some ms \<Rightarrow> Some (YNode k tag v '''' st (unpairs (own @ add_merged (map (\<lambda>p. node_value (fst p)) own) ms))))"
  by (simp only: materializeMapping.simps [of "YNode k tag v a st c"] yaml_tree.case)

declare materialize_nil [simp] materializeMapping.simps [simp del] copyConfigurationNodes.simps [simp del]

section \<open>Edits\<close>

text \<open>
  \<open>independentMapping\<close>, with the change that is made in the mapping it returns: the parent's merges are written
  out first, then the child's, so that nothing is shared with another mapping.
\<close>

definition with_mapping :: "yaml_tree \<Rightarrow> string \<Rightarrow> (yaml_tree \<Rightarrow> yaml_tree option) \<Rightarrow> yaml_tree option" where
  "with_mapping parent key f =
     (case materializeMapping parent of None \<Rightarrow> None
      | Some p \<Rightarrow>
          let child = (case mappingValue p key of None \<Rightarrow> Some (mappingNode [])
                | Some n \<Rightarrow> if node_tag n = ''!!null'' then Some (mappingNode []) else materializeMapping n) in
          case child of None \<Rightarrow> None
          | Some c \<Rightarrow> (case f c of None \<Rightarrow> None | Some c \<Rightarrow> Some (setMappingValue p key c)))"

text \<open>The key of a platform is written as the document spells it.\<close>

definition im_key :: "yaml_tree \<Rightarrow> string \<Rightarrow> string" where
  "im_key ims platform =
     (let p = NormalizeIMType platform in
      case filter (\<lambda>(k, v). NormalizeIMType (node_value k) = p) (pairs (case ims of YNil \<Rightarrow> [] | YNode k tag v a st c \<Rightarrow> c)) of
        [] \<Rightarrow> p | (k, v) # z \<Rightarrow> node_value k)"

definition with_im_mapping :: "yaml_tree \<Rightarrow> string \<Rightarrow> (yaml_tree \<Rightarrow> yaml_tree option) \<Rightarrow> yaml_tree option" where
  "with_im_mapping ims platform f = with_mapping ims (im_key ims platform) f"

definition yaml_special :: "char list" where
  "yaml_special = '':#{}[],&*?|<>=!%@`'' @ [CHR 0x22, CHR 0x27, CHR 0x0A, CHR 0x09]"

definition yamlStringStyle :: "string \<Rightarrow> nat" where
  "yamlStringStyle value =
     (if value = '''' \<or> trim_space value \<noteq> value \<or> list_ex (\<lambda>c. c \<in> set yaml_special) value \<or> CHR '' '' \<in> set value \<or> value = ''-''
        \<or> take 2 value = ''- ''
        \<or> to_lower value \<in> {''null'', ''true'', ''false'', ''yes'', ''no'', ''on'', ''off'', ''~''} then 2 else 0)"

section \<open>A binding in the document\<close>

datatype edit_error = EditDenied | SeveralWorkspaces | NoIdentifier | BadDocument

definition upsertWorkspaceNode :: "yaml_tree \<Rightarrow> string \<Rightarrow> string \<Rightarrow> yaml_tree option" where
  "upsertWorkspaceNode t i path = (case t of YNil \<Rightarrow> None
     | YNode k tag v a st c \<Rightarrow>
         (case mappingValue t i of
            None \<Rightarrow> Some (YNode k tag v a 0 (c @ [scalarNode i (yamlStringStyle i),
              mappingNode [scalarNode ''path'' 0, scalarNode path (yamlStringStyle path)]]))
          | Some w \<Rightarrow>
              if yn_kind w \<noteq> MappingNode then None
              else (case mappingValue w ''path'' of
                  None \<Rightarrow> Some (setMappingValue (YNode k tag v a 0 c) i (YNode MappingNode (yn_tag w) (yn_value w) (yn_anchor w) 0
                    (yn_content w @ [scalarNode ''path'' 0, scalarNode path (yamlStringStyle path)])))
                | Some p \<Rightarrow> if node_value p \<noteq> path then None else Some (YNode k tag v a 0 c))))"

text \<open>
  \<open>findBindingWorkspace\<close>: \<open>same\<close> says for the path of a workspace whether it names the directory of the
  binding, which the file system decides.
\<close>

fun find_workspace :: "(string \<Rightarrow> bool) \<Rightarrow> string \<Rightarrow> workspace list \<Rightarrow> edit_error + string" where
  "find_workspace same found [] = Inr found"
| "find_workspace same found (w # ws) =
     (if same (ws_Path w) then (if found \<noteq> '''' then Inl SeveralWorkspaces else find_workspace same (ws_ID w) ws)
      else find_workspace same found ws)"

definition findBindingWorkspace :: "(string \<Rightarrow> bool) \<Rightarrow> gateway_config \<Rightarrow> edit_error + string" where
  "findBindingWorkspace same cfg = find_workspace same '''' (cf_Workspaces cfg)"

text \<open>The identifiers are drawn one after the other; a source that fails ends the list.\<close>

fun new_identifier :: "gateway_config \<Rightarrow> string list \<Rightarrow> string option" where
  "new_identifier cfg [] = None"
| "new_identifier cfg (r # rs) = (if WorkspaceByID cfg r = None then Some r else new_identifier cfg rs)"

definition owner_entry :: "string \<Rightarrow> string \<Rightarrow> yaml_tree" where
  "owner_entry account user =
     mappingNode [scalarNode ''account_id'' 0, scalarNode account 0, scalarNode ''user_id'' 0, scalarNode user 0]"

text \<open>The edit in the root mapping, once the workspace is chosen.\<close>

definition bind_platform :: "bool \<Rightarrow> string \<Rightarrow> string \<Rightarrow> string \<Rightarrow> string \<Rightarrow> yaml_tree \<Rightarrow> yaml_tree option" where
  "bind_platform unowned account user chat i pl =
     with_mapping (if unowned then setMappingValue pl ''owner'' (owner_entry account user) else pl) ''chat_bindings''
       (\<lambda>b. Some (setMappingValue b chat (scalarNode i 0)))"

definition bind_workspace :: "bool \<Rightarrow> string \<Rightarrow> string \<Rightarrow> yaml_tree \<Rightarrow> yaml_tree option" where
  "bind_workspace unknown i path w = (if unknown then upsertWorkspaceNode w i path else Some w)"

definition edit_root :: "string \<Rightarrow> bool \<Rightarrow> string \<Rightarrow> string \<Rightarrow> string \<Rightarrow> string \<Rightarrow> bool \<Rightarrow> string \<Rightarrow> yaml_tree \<Rightarrow> yaml_tree option" where
  "edit_root platform unowned account user chat i unknown path root =
     (case with_mapping root ''ims'' (\<lambda>ims. with_im_mapping ims platform (bind_platform unowned account user chat i)) of
        None \<Rightarrow> None
      | Some root \<Rightarrow> with_mapping root ''workspaces'' (bind_workspace unknown i path))"

definition on_root :: "(yaml_tree \<Rightarrow> yaml_tree option) \<Rightarrow> yaml_tree \<Rightarrow> yaml_tree option" where
  "on_root f doc = (case doc of YNode k tag v a st (r # c) \<Rightarrow> map_option (\<lambda>r. YNode k tag v a st (r # c)) (f r) | z \<Rightarrow> None)"

text \<open>\<open>Apply\<close> of the mutation of \<open>BindingService.Bind\<close>; the result has the workspace that was chosen.\<close>

definition bind_apply :: "(string \<Rightarrow> bool) \<Rightarrow> string list \<Rightarrow> string \<Rightarrow> incoming_message \<Rightarrow> gateway_config \<Rightarrow> yaml_tree
    \<Rightarrow> edit_error + yaml_tree \<times> string" where
  "bind_apply same random path m cfg doc =
     (case IMConfigByType cfg (im_IMType m) of None \<Rightarrow> Inl EditDenied
      | Some c \<Rightarrow>
          if (case OwnerIdentity c of None \<Rightarrow> False
              | Some w \<Rightarrow> ow_AccountID w \<noteq> im_AccountID m \<or> ow_UserID w \<noteq> im_SenderID m) then Inl EditDenied
          else case findBindingWorkspace same cfg of Inl err \<Rightarrow> Inl err
          | Inr found \<Rightarrow>
              (case (if found = '''' then new_identifier cfg random else Some found) of None \<Rightarrow> Inl NoIdentifier
               | Some i \<Rightarrow>
                   (case on_root (edit_root (im_IMType m) (OwnerIdentity c = None) (im_AccountID m) (im_SenderID m) (im_ChatID m) i
                        (WorkspaceByID cfg i = None) path) doc of
                      None \<Rightarrow> Inl BadDocument
                    | Some doc \<Rightarrow> Inr (doc, i))))"

section \<open>What is in effect\<close>

lemma pairs_unpairs [simp]: "pairs (unpairs ps) = ps"
  by (induction ps rule: unpairs.induct) auto

definition plain_mapping :: "yaml_tree \<Rightarrow> bool" where
  "plain_mapping m \<longleftrightarrow> (\<exists>tag v st ps. m = YNode MappingNode tag v '''' st (unpairs ps) \<and> list_all (\<lambda>p. \<not> is_merge p) ps)"

lemma add_missing_subset: "set (snd (add_missing keys ps)) \<subseteq> set ps"
  by (induction keys ps rule: add_missing.induct) (auto simp: case_prod_beta)

lemma add_merged_subset: "set (add_merged keys ms) \<subseteq> (\<Union>m \<in> set ms. set (pairs (case m of YNil \<Rightarrow> [] | YNode k tag v a st c \<Rightarrow> c)))"
proof (induction keys ms rule: add_merged.induct)
  case (2 keys m ms)
  let ?ps = "pairs (case m of YNil \<Rightarrow> [] | YNode k tag v a st c \<Rightarrow> c)"
  obtain ks qs where q: "add_missing keys ?ps = (ks, qs)" by fastforce
  have "set qs \<subseteq> set ?ps" using add_missing_subset [of keys ?ps] q by simp
  moreover have "set (add_merged ks ms) \<subseteq> (\<Union>m \<in> set ms. set (pairs (case m of YNil \<Rightarrow> [] | YNode k tag v a st c \<Rightarrow> c)))"
    using "2.IH" [OF q [symmetric] refl] by simp
  ultimately show ?case using q by auto
qed simp

lemma those_set: "those xs = Some ys \<Longrightarrow> y \<in> set ys \<Longrightarrow> Some y \<in> set xs"
  by (induction xs arbitrary: ys) (auto split: option.splits)

lemma materialize_plain: "materializeMapping t = Some m \<Longrightarrow> plain_mapping m"
proof (induction t arbitrary: m rule: materializeMapping.induct)
  case (1 t)
  obtain k tag v a st c where t: "t = YNode k tag v a st c" using "1.prems" by (cases t) simp_all
  let ?own = "filter (\<lambda>p. \<not> is_merge p) (pairs c)"
  let ?parts = "concat (map (\<lambda>p. merge_parts (snd p)) (filter is_merge (pairs c)))"
  note eq = materialize_node [of k tag v a st c]
  have k: "k = MappingNode" using "1.prems" t eq by (simp split: if_splits)
  with "1.prems" t obtain ms where ms: "those (map materializeMapping ?parts) = Some ms"
    and m: "m = YNode k tag v '''' st (unpairs (?own @ add_merged (map (\<lambda>p. node_value (fst p)) ?own) ms))"
    using eq by (auto simp: Let_def split: option.splits)
  have plain: "plain_mapping x" if "x \<in> set ms" for x
  proof -
    from those_set [OF ms that] have "Some x \<in> materializeMapping ` set ?parts" by (simp only: set_map)
    then obtain y where "y \<in> set ?parts" "materializeMapping y = Some x" by (metis imageE)
    with "1.IH" [OF t _ refl refl] k show ?thesis by blast
  qed
  have "\<not> is_merge p" if "p \<in> set (add_merged keys ms)" for p keys
    using that add_merged_subset [of keys ms] plain by (fastforce simp: plain_mapping_def list_all_iff)
  with m k show ?case by (auto simp: plain_mapping_def list_all_iff)
qed

lemma materialize_plain_id:
  assumes "plain_mapping m"
  shows "materializeMapping m = Some m"
proof -
  obtain tag v st ps where m: "m = YNode MappingNode tag v '''' st (unpairs ps)" "list_all (\<lambda>p. \<not> is_merge p) ps"
    using assms by (auto simp: plain_mapping_def)
  then have "filter is_merge ps = []" "filter (\<lambda>p. \<not> is_merge p) ps = ps" by (simp_all add: list_all_iff filter_id_conv)
  with m show ?thesis by (simp add: Let_def materialize_node)
qed

text \<open>The entry of a mapping that is in effect, and the setting at a path of keys; a null has no entries.\<close>

definition effective :: "yaml_tree \<Rightarrow> string \<Rightarrow> yaml_tree option" where
  "effective t key = (case materializeMapping t of None \<Rightarrow> None | Some m \<Rightarrow> mappingValue m key)"

fun setting :: "string list \<Rightarrow> yaml_tree \<Rightarrow> yaml_tree option" where
  "setting [] t = Some t"
| "setting (k # ks) t = (if node_tag t = ''!!null'' then None else case effective t k of None \<Rightarrow> None | Some n \<Rightarrow> setting ks n)"

lemma mappingValue_plain [simp]:
  "mappingValue (YNode MappingNode tag v a st (unpairs ps)) key = (case first_entry key ps of Some YNil \<Rightarrow> None | z \<Rightarrow> z)"
  by (simp add: mappingValue_def mapping_pairs_def)

fun set_entry :: "string \<Rightarrow> yaml_tree \<Rightarrow> (yaml_tree \<times> yaml_tree) list \<Rightarrow> (yaml_tree \<times> yaml_tree) list" where
  "set_entry key value [] = [(scalarNode key 0, value)]"
| "set_entry key value ((k, v) # ps) = (if node_value k = key then (k, value) # ps else (k, v) # set_entry key value ps)"

lemma set_pair_unpairs: "set_pair key value (unpairs ps) = unpairs (set_entry key value ps)"
  by (induction ps rule: unpairs.induct) auto

lemma set_entry_plain: "list_all (\<lambda>p. \<not> is_merge p) ps \<Longrightarrow> list_all (\<lambda>p. \<not> is_merge p) (set_entry key value ps)"
  by (induction key "value" ps rule: set_entry.induct) (auto simp: is_merge_def scalarNode_def)

lemma first_entry_set:
  "key \<noteq> '''' \<Longrightarrow> first_entry k (set_entry key value ps) = (if k = key then Some value else first_entry k ps)"
proof (induction key "value" ps rule: set_entry.induct)
  case (2 key "value" k' v ps)
  then show ?case by (cases k') auto
qed (auto simp: scalarNode_def)

lemma setMappingValue_plain:
  assumes "plain_mapping m"
  shows "plain_mapping (setMappingValue m key value)"
    and "key \<noteq> '''' \<Longrightarrow> value \<noteq> YNil \<Longrightarrow> mappingValue (setMappingValue m key value) k = (if k = key then Some value else mappingValue m k)"
proof -
  obtain tag v st ps where m: "m = YNode MappingNode tag v '''' st (unpairs ps)" "list_all (\<lambda>p. \<not> is_merge p) ps"
    using assms by (auto simp: plain_mapping_def)
  then have s: "setMappingValue m key value = YNode MappingNode tag v '''' st (unpairs (set_entry key value ps))"
    by (simp add: setMappingValue_def set_pair_unpairs)
  with set_entry_plain [OF m(2)] show "plain_mapping (setMappingValue m key value)" by (auto simp: plain_mapping_def)
  show "key \<noteq> '''' \<Longrightarrow> value \<noteq> YNil \<Longrightarrow> mappingValue (setMappingValue m key value) k = (if k = key then Some value else mappingValue m k)"
    using s m by (auto simp: first_entry_set split: yaml_tree.splits)
qed

lemma effective_plain: "plain_mapping m \<Longrightarrow> effective m key = mappingValue m key"
  by (simp add: effective_def materialize_plain_id)

lemma materialize_tag: "materializeMapping t = Some m \<Longrightarrow> node_tag m = node_tag t"
  by (cases t) (auto simp: materialize_node Let_def split: if_splits option.splits)

text \<open>An edit below one key: the child is what was in effect, everything beside it stays.\<close>

lemma with_mapping_effect:
  assumes "with_mapping parent key f = Some p'" and "key \<noteq> ''''" and "\<forall>c c'. plain_mapping c \<longrightarrow> f c = Some c' \<longrightarrow> c' \<noteq> YNil"
  obtains c c' where "f c = Some c'" and "plain_mapping c" and "plain_mapping p'" and "effective p' key = Some c'"
    and "\<And>k. k \<noteq> key \<Longrightarrow> effective p' k = effective parent k"
    and "\<And>k. effective c k = (case effective parent key of None \<Rightarrow> None
       | Some n \<Rightarrow> if node_tag n = ''!!null'' then None else effective n k)"
    and "node_tag p' = node_tag parent" and "node_tag c \<noteq> ''!!null''"
proof -
  obtain p where p: "materializeMapping parent = Some p" using assms(1) by (auto simp: with_mapping_def split: option.splits)
  have pm: "plain_mapping p" by (rule materialize_plain [OF p])
  have new: "plain_mapping (mappingNode [])" "\<And>k. mappingValue (mappingNode []) k = None"
    by (auto simp: plain_mapping_def mappingNode_def mappingValue_def mapping_pairs_def intro!: exI [of _ "[]"])
  obtain c where c: "(case mappingValue p key of None \<Rightarrow> Some (mappingNode [])
      | Some n \<Rightarrow> if node_tag n = ''!!null'' then Some (mappingNode []) else materializeMapping n) = Some c"
    using assms(1) p by (auto simp: with_mapping_def Let_def split: option.splits if_splits)
  with assms(1) p obtain c' where c': "f c = Some c'" "p' = setMappingValue p key c'"
    by (auto simp: with_mapping_def Let_def split: option.splits)
  have cp: "plain_mapping c" using c new materialize_plain by (auto split: option.splits if_splits)
  have e: "effective parent k = mappingValue p k" for k using p by (simp add: effective_def)
  have ce: "effective c k = (case effective parent key of None \<Rightarrow> None
       | Some n \<Rightarrow> if node_tag n = ''!!null'' then None else effective n k)" for k
    using c new by (auto simp: e effective_plain [OF cp] split: option.splits if_splits) (auto simp: effective_def)
  have tag: "node_tag p = node_tag parent" by (rule materialize_tag [OF p])
  have ctag: "node_tag c \<noteq> ''!!null''"
    using c materialize_tag by (auto simp: mappingNode_def split: option.splits if_splits)
  have tag': "node_tag p' = node_tag parent" using tag c'(2) by (cases p) (simp_all add: setMappingValue_def)
  note s = setMappingValue_plain [OF pm, of key c']
  show thesis
    by (rule that [OF c'(1) cp _ _ _ ce tag' ctag])
       (use s assms(2,3) c' cp in \<open>auto simp: effective_plain e\<close>)
qed

section \<open>A binding changes nothing beside it\<close>

text \<open>Paths of which neither leads to the other.\<close>

fun beside :: "string list \<Rightarrow> string list \<Rightarrow> bool" where
  "beside (k # ks) (l # ls) = (k \<noteq> l \<or> beside ks ls)"
| "beside ks ls = False"

lemma with_mapping_setting:
  assumes "with_mapping parent key f = Some p'" and "key \<noteq> ''''" and "\<forall>c c'. plain_mapping c \<longrightarrow> f c = Some c' \<longrightarrow> c' \<noteq> YNil"
    and "node_tag parent \<noteq> ''!!null''"
  obtains c c' where "f c = Some c'" and "plain_mapping c" and "node_tag c \<noteq> ''!!null''" and "node_tag p' \<noteq> ''!!null''"
    and "\<And>ks. setting (key # ks) p' = setting ks c'"
    and "\<And>k ks. k \<noteq> key \<Longrightarrow> setting (k # ks) p' = setting (k # ks) parent"
    and "\<And>k ks. setting (k # ks) c = setting (key # k # ks) parent"
    and "plain_mapping p'"
proof -
  obtain p where p: "materializeMapping parent = Some p" using assms(1) by (auto simp: with_mapping_def split: option.splits)
  obtain c c' where c: "f c = Some c'" "plain_mapping c" "plain_mapping p'" "effective p' key = Some c'"
      "\<And>k. k \<noteq> key \<Longrightarrow> effective p' k = effective parent k"
      "\<And>k. effective c k = (case effective parent key of None \<Rightarrow> None
         | Some n \<Rightarrow> if node_tag n = ''!!null'' then None else effective n k)"
      "node_tag p' = node_tag parent" "node_tag c \<noteq> ''!!null''"
    using with_mapping_effect [OF assms(1-3)] by blast
  have "setting (k # ks) c = setting (key # k # ks) parent" for k ks
    using c(6,8) assms(4) by (auto split: option.splits)
  with c assms(4) show thesis by (intro that [of c c']) simp_all
qed

lemma set_setting:
  assumes "plain_mapping m" and "key \<noteq> ''''" and "value \<noteq> YNil" and "node_tag m \<noteq> ''!!null''"
  shows "setting (key # ks) (setMappingValue m key value) = setting ks value"
    and "k \<noteq> key \<Longrightarrow> setting (k # ks) (setMappingValue m key value) = setting (k # ks) m"
    and "node_tag (setMappingValue m key value) = node_tag m" and "setMappingValue m key value \<noteq> YNil"
proof -
  have tag: "node_tag (setMappingValue m key value) = node_tag m" "setMappingValue m key value \<noteq> YNil"
    using assms(1) by (auto simp: setMappingValue_def plain_mapping_def)
  have e: "effective (setMappingValue m key value) k = (if k = key then Some value else effective m k)" for k
    using setMappingValue_plain [OF assms(1), of key "value"] assms(1-3) by (simp add: effective_plain)
  show "setting (key # ks) (setMappingValue m key value) = setting ks value"
    and "k \<noteq> key \<Longrightarrow> setting (k # ks) (setMappingValue m key value) = setting (k # ks) m"
    using tag assms(4) by (simp_all add: e)
  show "node_tag (setMappingValue m key value) = node_tag m" "setMappingValue m key value \<noteq> YNil" using tag by blast+
qed

lemma plain_not_nil: "plain_mapping m \<Longrightarrow> m \<noteq> YNil"
  by (auto simp: plain_mapping_def)

lemma with_mapping_not_nil: "with_mapping parent key f = Some p' \<Longrightarrow> p' \<noteq> YNil"
  using materialize_plain setMappingValue_plain(1) plain_not_nil
  by (fastforce simp: with_mapping_def Let_def split: option.splits)

lemma unpairs_append: "unpairs (ps @ qs) = unpairs ps @ unpairs qs"
  by (induction ps rule: unpairs.induct) auto

lemma first_entry_append: "first_entry key (ps @ qs) = (case first_entry key ps of None \<Rightarrow> first_entry key qs | z \<Rightarrow> z)"
  by (induction ps) (auto split: option.splits)

lemma upsert_effect:
  assumes "upsertWorkspaceNode w i path = Some w'" and "plain_mapping w" and "i \<noteq> ''''" and "node_tag w \<noteq> ''!!null''"
  shows "k \<noteq> i \<Longrightarrow> setting (k # ks) w' = setting (k # ks) w" and "w' \<noteq> YNil"
proof -
  obtain tag v st ps where w: "w = YNode MappingNode tag v '''' st (unpairs ps)" "list_all (\<lambda>p. \<not> is_merge p) ps"
    using assms(2) by (auto simp: plain_mapping_def)
  have p0: "plain_mapping (YNode MappingNode tag v '''' 0 (unpairs qs))" if "list_all (\<lambda>p. \<not> is_merge p) qs" for qs
    using that by (auto simp: plain_mapping_def)
  have "\<exists>qs. w' = YNode MappingNode tag v '''' 0 (unpairs qs) \<and> list_all (\<lambda>p. \<not> is_merge p) qs
      \<and> (\<forall>k. k \<noteq> i \<longrightarrow> first_entry k qs = first_entry k ps)"
  proof (cases "mappingValue w i")
    case None
    let ?n = "(scalarNode i (yamlStringStyle i), mappingNode [scalarNode ''path'' 0, scalarNode path (yamlStringStyle path)])"
    have "w' = YNode MappingNode tag v '''' 0 (unpairs (ps @ [?n]))"
      using assms(1) None w by (simp add: upsertWorkspaceNode_def unpairs_append)
    moreover have "\<not> is_merge ?n" by (simp add: is_merge_def scalarNode_def)
    moreover have "first_entry k (ps @ [?n]) = first_entry k ps" if "k \<noteq> i" for k
      using that by (simp add: first_entry_append scalarNode_def split: option.splits)
    ultimately show ?thesis using w(2) by (intro exI [of _ "ps @ [?n]"]) simp
  next
    case (Some n)
    have "w' = YNode MappingNode tag v '''' 0 (unpairs ps) \<or> (\<exists>x. w' = YNode MappingNode tag v '''' 0 (unpairs (set_entry i x ps)))"
      using assms(1) Some w
      by (auto simp: upsertWorkspaceNode_def setMappingValue_def set_pair_unpairs split: if_splits option.splits)
    with w(2) set_entry_plain [OF w(2)] assms(3) show ?thesis by (auto simp: first_entry_set)
  qed
  then obtain qs where q: "w' = YNode MappingNode tag v '''' 0 (unpairs qs)" "list_all (\<lambda>p. \<not> is_merge p) qs"
      "\<forall>k. k \<noteq> i \<longrightarrow> first_entry k qs = first_entry k ps" by blast
  have "effective w' k = effective w k" if "k \<noteq> i" for k
    using q w p0 [OF q(2)] that assms(2) by (simp add: effective_plain)
  with q(1) w(1) show "k \<noteq> i \<Longrightarrow> setting (k # ks) w' = setting (k # ks) w" and "w' \<noteq> YNil" by simp_all
qed

lemma bind_platform_effect:
  assumes "bind_platform unowned account user chat i pl = Some pl'" and "plain_mapping pl" and "node_tag pl \<noteq> ''!!null''"
    and "chat \<noteq> ''''"
  shows "setting [''chat_bindings'', chat] pl' = Some (scalarNode i 0)"
    and "unowned \<Longrightarrow> setting [''owner''] pl' = Some (owner_entry account user)"
    and "beside ks [''chat_bindings'', chat] \<Longrightarrow> unowned \<longrightarrow> beside ks [''owner''] \<Longrightarrow> setting ks pl' = setting ks pl"
    and "pl' \<noteq> YNil"
proof -
  define q where "q = (if unowned then setMappingValue pl ''owner'' (owner_entry account user) else pl)"
  have nn: "owner_entry account user \<noteq> YNil" "(''owner'' :: string) \<noteq> ''''" by (simp_all add: owner_entry_def mappingNode_def)
  note so = set_setting [OF assms(2) nn(2,1) assms(3)]
  have qt: "node_tag q \<noteq> ''!!null''" using so(3) assms(3) by (simp add: q_def)
  have w: "with_mapping q ''chat_bindings'' (\<lambda>b. Some (setMappingValue b chat (scalarNode i 0))) = Some pl'"
    using assms(1) by (simp add: bind_platform_def q_def)
  have ok: "\<forall>c c'. plain_mapping c \<longrightarrow> Some (setMappingValue c chat (scalarNode i 0)) = Some c' \<longrightarrow> c' \<noteq> YNil"
    using setMappingValue_plain(1) plain_not_nil by blast
  show "pl' \<noteq> YNil" by (rule with_mapping_not_nil [OF w])
  have sc: "scalarNode i 0 \<noteq> YNil" by (simp add: scalarNode_def)
  have cb: "(''chat_bindings'' :: string) \<noteq> ''''" by simp
  obtain c c' where c: "Some (setMappingValue c chat (scalarNode i 0)) = Some c'" "plain_mapping c" "node_tag c \<noteq> ''!!null''"
      "node_tag pl' \<noteq> ''!!null''" "\<And>ks. setting (''chat_bindings'' # ks) pl' = setting ks c'"
      "\<And>k ks. k \<noteq> ''chat_bindings'' \<Longrightarrow> setting (k # ks) pl' = setting (k # ks) q"
      "\<And>k ks. setting (k # ks) c = setting (''chat_bindings'' # k # ks) q" "plain_mapping pl'"
    by (rule with_mapping_setting [OF w cb ok qt]) (rule that)
  note sb = set_setting [OF c(2) assms(4) sc c(3)]
  have c': "c' = setMappingValue c chat (scalarNode i 0)" using c(1) by simp
  show "setting [''chat_bindings'', chat] pl' = Some (scalarNode i 0)"
    unfolding c(5) c' sb(1) by simp
  show "unowned \<Longrightarrow> setting [''owner''] pl' = Some (owner_entry account user)"
    using c(6) [of "''owner''" "[]"] so(1) [of "[]"] by (simp add: q_def)
  show "setting ks pl' = setting ks pl" if b: "beside ks [''chat_bindings'', chat]" "unowned \<longrightarrow> beside ks [''owner'']"
  proof -
    obtain k l where ks: "ks = k # l" using b(1) by (cases ks) simp_all
    have q: "setting (k # m) q = setting (k # m) pl" if "unowned \<longrightarrow> k \<noteq> ''owner''" for m
      using so(2) that by (cases unowned) (simp_all add: q_def)
    show ?thesis
    proof (cases "k = ''chat_bindings''")
      case False
      from b(2) ks have "unowned \<longrightarrow> k \<noteq> ''owner''" by (cases l) auto
      with c(6) [OF False, of l] q [of l] ks show ?thesis by simp
    next
      case True
      then obtain x y where l: "l = x # y" "x \<noteq> chat" using b(1) ks by (cases l) (auto split: list.splits)
      have "setting ks pl' = setting (x # y) c" unfolding ks True c(5) l(1) c' by (rule sb(2) [OF l(2)])
      also have "\<dots> = setting (k # x # y) q" unfolding c(7) True ..
      also have "\<dots> = setting (k # x # y) pl" by (rule q) (simp add: True)
      finally show ?thesis by (simp add: ks l(1))
    qed
  qed
qed

lemma im_key_normal: "NormalizeIMType (NormalizeIMType platform) = NormalizeIMType platform
  \<Longrightarrow> NormalizeIMType (im_key ims platform) = NormalizeIMType platform"
proof -
  let ?ps = "filter (\<lambda>(k, v). NormalizeIMType (node_value k) = NormalizeIMType platform)
    (pairs (case ims of YNil \<Rightarrow> [] | YNode k tag v a st c \<Rightarrow> c))"
  assume n: "NormalizeIMType (NormalizeIMType platform) = NormalizeIMType platform"
  show ?thesis
  proof (cases ?ps)
    case Nil
    then show ?thesis using n by (simp add: im_key_def Let_def)
  next
    case (Cons p z)
    have "p \<in> set ?ps" unfolding Cons by simp
    then have "NormalizeIMType (node_value (fst p)) = NormalizeIMType platform" by (simp add: case_prod_beta)
    with Cons show ?thesis by (simp add: im_key_def Let_def case_prod_beta)
  qed
qed

text \<open>
  C18: Binding a chat changes in the document what it has to and nothing beside it, whatever aliases and merges
  the operator wrote: the chat's entry of the platform names the workspace, an owner is entered only where there was
  none, and every other setting, above all the owners and bindings of the other platforms, is in effect as before.
\<close>

theorem binding_edit_contained:
  assumes "edit_root platform unowned account user chat i unknown path root = Some root'"
    and "node_tag root \<noteq> ''!!null''" and "chat \<noteq> ''''" and "i \<noteq> ''''" and "NormalizeIMType platform = platform" and "platform \<noteq> ''''"
  shows "\<exists>pk. NormalizeIMType pk = platform
     \<and> setting [''ims'', pk, ''chat_bindings'', chat] root' = Some (scalarNode i 0)
     \<and> (unowned \<longrightarrow> setting [''ims'', pk, ''owner''] root' = Some (owner_entry account user))
     \<and> (\<forall>ks. beside ks [''ims'', pk, ''chat_bindings'', chat] \<longrightarrow> (unowned \<longrightarrow> beside ks [''ims'', pk, ''owner''])
          \<longrightarrow> beside ks [''workspaces'', i] \<longrightarrow> setting ks root' = setting ks root)"
proof -
  obtain r1 where r1: "with_mapping root ''ims'' (\<lambda>ims. with_im_mapping ims platform (bind_platform unowned account user chat i)) = Some r1"
    and r2: "with_mapping r1 ''workspaces'' (bind_workspace unknown i path) = Some root'"
    using assms(1) by (auto simp: edit_root_def split: option.splits)
  have ne: "(''ims'' :: string) \<noteq> ''''" "(''workspaces'' :: string) \<noteq> ''''" by simp_all
  have ok1: "\<forall>c c'. plain_mapping c \<longrightarrow> with_im_mapping c platform (bind_platform unowned account user chat i) = Some c' \<longrightarrow> c' \<noteq> YNil"
    using with_mapping_not_nil by (auto simp: with_im_mapping_def)
  obtain c c' where c: "with_im_mapping c platform (bind_platform unowned account user chat i) = Some c'" "plain_mapping c"
      "node_tag c \<noteq> ''!!null''" "node_tag r1 \<noteq> ''!!null''" "\<And>ks. setting (''ims'' # ks) r1 = setting ks c'"
      "\<And>k ks. k \<noteq> ''ims'' \<Longrightarrow> setting (k # ks) r1 = setting (k # ks) root"
      "\<And>k ks. setting (k # ks) c = setting (''ims'' # k # ks) root" "plain_mapping r1"
    by (rule with_mapping_setting [OF r1 ne(1) ok1 assms(2)]) (rule that)
  define pk where "pk = im_key c platform"
  have pk: "NormalizeIMType pk = platform"
    using im_key_normal [of platform c] assms(5,6) by (simp add: pk_def)
  have pk0: "pk \<noteq> ''''"
    using pk assms(6) by (auto simp: NormalizeIMType_def trim_space_def rune_bytes_def to_lower_def runes.simps)
  have w: "with_mapping c pk (bind_platform unowned account user chat i) = Some c'" using c(1) by (simp add: with_im_mapping_def pk_def)
  have ok2: "\<forall>d d'. plain_mapping d \<longrightarrow> bind_platform unowned account user chat i d = Some d' \<longrightarrow> d' \<noteq> YNil"
    using with_mapping_not_nil by (auto simp: bind_platform_def)
  obtain d d' where d: "bind_platform unowned account user chat i d = Some d'" "plain_mapping d"
      "node_tag d \<noteq> ''!!null''" "node_tag c' \<noteq> ''!!null''" "\<And>ks. setting (pk # ks) c' = setting ks d'"
      "\<And>k ks. k \<noteq> pk \<Longrightarrow> setting (k # ks) c' = setting (k # ks) c"
      "\<And>k ks. setting (k # ks) d = setting (pk # k # ks) c" "plain_mapping c'"
    by (rule with_mapping_setting [OF w pk0 ok2 c(3)]) (rule that)
  note b = bind_platform_effect [OF d(1-3) assms(3)]
  have ok3: "\<forall>c c'. plain_mapping c \<longrightarrow> bind_workspace unknown i path c = Some c' \<longrightarrow> c' \<noteq> YNil"
    by (auto simp: bind_workspace_def upsertWorkspaceNode_def plain_mapping_def setMappingValue_def split: if_splits option.splits)
  obtain e e' where e: "bind_workspace unknown i path e = Some e'" "plain_mapping e"
      "node_tag e \<noteq> ''!!null''" "node_tag root' \<noteq> ''!!null''" "\<And>ks. setting (''workspaces'' # ks) root' = setting ks e'"
      "\<And>k ks. k \<noteq> ''workspaces'' \<Longrightarrow> setting (k # ks) root' = setting (k # ks) r1"
      "\<And>k ks. setting (k # ks) e = setting (''workspaces'' # k # ks) r1" "plain_mapping root'"
    by (rule with_mapping_setting [OF r2 ne(2) ok3 c(4)]) (rule that)
  have ims: "setting (''ims'' # pk # ks) root' = setting ks d'" for ks
    using e(6) [of "''ims''"] c(5) d(5) by simp
  have same: "setting ks root' = setting ks root"
    if n: "beside ks [''ims'', pk, ''chat_bindings'', chat]" "unowned \<longrightarrow> beside ks [''ims'', pk, ''owner'']" "beside ks [''workspaces'', i]" for ks
  proof -
    obtain k l where ks: "ks = k # l" using n(1) by (cases ks) simp_all
    consider "k = ''workspaces''" | "k = ''ims''" | "k \<noteq> ''workspaces''" "k \<noteq> ''ims''" by blast
    then show ?thesis
    proof cases
      case 1
      with n(3) ks obtain x y where l: "l = x # y" "x \<noteq> i" by (cases l) auto
      have "setting (x # y) e' = setting (x # y) e"
        using e(1) upsert_effect(1) [OF _ e(2) assms(4) e(3) l(2)] by (cases unknown) (auto simp: bind_workspace_def)
      also have "\<dots> = setting ks root" unfolding e(7) ks l(1) 1 by (rule c(6)) simp
      finally show ?thesis unfolding ks 1 e(5) l(1) .
    next
      case 2
      with n(1) ks obtain x y where l: "l = x # y" by (cases l) auto
      have r: "setting ks root' = setting (x # y) c'" using e(6) [of "''ims''"] c(5) ks 2 l by simp
      show ?thesis
      proof (cases "x = pk")
        case False
        then have "setting (x # y) c' = setting (x # y) c" by (rule d(6))
        with r c(7) ks 2 l show ?thesis by simp
      next
        case True
        with n(1,2) ks 2 l have y: "beside y [''chat_bindings'', chat]" "unowned \<longrightarrow> beside y [''owner'']" by auto
        obtain z u where yz: "y = z # u" using y(1) by (cases y) simp_all
        have "setting y d' = setting y d" by (rule b(3) [OF y])
        with r d(5) d(7) [of z u] c(7) [of pk y] ks 2 l True yz show ?thesis by simp
      qed
    next
      case 3
      with e(6) c(6) ks show ?thesis by simp
    qed
  qed
  from b(1,2) ims [of "[''chat_bindings'', chat]"] ims [of "[''owner'']"] pk same show ?thesis
    by (intro exI [of _ pk]) simp
qed

text \<open>The tree has no alias left, so an edit in it reaches one place only.\<close>

fun no_alias :: "yaml_tree \<Rightarrow> bool" where
  "no_alias YNil = True"
| "no_alias (YNode k tag v a st c) = (k \<noteq> AliasNode \<and> list_all no_alias c)"

lemma copy_has_no_alias: "copyConfigurationNodes h active n = Some t \<Longrightarrow> no_alias t"
proof (induction h active n arbitrary: t rule: copyConfigurationNodes.induct)
  case (1 h active n)
  note eq = copyConfigurationNodes.simps [of h active n]
  show ?case
  proof (cases "map_of h n")
    case None
    with 1(3) eq show ?thesis by auto
  next
    case (Some c)
    with 1(3) eq have n: "n \<notin> active" by (auto split: if_splits)
    show ?thesis
    proof (cases "yc_Kind c = AliasNode")
      case True
      with 1(3) eq Some n obtain u where u: "copyConfigurationNodes h (insert n active) (yc_Alias c) = Some u" "t = clear_anchor u" by auto
      from 1(1) [OF Some n True u(1)] u(2) show ?thesis by (cases u) (auto simp: clear_anchor_def)
    next
      case False
      with 1(3) eq Some n obtain us where us: "those (map (copyConfigurationNodes h (insert n active)) (yc_Content c)) = Some us"
          "t = YNode (yc_Kind c) (yc_Tag c) (yc_Value c) (yc_Anchor c) (yc_Style c) us" by auto
      have "no_alias u" if "u \<in> set us" for u
      proof -
        from those_set [OF us(1) that] obtain m where m: "m \<in> set (yc_Content c)" "copyConfigurationNodes h (insert n active) m = Some u"
          by (auto simp: image_iff dest: sym)
        from 1(2) [OF Some n False m] show ?thesis .
      qed
      with us(2) False show ?thesis by (simp add: list_all_iff)
    qed
  qed
qed

section \<open>Witnesses\<close>

text \<open>A document in which the platforms share what is merged into them.\<close>

definition shared_fields :: yaml_tree where
  "shared_fields = mappingNode [scalarNode ''token'' 0, scalarNode ''t'' 0,
     scalarNode ''chat_bindings'' 0, mappingNode [scalarNode ''c0'' 0, scalarNode ''w0'' 0]]"

definition merge_key :: yaml_tree where "merge_key = YNode ScalarNode ''!!merge'' ''<<'' '''' 0 []"

definition the_document :: yaml_tree where
  "the_document = mappingNode [scalarNode ''ims'' 0, mappingNode [
     scalarNode ''telegram'' 0, mappingNode [merge_key, shared_fields], scalarNode ''slack'' 0, mappingNode [merge_key, shared_fields]]]"

definition the_edit :: yaml_tree where
  "the_edit = the (edit_root ''telegram'' True ''a'' ''u'' ''c1'' ''w1'' True ''/srv'' the_document)"

lemmas yaml_eval = mappingNode_def scalarNode_def merge_key_def shared_fields_def the_document_def with_mapping_def materialize_node
  is_merge_def merge_parts_def mappingValue_def mapping_pairs_def setMappingValue_def with_im_mapping_def im_key_def bind_platform_def
  bind_workspace_def upsertWorkspaceNode_def edit_root_def owner_entry_def Let_def

lemma the_edit_done: "edit_root ''telegram'' True ''a'' ''u'' ''c1'' ''w1'' True ''/srv'' the_document = Some the_edit"
proof -
  have n: "NormalizeIMType ''telegram'' = ''telegram''" by (simp add: NormalizeIMType_def text_eval)
  have "edit_root ''telegram'' True ''a'' ''u'' ''c1'' ''w1'' True ''/srv'' the_document \<noteq> None"
    by (simp add: yaml_eval n)
  then show ?thesis by (auto simp: the_edit_def)
qed

lemma binding_edit_contained_witness:
  "\<exists>pk. NormalizeIMType pk = ''telegram'' \<and> setting [''ims'', pk, ''chat_bindings'', ''c1''] the_edit = Some (scalarNode ''w1'' 0)"
proof -
  have "NormalizeIMType ''telegram'' = ''telegram''" by (simp add: NormalizeIMType_def text_eval)
  then show ?thesis
    using binding_edit_contained [OF the_edit_done] by (auto simp: the_document_def mappingNode_def)
qed

end
