(* ===== verification/ConfigStore.thy ===== *)
theory ConfigStore
  imports ConfigDocument DurableFile
begin

text \<open>
  The store of the configuration, \<open>internal/gateway/config_store.go\<close> with \<open>config_persistence.go\<close> and
  \<open>config_persistence_unix.go\<close>: a change is checked, written beside the file, renamed over it and made durable,
  and only then published. The parser of the document (the YAML library, with the dropping of duplicate keys, the
  reading of the fields and the expansion of paths) and the encoder are parameters, and so is what the operating
  system answers; the file is what is visible and what a crash may leave of it, by its bytes.
\<close>

section \<open>The state\<close>

record yaml_lib =
  yl_parse :: "string \<Rightarrow> (gateway_config \<times> yaml_heap \<times> nat \<times> string list) option"
  yl_encode :: "yaml_tree \<Rightarrow> string option"
  yl_unsupported :: "yaml_heap \<times> nat \<Rightarrow> string list"
  yl_url :: "string \<Rightarrow> (string \<times> string) option"

record config_store =
  cs_lastBytes :: string
  cs_snapshot :: gateway_config
  cs_warnings :: "string list"
  cs_duplicateKeyWarnings :: "string list"
  cs_faulted :: bool
  cs_closing :: bool
  cs_fatal :: bool

datatype commit_phase = BeforeReplace | Replaced | Durable

text \<open>Where the write of the temporary file fails, if it does, and how the replacement ends.\<close>

datatype temp_write = StatFails | CreateFails | ProtectFails | WriteFails | ShortWrite | SyncFails | CloseFails | TempWritten

datatype replace_end = RenameFails | OpenDirFails | SyncDirFails | ReplaceDone

datatype 'e commit_error =
    StoreClosing | StoreFaulted | DiskUnreadable | ConfigChanged | BadYAML | InvalidConfig config_error | CyclicAliases
  | CheckFailed 'e | ApplyFailed 'e | EncodeFailed | ContextDone | TempFailed temp_write | ReplaceFailed replace_end

text \<open>
  What one commit meets: the bytes the file has at the two checks (none: it cannot be read), whether the store
  is closing at the second, the answers of the mutation's own check, the context before and after the write.
\<close>

record 'e config_env =
  ce_disk1 :: "string option"
  ce_disk2 :: "string option"
  ce_closing2 :: bool
  ce_check1 :: "'e option"
  ce_check2 :: "'e option"
  ce_ctx1 :: bool
  ce_ctx2 :: bool
  ce_temp :: temp_write
  ce_replace :: replace_end

section \<open>Writing\<close>

definition replaceConfigFile :: "replace_end \<Rightarrow> string \<Rightarrow> string small_file \<Rightarrow> string small_file \<times> commit_phase \<times> bool" where
  "replaceConfigFile e bytes f = (case e of
       RenameFails \<Rightarrow> (f, BeforeReplace, False)
     | OpenDirFails \<Rightarrow> (file_replace (Some bytes) f, Replaced, False)
     | SyncDirFails \<Rightarrow> (file_replace (Some bytes) f, Replaced, False)
     | ReplaceDone \<Rightarrow> (file_sync (file_replace (Some bytes) f), Durable, True))"

definition writeConfigDurable :: "'e config_env \<Rightarrow> string \<Rightarrow> 'e commit_error option \<Rightarrow> string small_file
    \<Rightarrow> string small_file \<times> commit_phase \<times> 'e commit_error option" where
  "writeConfigDurable e bytes beforeReplace f =
     (if \<not> ce_ctx1 e then (f, BeforeReplace, Some ContextDone)
      else if ce_temp e \<noteq> TempWritten then (f, BeforeReplace, Some (TempFailed (ce_temp e)))
      else if \<not> ce_ctx2 e then (f, BeforeReplace, Some ContextDone)
      else if beforeReplace \<noteq> None then (f, BeforeReplace, beforeReplace)
      else let (f, phase, ok) = replaceConfigFile (ce_replace e) bytes f in
        (f, phase, if ok then None else Some (ReplaceFailed (ce_replace e))))"

section \<open>Committing\<close>

definition checkDisk :: "string option \<Rightarrow> config_store \<Rightarrow> 'e commit_error option" where
  "checkDisk disk s = (case disk of None \<Rightarrow> Some DiskUnreadable
     | Some b \<Rightarrow> if b \<noteq> cs_lastBytes s then Some ConfigChanged else None)"

definition commit_check :: "'e config_env \<Rightarrow> config_store \<Rightarrow> 'e commit_error option" where
  "commit_check e s =
     (if ce_closing2 e then Some StoreClosing
      else case checkDisk (ce_disk2 e) s of Some err \<Rightarrow> Some err
      | None \<Rightarrow> map_option CheckFailed (ce_check2 e))"

text \<open>The document a commit would write: the mutation is applied to a copy of what is stored.\<close>

definition candidate_bytes :: "yaml_lib \<Rightarrow> 'e config_env \<Rightarrow> (yaml_tree \<Rightarrow> gateway_config \<Rightarrow> 'e + yaml_tree) \<Rightarrow> config_store
    \<Rightarrow> 'e commit_error + string \<times> gateway_config \<times> (yaml_heap \<times> nat) \<times> string list" where
  "candidate_bytes lib e app s =
     (case yl_parse lib (cs_lastBytes s) of None \<Rightarrow> Inl BadYAML
      | Some (current, h, root, z) \<Rightarrow>
          (case config_Validate (yl_url lib) current of Some err \<Rightarrow> Inl (InvalidConfig err)
           | None \<Rightarrow>
               (case copyConfigurationNodes h {} root of None \<Rightarrow> Inl CyclicAliases
                | Some doc \<Rightarrow>
                    (case ce_check1 e of Some err \<Rightarrow> Inl (CheckFailed err)
                     | None \<Rightarrow>
                         (case app doc current of Inl err \<Rightarrow> Inl (ApplyFailed err)
                          | Inr doc \<Rightarrow>
                              (case yl_encode lib doc of None \<Rightarrow> Inl EncodeFailed
                               | Some bytes \<Rightarrow>
                                   (case yl_parse lib bytes of None \<Rightarrow> Inl BadYAML
                                    | Some (candidate, d, r, dups) \<Rightarrow>
                                        (case config_Validate (yl_url lib) candidate of Some err \<Rightarrow> Inl (InvalidConfig err)
                                         | None \<Rightarrow> Inr (bytes, candidate, (d, r), dups)))))))))"

definition store_Commit :: "yaml_lib \<Rightarrow> 'e config_env \<Rightarrow> (yaml_tree \<Rightarrow> gateway_config \<Rightarrow> 'e + yaml_tree)
    \<Rightarrow> config_store \<times> string small_file \<Rightarrow> (config_store \<times> string small_file) \<times> commit_phase \<times> 'e commit_error option" where
  "store_Commit lib e app sf =
     (let (s, f) = sf in
      if cs_closing s then (sf, BeforeReplace, Some StoreClosing)
      else if cs_faulted s then (sf, BeforeReplace, Some StoreFaulted)
      else case checkDisk (ce_disk1 e) s of Some err \<Rightarrow> (sf, BeforeReplace, Some err)
      | None \<Rightarrow>
          (case candidate_bytes lib e app s of Inl err \<Rightarrow> (sf, BeforeReplace, Some err)
           | Inr (bytes, candidate, doc, dups) \<Rightarrow>
               let (f, phase, err) = writeConfigDurable e bytes (commit_check e s) f in
               if err \<noteq> None
               then ((if phase \<noteq> BeforeReplace then s\<lparr>cs_faulted := True, cs_fatal := True\<rparr> else s, f), phase, err)
               else ((s\<lparr>cs_lastBytes := bytes, cs_snapshot := candidate, cs_warnings := yl_unsupported lib doc,
                   cs_duplicateKeyWarnings := dups\<rparr>, f), phase, None)))"


text \<open>\<open>storeWarningMessages\<close>: what was ignored when the configuration was read.\<close>

definition storeWarningMessages :: "string \<Rightarrow> config_store \<Rightarrow> string list" where
  "storeWarningMessages path s =
     map (\<lambda>w. ''config '' @ path @ '': duplicate key ignored: '' @ w) (cs_duplicateKeyWarnings s)
     @ map (\<lambda>w. ''config '' @ path @ '': unsupported field ignored: '' @ w) (cs_warnings s)"

section \<open>What a commit does\<close>

definition good_bytes :: "yaml_lib \<Rightarrow> string \<Rightarrow> bool" where
  "good_bytes lib b \<longleftrightarrow> (case yl_parse lib b of None \<Rightarrow> False | Some (cfg, z) \<Rightarrow> config_Validate (yl_url lib) cfg = None)"

definition snapshot_of :: "yaml_lib \<Rightarrow> config_store \<Rightarrow> bool" where
  "snapshot_of lib s \<longleftrightarrow> good_bytes lib (cs_lastBytes s) \<and> map_option fst (yl_parse lib (cs_lastBytes s)) = Some (cs_snapshot s)"

lemma replace_readings:
  assumes "replaceConfigFile e bytes f = (f', phase, ok)"
  shows "ok \<longleftrightarrow> phase = Durable" and "phase = Durable \<Longrightarrow> readings f' = {Some bytes}" and "phase = BeforeReplace \<Longrightarrow> f' = f"
    and "readings f' \<subseteq> insert (Some bytes) (readings f)"
  using assms by (auto simp: replaceConfigFile_def readings_def file_sync_def file_replace_def split: replace_end.splits)

lemma write_config:
  assumes "writeConfigDurable e bytes chk f = (f', phase, err)"
  shows "err = None \<longleftrightarrow> phase = Durable" and "phase = Durable \<Longrightarrow> readings f' = {Some bytes} \<and> chk = None"
    and "phase = BeforeReplace \<Longrightarrow> f' = f" and "readings f' \<subseteq> insert (Some bytes) (readings f)"
proof -
  obtain g p ok where r: "replaceConfigFile (ce_replace e) bytes f = (g, p, ok)" by (metis prod_cases3)
  note rr = replace_readings [OF r]
  have "(err = None \<longleftrightarrow> phase = Durable) \<and> (phase = Durable \<longrightarrow> readings f' = {Some bytes} \<and> chk = None)
      \<and> (phase = BeforeReplace \<longrightarrow> f' = f) \<and> readings f' \<subseteq> insert (Some bytes) (readings f)"
    using assms r rr by (auto simp: writeConfigDurable_def split: if_splits)
  then show "err = None \<longleftrightarrow> phase = Durable" "phase = Durable \<Longrightarrow> readings f' = {Some bytes} \<and> chk = None"
    "phase = BeforeReplace \<Longrightarrow> f' = f" "readings f' \<subseteq> insert (Some bytes) (readings f)" by blast+
qed

lemma candidate_good:
  "candidate_bytes lib e app s = Inr (bytes, candidate, doc, dups) \<Longrightarrow>
     good_bytes lib bytes \<and> map_option fst (yl_parse lib bytes) = Some candidate"
  by (auto simp: candidate_bytes_def good_bytes_def split: option.splits sum.splits)

lemma commit_cases [consumes 1, case_names refused written]:
  assumes "store_Commit lib e app (s, f) = ((s', f'), phase, err)"
  obtains (refused) "s' = s" "f' = f" "err \<noteq> None"
    | (written) bytes cand doc dups where "candidate_bytes lib e app s = Inr (bytes, cand, doc, dups)"
      "writeConfigDurable e bytes (commit_check e s) f = (f', phase, err)" "\<not> cs_closing s" "\<not> cs_faulted s"
      "s' = (if err = None then s\<lparr>cs_lastBytes := bytes, cs_snapshot := cand, cs_warnings := yl_unsupported lib doc,
               cs_duplicateKeyWarnings := dups\<rparr>
             else if phase \<noteq> BeforeReplace then s\<lparr>cs_faulted := True, cs_fatal := True\<rparr> else s)"
proof -
  show thesis
  proof (cases "cs_closing s \<or> cs_faulted s")
    case True
    with assms have "s' = s" "f' = f" "err \<noteq> None" by (auto simp: store_Commit_def split: if_splits)
    then show ?thesis by (rule refused)
  next
    case False
    then have o': "\<not> cs_closing s" "\<not> cs_faulted s" by blast+
    note a = assms [unfolded store_Commit_def Let_def prod.case if_not_P [OF o'(1)] if_not_P [OF o'(2)]]
    show ?thesis
    proof (cases "s' = s \<and> f' = f \<and> err \<noteq> None")
      case True
      then show ?thesis using refused by blast
    next
      case False
      with a obtain bytes cand doc dups where c: "candidate_bytes lib e app s = Inr (bytes, cand, doc, dups)"
        by (cases "candidate_bytes lib e app s") (auto split: option.splits)
      obtain g p r where w: "writeConfigDurable e bytes (commit_check e s) f = (g, p, r)" by (metis prod_cases3)
      from a False c w have "g = f'" "p = phase" "r = err"
        "s' = (if err = None then s\<lparr>cs_lastBytes := bytes, cs_snapshot := cand, cs_warnings := yl_unsupported lib doc,
               cs_duplicateKeyWarnings := dups\<rparr>
             else if phase \<noteq> BeforeReplace then s\<lparr>cs_faulted := True, cs_fatal := True\<rparr> else s)"
        by (auto split: option.splits if_splits)
      with written [OF c _ o'] w show ?thesis by blast
    qed
  qed
qed

lemma commit_outcome:
  assumes "store_Commit lib e app (s, f) = ((s', f'), phase, err)"
  shows "if err = None
    then phase = Durable \<and> snapshot_of lib s' \<and> readings f' = {Some (cs_lastBytes s')}
      \<and> ce_disk2 e = Some (cs_lastBytes s) \<and> ce_check2 e = None \<and> \<not> ce_closing2 e \<and> \<not> cs_closing s \<and> \<not> cs_faulted s
    else cs_snapshot s' = cs_snapshot s \<and> cs_lastBytes s' = cs_lastBytes s \<and> (f' = f \<or> cs_faulted s')"
using assms
proof (cases rule: commit_cases)
  case refused
  then show ?thesis by auto
next
  case (written bytes cand doc dups)
  note ww = write_config [OF written(2)]
  show ?thesis
  proof (cases err)
    case None
    with ww(1) have p: "phase = Durable" by simp
    have chk: "commit_check e s = None" using ww(2) p by blast
    then have "ce_disk2 e = Some (cs_lastBytes s)" "ce_check2 e = None" "\<not> ce_closing2 e"
      by (auto simp: commit_check_def checkDisk_def split: if_splits option.splits)
    with None p ww(2) candidate_good [OF written(1)] written(3-5) show ?thesis by (simp add: snapshot_of_def)
  next
    case (Some x)
    with ww(3) written(5) show ?thesis by auto
  qed
qed

section \<open>Every run of the store\<close>









text \<open>
  C19: A configuration is published only once it is durable, in place of exactly the bytes the gateway last read,
  with the caller's authority checked again just before. When a commit reports an error the gateway goes on with
  the configuration it had, and either the file is untouched or the store has stopped for good.
\<close>

theorem config_published_durable:
  assumes "store_Commit lib e app (s, f) = ((s', f'), phase, err)"
  shows "if err = None
    then phase = Durable \<and> snapshot_of lib s' \<and> readings f' = {Some (cs_lastBytes s')}
      \<and> ce_disk2 e = Some (cs_lastBytes s) \<and> ce_check2 e = None \<and> \<not> ce_closing2 e \<and> \<not> cs_closing s \<and> \<not> cs_faulted s
    else cs_snapshot s' = cs_snapshot s \<and> cs_lastBytes s' = cs_lastBytes s \<and> (f' = f \<or> cs_faulted s')"
  by (rule commit_outcome [OF assms])


section \<open>Witnesses\<close>

definition small_lib :: yaml_lib where
  "small_lib = \<lparr>yl_parse = (\<lambda>b. Some (witness_config None,
     [(0, \<lparr>yc_Kind = MappingNode, yc_Tag = ''!!map'', yc_Value = '''', yc_Anchor = '''', yc_Style = 0, yc_Alias = 9, yc_Content = []\<rparr>)], 0, [])),
     yl_encode = (\<lambda>t. Some ''new''), yl_unsupported = (\<lambda>d. []), yl_url = (\<lambda>u. None)\<rparr>"

definition small_store :: config_store where
  "small_store = \<lparr>cs_lastBytes = ''old'', cs_snapshot = witness_config None, cs_warnings = [], cs_duplicateKeyWarnings = [],
     cs_faulted = False, cs_closing = False, cs_fatal = False\<rparr>"

definition small_env :: "replace_end \<Rightarrow> unit config_env" where
  "small_env r = \<lparr>ce_disk1 = Some ''old'', ce_disk2 = Some ''old'', ce_closing2 = False, ce_check1 = None, ce_check2 = None,
     ce_ctx1 = True, ce_ctx2 = True, ce_temp = TempWritten, ce_replace = r\<rparr>"

lemma witness_config_valid: "config_Validate (\<lambda>u. None) (witness_config None) = None"
  by (simp add: config_Validate_def IsAllowedWorkspacePath_def validateAccess_def missing_credentials_def blank_def
        owner_field_def platform_count_def ValidateProxyURL_def ValidateProxyForWebsocket_def ParseProxyURL_def
        EffectiveProxyURL_def ProxyURLValue_def proxy_slots_def websocketProxyPlatforms_def config_eval text_eval)


definition small_commit :: "replace_end \<Rightarrow> (config_store \<times> string small_file) \<times> commit_phase \<times> unit commit_error option" where
  "small_commit r = store_Commit small_lib (small_env r) (\<lambda>doc cfg. Inr doc) (small_store, fresh_file (Some ''old''))"

lemma small_commit_ok: "snd (snd (small_commit ReplaceDone)) = None"
  by (simp add: small_commit_def store_Commit_def small_store_def small_env_def checkDisk_def candidate_bytes_def small_lib_def
      witness_config_valid copyConfigurationNodes.simps writeConfigDurable_def commit_check_def replaceConfigFile_def)

lemma config_published_durable_witness:
  "fst (snd (small_commit ReplaceDone)) = Durable
    \<and> readings (snd (fst (small_commit ReplaceDone))) = {Some (cs_lastBytes (fst (fst (small_commit ReplaceDone))))}"
proof -
  obtain s f phase err where c: "small_commit ReplaceDone = ((s, f), phase, err)" by (metis prod.collapse)
  with small_commit_ok have "err = None" by simp
  with config_published_durable [OF c [unfolded small_commit_def]] c show ?thesis by simp
qed


end
