(* ===== verification/ChatBinding.thy ===== *)
theory ChatBinding
  imports ConfigStore TakeoverProps StatusTexts Identities
begin

text \<open>
  Binding a chat to a directory: \<open>BindingService.Bind\<close> of \<open>internal/gateway/chat_binding.go\<close>, the switch away
  from the old process in \<open>binding_switch.go\<close> and the probe of \<open>im_binding_probe.go\<close>. \<open>Bind\<close> holds the operation
  lock of the chat's gate, except while a platform is probed, so it is one step; what it asks of the file system,
  the admission, the platform, the ingress store, the old process and the disk is answered by its environment.
\<close>

section \<open>State and environment\<close>

record bind_state =
  bs_conf :: "config_store \<times> string small_file"
  bs_leases :: lease_heap
  bs_gate :: chat_gate
  bs_process :: "chord_process option"
  bs_transfers :: transfer_store
  bs_shuttingDown :: bool

datatype bind_error =
    PairingDenied | BadDirectory | BindBusy | BindBlocked | OutcomeUnknown | UnresolvedEvidence | InputStatusUnknown | GatewayStopping
  | AmbiguousDirectory | ProbeUnavailable | ProbeRefused | ProbeTimeout | RouteUnreadable | DirectoryChanged | RouteChangeFailed
  | ConfigFaulted | NotCommitted "edit_error commit_error"

text \<open>What a probe finds: the revision of the chat's route (none: it cannot be read) before and after, and the rest.\<close>

record probe_env =
  pe_validator :: bool
  pe_revision1 :: "string option"
  pe_accepted :: bool
  pe_inTime :: bool
  pe_gate2 :: chat_gate
  pe_sameConfig :: bool
  pe_valid :: bool
  pe_revision2 :: "string option"
  pe_sameDirectory :: bool
  pe_transfers2 :: transfer_store

record bind_env =
  be_valid1 :: bool
  be_directory :: "string option"
  be_valid2 :: bool
  be_same :: "string \<Rightarrow> bool"
  be_probe :: probe_env
  be_routeBegun :: bool
  be_routeFinished :: bool
  be_refresh :: bool
  be_drained :: bool
  be_stopped :: bool
  be_commit :: "edit_error config_env"
  be_random :: "string list"

record bind_result =
  br_Directory :: string
  br_PreviousDirectory :: string
  br_First :: bool
  br_Already :: bool
  br_Phase :: commit_phase

section \<open>The old process\<close>

text \<open>
  \<open>readyForBindingLocked\<close>. Every process is started with its ready signal (\<open>internal/gateway/process.go\<close>); the
  answer for a process without one is left out.
\<close>

definition readyForBinding :: "chord_process \<Rightarrow> bool" where
  "readyForBinding p \<longleftrightarrow> px_readyClosed p \<and> \<not> px_bindingGuard p"

definition canRebind :: "chord_process \<Rightarrow> bool" where
  "canRebind p \<longleftrightarrow> (let s = px_state p in
     \<not> st_Busy s \<and> \<not> hasGuardedInputs p \<and> st_PendingLocalShells s = 0 \<and> st_RunningJobs s = 0 \<and> st_PendingConfirm s = None
     \<and> pendingQuestionCount s = 0 \<and> st_PendingHandoff s = None \<and> \<not> inputBlocked p \<and> readyForBinding p)"

definition stop_intent :: "chord_process \<Rightarrow> chord_process" where
  "stop_intent p = p\<lparr>px_stoppedByGateway := True, px_autoRestart := False\<rparr>"

definition closed_gate :: "chat_gate \<Rightarrow> bool" where
  "closed_gate g \<longleftrightarrow> cg_phase g = PhaseBlocked \<or> cg_phase g = PhaseSwitching"

text \<open>\<open>beginBindingSwitch\<close>; \<open>None\<close> is the panic of a lease that is closed twice.\<close>

definition beginBindingSwitch :: "string \<Rightarrow> string \<Rightarrow> bind_state \<Rightarrow> (bind_state \<times> (bind_error + nat option)) option" where
  "beginBindingSwitch oldKey newKey b =
     (if bs_shuttingDown b then Some (b, Inl GatewayStopping)
      else if closed_gate (bs_gate b) then Some (b, Inl BindBlocked)
      else if Blocked oldKey (Some (bs_transfers b)) \<or> Blocked newKey (Some (bs_transfers b)) then Some (b, Inl BindBusy)
      else case bs_process b of
        Some p \<Rightarrow>
          if hasGuardedInputs p then Some (b, Inl UnresolvedEvidence)
          else if \<not> canRebind p then Some (b, Inl BindBusy)
          else map_option (\<lambda>(h, g, r). (b\<lparr>bs_process := Some (stop_intent p), bs_leases := h, bs_gate := g\<rparr>, Inr r))
            (Switching (bs_leases b, bs_gate b))
      | None \<Rightarrow> map_option (\<lambda>(h, g, r). (b\<lparr>bs_leases := h, bs_gate := g\<rparr>, Inr r)) (Switching (bs_leases b, bs_gate b)))"

definition prepareBindingSwitch :: "bind_env \<Rightarrow> string \<Rightarrow> string \<Rightarrow> bind_state \<Rightarrow> (bind_state \<times> bind_error option) option" where
  "prepareBindingSwitch e oldKey newKey b =
     (if bs_process b \<noteq> None \<and> \<not> be_refresh e then Some (b, Some InputStatusUnknown)
      else case beginBindingSwitch oldKey newKey b of
        None \<Rightarrow> None
      | Some (b, Inl err) \<Rightarrow> Some (b, Some err)
      | Some (b, Inr lease) \<Rightarrow>
          if lease \<noteq> None \<and> \<not> be_drained e \<or> bs_process b \<noteq> None \<and> \<not> be_stopped e
          then Some (b\<lparr>bs_gate := Block (bs_gate b)\<rparr>, Some BindBlocked)
          else Some (b\<lparr>bs_process := None\<rparr>, None))"

section \<open>The probe\<close>

definition probed_platform :: "string \<Rightarrow> bool" where "probed_platform platform \<longleftrightarrow> platform = ''wecom'' \<or> platform = ''dingtalk''"

definition probeBinding :: "probe_env \<Rightarrow> string \<Rightarrow> chat_gate \<Rightarrow> bind_error option" where
  "probeBinding e platform g =
     (if \<not> probed_platform platform then None
      else if \<not> pe_validator e then Some ProbeUnavailable
      else if pe_revision1 e = None then Some RouteUnreadable
      else if \<not> pe_accepted e then Some ProbeRefused
      else if \<not> pe_inTime e then Some ProbeTimeout
      else if \<not> pe_sameConfig e \<or> cg_generation g \<noteq> cg_generation (pe_gate2 e) \<or> cg_phase g \<noteq> cg_phase (pe_gate2 e) \<or> \<not> pe_valid e
      then Some PairingDenied
      else if pe_revision2 e = None then Some RouteUnreadable
      else if pe_revision2 e \<noteq> pe_revision1 e then Some PairingDenied
      else if \<not> pe_sameDirectory e then Some DirectoryChanged
      else if Blocked '''' (Some (pe_transfers2 e)) then Some BindBusy
      else None)"

text \<open>Others may act on the gate and on transfers while the platform is asked.\<close>

definition after_probe :: "probe_env \<Rightarrow> string \<Rightarrow> bind_state \<Rightarrow> bind_state" where
  "after_probe e platform b =
     (if probed_platform platform \<and> pe_validator e \<and> pe_revision1 e \<noteq> None
      then b\<lparr>bs_gate := pe_gate2 e, bs_transfers := pe_transfers2 e\<rparr> else b)"

section \<open>Bind\<close>

definition bind_mutation :: "bind_env \<Rightarrow> string \<Rightarrow> incoming_message \<Rightarrow> yaml_tree \<Rightarrow> gateway_config \<Rightarrow> edit_error + yaml_tree" where
  "bind_mutation e path m doc cfg = (case bind_apply (be_same e) (be_random e) path m cfg doc of Inl err \<Rightarrow> Inl err | Inr (d, i) \<Rightarrow> Inr d)"

text \<open>The workspace \<open>Apply\<close> chose, from the configuration the store parsed.\<close>

definition chosen_workspace :: "yaml_lib \<Rightarrow> bind_env \<Rightarrow> string \<Rightarrow> incoming_message \<Rightarrow> config_store \<Rightarrow> string" where
  "chosen_workspace lib e path m s =
     (case yl_parse lib (cs_lastBytes s) of None \<Rightarrow> ''''
      | Some (cfg, h, r, z) \<Rightarrow>
          (case copyConfigurationNodes h {} r of None \<Rightarrow> ''''
           | Some doc \<Rightarrow> (case bind_apply (be_same e) (be_random e) path m cfg doc of Inl err \<Rightarrow> '''' | Inr (d, i) \<Rightarrow> i)))"

definition binding_key_of :: "string \<Rightarrow> incoming_message \<Rightarrow> string" where
  "binding_key_of i m = (if i = '''' then '''' else key_String \<lparr>pk_workspaceID = i, pk_imType = im_IMType m, pk_chatID = im_ChatID m\<rparr>)"

text \<open>
  The commit, and what the gate becomes by its outcome: the new lease, the old binding again, or a gate that
  stays closed because nobody knows which configuration is on disk.
\<close>

definition bind_commit :: "yaml_lib \<Rightarrow> bind_env \<Rightarrow> admission_ticket \<Rightarrow> incoming_message \<Rightarrow> string \<Rightarrow> string \<Rightarrow> bind_result \<Rightarrow> bind_state
    \<Rightarrow> bind_state \<times> bind_result \<times> bind_error list" where
  "bind_commit lib e t m path oldID res b =
     (let chosen = chosen_workspace lib e path m (fst (bs_conf b));
          (sf, phase, err) = store_Commit lib (be_commit e) (bind_mutation e path m) (bs_conf b);
          b = b\<lparr>bs_conf := sf\<rparr>; res = res\<lparr>br_Phase := phase\<rparr> in
      case err of
        None \<Rightarrow> let (h, g) = Install (at_Identity t) chosen (at_AccountEpoch t) (bs_leases b, bs_gate b) in
          (b\<lparr>bs_leases := h, bs_gate := g\<rparr>, res, [])
      | Some x \<Rightarrow>
          if cs_faulted (fst sf) then (b\<lparr>bs_gate := Block (bs_gate b)\<rparr>, res, [ConfigFaulted])
          else if oldID \<noteq> ''''
          then (let (h, g) = Install (at_Identity t) oldID (at_AccountEpoch t) (bs_leases b, bs_gate b) in
            (b\<lparr>bs_leases := h, bs_gate := g\<rparr>, res, [NotCommitted x]))
          else (b\<lparr>bs_gate := SetUnbound (bs_gate b)\<rparr>, res, [NotCommitted x]))"

text \<open>The deferred end of a change of the chat's route.\<close>

definition bind_settle :: "bind_env \<Rightarrow> bind_state \<times> bind_result \<times> bind_error list \<Rightarrow> bind_state \<times> bind_result \<times> bind_error list" where
  "bind_settle e z =
     (let (b, res, errs) = z in
      if cs_faulted (fst (bs_conf b)) then (b\<lparr>bs_gate := Block (bs_gate b)\<rparr>, res, errs @ [ConfigFaulted])
      else if \<not> be_routeFinished e then (b\<lparr>bs_gate := Block (bs_gate b)\<rparr>, res, errs @ [OutcomeUnknown])
      else (b, res, errs))"

definition bind_switch :: "yaml_lib \<Rightarrow> bind_env \<Rightarrow> admission_ticket \<Rightarrow> incoming_message \<Rightarrow> string \<Rightarrow> string \<Rightarrow> string \<Rightarrow> im_adapter \<Rightarrow> bind_result
    \<Rightarrow> bind_state \<Rightarrow> (bind_state \<times> bind_result \<times> bind_error list) option" where
  "bind_switch lib e t m path oldID workspaceID c res b =
     (case prepareBindingSwitch e (binding_key_of oldID m) (binding_key_of workspaceID m) b of
        None \<Rightarrow> None
      | Some (b, Some err) \<Rightarrow> Some (bind_settle e (b, res, [err]))
      | Some (b, None) \<Rightarrow> Some (bind_settle e (bind_commit lib e t m path oldID (res\<lparr>br_First := OwnerIdentity c = None\<rparr>) b)))"

text \<open>A result of \<open>None\<close> is a panic: of the gate's lease, or of a platform without a configuration.\<close>

definition Bind :: "yaml_lib \<Rightarrow> bind_env \<Rightarrow> admission_ticket \<Rightarrow> incoming_message \<Rightarrow> bind_state
    \<Rightarrow> (bind_state \<times> bind_result \<times> bind_error list) option" where
  "Bind lib e t m b =
     (let res = \<lparr>br_Directory = '''', br_PreviousDirectory = '''', br_First = False, br_Already = False, br_Phase = BeforeReplace\<rparr> in
      if \<not> be_valid1 e then Some (b, res, [PairingDenied])
      else case be_directory e of None \<Rightarrow> Some (b, res, [BadDirectory])
      | Some path \<Rightarrow>
          if Blocked '''' (Some (bs_transfers b)) then Some (b, res, [BindBusy])
          else let res = res\<lparr>br_Directory := path\<rparr> in
          if \<not> be_valid2 e \<or> cg_generation (bs_gate b) \<noteq> at_BindingGeneration t then Some (b, res, [PairingDenied])
          else let cfg = cs_snapshot (fst (bs_conf b)) in
          (case IMConfigByType cfg (im_IMType m) of None \<Rightarrow> None
           | Some c \<Rightarrow>
               let oldID = get_or '''' (adapter_Bindings c) (im_ChatID m);
                   res = res\<lparr>br_PreviousDirectory := (case WorkspaceByID cfg oldID of None \<Rightarrow> '''' | Some w \<Rightarrow> ws_Path w)\<rparr> in
               case findBindingWorkspace (be_same e) cfg of Inl err \<Rightarrow> Some (b, res, [AmbiguousDirectory])
               | Inr workspaceID \<Rightarrow>
                   if oldID \<noteq> '''' \<and> oldID = workspaceID then Some (b, res\<lparr>br_Already := True\<rparr>, [])
                   else if closed_gate (bs_gate b) then Some (b, res, [BindBlocked])
                   else let refused = probeBinding (be_probe e) (Platform (at_Identity t)) (bs_gate b);
                            b = after_probe (be_probe e) (Platform (at_Identity t)) b in
                   if refused \<noteq> None then Some (b, res, [the refused])
                   else if \<not> be_routeBegun e then Some (b, res, [RouteChangeFailed])
                   else bind_switch lib e t m path oldID workspaceID c res b))"

section \<open>Replies\<close>

definition displayBindingDirectory :: "string \<Rightarrow> string" where
  "displayBindingDirectory path =
     (let s = blank_controls path in if 512 < length (runes s) then first_runes 509 s @ ''...'' else s)"

definition denied :: "bind_error \<Rightarrow> bool" where
  "denied err \<longleftrightarrow> err = PairingDenied \<or> err = NotCommitted (CheckFailed EditDenied) \<or> err = NotCommitted (ApplyFailed EditDenied)"

text \<open>\<open>bindingReply\<close>; no reply is the empty text. The first case that one of the joined errors meets decides.\<close>

definition bindingReply :: "bind_result \<Rightarrow> bind_error list \<Rightarrow> string" where
  "bindingReply res errs =
     (if errs \<noteq> [] then
        (if list_ex denied errs then ''''
         else if InputStatusUnknown \<in> set errs then ''Could not refresh pending input state. Binding was not changed; check /status and retry.''
         else if BindBusy \<in> set errs then ''Finish or cancel active work and wait for it to stop before binding another directory.''
         else if UnresolvedEvidence \<in> set errs then ''Binding was not changed. Input state is unresolved. Check /status for queue or storage details, then inspect the original session on the host.''
         else if BindBlocked \<in> set errs then ''Binding is paused because shutdown could not be confirmed. Check the local gateway and restart.''
         else if BadDirectory \<in> set errs then ''The directory does not exist or is not accessible.''
         else if NotCommitted ConfigChanged \<in> set errs then ''Configuration changed on disk. Restart the gateway before binding.''
         else if br_PreviousDirectory res \<noteq> '''' then ''Binding was not changed. Still bound to '' @ displayBindingDirectory (br_PreviousDirectory res) @ ''. Send a new task to continue.''
         else ''Binding was not changed. Check the local gateway and try again.'')
      else if br_First res then ''Paired and bound to '' @ displayBindingDirectory (br_Directory res) @ ''. Send a task to start.''
      else if br_Already res then ''Already bound to '' @ displayBindingDirectory (br_Directory res) @ ''.''
      else ''Bound to '' @ displayBindingDirectory (br_Directory res) @ ''.'')"

section \<open>The switch is all or nothing\<close>

lemma Switching_gate: "Switching (h, g) = Some (h', g', r) \<Longrightarrow> cg_phase g' = PhaseSwitching \<and> length h' = length h"
  by (auto simp: Switching_def Let_def split: option.splits)

lemma begin_switch_cases:
  assumes "beginBindingSwitch oldKey newKey b = Some (b', z)"
  shows "(\<exists>err. z = Inl err \<and> b' = b) \<or> ((\<exists>r. z = Inr r) \<and> cg_phase (bs_gate b') = PhaseSwitching \<and> bs_conf b' = bs_conf b
     \<and> \<not> Blocked oldKey (Some (bs_transfers b)) \<and> \<not> Blocked newKey (Some (bs_transfers b))
     \<and> (\<forall>p. bs_process b = Some p \<longrightarrow> canRebind p))"
  using assms Switching_gate
  by (auto simp: beginBindingSwitch_def split: if_splits option.splits)

lemma prepare_cases:
  assumes "prepareBindingSwitch e oldKey newKey b = Some (b', z)"
  shows "(z \<noteq> None \<and> b' = b)
    \<or> (bs_conf b' = bs_conf b \<and> (\<forall>p. bs_process b = Some p \<longrightarrow> canRebind p) \<and> \<not> Blocked oldKey (Some (bs_transfers b))
       \<and> \<not> Blocked newKey (Some (bs_transfers b))
       \<and> (z \<noteq> None \<longrightarrow> cg_phase (bs_gate b') = PhaseBlocked)
       \<and> (z = None \<longrightarrow> bs_process b' = None \<and> (bs_process b \<noteq> None \<longrightarrow> be_stopped e)))"
proof (cases "bs_process b \<noteq> None \<and> \<not> be_refresh e")
  case True
  with assms show ?thesis by (auto simp: prepareBindingSwitch_def)
next
  case False
  with assms obtain b1 y where s: "beginBindingSwitch oldKey newKey b = Some (b1, y)"
    by (auto simp: prepareBindingSwitch_def split: if_splits option.splits)
  have p: "bs_process b1 = None \<longleftrightarrow> bs_process b = None" if "y = Inr r" for r
    using s that by (auto simp: beginBindingSwitch_def split: if_splits option.splits)
  from begin_switch_cases [OF s] show ?thesis
  proof
    assume "\<exists>err. y = Inl err \<and> b1 = b"
    with assms False s show ?thesis by (auto simp: prepareBindingSwitch_def split: if_splits)
  next
    assume r: "(\<exists>r. y = Inr r) \<and> cg_phase (bs_gate b1) = PhaseSwitching \<and> bs_conf b1 = bs_conf b
     \<and> \<not> Blocked oldKey (Some (bs_transfers b)) \<and> \<not> Blocked newKey (Some (bs_transfers b))
     \<and> (\<forall>p. bs_process b = Some p \<longrightarrow> canRebind p)"
    then obtain l where l: "y = Inr l" by blast
    with assms False s have "(b', z) = (if l \<noteq> None \<and> \<not> be_drained e \<or> bs_process b1 \<noteq> None \<and> \<not> be_stopped e
          then (b1\<lparr>bs_gate := Block (bs_gate b1)\<rparr>, Some BindBlocked) else (b1\<lparr>bs_process := None\<rparr>, None))"
      by (auto simp: prepareBindingSwitch_def split: if_splits)
    with r p [OF l] show ?thesis by (auto simp: Block_def split: if_splits)
  qed
qed

definition settled_gate :: "bind_state \<Rightarrow> bool" where
  "settled_gate b \<longleftrightarrow> cg_phase (bs_gate b) \<noteq> PhaseSwitching"

lemma Install_gate: "Install i w e (h, g) = (h', g') \<Longrightarrow>
    cg_phase g' = PhaseActive \<and> h' = h @ [NewBindingLease i w e (cg_generation g')] \<and> cg_lease g' = Some (length h)"
  by (auto simp: Install_def Let_def)

text \<open>The gate lets the tasks of one workspace through, under a fresh lease.\<close>

definition bound_to :: "admission_ticket \<Rightarrow> string \<Rightarrow> bind_state \<Rightarrow> bool" where
  "bound_to t i b \<longleftrightarrow> cg_phase (bs_gate b) = PhaseActive \<and>
     (\<exists>ref gen. cg_lease (bs_gate b) = Some ref \<and> ref < length (bs_leases b)
        \<and> bs_leases b ! ref = NewBindingLease (at_Identity t) i (at_AccountEpoch t) gen)"

lemma bound_by_install:
  assumes "Install (at_Identity t) i (at_AccountEpoch t) (h, g) = (h', g')"
  shows "bound_to t i (b\<lparr>bs_leases := h', bs_gate := g'\<rparr>)"
  using Install_gate [OF assms] by (auto simp: bound_to_def)

lemma bind_commit_result:
  assumes "bind_commit lib e t m path oldID res b = (b', res', errs)"
  shows "(errs = [] \<longrightarrow> br_Phase res' = Durable \<and> snapshot_of lib (fst (bs_conf b'))
         \<and> readings (snd (bs_conf b')) = {Some (cs_lastBytes (fst (bs_conf b')))} \<and> \<not> cs_faulted (fst (bs_conf b'))
         \<and> bound_to t (chosen_workspace lib e path m (fst (bs_conf b))) b')
     \<and> (errs \<noteq> [] \<longrightarrow> cs_snapshot (fst (bs_conf b')) = cs_snapshot (fst (bs_conf b))
         \<and> (cg_phase (bs_gate b') = PhaseBlocked
            \<or> snd (bs_conf b') = snd (bs_conf b) \<and> (if oldID = '''' then cg_phase (bs_gate b') = PhaseUnbound else bound_to t oldID b')))
     \<and> (cs_faulted (fst (bs_conf b')) \<longrightarrow> cg_phase (bs_gate b') = PhaseBlocked) \<and> bs_process b' = bs_process b"
proof -
  obtain s f where sf: "bs_conf b = (s, f)" by fastforce
  obtain s' f' phase err where c: "store_Commit lib (be_commit e) (bind_mutation e path m) (s, f) = ((s', f'), phase, err)"
    by (metis prod.collapse)
  note co = commit_outcome [OF c]
  show ?thesis
  proof (cases err)
    case None
    obtain h g where i: "Install (at_Identity t) (chosen_workspace lib e path m s) (at_AccountEpoch t) (bs_leases b, bs_gate b) = (h, g)" by fastforce
    have "\<not> cs_faulted s'" using c None co by (cases rule: commit_cases) (auto split: if_splits)
    moreover have "b' = b\<lparr>bs_conf := (s', f'), bs_leases := h, bs_gate := g\<rparr>" "res' = res\<lparr>br_Phase := phase\<rparr>" "errs = []"
      using assms by (simp_all add: bind_commit_def sf c None i)
    moreover note bound_by_install [OF i, of "b\<lparr>bs_conf := (s', f')\<rparr>"]
    ultimately show ?thesis using co None sf by simp
  next
    case (Some x)
    obtain h g where i: "Install (at_Identity t) oldID (at_AccountEpoch t) (bs_leases b, bs_gate b) = (h, g)" by fastforce
    note bi = bound_by_install [OF i, of "b\<lparr>bs_conf := (s', f')\<rparr>"]
    have co': "cs_snapshot s' = cs_snapshot s" "f' = f \<or> cs_faulted s'" using co Some by simp_all
    show ?thesis
    proof (cases "cs_faulted s'")
      case True
      then have "b' = b\<lparr>bs_conf := (s', f'), bs_gate := Block (bs_gate b)\<rparr>" "errs = [ConfigFaulted]"
        using assms by (simp_all add: bind_commit_def sf c Some)
      with co' sf show ?thesis by (simp add: Block_def)
    next
      case False
      show ?thesis
      proof (cases "oldID = ''''")
        case True
        then have "b' = b\<lparr>bs_conf := (s', f'), bs_gate := SetUnbound (bs_gate b)\<rparr>" "errs = [NotCommitted x]"
          using assms False by (simp_all add: bind_commit_def sf c Some)
        with co' sf False True show ?thesis by (simp add: SetUnbound_def)
      next
        case nonempty: False
        then have "b' = b\<lparr>bs_conf := (s', f'), bs_leases := h, bs_gate := g\<rparr>" "errs = [NotCommitted x]"
          using assms False by (simp_all add: bind_commit_def sf c Some i)
        with co' sf False nonempty bi show ?thesis by simp
      qed
    qed
  qed
qed

definition old_workspace :: "bind_state \<Rightarrow> incoming_message \<Rightarrow> string" where
  "old_workspace b m = (case IMConfigByType (cs_snapshot (fst (bs_conf b))) (im_IMType m) of None \<Rightarrow> ''''
     | Some c \<Rightarrow> get_or '''' (adapter_Bindings c) (im_ChatID m))"

lemma settle_result:
  assumes "bind_settle e (b, res, errs) = (b', res', errs')"
  shows "res' = res \<and> bs_conf b' = bs_conf b \<and> bs_process b' = bs_process b
    \<and> (cg_phase (bs_gate b') = PhaseBlocked \<and> errs' \<noteq> [] \<or> b' = b \<and> errs' = errs \<and> \<not> cs_faulted (fst (bs_conf b)))"
  using assms by (auto simp: bind_settle_def Block_def split: if_splits)

lemma bind_switch_result:
  assumes "bind_switch lib e t m path oldID workspaceID c res b = Some (b', res', errs)"
  shows "(errs = [] \<longrightarrow> br_Phase res' = Durable \<and> snapshot_of lib (fst (bs_conf b'))
         \<and> readings (snd (bs_conf b')) = {Some (cs_lastBytes (fst (bs_conf b')))}
         \<and> bound_to t (chosen_workspace lib e path m (fst (bs_conf b))) b' \<and> bs_process b' = None
         \<and> (bs_process b \<noteq> None \<longrightarrow> be_stopped e))
     \<and> (errs \<noteq> [] \<longrightarrow> cg_phase (bs_gate b') = PhaseBlocked
         \<or> cs_snapshot (fst (bs_conf b')) = cs_snapshot (fst (bs_conf b)) \<and> snd (bs_conf b') = snd (bs_conf b)
            \<and> (b' = b \<or> (if oldID = '''' then cg_phase (bs_gate b') = PhaseUnbound else bound_to t oldID b')))
     \<and> (b' \<noteq> b \<longrightarrow> cg_phase (bs_gate b') = PhaseBlocked \<or> (\<forall>p. bs_process b = Some p \<longrightarrow> canRebind p))
     \<and> (bs_process b' \<noteq> bs_process b \<longrightarrow> (\<forall>p. bs_process b = Some p \<longrightarrow> canRebind p)
         \<and> \<not> Blocked (binding_key_of oldID m) (Some (bs_transfers b)))"
proof -
  obtain b1 z where p: "prepareBindingSwitch e (binding_key_of oldID m) (binding_key_of workspaceID m) b = Some (b1, z)"
    using assms by (auto simp: bind_switch_def split: option.splits)
  note pc = prepare_cases [OF p]
  show ?thesis
  proof (cases z)
    case (Some err)
    have s: "bind_settle e (b1, res, [err]) = (b', res', errs)" using assms p Some by (simp add: bind_switch_def)
    from settle_result [OF s] pc Some show ?thesis by auto
  next
    case None
    obtain b2 r2 e2 where c: "bind_commit lib e t m path oldID (res\<lparr>br_First := OwnerIdentity c = None\<rparr>) b1 = (b2, r2, e2)" by (metis prod_cases3)
    have s: "bind_settle e (b2, r2, e2) = (b', res', errs)" using assms p None c by (simp add: bind_switch_def)
    note cr = bind_commit_result [OF c]
    from pc None have q: "bs_conf b1 = bs_conf b" "\<forall>p. bs_process b = Some p \<longrightarrow> canRebind p"
        "\<not> Blocked (binding_key_of oldID m) (Some (bs_transfers b))" "bs_process b1 = None" "bs_process b \<noteq> None \<longrightarrow> be_stopped e" by auto
    from settle_result [OF s] show ?thesis
    proof (elim conjE disjE, goal_cases)
      case 1
      with q show ?thesis by simp
    next
      case 2
      with cr q show ?thesis by (auto split: if_splits)
    qed
  qed
qed

lemma Bind_cases:
  assumes "Bind lib e t m b = Some (b', res, errs)"
  obtains (early) "errs \<noteq> [] \<or> br_Already res" "b' = b \<or> b' = after_probe (be_probe e) (Platform (at_Identity t)) b" "errs = [] \<Longrightarrow> b' = b"
    | (switch) path c w r where "be_directory e = Some path" "IMConfigByType (cs_snapshot (fst (bs_conf b))) (im_IMType m) = Some c"
      "bind_switch lib e t m path (old_workspace b m) w c r (after_probe (be_probe e) (Platform (at_Identity t)) b) = Some (b', res, errs)"
      "findBindingWorkspace (be_same e) (cs_snapshot (fst (bs_conf b))) = Inr w"
proof -
  let ?ap = "after_probe (be_probe e) (Platform (at_Identity t)) b"
  let ?res = "\<lparr>br_Directory = '''', br_PreviousDirectory = '''', br_First = False, br_Already = False, br_Phase = BeforeReplace\<rparr>"
  show thesis
  proof (cases "be_valid1 e \<and> (\<exists>path. be_directory e = Some path) \<and> \<not> Blocked '''' (Some (bs_transfers b)) \<and> be_valid2 e
      \<and> cg_generation (bs_gate b) = at_BindingGeneration t")
    case False
    with assms have "errs \<noteq> []" "b' = b" by (auto simp: Bind_def Let_def split: option.splits if_splits)
    then show ?thesis using early by blast
  next
    case True
    then obtain path where g: "be_valid1 e" "be_directory e = Some path" "\<not> Blocked '''' (Some (bs_transfers b))"
      "\<not> (\<not> be_valid2 e \<or> cg_generation (bs_gate b) \<noteq> at_BindingGeneration t)" by blast
    obtain c where c: "IMConfigByType (cs_snapshot (fst (bs_conf b))) (im_IMType m) = Some c"
      using assms g by (cases "IMConfigByType (cs_snapshot (fst (bs_conf b))) (im_IMType m)") (simp_all add: Bind_def Let_def)
    have old: "get_or '''' (adapter_Bindings c) (im_ChatID m) = old_workspace b m" by (simp add: old_workspace_def c)
    define r where "r = ?res\<lparr>br_Directory := path, br_PreviousDirectory :=
        (case WorkspaceByID (cs_snapshot (fst (bs_conf b))) (old_workspace b m) of None \<Rightarrow> '''' | Some w \<Rightarrow> ws_Path w)\<rparr>"
    have body: "Some (b', res, errs) =
      (case findBindingWorkspace (be_same e) (cs_snapshot (fst (bs_conf b))) of Inl err \<Rightarrow> Some (b, r, [AmbiguousDirectory])
       | Inr w \<Rightarrow>
           if old_workspace b m \<noteq> '''' \<and> old_workspace b m = w then Some (b, r\<lparr>br_Already := True\<rparr>, [])
           else if closed_gate (bs_gate b) then Some (b, r, [BindBlocked])
           else if probeBinding (be_probe e) (Platform (at_Identity t)) (bs_gate b) \<noteq> None
           then Some (?ap, r, [the (probeBinding (be_probe e) (Platform (at_Identity t)) (bs_gate b))])
           else if \<not> be_routeBegun e then Some (?ap, r, [RouteChangeFailed])
           else bind_switch lib e t m path (old_workspace b m) w c r ?ap)"
      using assms unfolding Bind_def Let_def g(2) option.case c old r_def if_not_P [OF g(3)] if_not_P [OF g(4)]
      using g(1) by (simp cong: if_cong)
    show ?thesis
    proof (cases "findBindingWorkspace (be_same e) (cs_snapshot (fst (bs_conf b)))")
      case (Inl x)
      with body have "errs \<noteq> []" "b' = b" by simp_all
      then show ?thesis using early by blast
    next
      case (Inr w)
      show ?thesis
      proof (cases "bind_switch lib e t m path (old_workspace b m) w c r ?ap = Some (b', res, errs)")
        case True
        from switch [OF g(2) c this Inr] show ?thesis .
      next
        case False
        with body Inr have "(errs \<noteq> [] \<or> br_Already res) \<and> (b' = b \<or> b' = ?ap) \<and> (errs = [] \<longrightarrow> b' = b)"
          by (auto split: if_splits)
        then show ?thesis using early by blast
      qed
    qed
  qed
qed

lemma after_probe_keeps [simp]:
  "bs_conf (after_probe e platform b) = bs_conf b" "bs_process (after_probe e platform b) = bs_process b"
  "bs_leases (after_probe e platform b) = bs_leases b" "bs_gate (after_probe e platform b) \<in> {bs_gate b, pe_gate2 e}"
  by (simp_all add: after_probe_def)

text \<open>
  C13: A binding changes as a whole or not at all. Without an error the new configuration is durable and alone on
  disk, the gate lets through only the workspace it names, under a fresh lease, and the old process is gone. With
  an error the gate is blocked, or the configuration is as it was and the gate still or again stands for the
  binding before. And the process is only ever stopped when it had no work, no unanswered input and no question.
\<close>

theorem bind_all_or_nothing:
  assumes "Bind lib e t m b = Some (b', res, errs)"
  shows "(errs = [] \<and> \<not> br_Already res \<longrightarrow> br_Phase res = Durable \<and> snapshot_of lib (fst (bs_conf b'))
        \<and> readings (snd (bs_conf b')) = {Some (cs_lastBytes (fst (bs_conf b')))} \<and> bs_process b' = None
        \<and> bound_to t (chosen_workspace lib e (the (be_directory e)) m (fst (bs_conf b))) b')
    \<and> (errs \<noteq> [] \<longrightarrow> cg_phase (bs_gate b') = PhaseBlocked
        \<or> cs_snapshot (fst (bs_conf b')) = cs_snapshot (fst (bs_conf b)) \<and> snd (bs_conf b') = snd (bs_conf b)
          \<and> (bs_gate b' = bs_gate b \<or> bs_gate b' = pe_gate2 (be_probe e)
             \<or> (if old_workspace b m = '''' then cg_phase (bs_gate b') = PhaseUnbound else bound_to t (old_workspace b m) b')))
    \<and> (bs_process b' \<noteq> bs_process b \<longrightarrow> (\<forall>p. bs_process b = Some p \<longrightarrow> canRebind p))"
  using assms
proof (cases rule: Bind_cases)
  case early
  then show ?thesis using after_probe_keeps [of "be_probe e" "Platform (at_Identity t)" b] by auto
next
  case (switch path c w r)
  from bind_switch_result [OF switch(3)] switch(1) after_probe_keeps [of "be_probe e" "Platform (at_Identity t)" b]
  show ?thesis by (auto split: if_splits)
qed

section \<open>Witnesses\<close>

definition doc_cell :: "yaml_kind \<Rightarrow> nat list \<Rightarrow> yaml_cell" where
  "doc_cell k c = \<lparr>yc_Kind = k, yc_Tag = ''!!map'', yc_Value = '''', yc_Anchor = '''', yc_Style = 0, yc_Alias = 9, yc_Content = c\<rparr>"

definition bind_lib :: yaml_lib where
  "bind_lib = small_lib\<lparr>yl_parse := (\<lambda>b. Some (witness_config None, [(0, doc_cell DocumentNode [1]), (1, doc_cell MappingNode [])], 0, []))\<rparr>"

definition a_probe :: probe_env where
  "a_probe = \<lparr>pe_validator = False, pe_revision1 = None, pe_accepted = False, pe_inTime = False, pe_gate2 = NewChatGate,
     pe_sameConfig = False, pe_valid = False, pe_revision2 = None, pe_sameDirectory = False,
     pe_transfers2 = \<lparr>ts_entries = [], ts_loadErr = None, ts_writeUncertain = False\<rparr>\<rparr>"

definition bind_world :: bind_env where
  "bind_world = \<lparr>be_valid1 = True, be_directory = Some ''/new'', be_valid2 = True, be_same = (\<lambda>p. p = ''/new''), be_probe = a_probe,
     be_routeBegun = True, be_routeFinished = True, be_refresh = True, be_drained = True, be_stopped = True,
     be_commit = \<lparr>ce_disk1 = Some ''old'', ce_disk2 = Some ''old'', ce_closing2 = False, ce_check1 = None, ce_check2 = None,
       ce_ctx1 = True, ce_ctx2 = True, ce_temp = TempWritten, ce_replace = ReplaceDone\<rparr>,
     be_random = [''ws-1'']\<rparr>"

definition bind_ticket :: admission_ticket where
  "bind_ticket = zero_ticket\<lparr>at_Identity := ChatIdentity ''slack'' ''a'' ''C2'', at_BindingGeneration := 1\<rparr>"

definition bind_message :: incoming_message where
  "bind_message = \<lparr>im_AccountID = ''a'', im_ChatKind = '''', im_ticket = None, im_IMType = ''slack'', im_ChatID = ''C2'', im_SenderID = ''u'',
     im_SenderName = '''', im_MessageID = '''', im_Text = '''', im_ForceText = False, im_AppID = '''', im_InternalAction = None\<rparr>"

definition bind_start :: bind_state where
  "bind_start = \<lparr>bs_conf = (small_store, fresh_file (Some ''old'')), bs_leases = [], bs_gate = NewChatGate, bs_process = None,
     bs_transfers = \<lparr>ts_entries = [], ts_loadErr = None, ts_writeUncertain = False\<rparr>, bs_shuttingDown = False\<rparr>"

lemmas bind_eval = bind_lib_def a_probe_def bind_world_def bind_ticket_def bind_message_def bind_start_def small_store_def small_lib_def
  doc_cell_def zero_ticket_def NewChatGate_def

lemma slack_name: "NormalizeIMType ''slack'' = ''slack''"
  by (simp add: NormalizeIMType_def text_eval)

lemma bind_doc:
  "\<exists>d. bind_apply (\<lambda>p. p = ''/new'') [''ws-1''] ''/new'' bind_message (witness_config None)
     (YNode DocumentNode ''!!map'' '''' '''' 0 [YNode MappingNode ''!!map'' '''' '''' 0 []]) = Inr (d, ''ws-1'')"
  by (simp add: bind_apply_def bind_message_def IMConfigByType_def witness_config_def witness_slack_def adapter_Type_def slack_name
      OwnerIdentity_def access_slots_def findBindingWorkspace_def WorkspaceByID_def on_root_def yaml_eval)

lemma bind_done: "\<exists>b' res. Bind bind_lib bind_world bind_ticket bind_message bind_start = Some (b', res, []) \<and> \<not> br_Already res"
proof -
  obtain d where d: "bind_apply (\<lambda>p. p = ''/new'') [''ws-1''] ''/new'' bind_message (witness_config None)
     (YNode DocumentNode ''!!map'' '''' '''' 0 [YNode MappingNode ''!!map'' '''' '''' 0 []]) = Inr (d, ''ws-1'')"
    using bind_doc by blast
  have copy: "copyConfigurationNodes [(0, doc_cell DocumentNode [Suc 0]), (Suc 0, doc_cell MappingNode [])] {} 0
      = Some (YNode DocumentNode ''!!map'' '''' '''' 0 [YNode MappingNode ''!!map'' '''' '''' 0 []])"
    by (simp add: copyConfigurationNodes.simps doc_cell_def)
  obtain c where c: "IMConfigByType (witness_config None) ''slack'' = Some c" "map_of (adapter_Bindings c) ''C2'' = None"
    by (simp add: IMConfigByType_def witness_config_def witness_slack_def adapter_Type_def slack_name adapter_Bindings_def access_slots_def)
  have f: "findBindingWorkspace (\<lambda>p. p = ''/new'') (witness_config None) = Inr ''''"
    by (simp add: findBindingWorkspace_def witness_config_def)
  have m: "im_IMType bind_message = ''slack''" "im_ChatID bind_message = ''C2''" by (simp_all add: bind_message_def)
  have con: "store_Commit bind_lib (be_commit bind_world) (bind_mutation bind_world ''/new'' bind_message) (small_store, fresh_file (Some ''old''))
      = ((small_store\<lparr>cs_lastBytes := ''new''\<rparr>, file_sync (file_replace (Some ''new'') (fresh_file (Some ''old'')))), Durable, None)"
    by (simp add: store_Commit_def bind_world_def small_store_def checkDisk_def candidate_bytes_def bind_lib_def small_lib_def
        witness_config_valid copy bind_mutation_def d writeConfigDurable_def commit_check_def replaceConfigFile_def)
  have w: "be_valid1 bind_world" "be_directory bind_world = Some ''/new''" "be_valid2 bind_world" "be_same bind_world = (\<lambda>p. p = ''/new'')"
    "be_routeBegun bind_world" "be_routeFinished bind_world" "be_refresh bind_world" "be_drained bind_world" "be_stopped bind_world"
    by (simp_all add: bind_world_def)
  have s: "cs_snapshot small_store = witness_config None" "\<not> cs_faulted small_store" by (simp_all add: small_store_def)
  have t: "Platform (at_Identity bind_ticket) = ''slack''" "at_BindingGeneration bind_ticket = 1"
    by (simp_all add: bind_ticket_def zero_ticket_def)
  have n: "WorkspaceByID (witness_config None) '''' = None" by (simp add: WorkspaceByID_def witness_config_def)
  have old: "get_or '''' (adapter_Bindings c) ''C2'' = ''''" using c(2) by (simp add: get_or_def)
  have b: "bs_conf bind_start = (small_store, fresh_file (Some ''old''))" "bs_leases bind_start = []" "bs_gate bind_start = NewChatGate"
    "bs_process bind_start = None" "\<not> bs_shuttingDown bind_start" "\<not> Blocked '''' (Some (bs_transfers bind_start))"
    by (simp_all add: bind_start_def Blocked_iff)
  have g: "cg_generation NewChatGate = 1" "\<not> closed_gate NewChatGate" by (simp_all add: NewChatGate_def closed_gate_def)
  have pr: "probeBinding (be_probe bind_world) ''slack'' NewChatGate = None" "after_probe (be_probe bind_world) ''slack'' bind_start = bind_start"
    by (simp_all add: probeBinding_def after_probe_def probed_platform_def)
  obtain h g' where sw: "Switching ([], NewChatGate) = Some (h, g', None)" by (simp add: Switching_def NewChatGate_def Let_def)
  have pre: "prepareBindingSwitch bind_world '''' '''' bind_start = Some (bind_start\<lparr>bs_leases := h, bs_gate := g', bs_process := None\<rparr>, None)"
    using b g sw by (simp add: prepareBindingSwitch_def beginBindingSwitch_def w)
  obtain h2 g2 where ins: "Install (at_Identity bind_ticket) (chosen_workspace bind_lib bind_world ''/new'' bind_message small_store)
      (at_AccountEpoch bind_ticket) (h, g') = (h2, g2)" by fastforce
  show ?thesis
    by (simp add: Bind_def w b m c(1) old s(1) n f g t pr Let_def bind_switch_def binding_key_of_def pre bind_commit_def con bind_settle_def s(2) ins)
qed

lemma bind_all_or_nothing_witness:
  "\<exists>b' res. Bind bind_lib bind_world bind_ticket bind_message bind_start = Some (b', res, []) \<and> br_Phase res = Durable
     \<and> cg_phase (bs_gate b') = PhaseActive \<and> bs_process b' = None"
proof -
  obtain b' res where b: "Bind bind_lib bind_world bind_ticket bind_message bind_start = Some (b', res, [])" "\<not> br_Already res"
    using bind_done by blast
  from bind_all_or_nothing [OF b(1)] b show ?thesis by (auto simp: bound_to_def)
qed

end
