(* ===== verification/KeyLocks.thy ===== *)
theory KeyLocks
  imports Prelude
begin

text \<open>
  The lifecycle locks of \<open>internal/gateway/process.go\<close>: a mutex for each process key, made when the first goroutine
  asks for it and dropped with the last. \<open>acquireKeyLock\<close> counts itself in under the manager's lock, waits for the
  mutex outside it, and its release unlocks first and counts itself out afterwards, so every goroutine stands at
  one of three places between its steps. A mutex outlives its entry in the map, so it lives in a heap.
\<close>

record lifecycle_lock =
  lk_held :: bool
  lk_refs :: int

datatype lock_place = LockWaits string nat | LockHeld string nat | LockLeft string nat

record key_locks =
  kl_keys :: "(string, nat) gomap"
  kl_heap :: "lifecycle_lock list"
  kl_threads :: "(nat, lock_place) gomap"

definition no_locks :: key_locks where
  "no_locks = \<lparr>kl_keys = [], kl_heap = [], kl_threads = []\<rparr>"

abbreviation on_lock :: "nat \<Rightarrow> (lifecycle_lock \<Rightarrow> lifecycle_lock) \<Rightarrow> key_locks \<Rightarrow> key_locks" where
  "on_lock r f s \<equiv> s\<lparr>kl_heap := (kl_heap s)[r := f (kl_heap s ! r)]\<rparr>"

abbreviation at_place :: "nat \<Rightarrow> lock_place \<Rightarrow> key_locks \<Rightarrow> key_locks" where
  "at_place t p s \<equiv> s\<lparr>kl_threads := AList.update t p (kl_threads s)\<rparr>"

text \<open>The part of \<open>acquireKeyLock\<close> under the manager's lock.\<close>

definition key_lock_for :: "string \<Rightarrow> key_locks \<Rightarrow> key_locks \<times> nat" where
  "key_lock_for key s = (case map_of (kl_keys s) key of
     Some r \<Rightarrow> (on_lock r (\<lambda>l. l\<lparr>lk_refs := lk_refs l + 1\<rparr>) s, r)
   | None \<Rightarrow> (s\<lparr>kl_heap := kl_heap s @ [\<lparr>lk_held = False, lk_refs = 1\<rparr>],
       kl_keys := AList.update key (length (kl_heap s)) (kl_keys s)\<rparr>, length (kl_heap s)))"

text \<open>The part of the release under the manager's lock.\<close>

definition key_lock_drop :: "string \<Rightarrow> nat \<Rightarrow> key_locks \<Rightarrow> key_locks" where
  "key_lock_drop key r s =
     (let s = on_lock r (\<lambda>l. l\<lparr>lk_refs := lk_refs l - 1\<rparr>) s in
      if lk_refs (kl_heap s ! r) = 0 then s\<lparr>kl_keys := AList.delete key (kl_keys s)\<rparr> else s)"

datatype lock_event = LockEnter nat string | LockTake nat | LockFree nat | LockLeave nat

text \<open>A goroutine that cannot move stays where it is; \<open>None\<close> is a step its program does not have at that place.\<close>

fun lock_move :: "lock_event \<Rightarrow> key_locks \<Rightarrow> key_locks option" where
  "lock_move (LockEnter t key) s =
     (if map_of (kl_threads s) t \<noteq> None then None
      else let (s, r) = key_lock_for key s in Some (at_place t (LockWaits key r) s))"
| "lock_move (LockTake t) s = (case map_of (kl_threads s) t of
     Some (LockWaits key r) \<Rightarrow>
       if lk_held (kl_heap s ! r) then None else Some (at_place t (LockHeld key r) (on_lock r (\<lambda>l. l\<lparr>lk_held := True\<rparr>) s))
   | _ \<Rightarrow> None)"
| "lock_move (LockFree t) s = (case map_of (kl_threads s) t of
     Some (LockHeld key r) \<Rightarrow> Some (at_place t (LockLeft key r) (on_lock r (\<lambda>l. l\<lparr>lk_held := False\<rparr>) s))
   | _ \<Rightarrow> None)"
| "lock_move (LockLeave t) s = (case map_of (kl_threads s) t of
     Some (LockLeft key r) \<Rightarrow> let s = key_lock_drop key r s in Some (s\<lparr>kl_threads := AList.delete t (kl_threads s)\<rparr>)
   | _ \<Rightarrow> None)"

inductive locks_reach :: "key_locks \<Rightarrow> bool" where
  locks_none: "locks_reach no_locks"
| locks_move: "locks_reach s \<Longrightarrow> lock_move e s = Some s' \<Longrightarrow> locks_reach s'"

section \<open>The invariant\<close>

fun place_lock :: "lock_place \<Rightarrow> nat" where
  "place_lock (LockWaits key r) = r"
| "place_lock (LockHeld key r) = r"
| "place_lock (LockLeft key r) = r"

fun place_key :: "lock_place \<Rightarrow> string" where
  "place_key (LockWaits key r) = key"
| "place_key (LockHeld key r) = key"
| "place_key (LockLeft key r) = key"

definition uses :: "nat \<Rightarrow> lock_place \<Rightarrow> int" where
  "uses r p = of_bool (place_lock p = r)"

definition owns :: "nat \<Rightarrow> lock_place \<Rightarrow> int" where
  "owns r p = of_bool (\<exists>key. p = LockHeld key r)"

text \<open>The counts are exact, and whoever is on its way to a lock finds it in the map.\<close>

definition locks_ok :: "key_locks \<Rightarrow> bool" where
  "locks_ok s \<longleftrightarrow> wf_map (kl_threads s)
     \<and> (\<forall>r < length (kl_heap s). lk_refs (kl_heap s ! r) = gsum (uses r) (kl_threads s))
     \<and> (\<forall>r < length (kl_heap s). of_bool (lk_held (kl_heap s ! r)) = gsum (owns r) (kl_threads s))
     \<and> (\<forall>t p. map_of (kl_threads s) t = Some p \<longrightarrow> map_of (kl_keys s) (place_key p) = Some (place_lock p))
     \<and> (\<forall>key r. map_of (kl_keys s) key = Some r \<longrightarrow> r < length (kl_heap s) \<and> 0 < lk_refs (kl_heap s ! r)
         \<and> (\<forall>key'. map_of (kl_keys s) key' = Some r \<longrightarrow> key' = key))"

lemma locks_ok_none: "locks_ok no_locks"
  by (simp add: locks_ok_def no_locks_def)

lemma uses_nonneg [simp]: "0 \<le> uses r p" by (simp add: uses_def)
lemma owns_nonneg [simp]: "0 \<le> owns r p" by (simp add: owns_def)

lemma gsum_member: 
  assumes "wf_map m" and "map_of m k = Some v" and "\<And>v. 0 \<le> f v"
  shows "f v \<le> gsum f m"
proof -
  have "0 \<le> gsum f (AList.delete k m)" by (rule gsum_nonneg) (rule assms(3))
  then show ?thesis by (simp add: gsum_delete [OF assms(1)] assms(2))
qed

lemma gsum_two:
  assumes "wf_map m" and "map_of m k = Some v" and "map_of m k' = Some v'" and "k \<noteq> k'" and "\<And>v. 0 \<le> f v"
  shows "f v + f v' \<le> gsum f m"
proof -
  have "f v' \<le> gsum f (AList.delete k m)"
    by (rule gsum_member [where k = k']) (use assms in auto)
  then show ?thesis by (simp add: gsum_delete [OF assms(1)] assms(2))
qed

lemma gsum_unused:
  assumes "\<And>k v. (k, v) \<in> set m \<Longrightarrow> f v = 0"
  shows "gsum f m = 0"
  using gsum_cong [of m f "\<lambda>v. 0"] assms by (simp add: gsum_def comp_def)

lemma locks_okD:
  assumes "locks_ok s"
  shows "wf_map (kl_threads s)"
    and "r < length (kl_heap s) \<Longrightarrow> lk_refs (kl_heap s ! r) = gsum (uses r) (kl_threads s)"
    and "r < length (kl_heap s) \<Longrightarrow> of_bool (lk_held (kl_heap s ! r)) = gsum (owns r) (kl_threads s)"
    and "map_of (kl_threads s) t = Some p \<Longrightarrow> map_of (kl_keys s) (place_key p) = Some (place_lock p)"
    and "map_of (kl_keys s) key = Some r \<Longrightarrow> r < length (kl_heap s)"
    and "map_of (kl_keys s) key = Some r \<Longrightarrow> 0 < lk_refs (kl_heap s ! r)"
    and "map_of (kl_keys s) key = Some r \<Longrightarrow> map_of (kl_keys s) key' = Some r \<Longrightarrow> key' = key"
  using assms unfolding locks_ok_def by blast+

lemma place_bound:
  assumes "locks_ok s" and "map_of (kl_threads s) t = Some p"
  shows "place_lock p < length (kl_heap s)"
  by (rule locks_okD(5) [OF assms(1) locks_okD(4) [OF assms]])

lemma unused_lock:
  assumes "locks_ok s" and "length (kl_heap s) \<le> r"
  shows "gsum (uses r) (kl_threads s) = 0" and "gsum (owns r) (kl_threads s) = 0"
proof -
  have "place_lock p \<noteq> r" if "(t, p) \<in> set (kl_threads s)" for t p
    using place_bound [OF assms(1)] map_of_in_set [OF locks_okD(1) [OF assms(1)]] that assms(2) by (metis leD)
  then show "gsum (uses r) (kl_threads s) = 0" and "gsum (owns r) (kl_threads s) = 0"
    by (force intro!: gsum_unused simp: uses_def owns_def)+
qed

lemma locks_okI:
  assumes "wf_map (kl_threads s)"
    and "\<And>r. r < length (kl_heap s) \<Longrightarrow> lk_refs (kl_heap s ! r) = gsum (uses r) (kl_threads s)"
    and "\<And>r. r < length (kl_heap s) \<Longrightarrow> of_bool (lk_held (kl_heap s ! r)) = gsum (owns r) (kl_threads s)"
    and "\<And>t p. map_of (kl_threads s) t = Some p \<Longrightarrow> map_of (kl_keys s) (place_key p) = Some (place_lock p)"
    and "\<And>key r. map_of (kl_keys s) key = Some r \<Longrightarrow> r < length (kl_heap s) \<and> 0 < lk_refs (kl_heap s ! r)"
    and "\<And>key key' r. map_of (kl_keys s) key = Some r \<Longrightarrow> map_of (kl_keys s) key' = Some r \<Longrightarrow> key' = key"
  shows "locks_ok s"
  using assms unfolding locks_ok_def by blast

lemma locks_ok_enter:
  assumes ok: "locks_ok s" and t: "map_of (kl_threads s) t = None" and s: "key_lock_for key s = (s', r)"
  shows "locks_ok (at_place t (LockWaits key r) s')"
proof (cases "map_of (kl_keys s) key")
  case None
  then have s': "s' = s\<lparr>kl_heap := kl_heap s @ [\<lparr>lk_held = False, lk_refs = 1\<rparr>], kl_keys := AList.update key (length (kl_heap s)) (kl_keys s)\<rparr>"
    and r: "r = length (kl_heap s)"
    using s by (auto simp: key_lock_for_def)
  have free: "map_of (kl_keys s) k \<noteq> Some (length (kl_heap s))" for k
    using locks_okD(5) [OF ok] by blast
  have other: "place_key p \<noteq> key" if "map_of (kl_threads s) t' = Some p" for t' p
    using locks_okD(4) [OF ok that] None by auto
  show ?thesis unfolding s' r
  proof (rule locks_okI, goal_cases)
    case 1 then show ?case using locks_okD(1) [OF ok] by auto
  next
    case (2 q)
    then show ?case
      using locks_okD(2) [OF ok, of q] unused_lock(1) [OF ok, of q] t by (auto simp: gsum_update uses_def nth_append)
  next
    case (3 q)
    then show ?case
      using locks_okD(3) [OF ok, of q] unused_lock(2) [OF ok, of q] t by (auto simp: gsum_update owns_def nth_append)
  next
    case (4 t' p) then show ?case using other locks_okD(4) [OF ok] by (auto split: if_splits)
  next
    case (5 k q)
    then show ?case using locks_okD(5,6) [OF ok, of k q] by (auto simp: nth_append split: if_splits)
  next
    case (6 k k' q) then show ?case using free locks_okD(7) [OF ok, of k q k'] by (auto split: if_splits)
  qed
next
  case (Some r')
  then have s': "s' = on_lock r (\<lambda>l. l\<lparr>lk_refs := lk_refs l + 1\<rparr>) s" and key: "map_of (kl_keys s) key = Some r"
    using s by (auto simp: key_lock_for_def)
  note bound = locks_okD(5) [OF ok key]
  show ?thesis unfolding s'
  proof (rule locks_okI, goal_cases)
    case 1 then show ?case using locks_okD(1) [OF ok] by auto
  next
    case (2 q)
    then show ?case using locks_okD(2) [OF ok, of q] t bound by (simp add: gsum_update uses_def nth_list_update)
  next
    case (3 q)
    then show ?case using locks_okD(3) [OF ok, of q] t bound by (simp add: gsum_update owns_def nth_list_update)
  next
    case (4 t' p) then show ?case using key locks_okD(4) [OF ok] by (auto split: if_splits)
  next
    case (5 k q)
    then show ?case using locks_okD(5,6) [OF ok, of k q] bound by (simp add: nth_list_update)
  next
    case (6 k k' q) then show ?case using locks_okD(7) [OF ok, of k q k'] by simp
  qed
qed

text \<open>A step that only changes who holds a mutex.\<close>

lemma locks_ok_held:
  assumes ok: "locks_ok s" and t: "map_of (kl_threads s) t = Some p"
    and same: "place_key p' = place_key p" "place_lock p' = place_lock p"
    and held: "of_bool h = of_bool (lk_held (kl_heap s ! place_lock p)) - owns (place_lock p) p + owns (place_lock p) p'"
  shows "locks_ok (at_place t p' (on_lock (place_lock p) (\<lambda>l. l\<lparr>lk_held := h\<rparr>) s))"
proof (rule locks_okI, goal_cases)
  case 1 then show ?case using locks_okD(1) [OF ok] by auto
next
  case (2 q)
  then show ?case using locks_okD(2) [OF ok, of q] t same place_bound [OF ok t]
    by (simp add: gsum_update uses_def nth_list_update)
next
  case (3 q)
  have "owns q p = 0" "owns q p' = 0" if "q \<noteq> place_lock p" using that same by (auto simp: owns_def)
  with 3 show ?case using locks_okD(3) [OF ok, of q] t held place_bound [OF ok t]
    by (cases "q = place_lock p") (simp_all add: gsum_update nth_list_update)
next
  case (4 t' p'') then show ?case using same locks_okD(4) [OF ok] t by (auto split: if_splits)
next
  case (5 k q) then show ?case using locks_okD(5,6) [OF ok, of k q] place_bound [OF ok t] by (simp add: nth_list_update)
next
  case (6 k k' q) then show ?case using locks_okD(7) [OF ok, of k q k'] by simp
qed

lemma locks_ok_leave:
  assumes ok: "locks_ok s" and t: "map_of (kl_threads s) t = Some (LockLeft key r)"
  shows "locks_ok ((key_lock_drop key r s)\<lparr>kl_threads := AList.delete t (kl_threads s)\<rparr>)"
proof -
  note wf = locks_okD(1) [OF ok]
  have bound: "r < length (kl_heap s)" using place_bound [OF ok t] by simp
  have key: "map_of (kl_keys s) key = Some r" using locks_okD(4) [OF ok t] by simp
  define n where "n = lk_refs (kl_heap s ! r) - 1"
  have refs: "n = gsum (uses r) (AList.delete t (kl_threads s))"
    using locks_okD(2) [OF ok bound] t by (simp add: gsum_delete [OF wf] uses_def n_def)
  have nonneg: "0 \<le> n" unfolding refs by (rule gsum_nonneg) simp
  have last: "place_lock p \<noteq> r" if "n = 0" "map_of (AList.delete t (kl_threads s)) t' = Some p" for t' p
    using gsum_member [OF gm.wf_del [OF wf] that(2), of "uses r"] refs that(1) by (auto simp: uses_def)
  have s': "key_lock_drop key r s = s\<lparr>kl_heap := (kl_heap s)[r := (kl_heap s ! r)\<lparr>lk_refs := n\<rparr>],
      kl_keys := (if n = 0 then AList.delete key (kl_keys s) else kl_keys s)\<rparr>"
    using bound by (simp add: key_lock_drop_def Let_def n_def)
  show ?thesis unfolding s'
  proof (rule locks_okI, goal_cases)
    case 1 then show ?case using wf by auto
  next
    case (2 q)
    then show ?case using locks_okD(2) [OF ok, of q] refs t bound
      by (simp add: gsum_delete [OF wf] uses_def nth_list_update)
  next
    case (3 q)
    then show ?case using locks_okD(3) [OF ok, of q] t bound by (simp add: gsum_delete [OF wf] owns_def nth_list_update)
  next
    case (4 t' p)
    then have p: "map_of (kl_threads s) t' = Some p" by (simp split: if_splits)
    have "place_key p \<noteq> key" if "n = 0" using last [OF that, of t' p] 4 locks_okD(4) [OF ok p] key by auto
    then show ?case using locks_okD(4) [OF ok p] by simp
  next
    case (5 k q)
    then have k: "map_of (kl_keys s) k = Some q" by (simp split: if_splits)
    have "n \<noteq> 0" if "q = r" using 5 locks_okD(7) [OF ok key, of k] k that by (auto split: if_splits)
    then show ?case using locks_okD(5,6) [OF ok k] nonneg bound by (auto simp: nth_list_update)
  next
    case (6 k k' q) then show ?case using locks_okD(7) [OF ok, of k q k'] by (simp split: if_splits)
  qed
qed

lemma locks_ok_move:
  assumes ok: "locks_ok s" and move: "lock_move e s = Some s'"
  shows "locks_ok s'"
proof (cases e)
  case (LockEnter t key)
  obtain s1 r where s1: "key_lock_for key s = (s1, r)" by (cases "key_lock_for key s")
  then show ?thesis using move LockEnter locks_ok_enter [OF ok _ s1, of t] by (auto split: if_splits)
next
  case (LockTake t)
  then obtain key r where t: "map_of (kl_threads s) t = Some (LockWaits key r)" and free: "\<not> lk_held (kl_heap s ! r)"
    and s': "s' = at_place t (LockHeld key r) (on_lock r (\<lambda>l. l\<lparr>lk_held := True\<rparr>) s)"
    using move by (auto split: option.splits lock_place.splits if_splits)
  show ?thesis unfolding s' using locks_ok_held [OF ok t, of "LockHeld key r" True] free by (simp add: owns_def)
next
  case (LockFree t)
  then obtain key r where t: "map_of (kl_threads s) t = Some (LockHeld key r)"
    and s': "s' = at_place t (LockLeft key r) (on_lock r (\<lambda>l. l\<lparr>lk_held := False\<rparr>) s)"
    using move by (auto split: option.splits lock_place.splits if_splits)
  have bound: "r < length (kl_heap s)" using place_bound [OF ok t] by simp
  have "1 \<le> (of_bool (lk_held (kl_heap s ! r)) :: int)"
    using gsum_member [OF locks_okD(1) [OF ok] t, of "owns r"] locks_okD(3) [OF ok bound] by (simp add: owns_def)
  then have "lk_held (kl_heap s ! r)" by (cases "lk_held (kl_heap s ! r)") simp_all
  then show ?thesis unfolding s' using locks_ok_held [OF ok t, of "LockLeft key r" False] by (simp add: owns_def)
next
  case (LockLeave t)
  then obtain key r where t: "map_of (kl_threads s) t = Some (LockLeft key r)"
    and s': "s' = (key_lock_drop key r s)\<lparr>kl_threads := AList.delete t (kl_threads (key_lock_drop key r s))\<rparr>"
    using move by (auto simp: Let_def split: option.splits lock_place.splits)
  have "kl_threads (key_lock_drop key r s) = kl_threads s" by (simp add: key_lock_drop_def Let_def)
  then show ?thesis unfolding s' using locks_ok_leave [OF ok t] by simp
qed

lemma locks_reach_ok: "locks_reach s \<Longrightarrow> locks_ok s"
  by (induction rule: locks_reach.induct) (auto intro: locks_ok_none locks_ok_move)

section \<open>Properties\<close>

lemma one_holder:
  assumes ok: "locks_ok s" and t: "map_of (kl_threads s) t = Some (LockHeld key r)"
    and u: "map_of (kl_threads s) u = Some (LockHeld key r')"
  shows "t = u"
proof (rule ccontr)
  assume "t \<noteq> u"
  have r: "r' = r" using locks_okD(4) [OF ok t] locks_okD(4) [OF ok u] by simp
  have "2 \<le> gsum (owns r) (kl_threads s)"
    using gsum_two [OF locks_okD(1) [OF ok] t u \<open>t \<noteq> u\<close>, of "owns r"] r by (simp add: owns_def)
  then show False using locks_okD(3) [OF ok, of r] place_bound [OF ok t] by (cases "lk_held (kl_heap s ! r)") simp_all
qed

lemma key_used:
  assumes ok: "locks_ok s" and key: "map_of (kl_keys s) key = Some r"
  shows "\<exists>t p. map_of (kl_threads s) t = Some p \<and> place_lock p = r"
proof (rule ccontr)
  assume no: "\<nexists>t p. map_of (kl_threads s) t = Some p \<and> place_lock p = r"
  have "gsum (uses r) (kl_threads s) = 0"
    using no map_of_in_set [OF locks_okD(1) [OF ok]] by (intro gsum_unused) (auto simp: uses_def)
  then show False using locks_okD(2) [OF ok locks_okD(5) [OF ok key]] locks_okD(6) [OF ok key] by simp
qed

lemma holder_exists:
  assumes ok: "locks_ok s" and r: "r < length (kl_heap s)" and held: "lk_held (kl_heap s ! r)"
  shows "\<exists>t key. map_of (kl_threads s) t = Some (LockHeld key r)"
proof (rule ccontr)
  assume no: "\<nexists>t key. map_of (kl_threads s) t = Some (LockHeld key r)"
  have "gsum (owns r) (kl_threads s) = 0"
    using no map_of_in_set [OF locks_okD(1) [OF ok]] by (intro gsum_unused) (auto simp: owns_def)
  then show False using locks_okD(3) [OF ok r] held by simp
qed

text \<open>C23: Whatever goroutines come and go, at most one holds the lifecycle lock of a process key, although locks are made
  and dropped all the time and each release unlocks before it counts itself out. One that waits can take the lock
  unless another holds it for the same key, so no lock is lost; and the map never leaks: a key is in it only while a
  goroutine waits for, holds or is leaving its lock.\<close>

theorem key_lock_exclusive:
  assumes "locks_reach s"
  shows "(\<forall>t u key r r'. map_of (kl_threads s) t = Some (LockHeld key r) \<and> map_of (kl_threads s) u = Some (LockHeld key r') \<longrightarrow> t = u)
     \<and> (\<forall>t key r. map_of (kl_threads s) t = Some (LockWaits key r) \<longrightarrow>
          lock_move (LockTake t) s \<noteq> None \<or> (\<exists>u. map_of (kl_threads s) u = Some (LockHeld key r)))
     \<and> (\<forall>key \<in> fst ` set (kl_keys s). \<exists>t p. map_of (kl_threads s) t = Some p \<and> place_key p = key)"
proof (intro conjI ballI allI impI)
  note ok = locks_reach_ok [OF assms]
  show "t = u" if "map_of (kl_threads s) t = Some (LockHeld key r) \<and> map_of (kl_threads s) u = Some (LockHeld key r')" for t u key r r'
    using one_holder [OF ok] that by blast
  show "lock_move (LockTake t) s \<noteq> None \<or> (\<exists>u. map_of (kl_threads s) u = Some (LockHeld key r))"
    if t: "map_of (kl_threads s) t = Some (LockWaits key r)" for t key r
  proof (cases "lk_held (kl_heap s ! r)")
    case True
    then obtain u key' where u: "map_of (kl_threads s) u = Some (LockHeld key' r)"
      using holder_exists [OF ok, of r] place_bound [OF ok t] by (metis place_lock.simps(1))
    have "key' = key" using locks_okD(4) [OF ok u] locks_okD(4) [OF ok t] locks_okD(7) [OF ok] by simp
    with u show ?thesis by blast
  qed (use t in simp)
  fix key assume "key \<in> fst ` set (kl_keys s)"
  then obtain r where key: "map_of (kl_keys s) key = Some r" by (metis map_of_eq_None_iff not_Some_eq)
  obtain t p where p: "map_of (kl_threads s) t = Some p" "place_lock p = r" using key_used [OF ok key] by blast
  then have "place_key p = key" using locks_okD(4) [OF ok p(1)] locks_okD(7) [OF ok key] by simp
  with p show "\<exists>t p. map_of (kl_threads s) t = Some p \<and> place_key p = key" by blast
qed

fun lock_moves :: "lock_event list \<Rightarrow> key_locks \<Rightarrow> key_locks option" where
  "lock_moves [] s = Some s"
| "lock_moves (e # es) s = Option.bind (lock_move e s) (lock_moves es)"

lemma lock_moves_reach: "locks_reach s \<Longrightarrow> lock_moves es s = Some s' \<Longrightarrow> locks_reach s'"
proof (induction es arbitrary: s)
  case (Cons e es)
  then obtain s1 where "lock_move e s = Some s1" "lock_moves es s1 = Some s'" by (auto split: Option.bind_splits)
  then show ?case using Cons.IH Cons.prems(1) locks_move by blast
qed simp

text \<open>Two goroutines at one key and a third at another; the first has unlocked, and the second has the lock.\<close>

definition contended :: "lock_event list" where
  "contended = [LockEnter 1 ''a'', LockTake 1, LockEnter 2 ''a'', LockEnter 3 ''b'', LockFree 1, LockTake 2, LockLeave 1]"

definition contended_locks :: key_locks where
  "contended_locks = \<lparr>kl_keys = [(''a'', 0), (''b'', 1)], kl_heap = [\<lparr>lk_held = True, lk_refs = 1\<rparr>, \<lparr>lk_held = False, lk_refs = 1\<rparr>],
     kl_threads = [(2, LockHeld ''a'' 0), (3, LockWaits ''b'' 1)]\<rparr>"

lemma contended_run: "lock_moves contended no_locks = Some contended_locks"
  by (simp add: contended_def no_locks_def contended_locks_def key_lock_for_def key_lock_drop_def AList.delete_eq)

lemma key_lock_exclusive_witness:
  "lock_moves contended no_locks = Some contended_locks \<and> map_of (kl_threads contended_locks) 2 = Some (LockHeld ''a'' 0)
   \<and> lock_move (LockTake 3) contended_locks \<noteq> None"
proof -
  have r: "locks_reach contended_locks" by (rule lock_moves_reach [OF locks_none contended_run])
  have w: "map_of (kl_threads contended_locks) 3 = Some (LockWaits ''b'' 1)" by (simp add: contended_locks_def)
  have "lock_move (LockTake 3) contended_locks \<noteq> None \<or> (\<exists>u. map_of (kl_threads contended_locks) u = Some (LockHeld ''b'' 1))"
    using key_lock_exclusive [OF r] w by blast
  moreover have "\<nexists>u. map_of (kl_threads contended_locks) u = Some (LockHeld ''b'' 1)" by (simp add: contended_locks_def)
  moreover have "map_of (kl_threads contended_locks) 2 = Some (LockHeld ''a'' 0)" by (simp add: contended_locks_def)
  ultimately show ?thesis using contended_run by blast
qed

end
