(* ===== verification/ProcessManager.thy ===== *)
theory ProcessManager
  imports Takeover Admission KeyLocks
begin

text \<open>
  The processes of the manager, \<open>internal/gateway/process.go\<close> and \<open>process_lifecycle.go\<close>: the map from process
  keys to running children, how one is found, started, replaced, retired when idle and restarted after a crash,
  and the context that ends what is being sent for it. A process has an address, as the code compares pointers:
  one that was removed lives on until its goroutines are done. An operation that holds the lifecycle lock of its
  key is one step; \<open>KeyLocks\<close> shows that no other such operation runs meanwhile.
\<close>

section \<open>The tail of an output\<close>

record tail_buffer =
  tb_buf :: string
  tb_cap :: int

definition newTailBuffer :: "int \<Rightarrow> tail_buffer" where
  "newTailBuffer capacity = \<lparr>tb_buf = '''', tb_cap = (if capacity \<le> 0 then 32 * 1024 else capacity)\<rparr>"

definition tail_Write :: "string \<Rightarrow> tail_buffer \<Rightarrow> tail_buffer" where
  "tail_Write p t =
     (if tb_cap t \<le> int (length p) then t\<lparr>tb_buf := drop (nat (int (length p) - tb_cap t)) p\<rparr>
      else let need = int (length (tb_buf t)) + int (length p) - tb_cap t;
               t = (if 0 < need then t\<lparr>tb_buf := drop (nat need) (tb_buf t)\<rparr> else t) in
        t\<lparr>tb_buf := tb_buf t @ p\<rparr>)"

definition last_bytes :: "int \<Rightarrow> string \<Rightarrow> string" where
  "last_bytes n s = drop (nat (int (length s) - n)) s"

lemma tail_Write_last:
  assumes "0 \<le> tb_cap t" and "tb_buf t = last_bytes (tb_cap t) w"
  shows "tail_Write p t = t\<lparr>tb_buf := last_bytes (tb_cap t) (w @ p)\<rparr>"
proof (cases "tb_cap t \<le> int (length p)")
  case True
  have "nat (int (length w + length p) - tb_cap t) = length w + nat (int (length p) - tb_cap t)" using True by simp
  with True show ?thesis by (simp add: tail_Write_def last_bytes_def)
next
  case False
  then have "nat (int (length w + length p) - tb_cap t) - length w = 0" by simp
  moreover have "nat (int (length (tb_buf t)) + int (length p) - tb_cap t) + nat (int (length w) - tb_cap t)
      = nat (int (length w + length p) - tb_cap t)"
    using False assms(1) unfolding assms(2) last_bytes_def length_drop by arith
  ultimately show ?thesis
    using False assms(2) by (auto simp: tail_Write_def last_bytes_def Let_def drop_drop)
qed

lemma tail_writes_last:
  assumes "0 \<le> tb_cap t" and "tb_buf t = last_bytes (tb_cap t) w"
  shows "tb_buf (fold tail_Write ps t) = last_bytes (tb_cap t) (w @ concat ps) \<and> tb_cap (fold tail_Write ps t) = tb_cap t"
  using assms by (induction ps arbitrary: t w) (simp_all add: tail_Write_last)

text \<open>However the output of a child arrives in pieces, the buffer holds exactly its last bytes: all of it up to the
  capacity, which is 32 KiB when none is given, and never more.\<close>

theorem tail_is_tail:
  "tb_buf (fold tail_Write ps (newTailBuffer n)) = last_bytes (if n \<le> 0 then 32768 else n) (concat ps)
   \<and> int (length (tb_buf (fold tail_Write ps (newTailBuffer n)))) = min (int (length (concat ps))) (if n \<le> 0 then 32768 else n)"
proof -
  have "tb_buf (fold tail_Write ps (newTailBuffer n)) = last_bytes (if n \<le> 0 then 32768 else n) (concat ps)"
    using tail_writes_last [of "newTailBuffer n" "[]" ps] by (auto simp: newTailBuffer_def last_bytes_def)
  then show ?thesis by (simp add: last_bytes_def)
qed

section \<open>State\<close>

text \<open>
  A process with what the manager keeps about its child: whether there is one, the gate and lease its binding had
  when it was started, the context of its deliveries (none before the first; true: cancelled), and whether it was
  told to end. \<open>cm_idle\<close> are the processes the idle loop has taken out and not ended yet.
\<close>

record runtime =
  rt_process :: chord_process
  rt_cmd :: bool
  rt_gate :: "chat_identity option"
  rt_lease :: "nat option"
  rt_delivery :: "bool option"
  rt_terminated :: bool
  rt_exitCode :: int
  rt_stderr :: tail_buffer

record chord_manager =
  cm_procs :: "(string, nat) gomap"
  cm_heap :: "runtime list"
  cm_idle :: "nat list"
  cm_shuttingDown :: bool
  cm_transfers :: transfer_store
  cm_disk :: transfer_disk
  cm_pins :: "pin_store option"

text \<open>What an operation finds around the manager, and how the operating system answers a start.\<close>

record spawn_env =
  sv_config :: "gateway_config option"
  sv_admission :: "admission option"
  sv_started :: "(gotime \<times> string) option"
  sv_random :: string
  sv_transfer :: takeover_env

datatype manager_error = MgrStopping | MgrTransferred | MgrUnresolved | MgrBadKey | MgrNoWorkspace | MgrSpawnFailed

abbreviation on_runtime :: "nat \<Rightarrow> (runtime \<Rightarrow> runtime) \<Rightarrow> chord_manager \<Rightarrow> chord_manager" where
  "on_runtime r f m \<equiv> m\<lparr>cm_heap := (cm_heap m)[r := f (cm_heap m ! r)]\<rparr>"

definition process_at :: "nat \<Rightarrow> chord_manager \<Rightarrow> chord_process" where
  "process_at r m = rt_process (cm_heap m ! r)"

definition binding_of :: "chord_process option \<Rightarrow> chord_manager \<Rightarrow> binding" where
  "binding_of p m = \<lparr>bg_process = p, bg_transfers = cm_transfers m, bg_disk = cm_disk m, bg_pins = cm_pins m,
     bg_shuttingDown = cm_shuttingDown m\<rparr>"

definition put_guards :: "binding \<Rightarrow> chord_manager \<Rightarrow> chord_manager" where
  "put_guards b m = m\<lparr>cm_transfers := bg_transfers b, cm_disk := bg_disk b, cm_pins := bg_pins b\<rparr>"

definition GetProcessForKey :: "string \<Rightarrow> chord_manager \<Rightarrow> nat option" where
  "GetProcessForKey key m = map_of (cm_procs m) key"

definition runtime_alive :: "runtime \<Rightarrow> bool" where
  "runtime_alive rt \<longleftrightarrow> rt_cmd rt \<and> px_alive (rt_process rt)"

section \<open>Ending a process\<close>

definition cancelDelivery :: "runtime \<Rightarrow> runtime" where
  "cancelDelivery rt = (if rt_delivery rt \<noteq> None then rt\<lparr>rt_delivery := Some True\<rparr> else rt)"

text \<open>The removal all operations share: what is being sent for the process ends with it.\<close>

definition drop_runtime :: "string \<Rightarrow> nat \<Rightarrow> chord_manager \<Rightarrow> chord_manager" where
  "drop_runtime key r m = (on_runtime r cancelDelivery m)\<lparr>cm_procs := AList.delete key (cm_procs m)\<rparr>"

definition removeProcessIfCurrent :: "string \<Rightarrow> nat \<Rightarrow> chord_manager \<Rightarrow> chord_manager" where
  "removeProcessIfCurrent key r m = (if GetProcessForKey key m = Some r then drop_runtime key r m else m)"

definition stopped_process :: "chord_process \<Rightarrow> chord_process" where
  "stopped_process p = (abandonPendingInputs (p\<lparr>px_stoppedByGateway := True\<rparr>))\<lparr>px_stdin := False\<rparr>"

text \<open>\<open>TerminateGroup\<close>, which acts once; the signals to the process group follow and change nothing here.\<close>

definition TerminateGroup :: "takeover_env \<Rightarrow> nat \<Rightarrow> chord_manager \<Rightarrow> chord_manager" where
  "TerminateGroup e r m =
     (if rt_terminated (cm_heap m ! r) then m
      else let p = process_at r m; m = put_guards (markTransferInterrupted e (px_key p) p (binding_of (Some p) m)) m in
        on_runtime r (\<lambda>rt. rt\<lparr>rt_terminated := True, rt_process := stopped_process (rt_process rt)\<rparr>) m)"

text \<open>\<open>handleExit\<close> up to the wait for the child, at a time given as text: the process, and whether it may be restarted.\<close>

definition session_locked :: "string \<Rightarrow> bool" where
  "session_locked stderr \<longleftrightarrow> (\<exists>n \<in> {0..<Suc (length stderr)}. take 20 (drop n stderr) = ''acquire session lock'')"

definition exited_process :: "string \<Rightarrow> chord_process \<Rightarrow> chord_process" where
  "exited_process now p =
     (let p = on_state (\<lambda>s. resetTurnWindow (setAgentBusy False (s\<lparr>st_PendingLocalShells := 0, st_LocalShellStartedAt := 0\<rparr>)))
                (p\<lparr>px_readyClosed := True\<rparr>) in
      (on_state (\<lambda>s. s\<lparr>st_RunningJobs := 0, st_UpdatedAt := now\<rparr>) (abandonPendingInputs p))\<lparr>px_stdin := False\<rparr>)"

definition exit_begin :: "string \<Rightarrow> nat \<Rightarrow> chord_manager \<Rightarrow> chord_manager \<times> bool" where
  "exit_begin now r m =
     (let p = process_at r m in
      (on_runtime r (\<lambda>rt. rt\<lparr>rt_process := exited_process now (rt_process rt)\<rparr>) m,
       px_autoRestart p \<and> \<not> px_stoppedByGateway p \<and> \<not> session_locked (tb_buf (rt_stderr (cm_heap m ! r)))))"

definition waitAndRecordExit :: "int \<Rightarrow> runtime \<Rightarrow> runtime" where
  "waitAndRecordExit code rt =
     (if px_exited (rt_process rt) then rt else rt\<lparr>rt_process := (rt_process rt)\<lparr>px_exited := True\<rparr>, rt_exitCode := code\<rparr>)"

text \<open>The rest: the exit is recorded, and a process that ended in a transfer is not restarted.\<close>

definition exit_end :: "takeover_env \<Rightarrow> int \<Rightarrow> nat \<Rightarrow> bool \<Rightarrow> chord_manager \<Rightarrow> chord_manager \<times> bool" where
  "exit_end e code r restart m =
     (let m = on_runtime r (waitAndRecordExit code) m; p = process_at r m;
          (b, guarded) = recordTransferExit e (px_key p) (GetProcessForKey (px_key p) m = Some r) (rt_exitCode (cm_heap m ! r)) p
            (binding_of (Some p) m) in
      (put_guards b m, restart \<and> \<not> guarded))"

section \<open>Starting a process\<close>

definition spawnArgsForKey :: "string \<Rightarrow> chord_manager \<Rightarrow> string list" where
  "spawnArgsForKey key m = (case cm_pins m of None \<Rightarrow> []
     | Some s \<Rightarrow> let sid = trim_space (pins_Get key s) in if sid = '''' then [] else [''--resume'', sid])"

text \<open>The gate of the binding, and the lease it has now.\<close>

definition spawn_identity :: "gateway_config \<Rightarrow> string \<Rightarrow> chat_identity option" where
  "spawn_identity cfg key =
     (let k = parseProcessKey key in
      if pk_imType k = ''console'' then Some (ChatIdentity ''console'' '''' (pk_chatID k))
      else case IMConfigByType cfg (pk_imType k) of None \<Rightarrow> None
      | Some ad \<Rightarrow> map_option (\<lambda>ow. ChatIdentity (pk_imType k) (ow_AccountID ow) (pk_chatID k)) (OwnerIdentity ad))"

definition spawn_gate :: "spawn_env \<Rightarrow> gateway_config \<Rightarrow> string \<Rightarrow> chat_identity option \<times> nat option" where
  "spawn_gate v cfg key = (case sv_admission v of None \<Rightarrow> (None, None)
     | Some a \<Rightarrow> (case spawn_identity cfg key of None \<Rightarrow> (None, None)
       | Some i \<Rightarrow> (case map_of (adm_gates a) i of None \<Rightarrow> (None, None) | Some g \<Rightarrow> (Some i, cg_lease g))))"

definition start_runtime :: "spawn_env \<Rightarrow> gateway_config \<Rightarrow> string \<Rightarrow> string list \<Rightarrow> chord_manager
    \<Rightarrow> chord_manager \<times> (manager_error + nat option)" where
  "start_runtime v cfg key args m =
     (let (b, ok) = spawn_binding key (sv_random v) args (sv_started v) (binding_of None m); (gate, lease) = spawn_gate v cfg key in
      case bg_process b of None \<Rightarrow> (m, Inl MgrSpawnFailed)
      | Some p \<Rightarrow>
          (m\<lparr>cm_heap := cm_heap m @ [\<lparr>rt_process = p, rt_cmd = True, rt_gate = gate, rt_lease = lease, rt_delivery = None,
                rt_terminated = False, rt_exitCode = 0, rt_stderr = newTailBuffer (64 * 1024)\<rparr>],
             cm_procs := AList.update key (length (cm_heap m)) (cm_procs m)\<rparr>, Inr (Some (length (cm_heap m)))))"

definition stop_current :: "takeover_env \<Rightarrow> string \<Rightarrow> chord_manager \<Rightarrow> chord_manager" where
  "stop_current e key m = (case GetProcessForKey key m of None \<Rightarrow> m | Some r \<Rightarrow> TerminateGroup e r (drop_runtime key r m))"

definition spawnWithArgsForKeyLocked :: "spawn_env \<Rightarrow> string \<Rightarrow> string list \<Rightarrow> chord_manager \<Rightarrow> chord_manager \<times> (manager_error + nat option)" where
  "spawnWithArgsForKeyLocked v key args m =
     (let m = stop_current (sv_transfer v) key m; ws = pk_workspaceID (parseProcessKey key) in
      if ws = '''' then (m, Inl MgrBadKey)
      else case sv_config v of None \<Rightarrow> (m, Inl MgrNoWorkspace)
      | Some cfg \<Rightarrow> if WorkspaceByID cfg ws = None then (m, Inl MgrNoWorkspace) else start_runtime v cfg key args m)"

definition spawnWithArgsForKeyChatLocked :: "spawn_env \<Rightarrow> string \<Rightarrow> string list \<Rightarrow> chord_manager \<Rightarrow> chord_manager \<times> (manager_error + nat option)" where
  "spawnWithArgsForKeyChatLocked v key args m =
     (if cm_shuttingDown m then (m, Inl MgrStopping)
      else if Blocked key (Some (cm_transfers m)) then (m, Inl MgrTransferred)
      else spawnWithArgsForKeyLocked v key args m)"

text \<open>A process that is gone may only be replaced here when it left nothing unresolved.\<close>

definition spawn_fresh :: "spawn_env \<Rightarrow> string \<Rightarrow> chord_manager \<Rightarrow> chord_manager \<times> (manager_error + nat option)" where
  "spawn_fresh v key m =
     (let ws = pk_workspaceID (parseProcessKey key) in
      if ws = '''' then (m, Inl MgrBadKey)
      else if (case sv_config v of None \<Rightarrow> True | Some cfg \<Rightarrow> WorkspaceByID cfg ws = None) then (m, Inr None)
      else spawnWithArgsForKeyLocked v key (spawnArgsForKey key m) m)"

definition getOrSpawnForKeyChatLocked :: "spawn_env \<Rightarrow> string \<Rightarrow> chord_manager \<Rightarrow> chord_manager \<times> (manager_error + nat option)" where
  "getOrSpawnForKeyChatLocked v key m =
     (if cm_shuttingDown m then (m, Inl MgrStopping)
      else if Blocked key (Some (cm_transfers m)) then (m, Inl MgrTransferred)
      else case GetProcessForKey key m of
        None \<Rightarrow> spawn_fresh v key m
      | Some r \<Rightarrow>
          let rt = cm_heap m ! r in
          if inputBlocked (rt_process rt) then (m, Inl MgrTransferred)
          else if runtime_alive rt \<or> \<not> rt_cmd rt \<and> px_stdin (rt_process rt) then (m, Inr (Some r))
          else if hasGuardedInputs (rt_process rt) then (m, Inl MgrUnresolved)
          else spawn_fresh v key (removeProcessIfCurrent key r m))"

text \<open>The restart after a crash and its delay: only for the process that is still there, under the lease it was started with.\<close>

definition restart_allowed :: "admission option \<Rightarrow> runtime \<Rightarrow> bool" where
  "restart_allowed a rt \<longleftrightarrow> (case rt_gate rt of None \<Rightarrow> True
     | Some i \<Rightarrow> (case Option.bind a (\<lambda>a. map_option (Pair a) (map_of (adm_gates a) i)) of None \<Rightarrow> False
       | Some (a, g) \<Rightarrow> (case rt_lease rt of None \<Rightarrow> False
         | Some l \<Rightarrow> cg_lease g = Some l \<and> cg_phase g = PhaseActive \<and> \<not> bl_cancelled (adm_heap a ! l))))"

definition auto_restart :: "spawn_env \<Rightarrow> nat \<Rightarrow> chord_manager \<Rightarrow> chord_manager" where
  "auto_restart v r m =
     (let rt = cm_heap m ! r; key = px_key (rt_process rt) in
      if \<not> restart_allowed (sv_admission v) rt \<or> GetProcessForKey key m \<noteq> Some r then m
      else fst (getOrSpawnForKeyChatLocked v key m))"

section \<open>Stopping\<close>

definition stopProcessKeyChatLocked :: "takeover_env \<Rightarrow> string \<Rightarrow> chord_manager \<Rightarrow> chord_manager" where
  "stopProcessKeyChatLocked e key m = stop_current e key m"

definition requestShutdown :: "chord_manager \<Rightarrow> chord_manager" where
  "requestShutdown m = m\<lparr>cm_shuttingDown := True\<rparr>"

text \<open>\<open>StopAll\<close> after it has the gate of all operations.\<close>

definition stop_all :: "takeover_env \<Rightarrow> chord_manager \<Rightarrow> chord_manager" where
  "stop_all e m =
     (let rs = map snd (cm_procs m); m = (fold (\<lambda>r. on_runtime r cancelDelivery) rs m)\<lparr>cm_procs := []\<rparr> in
      fold (TerminateGroup e) rs m)"

text \<open>
  A stream of a child that fails: \<open>readLoop\<close> ends the process, which stays where it is until its exit is handled.
\<close>

definition read_failed :: "takeover_env \<Rightarrow> nat \<Rightarrow> chord_manager \<Rightarrow> chord_manager" where
  "read_failed e r m = (if px_stoppedByGateway (process_at r m) then m else TerminateGroup e r m)"

text \<open>
  \<open>StopAndWait\<close> of \<open>process_binding_stop.go\<close>, which a switch of the binding or a change of the account uses: the signals
  and the wait follow, and only a switch whose wait was confirmed takes the process out.
\<close>

definition stopped_runtime :: "runtime \<Rightarrow> runtime" where
  "stopped_runtime rt =
     (let p = (rt_process rt)\<lparr>px_stoppedByGateway := True, px_autoRestart := False\<rparr> in
      if \<not> rt_cmd rt \<or> rt_terminated rt then rt\<lparr>rt_process := p\<rparr>
      else rt\<lparr>rt_process := p\<lparr>px_stdin := False\<rparr>, rt_terminated := True\<rparr>)"

definition StopAndWait :: "nat \<Rightarrow> chord_manager \<Rightarrow> chord_manager" where
  "StopAndWait r m = on_runtime r stopped_runtime m"

definition stop_confirmed :: "string \<Rightarrow> nat \<Rightarrow> chord_manager \<Rightarrow> chord_manager" where
  "stop_confirmed key r m = (if \<not> runtime_alive (cm_heap m ! r) then removeProcessIfCurrent key r m else m)"

text \<open>The end of a process that was started for a session and did not take it.\<close>

definition discard_started :: "takeover_env \<Rightarrow> string \<Rightarrow> nat \<Rightarrow> chord_manager \<Rightarrow> chord_manager" where
  "discard_started e key r m = TerminateGroup e r (removeProcessIfCurrent key r m)"

section \<open>The idle loop\<close>

definition idle_process :: "duration \<Rightarrow> gotime \<Rightarrow> chord_process \<Rightarrow> bool" where
  "idle_process timeout now p \<longleftrightarrow> \<not> inputBlocked p \<and> \<not> hasGuardedInputs p \<and> st_RunningJobs (px_state p) = 0
     \<and> st_PendingLocalShells (px_state p) = 0 \<and> timeout < time_sub now (px_lastActivity p)"

text \<open>
  \<open>collectIdleProcesses\<close>: the look at every process, with the answers to the refresh of those that have been quiet,
  and then the second look at one candidate, under both locks, that takes it out.
\<close>

definition idle_candidates :: "(nat \<Rightarrow> bool) \<Rightarrow> duration \<Rightarrow> gotime \<Rightarrow> chord_manager \<Rightarrow> nat list" where
  "idle_candidates refreshed timeout now m = filter (\<lambda>r. let p = process_at r m in
     (inputBlocked p \<or> time_sub now (px_lastActivity p) \<le> timeout \<or> refreshed r) \<and> idle_process timeout now p) (map snd (cm_procs m))"

definition collect_idle :: "duration \<Rightarrow> gotime \<Rightarrow> nat \<Rightarrow> chord_manager \<Rightarrow> chord_manager" where
  "collect_idle timeout now r m =
     (let p = process_at r m in
      if idle_process timeout now p \<and> GetProcessForKey (px_key p) m = Some r
      then (drop_runtime (px_key p) r m)\<lparr>cm_idle := cm_idle m @ [r]\<rparr> else m)"

text \<open>The turn of one collected process in \<open>IdleCheckLoop\<close>; what it still waited for has expired.\<close>

definition expire_pending :: "string \<Rightarrow> chord_process \<Rightarrow> chord_process" where
  "expire_pending now p = (let s = px_state p in
     if st_PendingConfirm s \<noteq> None \<or> 0 < pendingQuestionCount s \<or> st_PendingHandoff s \<noteq> None
     then on_state (transitionToIdle now now True) p else p)"

definition stop_idle :: "takeover_env \<Rightarrow> string \<Rightarrow> chord_manager \<Rightarrow> chord_manager" where
  "stop_idle e now m = (case cm_idle m of [] \<Rightarrow> m
     | r # rs \<Rightarrow> TerminateGroup e r (on_runtime r (\<lambda>rt. rt\<lparr>rt_process := expire_pending now (rt_process rt)\<rparr>) (m\<lparr>cm_idle := rs\<rparr>)))"

end
