(* ===== verification/ManagerProps.thy ===== *)
theory ManagerProps
  imports ProcessManager TakeoverProps
begin

text \<open>
  Every run of the manager: its operations in any order, whatever the children write meanwhile. No live child is
  ever lost, the map names processes that belong to their keys, what is being sent ends with its process, and what a
  process leaves unresolved is never discarded by an operation nobody asked for.
\<close>

section \<open>Operations\<close>

datatype manager_op =
    MFind spawn_env string
  | MSpawn spawn_env string "string list"
  | MStop string
  | MShutdown
  | MStopAll
  | MExitBegin string nat
  | MExitEnd int nat bool
  | MRestart spawn_env nat
  | MIdle duration gotime nat
  | MIdleStop string
  | MDeliver string
  | MProcess nat chord_process
  | MReadFailed nat
  | MReap int nat
  | MStopAndWait nat
  | MStopConfirmed string nat
  | MReplace spawn_env string "string list"
  | MDiscard string nat

text \<open>The first send for a process makes the context that ends it.\<close>

definition open_delivery :: "runtime \<Rightarrow> runtime" where
  "open_delivery rt = (if rt_delivery rt = None then rt\<lparr>rt_delivery := Some False\<rparr> else rt)"

text \<open>
  What envelopes, sends and receipts may do to a process: anything but change whose it is, forget an exit or a stop, or
  open its input again.
\<close>

definition same_identity :: "chord_process \<Rightarrow> chord_process \<Rightarrow> bool" where
  "same_identity p q \<longleftrightarrow> px_key q = px_key p \<and> px_bindingInstanceID q = px_bindingInstanceID p \<and> px_exited q = px_exited p
     \<and> (px_stdin q \<longrightarrow> px_stdin p) \<and> (px_stoppedByGateway p \<longrightarrow> px_stoppedByGateway q)"

fun manager_step :: "takeover_env \<Rightarrow> manager_op \<Rightarrow> chord_manager \<Rightarrow> chord_manager" where
  "manager_step e (MFind v key) m = fst (getOrSpawnForKeyChatLocked v key m)"
| "manager_step e (MSpawn v key args) m = fst (spawnWithArgsForKeyChatLocked v key args m)"
| "manager_step e (MStop key) m = stopProcessKeyChatLocked e key m"
| "manager_step e MShutdown m = requestShutdown m"
| "manager_step e MStopAll m = (if cm_shuttingDown m then stop_all e m else m)"
| "manager_step e (MExitBegin now r) m = (if r < length (cm_heap m) then fst (exit_begin now r m) else m)"
| "manager_step e (MExitEnd code r restart) m = (if r < length (cm_heap m) then fst (exit_end e code r restart m) else m)"
| "manager_step e (MRestart v r) m = (if r < length (cm_heap m) then auto_restart v r m else m)"
| "manager_step e (MIdle timeout now r) m = (if r < length (cm_heap m) then collect_idle timeout now r m else m)"
| "manager_step e (MIdleStop now) m = stop_idle e now m"
| "manager_step e (MDeliver key) m = (case GetProcessForKey key m of None \<Rightarrow> m | Some r \<Rightarrow> on_runtime r open_delivery m)"
| "manager_step e (MProcess r q) m =
     (if r < length (cm_heap m) \<and> same_identity (process_at r m) q \<and> receipts_ok q
      then on_runtime r (\<lambda>rt. rt\<lparr>rt_process := q\<rparr>) m else m)"
| "manager_step e (MReadFailed r) m = (if r < length (cm_heap m) then read_failed e r m else m)"
| "manager_step e (MReap code r) m = (if r < length (cm_heap m) then on_runtime r (waitAndRecordExit code) m else m)"
| "manager_step e (MStopAndWait r) m = (if r < length (cm_heap m) then StopAndWait r m else m)"
| "manager_step e (MStopConfirmed key r) m = stop_confirmed key r m"
| "manager_step e (MReplace v key args) m = fst (spawnWithArgsForKeyLocked v key args m)"
| "manager_step e (MDiscard key r) m = (if r < length (cm_heap m) then discard_started e key r m else m)"

definition new_manager :: "transfer_store \<Rightarrow> transfer_disk \<Rightarrow> pin_store option \<Rightarrow> chord_manager" where
  "new_manager s d pins = \<lparr>cm_procs = [], cm_heap = [], cm_idle = [], cm_shuttingDown = False, cm_transfers = s, cm_disk = d, cm_pins = pins\<rparr>"

inductive manager_reach :: "chord_manager \<Rightarrow> bool" where
  manager_new: "manager_reach (new_manager s d pins)"
| manager_steps: "manager_reach m \<Longrightarrow> manager_reach (manager_step e op m)"

section \<open>What operations leave of a process\<close>

definition evolves :: "chord_process \<Rightarrow> chord_process \<Rightarrow> bool" where
  "evolves p q \<longleftrightarrow> px_key q = px_key p \<and> px_bindingInstanceID q = px_bindingInstanceID p
     \<and> (px_exited p \<longrightarrow> px_exited q) \<and> (receipts_ok p \<longrightarrow> receipts_ok q)
     \<and> (px_stdin q \<longrightarrow> px_stdin p) \<and> (px_stoppedByGateway p \<longrightarrow> px_stoppedByGateway q)"

lemma queueInputReceipt_identity:
  "px_key (queueInputReceipt i s t p) = px_key p \<and> px_bindingInstanceID (queueInputReceipt i s t p) = px_bindingInstanceID p
   \<and> px_exited (queueInputReceipt i s t p) = px_exited p \<and> px_stoppedByGateway (queueInputReceipt i s t p) = px_stoppedByGateway p
   \<and> st_PausedInputs (px_state (queueInputReceipt i s t p)) = st_PausedInputs (px_state p)
   \<and> st_InputQueue (px_state (queueInputReceipt i s t p)) = st_InputQueue (px_state p)"
  by (simp add: queueInputReceipt_def startInputReceiptWorker_def put_observer_def Let_def split: option.split)

lemma abandon_identity:
  "px_key (abandonPendingInputs p) = px_key p \<and> px_bindingInstanceID (abandonPendingInputs p) = px_bindingInstanceID p
   \<and> px_exited (abandonPendingInputs p) = px_exited p \<and> px_stoppedByGateway (abandonPendingInputs p) = px_stoppedByGateway p
   \<and> st_PausedInputs (px_state (abandonPendingInputs p)) = st_PausedInputs (px_state p)
   \<and> st_InputQueue (px_state (abandonPendingInputs p)) = st_InputQueue (px_state p)"
proof -
  have step: "px_key (abandon_input i q) = px_key q \<and> px_bindingInstanceID (abandon_input i q) = px_bindingInstanceID q
      \<and> px_exited (abandon_input i q) = px_exited q \<and> px_stoppedByGateway (abandon_input i q) = px_stoppedByGateway q \<and> st_PausedInputs (px_state (abandon_input i q)) = st_PausedInputs (px_state q)
      \<and> st_InputQueue (px_state (abandon_input i q)) = st_InputQueue (px_state q)" for i q
    by (simp add: abandon_input_def queueInputReceipt_identity)
  have "px_key (fold abandon_input is q) = px_key q \<and> px_bindingInstanceID (fold abandon_input is q) = px_bindingInstanceID q
      \<and> px_exited (fold abandon_input is q) = px_exited q \<and> px_stoppedByGateway (fold abandon_input is q) = px_stoppedByGateway q \<and> st_PausedInputs (px_state (fold abandon_input is q)) = st_PausedInputs (px_state q)
      \<and> st_InputQueue (px_state (fold abandon_input is q)) = st_InputQueue (px_state q)" for "is" q
    by (induction "is" arbitrary: q) (simp_all add: step)
  then show ?thesis by (simp add: abandonPendingInputs_def)
qed

lemma receipts_frame:
  assumes "px_inputObservers q = px_inputObservers p" "px_inputReceiptQueue q = px_inputReceiptQueue p" "px_pendingInputs q = px_pendingInputs p"
    and "px_flight q = px_flight p" "px_inputReceiptWorker q = px_inputReceiptWorker p" "px_inputReceiptBlocked q = px_inputReceiptBlocked p"
    and "st_UnconfirmedInputs (px_state q) = st_UnconfirmedInputs (px_state p)"
  shows "receipts_ok q = receipts_ok p"
  using assms by (simp add: receipts_ok_def)

lemma evolves_refl: "evolves p p" by (simp add: evolves_def)

lemma evolves_stopped: "evolves p (stopped_process p)"
proof -
  have "receipts_ok (stopped_process p)" if "receipts_ok p"
  proof -
    have "receipts_ok (p\<lparr>px_stoppedByGateway := True\<rparr>)" using that receipts_frame [of "p\<lparr>px_stoppedByGateway := True\<rparr>" p] by simp
    then have "receipts_ok (abandonPendingInputs (p\<lparr>px_stoppedByGateway := True\<rparr>))" by (rule abandon_ok)
    then show ?thesis
      unfolding stopped_process_def
      using receipts_frame [of "(abandonPendingInputs (p\<lparr>px_stoppedByGateway := True\<rparr>))\<lparr>px_stdin := False\<rparr>" "abandonPendingInputs (p\<lparr>px_stoppedByGateway := True\<rparr>)"]
      by simp
  qed
  then show ?thesis by (simp add: evolves_def stopped_process_def abandon_identity)
qed

definition settled_for_exit :: "chord_process \<Rightarrow> chord_process" where
  "settled_for_exit p = on_state (\<lambda>s. resetTurnWindow (setAgentBusy False (s\<lparr>st_PendingLocalShells := 0, st_LocalShellStartedAt := 0\<rparr>)))
     (p\<lparr>px_readyClosed := True\<rparr>)"

lemma exited_process_eq:
  "exited_process now p = (on_state (\<lambda>s. s\<lparr>st_RunningJobs := 0, st_UpdatedAt := now\<rparr>) (abandonPendingInputs (settled_for_exit p)))\<lparr>px_stdin := False\<rparr>"
  by (simp add: exited_process_def settled_for_exit_def Let_def)

lemma settled_receipts: "receipts_ok (settled_for_exit p) = receipts_ok p"
  by (rule receipts_frame) (simp_all add: settled_for_exit_def resetTurnWindow_def setAgentBusy_def)

lemma evolves_exited: "evolves p (exited_process now p)"
proof -
  have "receipts_ok (exited_process now p)" if "receipts_ok p"
  proof -
    have "receipts_ok (abandonPendingInputs (settled_for_exit p))" using that by (simp add: abandon_ok settled_receipts)
    then show ?thesis unfolding exited_process_eq
      using receipts_frame [of "(on_state (\<lambda>s. s\<lparr>st_RunningJobs := 0, st_UpdatedAt := now\<rparr>) (abandonPendingInputs (settled_for_exit p)))\<lparr>px_stdin := False\<rparr>"
          "abandonPendingInputs (settled_for_exit p)"] by simp
  qed
  then show ?thesis by (simp add: evolves_def exited_process_eq abandon_identity settled_for_exit_def)
qed

lemma evolves_expired: "evolves p (expire_pending now p)"
proof -
  have "receipts_ok (expire_pending now p) = receipts_ok p"
    by (rule receipts_frame) (simp_all add: expire_pending_def transitionToIdle_def resetTurnWindow_def setAgentBusy_def Let_def)
  then show ?thesis by (simp add: evolves_def expire_pending_def Let_def)
qed

lemma evolves_exit_code: "evolves (rt_process rt) (rt_process (waitAndRecordExit code rt))"
  using receipts_frame [of "(rt_process rt)\<lparr>px_exited := True\<rparr>" "rt_process rt"] by (simp add: evolves_def waitAndRecordExit_def)

section \<open>The invariant\<close>

text \<open>
  Live children that were not told to end are the current process of their key or wait for the idle loop; \<open>X\<close> are
  the ones an operation is about to end.
\<close>

definition runtime_ok :: "nat set \<Rightarrow> chord_manager \<Rightarrow> nat \<Rightarrow> runtime \<Rightarrow> bool" where
  "runtime_ok X m r rt \<longleftrightarrow> receipts_ok (rt_process rt)
     \<and> (rt_delivery rt = Some False \<longrightarrow> GetProcessForKey (px_key (rt_process rt)) m = Some r)
     \<and> (runtime_alive rt \<and> \<not> rt_terminated rt \<and> r \<notin> X
        \<longrightarrow> GetProcessForKey (px_key (rt_process rt)) m = Some r \<or> r \<in> set (cm_idle m))
     \<and> (rt_terminated rt \<longrightarrow> px_stoppedByGateway (rt_process rt) \<and> \<not> px_stdin (rt_process rt))"

definition manager_ok :: "nat set \<Rightarrow> chord_manager \<Rightarrow> bool" where
  "manager_ok X m \<longleftrightarrow>
     (\<forall>key r. GetProcessForKey key m = Some r \<longrightarrow> r < length (cm_heap m) \<and> px_key (process_at r m) = key)
     \<and> (\<forall>r \<in> set (cm_idle m) \<union> X. r < length (cm_heap m) \<and> GetProcessForKey (px_key (process_at r m)) m \<noteq> Some r)
     \<and> (\<forall>r < length (cm_heap m). runtime_ok X m r (cm_heap m ! r)) \<and> wf_map (cm_procs m)"

lemma manager_okD:
  assumes "manager_ok X m"
  shows "GetProcessForKey key m = Some r \<Longrightarrow> r < length (cm_heap m)"
    and "GetProcessForKey key m = Some r \<Longrightarrow> px_key (process_at r m) = key"
    and "GetProcessForKey key m = Some r \<Longrightarrow> key = px_key (process_at r m)"
    and "r \<in> set (cm_idle m) \<union> X \<Longrightarrow> r < length (cm_heap m)"
    and "r \<in> set (cm_idle m) \<union> X \<Longrightarrow> GetProcessForKey (px_key (process_at r m)) m \<noteq> Some r"
    and "r < length (cm_heap m) \<Longrightarrow> runtime_ok X m r (cm_heap m ! r)"
    and "wf_map (cm_procs m)"
  using assms unfolding manager_ok_def by blast+

lemma manager_okI:
  assumes "\<And>key r. GetProcessForKey key m = Some r \<Longrightarrow> r < length (cm_heap m) \<and> px_key (process_at r m) = key"
    and "\<And>r. r \<in> set (cm_idle m) \<union> X \<Longrightarrow> r < length (cm_heap m) \<and> GetProcessForKey (px_key (process_at r m)) m \<noteq> Some r"
    and "\<And>r. r < length (cm_heap m) \<Longrightarrow> runtime_ok X m r (cm_heap m ! r)"
    and "wf_map (cm_procs m)"
  shows "manager_ok X m"
  using assms unfolding manager_ok_def by blast

lemma new_manager_ok: "manager_ok {} (new_manager s d pins)"
  by (simp add: manager_ok_def new_manager_def GetProcessForKey_def)

lemma put_guards_fields [simp]:
  "cm_procs (put_guards b m) = cm_procs m" "cm_heap (put_guards b m) = cm_heap m" "cm_idle (put_guards b m) = cm_idle m"
  "cm_shuttingDown (put_guards b m) = cm_shuttingDown m" "GetProcessForKey key (put_guards b m) = GetProcessForKey key m"
  by (simp_all add: put_guards_def GetProcessForKey_def)

lemma manager_ok_cong:
  assumes "cm_procs m' = cm_procs m" "cm_heap m' = cm_heap m" "cm_idle m' = cm_idle m"
  shows "manager_ok X m' = manager_ok X m"
  using assms by (simp add: manager_ok_def runtime_ok_def process_at_def GetProcessForKey_def)

text \<open>A step of one process that keeps whose it is.\<close>

lemma manager_ok_runtime:
  assumes ok: "manager_ok X m" and bound: "r < length (cm_heap m)"
    and f: "evolves (rt_process (cm_heap m ! r)) (rt_process rt)" "rt_cmd rt = rt_cmd (cm_heap m ! r)"
      "rt_terminated rt = rt_terminated (cm_heap m ! r)
        \<or> rt_terminated rt \<and> px_stoppedByGateway (rt_process rt) \<and> \<not> px_stdin (rt_process rt)"
    and d: "rt_delivery rt = Some False \<longrightarrow> rt_delivery (cm_heap m ! r) = Some False
      \<or> GetProcessForKey (px_key (rt_process rt)) m = Some r"
  shows "manager_ok X (m\<lparr>cm_heap := (cm_heap m)[r := rt]\<rparr>)"
proof (rule manager_okI, goal_cases)
  case (1 key q)
  then have q: "GetProcessForKey key m = Some q" by (simp add: GetProcessForKey_def)
  show ?case using manager_okD(1,2) [OF ok q] f bound by (auto simp: process_at_def evolves_def nth_list_update)
next
  case (2 q)
  then have q: "q \<in> set (cm_idle m) \<union> X" by simp
  have key: "px_key (process_at q (m\<lparr>cm_heap := (cm_heap m)[r := rt]\<rparr>)) = px_key (process_at q m)"
    using f(1) bound by (simp add: process_at_def evolves_def nth_list_update)
  have "q < length (cm_heap m)" and "GetProcessForKey (px_key (process_at q m)) m \<noteq> Some q"
    using manager_okD(4,5) [OF ok q] by blast+
  then show ?case unfolding key by (simp add: GetProcessForKey_def)
next
  case (3 q)
  have old: "runtime_ok X m q (cm_heap m ! q)" using manager_okD(6) [OF ok, of q] 3 by simp
  have g: "GetProcessForKey k (m\<lparr>cm_heap := (cm_heap m)[r := rt]\<rparr>) = GetProcessForKey k m" for k by (simp add: GetProcessForKey_def)
  show ?case
  proof (cases "q = r")
    case False
    with old show ?thesis by (simp add: runtime_ok_def g)
  next
    case True
    have "runtime_alive rt \<Longrightarrow> runtime_alive (cm_heap m ! r)" using f by (auto simp: runtime_alive_def px_alive_def evolves_def)
    with True old f d bound show ?thesis by (auto simp: runtime_ok_def g evolves_def)
  qed
next
  case 4 show ?case using manager_okD(7) [OF ok] by simp
qed

lemma cancelDelivery_fields [simp]:
  "rt_process (cancelDelivery rt) = rt_process rt" "rt_cmd (cancelDelivery rt) = rt_cmd rt" "rt_terminated (cancelDelivery rt) = rt_terminated rt"
  "rt_delivery (cancelDelivery rt) \<noteq> Some False" "runtime_alive (cancelDelivery rt) = runtime_alive rt"
  by (simp_all add: cancelDelivery_def runtime_alive_def)

lemma drop_fields [simp]:
  "cm_idle (drop_runtime key r m) = cm_idle m" "length (cm_heap (drop_runtime key r m)) = length (cm_heap m)"
  "cm_shuttingDown (drop_runtime key r m) = cm_shuttingDown m"
  "GetProcessForKey k (drop_runtime key r m) = (if k = key then None else GetProcessForKey k m)"
  by (simp_all add: drop_runtime_def GetProcessForKey_def)

lemma drop_ok:
  assumes ok: "manager_ok X m" and r: "GetProcessForKey key m = Some r"
  shows "manager_ok (insert r X) (drop_runtime key r m)"
proof -
  note bound = manager_okD(1) [OF ok r] and key = manager_okD(2) [OF ok r]
  have at: "process_at q (drop_runtime key r m) = process_at q m" for q
    using bound by (simp add: process_at_def drop_runtime_def nth_list_update)
  have ended: "rt_terminated (cm_heap (drop_runtime key r m) ! q) = rt_terminated (cm_heap m ! q)" for q
    using bound by (simp add: drop_runtime_def nth_list_update)
  show ?thesis
  proof (rule manager_okI, goal_cases)
    case (1 k q)
    then have "GetProcessForKey k m = Some q" by (simp split: if_splits)
    then show ?case using manager_okD(1,2) [OF ok, of k q] by (simp add: at)
  next
    case (2 q)
    then show ?case using manager_okD(4,5) [OF ok, of q] bound key by (auto simp: at)
  next
    case (3 q)
    then have old: "runtime_ok X m q (cm_heap m ! q)" using manager_okD(6) [OF ok, of q] by simp
    have rt: "cm_heap (drop_runtime key r m) ! q = (if q = r then cancelDelivery (cm_heap m ! r) else cm_heap m ! q)"
      using bound by (simp add: drop_runtime_def nth_list_update)
    have other: "px_key (rt_process (cm_heap m ! q)) \<noteq> key" if "q \<noteq> r" "GetProcessForKey (px_key (rt_process (cm_heap m ! q))) m = Some q"
      using that r by auto
    show ?case unfolding runtime_ok_def rt using old other by (cases "q = r") (auto simp: runtime_ok_def)
  next
    case 4 show ?case using manager_okD(7) [OF ok] by (auto simp: drop_runtime_def)
  qed
qed

lemma terminate_eq:
  "TerminateGroup e r m = (if rt_terminated (cm_heap m ! r) then m
     else on_runtime r (\<lambda>rt. rt\<lparr>rt_terminated := True, rt_process := stopped_process (rt_process rt)\<rparr>)
       (put_guards (markTransferInterrupted e (px_key (process_at r m)) (process_at r m) (binding_of (Some (process_at r m)) m)) m))"
  by (simp add: TerminateGroup_def Let_def)

lemma terminate_fields [simp]:
  "cm_procs (TerminateGroup e r m) = cm_procs m" "cm_idle (TerminateGroup e r m) = cm_idle m"
  "length (cm_heap (TerminateGroup e r m)) = length (cm_heap m)" "cm_shuttingDown (TerminateGroup e r m) = cm_shuttingDown m"
  "GetProcessForKey key (TerminateGroup e r m) = GetProcessForKey key m"
  by (simp_all add: terminate_eq GetProcessForKey_def put_guards_def)

lemma terminate_heap:
  "cm_heap (TerminateGroup e r m) = (if rt_terminated (cm_heap m ! r) then cm_heap m
     else (cm_heap m)[r := (cm_heap m ! r)\<lparr>rt_terminated := True, rt_process := stopped_process (process_at r m)\<rparr>])"
  by (simp add: terminate_eq process_at_def)

lemma stopped_fields [simp]: "px_stoppedByGateway (stopped_process p)" "\<not> px_stdin (stopped_process p)"
  by (simp_all add: stopped_process_def abandon_identity)

lemma terminate_keep:
  assumes ok: "manager_ok X m" and r: "r < length (cm_heap m)"
  shows "manager_ok X (TerminateGroup e r m)"
proof (cases "rt_terminated (cm_heap m ! r)")
  case True
  with ok show ?thesis by (simp add: TerminateGroup_def)
next
  case False
  let ?rt = "(cm_heap m ! r)\<lparr>rt_terminated := True, rt_process := stopped_process (process_at r m)\<rparr>"
  have "manager_ok X (m\<lparr>cm_heap := (cm_heap m)[r := ?rt]\<rparr>)"
    using manager_okD(6) [OF ok r] evolves_stopped [of "process_at r m"]
    by (intro manager_ok_runtime [OF ok r]) (auto simp: process_at_def runtime_ok_def evolves_def)
  then show ?thesis
    using manager_ok_cong [of "TerminateGroup e r m" "m\<lparr>cm_heap := (cm_heap m)[r := ?rt]\<rparr>"] False by (simp add: terminate_heap)
qed

text \<open>What was told to end is accounted for.\<close>

lemma ended_ok:
  assumes ok: "manager_ok (insert r X) m" and ended: "rt_terminated (cm_heap m ! r) \<or> \<not> runtime_alive (cm_heap m ! r)"
  shows "manager_ok X m"
proof (rule manager_okI, goal_cases)
  case (1 k q) then show ?case using manager_okD(1,2) [OF ok] by blast
next
  case (2 q) then show ?case using manager_okD(4,5) [OF ok, of q] by blast
next
  case (3 q) then show ?case using manager_okD(6) [OF ok, of q] ended by (auto simp: runtime_ok_def)
next
  case 4 show ?case using manager_okD(7) [OF ok] .
qed

lemma terminate_ok:
  assumes ok: "manager_ok (insert r X) m"
  shows "manager_ok X (TerminateGroup e r m)"
proof -
  have bound: "r < length (cm_heap m)" using manager_okD(4) [OF ok, of r] by blast
  show ?thesis by (rule ended_ok [OF terminate_keep [OF ok bound]]) (use bound in \<open>simp add: terminate_heap\<close>)
qed

lemma stop_current_ok: "manager_ok X m \<Longrightarrow> manager_ok X (stop_current e key m)"
  by (auto simp: stop_current_def split: option.split intro: terminate_ok drop_ok)

lemma stop_current_none: "GetProcessForKey key (stop_current e key m) = None"
  by (simp add: stop_current_def split: option.split)

text \<open>A process that is gone can be dropped without ending it.\<close>

lemma drop_dead_ok:
  assumes ok: "manager_ok {} m" and r: "GetProcessForKey key m = Some r" and dead: "\<not> runtime_alive (cm_heap m ! r)"
  shows "manager_ok {} (drop_runtime key r m)"
  by (rule ended_ok [OF drop_ok [OF ok r]]) (use dead manager_okD(1) [OF ok r] in \<open>simp add: drop_runtime_def\<close>)

section \<open>Every operation keeps it\<close>

lemma spawned_receipts: "receipts_ok (spawned now)"
  by (simp add: spawned_def new_process_def zero_state_def receipts_ok_def queued_ok_def maxPendingInputs_def)

lemma spawn_binding_process:
  assumes "spawn_binding key random args started b = (b', ok)" and "bg_process b' = Some p"
  shows "px_key p = key \<and> receipts_ok p \<and> px_pendingInputs p = []"
proof (cases started)
  case None
  with assms show ?thesis by (auto simp: spawn_binding_def Let_def split_beta)
next
  case (Some now)
  obtain i inst where args: "transferRestoreArgs args ('''', '''') = (i, inst)" by (cases "transferRestoreArgs args ('''', '''')")
  define q where "q = on_state (control_state.st_BindingInstanceID_update (\<lambda>z. if inst = '''' then ''binding-'' @ random else inst))
    ((spawned now)\<lparr>px_bindingInstanceID := if inst = '''' then ''binding-'' @ random else inst, px_restoringTransferID := i, px_key := key,
       px_bindingGuard := Blocked key (Some (bg_transfers b)), px_autoRestart := \<not> Blocked key (Some (bg_transfers b)),
       px_expectedSessionID := resume_arg args ''''\<rparr>)"
  have p: "p = q" using assms by (auto simp: spawn_binding_def Some args q_def Let_def)
  have "receipts_ok q = receipts_ok (spawned now)" by (rule receipts_frame) (simp_all add: q_def)
  moreover have "px_key q = key" and "px_pendingInputs q = []" by (simp_all add: q_def spawned_def new_process_def)
  ultimately show ?thesis by (simp add: p spawned_receipts)
qed

lemma start_runtime_cases:
  assumes "start_runtime v cfg key args m = (m', res)"
  obtains "m' = m" | p gate lease where "px_key p = key" "receipts_ok p" "res = Inr (Some (length (cm_heap m)))"
    "m' = m\<lparr>cm_heap := cm_heap m @ [\<lparr>rt_process = p, rt_cmd = True, rt_gate = gate, rt_lease = lease, rt_delivery = None,
       rt_terminated = False, rt_exitCode = 0, rt_stderr = newTailBuffer (64 * 1024)\<rparr>],
       cm_procs := AList.update key (length (cm_heap m)) (cm_procs m)\<rparr>"
proof -
  obtain b ok where b: "spawn_binding key (sv_random v) args (sv_started v) (binding_of None m) = (b, ok)"
    by (cases "spawn_binding key (sv_random v) args (sv_started v) (binding_of None m)")
  obtain gate lease where g: "spawn_gate v cfg key = (gate, lease)" by (cases "spawn_gate v cfg key")
  show ?thesis
  proof (cases "bg_process b")
    case None
    then show ?thesis using assms b g that(1) by (simp add: start_runtime_def)
  next
    case (Some p)
    then show ?thesis using assms b g spawn_binding_process [OF b Some] that(2) [of p gate lease] by (simp add: start_runtime_def)
  qed
qed

lemma start_runtime_ok:
  assumes ok: "manager_ok {} m" and free: "GetProcessForKey key m = None" and start: "start_runtime v cfg key args m = (m', res)"
  shows "manager_ok {} m'"
  using start
proof (cases rule: start_runtime_cases)
  case 1
  with ok show ?thesis by simp
next
  case (2 p gate lease)
  let ?new = "\<lparr>rt_process = p, rt_cmd = True, rt_gate = gate, rt_lease = lease, rt_delivery = None,
       rt_terminated = False, rt_exitCode = 0, rt_stderr = newTailBuffer (64 * 1024)\<rparr>"
  have get: "GetProcessForKey k m' = (if k = key then Some (length (cm_heap m)) else GetProcessForKey k m)" for k
    by (simp add: 2(4) GetProcessForKey_def)
  have heap: "cm_heap m' = cm_heap m @ [?new]" and idle: "cm_idle m' = cm_idle m" by (simp_all add: 2(4))
  have old: "cm_heap m' ! q = cm_heap m ! q" if "q < length (cm_heap m)" for q using that by (simp add: heap nth_append)
  have new: "cm_heap m' ! length (cm_heap m) = ?new" by (simp add: heap)
  have key: "px_key (process_at q m) \<noteq> key" if "GetProcessForKey (px_key (process_at q m)) m = Some q" for q
    using that free by auto
  show ?thesis
  proof (rule manager_okI, goal_cases)
    case (1 k q)
    show ?case
    proof (cases "k = key")
      case True
      with 1 new 2(1) show ?thesis by (simp add: get heap process_at_def)
    next
      case False
      with 1 have q: "GetProcessForKey k m = Some q" by (simp add: get)
      then show ?thesis using manager_okD(1,2) [OF ok q] by (simp add: heap process_at_def nth_append)
    qed
  next
    case (2 q)
    then have q: "q < length (cm_heap m)" "GetProcessForKey (px_key (process_at q m)) m \<noteq> Some q"
      using manager_okD(4,5) [OF ok, of q] by (simp_all add: idle)
    then show ?case by (simp add: heap process_at_def nth_append get)
  next
    case (3 q)
    show ?case
    proof (cases "q < length (cm_heap m)")
      case True
      have "runtime_ok {} m q (cm_heap m ! q)" using manager_okD(6) [OF ok True] .
      then show ?thesis using key [of q] by (auto simp: runtime_ok_def old [OF True] get idle process_at_def)
    next
      case False
      with 3 have "q = length (cm_heap m)" by (simp add: heap)
      then show ?thesis using 2(1,2) by (simp add: runtime_ok_def new get)
    qed
  next
    case 4 show ?case using manager_okD(7) [OF ok] by (auto simp: 2(4))
  qed
qed

lemma spawn_locked_ok:
  assumes "manager_ok {} m"
  shows "manager_ok {} (fst (spawnWithArgsForKeyLocked v key args m))"
proof -
  have stopped: "manager_ok {} (stop_current (sv_transfer v) key m)" using assms by (rule stop_current_ok)
  have "manager_ok {} (fst (start_runtime v cfg key args (stop_current (sv_transfer v) key m)))" for cfg
    by (rule start_runtime_ok [OF stopped stop_current_none]) (rule prod.collapse [symmetric])
  with stopped show ?thesis by (simp add: spawnWithArgsForKeyLocked_def Let_def split: option.split)
qed

lemma spawn_fresh_ok: "manager_ok {} m \<Longrightarrow> manager_ok {} (fst (spawn_fresh v key m))"
  by (simp add: spawn_fresh_def Let_def spawn_locked_ok split: option.split)

lemma remove_current: "GetProcessForKey key m = Some r \<Longrightarrow> removeProcessIfCurrent key r m = drop_runtime key r m"
  by (simp add: removeProcessIfCurrent_def)

lemma getOrSpawn_ok:
  assumes ok: "manager_ok {} m"
  shows "manager_ok {} (fst (getOrSpawnForKeyChatLocked v key m))"
proof (cases "GetProcessForKey key m")
  case None
  with ok show ?thesis by (simp add: getOrSpawnForKeyChatLocked_def spawn_fresh_ok)
next
  case (Some r)
  have "manager_ok {} (fst (spawn_fresh v key (removeProcessIfCurrent key r m)))" if "\<not> runtime_alive (cm_heap m ! r)"
    unfolding remove_current [OF Some] by (rule spawn_fresh_ok [OF drop_dead_ok [OF ok Some that]])
  with ok Some show ?thesis by (simp add: getOrSpawnForKeyChatLocked_def Let_def)
qed

lemma auto_restart_ok: "manager_ok {} m \<Longrightarrow> manager_ok {} (auto_restart v r m)"
  by (simp add: auto_restart_def Let_def getOrSpawn_ok)

lemma collect_idle_ok:
  assumes ok: "manager_ok {} m"
  shows "manager_ok {} (collect_idle timeout now r m)"
proof (cases "GetProcessForKey (px_key (process_at r m)) m = Some r")
  case False
  with ok show ?thesis by (simp add: collect_idle_def Let_def)
next
  case True
  have d: "manager_ok {r} (drop_runtime (px_key (process_at r m)) r m)" using drop_ok [OF ok True] by simp
  have "manager_ok {} ((drop_runtime (px_key (process_at r m)) r m)\<lparr>cm_idle := cm_idle m @ [r]\<rparr>)"
  proof (rule manager_okI, goal_cases)
    case (1 k q) then show ?case using manager_okD(1,2) [OF d, of k q] by (simp add: GetProcessForKey_def process_at_def)
  next
    case (2 q) then show ?case using manager_okD(4,5) [OF d, of q] by (auto simp: GetProcessForKey_def process_at_def)
  next
    case (3 q)
    then have "runtime_ok {r} (drop_runtime (px_key (process_at r m)) r m) q (cm_heap (drop_runtime (px_key (process_at r m)) r m) ! q)"
      using manager_okD(6) [OF d, of q] by simp
    then show ?case by (auto simp: runtime_ok_def GetProcessForKey_def)
  next
    case 4 show ?case using manager_okD(7) [OF d] by simp
  qed
  with ok show ?thesis by (simp add: collect_idle_def Let_def)
qed

lemma stop_idle_ok:
  assumes ok: "manager_ok {} m"
  shows "manager_ok {} (stop_idle e now m)"
proof (cases "cm_idle m")
  case Nil
  with ok show ?thesis by (simp add: stop_idle_def)
next
  case (Cons r rs)
  have "manager_ok {r} (m\<lparr>cm_idle := rs\<rparr>)"
  proof (rule manager_okI, goal_cases)
    case (1 k q) then show ?case using manager_okD(1,2) [OF ok, of k q] by (simp add: GetProcessForKey_def process_at_def)
  next
    case (2 q)
    then have "q \<in> set (cm_idle m) \<union> {}" using Cons by auto
    then show ?case using manager_okD(4,5) [OF ok] by (simp add: GetProcessForKey_def process_at_def)
  next
    case (3 q) then show ?case using manager_okD(6) [OF ok, of q] Cons by (auto simp: runtime_ok_def GetProcessForKey_def)
  next
    case 4 show ?case using manager_okD(7) [OF ok] by simp
  qed
  moreover from this have "r < length (cm_heap m)" using manager_okD(4) [of "{r}" "m\<lparr>cm_idle := rs\<rparr>" r] by simp
  ultimately have "manager_ok {r} (on_runtime r (\<lambda>rt. rt\<lparr>rt_process := expire_pending now (rt_process rt)\<rparr>) (m\<lparr>cm_idle := rs\<rparr>))"
    using manager_ok_runtime [of "{r}" "m\<lparr>cm_idle := rs\<rparr>" r "(cm_heap m ! r)\<lparr>rt_process := expire_pending now (rt_process (cm_heap m ! r))\<rparr>"]
    by (simp add: evolves_expired)
  then show ?thesis by (simp add: stop_idle_def Cons terminate_ok)
qed

lemma exit_begin_ok:
  assumes "manager_ok {} m" and "r < length (cm_heap m)"
  shows "manager_ok {} (fst (exit_begin now r m))"
  using manager_ok_runtime [OF assms, of "(cm_heap m ! r)\<lparr>rt_process := exited_process now (rt_process (cm_heap m ! r))\<rparr>"]
  by (simp add: exit_begin_def Let_def evolves_exited)

lemma reap_ok:
  assumes "manager_ok {} m" and "r < length (cm_heap m)"
  shows "manager_ok {} (on_runtime r (waitAndRecordExit code) m)"
  by (rule manager_ok_runtime [OF assms]) (simp_all add: evolves_exit_code, simp_all add: waitAndRecordExit_def)

lemma exit_end_ok:
  assumes "manager_ok {} m" and "r < length (cm_heap m)"
  shows "manager_ok {} (fst (exit_end e code r restart m))"
proof -
  have "manager_ok {} (on_runtime r (waitAndRecordExit code) m)" by (rule reap_ok [OF assms])
  then have "manager_ok {} (put_guards b (on_runtime r (waitAndRecordExit code) m))" for b
    using manager_ok_cong [of "put_guards b (on_runtime r (waitAndRecordExit code) m)" "on_runtime r (waitAndRecordExit code) m"] by simp
  then show ?thesis by (simp add: exit_end_def Let_def split_beta)
qed

lemma fold_cancel:
  defines "cancelled rs m \<equiv> fold (\<lambda>r. on_runtime r cancelDelivery) rs m"
  assumes "\<forall>r \<in> set rs. r < length (cm_heap m)"
  shows "cm_procs (cancelled rs m) = cm_procs m \<and> cm_idle (cancelled rs m) = cm_idle m \<and> length (cm_heap (cancelled rs m)) = length (cm_heap m)
     \<and> (\<forall>q. rt_process (cm_heap (cancelled rs m) ! q) = rt_process (cm_heap m ! q)
        \<and> rt_terminated (cm_heap (cancelled rs m) ! q) = rt_terminated (cm_heap m ! q)
        \<and> rt_cmd (cm_heap (cancelled rs m) ! q) = rt_cmd (cm_heap m ! q)
        \<and> (rt_delivery (cm_heap (cancelled rs m) ! q) = Some False \<longrightarrow> rt_delivery (cm_heap m ! q) = Some False \<and> q \<notin> set rs))"
  unfolding cancelled_def using assms(2)
proof (induction rs arbitrary: m)
  case (Cons r rs)
  let ?m = "on_runtime r cancelDelivery m"
  have "\<forall>x \<in> set rs. x < length (cm_heap ?m)" and r: "r < length (cm_heap m)" using Cons.prems by simp_all
  note IH = Cons.IH [OF this(1)]
  have at: "rt_process (cm_heap ?m ! q) = rt_process (cm_heap m ! q) \<and> rt_terminated (cm_heap ?m ! q) = rt_terminated (cm_heap m ! q)
      \<and> rt_cmd (cm_heap ?m ! q) = rt_cmd (cm_heap m ! q)
      \<and> (rt_delivery (cm_heap ?m ! q) = Some False \<longrightarrow> rt_delivery (cm_heap m ! q) = Some False \<and> q \<noteq> r)" for q
    using r by (simp add: nth_list_update)
  show ?case using IH at by simp
qed simp

lemma fold_terminate_ok: "manager_ok (set rs) m \<Longrightarrow> manager_ok {} (fold (TerminateGroup e) rs m)"
proof (induction rs arbitrary: m)
  case (Cons r rs)
  then have "manager_ok (set rs) (TerminateGroup e r m)" by (simp add: terminate_ok)
  with Cons.IH show ?case by simp
qed simp

lemma stop_all_ok:
  assumes ok: "manager_ok {} m"
  shows "manager_ok {} (stop_all e m)"
proof -
  define rs where "rs = map snd (cm_procs m)"
  define c where "c = fold (\<lambda>r. on_runtime r cancelDelivery) rs m"
  have current: "r \<in> set rs \<longleftrightarrow> (\<exists>key. GetProcessForKey key m = Some r)" for r
    using map_of_in_set [OF manager_okD(7) [OF ok]] by (force simp: rs_def GetProcessForKey_def)
  have bound: "r < length (cm_heap m)" if "r \<in> set rs" for r using that current manager_okD(1) [OF ok] by blast
  have c: "cm_procs c = cm_procs m" "cm_idle c = cm_idle m" "length (cm_heap c) = length (cm_heap m)"
    and heap: "\<And>q. rt_process (cm_heap c ! q) = rt_process (cm_heap m ! q) \<and> rt_terminated (cm_heap c ! q) = rt_terminated (cm_heap m ! q)
        \<and> rt_cmd (cm_heap c ! q) = rt_cmd (cm_heap m ! q)
        \<and> (rt_delivery (cm_heap c ! q) = Some False \<longrightarrow> rt_delivery (cm_heap m ! q) = Some False \<and> q \<notin> set rs)"
    using fold_cancel [of rs m] bound unfolding c_def by blast+
  have "manager_ok (set rs) (c\<lparr>cm_procs := []\<rparr>)"
  proof (rule manager_okI, goal_cases)
    case (1 k q) then show ?case by (simp add: GetProcessForKey_def)
  next
    case (2 q) then show ?case using bound manager_okD(4) [OF ok, of q] by (auto simp: c GetProcessForKey_def)
  next
    case (3 q)
    then have old: "runtime_ok {} m q (cm_heap m ! q)" using manager_okD(6) [OF ok, of q] by (simp add: c)
    have live: "runtime_alive (cm_heap c ! q) = runtime_alive (cm_heap m ! q)" using heap [of q] by (simp add: runtime_alive_def)
    have "rt_delivery (cm_heap c ! q) \<noteq> Some False" using heap [of q] old current [of q] by (auto simp: runtime_ok_def)
    moreover have "q \<in> set rs \<or> q \<in> set (cm_idle m)" if "runtime_alive (cm_heap m ! q)" "\<not> rt_terminated (cm_heap m ! q)"
      using that old current [of q] by (auto simp: runtime_ok_def)
    ultimately show ?case using old heap [of q] live by (auto simp: runtime_ok_def c)
  next
    case 4 show ?case by simp
  qed
  then have "manager_ok {} (fold (TerminateGroup e) rs (c\<lparr>cm_procs := []\<rparr>))" by (rule fold_terminate_ok)
  then show ?thesis by (simp add: stop_all_def Let_def rs_def c_def)
qed

lemma evolves_halted: "evolves (rt_process rt) (rt_process (stopped_runtime rt))"
  using receipts_frame [of "rt_process (stopped_runtime rt)" "rt_process rt"] by (simp add: evolves_def stopped_runtime_def Let_def)

lemma stop_wait_ok:
  assumes ok: "manager_ok {} m" and r: "r < length (cm_heap m)"
  shows "manager_ok {} (StopAndWait r m)"
proof -
  have "manager_ok {} (m\<lparr>cm_heap := (cm_heap m)[r := stopped_runtime (cm_heap m ! r)]\<rparr>)"
  proof (rule manager_ok_runtime [OF ok r])
    show "evolves (rt_process (cm_heap m ! r)) (rt_process (stopped_runtime (cm_heap m ! r)))" by (rule evolves_halted)
    show "rt_delivery (stopped_runtime (cm_heap m ! r)) = Some False \<longrightarrow> rt_delivery (cm_heap m ! r) = Some False
      \<or> GetProcessForKey (px_key (rt_process (stopped_runtime (cm_heap m ! r)))) m = Some r"
      by (simp add: stopped_runtime_def Let_def)
  qed (simp_all add: stopped_runtime_def Let_def)
  then show ?thesis by (simp add: StopAndWait_def)
qed

lemma discard_ok:
  assumes ok: "manager_ok {} m" and r: "r < length (cm_heap m)"
  shows "manager_ok {} (discard_started e key r m)"
  using drop_ok [OF ok, of key r] terminate_keep [OF ok r] terminate_ok
  by (simp add: discard_started_def removeProcessIfCurrent_def)

lemma manager_step_ok:
  assumes ok: "manager_ok {} m"
  shows "manager_ok {} (manager_step e op m)"
proof (cases op)
  case (MDeliver key)
  show ?thesis
  proof (cases "GetProcessForKey key m")
    case (Some r)
    have "manager_ok {} (on_runtime r open_delivery m)"
      by (rule manager_ok_runtime [OF ok manager_okD(1) [OF ok Some]])
        (use Some manager_okD(2) [OF ok Some] in \<open>auto simp: open_delivery_def evolves_refl process_at_def\<close>)
    with MDeliver Some show ?thesis by simp
  qed (use ok MDeliver in simp)
next
  case (MProcess r q)
  have "manager_ok {} (on_runtime r (\<lambda>rt. rt\<lparr>rt_process := q\<rparr>) m)"
    if "r < length (cm_heap m)" "same_identity (process_at r m) q" "receipts_ok q"
    by (rule manager_ok_runtime [OF ok that(1)])
      (use that in \<open>auto simp: evolves_def same_identity_def process_at_def\<close>)
  with ok MProcess show ?thesis by simp
next
  case MShutdown
  with ok show ?thesis using manager_ok_cong [of "requestShutdown m" m] by (simp add: requestShutdown_def)
qed (use ok in \<open>simp_all add: getOrSpawn_ok spawnWithArgsForKeyChatLocked_def spawn_locked_ok stopProcessKeyChatLocked_def stop_current_ok
    stop_all_ok exit_begin_ok exit_end_ok auto_restart_ok collect_idle_ok stop_idle_ok stop_wait_ok discard_ok reap_ok
    read_failed_def terminate_keep stop_confirmed_def removeProcessIfCurrent_def drop_dead_ok\<close>)

lemma manager_reach_ok: "manager_reach m \<Longrightarrow> manager_ok {} m"
  by (induction rule: manager_reach.induct) (auto intro: new_manager_ok manager_step_ok)

section \<open>Evidence\<close>

lemma queue_unconfirmed: "st_UnconfirmedInputs (px_state p) \<le> st_UnconfirmedInputs (px_state (queueInputReceipt i s t p))"
  by (simp add: queueInputReceipt_def startInputReceiptWorker_def put_observer_def Let_def split: option.split)

lemma abandon_unconfirmed: "st_UnconfirmedInputs (px_state p) \<le> st_UnconfirmedInputs (px_state (abandonPendingInputs p))"
proof -
  have step: "st_UnconfirmedInputs (px_state q) \<le> st_UnconfirmedInputs (px_state (abandon_input i q))" for i q
    by (simp add: abandon_input_def queue_unconfirmed)
  have "st_UnconfirmedInputs (px_state q) \<le> st_UnconfirmedInputs (px_state (fold abandon_input is q))" for "is" q
    by (induction "is" arbitrary: q) (auto intro: order_trans [OF step])
  then show ?thesis by (simp add: abandonPendingInputs_def)
qed

lemma observers_nonneg: "0 \<le> unconfirmed_observers p"
  by (rule gsum_nonneg) simp

lemma abandon_guarded:
  assumes ok: "receipts_ok p" and guarded: "hasGuardedInputs p"
  shows "hasGuardedInputs (abandonPendingInputs p)"
proof (cases "px_pendingInputs p = []")
  case True
  then show ?thesis using guarded by (simp add: abandonPendingInputs_def)
next
  case False
  then obtain j where j: "j \<in> set (px_pendingInputs p)" by (cases "px_pendingInputs p") auto
  show ?thesis
  proof (cases "j \<in> set (px_pendingInputs (abandonPendingInputs p))")
    case True
    then show ?thesis by (auto simp: hasGuardedInputs_def Let_def)
  next
    case False
    then have "lost_outcomes p < lost_outcomes (abandonPendingInputs p)" using abandon_evidence [of p j] j by blast
    moreover have "0 \<le> lost_outcomes p" using receipts_okD(3) [OF ok] by (simp add: lost_outcomes_def)
    ultimately have "0 < st_UnconfirmedInputs (px_state (abandonPendingInputs p))"
      using observers_nonneg [of "abandonPendingInputs p"] by (simp add: lost_outcomes_def)
    then show ?thesis by (simp add: hasGuardedInputs_def Let_def)
  qed
qed

lemma guarded_frame:
  assumes "px_pendingInputs q = px_pendingInputs p" and "st_UnconfirmedInputs (px_state q) = st_UnconfirmedInputs (px_state p)"
    and "st_PausedInputs (px_state q) = st_PausedInputs (px_state p)" and "st_InputQueue (px_state q) = st_InputQueue (px_state p)"
  shows "hasGuardedInputs q = hasGuardedInputs p"
  using assms by (simp add: hasGuardedInputs_def Let_def)

lemma exited_guarded:
  assumes "receipts_ok p" and "hasGuardedInputs p"
  shows "hasGuardedInputs (exited_process now p)"
proof -
  have "hasGuardedInputs (settled_for_exit p) = hasGuardedInputs p"
    by (rule guarded_frame) (simp_all add: settled_for_exit_def resetTurnWindow_def setAgentBusy_def)
  then have "hasGuardedInputs (abandonPendingInputs (settled_for_exit p))"
    using assms by (simp add: abandon_guarded settled_receipts)
  moreover have "hasGuardedInputs (exited_process now p) = hasGuardedInputs (abandonPendingInputs (settled_for_exit p))"
    unfolding exited_process_eq by (rule guarded_frame) simp_all
  ultimately show ?thesis by simp
qed

lemma stopped_guarded:
  assumes "receipts_ok p" and "hasGuardedInputs p"
  shows "hasGuardedInputs (stopped_process p)"
proof -
  let ?p = "p\<lparr>px_stoppedByGateway := True\<rparr>"
  have "receipts_ok ?p" using assms(1) receipts_frame [of ?p p] by simp
  moreover have "hasGuardedInputs ?p" using assms(2) guarded_frame [of ?p p] by simp
  ultimately have "hasGuardedInputs (abandonPendingInputs ?p)" by (rule abandon_guarded)
  then show ?thesis unfolding stopped_process_def using guarded_frame [of "(abandonPendingInputs ?p)\<lparr>px_stdin := False\<rparr>" "abandonPendingInputs ?p"]
    by simp
qed

text \<open>What an operation on another process leaves of this one.\<close>

definition keeps_process :: "string \<Rightarrow> nat \<Rightarrow> chord_manager \<Rightarrow> chord_manager \<Rightarrow> bool" where
  "keeps_process key r m m' \<longleftrightarrow> GetProcessForKey key m' = Some r \<and> length (cm_heap m) \<le> length (cm_heap m') \<and> process_at r m' = process_at r m"

lemma keeps_drop:
  assumes "manager_ok X m" and "GetProcessForKey key m = Some r" and "GetProcessForKey key' m = Some r'" and "key' \<noteq> key"
  shows "keeps_process key r m (drop_runtime key' r' m)"
  using assms manager_okD(1) [OF assms(1,3)] by (simp add: keeps_process_def process_at_def) (simp add: drop_runtime_def nth_list_update)

lemma keeps_terminate:
  assumes "GetProcessForKey key m = Some r" and "r' \<noteq> r"
  shows "keeps_process key r m (TerminateGroup e r' m)"
  using assms by (simp add: keeps_process_def process_at_def terminate_heap)

lemma keeps_trans: "keeps_process key r m m1 \<Longrightarrow> keeps_process key r m1 m2 \<Longrightarrow> keeps_process key r m m2"
  by (simp add: keeps_process_def)

lemma keeps_refl: "GetProcessForKey key m = Some r \<Longrightarrow> keeps_process key r m m"
  by (simp add: keeps_process_def)

lemma keeps_stop:
  assumes ok: "manager_ok {} m" and r: "GetProcessForKey key m = Some r" and other: "key' \<noteq> key"
  shows "keeps_process key r m (stop_current e key' m)"
proof (cases "GetProcessForKey key' m")
  case None
  with r show ?thesis by (simp add: stop_current_def keeps_refl)
next
  case (Some r')
  have "r' \<noteq> r" using manager_okD(2) [OF ok Some] manager_okD(2) [OF ok r] other by blast
  then have "keeps_process key r (drop_runtime key' r' m) (TerminateGroup e r' (drop_runtime key' r' m))"
    by (intro keeps_terminate) (use r other in simp_all)
  with keeps_trans keeps_drop [OF ok r Some other] Some show ?thesis unfolding stop_current_def by fastforce
qed

lemma keeps_start:
  assumes r: "GetProcessForKey key m = Some r" "r < length (cm_heap m)" and other: "key' \<noteq> key"
    and start: "start_runtime v cfg key' args m = (m', res)"
  shows "keeps_process key r m m'"
  using start
proof (cases rule: start_runtime_cases)
  case 1
  with r show ?thesis by (simp add: keeps_refl)
next
  case (2 p gate lease)
  with r other show ?thesis by (simp add: keeps_process_def GetProcessForKey_def process_at_def nth_append)
qed

lemma keeps_spawn:
  assumes ok: "manager_ok {} m" and r: "GetProcessForKey key m = Some r" and other: "key' \<noteq> key"
  shows "keeps_process key r m (fst (spawnWithArgsForKeyLocked v key' args m))"
proof -
  let ?s = "stop_current (sv_transfer v) key' m"
  have k: "keeps_process key r m ?s" by (rule keeps_stop [OF ok r other])
  then have s: "GetProcessForKey key ?s = Some r" "r < length (cm_heap ?s)"
    using manager_okD(1) [OF ok r] by (simp_all add: keeps_process_def)
  have "keeps_process key r m (fst (start_runtime v cfg key' args ?s))" for cfg
    by (rule keeps_trans [OF k keeps_start [OF s other]]) (rule prod.collapse [symmetric])
  with k show ?thesis by (simp add: spawnWithArgsForKeyLocked_def Let_def split: option.split)
qed

lemma keeps_fresh:
  assumes "manager_ok {} m" and "GetProcessForKey key m = Some r" and "key' \<noteq> key"
  shows "keeps_process key r m (fst (spawn_fresh v key' m))"
  using keeps_spawn [OF assms] keeps_refl [OF assms(2)] by (simp add: spawn_fresh_def Let_def split: option.split)

lemma keeps_find:
  assumes ok: "manager_ok {} m" and r: "GetProcessForKey key m = Some r" and guarded: "hasGuardedInputs (process_at r m)"
  shows "keeps_process key r m (fst (getOrSpawnForKeyChatLocked v key' m))"
proof (cases "key' = key")
  case True
  with r guarded keeps_refl [OF r] show ?thesis by (simp add: getOrSpawnForKeyChatLocked_def Let_def process_at_def)
next
  case False
  show ?thesis
  proof (cases "GetProcessForKey key' m")
    case None
    then show ?thesis using keeps_fresh [OF ok r False] keeps_refl [OF r] by (simp add: getOrSpawnForKeyChatLocked_def)
  next
    case (Some r')
    have "keeps_process key r m (fst (spawn_fresh v key' (removeProcessIfCurrent key' r' m)))" if "\<not> runtime_alive (cm_heap m ! r')"
      unfolding remove_current [OF Some]
      by (rule keeps_trans [OF keeps_drop [OF ok r Some False] keeps_fresh [OF drop_dead_ok [OF ok Some that] _ False]])
        (use r False in simp)
    with Some keeps_refl [OF r] show ?thesis by (simp add: getOrSpawnForKeyChatLocked_def Let_def)
  qed
qed

lemma keeps_idle_stop:
  assumes ok: "manager_ok {} m" and r: "GetProcessForKey key m = Some r"
  shows "keeps_process key r m (stop_idle e now m)"
proof (cases "cm_idle m")
  case Nil
  with r show ?thesis by (simp add: stop_idle_def keeps_refl)
next
  case (Cons q qs)
  have "GetProcessForKey (px_key (process_at q m)) m \<noteq> Some q" using manager_okD(5) [OF ok, of q] Cons by simp
  then have "q \<noteq> r" using manager_okD(2) [OF ok r] r by auto
  then show ?thesis using r by (simp add: stop_idle_def Cons keeps_process_def terminate_heap process_at_def GetProcessForKey_def)
qed

text \<open>The operations nobody asked for.\<close>

fun automatic :: "manager_op \<Rightarrow> bool" where
  "automatic (MFind v key) = True"
| "automatic (MExitBegin now r) = True"
| "automatic (MExitEnd code r restart) = True"
| "automatic (MRestart v r) = True"
| "automatic (MIdle timeout now r) = True"
| "automatic (MIdleStop now) = True"
| "automatic (MDeliver key) = True"
| "automatic (MReadFailed r) = True"
| "automatic (MReap code r) = True"
| "automatic op = False"

lemma evidence_step:
  assumes ok: "manager_ok {} m" and r: "GetProcessForKey key m = Some r" and guarded: "hasGuardedInputs (process_at r m)"
    and op: "automatic op"
  shows "GetProcessForKey key (manager_step e op m) = Some r \<and> hasGuardedInputs (process_at r (manager_step e op m))"
proof -
  note bound = manager_okD(1) [OF ok r]
  have keep: ?thesis if "keeps_process key r m (manager_step e op m)" using that guarded by (simp add: keeps_process_def)
  show ?thesis
  proof (cases op)
    case (MFind v key')
    then show ?thesis using keep keeps_find [OF ok r guarded] by simp
  next
    case (MRestart v q)
    then show ?thesis using keep keeps_find [OF ok r guarded] keeps_refl [OF r] by (simp add: auto_restart_def Let_def)
  next
    case (MIdle timeout now q)
    have "keeps_process key r m (collect_idle timeout now q m)"
    proof (cases "idle_process timeout now (process_at q m) \<and> GetProcessForKey (px_key (process_at q m)) m = Some q")
      case True
      then have "q \<noteq> r" using guarded by (auto simp: idle_process_def)
      then have "px_key (process_at q m) \<noteq> key" using True r by auto
      with keeps_drop [OF ok r, of "px_key (process_at q m)" q] True show ?thesis
        by (simp add: collect_idle_def Let_def keeps_process_def process_at_def GetProcessForKey_def)
    qed (use keeps_refl [OF r] in \<open>auto simp: collect_idle_def Let_def\<close>)
    then show ?thesis using MIdle keep keeps_refl [OF r] by simp
  next
    case (MIdleStop now)
    then show ?thesis using keep keeps_idle_stop [OF ok r] by simp
  next
    case (MExitBegin now q)
    have "receipts_ok (process_at r m)" using manager_okD(6) [OF ok bound] by (simp add: runtime_ok_def process_at_def)
    then have "hasGuardedInputs (exited_process now (process_at r m))" by (rule exited_guarded [OF _ guarded])
    then show ?thesis using MExitBegin r bound guarded
      by (cases "q = r") (simp_all add: exit_begin_def Let_def GetProcessForKey_def process_at_def)
  next
    case (MExitEnd code q restart)
    have "hasGuardedInputs (p\<lparr>px_exited := True\<rparr>) = hasGuardedInputs p" for p by (rule guarded_frame) simp_all
    then show ?thesis using MExitEnd r bound guarded
      by (cases "q = r") (simp_all add: exit_end_def Let_def split_beta process_at_def waitAndRecordExit_def, simp_all add: GetProcessForKey_def put_guards_def)
  next
    case (MReadFailed q)
    have "receipts_ok (process_at r m)" using manager_okD(6) [OF ok bound] by (simp add: runtime_ok_def process_at_def)
    then have "hasGuardedInputs (stopped_process (process_at r m))" by (rule stopped_guarded [OF _ guarded])
    then show ?thesis using MReadFailed r bound guarded
      by (cases "q = r") (simp_all add: read_failed_def process_at_def terminate_heap)
  next
    case (MReap code q)
    have "hasGuardedInputs (p\<lparr>px_exited := True\<rparr>) = hasGuardedInputs p" for p by (rule guarded_frame) simp_all
    then show ?thesis using MReap r bound guarded
      by (cases "q = r") (simp_all add: process_at_def waitAndRecordExit_def, simp_all add: GetProcessForKey_def)
  next
    case (MDeliver key')
    show ?thesis
    proof (cases "GetProcessForKey key' m")
      case (Some q)
      then show ?thesis using MDeliver r bound guarded
        by (cases "q = r") (simp_all add: open_delivery_def process_at_def, simp_all add: GetProcessForKey_def)
    qed (use MDeliver keep keeps_refl [OF r] in simp)
  qed (use op in simp_all)
qed

section \<open>A run\<close>

text \<open>A chat is bound to a directory, its process starts, an input is on its way, and the process ends.\<close>

definition shop_key :: string where
  "shop_key = key_String \<lparr>pk_workspaceID = ''ws'', pk_imType = ''slack'', pk_chatID = ''C1''\<rparr>"

definition shop_env :: spawn_env where
  "shop_env = \<lparr>sv_config = Some (witness_config None), sv_admission = None, sv_started = Some (1, ''now''), sv_random = ''X'',
     sv_transfer = quiet\<rparr>"

definition empty_manager :: chord_manager where
  "empty_manager = new_manager \<lparr>ts_entries = [], ts_loadErr = None, ts_writeUncertain = False\<rparr>
     \<lparr>td_primary = fresh_file None, td_pending = fresh_file None\<rparr> None"

definition shop_process :: chord_process where
  "shop_process = on_state (control_state.st_BindingInstanceID_update (\<lambda>z. ''binding-X''))
     ((spawned (1, ''now''))\<lparr>px_bindingInstanceID := ''binding-X'', px_key := shop_key\<rparr>)"

definition shop_runtime :: "chord_process \<Rightarrow> runtime" where
  "shop_runtime p = \<lparr>rt_process = p, rt_cmd = True, rt_gate = None, rt_lease = None, rt_delivery = None,
     rt_terminated = False, rt_exitCode = 0, rt_stderr = newTailBuffer (64 * 1024)\<rparr>"

definition shop_manager :: "chord_process \<Rightarrow> chord_manager" where
  "shop_manager p = empty_manager\<lparr>cm_procs := [(shop_key, 0)], cm_heap := [shop_runtime p]\<rparr>"

lemma shop_key_workspace: "pk_workspaceID (parseProcessKey shop_key) = ''ws''"
  unfolding shop_key_def by (subst process_key_roundtrip) (simp_all add: key_valid_def ascii_eval)

lemma shop_args: "transferRestoreArgs [] z = z" "resume_arg [] y = y"
  by (cases z; simp) simp

lemma shop_start: "spawnWithArgsForKeyLocked shop_env shop_key [] empty_manager = (shop_manager shop_process, Inr (Some 0))"
proof -
  have "WorkspaceByID (witness_config None) ''ws'' \<noteq> None" by (simp add: WorkspaceByID_def witness_config_def)
  then show ?thesis
    by (simp add: spawnWithArgsForKeyLocked_def shop_key_workspace stop_current_def empty_manager_def new_manager_def GetProcessForKey_def
        shop_env_def start_runtime_def spawn_binding_def binding_of_def shop_args spawn_gate_def Blocked_def transfers_Get_def
        shop_manager_def shop_process_def shop_runtime_def spawned_def new_process_def Let_def)
qed

lemma shop_running: "manager_reach (shop_manager shop_process)"
proof -
  have "manager_step quiet (MSpawn shop_env shop_key []) empty_manager = shop_manager shop_process"
    using shop_start by (simp add: spawnWithArgsForKeyChatLocked_def empty_manager_def new_manager_def Blocked_def transfers_Get_def)
  then show ?thesis using manager_steps [OF manager_new] unfolding empty_manager_def by metis
qed

definition waiting_process :: chord_process where "waiting_process = shop_process\<lparr>px_pendingInputs := [''i1'']\<rparr>"

lemma shop_waiting: "manager_reach (shop_manager waiting_process)"
proof -
  have "same_identity shop_process waiting_process" by (simp add: same_identity_def waiting_process_def)
  moreover have "receipts_ok waiting_process"
    by (simp add: waiting_process_def shop_process_def spawned_def new_process_def zero_state_def receipts_ok_def queued_ok_def maxPendingInputs_def)
  ultimately have "manager_step quiet (MProcess 0 waiting_process) (shop_manager shop_process) = shop_manager waiting_process"
    by (simp add: shop_manager_def process_at_def shop_runtime_def)
  then show ?thesis using manager_steps [OF shop_running] by metis
qed

lemma shop_current: "GetProcessForKey shop_key (shop_manager p) = Some 0" "process_at 0 (shop_manager p) = p"
  by (simp_all add: shop_manager_def GetProcessForKey_def process_at_def shop_runtime_def)

section \<open>Properties\<close>

text \<open>C14: No operation that nobody asked for discards what a process leaves unresolved. Whatever run came before, when the
  process of a key holds an input without an answer, a queue or an uncertainty, then looking it up or starting one for
  any key, a stream that fails, its own exit, the restart after a crash, the idle loop and the sends leave it in its place with the evidence:
  only a stop, a replacement or the shutdown takes it away.\<close>

theorem evidence_survives:
  assumes "manager_reach m" and "GetProcessForKey key m = Some r" and "hasGuardedInputs (process_at r m)" and "automatic op"
  shows "GetProcessForKey key (manager_step e op m) = Some r \<and> hasGuardedInputs (process_at r (manager_step e op m))"
  by (rule evidence_step [OF manager_reach_ok [OF assms(1)] assms(2-4)])

lemma evidence_survives_witness:
  "GetProcessForKey shop_key (manager_step quiet (MExitBegin ''t'' 0) (shop_manager waiting_process)) = Some 0
   \<and> hasGuardedInputs (process_at 0 (manager_step quiet (MExitBegin ''t'' 0) (shop_manager waiting_process)))"
  by (rule evidence_survives [OF shop_waiting]) (simp_all add: shop_current hasGuardedInputs_def waiting_process_def)

text \<open>C25: No child is forgotten: in every run a live child that was not told to end is the current process of its key, or
  it is one the idle loop took out and is about to end.\<close>

theorem children_accounted:
  assumes "manager_reach m" and "r < length (cm_heap m)" and "runtime_alive (cm_heap m ! r)" and "\<not> rt_terminated (cm_heap m ! r)"
  shows "GetProcessForKey (px_key (process_at r m)) m = Some r \<or> r \<in> set (cm_idle m)"
  using manager_okD(6) [OF manager_reach_ok [OF assms(1)] assms(2)] assms(3,4) by (simp add: runtime_ok_def process_at_def)

lemma children_accounted_witness:
  "GetProcessForKey (px_key (process_at 0 (shop_manager shop_process))) (shop_manager shop_process) = Some 0
   \<or> 0 \<in> set (cm_idle (shop_manager shop_process))"
  by (rule children_accounted [OF shop_running])
    (simp_all add: shop_manager_def shop_runtime_def runtime_alive_def px_alive_def shop_process_def spawned_def new_process_def)

text \<open>C29: The map of processes is well typed in every run, whatever ends processes while they are in it: each key is there
  once and names a process that was started for that very key, so no two keys share one; and a process that was told to
  end, which a failed stream or a stop may leave in the map, is marked as stopped and its input is closed for good.\<close>

theorem manager_typed:
  assumes "manager_reach m"
  shows "distinct (map fst (cm_procs m)) \<and> distinct (map snd (cm_procs m))
     \<and> (\<forall>(key, r) \<in> set (cm_procs m). r < length (cm_heap m) \<and> px_key (process_at r m) = key)
     \<and> (\<forall>r < length (cm_heap m). rt_terminated (cm_heap m ! r) \<longrightarrow>
          px_stoppedByGateway (process_at r m) \<and> \<not> px_stdin (process_at r m))"
proof -
  note ok = manager_reach_ok [OF assms]
  have keys: "distinct (map fst (cm_procs m))" using manager_okD(7) [OF ok] by (simp add: wf_map_def)
  have entry: "r < length (cm_heap m) \<and> px_key (process_at r m) = key" if "(key, r) \<in> set (cm_procs m)" for key r
    using manager_okD(1,2) [OF ok, of key r] map_of_in_set [OF manager_okD(7) [OF ok]] that by (simp add: GetProcessForKey_def)
  have "inj_on snd (set (cm_procs m))"
  proof (rule inj_onI)
    fix x y assume "x \<in> set (cm_procs m)" "y \<in> set (cm_procs m)" "snd x = snd y"
    then show "x = y" using entry by (metis prod.collapse)
  qed
  moreover have "distinct (cm_procs m)" using keys by (simp add: distinct_map)
  ultimately have "distinct (map snd (cm_procs m))" by (simp add: distinct_map)
  moreover have "px_stoppedByGateway (process_at r m) \<and> \<not> px_stdin (process_at r m)"
    if "r < length (cm_heap m)" "rt_terminated (cm_heap m ! r)" for r
    using manager_okD(6) [OF ok that(1)] that(2) by (simp add: runtime_ok_def process_at_def)
  ultimately show ?thesis using keys entry by blast
qed

text \<open>A stream that failed leaves the process in the map, told to end.\<close>

lemma shop_failed: "manager_reach (manager_step quiet (MReadFailed 0) (shop_manager shop_process))"
  by (rule manager_steps [OF shop_running])

lemma shop_told:
  "GetProcessForKey shop_key (manager_step quiet (MReadFailed 0) (shop_manager shop_process)) = Some 0
   \<and> rt_terminated (cm_heap (manager_step quiet (MReadFailed 0) (shop_manager shop_process)) ! 0)
   \<and> length (cm_heap (manager_step quiet (MReadFailed 0) (shop_manager shop_process))) = 1"
proof -
  have "\<not> px_stoppedByGateway shop_process" by (simp add: shop_process_def spawned_def new_process_def)
  then have "manager_step quiet (MReadFailed 0) (shop_manager shop_process) = TerminateGroup quiet 0 (shop_manager shop_process)"
    by (simp add: read_failed_def process_at_def shop_manager_def shop_runtime_def)
  then show ?thesis using shop_current(1) by (simp add: terminate_heap shop_manager_def shop_runtime_def)
qed

lemma manager_typed_witness:
  "GetProcessForKey shop_key (manager_step quiet (MReadFailed 0) (shop_manager shop_process)) = Some 0
   \<and> px_stoppedByGateway (process_at 0 (manager_step quiet (MReadFailed 0) (shop_manager shop_process)))
   \<and> \<not> px_stdin (process_at 0 (manager_step quiet (MReadFailed 0) (shop_manager shop_process)))"
  using manager_typed [OF shop_failed] shop_told by auto

text \<open>
  The idle loop takes a process out of the map before it ends it, without the lifecycle lock of the key. Until its turn
  comes, a new input starts a second child for the same binding while the first still runs.
\<close>

lemma idle_overlap:
  "\<exists>m q r. manager_reach m \<and> q \<noteq> r \<and> q < length (cm_heap m) \<and> r < length (cm_heap m)
     \<and> runtime_alive (cm_heap m ! q) \<and> runtime_alive (cm_heap m ! r) \<and> \<not> rt_terminated (cm_heap m ! q) \<and> \<not> rt_terminated (cm_heap m ! r)
     \<and> px_key (process_at q m) = px_key (process_at r m)"
proof -
  define m1 where "m1 = (drop_runtime shop_key 0 (shop_manager shop_process))\<lparr>cm_idle := [0]\<rparr>"
  have idle: "idle_process 5 100 shop_process"
    by (simp add: idle_process_def inputBlocked_def hasGuardedInputs_def shop_process_def spawned_def new_process_def zero_state_def
        time_sub_def max_duration_def min_duration_def)
  have key: "px_key shop_process = shop_key" by (simp add: shop_process_def)
  have "manager_step quiet (MIdle 5 100 0) (shop_manager shop_process) = m1"
    using idle by (simp add: collect_idle_def shop_current key m1_def) (simp add: shop_manager_def empty_manager_def new_manager_def)
  then have r1: "manager_reach m1" using manager_steps [OF shop_running] by metis
  have m1: "m1 = empty_manager\<lparr>cm_procs := [], cm_heap := [shop_runtime shop_process], cm_idle := [0]\<rparr>"
    by (simp add: m1_def drop_runtime_def shop_manager_def shop_runtime_def cancelDelivery_def AList.delete_eq)
  define m2 where "m2 = empty_manager\<lparr>cm_procs := [(shop_key, 1)], cm_heap := [shop_runtime shop_process, shop_runtime shop_process], cm_idle := [0]\<rparr>"
  have "WorkspaceByID (witness_config None) ''ws'' \<noteq> None" by (simp add: WorkspaceByID_def witness_config_def)
  then have "manager_step quiet (MSpawn shop_env shop_key []) m1 = m2"
    by (simp add: m1 m2_def spawnWithArgsForKeyChatLocked_def Blocked_def transfers_Get_def spawnWithArgsForKeyLocked_def shop_key_workspace
        stop_current_def empty_manager_def new_manager_def GetProcessForKey_def shop_env_def start_runtime_def spawn_binding_def
        binding_of_def shop_args spawn_gate_def shop_process_def shop_runtime_def spawned_def new_process_def Let_def)
  then have "manager_reach m2" using manager_steps [OF r1] by metis
  then show ?thesis
    by (intro exI [of _ m2] exI [of _ "0::nat"] exI [of _ "1::nat"])
      (simp add: m2_def runtime_alive_def px_alive_def shop_runtime_def process_at_def shop_process_def spawned_def new_process_def)
qed

end
