(* ===== verification/OutboundTargets.thy ===== *)
theory OutboundTargets
  imports ManagerProps
begin

text \<open>
  Where a message may go, \<open>internal/gateway/outbound_target.go\<close>: the target of a binding, the check that it is still
  the one captured, and the context of a send. \<open>deliveryContext\<close> takes one lock after the other, of the pairing
  service, of the manager and of the lease, so a send is an automaton with a step for each, between which anything
  may happen to the gateway. A context that is derived from others is cancelled when one of them is.
\<close>

section \<open>Targets\<close>

record delivery_target =
  dt_Identity :: chat_identity
  dt_AccountEpoch :: "64 word"
  dt_BindingGeneration :: "64 word"
  dt_ProcessKey :: string
  dt_RuntimeInstanceID :: string
  dt_Lease :: "nat option"
  dt_Paired :: bool

datatype send_stage = SendChecked | SendAccount | SendRuntime | SendOpen

record send =
  sd_target :: delivery_target
  sd_stage :: send_stage
  sd_runtime :: "nat option"

text \<open>What a router sees; without an admission there is no pairing and no gate.\<close>

record delivery_world =
  dw_manager :: chord_manager
  dw_admission :: "admission option"
  dw_config :: "gateway_config option"
  dw_sends :: "(nat, send) gomap"

definition with_account :: "string \<Rightarrow> chat_identity \<Rightarrow> chat_identity" where
  "with_account account i = ChatIdentity (Platform i) account (ChatID i)"

definition live_lease :: "admission \<Rightarrow> chat_gate \<Rightarrow> nat option" where
  "live_lease a g = (case Snapshot g of (lease, generation, phase) \<Rightarrow>
     (case lease of None \<Rightarrow> None | Some l \<Rightarrow> if phase = PhaseActive \<and> \<not> bl_cancelled (adm_heap a ! l) then Some l else None))"

definition console_target :: "admission \<Rightarrow> string \<Rightarrow> delivery_target \<Rightarrow> delivery_target \<times> bool" where
  "console_target a ws t = (case map_of (adm_gates a) (dt_Identity t) of
     None \<Rightarrow> (t, True)
   | Some g \<Rightarrow> (case live_lease a g of
       None \<Rightarrow> (t, False)
     | Some l \<Rightarrow> if bl_WorkspaceID (adm_heap a ! l) \<noteq> ws then (t, False)
                 else (t\<lparr>dt_Lease := Some l, dt_BindingGeneration := cg_generation g\<rparr>, True)))"

definition paired_target :: "gateway_config \<Rightarrow> admission \<Rightarrow> string \<Rightarrow> delivery_target \<Rightarrow> delivery_target \<times> bool" where
  "paired_target cfg a ws t =
     (case IMConfigByType cfg (Platform (dt_Identity t)) of None \<Rightarrow> (t, False)
      | Some ad \<Rightarrow> (case OwnerIdentity ad of None \<Rightarrow> (t, False)
        | Some ow \<Rightarrow>
            if get_or '''' (adapter_Bindings ad) (ChatID (dt_Identity t)) \<noteq> ws then (t, False)
            else let t = t\<lparr>dt_Identity := with_account (ow_AccountID ow) (dt_Identity t)\<rparr> in
              case map_of (adm_gates a) (dt_Identity t) of None \<Rightarrow> (t, False)
              | Some g \<Rightarrow>
                  if adm_closed a then (t, False)
                  else case live_lease a g of None \<Rightarrow> (t, False)
                  | Some l \<Rightarrow> (t\<lparr>dt_Lease := Some l, dt_BindingGeneration := cg_generation g,
                        dt_AccountEpoch := bl_AccountEpoch (adm_heap a ! l)\<rparr>, True)))"

definition targetForKey :: "string \<Rightarrow> delivery_world \<Rightarrow> delivery_target \<times> bool" where
  "targetForKey key w =
     (let k = parseProcessKey key;
          t = \<lparr>dt_Identity = ChatIdentity (pk_imType k) '''' (pk_chatID k), dt_AccountEpoch = 0, dt_BindingGeneration = 0,
            dt_ProcessKey = key, dt_RuntimeInstanceID = (case GetProcessForKey key (dw_manager w) of None \<Rightarrow> ''''
              | Some r \<Rightarrow> px_bindingInstanceID (process_at r (dw_manager w))), dt_Lease = None, dt_Paired = False\<rparr> in
      case (dw_config w, dw_admission w) of
        (Some cfg, Some a) \<Rightarrow>
          if pk_imType k = ''console'' then console_target a (pk_workspaceID k) t
          else paired_target cfg a (pk_workspaceID k) (t\<lparr>dt_Paired := True\<rparr>)
      | z \<Rightarrow> (t, dw_admission w = None))"

text \<open>The account a target was made for is still the one of its platform.\<close>

definition account_state :: "delivery_target \<Rightarrow> admission \<Rightarrow> pairing_platform option" where
  "account_state t a = map_of (ps_platforms (adm_pairing a)) (Platform (dt_Identity t))"

definition same_account :: "delivery_target \<Rightarrow> pairing_platform \<Rightarrow> bool" where
  "same_account t s \<longleftrightarrow> \<not> pp_changed s \<and> pp_epoch s = dt_AccountEpoch t \<and> pp_account s = AccountID (dt_Identity t)"

definition account_current :: "delivery_target \<Rightarrow> delivery_world \<Rightarrow> bool" where
  "account_current t w \<longleftrightarrow> (case Option.bind (dw_admission w) (account_state t) of None \<Rightarrow> False | Some s \<Rightarrow> same_account t s)"

definition validTarget :: "delivery_target \<Rightarrow> delivery_world \<Rightarrow> bool" where
  "validTarget t w = (let (current, ok) = targetForKey (dt_ProcessKey t) w in
     if \<not> ok \<or> dt_RuntimeInstanceID current \<noteq> dt_RuntimeInstanceID t then False
     else if dt_Lease t = None then dt_Lease current = None
     else dt_Lease current = dt_Lease t \<and> (\<not> dt_Paired t \<or> account_current t w))"

section \<open>The context of a send\<close>

abbreviation put_send :: "nat \<Rightarrow> send \<Rightarrow> delivery_world \<Rightarrow> delivery_world" where
  "put_send i s w \<equiv> w\<lparr>dw_sends := AList.update i s (dw_sends w)\<rparr>"

definition refuse_send :: "nat \<Rightarrow> delivery_world \<Rightarrow> delivery_world" where
  "refuse_send i w = w\<lparr>dw_sends := AList.delete i (dw_sends w)\<rparr>"

definition deliver_check :: "nat \<Rightarrow> delivery_target \<Rightarrow> delivery_world \<Rightarrow> delivery_world" where
  "deliver_check i t w = (if validTarget t w then put_send i \<lparr>sd_target = t, sd_stage = SendChecked, sd_runtime = None\<rparr> w else w)"

definition deliver_account :: "nat \<Rightarrow> send \<Rightarrow> delivery_world \<Rightarrow> delivery_world" where
  "deliver_account i s w =
     (if dt_Paired (sd_target s) \<and> \<not> account_current (sd_target s) w then refuse_send i w
      else put_send i (s\<lparr>sd_stage := SendAccount\<rparr>) w)"

definition deliver_runtime :: "nat \<Rightarrow> send \<Rightarrow> delivery_world \<Rightarrow> delivery_world" where
  "deliver_runtime i s w =
     (let m = dw_manager w; t = sd_target s in
      case GetProcessForKey (dt_ProcessKey t) m of
        None \<Rightarrow> if dt_RuntimeInstanceID t \<noteq> '''' then refuse_send i w
                else put_send i (s\<lparr>sd_stage := SendRuntime\<rparr>) w
      | Some r \<Rightarrow>
          if px_bindingInstanceID (process_at r m) \<noteq> dt_RuntimeInstanceID t then refuse_send i w
          else put_send i (s\<lparr>sd_stage := SendRuntime, sd_runtime := Some r\<rparr>) (w\<lparr>dw_manager := on_runtime r open_delivery m\<rparr>))"

definition on_lease :: "nat \<Rightarrow> binding_lease \<Rightarrow> delivery_world \<Rightarrow> delivery_world" where
  "on_lease l x w = w\<lparr>dw_admission := map_option (\<lambda>a. a\<lparr>adm_heap := (adm_heap a)[l := x]\<rparr>) (dw_admission w)\<rparr>"

definition lease_of :: "nat \<Rightarrow> delivery_world \<Rightarrow> binding_lease" where
  "lease_of l w = adm_heap (the (dw_admission w)) ! l"

definition deliver_lease :: "nat \<Rightarrow> send \<Rightarrow> delivery_world \<Rightarrow> delivery_world" where
  "deliver_lease i s w = (case dt_Lease (sd_target s) of
     None \<Rightarrow> put_send i (s\<lparr>sd_stage := SendOpen\<rparr>) w
   | Some l \<Rightarrow> (let (x, ok) = BeginSend (lease_of l w) in
       if \<not> ok then refuse_send i w else put_send i (s\<lparr>sd_stage := SendOpen\<rparr>) (on_lease l x w)))"

text \<open>The end every caller defers; \<open>None\<close> would be the panic of a channel that is closed twice.\<close>

definition deliver_done :: "nat \<Rightarrow> send \<Rightarrow> delivery_world \<Rightarrow> delivery_world option" where
  "deliver_done i s w = (case dt_Lease (sd_target s) of
     None \<Rightarrow> Some (refuse_send i w)
   | Some l \<Rightarrow> map_option (\<lambda>x. refuse_send i (on_lease l x w)) (EndSend (lease_of l w)))"

text \<open>Whether the context of an admitted send has been cancelled by what it watches.\<close>

definition send_cancelled :: "send \<Rightarrow> delivery_world \<Rightarrow> bool" where
  "send_cancelled s w \<longleftrightarrow>
     (dt_Paired (sd_target s) \<and> (case Option.bind (dw_admission w) (account_state (sd_target s)) of None \<Rightarrow> True | Some p \<Rightarrow> pp_cancelled p))
     \<or> (case sd_runtime s of None \<Rightarrow> False | Some r \<Rightarrow> rt_delivery (cm_heap (dw_manager w) ! r) = Some True)
     \<or> (case dt_Lease (sd_target s) of None \<Rightarrow> False | Some l \<Rightarrow> bl_cancelled (lease_of l w))"

datatype delivery_event =
    OnManager takeover_env manager_op
  | OnAdmission admission_event
  | OnConfig "gateway_config option"
  | DeliverBegin nat delivery_target
  | DeliverNext nat
  | DeliverEnd nat

fun delivery_step :: "delivery_event \<Rightarrow> delivery_world \<Rightarrow> delivery_world option" where
  "delivery_step (OnManager e op) w = Some (w\<lparr>dw_manager := manager_step e op (dw_manager w)\<rparr>)"
| "delivery_step (OnAdmission ev) w = (case dw_admission w of None \<Rightarrow> Some w
     | Some a \<Rightarrow> map_option (\<lambda>a. w\<lparr>dw_admission := Some a\<rparr>) (admission_event_step ev a))"
| "delivery_step (OnConfig cfg) w = Some (w\<lparr>dw_config := cfg\<rparr>)"
| "delivery_step (DeliverBegin i t) w = (if map_of (dw_sends w) i \<noteq> None then Some w else Some (deliver_check i t w))"
| "delivery_step (DeliverNext i) w = (case map_of (dw_sends w) i of None \<Rightarrow> Some w
     | Some s \<Rightarrow> Some (case sd_stage s of SendChecked \<Rightarrow> deliver_account i s w | SendAccount \<Rightarrow> deliver_runtime i s w
         | SendRuntime \<Rightarrow> deliver_lease i s w | SendOpen \<Rightarrow> w))"
| "delivery_step (DeliverEnd i) w = (case map_of (dw_sends w) i of None \<Rightarrow> Some w
     | Some s \<Rightarrow> if sd_stage s = SendOpen then deliver_done i s w else Some w)"

definition quiet_world :: "chord_manager \<Rightarrow> pairing_service option \<Rightarrow> gateway_config option \<Rightarrow> delivery_world" where
  "quiet_world m p cfg = \<lparr>dw_manager = m, dw_admission = map_option NewAdmission p, dw_config = cfg, dw_sends = []\<rparr>"

inductive delivery_reach :: "delivery_world \<Rightarrow> bool" where
  delivery_new: "delivery_reach (quiet_world (new_manager s d pins) (map_option (\<lambda>(e, t). NewPairingService e t) p) cfg)"
| delivery_more: "delivery_reach w \<Longrightarrow> delivery_step ev w = Some w' \<Longrightarrow> delivery_reach w'"

section \<open>Chat operations\<close>

text \<open>
  \<open>chat_lifecycle.go\<close>: an operation on a chat remembers the lease of its binding when it is asked for, and runs, with
  the gate locked, only while that very lease is still in force.
\<close>

datatype chat_error = ChatDenied | ChatStopping | ChatBlocked

record chat_operation =
  co_key :: string
  co_gate :: "chat_identity option"
  co_lease :: "nat option"

definition operation_identity :: "gateway_config \<Rightarrow> admission \<Rightarrow> process_key \<Rightarrow> (chat_identity \<times> 64 word) option" where
  "operation_identity cfg a k =
     (if pk_imType k = ''console'' then Some (ChatIdentity ''console'' '''' (pk_chatID k), 0)
      else case Option.bind (IMConfigByType cfg (pk_imType k)) OwnerIdentity of None \<Rightarrow> None
      | Some ow \<Rightarrow> (case map_of (ps_platforms (adm_pairing a)) (pk_imType k) of None \<Rightarrow> None
        | Some s \<Rightarrow> if pp_changed s \<or> pp_account s \<noteq> ow_AccountID ow then None
                    else Some (ChatIdentity (pk_imType k) (ow_AccountID ow) (pk_chatID k), pp_epoch s)))"

definition resolves_to :: "gateway_config \<Rightarrow> process_key \<Rightarrow> bool" where
  "resolves_to cfg k \<longleftrightarrow> (case ResolveWorkspace cfg (pk_imType k) (pk_chatID k) of Inl e \<Rightarrow> False | Inr ws \<Rightarrow> ws_ID ws = pk_workspaceID k)"

definition captureChatOperation :: "gateway_config \<Rightarrow> string \<Rightarrow> admission option \<Rightarrow> admission option \<times> (chat_error + chat_operation)" where
  "captureChatOperation cfg key adm = (case adm of
     None \<Rightarrow> (None, Inr \<lparr>co_key = key, co_gate = None, co_lease = None\<rparr>)
   | Some a \<Rightarrow>
       let k = parseProcessKey key in
       if \<not> resolves_to cfg k then (adm, Inl ChatDenied)
       else case operation_identity cfg a k of None \<Rightarrow> (adm, Inl ChatDenied)
       | Some (i, epoch) \<Rightarrow> (case admission_gate i (pk_workspaceID k) epoch a of
           (a, None) \<Rightarrow> (Some a, Inl ChatStopping)
         | (a, Some g) \<Rightarrow> (case Snapshot g of (lease, generation, phase) \<Rightarrow>
             (Some a, if lease = None then Inl ChatBlocked else Inr \<lparr>co_key = key, co_gate = Some i, co_lease = lease\<rparr>))))"

text \<open>\<open>validLocked\<close>; the ticket it makes up is checked like any other.\<close>

definition operation_ticket :: "chat_identity \<Rightarrow> string \<Rightarrow> 64 word \<Rightarrow> 64 word \<Rightarrow> chat_identity \<Rightarrow> admission_ticket" where
  "operation_ticket i user epoch generation gate = zero_ticket\<lparr>at_Kind := ''paired_task'', at_Identity := i, at_SenderID := user,
     at_AccountEpoch := epoch, at_BindingGeneration := generation, at_Gate := Some gate\<rparr>"

definition validLocked :: "bool \<Rightarrow> config_view \<Rightarrow> gotime \<Rightarrow> chat_operation \<Rightarrow> admission option \<Rightarrow> bool" where
  "validLocked stopping cv now op adm =
     (if stopping then False
      else case (co_gate op, adm) of
        (Some i, Some a) \<Rightarrow>
          (case map_of (adm_gates a) i of None \<Rightarrow> False
           | Some g \<Rightarrow>
               let (lease, generation, phase) = Snapshot g; k = parseProcessKey (co_key op) in
               if phase \<noteq> PhaseActive \<or> lease \<noteq> co_lease op then False
               else case lease of None \<Rightarrow> False
               | Some l \<Rightarrow>
                   let x = adm_heap a ! l in
                   if bl_cancelled x \<or> \<not> resolves_to (cv_config cv) k \<or> bl_WorkspaceID x \<noteq> pk_workspaceID k then False
                   else if pk_imType k = ''console'' then True
                   else case Option.bind (IMConfigByType (cv_config cv) (pk_imType k)) OwnerIdentity of None \<Rightarrow> False
                   | Some ow \<Rightarrow> Valid cv now (operation_ticket (bl_Identity x) (ow_UserID ow) (bl_AccountEpoch x) generation i) a = Some True)
      | z \<Rightarrow> co_gate op = None)"

definition chat_acquire :: "bool \<Rightarrow> config_view \<Rightarrow> gotime \<Rightarrow> chat_operation \<Rightarrow> admission option \<Rightarrow> chat_error option" where
  "chat_acquire stopping cv now op adm =
     (if stopping then Some ChatStopping
      else if co_gate op = None then None
      else if validLocked stopping cv now op adm then None else Some ChatDenied)"

end
