(* ===== verification/DeliveryProps.thy ===== *)
theory DeliveryProps
  imports OutboundTargets
begin

text \<open>
  Sends while everything around them changes: bindings are switched, accounts change, processes come and go. What a
  send was admitted for stays so until its context is cancelled, a lease counts exactly its sends, and an operation on
  a chat never runs after the chat was switched.
\<close>

section \<open>Leases while the admission moves on\<close>

definition leases_ok :: "admission \<Rightarrow> bool" where
  "leases_ok a \<longleftrightarrow> wf_map (adm_gates a) \<and> (\<forall>l < length (adm_heap a). lease_ok (adm_heap a ! l))
     \<and> (\<forall>i g l. map_of (adm_gates a) i = Some g \<and> cg_lease g = Some l \<longrightarrow> l < length (adm_heap a))"

text \<open>A step of the heap of leases: more leases, no send counted or forgotten, nothing cancelled comes back.\<close>

definition heap_step :: "lease_heap \<Rightarrow> lease_heap \<Rightarrow> bool" where
  "heap_step h h' \<longleftrightarrow> length h \<le> length h' \<and> (\<forall>l < length h'. lease_ok (h' ! l))
     \<and> (\<forall>l < length h. bl_sends (h' ! l) = bl_sends (h ! l) \<and> (bl_closing (h ! l) \<longrightarrow> bl_closing (h' ! l)))
     \<and> (\<forall>l. length h \<le> l \<and> l < length h' \<longrightarrow> bl_sends (h' ! l) = 0)"

definition leases_step :: "admission \<Rightarrow> admission \<Rightarrow> bool" where
  "leases_step a a' \<longleftrightarrow> wf_map (adm_gates a') \<and> heap_step (adm_heap a) (adm_heap a')
     \<and> (\<forall>i g l. map_of (adm_gates a') i = Some g \<and> cg_lease g = Some l \<longrightarrow> l < length (adm_heap a')
        \<and> (l < length (adm_heap a) \<longrightarrow> (\<exists>g0. map_of (adm_gates a) i = Some g0 \<and> cg_lease g0 = Some l)))"

lemma leases_step_ok: "leases_step a a' \<Longrightarrow> leases_ok a'"
  by (auto simp: leases_step_def leases_ok_def heap_step_def)

lemma heap_step_refl: "\<forall>l < length h. lease_ok (h ! l) \<Longrightarrow> heap_step h h"
  by (simp add: heap_step_def)

lemma heap_step_trans:
  assumes "heap_step h h'" and "heap_step h' h''"
  shows "heap_step h h''"
proof -
  have "bl_sends (h'' ! l) = 0" if "length h \<le> l" "l < length h''" for l
    using assms that by (cases "l < length h'") (auto simp: heap_step_def)
  with assms show ?thesis by (auto simp: heap_step_def)
qed

lemma new_lease_sends: "bl_sends (NewBindingLease i ws e g) = 0"
  by (simp add: NewBindingLease_def)

lemma heap_step_install: "\<forall>l < length h. lease_ok (h ! l) \<Longrightarrow> heap_step h (h @ [NewBindingLease i ws e g])"
  using lease_ok_new [of i ws e g] by (auto simp: heap_step_def nth_append less_Suc_eq new_lease_sends)

lemma lease_Close_sends: "lease_Close x = Some y \<Longrightarrow> bl_sends y = bl_sends x \<and> bl_closing y"
  by (auto simp: lease_Close_def close_drained_def Let_def split: if_splits)

lemma heap_step_close:
  assumes "\<forall>l < length h. lease_ok (h ! l)" and "l < length h" and "lease_Close (h ! l) = Some x"
  shows "heap_step h (h[l := x])"
proof -
  have "lease_ok x" using lease_ok_close [of "h ! l"] assms by auto
  with assms lease_Close_sends [OF assms(3)] show ?thesis by (auto simp: heap_step_def nth_list_update)
qed

lemma leases_okD:
  assumes "leases_ok a"
  shows "\<forall>l < length (adm_heap a). lease_ok (adm_heap a ! l)"
    and "map_of (adm_gates a) i = Some g \<Longrightarrow> cg_lease g = Some l \<Longrightarrow> l < length (adm_heap a)"
    and "wf_map (adm_gates a)"
  using assms unfolding leases_ok_def by blast+

lemma leases_step_same:
  assumes "leases_ok a" and "adm_heap a' = adm_heap a" and "adm_gates a' = adm_gates a"
  shows "leases_step a a'"
  using assms heap_step_refl [OF leases_okD(1) [OF assms(1)]] leases_okD(2,3) [OF assms(1)] by (auto simp: leases_step_def)

lemma close_gates_step:
  assumes "close_gates gs h = Some h'" and "\<forall>l < length h. lease_ok (h ! l)" and "\<forall>g \<in> set gs. \<forall>l. cg_lease g = Some l \<longrightarrow> l < length h"
  shows "heap_step h h' \<and> (\<forall>g \<in> set gs. \<forall>l. cg_lease g = Some l \<longrightarrow> bl_closing (h' ! l))"
  using assms
proof (induction gs arbitrary: h)
  case Nil
  then show ?case by (simp add: heap_step_refl)
next
  case (Cons g gs)
  show ?case
  proof (cases "cg_lease g")
    case None
    with Cons show ?thesis by simp
  next
    case (Some l)
    then obtain x where x: "lease_Close (h ! l) = Some x" "close_gates gs (h[l := x]) = Some h'"
      using Cons.prems(1) by (auto simp: close_lease_def split: Option.bind_splits)
    have bound: "l < length h" using Cons.prems(3) Some by simp
    have s: "heap_step h (h[l := x])" by (rule heap_step_close [OF Cons.prems(2) bound x(1)])
    then have "\<forall>q < length (h[l := x]). lease_ok (h[l := x] ! q)" by (simp add: heap_step_def)
    then have IH: "heap_step (h[l := x]) h' \<and> (\<forall>g \<in> set gs. \<forall>l. cg_lease g = Some l \<longrightarrow> bl_closing (h' ! l))"
      using Cons.IH [OF x(2)] Cons.prems(3) by simp
    have "bl_closing (h' ! l)" using IH bound lease_Close_sends [OF x(1)] by (auto simp: heap_step_def)
    with IH s Some heap_step_trans show ?thesis by auto
  qed
qed

text \<open>The operations on one gate.\<close>

lemma on_gate_step:
  assumes ok: "leases_ok a" and step: "on_gate i f a = Some a'"
    and f: "\<And>g h g'. map_of (adm_gates a) i = Some g \<Longrightarrow> f (adm_heap a, g) = Some (h, g') \<Longrightarrow>
      heap_step (adm_heap a) h \<and> (\<forall>l. cg_lease g' = Some l \<longrightarrow> l < length h \<and> (l < length (adm_heap a) \<longrightarrow> cg_lease g = Some l))"
  shows "leases_step a a'"
proof (cases "map_of (adm_gates a) i")
  case None
  with step ok show ?thesis by (simp add: on_gate_def leases_step_same)
next
  case (Some g)
  then obtain h g' where fg: "f (adm_heap a, g) = Some (h, g')"
    and a': "a' = a\<lparr>adm_gates := AList.update i g' (adm_gates a), adm_heap := h\<rparr>"
    using step by (auto simp: on_gate_def)
  note s = f [OF Some fg]
  have other: "l < length h" if "map_of (adm_gates a) k = Some g0" "cg_lease g0 = Some l" for k g0 l
    using leases_okD(2) [OF ok that] s by (simp add: heap_step_def)
  show ?thesis using s Some other leases_okD(3) [OF ok] by (auto simp: leases_step_def a' split: if_splits)
qed

lemma gate_install_step:
  assumes "leases_ok a"
  shows "on_gate i (\<lambda>hg. Some (Install x ws e hg)) a = Some a' \<Longrightarrow> leases_step a a'"
  by (rule on_gate_step [OF assms]) (use heap_step_install [OF leases_okD(1) [OF assms]] in \<open>auto simp: Install_def Let_def\<close>)

lemma gate_switch_step:
  assumes "leases_ok a"
  shows "on_gate i (\<lambda>hg. map_option (\<lambda>(h, g, r). (h, g)) (Switching hg)) a = Some a' \<Longrightarrow> leases_step a a'"
proof (rule on_gate_step [OF assms])
  fix g h g'
  assume g: "map_of (adm_gates a) i = Some g" and s: "map_option (\<lambda>(h, g, r). (h, g)) (Switching (adm_heap a, g)) = Some (h, g')"
  show "heap_step (adm_heap a) h \<and> (\<forall>l. cg_lease g' = Some l \<longrightarrow> l < length h \<and> (l < length (adm_heap a) \<longrightarrow> cg_lease g = Some l))"
  proof (cases "cg_lease g")
    case None
    with s show ?thesis using heap_step_refl [OF leases_okD(1) [OF assms]] by (auto simp: Switching_def Let_def)
  next
    case (Some l)
    then obtain x where x: "lease_Close (adm_heap a ! l) = Some x" "h = (adm_heap a)[l := x]" "cg_lease g' = Some l"
      using s by (auto simp: Switching_def Let_def split: option.splits)
    then show ?thesis using heap_step_close [OF leases_okD(1) [OF assms] leases_okD(2) [OF assms g Some] x(1)] leases_okD(2) [OF assms g Some] Some
      by simp
  qed
qed

lemma gate_phase_step:
  assumes "leases_ok a" and "\<And>g. cg_lease (f g) = cg_lease g"
  shows "on_gate i (\<lambda>(h, g). Some (h, f g)) a = Some a' \<Longrightarrow> leases_step a a'"
  by (rule on_gate_step [OF assms(1)])
    (use heap_step_refl [OF leases_okD(1) [OF assms(1)]] leases_okD(2) [OF assms(1)] assms(2) in auto)

lemma admission_gate_step:
  assumes ok: "leases_ok a"
  shows "leases_step a (fst (admission_gate i ws e a))"
proof (cases "adm_closed a \<or> map_of (adm_gates a) i \<noteq> None")
  case True
  then have "fst (admission_gate i ws e a) = a" by (auto simp: admission_gate_def)
  with leases_step_same [OF ok] show ?thesis by simp
next
  case False
  obtain h g where g: "new_gate i ws e (adm_heap a) = (h, g)" by (cases "new_gate i ws e (adm_heap a)")
  have a': "fst (admission_gate i ws e a) = a\<lparr>adm_gates := AList.update i g (adm_gates a), adm_heap := h\<rparr>"
    using False g by (simp add: admission_gate_def)
  have h: "heap_step (adm_heap a) h" and l: "\<And>l. cg_lease g = Some l \<Longrightarrow> l = length (adm_heap a) \<and> l < length h"
    using g heap_step_refl [OF leases_okD(1) [OF ok]] heap_step_install [OF leases_okD(1) [OF ok]]
    by (auto simp: new_gate_def NewChatGate_def Install_def Let_def split: if_splits)
  have other: "l < length h" if "map_of (adm_gates a) k = Some g0" "cg_lease g0 = Some l" for k g0 l
    using leases_okD(2) [OF ok that] h by (simp add: heap_step_def)
  show ?thesis using h l other leases_okD(3) [OF ok] unfolding a' by (auto simp: leases_step_def split: if_splits)
qed

lemma authorize_step:
  assumes ok: "leases_ok a"
  shows "leases_step a (fst (authorize cv now charge m a))"
proof -
  have p: "leases_ok (a\<lparr>adm_pairing := p\<rparr>)" for p using ok by (simp add: leases_ok_def)
  have s: "leases_step a (a\<lparr>adm_pairing := p\<rparr>)" for p using ok by (rule leases_step_same) simp_all
  have g: "leases_step a (fst (admission_gate i ws e (a\<lparr>adm_pairing := p\<rparr>)))" for i ws e p
    using admission_gate_step [OF p, of p i ws e] by (simp add: leases_step_def) blast
  have gp: "leases_step a x" if "admission_gate i ws e (a\<lparr>adm_pairing := p\<rparr>) = (x, y)" for i ws e p x y
    using g [of i ws e p] that by simp
  show ?thesis
    using s gp leases_step_same [OF ok] unfolding authorize_def
    by (auto simp: Let_def Snapshot_def split: prod.split option.split)
qed

lemma admission_leases:
  assumes ok: "leases_ok a" and step: "admission_event_step ev a = Some a'"
  shows "leases_step a a'"
proof (cases ev)
  case EClose
  then obtain h where h: "close_gates (map snd (adm_gates a)) (adm_heap a) = Some h" and heap: "adm_heap a' = h" "adm_gates a' = adm_gates a"
    using step by (auto simp: admission_Close_def)
  have "\<forall>g \<in> set (map snd (adm_gates a)). \<forall>l. cg_lease g = Some l \<longrightarrow> l < length (adm_heap a)"
    using leases_okD(2) [OF ok] map_of_in_set [OF leases_okD(3) [OF ok]] by fastforce
  from close_gates_step [OF h leases_okD(1) [OF ok] this] have "heap_step (adm_heap a) h" by blast
  moreover from this have "length (adm_heap a) \<le> length h" by (simp add: heap_step_def)
  ultimately show ?thesis using leases_okD(2,3) [OF ok] unfolding leases_step_def heap by (meson order_less_le_trans)
next
  case (EBlock i)
  then show ?thesis using step by (intro gate_phase_step [OF ok, of Block i]) (simp_all add: Block_def)
next
  case (EUnbound i)
  then show ?thesis using step by (intro gate_phase_step [OF ok, of SetUnbound i]) (simp_all add: SetUnbound_def)
qed (use assms in \<open>auto simp: on_pairing_def intro: leases_step_same gate_install_step gate_switch_step authorize_step\<close>)

section \<open>Accounts\<close>

definition platform_evolves :: "pairing_platform \<Rightarrow> pairing_platform \<Rightarrow> bool" where
  "platform_evolves s s' \<longleftrightarrow> (pp_cancelled s \<longrightarrow> pp_cancelled s')
     \<and> (pp_cancelled s' \<or> pp_epoch s' = pp_epoch s \<and> pp_account s' = pp_account s \<and> pp_changed s' = pp_changed s)"

lemma platform_evolves_refl: "platform_evolves s s" by (simp add: platform_evolves_def)

lemma ready_evolves:
  assumes "map_of (ps_platforms p) plat = Some s"
  shows "\<exists>s1. map_of (ps_platforms (fst (ready_locked cfg env platform account pres p))) plat = Some s1 \<and> platform_evolves s s1"
proof -
  have prep: "ps_platforms (fst (preparePairingCode cfg env q)) = ps_platforms q" for q
    by (auto simp: preparePairingCode_def Let_def split_beta split: option.splits)
  show ?thesis
    using assms
    by (auto simp: ready_locked_def put_platform_def account_changed_def prep platform_evolves_def Let_def update_conv' split: option.splits)
qed

lemma event_evolves:
  assumes s: "map_of (ps_platforms (adm_pairing a)) plat = Some s" and step: "admission_event_step e a = Some a1"
  shows "\<exists>s1. map_of (ps_platforms (adm_pairing a1)) plat = Some s1 \<and> platform_evolves s s1"
proof (cases e)
  case (EReady cfg env platform account pres)
  with step ready_evolves [OF s, of cfg env platform account pres] show ?thesis by (auto simp: on_pairing_def)
next
  case (EAuthorize cv now charge m)
  have spend: "pp_cancelled (fst (pairing_spend now s)) = pp_cancelled s" "pp_epoch (fst (pairing_spend now s)) = pp_epoch s"
    "pp_account (fst (pairing_spend now s)) = pp_account s" "pp_changed (fst (pairing_spend now s)) = pp_changed s"
    by (simp_all add: pairing_spend_def split_beta)
  from authorize_platform [OF s, of cv now charge m] obtain s1 hints where
    s1: "map_of (ps_platforms (adm_pairing a1)) plat = Some s1"
      "s1 = (if charge \<and> im_IMType m = plat \<and> reaches_budget cv m s then fst (pairing_spend now s) else s)\<lparr>pp_hints := hints\<rparr>"
    using step EAuthorize by auto
  then show ?thesis by (auto simp: platform_evolves_def spend)
next
  case EClose
  then have "map_of (ps_platforms (adm_pairing a1)) plat = Some (s\<lparr>pp_cancelled := True\<rparr>)"
    using assms by (auto simp: admission_Close_def cancel_platforms_def map_of_map)
  then show ?thesis by (auto simp: platform_evolves_def)
next
  case (EUnavailable platform)
  with assms show ?thesis
    by (auto simp: on_pairing_def PlatformUnavailable_def put_platform_def platform_evolves_def update_conv' split: option.splits)
next
  case (EBegin cfg env)
  with assms show ?thesis
    by (auto simp: on_pairing_def platform_evolves_refl preparePairingCode_def Let_def split_beta split: option.splits)
qed (use assms in \<open>auto simp: on_pairing_def platform_evolves_refl forgetCode_def dest!: on_gate_pairing\<close>)

definition account_promise :: "delivery_target \<Rightarrow> admission \<Rightarrow> bool" where
  "account_promise t a \<longleftrightarrow> (case account_state t a of None \<Rightarrow> False | Some p \<Rightarrow> pp_cancelled p \<or> same_account t p)"

lemma promise_step:
  assumes "account_promise t a" and "admission_event_step e a = Some a1"
  shows "account_promise t a1"
proof -
  obtain p where p: "account_state t a = Some p" "pp_cancelled p \<or> same_account t p"
    using assms(1) by (auto simp: account_promise_def split: option.splits)
  obtain p1 where "account_state t a1 = Some p1" "platform_evolves p p1"
    using event_evolves [OF p(1) [unfolded account_state_def] assms(2)] by (auto simp: account_state_def)
  with p(2) show ?thesis by (auto simp: account_promise_def platform_evolves_def same_account_def)
qed

section \<open>Processes\<close>

definition runtimes_keep :: "chord_manager \<Rightarrow> chord_manager \<Rightarrow> bool" where
  "runtimes_keep m m' \<longleftrightarrow> length (cm_heap m) \<le> length (cm_heap m') \<and> (\<forall>r < length (cm_heap m).
     px_key (process_at r m') = px_key (process_at r m) \<and> px_bindingInstanceID (process_at r m') = px_bindingInstanceID (process_at r m)
     \<and> (rt_delivery (cm_heap m ! r) \<noteq> None \<longrightarrow> rt_delivery (cm_heap m' ! r) \<noteq> None))"

lemma runtimes_refl: "cm_heap m' = cm_heap m \<Longrightarrow> runtimes_keep m m'"
  by (simp add: runtimes_keep_def process_at_def)

lemma runtimes_trans: "runtimes_keep m m1 \<Longrightarrow> runtimes_keep m1 m2 \<Longrightarrow> runtimes_keep m m2"
  by (auto simp: runtimes_keep_def)

lemma runtimes_one:
  assumes "cm_heap m' = (cm_heap m)[r := rt]" and "evolves (rt_process (cm_heap m ! r)) (rt_process rt)"
    and "rt_delivery (cm_heap m ! r) \<noteq> None \<longrightarrow> rt_delivery rt \<noteq> None"
  shows "runtimes_keep m m'"
proof -
  have "cm_heap m' ! q = (if q = r then rt else cm_heap m ! q)" if "q < length (cm_heap m)" for q
    using that by (cases "q = r") (simp_all add: assms(1))
  moreover have "length (cm_heap m') = length (cm_heap m)" by (simp add: assms(1))
  ultimately show ?thesis using assms(2,3) by (simp add: runtimes_keep_def process_at_def evolves_def)
qed

lemma runtimes_drop: "runtimes_keep m (drop_runtime key r m)"
  by (rule runtimes_one [of _ _ r "cancelDelivery (cm_heap m ! r)"]) (simp_all add: drop_runtime_def evolves_refl cancelDelivery_def)

lemma runtimes_terminate: "runtimes_keep m (TerminateGroup e r m)"
proof (cases "rt_terminated (cm_heap m ! r)")
  case True
  then show ?thesis by (simp add: runtimes_refl terminate_heap)
next
  case False
  show ?thesis
    by (rule runtimes_one [of _ _ r "(cm_heap m ! r)\<lparr>rt_terminated := True, rt_process := stopped_process (process_at r m)\<rparr>"])
      (use False evolves_stopped [of "process_at r m"] in \<open>simp_all add: terminate_heap process_at_def\<close>)
qed

lemma runtimes_stop: "runtimes_keep m (stop_current e key m)"
  by (auto simp: stop_current_def runtimes_refl split: option.split intro: runtimes_trans [OF runtimes_drop runtimes_terminate])

lemma runtimes_start: "runtimes_keep m (fst (start_runtime v cfg key args m))"
proof -
  obtain m' res where s: "start_runtime v cfg key args m = (m', res)" by (cases "start_runtime v cfg key args m")
  then show ?thesis
  proof (cases rule: start_runtime_cases)
    case 1
    then show ?thesis by (simp add: s runtimes_refl)
  next
    case (2 p gate lease)
    then show ?thesis by (simp add: s runtimes_keep_def process_at_def nth_append)
  qed
qed

lemma runtimes_spawn: "runtimes_keep m (fst (spawnWithArgsForKeyLocked v key args m))"
  using runtimes_stop runtimes_trans [OF runtimes_stop runtimes_start]
  by (simp add: spawnWithArgsForKeyLocked_def Let_def split: option.split)

lemma runtimes_fresh: "runtimes_keep m (fst (spawn_fresh v key m))"
  by (simp add: spawn_fresh_def Let_def runtimes_spawn runtimes_refl split: option.split)

lemma runtimes_find: "runtimes_keep m (fst (getOrSpawnForKeyChatLocked v key m))"
proof -
  have "runtimes_keep m (removeProcessIfCurrent key r m)" for r
    by (simp add: removeProcessIfCurrent_def runtimes_drop runtimes_refl)
  then have "runtimes_keep m (fst (spawn_fresh v key (removeProcessIfCurrent key r m)))" for r
    using runtimes_fresh runtimes_trans by blast
  then show ?thesis by (simp add: getOrSpawnForKeyChatLocked_def Let_def runtimes_fresh runtimes_refl split: option.split)
qed

lemma runtimes_fold_terminate: "runtimes_keep m (fold (TerminateGroup e) rs m)"
  by (induction rs arbitrary: m) (auto simp: runtimes_refl intro: runtimes_trans [OF runtimes_terminate])

lemma runtimes_fold_cancel: "runtimes_keep m (fold (\<lambda>r. on_runtime r cancelDelivery) rs m)"
proof (induction rs arbitrary: m)
  case (Cons r rs)
  have "runtimes_keep m (on_runtime r cancelDelivery m)"
    by (rule runtimes_one [of _ _ r "cancelDelivery (cm_heap m ! r)"]) (simp_all add: evolves_refl cancelDelivery_def)
  with Cons runtimes_trans show ?case by simp
qed (simp add: runtimes_refl)

lemma runtimes_all: "runtimes_keep m (stop_all e m)"
proof -
  have "runtimes_keep x (x\<lparr>cm_procs := []\<rparr>)" for x by (simp add: runtimes_refl)
  then show ?thesis unfolding stop_all_def Let_def
    using runtimes_trans runtimes_fold_cancel runtimes_fold_terminate by meson
qed

lemma runtimes_step: "runtimes_keep m (manager_step e op m)"
proof (cases op)
  case (MExitBegin now r)
  have "runtimes_keep m (fst (exit_begin now r m))"
    by (rule runtimes_one [of _ _ r "(cm_heap m ! r)\<lparr>rt_process := exited_process now (rt_process (cm_heap m ! r))\<rparr>"])
      (simp_all add: exit_begin_def Let_def evolves_exited)
  with MExitBegin show ?thesis by (simp add: runtimes_refl)
next
  case (MExitEnd code r restart)
  have "runtimes_keep m (fst (exit_end e code r restart m))"
    by (rule runtimes_one [of _ _ r "waitAndRecordExit code (cm_heap m ! r)"])
      (simp_all add: exit_end_def Let_def split_beta evolves_exit_code, simp add: waitAndRecordExit_def)
  with MExitEnd show ?thesis by (simp add: runtimes_refl)
next
  case (MIdle timeout now r)
  have "runtimes_keep x (x\<lparr>cm_idle := l\<rparr>)" for x l by (simp add: runtimes_refl)
  then have "runtimes_keep m ((drop_runtime key r m)\<lparr>cm_idle := l\<rparr>)" for key l
    by (rule runtimes_trans [OF runtimes_drop])
  then have "runtimes_keep m (collect_idle timeout now r m)"
    by (simp add: collect_idle_def Let_def runtimes_refl)
  with MIdle show ?thesis by (simp add: runtimes_refl)
next
  case (MIdleStop now)
  have "runtimes_keep m (stop_idle e now m)"
  proof (cases "cm_idle m")
    case (Cons r rs)
    have "runtimes_keep m (on_runtime r (\<lambda>rt. rt\<lparr>rt_process := expire_pending now (rt_process rt)\<rparr>) (m\<lparr>cm_idle := rs\<rparr>))"
      by (rule runtimes_one [of _ _ r "(cm_heap m ! r)\<lparr>rt_process := expire_pending now (rt_process (cm_heap m ! r))\<rparr>"])
        (simp_all add: evolves_expired)
    with runtimes_trans [OF _ runtimes_terminate] show ?thesis by (simp add: stop_idle_def Cons)
  qed (simp add: stop_idle_def runtimes_refl)
  with MIdleStop show ?thesis by simp
next
  case (MDeliver key)
  have "runtimes_keep m (on_runtime r open_delivery m)" for r
    by (rule runtimes_one [of _ _ r "open_delivery (cm_heap m ! r)"]) (simp_all add: open_delivery_def evolves_refl)
  with MDeliver show ?thesis by (simp add: runtimes_refl split: option.split)
next
  case (MProcess r q)
  have "runtimes_keep m (on_runtime r (\<lambda>rt. rt\<lparr>rt_process := q\<rparr>) m)" if "same_identity (process_at r m) q" "receipts_ok q"
    by (rule runtimes_one [of _ _ r "(cm_heap m ! r)\<lparr>rt_process := q\<rparr>"])
      (use that in \<open>auto simp: evolves_def same_identity_def process_at_def\<close>)
  with MProcess show ?thesis by (simp add: runtimes_refl)
next
  case (MReadFailed r)
  then show ?thesis by (simp add: read_failed_def runtimes_terminate runtimes_refl)
next
  case (MReap code r)
  have "runtimes_keep m (on_runtime r (waitAndRecordExit code) m)"
    by (rule runtimes_one [of _ _ r "waitAndRecordExit code (cm_heap m ! r)"]) (simp_all add: evolves_exit_code, simp add: waitAndRecordExit_def)
  with MReap show ?thesis by (simp add: runtimes_refl)
next
  case (MStopAndWait r)
  have "runtimes_keep m (StopAndWait r m)"
    by (rule runtimes_one [of _ _ r "stopped_runtime (cm_heap m ! r)"]) (simp_all add: StopAndWait_def evolves_halted, simp add: stopped_runtime_def Let_def)
  with MStopAndWait show ?thesis by (simp add: runtimes_refl)
next
  case (MStopConfirmed key r)
  then show ?thesis by (simp add: stop_confirmed_def removeProcessIfCurrent_def runtimes_drop runtimes_refl)
next
  case (MDiscard key r)
  then show ?thesis
    by (simp add: discard_started_def removeProcessIfCurrent_def runtimes_refl runtimes_terminate runtimes_trans [OF runtimes_drop runtimes_terminate])
qed (simp_all add: runtimes_find spawnWithArgsForKeyChatLocked_def runtimes_spawn stopProcessKeyChatLocked_def runtimes_stop requestShutdown_def
    runtimes_refl runtimes_all auto_restart_def Let_def)

section \<open>The invariant of sends\<close>

definition holds :: "nat \<Rightarrow> send \<Rightarrow> int" where
  "holds l s = of_bool (sd_stage s = SendOpen \<and> dt_Lease (sd_target s) = Some l)"

definition runtime_promise :: "chord_manager \<Rightarrow> send \<Rightarrow> bool" where
  "runtime_promise m s \<longleftrightarrow> (sd_stage s = SendChecked \<or> sd_stage s = SendAccount \<longrightarrow> sd_runtime s = None)
     \<and> (sd_stage s = SendRuntime \<or> sd_stage s = SendOpen \<longrightarrow> (case sd_runtime s of
       None \<Rightarrow> dt_RuntimeInstanceID (sd_target s) = ''''
     | Some r \<Rightarrow> r < length (cm_heap m) \<and> px_key (process_at r m) = dt_ProcessKey (sd_target s)
         \<and> px_bindingInstanceID (process_at r m) = dt_RuntimeInstanceID (sd_target s) \<and> rt_delivery (cm_heap m ! r) \<noteq> None))"

definition admission_promise :: "admission option \<Rightarrow> send \<Rightarrow> bool" where
  "admission_promise adm s \<longleftrightarrow>
     (\<forall>l. dt_Lease (sd_target s) = Some l \<longrightarrow> (\<exists>a. adm = Some a \<and> l < length (adm_heap a)))
     \<and> (dt_Paired (sd_target s) \<and> sd_stage s \<noteq> SendChecked \<longrightarrow> (\<exists>a. adm = Some a \<and> account_promise (sd_target s) a))"

definition lease_counts :: "admission option \<Rightarrow> (nat, send) gomap \<Rightarrow> bool" where
  "lease_counts adm ss \<longleftrightarrow> (\<forall>a. adm = Some a \<longrightarrow> leases_ok a \<and> (\<forall>l < length (adm_heap a). bl_sends (adm_heap a ! l) = gsum (holds l) ss))"

definition world_ok :: "delivery_world \<Rightarrow> bool" where
  "world_ok w \<longleftrightarrow> manager_ok {} (dw_manager w) \<and> wf_map (dw_sends w) \<and> lease_counts (dw_admission w) (dw_sends w)
     \<and> (\<forall>i s. map_of (dw_sends w) i = Some s \<longrightarrow> runtime_promise (dw_manager w) s \<and> admission_promise (dw_admission w) s)"

lemma world_okD:
  assumes "world_ok w"
  shows "manager_ok {} (dw_manager w)" and "wf_map (dw_sends w)" and "lease_counts (dw_admission w) (dw_sends w)"
    and "map_of (dw_sends w) i = Some s \<Longrightarrow> runtime_promise (dw_manager w) s"
    and "map_of (dw_sends w) i = Some s \<Longrightarrow> admission_promise (dw_admission w) s"
  using assms unfolding world_ok_def by blast+

lemma world_okI:
  assumes "manager_ok {} (dw_manager w)" and "wf_map (dw_sends w)" and "lease_counts (dw_admission w) (dw_sends w)"
    and "\<And>i s. map_of (dw_sends w) i = Some s \<Longrightarrow> runtime_promise (dw_manager w) s \<and> admission_promise (dw_admission w) s"
  shows "world_ok w"
  using assms unfolding world_ok_def by blast

lemma promise_runtimes:
  assumes "runtimes_keep m m'" and "runtime_promise m s"
  shows "runtime_promise m' s"
  using assms by (auto simp: runtime_promise_def runtimes_keep_def split: option.splits)

lemma promise_admission:
  assumes "admission_promise (Some a) s" and "admission_event_step ev a = Some a'" and "leases_ok a"
  shows "admission_promise (Some a') s"
  using assms(1) promise_step [OF _ assms(2)] admission_leases [OF assms(3,2)]
  by (auto simp: admission_promise_def leases_step_def heap_step_def)

lemma counts_event:
  assumes "lease_counts (Some a) ss" and step: "admission_event_step ev a = Some a'"
    and promises: "\<forall>i s. (i, s) \<in> set ss \<longrightarrow> admission_promise (Some a) s"
  shows "lease_counts (Some a') ss"
proof -
  have ok: "leases_ok a" and n: "\<And>l. l < length (adm_heap a) \<Longrightarrow> bl_sends (adm_heap a ! l) = gsum (holds l) ss"
    using assms(1) by (simp_all add: lease_counts_def)
  note s = admission_leases [OF ok step]
  have "bl_sends (adm_heap a' ! l) = gsum (holds l) ss" if l: "l < length (adm_heap a')" for l
  proof (cases "l < length (adm_heap a)")
    case True
    then show ?thesis using s n by (simp add: leases_step_def heap_step_def)
  next
    case False
    have "gsum (holds l) ss = 0"
      by (rule gsum_unused) (use promises False in \<open>auto simp: holds_def admission_promise_def\<close>)
    then show ?thesis using s False l by (simp add: leases_step_def heap_step_def)
  qed
  with leases_step_ok [OF s] show ?thesis by (simp add: lease_counts_def)
qed

text \<open>A send that moves to a stage before the last leaves the leases alone.\<close>

lemma counts_put:
  assumes "lease_counts adm ss" and "\<And>l. (case map_of ss i of None \<Rightarrow> 0 | Some z \<Rightarrow> holds l z) = holds l s"
  shows "lease_counts adm (AList.update i s ss)"
  using assms by (simp add: lease_counts_def gsum_update)

lemma counts_dropped:
  assumes "lease_counts adm ss" and "wf_map ss" and "map_of ss i = Some s" and "\<And>l. holds l s = 0"
  shows "lease_counts adm (AList.delete i ss)"
  using assms by (simp add: lease_counts_def gsum_delete [OF assms(2)])

lemma put_send_ok:
  assumes ok: "world_ok w" and m: "manager_ok {} m" "runtimes_keep (dw_manager w) m"
    and counts: "\<And>l. (case map_of (dw_sends w) i of None \<Rightarrow> 0 | Some z \<Rightarrow> holds l z) = holds l s"
    and new: "runtime_promise m s" "admission_promise (dw_admission w) s"
  shows "world_ok (put_send i s (w\<lparr>dw_manager := m\<rparr>))"
proof (rule world_okI, goal_cases)
  case 1 show ?case using m by simp
next
  case 2 show ?case using world_okD(2) [OF ok] by auto
next
  case 3 show ?case using counts_put [OF world_okD(3) [OF ok], of i s] counts by simp
next
  case (4 k z)
  then show ?case using new promise_runtimes [OF m(2) world_okD(4) [OF ok, of k z]] world_okD(5) [OF ok, of k z]
    by (auto split: if_splits)
qed

lemma refuse_send_ok:
  assumes ok: "world_ok w" and s: "map_of (dw_sends w) i = Some s" and stage: "sd_stage s \<noteq> SendOpen"
  shows "world_ok (refuse_send i w)"
proof (rule world_okI, goal_cases)
  case 1 show ?case using world_okD(1) [OF ok] by (simp add: refuse_send_def)
next
  case 2 show ?case using world_okD(2) [OF ok] by (auto simp: refuse_send_def)
next
  case 3 show ?case
    using counts_dropped [OF world_okD(3,2) [OF ok] s] stage by (simp add: refuse_send_def holds_def)
next
  case (4 k z) then show ?case using world_okD(4,5) [OF ok, of k z] by (auto simp: refuse_send_def split: if_splits)
qed

lemma live_lease_Some: "live_lease a g = Some l \<Longrightarrow> cg_lease g = Some l \<and> cg_phase g = PhaseActive \<and> \<not> bl_cancelled (adm_heap a ! l)"
  by (auto simp: live_lease_def Snapshot_def split: option.splits if_splits)

lemma target_lease:
  assumes "targetForKey key w = (t, True)" and "dt_Lease t = Some l"
  shows "\<exists>a i g. dw_admission w = Some a \<and> map_of (adm_gates a) i = Some g \<and> cg_lease g = Some l"
  using assms
  by (auto simp: targetForKey_def console_target_def paired_target_def Let_def dest!: live_lease_Some split: option.splits if_splits) blast+

lemma check_ok:
  assumes ok: "world_ok w" and free: "map_of (dw_sends w) i = None"
  shows "world_ok (deliver_check i t w)"
proof (cases "validTarget t w")
  case False
  with ok show ?thesis by (simp add: deliver_check_def)
next
  case True
  obtain cur fine where c: "targetForKey (dt_ProcessKey t) w = (cur, fine)" by (cases "targetForKey (dt_ProcessKey t) w")
  have "admission_promise (dw_admission w) \<lparr>sd_target = t, sd_stage = SendChecked, sd_runtime = None\<rparr>"
  proof -
    have "\<exists>a. dw_admission w = Some a \<and> l < length (adm_heap a)" if "dt_Lease t = Some l" for l
    proof -
      have "fine" "dt_Lease cur = Some l" using True that by (auto simp: validTarget_def c split: if_splits)
      then obtain a i g where a: "dw_admission w = Some a" "map_of (adm_gates a) i = Some g" "cg_lease g = Some l"
        using target_lease [of "dt_ProcessKey t" w cur l] c by auto
      then show ?thesis using world_okD(3) [OF ok] leases_okD(2) by (auto simp: lease_counts_def)
    qed
    then show ?thesis by (simp add: admission_promise_def)
  qed
  then show ?thesis
    using put_send_ok [OF ok world_okD(1) [OF ok] runtimes_refl, of i "\<lparr>sd_target = t, sd_stage = SendChecked, sd_runtime = None\<rparr>"] free True
    by (simp add: deliver_check_def holds_def runtime_promise_def)
qed

lemma account_ok:
  assumes ok: "world_ok w" and s: "map_of (dw_sends w) i = Some s" and stage: "sd_stage s = SendChecked"
  shows "world_ok (deliver_account i s w)"
proof (cases "dt_Paired (sd_target s) \<and> \<not> account_current (sd_target s) w")
  case True
  with refuse_send_ok [OF ok s] stage show ?thesis by (simp add: deliver_account_def)
next
  case False
  have "account_promise (sd_target s) a \<and> dw_admission w = Some a"
    if "account_current (sd_target s) w" "Option.bind (dw_admission w) (account_state (sd_target s)) = Some p" "dw_admission w = Some a" for a p
    using that by (simp add: account_current_def account_promise_def)
  then have "dt_Paired (sd_target s) \<longrightarrow> (\<exists>a. dw_admission w = Some a \<and> account_promise (sd_target s) a)"
    using False by (cases "dw_admission w") (auto simp: account_current_def split: option.splits)
  then have "admission_promise (dw_admission w) (s\<lparr>sd_stage := SendAccount\<rparr>)"
    using world_okD(5) [OF ok s] by (simp add: admission_promise_def)
  then have "world_ok (put_send i (s\<lparr>sd_stage := SendAccount\<rparr>) w)"
    using put_send_ok [OF ok world_okD(1) [OF ok] runtimes_refl, of i "s\<lparr>sd_stage := SendAccount\<rparr>"] s stage world_okD(4) [OF ok s]
    by (simp add: holds_def runtime_promise_def)
  then show ?thesis by (simp only: deliver_account_def if_not_P [OF False])
qed

lemma runtime_ok_step:
  assumes ok: "world_ok w" and s: "map_of (dw_sends w) i = Some s" and stage: "sd_stage s = SendAccount"
  shows "world_ok (deliver_runtime i s w)"
proof (cases "GetProcessForKey (dt_ProcessKey (sd_target s)) (dw_manager w)")
  case None
  have "admission_promise (dw_admission w) (s\<lparr>sd_stage := SendRuntime\<rparr>)"
    using world_okD(5) [OF ok s] stage by (simp add: admission_promise_def)
  then show ?thesis
    using refuse_send_ok [OF ok s] put_send_ok [OF ok world_okD(1) [OF ok] runtimes_refl, of i "s\<lparr>sd_stage := SendRuntime\<rparr>"] s stage None world_okD(4) [OF ok s]
    by (simp add: deliver_runtime_def holds_def runtime_promise_def)
next
  case (Some r)
  let ?m = "on_runtime r open_delivery (dw_manager w)"
  have step: "?m = manager_step quiet (MDeliver (dt_ProcessKey (sd_target s))) (dw_manager w)" using Some by simp
  have m: "manager_ok {} ?m" "runtimes_keep (dw_manager w) ?m"
    unfolding step by (rule manager_step_ok [OF world_okD(1) [OF ok]], rule runtimes_step)
  have bound: "r < length (cm_heap (dw_manager w))" and key: "px_key (process_at r (dw_manager w)) = dt_ProcessKey (sd_target s)"
    using manager_okD(1,2) [OF world_okD(1) [OF ok] Some] by blast+
  have a: "admission_promise (dw_admission w) (s\<lparr>sd_stage := SendRuntime, sd_runtime := Some r\<rparr>)"
    using world_okD(5) [OF ok s] stage by (simp add: admission_promise_def)
  have "runtime_promise ?m (s\<lparr>sd_stage := SendRuntime, sd_runtime := Some r\<rparr>)"
    if "px_bindingInstanceID (process_at r (dw_manager w)) = dt_RuntimeInstanceID (sd_target s)"
  proof -
    have "rt_delivery (open_delivery (cm_heap (dw_manager w) ! r)) \<noteq> None" by (simp add: open_delivery_def) blast
    then show ?thesis using that bound key by (simp add: runtime_promise_def process_at_def) (simp add: open_delivery_def)
  qed
  then show ?thesis
    using refuse_send_ok [OF ok s] put_send_ok [OF ok m, of i "s\<lparr>sd_stage := SendRuntime, sd_runtime := Some r\<rparr>"] a s stage Some
    by (simp add: deliver_runtime_def holds_def Let_def)
qed

text \<open>A step that counts one send of a lease.\<close>

lemma counts_lease:
  assumes counts: "lease_counts adm ss" and adm: "adm = Some a" and l: "l < length (adm_heap a)"
    and x: "lease_ok x" "bl_sends x = bl_sends (adm_heap a ! l) + d"
    and sum: "\<And>k. gsum (holds k) ss' = gsum (holds k) ss + (if k = l then d else 0)"
  shows "lease_counts (Some (a\<lparr>adm_heap := (adm_heap a)[l := x]\<rparr>)) ss'"
proof -
  have ok: "leases_ok a" and n: "\<And>l. l < length (adm_heap a) \<Longrightarrow> bl_sends (adm_heap a ! l) = gsum (holds l) ss"
    using counts adm by (simp_all add: lease_counts_def)
  have "leases_ok (a\<lparr>adm_heap := (adm_heap a)[l := x]\<rparr>)"
    using ok x(1) l by (auto simp: leases_ok_def nth_list_update)
  moreover have "bl_sends ((adm_heap a)[l := x] ! k) = gsum (holds k) ss'" if "k < length (adm_heap a)" for k
    using that n [OF that] l x(2) by (cases "k = l") (simp_all add: sum)
  ultimately show ?thesis by (simp add: lease_counts_def)
qed

lemma promise_lease:
  assumes "admission_promise (Some a) s"
  shows "admission_promise (Some (a\<lparr>adm_heap := h\<rparr>)) s \<longleftrightarrow> (\<forall>l. dt_Lease (sd_target s) = Some l \<longrightarrow> l < length h)"
  using assms by (auto simp: admission_promise_def account_promise_def account_state_def)

lemma lease_ok_step:
  assumes ok: "world_ok w" and s: "map_of (dw_sends w) i = Some s" and stage: "sd_stage s = SendRuntime"
  shows "world_ok (deliver_lease i s w)"
proof -
  have r: "runtime_promise (dw_manager w) (s\<lparr>sd_stage := SendOpen\<rparr>)"
    using world_okD(4) [OF ok s] stage by (cases "sd_runtime s") (simp_all add: runtime_promise_def)
  have p: "admission_promise adm s \<Longrightarrow> admission_promise adm (s\<lparr>sd_stage := SendOpen\<rparr>)" for adm
    using stage by (simp add: admission_promise_def)
  show ?thesis
  proof (cases "dt_Lease (sd_target s)")
    case None
    then show ?thesis
      using put_send_ok [OF ok world_okD(1) [OF ok] runtimes_refl, of i "s\<lparr>sd_stage := SendOpen\<rparr>"] s stage r p [OF world_okD(5) [OF ok s]]
      by (simp add: deliver_lease_def holds_def)
  next
    case (Some l)
    obtain a where a: "dw_admission w = Some a" "l < length (adm_heap a)"
      using world_okD(5) [OF ok s] Some by (auto simp: admission_promise_def)
    have la: "lease_of l w = adm_heap a ! l" by (simp add: lease_of_def a(1))
    have lok: "lease_ok (adm_heap a ! l)" using world_okD(3) [OF ok] a by (simp add: lease_counts_def leases_ok_def)
    show ?thesis
    proof (cases "bl_closing (adm_heap a ! l)")
      case True
      then show ?thesis using refuse_send_ok [OF ok s] stage Some by (simp add: deliver_lease_def la BeginSend_def)
    next
      case False
      define x where "x = (adm_heap a ! l)\<lparr>bl_sends := bl_sends (adm_heap a ! l) + 1\<rparr>"
      have eq: "deliver_lease i s w = put_send i (s\<lparr>sd_stage := SendOpen\<rparr>) (on_lease l x w)"
        using False Some by (simp add: deliver_lease_def la BeginSend_def x_def)
      have x: "lease_ok x" using lease_ok_begin [OF lok] False by (simp add: BeginSend_def x_def)
      have sum: "gsum (holds k) (AList.update i (s\<lparr>sd_stage := SendOpen\<rparr>) (dw_sends w)) = gsum (holds k) (dw_sends w) + (if k = l then 1 else 0)" for k
        using s stage Some by (simp add: gsum_update holds_def)
      show ?thesis unfolding eq
      proof (rule world_okI, goal_cases)
        case 1 show ?case using world_okD(1) [OF ok] by (simp add: on_lease_def)
      next
        case 2 show ?case using world_okD(2) [OF ok] by (auto simp: on_lease_def)
      next
        case 3
        show ?case using counts_lease [OF world_okD(3) [OF ok] a(1,2) x _ sum] by (simp add: on_lease_def a(1) x_def)
      next
        case (4 k z)
        have "admission_promise (Some (a\<lparr>adm_heap := (adm_heap a)[l := x]\<rparr>)) y" if "admission_promise (dw_admission w) y" for y
          using promise_lease [of a y "(adm_heap a)[l := x]"] that a by (auto simp: admission_promise_def)
        then show ?case using 4 r p [OF world_okD(5) [OF ok s]] world_okD(4,5) [OF ok, of k z]
          by (auto simp: on_lease_def a(1) split: if_splits)
      qed
    qed
  qed
qed

lemma done_ok:
  assumes ok: "world_ok w" and s: "map_of (dw_sends w) i = Some s" and stage: "sd_stage s = SendOpen"
  shows "\<exists>w'. deliver_done i s w = Some w' \<and> world_ok w'"
proof (cases "dt_Lease (sd_target s)")
  case None
  have "world_ok (refuse_send i w)"
  proof (rule world_okI, goal_cases)
    case 1 show ?case using world_okD(1) [OF ok] by (simp add: refuse_send_def)
  next
    case 2 show ?case using world_okD(2) [OF ok] by (auto simp: refuse_send_def)
  next
    case 3 show ?case using counts_dropped [OF world_okD(3,2) [OF ok] s] None by (simp add: refuse_send_def holds_def)
  next
    case (4 k z) then show ?case using world_okD(4,5) [OF ok, of k z] by (auto simp: refuse_send_def split: if_splits)
  qed
  with None show ?thesis by (simp add: deliver_done_def)
next
  case (Some l)
  note wf = world_okD(2) [OF ok]
  obtain a where a: "dw_admission w = Some a" "l < length (adm_heap a)"
    using world_okD(5) [OF ok s] Some by (auto simp: admission_promise_def)
  have la: "lease_of l w = adm_heap a ! l" by (simp add: lease_of_def a(1))
  have lok: "lease_ok (adm_heap a ! l)" and n: "bl_sends (adm_heap a ! l) = gsum (holds l) (dw_sends w)"
    using world_okD(3) [OF ok] a by (simp_all add: lease_counts_def leases_ok_def)
  have "holds l s \<le> gsum (holds l) (dw_sends w)" by (rule gsum_member [OF wf s]) (simp add: holds_def)
  then have pos: "0 < bl_sends (adm_heap a ! l)" using n Some stage by (simp add: holds_def)
  obtain x where x: "EndSend (adm_heap a ! l) = Some x" "lease_ok x" using lease_ok_end [OF lok pos] by blast
  have minus: "bl_sends x = bl_sends (adm_heap a ! l) + (-1)" using x(1) by (auto simp: EndSend_def close_drained_def Let_def split: if_splits)
  have sum: "gsum (holds k) (AList.delete i (dw_sends w)) = gsum (holds k) (dw_sends w) + (if k = l then -1 else 0)" for k
    using s stage Some by (simp add: gsum_delete [OF wf] holds_def)
  have "world_ok (refuse_send i (on_lease l x w))"
  proof (rule world_okI, goal_cases)
    case 1 show ?case using world_okD(1) [OF ok] by (simp add: refuse_send_def on_lease_def)
  next
    case 2 show ?case using wf by (auto simp: refuse_send_def on_lease_def)
  next
    case 3
    show ?case using counts_lease [OF world_okD(3) [OF ok] a(1,2) x(2) minus sum] by (simp add: refuse_send_def on_lease_def a(1))
  next
    case (4 k z)
    have "admission_promise (Some (a\<lparr>adm_heap := (adm_heap a)[l := x]\<rparr>)) y" if "admission_promise (dw_admission w) y" for y
      using promise_lease [of a y "(adm_heap a)[l := x]"] that a by (auto simp: admission_promise_def)
    then show ?case using 4 world_okD(4,5) [OF ok, of k z] by (auto simp: refuse_send_def on_lease_def a(1) split: if_splits)
  qed
  with Some x(1) show ?thesis by (simp add: deliver_done_def la)
qed

lemma delivery_step_ok:
  assumes ok: "world_ok w" and step: "delivery_step ev w = Some w'"
  shows "world_ok w'"
proof (cases ev)
  case (OnManager e op)
  then have w': "w' = w\<lparr>dw_manager := manager_step e op (dw_manager w)\<rparr>" using step by simp
  show ?thesis unfolding w'
    using manager_step_ok [OF world_okD(1) [OF ok], of e op] world_okD(2,3) [OF ok] world_okD(4,5) [OF ok]
      promise_runtimes [OF runtimes_step] by (intro world_okI) auto
next
  case (OnAdmission e)
  show ?thesis
  proof (cases "dw_admission w")
    case None
    with ok step OnAdmission show ?thesis by simp
  next
    case (Some a)
    then obtain a' where a': "admission_event_step e a = Some a'" "w' = w\<lparr>dw_admission := Some a'\<rparr>" using step OnAdmission by auto
    have la: "leases_ok a" using world_okD(3) [OF ok] Some by (simp add: lease_counts_def)
    have ps: "\<forall>i s. (i, s) \<in> set (dw_sends w) \<longrightarrow> admission_promise (Some a) s"
      using world_okD(5) [OF ok] map_of_in_set [OF world_okD(2) [OF ok]] Some by auto
    have "lease_counts (Some a') (dw_sends w)" using counts_event [OF _ a'(1) ps] world_okD(3) [OF ok] Some by simp
    then show ?thesis unfolding a'(2)
      using world_okD(1,2) [OF ok] world_okD(4,5) [OF ok] promise_admission [OF _ a'(1) la] Some by (intro world_okI) auto
  qed
next
  case (OnConfig cfg)
  then show ?thesis using ok step by (auto simp: world_ok_def)
next
  case (DeliverBegin i t)
  then show ?thesis using ok step check_ok [OF ok] by (auto split: if_splits)
next
  case (DeliverNext i)
  then show ?thesis using ok step account_ok [OF ok] runtime_ok_step [OF ok] lease_ok_step [OF ok]
    by (auto split: option.splits send_stage.splits)
next
  case (DeliverEnd i)
  then show ?thesis using ok step done_ok [OF ok] by (fastforce split: option.splits if_splits)
qed

lemma quiet_world_ok: "world_ok (quiet_world (new_manager s d pins) p cfg)"
  by (rule world_okI) (auto simp: quiet_world_def new_manager_ok lease_counts_def leases_ok_def NewAdmission_def)

lemma delivery_reach_ok: "delivery_reach w \<Longrightarrow> world_ok w"
  by (induction rule: delivery_reach.induct) (auto intro: quiet_world_ok delivery_step_ok)

section \<open>Properties\<close>

text \<open>C7: A send whose context is not cancelled goes where it was meant to go, whatever the gateway did since it was admitted:
  the process it was for is still the current one of its key, the lease of its binding is open, and the account of its
  platform is the one it was admitted for. So no message of an old runtime, an old binding or another account goes out
  through a send that is allowed to run on.\<close>

theorem running_send_current:
  assumes "delivery_reach w" and "map_of (dw_sends w) i = Some s" and "sd_stage s = SendOpen" and "\<not> send_cancelled s w"
  shows "(dt_RuntimeInstanceID (sd_target s) \<noteq> '''' \<longrightarrow> (\<exists>r. GetProcessForKey (dt_ProcessKey (sd_target s)) (dw_manager w) = Some r
        \<and> px_bindingInstanceID (process_at r (dw_manager w)) = dt_RuntimeInstanceID (sd_target s)))
     \<and> (\<forall>l. dt_Lease (sd_target s) = Some l \<longrightarrow> \<not> bl_closing (lease_of l w) \<and> \<not> bl_drained (lease_of l w))
     \<and> (dt_Paired (sd_target s) \<longrightarrow> account_current (sd_target s) w)"
proof -
  note ok = delivery_reach_ok [OF assms(1)]
  note m = world_okD(1) [OF ok] and rp = world_okD(4) [OF ok assms(2)] and ap = world_okD(5) [OF ok assms(2)]
  have process: "\<exists>r. GetProcessForKey (dt_ProcessKey (sd_target s)) (dw_manager w) = Some r
      \<and> px_bindingInstanceID (process_at r (dw_manager w)) = dt_RuntimeInstanceID (sd_target s)"
    if rt: "dt_RuntimeInstanceID (sd_target s) \<noteq> ''''"
  proof -
    obtain r where r: "sd_runtime s = Some r" "r < length (cm_heap (dw_manager w))" "px_key (process_at r (dw_manager w)) = dt_ProcessKey (sd_target s)"
      "px_bindingInstanceID (process_at r (dw_manager w)) = dt_RuntimeInstanceID (sd_target s)" "rt_delivery (cm_heap (dw_manager w) ! r) \<noteq> None"
      using rp assms(3) rt by (auto simp: runtime_promise_def split: option.splits)
    then have "rt_delivery (cm_heap (dw_manager w) ! r) = Some False" using assms(4) by (auto simp: send_cancelled_def)
    then have "GetProcessForKey (dt_ProcessKey (sd_target s)) (dw_manager w) = Some r"
      using manager_okD(6) [OF m r(2)] r(3) by (simp add: runtime_ok_def process_at_def)
    with r(4) show ?thesis by blast
  qed
  have lease: "\<not> bl_closing (lease_of l w) \<and> \<not> bl_drained (lease_of l w)" if l: "dt_Lease (sd_target s) = Some l" for l
  proof -
    obtain a where a: "dw_admission w = Some a" "l < length (adm_heap a)" using ap l by (auto simp: admission_promise_def)
    then have "lease_ok (lease_of l w)" using world_okD(3) [OF ok] by (simp add: lease_counts_def leases_ok_def lease_of_def)
    moreover have "\<not> bl_cancelled (lease_of l w)" using assms(4) l by (simp add: send_cancelled_def)
    ultimately show ?thesis by (simp add: lease_ok_def)
  qed
  have account: "account_current (sd_target s) w" if p: "dt_Paired (sd_target s)"
  proof -
    obtain a where "dw_admission w = Some a" "account_promise (sd_target s) a" using ap p assms(3) by (auto simp: admission_promise_def)
    then show ?thesis using assms(4) p by (auto simp: account_current_def account_promise_def send_cancelled_def split: option.splits)
  qed
  from process lease account show ?thesis by blast
qed

text \<open>C24: A lease counts its sends exactly, through every interleaving: it is drained precisely when it is closing and no
  send of it is open, so that a switch that waited for it disturbs none, and ending a send never panics.\<close>

theorem lease_drains_exactly:
  assumes "delivery_reach w" and "dw_admission w = Some a" and "l < length (adm_heap a)"
  shows "(bl_drained (adm_heap a ! l) \<longleftrightarrow> bl_closing (adm_heap a ! l)
        \<and> \<not> (\<exists>i s. map_of (dw_sends w) i = Some s \<and> sd_stage s = SendOpen \<and> dt_Lease (sd_target s) = Some l))
     \<and> (\<forall>i. delivery_step (DeliverEnd i) w \<noteq> None)"
proof -
  note ok = delivery_reach_ok [OF assms(1)]
  have counts: "lease_ok (adm_heap a ! l)" "bl_sends (adm_heap a ! l) = gsum (holds l) (dw_sends w)"
    using world_okD(3) [OF ok] assms(2,3) by (simp_all add: lease_counts_def leases_ok_def)
  have "gsum (holds l) (dw_sends w) = 0 \<longleftrightarrow> \<not> (\<exists>i s. map_of (dw_sends w) i = Some s \<and> sd_stage s = SendOpen \<and> dt_Lease (sd_target s) = Some l)"
  proof
    assume none: "gsum (holds l) (dw_sends w) = 0"
    show "\<not> (\<exists>i s. map_of (dw_sends w) i = Some s \<and> sd_stage s = SendOpen \<and> dt_Lease (sd_target s) = Some l)"
    proof
      assume "\<exists>i s. map_of (dw_sends w) i = Some s \<and> sd_stage s = SendOpen \<and> dt_Lease (sd_target s) = Some l"
      then obtain i s where s: "map_of (dw_sends w) i = Some s" "holds l s = 1" by (auto simp: holds_def)
      have "holds l s \<le> gsum (holds l) (dw_sends w)" by (rule gsum_member [OF world_okD(2) [OF ok] s(1)]) (simp add: holds_def)
      with s none show False by simp
    qed
  next
    assume "\<not> (\<exists>i s. map_of (dw_sends w) i = Some s \<and> sd_stage s = SendOpen \<and> dt_Lease (sd_target s) = Some l)"
    then show "gsum (holds l) (dw_sends w) = 0"
      using map_of_in_set [OF world_okD(2) [OF ok]] by (intro gsum_unused) (auto simp: holds_def)
  qed
  moreover have "delivery_step (DeliverEnd i) w \<noteq> None" for i
    using done_ok [OF ok] by (fastforce split: option.split)
  ultimately show ?thesis using counts by (simp add: lease_ok_def)
qed

section \<open>A send under way\<close>

definition owner_config :: gateway_config where "owner_config = cv_config owner_view"

definition slack_chat :: chat_identity where "slack_chat = ChatIdentity ''slack'' ''T1'' ''C1''"

definition ready_platform :: pairing_platform where
  "ready_platform = (new_platform 7 ''T1'')\<lparr>pp_presentation := \<lparr>pr_Platform = ''slack'', pr_BotMention = '''', pr_BotUsername = ''''\<rparr>,
     pp_ready := True\<rparr>"

definition ready_event :: admission_event where
  "ready_event = EReady owner_config \<lparr>pe_now = 7, pe_nonce = (zero_nonce, True), pe_id = None\<rparr> ''slack'' ''T1''
     \<lparr>pr_Platform = '''', pr_BotMention = '''', pr_BotUsername = ''''\<rparr>"

definition bound_admission :: "int \<Rightarrow> admission" where
  "bound_admission n = \<lparr>adm_pairing = put_platform ''slack'' ready_platform (NewPairingService True True),
     adm_gates = [(slack_chat, \<lparr>cg_generation = 1, cg_phase = PhaseActive, cg_lease = Some 0\<rparr>)],
     adm_heap = [(NewBindingLease slack_chat ''ws'' 1 1)\<lparr>bl_sends := n\<rparr>], adm_closed = False\<rparr>"

lemmas delivery_eval = owner_config_def owner_view_def config_eval text_eval slack_chat_def ready_platform_def NewAdmission_def
  put_platform_def new_platform_def NewPairingService_def NewBindingLease_def

lemma ready_run:
  "admission_event_step ready_event (NewAdmission (NewPairingService True True))
   = Some ((NewAdmission (NewPairingService True True))\<lparr>adm_pairing := put_platform ''slack'' ready_platform (NewPairingService True True)\<rparr>)"
  by (simp add: ready_event_def on_pairing_def ready_locked_def delivery_eval)

lemma bound_run:
  "admission_event_step (EAuthorize owner_view 8 True (witness_message ''hi''))
     ((NewAdmission (NewPairingService True True))\<lparr>adm_pairing := put_platform ''slack'' ready_platform (NewPairingService True True)\<rparr>)
   = Some (bound_admission 0)"
  by (simp add: authorize_def authorize_locked_def identified_def delivery_eval owner_kind_def isBindCommand_def witness_message_def
      admission_gate_def new_gate_def isValidIngressChatKind_def sender_ticket_def Install_def Snapshot_def NewChatGate_def
      bound_admission_def get_or_def Let_def zero_ticket_def)

definition bound_world :: "int \<Rightarrow> chord_manager \<Rightarrow> (nat, send) gomap \<Rightarrow> delivery_world" where
  "bound_world n m ss = \<lparr>dw_manager = m, dw_admission = Some (bound_admission n), dw_config = Some owner_config, dw_sends = ss\<rparr>"

lemma bound_world_sends: "dw_sends (bound_world n m ss) = ss"
  by (simp add: bound_world_def)

lemma bound_reach: "delivery_reach (bound_world 0 (shop_manager shop_process) [])"
proof -
  let ?w = "quiet_world empty_manager (Some (NewPairingService True True)) (Some owner_config)"
  have "delivery_reach ?w" using delivery_new [of _ _ _ "Some (True, True)"] by (simp add: empty_manager_def)
  from delivery_more [OF delivery_more [OF this, of "OnAdmission ready_event"], of _ "OnAdmission (EAuthorize owner_view 8 True (witness_message ''hi''))"]
  have "delivery_reach (bound_world 0 empty_manager [])"
    using ready_run bound_run by (simp add: quiet_world_def bound_world_def)
  moreover have "manager_step quiet (MSpawn shop_env shop_key []) empty_manager = shop_manager shop_process"
    using shop_start by (simp add: spawnWithArgsForKeyChatLocked_def empty_manager_def new_manager_def Blocked_def transfers_Get_def)
  ultimately show ?thesis
    using delivery_more [of _ "OnManager quiet (MSpawn shop_env shop_key [])"] by (simp add: bound_world_def)
qed

definition shop_target :: delivery_target where
  "shop_target = \<lparr>dt_Identity = slack_chat, dt_AccountEpoch = 1, dt_BindingGeneration = 1, dt_ProcessKey = shop_key,
     dt_RuntimeInstanceID = ''binding-X'', dt_Lease = Some 0, dt_Paired = True\<rparr>"

lemma parse_shop_key: "parseProcessKey shop_key = \<lparr>pk_workspaceID = ''ws'', pk_imType = ''slack'', pk_chatID = ''C1''\<rparr>"
  unfolding shop_key_def by (subst process_key_roundtrip) (simp_all add: key_valid_def ascii_eval)

lemma shop_targeted: "targetForKey shop_key (bound_world 0 (shop_manager shop_process) []) = (shop_target, True)"
  by (simp add: targetForKey_def parse_shop_key bound_world_def shop_current shop_process_def paired_target_def with_account_def
      live_lease_def Snapshot_def bound_admission_def shop_target_def delivery_eval get_or_def Let_def)

lemma shop_account: "account_current shop_target (bound_world n m ss)"
  by (simp add: account_current_def account_state_def bound_world_def bound_admission_def shop_target_def same_account_def delivery_eval)

definition open_shop :: chord_manager where "open_shop = on_runtime 0 open_delivery (shop_manager shop_process)"

definition shop_send :: send where "shop_send = \<lparr>sd_target = shop_target, sd_stage = SendOpen, sd_runtime = Some 0\<rparr>"

lemma sending_reach: "delivery_reach (bound_world 1 open_shop [(0, shop_send)])"
proof -
  let ?m = "shop_manager shop_process"
  let ?s = "\<lambda>stage r. \<lparr>sd_target = shop_target, sd_stage = stage, sd_runtime = r\<rparr>"
  have t: "dt_ProcessKey shop_target = shop_key" "dt_RuntimeInstanceID shop_target = ''binding-X''" "dt_Lease shop_target = Some 0"
    by (simp_all add: shop_target_def)
  have "delivery_step (DeliverBegin 0 shop_target) (bound_world 0 ?m []) = Some (bound_world 0 ?m [(0, ?s SendChecked None)])"
    using shop_targeted shop_account [of 0 ?m "[]"] by (simp add: deliver_check_def validTarget_def t) (simp add: bound_world_def)
  from delivery_more [OF bound_reach this] have r1: "delivery_reach (bound_world 0 ?m [(0, ?s SendChecked None)])" .
  have "delivery_step (DeliverNext 0) (bound_world 0 ?m [(0, ?s SendChecked None)]) = Some (bound_world 0 ?m [(0, ?s SendAccount None)])"
    by (simp add: bound_world_sends deliver_account_def shop_account) (simp add: bound_world_def)
  from delivery_more [OF r1 this] have r2: "delivery_reach (bound_world 0 ?m [(0, ?s SendAccount None)])" .
  have "delivery_step (DeliverNext 0) (bound_world 0 ?m [(0, ?s SendAccount None)]) = Some (bound_world 0 open_shop [(0, ?s SendRuntime (Some 0))])"
    by (simp add: bound_world_def deliver_runtime_def t shop_current open_shop_def Let_def) (simp add: shop_process_def)
  from delivery_more [OF r2 this] have r3: "delivery_reach (bound_world 0 open_shop [(0, ?s SendRuntime (Some 0))])" .
  have "delivery_step (DeliverNext 0) (bound_world 0 open_shop [(0, ?s SendRuntime (Some 0))]) = Some (bound_world 1 open_shop [(0, shop_send)])"
    by (simp add: bound_world_def deliver_lease_def t lease_of_def on_lease_def BeginSend_def bound_admission_def NewBindingLease_def shop_send_def)
  from delivery_more [OF r3 this] show ?thesis .
qed

lemma running_send_current_witness:
  "(\<exists>r. GetProcessForKey shop_key open_shop = Some r \<and> px_bindingInstanceID (process_at r open_shop) = ''binding-X'')
   \<and> \<not> bl_closing (lease_of 0 (bound_world 1 open_shop [(0, shop_send)])) \<and> account_current shop_target (bound_world 1 open_shop [(0, shop_send)])"
proof -
  let ?w = "bound_world 1 open_shop [(0, shop_send)]"
  have s: "map_of (dw_sends ?w) 0 = Some shop_send" "sd_stage shop_send = SendOpen" by (simp_all add: bound_world_def shop_send_def)
  have live: "\<not> send_cancelled shop_send ?w"
    by (simp add: send_cancelled_def bound_world_def shop_send_def shop_target_def account_state_def bound_admission_def lease_of_def open_shop_def
        open_delivery_def shop_manager_def shop_runtime_def delivery_eval)
  from running_send_current [OF sending_reach s live] show ?thesis by (simp add: shop_send_def shop_target_def bound_world_def)
qed

lemma lease_drains_exactly_witness:
  "\<not> bl_drained (adm_heap (bound_admission 1) ! 0) \<and> delivery_step (DeliverEnd 0) (bound_world 1 open_shop [(0, shop_send)]) \<noteq> None"
proof -
  let ?w = "bound_world 1 open_shop [(0, shop_send)]"
  have a: "dw_admission ?w = Some (bound_admission 1)" "0 < length (adm_heap (bound_admission 1))"
    by (simp_all add: bound_world_def bound_admission_def)
  have "map_of (dw_sends ?w) 0 = Some shop_send \<and> sd_stage shop_send = SendOpen \<and> dt_Lease (sd_target shop_send) = Some 0"
    by (simp add: bound_world_def shop_send_def shop_target_def)
  with lease_drains_exactly [OF sending_reach a] show ?thesis by blast
qed

section \<open>Operations on a chat\<close>

lemma run_leases:
  assumes "leases_ok a" and "admission_run es a = Some a'"
  shows "leases_ok a' \<and> length (adm_heap a) \<le> length (adm_heap a')
     \<and> (\<forall>l < length (adm_heap a). bl_closing (adm_heap a ! l) \<longrightarrow> bl_closing (adm_heap a' ! l))
     \<and> (\<forall>i g l. map_of (adm_gates a') i = Some g \<and> cg_lease g = Some l \<and> l < length (adm_heap a)
          \<longrightarrow> (\<exists>g0. map_of (adm_gates a) i = Some g0 \<and> cg_lease g0 = Some l))"
  using assms
proof (induction es arbitrary: a)
  case (Cons e es)
  then obtain b where b: "admission_event_step e a = Some b" "admission_run es b = Some a'" by (auto simp: bind_eq_Some_conv)
  note s = admission_leases [OF Cons.prems(1) b(1)]
  note IH = Cons.IH [OF leases_step_ok [OF s] b(2)]
  have len: "length (adm_heap a) \<le> length (adm_heap b)" using s by (simp add: leases_step_def heap_step_def)
  have earlier: "\<exists>g0. map_of (adm_gates a) i = Some g0 \<and> cg_lease g0 = Some l"
    if g: "map_of (adm_gates a') i = Some g" "cg_lease g = Some l" "l < length (adm_heap a)" for i g l
  proof -
    obtain g1 where "map_of (adm_gates b) i = Some g1" "cg_lease g1 = Some l" using IH g len by (meson order_less_le_trans)
    then show ?thesis using s g(3) by (auto simp: leases_step_def)
  qed
  show ?case using IH s len earlier by (auto simp: leases_step_def heap_step_def)
qed simp

text \<open>What ends a binding closes its lease.\<close>

lemma ending_closes:
  assumes ok: "leases_ok a" and g: "map_of (adm_gates a) i = Some g" "cg_lease g = Some l"
    and e: "e = ESwitching i \<or> e = EClose" and step: "admission_event_step e a = Some a'"
  shows "bl_closing (adm_heap a' ! l)"
proof (cases "e = EClose")
  case True
  then obtain h where h: "close_gates (map snd (adm_gates a)) (adm_heap a) = Some h" "adm_heap a' = h"
    using step by (auto simp: admission_Close_def)
  have "\<forall>g \<in> set (map snd (adm_gates a)). \<forall>l. cg_lease g = Some l \<longrightarrow> l < length (adm_heap a)"
    using leases_okD(2) [OF ok] map_of_in_set [OF leases_okD(3) [OF ok]] by fastforce
  from close_gates_step [OF h(1) leases_okD(1) [OF ok] this] show ?thesis
    using g map_of_SomeD [OF g(1)] h(2) by force
next
  case False
  then obtain x where "lease_Close (adm_heap a ! l) = Some x" "adm_heap a' = (adm_heap a)[l := x]"
    using e step g by (auto simp: on_gate_def Switching_def Let_def split: option.splits)
  then show ?thesis using lease_Close_sends leases_okD(2) [OF ok g] by simp
qed

lemma new_admission_leases: "leases_ok (NewAdmission p)"
  by (simp add: leases_ok_def NewAdmission_def)

lemma admission_run_append: "admission_run (es @ fs) a = Option.bind (admission_run es a) (admission_run fs)"
proof (induction es arbitrary: a)
  case (Cons e es)
  then show ?case by (cases "admission_event_step e a") simp_all
qed simp

lemma captured_gate:
  assumes "captureChatOperation cfg key (Some a) = (adm, Inr op)"
  shows "\<exists>a1 i g l. adm = Some a1 \<and> co_gate op = Some i \<and> co_lease op = Some l \<and> map_of (adm_gates a1) i = Some g \<and> cg_lease g = Some l
     \<and> (\<exists>ws e. a1 = fst (admission_gate i ws e a))"
  using assms
  by (auto simp: captureChatOperation_def Let_def Snapshot_def admission_gate_def split_beta split: if_splits option.splits) fastforce+

text \<open>C15: An operation on a chat never runs after the chat was switched to another directory or the gateway closed its
  admission, however long it waited and whatever was bound since, even to the same directory again: it was asked for
  under a lease, and that lease does not come back.\<close>

theorem operation_never_outlives_binding:
  assumes "admission_run es0 (NewAdmission p) = Some a" and "captureChatOperation cfg key (Some a) = (Some a1, Inr op)"
    and "co_gate op = Some i" and "e = ESwitching i \<or> e = EClose" and "admission_run (us @ e # vs) a1 = Some a2"
  shows "chat_acquire stopping cv now op (Some a2) \<noteq> None"
proof
  assume run: "chat_acquire stopping cv now op (Some a2) = None"
  have ok: "leases_ok a" using run_leases [OF new_admission_leases assms(1)] by blast
  obtain g l where g: "co_lease op = Some l" "map_of (adm_gates a1) i = Some g" "cg_lease g = Some l"
    and a1: "\<exists>ws e. a1 = fst (admission_gate i ws e a)"
    using captured_gate [OF assms(2)] assms(3) by auto
  have ok1: "leases_ok a1" using a1 leases_step_ok [OF admission_gate_step [OF ok]] by blast
  have bound1: "l < length (adm_heap a1)" by (rule leases_okD(2) [OF ok1 g(2,3)])
  obtain b c where b: "admission_run us a1 = Some b" and c: "admission_event_step e b = Some c" and a2: "admission_run vs c = Some a2"
    using assms(5) by (auto simp: admission_run_append bind_eq_Some_conv)
  note rb = run_leases [OF ok1 b]
  have okb: "leases_ok b" and boundb: "l < length (adm_heap b)" using rb bound1 by auto
  note sc = admission_leases [OF okb c]
  have okc: "leases_ok c" and boundc: "l < length (adm_heap c)"
    using leases_step_ok [OF sc] sc boundb by (auto simp: leases_step_def heap_step_def)
  note r2 = run_leases [OF okc a2]
  obtain g2 where g2: "map_of (adm_gates a2) i = Some g2" "cg_lease g2 = Some l" "\<not> bl_cancelled (adm_heap a2 ! l)"
    using run assms(3) g(1)
    by (auto simp: chat_acquire_def validLocked_def Snapshot_def Let_def split: if_splits option.splits)
  obtain gc where "map_of (adm_gates c) i = Some gc" "cg_lease gc = Some l" using r2 g2 boundc by blast
  then obtain gb where "map_of (adm_gates b) i = Some gb" "cg_lease gb = Some l" using sc boundb unfolding leases_step_def by blast
  then have "bl_closing (adm_heap c ! l)" using ending_closes [OF okb _ _ assms(4) c] by blast
  then have closing: "bl_closing (adm_heap a2 ! l)" using r2 boundc by blast
  have "leases_ok a2" and "l < length (adm_heap a2)" using r2 boundc by auto
  then have "lease_ok (adm_heap a2 ! l)" by (simp add: leases_ok_def)
  with closing g2(3) show False by (simp add: lease_ok_def)
qed

definition shop_operation :: chat_operation where
  "shop_operation = \<lparr>co_key = shop_key, co_gate = Some slack_chat, co_lease = Some 0\<rparr>"

lemma operation_never_outlives_binding_witness:
  "\<exists>a2. admission_run [ESwitching slack_chat, EInstall slack_chat ''ws'' 1] (bound_admission 0) = Some a2
     \<and> chat_acquire False owner_view 9 shop_operation (Some (bound_admission 0)) = None
     \<and> chat_acquire False owner_view 9 shop_operation (Some a2) = Some ChatDenied"
proof -
  let ?es = "[ESwitching slack_chat, EInstall slack_chat ''ws'' 1]"
  have a: "admission_run [ready_event, EAuthorize owner_view 8 True (witness_message ''hi'')] (NewAdmission (NewPairingService True True)) = Some (bound_admission 0)"
    using ready_run bound_run by simp
  have c: "captureChatOperation owner_config shop_key (Some (bound_admission 0)) = (Some (bound_admission 0), Inr shop_operation)"
    by (simp add: captureChatOperation_def parse_shop_key resolves_to_def ResolveWorkspace_def operation_identity_def admission_gate_def
        bound_admission_def shop_operation_def Snapshot_def delivery_eval get_or_def Let_def)
  have before: "chat_acquire False owner_view 9 shop_operation (Some (bound_admission 0)) = None"
    by (simp add: chat_acquire_def validLocked_def shop_operation_def parse_shop_key resolves_to_def ResolveWorkspace_def Valid_def
        operation_ticket_def bound_admission_def Snapshot_def IsPairingHint_def zero_ticket_def delivery_eval get_or_def Let_def)
  obtain a2 where a2: "admission_run ?es (bound_admission 0) = Some a2"
    by (simp add: on_gate_def bound_admission_def Switching_def lease_Close_def close_drained_def NewBindingLease_def Install_def Let_def)
  have "chat_acquire False owner_view 9 shop_operation (Some a2) \<noteq> None"
    by (rule operation_never_outlives_binding [OF a c, where us = "[]" and e = "ESwitching slack_chat" and vs = "[EInstall slack_chat ''ws'' 1]"])
      (use a2 in \<open>simp_all add: shop_operation_def\<close>)
  then have "chat_acquire False owner_view 9 shop_operation (Some a2) = Some ChatDenied"
    by (simp add: chat_acquire_def shop_operation_def split: if_splits)
  with a2 before show ?thesis by blast
qed

end
