(* ===== verification/Spec2Isabelle.thy ===== *)
theory Spec2Isabelle
  imports StoreProps TextSend SessionPins SessionTransfers Admission EnvelopeProps RateLimiter OutboundDispatch ControlTargets DispatchProps IngressNormalizer TakeoverProps ChatBinding ManagerProps DeliveryProps
begin

text \<open>
  A verification development for chord-gateway, the Go program under \<open>src/\<close>.

  \<^bold>\<open>The program.\<close> The gateway connects chat platforms to \<open>chord headless\<close> processes on the owner's machine. An
  adapter (\<open>internal/platform/*\<close>) turns a platform event into an \<open>im.Message\<close>; the normalizer looks up what is
  missing; admission decides who may give the gateway work; the ingress store makes an accepted input durable
  together with the polling cursor, and only then is it acknowledged to the platform. The dispatch service takes
  the records of a chat in order, wakes or starts the process of the binding, checks again everything the input
  was accepted under, and writes it to the process. What the process writes back folds into its control state
  and becomes notifications, which the outbound dispatcher orders per chat and the text sender splits and sends
  under the limits of the platform. A session can be handed to another program and taken back; a guard on disk
  keeps the binding closed meanwhile.

  \<^bold>\<open>How the code is modelled.\<close> A Go string is its bytes (\<open>string\<close>), a \<open>uint64\<close> is a \<open>64 word\<close>, an \<open>int\<close> an \<open>int\<close>, a
  map an association list read by \<open>map_of\<close>, a \<open>time.Time\<close> an \<open>int\<close> of nanoseconds with 0 for the zero time. Every
  method that holds a lock is one function on the state that the lock protects; methods of several locked parts
  are split at the points where the lock is released, and the interleavings are sequences of steps or an inductive
  relation. What the code cannot decide itself (clocks, random bytes, the end of a write, an answer of the
  platform) is an argument, most often a record named \<open>..._env\<close>. Errors are values: \<open>option\<close>, sums, or a datatype
  with the errors of the component. A definition keeps the name of the Go function; fields carry a short prefix.

  \<^bold>\<open>The theories, in the order of the data flow.\<close>
  \<^item> Foundations. \<open>Prelude\<close>: maps, instants, simplification collections, and the locale \<open>finite_map\<close>. \<open>GoStrings\<close>,
    \<open>GoText\<close>, \<open>GoEncoding\<close>, \<open>GoJSON\<close>, \<open>GoRadix\<close>, \<open>Utf8\<close>: the parts of the Go library the program computes with,
    runes and UTF-8, JSON strings, base32 and base64 (locale \<open>alphabet\<close>), trimming and folding. SHA-256 is a parameter.
    \<open>DurableFile\<close>: a file written by rename and two syncs, with what a crash may show (locale \<open>durable_write\<close>).
  \<^item> Identities and configuration. \<open>Identities\<close> (\<open>im_identity.go\<close>, \<open>process_key.go\<close>): encodings that lose nothing.
    \<open>GatewayConfig\<close> (\<open>config/*.go\<close>): validation, owners, bindings, the resolution of a workspace. \<open>Commands\<close>
    (\<open>router_parse.go\<close>, \<open>local_only_slash.go\<close>, \<open>chat_binding_parse.go\<close> and the parsers of answers and roles): text to
    commands. \<open>CommandHints\<close> (\<open>im_command_hints.go\<close>). \<open>ConfigDocument\<close> and \<open>ConfigStore\<close> (\<open>config_store.go\<close>,
    \<open>config_yaml.go\<close>, \<open>chat_binding.go\<close>): the edit of the configuration document that binds a chat, as a function on the tree of the
    document, and the store that publishes a configuration only once it is durable. \<open>ChatBinding\<close> (\<open>binding_switch.go\<close>,
    \<open>chat_binding.go\<close>): the whole of a /bind, from the parked switch to the reply.
  \<^item> Who may act. \<open>Pairing\<close> (\<open>pairing.go\<close>): the code, readiness and the budgets of guesses and hints, both instances of
    the locale \<open>token_bucket\<close>. \<open>ChatContract\<close> (\<open>chat_contract.go\<close>): leases and gates of a chat. \<open>Admission\<close>
    (\<open>inbound_admission.go\<close>): the ticket for an input, and when it stays valid.
  \<^item> The durable inbox. \<open>Messages\<close> (\<open>message_types.go\<close>, \<open>ingress_types.go\<close>), \<open>IngressCursor\<close>, \<open>IngressMetrics\<close>,
    \<open>IngressStore\<close>, \<open>IngressAccept\<close>, \<open>IngressRoutes\<close> (\<open>im_ingress_store.go\<close>, \<open>im_ingress_store_routes.go\<close>,
    \<open>im_ingress_progress.go\<close>): the store, its two indexes (locale \<open>record_index\<close>, interpreted for both), acceptance
    with duplicate detection, capacity, cursors, route revisions and quarantine. \<open>StoreInvariant\<close>, \<open>StoreReach\<close> and
    \<open>StoreProps\<close>: the invariant, the relation of all its operations, and the properties of every reachable store.
  \<^item> Intake and delivery. \<open>IngressNormalizer\<close> (\<open>im_ingress_normalize.go\<close>): the bounded pool of workers, as a step
    relation over senders, workers and shutdown. \<open>IngressDispatch\<close>, \<open>TaskDelivery\<close>, \<open>OrderExample\<close>, \<open>DispatchProps\<close>
    (\<open>im_ingress_dispatch.go\<close>, \<open>im_ingress_question_receipts.go\<close>, \<open>im_ingress_readiness.go\<close>): which record is next,
    urgent controls, the hold of a chat, deliveries without an outcome, and the whole of \<open>dispatchTask\<close> from the
    stored record to the line written to the process, with the rest of the program between its steps. \<open>ControlTargets\<close> (\<open>router_ingress.go\<close>): what a control was aimed at when it arrived.
  \<^item> The process. \<open>Payloads\<close>, \<open>ControlState\<close> (\<open>types.go\<close>, \<open>mcp_status.go\<close>, \<open>process_lifecycle.go\<close>), \<open>ProcessInputs\<close>
    (\<open>process_input*.go\<close>, \<open>process_paused_inputs.go\<close>), \<open>ProcessReceipts\<close>: inputs, their receipts and the worker that
    applies them, under every interleaving with timers and shutdown. \<open>Envelopes\<close>, \<open>EnvelopeProps\<close>
    (\<open>process_protocol.go\<close>, \<open>process_question_events.go\<close>): what each report of a process does.
    \<open>KeyLocks\<close>, \<open>ProcessManager\<close> and \<open>ManagerProps\<close> (\<open>process.go\<close>, \<open>process_lifecycle.go\<close>): the lifecycle locks of
    the keys as interleaved steps; the map of running children, how they are found, started, replaced, retired,
    restarted and ended, also when a stream fails or a stop is not confirmed (\<open>process_protocol.go\<close>,
    \<open>process_binding_stop.go\<close>); and what holds in every run of it.
    \<open>OutboundTargets\<close> and \<open>DeliveryProps\<close> (\<open>outbound_target.go\<close>, \<open>chat_lifecycle.go\<close>): where a message may go, the
    context of a send as an automaton beside the manager and the admission, and the operations that lock a chat.
  \<^item> Sessions. \<open>SessionPins\<close> (\<open>session_pins.go\<close>), \<open>SessionTransfers\<close> (\<open>session_transfers.go\<close>,
    \<open>transfer_persistence.go\<close>): files written before memory changes; the journal of a deletion and every disk a crash can
    leave. \<open>Takeover\<close>, \<open>TakeoverProps\<close> (\<open>process_takeover.go\<close>, \<open>router_takeover.go\<close>,
    \<open>router_ingress_takeover.go\<close>): preparation, progress, exit, restoration and replacement of a session, the record of an
    incoming transfer, what an answer of the takeover tool does to the guard, and when a closed binding may open.
  \<^item> Output. \<open>Notifications\<close> (\<open>router_format.go\<close>), \<open>StatusTexts\<close>: texts of events. \<open>OutboundDispatch\<close>
    (\<open>outbound_dispatcher.go\<close>, \<open>queue_metrics.go\<close>): sharded queues, refined to one queue for each key. \<open>TextSplit\<close>,
    \<open>TextAdapters\<close>, \<open>TextSend\<close> (\<open>im_text_send.go\<close>, \<open>im_text_metrics.go\<close>, the \<open>*_send.go\<close> of the platforms): splitting
    (locales \<open>text_adapter\<close> and \<open>rune_adapter\<close>, interpreted for five platforms), sending and exclusive targets.
    \<open>RateLimiter\<close> (\<open>discord_ratelimiter.go\<close>): buckets of the limits of Discord under every interleaving of calls.

  \<^bold>\<open>What the lemmas show.\<close> Each component has lemmas for the effect of its operations on every branch, an invariant
  with its preservation, and properties, numbered beside the theorems in the order of their importance:
  what is written to a process and in which order; no input accepted twice; no guard of a transfer lost in a crash;
  nothing sent twice or out of order; who may act; the bounds of queues, records, segments and guesses; progress of the
  normalizer, the limiter and stalled deliveries; round trips and reference equivalences of the parsers. A property
  with hypotheses is followed by a witness that runs it on a concrete state.

  \<^bold>\<open>Bounds.\<close> No definition needs fuel: the loops over text recurse on the bytes that are left (\<open>runes\<close>, \<open>scan_json\<close>,
  \<open>json_elements\<close>, \<open>trim_to_valid\<close>), the searches of the splitter on the distance that is left (\<open>gallop\<close>, \<open>bisect\<close>), the
  parser of bind arguments on its domain, shown to be everything. Waiting loops are steps of a relation, and
  their progress is a theorem. The limits of the code are its constants: 32 segments, 64 KiB of text, 128 pending
  inputs of a process, 128 events and 8 workers of the normalizer, 4096 routes of the limiter, 30 guesses.

  \<^bold>\<open>Not modelled, and why.\<close>
  \<^item> The transports of the platforms (Feishu, WeChat, Telegram polling, Slack sockets, DingTalk streams, WeCom and Discord
    web sockets): network input and output through vendor libraries; their decisions appear as the messages they
    hand in and the answers they give. The parts that compute, text escaping, limits and splitting, are modelled.
  \<^item> \<open>router.go\<close>, \<open>router_commands.go\<close> and the other \<open>router_*.go\<close>: wiring between the parts modelled here and replies in
    prose; the parsers, the formatting and the targets they use are modelled.
  \<^item> Reading YAML and environment files, the command line, logging, instance locks, process groups, images and the
    start of programs: system calls and libraries with no state of the gateway's own.
  \<^item> Goroutines, contexts and locks as such: their effect is the order of steps. Where Go leaves the order of a map
    open, the model walks an association list whose order is arbitrary, as the properties hold for all of them.
\<close>

end
